(* ===== verification/Prelude.thy ===== *)
theory Prelude
  imports Main "HOL-Library.Word"
begin

text \<open>
  Shared vocabulary of the development: the machine integers of the code, byte strings,
  and the flat byte memory in which the C functions write their output buffers.

  A pointer is a \<open>nat\<close> address of the memory \<open>mem\<close>.  A write outside the buffer a
  function was given is a write to some other address, as in C; the frame lemmas of the
  components say that no such write happens.  Read-only inputs that no function overwrites
  are passed by value, as byte lists.
\<close>

unbundle bit_operations_syntax

type_synonym u8 = "8 word"
type_synonym u32 = "32 word"
type_synonym u64 = "64 word"
type_synonym bytes = "u8 list"
type_synonym mem = "nat \<Rightarrow> u8"

named_theorems mem_simps \<open>loads from and stores to the flat memory\<close>
named_theorems len_simps \<open>lengths of the byte strings the operations produce\<close>

section \<open>Flat memory\<close>

definition load :: "mem \<Rightarrow> nat \<Rightarrow> nat \<Rightarrow> bytes" where
  "load m p n = map m [p..<p + n]"

definition store :: "mem \<Rightarrow> nat \<Rightarrow> bytes \<Rightarrow> mem" where
  "store m p bs = (\<lambda>a. if p \<le> a \<and> a < p + length bs then bs ! (a - p) else m a)"

text \<open>Two memories that agree outside an interval: the shape of every frame lemma.\<close>

definition unchanged_outside :: "nat \<Rightarrow> nat \<Rightarrow> mem \<Rightarrow> mem \<Rightarrow> bool" where
  "unchanged_outside p n m m' \<longleftrightarrow> (\<forall>a. a < p \<or> p + n \<le> a \<longrightarrow> m' a = m a)"

lemma length_load [simp, len_simps]: "length (load m p n) = n"
  by (simp add: load_def)

lemma load_0 [simp]: "load m p 0 = []"
  by (simp add: load_def)

lemma load_Suc: "load m p (Suc n) = m p # load m (Suc p) n"
  by (rule nth_equalityI) (auto simp: nth_Cons' load_def simp del: upt_Suc)

lemma nth_load [simp]: "i < n \<Longrightarrow> load m p n ! i = m (p + i)"
  by (simp add: load_def)

lemma load_add: "load m p (a + b) = load m p a @ load m (p + a) b"
proof -
  have "[p..<p + (a + b)] = [p..<p + a] @ [p + a..<p + a + b]"
    using upt_add_eq_append [of p "p + a" b] by (simp only: add.assoc le_add1)
  then show ?thesis by (simp add: load_def)
qed

lemma load_cong: "(\<And>i. i < n \<Longrightarrow> m (p + i) = m' (q + i)) \<Longrightarrow> load m p n = load m' q n"
  by (rule nth_equalityI) auto

lemma take_load: "take k (load m p n) = load m p (min k n)"
  by (rule nth_equalityI) auto

lemma drop_load: "drop k (load m p n) = load m (p + k) (n - k)"
  by (rule nth_equalityI) (auto simp: add.assoc)

lemma store_at [mem_simps]: "i < length bs \<Longrightarrow> store m p bs (p + i) = bs ! i"
  by (simp add: store_def)

lemma store_other [mem_simps]: "a < p \<or> p + length bs \<le> a \<Longrightarrow> store m p bs a = m a"
  by (auto simp: store_def)

lemma store_Nil [simp]: "store m p [] = m"
  by (rule ext) (auto simp: store_def)

lemma load_store_same [mem_simps]: "n = length bs \<Longrightarrow> load (store m p bs) p n = bs"
  by (rule nth_equalityI) (auto simp: store_at)

lemma load_store_disjoint [mem_simps]:
  "p + n \<le> q \<or> q + length bs \<le> p \<Longrightarrow> load (store m q bs) p n = load m p n"
  by (rule load_cong) (auto simp: store_other)

lemma store_store_append [mem_simps]:
  "store (store m p xs) (p + length xs) ys = store m p (xs @ ys)"
  by (rule ext) (auto simp: store_def nth_append)

lemma store_swap:
  assumes "p + length xs \<le> q \<or> q + length ys \<le> p"
  shows "store (store m p xs) q ys = store (store m q ys) p xs"
  using assms by (intro ext) (auto simp: store_def)

lemma store_load_self: "store m p (load m p n) = m"
  by (rule ext) (auto simp: store_def)

lemma fun_upd_as_store: "m(p := b) = store m p [b]"
  by (rule ext) (auto simp: store_def)

lemma unchanged_outside_refl [simp, intro]: "unchanged_outside p n m m"
  by (simp add: unchanged_outside_def)

lemma unchanged_outside_trans:
  "unchanged_outside p n m m' \<Longrightarrow> unchanged_outside p n m' m'' \<Longrightarrow> unchanged_outside p n m m''"
  by (auto simp: unchanged_outside_def)

lemma unchanged_outside_mono:
  "unchanged_outside q k m m' \<Longrightarrow> p \<le> q \<Longrightarrow> q + k \<le> p + n \<Longrightarrow> unchanged_outside p n m m'"
  by (auto simp: unchanged_outside_def)

lemma unchanged_outside_store [intro]:
  "p \<le> q \<Longrightarrow> q + length bs \<le> p + n \<Longrightarrow> unchanged_outside p n m (store m q bs)"
  by (auto simp: unchanged_outside_def store_def)

lemma unchanged_outside_load:
  "unchanged_outside p n m m' \<Longrightarrow> q + k \<le> p \<or> p + n \<le> q \<Longrightarrow> load m' q k = load m q k"
  by (rule load_cong) (auto simp: unchanged_outside_def)

section \<open>Words and numbers\<close>

lemma unat_of_nat_u32: "k < 2 ^ 32 \<Longrightarrow> unat (of_nat k :: u32) = k"
  by (simp add: unat_of_nat)

section \<open>Blocks of a byte string\<close>

text \<open>The whole blocks of \<open>n\<close> bytes; a rest that is shorter is left out.\<close>

fun blocks :: "nat \<Rightarrow> 'a list \<Rightarrow> 'a list list" where
  "blocks n bs = (if n = 0 \<or> length bs < n then [] else take n bs # blocks n (drop n bs))"

declare blocks.simps [simp del]

lemma blocks_Nil [simp]: "blocks n [] = []"
  by (cases n) (simp_all add: blocks.simps)

lemma blocks_append:
  "n dvd length p \<Longrightarrow> blocks n (p @ q) = blocks n p @ blocks n q"
proof (induction n p rule: blocks.induct)
  case (1 n p)
  show ?case
  proof (cases "n = 0 \<or> p = []")
    case True
    then show ?thesis by (auto simp: blocks.simps [of 0])
  next
    case False
    with 1(2) have "n \<le> length p" by (auto dest: dvd_imp_le)
    moreover have "n dvd length (drop n p)" using 1(2) by simp
    ultimately show ?thesis
      using 1(1) False by (auto simp: blocks.simps [of n p] blocks.simps [of n "p @ q"])
  qed
qed

lemma blocks_single [simp]: "0 < n \<Longrightarrow> length b = n \<Longrightarrow> blocks n b = [b]"
  by (simp add: blocks.simps [of n b])

section \<open>size_t arithmetic that can wrap\<close>

text \<open>
  Lengths of buffers are \<open>nat\<close>: a buffer in memory is far shorter than \<open>2 ^ 64\<close>.
  Where the code subtracts lengths without a check first, the 64-bit wrap-around is kept.
\<close>

definition size_sub :: "nat \<Rightarrow> nat \<Rightarrow> nat" where
  "size_sub a b = unat ((of_nat a :: u64) - of_nat b)"

lemma size_sub_no_wrap: "b \<le> a \<Longrightarrow> a < 2 ^ 64 \<Longrightarrow> size_sub a b = a - b"
  unfolding size_sub_def
  by (simp flip: of_nat_diff add: unat_of_nat)

end
