(* ===== verification/Base64.thy ===== *)
theory Base64
  imports Prelude
begin

text \<open>
  \<open>src/base64.cpp\<close>: unpadded base64, written against the flat memory because the code
  encodes and decodes in place.  \<open>b64enc\<close> and \<open>b64dec\<close> are the same routines on byte
  strings; \<open>rfc4648_encode\<close> is an independent specification on bit strings.
\<close>

section \<open>The code\<close>

definition ENCODE_BASE64 :: "u8 list" where
  "ENCODE_BASE64 = [
    0x41, 0x42, 0x43, 0x44, 0x45, 0x46, 0x47, 0x48,
    0x49, 0x4A, 0x4B, 0x4C, 0x4D, 0x4E, 0x4F, 0x50,
    0x51, 0x52, 0x53, 0x54, 0x55, 0x56, 0x57, 0x58,
    0x59, 0x5A, 0x61, 0x62, 0x63, 0x64, 0x65, 0x66,
    0x67, 0x68, 0x69, 0x6A, 0x6B, 0x6C, 0x6D, 0x6E,
    0x6F, 0x70, 0x71, 0x72, 0x73, 0x74, 0x75, 0x76,
    0x77, 0x78, 0x79, 0x7A, 0x30, 0x31, 0x32, 0x33,
    0x34, 0x35, 0x36, 0x37, 0x38, 0x39, 0x2B, 0x2F]"

text \<open>\<open>static const std::uint8_t E = -1\<close>\<close>

abbreviation E_CHAR :: u8 where "E_CHAR \<equiv> 0xFF"

definition DECODE_BASE64 :: "u8 list" where
  "DECODE_BASE64 =
    replicate 43 E_CHAR @ [62, E_CHAR, E_CHAR, E_CHAR, 63,
    52, 53, 54, 55, 56, 57, 58, 59, 60, 61] @ replicate 6 E_CHAR @
    [E_CHAR,  0,  1,  2,  3,  4,  5,  6,  7,  8,  9, 10, 11, 12, 13, 14,
    15, 16, 17, 18, 19, 20, 21, 22, 23, 24, 25] @ replicate 5 E_CHAR @
    [E_CHAR, 26, 27, 28, 29, 30, 31, 32, 33, 34, 35, 36, 37, 38, 39, 40,
    41, 42, 43, 44, 45, 46, 47, 48, 49, 50, 51] @ replicate 5 E_CHAR"

definition enc_char :: "u32 \<Rightarrow> u8" where
  "enc_char value = ENCODE_BASE64 ! unat value"

definition dec_char :: "u8 \<Rightarrow> u32" where
  "dec_char c = ucast (DECODE_BASE64 ! unat (c AND 0x7F))"

definition encode_base64_length :: "nat \<Rightarrow> nat" where
  "encode_base64_length input_length =
     4 * ((input_length + 2) div 3) + (input_length + 2) mod 3 - 2"

text \<open>
  The loop of \<open>encode_base64\<close>: \<open>pos\<close> runs over whole groups of three bytes, so the
  number of groups left is \<open>(end - pos) / 3\<close>.  The result is the memory and the final
  \<open>pos\<close> and \<open>output\<close>.
\<close>

fun encode_base64_loop :: "nat \<Rightarrow> mem \<Rightarrow> nat \<Rightarrow> nat \<Rightarrow> mem \<times> nat \<times> nat" where
  "encode_base64_loop 0 m pos output = (m, pos, output)"
| "encode_base64_loop (Suc groups) m pos output =
     (let v0 = ucast (m pos) :: u32;
          v1 = push_bit 8 v0 OR ucast (m (pos + 1));
          v2 = push_bit 8 v1 OR ucast (m (pos + 2));
          m1 = m(output + 3 := enc_char (v2 AND 0x3F));
          v3 = drop_bit 6 v2; m2 = m1(output + 2 := enc_char (v3 AND 0x3F));
          v4 = drop_bit 6 v3; m3 = m2(output + 1 := enc_char (v4 AND 0x3F));
          v5 = drop_bit 6 v4; m4 = m3(output := enc_char v5)
      in encode_base64_loop groups m4 (pos + 3) (output + 4))"

text \<open>Returns the memory and the pointer one past the last character written.\<close>

definition encode_base64 :: "mem \<Rightarrow> nat \<Rightarrow> nat \<Rightarrow> nat \<Rightarrow> mem \<times> nat" where
  "encode_base64 m input input_length output0 =
     (let (m, pos, output) = encode_base64_loop (input_length div 3) m input output0;
          remainder = input + input_length - pos
      in if remainder \<noteq> 0 then
           let v0 = ucast (m pos) :: u32 in
           if remainder = 2 then
             let v1 = push_bit 8 v0 OR ucast (m (pos + 1));
                 v2 = push_bit 2 v1;
                 m1 = m(output + 2 := enc_char (v2 AND 0x3F));
                 v3 = drop_bit 6 v2;
                 m2 = m1(output + 1 := enc_char (v3 AND 0x3F));
                 v4 = drop_bit 6 v3
             in (m2(output := enc_char v4), output + 3)
           else
             let v1 = push_bit 4 v0;
                 m1 = m(output + 1 := enc_char (v1 AND 0x3F));
                 v2 = drop_bit 6 v1
             in (m1(output := enc_char v2), output + 2)
         else (m, output))"

text \<open>\<open>None\<close> is \<open>std::size_t(-1)\<close>.\<close>

definition decode_base64_length :: "nat \<Rightarrow> nat option" where
  "decode_base64_length input_length =
     (if input_length mod 4 = 1 then None
      else Some (3 * ((input_length + 2) div 4) + (input_length + 2) mod 4 - 2))"

fun decode_base64_loop :: "nat \<Rightarrow> mem \<Rightarrow> nat \<Rightarrow> nat \<Rightarrow> mem \<times> nat \<times> nat" where
  "decode_base64_loop 0 m pos output = (m, pos, output)"
| "decode_base64_loop (Suc groups) m pos output =
     (let v0 = dec_char (m pos);
          v1 = push_bit 6 v0 OR dec_char (m (pos + 1));
          v2 = push_bit 6 v1 OR dec_char (m (pos + 2));
          v3 = push_bit 6 v2 OR dec_char (m (pos + 3));
          m1 = m(output + 2 := ucast v3);
          v4 = drop_bit 8 v3; m2 = m1(output + 1 := ucast v4);
          v5 = drop_bit 8 v4; m3 = m2(output := ucast v5)
      in decode_base64_loop groups m3 (pos + 4) (output + 3))"

definition decode_base64 :: "mem \<Rightarrow> nat \<Rightarrow> nat \<Rightarrow> nat \<Rightarrow> mem \<times> nat option" where
  "decode_base64 m input input_length output0 =
     (let raw_length = decode_base64_length input_length in
      if raw_length = None then (m, None)
      else
        let (m, pos, output) = decode_base64_loop (input_length div 4) m input output0;
            remainder = input + input_length - pos
        in if remainder \<noteq> 0 then
             let v1 = push_bit 6 (dec_char (m pos)) OR dec_char (m (pos + 1)) in
             if remainder = 3 then
               let v2 = push_bit 6 v1 OR dec_char (m (pos + 2));
                   v3 = drop_bit 2 v2;
                   m1 = m(output + 1 := ucast v3);
                   v4 = drop_bit 8 v3
               in (m1(output := ucast v4), raw_length)
             else
               let v2 = drop_bit 4 v1
               in (m(output := ucast v2), raw_length)
           else (m, raw_length))"

text \<open>The C bindings.\<close>

definition olm_encode_base64 :: "mem \<Rightarrow> nat \<Rightarrow> nat \<Rightarrow> nat \<Rightarrow> mem \<times> nat" where
  "olm_encode_base64 m input input_length output =
     (let (m, r) = encode_base64 m input input_length output in (m, r - output))"

definition olm_decode_base64 :: "mem \<Rightarrow> nat \<Rightarrow> nat \<Rightarrow> nat \<Rightarrow> mem \<times> nat option" where
  "olm_decode_base64 m input input_length output = decode_base64 m input input_length output"

section \<open>The same routines on byte strings\<close>

text \<open>Up to 24 bits of input, and the bits of two to four decoded characters.\<close>

definition pack3 :: "u8 \<Rightarrow> u8 \<Rightarrow> u8 \<Rightarrow> u32" where
  "pack3 a b c = push_bit 8 (push_bit 8 (ucast a) OR ucast b) OR ucast c"

definition pack2 :: "u8 \<Rightarrow> u8 \<Rightarrow> u32" where
  "pack2 a b = push_bit 2 (push_bit 8 (ucast a) OR ucast b)"

definition pack1 :: "u8 \<Rightarrow> u32" where
  "pack1 a = push_bit 4 (ucast a)"

definition join2 :: "u32 \<Rightarrow> u32 \<Rightarrow> u32" where
  "join2 a b = push_bit 6 a OR b"

definition enc3 :: "u8 \<Rightarrow> u8 \<Rightarrow> u8 \<Rightarrow> bytes" where
  "enc3 a b c =
     (let v = pack3 a b c
      in [enc_char (drop_bit 18 v), enc_char (drop_bit 12 v AND 0x3F),
          enc_char (drop_bit 6 v AND 0x3F), enc_char (v AND 0x3F)])"

definition enc2 :: "u8 \<Rightarrow> u8 \<Rightarrow> bytes" where
  "enc2 a b =
     (let v = pack2 a b
      in [enc_char (drop_bit 12 v), enc_char (drop_bit 6 v AND 0x3F), enc_char (v AND 0x3F)])"

definition enc1 :: "u8 \<Rightarrow> bytes" where
  "enc1 a = (let v = pack1 a in [enc_char (drop_bit 6 v), enc_char (v AND 0x3F)])"

fun b64enc :: "bytes \<Rightarrow> bytes" where
  "b64enc (a # b # c # r) = enc3 a b c @ b64enc r"
| "b64enc [a, b] = enc2 a b"
| "b64enc [a] = enc1 a"
| "b64enc [] = []"

definition dec4 :: "u8 \<Rightarrow> u8 \<Rightarrow> u8 \<Rightarrow> u8 \<Rightarrow> bytes" where
  "dec4 a b c d =
     (let v = join2 (join2 (join2 (dec_char a) (dec_char b)) (dec_char c)) (dec_char d)
      in [ucast (drop_bit 16 v), ucast (drop_bit 8 v), ucast v])"

definition dec3 :: "u8 \<Rightarrow> u8 \<Rightarrow> u8 \<Rightarrow> bytes" where
  "dec3 a b c =
     (let v = drop_bit 2 (join2 (join2 (dec_char a) (dec_char b)) (dec_char c))
      in [ucast (drop_bit 8 v), ucast v])"

definition dec2 :: "u8 \<Rightarrow> u8 \<Rightarrow> bytes" where
  "dec2 a b = [ucast (drop_bit 4 (join2 (dec_char a) (dec_char b)))]"

text \<open>\<open>None\<close> exactly when the length is refused: the code never looks for bad characters.\<close>

fun b64dec :: "bytes \<Rightarrow> bytes option" where
  "b64dec (a # b # c # d # r) = map_option ((@) (dec4 a b c d)) (b64dec r)"
| "b64dec [a, b, c] = Some (dec3 a b c)"
| "b64dec [a, b] = Some (dec2 a b)"
| "b64dec [a] = None"
| "b64dec [] = Some []"

lemma length_enc [simp, len_simps]:
  "length (enc3 a b c) = 4" "length (enc2 a b) = 3" "length (enc1 a) = 2"
  by (simp_all add: enc3_def enc2_def enc1_def Let_def)

lemma length_dec [simp, len_simps]:
  "length (dec4 a b c d) = 3" "length (dec3 a b c) = 2" "length (dec2 a b) = 1"
  by (simp_all add: dec4_def dec3_def dec2_def Let_def)

text \<open>Closed forms of the two length functions.\<close>

lemma encode_base64_length_alt: "encode_base64_length n = n + (n + 2) div 3"
  using div_mult_mod_eq [of "n + 2" 3] unfolding encode_base64_length_def by linarith

lemma decode_base64_length_alt:
  "decode_base64_length n = (if n mod 4 = 1 then None else Some (n - (n + 2) div 4))"
proof -
  have "3 * ((n + 2) div 4) + (n + 2) mod 4 - 2 = n - (n + 2) div 4"
    using div_mult_mod_eq [of "n + 2" 4] by linarith
  then show ?thesis by (simp add: decode_base64_length_def)
qed

lemma div3_cases:
  obtains q where "(n :: nat) = 3 * q" | q where "n = 3 * q + 1" | q where "n = 3 * q + 2"
proof -
  have "n = 3 * (n div 3) + n mod 3" and "n mod 3 = 0 \<or> n mod 3 = 1 \<or> n mod 3 = 2"
    by auto
  then show thesis
    by (elim disjE) (metis add_0_right that(1), metis that(2), metis that(3))
qed

lemma encode_base64_length_step [simp]:
  "encode_base64_length (Suc (Suc (Suc n))) = encode_base64_length n + 4"
proof -
  have "Suc (Suc (Suc n)) + 2 = n + 2 + 3" by simp
  then have "(Suc (Suc (Suc n)) + 2) div 3 = (n + 2) div 3 + 1"
    by (metis div_add_self2 zero_neq_numeral)
  then show ?thesis by (simp add: encode_base64_length_alt)
qed

lemma encode_base64_length_small [simp]:
  "encode_base64_length 0 = 0" "encode_base64_length (Suc 0) = 2"
  "encode_base64_length (Suc (Suc 0)) = 3"
  by (simp_all add: encode_base64_length_def)

lemma encode_base64_length_le: "n \<le> encode_base64_length n"
  by (simp add: encode_base64_length_alt)

lemma encode_base64_length_less: "0 < n \<Longrightarrow> n < encode_base64_length n"
  by (simp add: encode_base64_length_alt)

lemma length_b64enc [simp, len_simps]: "length (b64enc bs) = encode_base64_length (length bs)"
  by (induction bs rule: b64enc.induct) simp_all

lemma decode_base64_length_step [simp]:
  "decode_base64_length (Suc (Suc (Suc (Suc n)))) = map_option ((+) 3) (decode_base64_length n)"
proof -
  have eq: "Suc (Suc (Suc (Suc n))) = n + 4" by simp
  have "n + 4 - (n + 2 + 4) div 4 = 3 + (n - (n + 2) div 4)" by simp
  moreover have "(n + 4) mod 4 = n mod 4" by simp
  ultimately show ?thesis
    unfolding eq decode_base64_length_alt by (simp add: add.commute add.left_commute)
qed

lemma decode_base64_length_small [simp]:
  "decode_base64_length 0 = Some 0" "decode_base64_length (Suc 0) = None"
  "decode_base64_length (Suc (Suc 0)) = Some 1" "decode_base64_length (Suc (Suc (Suc 0))) = Some 2"
  by (simp_all add: decode_base64_length_def)

lemma b64dec_length:
  "map_option length (b64dec bs) = decode_base64_length (length bs)"
proof (induction bs rule: b64dec.induct)
  case (1 a b c d r)
  show ?case by (simp add: option.map_comp comp_def flip: "1.IH")
qed simp_all

lemma encode_base64_length_of_mult:
  "encode_base64_length (3 * q) = 4 * q"
  "encode_base64_length (3 * q + 1) = 4 * q + 2"
  "encode_base64_length (3 * q + 2) = 4 * q + 3"
  by (induction q) (simp_all add: numeral_3_eq_3)

lemma decode_base64_length_of_mult:
  "decode_base64_length (4 * q) = Some (3 * q)"
  "decode_base64_length (4 * q + 2) = Some (3 * q + 1)"
  "decode_base64_length (4 * q + 3) = Some (3 * q + 2)"
  by (induction q) (simp_all add: eval_nat_numeral)

lemma decode_encode_length [simp]:
  "decode_base64_length (encode_base64_length n) = Some n"
  by (cases n rule: div3_cases)
     (simp_all only: encode_base64_length_of_mult decode_base64_length_of_mult)

section \<open>Decoding undoes encoding\<close>

lemma code_tables_inverse:
  "\<forall>i\<in>set [0..<64]. DECODE_BASE64 ! unat (ENCODE_BASE64 ! i AND 0x7F) = of_nat i"
  by code_simp

lemma mask6: "(0x3F :: 'a::len word) = mask 6"
  by (simp add: mask_eq_exp_minus_1)

lemma sextet_less: "(x :: u32) AND 0x3F < 64"
  using and_mask_less_size [of 6 x] by (simp add: mask6 word_size)

lemma dec_enc_char:
  assumes "x AND 0x3F = x"
  shows "dec_char (enc_char x) = x"
proof -
  have "x < 64" using sextet_less [of x] by (simp add: assms)
  then have "unat x < 64" by (simp add: word_less_nat_alt)
  then have "DECODE_BASE64 ! unat (ENCODE_BASE64 ! unat x AND 0x7F) = ucast x"
    using code_tables_inverse by simp
  moreover have "ucast (ucast x :: u8) = x"
  proof (rule bit_word_eqI)
    fix n
    have "bit x n \<longleftrightarrow> bit (x AND mask 6) n" using assms by (simp add: mask6)
    then show "bit (ucast (ucast x :: u8) :: u32) n \<longleftrightarrow> bit x n" if "n < LENGTH(32)"
      using that by (auto simp: bit_simps)
  qed
  ultimately show ?thesis by (simp add: dec_char_def enc_char_def)
qed

lemma join2_split: "join2 (drop_bit 6 v) (v AND 0x3F) = v"
  unfolding join2_def mask6 by (rule bit_word_eqI) (auto simp: bit_simps)

lemma join2_split': "join2 (drop_bit (k + 6) v) (drop_bit k v AND 0x3F) = drop_bit k v"
  using join2_split [of "drop_bit k v"] by (simp add: add.commute)

lemma pack_top_sextet:
  "drop_bit 18 (pack3 a b c) AND 0x3F = drop_bit 18 (pack3 a b c)"
  "drop_bit 12 (pack2 a b) AND 0x3F = drop_bit 12 (pack2 a b)"
  "drop_bit 6 (pack1 a) AND 0x3F = drop_bit 6 (pack1 a)"
  unfolding pack3_def pack2_def pack1_def mask6
  by (rule bit_word_eqI, auto simp: bit_simps dest: bit_imp_le_length)+

lemma pack3_bytes:
  "ucast (pack3 a b c) = c" "ucast (drop_bit 8 (pack3 a b c)) = b"
  "ucast (drop_bit 16 (pack3 a b c)) = a"
  unfolding pack3_def
  by (rule bit_word_eqI, auto simp: bit_simps dest: bit_imp_le_length)+

lemma pack2_bytes:
  "ucast (drop_bit 2 (pack2 a b)) = b" "ucast (drop_bit 10 (pack2 a b)) = a"
  unfolding pack2_def
  by (rule bit_word_eqI, auto simp: bit_simps dest: bit_imp_le_length)+

lemma pack1_byte: "ucast (drop_bit 4 (pack1 a)) = a"
  unfolding pack1_def
  by (rule bit_word_eqI, auto simp: bit_simps dest: bit_imp_le_length)

lemma dec4_enc3: "enc3 a b c = [w, x, y, z] \<Longrightarrow> dec4 w x y z = [a, b, c]"
  using join2_split' [of 12 "pack3 a b c"] join2_split' [of 6 "pack3 a b c"]
  by (auto simp: enc3_def dec4_def Let_def pack3_bytes dec_enc_char pack_top_sextet join2_split
      simp del: drop_bit_of_0)

lemma dec3_enc2: "enc2 a b = [x, y, z] \<Longrightarrow> dec3 x y z = [a, b]"
  using join2_split' [of 6 "pack2 a b"]
  by (auto simp: enc2_def dec3_def Let_def pack2_bytes dec_enc_char pack_top_sextet join2_split)

lemma dec2_enc1: "enc1 a = [x, y] \<Longrightarrow> dec2 x y = [a]"
  by (auto simp: enc1_def dec2_def Let_def pack1_byte dec_enc_char pack_top_sextet join2_split)

lemma b64dec_b64enc: "b64dec (b64enc bs) = Some bs"
proof (induction bs rule: b64enc.induct)
  case (1 a b c r)
  obtain w x y z where e: "enc3 a b c = [w, x, y, z]" by (simp add: enc3_def Let_def)
  then show ?case using 1 by (simp add: dec4_enc3)
next
  case (2 a b)
  obtain x y z where e: "enc2 a b = [x, y, z]" by (simp add: enc2_def Let_def)
  then show ?case by (simp add: dec3_enc2)
next
  case (3 a)
  obtain x y where e: "enc1 a = [x, y]" by (simp add: enc1_def Let_def)
  then show ?case by (simp add: dec2_enc1)
qed simp

section \<open>In-place encoding and decoding\<close>

text \<open>
  The callers put the raw bytes at the end of the output buffer and encode towards its
  start, and decode a buffer onto itself.  Both are safe: no byte is overwritten before it
  is read.
\<close>

lemma store4:
  "store m p [a, b, c, d] = m(p + 3 := d, p + 2 := c, p + 1 := b, p := a)"
  by (rule ext) (auto simp: store_def nth_Cons')

lemma store3: "store m p [a, b, c] = m(p + 2 := c, p + 1 := b, p := a)"
  by (rule ext) (auto simp: store_def nth_Cons')

lemma store2: "store m p [a, b] = m(p + 1 := b, p := a)"
  by (rule ext) (auto simp: store_def nth_Cons')

lemma load_3: "load m p (Suc (Suc (Suc n))) = m p # m (p + 1) # m (p + 2) # load m (p + 3) n"
  by (simp add: load_Suc eval_nat_numeral)

lemma load_4:
  "load m p (Suc (Suc (Suc (Suc n)))) =
     m p # m (p + 1) # m (p + 2) # m (p + 3) # load m (p + 4) n"
  by (simp add: load_Suc eval_nat_numeral)

lemma encode_base64_step:
  "encode_base64 m pos (Suc (Suc (Suc n))) out =
     encode_base64 (store m out (enc3 (m pos) (m (pos + 1)) (m (pos + 2)))) (pos + 3) n (out + 4)"
proof -
  have d: "Suc (Suc (Suc n)) div 3 = Suc (n div 3)" by simp
  have e: "pos + Suc (Suc (Suc n)) = pos + 3 + n" by simp
  have "encode_base64_loop (Suc (n div 3)) m pos out =
      encode_base64_loop (n div 3) (store m out (enc3 (m pos) (m (pos + 1)) (m (pos + 2))))
        (pos + 3) (out + 4)"
    by (simp add: Let_def enc3_def pack3_def store4)
  then show ?thesis unfolding encode_base64_def d e by simp
qed

lemma encode_base64_base:
  "encode_base64 m pos 0 out = (m, out)"
  "encode_base64 m pos (Suc 0) out = (store m out (enc1 (m pos)), out + 2)"
  "encode_base64 m pos (Suc (Suc 0)) out = (store m out (enc2 (m pos) (m (pos + 1))), out + 3)"
  by (simp_all add: encode_base64_def Let_def enc1_def enc2_def pack1_def pack2_def store2 store3)

fun three_step :: "nat \<Rightarrow> nat" where
  "three_step (Suc (Suc (Suc n))) = three_step n"
| "three_step n = n"

lemma encode_base64_eq:
  assumes "out + encode_base64_length n \<le> pos + n \<or> pos + n \<le> out"
  shows "encode_base64 m pos n out =
           (store m out (b64enc (load m pos n)), out + encode_base64_length n)"
  using assms
proof (induction n arbitrary: m pos out rule: three_step.induct)
  case (1 n)
  let ?g = "enc3 (m pos) (m (pos + 1)) (m (pos + 2))"
  have apart: "pos + 3 + n \<le> out \<or> out + length ?g \<le> pos + 3"
    using 1(2) encode_base64_length_le [of n] by auto
  have "encode_base64 (store m out ?g) (pos + 3) n (out + 4) =
      (store (store m out ?g) (out + 4) (b64enc (load (store m out ?g) (pos + 3) n)),
       out + 4 + encode_base64_length n)"
    using 1(2) by (intro "1.IH") auto
  also have "load (store m out ?g) (pos + 3) n = load m (pos + 3) n"
    using apart by (intro load_store_disjoint) auto
  finally show ?case
    using store_store_append [of m out ?g]
    by (simp add: encode_base64_step load_3)
qed (simp_all add: encode_base64_base load_Suc numeral_2_eq_2)

lemma olm_encode_base64_eq:
  "out + encode_base64_length n \<le> pos + n \<or> pos + n \<le> out \<Longrightarrow>
     olm_encode_base64 m pos n out = (store m out (b64enc (load m pos n)), encode_base64_length n)"
  by (simp add: olm_encode_base64_def encode_base64_eq)

lemma decode_base64_step:
  assumes "decode_base64_length n = Some k"
  shows "decode_base64 m pos (Suc (Suc (Suc (Suc n)))) out =
     (fst (decode_base64
        (store m out (dec4 (m pos) (m (pos + 1)) (m (pos + 2)) (m (pos + 3))))
        (pos + 4) n (out + 3)), Some (3 + k))"
proof -
  have d: "Suc (Suc (Suc (Suc n))) div 4 = Suc (n div 4)" by simp
  have e: "pos + Suc (Suc (Suc (Suc n))) = pos + 4 + n" by simp
  let ?m1 = "store m out (dec4 (m pos) (m (pos + 1)) (m (pos + 2)) (m (pos + 3)))"
  have D: "decode_base64_loop (Suc (n div 4)) m pos out =
      decode_base64_loop (n div 4) ?m1 (pos + 4) (out + 3)"
    by (simp add: Let_def dec4_def join2_def store3)
  obtain m' p' o' where L: "decode_base64_loop (n div 4) ?m1 (pos + 4) (out + 3) = (m', p', o')"
    by (metis prod_cases3)
  show ?thesis
    unfolding decode_base64_def d e D L
    by (simp add: assms Let_def)
qed

lemma decode_base64_fail:
  "decode_base64_length n = None \<Longrightarrow> decode_base64 m pos n out = (m, None)"
  by (simp add: decode_base64_def)

lemma decode_base64_base:
  "decode_base64 m pos 0 out = (m, Some 0)"
  "decode_base64 m pos (Suc 0) out = (m, None)"
  "decode_base64 m pos (Suc (Suc 0)) out = (store m out (dec2 (m pos) (m (pos + 1))), Some 1)"
  "decode_base64 m pos (Suc (Suc (Suc 0))) out =
     (store m out (dec3 (m pos) (m (pos + 1)) (m (pos + 2))), Some 2)"
  by (simp_all add: decode_base64_def Let_def dec2_def dec3_def join2_def store2 fun_upd_as_store)

fun four_step :: "nat \<Rightarrow> nat" where
  "four_step (Suc (Suc (Suc (Suc n)))) = four_step n"
| "four_step n = n"

definition decode_result :: "mem \<Rightarrow> nat \<Rightarrow> bytes option \<Rightarrow> mem \<times> nat option" where
  "decode_result m out r =
     (case r of None \<Rightarrow> (m, None) | Some raw \<Rightarrow> (store m out raw, Some (length raw)))"

lemma decode_base64_eq:
  assumes "out \<le> pos \<or> pos + n \<le> out"
  shows "decode_base64 m pos n out = decode_result m out (b64dec (load m pos n))"
  using assms
proof (induction n arbitrary: m pos out rule: four_step.induct)
  case (1 n)
  let ?g = "dec4 (m pos) (m (pos + 1)) (m (pos + 2)) (m (pos + 3))"
  have IH: "decode_base64 (store m out ?g) (pos + 4) n (out + 3) =
      decode_result (store m out ?g) (out + 3) (b64dec (load (store m out ?g) (pos + 4) n))"
    using 1(2) by (intro "1.IH") auto
  have ld: "load (store m out ?g) (pos + 4) n = load m (pos + 4) n"
    using 1(2) by (intro load_store_disjoint) auto
  have len: "map_option length (b64dec (load m (pos + 4) n)) = decode_base64_length n"
    by (simp add: b64dec_length)
  show ?case
  proof (cases "b64dec (load m (pos + 4) n)")
    case None
    then show ?thesis using len by (simp add: decode_base64_fail load_4 decode_result_def)
  next
    case (Some raw)
    then have "decode_base64_length n = Some (length raw)" using len by simp
    then show ?thesis using IH [unfolded ld] Some store_store_append [of m out ?g]
      by (simp add: decode_base64_step load_4 decode_result_def)
  qed
qed (simp_all add: decode_base64_base load_Suc decode_result_def)

lemma olm_decode_base64_eq:
  "out \<le> pos \<or> pos + n \<le> out \<Longrightarrow>
     olm_decode_base64 m pos n out = decode_result m out (b64dec (load m pos n))"
  by (simp add: olm_decode_base64_def decode_base64_eq)

text \<open>A base64 string that someone encoded, decoded anywhere it does not overwrite itself.\<close>

lemma olm_decode_base64_encoded:
  assumes "load m pos n = b64enc raw" "out \<le> pos \<or> pos + n \<le> out"
  shows "olm_decode_base64 m pos n out = (store m out raw, Some (length raw))"
  using assms by (simp add: olm_decode_base64_eq b64dec_b64enc decode_result_def)

text \<open>
  A field of an object as the source of the encoder, or a local array as the target of the
  decoder, does not overlap the caller's buffers: the routines on byte strings are what the
  code computes then.
\<close>

definition encode_base64_from :: "bytes \<Rightarrow> mem \<Rightarrow> nat \<Rightarrow> mem \<times> nat" where
  "encode_base64_from bs m output = (store m output (b64enc bs), encode_base64_length (length bs))"

lemma encode_base64_from_eq:
  assumes "load m p n = bs" "p + n \<le> output \<or> output + encode_base64_length n \<le> p"
  shows "encode_base64_from bs m output = olm_encode_base64 m p n output"
  using assms by (auto simp: encode_base64_from_def olm_encode_base64_eq)

definition decode_base64_into :: "bytes \<Rightarrow> bytes option" where
  "decode_base64_into bs = b64dec bs"

lemma decode_base64_into_eq:
  assumes "load m p n = bs" "p + n \<le> output"
  shows "olm_decode_base64 m p n output = decode_result m output (decode_base64_into bs)"
  using assms by (simp add: decode_base64_into_def olm_decode_base64_eq)

section \<open>The specification: RFC 4648 without padding\<close>

definition base64_alphabet :: "u8 list" where
  "base64_alphabet = map (\<lambda>c. of_nat (of_char c))
     ''ABCDEFGHIJKLMNOPQRSTUVWXYZabcdefghijklmnopqrstuvwxyz0123456789+/''"

definition byte_bits :: "u8 \<Rightarrow> bool list" where
  "byte_bits b = map (bit b) (rev [0..<8])"

text \<open>Groups of six bits, the last one filled up with zeros.\<close>

fun sextets :: "bool list \<Rightarrow> bool list list" where
  "sextets (a # b # c # d # e # f # r) = [a, b, c, d, e, f] # sextets r"
| "sextets [] = []"
| "sextets r = [r @ replicate (6 - length r) False]"

definition bits_value :: "bool list \<Rightarrow> nat" where
  "bits_value s = horner_sum of_bool 2 (rev s)"

definition rfc4648_encode :: "bytes \<Rightarrow> bytes" where
  "rfc4648_encode bs =
     map (\<lambda>s. base64_alphabet ! bits_value s) (sextets (concat (map byte_bits bs)))"

lemma base64_alphabet_eq: "base64_alphabet = ENCODE_BASE64"
  by code_simp

lemma byte_bits_expand:
  "byte_bits b = [bit b 7, bit b 6, bit b 5, bit b 4, bit b 3, bit b 2, bit b 1, bit b 0]"
  by (simp add: byte_bits_def upt_rec eval_nat_numeral)

lemma unat_sextet:
  assumes "x AND 0x3F = (x :: u32)"
  shows "unat x = bits_value [bit x 5, bit x 4, bit x 3, bit x 2, bit x 1, bit x 0]"
proof -
  have "take_bit 6 x = x" using assms by (simp add: mask6 take_bit_eq_mask)
  then have "unat x = take_bit 6 (unat x)" by (metis unsigned_take_bit_eq)
  also have "\<dots> = horner_sum of_bool 2 (map (bit (unat x)) [0..<6])"
    by (simp add: horner_sum_bit_eq_take_bit)
  also have "map (bit (unat x)) [0..<6] =
      rev [bit x 5, bit x 4, bit x 3, bit x 2, bit x 1, bit x 0]"
    by (simp add: upt_rec bit_unsigned_iff bit_simps eval_nat_numeral)
  finally show ?thesis by (simp add: bits_value_def)
qed

lemma enc_char_sextet:
  "x AND 0x3F = x \<Longrightarrow>
     enc_char x =
       base64_alphabet ! bits_value [bit x 5, bit x 4, bit x 3, bit x 2, bit x 1, bit x 0]"
  by (simp add: enc_char_def unat_sextet base64_alphabet_eq)

lemma and_sextet_idem: "((x :: u32) AND 0x3F) AND 0x3F = x AND 0x3F"
  by (simp add: and.assoc)

lemmas sextet_bits =
  enc_char_sextet [OF and_sextet_idem] enc_char_sextet [OF pack_top_sextet(1)]
  enc_char_sextet [OF pack_top_sextet(2)] enc_char_sextet [OF pack_top_sextet(3)]

lemma not_bit_u8 [simp]: "8 \<le> n \<Longrightarrow> \<not> bit (b :: u8) n"
  by (auto dest: bit_imp_le_length)

lemma replicate_2_4: "replicate 2 x = [x, x]" "replicate 4 x = [x, x, x, x]"
  by (simp_all add: eval_nat_numeral)

lemma enc3_spec:
  "enc3 a b c @ rfc4648_encode r = rfc4648_encode (a # b # c # r)"
  by (simp add: enc3_def rfc4648_encode_def byte_bits_expand sextet_bits Let_def)
     (simp add: pack3_def bit_simps mask6)

lemma enc2_spec: "enc2 a b = rfc4648_encode [a, b]"
  by (simp add: enc2_def rfc4648_encode_def byte_bits_expand sextet_bits Let_def)
     (simp add: pack2_def bit_simps mask6 replicate_2_4)

lemma enc1_spec: "enc1 a = rfc4648_encode [a]"
  by (simp add: enc1_def rfc4648_encode_def byte_bits_expand sextet_bits Let_def)
     (simp add: pack1_def bit_simps mask6 replicate_2_4)

lemma b64enc_spec: "b64enc bs = rfc4648_encode bs"
  by (induction bs rule: b64enc.induct)
     (simp_all add: enc3_spec enc2_spec enc1_spec, simp add: rfc4648_encode_def)

section \<open>Properties\<close>

lemma decode_result_length:
  "snd (olm_decode_base64 m pos n out) = (if n mod 4 = 1 then None else Some (n - (n + 2) div 4))"
  by (auto simp: olm_decode_base64_def decode_base64_def decode_base64_length_alt Let_def split: prod.split)

text \<open>C39: Encoding bytes, where the input lies anywhere that is not overtaken by the output (at
  the end of the output buffer, for instance), writes their RFC 4648 encoding and nothing else;
  decoding it in place gives the bytes back.  Decoding looks at the length only: it fails exactly
  for the lengths that no encoding has, one more than a multiple of four, and accepts any
  characters otherwise.\<close>

theorem base64_encode_decode:
  assumes "out + encode_base64_length n \<le> pos + n \<or> pos + n \<le> out"
  shows "\<exists>m1 m2. olm_encode_base64 m pos n out = (m1, encode_base64_length n) \<and>
    load m1 out (encode_base64_length n) = rfc4648_encode (load m pos n) \<and>
    unchanged_outside out (encode_base64_length n) m m1 \<and>
    olm_decode_base64 m1 out (encode_base64_length n) out = (m2, Some n) \<and>
    load m2 out n = load m pos n \<and>
    (\<forall>p k q. snd (olm_decode_base64 m p k q) = (if k mod 4 = 1 then None else Some (k - (k + 2) div 4)))"
proof -
  let ?m1 = "store m out (b64enc (load m pos n))"
  have l: "load ?m1 out (encode_base64_length n) = b64enc (load m pos n)"
    by (rule load_store_same) simp
  show ?thesis
    using olm_encode_base64_eq [OF assms, of m] olm_decode_base64_encoded [OF l, of out] l
    by (auto simp: b64enc_spec [symmetric] load_store_same decode_result_length intro!: unchanged_outside_store)
qed

lemma base64_encode_decode_witness:
  "\<exists>m1 m2. olm_encode_base64 of_nat 2 4 0 = (m1, encode_base64_length 4) \<and>
    load m1 0 (encode_base64_length 4) = rfc4648_encode (load of_nat 2 4) \<and>
    unchanged_outside 0 (encode_base64_length 4) of_nat m1 \<and>
    olm_decode_base64 m1 0 (encode_base64_length 4) 0 = (m2, Some 4) \<and>
    load m2 0 4 = load of_nat 2 4"
  using base64_encode_decode [of 0 4 2 of_nat] by (auto simp: encode_base64_length_alt)

end
