(* ===== verification/OlmMemory.thy ===== *)
theory OlmMemory
  imports Prelude
begin

text \<open>
  \<open>src/memory.cpp\<close> and \<open>include/olm/memory.hh\<close>: clearing memory, the comparison in
  constant time, and the copies of fixed size arrays.
\<close>

fun olm_unset :: "mem \<Rightarrow> nat \<Rightarrow> nat \<Rightarrow> mem" where
  "olm_unset m pos 0 = m"
| "olm_unset m pos (Suc n) = olm_unset (m(pos := 0)) (Suc pos) n"

text \<open>The loop ORs all differences into \<open>result\<close> and looks at it once, at the end.\<close>

fun is_equal_loop :: "u8 \<Rightarrow> bytes \<Rightarrow> bytes \<Rightarrow> nat \<Rightarrow> u8" where
  "is_equal_loop result a b 0 = result"
| "is_equal_loop result a b (Suc n) =
     is_equal_loop (result OR (hd a XOR hd b)) (tl a) (tl b) n"

definition olm_is_equal :: "bytes \<Rightarrow> bytes \<Rightarrow> nat \<Rightarrow> bool" where
  "olm_is_equal buffer_a buffer_b len = (is_equal_loop 0 buffer_a buffer_b len = 0)"

text \<open>\<open>load_array\<close> for an array of \<open>n\<close> bytes: its contents and the rest of the source.\<close>

definition load_array :: "nat \<Rightarrow> bytes \<Rightarrow> bytes \<times> bytes" where
  "load_array n source = (take n source, drop n source)"

definition array_equal :: "nat \<Rightarrow> bytes \<Rightarrow> bytes \<Rightarrow> bool" where
  "array_equal n a b = olm_is_equal a b n"

lemma olm_unset_store: "olm_unset m pos n = store m pos (replicate n 0)"
proof (induction n arbitrary: m pos)
  case (Suc n)
  have "olm_unset m pos (Suc n) = store (store m pos [0]) (pos + length [0 :: u8]) (replicate n 0)"
    by (simp add: Suc fun_upd_as_store del: fun_upd_apply)
  also have "\<dots> = store m pos (replicate (Suc n) 0)"
    by (subst store_store_append) simp
  finally show ?case .
qed simp

lemma or_eq_0_u8: "(a OR b = (0 :: u8)) = (a = 0 \<and> b = 0)"
  by (rule or_eq_0_iff)

lemma xor_eq_0_u8: "(a XOR b = (0 :: u8)) = (a = b)"
  by (metis xor.assoc xor.right_neutral xor_self_eq)

lemma is_equal_loop_eq:
  "n \<le> length a \<Longrightarrow> n \<le> length b \<Longrightarrow>
     (is_equal_loop r a b n = 0) = (r = 0 \<and> take n a = take n b)"
proof (induction n arbitrary: r a b)
  case (Suc n)
  then obtain x a' y b' where "a = x # a'" "b = y # b'"
    by (metis Suc_le_length_iff)
  with Suc show ?case by (auto simp: or_eq_0_u8 xor_eq_0_u8)
qed simp

lemma olm_is_equal_iff:
  "n \<le> length a \<Longrightarrow> n \<le> length b \<Longrightarrow> olm_is_equal a b n = (take n a = take n b)"
  by (simp add: olm_is_equal_def is_equal_loop_eq)

lemma array_equal_iff [simp]:
  "length a = n \<Longrightarrow> length b = n \<Longrightarrow> array_equal n a b = (a = b)"
  by (simp add: array_equal_def olm_is_equal_iff)

end
