(* ===== verification/OlmError.thy ===== *)
theory OlmError
  imports Prelude
begin

text \<open>
  \<open>include/olm/error.h\<close> and \<open>src/error.c\<close>: the error codes every object keeps in its
  \<open>last_error\<close> field, and the table of their names.
\<close>

datatype OlmErrorCode =
    OLM_SUCCESS
  | OLM_NOT_ENOUGH_RANDOM
  | OLM_OUTPUT_BUFFER_TOO_SMALL
  | OLM_BAD_MESSAGE_VERSION
  | OLM_BAD_MESSAGE_FORMAT
  | OLM_BAD_MESSAGE_MAC
  | OLM_BAD_MESSAGE_KEY_ID
  | OLM_INVALID_BASE64
  | OLM_BAD_ACCOUNT_KEY
  | OLM_UNKNOWN_PICKLE_VERSION
  | OLM_CORRUPTED_PICKLE
  | OLM_BAD_SESSION_KEY
  | OLM_UNKNOWN_MESSAGE_INDEX
  | OLM_BAD_LEGACY_ACCOUNT_PICKLE
  | OLM_BAD_SIGNATURE
  | OLM_INPUT_BUFFER_TOO_SMALL
  | OLM_SAS_THEIR_KEY_NOT_SET
  | OLM_PICKLE_EXTRA_DATA
  | OLM_MESSAGE_OUT_OF_ORDER
  | OLM_ALREADY_DECRYPTED_OR_KEYS_SKIPPED
  | OLM_MAX_MESSAGE_GAP_EXCEEDED
  | OLM_SENDER_CHAIN_NOT_ACKNOWLEDGED

text \<open>The numbers the enumeration gives its constants.\<close>

fun error_number :: "OlmErrorCode \<Rightarrow> nat" where
  "error_number OLM_SUCCESS = 0"
| "error_number OLM_NOT_ENOUGH_RANDOM = 1"
| "error_number OLM_OUTPUT_BUFFER_TOO_SMALL = 2"
| "error_number OLM_BAD_MESSAGE_VERSION = 3"
| "error_number OLM_BAD_MESSAGE_FORMAT = 4"
| "error_number OLM_BAD_MESSAGE_MAC = 5"
| "error_number OLM_BAD_MESSAGE_KEY_ID = 6"
| "error_number OLM_INVALID_BASE64 = 7"
| "error_number OLM_BAD_ACCOUNT_KEY = 8"
| "error_number OLM_UNKNOWN_PICKLE_VERSION = 9"
| "error_number OLM_CORRUPTED_PICKLE = 10"
| "error_number OLM_BAD_SESSION_KEY = 11"
| "error_number OLM_UNKNOWN_MESSAGE_INDEX = 12"
| "error_number OLM_BAD_LEGACY_ACCOUNT_PICKLE = 13"
| "error_number OLM_BAD_SIGNATURE = 14"
| "error_number OLM_INPUT_BUFFER_TOO_SMALL = 15"
| "error_number OLM_SAS_THEIR_KEY_NOT_SET = 16"
| "error_number OLM_PICKLE_EXTRA_DATA = 17"
| "error_number OLM_MESSAGE_OUT_OF_ORDER = 18"
| "error_number OLM_ALREADY_DECRYPTED_OR_KEYS_SKIPPED = 19"
| "error_number OLM_MAX_MESSAGE_GAP_EXCEEDED = 20"
| "error_number OLM_SENDER_CHAIN_NOT_ACKNOWLEDGED = 21"

definition ERRORS :: "string list" where
  "ERRORS = [
    ''SUCCESS'',
    ''NOT_ENOUGH_RANDOM'',
    ''OUTPUT_BUFFER_TOO_SMALL'',
    ''BAD_MESSAGE_VERSION'',
    ''BAD_MESSAGE_FORMAT'',
    ''BAD_MESSAGE_MAC'',
    ''BAD_MESSAGE_KEY_ID'',
    ''INVALID_BASE64'',
    ''BAD_ACCOUNT_KEY'',
    ''UNKNOWN_PICKLE_VERSION'',
    ''CORRUPTED_PICKLE'',
    ''BAD_SESSION_KEY'',
    ''UNKNOWN_MESSAGE_INDEX'',
    ''BAD_LEGACY_ACCOUNT_PICKLE'',
    ''BAD_SIGNATURE'',
    ''OLM_INPUT_BUFFER_TOO_SMALL'',
    ''OLM_SAS_THEIR_KEY_NOT_SET'',
    ''OLM_PICKLE_EXTRA_DATA'',
    ''OLM_MESSAGE_OUT_OF_ORDER'',
    ''OLM_ALREADY_DECRYPTED_OR_KEYS_SKIPPED'',
    ''OLM_MAX_MESSAGE_GAP_EXCEEDED'',
    ''OLM_SENDER_CHAIN_NOT_ACKNOWLEDGED'']"

text \<open>The C function takes any value of the enum's integer type.\<close>

definition olm_error_to_string :: "nat \<Rightarrow> string" where
  "olm_error_to_string error =
     (if error < length ERRORS then ERRORS ! error
      else if error = 255 then ''NO_UNPUBLISHED_PREKEY''
      else ''UNKNOWN_ERROR'')"

lemma length_ERRORS [simp]: "length ERRORS = 22"
  by (simp add: ERRORS_def)

lemma error_number_less: "error_number e < length ERRORS"
  by (cases e) simp_all

lemma distinct_ERRORS: "distinct ERRORS"
  by (simp add: ERRORS_def)

section \<open>Properties\<close>

lemma error_number_inject: "(error_number a = error_number b) = (a = b)"
  by (cases a; cases b; simp)

text \<open>The names of the error codes: every code has its own name, and none of them is the
  name of an unknown error.\<close>

theorem error_strings_distinguish:
  "(olm_error_to_string (error_number a) = olm_error_to_string (error_number b)) = (a = b)
   \<and> olm_error_to_string (error_number a) \<noteq> ''UNKNOWN_ERROR''"
proof
  show "(olm_error_to_string (error_number a) = olm_error_to_string (error_number b)) = (a = b)"
    using error_number_less [of a] error_number_less [of b]
    by (simp add: olm_error_to_string_def nth_eq_iff_index_eq distinct_ERRORS error_number_inject
        del: length_ERRORS)
  have "''UNKNOWN_ERROR'' \<notin> set ERRORS" by (simp add: ERRORS_def)
  moreover have "ERRORS ! error_number a \<in> set ERRORS" by (rule nth_mem [OF error_number_less])
  ultimately have "ERRORS ! error_number a \<noteq> ''UNKNOWN_ERROR''" by metis
  then show "olm_error_to_string (error_number a) \<noteq> ''UNKNOWN_ERROR''"
    using error_number_less [of a] by (simp add: olm_error_to_string_def)
qed

end
