(* ===== verification/Sha256.thy ===== *)
theory Sha256
  imports Prelude
begin

text \<open>
  \<open>lib/crypto-algorithms/sha256.c\<close>: the streaming SHA-256 the library links.  The context
  holds a partly filled block; \<open>sha256_transform\<close> consumes a full one.  The second half
  of the theory states FIPS 180-4 (pad the whole message, then process its blocks) and
  proves that the streaming code computes it, however the message is cut into updates.

  The loop counter of \<open>sha256_update\<close> is a 32-bit word compared with a \<open>size_t\<close>, so the
  code returns for inputs shorter than \<open>2 ^ 32\<close> bytes, which is what is modelled.
\<close>

section \<open>The code\<close>

record SHA256_CTX =
  ctx_data :: bytes
  ctx_datalen :: nat
  ctx_bitlen :: u64
  ctx_state :: "u32 list"

definition ROTRIGHT :: "u32 \<Rightarrow> nat \<Rightarrow> u32" where
  "ROTRIGHT a b = drop_bit b a OR push_bit (32 - b) a"

definition CH :: "u32 \<Rightarrow> u32 \<Rightarrow> u32 \<Rightarrow> u32" where
  "CH x y z = (x AND y) XOR (NOT x AND z)"

definition MAJ :: "u32 \<Rightarrow> u32 \<Rightarrow> u32 \<Rightarrow> u32" where
  "MAJ x y z = (x AND y) XOR (x AND z) XOR (y AND z)"

definition EP0 :: "u32 \<Rightarrow> u32" where
  "EP0 x = ROTRIGHT x 2 XOR ROTRIGHT x 13 XOR ROTRIGHT x 22"

definition EP1 :: "u32 \<Rightarrow> u32" where
  "EP1 x = ROTRIGHT x 6 XOR ROTRIGHT x 11 XOR ROTRIGHT x 25"

definition SIG0 :: "u32 \<Rightarrow> u32" where
  "SIG0 x = ROTRIGHT x 7 XOR ROTRIGHT x 18 XOR drop_bit 3 x"

definition SIG1 :: "u32 \<Rightarrow> u32" where
  "SIG1 x = ROTRIGHT x 17 XOR ROTRIGHT x 19 XOR drop_bit 10 x"

text \<open>The table, a row per line of the source.\<close>

definition sha256_k :: "u32 list" where
  "sha256_k = concat [
    [0x428a2f98, 0x71374491, 0xb5c0fbcf, 0xe9b5dba5, 0x3956c25b, 0x59f111f1, 0x923f82a4, 0xab1c5ed5],
    [0xd807aa98, 0x12835b01, 0x243185be, 0x550c7dc3, 0x72be5d74, 0x80deb1fe, 0x9bdc06a7, 0xc19bf174],
    [0xe49b69c1, 0xefbe4786, 0x0fc19dc6, 0x240ca1cc, 0x2de92c6f, 0x4a7484aa, 0x5cb0a9dc, 0x76f988da],
    [0x983e5152, 0xa831c66d, 0xb00327c8, 0xbf597fc7, 0xc6e00bf3, 0xd5a79147, 0x06ca6351, 0x14292967],
    [0x27b70a85, 0x2e1b2138, 0x4d2c6dfc, 0x53380d13, 0x650a7354, 0x766a0abb, 0x81c2c92e, 0x92722c85],
    [0xa2bfe8a1, 0xa81a664b, 0xc24b8b70, 0xc76c51a3, 0xd192e819, 0xd6990624, 0xf40e3585, 0x106aa070],
    [0x19a4c116, 0x1e376c08, 0x2748774c, 0x34b0bcb5, 0x391c0cb3, 0x4ed8aa4a, 0x5b9cca4f, 0x682e6ff3],
    [0x748f82ee, 0x78a5636f, 0x84c87814, 0x8cc70208, 0x90befffa, 0xa4506ceb, 0xbef9a3f7, 0xc67178f2]]"

text \<open>The two loops that fill \<open>m[64]\<close>: sixteen big-endian words, then the expansion.\<close>

definition schedule_word :: "bytes \<Rightarrow> nat \<Rightarrow> u32" where
  "schedule_word blk i =
     (let j = 4 * i in
      push_bit 24 (ucast (blk ! j)) OR push_bit 16 (ucast (blk ! (j + 1)))
      OR push_bit 8 (ucast (blk ! (j + 2))) OR ucast (blk ! (j + 3)))"

fun extend_schedule :: "nat \<Rightarrow> u32 list \<Rightarrow> u32 list" where
  "extend_schedule 0 m = m"
| "extend_schedule (Suc n) m =
     (let i = length m in
      extend_schedule n
        (m @ [SIG1 (m ! (i - 2)) + m ! (i - 7) + SIG0 (m ! (i - 15)) + m ! (i - 16)]))"

definition message_schedule :: "bytes \<Rightarrow> u32 list" where
  "message_schedule blk = extend_schedule 48 (map (schedule_word blk) [0..<16])"

type_synonym working_vars = "u32 \<times> u32 \<times> u32 \<times> u32 \<times> u32 \<times> u32 \<times> u32 \<times> u32"

fun sha256_round :: "u32 \<Rightarrow> u32 \<Rightarrow> working_vars \<Rightarrow> working_vars" where
  "sha256_round ki mi (a, b, c, d, e, f, g, h) =
     (let t1 = h + EP1 e + CH e f g + ki + mi;
          t2 = EP0 a + MAJ a b c
      in (t1 + t2, a, b, c, d + t1, e, f, g))"

fun rounds :: "(u32 \<times> u32) list \<Rightarrow> working_vars \<Rightarrow> working_vars" where
  "rounds [] v = v"
| "rounds ((ki, mi) # r) v = rounds r (sha256_round ki mi v)"

definition transform_state :: "u32 list \<Rightarrow> bytes \<Rightarrow> u32 list" where
  "transform_state st blk =
     (let m = message_schedule blk;
          (a, b, c, d, e, f, g, h) =
            rounds (zip sha256_k m)
              (st ! 0, st ! 1, st ! 2, st ! 3, st ! 4, st ! 5, st ! 6, st ! 7)
      in [st ! 0 + a, st ! 1 + b, st ! 2 + c, st ! 3 + d,
          st ! 4 + e, st ! 5 + f, st ! 6 + g, st ! 7 + h])"

definition sha256_transform :: "SHA256_CTX \<Rightarrow> bytes \<Rightarrow> SHA256_CTX" where
  "sha256_transform ctx blk = ctx\<lparr>ctx_state := transform_state (ctx_state ctx) blk\<rparr>"

definition sha256_initial_state :: "u32 list" where
  "sha256_initial_state =
    [0x6a09e667, 0xbb67ae85, 0x3c6ef372, 0xa54ff53a,
     0x510e527f, 0x9b05688c, 0x1f83d9ab, 0x5be0cd19]"

text \<open>The bytes of \<open>ctx->data\<close> are left as they are: they may be uninitialised.\<close>

definition sha256_init :: "SHA256_CTX \<Rightarrow> SHA256_CTX" where
  "sha256_init ctx = ctx\<lparr>ctx_datalen := 0, ctx_bitlen := 0, ctx_state := sha256_initial_state\<rparr>"

definition sha256_update_byte :: "SHA256_CTX \<Rightarrow> u8 \<Rightarrow> SHA256_CTX" where
  "sha256_update_byte ctx b =
     (let ctx = ctx\<lparr>ctx_data := (ctx_data ctx)[ctx_datalen ctx := b], ctx_datalen := ctx_datalen ctx + 1\<rparr>
      in if ctx_datalen ctx = 64 then
           let ctx = sha256_transform ctx (ctx_data ctx)
           in ctx\<lparr>ctx_bitlen := ctx_bitlen ctx + 512, ctx_datalen := 0\<rparr>
         else ctx)"

text \<open>
  The loop of the code counts in 32 bits and compares with a length of 64: for inputs of
  \<open>2 ^ 32\<close> bytes and more it does not end.  \<open>None\<close> is that.  The functions above use
  \<open>sha256_update\<close>, what the loop does to shorter inputs.
\<close>

partial_function (option) sha256_update_loop :: "SHA256_CTX \<Rightarrow> bytes \<Rightarrow> u32 \<Rightarrow> SHA256_CTX option" where
  "sha256_update_loop ctx bs i =
     (if unat i < length bs then sha256_update_loop (sha256_update_byte ctx (bs ! unat i)) bs (i + 1)
      else Some ctx)"

declare sha256_update_loop.simps [code]

definition sha256_update :: "SHA256_CTX \<Rightarrow> bytes \<Rightarrow> SHA256_CTX" where
  "sha256_update ctx bs = foldl sha256_update_byte ctx bs"

text \<open>Big-endian bytes of a 64-bit and of a 32-bit word.\<close>

definition be64 :: "u64 \<Rightarrow> bytes" where
  "be64 w = map (\<lambda>i. ucast (drop_bit (56 - 8 * i) w)) [0..<8]"

definition be32 :: "u32 \<Rightarrow> bytes" where
  "be32 w = map (\<lambda>i. ucast (drop_bit (24 - 8 * i) w AND 0x000000ff)) [0..<4]"

definition sha256_final :: "SHA256_CTX \<Rightarrow> bytes" where
  "sha256_final ctx =
     (let i = ctx_datalen ctx;
          ctx =
            (if ctx_datalen ctx < 56 then
               ctx\<lparr>ctx_data := take i (ctx_data ctx) @ [0x80] @ replicate (55 - i) 0 @ drop 56 (ctx_data ctx)\<rparr>
             else
               let ctx = ctx\<lparr>ctx_data := take i (ctx_data ctx) @ [0x80] @ replicate (63 - i) 0\<rparr>;
                   ctx = sha256_transform ctx (ctx_data ctx)
               in ctx\<lparr>ctx_data := replicate 56 0 @ drop 56 (ctx_data ctx)\<rparr>);
          ctx = ctx\<lparr>ctx_bitlen := ctx_bitlen ctx + of_nat (ctx_datalen ctx) * 8\<rparr>;
          ctx = ctx\<lparr>ctx_data := take 56 (ctx_data ctx) @ be64 (ctx_bitlen ctx)\<rparr>;
          ctx = sha256_transform ctx (ctx_data ctx)
      in concat (map be32 (ctx_state ctx)))"

section \<open>FIPS 180-4\<close>

text \<open>The message schedule and the working variables, as the standard indexes them.\<close>

function fips_W :: "bytes \<Rightarrow> nat \<Rightarrow> u32" where
  "fips_W blk t =
     (if t < 16 then schedule_word blk t
      else SIG1 (fips_W blk (t - 2)) + fips_W blk (t - 7) + SIG0 (fips_W blk (t - 15))
           + fips_W blk (t - 16))"
  by pat_completeness auto
termination by (relation "measure snd") auto

declare fips_W.simps [simp del]

fun fips_vars :: "bytes \<Rightarrow> working_vars \<Rightarrow> nat \<Rightarrow> working_vars" where
  "fips_vars blk v 0 = v"
| "fips_vars blk v (Suc t) = sha256_round (sha256_k ! t) (fips_W blk t) (fips_vars blk v t)"

definition fips_compress :: "u32 list \<Rightarrow> bytes \<Rightarrow> u32 list" where
  "fips_compress st blk =
     (let (a, b, c, d, e, f, g, h) =
            fips_vars blk (st ! 0, st ! 1, st ! 2, st ! 3, st ! 4, st ! 5, st ! 6, st ! 7) 64
      in [st ! 0 + a, st ! 1 + b, st ! 2 + c, st ! 3 + d,
          st ! 4 + e, st ! 5 + f, st ! 6 + g, st ! 7 + h])"

definition fips_pad :: "bytes \<Rightarrow> bytes" where
  "fips_pad msg =
     msg @ [0x80] @ replicate ((119 - length msg mod 64) mod 64) 0
     @ be64 (of_nat (8 * length msg))"

definition fips_sha256 :: "bytes \<Rightarrow> bytes" where
  "fips_sha256 msg =
     concat (map be32 (foldl fips_compress sha256_initial_state (blocks 64 (fips_pad msg))))"

section \<open>The streaming code computes FIPS 180-4\<close>

lemma length_be [simp, len_simps]: "length (be64 w) = 8" "length (be32 v) = 4"
  by (simp_all add: be64_def be32_def)

lemma length_transform_state [simp, len_simps]: "length (transform_state st blk) = 8"
  by (simp add: transform_state_def Let_def split: prod.splits)

lemma extend_schedule_eq:
  "m = map (fips_W blk) [0..<k] \<Longrightarrow> 16 \<le> k \<Longrightarrow>
     extend_schedule n m = map (fips_W blk) [0..<k + n]"
proof (induction n arbitrary: m k)
  case (Suc n)
  have "fips_W blk k = SIG1 (m ! (k - 2)) + m ! (k - 7) + SIG0 (m ! (k - 15)) + m ! (k - 16)"
    using Suc.prems by (subst fips_W.simps) simp
  then have "m @ [SIG1 (m ! (k - 2)) + m ! (k - 7) + SIG0 (m ! (k - 15)) + m ! (k - 16)]
      = map (fips_W blk) [0..<Suc k]"
    using Suc.prems by simp
  from Suc.IH [OF this] Suc.prems show ?case by (simp add: Let_def del: upt_Suc)
qed simp

lemma message_schedule_eq: "message_schedule blk = map (fips_W blk) [0..<64]"
proof -
  have "map (schedule_word blk) [0..<16] = map (fips_W blk) [0..<16]"
    by (rule map_cong) (auto simp: fips_W.simps)
  from extend_schedule_eq [OF this, of 48] show ?thesis by (simp add: message_schedule_def)
qed

lemma rounds_append: "rounds (xs @ ys) v = rounds ys (rounds xs v)"
  by (induction xs v rule: rounds.induct) (simp_all del: sha256_round.simps)

lemma length_sha256_k [simp]: "length sha256_k = 64"
  by (simp add: sha256_k_def)

lemma rounds_fips:
  "t \<le> 64 \<Longrightarrow> rounds (zip (take t sha256_k) (map (fips_W blk) [0..<t])) v = fips_vars blk v t"
proof (induction t)
  case (Suc t)
  have "take (Suc t) sha256_k = take t sha256_k @ [sha256_k ! t]"
    using Suc.prems by (simp add: take_Suc_conv_app_nth)
  with Suc show ?case by (simp add: rounds_append)
qed simp

lemma transform_state_fips: "transform_state st blk = fips_compress st blk"
proof -
  have "zip sha256_k (message_schedule blk) =
      zip (take 64 sha256_k) (map (fips_W blk) [0..<64])"
    by (simp add: message_schedule_eq)
  then show ?thesis
    using rounds_fips [of 64 blk] by (simp add: transform_state_def fips_compress_def Let_def)
qed

text \<open>What the context says about the bytes \<open>p\<close> absorbed so far.\<close>

definition absorbed :: "SHA256_CTX \<Rightarrow> bytes \<Rightarrow> bool" where
  "absorbed ctx p \<longleftrightarrow>
     (\<exists>q r. p = q @ r \<and> 64 dvd length q \<and> length r < 64 \<and> ctx_datalen ctx = length r
        \<and> length (ctx_data ctx) = 64 \<and> take (length r) (ctx_data ctx) = r
        \<and> ctx_bitlen ctx = of_nat (8 * length q)
        \<and> ctx_state ctx = foldl fips_compress sha256_initial_state (blocks 64 q))"

lemma absorbed_init: "length (ctx_data ctx) = 64 \<Longrightarrow> absorbed (sha256_init ctx) []"
  unfolding absorbed_def
  by (rule exI [of _ "[]"]) (simp add: sha256_init_def blocks_Nil)

lemma absorbed_update_byte:
  assumes "absorbed ctx p"
  shows "absorbed (sha256_update_byte ctx b) (p @ [b])"
proof -
  obtain q r where p: "p = q @ r" "64 dvd length q" "length r < 64" "ctx_datalen ctx = length r"
      "length (ctx_data ctx) = 64" "take (length r) (ctx_data ctx) = r"
      "ctx_bitlen ctx = of_nat (8 * length q)"
      "ctx_state ctx = foldl fips_compress sha256_initial_state (blocks 64 q)"
    using assms unfolding absorbed_def by blast
  let ?d = "(ctx_data ctx)[length r := b]"
  have d: "take (Suc (length r)) ?d = r @ [b]"
    using p(3,5,6) by (simp add: take_Suc_conv_app_nth)
  show ?thesis
  proof (cases "length r = 63")
    case True
    then have full: "?d = r @ [b]" using d p(5) by simp
    have "absorbed (sha256_update_byte ctx b) ((q @ r @ [b]) @ [])"
      unfolding absorbed_def
      by (rule exI [of _ "q @ r @ [b]"], rule exI [of _ "[]"])
         (use p True full in \<open>simp add: sha256_update_byte_def sha256_transform_def Let_def
            blocks_append transform_state_fips algebra_simps\<close>)
    then show ?thesis by (simp add: p(1))
  next
    case False
    then have "Suc (length r) < 64" using p(3) by simp
    then have "absorbed (sha256_update_byte ctx b) (q @ r @ [b])"
      unfolding absorbed_def
      by (intro exI [of _ q] exI [of _ "r @ [b]"])
         (use p d in \<open>simp add: sha256_update_byte_def Let_def\<close>)
    then show ?thesis by (simp add: p(1))
  qed
qed

lemma absorbed_update: "absorbed ctx p \<Longrightarrow> absorbed (sha256_update ctx bs) (p @ bs)"
proof (induction bs arbitrary: ctx p)
  case (Cons b bs)
  from Cons.IH [OF absorbed_update_byte [OF Cons.prems]] show ?case
    by (simp add: sha256_update_def)
qed (simp add: sha256_update_def)

lemma absorbed_final:
  assumes "absorbed ctx p"
  shows "sha256_final ctx = fips_sha256 p"
proof -
  obtain q r where p: "p = q @ r" "64 dvd length q" "length r < 64" "ctx_datalen ctx = length r"
      "length (ctx_data ctx) = 64" "take (length r) (ctx_data ctx) = r"
      "ctx_bitlen ctx = of_nat (8 * length q)"
      "ctx_state ctx = foldl fips_compress sha256_initial_state (blocks 64 q)"
    using assms unfolding absorbed_def by blast
  let ?n = "be64 (of_nat (8 * length p))"
  have len: "of_nat (8 * length q) + of_nat (length r) * 8 = (of_nat (8 * length p) :: u64)"
    by (simp add: p(1) algebra_simps)
  have lm: "length p mod 64 = length r" using p(1,2,3) by (auto simp: mod_add_eq elim!: dvdE)
  show ?thesis
  proof (cases "length r < 56")
    case True
    have pad: "fips_pad p = q @ (r @ [0x80] @ replicate (55 - length r) 0 @ ?n)"
      using True lm by (simp add: fips_pad_def p(1) mod_if)
    have "blocks 64 (fips_pad p) = blocks 64 q @ [r @ [0x80] @ replicate (55 - length r) 0 @ ?n]"
      unfolding pad using p(2) True by (simp add: blocks_append)
    moreover have "56 - length r = Suc (55 - length r)" using True by simp
    ultimately show ?thesis using True p len
      by (simp add: sha256_final_def fips_sha256_def Let_def sha256_transform_def
          transform_state_fips mult.commute)
  next
    case False
    let ?b1 = "r @ [0x80] @ replicate (63 - length r) 0"
    let ?b2 = "replicate 56 0 @ ?n"
    have m: "(119 - length r) mod 64 = 119 - length r" using False p(3) by (simp add: mod_if)
    have rep: "replicate (119 - length r) (0 :: u8) = replicate (63 - length r) 0 @ replicate 56 0"
      using False p(3) by (simp flip: replicate_add)
    have pad: "fips_pad p = (q @ ?b1) @ ?b2"
      unfolding fips_pad_def lm m rep by (simp add: p(1))
    have b1: "length ?b1 = 64" using False p(3) by simp
    have "blocks 64 (fips_pad p) = blocks 64 q @ [?b1, ?b2]"
      unfolding pad using p(2) b1 by (subst blocks_append) (simp_all add: blocks_append)
    then show ?thesis using False p len
      by (simp add: sha256_final_def fips_sha256_def Let_def sha256_transform_def
          transform_state_fips mult.commute)
  qed
qed

text \<open>One-shot hashing, from a context whose data bytes are arbitrary.\<close>

definition sha256_oneshot :: "SHA256_CTX \<Rightarrow> bytes \<Rightarrow> bytes" where
  "sha256_oneshot ctx bs = sha256_final (sha256_update (sha256_init ctx) bs)"

lemma length_sha256_final [simp, len_simps]: "length (sha256_final ctx) = 32"
proof -
  have "length (concat (map be32 xs)) = 4 * length xs" for xs
    by (induction xs) simp_all
  then show ?thesis by (simp add: sha256_final_def Let_def sha256_transform_def)
qed

lemma sha256_update_append:
  "sha256_update (sha256_update ctx xs) ys = sha256_update ctx (xs @ ys)"
  by (simp add: sha256_update_def)

section \<open>The counter of 32 bits\<close>

lemma sha256_update_loop_fold:
  "length bs < 2 ^ 32 \<Longrightarrow> unat i \<le> length bs \<Longrightarrow>
    sha256_update_loop ctx bs i = Some (sha256_update ctx (drop (unat i) bs))"
proof (induction "length bs - unat i" arbitrary: ctx i)
  case 0
  then show ?case by (subst sha256_update_loop.simps) (simp add: sha256_update_def)
next
  case (Suc n)
  then have less: "unat i < length bs" by simp
  then have "unat (i + 1) = Suc (unat i)" using Suc.prems(1) by (simp add: unat_word_ariths)
  then show ?case
    using Suc.hyps(1) [of "i + 1"] Suc.hyps(2) Suc.prems less
    by (subst sha256_update_loop.simps) (simp add: sha256_update_def Cons_nth_drop_Suc [symmetric])
qed

lemma sha256_update_loop_short: "length bs < 2 ^ 32 \<Longrightarrow> sha256_update_loop ctx bs 0 = Some (sha256_update ctx bs)"
  using sha256_update_loop_fold [of bs 0 ctx] by simp

lemma sha256_update_loop_ends: "sha256_update_loop ctx bs i = Some ctx' \<Longrightarrow> length bs < 2 ^ 32"
proof (rule sha256_update_loop.raw_induct [of "\<lambda>ctx bs i ctx'. length bs < 2 ^ 32"])
  fix loop :: "SHA256_CTX \<Rightarrow> bytes \<Rightarrow> u32 \<Rightarrow> SHA256_CTX option" and ctx bs i ctx'
  assume "\<And>ctx bs i ctx'. loop ctx bs i = Some ctx' \<Longrightarrow> length bs < 2 ^ 32"
    and "(if unat i < length bs then loop (sha256_update_byte ctx (bs ! unat i)) bs (i + 1) else Some ctx) = Some ctx'"
  then show "length bs < 2 ^ 32" using unsigned_less [of i, where 'a = nat] by (auto split: if_splits)
qed

text \<open>Inputs of \<open>2 ^ 32\<close> bytes are not hashed.\<close>

lemma sha256_update_loop_long: "2 ^ 32 \<le> length bs \<Longrightarrow> sha256_update_loop ctx bs i = None"
  using sha256_update_loop_ends [of ctx bs i] by (cases "sha256_update_loop ctx bs i") auto

fun sha256_updates :: "SHA256_CTX \<Rightarrow> bytes list \<Rightarrow> SHA256_CTX option" where
  "sha256_updates ctx [] = Some ctx"
| "sha256_updates ctx (c # cs) =
     (case sha256_update_loop ctx c 0 of None \<Rightarrow> None | Some ctx \<Rightarrow> sha256_updates ctx cs)"

lemma sha256_updates_short: "\<forall>c\<in>set cs. length c < 2 ^ 32 \<Longrightarrow> sha256_updates ctx cs = Some (foldl sha256_update ctx cs)"
  by (induction cs arbitrary: ctx) (simp_all add: sha256_update_loop_short)

lemma sha256_updates_long: "\<not> (\<forall>c\<in>set cs. length c < 2 ^ 32) \<Longrightarrow> sha256_updates ctx cs = None"
  by (induction cs arbitrary: ctx) (auto simp: sha256_update_loop_long not_less split: option.splits)

section \<open>Properties\<close>

lemma updates_concat: "foldl sha256_update ctx chunks = sha256_update ctx (concat chunks)"
proof (induction chunks arbitrary: ctx)
  case (Cons c cs)
  then show ?case by (simp add: sha256_update_append)
next
  case Nil
  then show ?case by (simp add: sha256_update_def)
qed

text \<open>C36: The streaming hash, fed with any chunks from any initial memory, computes the digest of
  FIPS 180-4 of the whole input.  The loop of the code returns for chunks shorter than 2^32 bytes,
  and only for these.\<close>

theorem sha256_streaming:
  assumes "length (ctx_data ctx) = 64"
  shows "sha256_final (foldl sha256_update (sha256_init ctx) chunks) = fips_sha256 (concat chunks) \<and>
    map_option sha256_final (sha256_updates (sha256_init ctx) chunks) =
      (if \<forall>c\<in>set chunks. length c < 2 ^ 32 then Some (fips_sha256 (concat chunks)) else None)"
proof -
  have digest: "sha256_final (foldl sha256_update (sha256_init ctx) chunks) = fips_sha256 (concat chunks)"
    using absorbed_final [OF absorbed_update [OF absorbed_init [OF assms]], of "concat chunks"]
    by (simp add: updates_concat)
  then show ?thesis using sha256_updates_short [of chunks] sha256_updates_long [of chunks] by auto
qed

lemma sha256_streaming_witness:
  "map_option sha256_final (sha256_updates (sha256_init
      \<lparr>ctx_data = replicate 64 0xA5, ctx_datalen = 7, ctx_bitlen = 9, ctx_state = []\<rparr>)
      [[0x61], [], [0x62, 0x63]]) = Some (fips_sha256 [0x61, 0x62, 0x63])"
  using sha256_streaming [of "\<lparr>ctx_data = replicate 64 0xA5, ctx_datalen = 7, ctx_bitlen = 9, ctx_state = []\<rparr>"
      "[[0x61], [], [0x62, 0x63]]"] by simp

end
