(* ===== verification/Aes.thy ===== *)
theory Aes
  imports Prelude
begin

text \<open>
  \<open>lib/crypto-algorithms/aes.c\<close>: the AES block cipher with its lookup tables, for the
  three key sizes.  The file's CBC, CTR and CCM modes are not used by the library, which
  has its own CBC mode in \<open>crypto.cpp\<close>, and are not modelled.

  The \<open>state[row][col]\<close> matrix is kept as its four columns, each with its four rows.
\<close>

section \<open>Tables\<close>

definition aes_sbox :: "u8 list list" where
  "aes_sbox = [
    [0x63, 0x7C, 0x77, 0x7B, 0xF2, 0x6B, 0x6F, 0xC5, 0x30, 0x01, 0x67, 0x2B, 0xFE, 0xD7, 0xAB, 0x76],
    [0xCA, 0x82, 0xC9, 0x7D, 0xFA, 0x59, 0x47, 0xF0, 0xAD, 0xD4, 0xA2, 0xAF, 0x9C, 0xA4, 0x72, 0xC0],
    [0xB7, 0xFD, 0x93, 0x26, 0x36, 0x3F, 0xF7, 0xCC, 0x34, 0xA5, 0xE5, 0xF1, 0x71, 0xD8, 0x31, 0x15],
    [0x04, 0xC7, 0x23, 0xC3, 0x18, 0x96, 0x05, 0x9A, 0x07, 0x12, 0x80, 0xE2, 0xEB, 0x27, 0xB2, 0x75],
    [0x09, 0x83, 0x2C, 0x1A, 0x1B, 0x6E, 0x5A, 0xA0, 0x52, 0x3B, 0xD6, 0xB3, 0x29, 0xE3, 0x2F, 0x84],
    [0x53, 0xD1, 0x00, 0xED, 0x20, 0xFC, 0xB1, 0x5B, 0x6A, 0xCB, 0xBE, 0x39, 0x4A, 0x4C, 0x58, 0xCF],
    [0xD0, 0xEF, 0xAA, 0xFB, 0x43, 0x4D, 0x33, 0x85, 0x45, 0xF9, 0x02, 0x7F, 0x50, 0x3C, 0x9F, 0xA8],
    [0x51, 0xA3, 0x40, 0x8F, 0x92, 0x9D, 0x38, 0xF5, 0xBC, 0xB6, 0xDA, 0x21, 0x10, 0xFF, 0xF3, 0xD2],
    [0xCD, 0x0C, 0x13, 0xEC, 0x5F, 0x97, 0x44, 0x17, 0xC4, 0xA7, 0x7E, 0x3D, 0x64, 0x5D, 0x19, 0x73],
    [0x60, 0x81, 0x4F, 0xDC, 0x22, 0x2A, 0x90, 0x88, 0x46, 0xEE, 0xB8, 0x14, 0xDE, 0x5E, 0x0B, 0xDB],
    [0xE0, 0x32, 0x3A, 0x0A, 0x49, 0x06, 0x24, 0x5C, 0xC2, 0xD3, 0xAC, 0x62, 0x91, 0x95, 0xE4, 0x79],
    [0xE7, 0xC8, 0x37, 0x6D, 0x8D, 0xD5, 0x4E, 0xA9, 0x6C, 0x56, 0xF4, 0xEA, 0x65, 0x7A, 0xAE, 0x08],
    [0xBA, 0x78, 0x25, 0x2E, 0x1C, 0xA6, 0xB4, 0xC6, 0xE8, 0xDD, 0x74, 0x1F, 0x4B, 0xBD, 0x8B, 0x8A],
    [0x70, 0x3E, 0xB5, 0x66, 0x48, 0x03, 0xF6, 0x0E, 0x61, 0x35, 0x57, 0xB9, 0x86, 0xC1, 0x1D, 0x9E],
    [0xE1, 0xF8, 0x98, 0x11, 0x69, 0xD9, 0x8E, 0x94, 0x9B, 0x1E, 0x87, 0xE9, 0xCE, 0x55, 0x28, 0xDF],
    [0x8C, 0xA1, 0x89, 0x0D, 0xBF, 0xE6, 0x42, 0x68, 0x41, 0x99, 0x2D, 0x0F, 0xB0, 0x54, 0xBB, 0x16]]"

definition aes_invsbox :: "u8 list list" where
  "aes_invsbox = [
    [0x52, 0x09, 0x6A, 0xD5, 0x30, 0x36, 0xA5, 0x38, 0xBF, 0x40, 0xA3, 0x9E, 0x81, 0xF3, 0xD7, 0xFB],
    [0x7C, 0xE3, 0x39, 0x82, 0x9B, 0x2F, 0xFF, 0x87, 0x34, 0x8E, 0x43, 0x44, 0xC4, 0xDE, 0xE9, 0xCB],
    [0x54, 0x7B, 0x94, 0x32, 0xA6, 0xC2, 0x23, 0x3D, 0xEE, 0x4C, 0x95, 0x0B, 0x42, 0xFA, 0xC3, 0x4E],
    [0x08, 0x2E, 0xA1, 0x66, 0x28, 0xD9, 0x24, 0xB2, 0x76, 0x5B, 0xA2, 0x49, 0x6D, 0x8B, 0xD1, 0x25],
    [0x72, 0xF8, 0xF6, 0x64, 0x86, 0x68, 0x98, 0x16, 0xD4, 0xA4, 0x5C, 0xCC, 0x5D, 0x65, 0xB6, 0x92],
    [0x6C, 0x70, 0x48, 0x50, 0xFD, 0xED, 0xB9, 0xDA, 0x5E, 0x15, 0x46, 0x57, 0xA7, 0x8D, 0x9D, 0x84],
    [0x90, 0xD8, 0xAB, 0x00, 0x8C, 0xBC, 0xD3, 0x0A, 0xF7, 0xE4, 0x58, 0x05, 0xB8, 0xB3, 0x45, 0x06],
    [0xD0, 0x2C, 0x1E, 0x8F, 0xCA, 0x3F, 0x0F, 0x02, 0xC1, 0xAF, 0xBD, 0x03, 0x01, 0x13, 0x8A, 0x6B],
    [0x3A, 0x91, 0x11, 0x41, 0x4F, 0x67, 0xDC, 0xEA, 0x97, 0xF2, 0xCF, 0xCE, 0xF0, 0xB4, 0xE6, 0x73],
    [0x96, 0xAC, 0x74, 0x22, 0xE7, 0xAD, 0x35, 0x85, 0xE2, 0xF9, 0x37, 0xE8, 0x1C, 0x75, 0xDF, 0x6E],
    [0x47, 0xF1, 0x1A, 0x71, 0x1D, 0x29, 0xC5, 0x89, 0x6F, 0xB7, 0x62, 0x0E, 0xAA, 0x18, 0xBE, 0x1B],
    [0xFC, 0x56, 0x3E, 0x4B, 0xC6, 0xD2, 0x79, 0x20, 0x9A, 0xDB, 0xC0, 0xFE, 0x78, 0xCD, 0x5A, 0xF4],
    [0x1F, 0xDD, 0xA8, 0x33, 0x88, 0x07, 0xC7, 0x31, 0xB1, 0x12, 0x10, 0x59, 0x27, 0x80, 0xEC, 0x5F],
    [0x60, 0x51, 0x7F, 0xA9, 0x19, 0xB5, 0x4A, 0x0D, 0x2D, 0xE5, 0x7A, 0x9F, 0x93, 0xC9, 0x9C, 0xEF],
    [0xA0, 0xE0, 0x3B, 0x4D, 0xAE, 0x2A, 0xF5, 0xB0, 0xC8, 0xEB, 0xBB, 0x3C, 0x83, 0x53, 0x99, 0x61],
    [0x17, 0x2B, 0x04, 0x7E, 0xBA, 0x77, 0xD6, 0x26, 0xE1, 0x69, 0x14, 0x63, 0x55, 0x21, 0x0C, 0x7D]]"

text \<open>Columns: multiples by 2, 3, 9, 11, 13 and 14 in the field with 256 elements.\<close>

definition gf_mul :: "u8 list list" where
  "gf_mul = [
    [0x00, 0x00, 0x00, 0x00, 0x00, 0x00], [0x02, 0x03, 0x09, 0x0b, 0x0d, 0x0e],
    [0x04, 0x06, 0x12, 0x16, 0x1a, 0x1c], [0x06, 0x05, 0x1b, 0x1d, 0x17, 0x12],
    [0x08, 0x0c, 0x24, 0x2c, 0x34, 0x38], [0x0a, 0x0f, 0x2d, 0x27, 0x39, 0x36],
    [0x0c, 0x0a, 0x36, 0x3a, 0x2e, 0x24], [0x0e, 0x09, 0x3f, 0x31, 0x23, 0x2a],
    [0x10, 0x18, 0x48, 0x58, 0x68, 0x70], [0x12, 0x1b, 0x41, 0x53, 0x65, 0x7e],
    [0x14, 0x1e, 0x5a, 0x4e, 0x72, 0x6c], [0x16, 0x1d, 0x53, 0x45, 0x7f, 0x62],
    [0x18, 0x14, 0x6c, 0x74, 0x5c, 0x48], [0x1a, 0x17, 0x65, 0x7f, 0x51, 0x46],
    [0x1c, 0x12, 0x7e, 0x62, 0x46, 0x54], [0x1e, 0x11, 0x77, 0x69, 0x4b, 0x5a],
    [0x20, 0x30, 0x90, 0xb0, 0xd0, 0xe0], [0x22, 0x33, 0x99, 0xbb, 0xdd, 0xee],
    [0x24, 0x36, 0x82, 0xa6, 0xca, 0xfc], [0x26, 0x35, 0x8b, 0xad, 0xc7, 0xf2],
    [0x28, 0x3c, 0xb4, 0x9c, 0xe4, 0xd8], [0x2a, 0x3f, 0xbd, 0x97, 0xe9, 0xd6],
    [0x2c, 0x3a, 0xa6, 0x8a, 0xfe, 0xc4], [0x2e, 0x39, 0xaf, 0x81, 0xf3, 0xca],
    [0x30, 0x28, 0xd8, 0xe8, 0xb8, 0x90], [0x32, 0x2b, 0xd1, 0xe3, 0xb5, 0x9e],
    [0x34, 0x2e, 0xca, 0xfe, 0xa2, 0x8c], [0x36, 0x2d, 0xc3, 0xf5, 0xaf, 0x82],
    [0x38, 0x24, 0xfc, 0xc4, 0x8c, 0xa8], [0x3a, 0x27, 0xf5, 0xcf, 0x81, 0xa6],
    [0x3c, 0x22, 0xee, 0xd2, 0x96, 0xb4], [0x3e, 0x21, 0xe7, 0xd9, 0x9b, 0xba],
    [0x40, 0x60, 0x3b, 0x7b, 0xbb, 0xdb], [0x42, 0x63, 0x32, 0x70, 0xb6, 0xd5],
    [0x44, 0x66, 0x29, 0x6d, 0xa1, 0xc7], [0x46, 0x65, 0x20, 0x66, 0xac, 0xc9],
    [0x48, 0x6c, 0x1f, 0x57, 0x8f, 0xe3], [0x4a, 0x6f, 0x16, 0x5c, 0x82, 0xed],
    [0x4c, 0x6a, 0x0d, 0x41, 0x95, 0xff], [0x4e, 0x69, 0x04, 0x4a, 0x98, 0xf1],
    [0x50, 0x78, 0x73, 0x23, 0xd3, 0xab], [0x52, 0x7b, 0x7a, 0x28, 0xde, 0xa5],
    [0x54, 0x7e, 0x61, 0x35, 0xc9, 0xb7], [0x56, 0x7d, 0x68, 0x3e, 0xc4, 0xb9],
    [0x58, 0x74, 0x57, 0x0f, 0xe7, 0x93], [0x5a, 0x77, 0x5e, 0x04, 0xea, 0x9d],
    [0x5c, 0x72, 0x45, 0x19, 0xfd, 0x8f], [0x5e, 0x71, 0x4c, 0x12, 0xf0, 0x81],
    [0x60, 0x50, 0xab, 0xcb, 0x6b, 0x3b], [0x62, 0x53, 0xa2, 0xc0, 0x66, 0x35],
    [0x64, 0x56, 0xb9, 0xdd, 0x71, 0x27], [0x66, 0x55, 0xb0, 0xd6, 0x7c, 0x29],
    [0x68, 0x5c, 0x8f, 0xe7, 0x5f, 0x03], [0x6a, 0x5f, 0x86, 0xec, 0x52, 0x0d],
    [0x6c, 0x5a, 0x9d, 0xf1, 0x45, 0x1f], [0x6e, 0x59, 0x94, 0xfa, 0x48, 0x11],
    [0x70, 0x48, 0xe3, 0x93, 0x03, 0x4b], [0x72, 0x4b, 0xea, 0x98, 0x0e, 0x45],
    [0x74, 0x4e, 0xf1, 0x85, 0x19, 0x57], [0x76, 0x4d, 0xf8, 0x8e, 0x14, 0x59],
    [0x78, 0x44, 0xc7, 0xbf, 0x37, 0x73], [0x7a, 0x47, 0xce, 0xb4, 0x3a, 0x7d],
    [0x7c, 0x42, 0xd5, 0xa9, 0x2d, 0x6f], [0x7e, 0x41, 0xdc, 0xa2, 0x20, 0x61],
    [0x80, 0xc0, 0x76, 0xf6, 0x6d, 0xad], [0x82, 0xc3, 0x7f, 0xfd, 0x60, 0xa3],
    [0x84, 0xc6, 0x64, 0xe0, 0x77, 0xb1], [0x86, 0xc5, 0x6d, 0xeb, 0x7a, 0xbf],
    [0x88, 0xcc, 0x52, 0xda, 0x59, 0x95], [0x8a, 0xcf, 0x5b, 0xd1, 0x54, 0x9b],
    [0x8c, 0xca, 0x40, 0xcc, 0x43, 0x89], [0x8e, 0xc9, 0x49, 0xc7, 0x4e, 0x87],
    [0x90, 0xd8, 0x3e, 0xae, 0x05, 0xdd], [0x92, 0xdb, 0x37, 0xa5, 0x08, 0xd3],
    [0x94, 0xde, 0x2c, 0xb8, 0x1f, 0xc1], [0x96, 0xdd, 0x25, 0xb3, 0x12, 0xcf],
    [0x98, 0xd4, 0x1a, 0x82, 0x31, 0xe5], [0x9a, 0xd7, 0x13, 0x89, 0x3c, 0xeb],
    [0x9c, 0xd2, 0x08, 0x94, 0x2b, 0xf9], [0x9e, 0xd1, 0x01, 0x9f, 0x26, 0xf7],
    [0xa0, 0xf0, 0xe6, 0x46, 0xbd, 0x4d], [0xa2, 0xf3, 0xef, 0x4d, 0xb0, 0x43],
    [0xa4, 0xf6, 0xf4, 0x50, 0xa7, 0x51], [0xa6, 0xf5, 0xfd, 0x5b, 0xaa, 0x5f],
    [0xa8, 0xfc, 0xc2, 0x6a, 0x89, 0x75], [0xaa, 0xff, 0xcb, 0x61, 0x84, 0x7b],
    [0xac, 0xfa, 0xd0, 0x7c, 0x93, 0x69], [0xae, 0xf9, 0xd9, 0x77, 0x9e, 0x67],
    [0xb0, 0xe8, 0xae, 0x1e, 0xd5, 0x3d], [0xb2, 0xeb, 0xa7, 0x15, 0xd8, 0x33],
    [0xb4, 0xee, 0xbc, 0x08, 0xcf, 0x21], [0xb6, 0xed, 0xb5, 0x03, 0xc2, 0x2f],
    [0xb8, 0xe4, 0x8a, 0x32, 0xe1, 0x05], [0xba, 0xe7, 0x83, 0x39, 0xec, 0x0b],
    [0xbc, 0xe2, 0x98, 0x24, 0xfb, 0x19], [0xbe, 0xe1, 0x91, 0x2f, 0xf6, 0x17],
    [0xc0, 0xa0, 0x4d, 0x8d, 0xd6, 0x76], [0xc2, 0xa3, 0x44, 0x86, 0xdb, 0x78],
    [0xc4, 0xa6, 0x5f, 0x9b, 0xcc, 0x6a], [0xc6, 0xa5, 0x56, 0x90, 0xc1, 0x64],
    [0xc8, 0xac, 0x69, 0xa1, 0xe2, 0x4e], [0xca, 0xaf, 0x60, 0xaa, 0xef, 0x40],
    [0xcc, 0xaa, 0x7b, 0xb7, 0xf8, 0x52], [0xce, 0xa9, 0x72, 0xbc, 0xf5, 0x5c],
    [0xd0, 0xb8, 0x05, 0xd5, 0xbe, 0x06], [0xd2, 0xbb, 0x0c, 0xde, 0xb3, 0x08],
    [0xd4, 0xbe, 0x17, 0xc3, 0xa4, 0x1a], [0xd6, 0xbd, 0x1e, 0xc8, 0xa9, 0x14],
    [0xd8, 0xb4, 0x21, 0xf9, 0x8a, 0x3e], [0xda, 0xb7, 0x28, 0xf2, 0x87, 0x30],
    [0xdc, 0xb2, 0x33, 0xef, 0x90, 0x22], [0xde, 0xb1, 0x3a, 0xe4, 0x9d, 0x2c],
    [0xe0, 0x90, 0xdd, 0x3d, 0x06, 0x96], [0xe2, 0x93, 0xd4, 0x36, 0x0b, 0x98],
    [0xe4, 0x96, 0xcf, 0x2b, 0x1c, 0x8a], [0xe6, 0x95, 0xc6, 0x20, 0x11, 0x84],
    [0xe8, 0x9c, 0xf9, 0x11, 0x32, 0xae], [0xea, 0x9f, 0xf0, 0x1a, 0x3f, 0xa0],
    [0xec, 0x9a, 0xeb, 0x07, 0x28, 0xb2], [0xee, 0x99, 0xe2, 0x0c, 0x25, 0xbc],
    [0xf0, 0x88, 0x95, 0x65, 0x6e, 0xe6], [0xf2, 0x8b, 0x9c, 0x6e, 0x63, 0xe8],
    [0xf4, 0x8e, 0x87, 0x73, 0x74, 0xfa], [0xf6, 0x8d, 0x8e, 0x78, 0x79, 0xf4],
    [0xf8, 0x84, 0xb1, 0x49, 0x5a, 0xde], [0xfa, 0x87, 0xb8, 0x42, 0x57, 0xd0],
    [0xfc, 0x82, 0xa3, 0x5f, 0x40, 0xc2], [0xfe, 0x81, 0xaa, 0x54, 0x4d, 0xcc],
    [0x1b, 0x9b, 0xec, 0xf7, 0xda, 0x41], [0x19, 0x98, 0xe5, 0xfc, 0xd7, 0x4f],
    [0x1f, 0x9d, 0xfe, 0xe1, 0xc0, 0x5d], [0x1d, 0x9e, 0xf7, 0xea, 0xcd, 0x53],
    [0x13, 0x97, 0xc8, 0xdb, 0xee, 0x79], [0x11, 0x94, 0xc1, 0xd0, 0xe3, 0x77],
    [0x17, 0x91, 0xda, 0xcd, 0xf4, 0x65], [0x15, 0x92, 0xd3, 0xc6, 0xf9, 0x6b],
    [0x0b, 0x83, 0xa4, 0xaf, 0xb2, 0x31], [0x09, 0x80, 0xad, 0xa4, 0xbf, 0x3f],
    [0x0f, 0x85, 0xb6, 0xb9, 0xa8, 0x2d], [0x0d, 0x86, 0xbf, 0xb2, 0xa5, 0x23],
    [0x03, 0x8f, 0x80, 0x83, 0x86, 0x09], [0x01, 0x8c, 0x89, 0x88, 0x8b, 0x07],
    [0x07, 0x89, 0x92, 0x95, 0x9c, 0x15], [0x05, 0x8a, 0x9b, 0x9e, 0x91, 0x1b],
    [0x3b, 0xab, 0x7c, 0x47, 0x0a, 0xa1], [0x39, 0xa8, 0x75, 0x4c, 0x07, 0xaf],
    [0x3f, 0xad, 0x6e, 0x51, 0x10, 0xbd], [0x3d, 0xae, 0x67, 0x5a, 0x1d, 0xb3],
    [0x33, 0xa7, 0x58, 0x6b, 0x3e, 0x99], [0x31, 0xa4, 0x51, 0x60, 0x33, 0x97],
    [0x37, 0xa1, 0x4a, 0x7d, 0x24, 0x85], [0x35, 0xa2, 0x43, 0x76, 0x29, 0x8b],
    [0x2b, 0xb3, 0x34, 0x1f, 0x62, 0xd1], [0x29, 0xb0, 0x3d, 0x14, 0x6f, 0xdf],
    [0x2f, 0xb5, 0x26, 0x09, 0x78, 0xcd], [0x2d, 0xb6, 0x2f, 0x02, 0x75, 0xc3],
    [0x23, 0xbf, 0x10, 0x33, 0x56, 0xe9], [0x21, 0xbc, 0x19, 0x38, 0x5b, 0xe7],
    [0x27, 0xb9, 0x02, 0x25, 0x4c, 0xf5], [0x25, 0xba, 0x0b, 0x2e, 0x41, 0xfb],
    [0x5b, 0xfb, 0xd7, 0x8c, 0x61, 0x9a], [0x59, 0xf8, 0xde, 0x87, 0x6c, 0x94],
    [0x5f, 0xfd, 0xc5, 0x9a, 0x7b, 0x86], [0x5d, 0xfe, 0xcc, 0x91, 0x76, 0x88],
    [0x53, 0xf7, 0xf3, 0xa0, 0x55, 0xa2], [0x51, 0xf4, 0xfa, 0xab, 0x58, 0xac],
    [0x57, 0xf1, 0xe1, 0xb6, 0x4f, 0xbe], [0x55, 0xf2, 0xe8, 0xbd, 0x42, 0xb0],
    [0x4b, 0xe3, 0x9f, 0xd4, 0x09, 0xea], [0x49, 0xe0, 0x96, 0xdf, 0x04, 0xe4],
    [0x4f, 0xe5, 0x8d, 0xc2, 0x13, 0xf6], [0x4d, 0xe6, 0x84, 0xc9, 0x1e, 0xf8],
    [0x43, 0xef, 0xbb, 0xf8, 0x3d, 0xd2], [0x41, 0xec, 0xb2, 0xf3, 0x30, 0xdc],
    [0x47, 0xe9, 0xa9, 0xee, 0x27, 0xce], [0x45, 0xea, 0xa0, 0xe5, 0x2a, 0xc0],
    [0x7b, 0xcb, 0x47, 0x3c, 0xb1, 0x7a], [0x79, 0xc8, 0x4e, 0x37, 0xbc, 0x74],
    [0x7f, 0xcd, 0x55, 0x2a, 0xab, 0x66], [0x7d, 0xce, 0x5c, 0x21, 0xa6, 0x68],
    [0x73, 0xc7, 0x63, 0x10, 0x85, 0x42], [0x71, 0xc4, 0x6a, 0x1b, 0x88, 0x4c],
    [0x77, 0xc1, 0x71, 0x06, 0x9f, 0x5e], [0x75, 0xc2, 0x78, 0x0d, 0x92, 0x50],
    [0x6b, 0xd3, 0x0f, 0x64, 0xd9, 0x0a], [0x69, 0xd0, 0x06, 0x6f, 0xd4, 0x04],
    [0x6f, 0xd5, 0x1d, 0x72, 0xc3, 0x16], [0x6d, 0xd6, 0x14, 0x79, 0xce, 0x18],
    [0x63, 0xdf, 0x2b, 0x48, 0xed, 0x32], [0x61, 0xdc, 0x22, 0x43, 0xe0, 0x3c],
    [0x67, 0xd9, 0x39, 0x5e, 0xf7, 0x2e], [0x65, 0xda, 0x30, 0x55, 0xfa, 0x20],
    [0x9b, 0x5b, 0x9a, 0x01, 0xb7, 0xec], [0x99, 0x58, 0x93, 0x0a, 0xba, 0xe2],
    [0x9f, 0x5d, 0x88, 0x17, 0xad, 0xf0], [0x9d, 0x5e, 0x81, 0x1c, 0xa0, 0xfe],
    [0x93, 0x57, 0xbe, 0x2d, 0x83, 0xd4], [0x91, 0x54, 0xb7, 0x26, 0x8e, 0xda],
    [0x97, 0x51, 0xac, 0x3b, 0x99, 0xc8], [0x95, 0x52, 0xa5, 0x30, 0x94, 0xc6],
    [0x8b, 0x43, 0xd2, 0x59, 0xdf, 0x9c], [0x89, 0x40, 0xdb, 0x52, 0xd2, 0x92],
    [0x8f, 0x45, 0xc0, 0x4f, 0xc5, 0x80], [0x8d, 0x46, 0xc9, 0x44, 0xc8, 0x8e],
    [0x83, 0x4f, 0xf6, 0x75, 0xeb, 0xa4], [0x81, 0x4c, 0xff, 0x7e, 0xe6, 0xaa],
    [0x87, 0x49, 0xe4, 0x63, 0xf1, 0xb8], [0x85, 0x4a, 0xed, 0x68, 0xfc, 0xb6],
    [0xbb, 0x6b, 0x0a, 0xb1, 0x67, 0x0c], [0xb9, 0x68, 0x03, 0xba, 0x6a, 0x02],
    [0xbf, 0x6d, 0x18, 0xa7, 0x7d, 0x10], [0xbd, 0x6e, 0x11, 0xac, 0x70, 0x1e],
    [0xb3, 0x67, 0x2e, 0x9d, 0x53, 0x34], [0xb1, 0x64, 0x27, 0x96, 0x5e, 0x3a],
    [0xb7, 0x61, 0x3c, 0x8b, 0x49, 0x28], [0xb5, 0x62, 0x35, 0x80, 0x44, 0x26],
    [0xab, 0x73, 0x42, 0xe9, 0x0f, 0x7c], [0xa9, 0x70, 0x4b, 0xe2, 0x02, 0x72],
    [0xaf, 0x75, 0x50, 0xff, 0x15, 0x60], [0xad, 0x76, 0x59, 0xf4, 0x18, 0x6e],
    [0xa3, 0x7f, 0x66, 0xc5, 0x3b, 0x44], [0xa1, 0x7c, 0x6f, 0xce, 0x36, 0x4a],
    [0xa7, 0x79, 0x74, 0xd3, 0x21, 0x58], [0xa5, 0x7a, 0x7d, 0xd8, 0x2c, 0x56],
    [0xdb, 0x3b, 0xa1, 0x7a, 0x0c, 0x37], [0xd9, 0x38, 0xa8, 0x71, 0x01, 0x39],
    [0xdf, 0x3d, 0xb3, 0x6c, 0x16, 0x2b], [0xdd, 0x3e, 0xba, 0x67, 0x1b, 0x25],
    [0xd3, 0x37, 0x85, 0x56, 0x38, 0x0f], [0xd1, 0x34, 0x8c, 0x5d, 0x35, 0x01],
    [0xd7, 0x31, 0x97, 0x40, 0x22, 0x13], [0xd5, 0x32, 0x9e, 0x4b, 0x2f, 0x1d],
    [0xcb, 0x23, 0xe9, 0x22, 0x64, 0x47], [0xc9, 0x20, 0xe0, 0x29, 0x69, 0x49],
    [0xcf, 0x25, 0xfb, 0x34, 0x7e, 0x5b], [0xcd, 0x26, 0xf2, 0x3f, 0x73, 0x55],
    [0xc3, 0x2f, 0xcd, 0x0e, 0x50, 0x7f], [0xc1, 0x2c, 0xc4, 0x05, 0x5d, 0x71],
    [0xc7, 0x29, 0xdf, 0x18, 0x4a, 0x63], [0xc5, 0x2a, 0xd6, 0x13, 0x47, 0x6d],
    [0xfb, 0x0b, 0x31, 0xca, 0xdc, 0xd7], [0xf9, 0x08, 0x38, 0xc1, 0xd1, 0xd9],
    [0xff, 0x0d, 0x23, 0xdc, 0xc6, 0xcb], [0xfd, 0x0e, 0x2a, 0xd7, 0xcb, 0xc5],
    [0xf3, 0x07, 0x15, 0xe6, 0xe8, 0xef], [0xf1, 0x04, 0x1c, 0xed, 0xe5, 0xe1],
    [0xf7, 0x01, 0x07, 0xf0, 0xf2, 0xf3], [0xf5, 0x02, 0x0e, 0xfb, 0xff, 0xfd],
    [0xeb, 0x13, 0x79, 0x92, 0xb4, 0xa7], [0xe9, 0x10, 0x70, 0x99, 0xb9, 0xa9],
    [0xef, 0x15, 0x6b, 0x84, 0xae, 0xbb], [0xed, 0x16, 0x62, 0x8f, 0xa3, 0xb5],
    [0xe3, 0x1f, 0x5d, 0xbe, 0x80, 0x9f], [0xe1, 0x1c, 0x54, 0xb5, 0x8d, 0x91],
    [0xe7, 0x19, 0x4f, 0xa8, 0x9a, 0x83], [0xe5, 0x1a, 0x46, 0xa3, 0x97, 0x8d]]"

section \<open>Key expansion\<close>

definition sbox :: "u8 \<Rightarrow> u8" where
  "sbox b = aes_sbox ! unat (drop_bit 4 b) ! unat (b AND 0x0F)"

definition invsbox :: "u8 \<Rightarrow> u8" where
  "invsbox b = aes_invsbox ! unat (drop_bit 4 b) ! unat (b AND 0x0F)"

definition KE_ROTWORD :: "u32 \<Rightarrow> u32" where
  "KE_ROTWORD x = push_bit 8 x OR drop_bit 24 x"

definition sbox_nibbles :: "u32 \<Rightarrow> nat \<Rightarrow> u32" where
  "sbox_nibbles w k =
     ucast (aes_sbox ! unat (drop_bit (k + 4) w AND 0x0F) ! unat (drop_bit k w AND 0x0F))"

definition SubWord :: "u32 \<Rightarrow> u32" where
  "SubWord w =
     sbox_nibbles w 0 + push_bit 8 (sbox_nibbles w 8) + push_bit 16 (sbox_nibbles w 16)
     + push_bit 24 (sbox_nibbles w 24)"

definition Rcon :: "u32 list" where
  "Rcon = [0x01000000, 0x02000000, 0x04000000, 0x08000000, 0x10000000, 0x20000000,
           0x40000000, 0x80000000, 0x1b000000, 0x36000000, 0x6c000000, 0xd8000000,
           0xab000000, 0x4d000000, 0x9a000000]"

definition key_word :: "bytes \<Rightarrow> nat \<Rightarrow> u32" where
  "key_word key idx =
     push_bit 24 (ucast (key ! (4 * idx))) OR push_bit 16 (ucast (key ! (4 * idx + 1)))
     OR push_bit 8 (ucast (key ! (4 * idx + 2))) OR ucast (key ! (4 * idx + 3))"

text \<open>The second loop, with \<open>idx = length w\<close>; the first argument counts the words left.\<close>

fun expand_key :: "nat \<Rightarrow> nat \<Rightarrow> u32 list \<Rightarrow> u32 list" where
  "expand_key Nk 0 w = w"
| "expand_key Nk (Suc n) w =
     (let idx = length w;
          temp = w ! (idx - 1);
          temp =
            (if idx mod Nk = 0 then SubWord (KE_ROTWORD temp) XOR Rcon ! ((idx - 1) div Nk)
             else if Nk > 6 \<and> idx mod Nk = 4 then SubWord temp
             else temp)
      in expand_key Nk n (w @ [w ! (idx - Nk) XOR temp]))"

text \<open>\<open>None\<close>: the key size is not supported and \<open>w\<close> is left unwritten.\<close>

definition aes_key_setup :: "bytes \<Rightarrow> nat \<Rightarrow> u32 list option" where
  "aes_key_setup key keysize =
     (let setup = (\<lambda>Nr Nk. expand_key Nk (4 * (Nr + 1) - Nk) (map (key_word key) [0..<Nk]))
      in if keysize = 128 then Some (setup 10 4)
         else if keysize = 192 then Some (setup 12 6)
         else if keysize = 256 then Some (setup 14 8)
         else None)"

section \<open>The round transformations\<close>

type_synonym column = "u8 \<times> u8 \<times> u8 \<times> u8"
type_synonym aes_state = "column \<times> column \<times> column \<times> column"

fun xor_word :: "column \<Rightarrow> u32 \<Rightarrow> column" where
  "xor_word (r0, r1, r2, r3) w =
     (r0 XOR ucast (drop_bit 24 w), r1 XOR ucast (drop_bit 16 w),
      r2 XOR ucast (drop_bit 8 w), r3 XOR ucast w)"

text \<open>\<open>AddRoundKey(state, &key[k])\<close>\<close>

fun AddRoundKey :: "u32 list \<Rightarrow> nat \<Rightarrow> aes_state \<Rightarrow> aes_state" where
  "AddRoundKey key k (c0, c1, c2, c3) =
     (xor_word c0 (key ! k), xor_word c1 (key ! (k + 1)),
      xor_word c2 (key ! (k + 2)), xor_word c3 (key ! (k + 3)))"

fun map_column :: "(u8 \<Rightarrow> u8) \<Rightarrow> column \<Rightarrow> column" where
  "map_column f (r0, r1, r2, r3) = (f r0, f r1, f r2, f r3)"

fun SubBytes :: "aes_state \<Rightarrow> aes_state" where
  "SubBytes (c0, c1, c2, c3) =
     (map_column sbox c0, map_column sbox c1, map_column sbox c2, map_column sbox c3)"

fun InvSubBytes :: "aes_state \<Rightarrow> aes_state" where
  "InvSubBytes (c0, c1, c2, c3) =
     (map_column invsbox c0, map_column invsbox c1, map_column invsbox c2, map_column invsbox c3)"

fun ShiftRows :: "aes_state \<Rightarrow> aes_state" where
  "ShiftRows ((a0, a1, a2, a3), (b0, b1, b2, b3), (c0, c1, c2, c3), (d0, d1, d2, d3)) =
     ((a0, b1, c2, d3), (b0, c1, d2, a3), (c0, d1, a2, b3), (d0, a1, b2, c3))"

fun InvShiftRows :: "aes_state \<Rightarrow> aes_state" where
  "InvShiftRows ((a0, a1, a2, a3), (b0, b1, b2, b3), (c0, c1, c2, c3), (d0, d1, d2, d3)) =
     ((a0, d1, c2, b3), (b0, a1, d2, c3), (c0, b1, a2, d3), (d0, c1, b2, a3))"

definition gf :: "nat \<Rightarrow> u8 \<Rightarrow> u8" where
  "gf c x = gf_mul ! unat x ! c"

fun mix_column :: "column \<Rightarrow> column" where
  "mix_column (c0, c1, c2, c3) =
     (gf 0 c0 XOR gf 1 c1 XOR c2 XOR c3,
      c0 XOR gf 0 c1 XOR gf 1 c2 XOR c3,
      c0 XOR c1 XOR gf 0 c2 XOR gf 1 c3,
      gf 1 c0 XOR c1 XOR c2 XOR gf 0 c3)"

fun MixColumns :: "aes_state \<Rightarrow> aes_state" where
  "MixColumns (c0, c1, c2, c3) = (mix_column c0, mix_column c1, mix_column c2, mix_column c3)"

fun inv_mix_column :: "column \<Rightarrow> column" where
  "inv_mix_column (c0, c1, c2, c3) =
     (gf 5 c0 XOR gf 3 c1 XOR gf 4 c2 XOR gf 2 c3,
      gf 2 c0 XOR gf 5 c1 XOR gf 3 c2 XOR gf 4 c3,
      gf 4 c0 XOR gf 2 c1 XOR gf 5 c2 XOR gf 3 c3,
      gf 3 c0 XOR gf 4 c1 XOR gf 2 c2 XOR gf 5 c3)"

fun InvMixColumns :: "aes_state \<Rightarrow> aes_state" where
  "InvMixColumns (c0, c1, c2, c3) =
     (inv_mix_column c0, inv_mix_column c1, inv_mix_column c2, inv_mix_column c3)"

section \<open>Encryption and decryption of a block\<close>

definition load_column :: "bytes \<Rightarrow> nat \<Rightarrow> column" where
  "load_column inp i = (inp ! i, inp ! (i + 1), inp ! (i + 2), inp ! (i + 3))"

definition load_state :: "bytes \<Rightarrow> aes_state" where
  "load_state inp =
     (load_column inp 0, load_column inp 4, load_column inp 8, load_column inp 12)"

fun store_state :: "aes_state \<Rightarrow> bytes" where
  "store_state ((a0, a1, a2, a3), (b0, b1, b2, b3), (c0, c1, c2, c3), (d0, d1, d2, d3)) =
     [a0, a1, a2, a3, b0, b1, b2, b3, c0, c1, c2, c3, d0, d1, d2, d3]"

text \<open>One line of rounds of \<open>aes_encrypt\<close> and of \<open>aes_decrypt\<close>.\<close>

definition enc_round :: "u32 list \<Rightarrow> aes_state \<Rightarrow> nat \<Rightarrow> aes_state" where
  "enc_round key s k = AddRoundKey key k (MixColumns (ShiftRows (SubBytes s)))"

definition enc_last_round :: "u32 list \<Rightarrow> aes_state \<Rightarrow> nat \<Rightarrow> aes_state" where
  "enc_last_round key s k = AddRoundKey key k (ShiftRows (SubBytes s))"

definition dec_round :: "u32 list \<Rightarrow> aes_state \<Rightarrow> nat \<Rightarrow> aes_state" where
  "dec_round key s k = InvMixColumns (AddRoundKey key k (InvSubBytes (InvShiftRows s)))"

definition dec_last_round :: "u32 list \<Rightarrow> aes_state \<Rightarrow> nat \<Rightarrow> aes_state" where
  "dec_last_round key s k = AddRoundKey key k (InvSubBytes (InvShiftRows s))"

definition aes_encrypt :: "bytes \<Rightarrow> u32 list \<Rightarrow> nat \<Rightarrow> bytes" where
  "aes_encrypt inp key keysize =
     (let s = AddRoundKey key 0 (load_state inp);
          s = foldl (enc_round key) s [4, 8, 12, 16, 20, 24, 28, 32, 36];
          s = (if keysize \<noteq> 128 then
                 let s = foldl (enc_round key) s [40, 44]
                 in if keysize \<noteq> 192 then
                      let s = foldl (enc_round key) s [48, 52]
                      in enc_last_round key s 56
                    else enc_last_round key s 48
               else enc_last_round key s 40)
      in store_state s)"

definition aes_decrypt :: "bytes \<Rightarrow> u32 list \<Rightarrow> nat \<Rightarrow> bytes" where
  "aes_decrypt inp key keysize =
     (let s = load_state inp;
          s = (if keysize > 128 then
                 let s = (if keysize > 192 then
                            let s = AddRoundKey key 56 s
                            in foldl (dec_round key) s [52, 48]
                          else AddRoundKey key 48 s)
                 in foldl (dec_round key) s [44, 40]
               else AddRoundKey key 40 s);
          s = foldl (dec_round key) s [36, 32, 28, 24, 20, 16, 12, 8, 4]
      in store_state (dec_last_round key s 0))"

section \<open>Every step is inverted\<close>

text \<open>Multiplication by \<open>x\<close> in the field, and the table's columns in terms of it.\<close>

definition xtime :: "u8 \<Rightarrow> u8" where
  "xtime a = push_bit 1 a XOR (if bit a 7 then 0x1b else 0)"

definition gf_row :: "u8 \<Rightarrow> u8 list" where
  "gf_row a =
     (let a2 = xtime a; a4 = xtime a2; a8 = xtime a4
      in [a2, a2 XOR a, a8 XOR a, a8 XOR a2 XOR a, a8 XOR a4 XOR a, a8 XOR a4 XOR a2])"

fun rows_from :: "u8 \<Rightarrow> u8 list list \<Rightarrow> bool" where
  "rows_from i [] = True"
| "rows_from i (r # rs) = (r = gf_row i \<and> rows_from (i + 1) rs)"

lemma gf_mul_rows: "rows_from 0 gf_mul"
  by (simp add: gf_mul_def xtime_def gf_row_def)

lemma rows_from_nth: "rows_from i rs \<Longrightarrow> k < length rs \<Longrightarrow> rs ! k = gf_row (i + of_nat k)"
proof (induction rs arbitrary: i k)
  case (Cons r rs)
  then show ?case
    using Cons.IH [of "i + 1" "k - 1"] by (cases k) (simp_all add: algebra_simps)
qed simp

lemma sbox_table: "\<forall>i\<in>set [0..<256]. invsbox (sbox (of_nat i)) = of_nat i"
  by code_simp

lemma invsbox_sbox: "invsbox (sbox b) = b"
proof -
  have "unat b < 256" using unsigned_less [of b] by simp
  then have "invsbox (sbox (of_nat (unat b))) = of_nat (unat b)"
    by (intro sbox_table [rule_format]) simp
  then show ?thesis by simp
qed

lemma length_gf_mul: "length gf_mul = 256"
  by (simp add: gf_mul_def)

lemma gf_eq: "gf c x = gf_row x ! c"
proof -
  have "unat x < 256" using unsigned_less [of x] by simp
  then have "gf_mul ! unat x = gf_row x"
    using rows_from_nth [OF gf_mul_rows, of "unat x"] by (simp add: length_gf_mul)
  then show ?thesis by (simp add: gf_def)
qed

lemma xtime_xor: "xtime (a XOR b) = xtime a XOR xtime b"
  unfolding xtime_def by (rule bit_word_eqI) (auto simp: bit_simps)

lemma xor_cancel: "x XOR (x XOR y) = (y :: u8)"
  by (simp flip: xor.assoc)

lemma gf_simps:
  "gf 0 a = xtime a" "gf (Suc 0) a = xtime a XOR a"
  "gf 2 a = xtime (xtime (xtime a)) XOR a"
  "gf 3 a = xtime (xtime (xtime a)) XOR xtime a XOR a"
  "gf 4 a = xtime (xtime (xtime a)) XOR xtime (xtime a) XOR a"
  "gf 5 a = xtime (xtime (xtime a)) XOR xtime (xtime a) XOR xtime a"
  by (simp_all add: gf_eq gf_row_def Let_def)

lemma inv_mix_mix_column: "inv_mix_column (mix_column c) = c"
  by (cases c rule: prod_cases4)
     (simp add: gf_simps xtime_xor xor.assoc xor.left_commute xor.commute xor_cancel)

lemma InvMixColumns_MixColumns: "InvMixColumns (MixColumns s) = s"
  by (cases s rule: prod_cases4) (simp add: inv_mix_mix_column)

lemma map_column_invsbox: "map_column invsbox (map_column sbox c) = c"
  by (cases c rule: prod_cases4) (simp add: invsbox_sbox)

lemma InvSubBytes_SubBytes: "InvSubBytes (SubBytes s) = s"
  by (cases s rule: prod_cases4) (simp add: map_column_invsbox)

lemma InvShiftRows_ShiftRows: "InvShiftRows (ShiftRows s) = s"
  by (cases s rule: ShiftRows.cases) simp

lemma xor_word_twice: "xor_word (xor_word c w) w = c"
  by (cases c rule: prod_cases4) (simp add: xor.assoc)

lemma AddRoundKey_twice: "AddRoundKey key k (AddRoundKey key k s) = s"
  by (cases s rule: prod_cases4) (simp add: xor_word_twice)

lemma length_store_state [simp, len_simps]: "length (store_state s) = 16"
  by (cases s rule: ShiftRows.cases) simp

lemma load_store_state: "load_state (store_state s) = s"
  by (cases s rule: ShiftRows.cases) (simp add: load_state_def load_column_def)

lemma store_load_state:
  assumes "length inp = 16"
  shows "store_state (load_state inp) = inp"
  by (rule nth_equalityI)
     (use assms in \<open>auto simp: load_state_def load_column_def nth_Cons' numeral_eq_Suc less_Suc_eq\<close>)

lemmas aes_inverses =
  InvMixColumns_MixColumns InvSubBytes_SubBytes InvShiftRows_ShiftRows AddRoundKey_twice

text \<open>
  The decryption loop keeps a state \<open>SubBytes\<close> and \<open>ShiftRows\<close> are still to be undone on:
  each decryption round peels one encryption round.
\<close>

lemma dec_peels_last: "dec_last_round key (ShiftRows (SubBytes (AddRoundKey key k s))) k = s"
  by (simp add: dec_last_round_def aes_inverses)

lemma dec_peels_round:
  "dec_round key (ShiftRows (SubBytes (enc_round key s k))) k = ShiftRows (SubBytes s)"
  by (simp add: dec_round_def enc_round_def aes_inverses)

lemma dec_starts: "AddRoundKey key k (enc_last_round key s k) = ShiftRows (SubBytes s)"
  by (simp add: enc_last_round_def AddRoundKey_twice)

lemma length_aes [simp, len_simps]:
  "length (aes_encrypt inp key keysize) = 16" "length (aes_decrypt inp key keysize) = 16"
  by (simp_all add: aes_encrypt_def aes_decrypt_def Let_def)

lemma aes_decrypt_encrypt:
  assumes "length inp = 16" and "keysize = 128 \<or> keysize = 192 \<or> keysize = 256"
  shows "aes_decrypt (aes_encrypt inp key keysize) key keysize = inp"
  using assms
  by (auto simp: aes_encrypt_def aes_decrypt_def Let_def load_store_state dec_starts
      dec_peels_round dec_peels_last store_load_state)

section \<open>Properties\<close>

text \<open>C38: With a key schedule set up for any supported key size, decrypting a block that was
  encrypted gives it back.\<close>

theorem aes_block_round_trip:
  assumes "aes_key_setup key keysize = Some w" "length block = 16"
  shows "aes_decrypt (aes_encrypt block w keysize) w keysize = block"
  using assms by (intro aes_decrypt_encrypt) (auto simp: aes_key_setup_def Let_def split: if_splits)

lemma aes_block_round_trip_witness:
  "aes_decrypt (aes_encrypt (replicate 16 7) (the (aes_key_setup (replicate 32 1) 256)) 256)
     (the (aes_key_setup (replicate 32 1) 256)) 256 = replicate 16 7"
  by (rule aes_block_round_trip [of "replicate 32 1"]) (simp_all add: aes_key_setup_def)

end
