(* ===== verification/Crypto.thy ===== *)
theory Crypto
  imports Sha256 Aes
begin

text \<open>
  \<open>src/crypto.cpp\<close> and \<open>include/olm/crypto.h\<close>: SHA-256, HMAC and HKDF over the streaming
  hash, AES-256 in CBC mode with the padding of PKCS#7, and the wrappers of Curve25519 and
  Ed25519.  The functions of the curve libraries are the fields of the record \<open>crypto_prims\<close>; the
  theory \<open>CurveKeys\<close> fills in the model of \<open>lib/curve25519-donna\<close> for the first.
\<close>

section \<open>The vendored primitives\<close>

record crypto_prims =
  curve25519_donna :: "bytes \<Rightarrow> bytes \<Rightarrow> bytes" \<comment> \<open>secret, base point\<close>
  ed25519_create_keypair :: "bytes \<Rightarrow> bytes \<times> bytes" \<comment> \<open>seed to public, private key\<close>
  ed25519_sign :: "bytes \<Rightarrow> bytes \<Rightarrow> bytes \<Rightarrow> bytes" \<comment> \<open>message, public, private key\<close>
  ed25519_verify :: "bytes \<Rightarrow> bytes \<Rightarrow> bytes \<Rightarrow> bool" \<comment> \<open>signature, message, public key\<close>

text \<open>
  Their documented behaviour, as hypotheses the properties name: results have their fixed
  lengths, Diffie-Hellman commutes on the base point, and a signature made with a generated
  key pair verifies.
\<close>

definition CURVE25519_BASEPOINT :: bytes where
  "CURVE25519_BASEPOINT = 9 # replicate 31 0"

definition dh_law :: "crypto_prims \<Rightarrow> bool" where
  "dh_law P \<longleftrightarrow>
     (\<forall>a p. length (curve25519_donna P a p) = 32) \<and>
     (\<forall>a b. length a = 32 \<longrightarrow> length b = 32 \<longrightarrow>
             curve25519_donna P a (curve25519_donna P b CURVE25519_BASEPOINT) =
             curve25519_donna P b (curve25519_donna P a CURVE25519_BASEPOINT))"

definition sign_law :: "crypto_prims \<Rightarrow> bool" where
  "sign_law P \<longleftrightarrow>
     (\<forall>seed. length (fst (ed25519_create_keypair P seed)) = 32
            \<and> length (snd (ed25519_create_keypair P seed)) = 64) \<and>
     (\<forall>msg pub priv. length (ed25519_sign P msg pub priv) = 64) \<and>
     (\<forall>seed pub priv msg. ed25519_create_keypair P seed = (pub, priv) \<longrightarrow>
        ed25519_verify P (ed25519_sign P msg pub priv) msg pub)"

definition CURVE25519_KEY_LENGTH :: nat where "CURVE25519_KEY_LENGTH = 32"
definition CURVE25519_SHARED_SECRET_LENGTH :: nat where "CURVE25519_SHARED_SECRET_LENGTH = 32"
definition CURVE25519_RANDOM_LENGTH :: nat where "CURVE25519_RANDOM_LENGTH = 32"
definition ED25519_PUBLIC_KEY_LENGTH :: nat where "ED25519_PUBLIC_KEY_LENGTH = 32"
definition ED25519_SIGNATURE_LENGTH :: nat where "ED25519_SIGNATURE_LENGTH = 64"
definition ED25519_RANDOM_LENGTH :: nat where "ED25519_RANDOM_LENGTH = 32"

record curve25519_key_pair =
  curve_public :: bytes
  curve_private :: bytes

record ed25519_key_pair =
  ed_public :: bytes
  ed_private :: bytes

definition wf_curve25519_key_pair :: "curve25519_key_pair \<Rightarrow> bool" where
  "wf_curve25519_key_pair k \<longleftrightarrow> length (curve_public k) = 32 \<and> length (curve_private k) = 32"

definition wf_ed25519_key_pair :: "ed25519_key_pair \<Rightarrow> bool" where
  "wf_ed25519_key_pair k \<longleftrightarrow> length (ed_public k) = 32 \<and> length (ed_private k) = 64"

section \<open>Curve25519 and Ed25519 wrappers\<close>

definition olm_crypto_curve25519_generate_key ::
    "crypto_prims \<Rightarrow> bytes \<Rightarrow> curve25519_key_pair" where
  "olm_crypto_curve25519_generate_key P random_bytes =
     (let priv = take 32 random_bytes
      in \<lparr>curve_public = curve25519_donna P priv CURVE25519_BASEPOINT, curve_private = priv\<rparr>)"

definition olm_crypto_curve25519_shared_secret ::
    "crypto_prims \<Rightarrow> curve25519_key_pair \<Rightarrow> bytes \<Rightarrow> bytes" where
  "olm_crypto_curve25519_shared_secret P our_key their_key =
     curve25519_donna P (curve_private our_key) their_key"

definition olm_crypto_ed25519_generate_key ::
    "crypto_prims \<Rightarrow> bytes \<Rightarrow> ed25519_key_pair" where
  "olm_crypto_ed25519_generate_key P random_bytes =
     (let (pub, priv) = ed25519_create_keypair P (take 32 random_bytes)
      in \<lparr>ed_public = pub, ed_private = priv\<rparr>)"

definition olm_crypto_ed25519_sign ::
    "crypto_prims \<Rightarrow> ed25519_key_pair \<Rightarrow> bytes \<Rightarrow> bytes" where
  "olm_crypto_ed25519_sign P our_key message =
     ed25519_sign P message (ed_public our_key) (ed_private our_key)"

definition olm_crypto_ed25519_verify ::
    "crypto_prims \<Rightarrow> bytes \<Rightarrow> bytes \<Rightarrow> bytes \<Rightarrow> bool" where
  "olm_crypto_ed25519_verify P their_key message signature =
     ed25519_verify P signature message their_key"

section \<open>SHA-256, HMAC and HKDF\<close>

text \<open>
  A context on the stack.  Its data bytes are uninitialised in C; the digest does not
  depend on them (\<open>absorbed_init\<close> holds for any 64 bytes).
\<close>

definition stack_ctx :: SHA256_CTX where
  "stack_ctx = \<lparr>ctx_data = replicate 64 0, ctx_datalen = 0, ctx_bitlen = 0, ctx_state = []\<rparr>"

definition olm_crypto_sha256 :: "bytes \<Rightarrow> bytes" where
  "olm_crypto_sha256 input = sha256_final (sha256_update (sha256_init stack_ctx) input)"

definition hmac_sha256_key :: "bytes \<Rightarrow> bytes" where
  "hmac_sha256_key input_key =
     (if length input_key > 64 then
        sha256_final (sha256_update (sha256_init stack_ctx) input_key) @ replicate 32 0
      else input_key @ replicate (64 - length input_key) 0)"

definition hmac_sha256_init :: "bytes \<Rightarrow> SHA256_CTX" where
  "hmac_sha256_init hmac_key =
     (let i_pad = map (\<lambda>b. b XOR 0x36) hmac_key
      in sha256_update (sha256_init stack_ctx) i_pad)"

definition hmac_sha256_final :: "SHA256_CTX \<Rightarrow> bytes \<Rightarrow> bytes" where
  "hmac_sha256_final ctx hmac_key =
     (let o_pad = map (\<lambda>b. b XOR 0x5C) hmac_key @ sha256_final ctx
      in sha256_final (sha256_update (sha256_init stack_ctx) o_pad))"

definition olm_crypto_hmac_sha256 :: "bytes \<Rightarrow> bytes \<Rightarrow> bytes" where
  "olm_crypto_hmac_sha256 key input =
     (let hmac_key = hmac_sha256_key key;
          ctx = sha256_update (hmac_sha256_init hmac_key) input
      in hmac_sha256_final ctx hmac_key)"

definition HKDF_DEFAULT_SALT :: bytes where
  "HKDF_DEFAULT_SALT = replicate 32 0"

text \<open>The loop of the expand phase: \<open>iteration\<close> is a byte and wraps.\<close>

function hkdf_expand_loop :: "bytes \<Rightarrow> bytes \<Rightarrow> u8 \<Rightarrow> bytes \<Rightarrow> nat \<Rightarrow> bytes" where
  "hkdf_expand_loop hmac_key info iteration step_result bytes_remaining =
     (if bytes_remaining > 32 then
        let iteration = iteration + 1;
            ctx = hmac_sha256_init hmac_key;
            ctx = sha256_update ctx step_result;
            ctx = sha256_update ctx info;
            ctx = sha256_update ctx [iteration];
            step_result' = hmac_sha256_final ctx hmac_key
        in step_result
           @ hkdf_expand_loop hmac_key info iteration step_result' (bytes_remaining - 32)
      else take bytes_remaining step_result)"
  by pat_completeness auto
termination by (relation "measure (\<lambda>(k, i, n, s, r). r)") auto

declare hkdf_expand_loop.simps [simp del]

text \<open>\<open>salt = None\<close> is a null pointer.\<close>

definition olm_crypto_hkdf_sha256 ::
    "bytes \<Rightarrow> bytes option \<Rightarrow> bytes \<Rightarrow> nat \<Rightarrow> bytes" where
  "olm_crypto_hkdf_sha256 input salt info output_length =
     (let salt = (case salt of None \<Rightarrow> HKDF_DEFAULT_SALT | Some s \<Rightarrow> s);
          hmac_key = hmac_sha256_key salt;
          ctx = sha256_update (hmac_sha256_init hmac_key) input;
          step_result = hmac_sha256_final ctx hmac_key;
          hmac_key = hmac_sha256_key step_result;
          ctx = hmac_sha256_init hmac_key;
          ctx = sha256_update ctx info;
          ctx = sha256_update ctx [1];
          step_result = hmac_sha256_final ctx hmac_key
      in hkdf_expand_loop hmac_key info 1 step_result output_length)"

section \<open>AES-256-CBC\<close>

definition aes256_schedule :: "bytes \<Rightarrow> u32 list" where
  "aes256_schedule key = (case aes_key_setup key 256 of Some w \<Rightarrow> w | None \<Rightarrow> [])"

definition xor_block :: "bytes \<Rightarrow> bytes \<Rightarrow> bytes" where
  "xor_block block input = map2 (XOR) block input"

definition olm_crypto_aes_encrypt_cbc_length :: "nat \<Rightarrow> nat" where
  "olm_crypto_aes_encrypt_cbc_length input_length = input_length + 16 - input_length mod 16"

text \<open>
  The two phases of encryption for a block function \<open>E\<close>: whole blocks, then the rest of
  the input followed by padding bytes.
\<close>

definition pad_block :: "bytes \<Rightarrow> bytes \<Rightarrow> bytes" where
  "pad_block block rest =
     (let n = length rest
      in xor_block block (rest @ replicate (16 - n) (of_nat (16 - n))))"

function cbc_encrypt_loop :: "(bytes \<Rightarrow> bytes) \<Rightarrow> bytes \<Rightarrow> bytes \<Rightarrow> bytes" where
  "cbc_encrypt_loop E input_block input =
     (if length input \<ge> 16 then
        let output = E (xor_block input_block (take 16 input))
        in output @ cbc_encrypt_loop E output (drop 16 input)
      else E (pad_block input_block input))"
  by pat_completeness auto
termination by (relation "measure (\<lambda>(E, b, i). length i)") auto

declare cbc_encrypt_loop.simps [simp del]

definition olm_crypto_aes_encrypt_cbc :: "bytes \<Rightarrow> bytes \<Rightarrow> bytes \<Rightarrow> bytes" where
  "olm_crypto_aes_encrypt_cbc key iv input =
     (let key_schedule = aes256_schedule key
      in cbc_encrypt_loop (\<lambda>b. aes_encrypt b key_schedule 256) iv input)"

text \<open>
  Decryption steps through the input in blocks while \<open>i < input_length\<close>.  \<open>input\<close> is the
  memory from the input pointer on: when \<open>input_length\<close> is no multiple of the block size,
  the last block is read past \<open>input_length\<close> and written past it too.
\<close>

function cbc_decrypt_loop :: "(bytes \<Rightarrow> bytes) \<Rightarrow> bytes \<Rightarrow> bytes \<Rightarrow> nat \<Rightarrow> bytes" where
  "cbc_decrypt_loop D block1 input remaining =
     (if remaining > 0 then
        let block2 = take 16 input
        in xor_block (D block2) block1
           @ cbc_decrypt_loop D block2 (drop 16 input) (remaining - 16)
      else [])"
  by pat_completeness auto
termination by (relation "measure (\<lambda>(D, b, i, r). r)") auto

declare cbc_decrypt_loop.simps [simp del]

text \<open>
  The result: the bytes written from the output pointer on, and the plaintext length,
  \<open>None\<close> for \<open>size_t(-1)\<close>.  \<open>before\<close> is the byte in front of the output buffer, which the
  code reads as the padding when \<open>input_length\<close> is 0.
\<close>

definition olm_crypto_aes_decrypt_cbc ::
    "u8 \<Rightarrow> bytes \<Rightarrow> bytes \<Rightarrow> bytes \<Rightarrow> nat \<Rightarrow> bytes \<times> nat option" where
  "olm_crypto_aes_decrypt_cbc before key iv input input_length =
     (let key_schedule = aes256_schedule key;
          output = cbc_decrypt_loop (\<lambda>b. aes_decrypt b key_schedule 256) iv input input_length;
          padding = unat (if input_length = 0 then before else output ! (input_length - 1))
      in (output, if padding > input_length then None else Some (input_length - padding)))"

section \<open>The hash interface\<close>

text \<open>HMAC of FIPS 198-1 and HKDF of RFC 5869, over any hash or keyed function.\<close>

definition hmac_spec :: "(bytes \<Rightarrow> bytes) \<Rightarrow> nat \<Rightarrow> bytes \<Rightarrow> bytes \<Rightarrow> bytes" where
  "hmac_spec H B key text =
     (let k = (if length key > B then H key else key);
          k0 = k @ replicate (B - length k) 0
      in H (map (\<lambda>b. b XOR 0x5C) k0 @ H (map (\<lambda>b. b XOR 0x36) k0 @ text)))"

fun hkdf_T :: "(bytes \<Rightarrow> bytes \<Rightarrow> bytes) \<Rightarrow> bytes \<Rightarrow> bytes \<Rightarrow> nat \<Rightarrow> bytes" where
  "hkdf_T F prk info 0 = []"
| "hkdf_T F prk info (Suc n) = F prk (hkdf_T F prk info n @ info @ [of_nat (Suc n)])"

definition hkdf_spec ::
    "(bytes \<Rightarrow> bytes \<Rightarrow> bytes) \<Rightarrow> nat \<Rightarrow> bytes \<Rightarrow> bytes \<Rightarrow> bytes \<Rightarrow> nat \<Rightarrow> bytes" where
  "hkdf_spec F L ikm salt info n =
     (let prk = F salt ikm
      in take n (concat (map (hkdf_T F prk info) [1..<(n + L - 1) div L + 1])))"

locale fixed_length_hash =
  fixes H :: "bytes \<Rightarrow> bytes" and B L :: nat
  assumes hash_length: "length (H x) = L" and fits: "L \<le> B" and L_pos: "0 < L"
begin

lemma length_hmac: "length (hmac_spec H B key text) = L"
  by (simp add: hmac_spec_def Let_def hash_length)

end

locale keyed_function =
  fixes F :: "bytes \<Rightarrow> bytes \<Rightarrow> bytes" and L :: nat
  assumes F_length: "length (F k x) = L" and L_pos: "0 < L"
begin

lemma length_hkdf_T: "0 < n \<Longrightarrow> length (hkdf_T F prk info n) = L"
  by (cases n) (simp_all add: F_length)

lemma length_hkdf_blocks:
  "length (concat (map (hkdf_T F prk info) [1..<k + 1])) = k * L"
  by (induction k) (simp_all add: F_length)

lemma hkdf_blocks_enough: "n \<le> (n + L - 1) div L * L"
  using div_mult_mod_eq [of "n + L - 1" L] mod_less_divisor [OF L_pos, of "n + L - 1"] L_pos
  by linarith

lemma length_hkdf: "length (hkdf_spec F L ikm salt info n) = n"
  using hkdf_blocks_enough [of n]
  by (simp only: hkdf_spec_def Let_def length_take length_hkdf_blocks min_absorb2)

end

section \<open>The code computes SHA-256, HMAC and HKDF\<close>


lemma length_olm_crypto_sha256 [simp, len_simps]: "length (olm_crypto_sha256 input) = 32"
  by (simp add: olm_crypto_sha256_def)

interpretation sha256: fixed_length_hash olm_crypto_sha256 64 32
  by unfold_locales simp_all

lemma hmac_sha256_key_eq:
  "hmac_sha256_key key =
     (let k = (if length key > 64 then olm_crypto_sha256 key else key)
      in k @ replicate (64 - length k) 0)"
  by (simp add: hmac_sha256_key_def Let_def flip: olm_crypto_sha256_def)

lemma hmac_sha256_steps:
  "hmac_sha256_final (sha256_update (hmac_sha256_init k) x) k =
     olm_crypto_sha256 (map (\<lambda>b. b XOR 0x5C) k
       @ olm_crypto_sha256 (map (\<lambda>b. b XOR 0x36) k @ x))"
  by (simp add: hmac_sha256_final_def hmac_sha256_init_def olm_crypto_sha256_def Let_def
      sha256_update_append)

lemma olm_crypto_hmac_sha256_eq:
  "olm_crypto_hmac_sha256 key input = hmac_spec olm_crypto_sha256 64 key input"
  by (simp add: olm_crypto_hmac_sha256_def hmac_sha256_steps hmac_spec_def hmac_sha256_key_eq Let_def)

lemma length_hmac_sha256 [simp, len_simps]: "length (olm_crypto_hmac_sha256 key input) = 32"
  by (simp add: olm_crypto_hmac_sha256_eq sha256.length_hmac)

interpretation hmac: keyed_function olm_crypto_hmac_sha256 32
  by unfold_locales simp_all

lemma hmac_of_updates:
  "hmac_sha256_final (sha256_update (hmac_sha256_init (hmac_sha256_key key)) x)
     (hmac_sha256_key key) = olm_crypto_hmac_sha256 key x"
  by (simp add: olm_crypto_hmac_sha256_def Let_def)

lemma hkdf_expand_step:
  "hkdf_expand_loop (hmac_sha256_key prk) info i t n =
     (if n > 32 then
        t @ hkdf_expand_loop (hmac_sha256_key prk) info (i + 1)
              (olm_crypto_hmac_sha256 prk (t @ info @ [i + 1])) (n - 32)
      else take n t)"
  by (subst hkdf_expand_loop.simps) (simp add: Let_def sha256_update_append hmac_of_updates)

text \<open>
  The loop computes the blocks \<open>T(i), T(i+1), \<dots>\<close> of RFC 5869; the byte counter makes
  the model and the code agree at any length, the RFC stops at 255 blocks.
\<close>

lemma hkdf_expand_loop_eq:
  assumes "0 < i"
  shows "hkdf_expand_loop (hmac_sha256_key prk) info (of_nat i)
     (hkdf_T olm_crypto_hmac_sha256 prk info i) n =
   take n (concat (map (hkdf_T olm_crypto_hmac_sha256 prk info) [i..<i + (n + 31) div 32 + 1]))"
  using assms
proof (induction n arbitrary: i rule: less_induct)
  case (less n)
  let ?T = "hkdf_T olm_crypto_hmac_sha256 prk info"
  have len: "length (?T i) = 32" using less.prems hmac.length_hkdf_T by blast
  show ?case
  proof (cases "n > 32")
    case True
    have upt: "[i..<i + (n + 31) div 32 + 1] = i # [Suc i..<Suc i + (n - 32 + 31) div 32 + 1]"
    proof -
      have "(n + 31) div 32 = Suc ((n - 32 + 31) div 32)" using True by simp
      then show ?thesis by (simp add: upt_conv_Cons del: upt_Suc)
    qed
    have "?T (Suc i) = olm_crypto_hmac_sha256 prk (?T i @ info @ [of_nat i + 1])"
      by (simp add: add.commute)
    then have "hkdf_expand_loop (hmac_sha256_key prk) info (of_nat i) (?T i) n =
        ?T i @ hkdf_expand_loop (hmac_sha256_key prk) info (of_nat (Suc i)) (?T (Suc i)) (n - 32)"
      using True by (subst hkdf_expand_step) (simp add: add.commute)
    also have "\<dots> = ?T i @ take (n - 32)
        (concat (map ?T [Suc i..<Suc i + (n - 32 + 31) div 32 + 1]))"
      using True by (subst less.IH) auto
    finally show ?thesis using True len by (simp only: upt) simp
  next
    case False
    then show ?thesis using len
      by (subst hkdf_expand_step) (simp add: upt_conv_Cons del: upt_Suc)
  qed
qed

lemma olm_crypto_hkdf_sha256_eq:
  "olm_crypto_hkdf_sha256 ikm salt info n =
     hkdf_spec olm_crypto_hmac_sha256 32 ikm
       (case salt of None \<Rightarrow> HKDF_DEFAULT_SALT | Some s \<Rightarrow> s) info n"
proof -
  let ?s = "case salt of None \<Rightarrow> HKDF_DEFAULT_SALT | Some s \<Rightarrow> s"
  let ?prk = "olm_crypto_hmac_sha256 ?s ikm"
  have "olm_crypto_hkdf_sha256 ikm salt info n =
      hkdf_expand_loop (hmac_sha256_key ?prk) info (of_nat 1)
        (hkdf_T olm_crypto_hmac_sha256 ?prk info 1) n"
    by (simp add: olm_crypto_hkdf_sha256_def Let_def sha256_update_append hmac_of_updates)
  also have "\<dots> = take n (concat (map (hkdf_T olm_crypto_hmac_sha256 ?prk info)
      [1..<1 + (n + 31) div 32 + 1]))"
    by (rule hkdf_expand_loop_eq) simp
  also have "\<dots> = take n (concat (map (hkdf_T olm_crypto_hmac_sha256 ?prk info)
      [1..<(n + 31) div 32 + 1]))"
  proof -
    have "[1..<1 + (n + 31) div 32 + 1] = [1..<(n + 31) div 32 + 1] @ [(n + 31) div 32 + 1]"
      by simp
    moreover have "n \<le> (n + 31) div 32 * 32" using hmac.hkdf_blocks_enough [of n] by simp
    moreover have "length (concat (map (hkdf_T olm_crypto_hmac_sha256 ?prk info)
        [1..<(n + 31) div 32 + 1])) = (n + 31) div 32 * 32"
      by (rule hmac.length_hkdf_blocks)
    ultimately show ?thesis by (simp only: map_append concat_append take_append) simp
  qed
  finally show ?thesis by (simp add: hkdf_spec_def Let_def add.commute del: upt_Suc)
qed

lemma length_hkdf_sha256 [simp, len_simps]:
  "length (olm_crypto_hkdf_sha256 ikm salt info n) = n"
  by (simp add: olm_crypto_hkdf_sha256_eq hmac.length_hkdf)

section \<open>CBC over an invertible block function\<close>

text \<open>The padding of PKCS#7: what a correct decryption writes.\<close>

definition pkcs7_pad :: "bytes \<Rightarrow> bytes" where
  "pkcs7_pad input =
     (let k = 16 - length input mod 16 in input @ replicate k (of_nat k))"

lemma length_pkcs7_pad [len_simps]:
  "length (pkcs7_pad input) = length input + 16 - length input mod 16"
  by (simp add: pkcs7_pad_def Let_def)

lemma pkcs7_pad_step:
  "16 \<le> length input \<Longrightarrow> pkcs7_pad input = take 16 input @ pkcs7_pad (drop 16 input)"
proof -
  assume "16 \<le> length input"
  then have "length (drop 16 input) mod 16 = length input mod 16" by (simp add: le_mod_geq)
  then show ?thesis by (simp add: pkcs7_pad_def Let_def)
qed

lemma length_xor_block [simp]: "length (xor_block a b) = min (length a) (length b)"
  by (simp add: xor_block_def)

lemma xor_block_twice:
  "length a = length b \<Longrightarrow> xor_block (xor_block a b) a = b"
  by (rule nth_equalityI) (simp_all add: xor_block_def xor.left_commute xor.commute)

lemma pad_block_pkcs7: "length rest < 16 \<Longrightarrow> pad_block b rest = xor_block b (pkcs7_pad rest)"
  by (simp add: pad_block_def pkcs7_pad_def Let_def)

locale block_cipher =
  fixes E D :: "bytes \<Rightarrow> bytes"
  assumes D_E: "length b = 16 \<Longrightarrow> D (E b) = b"
    and E_length: "length b = 16 \<Longrightarrow> length (E b) = 16"
begin

lemma length_cbc_encrypt:
  "length iv = 16 \<Longrightarrow> length (cbc_encrypt_loop E iv input) = length (pkcs7_pad input)"
proof (induction input arbitrary: iv rule: length_induct)
  case (1 input)
  show ?case
  proof (cases "16 \<le> length input")
    case True
    then show ?thesis using 1
      by (subst cbc_encrypt_loop.simps) (simp add: Let_def pkcs7_pad_step E_length)
  next
    case False
    then show ?thesis using 1(2)
      by (subst cbc_encrypt_loop.simps) (simp add: pad_block_pkcs7 E_length length_pkcs7_pad)
  qed
qed

lemma cbc_decrypt_step:
  "length c = 16 \<Longrightarrow> 0 < n \<Longrightarrow>
     cbc_decrypt_loop D iv (c @ r) n = xor_block (D c) iv @ cbc_decrypt_loop D c r (n - 16)"
  by (subst cbc_decrypt_loop.simps) (simp add: Let_def)

lemma cbc_decrypt_encrypt:
  "length iv = 16 \<Longrightarrow>
     cbc_decrypt_loop D iv (cbc_encrypt_loop E iv input @ r) (length (pkcs7_pad input))
     = pkcs7_pad input"
proof (induction input arbitrary: iv rule: length_induct)
  case (1 input)
  show ?case
  proof (cases "16 \<le> length input")
    case True
    let ?c = "E (xor_block iv (take 16 input))"
    have c: "length ?c = 16" using 1(2) True by (simp add: E_length)
    have x: "xor_block (D ?c) iv = take 16 input"
      using 1(2) True by (simp add: D_E xor_block_twice)
    have "cbc_encrypt_loop E iv input = ?c @ cbc_encrypt_loop E ?c (drop 16 input)"
      using True by (subst cbc_encrypt_loop.simps) (simp add: Let_def)
    then show ?thesis
      using 1(1) c x True
      by (simp add: pkcs7_pad_step cbc_decrypt_step)
  next
    case False
    let ?c = "E (pad_block iv input)"
    have p: "length (pkcs7_pad input) = 16" using False by (simp add: length_pkcs7_pad)
    have c: "length ?c = 16" using 1(2) False p by (simp add: pad_block_pkcs7 E_length)
    have "cbc_encrypt_loop E iv input = ?c"
      using False by (subst cbc_encrypt_loop.simps) simp
    moreover have "xor_block (D ?c) iv = pkcs7_pad input"
      using 1(2) False p by (simp add: pad_block_pkcs7 D_E xor_block_twice)
    ultimately show ?thesis
      using c p by (simp add: cbc_decrypt_step cbc_decrypt_loop.simps [of _ _ _ 0])
  qed
qed

end

interpretation aes256: block_cipher
  "\<lambda>b. aes_encrypt b (aes256_schedule key) 256" "\<lambda>b. aes_decrypt b (aes256_schedule key) 256"
  for key
  by unfold_locales (simp_all add: aes_decrypt_encrypt)

lemma length_aes_encrypt_cbc:
  "length iv = 16 \<Longrightarrow>
     length (olm_crypto_aes_encrypt_cbc key iv input)
     = olm_crypto_aes_encrypt_cbc_length (length input)"
  by (simp add: olm_crypto_aes_encrypt_cbc_def Let_def aes256.length_cbc_encrypt
      length_pkcs7_pad olm_crypto_aes_encrypt_cbc_length_def)

lemma aes_cbc_length_bounds:
  "n < olm_crypto_aes_encrypt_cbc_length n" "olm_crypto_aes_encrypt_cbc_length n \<le> n + 16"
  "16 dvd olm_crypto_aes_encrypt_cbc_length n"
proof -
  have "n mod 16 < 16" by simp
  then show "n < olm_crypto_aes_encrypt_cbc_length n" "olm_crypto_aes_encrypt_cbc_length n \<le> n + 16"
    unfolding olm_crypto_aes_encrypt_cbc_length_def by linarith+
  have "n + 16 - n mod 16 = n div 16 * 16 + 16"
    using minus_mod_eq_div_mult [of n 16] by linarith
  also have "\<dots> = 16 * (n div 16 + 1)" by simp
  finally show "16 dvd olm_crypto_aes_encrypt_cbc_length n"
    unfolding olm_crypto_aes_encrypt_cbc_length_def by simp
qed

lemma aes_cbc_roundtrip:
  assumes iv: "length iv = 16" and c_def: "c = olm_crypto_aes_encrypt_cbc key iv input"
  shows "olm_crypto_aes_decrypt_cbc before key iv (c @ r) (length c)
           = (pkcs7_pad input, Some (length input))"
proof -
  let ?k = "16 - length input mod 16"
  have len: "length c = length (pkcs7_pad input)"
    using iv by (simp add: c_def olm_crypto_aes_encrypt_cbc_def Let_def aes256.length_cbc_encrypt)
  have out: "cbc_decrypt_loop (\<lambda>b. aes_decrypt b (aes256_schedule key) 256) iv (c @ r) (length c)
      = pkcs7_pad input"
    unfolding len
    by (simp add: c_def olm_crypto_aes_encrypt_cbc_def Let_def aes256.cbc_decrypt_encrypt [OF iv])
  obtain k where k: "k = ?k" "0 < k" "k \<le> 16" by simp
  have pad: "pkcs7_pad input = input @ replicate k (of_nat k)"
    by (simp add: pkcs7_pad_def Let_def flip: k(1))
  have lenc: "length c = length input + k" using len by (simp add: pad)
  have "last (pkcs7_pad input) = of_nat k" using k(2) by (simp add: pad)
  then have lastb: "pkcs7_pad input ! (length input + k - 1) = of_nat k"
    using k(2) by (subst (asm) last_conv_nth) (auto simp: pad)
  have "unat (of_nat k :: u8) = k" using k(3) by (simp add: unat_of_nat take_bit_nat_eq_self)
  then show ?thesis
    unfolding olm_crypto_aes_decrypt_cbc_def Let_def out
    using k(2) by (simp add: lenc lastb [unfolded One_nat_def])
qed

section \<open>Properties\<close>


text \<open>AES-CBC encryption writes the ciphertext of the announced length, a positive multiple
  of the block size; decrypting it gives the length of the plaintext and a buffer that starts
  with it, whatever follows the ciphertext in memory.\<close>

theorem cbc_round_trip:
  assumes "length iv = 16"
  shows "length (olm_crypto_aes_encrypt_cbc key iv input) = olm_crypto_aes_encrypt_cbc_length (length input)
    \<and> 16 dvd olm_crypto_aes_encrypt_cbc_length (length input)
    \<and> length input < olm_crypto_aes_encrypt_cbc_length (length input)
    \<and> (\<exists>pad. olm_crypto_aes_decrypt_cbc before key iv (olm_crypto_aes_encrypt_cbc key iv input @ r)
              (olm_crypto_aes_encrypt_cbc_length (length input)) = (input @ pad, Some (length input)))"
  using aes_cbc_roundtrip [OF assms refl, of before key input r] length_aes_encrypt_cbc [OF assms, of key input]
  by (simp add: aes_cbc_length_bounds pkcs7_pad_def Let_def)

lemma cbc_round_trip_witness:
  "\<exists>pad. olm_crypto_aes_decrypt_cbc 0 (replicate 32 3) (replicate 16 4)
      (olm_crypto_aes_encrypt_cbc (replicate 32 3) (replicate 16 4) [1, 2] @ [5])
      (olm_crypto_aes_encrypt_cbc_length 2) = ([1, 2] @ pad, Some 2)"
  using cbc_round_trip [of "replicate 16 4" "replicate 32 3" "[1, 2]" 0 "[5]"]
  by (simp add: numeral_2_eq_2)

end
