(* ===== verification/SamplePrims.thy ===== *)
theory SamplePrims
  imports Crypto
begin

text \<open>
  A concrete instance of the primitives that are parameters of the model.  It is no
  cryptography; it shows that the laws the properties assume can hold together, and the
  witnesses of the properties use it.
\<close>

definition pad_to :: "nat \<Rightarrow> bytes \<Rightarrow> bytes" where
  "pad_to n bs = take n (bs @ replicate n 0)"

definition sample_dh :: "bytes \<Rightarrow> bytes \<Rightarrow> bytes" where
  "sample_dh a p = map2 (XOR) (pad_to 32 a) (pad_to 32 p)"

definition sample_prims :: crypto_prims where
  "sample_prims =
     \<lparr>curve25519_donna = sample_dh,
      ed25519_create_keypair = (\<lambda>seed. (pad_to 32 seed, pad_to 64 seed)),
      ed25519_sign = (\<lambda>msg pub priv. pad_to 64 (pub @ msg)),
      ed25519_verify = (\<lambda>sig msg pub. sig = pad_to 64 (pub @ msg))\<rparr>"

lemma length_pad_to [simp]: "length (pad_to n bs) = n"
  by (simp add: pad_to_def)

lemma pad_to_same [simp]: "length bs = n \<Longrightarrow> pad_to n bs = bs"
  by (simp add: pad_to_def)

lemma length_sample_dh [simp]: "length (sample_dh a p) = 32"
  by (simp add: sample_dh_def)

lemma xor_lists_swap:
  "length a = length b \<Longrightarrow> length b = length (c :: bytes) \<Longrightarrow>
     map2 (XOR) a (map2 (XOR) b c) = map2 (XOR) b (map2 (XOR) a c)"
  by (induction a b c rule: list_induct3) (simp_all add: xor.left_commute)

lemma sample_dh_law: "dh_law sample_prims"
proof -
  have "sample_dh a (sample_dh b p) = sample_dh b (sample_dh a p)" for a b p
    using xor_lists_swap [of "pad_to 32 a" "pad_to 32 b" "pad_to 32 p"]
    by (simp add: sample_dh_def)
  then show ?thesis by (simp add: dh_law_def sample_prims_def)
qed

lemma sample_sign_law: "sign_law sample_prims"
  by (auto simp: sign_law_def sample_prims_def)

end
