(* ===== verification/Sas.thy ===== *)
theory Sas
  imports Base64 OlmMemory OlmError SamplePrims
begin

text \<open>
  \<open>src/sas.c\<close>: short authentication strings.  Two parties exchange public keys and derive
  bytes and MACs from the shared secret.  Two of the three MAC functions encode the HMAC to
  base64 over itself; the memory model keeps what that does.
\<close>

record OlmSAS =
  sas_last_error :: OlmErrorCode
  sas_curve25519_key :: curve25519_key_pair
  sas_secret :: bytes
  sas_their_key_set :: u32 \<comment> \<open>an \<open>int\<close>\<close>

definition SHA256_OUTPUT_LENGTH :: nat where "SHA256_OUTPUT_LENGTH = 32"

definition olm_sas_last_error :: "OlmSAS \<Rightarrow> string" where
  "olm_sas_last_error sas = olm_error_to_string (error_number (sas_last_error sas))"

definition olm_sas_last_error_code :: "OlmSAS \<Rightarrow> OlmErrorCode" where
  "olm_sas_last_error_code sas = sas_last_error sas"

definition olm_sas_size :: nat where
  "olm_sas_size = 4 + (32 + 32) + 32 + 4"

definition olm_clear_sas :: "OlmSAS \<Rightarrow> OlmSAS \<times> nat" where
  "olm_clear_sas sas =
     (\<lparr>sas_last_error = OLM_SUCCESS,
       sas_curve25519_key = \<lparr>curve_public = replicate 32 0, curve_private = replicate 32 0\<rparr>,
       sas_secret = replicate 32 0, sas_their_key_set = 0\<rparr>, olm_sas_size)"

definition olm_sas :: "OlmSAS \<Rightarrow> OlmSAS" where
  "olm_sas memory = fst (olm_clear_sas memory)"

definition olm_create_sas_random_length :: nat where
  "olm_create_sas_random_length = CURVE25519_KEY_LENGTH"

definition olm_create_sas :: "crypto_prims \<Rightarrow> OlmSAS \<Rightarrow> bytes \<Rightarrow> OlmSAS \<times> nat option" where
  "olm_create_sas P sas random =
     (if length random < olm_create_sas_random_length
      then (sas\<lparr>sas_last_error := OLM_NOT_ENOUGH_RANDOM\<rparr>, None)
      else (sas\<lparr>sas_curve25519_key := olm_crypto_curve25519_generate_key P random,
                sas_their_key_set := 0\<rparr>, Some 0))"

definition olm_sas_pubkey_length :: nat where
  "olm_sas_pubkey_length = encode_base64_length CURVE25519_KEY_LENGTH"

definition olm_sas_get_pubkey :: "OlmSAS \<Rightarrow> mem \<Rightarrow> nat \<Rightarrow> nat \<Rightarrow> OlmSAS \<times> mem \<times> nat option" where
  "olm_sas_get_pubkey sas m pubkey pubkey_length =
     (if pubkey_length < olm_sas_pubkey_length
      then (sas\<lparr>sas_last_error := OLM_OUTPUT_BUFFER_TOO_SMALL\<rparr>, m, None)
      else
        let (m, _) = encode_base64_from (curve_public (sas_curve25519_key sas)) m pubkey
        in (sas, m, Some 0))"

definition olm_sas_set_their_key ::
    "crypto_prims \<Rightarrow> OlmSAS \<Rightarrow> mem \<Rightarrow> nat \<Rightarrow> nat \<Rightarrow> OlmSAS \<times> mem \<times> nat option" where
  "olm_sas_set_their_key P sas m their_key their_key_length =
     (if their_key_length < olm_sas_pubkey_length
      then (sas\<lparr>sas_last_error := OLM_INPUT_BUFFER_TOO_SMALL\<rparr>, m, None)
      else
        let (m, ret) = olm_decode_base64 m their_key their_key_length their_key
        in if ret = None then (sas\<lparr>sas_last_error := OLM_INVALID_BASE64\<rparr>, m, None)
           else
             (sas\<lparr>sas_secret := olm_crypto_curve25519_shared_secret P (sas_curve25519_key sas)
                    (load m their_key 32),
                  sas_their_key_set := 1\<rparr>, m, Some 0))"

definition olm_sas_is_their_key_set :: "OlmSAS \<Rightarrow> u32" where
  "olm_sas_is_their_key_set sas = sas_their_key_set sas"

definition olm_sas_generate_bytes ::
    "OlmSAS \<Rightarrow> bytes \<Rightarrow> mem \<Rightarrow> nat \<Rightarrow> nat \<Rightarrow> OlmSAS \<times> mem \<times> nat option" where
  "olm_sas_generate_bytes sas info m output output_length =
     (if sas_their_key_set sas = 0
      then (sas\<lparr>sas_last_error := OLM_SAS_THEIR_KEY_NOT_SET\<rparr>, m, None)
      else (sas, store m output (olm_crypto_hkdf_sha256 (sas_secret sas) None info output_length), Some 0))"

definition olm_sas_mac_length :: nat where
  "olm_sas_mac_length = encode_base64_length SHA256_OUTPUT_LENGTH"

definition olm_sas_calculate_mac_fixed_base64 ::
    "OlmSAS \<Rightarrow> bytes \<Rightarrow> bytes \<Rightarrow> mem \<Rightarrow> nat \<Rightarrow> nat \<Rightarrow> OlmSAS \<times> mem \<times> nat option" where
  "olm_sas_calculate_mac_fixed_base64 sas input info m mac mac_length =
     (if mac_length < olm_sas_mac_length
      then (sas\<lparr>sas_last_error := OLM_OUTPUT_BUFFER_TOO_SMALL\<rparr>, m, None)
      else if sas_their_key_set sas = 0
      then (sas\<lparr>sas_last_error := OLM_SAS_THEIR_KEY_NOT_SET\<rparr>, m, None)
      else
        let key = olm_crypto_hkdf_sha256 (sas_secret sas) None info 32;
            temp_mac = olm_crypto_hmac_sha256 key input;
            (m, _) = encode_base64_from temp_mac m mac
        in (sas, m, Some 0))"

definition olm_sas_calculate_mac ::
    "OlmSAS \<Rightarrow> bytes \<Rightarrow> bytes \<Rightarrow> mem \<Rightarrow> nat \<Rightarrow> nat \<Rightarrow> OlmSAS \<times> mem \<times> nat option" where
  "olm_sas_calculate_mac sas input info m mac mac_length =
     (if mac_length < olm_sas_mac_length
      then (sas\<lparr>sas_last_error := OLM_OUTPUT_BUFFER_TOO_SMALL\<rparr>, m, None)
      else if sas_their_key_set sas = 0
      then (sas\<lparr>sas_last_error := OLM_SAS_THEIR_KEY_NOT_SET\<rparr>, m, None)
      else
        let key = olm_crypto_hkdf_sha256 (sas_secret sas) None info 32;
            m = store m mac (olm_crypto_hmac_sha256 key input);
            (m, _) = olm_encode_base64 m mac SHA256_OUTPUT_LENGTH mac
        in (sas, m, Some 0))"

definition olm_sas_calculate_mac_long_kdf ::
    "OlmSAS \<Rightarrow> bytes \<Rightarrow> bytes \<Rightarrow> mem \<Rightarrow> nat \<Rightarrow> nat \<Rightarrow> OlmSAS \<times> mem \<times> nat option" where
  "olm_sas_calculate_mac_long_kdf sas input info m mac mac_length =
     (if mac_length < olm_sas_mac_length
      then (sas\<lparr>sas_last_error := OLM_OUTPUT_BUFFER_TOO_SMALL\<rparr>, m, None)
      else if sas_their_key_set sas = 0
      then (sas\<lparr>sas_last_error := OLM_SAS_THEIR_KEY_NOT_SET\<rparr>, m, None)
      else
        let key = olm_crypto_hkdf_sha256 (sas_secret sas) None info 256;
            m = store m mac (olm_crypto_hmac_sha256 key input);
            (m, _) = olm_encode_base64 m mac SHA256_OUTPUT_LENGTH mac
        in (sas, m, Some 0))"

section \<open>The shared secret\<close>

text \<open>A state whose own key pair was generated.\<close>

definition sas_ready :: "crypto_prims \<Rightarrow> OlmSAS \<Rightarrow> bool" where
  "sas_ready P sas \<longleftrightarrow> length (curve_private (sas_curve25519_key sas)) = 32 \<and>
     curve_public (sas_curve25519_key sas) =
       curve25519_donna P (curve_private (sas_curve25519_key sas)) CURVE25519_BASEPOINT"

lemma create_sas_ready: "olm_create_sas P sas random = (sas', Some n) \<Longrightarrow> sas_ready P sas'"
  by (auto simp: olm_create_sas_def sas_ready_def olm_crypto_curve25519_generate_key_def Let_def
      olm_create_sas_random_length_def CURVE25519_KEY_LENGTH_def
      split: if_splits)

lemma set_their_key_ready: "sas_ready P (fst (olm_sas_set_their_key P sas m p n)) = sas_ready P sas"
  by (simp add: olm_sas_set_their_key_def sas_ready_def split: prod.split)

lemma get_pubkey_eq:
  assumes "olm_sas_pubkey_length \<le> n" "length (curve_public (sas_curve25519_key sas)) = 32"
  shows "\<exists>m'. olm_sas_get_pubkey sas m p n = (sas, m', Some 0) \<and>
    load m' p olm_sas_pubkey_length = b64enc (curve_public (sas_curve25519_key sas))"
  using assms
  by (simp add: olm_sas_get_pubkey_def encode_base64_from_def olm_sas_pubkey_length_def
      CURVE25519_KEY_LENGTH_def load_store_same)

lemma set_their_key_eq:
  assumes "load m p n = b64enc key" "length key = 32"
  shows "\<exists>m'. olm_sas_set_their_key P sas m p n =
    (sas\<lparr>sas_secret := curve25519_donna P (curve_private (sas_curve25519_key sas)) key,
         sas_their_key_set := 1\<rparr>, m', Some 0)"
proof -
  have n: "n = encode_base64_length 32" using arg_cong [OF assms(1), of length] assms(2) by simp
  have dec: "olm_decode_base64 m p n p = (store m p key, Some 32)"
    using olm_decode_base64_encoded [OF assms(1), of p] assms(2) by simp
  have "load (store m p key) p 32 = key" using assms(2) by (simp add: load_store_same)
  then show ?thesis
    using dec by (simp add: olm_sas_set_their_key_def n olm_sas_pubkey_length_def
        CURVE25519_KEY_LENGTH_def olm_crypto_curve25519_shared_secret_def)
qed

lemma secrets_agree:
  assumes "dh_law P" "sas_ready P a" "sas_ready P b"
    and "load ma pa na = b64enc (curve_public (sas_curve25519_key b))"
    and "load mb pb nb = b64enc (curve_public (sas_curve25519_key a))"
  shows "\<exists>s ma' mb'.
    olm_sas_set_their_key P a ma pa na = (a\<lparr>sas_secret := s, sas_their_key_set := 1\<rparr>, ma', Some 0) \<and>
    olm_sas_set_their_key P b mb pb nb = (b\<lparr>sas_secret := s, sas_their_key_set := 1\<rparr>, mb', Some 0)"
proof -
  have len: "length (curve_public (sas_curve25519_key a)) = 32"
    "length (curve_public (sas_curve25519_key b)) = 32"
    using assms(1-3) by (simp_all add: sas_ready_def dh_law_def)
  have "curve25519_donna P (curve_private (sas_curve25519_key a)) (curve_public (sas_curve25519_key b)) =
      curve25519_donna P (curve_private (sas_curve25519_key b)) (curve_public (sas_curve25519_key a))"
    using assms(1-3) by (simp add: sas_ready_def dh_law_def)
  then show ?thesis
    using set_their_key_eq [OF assms(4) len(2), of P a] set_their_key_eq [OF assms(5) len(1), of P b]
    by force
qed

section \<open>The MACs\<close>

definition sas_hmac :: "nat \<Rightarrow> bytes \<Rightarrow> bytes \<Rightarrow> bytes \<Rightarrow> bytes" where
  "sas_hmac key_length secret info input =
     olm_crypto_hmac_sha256 (olm_crypto_hkdf_sha256 secret None info key_length) input"

text \<open>What the encoder leaves when it reads the 32 bytes from where it writes.\<close>

definition overlapped_base64 :: "bytes \<Rightarrow> bytes" where
  "overlapped_base64 mac = load (fst (olm_encode_base64 (store (\<lambda>_. 0) 0 mac) 0 32 0)) 0 43"

lemma length_sas_hmac [simp]: "length (sas_hmac n secret info input) = 32"
  by (simp add: sas_hmac_def)

text \<open>The encoder commutes with moving the buffers, and depends only on what it reads.\<close>

definition agree :: "nat \<Rightarrow> nat set \<Rightarrow> mem \<Rightarrow> mem \<Rightarrow> bool" where
  "agree d S m m' \<longleftrightarrow> (\<forall>a \<in> S. m' (a + d) = m a)"

lemma agree_upd: "agree d S m m' \<Longrightarrow> agree d (Set.insert a S) (m(a := x)) (m'(a + d := x))"
  by (auto simp: agree_def)

lemma agree_mono: "agree d S m m' \<Longrightarrow> T \<subseteq> S \<Longrightarrow> agree d T m m'"
  by (auto simp: agree_def)

lemma agree_at: "agree d S m m' \<Longrightarrow> a \<in> S \<Longrightarrow> m' (a + d) = m a"
  by (simp add: agree_def)

lemma encode_loop_agree:
  assumes "agree d S m m'" "{pos ..< pos + 3 * groups} \<subseteq> S"
  shows "\<exists>r r'. encode_base64_loop groups m pos out = (r, pos + 3 * groups, out + 4 * groups) \<and>
    encode_base64_loop groups m' (pos + d) (out + d) = (r', pos + d + 3 * groups, out + d + 4 * groups) \<and>
    agree d (S \<union> {out ..< out + 4 * groups}) r r'"
  using assms
proof (induction groups arbitrary: m m' pos out S)
  case (Suc g)
  have "pos \<in> S" "pos + 1 \<in> S" "pos + 2 \<in> S" using Suc.prems(2) by (auto simp: subset_iff)
  then have rd: "m' (pos + d) = m pos" "m' (pos + d + 1) = m (pos + 1)" "m' (pos + d + 2) = m (pos + 2)"
    using agree_at [OF Suc.prems(1), of pos] agree_at [OF Suc.prems(1), of "pos + 1"]
      agree_at [OF Suc.prems(1), of "pos + 2"] by (simp_all add: ac_simps)
  define e where "e = enc3 (m pos) (m (pos + 1)) (m (pos + 2))"
  have step: "encode_base64_loop (Suc g) m pos out = encode_base64_loop g (store m out e) (pos + 3) (out + 4)"
    "encode_base64_loop (Suc g) m' (pos + d) (out + d) =
       encode_base64_loop g (store m' (out + d) e) (pos + 3 + d) (out + 4 + d)"
    using rd by (simp_all add: e_def enc3_def pack3_def Let_def store4 ac_simps)
  let ?S = "S \<union> {out ..< out + 4}"
  have "length e = 4" by (simp add: e_def)
  then have "agree d ?S (store m out e) (store m' (out + d) e)"
    using Suc.prems(1) by (auto simp: agree_def store_def)
  moreover have "{pos + 3 ..< pos + 3 + 3 * g} \<subseteq> ?S" using Suc.prems(2) by auto
  ultimately obtain r r' where IH:
    "encode_base64_loop g (store m out e) (pos + 3) (out + 4) = (r, pos + 3 + 3 * g, out + 4 + 4 * g)"
    "encode_base64_loop g (store m' (out + d) e) (pos + 3 + d) (out + 4 + d) =
       (r', pos + 3 + d + 3 * g, out + 4 + d + 4 * g)"
    "agree d (?S \<union> {out + 4 ..< out + 4 + 4 * g}) r r'"
    using Suc.IH by blast
  moreover have "S \<union> {out ..< out + 4 * Suc g} \<subseteq> ?S \<union> {out + 4 ..< out + 4 + 4 * g}" by auto
  ultimately show ?case
    unfolding step by (intro exI [of _ r] exI [of _ r']) (auto intro: agree_mono)
qed simp

lemma encode_tail_2:
  "encode_base64_loop (n div 3) m p out = (r, q, o') \<Longrightarrow> p + n - q = 2 \<Longrightarrow>
     encode_base64 m p n out = (store r o' (enc2 (r q) (r (q + 1))), o' + 3)"
  by (simp add: encode_base64_def enc2_def pack2_def store3 Let_def)

lemma encode_in_place:
  assumes "length h = 32"
  shows "\<exists>m'. olm_encode_base64 (store m p h) p 32 p = (m', 43) \<and> load m' p 43 = overlapped_base64 h"
proof -
  let ?std = "store (\<lambda>_. 0) 0 h" and ?m = "store m p h"
  have start: "agree p {0 ..< 32} ?std ?m" using assms by (auto simp: agree_def store_def)
  obtain r r' where loop: "encode_base64_loop 10 ?std 0 0 = (r, 30, 40)"
    "encode_base64_loop 10 ?m p p = (r', p + 30, p + 40)"
    and ag: "agree p ({0 ..< 32} \<union> {0 ..< 40}) r r'"
    using encode_loop_agree [OF start, of 0 10 0] by auto
  have rd: "r' (p + 30) = r 30" "r' (p + 31) = r 31"
    using agree_at [OF ag, of 30] agree_at [OF ag, of 31] by (simp_all add: add.commute)
  define e where "e = enc2 (r 30) (r 31)"
  have e: "length e = 3" by (simp add: e_def)
  have "encode_base64 ?m p 32 p = (store r' (p + 40) (enc2 (r' (p + 30)) (r' (p + 30 + 1))), p + 40 + 3)"
    by (rule encode_tail_2) (use loop in simp_all)
  moreover have "p + 30 + 1 = p + 31" by simp
  ultimately have enc: "encode_base64 ?m p 32 p = (store r' (p + 40) e, p + 43)"
    using rd by (simp only: e_def) simp
  have enc_std: "encode_base64 ?std 0 32 0 = (store r 40 e, 43)"
    using encode_tail_2 [of 32 ?std 0 0 r 30 40] loop by (simp add: e_def)
  have "r' (p + a) = r a" if "a < 40" for a
    using agree_at [OF ag, of a] that by (simp add: add.commute)
  then have "load (store r' (p + 40) e) p 43 = load (store r 40 e) 0 43"
    using e by (intro load_cong) (auto simp: store_def)
  then show ?thesis
    using enc enc_std by (simp add: olm_encode_base64_def overlapped_base64_def)
qed

lemma calculate_mac_fixed_eq:
  assumes "sas_their_key_set sas \<noteq> 0" "olm_sas_mac_length \<le> n"
  shows "\<exists>m'. olm_sas_calculate_mac_fixed_base64 sas input info m p n = (sas, m', Some 0) \<and>
    load m' p olm_sas_mac_length = b64enc (sas_hmac 32 (sas_secret sas) info input)"
  using assms
  by (auto simp: olm_sas_calculate_mac_fixed_base64_def encode_base64_from_def sas_hmac_def Let_def
      olm_sas_mac_length_def SHA256_OUTPUT_LENGTH_def load_store_same)

lemma mac_length_43: "olm_sas_mac_length = 43"
  by (simp add: olm_sas_mac_length_def SHA256_OUTPUT_LENGTH_def encode_base64_length_def)

lemma calculate_mac_eq:
  assumes "sas_their_key_set sas \<noteq> 0" "olm_sas_mac_length \<le> n"
  shows "\<exists>m'. olm_sas_calculate_mac sas input info m p n = (sas, m', Some 0) \<and>
    load m' p olm_sas_mac_length = overlapped_base64 (sas_hmac 32 (sas_secret sas) info input)"
  using assms encode_in_place [OF length_sas_hmac, of m p 32 "sas_secret sas" info input]
  by (auto simp: olm_sas_calculate_mac_def sas_hmac_def Let_def mac_length_43 SHA256_OUTPUT_LENGTH_def)

lemma calculate_mac_long_kdf_eq:
  assumes "sas_their_key_set sas \<noteq> 0" "olm_sas_mac_length \<le> n"
  shows "\<exists>m'. olm_sas_calculate_mac_long_kdf sas input info m p n = (sas, m', Some 0) \<and>
    load m' p olm_sas_mac_length = overlapped_base64 (sas_hmac 256 (sas_secret sas) info input)"
  using assms encode_in_place [OF length_sas_hmac, of m p 256 "sas_secret sas" info input]
  by (auto simp: olm_sas_calculate_mac_long_kdf_def sas_hmac_def Let_def mac_length_43
      SHA256_OUTPUT_LENGTH_def)

text \<open>The second group already differs: it reads the character written over the fourth byte.\<close>

lemma overlapped_base64_differs: "overlapped_base64 (replicate 32 0) \<noteq> b64enc (replicate 32 0)"
proof -
  have "overlapped_base64 (replicate 32 0) ! 5 = 81"
    unfolding overlapped_base64_def by code_simp
  moreover have "b64enc (replicate 32 0) ! 5 = 65" by code_simp
  ultimately show ?thesis by force
qed

section \<open>Properties\<close>

text \<open>\<open>exchange P a b\<close>: party \<open>a\<close> after it received the public key that \<open>b\<close> wrote to a buffer.\<close>

definition exchange :: "crypto_prims \<Rightarrow> OlmSAS \<Rightarrow> OlmSAS \<Rightarrow> OlmSAS" where
  "exchange P a b =
     (let (b, m, _) = olm_sas_get_pubkey b (\<lambda>_. 0) 0 olm_sas_pubkey_length;
          (a, m, _) = olm_sas_set_their_key P a m 0 olm_sas_pubkey_length
      in a)"

lemma create_sas_public:
  assumes "dh_law P" "olm_create_sas P sas random = (sas', Some n)"
  shows "length (curve_public (sas_curve25519_key sas')) = 32"
  using assms by (auto simp: dh_law_def olm_create_sas_def olm_crypto_curve25519_generate_key_def Let_def
      split: if_splits)

text \<open>C35: Two parties that created their keys and exchanged the public parts hold the same secret:
  the bytes they generate and all three kinds of MACs they calculate are the same: the contents of the
  buffers, and whether the calls fail.\<close>

theorem sas_parties_agree:
  assumes "dh_law P" "olm_create_sas P a0 ra = (a, Some 0)" "olm_create_sas P b0 rb = (b, Some 0)"
  defines "a' \<equiv> exchange P a b" and "b' \<equiv> exchange P b a"
  shows "olm_sas_is_their_key_set a' = 1 \<and> olm_sas_is_their_key_set b' = 1
    \<and> snd (olm_sas_generate_bytes a' info m p n) = snd (olm_sas_generate_bytes b' info m p n)
    \<and> snd (olm_sas_calculate_mac_fixed_base64 a' inp info m p n)
      = snd (olm_sas_calculate_mac_fixed_base64 b' inp info m p n)
    \<and> snd (olm_sas_calculate_mac a' inp info m p n) = snd (olm_sas_calculate_mac b' inp info m p n)
    \<and> snd (olm_sas_calculate_mac_long_kdf a' inp info m p n)
      = snd (olm_sas_calculate_mac_long_kdf b' inp info m p n)"
proof -
  note len = create_sas_public [OF assms(1,2)] create_sas_public [OF assms(1,3)]
  from get_pubkey_eq [of olm_sas_pubkey_length, OF _ len(1), of "\<lambda>_. 0" 0] obtain ma where
    ma: "olm_sas_get_pubkey a (\<lambda>_. 0) 0 olm_sas_pubkey_length = (a, ma, Some 0)"
      "load ma 0 olm_sas_pubkey_length = b64enc (curve_public (sas_curve25519_key a))" by auto
  from get_pubkey_eq [of olm_sas_pubkey_length, OF _ len(2), of "\<lambda>_. 0" 0] obtain mb where
    mb: "olm_sas_get_pubkey b (\<lambda>_. 0) 0 olm_sas_pubkey_length = (b, mb, Some 0)"
      "load mb 0 olm_sas_pubkey_length = b64enc (curve_public (sas_curve25519_key b))" by auto
  obtain s where "a' = a\<lparr>sas_secret := s, sas_their_key_set := 1\<rparr>" "b' = b\<lparr>sas_secret := s, sas_their_key_set := 1\<rparr>"
    using secrets_agree [OF assms(1) create_sas_ready [OF assms(2)] create_sas_ready [OF assms(3)] mb(2) ma(2)]
    by (auto simp: a'_def b'_def exchange_def ma mb)
  then show ?thesis
    by (simp add: olm_sas_is_their_key_set_def olm_sas_generate_bytes_def Let_def
        olm_sas_calculate_mac_fixed_base64_def olm_sas_calculate_mac_def
        olm_sas_calculate_mac_long_kdf_def split: prod.split)
qed

lemma sas_parties_agree_witness:
  "\<exists>a b. olm_create_sas sample_prims (olm_sas undefined) (replicate 32 1) = (a, Some 0)
    \<and> olm_create_sas sample_prims (olm_sas undefined) (replicate 32 2) = (b, Some 0)
    \<and> snd (olm_sas_generate_bytes (exchange sample_prims a b) [1] of_nat 0 6)
      = snd (olm_sas_generate_bytes (exchange sample_prims b a) [1] of_nat 0 6)"
proof -
  obtain a b where "olm_create_sas sample_prims (olm_sas undefined) (replicate 32 1) = (a, Some 0)"
    "olm_create_sas sample_prims (olm_sas undefined) (replicate 32 2) = (b, Some 0)"
    by (simp add: olm_create_sas_def olm_create_sas_random_length_def CURVE25519_KEY_LENGTH_def)
  then show ?thesis using sas_parties_agree [OF sample_dh_law] by blast
qed

text \<open>The MACs: with a buffer of the announced length or longer and the other key set, the
  fixed function writes the base64 encoding of the HMAC, while the two older functions, which
  encode the HMAC over itself, write what the encoder makes of its own output: the same for both
  parties, but not the encoding of the HMAC.\<close>

theorem sas_mac_encodings:
  assumes "olm_sas_is_their_key_set sas \<noteq> 0" "olm_sas_mac_length \<le> n"
  defines "secret \<equiv> sas_secret sas"
  shows "(\<exists>m1. olm_sas_calculate_mac_fixed_base64 sas inp info m p n = (sas, m1, Some 0)
      \<and> load m1 p olm_sas_mac_length = b64enc (sas_hmac 32 secret info inp))
    \<and> (\<exists>m2. olm_sas_calculate_mac sas inp info m p n = (sas, m2, Some 0)
      \<and> load m2 p olm_sas_mac_length = overlapped_base64 (sas_hmac 32 secret info inp))
    \<and> (\<exists>m3. olm_sas_calculate_mac_long_kdf sas inp info m p n = (sas, m3, Some 0)
      \<and> load m3 p olm_sas_mac_length = overlapped_base64 (sas_hmac 256 secret info inp))
    \<and> (\<exists>h. length h = 32 \<and> overlapped_base64 h \<noteq> b64enc h)"
  using calculate_mac_fixed_eq [of sas n] calculate_mac_eq [of sas n] calculate_mac_long_kdf_eq [of sas n]
    assms overlapped_base64_differs
  by (auto simp: olm_sas_is_their_key_set_def intro!: exI [of _ "replicate 32 0"])

lemma sas_mac_encodings_witness:
  "\<exists>m1. olm_sas_calculate_mac_fixed_base64 ((olm_sas undefined)\<lparr>sas_their_key_set := 1\<rparr>) [1] [2] of_nat 3 43
     = ((olm_sas undefined)\<lparr>sas_their_key_set := 1\<rparr>, m1, Some 0)"
  using sas_mac_encodings [of "(olm_sas undefined)\<lparr>sas_their_key_set := 1\<rparr>" 43 "[1]" "[2]" of_nat 3]
  by (auto simp: olm_sas_is_their_key_set_def mac_length_43)

text \<open>Before the other key is set no bytes and no MAC are written: the calls fail and leave the
  memory alone; a MAC buffer that is too short is reported first.\<close>

theorem sas_needs_their_key:
  assumes "olm_sas_is_their_key_set sas = 0"
  shows "olm_sas_generate_bytes sas info m p n = (sas\<lparr>sas_last_error := OLM_SAS_THEIR_KEY_NOT_SET\<rparr>, m, None)
    \<and> (\<forall>f \<in> {olm_sas_calculate_mac, olm_sas_calculate_mac_long_kdf, olm_sas_calculate_mac_fixed_base64}.
        f sas inp info m p n =
          (sas\<lparr>sas_last_error := (if n < olm_sas_mac_length then OLM_OUTPUT_BUFFER_TOO_SMALL
             else OLM_SAS_THEIR_KEY_NOT_SET)\<rparr>, m, None))"
  using assms
  by (simp add: olm_sas_is_their_key_set_def olm_sas_generate_bytes_def olm_sas_calculate_mac_def
      olm_sas_calculate_mac_long_kdf_def olm_sas_calculate_mac_fixed_base64_def)

lemma sas_needs_their_key_witness:
  "snd (snd (olm_sas_generate_bytes (olm_sas undefined) [1] of_nat 0 6)) = None"
  using sas_needs_their_key [of "olm_sas undefined" "[1]" of_nat 0 6]
  by (simp add: olm_sas_is_their_key_set_def olm_sas_def olm_clear_sas_def)

end
