(* ===== verification/Cipher.thy ===== *)
theory Cipher
  imports Crypto OlmMemory
begin

text \<open>
  \<open>src/cipher.cpp\<close> and \<open>include/olm/cipher.h\<close>: the authenticated cipher that every
  message and pickle uses, AES-256-CBC with a truncated HMAC-SHA-256, with keys derived by
  HKDF under a context string.  \<open>struct _olm_cipher_ops\<close> is the interface its clients
  see; the locale \<open>olm_cipher\<close> states the laws they rely on and is interpreted on the code.
\<close>

section \<open>The code\<close>

record DerivedKeys =
  aes_key :: bytes
  mac_key :: bytes
  aes_iv :: bytes

definition derive_keys :: "bytes \<Rightarrow> bytes \<Rightarrow> DerivedKeys" where
  "derive_keys kdf_info key =
     (let derived_secrets = olm_crypto_hkdf_sha256 key None kdf_info (32 + 32 + 16);
          (k, pos) = load_array 32 derived_secrets;
          (mk, pos) = load_array 32 pos;
          (iv, pos) = load_array 16 pos
      in \<lparr>aes_key = k, mac_key = mk, aes_iv = iv\<rparr>)"

definition MAC_LENGTH :: nat where
  "MAC_LENGTH = 8"

definition aes_sha_256_cipher_mac_length :: nat where
  "aes_sha_256_cipher_mac_length = MAC_LENGTH"

definition aes_sha_256_cipher_encrypt_ciphertext_length :: "nat \<Rightarrow> nat" where
  "aes_sha_256_cipher_encrypt_ciphertext_length plaintext_length =
     olm_crypto_aes_encrypt_cbc_length plaintext_length"

text \<open>
  \<open>ciphertext\<close> and \<open>output\<close> are pointers into the memory; usually the ciphertext lies
  inside the output, whose bytes up to the MAC are authenticated.
\<close>

definition aes_sha_256_cipher_encrypt ::
    "bytes \<Rightarrow> bytes \<Rightarrow> bytes \<Rightarrow> mem \<Rightarrow> nat \<Rightarrow> nat \<Rightarrow> nat \<Rightarrow> nat \<Rightarrow> mem \<times> nat option" where
  "aes_sha_256_cipher_encrypt kdf_info key plaintext m ciphertext ciphertext_length
     output output_length =
     (if ciphertext_length < aes_sha_256_cipher_encrypt_ciphertext_length (length plaintext)
         \<or> output_length < MAC_LENGTH
      then (m, None)
      else
        let keys = derive_keys kdf_info key;
            m = store m ciphertext
                  (olm_crypto_aes_encrypt_cbc (aes_key keys) (aes_iv keys) plaintext);
            mac = olm_crypto_hmac_sha256 (mac_key keys)
                    (load m output (output_length - MAC_LENGTH));
            m = store m (output + output_length - MAC_LENGTH) (take MAC_LENGTH mac)
        in (m, Some output_length))"

definition aes_sha_256_cipher_decrypt_max_plaintext_length :: "nat \<Rightarrow> nat" where
  "aes_sha_256_cipher_decrypt_max_plaintext_length ciphertext_length = ciphertext_length"

text \<open>
  \<open>input\<close> is the authenticated message with its MAC, \<open>ciphertext\<close> the memory from the
  ciphertext pointer on, \<open>before\<close> the byte in front of the plaintext buffer (see
  \<open>olm_crypto_aes_decrypt_cbc\<close>).  The result: the bytes written to the plaintext buffer
  and the plaintext length, \<open>None\<close> for \<open>size_t(-1)\<close>.
\<close>

definition aes_sha_256_cipher_decrypt ::
    "bytes \<Rightarrow> bytes \<Rightarrow> bytes \<Rightarrow> bytes \<Rightarrow> nat \<Rightarrow> u8 \<Rightarrow> nat \<Rightarrow> bytes \<times> nat option" where
  "aes_sha_256_cipher_decrypt kdf_info key input ciphertext ciphertext_length
     before max_plaintext_length =
     (if max_plaintext_length < aes_sha_256_cipher_decrypt_max_plaintext_length ciphertext_length
         \<or> length input < MAC_LENGTH
      then ([], None)
      else
        let keys = derive_keys kdf_info key;
            mac = olm_crypto_hmac_sha256 (mac_key keys) (take (length input - MAC_LENGTH) input);
            input_mac = drop (length input - MAC_LENGTH) input
        in if \<not> olm_is_equal input_mac mac MAC_LENGTH then ([], None)
           else olm_crypto_aes_decrypt_cbc before (aes_key keys) (aes_iv keys)
                  ciphertext ciphertext_length)"

section \<open>What its clients rely on\<close>

text \<open>
  \<open>ctext\<close> and \<open>tag\<close> name the ciphertext of a plaintext and the MAC of a message body
  under a key.
\<close>

locale olm_cipher =
  fixes mac_len :: nat
    and ct_len :: "nat \<Rightarrow> nat"
    and ctext :: "bytes \<Rightarrow> bytes \<Rightarrow> bytes"
    and tag :: "bytes \<Rightarrow> bytes \<Rightarrow> bytes"
    and enc :: "bytes \<Rightarrow> bytes \<Rightarrow> mem \<Rightarrow> nat \<Rightarrow> nat \<Rightarrow> nat \<Rightarrow> nat \<Rightarrow> mem \<times> nat option"
    and dec :: "bytes \<Rightarrow> bytes \<Rightarrow> bytes \<Rightarrow> nat \<Rightarrow> u8 \<Rightarrow> nat \<Rightarrow> bytes \<times> nat option"
  assumes length_ctext: "length (ctext k p) = ct_len (length p)"
    and length_tag: "length (tag k b) = mac_len"
    and enc_eq: "ct_len (length p) \<le> cl \<Longrightarrow> mac_len \<le> ol \<Longrightarrow>
      enc k p m cp cl out ol =
        (let m1 = store m cp (ctext k p)
         in (store m1 (out + ol - mac_len) (tag k (load m1 out (ol - mac_len))), Some ol))"
    and dec_ok: "ct_len (length p) \<le> max_len \<Longrightarrow>
      \<exists>w. dec k (b @ tag k b) (ctext k p @ r) (ct_len (length p)) before max_len
            = (p @ w, Some (length p)) \<and> length (p @ w) = ct_len (length p)"
    and dec_bad_tag: "length t = mac_len \<Longrightarrow> t \<noteq> tag k b \<Longrightarrow>
      dec k (b @ t) c n before max_len = ([], None)"
    and dec_short: "length inp < mac_len \<Longrightarrow> dec k inp c n before max_len = ([], None)"
    and dec_small_buffer: "max_len < n \<Longrightarrow> dec k inp c n before max_len = ([], None)"
begin

text \<open>A message: a header already in the buffer, the ciphertext behind it, then the MAC.\<close>

lemma enc_message:
  assumes "load m out (length h) = h" and "n = ct_len (length p)"
    and "ol = length h + n + mac_len"
  shows "enc k p m (out + length h) n out ol =
           (store m (out + length h) (ctext k p @ tag k (h @ ctext k p)), Some ol)"
proof -
  let ?m1 = "store m (out + length h) (ctext k p)"
  have "load ?m1 out (length h + n) = load ?m1 out (length h) @ load ?m1 (out + length h) n"
    by (rule load_add)
  also have "\<dots> = h @ ctext k p"
    using assms by (simp add: mem_simps length_ctext)
  finally have body: "load ?m1 out (length h + n) = h @ ctext k p" .
  have pos: "out + ol - mac_len = out + length h + length (ctext k p)"
    using assms(2,3) by (simp add: length_ctext)
  have "enc k p m (out + length h) n out ol =
      (store ?m1 (out + ol - mac_len) (tag k (load ?m1 out (ol - mac_len))), Some ol)"
    using assms(2,3) by (subst enc_eq) (simp_all add: Let_def)
  also have "ol - mac_len = length h + n" using assms(3) by simp
  finally show ?thesis
    unfolding pos body by (simp add: store_store_append)
qed

text \<open>Whatever decrypts carries the tag of its body.\<close>

lemma dec_Some_authentic:
  assumes "dec k inp c n before max_len = (w, Some r)"
  shows "\<exists>b. inp = b @ tag k b"
proof -
  have len: "mac_len \<le> length inp" using assms dec_short [of inp k c n before max_len] by force
  let ?b = "take (length inp - mac_len) inp" and ?t = "drop (length inp - mac_len) inp"
  have "?t = tag k ?b"
    using assms dec_bad_tag [of ?t k ?b c n before max_len] len by force
  then show ?thesis by (metis append_take_drop_id)
qed

lemma enc_too_small_never:
  "ct_len (length p) \<le> cl \<Longrightarrow> mac_len \<le> ol \<Longrightarrow> snd (enc k p m cp cl out ol) = Some ol"
  by (simp add: enc_eq Let_def)

end

definition cipher_ctext :: "bytes \<Rightarrow> bytes \<Rightarrow> bytes \<Rightarrow> bytes" where
  "cipher_ctext kdf_info key plaintext =
     (let keys = derive_keys kdf_info key
      in olm_crypto_aes_encrypt_cbc (aes_key keys) (aes_iv keys) plaintext)"

definition cipher_tag :: "bytes \<Rightarrow> bytes \<Rightarrow> bytes \<Rightarrow> bytes" where
  "cipher_tag kdf_info key body =
     take MAC_LENGTH (olm_crypto_hmac_sha256 (mac_key (derive_keys kdf_info key)) body)"

lemma length_derived_keys [simp, len_simps]:
  "length (aes_key (derive_keys info key)) = 32"
  "length (mac_key (derive_keys info key)) = 32"
  "length (aes_iv (derive_keys info key)) = 16"
  by (simp_all add: derive_keys_def load_array_def Let_def)

lemma cipher_decrypt_tag:
  assumes "length t = MAC_LENGTH"
  shows "aes_sha_256_cipher_decrypt info k (b @ t) c n before max_len =
     (if max_len < n \<or> t \<noteq> cipher_tag info k b then ([], None)
      else olm_crypto_aes_decrypt_cbc before (aes_key (derive_keys info k))
             (aes_iv (derive_keys info k)) c n)"
  using assms
  by (simp add: aes_sha_256_cipher_decrypt_def aes_sha_256_cipher_decrypt_max_plaintext_length_def
      cipher_tag_def olm_is_equal_iff Let_def MAC_LENGTH_def)

interpretation aes_sha_256: olm_cipher
  aes_sha_256_cipher_mac_length aes_sha_256_cipher_encrypt_ciphertext_length
  "cipher_ctext info" "cipher_tag info"
  "aes_sha_256_cipher_encrypt info" "aes_sha_256_cipher_decrypt info"
  for info
proof unfold_locales
  fix k p b r c t inp :: bytes and m cp cl out ol max_len n before
  show len: "length (cipher_ctext info k p)
      = aes_sha_256_cipher_encrypt_ciphertext_length (length p)"
    by (simp add: cipher_ctext_def aes_sha_256_cipher_encrypt_ciphertext_length_def
        length_aes_encrypt_cbc Let_def)
  show tag: "length (cipher_tag info k b) = aes_sha_256_cipher_mac_length"
    by (simp add: cipher_tag_def aes_sha_256_cipher_mac_length_def MAC_LENGTH_def)
  show "aes_sha_256_cipher_encrypt info k p m cp cl out ol =
        (let m1 = store m cp (cipher_ctext info k p)
         in (store m1 (out + ol - aes_sha_256_cipher_mac_length)
               (cipher_tag info k (load m1 out (ol - aes_sha_256_cipher_mac_length))), Some ol))"
    if "aes_sha_256_cipher_encrypt_ciphertext_length (length p) \<le> cl"
      and "aes_sha_256_cipher_mac_length \<le> ol"
    using that
    by (simp add: aes_sha_256_cipher_encrypt_def aes_sha_256_cipher_mac_length_def
        cipher_ctext_def cipher_tag_def Let_def)
  show "\<exists>w. aes_sha_256_cipher_decrypt info k (b @ cipher_tag info k b) (cipher_ctext info k p @ r)
          (aes_sha_256_cipher_encrypt_ciphertext_length (length p)) before max_len
          = (p @ w, Some (length p)) \<and>
          length (p @ w) = aes_sha_256_cipher_encrypt_ciphertext_length (length p)"
    if "aes_sha_256_cipher_encrypt_ciphertext_length (length p) \<le> max_len"
  proof -
    have "aes_sha_256_cipher_decrypt info k (b @ cipher_tag info k b) (cipher_ctext info k p @ r)
          (aes_sha_256_cipher_encrypt_ciphertext_length (length p)) before max_len
        = (pkcs7_pad p, Some (length p))"
      using that tag aes_cbc_roundtrip [OF length_derived_keys(3) refl]
      by (simp add: cipher_decrypt_tag aes_sha_256_cipher_mac_length_def cipher_ctext_def Let_def
          flip: len)
    then show ?thesis
      by (auto simp: pkcs7_pad_def Let_def aes_sha_256_cipher_encrypt_ciphertext_length_def
          olm_crypto_aes_encrypt_cbc_length_def)
  qed
  show "aes_sha_256_cipher_decrypt info k (b @ t) c n before max_len = ([], None)"
    if "length t = aes_sha_256_cipher_mac_length" and "t \<noteq> cipher_tag info k b"
    using that by (simp add: cipher_decrypt_tag aes_sha_256_cipher_mac_length_def)
  show "aes_sha_256_cipher_decrypt info k inp c n before max_len = ([], None)"
    if "length inp < aes_sha_256_cipher_mac_length"
    using that by (simp add: aes_sha_256_cipher_decrypt_def aes_sha_256_cipher_mac_length_def)
  show "aes_sha_256_cipher_decrypt info k inp c n before max_len = ([], None)"
    if "max_len < n"
    using that by (simp add: aes_sha_256_cipher_decrypt_def
        aes_sha_256_cipher_decrypt_max_plaintext_length_def)
qed

lemma mac_length_8 [simp, len_simps]: "aes_sha_256_cipher_mac_length = 8"
  by (simp add: aes_sha_256_cipher_mac_length_def MAC_LENGTH_def)

lemma length_cipher [simp, len_simps]:
  "length (cipher_ctext info k p) = aes_sha_256_cipher_encrypt_ciphertext_length (length p)"
  "length (cipher_tag info k b) = 8"
  using aes_sha_256.length_ctext [of info k p] aes_sha_256.length_tag [of info k b] by simp_all

section \<open>Properties\<close>

text \<open>A message of a header, the ciphertext and the MAC, encrypted in its buffer, keeps its
  header; with the same key it decrypts to the plaintext, in a buffer as long as the ciphertext.\<close>

theorem cipher_round_trip:
  assumes "load m out (length h) = h"
    and "cl = aes_sha_256_cipher_encrypt_ciphertext_length (length p)"
    and "ol = length h + cl + aes_sha_256_cipher_mac_length" "cl \<le> max_len"
  shows "\<exists>m' w. aes_sha_256_cipher_encrypt info key p m (out + length h) cl out ol = (m', Some ol)
    \<and> load m' out (length h) = h \<and> unchanged_outside out ol m m'
    \<and> aes_sha_256_cipher_decrypt info key (load m' out ol) (load m' (out + length h) (cl + 16)) cl
        before max_len = (p @ w, Some (length p)) \<and> length (p @ w) = cl"
proof -
  let ?c = "cipher_ctext info key p"
  let ?t = "cipher_tag info key (h @ ?c)"
  let ?m = "store m (out + length h) (?c @ ?t)"
  have len: "length ?c = cl" "length ?t = 8"
    by (simp_all add: assms(2))
  have "load ?m out (length h) = h" using assms(1) by (simp add: load_store_disjoint)
  moreover have "load ?m (out + length h) (cl + 8) = ?c @ ?t" by (rule load_store_same) (simp add: assms(2))
  moreover from this have "load ?m (out + length h) (cl + 16) = ?c @ ?t @ load ?m (out + length h + (cl + 8)) 8"
    using load_add [of ?m "out + length h" "cl + 8" 8] by (simp add: add.assoc)
  ultimately have "load ?m out ol = (h @ ?c) @ ?t" "load ?m out (length h) = h"
    "load ?m (out + length h) (cl + 16) = ?c @ ?t @ load ?m (out + length h + (cl + 8)) 8"
    using assms(3) load_add [of ?m out "length h" "cl + 8"] by (simp_all add: add.assoc)
  moreover have "unchanged_outside out ol m ?m" using assms(3) len by (intro unchanged_outside_store) auto
  ultimately show ?thesis
    using aes_sha_256.enc_message [OF assms(1-3), of info key]
      aes_sha_256.dec_ok [of p max_len info key "h @ ?c" "?t @ load ?m (out + length h + (cl + 8)) 8" before]
      assms(2,4) by auto
qed

lemma cipher_round_trip_witness:
  "\<exists>m' w. aes_sha_256_cipher_encrypt [1] [2] [3, 4] of_nat 9 16 7 26 = (m', Some 26)
    \<and> load m' 7 2 = [7, 8] \<and> unchanged_outside 7 26 of_nat m'
    \<and> aes_sha_256_cipher_decrypt [1] [2] (load m' 7 26) (load m' 9 32) 16 0 16 = ([3, 4] @ w, Some 2)
    \<and> length ([3, 4] @ w) = 16"
  using cipher_round_trip [of of_nat 7 "[7, 8]" 16 "[3, 4]" 26 16 "[1]" "[2]" 0]
  by (simp add: load_Suc aes_sha_256_cipher_encrypt_ciphertext_length_def
      olm_crypto_aes_encrypt_cbc_length_def numeral_2_eq_2)

text \<open>Whatever the cipher accepts ends in the MAC of its body under the key; an input without
  it, or a buffer that is too small, fails and writes nothing.\<close>

theorem cipher_accepts_only_tagged:
  "(case aes_sha_256_cipher_decrypt info key inp c n before max_len of
      (written, Some r) \<Rightarrow> (\<exists>body. inp = body @ cipher_tag info key body) \<and> n \<le> max_len
    | (written, None) \<Rightarrow> (\<exists>body. inp = body @ cipher_tag info key body) \<and> n \<le> max_len \<or> written = [])"
proof (cases "\<exists>body. inp = body @ cipher_tag info key body")
  case True
  then show ?thesis
    using aes_sha_256.dec_small_buffer [of max_len n info key inp c before]
    by (cases "n \<le> max_len") (auto split: prod.split option.split simp: not_le)
next
  case False
  have "aes_sha_256_cipher_decrypt info key inp c n before max_len = ([], None)"
  proof (cases "length inp < 8")
    case True
    then show ?thesis using aes_sha_256.dec_short [of inp info key c n before max_len] by simp
  next
    case len: False
    let ?b = "take (length inp - 8) inp" and ?t = "drop (length inp - 8) inp"
    have "?t \<noteq> cipher_tag info key ?b" using False by (metis append_take_drop_id)
    then show ?thesis
      using len aes_sha_256.dec_bad_tag [of ?t info key ?b c n before max_len] by simp
  qed
  then show ?thesis by simp
qed

end
