(* ===== verification/Message.thy ===== *)
theory Message
  imports Prelude
begin

text \<open>
  \<open>src/message.cpp\<close>, \<open>include/olm/message.hh\<close> and \<open>include/olm/message.h\<close>: the encoding
  of Olm messages, pre-key messages and group messages as tagged fields with variable length
  integers.

  The encoders write the headers of a message into memory and return the pointers to where
  the contents go.  A reader is a cursor: an offset into the input and the bytes from there
  to the end of what may be read; the pointers of a result are offsets into the input,
  \<open>None\<close> for a null pointer.
\<close>

section \<open>Variable length integers\<close>

text \<open>
  The templates are used at 32 bits (counters) and 64 bits (lengths).
\<close>

lemma drop_bit_7_less [termination_simp]: "128 \<le> unat v \<Longrightarrow> unat (drop_bit 7 v) < unat v"
  unfolding unat_drop_bit_eq by (simp add: drop_bit_eq_div)

function varint_length :: "'a::len word \<Rightarrow> nat" where
  "varint_length value = (if unat value \<ge> 128 then 1 + varint_length (drop_bit 7 value) else 1)"
  by pat_completeness auto
termination by (relation "measure unat") (auto intro: drop_bit_7_less)

function varint_encode :: "mem \<Rightarrow> nat \<Rightarrow> 'a::len word \<Rightarrow> mem \<times> nat" where
  "varint_encode m output value =
     (if unat value \<ge> 128 then
        varint_encode (m(output := (0x7F AND ucast value) OR 0x80)) (output + 1) (drop_bit 7 value)
      else (m(output := ucast value), output + 1))"
  by pat_completeness auto
termination by (relation "measure (\<lambda>(m, p, v). unat v)") (auto intro: drop_bit_7_less)

declare varint_length.simps [simp del] varint_encode.simps [simp del]

text \<open>The bytes from \<open>varint_start\<close> to \<open>varint_end\<close>, read from the last to the first.\<close>

fun varint_decode_loop :: "'a::len word \<Rightarrow> bytes \<Rightarrow> 'a word" where
  "varint_decode_loop value [] = value"
| "varint_decode_loop value (b # bs) =
     varint_decode_loop (push_bit 7 value OR ucast (0x7F AND b)) bs"

definition varint_decode :: "bytes \<Rightarrow> 'a::len word" where
  "varint_decode bs = varint_decode_loop 0 (rev bs)"

type_synonym cursor = "nat \<times> bytes"

fun advance :: "nat \<Rightarrow> cursor \<Rightarrow> cursor" where
  "advance n (pos, rest) = (pos + n, drop n rest)"

definition at_end :: "cursor \<Rightarrow> bool" where
  "at_end c = (snd c = [])"

definition cursor_end :: "cursor \<Rightarrow> cursor" where
  "cursor_end c = (fst c + length (snd c), [])"

definition between :: "cursor \<Rightarrow> cursor \<Rightarrow> bytes" where
  "between start c = take (fst c - fst start) (snd start)"

fun varint_skip :: "cursor \<Rightarrow> cursor" where
  "varint_skip (pos, []) = (pos, [])"
| "varint_skip (pos, tmp # rest) =
     (if tmp AND 0x80 = 0 then (pos + 1, rest) else varint_skip (pos + 1, rest))"

definition varstring_length :: "nat \<Rightarrow> nat" where
  "varstring_length string_length = varint_length (of_nat string_length :: u64) + string_length"

section \<open>Fields\<close>

definition encode_u32 :: "mem \<Rightarrow> nat \<Rightarrow> u8 \<Rightarrow> u32 \<Rightarrow> mem \<times> nat" where
  "encode_u32 m pos tag value = varint_encode (m(pos := tag)) (pos + 1) value"

text \<open>Returns the memory, the next position and the pointer to the contents.\<close>

definition encode_string :: "mem \<Rightarrow> nat \<Rightarrow> u8 \<Rightarrow> nat \<Rightarrow> mem \<times> nat \<times> nat" where
  "encode_string m pos tag value_length =
     (let (m, pos) = varint_encode (m(pos := tag)) (pos + 1) (of_nat value_length :: u64);
          value = pos
      in (m, pos + value_length, value))"

definition decode_u32 :: "cursor \<Rightarrow> u8 \<Rightarrow> u32 \<Rightarrow> bool \<Rightarrow> cursor \<times> u32 \<times> bool" where
  "decode_u32 pos tag value has_value =
     (if \<not> at_end pos \<and> hd (snd pos) = tag then
        let value_start = advance 1 pos;
            pos = varint_skip value_start
        in (pos, varint_decode (between value_start pos), True)
      else (pos, value, has_value))"

definition decode_string ::
    "cursor \<Rightarrow> u8 \<Rightarrow> nat option \<Rightarrow> nat \<Rightarrow> cursor \<times> nat option \<times> nat" where
  "decode_string pos tag value value_length =
     (if \<not> at_end pos \<and> hd (snd pos) = tag then
        let len_start = advance 1 pos;
            pos = varint_skip len_start;
            len = unat (varint_decode (between len_start pos) :: u64)
        in if len > length (snd pos) then (cursor_end pos, value, value_length)
           else (advance len pos, Some (fst pos), len)
      else (pos, value, value_length))"

definition skip_unknown :: "cursor \<Rightarrow> cursor" where
  "skip_unknown pos =
     (if \<not> at_end pos then
        let tag = hd (snd pos) in
        if tag AND 0x7 = 0 then varint_skip (varint_skip pos)
        else if tag AND 0x7 = 2 then
          let len_start = varint_skip pos;
              pos = varint_skip len_start;
              len = unat (varint_decode (between len_start pos) :: u64)
          in if len > length (snd pos) then cursor_end pos else advance len pos
        else cursor_end pos
      else pos)"

section \<open>Progress of the cursor\<close>

definition reaches :: "cursor \<Rightarrow> cursor \<Rightarrow> bool" where
  "reaches c c' \<longleftrightarrow> (\<exists>k \<le> length (snd c). c' = advance k c)"

lemma reaches_refl [simp, intro]: "reaches c c"
  by (cases c) (auto simp: reaches_def intro: exI [of _ 0])

lemma reaches_trans [trans]: "reaches a b \<Longrightarrow> reaches b c \<Longrightarrow> reaches a c"
proof -
  assume "reaches a b" "reaches b c"
  then obtain j k where "j \<le> length (snd a)" "b = advance j a" "k \<le> length (snd b)" "c = advance k b"
    by (auto simp: reaches_def)
  then show "reaches a c"
    unfolding reaches_def by (cases a) (auto simp: add.commute intro!: exI [of _ "j + k"])
qed

lemma reaches_length: "reaches c c' \<Longrightarrow> length (snd c') \<le> length (snd c)"
  by (cases c) (auto simp: reaches_def)

lemma reaches_end_const:
  "reaches c c' \<Longrightarrow> fst c' + length (snd c') = fst c + length (snd c)"
  by (cases c) (auto simp: reaches_def)

lemma reaches_same_pos: "reaches c c' \<Longrightarrow> fst c = fst c' \<Longrightarrow> c' = c"
  by (cases c; cases c') (auto simp: reaches_def)

lemma reaches_progress: "reaches c c' \<Longrightarrow> fst c \<noteq> fst c' \<Longrightarrow> length (snd c') < length (snd c)"
  using reaches_end_const [of c c'] reaches_length [of c c'] by linarith

lemma reaches_advance: "n \<le> length (snd c) \<Longrightarrow> reaches c (advance n c)"
  by (auto simp: reaches_def)

lemma reaches_cursor_end: "reaches c (cursor_end c)"
  by (cases c) (auto simp: reaches_def cursor_end_def intro!: exI [of _ "length (snd c)"])

lemma reaches_varint_skip: "reaches c (varint_skip c)"
proof (induction c rule: varint_skip.induct)
  case (2 pos tmp rest)
  have "reaches (pos, tmp # rest) (pos + 1, rest)"
    using reaches_advance [of 1 "(pos, tmp # rest)"] by simp
  with 2 show ?case by (auto intro: reaches_trans)
qed simp

lemma varint_skip_progress: "\<not> at_end c \<Longrightarrow> length (snd (varint_skip c)) < length (snd c)"
proof (induction c rule: varint_skip.induct)
  case (2 pos tmp rest)
  then show ?case
    using reaches_length [OF reaches_varint_skip, of "(pos + 1, rest)"] by auto
qed (simp add: at_end_def)

lemma reaches_decode_u32: "reaches c (fst (decode_u32 c tag v h))"
  by (auto simp: decode_u32_def Let_def at_end_def Suc_le_eq
      intro!: reaches_trans [OF reaches_advance reaches_varint_skip])

lemma reaches_decode_string: "reaches c (fst (decode_string c tag v l))"
proof -
  have "reaches c (varint_skip (advance 1 c))" if "\<not> at_end c"
    using that by (auto simp: at_end_def Suc_le_eq
        intro!: reaches_trans [OF reaches_advance reaches_varint_skip])
  then show ?thesis
    by (auto simp: decode_string_def Let_def intro: reaches_trans [OF _ reaches_cursor_end]
        reaches_trans [OF _ reaches_advance])
qed

lemma skip_unknown_progress: "\<not> at_end c \<Longrightarrow> length (snd (skip_unknown c)) < length (snd c)"
proof -
  assume c: "\<not> at_end c"
  have 1: "length (snd (varint_skip (varint_skip c))) < length (snd c)"
    using varint_skip_progress [OF c] reaches_length [OF reaches_varint_skip, of "varint_skip c"] by simp
  have 2: "length (snd (advance n d)) \<le> length (snd d)" for n d by (cases d) simp
  show ?thesis
    using c 1 le_less_trans [OF 2 1]
    by (auto simp: skip_unknown_def Let_def cursor_end_def at_end_def)
qed

lemma reaches_skip_unknown: "reaches c (skip_unknown c)"
proof -
  have "reaches c (varint_skip (varint_skip c))"
    by (rule reaches_trans [OF reaches_varint_skip reaches_varint_skip])
  then show ?thesis
    by (auto simp: skip_unknown_def Let_def intro: reaches_trans [OF _ reaches_cursor_end]
        reaches_trans [OF _ reaches_advance] reaches_cursor_end)
qed

lemma field_pass_progress:
  assumes "\<not> at_end c" "reaches c c'"
  shows "length (snd (if fst c = fst c' then skip_unknown c' else c')) < length (snd c)"
proof (cases "fst c = fst c'")
  case True
  then have "c' = c" by (rule reaches_same_pos [OF assms(2)])
  then show ?thesis using skip_unknown_progress [OF assms(1)] by simp
next
  case False
  then show ?thesis using reaches_progress [OF assms(2)] by simp
qed

lemma field_pass_terminates:
  assumes "\<not> at_end c" "(c', x) = f" "reaches c (fst f)"
  shows "length (snd (if fst c = fst c' then skip_unknown c' else c')) < length (snd c)"
  using field_pass_progress [OF assms(1), of c'] assms(2,3) by (metis fst_conv)

section \<open>Messages\<close>

definition VERSION_LENGTH :: nat where "VERSION_LENGTH = 1"
definition RATCHET_KEY_TAG :: u8 where "RATCHET_KEY_TAG = 10"
definition COUNTER_TAG :: u8 where "COUNTER_TAG = 16"
definition CIPHERTEXT_TAG :: u8 where "CIPHERTEXT_TAG = 34"

definition encode_message_length :: "u32 \<Rightarrow> nat \<Rightarrow> nat \<Rightarrow> nat \<Rightarrow> nat" where
  "encode_message_length counter ratchet_key_length ciphertext_length mac_length =
     VERSION_LENGTH
     + (1 + varstring_length ratchet_key_length)
     + (1 + varint_length counter)
     + (1 + varstring_length ciphertext_length)
     + mac_length"

record MessageWriter =
  mw_ratchet_key :: nat
  mw_ciphertext :: nat

record MessageReader =
  mr_version :: u8
  mr_has_counter :: bool
  mr_counter :: u32
  mr_input_length :: nat
  mr_ratchet_key :: "nat option"
  mr_ratchet_key_length :: nat
  mr_ciphertext :: "nat option"
  mr_ciphertext_length :: nat

definition encode_message ::
    "mem \<Rightarrow> u8 \<Rightarrow> u32 \<Rightarrow> nat \<Rightarrow> nat \<Rightarrow> nat \<Rightarrow> mem \<times> MessageWriter" where
  "encode_message m version counter ratchet_key_length ciphertext_length output =
     (let pos = output;
          m = m(pos := version);
          pos = pos + 1;
          (m, pos, ratchet_key) = encode_string m pos RATCHET_KEY_TAG ratchet_key_length;
          (m, pos) = encode_u32 m pos COUNTER_TAG counter;
          (m, pos, ciphertext) = encode_string m pos CIPHERTEXT_TAG ciphertext_length
      in (m, \<lparr>mw_ratchet_key = ratchet_key, mw_ciphertext = ciphertext\<rparr>))"

definition message_fields :: "cursor \<Rightarrow> MessageReader \<Rightarrow> cursor \<times> MessageReader" where
  "message_fields pos reader =
     (let (pos, v, n) = decode_string pos RATCHET_KEY_TAG
            (mr_ratchet_key reader) (mr_ratchet_key_length reader);
          reader = reader\<lparr>mr_ratchet_key := v, mr_ratchet_key_length := n\<rparr>;
          (pos, c, h) = decode_u32 pos COUNTER_TAG (mr_counter reader) (mr_has_counter reader);
          reader = reader\<lparr>mr_counter := c, mr_has_counter := h\<rparr>;
          (pos, v, n) = decode_string pos CIPHERTEXT_TAG
            (mr_ciphertext reader) (mr_ciphertext_length reader);
          reader = reader\<lparr>mr_ciphertext := v, mr_ciphertext_length := n\<rparr>
      in (pos, reader))"

lemma reaches_message_fields: "reaches c (fst (message_fields c r))"
  unfolding message_fields_def Let_def
  by (auto split: prod.split)
    (metis fst_conv reaches_decode_string reaches_decode_u32 reaches_trans)

function decode_message_loop :: "cursor \<Rightarrow> MessageReader \<Rightarrow> MessageReader" where
  "decode_message_loop pos reader =
     (if \<not> at_end pos then
        let unknown = pos;
            (pos, reader) = message_fields pos reader;
            pos = (if fst unknown = fst pos then skip_unknown pos else pos)
        in decode_message_loop pos reader
      else reader)"
  by pat_completeness auto
termination
  by (relation "measure (\<lambda>(c, r). length (snd c))")
    (auto simp only: in_measure case_prod_conv wf_measure
      intro: field_pass_terminates reaches_message_fields)

declare decode_message_loop.simps [simp del]

definition decode_message :: "bytes \<Rightarrow> nat \<Rightarrow> MessageReader" where
  "decode_message input mac_length =
     (let reader = \<lparr>mr_version = 0, mr_has_counter = False, mr_counter = 0,
            mr_input_length = length input, mr_ratchet_key = None, mr_ratchet_key_length = 0,
            mr_ciphertext = None, mr_ciphertext_length = 0\<rparr>;
          pos = (0, take (length input - mac_length) input)
      in if length input < mac_length then reader
         else if at_end pos then reader
         else decode_message_loop (advance 1 pos) (reader\<lparr>mr_version := hd (snd pos)\<rparr>))"

section \<open>Pre-key messages\<close>

definition ONE_TIME_KEY_ID_TAG :: u8 where "ONE_TIME_KEY_ID_TAG = 10"
definition PREKEY_ID_TAG :: u8 where "PREKEY_ID_TAG = 42"
definition BASE_KEY_TAG :: u8 where "BASE_KEY_TAG = 18"
definition IDENTITY_KEY_TAG :: u8 where "IDENTITY_KEY_TAG = 26"
definition MESSAGE_TAG :: u8 where "MESSAGE_TAG = 34"

definition encode_one_time_key_message_length :: "nat \<Rightarrow> nat \<Rightarrow> nat \<Rightarrow> nat \<Rightarrow> nat \<Rightarrow> nat" where
  "encode_one_time_key_message_length prekey_length identity_key_length base_key_length
     one_time_key_length message_length =
     VERSION_LENGTH
     + (1 + varstring_length prekey_length)
     + (1 + varstring_length one_time_key_length)
     + (1 + varstring_length identity_key_length)
     + (1 + varstring_length base_key_length)
     + (1 + varstring_length message_length)"

record PreKeyMessageWriter =
  pw_identity_key :: nat
  pw_base_key :: nat
  pw_prekey :: nat
  pw_one_time_key :: nat
  pw_message :: nat

record PreKeyMessageReader =
  pr_version :: u8
  pr_identity_key :: "nat option"
  pr_identity_key_length :: nat
  pr_base_key :: "nat option"
  pr_base_key_length :: nat
  pr_prekey :: "nat option"
  pr_prekey_length :: nat
  pr_one_time_key :: "nat option"
  pr_one_time_key_length :: nat
  pr_message :: "nat option"
  pr_message_length :: nat

definition encode_one_time_key_message ::
    "mem \<Rightarrow> u8 \<Rightarrow> nat \<Rightarrow> nat \<Rightarrow> nat \<Rightarrow> nat \<Rightarrow> nat \<Rightarrow> nat \<Rightarrow> mem \<times> PreKeyMessageWriter" where
  "encode_one_time_key_message m version identity_key_length base_key_length prekey_length
     one_time_key_length message_length output =
     (let pos = output;
          m = m(pos := version);
          pos = pos + 1;
          (m, pos, prekey) = encode_string m pos PREKEY_ID_TAG prekey_length;
          (m, pos, one_time_key) = encode_string m pos ONE_TIME_KEY_ID_TAG one_time_key_length;
          (m, pos, base_key) = encode_string m pos BASE_KEY_TAG base_key_length;
          (m, pos, identity_key) = encode_string m pos IDENTITY_KEY_TAG identity_key_length;
          (m, pos, message) = encode_string m pos MESSAGE_TAG message_length
      in (m, \<lparr>pw_identity_key = identity_key, pw_base_key = base_key, pw_prekey = prekey,
              pw_one_time_key = one_time_key, pw_message = message\<rparr>))"

definition one_time_key_message_fields ::
    "cursor \<Rightarrow> PreKeyMessageReader \<Rightarrow> cursor \<times> PreKeyMessageReader" where
  "one_time_key_message_fields pos reader =
     (let (pos, v, n) = decode_string pos PREKEY_ID_TAG
            (pr_prekey reader) (pr_prekey_length reader);
          reader = reader\<lparr>pr_prekey := v, pr_prekey_length := n\<rparr>;
          (pos, v, n) = decode_string pos ONE_TIME_KEY_ID_TAG
            (pr_one_time_key reader) (pr_one_time_key_length reader);
          reader = reader\<lparr>pr_one_time_key := v, pr_one_time_key_length := n\<rparr>;
          (pos, v, n) = decode_string pos BASE_KEY_TAG
            (pr_base_key reader) (pr_base_key_length reader);
          reader = reader\<lparr>pr_base_key := v, pr_base_key_length := n\<rparr>;
          (pos, v, n) = decode_string pos IDENTITY_KEY_TAG
            (pr_identity_key reader) (pr_identity_key_length reader);
          reader = reader\<lparr>pr_identity_key := v, pr_identity_key_length := n\<rparr>;
          (pos, v, n) = decode_string pos MESSAGE_TAG
            (pr_message reader) (pr_message_length reader);
          reader = reader\<lparr>pr_message := v, pr_message_length := n\<rparr>
      in (pos, reader))"

lemma reaches_one_time_key_message_fields: "reaches c (fst (one_time_key_message_fields c r))"
  unfolding one_time_key_message_fields_def Let_def
  by (auto split: prod.split)
    (metis fst_conv reaches_decode_string reaches_trans)

function decode_one_time_key_message_loop ::
    "cursor \<Rightarrow> PreKeyMessageReader \<Rightarrow> PreKeyMessageReader" where
  "decode_one_time_key_message_loop pos reader =
     (if \<not> at_end pos then
        let unknown = pos;
            (pos, reader) = one_time_key_message_fields pos reader;
            pos = (if fst unknown = fst pos then skip_unknown pos else pos)
        in decode_one_time_key_message_loop pos reader
      else reader)"
  by pat_completeness auto
termination
  by (relation "measure (\<lambda>(c, r). length (snd c))")
    (auto simp only: in_measure case_prod_conv wf_measure
      intro: field_pass_terminates reaches_one_time_key_message_fields)

declare decode_one_time_key_message_loop.simps [simp del]

definition decode_one_time_key_message :: "bytes \<Rightarrow> PreKeyMessageReader" where
  "decode_one_time_key_message input =
     (let reader = \<lparr>pr_version = 0, pr_identity_key = None, pr_identity_key_length = 0,
            pr_base_key = None, pr_base_key_length = 0, pr_prekey = None, pr_prekey_length = 0,
            pr_one_time_key = None, pr_one_time_key_length = 0,
            pr_message = None, pr_message_length = 0\<rparr>;
          pos = (0, input)
      in if at_end pos then reader
         else decode_one_time_key_message_loop (advance 1 pos)
                (reader\<lparr>pr_version := hd (snd pos)\<rparr>))"

section \<open>Group messages\<close>

definition GROUP_MESSAGE_INDEX_TAG :: u8 where "GROUP_MESSAGE_INDEX_TAG = 8"
definition GROUP_CIPHERTEXT_TAG :: u8 where "GROUP_CIPHERTEXT_TAG = 18"

definition olm_encode_group_message_length :: "u32 \<Rightarrow> nat \<Rightarrow> nat \<Rightarrow> nat \<Rightarrow> nat" where
  "olm_encode_group_message_length message_index ciphertext_length mac_length signature_length =
     VERSION_LENGTH
     + (1 + varint_length message_index)
     + (1 + varstring_length ciphertext_length)
     + mac_length
     + signature_length"

text \<open>Returns the memory, the length up to the MAC and the ciphertext pointer.\<close>

definition olm_encode_group_message ::
    "mem \<Rightarrow> u8 \<Rightarrow> u32 \<Rightarrow> nat \<Rightarrow> nat \<Rightarrow> mem \<times> nat \<times> nat" where
  "olm_encode_group_message m version message_index ciphertext_length output =
     (let pos = output;
          m = m(pos := version);
          pos = pos + 1;
          (m, pos) = encode_u32 m pos GROUP_MESSAGE_INDEX_TAG message_index;
          (m, pos, ciphertext_ptr) = encode_string m pos GROUP_CIPHERTEXT_TAG ciphertext_length
      in (m, pos - output, ciphertext_ptr))"

record OlmDecodeGroupMessageResults =
  gr_version :: u8
  gr_message_index :: u32
  gr_has_message_index :: bool
  gr_ciphertext :: "nat option"
  gr_ciphertext_length :: nat

text \<open>The code keeps the flag in a local variable and stores it behind the loop.\<close>

definition group_message_fields ::
    "cursor \<Rightarrow> OlmDecodeGroupMessageResults \<Rightarrow> bool
      \<Rightarrow> cursor \<times> OlmDecodeGroupMessageResults \<times> bool" where
  "group_message_fields pos results has_message_index =
     (let (pos, i, has_message_index) = decode_u32 pos GROUP_MESSAGE_INDEX_TAG
            (gr_message_index results) has_message_index;
          results = results\<lparr>gr_message_index := i\<rparr>;
          (pos, v, n) = decode_string pos GROUP_CIPHERTEXT_TAG
            (gr_ciphertext results) (gr_ciphertext_length results);
          results = results\<lparr>gr_ciphertext := v, gr_ciphertext_length := n\<rparr>
      in (pos, results, has_message_index))"

lemma reaches_group_message_fields: "reaches c (fst (group_message_fields c r h))"
  unfolding group_message_fields_def Let_def
  by (auto split: prod.split)
    (metis fst_conv reaches_decode_string reaches_decode_u32 reaches_trans)

function decode_group_message_loop ::
    "cursor \<Rightarrow> OlmDecodeGroupMessageResults \<Rightarrow> bool
      \<Rightarrow> OlmDecodeGroupMessageResults \<times> bool" where
  "decode_group_message_loop pos results has_message_index =
     (if \<not> at_end pos then
        let unknown = pos;
            (pos, results, has_message_index) = group_message_fields pos results has_message_index;
            pos = (if fst unknown = fst pos then skip_unknown pos else pos)
        in decode_group_message_loop pos results has_message_index
      else (results, has_message_index))"
  by pat_completeness auto
termination
  by (relation "measure (\<lambda>(c, r, h). length (snd c))")
    (auto simp only: in_measure case_prod_conv wf_measure
      intro: field_pass_terminates reaches_group_message_fields)

declare decode_group_message_loop.simps [simp del]

definition olm_decode_group_message ::
    "bytes \<Rightarrow> nat \<Rightarrow> nat \<Rightarrow> OlmDecodeGroupMessageResults" where
  "olm_decode_group_message input mac_length signature_length =
     (let trailer_length = mac_length + signature_length;
          results = \<lparr>gr_version = 0, gr_message_index = 0, gr_has_message_index = False,
            gr_ciphertext = None, gr_ciphertext_length = 0\<rparr>;
          pos = (0, take (length input - trailer_length) input)
      in if length input < trailer_length then results
         else if at_end pos then results
         else
           let (results, has_message_index) =
                 decode_group_message_loop (advance 1 pos)
                   (results\<lparr>gr_version := hd (snd pos)\<rparr>) False
           in results\<lparr>gr_has_message_index := has_message_index\<rparr>)"

end
