(* ===== verification/MessageFormat.thy ===== *)
theory MessageFormat
  imports Message
begin

text \<open>
  The wire format of \<open>src/message.cpp\<close> as byte strings, and the proofs that the encoders
  write it and the decoders read it back; a decoder never points outside its input.
\<close>

section \<open>Variable length integers\<close>

function varint_bytes :: "'a::len word \<Rightarrow> bytes" where
  "varint_bytes value =
     (if unat value \<ge> 128 then ((0x7F AND ucast value) OR 0x80) # varint_bytes (drop_bit 7 value)
      else [ucast value])"
  by pat_completeness auto
termination by (relation "measure unat") (auto intro: drop_bit_7_less)

declare varint_bytes.simps [simp del]

lemma length_varint_bytes [simp, len_simps]: "length (varint_bytes v) = varint_length v"
  by (induction v rule: varint_bytes.induct)
    (subst varint_bytes.simps, subst varint_length.simps, simp)

lemma varint_length_pos [simp]: "0 < varint_length v"
  by (subst varint_length.simps) simp

lemma varint_length_le: "unat v < 128 ^ Suc k \<Longrightarrow> varint_length v \<le> Suc k"
proof (induction k arbitrary: v)
  case 0
  then show ?case by (subst varint_length.simps) simp
next
  case (Suc k)
  have "unat v div 128 < 128 ^ Suc k" using Suc.prems by (intro less_mult_imp_div_less) simp
  then have "unat (drop_bit 7 v) < 128 ^ Suc k" by (simp add: unat_drop_bit_eq) (simp add: drop_bit_eq_div)
  from Suc.IH [OF this] show ?case by (subst varint_length.simps) simp
qed

lemma varint_length_bounds:
  "varint_length (v :: u32) \<le> 5" "varint_length (w :: u64) \<le> 10"
proof -
  have "unat v < 128 ^ Suc 4" using unsigned_less [of v, where ?'a = nat] by simp
  then show "varint_length v \<le> 5" using varint_length_le [of v 4] by simp
  have "unat w < 128 ^ Suc 9" using unsigned_less [of w, where ?'a = nat] by simp
  then show "varint_length w \<le> 10" using varint_length_le [of w 9] by simp
qed

lemma varint_encode_eq: "varint_encode m p v = (store m p (varint_bytes v), p + varint_length v)"
proof (induction m p v rule: varint_encode.induct)
  case (1 m p v)
  show ?case
  proof (cases "unat v \<ge> 128")
    case True
    then have "varint_bytes v = [(0x7F AND ucast v) OR 0x80] @ varint_bytes (drop_bit 7 v)"
      "varint_length v = Suc (varint_length (drop_bit 7 v))"
      by (simp_all add: varint_bytes.simps [of v] varint_length.simps [of v])
    then show ?thesis
      using 1 [OF True] True store_store_append [of m p "[(0x7F AND ucast v) OR 0x80]"]
      by (simp add: varint_encode.simps [of m p v] fun_upd_as_store del: fun_upd_apply)
  qed (simp add: varint_encode.simps [of m p v] varint_bytes.simps [of v] varint_length.simps [of v]
        fun_upd_as_store del: fun_upd_apply)
qed

lemma bit_below_128: "unat (v :: 'a::len word) < 128 \<Longrightarrow> bit v n \<Longrightarrow> n < 7"
proof (rule ccontr)
  assume "unat v < 128" "bit v n" "\<not> n < 7"
  then have "bit (unat v) n" by (simp add: bit_unsigned_iff)
  moreover have "unat v < 2 ^ n"
    using \<open>unat v < 128\<close> power_increasing [of 7 n "2 :: nat"] \<open>\<not> n < 7\<close> by simp
  ultimately show False by (simp add: bit_iff_odd)
qed

lemma mask_0x7F: "(0x7F :: u8) = mask 7"
  by (simp add: mask_eq_exp_minus_1)

text \<open>The simplifier reads the bits of a word numeral off the integer.\<close>

lemma bit_0x80: "bit (0x80 :: int) n = (n = 7)"
proof -
  have "(0x80 :: int) = push_bit 7 1" by simp
  then show ?thesis by (simp only: bit_push_bit_iff) (auto simp: bit_simps)
qed

lemma msb_set: "((0x7F AND x) OR 0x80 :: u8) AND 0x80 \<noteq> 0"
proof
  assume "((0x7F AND x) OR 0x80 :: u8) AND 0x80 = 0"
  moreover have "bit (((0x7F AND x) OR 0x80 :: u8) AND 0x80) 7" by (simp add: bit_simps bit_0x80)
  ultimately show False by simp
qed

lemma msb_clear: "unat (v :: 'a::len word) < 128 \<Longrightarrow> (ucast v :: u8) AND 0x80 = 0"
  by (rule bit_word_eqI) (auto simp: bit_simps bit_0x80 dest: bit_below_128)

lemma varint_skip_bytes: "varint_skip (p, varint_bytes v @ rest) = (p + varint_length v, rest)"
proof (induction v arbitrary: p rule: varint_bytes.induct)
  case (1 v)
  then show ?case
    by (subst varint_bytes.simps, subst varint_length.simps) (auto simp: msb_set msb_clear not_le)
qed

lemma varint_decode_loop_append:
  "varint_decode_loop v (xs @ ys) = varint_decode_loop (varint_decode_loop v xs) ys"
  by (induction xs arbitrary: v) simp_all

lemma varint_decode_Cons:
  "varint_decode (b # bs) = push_bit 7 (varint_decode bs) OR ucast (0x7F AND b)"
  by (simp add: varint_decode_def varint_decode_loop_append)

lemma varint_decode_bytes:
  assumes "8 \<le> LENGTH('a::len)"
  shows "varint_decode (varint_bytes v) = (v :: 'a word)"
proof (induction v rule: varint_bytes.induct)
  case (1 v)
  show ?case
  proof (cases "unat v \<ge> 128")
    case True
    have "push_bit 7 (drop_bit 7 v) OR ucast (0x7F AND (0x7F AND ucast v OR 0x80 :: u8)) = v"
    proof (rule bit_word_eqI)
      fix n assume "n < LENGTH('a)"
      show "bit (push_bit 7 (drop_bit 7 v) OR ucast (0x7F AND (0x7F AND ucast v OR 0x80 :: u8))) n = bit v n"
      proof (cases "n < 7")
        case False
        then obtain k where "n = 7 + k" using le_Suc_ex by (metis not_less)
        then show ?thesis using \<open>n < LENGTH('a)\<close> by (simp add: bit_simps mask_0x7F)
      qed (use assms in \<open>simp add: bit_simps mask_0x7F bit_0x80\<close>)
    qed
    with True show ?thesis
      by (simp add: varint_bytes.simps [of v] varint_decode_Cons 1)
  next
    case False
    then have "ucast (0x7F AND (ucast v :: u8)) = v"
      using assms by (intro bit_word_eqI)
        (auto simp: bit_simps mask_0x7F dest: bit_below_128 [rotated])
    with False show ?thesis
      by (simp add: varint_bytes.simps [of v] varint_decode_Cons) (simp add: varint_decode_def)
  qed
qed

section \<open>Fields\<close>

definition len_bytes :: "nat \<Rightarrow> bytes" where
  "len_bytes n = varint_bytes (of_nat n :: u64)"

definition u32_field :: "u8 \<Rightarrow> u32 \<Rightarrow> bytes" where
  "u32_field tag v = tag # varint_bytes v"

definition string_header :: "u8 \<Rightarrow> nat \<Rightarrow> bytes" where
  "string_header tag n = tag # len_bytes n"

definition string_field :: "u8 \<Rightarrow> bytes \<Rightarrow> bytes" where
  "string_field tag s = string_header tag (length s) @ s"

lemma length_fields [simp, len_simps]:
  "length (u32_field tag v) = 1 + varint_length v"
  "length (string_header tag n) = 1 + varint_length (of_nat n :: u64)"
  "length (string_field tag s) = 1 + varstring_length (length s)"
  by (simp_all add: u32_field_def string_header_def len_bytes_def string_field_def varstring_length_def)

lemma encode_u32_eq:
  "encode_u32 m p tag v = (store m p (u32_field tag v), p + length (u32_field tag v))"
  using store_store_append [of m p "[tag]" "varint_bytes v"]
  by (simp add: encode_u32_def varint_encode_eq u32_field_def fun_upd_as_store del: fun_upd_apply)

lemma encode_string_eq:
  "encode_string m p tag n =
     (store m p (string_header tag n), p + length (string_header tag n) + n,
      p + length (string_header tag n))"
  using store_store_append [of m p "[tag]" "len_bytes n"]
  by (simp add: encode_string_def varint_encode_eq string_header_def len_bytes_def fun_upd_as_store
      del: fun_upd_apply)

lemma decode_u32_field:
  "decode_u32 (p, u32_field tag v @ rest) tag old h = ((p + length (u32_field tag v), rest), v, True)"
  using varint_decode_bytes [of v]
  by (simp add: decode_u32_def u32_field_def at_end_def varint_skip_bytes between_def Let_def)

lemma decode_u32_other:
  "\<not> (\<exists>r. rest = tag # r) \<Longrightarrow> decode_u32 (p, rest) tag old h = ((p, rest), old, h)"
  by (cases rest) (auto simp: decode_u32_def at_end_def)

lemma decode_string_field:
  assumes "length s < 2 ^ 64"
  shows "decode_string (p, string_field tag s @ rest) tag old l =
    ((p + length (string_field tag s), rest),
     Some (p + length (string_header tag (length s))), length s)"
  using varint_decode_bytes [of "of_nat (length s) :: u64"] assms
  by (simp add: decode_string_def string_field_def string_header_def len_bytes_def at_end_def
      varint_skip_bytes between_def Let_def unat_of_nat varstring_length_def)

lemma decode_string_other:
  "\<not> (\<exists>r. rest = tag # r) \<Longrightarrow> decode_string (p, rest) tag old l = ((p, rest), old, l)"
  by (cases rest) (auto simp: decode_string_def at_end_def)

section \<open>The messages\<close>

text \<open>A header is the message up to the contents of its last field.\<close>

definition message_header :: "u8 \<Rightarrow> bytes \<Rightarrow> u32 \<Rightarrow> nat \<Rightarrow> bytes" where
  "message_header version ratchet_key counter ciphertext_length =
     version # string_field RATCHET_KEY_TAG ratchet_key @ u32_field COUNTER_TAG counter
       @ string_header CIPHERTEXT_TAG ciphertext_length"

definition group_message_header :: "u8 \<Rightarrow> u32 \<Rightarrow> nat \<Rightarrow> bytes" where
  "group_message_header version message_index ciphertext_length =
     version # u32_field GROUP_MESSAGE_INDEX_TAG message_index
       @ string_header GROUP_CIPHERTEXT_TAG ciphertext_length"

definition pre_key_message_header :: "u8 \<Rightarrow> bytes \<Rightarrow> bytes \<Rightarrow> bytes \<Rightarrow> bytes \<Rightarrow> nat \<Rightarrow> bytes" where
  "pre_key_message_header version prekey one_time_key base_key identity_key message_length =
     version # string_field PREKEY_ID_TAG prekey @ string_field ONE_TIME_KEY_ID_TAG one_time_key
       @ string_field BASE_KEY_TAG base_key @ string_field IDENTITY_KEY_TAG identity_key
       @ string_header MESSAGE_TAG message_length"

lemma encode_message_length_eq:
  "encode_message_length counter (length rk) n mac_length =
     length (message_header version rk counter n) + n + mac_length"
  by (simp add: encode_message_length_def message_header_def VERSION_LENGTH_def varstring_length_def)

lemma encode_group_message_length_eq:
  "olm_encode_group_message_length index n mac_length signature_length =
     length (group_message_header version index n) + n + mac_length + signature_length"
  by (simp add: olm_encode_group_message_length_def group_message_header_def VERSION_LENGTH_def
      varstring_length_def)

lemma encode_pre_key_message_length_eq:
  "encode_one_time_key_message_length (length pk) (length ik) (length bk) (length otk) n =
     length (pre_key_message_header version pk otk bk ik n) + n"
  by (simp add: encode_one_time_key_message_length_def pre_key_message_header_def VERSION_LENGTH_def
      varstring_length_def)

lemma encode_group_message_eq:
  "olm_encode_group_message m version index n out =
     (store m out (group_message_header version index n),
      length (group_message_header version index n) + n,
      out + length (group_message_header version index n))"
  using store_store_append [of m out "[version]" "u32_field GROUP_MESSAGE_INDEX_TAG index"]
    store_store_append [of m out "version # u32_field GROUP_MESSAGE_INDEX_TAG index"
      "string_header GROUP_CIPHERTEXT_TAG n"]
  by (simp add: olm_encode_group_message_def encode_u32_eq encode_string_eq group_message_header_def
      fun_upd_as_store del: fun_upd_apply)

text \<open>A gap left in a buffer and filled later.\<close>

lemma fill_gap:
  assumes "q = p + length a" "r = q + length s"
  shows "store (store (store m p a) r b) q s = store m p (a @ s @ b)"
  using assms store_swap [of r b q s "store m p a"]
  by (simp add: store_store_append [symmetric])

lemma encode_message_eq:
  assumes "encode_message m version counter (length rk) n out = (m', w)"
  shows "store m' (mw_ratchet_key w) rk = store m out (message_header version rk counter n)"
    and "mw_ciphertext w = out + length (message_header version rk counter n)"
    and "unchanged_outside out (length (message_header version rk counter n)) m m'"
    and "mw_ratchet_key w = out + 1 + length (string_header RATCHET_KEY_TAG (length rk))"
proof -
  let ?a = "version # string_header RATCHET_KEY_TAG (length rk)"
  let ?b = "u32_field COUNTER_TAG counter @ string_header CIPHERTEXT_TAG n"
  have m': "m' = store (store m out ?a) (out + length ?a + length rk) ?b"
    and w: "mw_ratchet_key w = out + length ?a"
      "mw_ciphertext w = out + length ?a + length rk + length ?b"
    using assms store_store_append [of m out "[version]" "string_header RATCHET_KEY_TAG (length rk)"]
      store_store_append [of "store m out ?a" "out + length ?a + length rk" "u32_field COUNTER_TAG counter"]
    by (auto simp: encode_message_def encode_u32_eq encode_string_eq fun_upd_as_store add.assoc
        simp del: fun_upd_apply)
  show "store m' (mw_ratchet_key w) rk = store m out (message_header version rk counter n)"
    unfolding m' w by (subst fill_gap) (simp_all add: message_header_def string_field_def)
  show "mw_ratchet_key w = out + 1 + length (string_header RATCHET_KEY_TAG (length rk))"
    unfolding w by simp
  show "mw_ciphertext w = out + length (message_header version rk counter n)"
    unfolding w by (simp add: message_header_def string_field_def)
  show "unchanged_outside out (length (message_header version rk counter n)) m m'"
    unfolding m' by (intro unchanged_outside_trans [OF unchanged_outside_store unchanged_outside_store])
      (simp_all add: message_header_def varstring_length_def)
qed

text \<open>The four keys of a pre-key message may be filled in one after the other.\<close>

lemma fill_gap_before:
  assumes "r + length s \<le> q"
  shows "store (store m q b) r s = store (store m r s) q b"
  using assms by (intro store_swap) auto

lemma encode_pre_key_message_eq:
  assumes "encode_one_time_key_message m version (length ik) (length bk) (length pk) (length otk) n out
      = (m', w)"
  shows "store (store (store (store m' (pw_prekey w) pk) (pw_one_time_key w) otk) (pw_base_key w) bk)
      (pw_identity_key w) ik = store m out (pre_key_message_header version pk otk bk ik n)"
    and "pw_message w = out + length (pre_key_message_header version pk otk bk ik n)"
    and "pw_prekey w = out + 1 + length (string_header PREKEY_ID_TAG (length pk))"
    and "pw_one_time_key w = pw_prekey w + length pk + length (string_header ONE_TIME_KEY_ID_TAG (length otk))"
    and "pw_base_key w = pw_one_time_key w + length otk + length (string_header BASE_KEY_TAG (length bk))"
    and "pw_identity_key w = pw_base_key w + length bk + length (string_header IDENTITY_KEY_TAG (length ik))"
proof -
  let ?h1 = "version # string_header PREKEY_ID_TAG (length pk)"
  let ?h2 = "string_header ONE_TIME_KEY_ID_TAG (length otk)"
  let ?h3 = "string_header BASE_KEY_TAG (length bk)"
  let ?h4 = "string_header IDENTITY_KEY_TAG (length ik)"
  let ?h5 = "string_header MESSAGE_TAG n"
  define p1 where "p1 = out + length ?h1"
  define q1 where "q1 = p1 + length pk"
  define p2 where "p2 = q1 + length ?h2"
  define q2 where "q2 = p2 + length otk"
  define p3 where "p3 = q2 + length ?h3"
  define q3 where "q3 = p3 + length bk"
  define p4 where "p4 = q3 + length ?h4"
  define q4 where "q4 = p4 + length ik"
  note pos = p1_def q1_def p2_def q2_def p3_def q3_def p4_def q4_def
  have m': "m' = store (store (store (store (store m out ?h1) q1 ?h2) q2 ?h3) q3 ?h4) q4 ?h5"
    and w: "pw_prekey w = p1" "pw_one_time_key w = p2" "pw_base_key w = p3"
      "pw_identity_key w = p4" "pw_message w = q4 + length ?h5"
    using assms store_store_append [of m out "[version]" "string_header PREKEY_ID_TAG (length pk)"]
    by (auto simp: encode_one_time_key_message_def encode_string_eq fun_upd_as_store pos add.assoc
        simp del: fun_upd_apply)
  let ?f2 = "store (store m out (?h1 @ pk)) q1 (?h2 @ otk)"
  have "store (store m out ?h1) p1 pk = store m out (?h1 @ pk)"
    unfolding p1_def by (rule store_store_append)
  moreover have "store (store M q1 ?h2) p2 otk = store M q1 (?h2 @ otk)" for M
    unfolding p2_def by (rule store_store_append)
  moreover have "store (store M q2 ?h3) p3 bk = store M q2 (?h3 @ bk)" for M
    unfolding p3_def by (rule store_store_append)
  moreover have "store (store M q3 ?h4) p4 ik = store M q3 (?h4 @ ik)" for M
    unfolding p4_def by (rule store_store_append)
  moreover have "store (store M q h) p1 pk = store (store M p1 pk) q h" if "q1 \<le> q" for M q h
    using that by (intro fill_gap_before) (simp add: q1_def)
  moreover have "store (store M q h) p2 otk = store (store M p2 otk) q h" if "q2 \<le> q" for M q h
    using that by (intro fill_gap_before) (simp add: q2_def)
  moreover have "store (store M q h) p3 bk = store (store M p3 bk) q h" if "q3 \<le> q" for M q h
    using that by (intro fill_gap_before) (simp add: q3_def)
  moreover have "store (store M q h) p4 ik = store (store M p4 ik) q h" if "q4 \<le> q" for M q h
    using that by (intro fill_gap_before) (simp add: q4_def)
  moreover have "q1 \<le> q2 \<and> q2 \<le> q3 \<and> q3 \<le> q4 \<and> q1 \<le> q3 \<and> q1 \<le> q4 \<and> q2 \<le> q4"
    by (simp add: pos)
  ultimately have "store (store (store (store m' p1 pk) p2 otk) p3 bk) p4 ik =
      store (store (store (store (store m out (?h1 @ pk)) q1 (?h2 @ otk)) q2 (?h3 @ bk)) q3 (?h4 @ ik)) q4 ?h5"
    unfolding m' by simp
  also have "\<dots> = store m out (pre_key_message_header version pk otk bk ik n)"
    using store_store_append [of m out "?h1 @ pk"]
      store_store_append [of m out "?h1 @ pk @ ?h2 @ otk"]
      store_store_append [of m out "?h1 @ pk @ ?h2 @ otk @ ?h3 @ bk"]
      store_store_append [of m out "?h1 @ pk @ ?h2 @ otk @ ?h3 @ bk @ ?h4 @ ik"]
    by (simp add: pos pre_key_message_header_def string_field_def add.assoc)
  finally show "store (store (store (store m' (pw_prekey w) pk) (pw_one_time_key w) otk)
      (pw_base_key w) bk) (pw_identity_key w) ik
      = store m out (pre_key_message_header version pk otk bk ik n)"
    unfolding w .
  show "pw_prekey w = out + 1 + length (string_header PREKEY_ID_TAG (length pk))"
    "pw_one_time_key w = pw_prekey w + length pk + length (string_header ONE_TIME_KEY_ID_TAG (length otk))"
    "pw_base_key w = pw_one_time_key w + length otk + length (string_header BASE_KEY_TAG (length bk))"
    "pw_identity_key w = pw_base_key w + length bk + length (string_header IDENTITY_KEY_TAG (length ik))"
    unfolding w by (simp_all add: pos)
  show "pw_message w = out + length (pre_key_message_header version pk otk bk ik n)"
    unfolding w by (simp add: pos pre_key_message_header_def string_field_def)
qed

section \<open>Decoding what was encoded\<close>

lemmas message_tags = RATCHET_KEY_TAG_def COUNTER_TAG_def CIPHERTEXT_TAG_def
  ONE_TIME_KEY_ID_TAG_def PREKEY_ID_TAG_def BASE_KEY_TAG_def IDENTITY_KEY_TAG_def MESSAGE_TAG_def
  GROUP_MESSAGE_INDEX_TAG_def GROUP_CIPHERTEXT_TAG_def

lemma decode_last_field:
  "length s < 2 ^ 64 \<Longrightarrow>
     decode_string (p, string_header tag (length s) @ s) tag old l =
       ((p + length (string_header tag (length s)) + length s, []),
        Some (p + length (string_header tag (length s))), length s)"
  using decode_string_field [of s p tag "[]" old l]
  by (simp add: string_field_def varstring_length_def)

lemma at_end_Nil [simp]: "at_end (p, [])"
  by (simp add: at_end_def)

lemma not_at_end_field [simp]:
  "\<not> at_end (p, x # xs)" "\<not> at_end (p, string_field tag s @ r)" "\<not> at_end (p, u32_field tag v @ r)"
  by (simp_all add: at_end_def string_field_def string_header_def u32_field_def)

lemma decode_message_encoded:
  assumes "length rk < 2 ^ 64" "length ct < 2 ^ 64" "length mac = mac_length"
  shows "decode_message (message_header version rk counter (length ct) @ ct @ mac) mac_length =
    \<lparr>mr_version = version, mr_has_counter = True, mr_counter = counter,
     mr_input_length = length (message_header version rk counter (length ct) @ ct @ mac),
     mr_ratchet_key = Some (1 + length (string_header RATCHET_KEY_TAG (length rk))),
     mr_ratchet_key_length = length rk,
     mr_ciphertext = Some (length (message_header version rk counter (length ct))),
     mr_ciphertext_length = length ct\<rparr>"
proof -
  let ?body = "message_header version rk counter (length ct) @ ct"
  have body: "take (length (?body @ mac) - mac_length) (?body @ mac) = ?body"
    using assms(3) by simp
  have loop: "decode_message_loop (Suc 0, string_field RATCHET_KEY_TAG rk @ u32_field COUNTER_TAG counter
        @ string_header CIPHERTEXT_TAG (length ct) @ ct) r =
      r\<lparr>mr_has_counter := True, mr_counter := counter,
        mr_ratchet_key := Some (1 + length (string_header RATCHET_KEY_TAG (length rk))),
        mr_ratchet_key_length := length rk,
        mr_ciphertext := Some (length (message_header version rk counter (length ct))),
        mr_ciphertext_length := length ct\<rparr>" for r
    by (subst decode_message_loop.simps)
      (simp add: message_fields_def decode_string_field [OF assms(1)] decode_u32_field
        decode_last_field [OF assms(2)]
        message_header_def add.assoc decode_message_loop.simps [of "(_, [])"])
  show ?thesis
    using loop body assms(3)
    by (simp add: decode_message_def message_header_def Let_def)
qed

lemma decode_group_message_encoded:
  assumes "length ct < 2 ^ 64" "length trailer = mac_length + signature_length"
  shows "olm_decode_group_message
      (group_message_header version index (length ct) @ ct @ trailer) mac_length signature_length =
    \<lparr>gr_version = version, gr_message_index = index, gr_has_message_index = True,
     gr_ciphertext = Some (length (group_message_header version index (length ct))),
     gr_ciphertext_length = length ct\<rparr>"
proof -
  let ?body = "group_message_header version index (length ct) @ ct"
  have body: "take (length (?body @ trailer) - (mac_length + signature_length)) (?body @ trailer) = ?body"
    using assms(2) by simp
  have loop: "decode_group_message_loop (Suc 0, u32_field GROUP_MESSAGE_INDEX_TAG index
        @ string_header GROUP_CIPHERTEXT_TAG (length ct) @ ct) r h =
      (r\<lparr>gr_message_index := index,
        gr_ciphertext := Some (length (group_message_header version index (length ct))),
        gr_ciphertext_length := length ct\<rparr>, True)" for r h
    by (subst decode_group_message_loop.simps)
      (simp add: group_message_fields_def decode_u32_field decode_last_field [OF assms(1)]
        group_message_header_def add.assoc decode_group_message_loop.simps [of "(_, [])"])
  show ?thesis
    using loop body assms(2)
    by (simp add: olm_decode_group_message_def group_message_header_def Let_def)
qed

lemma decode_pre_key_message_encoded:
  assumes "length pk < 2 ^ 64" "length otk < 2 ^ 64" "length bk < 2 ^ 64" "length ik < 2 ^ 64"
    "length msg < 2 ^ 64"
  defines "hd1 \<equiv> 1 + length (string_header PREKEY_ID_TAG (length pk))"
  defines "hd2 \<equiv> hd1 + length pk + length (string_header ONE_TIME_KEY_ID_TAG (length otk))"
  defines "hd3 \<equiv> hd2 + length otk + length (string_header BASE_KEY_TAG (length bk))"
  defines "hd4 \<equiv> hd3 + length bk + length (string_header IDENTITY_KEY_TAG (length ik))"
  shows "decode_one_time_key_message (pre_key_message_header version pk otk bk ik (length msg) @ msg) =
    \<lparr>pr_version = version,
     pr_identity_key = Some hd4, pr_identity_key_length = length ik,
     pr_base_key = Some hd3, pr_base_key_length = length bk,
     pr_prekey = Some hd1, pr_prekey_length = length pk,
     pr_one_time_key = Some hd2, pr_one_time_key_length = length otk,
     pr_message = Some (length (pre_key_message_header version pk otk bk ik (length msg))),
     pr_message_length = length msg\<rparr>"
proof -
  have loop: "decode_one_time_key_message_loop (Suc 0, string_field PREKEY_ID_TAG pk
        @ string_field ONE_TIME_KEY_ID_TAG otk @ string_field BASE_KEY_TAG bk
        @ string_field IDENTITY_KEY_TAG ik @ string_header MESSAGE_TAG (length msg) @ msg) r =
      r\<lparr>pr_identity_key := Some hd4, pr_identity_key_length := length ik,
        pr_base_key := Some hd3, pr_base_key_length := length bk,
        pr_prekey := Some hd1, pr_prekey_length := length pk,
        pr_one_time_key := Some hd2, pr_one_time_key_length := length otk,
        pr_message := Some (length (pre_key_message_header version pk otk bk ik (length msg))),
        pr_message_length := length msg\<rparr>" for r
    by (subst decode_one_time_key_message_loop.simps)
      (simp add: one_time_key_message_fields_def decode_string_field [OF assms(1)]
        decode_string_field [OF assms(2)] decode_string_field [OF assms(3)]
        decode_string_field [OF assms(4)] decode_last_field [OF assms(5)]
        pre_key_message_header_def varstring_length_def hd1_def hd2_def hd3_def hd4_def
        decode_one_time_key_message_loop.simps [of "(_, [])"])
  show ?thesis
    using loop
    by (simp add: decode_one_time_key_message_def pre_key_message_header_def Let_def)
qed

section \<open>Pointers stay inside the input\<close>

text \<open>\<open>inside n p l\<close>: the \<open>l\<close> bytes at a pointer that is not null lie in the first \<open>n\<close>.\<close>

definition inside :: "nat \<Rightarrow> nat option \<Rightarrow> nat \<Rightarrow> bool" where
  "inside n p l = (case p of None \<Rightarrow> l = 0 | Some off \<Rightarrow> off + l \<le> n)"

lemma inside_None [simp]: "inside n None 0"
  by (simp add: inside_def)

definition limit :: "cursor \<Rightarrow> nat" where
  "limit c = fst c + length (snd c)"

lemma limit_reaches: "reaches c c' \<Longrightarrow> limit c' = limit c"
  by (simp add: limit_def reaches_end_const)

lemma decode_string_inside:
  assumes "decode_string c tag v l = (c', v', l')" "inside (limit c) v l"
  shows "inside (limit c) v' l' \<and> limit c' = limit c"
proof -
  have c': "limit c' = limit c"
    using limit_reaches [OF reaches_decode_string [of c tag v l]] assms(1) by simp
  show ?thesis
  proof (cases "\<not> at_end c \<and> hd (snd c) = tag")
    case True
    then have "limit (varint_skip (advance 1 c)) = limit c"
      by (intro limit_reaches reaches_trans [OF reaches_advance reaches_varint_skip])
        (auto simp: at_end_def Suc_le_eq)
    with True assms c' show ?thesis
      by (auto simp: decode_string_def Let_def inside_def limit_def split: if_splits)
  next
    case False
    then have "decode_string c tag v l = (c, v, l)" by (auto simp: decode_string_def)
    with assms show ?thesis by simp
  qed
qed

lemma limit_decode_u32: "decode_u32 c tag v h = (c', v', h') \<Longrightarrow> limit c' = limit c"
  using limit_reaches [OF reaches_decode_u32 [of c tag v h]] by simp

lemma limit_skip_unknown: "limit (skip_unknown c) = limit c"
  by (rule limit_reaches [OF reaches_skip_unknown])

definition reader_inside :: "nat \<Rightarrow> MessageReader \<Rightarrow> bool" where
  "reader_inside n r \<longleftrightarrow>
     inside n (mr_ratchet_key r) (mr_ratchet_key_length r) \<and>
     inside n (mr_ciphertext r) (mr_ciphertext_length r)"

definition pre_key_reader_inside :: "nat \<Rightarrow> PreKeyMessageReader \<Rightarrow> bool" where
  "pre_key_reader_inside n r \<longleftrightarrow>
     inside n (pr_identity_key r) (pr_identity_key_length r) \<and>
     inside n (pr_base_key r) (pr_base_key_length r) \<and>
     inside n (pr_prekey r) (pr_prekey_length r) \<and>
     inside n (pr_one_time_key r) (pr_one_time_key_length r) \<and>
     inside n (pr_message r) (pr_message_length r)"

definition group_results_inside :: "nat \<Rightarrow> OlmDecodeGroupMessageResults \<Rightarrow> bool" where
  "group_results_inside n r \<longleftrightarrow> inside n (gr_ciphertext r) (gr_ciphertext_length r)"

lemma message_fields_inside:
  "message_fields c r = (c', r') \<Longrightarrow> reader_inside (limit c) r \<Longrightarrow>
     reader_inside (limit c) r' \<and> limit c' = limit c"
  by (auto simp: message_fields_def reader_inside_def split: prod.splits
      dest!: decode_string_inside limit_decode_u32)

lemma decode_message_loop_inside:
  "reader_inside (limit c) r \<Longrightarrow> reader_inside (limit c) (decode_message_loop c r)"
proof (induction "length (snd c)" arbitrary: c r rule: less_induct)
  case less
  obtain c' r' where f: "message_fields c r = (c', r')" by fastforce
  let ?c = "if fst c = fst c' then skip_unknown c' else c'"
  note step = message_fields_inside [OF f less.prems]
  have r: "reaches c (fst (message_fields c r))" by (rule reaches_message_fields)
  from step have "limit ?c = limit c" by (simp add: limit_skip_unknown)
  with step less.hyps [of ?c] f field_pass_terminates [OF _ f [symmetric] r] less.prems
  show ?case
    by (subst decode_message_loop.simps) (simp add: f)
qed

lemma pre_key_fields_inside:
  "one_time_key_message_fields c r = (c', r') \<Longrightarrow> pre_key_reader_inside (limit c) r \<Longrightarrow>
     pre_key_reader_inside (limit c) r' \<and> limit c' = limit c"
  by (auto simp: one_time_key_message_fields_def pre_key_reader_inside_def split: prod.splits
      dest!: decode_string_inside)

lemma decode_pre_key_loop_inside:
  "pre_key_reader_inside (limit c) r \<Longrightarrow>
     pre_key_reader_inside (limit c) (decode_one_time_key_message_loop c r)"
proof (induction "length (snd c)" arbitrary: c r rule: less_induct)
  case less
  obtain c' r' where f: "one_time_key_message_fields c r = (c', r')" by fastforce
  let ?c = "if fst c = fst c' then skip_unknown c' else c'"
  note step = pre_key_fields_inside [OF f less.prems]
  have r: "reaches c (fst (one_time_key_message_fields c r))" by (rule reaches_one_time_key_message_fields)
  from step have "limit ?c = limit c" by (simp add: limit_skip_unknown)
  with step less.hyps [of ?c] f field_pass_terminates [OF _ f [symmetric] r] less.prems
  show ?case
    by (subst decode_one_time_key_message_loop.simps) (simp add: f)
qed

lemma group_fields_inside:
  "group_message_fields c r h = (c', r', h') \<Longrightarrow> group_results_inside (limit c) r \<Longrightarrow>
     group_results_inside (limit c) r' \<and> limit c' = limit c"
  by (auto simp: group_message_fields_def group_results_inside_def split: prod.splits
      dest!: decode_string_inside limit_decode_u32)

lemma decode_group_loop_inside:
  "group_results_inside (limit c) r \<Longrightarrow>
     group_results_inside (limit c) (fst (decode_group_message_loop c r h))"
proof (induction "length (snd c)" arbitrary: c r h rule: less_induct)
  case less
  obtain c' r' h' where f: "group_message_fields c r h = (c', r', h')" by (metis prod_cases3)
  let ?c = "if fst c = fst c' then skip_unknown c' else c'"
  note step = group_fields_inside [OF f less.prems]
  have r: "reaches c (fst (group_message_fields c r h))" by (rule reaches_group_message_fields)
  from step have "limit ?c = limit c" by (simp add: limit_skip_unknown)
  with step less.hyps [of ?c] f field_pass_terminates [OF _ f [symmetric] r] less.prems
  show ?case
    by (subst decode_group_message_loop.simps) (simp add: f)
qed

lemma limit_behind_version:
  "bs \<noteq> [] \<Longrightarrow> limit (advance 1 (0, bs)) = length bs"
  by (cases bs) (auto simp: limit_def)

lemma decode_message_inside: "reader_inside (length input - mac_length) (decode_message input mac_length)"
proof (cases "length input \<le> mac_length")
  case False
  then have ne: "take (length input - mac_length) input \<noteq> []" by auto
  show ?thesis
    using False limit_behind_version [OF ne]
      decode_message_loop_inside [of "advance 1 (0, take (length input - mac_length) input)"]
    by (auto simp: decode_message_def Let_def at_end_def reader_inside_def)
qed (auto simp: decode_message_def Let_def at_end_def reader_inside_def)

lemma decode_group_message_inside:
  "group_results_inside (length input - (mac_length + signature_length))
     (olm_decode_group_message input mac_length signature_length)"
proof (cases "length input \<le> mac_length + signature_length")
  case False
  let ?n = "length input - (mac_length + signature_length)"
  have ne: "take ?n input \<noteq> []" using False by auto
  show ?thesis
    using False limit_behind_version [OF ne] decode_group_loop_inside [of "advance 1 (0, take ?n input)"]
    by (auto simp: olm_decode_group_message_def Let_def at_end_def group_results_inside_def
        split: prod.split) (metis fst_conv inside_None OlmDecodeGroupMessageResults.select_convs)+
qed (auto simp: olm_decode_group_message_def Let_def at_end_def group_results_inside_def)

lemma decode_pre_key_message_inside:
  "pre_key_reader_inside (length input) (decode_one_time_key_message input)"
proof (cases "input = []")
  case False
  show ?thesis
    using False limit_behind_version [OF False] decode_pre_key_loop_inside [of "advance 1 (0, input)"]
    by (auto simp: decode_one_time_key_message_def Let_def at_end_def pre_key_reader_inside_def)
qed (auto simp: decode_one_time_key_message_def Let_def at_end_def pre_key_reader_inside_def)

section \<open>Properties\<close>

text \<open>A variable length integer of any width is read back from what was written, and the reader
  stops right behind it.\<close>

theorem varint_round_trip:
  fixes v :: "'a::len word"
  assumes "8 \<le> LENGTH('a)" "varint_encode m p v = (m', q)"
  shows "q = p + varint_length v
    \<and> varint_skip (p, load m' p (varint_length v) @ rest) = (q, rest)
    \<and> varint_decode (load m' p (varint_length v)) = v"
  using assms by (auto simp: varint_encode_eq load_store_same varint_skip_bytes varint_decode_bytes)

text \<open>A session message: the reader finds the version, the counter, the ratchet key and the
  ciphertext where the writer put them, in a message of the announced length.\<close>

theorem message_round_trip:
  assumes "length rk < 2 ^ 64" "length ct < 2 ^ 64" "length mac = mac_length"
    and "encode_message m version counter (length rk) (length ct) out = (m1, w)"
    and "n = encode_message_length counter (length rk) (length ct) mac_length"
    and "m2 = store (store m1 (mw_ratchet_key w) rk) (mw_ciphertext w) (ct @ mac)"
  shows "decode_message (load m2 out n) mac_length =
      \<lparr>mr_version = version, mr_has_counter = True, mr_counter = counter, mr_input_length = n,
       mr_ratchet_key = Some (mw_ratchet_key w - out), mr_ratchet_key_length = length rk,
       mr_ciphertext = Some (mw_ciphertext w - out), mr_ciphertext_length = length ct\<rparr>
    \<and> unchanged_outside out n m m2"
proof -
  let ?h = "message_header version rk counter (length ct)"
  note enc = encode_message_eq [OF assms(4)]
  have n: "n = length (?h @ ct @ mac)" unfolding assms(5) using assms(3)
    by (simp add: encode_message_length_eq [where version = version])
  have m2: "m2 = store m out (?h @ ct @ mac)" unfolding assms(6) enc(1,2) by (rule store_store_append)
  have "load m2 out n = ?h @ ct @ mac" unfolding m2 by (rule load_store_same [OF n])
  then show ?thesis
    using decode_message_encoded [OF assms(1-3), of version counter] enc(2,4) n
    by (auto simp: m2 intro!: unchanged_outside_store)
qed

text \<open>The same for a group message, with its index, MAC and signature.\<close>

theorem group_message_round_trip:
  assumes "length ct < 2 ^ 64" "length mac = mac_length" "length sig = signature_length"
    and "olm_encode_group_message m version index (length ct) out = (m1, k, ciphertext_ptr)"
    and "n = olm_encode_group_message_length index (length ct) mac_length signature_length"
    and "m2 = store m1 ciphertext_ptr (ct @ mac @ sig)"
  shows "olm_decode_group_message (load m2 out n) mac_length signature_length =
      \<lparr>gr_version = version, gr_message_index = index, gr_has_message_index = True,
       gr_ciphertext = Some (ciphertext_ptr - out), gr_ciphertext_length = length ct\<rparr>
    \<and> k + mac_length + signature_length = n \<and> unchanged_outside out n m m2"
proof -
  let ?h = "group_message_header version index (length ct)"
  have enc: "m1 = store m out ?h" "k = length ?h + length ct" "ciphertext_ptr = out + length ?h"
    using assms(4) by (simp_all add: encode_group_message_eq)
  have n: "n = length (?h @ ct @ mac @ sig)"
    unfolding assms(5) using assms(2,3) by (simp add: encode_group_message_length_eq [where version = version])
  have m2: "m2 = store m out (?h @ ct @ mac @ sig)" unfolding assms(6) enc by (rule store_store_append)
  have "load m2 out n = ?h @ ct @ mac @ sig" unfolding m2 by (rule load_store_same [OF n])
  then show ?thesis
    using decode_group_message_encoded [OF assms(1), of "mac @ sig" mac_length signature_length] assms(2,3) enc n
    by (auto simp: m2 intro!: unchanged_outside_store)
qed

text \<open>The same for a pre-key message, with its four keys and the inner message.\<close>

theorem pre_key_message_round_trip:
  assumes "length pk < 2 ^ 64" "length otk < 2 ^ 64" "length bk < 2 ^ 64" "length ik < 2 ^ 64" "length msg < 2 ^ 64"
    and "encode_one_time_key_message m version (length ik) (length bk) (length pk) (length otk)
      (length msg) out = (m1, w)"
    and "n = encode_one_time_key_message_length (length pk) (length ik) (length bk) (length otk) (length msg)"
    and "m2 = store (store (store (store (store m1 (pw_prekey w) pk) (pw_one_time_key w) otk)
      (pw_base_key w) bk) (pw_identity_key w) ik) (pw_message w) msg"
  shows "decode_one_time_key_message (load m2 out n) =
    \<lparr>pr_version = version,
     pr_identity_key = Some (pw_identity_key w - out), pr_identity_key_length = length ik,
     pr_base_key = Some (pw_base_key w - out), pr_base_key_length = length bk,
     pr_prekey = Some (pw_prekey w - out), pr_prekey_length = length pk,
     pr_one_time_key = Some (pw_one_time_key w - out), pr_one_time_key_length = length otk,
     pr_message = Some (pw_message w - out), pr_message_length = length msg\<rparr>"
proof -
  let ?h = "pre_key_message_header version pk otk bk ik (length msg)"
  note enc = encode_pre_key_message_eq [OF assms(6)]
  have n: "n = length (?h @ msg)"
    unfolding assms(7) by (simp add: encode_pre_key_message_length_eq [where version = version])
  have "m2 = store m out (?h @ msg)" unfolding assms(8) enc(1,2) by (rule store_store_append)
  then have "load m2 out n = ?h @ msg" using load_store_same [OF n] by simp
  then show ?thesis
    using decode_pre_key_message_encoded [OF assms(1-5), of version] enc(2-6) by (simp add: add.assoc)
qed

text \<open>C33: On any input, forged ones included, the three readers only report pointers whose bytes
  lie in the input in front of the MAC and the signature.\<close>

theorem readers_point_inside:
  "reader_inside (length input - mac_length) (decode_message input mac_length)
   \<and> pre_key_reader_inside (length input) (decode_one_time_key_message input)
   \<and> group_results_inside (length input - (mac_length + signature_length))
       (olm_decode_group_message input mac_length signature_length)"
  by (intro conjI decode_message_inside decode_pre_key_message_inside decode_group_message_inside)

text \<open>Witnesses at small messages.\<close>

lemma varint_round_trip_witness:
  "varint_skip (5, load (fst (varint_encode (\<lambda>_. 0) 5 (300 :: u32))) 5 2 @ [9]) = (7, [9])
   \<and> varint_decode (load (fst (varint_encode (\<lambda>_. 0) 5 (300 :: u32))) 5 2) = (300 :: u32)"
proof -
  have len: "varint_length (300 :: u32) = 2" by code_simp
  obtain m' q where e: "varint_encode (\<lambda>_. 0) 5 (300 :: u32) = (m', q)" by fastforce
  show ?thesis using varint_round_trip [OF _ e] by (simp add: len e)
qed

lemma message_round_trip_witness:
  "mr_counter (decode_message (load
     (let (m1, w) = encode_message (\<lambda>_. 0) 3 5 1 1 10
      in store (store m1 (mw_ratchet_key w) [7]) (mw_ciphertext w) ([1] @ [9])) 10
     (encode_message_length 5 1 1 1)) 1) = 5"
proof -
  obtain m1 w where e: "encode_message (\<lambda>_. 0) 3 5 1 1 10 = (m1, w)" by fastforce
  show ?thesis
    using message_round_trip [of "[7]" "[1]" "[9]" 1 "\<lambda>_. 0" 3 5 10 m1 w, OF _ _ _ _ refl refl] e
    by simp
qed

lemma group_message_round_trip_witness:
  "gr_message_index (olm_decode_group_message (load
     (case olm_encode_group_message (\<lambda>_. 0) 3 5 1 10 of (m1, k, p) \<Rightarrow> store m1 p ([1] @ [9] @ [8])) 10
     (olm_encode_group_message_length 5 1 1 1)) 1 1) = 5"
proof -
  obtain m1 k p where e: "olm_encode_group_message (\<lambda>_. 0) 3 5 1 10 = (m1, k, p)" by (metis surj_pair)
  show ?thesis
    using group_message_round_trip [of "[1]" "[9]" 1 "[8]" 1 "\<lambda>_. 0" 3 5 10 m1 k p, OF _ _ _ _ refl refl] e
    by simp
qed

lemma pre_key_message_round_trip_witness:
  "pr_message_length (decode_one_time_key_message (load
     (let (m1, w) = encode_one_time_key_message (\<lambda>_. 0) 3 1 1 1 1 1 10
      in store (store (store (store (store m1 (pw_prekey w) [1]) (pw_one_time_key w) [2])
        (pw_base_key w) [3]) (pw_identity_key w) [4]) (pw_message w) [5]) 10
     (encode_one_time_key_message_length 1 1 1 1 1))) = 1"
proof -
  obtain m1 w where e: "encode_one_time_key_message (\<lambda>_. 0) 3 1 1 1 1 1 10 = (m1, w)" by fastforce
  show ?thesis
    using pre_key_message_round_trip [of "[1]" "[2]" "[3]" "[4]" "[5]" "\<lambda>_. 0" 3 10 m1 w, OF _ _ _ _ _ _ refl refl] e
    by simp
qed

end
