(* ===== verification/OlmList.thy ===== *)
theory OlmList
  imports Prelude
begin

text \<open>
  \<open>include/olm/list.hh\<close>: the fixed capacity list.  \<open>List\<close> is the code's representation,
  an array of \<open>max_size\<close> slots and the end pointer as an index; the array functions below
  are the pointer loops.  The other components keep their lists as HOL lists, the
  contents of the array, and use \<open>list_erase\<close> and \<open>list_insert\<close>: the locale
  \<open>bounded_list\<close> is that contract and its interpretation the simulation.
\<close>

section \<open>The array\<close>

record 'a List =
  slots :: "'a list"
  end_index :: nat

definition wf_List :: "nat \<Rightarrow> 'a List \<Rightarrow> bool" where
  "wf_List max_size l \<longleftrightarrow> length (slots l) = max_size \<and> end_index l \<le> max_size"

definition contents :: "'a List \<Rightarrow> 'a list" where
  "contents l = take (end_index l) (slots l)"

definition list_size :: "'a List \<Rightarrow> nat" where
  "list_size l = end_index l"

definition list_empty :: "'a List \<Rightarrow> bool" where
  "list_empty l = (end_index l = 0)"

text \<open>The loop of \<open>erase\<close>; \<open>pos\<close> starts at or before \<open>end\<close>, so \<open>!=\<close> is \<open><\<close>.\<close>

function erase_shift :: "'a list \<Rightarrow> nat \<Rightarrow> nat \<Rightarrow> 'a list" where
  "erase_shift d pos e = (if pos < e then erase_shift (d[pos := d ! (pos + 1)]) (pos + 1) e else d)"
  by pat_completeness auto
termination by (relation "measure (\<lambda>(d, pos, e). e - pos)") auto

declare erase_shift.simps [simp del]

definition erase :: "'a List \<Rightarrow> nat \<Rightarrow> 'a List" where
  "erase l pos =
     (let e = end_index l - 1
      in \<lparr>slots = erase_shift (slots l) pos e, end_index = e\<rparr>)"

text \<open>The loop of \<open>insert\<close>, \<open>tmp\<close> going down to \<open>pos\<close>.\<close>

fun insert_shift :: "'a list \<Rightarrow> nat \<Rightarrow> nat \<Rightarrow> 'a list" where
  "insert_shift d pos 0 = d"
| "insert_shift d pos (Suc tmp) =
     (if Suc tmp = pos then d else insert_shift (d[Suc tmp := d ! tmp]) pos tmp)"

text \<open>Makes room and returns the position; the slot there still holds its old value.\<close>

definition insert_room :: "nat \<Rightarrow> 'a List \<Rightarrow> nat \<Rightarrow> 'a List \<times> nat" where
  "insert_room max_size l pos =
     (let (e, pos) =
        (if end_index l \<noteq> max_size then (end_index l + 1, pos)
         else if pos = end_index l then (end_index l, pos - 1)
         else (end_index l, pos))
      in (\<lparr>slots = insert_shift (slots l) pos (e - 1), end_index = e\<rparr>, pos))"

definition insert_value :: "nat \<Rightarrow> 'a List \<Rightarrow> nat \<Rightarrow> 'a \<Rightarrow> 'a List \<times> nat" where
  "insert_value max_size l pos value =
     (let (l, pos) = insert_room max_size l pos
      in (l\<lparr>slots := (slots l)[pos := value]\<rparr>, pos))"

section \<open>The contents\<close>

definition list_erase :: "'a list \<Rightarrow> nat \<Rightarrow> 'a list" where
  "list_erase xs pos = take pos xs @ drop (pos + 1) xs"

definition list_insert :: "nat \<Rightarrow> 'a list \<Rightarrow> nat \<Rightarrow> 'a \<Rightarrow> 'a list" where
  "list_insert max_size xs pos v =
     (if length xs = max_size \<and> pos = length xs then take (pos - 1) xs @ [v]
      else take max_size (take pos xs @ v # drop pos xs))"

lemma length_list_insert:
  "0 < max_size \<Longrightarrow> length xs \<le> max_size \<Longrightarrow> pos \<le> length xs \<Longrightarrow>
     length (list_insert max_size xs pos v) = min max_size (length xs + 1)"
  by (auto simp: list_insert_def)

lemma length_list_erase: "pos < length xs \<Longrightarrow> length (list_erase xs pos) = length xs - 1"
  by (auto simp: list_erase_def)

lemma list_insert_front:
  "0 < max_size \<Longrightarrow> list_insert max_size xs 0 v = v # take (max_size - 1) xs"
  by (cases max_size) (auto simp: list_insert_def)

lemma list_insert_end:
  "length xs < max_size \<Longrightarrow> list_insert max_size xs (length xs) v = xs @ [v]"
  by (auto simp: list_insert_def)

lemma set_list_erase: "set (list_erase xs pos) \<subseteq> set xs"
  by (auto simp: list_erase_def dest: in_set_takeD in_set_dropD)

lemma set_list_insert: "set (list_insert max_size xs pos v) \<subseteq> Set.insert v (set xs)"
  by (auto simp: list_insert_def dest!: in_set_takeD) (auto dest: in_set_takeD in_set_dropD)

lemma length_erase_shift [simp]: "length (erase_shift d pos e) = length d"
  by (induction d pos e rule: erase_shift.induct) (subst erase_shift.simps, simp)

lemma erase_shift_nth:
  "i < length d \<Longrightarrow> e < length d \<Longrightarrow>
     erase_shift d pos e ! i = (if pos \<le> i \<and> i < e then d ! (i + 1) else d ! i)"
proof (induction d pos e arbitrary: i rule: erase_shift.induct)
  case (1 d pos e)
  show ?case
  proof (cases "pos < e")
    case True
    then have "erase_shift d pos e = erase_shift (d[pos := d ! (pos + 1)]) (pos + 1) e"
      by (simp add: erase_shift.simps)
    then show ?thesis using 1 True by (auto simp: nth_list_update)
  next
    case False
    then show ?thesis by (subst erase_shift.simps) auto
  qed
qed

lemma length_insert_shift [simp]: "length (insert_shift d pos tmp) = length d"
  by (induction d pos tmp rule: insert_shift.induct) auto

lemma insert_shift_nth:
  "i < length d \<Longrightarrow> pos \<le> tmp \<Longrightarrow> tmp < length d \<Longrightarrow>
     insert_shift d pos tmp ! i = (if pos < i \<and> i \<le> tmp then d ! (i - 1) else d ! i)"
  by (induction d pos tmp rule: insert_shift.induct)
    (auto simp: nth_list_update not_less le_Suc_eq)

locale bounded_list =
  fixes wf :: "'l \<Rightarrow> bool" and abs :: "'l \<Rightarrow> 'a list" and max_size :: nat
    and del :: "'l \<Rightarrow> nat \<Rightarrow> 'l" and ins :: "'l \<Rightarrow> nat \<Rightarrow> 'a \<Rightarrow> 'l \<times> nat"
  assumes bound: "wf l \<Longrightarrow> length (abs l) \<le> max_size"
    and del_abs: "wf l \<Longrightarrow> pos < length (abs l) \<Longrightarrow>
      wf (del l pos) \<and> abs (del l pos) = list_erase (abs l) pos"
    and ins_abs: "wf l \<Longrightarrow> pos \<le> length (abs l) \<Longrightarrow> 0 < max_size \<Longrightarrow>
      wf (fst (ins l pos v)) \<and> abs (fst (ins l pos v)) = list_insert max_size (abs l) pos v
      \<and> abs (fst (ins l pos v)) ! snd (ins l pos v) = v"
begin

lemma ins_drops_last_when_full:
  "wf l \<Longrightarrow> length (abs l) = max_size \<Longrightarrow> 0 < max_size \<Longrightarrow>
     abs (fst (ins l 0 v)) = v # butlast (abs l)"
  by (simp add: ins_abs list_insert_front butlast_conv_take)

lemma ins_then_del: "wf l \<Longrightarrow> length (abs l) < max_size \<Longrightarrow>
     abs (del (fst (ins l 0 v)) 0) = abs l"
  by (simp add: del_abs ins_abs list_insert_front list_erase_def)

end

lemma contents_erase:
  assumes "wf_List max_size l" "pos < length (contents l)"
  shows "wf_List max_size (erase l pos) \<and> contents (erase l pos) = list_erase (contents l) pos"
proof
  have *: "pos < end_index l" "end_index l \<le> length (slots l)" "length (slots l) = max_size"
    using assms by (auto simp: wf_List_def contents_def)
  show "wf_List max_size (erase l pos)"
    using * by (auto simp: wf_List_def erase_def Let_def)
  show "contents (erase l pos) = list_erase (contents l) pos"
    using * by (intro nth_equalityI)
      (auto simp: contents_def list_erase_def erase_def Let_def erase_shift_nth nth_append
          split: if_splits)
qed

lemma contents_insert_value:
  assumes "wf_List max_size l" "pos \<le> length (contents l)" "0 < max_size"
  shows "wf_List max_size (fst (insert_value max_size l pos v))
    \<and> contents (fst (insert_value max_size l pos v)) = list_insert max_size (contents l) pos v
    \<and> contents (fst (insert_value max_size l pos v)) ! snd (insert_value max_size l pos v) = v"
proof (intro conjI)
  have *: "pos \<le> end_index l" "end_index l \<le> max_size" "length (slots l) = max_size"
    using assms by (auto simp: wf_List_def contents_def)
  show "wf_List max_size (fst (insert_value max_size l pos v))"
    using * by (auto simp: wf_List_def insert_value_def insert_room_def Let_def split: prod.split)
  show "contents (fst (insert_value max_size l pos v)) = list_insert max_size (contents l) pos v"
  proof (rule nth_equalityI)
    show "length (contents (fst (insert_value max_size l pos v)))
        = length (list_insert max_size (contents l) pos v)"
      using * assms(3)
      by (auto simp: contents_def insert_value_def insert_room_def list_insert_def)
  next
    fix i
    assume "i < length (contents (fst (insert_value max_size l pos v)))"
    then show "contents (fst (insert_value max_size l pos v)) ! i
        = list_insert max_size (contents l) pos v ! i"
      using * assms(3)
      by (auto simp: contents_def insert_value_def insert_room_def list_insert_def nth_append
          nth_Cons' insert_shift_nth nth_list_update split: if_splits)
  qed
  show "contents (fst (insert_value max_size l pos v)) ! snd (insert_value max_size l pos v) = v"
    using * assms(3) by (auto simp: contents_def insert_value_def insert_room_def)
qed

interpretation array_list: bounded_list
  "wf_List max_size" contents max_size erase "insert_value max_size" for max_size
proof unfold_locales
  show "length (contents l) \<le> max_size" if "wf_List max_size l" for l :: "'a List"
    using that by (auto simp: wf_List_def contents_def)
qed (rule contents_erase contents_insert_value, assumption+)+

section \<open>Properties\<close>

text \<open>C40: The fixed capacity list refines a list: erasing and inserting in the array, with its
  pointer loops, are erasing and inserting in the contents, the capacity is never exceeded, and
  inserting at the front of a full list discards its last element.\<close>

theorem list_refines_contents:
  assumes "wf_List max_size l" "0 < max_size"
  shows "(\<forall>pos < length (contents l).
      wf_List max_size (erase l pos) \<and> contents (erase l pos) = list_erase (contents l) pos)
    \<and> (\<forall>pos \<le> length (contents l).
      wf_List max_size (fst (insert_value max_size l pos v)) \<and>
      contents (fst (insert_value max_size l pos v)) = list_insert max_size (contents l) pos v)
    \<and> (list_size l = max_size \<longrightarrow>
      contents (fst (insert_value max_size l 0 v)) = v # butlast (contents l))"
  using array_list.del_abs [OF assms(1)] array_list.ins_abs [OF assms(1) _ assms(2)]
    array_list.ins_drops_last_when_full [OF assms(1) _ assms(2)] assms
  by (auto simp: list_size_def contents_def wf_List_def)

lemma list_refines_contents_witness:
  "contents (fst (insert_value 2 \<lparr>slots = [1, 2 :: nat], end_index = 2\<rparr> 0 7)) = [7, 1]
   \<and> contents (erase \<lparr>slots = [1, 2 :: nat], end_index = 2\<rparr> 0) = [2]"
  using list_refines_contents [of 2 "\<lparr>slots = [1, 2 :: nat], end_index = 2\<rparr>" 7]
  by (auto simp: wf_List_def contents_def list_erase_def list_size_def)

end
