(* ===== verification/Pickle.thy ===== *)
theory Pickle
  imports Crypto OlmList
begin

text \<open>
  \<open>src/pickle.cpp\<close>, \<open>include/olm/pickle.hh\<close> and \<open>include/olm/pickle.h\<close>: the serialisation
  of numbers, byte arrays, keys and lists.  A writer takes the memory and the position and
  returns both; a reader takes the bytes between \<open>pos\<close> and \<open>end\<close> (\<open>None\<close> for a null
  pointer) and the old contents of the variable it fills, since a reader that fails leaves
  what it does not write.  The locale \<open>pickle_format\<close> is the contract of a writer and its
  reader, on which the formats of structures and of lists are built.
\<close>

named_theorems pickle_simps \<open>what writers write and what readers read back\<close>

section \<open>Numbers\<close>

text \<open>The loop \<open>for (i = n; i--;) { *(--pos) = value; value >>= 8; }\<close>.\<close>

fun pickle_loop :: "nat \<Rightarrow> mem \<Rightarrow> nat \<Rightarrow> 'a::len word \<Rightarrow> mem \<times> nat" where
  "pickle_loop 0 m pos value = (m, pos)"
| "pickle_loop (Suc i) m pos value =
     (let pos = pos - 1
      in pickle_loop i (m(pos := ucast value)) pos (drop_bit 8 value))"

fun unpickle_loop :: "nat \<Rightarrow> 'a::len word \<Rightarrow> bytes \<Rightarrow> 'a word \<times> bytes" where
  "unpickle_loop 0 value pos = (value, pos)"
| "unpickle_loop (Suc i) value pos =
     (let value = push_bit 8 value;
          value = value OR ucast (hd pos)
      in unpickle_loop i value (tl pos))"

definition pickle_u64 :: "mem \<Rightarrow> nat \<Rightarrow> u64 \<Rightarrow> mem \<times> nat" where
  "pickle_u64 m pos value =
     (let (m, pos) = pickle_loop 8 m (pos + 8) value in (m, pos + 8))"

definition unpickle_u64 :: "u64 \<Rightarrow> bytes option \<Rightarrow> u64 \<times> bytes option" where
  "unpickle_u64 value pos = (case pos of
       None \<Rightarrow> (0, None)
     | Some bs \<Rightarrow>
         if length bs < 8 then (0, None)
         else let (value, bs) = unpickle_loop 8 0 bs in (value, Some bs))"

definition pickle_u32 :: "mem \<Rightarrow> nat \<Rightarrow> u32 \<Rightarrow> mem \<times> nat" where
  "pickle_u32 m pos value =
     (let (m, pos) = pickle_loop 4 m (pos + 4) value in (m, pos + 4))"

definition unpickle_u32 :: "u32 \<Rightarrow> bytes option \<Rightarrow> u32 \<times> bytes option" where
  "unpickle_u32 value pos = (case pos of
       None \<Rightarrow> (0, None)
     | Some bs \<Rightarrow>
         if length bs < 4 then (0, None)
         else let (value, bs) = unpickle_loop 4 0 bs in (value, Some bs))"

definition pickle_u8 :: "mem \<Rightarrow> nat \<Rightarrow> u8 \<Rightarrow> mem \<times> nat" where
  "pickle_u8 m pos value = (m(pos := value), pos + 1)"

definition unpickle_u8 :: "u8 \<Rightarrow> bytes option \<Rightarrow> u8 \<times> bytes option" where
  "unpickle_u8 value pos = (case pos of
       None \<Rightarrow> (value, None)
     | Some bs \<Rightarrow> if bs = [] then (value, None) else (hd bs, Some (tl bs)))"

definition pickle_bool :: "mem \<Rightarrow> nat \<Rightarrow> bool \<Rightarrow> mem \<times> nat" where
  "pickle_bool m pos value = (m(pos := (if value then 1 else 0)), pos + 1)"

definition unpickle_bool :: "bool \<Rightarrow> bytes option \<Rightarrow> bool \<times> bytes option" where
  "unpickle_bool value pos = (case pos of
       None \<Rightarrow> (value, None)
     | Some bs \<Rightarrow> if bs = [] then (value, None) else (hd bs \<noteq> 0, Some (tl bs)))"

section \<open>Byte arrays and keys\<close>

definition pickle_bytes :: "mem \<Rightarrow> nat \<Rightarrow> bytes \<Rightarrow> mem \<times> nat" where
  "pickle_bytes m pos bs = (store m pos bs, pos + length bs)"

definition unpickle_bytes :: "nat \<Rightarrow> bytes \<Rightarrow> bytes option \<Rightarrow> bytes \<times> bytes option" where
  "unpickle_bytes bytes_length old pos = (case pos of
       None \<Rightarrow> (old, None)
     | Some bs \<Rightarrow>
         if length bs < bytes_length then (old, None)
         else (take bytes_length bs, Some (drop bytes_length bs)))"

definition pickle_curve25519_public_key_length :: "bytes \<Rightarrow> nat" where
  "pickle_curve25519_public_key_length value = 32"

definition pickle_curve25519_public_key :: "mem \<Rightarrow> nat \<Rightarrow> bytes \<Rightarrow> mem \<times> nat" where
  "pickle_curve25519_public_key m pos value = pickle_bytes m pos value"

definition unpickle_curve25519_public_key :: "bytes \<Rightarrow> bytes option \<Rightarrow> bytes \<times> bytes option" where
  "unpickle_curve25519_public_key value pos = unpickle_bytes 32 value pos"

definition pickle_curve25519_key_pair_length :: "curve25519_key_pair \<Rightarrow> nat" where
  "pickle_curve25519_key_pair_length value = 32 + 32"

definition pickle_curve25519_key_pair :: "mem \<Rightarrow> nat \<Rightarrow> curve25519_key_pair \<Rightarrow> mem \<times> nat" where
  "pickle_curve25519_key_pair m pos value =
     (let (m, pos) = pickle_bytes m pos (curve_public value);
          (m, pos) = pickle_bytes m pos (curve_private value)
      in (m, pos))"

definition unpickle_curve25519_key_pair ::
    "curve25519_key_pair \<Rightarrow> bytes option \<Rightarrow> curve25519_key_pair \<times> bytes option" where
  "unpickle_curve25519_key_pair value pos =
     (let (pub, pos) = unpickle_bytes 32 (curve_public value) pos;
          value = value\<lparr>curve_public := pub\<rparr>
      in if pos = None then (value, None)
         else
           let (priv, pos) = unpickle_bytes 32 (curve_private value) pos
           in (value\<lparr>curve_private := priv\<rparr>, pos))"

definition olm_pickle_ed25519_public_key_length :: "bytes \<Rightarrow> nat" where
  "olm_pickle_ed25519_public_key_length value = 32"

definition olm_pickle_ed25519_public_key :: "mem \<Rightarrow> nat \<Rightarrow> bytes \<Rightarrow> mem \<times> nat" where
  "olm_pickle_ed25519_public_key m pos value = pickle_bytes m pos value"

definition olm_unpickle_ed25519_public_key :: "bytes \<Rightarrow> bytes option \<Rightarrow> bytes \<times> bytes option" where
  "olm_unpickle_ed25519_public_key value pos = unpickle_bytes 32 value pos"

definition olm_pickle_ed25519_key_pair_length :: "ed25519_key_pair \<Rightarrow> nat" where
  "olm_pickle_ed25519_key_pair_length value = 32 + 64"

definition olm_pickle_ed25519_key_pair :: "mem \<Rightarrow> nat \<Rightarrow> ed25519_key_pair \<Rightarrow> mem \<times> nat" where
  "olm_pickle_ed25519_key_pair m pos value =
     (let (m, pos) = pickle_bytes m pos (ed_public value);
          (m, pos) = pickle_bytes m pos (ed_private value)
      in (m, pos))"

definition olm_unpickle_ed25519_key_pair ::
    "ed25519_key_pair \<Rightarrow> bytes option \<Rightarrow> ed25519_key_pair \<times> bytes option" where
  "olm_unpickle_ed25519_key_pair value pos =
     (let (pub, pos) = unpickle_bytes 32 (ed_public value) pos;
          value = value\<lparr>ed_public := pub\<rparr>
      in if pos = None then (value, None)
         else
           let (priv, pos) = unpickle_bytes 64 (ed_private value) pos
           in (value\<lparr>ed_private := priv\<rparr>, pos))"

text \<open>
  The C bindings.  \<open>_olm_unpickle_bool\<close> reads into an \<open>int\<close> through a pointer to \<open>bool\<close>:
  it overwrites the lowest byte (on a little-endian machine) and keeps the others.
\<close>

definition olm_pickle_uint32 :: "mem \<Rightarrow> nat \<Rightarrow> u32 \<Rightarrow> mem \<times> nat" where
  "olm_pickle_uint32 m pos value = pickle_u32 m pos value"

definition olm_unpickle_uint32 :: "u32 \<Rightarrow> bytes option \<Rightarrow> u32 \<times> bytes option" where
  "olm_unpickle_uint32 value pos = unpickle_u32 value pos"

definition olm_pickle_bool :: "mem \<Rightarrow> nat \<Rightarrow> u32 \<Rightarrow> mem \<times> nat" where
  "olm_pickle_bool m pos value = pickle_bool m pos (value \<noteq> 0)"

definition olm_unpickle_bool :: "u32 \<Rightarrow> bytes option \<Rightarrow> u32 \<times> bytes option" where
  "olm_unpickle_bool value pos =
     (let (b, pos') = unpickle_bool (value AND 0xFF \<noteq> 0) pos
      in case pos' of
           None \<Rightarrow> (value, None)
         | Some bs \<Rightarrow> ((value AND NOT 0xFF) OR (if b then 1 else 0), Some bs))"

section \<open>Lists\<close>

text \<open>
  The templates over lists, for the functions of the element type.  \<open>fresh\<close> stands for
  what the slot holds that \<open>insert\<close> made.
\<close>

definition pickle_list_length :: "('a \<Rightarrow> nat) \<Rightarrow> 'a list \<Rightarrow> nat" where
  "pickle_list_length elem_length list = foldl (\<lambda>len value. len + elem_length value) 4 list"

definition pickle_list ::
    "(mem \<Rightarrow> nat \<Rightarrow> 'a \<Rightarrow> mem \<times> nat) \<Rightarrow> mem \<Rightarrow> nat \<Rightarrow> 'a list \<Rightarrow> mem \<times> nat" where
  "pickle_list elem m pos list =
     foldl (\<lambda>(m, pos) value. elem m pos value) (pickle_u32 m pos (of_nat (length list))) list"

fun unpickle_list_loop ::
    "('a \<Rightarrow> bytes option \<Rightarrow> 'a \<times> bytes option) \<Rightarrow> 'a \<Rightarrow> nat \<Rightarrow> nat \<Rightarrow> 'a list \<Rightarrow> bytes
      \<Rightarrow> 'a list \<times> bytes option" where
  "unpickle_list_loop elem fresh max_size 0 list bs = (list, Some bs)"
| "unpickle_list_loop elem fresh max_size (Suc n) list bs =
     (if bs = [] then (list, Some bs)
      else
        let (value, pos) = elem fresh (Some bs);
            list = list_insert max_size list (length list) value
        in case pos of
             None \<Rightarrow> (list, None)
           | Some bs \<Rightarrow> unpickle_list_loop elem fresh max_size n list bs)"

definition unpickle_list ::
    "('a \<Rightarrow> bytes option \<Rightarrow> 'a \<times> bytes option) \<Rightarrow> 'a \<Rightarrow> nat \<Rightarrow> 'a list \<Rightarrow> bytes option
      \<Rightarrow> 'a list \<times> bytes option" where
  "unpickle_list elem fresh max_size list pos =
     (let (size, pos) = unpickle_u32 0 pos
      in case pos of
           None \<Rightarrow> (list, None)
         | Some bs \<Rightarrow> unpickle_list_loop elem fresh max_size (unat size) list bs)"

section \<open>The contract of a format\<close>

locale pickle_format =
  fixes wf :: "'a \<Rightarrow> bool"
    and ser :: "'a \<Rightarrow> bytes"
    and len :: "'a \<Rightarrow> nat"
    and pickle :: "mem \<Rightarrow> nat \<Rightarrow> 'a \<Rightarrow> mem \<times> nat"
    and unpickle :: "'a \<Rightarrow> bytes option \<Rightarrow> 'a \<times> bytes option"
  assumes length_ser: "wf v \<Longrightarrow> length (ser v) = len v"
    and len_pos: "wf v \<Longrightarrow> 0 < len v"
    and pickle_eq: "wf v \<Longrightarrow> pickle m pos v = (store m pos (ser v), pos + len v)"
    and unpickle_ser: "wf old \<Longrightarrow> wf v \<Longrightarrow> unpickle old (Some (ser v @ rest)) = (v, Some rest)"
    and unpickle_null: "unpickle old None = (fst (unpickle old None), None)"
    and unpickle_wf: "wf old \<Longrightarrow> wf (fst (unpickle old src))"
    and unpickle_suffix: "wf old \<Longrightarrow> unpickle old (Some bs) = (v, Some rest) \<Longrightarrow> \<exists>c. c \<noteq> [] \<and> bs = c @ rest"
begin

lemma pickle_then_unpickle:
  assumes "wf v" "wf old"
  shows "unpickle old (Some (load (fst (pickle m pos v)) pos (len v))) = (v, Some [])"
  using assms unpickle_ser [of old v "[]"] by (simp add: pickle_eq load_store_same length_ser)

lemma pickle_frame:
  "wf v \<Longrightarrow> unchanged_outside pos (len v) m (fst (pickle m pos v))"
  by (auto simp: pickle_eq length_ser)

lemma pickle_list_length_eq:
  "foldl (\<lambda>n value. n + len value) k vs = k + sum_list (map len vs)"
  by (induction vs arbitrary: k) simp_all

lemma pickle_elements:
  "\<forall>v \<in> set vs. wf v \<Longrightarrow>
     foldl (\<lambda>(m, pos) value. pickle m pos value) (m, pos) vs =
       (store m pos (concat (map ser vs)), pos + sum_list (map len vs))"
proof (induction vs arbitrary: m pos)
  case (Cons v vs)
  then show ?case
    using store_store_append [of m pos "ser v" "concat (map ser vs)"]
    by (simp add: pickle_eq length_ser)
qed simp

lemma length_elements: "\<forall>v \<in> set vs. wf v \<Longrightarrow> length (concat (map ser vs)) = sum_list (map len vs)"
  by (induction vs) (auto simp: length_ser)

lemma unpickle_elements:
  assumes "\<forall>v \<in> set vs. wf v" "wf fresh" "length list + length vs \<le> max_size"
  shows "unpickle_list_loop unpickle fresh max_size (length vs) list (concat (map ser vs) @ rest)
    = (list @ vs, Some rest)"
  using assms
proof (induction vs arbitrary: list)
  case (Cons v vs)
  have "ser v \<noteq> []" using Cons.prems(1) length_ser [of v] len_pos [of v] by auto
  then show ?case
    using Cons.IH [of "list @ [v]"] Cons.prems by (simp add: unpickle_ser list_insert_end)
qed simp

end

section \<open>The formats\<close>

definition be_bytes :: "nat \<Rightarrow> 'a::len word \<Rightarrow> bytes" where
  "be_bytes n v = map (\<lambda>i. ucast (drop_bit (8 * i) v)) (rev [0..<n])"

lemma length_be_bytes [simp, len_simps]: "length (be_bytes n v) = n"
  by (simp add: be_bytes_def)

lemma be_bytes_Suc: "be_bytes (Suc n) v = be_bytes n (drop_bit 8 v) @ [ucast v]"
proof -
  have "rev [0..<Suc n] = map Suc (rev [0..<n]) @ [0]"
    by (simp add: upt_conv_Cons rev_map del: upt_Suc flip: map_Suc_upt)
  then show ?thesis
    by (simp add: be_bytes_def drop_bit_drop_bit add.commute del: upt_Suc)
qed

lemma pickle_loop_eq:
  "n \<le> pos \<Longrightarrow> pickle_loop n m pos v = (store m (pos - n) (be_bytes n v), pos - n)"
proof (induction n arbitrary: m pos v)
  case (Suc n)
  have "store (m(pos - 1 := ucast v)) (pos - 1 - n) (be_bytes n (drop_bit 8 v))
      = store m (pos - Suc n) (be_bytes (Suc n) v)"
    using Suc.prems by (intro ext) (auto simp: store_def be_bytes_Suc nth_append)
  with Suc show ?case by (simp add: Let_def del: fun_upd_apply)
qed (simp add: be_bytes_def)

lemma unpickle_loop_append:
  "length xs = n \<Longrightarrow> unpickle_loop (n + k) v (xs @ ys) = unpickle_loop k (fst (unpickle_loop n v xs)) ys"
  by (induction n arbitrary: v xs) (auto simp: Let_def length_Suc_conv)

lemma unpickle_loop_be_bytes:
  "unpickle_loop n (drop_bit (8 * n) v) (be_bytes n v @ rest) = (v, rest)"
proof (induction n arbitrary: v rest)
  case (Suc n)
  have *: "unpickle_loop n (drop_bit (8 * n) (drop_bit 8 v)) (be_bytes n (drop_bit 8 v))
      = (drop_bit 8 v, [])"
    using Suc [of "drop_bit 8 v" "[]"] by simp
  have "push_bit 8 (drop_bit 8 v) OR ucast (ucast v :: u8) = v"
    by (rule bit_word_eqI) (auto simp: bit_simps dest: bit_imp_le_length)
  then show ?case
    using unpickle_loop_append [of "be_bytes n (drop_bit 8 v)" n 1 "drop_bit (8 * Suc n) v"] *
    by (simp add: be_bytes_Suc drop_bit_drop_bit add.commute)
qed (simp add: be_bytes_def)

lemma unpickle_loop_rest: "n \<le> length bs \<Longrightarrow> snd (unpickle_loop n v bs) = drop n bs"
  by (induction n arbitrary: v bs) (auto simp: Let_def drop_Suc)

lemma drop_bit_all: "drop_bit 32 (v :: u32) = 0" "drop_bit 64 (w :: u64) = 0"
  by (rule bit_word_eqI; auto simp: bit_simps dest: bit_imp_le_length)+

lemma drop_suffix: "0 < n \<Longrightarrow> n \<le> length bs \<Longrightarrow> \<exists>c. c \<noteq> [] \<and> bs = c @ drop n bs"
  by (rule exI [of _ "take n bs"]) auto

interpretation u64_format: pickle_format
  "\<lambda>_. True" "be_bytes 8" "\<lambda>_. 8" pickle_u64 unpickle_u64
proof unfold_locales
  fix m pos rest bs and v old :: u64
  show "pickle_u64 m pos v = (store m pos (be_bytes 8 v), pos + 8)"
    by (simp add: pickle_u64_def pickle_loop_eq)
  show "unpickle_u64 old (Some (be_bytes 8 v @ rest)) = (v, Some rest)"
    using unpickle_loop_be_bytes [of 8 v rest] by (simp add: unpickle_u64_def drop_bit_all)
  show "\<exists>c. c \<noteq> [] \<and> bs = c @ rest" if "unpickle_u64 old (Some bs) = (v, Some rest)"
  proof -
    have "8 \<le> length bs \<and> rest = drop 8 bs"
      using that unpickle_loop_rest [of 8 bs "0 :: u64"]
      by (cases "unpickle_loop 8 0 bs :: u64 \<times> bytes") (auto simp: unpickle_u64_def split: if_splits)
    then show ?thesis using drop_suffix [of 8 bs] by simp
  qed
qed (simp_all add: unpickle_u64_def)

interpretation u32_format: pickle_format
  "\<lambda>_. True" "be_bytes 4" "\<lambda>_. 4" pickle_u32 unpickle_u32
proof unfold_locales
  fix m pos rest bs and v old :: u32
  show "pickle_u32 m pos v = (store m pos (be_bytes 4 v), pos + 4)"
    by (simp add: pickle_u32_def pickle_loop_eq)
  show "unpickle_u32 old (Some (be_bytes 4 v @ rest)) = (v, Some rest)"
    using unpickle_loop_be_bytes [of 4 v rest] by (simp add: unpickle_u32_def drop_bit_all)
  show "\<exists>c. c \<noteq> [] \<and> bs = c @ rest" if "unpickle_u32 old (Some bs) = (v, Some rest)"
  proof -
    have "4 \<le> length bs \<and> rest = drop 4 bs"
      using that unpickle_loop_rest [of 4 bs "0 :: u32"]
      by (cases "unpickle_loop 4 0 bs :: u32 \<times> bytes") (auto simp: unpickle_u32_def split: if_splits)
    then show ?thesis using drop_suffix [of 4 bs] by simp
  qed
qed (simp_all add: unpickle_u32_def)

interpretation u8_format: pickle_format
  "\<lambda>_. True" "\<lambda>v. [v]" "\<lambda>_. 1" pickle_u8 unpickle_u8
proof unfold_locales
  fix rest bs and v old :: u8
  show "\<exists>c. c \<noteq> [] \<and> bs = c @ rest" if "unpickle_u8 old (Some bs) = (v, Some rest)"
    using that by (cases bs) (auto simp: unpickle_u8_def)
qed (simp_all add: pickle_u8_def unpickle_u8_def fun_upd_as_store del: fun_upd_apply)

interpretation bool_format: pickle_format
  "\<lambda>_. True" "\<lambda>v. [if v then 1 else 0]" "\<lambda>_. 1" pickle_bool unpickle_bool
proof unfold_locales
  fix rest bs and v old :: bool
  show "\<exists>c. c \<noteq> [] \<and> bs = c @ rest" if "unpickle_bool old (Some bs) = (v, Some rest)"
    using that by (cases bs) (auto simp: unpickle_bool_def)
qed (simp_all add: pickle_bool_def unpickle_bool_def fun_upd_as_store del: fun_upd_apply)

interpretation bytes_format: pickle_format
  "\<lambda>v. length v = n \<and> 0 < n" "\<lambda>v. v" length pickle_bytes "unpickle_bytes n" for n
proof unfold_locales
  fix rest bs and v old :: bytes
  show "\<exists>c. c \<noteq> [] \<and> bs = c @ rest" if "length old = n \<and> 0 < n"
    "unpickle_bytes n old (Some bs) = (v, Some rest)"
    using that drop_suffix [of n bs] by (auto simp: unpickle_bytes_def Let_def split: if_splits)
qed (auto simp: pickle_bytes_def unpickle_bytes_def split: option.split)

lemmas number_formats [pickle_simps] =
  u64_format.pickle_eq u64_format.unpickle_ser u64_format.unpickle_null
  u32_format.pickle_eq u32_format.unpickle_ser u32_format.unpickle_null
  u8_format.pickle_eq u8_format.unpickle_ser u8_format.unpickle_null
  bool_format.pickle_eq bool_format.unpickle_ser bool_format.unpickle_null
  bytes_format.pickle_eq bytes_format.unpickle_ser bytes_format.unpickle_null

definition ser_curve25519_key_pair :: "curve25519_key_pair \<Rightarrow> bytes" where
  "ser_curve25519_key_pair k = curve_public k @ curve_private k"

definition ser_ed25519_key_pair :: "ed25519_key_pair \<Rightarrow> bytes" where
  "ser_ed25519_key_pair k = ed_public k @ ed_private k"

text \<open>Two fields one after the other: the shape of every structure's reader.\<close>

lemma unpickle_bytes_append [pickle_simps]:
  "length v = n \<Longrightarrow> unpickle_bytes n old (Some (v @ rest)) = (v, Some rest)"
  by (simp add: unpickle_bytes_def)

lemma length_unpickle_bytes:
  "length old = n \<Longrightarrow> length (fst (unpickle_bytes n old src)) = n"
  by (auto simp: unpickle_bytes_def split: option.split)

lemma unpickle_bytes_suffix:
  "0 < n \<Longrightarrow> unpickle_bytes n old (Some bs) = (v, Some rest) \<Longrightarrow> \<exists>c. c \<noteq> [] \<and> bs = c @ rest"
  using drop_suffix [of n bs] by (auto simp: unpickle_bytes_def Let_def split: if_splits)

interpretation curve25519_public_key_format: pickle_format
  "\<lambda>v. length v = 32" "\<lambda>v. v" pickle_curve25519_public_key_length
  pickle_curve25519_public_key unpickle_curve25519_public_key
  by unfold_locales
    (auto dest: unpickle_bytes_suffix [rotated] simp: pickle_curve25519_public_key_length_def pickle_curve25519_public_key_def
      unpickle_curve25519_public_key_def pickle_bytes_def unpickle_bytes_append
      length_unpickle_bytes unpickle_bytes_def [of _ _ None])

interpretation ed25519_public_key_format: pickle_format
  "\<lambda>v. length v = 32" "\<lambda>v. v" olm_pickle_ed25519_public_key_length
  olm_pickle_ed25519_public_key olm_unpickle_ed25519_public_key
  by unfold_locales
    (auto dest: unpickle_bytes_suffix [rotated] simp: olm_pickle_ed25519_public_key_length_def olm_pickle_ed25519_public_key_def
      olm_unpickle_ed25519_public_key_def pickle_bytes_def unpickle_bytes_append
      length_unpickle_bytes unpickle_bytes_def [of _ _ None])

interpretation curve25519_key_pair_format: pickle_format
  wf_curve25519_key_pair ser_curve25519_key_pair pickle_curve25519_key_pair_length
  pickle_curve25519_key_pair unpickle_curve25519_key_pair
proof unfold_locales
  fix m pos rest bs src and v old :: curve25519_key_pair
  show "pickle_curve25519_key_pair m pos v
      = (store m pos (ser_curve25519_key_pair v), pos + pickle_curve25519_key_pair_length v)"
    if "wf_curve25519_key_pair v"
    using that store_store_append [of m pos "curve_public v" "curve_private v"]
    by (simp add: wf_curve25519_key_pair_def pickle_curve25519_key_pair_def pickle_bytes_def
        ser_curve25519_key_pair_def pickle_curve25519_key_pair_length_def)
  show "wf_curve25519_key_pair (fst (unpickle_curve25519_key_pair old src))"
    if "wf_curve25519_key_pair old"
    using that by (auto simp: wf_curve25519_key_pair_def unpickle_curve25519_key_pair_def
        unpickle_bytes_def Let_def split: option.splits)
  show "\<exists>c. c \<noteq> [] \<and> bs = c @ rest"
    if "unpickle_curve25519_key_pair old (Some bs) = (v, Some rest)"
    using that drop_suffix [of 64 bs]
    by (auto simp: unpickle_curve25519_key_pair_def unpickle_bytes_def Let_def split: if_splits)
qed (auto simp: wf_curve25519_key_pair_def ser_curve25519_key_pair_def unpickle_bytes_append
    pickle_curve25519_key_pair_length_def unpickle_curve25519_key_pair_def
    unpickle_bytes_def [of _ _ None])

interpretation ed25519_key_pair_format: pickle_format
  wf_ed25519_key_pair ser_ed25519_key_pair olm_pickle_ed25519_key_pair_length
  olm_pickle_ed25519_key_pair olm_unpickle_ed25519_key_pair
proof unfold_locales
  fix m pos rest bs src and v old :: ed25519_key_pair
  show "olm_pickle_ed25519_key_pair m pos v
      = (store m pos (ser_ed25519_key_pair v), pos + olm_pickle_ed25519_key_pair_length v)"
    if "wf_ed25519_key_pair v"
    using that store_store_append [of m pos "ed_public v" "ed_private v"]
    by (simp add: wf_ed25519_key_pair_def olm_pickle_ed25519_key_pair_def pickle_bytes_def
        ser_ed25519_key_pair_def olm_pickle_ed25519_key_pair_length_def)
  show "wf_ed25519_key_pair (fst (olm_unpickle_ed25519_key_pair old src))"
    if "wf_ed25519_key_pair old"
    using that by (auto simp: wf_ed25519_key_pair_def olm_unpickle_ed25519_key_pair_def
        unpickle_bytes_def Let_def split: option.splits)
  show "\<exists>c. c \<noteq> [] \<and> bs = c @ rest"
    if "olm_unpickle_ed25519_key_pair old (Some bs) = (v, Some rest)"
    using that drop_suffix [of 96 bs]
    by (auto simp: olm_unpickle_ed25519_key_pair_def unpickle_bytes_def Let_def split: if_splits)
qed (auto simp: wf_ed25519_key_pair_def ser_ed25519_key_pair_def unpickle_bytes_append
    olm_pickle_ed25519_key_pair_length_def olm_unpickle_ed25519_key_pair_def
    unpickle_bytes_def [of _ _ None])

lemmas key_formats [pickle_simps] =
  curve25519_public_key_format.pickle_eq curve25519_public_key_format.unpickle_ser
  ed25519_public_key_format.pickle_eq ed25519_public_key_format.unpickle_ser
  curve25519_key_pair_format.pickle_eq curve25519_key_pair_format.unpickle_ser
  ed25519_key_pair_format.pickle_eq ed25519_key_pair_format.unpickle_ser

text \<open>The C bindings of the numbers.  The \<open>int\<close> of the boolean is 0 or 1 before and after.\<close>

interpretation uint32_format: pickle_format
  "\<lambda>_. True" "be_bytes 4" "\<lambda>_. 4" olm_pickle_uint32 olm_unpickle_uint32
  using u32_format.pickle_format_axioms
  by (simp add: olm_pickle_uint32_def [abs_def] olm_unpickle_uint32_def [abs_def])

interpretation bool_int_format: pickle_format
  "\<lambda>v. v \<in> {0, 1}" "\<lambda>v. [ucast v]" "\<lambda>_. 1" olm_pickle_bool olm_unpickle_bool
  by unfold_locales
    (auto simp: olm_pickle_bool_def olm_unpickle_bool_def pickle_bool_def unpickle_bool_def
      fun_upd_as_store neq_Nil_conv split: option.splits if_splits)

lemmas c_formats [pickle_simps] =
  uint32_format.pickle_eq uint32_format.unpickle_ser uint32_format.unpickle_null
  bool_int_format.pickle_eq bool_int_format.unpickle_ser

section \<open>Lists\<close>

definition ser_list :: "('a \<Rightarrow> bytes) \<Rightarrow> 'a list \<Rightarrow> bytes" where
  "ser_list ser vs = be_bytes 4 (of_nat (length vs) :: u32) @ concat (map ser vs)"

context pickle_format
begin

lemma length_ser_list:
  "\<forall>v \<in> set vs. wf v \<Longrightarrow> length (ser_list ser vs) = pickle_list_length len vs"
  by (simp add: ser_list_def length_elements pickle_list_length_def pickle_list_length_eq)

lemma pickle_list_eq:
  assumes "\<forall>v \<in> set vs. wf v"
  shows "pickle_list pickle m pos vs =
    (store m pos (be_bytes 4 (of_nat (length vs) :: u32) @ concat (map ser vs)),
     pos + pickle_list_length len vs)"
  using pickle_elements [OF assms, of "store m pos (be_bytes 4 (of_nat (length vs) :: u32))" "pos + 4"]
    store_store_append [of m pos "be_bytes 4 (of_nat (length vs) :: u32)" "concat (map ser vs)"]
  by (simp add: pickle_list_def pickle_list_length_def pickle_list_length_eq pickle_simps add.assoc)

lemma unpickle_list_ser:
  assumes "\<forall>v \<in> set vs. wf v" "wf fresh" "length vs \<le> max_size" "max_size < 2 ^ 32"
  shows "unpickle_list unpickle fresh max_size []
      (Some (be_bytes 4 (of_nat (length vs) :: u32) @ concat (map ser vs) @ rest)) = (vs, Some rest)"
  using unpickle_elements [OF assms(1,2), of "[]" max_size rest] assms(3,4)
  by (simp add: unpickle_list_def pickle_simps unat_of_nat)

lemma unpickle_list_bounded:
  assumes "length list \<le> max_size" "0 < max_size"
  shows "length (fst (unpickle_list_loop unpickle fresh max_size n list bs)) \<le> max_size"
  using assms
proof (induction n arbitrary: list bs)
  case (Suc n)
  then show ?case
    by (auto simp: length_list_insert Let_def split: prod.split option.split)
qed simp

end

section \<open>Structures of two fields\<close>

text \<open>
  A structure written field by field has a format when its fields have one.  \<open>sel\<close> and
  \<open>upd\<close> are the selectors and updates of the two fields.
\<close>

locale format_pair =
  a: pickle_format wfa sera lena picklea unpicklea + b: pickle_format wfb serb lenb pickleb unpickleb
  for wfa :: "'a \<Rightarrow> bool" and sera lena picklea unpicklea
    and wfb :: "'b \<Rightarrow> bool" and serb lenb pickleb unpickleb +
  fixes sela :: "'s \<Rightarrow> 'a" and selb :: "'s \<Rightarrow> 'b"
    and upda :: "'a \<Rightarrow> 's \<Rightarrow> 's" and updb :: "'b \<Rightarrow> 's \<Rightarrow> 's"
  assumes sel_upd: "sela (upda x s) = x" "selb (upda x s) = selb s"
      "selb (updb y s) = y" "sela (updb y s) = sela s"
    and upd_all: "updb (selb v) (upda (sela v) s) = v"
begin

lemma pair_format:
  fixes wf :: "'s \<Rightarrow> bool"
  assumes ser: "\<And>s. ser s = sera (sela s) @ serb (selb s)"
    and len: "\<And>s. wf s \<Longrightarrow> len s = lena (sela s) + lenb (selb s)"
    and wf: "\<And>s. wf s = (wfa (sela s) \<and> wfb (selb s))"
    and pickle: "\<And>m pos s. wf s \<Longrightarrow> pickle m pos s =
      (let (m, pos) = picklea m pos (sela s) in pickleb m pos (selb s))"
    and unpickle: "\<And>s pos. unpickle s pos =
      (let (x, pos) = unpicklea (sela s) pos; s = upda x s
       in if pos = None then (s, None)
          else let (y, pos) = unpickleb (selb s) pos in (updb y s, pos))"
  shows "pickle_format wf ser len pickle unpickle"
proof
  fix v old m pos rest bs src
  show "length (ser v) = len v" if "wf v"
    using that len [OF that] by (simp add: ser wf a.length_ser b.length_ser)
  show "0 < len v" if "wf v" using that a.len_pos len [OF that] by (simp add: wf)
  show "pickle m pos v = (store m pos (ser v), pos + len v)" if "wf v"
    using that store_store_append [of m pos "sera (sela v)" "serb (selb v)"] len [OF that]
    by (simp add: pickle ser wf a.pickle_eq b.pickle_eq a.length_ser add.assoc)
  show "unpickle old (Some (ser v @ rest)) = (v, Some rest)" if "wf old" "wf v"
    using that a.unpickle_ser [of "sela old" "sela v" "serb (selb v) @ rest"]
      b.unpickle_ser [of "selb old" "selb v" rest] upd_all [of v old]
    by (simp add: unpickle ser wf sel_upd)
  show "unpickle old None = (fst (unpickle old None), None)"
    by (subst (1 2) unpickle, subst (1 2) a.unpickle_null) simp
  show "wf (fst (unpickle old src))" if "wf old"
    using that a.unpickle_wf [of "sela old" src] b.unpickle_wf [of "selb old"]
    by (auto simp: unpickle wf sel_upd Let_def split: prod.split dest: arg_cong [where f = fst])
      (metis fst_conv)
  show "\<exists>c. c \<noteq> [] \<and> bs = c @ rest" if "wf old" "unpickle old (Some bs) = (v, Some rest)"
  proof -
    note old = that(1) [unfolded wf] and run = that(2)
    obtain x p where x: "unpicklea (sela old) (Some bs) = (x, p)" by fastforce
    with run obtain mid y where mid: "p = Some mid" "unpickleb (selb old) (Some mid) = (y, Some rest)"
      by (cases p) (auto simp: unpickle sel_upd Let_def split: prod.splits)
    then obtain c d where "c \<noteq> []" "bs = c @ mid" "mid = d @ rest"
      using a.unpickle_suffix [of "sela old" bs x mid] b.unpickle_suffix [OF _ mid(2)] x old
      by auto
    then show ?thesis by auto
  qed
qed

end

end
