(* ===== verification/Ratchet.thy ===== *)
theory Ratchet
  imports Cipher MessageFormat Pickle OlmError
begin

text \<open>
  \<open>src/ratchet.cpp\<close> and \<open>include/olm/ratchet.hh\<close>: the double ratchet of a session.  The
  lists are the contents of the code's bounded lists; the cipher of a ratchet is its context
  string.  Input and output buffers are in the memory.
\<close>

section \<open>State\<close>

definition OLM_SHARED_KEY_LENGTH :: nat where "OLM_SHARED_KEY_LENGTH = 32"
definition MAX_RECEIVER_CHAINS :: nat where "MAX_RECEIVER_CHAINS = 5"
definition MAX_SKIPPED_MESSAGE_KEYS :: nat where "MAX_SKIPPED_MESSAGE_KEYS = 40"
definition PROTOCOL_VERSION :: u8 where "PROTOCOL_VERSION = 3"
definition MESSAGE_KEY_SEED :: bytes where "MESSAGE_KEY_SEED = [0x01]"
definition CHAIN_KEY_SEED :: bytes where "CHAIN_KEY_SEED = [0x02]"
definition MAX_MESSAGE_GAP :: u32 where "MAX_MESSAGE_GAP = 2000"

record ChainKey =
  ck_index :: u32
  ck_key :: bytes

record MessageKey =
  mk_index :: u32
  mk_key :: bytes

record SenderChain =
  sc_ratchet_key :: curve25519_key_pair
  sc_chain_key :: ChainKey

record ReceiverChain =
  rc_ratchet_key :: bytes
  rc_chain_key :: ChainKey

record SkippedMessageKey =
  sk_ratchet_key :: bytes
  sk_message_key :: MessageKey

record KdfInfo =
  root_info :: bytes
  ratchet_info :: bytes

record Ratchet =
  kdf_info :: KdfInfo
  ratchet_cipher :: bytes
  r_last_error :: OlmErrorCode
  root_key :: bytes
  sender_chain :: "SenderChain list"
  receiver_chains :: "ReceiverChain list"
  skipped_message_keys :: "SkippedMessageKey list"

section \<open>Chains and keys\<close>

text \<open>The new root key and the first chain key of the new chain.\<close>

definition create_chain_key ::
    "crypto_prims \<Rightarrow> bytes \<Rightarrow> curve25519_key_pair \<Rightarrow> bytes \<Rightarrow> KdfInfo \<Rightarrow> bytes \<times> ChainKey" where
  "create_chain_key P root our_key their_key info =
     (let secret = olm_crypto_curve25519_shared_secret P our_key their_key;
          derived_secrets = olm_crypto_hkdf_sha256 secret (Some root) (ratchet_info info)
                              (2 * OLM_SHARED_KEY_LENGTH);
          (new_root_key, pos) = load_array OLM_SHARED_KEY_LENGTH derived_secrets;
          (key, pos) = load_array OLM_SHARED_KEY_LENGTH pos
      in (new_root_key, \<lparr>ck_index = 0, ck_key = key\<rparr>))"

definition advance_chain_key :: "ChainKey \<Rightarrow> ChainKey" where
  "advance_chain_key chain_key =
     \<lparr>ck_index = ck_index chain_key + 1,
      ck_key = olm_crypto_hmac_sha256 (ck_key chain_key) CHAIN_KEY_SEED\<rparr>"

definition create_message_keys :: "ChainKey \<Rightarrow> MessageKey" where
  "create_message_keys chain_key =
     \<lparr>mk_index = ck_index chain_key,
      mk_key = olm_crypto_hmac_sha256 (ck_key chain_key) MESSAGE_KEY_SEED\<rparr>"

lemma unat_index_Suc: "i < c \<Longrightarrow> unat ((i :: u32) + 1) = unat i + 1"
  using unsigned_less [of c, where ?'a = nat]
  by (simp add: word_less_nat_alt unat_word_ariths)

lemma index_closer: "i < c \<Longrightarrow> unat (c :: u32) - unat (i + 1) < unat c - unat i"
  by (simp add: unat_index_Suc) (simp add: word_less_nat_alt)

text \<open>The loop \<open>while (chain.index < counter)\<close>.\<close>

function advance_chain_to :: "ChainKey \<Rightarrow> u32 \<Rightarrow> ChainKey" where
  "advance_chain_to chain counter =
     (if ck_index chain < counter then advance_chain_to (advance_chain_key chain) counter else chain)"
  by pat_completeness auto

termination
  by (relation "measure (\<lambda>(c, n). unat n - unat (ck_index c))")
    (auto simp: advance_chain_key_def index_closer)

declare advance_chain_to.simps [simp del]

section \<open>Decryption with a key\<close>

text \<open>
  \<open>reader\<close> was decoded from the \<open>mr_input_length\<close> bytes at \<open>input\<close>.  The cipher reads the
  ciphertext in whole blocks, at most 15 bytes behind its end.  Returns the memory with the
  plaintext buffer and the length of the plaintext.
\<close>

definition verify_mac_and_decrypt ::
    "bytes \<Rightarrow> MessageKey \<Rightarrow> mem \<Rightarrow> nat \<Rightarrow> MessageReader \<Rightarrow> nat \<Rightarrow> nat \<Rightarrow> mem \<times> nat option" where
  "verify_mac_and_decrypt cipher message_key m input reader plaintext max_plaintext_length =
     (let ciphertext = input + the (mr_ciphertext reader);
          (written, r) = aes_sha_256_cipher_decrypt cipher (mk_key message_key)
            (load m input (mr_input_length reader))
            (load m ciphertext (mr_ciphertext_length reader + 16)) (mr_ciphertext_length reader)
            (m (plaintext - 1)) max_plaintext_length
      in (store m plaintext written, r))"

definition verify_mac_and_decrypt_for_existing_chain ::
    "Ratchet \<Rightarrow> ChainKey \<Rightarrow> mem \<Rightarrow> nat \<Rightarrow> MessageReader \<Rightarrow> nat \<Rightarrow> nat \<Rightarrow> OlmErrorCode
      \<Rightarrow> mem \<times> OlmErrorCode \<times> nat option" where
  "verify_mac_and_decrypt_for_existing_chain session chain m input reader plaintext
     max_plaintext_length last_error =
     (if mr_counter reader < ck_index chain
      then (m, OLM_ALREADY_DECRYPTED_OR_KEYS_SKIPPED, None)
      else if mr_counter reader - ck_index chain > MAX_MESSAGE_GAP
      then (m, OLM_MAX_MESSAGE_GAP_EXCEEDED, None)
      else
        let new_chain = advance_chain_to chain (mr_counter reader);
            message_key = create_message_keys new_chain;
            (m, result) = verify_mac_and_decrypt (ratchet_cipher session) message_key m input reader
              plaintext max_plaintext_length
        in (m, last_error, result))"

definition reader_ratchet_key :: "mem \<Rightarrow> nat \<Rightarrow> MessageReader \<Rightarrow> bytes" where
  "reader_ratchet_key m input reader =
     load m (input + the (mr_ratchet_key reader)) CURVE25519_KEY_LENGTH"

definition verify_mac_and_decrypt_for_new_chain ::
    "crypto_prims \<Rightarrow> Ratchet \<Rightarrow> mem \<Rightarrow> nat \<Rightarrow> MessageReader \<Rightarrow> nat \<Rightarrow> nat \<Rightarrow> OlmErrorCode
      \<Rightarrow> mem \<times> OlmErrorCode \<times> nat option" where
  "verify_mac_and_decrypt_for_new_chain P session m input reader plaintext max_plaintext_length
     last_error =
     (if sender_chain session = [] then (m, OLM_SENDER_CHAIN_NOT_ACKNOWLEDGED, None)
      else if mr_counter reader > MAX_MESSAGE_GAP then (m, OLM_MAX_MESSAGE_GAP_EXCEEDED, None)
      else
        let ratchet_key = reader_ratchet_key m input reader;
            (new_root_key, chain_key) = create_chain_key P (root_key session)
              (sc_ratchet_key (sender_chain session ! 0)) ratchet_key (kdf_info session)
        in verify_mac_and_decrypt_for_existing_chain session chain_key m input reader
             plaintext max_plaintext_length last_error)"

section \<open>Initialisation\<close>

definition new_Ratchet :: "KdfInfo \<Rightarrow> bytes \<Rightarrow> Ratchet" where
  "new_Ratchet info cipher =
     \<lparr>kdf_info = info, ratchet_cipher = cipher, r_last_error = OLM_SUCCESS,
      root_key = replicate 32 0, sender_chain = [], receiver_chains = [],
      skipped_message_keys = []\<rparr>"

definition initialise_as_bob :: "Ratchet \<Rightarrow> bytes \<Rightarrow> bytes \<Rightarrow> Ratchet" where
  "initialise_as_bob session shared_secret their_ratchet_key =
     (let derived_secrets = olm_crypto_hkdf_sha256 shared_secret None (root_info (kdf_info session))
            (2 * OLM_SHARED_KEY_LENGTH);
          (root, pos) = load_array OLM_SHARED_KEY_LENGTH derived_secrets;
          (key, pos) = load_array OLM_SHARED_KEY_LENGTH pos
      in session\<lparr>root_key := root,
           receiver_chains := list_insert MAX_RECEIVER_CHAINS (receiver_chains session) 0
             \<lparr>rc_ratchet_key = their_ratchet_key,
              rc_chain_key = \<lparr>ck_index = 0, ck_key = key\<rparr>\<rparr>\<rparr>)"

definition initialise_as_alice :: "Ratchet \<Rightarrow> bytes \<Rightarrow> curve25519_key_pair \<Rightarrow> Ratchet" where
  "initialise_as_alice session shared_secret our_ratchet_key =
     (let derived_secrets = olm_crypto_hkdf_sha256 shared_secret None (root_info (kdf_info session))
            (2 * OLM_SHARED_KEY_LENGTH);
          (root, pos) = load_array OLM_SHARED_KEY_LENGTH derived_secrets;
          (key, pos) = load_array OLM_SHARED_KEY_LENGTH pos
      in session\<lparr>root_key := root,
           sender_chain := list_insert 1 (sender_chain session) 0
             \<lparr>sc_ratchet_key = our_ratchet_key,
              sc_chain_key = \<lparr>ck_index = 0, ck_key = key\<rparr>\<rparr>\<rparr>)"

section \<open>Encryption\<close>

definition ratchet_encrypt_output_length :: "Ratchet \<Rightarrow> nat \<Rightarrow> nat" where
  "ratchet_encrypt_output_length session plaintext_length =
     (let counter = (if sender_chain session \<noteq> []
                     then ck_index (sc_chain_key (sender_chain session ! 0)) else 0);
          padded = aes_sha_256_cipher_encrypt_ciphertext_length plaintext_length
      in encode_message_length counter CURVE25519_KEY_LENGTH padded aes_sha_256_cipher_mac_length)"

definition ratchet_encrypt_random_length :: "Ratchet \<Rightarrow> nat" where
  "ratchet_encrypt_random_length session =
     (if sender_chain session = [] then CURVE25519_RANDOM_LENGTH else 0)"

text \<open>The first part of \<open>encrypt\<close>: a new sender chain when there is none.\<close>

definition start_sender_chain :: "crypto_prims \<Rightarrow> Ratchet \<Rightarrow> bytes \<Rightarrow> Ratchet" where
  "start_sender_chain P session random =
     (if sender_chain session = [] then
        let ratchet_key = olm_crypto_curve25519_generate_key P random;
            (root, chain_key) = create_chain_key P (root_key session) ratchet_key
              (rc_ratchet_key (receiver_chains session ! 0)) (kdf_info session)
        in session\<lparr>root_key := root,
             sender_chain := list_insert 1 (sender_chain session) 0
               \<lparr>sc_ratchet_key = ratchet_key, sc_chain_key = chain_key\<rparr>\<rparr>
      else session)"

definition ratchet_encrypt ::
    "crypto_prims \<Rightarrow> Ratchet \<Rightarrow> bytes \<Rightarrow> bytes \<Rightarrow> mem \<Rightarrow> nat \<Rightarrow> nat \<Rightarrow> Ratchet \<times> mem \<times> nat option" where
  "ratchet_encrypt P session plaintext random m output max_output_length =
     (let output_length = ratchet_encrypt_output_length session (length plaintext)
      in if length random < ratchet_encrypt_random_length session
         then (session\<lparr>r_last_error := OLM_NOT_ENOUGH_RANDOM\<rparr>, m, None)
         else if max_output_length < output_length
         then (session\<lparr>r_last_error := OLM_OUTPUT_BUFFER_TOO_SMALL\<rparr>, m, None)
         else
           let session = start_sender_chain P session random;
               chain = sender_chain session ! 0;
               keys = create_message_keys (sc_chain_key chain);
               session = session\<lparr>sender_chain := (sender_chain session)
                 [0 := chain\<lparr>sc_chain_key := advance_chain_key (sc_chain_key chain)\<rparr>]\<rparr>;
               ciphertext_length = aes_sha_256_cipher_encrypt_ciphertext_length (length plaintext);
               counter = mk_index keys;
               ratchet_key = curve_public (sc_ratchet_key chain);
               (m, writer) = encode_message m PROTOCOL_VERSION counter CURVE25519_KEY_LENGTH
                 ciphertext_length output;
               m = store m (mw_ratchet_key writer) ratchet_key;
               (m, _) = aes_sha_256_cipher_encrypt (ratchet_cipher session) (mk_key keys) plaintext m
                 (mw_ciphertext writer) ciphertext_length output output_length
           in (session, m, Some output_length))"

section \<open>Decryption\<close>

definition ratchet_decrypt_max_plaintext_length ::
    "Ratchet \<Rightarrow> bytes \<Rightarrow> Ratchet \<times> nat option" where
  "ratchet_decrypt_max_plaintext_length session input =
     (let reader = decode_message input aes_sha_256_cipher_mac_length
      in if mr_ciphertext reader = None then (session\<lparr>r_last_error := OLM_BAD_MESSAGE_FORMAT\<rparr>, None)
         else (session, Some (aes_sha_256_cipher_decrypt_max_plaintext_length
                (mr_ciphertext_length reader))))"

text \<open>The first chain with the key, as an index.\<close>

fun find_chain :: "bytes \<Rightarrow> ReceiverChain list \<Rightarrow> nat option" where
  "find_chain key [] = None"
| "find_chain key (c # cs) =
     (if rc_ratchet_key c = key then Some 0 else map_option Suc (find_chain key cs))"

text \<open>
  The loop over the skipped keys: it tries every key that fits and stops at the first that
  decrypts, whose index it returns with the result.
\<close>

fun try_skipped ::
    "bytes \<Rightarrow> mem \<Rightarrow> nat \<Rightarrow> MessageReader \<Rightarrow> nat \<Rightarrow> nat \<Rightarrow> SkippedMessageKey list \<Rightarrow> nat
      \<Rightarrow> mem \<times> (nat \<times> nat) option" where
  "try_skipped cipher m input reader plaintext max_plaintext_length [] i = (m, None)"
| "try_skipped cipher m input reader plaintext max_plaintext_length (skipped # rest) i =
     (if mr_counter reader = mk_index (sk_message_key skipped)
         \<and> sk_ratchet_key skipped = reader_ratchet_key m input reader
      then
        let (m, result) = verify_mac_and_decrypt cipher (sk_message_key skipped) m input reader
              plaintext max_plaintext_length
        in case result of
             Some n \<Rightarrow> (m, Some (i, n))
           | None \<Rightarrow> try_skipped cipher m input reader plaintext max_plaintext_length rest (i + 1)
      else try_skipped cipher m input reader plaintext max_plaintext_length rest (i + 1))"

text \<open>The loop that stores the keys of the messages skipped over.\<close>

function store_skipped ::
    "bytes \<Rightarrow> ChainKey \<Rightarrow> u32 \<Rightarrow> SkippedMessageKey list \<Rightarrow> ChainKey \<times> SkippedMessageKey list" where
  "store_skipped ratchet_key chain counter skipped =
     (if ck_index chain < counter then
        let key = \<lparr>sk_ratchet_key = ratchet_key, sk_message_key = create_message_keys chain\<rparr>
        in store_skipped ratchet_key (advance_chain_key chain) counter
             (list_insert MAX_SKIPPED_MESSAGE_KEYS skipped 0 key)
      else (chain, skipped))"
  by pat_completeness auto
termination
  by (relation "measure (\<lambda>(k, c, n, s). unat n - unat (ck_index c))")
    (auto simp: advance_chain_key_def index_closer)

declare store_skipped.simps [simp del]

text \<open>The end of \<open>decrypt\<close>, when the message was accepted on the chain at index \<open>i\<close>.\<close>

definition accept_on_chain :: "Ratchet \<Rightarrow> nat \<Rightarrow> u32 \<Rightarrow> Ratchet" where
  "accept_on_chain session i counter =
     (let chain = receiver_chains session ! i;
          (chain_key, skipped) = store_skipped (rc_ratchet_key chain) (rc_chain_key chain) counter
            (skipped_message_keys session);
          chain_key = advance_chain_key chain_key
      in session\<lparr>receiver_chains := (receiver_chains session)[i := chain\<lparr>rc_chain_key := chain_key\<rparr>],
                 skipped_message_keys := skipped\<rparr>)"

text \<open>A new receiver chain: the root key moves on and our own ratchet key is dropped.\<close>

definition accept_new_chain :: "crypto_prims \<Rightarrow> Ratchet \<Rightarrow> bytes \<Rightarrow> Ratchet" where
  "accept_new_chain P session ratchet_key =
     (let (root, chain_key) = create_chain_key P (root_key session)
            (sc_ratchet_key (sender_chain session ! 0)) ratchet_key (kdf_info session)
      in session\<lparr>root_key := root,
           receiver_chains := list_insert MAX_RECEIVER_CHAINS (receiver_chains session) 0
             \<lparr>rc_ratchet_key = ratchet_key, rc_chain_key = chain_key\<rparr>,
           sender_chain := list_erase (sender_chain session) 0\<rparr>)"

text \<open>\<open>if (result == size_t(-1))\<close>: an error code that is already set stays.\<close>

definition ratchet_failed :: "Ratchet \<Rightarrow> OlmErrorCode \<Rightarrow> Ratchet" where
  "ratchet_failed session last_error =
     session\<lparr>r_last_error := (if last_error = OLM_SUCCESS then OLM_BAD_MESSAGE_MAC else last_error)\<rparr>"

text \<open>\<open>decrypt\<close> after its checks of the message: the search for the chain and what follows.\<close>

definition decrypt_with_chains ::
    "crypto_prims \<Rightarrow> Ratchet \<Rightarrow> mem \<Rightarrow> nat \<Rightarrow> MessageReader \<Rightarrow> nat \<Rightarrow> nat \<Rightarrow> bool \<Rightarrow> Ratchet \<times> mem \<times> nat option" where
  "decrypt_with_chains P session m input reader plaintext max_plaintext_length is_sequential =
     (let counter = mr_counter reader;
          ratchet_key = reader_ratchet_key m input reader
      in case find_chain ratchet_key (receiver_chains session) of
           None \<Rightarrow>
             (case verify_mac_and_decrypt_for_new_chain P session m input reader plaintext
                     max_plaintext_length (r_last_error session) of
                (m, e, None) \<Rightarrow> (ratchet_failed session e, m, None)
              | (m, e, Some n) \<Rightarrow>
                  (accept_on_chain
                     (accept_new_chain P session (reader_ratchet_key m input reader)) 0 counter,
                   m, Some n))
         | Some i \<Rightarrow>
             let chain_key = rc_chain_key (receiver_chains session ! i)
             in if is_sequential \<and> counter > ck_index chain_key
                then (session\<lparr>r_last_error := OLM_MESSAGE_OUT_OF_ORDER\<rparr>, m, None)
                else if ck_index chain_key > counter
                then
                  (case try_skipped (ratchet_cipher session) m input reader plaintext
                          max_plaintext_length (skipped_message_keys session) 0 of
                     (m, Some (j, n)) \<Rightarrow>
                       (session\<lparr>skipped_message_keys :=
                          list_erase (skipped_message_keys session) j\<rparr>, m, Some n)
                   | (m, None) \<Rightarrow>
                       (session\<lparr>r_last_error := OLM_ALREADY_DECRYPTED_OR_KEYS_SKIPPED\<rparr>, m, None))
                else
                  (case verify_mac_and_decrypt_for_existing_chain session chain_key m input reader
                          plaintext max_plaintext_length (r_last_error session) of
                     (m, e, None) \<Rightarrow> (ratchet_failed session e, m, None)
                   | (m, e, Some n) \<Rightarrow> (accept_on_chain session i counter, m, Some n)))"

definition ratchet_decrypt ::
    "crypto_prims \<Rightarrow> Ratchet \<Rightarrow> mem \<Rightarrow> nat \<Rightarrow> nat \<Rightarrow> nat \<Rightarrow> nat \<Rightarrow> bool \<Rightarrow> Ratchet \<times> mem \<times> nat option" where
  "ratchet_decrypt P session m input input_length plaintext max_plaintext_length is_sequential =
     (let reader = decode_message (load m input input_length) aes_sha_256_cipher_mac_length
      in if mr_version reader \<noteq> PROTOCOL_VERSION
         then (session\<lparr>r_last_error := OLM_BAD_MESSAGE_VERSION\<rparr>, m, None)
         else if \<not> mr_has_counter reader \<or> mr_ratchet_key reader = None \<or> mr_ciphertext reader = None
         then (session\<lparr>r_last_error := OLM_BAD_MESSAGE_FORMAT\<rparr>, m, None)
         else if max_plaintext_length
                < aes_sha_256_cipher_decrypt_max_plaintext_length (mr_ciphertext_length reader)
         then (session\<lparr>r_last_error := OLM_OUTPUT_BUFFER_TOO_SMALL\<rparr>, m, None)
         else if mr_ratchet_key_length reader \<noteq> CURVE25519_KEY_LENGTH
         then (session\<lparr>r_last_error := OLM_BAD_MESSAGE_FORMAT\<rparr>, m, None)
         else decrypt_with_chains P session m input reader plaintext max_plaintext_length is_sequential)"

section \<open>Well-formed ratchets\<close>

definition wf_ChainKey :: "ChainKey \<Rightarrow> bool" where
  "wf_ChainKey c \<longleftrightarrow> length (ck_key c) = 32"

definition wf_SenderChain :: "SenderChain \<Rightarrow> bool" where
  "wf_SenderChain c \<longleftrightarrow> wf_curve25519_key_pair (sc_ratchet_key c) \<and> wf_ChainKey (sc_chain_key c)"

definition wf_ReceiverChain :: "ReceiverChain \<Rightarrow> bool" where
  "wf_ReceiverChain c \<longleftrightarrow> length (rc_ratchet_key c) = 32 \<and> wf_ChainKey (rc_chain_key c)"

definition wf_SkippedMessageKey :: "SkippedMessageKey \<Rightarrow> bool" where
  "wf_SkippedMessageKey k \<longleftrightarrow> length (sk_ratchet_key k) = 32 \<and> length (mk_key (sk_message_key k)) = 32"

definition wf_Ratchet :: "Ratchet \<Rightarrow> bool" where
  "wf_Ratchet r \<longleftrightarrow>
     length (root_key r) = 32 \<and>
     length (sender_chain r) \<le> 1 \<and> (\<forall>c \<in> set (sender_chain r). wf_SenderChain c) \<and>
     length (receiver_chains r) \<le> MAX_RECEIVER_CHAINS \<and>
       (\<forall>c \<in> set (receiver_chains r). wf_ReceiverChain c) \<and>
     length (skipped_message_keys r) \<le> MAX_SKIPPED_MESSAGE_KEYS \<and>
       (\<forall>k \<in> set (skipped_message_keys r). wf_SkippedMessageKey k)"

end
