(* ===== verification/RatchetPickle.thy ===== *)
theory RatchetPickle
  imports Ratchet
begin

text \<open>
  The pickles of \<open>src/ratchet.cpp\<close>: the three kinds of chains, the whole ratchet, and the proof
  that reading a written ratchet gives it back.
\<close>

section \<open>Pickles\<close>

definition SenderChain_pickle_length :: "SenderChain \<Rightarrow> nat" where
  "SenderChain_pickle_length value =
     pickle_curve25519_key_pair_length (sc_ratchet_key value) + OLM_SHARED_KEY_LENGTH + 4"

definition SenderChain_pickle :: "mem \<Rightarrow> nat \<Rightarrow> SenderChain \<Rightarrow> mem \<times> nat" where
  "SenderChain_pickle m pos value =
     (let (m, pos) = pickle_curve25519_key_pair m pos (sc_ratchet_key value);
          (m, pos) = pickle_bytes m pos (ck_key (sc_chain_key value));
          (m, pos) = pickle_u32 m pos (ck_index (sc_chain_key value))
      in (m, pos))"

text \<open>The end of all three readers: the key and its index.\<close>

definition unpickle_ChainKey :: "ChainKey \<Rightarrow> bytes option \<Rightarrow> ChainKey \<times> bytes option" where
  "unpickle_ChainKey value pos =
     (let (key, pos) = unpickle_bytes OLM_SHARED_KEY_LENGTH (ck_key value) pos;
          value = value\<lparr>ck_key := key\<rparr>
      in if pos = None then (value, None)
         else
           let (index, pos) = unpickle_u32 (ck_index value) pos
           in (value\<lparr>ck_index := index\<rparr>, pos))"

definition SenderChain_unpickle :: "SenderChain \<Rightarrow> bytes option \<Rightarrow> SenderChain \<times> bytes option" where
  "SenderChain_unpickle value pos =
     (let (k, pos) = unpickle_curve25519_key_pair (sc_ratchet_key value) pos;
          value = value\<lparr>sc_ratchet_key := k\<rparr>
      in if pos = None then (value, None)
         else
           let (c, pos) = unpickle_ChainKey (sc_chain_key value) pos
           in (value\<lparr>sc_chain_key := c\<rparr>, pos))"

definition ReceiverChain_pickle_length :: "ReceiverChain \<Rightarrow> nat" where
  "ReceiverChain_pickle_length value =
     pickle_curve25519_public_key_length (rc_ratchet_key value) + OLM_SHARED_KEY_LENGTH + 4"

definition ReceiverChain_pickle :: "mem \<Rightarrow> nat \<Rightarrow> ReceiverChain \<Rightarrow> mem \<times> nat" where
  "ReceiverChain_pickle m pos value =
     (let (m, pos) = pickle_curve25519_public_key m pos (rc_ratchet_key value);
          (m, pos) = pickle_bytes m pos (ck_key (rc_chain_key value));
          (m, pos) = pickle_u32 m pos (ck_index (rc_chain_key value))
      in (m, pos))"

definition ReceiverChain_unpickle :: "ReceiverChain \<Rightarrow> bytes option \<Rightarrow> ReceiverChain \<times> bytes option" where
  "ReceiverChain_unpickle value pos =
     (let (k, pos) = unpickle_curve25519_public_key (rc_ratchet_key value) pos;
          value = value\<lparr>rc_ratchet_key := k\<rparr>
      in if pos = None then (value, None)
         else
           let (c, pos) = unpickle_ChainKey (rc_chain_key value) pos
           in (value\<lparr>rc_chain_key := c\<rparr>, pos))"

definition SkippedMessageKey_pickle_length :: "SkippedMessageKey \<Rightarrow> nat" where
  "SkippedMessageKey_pickle_length value =
     pickle_curve25519_public_key_length (sk_ratchet_key value) + OLM_SHARED_KEY_LENGTH + 4"

definition SkippedMessageKey_pickle :: "mem \<Rightarrow> nat \<Rightarrow> SkippedMessageKey \<Rightarrow> mem \<times> nat" where
  "SkippedMessageKey_pickle m pos value =
     (let (m, pos) = pickle_curve25519_public_key m pos (sk_ratchet_key value);
          (m, pos) = pickle_bytes m pos (mk_key (sk_message_key value));
          (m, pos) = pickle_u32 m pos (mk_index (sk_message_key value))
      in (m, pos))"

definition SkippedMessageKey_unpickle ::
    "SkippedMessageKey \<Rightarrow> bytes option \<Rightarrow> SkippedMessageKey \<times> bytes option" where
  "SkippedMessageKey_unpickle value pos =
     (let (k, pos) = unpickle_curve25519_public_key (sk_ratchet_key value) pos;
          value = value\<lparr>sk_ratchet_key := k\<rparr>
      in if pos = None then (value, None)
         else
           let (c, pos) = unpickle_ChainKey
                 \<lparr>ck_index = mk_index (sk_message_key value), ck_key = mk_key (sk_message_key value)\<rparr> pos
           in (value\<lparr>sk_message_key := \<lparr>mk_index = ck_index c, mk_key = ck_key c\<rparr>\<rparr>, pos))"

definition ratchet_pickle_length :: "Ratchet \<Rightarrow> nat" where
  "ratchet_pickle_length value =
     OLM_SHARED_KEY_LENGTH
     + pickle_list_length SenderChain_pickle_length (sender_chain value)
     + pickle_list_length ReceiverChain_pickle_length (receiver_chains value)
     + pickle_list_length SkippedMessageKey_pickle_length (skipped_message_keys value)"

definition ratchet_pickle :: "mem \<Rightarrow> nat \<Rightarrow> Ratchet \<Rightarrow> mem \<times> nat" where
  "ratchet_pickle m pos value =
     (let (m, pos) = pickle_bytes m pos (root_key value);
          (m, pos) = pickle_list SenderChain_pickle m pos (sender_chain value);
          (m, pos) = pickle_list ReceiverChain_pickle m pos (receiver_chains value);
          (m, pos) = pickle_list SkippedMessageKey_pickle m pos (skipped_message_keys value)
      in (m, pos))"

text \<open>What a slot of a list holds before it is filled; the slots start out as zeros.\<close>

definition zero_ChainKey :: ChainKey where
  "zero_ChainKey = \<lparr>ck_index = 0, ck_key = replicate 32 0\<rparr>"

definition zero_SenderChain :: SenderChain where
  "zero_SenderChain =
     \<lparr>sc_ratchet_key = \<lparr>curve_public = replicate 32 0, curve_private = replicate 32 0\<rparr>,
      sc_chain_key = zero_ChainKey\<rparr>"

definition zero_ReceiverChain :: ReceiverChain where
  "zero_ReceiverChain = \<lparr>rc_ratchet_key = replicate 32 0, rc_chain_key = zero_ChainKey\<rparr>"

definition zero_SkippedMessageKey :: SkippedMessageKey where
  "zero_SkippedMessageKey =
     \<lparr>sk_ratchet_key = replicate 32 0, sk_message_key = \<lparr>mk_index = 0, mk_key = replicate 32 0\<rparr>\<rparr>"

definition ratchet_unpickle :: "Ratchet \<Rightarrow> bytes option \<Rightarrow> bool \<Rightarrow> Ratchet \<times> bytes option" where
  "ratchet_unpickle value pos includes_chain_index =
     (let (k, pos) = unpickle_bytes OLM_SHARED_KEY_LENGTH (root_key value) pos;
          value = value\<lparr>root_key := k\<rparr>
      in if pos = None then (value, None)
         else
           let (l, pos) = unpickle_list SenderChain_unpickle zero_SenderChain 1 (sender_chain value) pos;
               value = value\<lparr>sender_chain := l\<rparr>
           in if pos = None then (value, None)
              else
                let (l, pos) = unpickle_list ReceiverChain_unpickle zero_ReceiverChain
                      MAX_RECEIVER_CHAINS (receiver_chains value) pos;
                    value = value\<lparr>receiver_chains := l\<rparr>
                in if pos = None then (value, None)
                   else
                     let (l, pos) = unpickle_list SkippedMessageKey_unpickle zero_SkippedMessageKey
                           MAX_SKIPPED_MESSAGE_KEYS (skipped_message_keys value) pos;
                         value = value\<lparr>skipped_message_keys := l\<rparr>
                     in if pos = None then (value, None)
                        else if includes_chain_index then
                          let (dummy, pos) = unpickle_u32 0 pos in (value, pos)
                        else (value, pos))"

section \<open>Formats\<close>

definition ser_ChainKey :: "ChainKey \<Rightarrow> bytes" where
  "ser_ChainKey c = ck_key c @ be_bytes 4 (ck_index c)"

definition ser_SenderChain :: "SenderChain \<Rightarrow> bytes" where
  "ser_SenderChain c = ser_curve25519_key_pair (sc_ratchet_key c) @ ser_ChainKey (sc_chain_key c)"

definition ser_ReceiverChain :: "ReceiverChain \<Rightarrow> bytes" where
  "ser_ReceiverChain c = rc_ratchet_key c @ ser_ChainKey (rc_chain_key c)"

definition ser_SkippedMessageKey :: "SkippedMessageKey \<Rightarrow> bytes" where
  "ser_SkippedMessageKey k =
     sk_ratchet_key k @ mk_key (sk_message_key k) @ be_bytes 4 (mk_index (sk_message_key k))"

definition ser_MessageKey :: "MessageKey \<Rightarrow> bytes" where
  "ser_MessageKey k = mk_key k @ be_bytes 4 (mk_index k)"

definition wf_MessageKey :: "MessageKey \<Rightarrow> bool" where
  "wf_MessageKey k \<longleftrightarrow> length (mk_key k) = 32"

definition unpickle_MessageKey :: "MessageKey \<Rightarrow> bytes option \<Rightarrow> MessageKey \<times> bytes option" where
  "unpickle_MessageKey value pos =
     (let (c, pos) = unpickle_ChainKey \<lparr>ck_index = mk_index value, ck_key = mk_key value\<rparr> pos
      in (\<lparr>mk_index = ck_index c, mk_key = ck_key c\<rparr>, pos))"

interpretation ChainKey_pair: format_pair
  "\<lambda>v. length v = 32 \<and> (0::nat) < 32" "\<lambda>v. v" length pickle_bytes "unpickle_bytes 32"
  "\<lambda>_. True" "be_bytes 4" "\<lambda>_. 4" pickle_u32 unpickle_u32
  ck_key ck_index "\<lambda>k (c :: ChainKey). c\<lparr>ck_key := k\<rparr>" "\<lambda>i (c :: ChainKey). c\<lparr>ck_index := i\<rparr>"
  by unfold_locales (auto intro!: ChainKey.equality)

interpretation ChainKey_format: pickle_format
  wf_ChainKey ser_ChainKey "\<lambda>c. length (ck_key c) + 4"
  "\<lambda>m pos c. let (m, pos) = pickle_bytes m pos (ck_key c) in pickle_u32 m pos (ck_index c)"
  unpickle_ChainKey
  by (rule ChainKey_pair.pair_format)
    (simp_all add: ser_ChainKey_def wf_ChainKey_def unpickle_ChainKey_def OLM_SHARED_KEY_LENGTH_def)

interpretation MessageKey_pair: format_pair
  "\<lambda>v. length v = 32 \<and> (0::nat) < 32" "\<lambda>v. v" length pickle_bytes "unpickle_bytes 32"
  "\<lambda>_. True" "be_bytes 4" "\<lambda>_. 4" pickle_u32 unpickle_u32
  mk_key mk_index "\<lambda>k (c :: MessageKey). c\<lparr>mk_key := k\<rparr>" "\<lambda>i (c :: MessageKey). c\<lparr>mk_index := i\<rparr>"
  by unfold_locales (auto intro!: MessageKey.equality)

interpretation MessageKey_format: pickle_format
  wf_MessageKey ser_MessageKey "\<lambda>c. length (mk_key c) + 4"
  "\<lambda>m pos c. let (m, pos) = pickle_bytes m pos (mk_key c) in pickle_u32 m pos (mk_index c)"
  unpickle_MessageKey
  by (rule MessageKey_pair.pair_format)
    (simp_all add: ser_MessageKey_def wf_MessageKey_def unpickle_MessageKey_def unpickle_ChainKey_def
      OLM_SHARED_KEY_LENGTH_def Let_def split: prod.split)

interpretation SenderChain_pair: format_pair
  wf_curve25519_key_pair ser_curve25519_key_pair pickle_curve25519_key_pair_length
  pickle_curve25519_key_pair unpickle_curve25519_key_pair
  wf_ChainKey ser_ChainKey "\<lambda>c. length (ck_key c) + 4"
  "\<lambda>m pos c. let (m, pos) = pickle_bytes m pos (ck_key c) in pickle_u32 m pos (ck_index c)"
  unpickle_ChainKey
  sc_ratchet_key sc_chain_key "\<lambda>k (c :: SenderChain). c\<lparr>sc_ratchet_key := k\<rparr>" "\<lambda>k (c :: SenderChain). c\<lparr>sc_chain_key := k\<rparr>"
  by unfold_locales (auto intro!: SenderChain.equality)

interpretation SenderChain_format: pickle_format
  wf_SenderChain ser_SenderChain SenderChain_pickle_length SenderChain_pickle SenderChain_unpickle
  by (rule SenderChain_pair.pair_format)
    (simp_all add: ser_SenderChain_def wf_SenderChain_def SenderChain_pickle_def SenderChain_pickle_length_def
      SenderChain_unpickle_def wf_ChainKey_def OLM_SHARED_KEY_LENGTH_def Let_def split: prod.split)

interpretation ReceiverChain_pair: format_pair
  "\<lambda>v. length v = 32" "\<lambda>v. v" pickle_curve25519_public_key_length
  pickle_curve25519_public_key unpickle_curve25519_public_key
  wf_ChainKey ser_ChainKey "\<lambda>c. length (ck_key c) + 4"
  "\<lambda>m pos c. let (m, pos) = pickle_bytes m pos (ck_key c) in pickle_u32 m pos (ck_index c)"
  unpickle_ChainKey
  rc_ratchet_key rc_chain_key "\<lambda>k (c :: ReceiverChain). c\<lparr>rc_ratchet_key := k\<rparr>" "\<lambda>k (c :: ReceiverChain). c\<lparr>rc_chain_key := k\<rparr>"
  by unfold_locales (auto intro!: ReceiverChain.equality)

interpretation ReceiverChain_format: pickle_format
  wf_ReceiverChain ser_ReceiverChain ReceiverChain_pickle_length ReceiverChain_pickle ReceiverChain_unpickle
  by (rule ReceiverChain_pair.pair_format)
    (simp_all add: ser_ReceiverChain_def wf_ReceiverChain_def ReceiverChain_pickle_def ReceiverChain_pickle_length_def
      ReceiverChain_unpickle_def wf_ChainKey_def OLM_SHARED_KEY_LENGTH_def Let_def split: prod.split)

interpretation SkippedMessageKey_pair: format_pair
  "\<lambda>v. length v = 32" "\<lambda>v. v" pickle_curve25519_public_key_length
  pickle_curve25519_public_key unpickle_curve25519_public_key
  wf_MessageKey ser_MessageKey "\<lambda>c. length (mk_key c) + 4"
  "\<lambda>m pos c. let (m, pos) = pickle_bytes m pos (mk_key c) in pickle_u32 m pos (mk_index c)"
  unpickle_MessageKey
  sk_ratchet_key sk_message_key "\<lambda>k (c :: SkippedMessageKey). c\<lparr>sk_ratchet_key := k\<rparr>" "\<lambda>k (c :: SkippedMessageKey). c\<lparr>sk_message_key := k\<rparr>"
  by unfold_locales (auto intro!: SkippedMessageKey.equality)

interpretation SkippedMessageKey_format: pickle_format
  wf_SkippedMessageKey ser_SkippedMessageKey SkippedMessageKey_pickle_length SkippedMessageKey_pickle SkippedMessageKey_unpickle
  by (rule SkippedMessageKey_pair.pair_format)
    (simp_all add: ser_SkippedMessageKey_def wf_SkippedMessageKey_def SkippedMessageKey_pickle_def SkippedMessageKey_pickle_length_def
      SkippedMessageKey_unpickle_def wf_MessageKey_def ser_MessageKey_def
      unpickle_MessageKey_def OLM_SHARED_KEY_LENGTH_def Let_def split: prod.split)


section \<open>The whole ratchet\<close>

lemmas chain_formats =
  SenderChain_format.pickle_list_eq ReceiverChain_format.pickle_list_eq
  SkippedMessageKey_format.pickle_list_eq

lemma wf_zero_chains [simp]:
  "wf_SenderChain zero_SenderChain" "wf_ReceiverChain zero_ReceiverChain"
  "wf_SkippedMessageKey zero_SkippedMessageKey"
  by (simp_all add: zero_SenderChain_def zero_ReceiverChain_def zero_SkippedMessageKey_def
      zero_ChainKey_def wf_SenderChain_def wf_ReceiverChain_def wf_SkippedMessageKey_def
      wf_ChainKey_def wf_curve25519_key_pair_def)

definition ser_Ratchet :: "Ratchet \<Rightarrow> bytes" where
  "ser_Ratchet r =
     root_key r @ ser_list ser_SenderChain (sender_chain r)
     @ ser_list ser_ReceiverChain (receiver_chains r)
     @ ser_list ser_SkippedMessageKey (skipped_message_keys r)"

lemma length_ser_Ratchet: "wf_Ratchet r \<Longrightarrow> length (ser_Ratchet r) = ratchet_pickle_length r"
  by (simp add: ser_Ratchet_def wf_Ratchet_def ratchet_pickle_length_def OLM_SHARED_KEY_LENGTH_def
      SenderChain_format.length_ser_list ReceiverChain_format.length_ser_list
      SkippedMessageKey_format.length_ser_list)

lemma ratchet_pickle_eq:
  assumes "wf_Ratchet r"
  shows "ratchet_pickle m pos r = (store m pos (ser_Ratchet r), pos + ratchet_pickle_length r)"
proof -
  let ?a = "root_key r" and ?b = "ser_list ser_SenderChain (sender_chain r)"
    and ?c = "ser_list ser_ReceiverChain (receiver_chains r)"
    and ?d = "ser_list ser_SkippedMessageKey (skipped_message_keys r)"
  have len: "length ?a = OLM_SHARED_KEY_LENGTH"
    "length ?b = pickle_list_length SenderChain_pickle_length (sender_chain r)"
    "length ?c = pickle_list_length ReceiverChain_pickle_length (receiver_chains r)"
    using assms by (simp_all add: wf_Ratchet_def SenderChain_format.length_ser_list
        ReceiverChain_format.length_ser_list OLM_SHARED_KEY_LENGTH_def)
  show ?thesis
    using assms store_store_append [of m pos ?a ?b] store_store_append [of m pos "?a @ ?b" ?c]
      store_store_append [of m pos "?a @ ?b @ ?c" ?d]
    by (simp add: ratchet_pickle_def wf_Ratchet_def pickle_bytes_def chain_formats ser_list_def [symmetric]
        ratchet_pickle_length_def len ser_Ratchet_def add.assoc)
qed

lemma ratchet_unpickle_ser:
  assumes "wf_Ratchet r" "sender_chain r0 = []" "receiver_chains r0 = []" "skipped_message_keys r0 = []"
  shows "ratchet_unpickle r0 (Some (ser_Ratchet r @ rest)) False =
    (r0\<lparr>root_key := root_key r, sender_chain := sender_chain r, receiver_chains := receiver_chains r,
        skipped_message_keys := skipped_message_keys r\<rparr>, Some rest)"
  using assms
    SenderChain_format.unpickle_list_ser [of "sender_chain r" zero_SenderChain 1]
    ReceiverChain_format.unpickle_list_ser [of "receiver_chains r" zero_ReceiverChain MAX_RECEIVER_CHAINS]
    SkippedMessageKey_format.unpickle_list_ser [of "skipped_message_keys r" zero_SkippedMessageKey
      MAX_SKIPPED_MESSAGE_KEYS]
  by (simp add: ratchet_unpickle_def ser_Ratchet_def ser_list_def wf_Ratchet_def OLM_SHARED_KEY_LENGTH_def
      unpickle_bytes_append MAX_RECEIVER_CHAINS_def MAX_SKIPPED_MESSAGE_KEYS_def)

section \<open>Properties\<close>

text \<open>Writing a ratchet with its chains and skipped keys and reading the bytes back into a fresh
  ratchet restores it, the reader stopping right behind it; the bytes written are as many as
  announced.\<close>

theorem ratchet_pickle_round_trip:
  assumes "wf_Ratchet r" "ratchet_pickle m p r = (m', q)"
  shows "q = p + ratchet_pickle_length r \<and> unchanged_outside p (ratchet_pickle_length r) m m' \<and>
    ratchet_unpickle (new_Ratchet info cipher) (Some (load m' p (ratchet_pickle_length r) @ rest)) False =
      ((new_Ratchet info cipher)\<lparr>root_key := root_key r, sender_chain := sender_chain r,
         receiver_chains := receiver_chains r, skipped_message_keys := skipped_message_keys r\<rparr>, Some rest)"
  using assms(2) ratchet_unpickle_ser [OF assms(1), of "new_Ratchet info cipher" rest]
    length_ser_Ratchet [OF assms(1)]
  by (auto simp: ratchet_pickle_eq [OF assms(1)] load_store_same new_Ratchet_def intro!: unchanged_outside_store)

definition sample_ratchet :: Ratchet where
  "sample_ratchet = (new_Ratchet \<lparr>root_info = [], ratchet_info = []\<rparr> [])
     \<lparr>receiver_chains := [zero_ReceiverChain], sender_chain := [zero_SenderChain],
      skipped_message_keys := [zero_SkippedMessageKey, zero_SkippedMessageKey]\<rparr>"

lemma ratchet_pickle_round_trip_witness:
  "snd (ratchet_unpickle (new_Ratchet \<lparr>root_info = [], ratchet_info = []\<rparr> [])
     (Some (load (fst (ratchet_pickle of_nat 7 sample_ratchet)) 7 (ratchet_pickle_length sample_ratchet) @ [1])) False)
   = Some [1]"
proof -
  have wf: "wf_Ratchet sample_ratchet"
    by (simp add: sample_ratchet_def wf_Ratchet_def new_Ratchet_def MAX_RECEIVER_CHAINS_def
        MAX_SKIPPED_MESSAGE_KEYS_def)
  obtain m' q where e: "ratchet_pickle of_nat 7 sample_ratchet = (m', q)" by fastforce
  show ?thesis using ratchet_pickle_round_trip [OF wf e, of "\<lparr>root_info = [], ratchet_info = []\<rparr>" "[]" "[1]"] by (simp add: e)
qed

end
