(* ===== verification/Megolm.thy ===== *)
theory Megolm
  imports Pickle Cipher
begin

text \<open>
  \<open>src/megolm.c\<close> and \<open>include/olm/megolm.h\<close>: the four part hash ratchet of group sessions.
  The main result is that \<open>megolm_advance_to\<close>, which skips ahead part by part, is the
  iteration of the single step \<open>megolm_advance\<close>, including the wrap-around of the counter.
\<close>

definition MEGOLM_CIPHER :: bytes where
  "MEGOLM_CIPHER = map of_char ''MEGOLM_KEYS''"

definition MEGOLM_RATCHET_PARTS :: nat where "MEGOLM_RATCHET_PARTS = 4"
definition MEGOLM_RATCHET_PART_LENGTH :: nat where "MEGOLM_RATCHET_PART_LENGTH = 32"
definition MEGOLM_RATCHET_LENGTH :: nat where
  "MEGOLM_RATCHET_LENGTH = MEGOLM_RATCHET_PARTS * MEGOLM_RATCHET_PART_LENGTH"

record Megolm =
  meg_data :: "bytes list"
  meg_counter :: u32

definition HASH_KEY_SEEDS :: "bytes list" where
  "HASH_KEY_SEEDS = [[0x00], [0x01], [0x02], [0x03]]"

definition rehash_part :: "bytes list \<Rightarrow> nat \<Rightarrow> nat \<Rightarrow> bytes list" where
  "rehash_part data rehash_from_part rehash_to_part =
     data[rehash_to_part :=
       olm_crypto_hmac_sha256 (data ! rehash_from_part) (HASH_KEY_SEEDS ! rehash_to_part)]"

text \<open>The two dimensional array as the flat bytes it is in memory, and back.\<close>

definition megolm_get_data :: "Megolm \<Rightarrow> bytes" where
  "megolm_get_data megolm = concat (meg_data megolm)"

definition split_parts :: "bytes \<Rightarrow> bytes list" where
  "split_parts bs = map (\<lambda>i. take 32 (drop (32 * i) bs)) [0..<MEGOLM_RATCHET_PARTS]"

definition megolm_init :: "bytes \<Rightarrow> u32 \<Rightarrow> Megolm" where
  "megolm_init random_data counter =
     \<lparr>meg_data = split_parts (take MEGOLM_RATCHET_LENGTH random_data), meg_counter = counter\<rparr>"

definition megolm_pickle_length :: "Megolm \<Rightarrow> nat" where
  "megolm_pickle_length megolm = MEGOLM_RATCHET_LENGTH + 4"

definition megolm_pickle :: "mem \<Rightarrow> nat \<Rightarrow> Megolm \<Rightarrow> mem \<times> nat" where
  "megolm_pickle m pos megolm =
     (let (m, pos) = pickle_bytes m pos (megolm_get_data megolm);
          (m, pos) = olm_pickle_uint32 m pos (meg_counter megolm)
      in (m, pos))"

definition megolm_unpickle :: "Megolm \<Rightarrow> bytes option \<Rightarrow> Megolm \<times> bytes option" where
  "megolm_unpickle megolm pos =
     (let (bs, pos) = unpickle_bytes MEGOLM_RATCHET_LENGTH (megolm_get_data megolm) pos;
          megolm = megolm\<lparr>meg_data := split_parts bs\<rparr>
      in if pos = None then (megolm, None)
         else
           let (counter, pos) = olm_unpickle_uint32 (meg_counter megolm) pos;
               megolm = megolm\<lparr>meg_counter := counter\<rparr>
           in if pos = None then (megolm, None) else (megolm, pos))"

section \<open>Advancing\<close>

text \<open>How much to rekey: the loop that shifts the mask.\<close>

function rekey_from :: "u32 \<Rightarrow> nat \<Rightarrow> u32 \<Rightarrow> nat" where
  "rekey_from counter h rekey_mask =
     (if h < MEGOLM_RATCHET_PARTS then
        if counter AND rekey_mask = 0 then h else rekey_from counter (h + 1) (drop_bit 8 rekey_mask)
      else h)"
  by pat_completeness auto
termination by (relation "measure (\<lambda>(c, h, m). MEGOLM_RATCHET_PARTS - h)") auto

declare rekey_from.simps [simp del]

definition megolm_advance :: "Megolm \<Rightarrow> Megolm" where
  "megolm_advance megolm =
     (let megolm = megolm\<lparr>meg_counter := meg_counter megolm + 1\<rparr>;
          h = rekey_from (meg_counter megolm) 0 0x00FFFFFF
      in megolm\<lparr>meg_data :=
           foldl (\<lambda>data i. rehash_part data h i) (meg_data megolm) (rev [h..<MEGOLM_RATCHET_PARTS])\<rparr>)"

text \<open>The loop \<open>while (steps > 1)\<close> for \<open>n\<close> rounds, and the body of the outer loop for part \<open>j\<close>.\<close>

fun rehash_rounds :: "nat \<Rightarrow> nat \<Rightarrow> bytes list \<Rightarrow> bytes list" where
  "rehash_rounds j 0 data = data"
| "rehash_rounds j (Suc n) data = rehash_rounds j n (rehash_part data j j)"

definition advance_part :: "u32 \<Rightarrow> Megolm \<Rightarrow> nat \<Rightarrow> Megolm" where
  "advance_part advance_to megolm j =
     (let shift = (MEGOLM_RATCHET_PARTS - j - 1) * 8;
          mask = push_bit shift (NOT (0 :: u32));
          steps = (drop_bit shift advance_to - drop_bit shift (meg_counter megolm)) AND 0xFF
      in if steps = 0 \<and> \<not> advance_to < meg_counter megolm then megolm
         else
           let steps = (if steps = 0 then 0x100 else steps);
               data = rehash_rounds j (unat steps - 1) (meg_data megolm);
               data = foldl (\<lambda>data k. rehash_part data j k) data (rev [j..<4])
           in \<lparr>meg_data = data, meg_counter = advance_to AND mask\<rparr>)"

definition megolm_advance_to :: "Megolm \<Rightarrow> u32 \<Rightarrow> Megolm" where
  "megolm_advance_to megolm advance_to =
     foldl (advance_part advance_to) megolm [0..<MEGOLM_RATCHET_PARTS]"

section \<open>The shape of the ratchet\<close>

definition wf_megolm :: "Megolm \<Rightarrow> bool" where
  "wf_megolm megolm \<longleftrightarrow> length (meg_data megolm) = 4 \<and> (\<forall>p \<in> set (meg_data megolm). length p = 32)"

lemma upt_4 [simp]: "[0..<4] = [0, 1, 2, 3 :: nat]" "[0..<MEGOLM_RATCHET_PARTS] = [0, 1, 2, 3]"
  by (simp_all add: MEGOLM_RATCHET_PARTS_def upt_conv_Cons numeral_eq_Suc)

lemma four_parts: "length ps = 4 \<Longrightarrow> \<exists>a b c d. ps = [a, b, c, d]"
  by (auto simp: eval_nat_numeral length_Suc_conv)

lemma length_megolm_data [simp, len_simps]:
  "wf_megolm megolm \<Longrightarrow> length (megolm_get_data megolm) = 128"
  using four_parts [of "meg_data megolm"] by (auto simp: wf_megolm_def megolm_get_data_def)

lemma split_parts_concat:
  assumes "length ps = 4" "\<forall>p \<in> set ps. length p = 32"
  shows "split_parts (concat ps) = ps"
proof -
  from four_parts [OF assms(1)] obtain a b c d where "ps = [a, b, c, d]" by blast
  with assms show ?thesis by (simp add: split_parts_def)
qed

lemma concat_split_parts:
  assumes "length bs = 128"
  shows "concat (split_parts bs) = bs"
proof -
  have "take 32 xs @ drop 32 xs = xs" for xs :: bytes by simp
  from this [of bs] this [of "drop 32 bs"] this [of "drop 64 bs"]
  have "take 32 bs @ take 32 (drop 32 bs) @ take 32 (drop 64 bs) @ drop 96 bs = bs" by simp
  moreover have "take 32 (drop 96 bs) = drop 96 bs" using assms by simp
  ultimately have "take 32 bs @ take 32 (drop 32 bs) @ take 32 (drop 64 bs) @ take 32 (drop 96 bs) = bs"
    by simp
  then show ?thesis by (simp add: split_parts_def)
qed

lemma length_rehash_part [simp]: "length (rehash_part data i j) = length data"
  by (simp add: rehash_part_def)

lemma HASH_KEY_SEEDS_nth: "i < 4 \<Longrightarrow> HASH_KEY_SEEDS ! i = [of_nat i]"
  by (auto simp: HASH_KEY_SEEDS_def less_Suc_eq numeral_eq_Suc)

text \<open>The keyed hash of one part, and the update of the parts from \<open>h\<close> on.\<close>

definition part_hash :: "nat \<Rightarrow> bytes \<Rightarrow> bytes" where
  "part_hash i p = olm_crypto_hmac_sha256 p (HASH_KEY_SEEDS ! i)"

definition bump :: "nat \<Rightarrow> bytes list \<Rightarrow> bytes list" where
  "bump h data = foldl (\<lambda>data i. rehash_part data h i) data (rev [h..<4])"

lemma less_4_cases: "(i :: nat) < 4 \<Longrightarrow> i = 0 \<or> i = 1 \<or> i = 2 \<or> i = 3"
  by linarith

lemma rev_upt_4:
  "rev [0..<4] = [3, 2, 1, 0 :: nat]" "rev [1..<4] = [3, 2, 1 :: nat]"
  "rev [2..<4] = [3, 2 :: nat]" "rev [3..<4] = [3 :: nat]"
  by (simp_all add: upt_conv_Cons eval_nat_numeral)

lemma bump_cases:
  "bump 0 [a, b, c, d] = [part_hash 0 a, part_hash 1 a, part_hash 2 a, part_hash 3 a]"
  "bump 1 [a, b, c, d] = [a, part_hash 1 b, part_hash 2 b, part_hash 3 b]"
  "bump 2 [a, b, c, d] = [a, b, part_hash 2 c, part_hash 3 c]"
  "bump 3 [a, b, c, d] = [a, b, c, part_hash 3 d]"
  unfolding bump_def rev_upt_4
  by (simp_all add: rehash_part_def part_hash_def eval_nat_numeral)

lemma length_bump [simp]: "length (bump h data) = length data"
proof -
  have "length (foldl (\<lambda>data i. rehash_part data h i) data is) = length data" for "is" data
    by (induction "is" arbitrary: data) simp_all
  then show ?thesis by (simp add: bump_def)
qed

lemma nth_bump:
  assumes "length data = 4" "h < 4" "i < 4"
  shows "bump h data ! i = (if i < h then data ! i else part_hash i (data ! h))"
  using four_parts [OF assms(1)] less_4_cases [OF assms(2)] less_4_cases [OF assms(3)]
  by (auto simp: bump_cases bump_cases(2) [unfolded One_nat_def])

lemma rehash_rounds_nth:
  "length data = 4 \<Longrightarrow> j < 4 \<Longrightarrow>
     length (rehash_rounds j n data) = 4 \<and>
     (\<forall>i < 4. rehash_rounds j n data ! i = (if i = j then (part_hash j ^^ n) (data ! j) else data ! i))"
proof (induction n arbitrary: data)
  case (Suc n)
  then show ?case
    by (auto simp: rehash_part_def part_hash_def nth_list_update funpow_swap1)
qed simp

section \<open>Single steps on natural numbers\<close>

text \<open>
  A counter that has not wrapped: \<open>of_nat N\<close> is the code's counter.  Part \<open>j\<close> changes at
  the multiples of \<open>part_block j\<close>.
\<close>

definition part_block :: "nat \<Rightarrow> nat" where
  "part_block j = 256 ^ (3 - j)"

definition level :: "nat \<Rightarrow> nat" where
  "level N = (if part_block 0 dvd N then 0 else if part_block 1 dvd N then 1
              else if part_block 2 dvd N then 2 else 3)"

lemma part_block_cases [simp]:
  "part_block 0 = 0x1000000" "part_block 1 = 0x10000" "part_block (Suc 0) = 0x10000"
  "part_block 2 = 0x100" "part_block 3 = 1"
  by (simp_all add: part_block_def)

lemma part_block_pos [simp]: "0 < part_block j"
  by (simp add: part_block_def)

lemma level_less [simp]: "level N < 4"
  by (simp add: level_def)

lemma level_ge: "j < 4 \<Longrightarrow> \<not> part_block j dvd N \<Longrightarrow> j < level N"
proof -
  have "0x100 dvd N" if "0x10000 dvd N" using that dvd_trans [of "0x100" "0x10000" N] by simp
  moreover have "0x10000 dvd N" if "0x1000000 dvd N"
    using that dvd_trans [of "0x10000" "0x1000000" N] by simp
  ultimately show "j < 4 \<Longrightarrow> \<not> part_block j dvd N \<Longrightarrow> j < level N"
    using less_4_cases [of j] by (auto simp: level_def)
qed

lemma level_eq: "j < 4 \<Longrightarrow> part_block j dvd N \<Longrightarrow> (0 < j \<Longrightarrow> \<not> part_block (j - 1) dvd N) \<Longrightarrow> level N = j"
  using level_ge [of "j - 1" N] less_4_cases [of j] by (auto simp: level_def)

lemma and_low_bits_of_nat:
  assumes "k \<le> 32"
  shows "((of_nat N :: u32) AND mask k = 0) = (2 ^ k dvd N)"
proof -
  have "((of_nat N :: u32) AND mask k = 0) = (take_bit k (of_nat N :: u32) = 0)"
    by (simp add: take_bit_eq_mask)
  also have "\<dots> = (unat (take_bit k (of_nat N :: u32)) = 0)"
    by (simp add: unat_eq_zero)
  also have "unat (take_bit k (of_nat N :: u32)) = take_bit k (take_bit 32 N)"
    by (simp add: unsigned_take_bit_eq unsigned_of_nat)
  also have "\<dots> = N mod 2 ^ k"
    using assms by (simp add: min_def) (simp add: take_bit_eq_mod)
  finally show ?thesis by (simp add: dvd_eq_mod_eq_0)
qed

lemma rekey_from_of_nat: "rekey_from (of_nat N) 0 0x00FFFFFF = level N"
proof -
  have masks: "(0x00FFFFFF :: u32) = mask 24" "drop_bit 8 (mask 24 :: u32) = mask 16"
    "drop_bit 8 (mask 16 :: u32) = mask 8" "drop_bit 8 (mask 8 :: u32) = mask 0"
    by (simp_all add: mask_eq_exp_minus_1)
  have eq0: "(of_nat N AND mask 0 = (0 :: u32)) = True" by simp
  show ?thesis
    unfolding masks(1)
    by (subst rekey_from.simps, subst rekey_from.simps, subst rekey_from.simps, subst rekey_from.simps)
      (simp add: MEGOLM_RATCHET_PARTS_def level_def masks(2-4) and_low_bits_of_nat eq0
        eval_nat_numeral(2) [symmetric] del: mask_0 flip: One_nat_def)
qed

lemma megolm_advance_of_nat:
  "megolm_advance \<lparr>meg_data = data, meg_counter = of_nat N\<rparr> =
     \<lparr>meg_data = bump (level (Suc N)) data, meg_counter = of_nat (Suc N)\<rparr>"
  using rekey_from_of_nat [of "Suc N"]
  by (simp add: megolm_advance_def bump_def MEGOLM_RATCHET_PARTS_def Let_def add.commute)

text \<open>While no multiple of its block is passed, part \<open>j\<close> and the parts before it stay.\<close>

lemma advance_within_block:
  assumes "length data = 4" "j < 4" "\<And>K. N < K \<Longrightarrow> K \<le> N + k \<Longrightarrow> \<not> part_block j dvd K"
  shows "\<exists>data'. (megolm_advance ^^ k) \<lparr>meg_data = data, meg_counter = of_nat N\<rparr>
      = \<lparr>meg_data = data', meg_counter = of_nat (N + k)\<rparr>
    \<and> length data' = 4 \<and> (\<forall>i \<le> j. data' ! i = data ! i)"
  using assms(3)
proof (induction k)
  case (Suc k)
  then obtain data' where IH:
    "(megolm_advance ^^ k) \<lparr>meg_data = data, meg_counter = of_nat N\<rparr>
      = \<lparr>meg_data = data', meg_counter = of_nat (N + k)\<rparr>"
    "length data' = 4" "\<forall>i \<le> j. data' ! i = data ! i" by auto
  have "j < level (Suc (N + k))"
    using Suc.prems [of "Suc (N + k)"] assms(2) by (intro level_ge) auto
  then have "bump (level (Suc (N + k))) data' ! i = data ! i" if "i \<le> j" for i
    using IH(2,3) that assms(2) nth_bump [OF IH(2) level_less, of i "Suc (N + k)"] by simp
  moreover have "(megolm_advance ^^ Suc k) \<lparr>meg_data = data, meg_counter = of_nat N\<rparr>
      = \<lparr>meg_data = bump (level (Suc (N + k))) data', meg_counter = of_nat (N + Suc k)\<rparr>"
    unfolding funpow.simps comp_apply IH(1) megolm_advance_of_nat by simp
  ultimately show ?case using IH(2) by (intro exI) auto
qed (use assms in auto)

text \<open>What passing \<open>s\<close> multiples of the block of part \<open>j\<close> does to the ratchet.\<close>

definition jump :: "nat \<Rightarrow> nat \<Rightarrow> bytes list \<Rightarrow> bytes list" where
  "jump j s data = bump j (rehash_rounds j (s - 1) data)"

lemma nth_jump:
  assumes "length data = 4" "j < 4" "i < 4"
  shows "jump j s data ! i =
    (if i < j then data ! i else part_hash i ((part_hash j ^^ (s - 1)) (data ! j)))"
  using assms rehash_rounds_nth [OF assms(1,2), of "s - 1"] by (simp add: jump_def nth_bump)

lemma length_jump [simp]: "length data = 4 \<Longrightarrow> j < 4 \<Longrightarrow> length (jump j s data) = 4"
  using rehash_rounds_nth [of data j "s - 1"] by (simp add: jump_def)

lemma jump_one_more:
  assumes "length data = 4" "j < 4" "0 < s"
  shows "jump j 1 (jump j s data) = jump j (Suc s) data"
proof (rule nth_equalityI)
  fix i assume "i < length (jump j 1 (jump j s data))"
  moreover obtain s' where "s = Suc s'" using assms(3) by (cases s) auto
  ultimately show "jump j 1 (jump j s data) ! i = jump j (Suc s) data ! i"
    using assms by (simp add: nth_jump)
qed (use assms in simp)

text \<open>From anywhere to the next multiple of the block.\<close>

lemma advance_to_next_block:
  assumes "length data = 4" "j < 4" "N < t" "part_block j dvd t" "t \<le> N + part_block j"
    and "0 < j \<Longrightarrow> \<not> part_block (j - 1) dvd t"
  shows "(megolm_advance ^^ (t - N)) \<lparr>meg_data = data, meg_counter = of_nat N\<rparr>
    = \<lparr>meg_data = jump j 1 data, meg_counter = of_nat t\<rparr>"
proof -
  define k where "k = t - N - 1"
  have t: "t = Suc (N + k)" "t - N = Suc k" using assms(3) by (auto simp: k_def)
  have "\<not> part_block j dvd K" if "N < K" "K \<le> N + k" for K
  proof
    assume "part_block j dvd K"
    with assms(4) have "part_block j dvd t - K" by (simp add: dvd_diff_nat)
    then have "part_block j \<le> t - K" using that t by (intro dvd_imp_le) auto
    then show False using that assms(5) t by linarith
  qed
  from advance_within_block [OF assms(1,2) this] obtain data' where within:
    "(megolm_advance ^^ k) \<lparr>meg_data = data, meg_counter = of_nat N\<rparr>
      = \<lparr>meg_data = data', meg_counter = of_nat (N + k)\<rparr>"
    "length data' = 4" "\<forall>i \<le> j. data' ! i = data ! i" by blast
  have lev: "level t = j" by (rule level_eq [OF assms(2,4,6)])
  have "bump j data' ! i = jump j 1 data ! i" if "i < 4" for i
    using within(3) nth_bump [OF within(2) assms(2) that] nth_jump [OF assms(1,2) that, of 1] by simp
  then have "bump j data' = jump j 1 data"
    using within(2) assms(1,2) by (intro nth_equalityI) simp_all
  moreover have "Suc (N + k) = t" using t by simp
  ultimately show ?thesis
    unfolding t(2) funpow.simps comp_apply within(1) megolm_advance_of_nat using lev by simp
qed

text \<open>
  From anywhere to a multiple of the block of part \<open>j\<close> with no multiple of the next larger
  block between.
\<close>

lemma advance_to_block:
  assumes "length data = 4" "j < 4" "part_block j * q > N"
    and "s = q - N div part_block j"
    and "\<And>K. 0 < j \<Longrightarrow> N < K \<Longrightarrow> K \<le> part_block j * q \<Longrightarrow> \<not> part_block (j - 1) dvd K"
  shows "0 < s \<and> (megolm_advance ^^ (part_block j * q - N)) \<lparr>meg_data = data, meg_counter = of_nat N\<rparr>
    = \<lparr>meg_data = jump j s data, meg_counter = of_nat (part_block j * q)\<rparr>"
  using assms(3-5)
proof (induction s arbitrary: q)
  case 0
  have "N div part_block j < q"
    using 0(1) by (metis less_mult_imp_div_less mult.commute)
  then show ?case using 0 by simp
next
  case (Suc s)
  let ?B = "part_block j"
  let ?t = "?B * q" and ?t' = "?B * (q - 1)"
  have q: "0 < q" using Suc.prems(1) by (cases q) auto
  then have t: "?t = ?t' + ?B" by (cases q) auto
  show ?case
  proof (cases "s = 0")
    case True
    then have "N div ?B = q - 1" using Suc.prems(2) by simp
    then have "?t' \<le> N" by (metis div_times_less_eq_dividend mult.commute)
    then have "(megolm_advance ^^ (?t - N)) \<lparr>meg_data = data, meg_counter = of_nat N\<rparr>
        = \<lparr>meg_data = jump j 1 data, meg_counter = of_nat ?t\<rparr>"
      using assms(1,2) Suc.prems(1,3) t by (intro advance_to_next_block) auto
    with True show ?thesis by simp
  next
    case False
    then have "N div ?B < q - 1" using Suc.prems(2) by simp
    then have less: "N < ?t'" by (metis div_less_iff_less_mult mult.commute part_block_pos)
    have s: "s = (q - 1) - N div ?B" using Suc.prems(2) by simp
    have IH: "(megolm_advance ^^ (?t' - N)) \<lparr>meg_data = data, meg_counter = of_nat N\<rparr>
        = \<lparr>meg_data = jump j s data, meg_counter = of_nat ?t'\<rparr>"
      using Suc.IH [OF less s] Suc.prems(3) t by auto
    have step: "(megolm_advance ^^ (?t - ?t')) \<lparr>meg_data = jump j s data, meg_counter = of_nat ?t'\<rparr>
        = \<lparr>meg_data = jump j 1 (jump j s data), meg_counter = of_nat ?t\<rparr>"
      using assms(1,2) Suc.prems(1,3) less t by (intro advance_to_next_block) auto
    have "?t - N = (?t - ?t') + (?t' - N)" using less t by simp
    moreover have "jump j 1 (jump j s data) = jump j (Suc s) data"
      using False by (intro jump_one_more assms(1,2)) simp
    ultimately have "(megolm_advance ^^ (?t - N)) \<lparr>meg_data = data, meg_counter = of_nat N\<rparr>
        = \<lparr>meg_data = jump j (Suc s) data, meg_counter = of_nat ?t\<rparr>"
      unfolding \<open>?t - N = _\<close> funpow_add comp_apply IH using step by simp
    then show ?thesis by simp
  qed
qed

section \<open>Skipping ahead is iterated stepping\<close>

lemma part_block_shift: "j < 4 \<Longrightarrow> part_block j = 2 ^ ((MEGOLM_RATCHET_PARTS - j - 1) * 8)"
  using less_4_cases [of j] by (auto simp: MEGOLM_RATCHET_PARTS_def)

lemma uint_drop_bit_u32: "uint (drop_bit n w) = uint (w :: u32) div 2 ^ n"
  using unsigned_less [of w, where ?'a = int]
  by (simp add: unsigned_drop_bit_eq) (simp add: take_bit_eq_mod drop_bit_eq_div)

lemma uint_drop_bit_of_nat:
  assumes "sh + k = 32"
  shows "uint (drop_bit sh (of_nat T :: u32)) = int (T div 2 ^ sh) mod 2 ^ k"
proof -
  have "uint (drop_bit sh (of_nat T :: u32)) = int T mod 2 ^ 32 div 2 ^ sh"
    unfolding uint_drop_bit_u32 unsigned_of_nat take_bit_eq_mod by (simp add: zmod_int)
  also have "(2 :: int) ^ 32 = 2 ^ sh * 2 ^ k" using assms by (simp flip: power_add)
  also have "int T mod (2 ^ sh * 2 ^ k) div 2 ^ sh = int T div 2 ^ sh mod 2 ^ k"
    by (simp add: zmod_zmult2_eq)
  finally show ?thesis by (simp add: zdiv_int)
qed

lemma steps_eq:
  assumes "sh + (8 + k) = 32" "P \<le> T"
  shows "unat ((drop_bit sh (of_nat T :: u32) - drop_bit sh (of_nat P)) AND 0xFF) =
    (T div 2 ^ sh - P div 2 ^ sh) mod 256"
proof -
  let ?a = "drop_bit sh (of_nat T :: u32)" and ?b = "drop_bit sh (of_nat P :: u32)"
  let ?x = "int (T div 2 ^ sh)" and ?y = "int (P div 2 ^ sh)"
  have "uint ((?a - ?b) AND 0xFF) = uint (take_bit 8 (?a - ?b))"
    by (simp add: take_bit_eq_mask mask_eq_exp_minus_1)
  also have "\<dots> = uint (?a - ?b) mod 256"
    unfolding unsigned_take_bit_eq unfolding take_bit_eq_mod by simp
  also have "\<dots> = (uint ?a - uint ?b) mod 256"
    by (simp add: uint_word_ariths(2) mod_mod_cancel)
  also have "\<dots> = (?x mod 2 ^ (8 + k) - ?y mod 2 ^ (8 + k)) mod 256"
    using uint_drop_bit_of_nat [OF assms(1), of T] uint_drop_bit_of_nat [OF assms(1), of P] by simp
  also have "\<dots> = (?x mod 2 ^ (8 + k) mod 256 - ?y mod 2 ^ (8 + k) mod 256) mod 256"
    by (simp add: mod_diff_eq)
  also have "\<dots> = (?x mod 256 - ?y mod 256) mod 256"
    by (simp add: power_add mod_mult2_eq mod_mod_cancel)
  also have "\<dots> = (?x - ?y) mod 256"
    by (rule mod_diff_eq)
  also have "\<dots> = int ((T div 2 ^ sh - P div 2 ^ sh) mod 256)"
    using div_le_mono [OF assms(2), of "2 ^ sh"] by (simp add: zmod_int of_nat_diff)
  finally have "int (unat ((?a - ?b) AND 0xFF)) = int ((T div 2 ^ sh - P div 2 ^ sh) mod 256)"
    by simp
  then show ?thesis by (simp only: of_nat_eq_iff)
qed

lemma of_nat_floor:
  "(of_nat T :: u32) AND push_bit sh (NOT 0) = of_nat (2 ^ sh * (T div 2 ^ sh))"
proof -
  have "2 ^ sh * (T div 2 ^ sh) = push_bit sh (drop_bit sh T)"
    by (simp add: push_bit_eq_mult drop_bit_eq_div)
  moreover have "(of_nat T :: u32) AND push_bit sh (NOT 0) = of_nat (push_bit sh (drop_bit sh T))"
    by (rule bit_word_eqI) (auto simp: bit_simps)
  ultimately show ?thesis by simp
qed

lemma advance_part_of_nat:
  assumes "j < 4" "P \<le> T"
  defines "s \<equiv> T div part_block j - P div part_block j"
  assumes "s \<le> 256" "s = 256 \<Longrightarrow> (of_nat T :: u32) < of_nat P" "s = 0 \<Longrightarrow> \<not> (of_nat T :: u32) < of_nat P"
  shows "advance_part (of_nat T) \<lparr>meg_data = data, meg_counter = of_nat P\<rparr> j =
    (if s = 0 then \<lparr>meg_data = data, meg_counter = of_nat P\<rparr>
     else \<lparr>meg_data = jump j s data, meg_counter = of_nat (part_block j * (T div part_block j))\<rparr>)"
proof -
  define sh where "sh = (MEGOLM_RATCHET_PARTS - j - 1) * 8"
  define w where "w = (drop_bit sh (of_nat T :: u32) - drop_bit sh (of_nat P)) AND 0xFF"
  have B: "part_block j = 2 ^ sh" unfolding sh_def by (rule part_block_shift [OF assms(1)])
  have "sh + (8 + 8 * j) = 32" using assms(1) by (simp add: sh_def MEGOLM_RATCHET_PARTS_def)
  then have u: "unat w = s mod 256" using steps_eq assms(2) B s_def w_def by simp
  then have zero: "(w = 0) = (s mod 256 = 0)" by (metis unat_eq_zero)
  have rounds: "unat (if w = 0 then 0x100 else w) = s" if "s \<noteq> 0"
  proof (cases "s = 256")
    case False
    then have "s < 256" using assms(4) by simp
    then show ?thesis using u zero that by simp
  qed (use zero in simp)
  have skip: "(w = 0 \<and> \<not> (of_nat T :: u32) < of_nat P) = (s = 0)"
    using zero assms(4-6) by (cases "s = 256"; cases "s = 0") auto
  show ?thesis
    unfolding advance_part_def Let_def Megolm.simps sh_def [symmetric] w_def [symmetric] of_nat_floor
      skip B
    by (cases "s = 0") (simp_all add: rounds jump_def bump_def del: of_nat_mult split del: if_split)
qed

text \<open>
  The state before part \<open>j\<close>: some steps have been made, to a counter \<open>P\<close> that agrees with
  the target in all parts before \<open>j\<close>.
\<close>

definition part_reached :: "Megolm \<Rightarrow> nat \<Rightarrow> nat \<Rightarrow> nat \<Rightarrow> nat \<Rightarrow> Megolm \<Rightarrow> bool" where
  "part_reached m0 N T j P m \<longleftrightarrow>
     N \<le> P \<and> P \<le> T \<and> m = (megolm_advance ^^ (P - N)) m0 \<and>
     length (meg_data m) = 4 \<and> meg_counter m = of_nat P \<and>
     (if j = 0 then P = N else P div part_block (j - 1) = T div part_block (j - 1))"

lemma word_less_of_nat: "((of_nat a :: u32) < of_nat b) = (a mod 2 ^ 32 < b mod 2 ^ 32)"
  by (simp add: word_less_nat_alt unat_of_nat)

lemma first_part_steps:
  assumes "N < 2 ^ 32" "N \<le> T" "T < N + 2 ^ 32"
  defines "s \<equiv> T div part_block 0 - N div part_block 0"
  shows "s \<le> 256" "s = 256 \<Longrightarrow> (of_nat T :: u32) < of_nat N" "s = 0 \<Longrightarrow> \<not> (of_nat T :: u32) < of_nat N"
proof -
  have N: "N div 2 ^ 24 < 256" using assms(1) by (simp add: div_less_iff_less_mult)
  have T: "2 ^ 24 * (T div 2 ^ 24) \<le> T" "T < 2 ^ 24 * (T div 2 ^ 24) + 2 ^ 24"
    "2 ^ 24 * (N div 2 ^ 24) \<le> N" "N < 2 ^ 24 * (N div 2 ^ 24) + 2 ^ 24"
    by (simp_all add: dividend_less_times_div)
  have s: "s = T div 2 ^ 24 - N div 2 ^ 24" by (simp add: s_def)
  show "s \<le> 256" using s T assms(3) by simp
  show "(of_nat T :: u32) < of_nat N" if "s = 256"
  proof -
    have "2 ^ 32 \<le> T" "T < 2 * 2 ^ 32" using s that T assms(1,3) N by simp_all
    then have "T mod 2 ^ 32 = T - 2 ^ 32" by (simp add: le_mod_geq)
    then show ?thesis using assms(1,3) \<open>2 ^ 32 \<le> T\<close> by (simp add: word_less_of_nat)
  qed
  show "\<not> (of_nat T :: u32) < of_nat N" if "s = 0"
  proof -
    have "T < 2 ^ 32" using s that T N by simp
    then show ?thesis using assms(1,2) by (simp add: word_less_of_nat)
  qed
qed

lemma later_part_steps:
  assumes "0 < j" "j < 4" "P \<le> T" "P div part_block (j - 1) = T div part_block (j - 1)"
  defines "s \<equiv> T div part_block j - P div part_block j"
  shows "s < 256" "\<not> (of_nat T :: u32) < of_nat P"
proof -
  have B: "part_block (j - 1) = part_block j * 256"
    using assms(1,2) less_4_cases [of j] by auto
  then have "P div part_block j div 256 = T div part_block j div 256"
    using assms(4) by (simp add: div_mult2_eq)
  then show "s < 256" unfolding s_def by linarith
  obtain k where k: "(2 :: nat) ^ 32 = part_block (j - 1) * k"
    using assms(1,2) less_4_cases [of j] by (auto intro: that [of "2 ^ 8"] that [of "2 ^ 16"] that [of "2 ^ 24"])
  then have "P div 2 ^ 32 = T div 2 ^ 32" using assms(4) by (simp only: k div_mult2_eq)
  then have "P mod 2 ^ 32 \<le> T mod 2 ^ 32"
    using assms(3) by (simp add: modulo_nat_def)
  then show "\<not> (of_nat T :: u32) < of_nat P" by (simp add: word_less_of_nat)
qed

lemma part_reached_step:
  assumes "part_reached m0 N T j P m" "j < 4" "N < 2 ^ 32" "T < N + 2 ^ 32"
  shows "\<exists>P'. part_reached m0 N T (Suc j) P' (advance_part (of_nat T) m j)"
proof -
  let ?B = "part_block j"
  let ?s = "T div ?B - P div ?B" and ?t = "?B * (T div ?B)"
  obtain data where m: "m = \<lparr>meg_data = data, meg_counter = of_nat P\<rparr>" "length data = 4"
    using assms(1) by (cases m) (auto simp: part_reached_def)
  have P: "N \<le> P" "P \<le> T" and prefix: "0 < j \<Longrightarrow> P div part_block (j - 1) = T div part_block (j - 1)"
    and first: "j = 0 \<Longrightarrow> P = N" and run: "m = (megolm_advance ^^ (P - N)) m0"
    using assms(1) by (auto simp: part_reached_def split: if_splits)
  have s: "?s \<le> 256" "?s = 256 \<Longrightarrow> (of_nat T :: u32) < of_nat P" "?s = 0 \<Longrightarrow> \<not> (of_nat T :: u32) < of_nat P"
  proof (atomize (full), cases "j = 0")
    case True
    then show "?s \<le> 256 \<and> (?s = 256 \<longrightarrow> (of_nat T :: u32) < of_nat P)
        \<and> (?s = 0 \<longrightarrow> \<not> (of_nat T :: u32) < of_nat P)"
      using first_part_steps [OF assms(3) _ assms(4)] first P by simp
  next
    case False
    then show "?s \<le> 256 \<and> (?s = 256 \<longrightarrow> (of_nat T :: u32) < of_nat P)
        \<and> (?s = 0 \<longrightarrow> \<not> (of_nat T :: u32) < of_nat P)"
      using later_part_steps [OF _ assms(2) P(2) prefix] by force
  qed
  note part = advance_part_of_nat [OF assms(2) P(2) s, of data]
  show ?thesis
  proof (cases "?s = 0")
    case True
    then have "P div ?B = T div ?B" using div_le_mono [OF P(2), of ?B] by simp
    then show ?thesis using True part m run P
      by (intro exI [of _ P]) (simp add: part_reached_def)
  next
    case False
    have t: "P < ?t" using False
      by (metis div_less_iff_less_mult mult.commute part_block_pos zero_less_diff not_gr0)
    have le: "?t \<le> T" by simp
    have no_multiple: "\<not> part_block (j - 1) dvd K" if "0 < j" "P < K" "K \<le> ?t" for K
    proof
      assume "part_block (j - 1) dvd K"
      moreover have "K div part_block (j - 1) = P div part_block (j - 1)"
        using prefix [OF that(1)] div_le_mono [of P K "part_block (j - 1)"]
          div_le_mono [of K T "part_block (j - 1)"] that le by simp
      ultimately have "K \<le> P" by (metis dvd_mult_div_cancel times_div_less_eq_dividend)
      then show False using that by simp
    qed
    have block: "(megolm_advance ^^ (?t - P)) m = \<lparr>meg_data = jump j ?s data, meg_counter = of_nat ?t\<rparr>"
      using advance_to_block [OF m(2) assms(2) t refl no_multiple] m(1) by simp
    have "?t - N = (?t - P) + (P - N)" using t P by simp
    then have "(megolm_advance ^^ (?t - N)) m0 = \<lparr>meg_data = jump j ?s data, meg_counter = of_nat ?t\<rparr>"
      using block run by (simp only: funpow_add comp_apply)
    moreover have "N \<le> ?t" "?t div ?B = T div ?B" using t P by simp_all
    ultimately show ?thesis
      using part m False le assms(2) by (intro exI [of _ ?t]) (simp add: part_reached_def)
  qed
qed

lemma megolm_advance_to_of_nat:
  assumes "length (meg_data m) = 4" "meg_counter m = of_nat N" "N < 2 ^ 32" "N \<le> T" "T < N + 2 ^ 32"
  shows "megolm_advance_to m (of_nat T) = (megolm_advance ^^ (T - N)) m"
proof -
  have start: "part_reached m N T 0 N m" using assms by (simp add: part_reached_def)
  let ?f = "advance_part (of_nat T)"
  note step = part_reached_step [OF _ _ assms(3,5)]
  from step [OF start] obtain P1 where 1: "part_reached m N T 1 P1 (?f m 0)" by auto
  from step [OF 1] obtain P2 where 2: "part_reached m N T 2 P2 (?f (?f m 0) 1)"
    by (auto simp: numeral_2_eq_2)
  from step [OF 2] obtain P3 where 3: "part_reached m N T 3 P3 (?f (?f (?f m 0) 1) 2)"
    by (auto simp: eval_nat_numeral)
  from step [OF 3] obtain P4 where 4: "part_reached m N T 4 P4 (?f (?f (?f (?f m 0) 1) 2) 3)"
    by (auto simp: eval_nat_numeral)
  then have "P4 = T" by (simp add: part_reached_def)
  with 4 show ?thesis by (simp add: megolm_advance_to_def part_reached_def)
qed

lemma advance_to_iterates:
  assumes "length (meg_data m) = 4"
  shows "megolm_advance_to m n = (megolm_advance ^^ unat (n - meg_counter m)) m"
proof -
  let ?N = "unat (meg_counter m)"
  have "(of_nat (?N + unat (n - meg_counter m)) :: u32) = n" by simp
  moreover have "?N < 2 ^ 32" "unat (n - meg_counter m) < 2 ^ 32"
    using unsigned_less [of "meg_counter m", where ?'a = nat]
      unsigned_less [of "n - meg_counter m", where ?'a = nat] by simp_all
  ultimately show ?thesis
    using megolm_advance_to_of_nat [OF assms, of ?N "?N + unat (n - meg_counter m)"] by simp
qed

lemma wf_megolm_advance: "wf_megolm m \<Longrightarrow> wf_megolm (megolm_advance m)"
proof -
  assume wf: "wf_megolm m"
  have parts: "\<forall>p \<in> set (bump h (meg_data m)). length p = 32" if "h < 4" for h
    using wf four_parts [of "meg_data m"] less_4_cases [OF that]
    by (auto simp: wf_megolm_def bump_cases bump_cases(2) [unfolded One_nat_def] part_hash_def)
  obtain data N where m: "m = \<lparr>meg_data = data, meg_counter = of_nat N\<rparr>"
    by (cases m) (metis word_nat_cases)
  show ?thesis
    using wf parts [OF level_less, of "Suc N"] by (simp add: m megolm_advance_of_nat wf_megolm_def)
qed

lemma wf_advance_iterated: "wf_megolm m \<Longrightarrow> wf_megolm ((megolm_advance ^^ k) m)"
  by (induction k) (simp_all add: wf_megolm_advance)

lemma wf_megolm_advance_to [simp]: "wf_megolm m \<Longrightarrow> wf_megolm (megolm_advance_to m n)"
  by (simp add: advance_to_iterates wf_advance_iterated wf_megolm_def [of m])

lemma megolm_advance_counter [simp]: "meg_counter (megolm_advance m) = meg_counter m + 1"
  by (simp add: megolm_advance_def Let_def)

lemma advance_iterated_counter [simp]:
  "meg_counter ((megolm_advance ^^ k) m) = meg_counter m + of_nat k"
  by (induction k) simp_all

lemma megolm_advance_to_counter [simp]: "wf_megolm m \<Longrightarrow> meg_counter (megolm_advance_to m n) = n"
  by (simp add: advance_to_iterates wf_megolm_def)

lemma advance_to_iterated:
  assumes "wf_megolm m" "k < 2 ^ 32"
  shows "megolm_advance_to m (meg_counter m + of_nat k) = (megolm_advance ^^ k) m"
  using assms by (simp add: advance_to_iterates wf_megolm_def unat_of_nat)

text \<open>Going in two steps or in one, as long as the counter does not go round.\<close>

lemma advance_to_twice:
  assumes "wf_megolm m" "unat (a - meg_counter m) + unat (b - a) < 2 ^ 32"
  shows "megolm_advance_to (megolm_advance_to m a) b = megolm_advance_to m b"
proof -
  have "of_nat (unat (a - meg_counter m) + unat (b - a)) = b - meg_counter m" by simp
  then have "unat (b - meg_counter m) = unat (b - a) + unat (a - meg_counter m)"
    using unat_of_nat_u32 [OF assms(2)] by simp
  then show ?thesis
    using assms(1) wf_megolm_advance_to [OF assms(1), of a]
    by (simp add: advance_to_iterates wf_megolm_def funpow_add)
qed

section \<open>The pickle format\<close>

definition ser_megolm :: "Megolm \<Rightarrow> bytes" where
  "ser_megolm megolm = megolm_get_data megolm @ be_bytes 4 (meg_counter megolm)"

lemma wf_split_parts: "length bs = 128 \<Longrightarrow> wf_megolm \<lparr>meg_data = split_parts bs, meg_counter = c\<rparr>"
  by (simp add: wf_megolm_def split_parts_def)

lemma wf_megolm_init: "128 \<le> length random \<Longrightarrow> wf_megolm (megolm_init random counter)"
  by (simp add: megolm_init_def MEGOLM_RATCHET_LENGTH_def MEGOLM_RATCHET_PARTS_def
      MEGOLM_RATCHET_PART_LENGTH_def wf_split_parts)

lemma ratchet_length_128 [simp]: "MEGOLM_RATCHET_LENGTH = 128"
  by (simp add: MEGOLM_RATCHET_LENGTH_def MEGOLM_RATCHET_PARTS_def MEGOLM_RATCHET_PART_LENGTH_def)

lemma megolm_init_of_data: "wf_megolm m \<Longrightarrow>
    megolm_init (megolm_get_data m @ rest) (meg_counter m) = m"
  by (simp add: megolm_init_def) (simp add: wf_megolm_def megolm_get_data_def split_parts_concat)

interpretation megolm_format: pickle_format
  wf_megolm ser_megolm megolm_pickle_length megolm_pickle megolm_unpickle
proof unfold_locales
  fix m pos rest bs src and v old :: Megolm
  show "megolm_pickle m pos v = (store m pos (ser_megolm v), pos + megolm_pickle_length v)"
    if "wf_megolm v"
    using that store_store_append [of m pos "megolm_get_data v" "be_bytes 4 (meg_counter v)"]
    by (simp add: megolm_pickle_def pickle_bytes_def uint32_format.pickle_eq ser_megolm_def
        megolm_pickle_length_def)
  show "megolm_unpickle old (Some (ser_megolm v @ rest)) = (v, Some rest)" if "wf_megolm v"
    using that
    by (simp add: megolm_unpickle_def ser_megolm_def unpickle_bytes_append uint32_format.unpickle_ser)
      (simp add: wf_megolm_def megolm_get_data_def split_parts_concat)
  show "wf_megolm (fst (megolm_unpickle old src))" if "wf_megolm old"
  proof -
    obtain data pos where u: "unpickle_bytes 128 (megolm_get_data old) src = (data, pos)" by fastforce
    have "length data = 128"
      using length_unpickle_bytes [of "megolm_get_data old" 128 src] that u by simp
    then show ?thesis
      using wf_split_parts [of data]
      by (auto simp: megolm_unpickle_def u Let_def wf_megolm_def split: prod.split)
  qed
  show "\<exists>c. c \<noteq> [] \<and> bs = c @ rest" if "megolm_unpickle old (Some bs) = (v, Some rest)"
  proof -
    obtain d p where u: "unpickle_bytes 128 (megolm_get_data old) (Some bs) = (d, p)" by fastforce
    with that obtain mid where mid: "p = Some mid"
      and "olm_unpickle_uint32 (meg_counter old) (Some mid) = (meg_counter v, Some rest)"
      by (cases p) (auto simp: megolm_unpickle_def Let_def split: prod.splits if_splits)
    with unpickle_bytes_suffix [of 128 "megolm_get_data old" bs d mid] u
      uint32_format.unpickle_suffix show ?thesis by fastforce
  qed
qed (auto simp: ser_megolm_def megolm_pickle_length_def megolm_unpickle_def unpickle_bytes_def)

declare megolm_format.pickle_eq [pickle_simps] megolm_format.unpickle_ser [pickle_simps]

section \<open>Properties\<close>

text \<open>C32: Jumping to a message index with the code's precomputed blocks of hashes gives the same
  ratchet as advancing one message at a time, for any distance, the counter wrapping at 32 bits.\<close>

theorem megolm_jump_is_iterated_advance:
  assumes "wf_megolm m"
  shows "megolm_advance_to m n = (megolm_advance ^^ unat (n - meg_counter m)) m
    \<and> meg_counter (megolm_advance_to m n) = n \<and> wf_megolm (megolm_advance_to m n)"
proof (intro conjI)
  show "megolm_advance_to m n = (megolm_advance ^^ unat (n - meg_counter m)) m"
    using assms by (intro advance_to_iterates) (simp add: wf_megolm_def)
  show "meg_counter (megolm_advance_to m n) = n" using assms by (rule megolm_advance_to_counter)
  show "wf_megolm (megolm_advance_to m n)" using assms by (rule wf_megolm_advance_to)
qed

lemma megolm_jump_is_iterated_advance_witness:
  "megolm_advance_to \<lparr>meg_data = replicate 4 (replicate 32 0), meg_counter = 0xFFFFFFFF\<rparr> 2
   = (megolm_advance ^^ 3) \<lparr>meg_data = replicate 4 (replicate 32 0), meg_counter = 0xFFFFFFFF\<rparr>"
proof -
  have "wf_megolm \<lparr>meg_data = replicate 4 (replicate 32 0), meg_counter = 0xFFFFFFFF\<rparr>"
    by (simp add: wf_megolm_def)
  from megolm_jump_is_iterated_advance [OF this, of 2] show ?thesis by simp
qed

end
