(* ===== verification/PickleEncoding.thy ===== *)
theory PickleEncoding
  imports OlmError Base64 Cipher
begin

text \<open>
  \<open>src/pickle_encoding.c\<close>: the encrypted and base64 encoded envelope of every pickle.  The
  raw pickle stands at the end of the output buffer, is encrypted in place, and then
  encoded to the start of the buffer.  The locale \<open>sealed_pickle\<close> is what the pickle and
  unpickle functions of the objects rely on.
\<close>

definition PICKLE_CIPHER :: bytes where
  "PICKLE_CIPHER = map of_char ''Pickle''"

definition olm_enc_output_length :: "nat \<Rightarrow> nat" where
  "olm_enc_output_length raw_length =
     (let len = aes_sha_256_cipher_encrypt_ciphertext_length raw_length;
          len = len + aes_sha_256_cipher_mac_length
      in encode_base64_length len)"

definition olm_enc_output_pos :: "nat \<Rightarrow> nat \<Rightarrow> nat" where
  "olm_enc_output_pos output raw_length =
     (let len = aes_sha_256_cipher_encrypt_ciphertext_length raw_length;
          len = len + aes_sha_256_cipher_mac_length
      in output + encode_base64_length len - len)"

definition olm_enc_output :: "bytes \<Rightarrow> mem \<Rightarrow> nat \<Rightarrow> nat \<Rightarrow> mem \<times> nat" where
  "olm_enc_output key m output raw_length =
     (let ciphertext_length = aes_sha_256_cipher_encrypt_ciphertext_length raw_length;
          len = ciphertext_length + aes_sha_256_cipher_mac_length;
          base64_length = encode_base64_length len;
          raw_output = output + base64_length - len;
          (m, _) = aes_sha_256_cipher_encrypt PICKLE_CIPHER key (load m raw_output raw_length) m
                     raw_output ciphertext_length raw_output len;
          (m, _) = olm_encode_base64 m raw_output len output
      in (m, base64_length))"

text \<open>
  The input buffer is decoded and decrypted in place; the caller finds the raw pickle at
  \<open>input\<close>.  The decryption reads whole blocks, at most 15 bytes behind the ciphertext.
\<close>

definition olm_enc_input ::
    "bytes \<Rightarrow> mem \<Rightarrow> nat \<Rightarrow> nat \<Rightarrow> OlmErrorCode \<Rightarrow> mem \<times> OlmErrorCode \<times> nat option" where
  "olm_enc_input key m input b64_length last_error =
     (case decode_base64_length b64_length of
        None \<Rightarrow> (m, OLM_INVALID_BASE64, None)
      | Some enc_length \<Rightarrow>
          let (m, _) = olm_decode_base64 m input b64_length input;
              raw_length = size_sub enc_length aes_sha_256_cipher_mac_length;
              (plaintext, result) =
                aes_sha_256_cipher_decrypt PICKLE_CIPHER key (load m input enc_length)
                  (load m input (enc_length + 16)) raw_length (m (input - 1)) raw_length;
              m = store m input plaintext
          in (m, if result = None then OLM_BAD_ACCOUNT_KEY else last_error, result))"

section \<open>The contract\<close>

locale sealed_pickle =
  fixes seal_length :: "nat \<Rightarrow> nat"
    and seal_pos :: "nat \<Rightarrow> nat \<Rightarrow> nat"
    and seal :: "bytes \<Rightarrow> bytes \<Rightarrow> bytes"
    and seal_output :: "bytes \<Rightarrow> mem \<Rightarrow> nat \<Rightarrow> nat \<Rightarrow> mem \<times> nat"
    and seal_input :: "bytes \<Rightarrow> mem \<Rightarrow> nat \<Rightarrow> nat \<Rightarrow> OlmErrorCode \<Rightarrow> mem \<times> OlmErrorCode \<times> nat option"
  assumes length_seal: "length (seal key raw) = seal_length (length raw)"
    and pos_inside: "out \<le> seal_pos out n \<and> seal_pos out n + n \<le> out + seal_length n"
    and output_ok: "load m (seal_pos out n) n = raw \<Longrightarrow>
      \<exists>m'. seal_output key m out n = (m', seal_length n) \<and>
        load m' out (seal_length n) = seal key raw \<and> unchanged_outside out (seal_length n) m m'"
    and input_ok: "load m inp n = seal key raw \<Longrightarrow> n < 2 ^ 64 \<Longrightarrow>
      \<exists>m'. seal_input key m inp n e = (m', e, Some (length raw)) \<and>
        load m' inp (length raw) = raw \<and> unchanged_outside inp n m m'"
    and input_bad: "seal_input key m inp n e = (m', e', None) \<Longrightarrow>
      e' = OLM_INVALID_BASE64 \<or> e' = OLM_BAD_ACCOUNT_KEY"
    and input_good: "seal_input key m inp n e = (m', e', Some k) \<Longrightarrow> e' = e"
begin

text \<open>The whole of an object's pickle function: the raw bytes are stored, then sealed.\<close>

lemma store_then_output:
  assumes "length raw = n"
  shows "\<exists>m'. seal_output key (store m (seal_pos out n) raw) out n = (m', seal_length n) \<and>
    load m' out (seal_length n) = seal key raw \<and> unchanged_outside out (seal_length n) m m'"
proof -
  let ?m = "store m (seal_pos out n) raw"
  have "load ?m (seal_pos out n) n = raw" using assms by (simp add: load_store_same)
  from output_ok [OF this, of key] obtain m' where
    m': "seal_output key ?m out n = (m', seal_length n)" "load m' out (seal_length n) = seal key raw"
      "unchanged_outside out (seal_length n) ?m m'" by blast
  have "unchanged_outside out (seal_length n) m ?m"
    using pos_inside [of out n] assms by (intro unchanged_outside_store) auto
  with m' show ?thesis using unchanged_outside_trans by blast
qed

lemma output_then_input:
  assumes "length raw = n" "seal_length n < 2 ^ 64"
    and "seal_output key (store m (seal_pos out n) raw) out n = (m1, k)"
  shows "\<exists>m2. seal_input key m1 out k e = (m2, e, Some n) \<and> load m2 out n = raw
    \<and> unchanged_outside out k m m2"
proof -
  from store_then_output [OF assms(1), of key m out] assms(3)
  have k: "k = seal_length n" and l: "load m1 out k = seal key raw"
    and u: "unchanged_outside out k m m1" by auto
  from input_ok [OF l] assms k obtain m2 where
    "seal_input key m1 out k e = (m2, e, Some n)" "load m2 out n = raw"
    "unchanged_outside out k m1 m2" by auto
  with u show ?thesis using unchanged_outside_trans by blast
qed

end

definition pickle_seal :: "bytes \<Rightarrow> bytes \<Rightarrow> bytes" where
  "pickle_seal key raw =
     (let c = cipher_ctext PICKLE_CIPHER key raw
      in b64enc (c @ cipher_tag PICKLE_CIPHER key c))"

lemma ciphertext_length_ge:
  "n < aes_sha_256_cipher_encrypt_ciphertext_length n"
  using mod_less_divisor [of 16 n]
  unfolding aes_sha_256_cipher_encrypt_ciphertext_length_def olm_crypto_aes_encrypt_cbc_length_def
  by linarith

lemma olm_enc_output_ok:
  assumes raw: "load m (olm_enc_output_pos out n) n = raw"
  shows "\<exists>m'. olm_enc_output key m out n = (m', olm_enc_output_length n) \<and>
    load m' out (olm_enc_output_length n) = pickle_seal key raw \<and>
    unchanged_outside out (olm_enc_output_length n) m m'"
proof -
  let ?cl = "aes_sha_256_cipher_encrypt_ciphertext_length n"
  let ?len = "?cl + 8"
  let ?pos = "out + encode_base64_length ?len - ?len"
  let ?c = "cipher_ctext PICKLE_CIPHER key raw"
  let ?body = "?c @ cipher_tag PICKLE_CIPHER key ?c"
  let ?m1 = "store m ?pos ?body"
  have n: "length raw = n" using raw by auto
  have pos: "load m ?pos n = raw" using raw by (simp add: olm_enc_output_pos_def Let_def)
  have body: "length ?body = ?len"
    using aes_sha_256.length_ctext [of PICKLE_CIPHER key raw] aes_sha_256.length_tag [of PICKLE_CIPHER key ?c]
    by (simp add: n)
  have enc: "aes_sha_256_cipher_encrypt PICKLE_CIPHER key raw m p ?cl p ?len = (store m p ?body, Some ?len)"
    for p
    using aes_sha_256.enc_message [of m p "[]" ?cl raw ?len PICKLE_CIPHER key] by (simp add: n)
  have le: "?len \<le> encode_base64_length ?len" by (rule encode_base64_length_le)
  have b64: "olm_encode_base64 ?m1 ?pos ?len out =
      (store ?m1 out (b64enc ?body), encode_base64_length ?len)"
    using olm_encode_base64_eq [of out ?len ?pos ?m1] le body load_store_same [of ?len ?body m ?pos]
    by simp
  have "olm_enc_output key m out n = (store ?m1 out (b64enc ?body), encode_base64_length ?len)"
    unfolding olm_enc_output_def Let_def mac_length_8 pos enc by (simp add: b64)
  moreover have "unchanged_outside out (encode_base64_length ?len) m (store ?m1 out (b64enc ?body))"
    using le body
    by (intro unchanged_outside_trans [OF unchanged_outside_store unchanged_outside_store]) auto
  ultimately show ?thesis
    using body by (simp add: olm_enc_output_length_def pickle_seal_def load_store_same Let_def)
qed

lemma olm_enc_input_ok:
  assumes inp: "load m inp n = pickle_seal key raw" and n: "n < 2 ^ 64"
  shows "\<exists>m'. olm_enc_input key m inp n e = (m', e, Some (length raw)) \<and>
    load m' inp (length raw) = raw \<and> unchanged_outside inp n m m'"
proof -
  let ?cl = "aes_sha_256_cipher_encrypt_ciphertext_length (length raw)"
  let ?len = "?cl + 8"
  let ?c = "cipher_ctext PICKLE_CIPHER key raw"
  let ?t = "cipher_tag PICKLE_CIPHER key ?c"
  let ?m1 = "store m inp (?c @ ?t)"
  have c: "length ?c = ?cl" "length ?t = 8"
    using aes_sha_256.length_ctext [of PICKLE_CIPHER key raw]
      aes_sha_256.length_tag [of PICKLE_CIPHER key ?c] by simp_all
  have len: "n = encode_base64_length ?len"
    using arg_cong [OF inp, of length] by (simp add: pickle_seal_def Let_def c)
  have "?len \<le> n" unfolding len by (rule encode_base64_length_le)
  then have sub: "size_sub ?len 8 = ?cl" using n by (simp add: size_sub_no_wrap)
  have dec: "olm_decode_base64 m inp n inp = (?m1, Some ?len)"
    using olm_decode_base64_encoded [of m inp n "?c @ ?t" inp] inp by (simp add: pickle_seal_def Let_def c)
  have l1: "load ?m1 inp ?len = ?c @ ?t" by (intro load_store_same) (simp add: c)
  have l2: "load ?m1 inp (?len + 16) = ?c @ ?t @ load m (inp + ?len) 16"
    using load_add [of ?m1 inp ?len 16] load_store_disjoint [of "inp + ?len" 16 inp "?c @ ?t" m] l1 c
    by (simp only: length_append append_assoc order_refl simp_thms)
  from aes_sha_256.dec_ok [of raw ?cl PICKLE_CIPHER key ?c "?t @ load m (inp + ?len) 16" "?m1 (inp - 1)"]
  obtain w where w: "aes_sha_256_cipher_decrypt PICKLE_CIPHER key (?c @ ?t)
      (?c @ ?t @ load m (inp + ?len) 16) ?cl (?m1 (inp - 1)) ?cl = (raw @ w, Some (length raw))"
    "length (raw @ w) = ?cl" by auto
  have "olm_enc_input key m inp n e = (store ?m1 inp (raw @ w), e, Some (length raw))"
    unfolding olm_enc_input_def len decode_encode_length option.case Let_def mac_length_8 sub
      dec [unfolded len] prod.case l1 l2 w by simp
  moreover have "load (store ?m1 inp (raw @ w)) inp (length raw) = raw"
    using take_load [of "length raw" "store ?m1 inp (raw @ w)" inp "length (raw @ w)"]
    by (simp add: load_store_same)
  moreover have "unchanged_outside inp n m (store ?m1 inp (raw @ w))"
    using \<open>?len \<le> n\<close> w(2) c
    by (intro unchanged_outside_trans [OF unchanged_outside_store unchanged_outside_store]) auto
  ultimately show ?thesis by blast
qed

interpretation pickle_envelope: sealed_pickle
  olm_enc_output_length olm_enc_output_pos pickle_seal olm_enc_output olm_enc_input
proof unfold_locales
  fix key raw m inp out n e e' m' k
  show "length (pickle_seal key raw) = olm_enc_output_length (length raw)"
    using aes_sha_256.length_ctext [of PICKLE_CIPHER key raw]
      aes_sha_256.length_tag [of PICKLE_CIPHER key]
    by (simp add: pickle_seal_def olm_enc_output_length_def Let_def)
  show "out \<le> olm_enc_output_pos out n \<and> olm_enc_output_pos out n + n \<le> out + olm_enc_output_length n"
    using encode_base64_length_le [of "aes_sha_256_cipher_encrypt_ciphertext_length n + 8"]
      ciphertext_length_ge [of n]
    unfolding olm_enc_output_pos_def olm_enc_output_length_def Let_def mac_length_8 by linarith
  show "\<exists>m'. olm_enc_output key m out n = (m', olm_enc_output_length n) \<and>
      load m' out (olm_enc_output_length n) = pickle_seal key raw \<and>
      unchanged_outside out (olm_enc_output_length n) m m'"
    if "load m (olm_enc_output_pos out n) n = raw" using that by (rule olm_enc_output_ok)
  show "\<exists>m'. olm_enc_input key m inp n e = (m', e, Some (length raw)) \<and>
      load m' inp (length raw) = raw \<and> unchanged_outside inp n m m'"
    if "load m inp n = pickle_seal key raw" "n < 2 ^ 64" using that by (rule olm_enc_input_ok)
  show "e' = OLM_INVALID_BASE64 \<or> e' = OLM_BAD_ACCOUNT_KEY"
    if "olm_enc_input key m inp n e = (m', e', None)"
    using that by (auto simp: olm_enc_input_def Let_def split: option.splits prod.splits if_splits)
  show "e' = e" if "olm_enc_input key m inp n e = (m', e', Some k)"
    using that by (auto simp: olm_enc_input_def Let_def split: option.splits prod.splits if_splits)
qed

section \<open>Objects that pickle themselves\<close>

text \<open>
  The shape that the pickle and unpickle functions of every object share: the buffer check,
  the raw bytes stored at the end of the buffer and sealed; unsealing, and a reader of the
  raw bytes.  What an object has to show is that its reader understands its own writer: read into a
  fresh object, the bytes of an object give what \<open>restored\<close> says.
\<close>

locale pickled_object = sealed_pickle seal_length seal_pos seal seal_output seal_input
  for seal_length :: "nat \<Rightarrow> nat"
    and seal_pos :: "nat \<Rightarrow> nat \<Rightarrow> nat"
    and seal :: "bytes \<Rightarrow> bytes \<Rightarrow> bytes"
    and seal_output :: "bytes \<Rightarrow> mem \<Rightarrow> nat \<Rightarrow> nat \<Rightarrow> mem \<times> nat"
    and seal_input :: "bytes \<Rightarrow> mem \<Rightarrow> nat \<Rightarrow> nat \<Rightarrow> OlmErrorCode \<Rightarrow> mem \<times> OlmErrorCode \<times> nat option" +
  fixes wf :: "'s \<Rightarrow> bool"
    and fresh :: "'s \<Rightarrow> bool"
    and restored :: "'s \<Rightarrow> 's \<Rightarrow> 's"
    and ser :: "'s \<Rightarrow> bytes"
    and raw_length :: "'s \<Rightarrow> nat"
    and err :: "'s \<Rightarrow> OlmErrorCode"
    and set_err :: "OlmErrorCode \<Rightarrow> 's \<Rightarrow> 's"
    and pickle :: "'s \<Rightarrow> bytes \<Rightarrow> mem \<Rightarrow> nat \<Rightarrow> nat \<Rightarrow> 's \<times> mem \<times> nat option"
    and unpickle_raw :: "'s \<Rightarrow> bytes \<Rightarrow> 's \<times> bool"
    and unpickle :: "'s \<Rightarrow> bytes \<Rightarrow> mem \<Rightarrow> nat \<Rightarrow> nat \<Rightarrow> 's \<times> mem \<times> nat option"
  assumes length_raw: "wf s \<Longrightarrow> length (ser s) = raw_length s"
    and err_set: "err (set_err e s) = e" "set_err (err s) s = s"
    and pickle_eq: "wf s \<Longrightarrow> pickle s key m p n =
      (if n < seal_length (raw_length s) then (set_err OLM_OUTPUT_BUFFER_TOO_SMALL s, m, None)
       else
         let (m, r) = seal_output key (store m (seal_pos p (raw_length s)) (ser s)) p (raw_length s)
         in (s, m, Some r))"
    and unpickle_eq: "unpickle s0 key m p n =
      (let (m, e, r) = seal_input key m p n (err s0)
       in case r of
            None \<Rightarrow> (set_err e s0, m, None)
          | Some k \<Rightarrow>
              let (s, ok) = unpickle_raw (set_err e s0) (load m p k)
              in (s, m, if ok then Some n else None))"
    and unpickle_raw_ser: "fresh s0 \<Longrightarrow> wf s \<Longrightarrow> unpickle_raw s0 (ser s) = (restored s0 s, True)"
begin

lemma pickle_small_buffer:
  "wf s \<Longrightarrow> n < seal_length (raw_length s) \<Longrightarrow>
     pickle s key m p n = (set_err OLM_OUTPUT_BUFFER_TOO_SMALL s, m, None)"
  by (simp add: pickle_eq)

lemma pickle_unpickle:
  assumes "wf s" "fresh s0" "seal_length (raw_length s) \<le> n" "seal_length (raw_length s) < 2 ^ 64"
  shows "\<exists>m1 m2. pickle s key m p n = (s, m1, Some (seal_length (raw_length s))) \<and>
    unpickle s0 key m1 p (seal_length (raw_length s)) =
      (restored s0 s, m2, Some (seal_length (raw_length s))) \<and>
    unchanged_outside p (seal_length (raw_length s)) m m1 \<and>
    unchanged_outside p (seal_length (raw_length s)) m m2"
proof -
  let ?n = "raw_length s" and ?m = "store m (seal_pos p (raw_length s)) (ser s)"
  have len: "length (ser s) = ?n" using assms(1) by (rule length_raw)
  from store_then_output [OF len, of key m p] obtain m1 where
    out: "seal_output key ?m p ?n = (m1, seal_length ?n)" and u1: "unchanged_outside p (seal_length ?n) m m1"
    by blast
  from output_then_input [OF len assms(4) out, of "err s0"] obtain m2 where
    inp: "seal_input key m1 p (seal_length ?n) (err s0) = (m2, err s0, Some ?n)" "load m2 p ?n = ser s"
    and u2: "unchanged_outside p (seal_length ?n) m m2" by blast
  have "pickle s key m p n = (s, m1, Some (seal_length ?n))"
    using assms(1,3) out by (simp add: pickle_eq)
  moreover have "unpickle s0 key m1 p (seal_length ?n) = (restored s0 s, m2, Some (seal_length ?n))"
    using inp assms(1,2) by (simp add: unpickle_eq unpickle_raw_ser err_set)
  ultimately show ?thesis using u1 u2 by blast
qed

lemma unpickle_garbage_error:
  assumes "unpickle s0 key m p n = (s, m', None)" "\<nexists>k m2 e. seal_input key m p n (err s0) = (m2, e, Some k)"
  shows "err s \<in> {OLM_INVALID_BASE64, OLM_BAD_ACCOUNT_KEY} \<and> s = set_err (err s) s0"
proof -
  obtain m2 e where none: "seal_input key m p n (err s0) = (m2, e, None)"
    using assms(2) by (cases "seal_input key m p n (err s0)") (metis option.exhaust surj_pair)
  then show ?thesis using assms(1) input_bad [OF none] by (auto simp: unpickle_eq err_set)
qed

end

section \<open>Properties\<close>

text \<open>Raw bytes put where the envelope expects them, sealed and unsealed in the same buffer
  with the same key, come back, and only the buffer is written.\<close>

theorem pickle_envelope_round_trip:
  assumes "length raw = n" "olm_enc_output_length n < 2 ^ 64"
  shows "\<exists>m1 m2. olm_enc_output key (store m (olm_enc_output_pos out n) raw) out n
        = (m1, olm_enc_output_length n)
    \<and> olm_enc_input key m1 out (olm_enc_output_length n) e = (m2, e, Some n) \<and> load m2 out n = raw
    \<and> unchanged_outside out (olm_enc_output_length n) m m1
    \<and> unchanged_outside out (olm_enc_output_length n) m m2"
proof -
  from pickle_envelope.store_then_output [OF assms(1), of key m out] obtain m1 where
    out: "olm_enc_output key (store m (olm_enc_output_pos out n) raw) out n = (m1, olm_enc_output_length n)"
      "unchanged_outside out (olm_enc_output_length n) m m1" by blast
  with pickle_envelope.output_then_input [OF assms(1,2) out(1), of e] show ?thesis by blast
qed

lemma pickle_envelope_round_trip_witness:
  "\<exists>m1 m2. olm_enc_output [1] (store (\<lambda>_. 0) (olm_enc_output_pos 9 2) [3, 4]) 9 2 = (m1, olm_enc_output_length 2)
    \<and> olm_enc_input [1] m1 9 (olm_enc_output_length 2) OLM_SUCCESS = (m2, OLM_SUCCESS, Some 2)
    \<and> load m2 9 2 = [3, 4]"
  using pickle_envelope_round_trip [of "[3, 4]" 2 "[1]" "\<lambda>_. 0" 9 OLM_SUCCESS]
  by (auto simp: olm_enc_output_length_def aes_sha_256_cipher_encrypt_ciphertext_length_def
      olm_crypto_aes_encrypt_cbc_length_def encode_base64_length_alt)

text \<open>C34: Only bytes whose MAC fits the key are unsealed; a failure sets one of two error codes and
  success leaves the error code as it was.\<close>

theorem pickle_envelope_authentic:
  "(case olm_enc_input key m inp n e of
      (m', e', Some k) \<Rightarrow> e' = e
        \<and> (\<exists>body. b64dec (load m inp n) = Some (body @ cipher_tag PICKLE_CIPHER key body))
    | (m', e', None) \<Rightarrow> e' = (if n mod 4 = 1 then OLM_INVALID_BASE64 else OLM_BAD_ACCOUNT_KEY))"
proof (cases "b64dec (load m inp n)")
  case None
  then have "decode_base64_length n = None" using b64dec_length [of "load m inp n"] by simp
  then show ?thesis by (simp add: olm_enc_input_def decode_base64_length_alt split: if_splits)
next
  case (Some raw)
  then have len: "decode_base64_length n = Some (length raw)" using b64dec_length [of "load m inp n"] by simp
  then have n: "n mod 4 \<noteq> 1" by (auto simp: decode_base64_length_alt)
  have dec: "olm_decode_base64 m inp n inp = (store m inp raw, Some (length raw))"
    by (simp add: olm_decode_base64_eq Some decode_result_def)
  have raw: "load (store m inp raw) inp (length raw) = raw" by (simp add: load_store_same)
  show ?thesis
    using len n Some
      aes_sha_256.dec_Some_authentic [of PICKLE_CIPHER key raw "load (store m inp raw) inp (length raw + 16)"
        "size_sub (length raw) 8" "store m inp raw (inp - 1)" "size_sub (length raw) 8"]
    by (auto simp: olm_enc_input_def dec raw Let_def split: prod.split option.split)
qed

end
