(* ===== verification/OutboundGroup.thy ===== *)
theory OutboundGroup
  imports Megolm PickleEncoding MessageFormat OlmMemory
begin

text \<open>
  \<open>src/outbound_group_session.c\<close>: the sender of a group session.  Every function takes the
  session, the memory of the caller's buffers and the pointers into it, and returns the new
  session, the new memory and the result, \<open>None\<close> for \<open>(size_t)-1\<close>.
\<close>

definition OLM_GROUP_PROTOCOL_VERSION :: u8 where "OLM_GROUP_PROTOCOL_VERSION = 3"
definition GROUP_SESSION_ID_LENGTH :: nat where "GROUP_SESSION_ID_LENGTH = 32"
definition OUTBOUND_PICKLE_VERSION :: u32 where "OUTBOUND_PICKLE_VERSION = 1"
definition SESSION_KEY_VERSION :: u8 where "SESSION_KEY_VERSION = 2"

record OlmOutboundGroupSession =
  og_ratchet :: Megolm
  og_signing_key :: ed25519_key_pair
  og_last_error :: OlmErrorCode

text \<open>The size on an ABI with 4 byte enumerations.\<close>

definition olm_outbound_group_session_size :: nat where
  "olm_outbound_group_session_size = (128 + 4) + (32 + 64) + 4"

definition zero_megolm :: Megolm where
  "zero_megolm = \<lparr>meg_data = replicate 4 (replicate 32 0), meg_counter = 0\<rparr>"

definition zero_ed25519_key_pair :: ed25519_key_pair where
  "zero_ed25519_key_pair = \<lparr>ed_public = replicate 32 0, ed_private = replicate 64 0\<rparr>"

text \<open>All bytes of the structure become zero; error code 0 is success.\<close>

definition olm_clear_outbound_group_session ::
    "OlmOutboundGroupSession \<Rightarrow> OlmOutboundGroupSession \<times> nat" where
  "olm_clear_outbound_group_session session =
     (\<lparr>og_ratchet = zero_megolm, og_signing_key = zero_ed25519_key_pair,
       og_last_error = OLM_SUCCESS\<rparr>, olm_outbound_group_session_size)"

definition olm_outbound_group_session :: "OlmOutboundGroupSession \<Rightarrow> OlmOutboundGroupSession" where
  "olm_outbound_group_session memory = fst (olm_clear_outbound_group_session memory)"

definition olm_outbound_group_session_last_error :: "OlmOutboundGroupSession \<Rightarrow> string" where
  "olm_outbound_group_session_last_error session =
     olm_error_to_string (error_number (og_last_error session))"

definition olm_outbound_group_session_last_error_code :: "OlmOutboundGroupSession \<Rightarrow> OlmErrorCode" where
  "olm_outbound_group_session_last_error_code session = og_last_error session"

section \<open>Pickles\<close>

definition outbound_raw_pickle_length :: "OlmOutboundGroupSession \<Rightarrow> nat" where
  "outbound_raw_pickle_length session =
     4 + megolm_pickle_length (og_ratchet session)
       + olm_pickle_ed25519_key_pair_length (og_signing_key session)"

definition olm_pickle_outbound_group_session_length :: "OlmOutboundGroupSession \<Rightarrow> nat" where
  "olm_pickle_outbound_group_session_length session =
     olm_enc_output_length (outbound_raw_pickle_length session)"

definition olm_pickle_outbound_group_session ::
    "OlmOutboundGroupSession \<Rightarrow> bytes \<Rightarrow> mem \<Rightarrow> nat \<Rightarrow> nat
      \<Rightarrow> OlmOutboundGroupSession \<times> mem \<times> nat option" where
  "olm_pickle_outbound_group_session session key m pickled pickled_length =
     (let raw_length = outbound_raw_pickle_length session
      in if pickled_length < olm_enc_output_length raw_length
         then (session\<lparr>og_last_error := OLM_OUTPUT_BUFFER_TOO_SMALL\<rparr>, m, None)
         else
           let pos = olm_enc_output_pos pickled raw_length;
               (m, pos) = olm_pickle_uint32 m pos OUTBOUND_PICKLE_VERSION;
               (m, pos) = megolm_pickle m pos (og_ratchet session);
               (m, pos) = olm_pickle_ed25519_key_pair m pos (og_signing_key session);
               (m, r) = olm_enc_output key m pickled raw_length
           in (session, m, Some r))"

text \<open>
  What \<open>olm_unpickle_outbound_group_session\<close> does with the decrypted bytes; \<open>False\<close> when it
  returns \<open>(size_t)-1\<close>.
\<close>

definition unpickle_outbound_raw ::
    "OlmOutboundGroupSession \<Rightarrow> bytes \<Rightarrow> OlmOutboundGroupSession \<times> bool" where
  "unpickle_outbound_raw session raw =
     (let (pickle_version, pos) = olm_unpickle_uint32 0 (Some raw)
      in if pos = None then (session\<lparr>og_last_error := OLM_CORRUPTED_PICKLE\<rparr>, False)
         else if pickle_version \<noteq> OUTBOUND_PICKLE_VERSION
         then (session\<lparr>og_last_error := OLM_UNKNOWN_PICKLE_VERSION\<rparr>, False)
         else
           let (ratchet, pos) = megolm_unpickle (og_ratchet session) pos;
               session = session\<lparr>og_ratchet := ratchet\<rparr>
           in if pos = None then (session\<lparr>og_last_error := OLM_CORRUPTED_PICKLE\<rparr>, False)
              else
                let (k, pos) = olm_unpickle_ed25519_key_pair (og_signing_key session) pos;
                    session = session\<lparr>og_signing_key := k\<rparr>
                in if pos = None then (session\<lparr>og_last_error := OLM_CORRUPTED_PICKLE\<rparr>, False)
                   else if pos \<noteq> Some [] then (session\<lparr>og_last_error := OLM_PICKLE_EXTRA_DATA\<rparr>, False)
                   else (session, True))"

definition olm_unpickle_outbound_group_session ::
    "OlmOutboundGroupSession \<Rightarrow> bytes \<Rightarrow> mem \<Rightarrow> nat \<Rightarrow> nat
      \<Rightarrow> OlmOutboundGroupSession \<times> mem \<times> nat option" where
  "olm_unpickle_outbound_group_session session key m pickled pickled_length =
     (let (m, e, raw_length) = olm_enc_input key m pickled pickled_length (og_last_error session);
          session = session\<lparr>og_last_error := e\<rparr>
      in case raw_length of
           None \<Rightarrow> (session, m, None)
         | Some n \<Rightarrow>
             let (session, ok) = unpickle_outbound_raw session (load m pickled n)
             in (session, m, if ok then Some pickled_length else None))"

section \<open>Creation\<close>

definition olm_init_outbound_group_session_random_length :: nat where
  "olm_init_outbound_group_session_random_length = MEGOLM_RATCHET_LENGTH + ED25519_RANDOM_LENGTH"

definition olm_init_outbound_group_session ::
    "crypto_prims \<Rightarrow> OlmOutboundGroupSession \<Rightarrow> mem \<Rightarrow> nat \<Rightarrow> nat
      \<Rightarrow> OlmOutboundGroupSession \<times> mem \<times> nat option" where
  "olm_init_outbound_group_session P session m random random_length =
     (if random_length < olm_init_outbound_group_session_random_length
      then (session\<lparr>og_last_error := OLM_NOT_ENOUGH_RANDOM\<rparr>, m, None)
      else
        let random_ptr = random;
            session = session\<lparr>og_ratchet := megolm_init (load m random_ptr MEGOLM_RATCHET_LENGTH) 0\<rparr>;
            random_ptr = random_ptr + MEGOLM_RATCHET_LENGTH;
            session = session\<lparr>og_signing_key :=
              olm_crypto_ed25519_generate_key P (load m random_ptr ED25519_RANDOM_LENGTH)\<rparr>;
            m = olm_unset m random random_length
        in (session, m, Some 0))"

section \<open>Encryption\<close>

definition outbound_raw_message_length :: "OlmOutboundGroupSession \<Rightarrow> nat \<Rightarrow> nat" where
  "outbound_raw_message_length session plaintext_length =
     (let ciphertext_length = aes_sha_256_cipher_encrypt_ciphertext_length plaintext_length;
          mac_length = aes_sha_256_cipher_mac_length
      in olm_encode_group_message_length (meg_counter (og_ratchet session))
           ciphertext_length mac_length ED25519_SIGNATURE_LENGTH)"

definition olm_group_encrypt_message_length :: "OlmOutboundGroupSession \<Rightarrow> nat \<Rightarrow> nat" where
  "olm_group_encrypt_message_length session plaintext_length =
     encode_base64_length (outbound_raw_message_length session plaintext_length)"

text \<open>Writes a message that is not base64 encoded to the buffer.\<close>

definition group_encrypt_raw ::
    "crypto_prims \<Rightarrow> OlmOutboundGroupSession \<Rightarrow> bytes \<Rightarrow> mem \<Rightarrow> nat
      \<Rightarrow> OlmOutboundGroupSession \<times> mem \<times> nat option" where
  "group_encrypt_raw P session plaintext m buffer =
     (let ciphertext_length = aes_sha_256_cipher_encrypt_ciphertext_length (length plaintext);
          mac_length = aes_sha_256_cipher_mac_length;
          (m, message_length, ciphertext_ptr) =
            olm_encode_group_message m OLM_GROUP_PROTOCOL_VERSION
              (meg_counter (og_ratchet session)) ciphertext_length buffer;
          message_length = message_length + mac_length;
          (m, result) = aes_sha_256_cipher_encrypt MEGOLM_CIPHER
            (megolm_get_data (og_ratchet session)) plaintext m
            ciphertext_ptr ciphertext_length buffer message_length
      in if result = None then (session, m, None)
         else
           let session = session\<lparr>og_ratchet := megolm_advance (og_ratchet session)\<rparr>;
               signature = olm_crypto_ed25519_sign P (og_signing_key session)
                             (load m buffer message_length);
               m = store m (buffer + message_length) signature
           in (session, m, result))"

definition olm_group_encrypt ::
    "crypto_prims \<Rightarrow> OlmOutboundGroupSession \<Rightarrow> bytes \<Rightarrow> mem \<Rightarrow> nat \<Rightarrow> nat
      \<Rightarrow> OlmOutboundGroupSession \<times> mem \<times> nat option" where
  "olm_group_encrypt P session plaintext m message max_message_length =
     (let rawmsglen = outbound_raw_message_length session (length plaintext)
      in if max_message_length < encode_base64_length rawmsglen
         then (session\<lparr>og_last_error := OLM_OUTPUT_BUFFER_TOO_SMALL\<rparr>, m, None)
         else
           let message_pos = message + encode_base64_length rawmsglen - rawmsglen;
               (session, m, result) = group_encrypt_raw P session plaintext m message_pos
           in if result = None then (session, m, None)
              else
                let (m, r) = olm_encode_base64 m message_pos rawmsglen message
                in (session, m, Some r))"

section \<open>Identifier and key\<close>

definition olm_outbound_group_session_id_length :: nat where
  "olm_outbound_group_session_id_length = encode_base64_length GROUP_SESSION_ID_LENGTH"

definition olm_outbound_group_session_id ::
    "OlmOutboundGroupSession \<Rightarrow> mem \<Rightarrow> nat \<Rightarrow> nat
      \<Rightarrow> OlmOutboundGroupSession \<times> mem \<times> nat option" where
  "olm_outbound_group_session_id session m output id_length =
     (if id_length < olm_outbound_group_session_id_length
      then (session\<lparr>og_last_error := OLM_OUTPUT_BUFFER_TOO_SMALL\<rparr>, m, None)
      else
        let (m, r) = encode_base64_from (ed_public (og_signing_key session)) m output
        in (session, m, Some r))"

definition olm_outbound_group_session_message_index :: "OlmOutboundGroupSession \<Rightarrow> u32" where
  "olm_outbound_group_session_message_index session = meg_counter (og_ratchet session)"

definition SESSION_KEY_RAW_LENGTH :: nat where
  "SESSION_KEY_RAW_LENGTH =
     1 + 4 + MEGOLM_RATCHET_LENGTH + ED25519_PUBLIC_KEY_LENGTH + ED25519_SIGNATURE_LENGTH"

definition olm_outbound_group_session_key_length :: nat where
  "olm_outbound_group_session_key_length = encode_base64_length SESSION_KEY_RAW_LENGTH"

text \<open>The loop that writes the counter from its top byte on.\<close>

fun put_counter :: "nat \<Rightarrow> mem \<Rightarrow> nat \<Rightarrow> u32 \<Rightarrow> mem \<times> nat" where
  "put_counter 0 m ptr counter = (m, ptr)"
| "put_counter (Suc i) m ptr counter =
     put_counter i (m(ptr := ucast (0xFF AND drop_bit 24 counter))) (ptr + 1) (push_bit 8 counter)"

definition olm_outbound_group_session_key ::
    "crypto_prims \<Rightarrow> OlmOutboundGroupSession \<Rightarrow> mem \<Rightarrow> nat \<Rightarrow> nat
      \<Rightarrow> OlmOutboundGroupSession \<times> mem \<times> nat option" where
  "olm_outbound_group_session_key P session m key key_length =
     (let encoded_length = olm_outbound_group_session_key_length
      in if key_length < encoded_length
         then (session\<lparr>og_last_error := OLM_OUTPUT_BUFFER_TOO_SMALL\<rparr>, m, None)
         else
           let raw = key + encoded_length - SESSION_KEY_RAW_LENGTH;
               ptr = raw;
               m = m(ptr := SESSION_KEY_VERSION);
               ptr = ptr + 1;
               (m, ptr) = put_counter 4 m ptr (meg_counter (og_ratchet session));
               m = store m ptr (megolm_get_data (og_ratchet session));
               ptr = ptr + MEGOLM_RATCHET_LENGTH;
               m = store m ptr (ed_public (og_signing_key session));
               ptr = ptr + ED25519_PUBLIC_KEY_LENGTH;
               m = store m ptr (olm_crypto_ed25519_sign P (og_signing_key session)
                     (load m raw (ptr - raw)));
               (m, r) = olm_encode_base64 m raw SESSION_KEY_RAW_LENGTH key
           in (session, m, Some r))"

section \<open>Well-formed sessions and their pickles\<close>

definition wf_outbound :: "OlmOutboundGroupSession \<Rightarrow> bool" where
  "wf_outbound session \<longleftrightarrow> wf_megolm (og_ratchet session) \<and> wf_ed25519_key_pair (og_signing_key session)"

definition ser_outbound :: "OlmOutboundGroupSession \<Rightarrow> bytes" where
  "ser_outbound session =
     be_bytes 4 OUTBOUND_PICKLE_VERSION @ ser_megolm (og_ratchet session)
       @ ser_ed25519_key_pair (og_signing_key session)"

lemma wf_zero [simp]: "wf_megolm zero_megolm" "wf_ed25519_key_pair zero_ed25519_key_pair"
  by (simp_all add: wf_megolm_def zero_megolm_def wf_ed25519_key_pair_def zero_ed25519_key_pair_def)

lemma wf_outbound_cleared: "wf_outbound (olm_outbound_group_session memory)"
  by (simp add: olm_outbound_group_session_def olm_clear_outbound_group_session_def wf_outbound_def)

lemma outbound_raw_pickle_length_232: "outbound_raw_pickle_length session = 232"
  by (simp add: outbound_raw_pickle_length_def megolm_pickle_length_def
      olm_pickle_ed25519_key_pair_length_def)

lemma unpickle_outbound_raw_ser:
  assumes "wf_outbound s0" "wf_outbound s"
  shows "unpickle_outbound_raw s0 (ser_outbound s) = (s\<lparr>og_last_error := og_last_error s0\<rparr>, True)"
  using assms ed25519_key_pair_format.unpickle_ser [of _ _ "[]"]
  by (simp add: unpickle_outbound_raw_def ser_outbound_def wf_outbound_def
      uint32_format.unpickle_ser megolm_format.unpickle_ser Let_def)

interpretation outbound_pickle: pickled_object
  olm_enc_output_length olm_enc_output_pos pickle_seal olm_enc_output olm_enc_input
  wf_outbound wf_outbound "\<lambda>s0 s. s\<lparr>og_last_error := og_last_error s0\<rparr>" ser_outbound outbound_raw_pickle_length og_last_error
  "\<lambda>e s. s\<lparr>og_last_error := e\<rparr>"
  olm_pickle_outbound_group_session unpickle_outbound_raw olm_unpickle_outbound_group_session
proof unfold_locales
  fix s s0 key m p n
  show "length (ser_outbound s) = outbound_raw_pickle_length s" if "wf_outbound s"
    using that megolm_format.length_ser ed25519_key_pair_format.length_ser
    by (simp add: ser_outbound_def outbound_raw_pickle_length_def wf_outbound_def)
  show "olm_pickle_outbound_group_session s key m p n =
      (if n < olm_enc_output_length (outbound_raw_pickle_length s)
       then (s\<lparr>og_last_error := OLM_OUTPUT_BUFFER_TOO_SMALL\<rparr>, m, None)
       else
         let (m, r) = olm_enc_output key
               (store m (olm_enc_output_pos p (outbound_raw_pickle_length s)) (ser_outbound s)) p
               (outbound_raw_pickle_length s)
         in (s, m, Some r))" if "wf_outbound s"
  proof -
    let ?pos = "olm_enc_output_pos p (outbound_raw_pickle_length s)"
    let ?v = "be_bytes 4 OUTBOUND_PICKLE_VERSION" and ?r = "ser_megolm (og_ratchet s)"
      and ?k = "ser_ed25519_key_pair (og_signing_key s)"
    have len: "length ?r = megolm_pickle_length (og_ratchet s)"
      using that by (simp add: wf_outbound_def megolm_format.length_ser)
    show ?thesis
      using that len store_store_append [of m ?pos ?v ?r] store_store_append [of m ?pos "?v @ ?r" ?k]
      by (simp add: olm_pickle_outbound_group_session_def wf_outbound_def pickle_simps Let_def
          ser_outbound_def add.assoc)
  qed
  show "olm_unpickle_outbound_group_session s0 key m p n =
      (let (m, e, r) = olm_enc_input key m p n (og_last_error s0)
       in case r of
            None \<Rightarrow> (s0\<lparr>og_last_error := e\<rparr>, m, None)
          | Some k \<Rightarrow>
              let (s, ok) = unpickle_outbound_raw (s0\<lparr>og_last_error := e\<rparr>) (load m p k)
              in (s, m, if ok then Some n else None))"
    by (simp add: olm_unpickle_outbound_group_session_def Let_def)
qed (simp_all add: unpickle_outbound_raw_ser)

section \<open>What encryption and key sharing write\<close>

definition group_message_body :: "OlmOutboundGroupSession \<Rightarrow> bytes \<Rightarrow> bytes" where
  "group_message_body session plaintext =
     (let key = megolm_get_data (og_ratchet session);
          c = cipher_ctext MEGOLM_CIPHER key plaintext;
          b = group_message_header OLM_GROUP_PROTOCOL_VERSION
                (meg_counter (og_ratchet session)) (length c) @ c
      in b @ cipher_tag MEGOLM_CIPHER key b)"

definition group_message :: "crypto_prims \<Rightarrow> OlmOutboundGroupSession \<Rightarrow> bytes \<Rightarrow> bytes" where
  "group_message P session plaintext =
     (let b = group_message_body session plaintext
      in b @ olm_crypto_ed25519_sign P (og_signing_key session) b)"

definition key_share_body :: "OlmOutboundGroupSession \<Rightarrow> bytes" where
  "key_share_body session =
     SESSION_KEY_VERSION # be_bytes 4 (meg_counter (og_ratchet session))
       @ megolm_get_data (og_ratchet session) @ ed_public (og_signing_key session)"

definition key_share :: "crypto_prims \<Rightarrow> OlmOutboundGroupSession \<Rightarrow> bytes" where
  "key_share P session =
     key_share_body session @ olm_crypto_ed25519_sign P (og_signing_key session) (key_share_body session)"

lemma length_sign: "sign_law P \<Longrightarrow> length (olm_crypto_ed25519_sign P k msg) = 64"
  by (simp add: sign_law_def olm_crypto_ed25519_sign_def)

lemma length_group_message:
  assumes "sign_law P"
  shows "length (group_message P s pt) = outbound_raw_message_length s (length pt)"
  by (simp add: group_message_def group_message_body_def Let_def outbound_raw_message_length_def
      encode_group_message_length_eq [where version = OLM_GROUP_PROTOCOL_VERSION]
      length_sign [OF assms] ED25519_SIGNATURE_LENGTH_def)

lemma group_encrypt_raw_eq:
  "group_encrypt_raw P s pt m buf =
     (s\<lparr>og_ratchet := megolm_advance (og_ratchet s)\<rparr>,
      store m buf (group_message P s pt), Some (length (group_message_body s pt)))"
proof -
  let ?key = "megolm_get_data (og_ratchet s)"
  let ?c = "cipher_ctext MEGOLM_CIPHER ?key pt"
  let ?n = "aes_sha_256_cipher_encrypt_ciphertext_length (length pt)"
  let ?h = "group_message_header OLM_GROUP_PROTOCOL_VERSION (meg_counter (og_ratchet s)) ?n"
  let ?m1 = "store m buf ?h"
  let ?b = "group_message_body s pt"
  have h: "load ?m1 buf (length ?h) = ?h" by (rule load_store_same) simp
  have b: "?b = ?h @ ?c @ cipher_tag MEGOLM_CIPHER ?key (?h @ ?c)"
    by (simp add: group_message_body_def Let_def)
  have enc: "aes_sha_256_cipher_encrypt MEGOLM_CIPHER ?key pt ?m1 (buf + length ?h) ?n buf (length ?h + ?n + 8)
      = (store m buf ?b, Some (length ?b))"
    using aes_sha_256.enc_message [OF h refl, of _ pt MEGOLM_CIPHER ?key]
    by (simp add: b store_store_append)
  have load: "load (store m buf ?b) buf (length ?h + ?n + 8) = ?b"
    by (rule load_store_same) (simp add: b)
  show ?thesis
    using store_store_append [of m buf ?b] load
    by (simp add: group_encrypt_raw_def encode_group_message_eq enc Let_def group_message_def)
      (simp add: b add.assoc)
qed

text \<open>The raw bytes at the end of the buffer, then encoded over themselves.\<close>

lemma encode_at_end:
  assumes "length raw = n" "pos = out + encode_base64_length n - n"
  shows "olm_encode_base64 (store m pos raw) pos n out =
      (store (store m pos raw) out (b64enc raw), encode_base64_length n)"
    and "load (store (store m pos raw) out (b64enc raw)) out (encode_base64_length n) = b64enc raw"
    and "unchanged_outside out (encode_base64_length n) m (store (store m pos raw) out (b64enc raw))"
proof -
  have le: "n \<le> encode_base64_length n" by (rule encode_base64_length_le)
  show "olm_encode_base64 (store m pos raw) pos n out =
      (store (store m pos raw) out (b64enc raw), encode_base64_length n)"
    using assms le by (subst olm_encode_base64_eq) (auto simp: load_store_same)
  show "load (store (store m pos raw) out (b64enc raw)) out (encode_base64_length n) = b64enc raw"
    using assms by (simp add: load_store_same)
  show "unchanged_outside out (encode_base64_length n) m (store (store m pos raw) out (b64enc raw))"
    using assms le
    by (intro unchanged_outside_trans [OF unchanged_outside_store unchanged_outside_store]) auto
qed

lemma olm_group_encrypt_eq:
  assumes "sign_law P" "olm_group_encrypt_message_length s (length pt) \<le> max_len"
  shows "\<exists>m'. olm_group_encrypt P s pt m out max_len =
      (s\<lparr>og_ratchet := megolm_advance (og_ratchet s)\<rparr>, m',
       Some (olm_group_encrypt_message_length s (length pt))) \<and>
    load m' out (olm_group_encrypt_message_length s (length pt)) = b64enc (group_message P s pt) \<and>
    unchanged_outside out (olm_group_encrypt_message_length s (length pt)) m m'"
proof -
  let ?n = "outbound_raw_message_length s (length pt)"
  let ?pos = "out + encode_base64_length ?n - ?n"
  note at_end = encode_at_end [OF length_group_message [OF assms(1), of s pt] refl, where m = m and out = out]
  have "olm_group_encrypt P s pt m out max_len =
      (s\<lparr>og_ratchet := megolm_advance (og_ratchet s)\<rparr>,
       store (store m ?pos (group_message P s pt)) out (b64enc (group_message P s pt)),
       Some (encode_base64_length ?n))"
    unfolding olm_group_encrypt_def Let_def group_encrypt_raw_eq prod.case at_end(1)
    using assms(2) by (simp add: olm_group_encrypt_message_length_def)
  then show ?thesis using at_end(2,3) by (auto simp: olm_group_encrypt_message_length_def)
qed

lemma bit_0xFF: "bit (0xFF :: int) n = (n < 8)"
proof -
  have "(0xFF :: int) = mask 8" by (simp add: mask_eq_exp_minus_1)
  then show ?thesis by (simp only: bit_mask_iff) simp
qed

lemma top_byte:
  "k \<le> 24 \<Longrightarrow> (ucast (0xFF AND drop_bit 24 (push_bit k (c :: u32))) :: u8) = ucast (drop_bit (24 - k) c)"
proof (rule bit_word_eqI)
  fix n assume "k \<le> 24" "n < LENGTH(8)"
  moreover have "24 + n - k = 24 - k + n" using \<open>k \<le> 24\<close> by simp
  ultimately show "bit (ucast (0xFF AND drop_bit 24 (push_bit k c)) :: u8) n
      = bit (ucast (drop_bit (24 - k) c) :: u8) n"
    by (auto simp: bit_simps bit_0xFF)
qed

lemma put_counter_eq: "put_counter 4 m p c = (store m p (be_bytes 4 c), p + 4)"
proof -
  have "be_bytes 4 c = [ucast (drop_bit 24 c), ucast (drop_bit 16 c), ucast (drop_bit 8 c), ucast c]"
    by (simp add: be_bytes_def)
  then show ?thesis
    using top_byte [of 0 c] top_byte [of 8 c] top_byte [of 16 c] top_byte [of 24 c]
      store_store_append [of m p "[ucast (drop_bit 24 c)]"]
      store_store_append [of m p "[ucast (drop_bit 24 c), ucast (drop_bit 16 c)]"]
      store_store_append [of m p "[ucast (drop_bit 24 c), ucast (drop_bit 16 c), ucast (drop_bit 8 c)]"]
    by (simp add: eval_nat_numeral fun_upd_as_store add.assoc del: fun_upd_apply)
qed

lemma length_key_share:
  assumes "sign_law P" "wf_outbound s"
  shows "length (key_share P s) = SESSION_KEY_RAW_LENGTH"
  using assms
  by (simp add: key_share_def key_share_body_def length_sign wf_outbound_def
      wf_ed25519_key_pair_def SESSION_KEY_RAW_LENGTH_def ED25519_PUBLIC_KEY_LENGTH_def
      ED25519_SIGNATURE_LENGTH_def)

lemma olm_outbound_group_session_key_eq:
  assumes "sign_law P" "wf_outbound s" "olm_outbound_group_session_key_length \<le> key_length"
  shows "\<exists>m'. olm_outbound_group_session_key P s m out key_length =
      (s, m', Some olm_outbound_group_session_key_length) \<and>
    load m' out olm_outbound_group_session_key_length = b64enc (key_share P s) \<and>
    unchanged_outside out olm_outbound_group_session_key_length m m'"
proof -
  define pos where "pos = out + encode_base64_length SESSION_KEY_RAW_LENGTH - SESSION_KEY_RAW_LENGTH"
  let ?b = "key_share_body s" and ?c = "be_bytes 4 (meg_counter (og_ratchet s))"
  let ?d = "megolm_get_data (og_ratchet s)" and ?e = "ed_public (og_signing_key s)"
  have len: "length ?d = 128" "length ?e = 32"
    using assms(2) by (simp_all add: wf_outbound_def wf_ed25519_key_pair_def)
  have body: "store (store (store (store m p [SESSION_KEY_VERSION]) (p + 1) ?c) (p + 5) ?d) (p + 133) ?e
      = store m p ?b" for p
    using store_store_append [of m p "[SESSION_KEY_VERSION]" ?c]
      store_store_append [of m p "SESSION_KEY_VERSION # ?c" ?d]
      store_store_append [of m p "SESSION_KEY_VERSION # ?c @ ?d" ?e]
    by (simp add: key_share_body_def len)
  have loaded: "load (store m p ?b) p 165 = ?b" for p
    by (rule load_store_same) (simp add: key_share_body_def len)
  have key: "store (store m p ?b) (p + 165) (olm_crypto_ed25519_sign P (og_signing_key s) ?b)
      = store m p (key_share P s)" for p
    using store_store_append [of m p ?b] by (simp add: key_share_def key_share_body_def len)
  note at_end = encode_at_end [OF length_key_share [OF assms(1,2)] pos_def, where m = m]
  have "olm_outbound_group_session_key P s m out key_length =
      (s, store (store m pos (key_share P s)) out (b64enc (key_share P s)),
       Some (encode_base64_length SESSION_KEY_RAW_LENGTH))"
    using assms(3) body [of pos] loaded [of pos] key [of pos] at_end(1)
    unfolding olm_outbound_group_session_key_def Let_def olm_outbound_group_session_key_length_def
      pos_def [symmetric] put_counter_eq fun_upd_as_store prod.case
    by (simp add: ED25519_PUBLIC_KEY_LENGTH_def ac_simps)
  then show ?thesis
    using at_end(2,3) by (auto simp: olm_outbound_group_session_key_length_def)
qed

lemma wf_outbound_encrypt:
  "wf_outbound s \<Longrightarrow> wf_outbound (fst (olm_group_encrypt P s pt m out max_len))"
  by (auto simp: olm_group_encrypt_def group_encrypt_raw_eq wf_outbound_def wf_megolm_advance
      Let_def split: prod.split)

lemma wf_outbound_init:
  assumes "sign_law P" "wf_outbound s"
  shows "wf_outbound (fst (olm_init_outbound_group_session P s m random n))"
proof -
  have "wf_ed25519_key_pair (olm_crypto_ed25519_generate_key P seed)" for seed
    using assms(1)
    by (cases "ed25519_create_keypair P (take 32 seed)")
      (auto simp: sign_law_def wf_ed25519_key_pair_def olm_crypto_ed25519_generate_key_def
        dest: spec [of _ "take 32 seed"])
  then show ?thesis
    using assms(2)
    by (auto simp: olm_init_outbound_group_session_def wf_outbound_def Let_def intro: wf_megolm_init)
qed

section \<open>Properties\<close>

lemma outbound_pickle_length: "olm_pickle_outbound_group_session_length s = 331"
  by (simp add: olm_pickle_outbound_group_session_length_def outbound_raw_pickle_length_232
      olm_enc_output_length_def aes_sha_256_cipher_encrypt_ciphertext_length_def
      olm_crypto_aes_encrypt_cbc_length_def encode_base64_length_alt Let_def)

text \<open>A pickled outbound session, unpickled with the same key into any other session, is the
  session that was pickled; a buffer shorter than the announced length is refused untouched.\<close>

theorem outbound_pickle_round_trip:
  assumes "wf_outbound s" "wf_outbound s0"
  shows "if n < olm_pickle_outbound_group_session_length s
    then olm_pickle_outbound_group_session s key m p n = (s\<lparr>og_last_error := OLM_OUTPUT_BUFFER_TOO_SMALL\<rparr>, m, None)
    else \<exists>m1 m2. olm_pickle_outbound_group_session s key m p n
          = (s, m1, Some (olm_pickle_outbound_group_session_length s))
      \<and> olm_unpickle_outbound_group_session s0 key m1 p (olm_pickle_outbound_group_session_length s)
          = (s\<lparr>og_last_error := og_last_error s0\<rparr>, m2, Some (olm_pickle_outbound_group_session_length s))
      \<and> unchanged_outside p (olm_pickle_outbound_group_session_length s) m m1"
proof -
  have len: "olm_enc_output_length (outbound_raw_pickle_length s) = 331"
    using outbound_pickle_length [of s] by (simp add: olm_pickle_outbound_group_session_length_def)
  show ?thesis
    using outbound_pickle.pickle_small_buffer [OF assms(1), of n key m p]
      outbound_pickle.pickle_unpickle [OF assms, where n = n and key = key and m = m and p = p]
    by (auto simp: outbound_pickle_length len)
qed

lemma outbound_pickle_round_trip_witness:
  "\<exists>m1 m2. olm_pickle_outbound_group_session (olm_outbound_group_session undefined) [1] of_nat 5 400
      = (olm_outbound_group_session undefined, m1, Some 331)
    \<and> olm_unpickle_outbound_group_session (olm_outbound_group_session undefined) [1] m1 5 331
      = (olm_outbound_group_session undefined, m2, Some 331)"
  using outbound_pickle_round_trip [OF wf_outbound_cleared [of undefined] wf_outbound_cleared [of undefined], where n = 400 and p = 5 and key = "[1]" and m = of_nat]
  by (auto simp: outbound_pickle_length olm_outbound_group_session_def olm_clear_outbound_group_session_def)

end
