(* ===== verification/Account.thy ===== *)
theory Account
  imports OutboundGroup OlmList
begin

text \<open>
  \<open>src/account.cpp\<close> and \<open>include/olm/account.hh\<close>: the long term keys of a user, the one-time
  keys, the two generations of prekeys and of fallback keys, and the JSON that publishes them.
  Methods take the account first; those that write to a buffer take the memory and the pointer and
  return the new memory.  \<open>None\<close> is \<open>std::size_t(-1)\<close>.
\<close>

section \<open>State\<close>

record IdentityKeys =
  ed25519_key :: ed25519_key_pair
  curve25519_key :: curve25519_key_pair

record PreKey =
  pk_id :: u32
  pk_published :: bool
  pk_key :: curve25519_key_pair
  pk_signature :: bytes

record OneTimeKey =
  otk_id :: u32
  otk_published :: bool
  otk_key :: curve25519_key_pair

definition MAX_ONE_TIME_KEYS :: nat where "MAX_ONE_TIME_KEYS = 100"

record Account =
  identity_keys :: IdentityKeys
  one_time_keys :: "OneTimeKey list"
  current_prekey :: PreKey
  prev_prekey :: PreKey
  next_prekey_id :: u32
  last_prekey_publish_time :: u64
  num_prekeys :: u8
  num_fallback_keys :: u8
  current_fallback_key :: OneTimeKey
  prev_fallback_key :: OneTimeKey
  next_one_time_key_id :: u32
  acc_last_error :: OlmErrorCode

definition zero_curve25519_key_pair :: curve25519_key_pair where
  "zero_curve25519_key_pair = \<lparr>curve_public = replicate 32 0, curve_private = replicate 32 0\<rparr>"

definition zero_PreKey :: PreKey where
  "zero_PreKey = \<lparr>pk_id = 0, pk_published = False, pk_key = zero_curve25519_key_pair,
     pk_signature = replicate 64 0\<rparr>"

definition zero_OneTimeKey :: OneTimeKey where
  "zero_OneTimeKey = \<lparr>otk_id = 0, otk_published = False, otk_key = zero_curve25519_key_pair\<rparr>"

text \<open>The constructor, over memory that \<open>olm_account\<close> has cleared.\<close>

definition new_Account :: Account where
  "new_Account =
     \<lparr>identity_keys = \<lparr>ed25519_key = zero_ed25519_key_pair, curve25519_key = zero_curve25519_key_pair\<rparr>,
      one_time_keys = [], current_prekey = zero_PreKey, prev_prekey = zero_PreKey, next_prekey_id = 0,
      last_prekey_publish_time = 0, num_prekeys = 0, num_fallback_keys = 0,
      current_fallback_key = zero_OneTimeKey, prev_fallback_key = zero_OneTimeKey,
      next_one_time_key_id = 0, acc_last_error = OLM_SUCCESS\<rparr>"

section \<open>Looking keys up\<close>

definition has_key :: "OneTimeKey \<Rightarrow> bytes \<Rightarrow> bool" where
  "has_key key public_key = array_equal CURVE25519_KEY_LENGTH (curve_public (otk_key key)) public_key"

definition lookup_key :: "Account \<Rightarrow> bytes \<Rightarrow> OneTimeKey option" where
  "lookup_key a public_key =
     (case find (\<lambda>key. has_key key public_key) (one_time_keys a) of
        Some key \<Rightarrow> Some key
      | None \<Rightarrow>
          if num_fallback_keys a \<ge> 1 \<and> has_key (current_fallback_key a) public_key
          then Some (current_fallback_key a)
          else if num_fallback_keys a \<ge> 2 \<and> has_key (prev_fallback_key a) public_key
          then Some (prev_fallback_key a)
          else None)"

text \<open>The loop of \<open>remove_key\<close>: the id of the first key that fits and the list without it.\<close>

fun remove_first :: "bytes \<Rightarrow> OneTimeKey list \<Rightarrow> (u32 \<times> OneTimeKey list) option" where
  "remove_first public_key [] = None"
| "remove_first public_key (key # keys) =
     (if has_key key public_key then Some (otk_id key, list_erase (key # keys) 0)
      else map_option (\<lambda>(i, keys). (i, key # keys)) (remove_first public_key keys))"

definition remove_key :: "Account \<Rightarrow> bytes \<Rightarrow> Account \<times> nat option" where
  "remove_key a public_key =
     (case remove_first public_key (one_time_keys a) of
        Some (i, keys) \<Rightarrow> (a\<lparr>one_time_keys := keys\<rparr>, Some (unat i))
      | None \<Rightarrow>
          if num_fallback_keys a \<ge> 1 \<and> has_key (current_fallback_key a) public_key
          then (a, Some (unat (otk_id (current_fallback_key a))))
          else if num_fallback_keys a \<ge> 2 \<and> has_key (prev_fallback_key a) public_key
          then (a, Some (unat (otk_id (prev_fallback_key a))))
          else (a, None))"

definition lookup_prekey :: "Account \<Rightarrow> bytes \<Rightarrow> PreKey option" where
  "lookup_prekey a public_key =
     (if array_equal CURVE25519_KEY_LENGTH (curve_public (pk_key (current_prekey a))) public_key
      then Some (current_prekey a)
      else if array_equal CURVE25519_KEY_LENGTH (curve_public (pk_key (prev_prekey a))) public_key
      then Some (prev_prekey a)
      else None)"

section \<open>Signing\<close>

definition acc_signature_length :: nat where
  "acc_signature_length = ED25519_SIGNATURE_LENGTH"

definition acc_sign ::
    "crypto_prims \<Rightarrow> Account \<Rightarrow> bytes \<Rightarrow> mem \<Rightarrow> nat \<Rightarrow> nat \<Rightarrow> Account \<times> mem \<times> nat option" where
  "acc_sign P a message m signature signature_length =
     (if signature_length < acc_signature_length
      then (a\<lparr>acc_last_error := OLM_OUTPUT_BUFFER_TOO_SMALL\<rparr>, m, None)
      else (a, store m signature (olm_crypto_ed25519_sign P (ed25519_key (identity_keys a)) message),
            Some acc_signature_length))"

section \<open>Prekeys\<close>

definition generate_prekey_random_length :: nat where
  "generate_prekey_random_length = CURVE25519_RANDOM_LENGTH"

text \<open>
  The signature goes to a field of the account.  The code also builds a message of the key and its
  id, and signs the key alone.
\<close>

definition generate_prekey :: "crypto_prims \<Rightarrow> Account \<Rightarrow> bytes \<Rightarrow> Account \<times> nat option" where
  "generate_prekey P a random =
     (if length random < generate_prekey_random_length
      then (a\<lparr>acc_last_error := OLM_NOT_ENOUGH_RANDOM\<rparr>, None)
      else
        let a = (if num_prekeys a < 2 then a\<lparr>num_prekeys := num_prekeys a + 1\<rparr> else a);
            a = a\<lparr>prev_prekey := current_prekey a\<rparr>;
            a = a\<lparr>next_prekey_id := next_prekey_id a + 1\<rparr>;
            key = olm_crypto_curve25519_generate_key P random;
            signature = olm_crypto_ed25519_sign P (ed25519_key (identity_keys a)) (curve_public key)
        in (a\<lparr>current_prekey := \<lparr>pk_id = next_prekey_id a, pk_published = False, pk_key = key,
                pk_signature = signature\<rparr>\<rparr>, Some 1))"

definition forget_old_prekey :: "Account \<Rightarrow> Account" where
  "forget_old_prekey a =
     (if num_prekeys a = 2 then a\<lparr>prev_prekey := zero_PreKey, num_prekeys := num_prekeys a - 1\<rparr> else a)"

definition get_prekey_signature :: "Account \<Rightarrow> mem \<Rightarrow> nat \<Rightarrow> mem \<times> nat" where
  "get_prekey_signature a m signature =
     (let (m, _) = encode_base64_from (pk_signature (current_prekey a)) m signature
      in (m, acc_signature_length))"

definition get_last_prekey_publish_time :: "Account \<Rightarrow> u64" where
  "get_last_prekey_publish_time a = last_prekey_publish_time a"

text \<open>\<open>now\<close> is what \<open>std::time\<close> returns.\<close>

definition mark_prekey_as_published :: "Account \<Rightarrow> u64 \<Rightarrow> Account \<times> nat option" where
  "mark_prekey_as_published a now =
     (if pk_published (current_prekey a) then (a, None)
      else (a\<lparr>last_prekey_publish_time := now,
               current_prekey := (current_prekey a)\<lparr>pk_published := True\<rparr>\<rparr>, Some 0))"

section \<open>A new account\<close>

definition new_account_random_length :: nat where
  "new_account_random_length =
     ED25519_RANDOM_LENGTH + CURVE25519_RANDOM_LENGTH + generate_prekey_random_length"

definition new_account :: "crypto_prims \<Rightarrow> Account \<Rightarrow> bytes \<Rightarrow> Account \<times> nat option" where
  "new_account P a random =
     (if length random < new_account_random_length
      then (a\<lparr>acc_last_error := OLM_NOT_ENOUGH_RANDOM\<rparr>, None)
      else
        let a = a\<lparr>identity_keys := (identity_keys a)
              \<lparr>ed25519_key := olm_crypto_ed25519_generate_key P random\<rparr>\<rparr>;
            random = drop ED25519_RANDOM_LENGTH random;
            a = a\<lparr>identity_keys := (identity_keys a)
              \<lparr>curve25519_key := olm_crypto_curve25519_generate_key P random\<rparr>\<rparr>;
            random = drop CURVE25519_RANDOM_LENGTH random;
            (a, _) = generate_prekey P a (take generate_prekey_random_length random)
        in (a, Some 0))"

section \<open>One-time keys and fallback keys\<close>

text \<open>The loop of \<open>mark_keys_as_published\<close>.\<close>

fun mark_all_published :: "OneTimeKey list \<Rightarrow> nat \<Rightarrow> OneTimeKey list \<times> nat" where
  "mark_all_published [] count = ([], count)"
| "mark_all_published (key # keys) count =
     (let (key, count) = (if \<not> otk_published key then (key\<lparr>otk_published := True\<rparr>, count + 1) else (key, count));
          (keys, count) = mark_all_published keys count
      in (key # keys, count))"

definition mark_keys_as_published :: "Account \<Rightarrow> Account \<times> nat" where
  "mark_keys_as_published a =
     (let (keys, count) = mark_all_published (one_time_keys a) 0;
          a = a\<lparr>one_time_keys := keys\<rparr>
      in (a\<lparr>current_fallback_key := (current_fallback_key a)\<lparr>otk_published := True\<rparr>\<rparr>, count))"

definition max_number_of_one_time_keys :: nat where
  "max_number_of_one_time_keys = MAX_ONE_TIME_KEYS"

definition generate_one_time_keys_random_length :: "nat \<Rightarrow> nat" where
  "generate_one_time_keys_random_length number_of_keys = CURVE25519_RANDOM_LENGTH * number_of_keys"

text \<open>The loop of \<open>generate_one_time_keys\<close>; the number of keys fits the 32 bit counter.\<close>

fun generate_keys_loop :: "crypto_prims \<Rightarrow> nat \<Rightarrow> Account \<Rightarrow> bytes \<Rightarrow> Account" where
  "generate_keys_loop P 0 a random = a"
| "generate_keys_loop P (Suc n) a random =
     (let a = a\<lparr>next_one_time_key_id := next_one_time_key_id a + 1\<rparr>;
          key = \<lparr>otk_id = next_one_time_key_id a, otk_published = False,
                 otk_key = olm_crypto_curve25519_generate_key P random\<rparr>;
          a = a\<lparr>one_time_keys := list_insert MAX_ONE_TIME_KEYS (one_time_keys a) 0 key\<rparr>
      in generate_keys_loop P n a (drop CURVE25519_RANDOM_LENGTH random))"

definition generate_one_time_keys ::
    "crypto_prims \<Rightarrow> Account \<Rightarrow> nat \<Rightarrow> bytes \<Rightarrow> Account \<times> nat option" where
  "generate_one_time_keys P a number_of_keys random =
     (if length random < generate_one_time_keys_random_length number_of_keys
      then (a\<lparr>acc_last_error := OLM_NOT_ENOUGH_RANDOM\<rparr>, None)
      else (generate_keys_loop P number_of_keys a random, Some number_of_keys))"

definition generate_fallback_key_random_length :: nat where
  "generate_fallback_key_random_length = CURVE25519_RANDOM_LENGTH"

definition generate_fallback_key :: "crypto_prims \<Rightarrow> Account \<Rightarrow> bytes \<Rightarrow> Account \<times> nat option" where
  "generate_fallback_key P a random =
     (if length random < generate_fallback_key_random_length
      then (a\<lparr>acc_last_error := OLM_NOT_ENOUGH_RANDOM\<rparr>, None)
      else
        let a = (if num_fallback_keys a < 2 then a\<lparr>num_fallback_keys := num_fallback_keys a + 1\<rparr> else a);
            a = a\<lparr>prev_fallback_key := current_fallback_key a\<rparr>;
            a = a\<lparr>next_one_time_key_id := next_one_time_key_id a + 1\<rparr>
        in (a\<lparr>current_fallback_key := \<lparr>otk_id = next_one_time_key_id a, otk_published = False,
                otk_key = olm_crypto_curve25519_generate_key P random\<rparr>\<rparr>, Some 1))"

definition forget_old_fallback_key :: "Account \<Rightarrow> Account" where
  "forget_old_fallback_key a =
     (if num_fallback_keys a \<ge> 2
      then a\<lparr>num_fallback_keys := 1, prev_fallback_key := zero_OneTimeKey\<rparr> else a)"

section \<open>JSON\<close>

definition ascii :: "string \<Rightarrow> bytes" where
  "ascii s = map (\<lambda>c. of_nat (of_char c)) s"

definition KEY_JSON_ED25519 :: bytes where "KEY_JSON_ED25519 = ascii ''\"ed25519\":''"
definition KEY_JSON_CURVE25519 :: bytes where "KEY_JSON_CURVE25519 = ascii ''\"curve25519\":''"

definition write_string :: "mem \<Rightarrow> nat \<Rightarrow> bytes \<Rightarrow> mem \<times> nat" where
  "write_string m pos value = (store m pos value, pos + length value)"

text \<open>\<open>*(pos++) = c\<close>, and \<open>pos = encode_base64(bs, sizeof(bs), pos)\<close> for a field or local \<open>bs\<close>.\<close>

definition put_char :: "mem \<Rightarrow> nat \<Rightarrow> char \<Rightarrow> mem \<times> nat" where
  "put_char m pos c = (m(pos := of_nat (of_char c)), pos + 1)"

definition put_base64 :: "mem \<Rightarrow> nat \<Rightarrow> bytes \<Rightarrow> mem \<times> nat" where
  "put_base64 m pos bs = (let (m, n) = encode_base64_from bs m pos in (m, pos + n))"

definition get_identity_json_length :: nat where
  "get_identity_json_length =
     (let length = 0;
          length = length + 1;
          length = length + size KEY_JSON_CURVE25519;
          length = length + 1;
          length = length + encode_base64_length CURVE25519_KEY_LENGTH;
          length = length + 2;
          length = length + size KEY_JSON_ED25519;
          length = length + 1;
          length = length + encode_base64_length ED25519_PUBLIC_KEY_LENGTH;
          length = length + 2
      in length)"

definition get_identity_json :: "Account \<Rightarrow> mem \<Rightarrow> nat \<Rightarrow> nat \<Rightarrow> Account \<times> mem \<times> nat option" where
  "get_identity_json a m identity_json identity_json_length =
     (let expected_length = get_identity_json_length
      in if identity_json_length < expected_length
         then (a\<lparr>acc_last_error := OLM_OUTPUT_BUFFER_TOO_SMALL\<rparr>, m, None)
         else
           let pos = identity_json;
               (m, pos) = put_char m pos CHR ''{'';
               (m, pos) = write_string m pos KEY_JSON_CURVE25519;
               (m, pos) = put_char m pos CHR 0x22;
               (m, pos) = put_base64 m pos (curve_public (curve25519_key (identity_keys a)));
               (m, pos) = put_char m pos CHR 0x22;
               (m, pos) = put_char m pos CHR '','';
               (m, pos) = write_string m pos KEY_JSON_ED25519;
               (m, pos) = put_char m pos CHR 0x22;
               (m, pos) = put_base64 m pos (ed_public (ed25519_key (identity_keys a)));
               (m, pos) = put_char m pos CHR 0x22;
               (m, pos) = put_char m pos CHR ''}''
           in (a, m, Some (pos - identity_json)))"

text \<open>The member of a JSON object for one key, which six of the functions below write or measure.\<close>

definition key_entry_length :: nat where
  "key_entry_length =
     1 + encode_base64_length 4 + 3 + encode_base64_length CURVE25519_KEY_LENGTH + 1"

definition put_key_entry :: "mem \<Rightarrow> nat \<Rightarrow> u32 \<Rightarrow> curve25519_key_pair \<Rightarrow> mem \<times> nat" where
  "put_key_entry m pos i key =
     (let (m, pos) = put_char m pos CHR 0x22;
          (array, _) = olm_pickle_uint32 (\<lambda>_. 0) 0 i;
          key_id = load array 0 4;
          (m, pos) = put_base64 m pos key_id;
          (m, pos) = put_char m pos CHR 0x22;
          (m, pos) = put_char m pos CHR '':'';
          (m, pos) = put_char m pos CHR 0x22;
          (m, pos) = put_base64 m pos (curve_public key);
          (m, pos) = put_char m pos CHR 0x22
      in (m, pos))"

text \<open>The loops over the one-time keys; the first one counts from a length, the second one writes.\<close>

fun json_length_loop :: "OneTimeKey list \<Rightarrow> nat \<Rightarrow> bool \<Rightarrow> nat \<times> bool" where
  "json_length_loop [] n is_empty = (n, is_empty)"
| "json_length_loop (key # keys) n is_empty =
     (if otk_published key then json_length_loop keys n is_empty
      else json_length_loop keys
        (n + 2 + encode_base64_length 4 + 3 + encode_base64_length CURVE25519_KEY_LENGTH + 1) False)"

definition get_one_time_keys_json_length :: "Account \<Rightarrow> nat" where
  "get_one_time_keys_json_length a =
     (let (length, is_empty) = json_length_loop (one_time_keys a) 0 True;
          length = (if is_empty then length + 1 else length);
          length = length + 3
      in length + size KEY_JSON_CURVE25519)"

fun json_loop :: "OneTimeKey list \<Rightarrow> mem \<Rightarrow> nat \<Rightarrow> char \<Rightarrow> mem \<times> nat \<times> char" where
  "json_loop [] m pos sep = (m, pos, sep)"
| "json_loop (key # keys) m pos sep =
     (if otk_published key then json_loop keys m pos sep
      else
        let (m, pos) = put_char m pos sep;
            (m, pos) = put_key_entry m pos (otk_id key) (otk_key key)
        in json_loop keys m pos CHR '','')"

definition get_one_time_keys_json :: "Account \<Rightarrow> mem \<Rightarrow> nat \<Rightarrow> nat \<Rightarrow> Account \<times> mem \<times> nat option" where
  "get_one_time_keys_json a m one_time_json one_time_json_length =
     (if one_time_json_length < get_one_time_keys_json_length a
      then (a\<lparr>acc_last_error := OLM_OUTPUT_BUFFER_TOO_SMALL\<rparr>, m, None)
      else
        let pos = one_time_json;
            (m, pos) = put_char m pos CHR ''{'';
            (m, pos) = write_string m pos KEY_JSON_CURVE25519;
            (m, pos, sep) = json_loop (one_time_keys a) m pos CHR ''{'';
            (m, pos) = (if sep \<noteq> CHR '','' then put_char m pos sep else (m, pos));
            (m, pos) = put_char m pos CHR ''}'';
            (m, pos) = put_char m pos CHR ''}''
        in (a, m, Some (pos - one_time_json)))"

text \<open>The object with at most one key, which the functions for prekeys and fallback keys write.\<close>

definition put_key_object :: "mem \<Rightarrow> nat \<Rightarrow> (u32 \<times> curve25519_key_pair) option \<Rightarrow> mem \<times> nat" where
  "put_key_object m pos entry =
     (let (m, pos) = put_char m pos CHR ''{'';
          (m, pos) = write_string m pos KEY_JSON_CURVE25519;
          (m, pos) = put_char m pos CHR ''{'';
          (m, pos) = (case entry of None \<Rightarrow> (m, pos) | Some (i, key) \<Rightarrow> put_key_entry m pos i key);
          (m, pos) = put_char m pos CHR ''}'';
          (m, pos) = put_char m pos CHR ''}''
      in (m, pos))"

definition get_prekey_json_length :: nat where
  "get_prekey_json_length = 4 + size KEY_JSON_CURVE25519 + key_entry_length"

definition get_prekey_json :: "Account \<Rightarrow> mem \<Rightarrow> nat \<Rightarrow> nat \<Rightarrow> Account \<times> mem \<times> nat option" where
  "get_prekey_json a m prekey_json prekey_json_length =
     (if prekey_json_length < get_prekey_json_length
      then (a\<lparr>acc_last_error := OLM_OUTPUT_BUFFER_TOO_SMALL\<rparr>, m, None)
      else
        let (m, pos) = put_key_object m prekey_json
              (Some (pk_id (current_prekey a), pk_key (current_prekey a)))
        in (a, m, Some (pos - prekey_json)))"

definition get_unpublished_prekey_json :: "Account \<Rightarrow> mem \<Rightarrow> nat \<Rightarrow> nat \<Rightarrow> Account \<times> mem \<times> nat option" where
  "get_unpublished_prekey_json a m prekey_json prekey_json_length =
     (if prekey_json_length < get_prekey_json_length
      then (a\<lparr>acc_last_error := OLM_OUTPUT_BUFFER_TOO_SMALL\<rparr>, m, None)
      else if pk_published (current_prekey a) then (a, m, Some 0)
      else
        let (m, pos) = put_key_object m prekey_json
              (Some (pk_id (current_prekey a), pk_key (current_prekey a)))
        in (a, m, Some (pos - prekey_json)))"

definition get_fallback_key_json_length :: "Account \<Rightarrow> nat" where
  "get_fallback_key_json_length a =
     4 + size KEY_JSON_CURVE25519 + (if num_fallback_keys a \<ge> 1 then key_entry_length else 0)"

definition get_fallback_key_json :: "Account \<Rightarrow> mem \<Rightarrow> nat \<Rightarrow> nat \<Rightarrow> Account \<times> mem \<times> nat option" where
  "get_fallback_key_json a m fallback_json fallback_json_length =
     (if fallback_json_length < get_fallback_key_json_length a
      then (a\<lparr>acc_last_error := OLM_OUTPUT_BUFFER_TOO_SMALL\<rparr>, m, None)
      else
        let key = current_fallback_key a;
            (m, pos) = put_key_object m fallback_json
              (if num_fallback_keys a \<ge> 1 then Some (otk_id key, otk_key key) else None)
        in (a, m, Some (pos - fallback_json)))"

definition get_unpublished_fallback_key_json_length :: "Account \<Rightarrow> nat" where
  "get_unpublished_fallback_key_json_length a =
     4 + size KEY_JSON_CURVE25519
     + (if num_fallback_keys a \<ge> 1 \<and> \<not> otk_published (current_fallback_key a) then key_entry_length else 0)"

definition get_unpublished_fallback_key_json ::
    "Account \<Rightarrow> mem \<Rightarrow> nat \<Rightarrow> nat \<Rightarrow> Account \<times> mem \<times> nat option" where
  "get_unpublished_fallback_key_json a m fallback_json fallback_json_length =
     (if fallback_json_length < get_unpublished_fallback_key_json_length a
      then (a\<lparr>acc_last_error := OLM_OUTPUT_BUFFER_TOO_SMALL\<rparr>, m, None)
      else
        let key = current_fallback_key a;
            (m, pos) = put_key_object m fallback_json
              (if num_fallback_keys a \<ge> 1 \<and> \<not> otk_published key then Some (otk_id key, otk_key key) else None)
        in (a, m, Some (pos - fallback_json)))"

end
