(* ===== verification/AccountKeys.thy ===== *)
theory AccountKeys
  imports Account SamplePrims
begin

text \<open>
  What the operations of \<open>src/account.cpp\<close> promise: the JSON they write, the life of one-time keys
  and fallback keys, and the invariant of every reachable account.
\<close>

section \<open>JSON as text\<close>

definition quoted :: "bytes \<Rightarrow> bytes" where
  "quoted bs = ascii [CHR 0x22] @ bs @ ascii [CHR 0x22]"

fun comma_separated :: "bytes list \<Rightarrow> bytes" where
  "comma_separated [] = []"
| "comma_separated [t] = t"
| "comma_separated (t # ts) = t @ ascii '','' @ comma_separated ts"

definition json_object :: "(bytes \<times> bytes) list \<Rightarrow> bytes" where
  "json_object members =
     ascii ''{'' @ comma_separated (map (\<lambda>(name, value). quoted name @ ascii '':'' @ value) members) @ ascii ''}''"

definition json_key :: "u32 \<Rightarrow> curve25519_key_pair \<Rightarrow> bytes \<times> bytes" where
  "json_key i key = (b64enc (be_bytes 4 i), quoted (b64enc (curve_public key)))"

definition identity_json :: "Account \<Rightarrow> bytes" where
  "identity_json a = json_object
     [(ascii ''curve25519'', quoted (b64enc (curve_public (curve25519_key (identity_keys a))))),
      (ascii ''ed25519'', quoted (b64enc (ed_public (ed25519_key (identity_keys a)))))]"

definition keys_json :: "(bytes \<times> bytes) list \<Rightarrow> bytes" where
  "keys_json keys = json_object [(ascii ''curve25519'', json_object keys)]"

definition one_time_keys_json :: "Account \<Rightarrow> bytes" where
  "one_time_keys_json a =
     keys_json (map (\<lambda>k. json_key (otk_id k) (otk_key k)) (filter (\<lambda>k. \<not> otk_published k) (one_time_keys a)))"

lemma ascii_Nil [simp]: "ascii [] = []" by (simp add: ascii_def)

lemma length_ascii [simp, len_simps]: "length (ascii s) = size s"
  by (simp add: ascii_def)

lemma ascii_append: "ascii (s @ t) = ascii s @ ascii t"
  by (simp add: ascii_def)

lemma key_json_literals:
  "KEY_JSON_CURVE25519 = quoted (ascii ''curve25519'') @ ascii '':''"
  "KEY_JSON_ED25519 = quoted (ascii ''ed25519'') @ ascii '':''"
  by (simp_all add: KEY_JSON_CURVE25519_def KEY_JSON_ED25519_def quoted_def flip: ascii_append)

lemma put_char_eq: "put_char m pos c = write_string m pos (ascii [c])"
  by (simp add: put_char_def write_string_def ascii_def fun_upd_as_store)

lemma put_base64_eq: "put_base64 m pos bs = write_string m pos (b64enc bs)"
  by (simp add: put_base64_def write_string_def encode_base64_from_def)

lemma write_write [simp]:
  "(case write_string m p a of (m, pos) \<Rightarrow> case write_string m pos b of (m, pos) \<Rightarrow> f m pos) =
     (case write_string m p (a @ b) of (m, pos) \<Rightarrow> f m pos)"
  "(case write_string m p a of (m, pos) \<Rightarrow> write_string m pos b) = write_string m p (a @ b)"
  by (simp_all add: write_string_def store_store_append add.assoc)

lemma put_key_entry_eq:
  "put_key_entry m pos i key =
     write_string m pos (quoted (fst (json_key i key)) @ ascii '':'' @ snd (json_key i key))"
  by (simp add: put_key_entry_def put_char_eq put_base64_eq json_key_def quoted_def pickle_simps
      load_store_same)

lemma write_string_Nil [simp]: "write_string m p [] = (m, p)"
  by (simp add: write_string_def)

definition member :: "bytes \<times> bytes \<Rightarrow> bytes" where
  "member x = quoted (fst x) @ ascii '':'' @ snd x"

lemma json_object_members: "json_object ms = ascii ''{'' @ comma_separated (map member ms) @ ascii ''}''"
proof -
  have m: "member = (\<lambda>(name, value). quoted name @ ascii '':'' @ value)"
    by (simp add: fun_eq_iff member_def)
  show ?thesis unfolding json_object_def m by (rule refl)
qed

declare comma_separated.simps(3) [simp del]

lemma comma_separated_Cons:
  "comma_separated (t # ts) = t @ (if ts = [] then [] else ascii '','' @ comma_separated ts)"
  by (cases ts) (simp_all add: comma_separated.simps(3))

abbreviation unpublished :: "OneTimeKey list \<Rightarrow> OneTimeKey list" where
  "unpublished keys \<equiv> filter (\<lambda>k. \<not> otk_published k) keys"

definition key_members :: "OneTimeKey list \<Rightarrow> (bytes \<times> bytes) list" where
  "key_members keys = map (\<lambda>k. json_key (otk_id k) (otk_key k)) (unpublished keys)"

lemma key_members_simps [simp]:
  "key_members [] = []"
  "key_members (k # ks) = (if otk_published k then key_members ks
     else json_key (otk_id k) (otk_key k) # key_members ks)"
  by (simp_all add: key_members_def)

lemma json_loop_eq:
  "json_loop keys m pos sep =
     (case write_string m pos (if key_members keys = [] then []
         else ascii [sep] @ comma_separated (map member (key_members keys))) of
        (m, pos) \<Rightarrow> (m, pos, if key_members keys = [] then sep else CHR '',''))"
proof (induction keys arbitrary: m pos sep)
  case (Cons k ks)
  then show ?case
    by (simp add: put_char_eq put_key_entry_eq comma_separated_Cons member_def Let_def)
qed simp

lemma length_key_member [simp]:
  "wf_curve25519_key_pair k \<Longrightarrow> length (member (json_key i k)) = 54"
  by (simp add: member_def json_key_def quoted_def wf_curve25519_key_pair_def encode_base64_length_def)

lemma json_length_loop_eq:
  "json_length_loop keys n e = (n + 55 * size (key_members keys), e \<and> key_members keys = [])"
  by (induction keys arbitrary: n e) (simp_all add: encode_base64_length_def CURVE25519_KEY_LENGTH_def)

lemma length_comma_separated:
  "\<forall>t \<in> set ts. size t = 54 \<Longrightarrow> size (comma_separated ts) = 55 * size ts - (if ts = [] then 0 else 1)"
  by (induction ts) (auto simp: comma_separated_Cons)

lemma put_key_object_eq:
  "put_key_object m pos entry =
     write_string m pos (keys_json (case entry of None \<Rightarrow> [] | Some (i, key) \<Rightarrow> [json_key i key]))"
proof (cases entry)
  case None
  then show ?thesis
    by (simp add: put_key_object_def put_char_eq keys_json_def json_object_members member_def
        key_json_literals Let_def)
next
  case (Some e)
  obtain i key where "e = (i, key)" by (cases e)
  with Some show ?thesis
    by (simp add: put_key_object_def put_char_eq put_key_entry_eq keys_json_def json_object_members member_def
        key_json_literals Let_def)
qed

section \<open>The invariant of an account\<close>

definition wf_PreKey :: "PreKey \<Rightarrow> bool" where
  "wf_PreKey k \<longleftrightarrow> wf_curve25519_key_pair (pk_key k) \<and> length (pk_signature k) = 64"

definition wf_OneTimeKey :: "OneTimeKey \<Rightarrow> bool" where
  "wf_OneTimeKey k \<longleftrightarrow> wf_curve25519_key_pair (otk_key k)"

definition wf_Account :: "Account \<Rightarrow> bool" where
  "wf_Account a \<longleftrightarrow>
     wf_ed25519_key_pair (ed25519_key (identity_keys a)) \<and>
     wf_curve25519_key_pair (curve25519_key (identity_keys a)) \<and>
     length (one_time_keys a) \<le> MAX_ONE_TIME_KEYS \<and> (\<forall>k \<in> set (one_time_keys a). wf_OneTimeKey k) \<and>
     wf_PreKey (current_prekey a) \<and> wf_PreKey (prev_prekey a) \<and> num_prekeys a \<le> 2 \<and>
     wf_OneTimeKey (current_fallback_key a) \<and> wf_OneTimeKey (prev_fallback_key a) \<and> num_fallback_keys a \<le> 2"

lemma length_identity_json:
  "wf_Account a \<Longrightarrow> length (identity_json a) = get_identity_json_length"
  by (simp add: wf_Account_def wf_curve25519_key_pair_def wf_ed25519_key_pair_def identity_json_def
      json_object_members member_def quoted_def comma_separated_Cons get_identity_json_length_def
      KEY_JSON_CURVE25519_def KEY_JSON_ED25519_def CURVE25519_KEY_LENGTH_def ED25519_PUBLIC_KEY_LENGTH_def)

lemma length_keys_json:
  assumes "\<forall>k \<in> set ks. size (member k) = 54"
  shows "length (keys_json ks) = (if ks = [] then 17 else 16 + 55 * size ks)"
proof -
  have "size (comma_separated (map member ks)) = 55 * size ks - (if ks = [] then 0 else 1)"
    using length_comma_separated [of "map member ks"] assms by simp
  then show ?thesis
    by (cases ks) (simp_all add: keys_json_def json_object_members member_def quoted_def)
qed

lemma length_one_time_keys_json:
  assumes "wf_Account a"
  shows "length (one_time_keys_json a) = get_one_time_keys_json_length a"
proof -
  have "\<forall>k \<in> set (key_members (one_time_keys a)). size (member k) = 54"
    using assms by (auto simp: key_members_def wf_Account_def wf_OneTimeKey_def)
  from length_keys_json [OF this] show ?thesis
    by (simp add: one_time_keys_json_def key_members_def [symmetric] get_one_time_keys_json_length_def
        json_length_loop_eq KEY_JSON_CURVE25519_def)
qed

lemma write_then_sep [simp]:
  "(case (case write_string m p bs of (m, pos) \<Rightarrow> (m, pos, sep)) of (m, pos, sep) \<Rightarrow> f m pos sep) =
     (case write_string m p bs of (m, pos) \<Rightarrow> f m pos sep)"
  by (simp add: write_string_def)

lemma get_one_time_keys_json_eq:
  "get_one_time_keys_json_length a \<le> n \<Longrightarrow> get_one_time_keys_json a m out n =
     (a, store m out (one_time_keys_json a), Some (length (one_time_keys_json a)))"
  by (cases "key_members (one_time_keys a) = []";
    simp add: get_one_time_keys_json_def put_char_eq json_loop_eq key_json_literals Let_def
      one_time_keys_json_def key_members_def [symmetric] keys_json_def json_object_members member_def;
    simp add: write_string_def)

lemma get_identity_json_eq:
  "get_identity_json_length \<le> n \<Longrightarrow> get_identity_json a m out n =
     (a, store m out (identity_json a), Some (length (identity_json a)))"
  by (simp add: get_identity_json_def put_char_eq put_base64_eq key_json_literals Let_def
      identity_json_def json_object_members member_def comma_separated_Cons quoted_def)
    (simp add: write_string_def)

section \<open>Reachable accounts\<close>

lemma wf_new_key: "dh_law P \<Longrightarrow> 32 \<le> length random \<Longrightarrow>
    wf_curve25519_key_pair (olm_crypto_curve25519_generate_key P random)"
  by (simp add: wf_curve25519_key_pair_def olm_crypto_curve25519_generate_key_def dh_law_def Let_def)

lemma length_signature: "sign_law P \<Longrightarrow> length (olm_crypto_ed25519_sign P k msg) = 64"
  by (simp add: olm_crypto_ed25519_sign_def sign_law_def)

lemma wf_new_signing_key: "sign_law P \<Longrightarrow> wf_ed25519_key_pair (olm_crypto_ed25519_generate_key P random)"
  by (auto simp: wf_ed25519_key_pair_def olm_crypto_ed25519_generate_key_def sign_law_def split: prod.split)
    (metis fst_conv snd_conv)+

lemma wf_zero_keys [simp]: "wf_PreKey zero_PreKey" "wf_OneTimeKey zero_OneTimeKey" "wf_Account new_Account"
  by (simp_all add: wf_PreKey_def zero_PreKey_def wf_OneTimeKey_def zero_OneTimeKey_def
      wf_Account_def new_Account_def zero_curve25519_key_pair_def zero_ed25519_key_pair_def
      wf_curve25519_key_pair_def wf_ed25519_key_pair_def)

lemma u8_at_most_2: "(n :: u8) \<le> 2 \<Longrightarrow> n < 2 \<Longrightarrow> n + 1 \<le> 2" "(n :: u8) \<le> 2 \<Longrightarrow> \<not> n < 2 \<Longrightarrow> n = 2"
  by (auto simp: word_le_nat_alt word_less_nat_alt unat_word_ariths intro: word_unat_eq_iff [THEN iffD2])

lemma wf_generate_prekey:
  assumes "dh_law P" "sign_law P" "wf_Account a"
  shows "wf_Account (fst (generate_prekey P a random))"
  using assms u8_at_most_2 [of "num_prekeys a"]
  by (auto simp: generate_prekey_def wf_Account_def wf_PreKey_def Let_def length_signature
      generate_prekey_random_length_def CURVE25519_RANDOM_LENGTH_def intro!: wf_new_key)

lemma wf_new_account:
  assumes "dh_law P" "sign_law P" "wf_Account a"
  shows "wf_Account (fst (new_account P a random))"
proof (cases "length random < new_account_random_length")
  case False
  let ?a = "a\<lparr>identity_keys := (identity_keys a)\<lparr>ed25519_key := olm_crypto_ed25519_generate_key P random,
      curve25519_key := olm_crypto_curve25519_generate_key P (drop ED25519_RANDOM_LENGTH random)\<rparr>\<rparr>"
  have "wf_curve25519_key_pair (olm_crypto_curve25519_generate_key P (drop ED25519_RANDOM_LENGTH random))"
    using False by (intro wf_new_key [OF assms(1)]) (simp add: new_account_random_length_def
        ED25519_RANDOM_LENGTH_def CURVE25519_RANDOM_LENGTH_def)
  then have "wf_Account ?a"
    using assms(3) wf_new_signing_key [OF assms(2)] by (simp add: wf_Account_def)
  from wf_generate_prekey [OF assms(1,2) this] False show ?thesis
    by (simp add: new_account_def Let_def split: prod.split) (metis fst_conv)
qed (use assms(3) in \<open>simp add: new_account_def wf_Account_def\<close>)

lemma wf_generate_keys_loop:
  "dh_law P \<Longrightarrow> 32 * n \<le> length random \<Longrightarrow> wf_Account a \<Longrightarrow> wf_Account (generate_keys_loop P n a random)"
proof (induction n arbitrary: a random)
  case (Suc n)
  let ?a = "a\<lparr>next_one_time_key_id := next_one_time_key_id a + 1, one_time_keys := list_insert MAX_ONE_TIME_KEYS
      (one_time_keys a) 0 \<lparr>otk_id = next_one_time_key_id a + 1, otk_published = False,
        otk_key = olm_crypto_curve25519_generate_key P random\<rparr>\<rparr>"
  have "wf_Account ?a"
    using Suc.prems by (auto simp: wf_Account_def wf_OneTimeKey_def list_insert_front MAX_ONE_TIME_KEYS_def
        intro!: wf_new_key dest: in_set_takeD)
  from Suc.IH [OF Suc.prems(1) _ this, of "drop 32 random"] Suc.prems(2) show ?case
    by (simp add: Let_def CURVE25519_RANDOM_LENGTH_def)
qed simp

lemma set_remove_first: "remove_first pk keys = Some (i, keys') \<Longrightarrow> set keys' \<subseteq> set keys \<and> length keys' < length keys"
  by (induction keys arbitrary: keys') (auto simp: list_erase_def split: if_splits)

lemma mark_all_published_eq:
  "mark_all_published keys n = (map (\<lambda>k. k\<lparr>otk_published := True\<rparr>) keys, n + length (unpublished keys))"
  by (induction keys arbitrary: n) (auto simp: Let_def)

text \<open>The ids of the keys in use: the one-time keys, then the fallback keys.\<close>

definition live_ids :: "Account \<Rightarrow> u32 list" where
  "live_ids a = map otk_id (one_time_keys a)
     @ (if num_fallback_keys a \<ge> 1 then [otk_id (current_fallback_key a)] else [])
     @ (if num_fallback_keys a \<ge> 2 then [otk_id (prev_fallback_key a)] else [])"

definition ids_ok :: "Account \<Rightarrow> bool" where
  "ids_ok a \<longleftrightarrow> distinct (live_ids a) \<and> (\<forall>i \<in> set (live_ids a). i \<le> next_one_time_key_id a)"

text \<open>Ids are not reused before the 32 bit counter wraps.\<close>

inductive reachable_account :: "crypto_prims \<Rightarrow> Account \<Rightarrow> bool" for P where
  constructed: "reachable_account P new_Account"
| creates: "reachable_account P a \<Longrightarrow> reachable_account P (fst (new_account P a random))"
| signs: "reachable_account P a \<Longrightarrow> reachable_account P (fst (acc_sign P a msg m p n))"
| generates_prekey: "reachable_account P a \<Longrightarrow> reachable_account P (fst (generate_prekey P a random))"
| forgets_prekey: "reachable_account P a \<Longrightarrow> reachable_account P (forget_old_prekey a)"
| marks_prekey: "reachable_account P a \<Longrightarrow> reachable_account P (fst (mark_prekey_as_published a now))"
| marks_keys: "reachable_account P a \<Longrightarrow> reachable_account P (fst (mark_keys_as_published a))"
| generates_keys: "reachable_account P a \<Longrightarrow> unat (next_one_time_key_id a) + n < 2 ^ 32 \<Longrightarrow>
     reachable_account P (fst (generate_one_time_keys P a n random))"
| generates_fallback: "reachable_account P a \<Longrightarrow> unat (next_one_time_key_id a) + 1 < 2 ^ 32 \<Longrightarrow>
     reachable_account P (fst (generate_fallback_key P a random))"
| forgets_fallback: "reachable_account P a \<Longrightarrow> reachable_account P (forget_old_fallback_key a)"
| removes: "reachable_account P a \<Longrightarrow> reachable_account P (fst (remove_key a pk))"
| writes_identity: "reachable_account P a \<Longrightarrow> reachable_account P (fst (get_identity_json a m p n))"
| writes_one_time: "reachable_account P a \<Longrightarrow> reachable_account P (fst (get_one_time_keys_json a m p n))"
| writes_prekey: "reachable_account P a \<Longrightarrow> reachable_account P (fst (get_prekey_json a m p n))"
| writes_new_prekey: "reachable_account P a \<Longrightarrow> reachable_account P (fst (get_unpublished_prekey_json a m p n))"
| writes_fallback: "reachable_account P a \<Longrightarrow> reachable_account P (fst (get_fallback_key_json a m p n))"
| writes_new_fallback: "reachable_account P a \<Longrightarrow>
     reachable_account P (fst (get_unpublished_fallback_key_json a m p n))"

definition sound_account :: "Account \<Rightarrow> bool" where
  "sound_account a \<longleftrightarrow> wf_Account a \<and> ids_ok a"

lemma sound_last_error [simp]: "sound_account (a\<lparr>acc_last_error := e\<rparr>) = sound_account a"
  by (simp add: sound_account_def wf_Account_def ids_ok_def live_ids_def)

lemma sound_writers:
  assumes "sound_account a"
  shows "sound_account (fst (acc_sign P a msg m p n))" "sound_account (fst (get_identity_json a m p n))"
    "sound_account (fst (get_one_time_keys_json a m p n))" "sound_account (fst (get_prekey_json a m p n))"
    "sound_account (fst (get_unpublished_prekey_json a m p n))" "sound_account (fst (get_fallback_key_json a m p n))"
    "sound_account (fst (get_unpublished_fallback_key_json a m p n))"
  using assms
  by (simp_all add: acc_sign_def get_identity_json_def get_one_time_keys_json_def get_prekey_json_def
      get_unpublished_prekey_json_def get_fallback_key_json_def get_unpublished_fallback_key_json_def
      Let_def split: prod.split)

lemma next_id_fresh:
  assumes "unat (i :: u32) + 1 < 2 ^ 32"
  shows "i < i + 1" "j \<le> i \<Longrightarrow> j \<le> i + 1" "j \<le> i \<Longrightarrow> j \<noteq> i + 1"
proof -
  have u: "unat (i + 1) = unat i + 1" using assms by (simp add: unat_word_ariths)
  then show less: "i < i + 1" by (simp add: word_less_nat_alt)
  then show "j \<le> i \<Longrightarrow> j \<le> i + 1" "j \<le> i \<Longrightarrow> j \<noteq> i + 1" by auto
qed

lemma ids_add:
  assumes "unat (i :: u32) + 1 < 2 ^ 32" "\<forall>j \<in> set live. j \<le> i" "distinct ids" "set ids \<subseteq> set live"
  shows "distinct ((i + 1) # ids) \<and> (\<forall>j \<in> set ((i + 1) # ids). j \<le> i + 1)"
  using assms(2-4) next_id_fresh [OF assms(1)] by auto

lemma ids_generate_keys_loop:
  "unat (next_one_time_key_id a) + n < 2 ^ 32 \<Longrightarrow> ids_ok a \<Longrightarrow> ids_ok (generate_keys_loop P n a random)"
proof (induction n arbitrary: a random)
  case (Suc n)
  let ?k = "\<lparr>otk_id = next_one_time_key_id a + 1, otk_published = False,
        otk_key = olm_crypto_curve25519_generate_key P random\<rparr>"
  let ?a = "a\<lparr>next_one_time_key_id := next_one_time_key_id a + 1,
     one_time_keys := list_insert MAX_ONE_TIME_KEYS (one_time_keys a) 0 ?k\<rparr>"
  have less: "unat (next_one_time_key_id a) + 1 < 2 ^ 32" using Suc.prems(1) by simp
  have "list_insert MAX_ONE_TIME_KEYS (one_time_keys a) 0 ?k = ?k # take 99 (one_time_keys a)"
    by (simp add: list_insert_front MAX_ONE_TIME_KEYS_def)
  then have live: "live_ids ?a = (next_one_time_key_id a + 1) #
      take 99 (map otk_id (one_time_keys a)) @ drop (length (one_time_keys a)) (live_ids a)"
    by (simp add: live_ids_def take_map)
  have "distinct (take 99 (map otk_id (one_time_keys a)) @ drop (length (one_time_keys a)) (live_ids a))"
    using Suc.prems(2) by (auto simp: ids_ok_def live_ids_def dest: in_set_takeD)
  moreover have "set (take 99 (map otk_id (one_time_keys a)) @ drop (length (one_time_keys a)) (live_ids a))
      \<subseteq> set (live_ids a)"
    by (auto simp: live_ids_def dest: in_set_takeD)
  ultimately have "ids_ok ?a"
    using ids_add [OF less, of "live_ids a"] Suc.prems(2) unfolding ids_ok_def live by fastforce
  moreover have "unat (next_one_time_key_id a + 1) = unat (next_one_time_key_id a) + 1"
    using less by (simp add: unat_word_ariths)
  ultimately show ?case
    using Suc.IH [of ?a "drop 32 random"] Suc.prems(1) by (simp add: Let_def CURVE25519_RANDOM_LENGTH_def)
qed simp

lemma remove_first_ids:
  "remove_first pk keys = Some (i, keys') \<Longrightarrow> distinct (map otk_id keys) \<Longrightarrow>
     distinct (map otk_id keys') \<and> set (map otk_id keys') \<subseteq> set (map otk_id keys)"
proof (induction keys arbitrary: keys')
  case (Cons k ks)
  then show ?case
    by (cases "has_key k pk") (auto simp: list_erase_def, blast+)
qed simp

lemma sound_removes: "sound_account a \<Longrightarrow> sound_account (fst (remove_key a pk))"
proof (cases "remove_first pk (one_time_keys a)")
  case (Some x)
  obtain i keys where x: "x = (i, keys)" by (cases x)
  assume "sound_account a"
  with set_remove_first [of pk "one_time_keys a" i keys] remove_first_ids [of pk "one_time_keys a" i keys] Some
  show ?thesis
    by (auto simp: x remove_key_def sound_account_def wf_Account_def ids_ok_def live_ids_def split: if_splits)
qed (simp add: remove_key_def)

lemma sound_generates_keys:
  assumes "dh_law P" "unat (next_one_time_key_id a) + n < 2 ^ 32" "sound_account a"
  shows "sound_account (fst (generate_one_time_keys P a n random))"
proof (cases "length random < generate_one_time_keys_random_length n")
  case False
  with wf_generate_keys_loop [OF assms(1), of n random a] ids_generate_keys_loop [OF assms(2), of P random] assms(3)
  show ?thesis
    by (simp add: generate_one_time_keys_def sound_account_def generate_one_time_keys_random_length_def
        CURVE25519_RANDOM_LENGTH_def)
qed (use assms(3) in \<open>simp add: generate_one_time_keys_def\<close>)

lemma fallback_counts: "(n :: u8) \<le> 2 \<Longrightarrow> n < 2 \<Longrightarrow> (n = 0 \<or> n = 1)"
  by (auto simp: word_le_nat_alt word_less_nat_alt word_unat_eq_iff)

lemma sound_generates_fallback:
  assumes "dh_law P" "unat (next_one_time_key_id a) + 1 < 2 ^ 32" "sound_account a"
  shows "sound_account (fst (generate_fallback_key P a random))"
proof (cases "length random < generate_fallback_key_random_length")
  case False
  define n where "n = (if num_fallback_keys a < 2 then num_fallback_keys a + 1 else num_fallback_keys a)"
  let ?k = "\<lparr>otk_id = next_one_time_key_id a + 1, otk_published = False,
     otk_key = olm_crypto_curve25519_generate_key P random\<rparr>"
  let ?a = "a\<lparr>num_fallback_keys := n, prev_fallback_key := current_fallback_key a,
     next_one_time_key_id := next_one_time_key_id a + 1, current_fallback_key := ?k\<rparr>"
  have le: "num_fallback_keys a \<le> 2" using assms(3) by (simp add: sound_account_def wf_Account_def)
  have n: "n \<le> 2" "1 \<le> n" "2 \<le> n \<longleftrightarrow> 1 \<le> num_fallback_keys a"
    using le fallback_counts [OF le] u8_at_most_2 [OF le] by (auto simp: n_def)
  have gen: "fst (generate_fallback_key P a random) = ?a"
    using False by (auto simp: generate_fallback_key_def Let_def n_def)
  have "32 \<le> length random"
    using False by (simp add: generate_fallback_key_random_length_def CURVE25519_RANDOM_LENGTH_def)
  then have wf: "wf_Account ?a"
    using assms(3) n wf_new_key [OF assms(1)] by (simp add: sound_account_def wf_Account_def wf_OneTimeKey_def)
  define ids where "ids = map otk_id (one_time_keys a) @
     (if num_fallback_keys a \<ge> 1 then [otk_id (current_fallback_key a)] else [])"
  have "distinct ids" "set ids \<subseteq> set (live_ids a)"
    using assms(3) by (auto simp: sound_account_def ids_ok_def live_ids_def ids_def)
  with ids_add [OF assms(2), of "live_ids a" ids] assms(3)
  have new: "distinct ((next_one_time_key_id a + 1) # ids)"
    "\<forall>j \<in> set ((next_one_time_key_id a + 1) # ids). j \<le> next_one_time_key_id a + 1"
    by (auto simp: sound_account_def ids_ok_def)
  have "ids_ok ?a"
    using new n by (auto simp: ids_ok_def live_ids_def ids_def)
  with wf show ?thesis by (simp add: gen sound_account_def)
qed (use assms(3) in \<open>simp add: generate_fallback_key_def\<close>)

lemma sound_same_ids:
  "sound_account a \<Longrightarrow> wf_Account a' \<Longrightarrow> set (live_ids a') \<subseteq> set (live_ids a) \<Longrightarrow> distinct (live_ids a') \<Longrightarrow>
     next_one_time_key_id a' = next_one_time_key_id a \<Longrightarrow> sound_account a'"
  by (auto simp: sound_account_def ids_ok_def)

lemma live_ids_new_account [simp]:
  "live_ids (fst (generate_prekey P a random)) = live_ids a"
  "next_one_time_key_id (fst (generate_prekey P a random)) = next_one_time_key_id a"
  "live_ids (fst (new_account P a random)) = live_ids a"
  "next_one_time_key_id (fst (new_account P a random)) = next_one_time_key_id a"
  by (simp_all add: generate_prekey_def new_account_def live_ids_def Let_def)

lemma sound_marks_keys: "sound_account a \<Longrightarrow> sound_account (fst (mark_keys_as_published a))"
  by (rule sound_same_ids)
    (auto simp: mark_keys_as_published_def mark_all_published_eq sound_account_def ids_ok_def live_ids_def
      wf_Account_def wf_OneTimeKey_def comp_def)

lemma not_two_le_one [simp]: "\<not> (2 :: u8) \<le> 1" "\<not> (1 :: u8) \<le> 0"
  by (simp_all add: word_le_nat_alt)

lemma sound_prekey_steps:
  assumes "sound_account a"
  shows "sound_account (forget_old_prekey a)" "sound_account (fst (mark_prekey_as_published a now))"
    "sound_account (forget_old_fallback_key a)"
  using assms
  by (auto simp: sound_account_def forget_old_prekey_def mark_prekey_as_published_def forget_old_fallback_key_def
      wf_Account_def wf_PreKey_def ids_ok_def live_ids_def wf_zero_keys [unfolded wf_PreKey_def wf_OneTimeKey_def])

text \<open>C26: In every account that its operations can reach the arrays have their sizes, there are at most
  a hundred one-time keys, two prekeys and two fallback keys, and the ids of the one-time keys and
  the fallback keys in use differ from each other as long as the 32 bit counter of ids does not wrap.\<close>

theorem reachable_accounts_sound:
  assumes "dh_law P" "sign_law P" "reachable_account P a"
  shows "wf_Account a \<and> distinct (live_ids a) \<and> (\<forall>i \<in> set (live_ids a). i \<le> next_one_time_key_id a)"
proof -
  from assms(3) have "sound_account a"
  proof (induction rule: reachable_account.induct)
    case constructed
    show ?case by (simp add: sound_account_def ids_ok_def live_ids_def) (simp add: new_Account_def)
  next
    case (creates a random)
    then show ?case
      using wf_new_account [OF assms(1,2)] by (simp add: sound_account_def ids_ok_def)
  next
    case (generates_prekey a random)
    then show ?case
      using wf_generate_prekey [OF assms(1,2)] by (simp add: sound_account_def ids_ok_def)
  qed (simp_all add: sound_writers sound_prekey_steps sound_marks_keys sound_removes
      sound_generates_keys [OF assms(1)] sound_generates_fallback [OF assms(1)])
  then show ?thesis by (simp add: sound_account_def ids_ok_def)
qed

lemma reachable_accounts_sound_witness:
  "distinct (live_ids (fst (generate_one_time_keys sample_prims (fst (generate_fallback_key sample_prims
     (fst (new_account sample_prims new_Account (replicate 96 1))) (replicate 32 2))) 2 (replicate 64 3))))"
proof -
  have "next_one_time_key_id (fst (generate_fallback_key sample_prims
     (fst (new_account sample_prims new_Account (replicate 96 1))) (replicate 32 2))) = 1"
    by (simp add: generate_fallback_key_def Let_def generate_fallback_key_random_length_def CURVE25519_RANDOM_LENGTH_def)
      (simp add: new_Account_def)
  then have "reachable_account sample_prims (fst (generate_one_time_keys sample_prims (fst (generate_fallback_key sample_prims
     (fst (new_account sample_prims new_Account (replicate 96 1))) (replicate 32 2))) 2 (replicate 64 3)))"
    by (intro reachable_account.intros) (simp_all, simp add: new_Account_def)
  from reachable_accounts_sound [OF sample_dh_law sample_sign_law this] show ?thesis by blast
qed

section \<open>The life of one-time keys and fallback keys\<close>

text \<open>What \<open>lookup_key\<close> searches, in its order.\<close>

definition private_keys :: "Account \<Rightarrow> OneTimeKey list" where
  "private_keys a = one_time_keys a
     @ (if num_fallback_keys a \<ge> 1 then [current_fallback_key a] else [])
     @ (if num_fallback_keys a \<ge> 2 then [prev_fallback_key a] else [])"

abbreviation otk_public :: "OneTimeKey \<Rightarrow> bytes" where
  "otk_public k \<equiv> curve_public (otk_key k)"

lemma has_key_iff: "wf_OneTimeKey k \<Longrightarrow> length pk = 32 \<Longrightarrow> has_key k pk = (otk_public k = pk)"
  by (simp add: has_key_def wf_OneTimeKey_def wf_curve25519_key_pair_def CURVE25519_KEY_LENGTH_def)

lemma wf_private_keys: "wf_Account a \<Longrightarrow> k \<in> set (private_keys a) \<Longrightarrow> wf_OneTimeKey k"
  by (auto simp: wf_Account_def private_keys_def split: if_splits)

lemma find_append: "find P (xs @ ys) = (case find P xs of None \<Rightarrow> find P ys | Some x \<Rightarrow> Some x)"
  by (induction xs) auto

lemma lookup_key_find: "lookup_key a pk = find (\<lambda>k. has_key k pk) (private_keys a)"
  by (auto simp: lookup_key_def private_keys_def find_append split: option.split)

lemma find_has_key:
  "\<forall>k \<in> set ks. wf_OneTimeKey k \<Longrightarrow> length pk = 32 \<Longrightarrow>
     find (\<lambda>k. has_key k pk) ks = find (\<lambda>k. otk_public k = pk) ks"
  by (induction ks) (auto simp: has_key_iff)

lemma lookup_key_eq:
  "wf_Account a \<Longrightarrow> length pk = 32 \<Longrightarrow> lookup_key a pk = find (\<lambda>k. otk_public k = pk) (private_keys a)"
  unfolding lookup_key_find by (rule find_has_key) (auto dest: wf_private_keys)

lemma find_distinct:
  "distinct (map f ks) \<Longrightarrow> k \<in> set ks \<Longrightarrow> find (\<lambda>x. f x = f k) ks = Some k"
  by (induction ks) auto

lemma find_none: "y \<notin> f ` set ks \<Longrightarrow> find (\<lambda>x. f x = y) ks = None"
  by (induction ks) auto

lemma remove_first_eq:
  "\<forall>k \<in> set ks. wf_OneTimeKey k \<Longrightarrow> distinct (map otk_public ks) \<Longrightarrow> k \<in> set ks \<Longrightarrow>
     remove_first (otk_public k) ks = Some (otk_id k, filter (\<lambda>x. x \<noteq> k) ks)"
proof (induction ks)
  case (Cons x ks)
  have len: "length (otk_public k) = 32"
    using Cons.prems(1,3) by (auto simp: wf_OneTimeKey_def wf_curve25519_key_pair_def)
  have id: "filter (\<lambda>y. y \<noteq> x) ks = ks" using Cons.prems(2) by (auto intro!: filter_True)
  show ?case
  proof (cases "k = x")
    case True
    then show ?thesis using Cons.prems len id by (simp add: has_key_iff list_erase_def)
  next
    case False
    with Cons.prems have "otk_public x \<noteq> otk_public k" by auto
    then show ?thesis using Cons False len by (auto simp: has_key_iff)
  qed
qed simp

lemma find_filter_other:
  "distinct (map f ks) \<Longrightarrow> y \<noteq> f k \<Longrightarrow> find (\<lambda>x. f x = y) (filter (\<lambda>x. x \<noteq> k) ks) = find (\<lambda>x. f x = y) ks"
  by (induction ks) auto

lemma remove_first_None:
  "(remove_first pk ks = None) = (find (\<lambda>k. has_key k pk) ks = None)"
  by (induction ks) auto

lemma remove_fallback_key:
  assumes "wf_Account a" "distinct (map otk_public (private_keys a))" "k \<in> set (private_keys a)"
    and "k \<notin> set (one_time_keys a)"
  shows "remove_key a (otk_public k) = (a, Some (unat (otk_id k)))"
proof -
  have len: "length (otk_public k) = 32"
    using wf_private_keys [OF assms(1,3)] by (simp add: wf_OneTimeKey_def wf_curve25519_key_pair_def)
  have found: "lookup_key a (otk_public k) = Some k"
    using find_distinct [OF assms(2,3)] by (simp add: lookup_key_eq [OF assms(1) len])
  have wf: "\<forall>k \<in> set (one_time_keys a). wf_OneTimeKey k" using assms(1) by (simp add: wf_Account_def)
  have "otk_public k \<notin> otk_public ` set (one_time_keys a)"
    using assms(2-4) by (auto simp: private_keys_def distinct_map inj_on_def split: if_splits)
  then have "find (\<lambda>x. has_key x (otk_public k)) (one_time_keys a) = None"
    using find_has_key [OF wf len] find_none [of "otk_public k" otk_public] by simp
  then show ?thesis using found
    by (auto simp: remove_key_def lookup_key_def remove_first_None [THEN iffD2] split: if_splits)
qed

lemma remove_one_time_key:
  assumes "wf_Account a" "distinct (map otk_public (private_keys a))" "k \<in> set (one_time_keys a)"
  defines "a' \<equiv> a\<lparr>one_time_keys := filter (\<lambda>x. x \<noteq> k) (one_time_keys a)\<rparr>"
  shows "remove_key a (otk_public k) = (a', Some (unat (otk_id k)))"
    and "lookup_key a' (otk_public k) = None" "snd (remove_key a' (otk_public k)) = None"
    and "length pk = 32 \<Longrightarrow> pk \<noteq> otk_public k \<Longrightarrow> lookup_key a' pk = lookup_key a pk"
proof -
  have k: "k \<in> set (private_keys a)" using assms(3) by (simp add: private_keys_def)
  have len: "length (otk_public k) = 32"
    using wf_private_keys [OF assms(1) k] by (simp add: wf_OneTimeKey_def wf_curve25519_key_pair_def)
  have wf: "\<forall>k \<in> set (one_time_keys a). wf_OneTimeKey k" using assms(1) by (simp add: wf_Account_def)
  have keys: "private_keys a' = filter (\<lambda>x. x \<noteq> k) (private_keys a)"
    using assms(2,3) by (auto simp: a'_def private_keys_def)
  have wf': "wf_Account a'" using assms(1) by (auto simp: a'_def wf_Account_def intro: le_trans [OF length_filter_le])
  have "distinct (map otk_public (one_time_keys a))" using assms(2) by (simp add: private_keys_def)
  from remove_first_eq [OF wf this assms(3)] show "remove_key a (otk_public k) = (a', Some (unat (otk_id k)))"
    by (simp add: remove_key_def a'_def)
  have "otk_public k \<notin> otk_public ` set (private_keys a')"
    using assms(2) k by (auto simp: keys distinct_map inj_on_def)
  then show gone: "lookup_key a' (otk_public k) = None" by (simp add: lookup_key_eq [OF wf' len] find_none)
  have "remove_first (otk_public k) (filter (\<lambda>x. x \<noteq> k) (one_time_keys a)) = None"
    using gone unfolding lookup_key_find keys
    by (auto simp: private_keys_def find_append remove_first_None split: option.splits)
  then show "snd (remove_key a' (otk_public k)) = None" using gone
    by (auto simp: remove_key_def lookup_key_def a'_def split: option.splits if_splits)
  show "lookup_key a' pk = lookup_key a pk" if "length pk = 32" "pk \<noteq> otk_public k"
    using that find_filter_other [OF assms(2)] by (simp add: lookup_key_eq [OF wf'] lookup_key_eq [OF assms(1)] keys)
qed

text \<open>C25: A one-time key works once.  While it is there it is found under its public key; removing it
  returns its id, after which it is not found any more, every other key is still found as before, and
  removing it again is an error.  A fallback key can be removed any number of times and stays.\<close>

theorem one_time_keys_work_once:
  assumes "wf_Account a" "distinct (map otk_public (private_keys a))"
  shows "\<forall>k \<in> set (private_keys a). lookup_key a (otk_public k) = Some k \<and>
    (if k \<in> set (one_time_keys a) then
       \<exists>a'. remove_key a (otk_public k) = (a', Some (unat (otk_id k))) \<and>
         lookup_key a' (otk_public k) = None \<and> snd (remove_key a' (otk_public k)) = None \<and>
         (\<forall>pk. length pk = 32 \<and> pk \<noteq> otk_public k \<longrightarrow> lookup_key a' pk = lookup_key a pk)
     else remove_key a (otk_public k) = (a, Some (unat (otk_id k))))"
proof
  fix k assume k: "k \<in> set (private_keys a)"
  have "length (otk_public k) = 32"
    using wf_private_keys [OF assms(1) k] by (simp add: wf_OneTimeKey_def wf_curve25519_key_pair_def)
  then have "lookup_key a (otk_public k) = Some k"
    using find_distinct [OF assms(2) k] by (simp add: lookup_key_eq [OF assms(1)])
  then show "lookup_key a (otk_public k) = Some k \<and>
    (if k \<in> set (one_time_keys a) then
       \<exists>a'. remove_key a (otk_public k) = (a', Some (unat (otk_id k))) \<and>
         lookup_key a' (otk_public k) = None \<and> snd (remove_key a' (otk_public k)) = None \<and>
         (\<forall>pk. length pk = 32 \<and> pk \<noteq> otk_public k \<longrightarrow> lookup_key a' pk = lookup_key a pk)
     else remove_key a (otk_public k) = (a, Some (unat (otk_id k))))"
    using remove_one_time_key [OF assms] remove_fallback_key [OF assms k] by auto
qed

definition sample_one_time_key :: "u8 \<Rightarrow> OneTimeKey" where
  "sample_one_time_key b = \<lparr>otk_id = ucast b, otk_published = False,
     otk_key = \<lparr>curve_public = replicate 32 b, curve_private = replicate 32 (b + 1)\<rparr>\<rparr>"

definition sample_account :: Account where
  "sample_account = new_Account\<lparr>one_time_keys := [sample_one_time_key 2, sample_one_time_key 1],
     num_fallback_keys := 1, current_fallback_key := sample_one_time_key 3, next_one_time_key_id := 3\<rparr>"

lemma sample_one_time_key_simps [simp]:
  "otk_public (sample_one_time_key b) = replicate 32 b" "otk_id (sample_one_time_key b) = ucast b"
  "wf_OneTimeKey (sample_one_time_key b)" "(sample_one_time_key b = sample_one_time_key c) = (b = c)"
  by (auto simp: sample_one_time_key_def wf_OneTimeKey_def wf_curve25519_key_pair_def)

lemma wf_sample_account: "wf_Account sample_account"
  using wf_zero_keys(3)
  by (simp add: wf_Account_def sample_account_def MAX_ONE_TIME_KEYS_def word_le_nat_alt)

lemma sample_private_keys:
  "one_time_keys sample_account = [sample_one_time_key 2, sample_one_time_key 1]"
  "private_keys sample_account = [sample_one_time_key 2, sample_one_time_key 1, sample_one_time_key 3]"
  by (simp_all add: private_keys_def sample_account_def)

lemma one_time_keys_work_once_witness:
  "(\<exists>a'. remove_key sample_account (replicate 32 1) = (a', Some 1) \<and> lookup_key a' (replicate 32 1) = None)
    \<and> remove_key sample_account (replicate 32 3) = (sample_account, Some 3)"
proof -
  have "distinct (map otk_public (private_keys sample_account))" by (simp add: sample_private_keys)
  from one_time_keys_work_once [OF wf_sample_account this]
  have "\<forall>k \<in> {sample_one_time_key 1, sample_one_time_key 3}.
    if k \<in> set (one_time_keys sample_account) then
       \<exists>a'. remove_key sample_account (otk_public k) = (a', Some (unat (otk_id k))) \<and>
         lookup_key a' (otk_public k) = None
     else remove_key sample_account (otk_public k) = (sample_account, Some (unat (otk_id k)))"
    unfolding sample_private_keys(2) by (auto split: if_splits)
  then show ?thesis by (simp add: sample_private_keys(1))
qed

lemma generate_keys_loop_eq:
  "length (one_time_keys a) \<le> MAX_ONE_TIME_KEYS \<Longrightarrow> generate_keys_loop P n a random = a
     \<lparr>next_one_time_key_id := next_one_time_key_id a + of_nat n,
      one_time_keys := take MAX_ONE_TIME_KEYS (rev (map (\<lambda>i.
        \<lparr>otk_id = next_one_time_key_id a + of_nat (Suc i), otk_published = False,
         otk_key = olm_crypto_curve25519_generate_key P (drop (32 * i) random)\<rparr>) [0..<n]) @ one_time_keys a)\<rparr>"
proof (induction n arbitrary: a random)
  case (Suc n)
  let ?k = "\<lambda>i. \<lparr>otk_id = next_one_time_key_id a + of_nat (Suc i), otk_published = False,
     otk_key = olm_crypto_curve25519_generate_key P (drop (32 * i) random)\<rparr>"
  let ?a = "a\<lparr>next_one_time_key_id := next_one_time_key_id a + 1,
     one_time_keys := list_insert MAX_ONE_TIME_KEYS (one_time_keys a) 0 (?k 0)\<rparr>"
  have keys: "map ?k [0..<Suc n] = ?k 0 # map (\<lambda>i. ?k (Suc i)) [0..<n]"
    by (simp add: upt_conv_Cons comp_def del: upt_Suc flip: map_Suc_upt)
  have "generate_keys_loop P (Suc n) a random = generate_keys_loop P n ?a (drop 32 random)"
    by (simp add: Let_def CURVE25519_RANDOM_LENGTH_def)
  also have "\<dots> = ?a\<lparr>next_one_time_key_id := next_one_time_key_id a + of_nat (Suc n),
     one_time_keys := take MAX_ONE_TIME_KEYS (rev (map (\<lambda>i. ?k (Suc i)) [0..<n]) @
       list_insert MAX_ONE_TIME_KEYS (one_time_keys a) 0 (?k 0))\<rparr>"
    using Suc.prems by (subst Suc.IH) (simp_all add: length_list_insert MAX_ONE_TIME_KEYS_def ac_simps)
  finally show ?case
    by (simp only: keys) (simp add: list_insert_front MAX_ONE_TIME_KEYS_def take_Cons')
qed simp

text \<open>Generating one-time keys gives the new ones the next ids, puts them in front, the newest first,
  unpublished, each made from its own 32 random bytes, and forgets the oldest keys beyond a hundred;
  nothing else of the account changes.  Too few random bytes change only the error code.\<close>

theorem generated_keys_replace_oldest:
  assumes "wf_Account a"
  shows "generate_one_time_keys P a n random =
    (if length random < 32 * n then (a\<lparr>acc_last_error := OLM_NOT_ENOUGH_RANDOM\<rparr>, None)
     else (a\<lparr>next_one_time_key_id := next_one_time_key_id a + of_nat n,
       one_time_keys := take 100 (rev (map (\<lambda>i.
         \<lparr>otk_id = next_one_time_key_id a + of_nat (Suc i), otk_published = False,
          otk_key = olm_crypto_curve25519_generate_key P (drop (32 * i) random)\<rparr>) [0..<n]) @ one_time_keys a)\<rparr>,
       Some n))"
  using generate_keys_loop_eq [of a P n random] assms
  by (simp add: generate_one_time_keys_def generate_one_time_keys_random_length_def CURVE25519_RANDOM_LENGTH_def
      wf_Account_def MAX_ONE_TIME_KEYS_def)

lemma generated_keys_replace_oldest_witness:
  "map otk_id (one_time_keys (fst (generate_one_time_keys sample_prims sample_account 1 (replicate 32 9)))) = [4, 2, 1]"
  using generated_keys_replace_oldest [OF wf_sample_account, of sample_prims 1 "replicate 32 9"]
  by (simp add: sample_private_keys(1)) (simp add: sample_account_def)

section \<open>What is published\<close>

text \<open>The JSON documents have the announced lengths and are the documents: the identity keys under
  curve25519 and ed25519, and the object of all unpublished one-time keys under their ids, keys and ids
  in base64.  A buffer that is too short is left alone.  Marking the keys as published empties the
  second document.\<close>

theorem account_documents:
  assumes "wf_Account a"
  shows "get_identity_json a m out n =
      (if n < length (identity_json a) then (a\<lparr>acc_last_error := OLM_OUTPUT_BUFFER_TOO_SMALL\<rparr>, m, None)
       else (a, store m out (identity_json a), Some (length (identity_json a)))) \<and>
    get_one_time_keys_json a m out n =
      (if n < length (one_time_keys_json a) then (a\<lparr>acc_last_error := OLM_OUTPUT_BUFFER_TOO_SMALL\<rparr>, m, None)
       else (a, store m out (one_time_keys_json a), Some (length (one_time_keys_json a)))) \<and>
    one_time_keys_json (fst (mark_keys_as_published a)) = ascii [CHR ''{'', CHR 0x22] @ ascii ''curve25519'' @
      ascii [CHR 0x22, CHR '':'', CHR ''{'', CHR ''}'', CHR ''}'']"
proof (intro conjI)
  show "get_identity_json a m out n =
      (if n < length (identity_json a) then (a\<lparr>acc_last_error := OLM_OUTPUT_BUFFER_TOO_SMALL\<rparr>, m, None)
       else (a, store m out (identity_json a), Some (length (identity_json a))))"
    using get_identity_json_eq [of n a m out]
    by (simp add: length_identity_json [OF assms] get_identity_json_def [of a m out n] Let_def)
  show "get_one_time_keys_json a m out n =
      (if n < length (one_time_keys_json a) then (a\<lparr>acc_last_error := OLM_OUTPUT_BUFFER_TOO_SMALL\<rparr>, m, None)
       else (a, store m out (one_time_keys_json a), Some (length (one_time_keys_json a))))"
    using get_one_time_keys_json_eq [of a n m out]
    by (simp add: length_one_time_keys_json [OF assms] get_one_time_keys_json_def [of a m out n] Let_def)
  have "filter (\<lambda>k. \<not> otk_published k) (one_time_keys (fst (mark_keys_as_published a))) = []"
    by (simp add: mark_keys_as_published_def mark_all_published_eq filter_empty_conv)
  then show "one_time_keys_json (fst (mark_keys_as_published a)) = ascii [CHR ''{'', CHR 0x22] @ ascii ''curve25519'' @
      ascii [CHR 0x22, CHR '':'', CHR ''{'', CHR ''}'', CHR ''}'']"
    by (simp add: one_time_keys_json_def keys_json_def json_object_members member_def quoted_def flip: ascii_append)
qed

lemma account_documents_witness:
  "snd (snd (get_one_time_keys_json sample_account (\<lambda>_. 0) 7 200)) = Some 126"
  using account_documents [OF wf_sample_account, of "\<lambda>_. 0" 7 200]
  by (simp add: length_one_time_keys_json [OF wf_sample_account] get_one_time_keys_json_length_def
      sample_private_keys(1) encode_base64_length_def CURVE25519_KEY_LENGTH_def KEY_JSON_CURVE25519_def
      sample_one_time_key_def)

end
