(* ===== verification/AccountPickle.thy ===== *)
theory AccountPickle
  imports AccountKeys Pickle
begin

text \<open>
  The pickles of \<open>src/account.cpp\<close>: identity keys, prekeys, one-time keys and the account, with the
  older versions the reader still takes, and the proof that reading a written account gives it back.
\<close>

section \<open>Pickles of the parts\<close>

definition IdentityKeys_pickle_length :: "IdentityKeys \<Rightarrow> nat" where
  "IdentityKeys_pickle_length value =
     olm_pickle_ed25519_key_pair_length (ed25519_key value)
     + pickle_curve25519_key_pair_length (curve25519_key value)"

definition IdentityKeys_pickle :: "mem \<Rightarrow> nat \<Rightarrow> IdentityKeys \<Rightarrow> mem \<times> nat" where
  "IdentityKeys_pickle m pos value =
     (let (m, pos) = olm_pickle_ed25519_key_pair m pos (ed25519_key value);
          (m, pos) = pickle_curve25519_key_pair m pos (curve25519_key value)
      in (m, pos))"

definition IdentityKeys_unpickle :: "IdentityKeys \<Rightarrow> bytes option \<Rightarrow> IdentityKeys \<times> bytes option" where
  "IdentityKeys_unpickle value pos =
     (let (k, pos) = olm_unpickle_ed25519_key_pair (ed25519_key value) pos;
          value = value\<lparr>ed25519_key := k\<rparr>
      in if pos = None then (value, None)
         else
           let (k, pos) = unpickle_curve25519_key_pair (curve25519_key value) pos
           in (value\<lparr>curve25519_key := k\<rparr>, pos))"

definition OneTimeKey_pickle_length :: "OneTimeKey \<Rightarrow> nat" where
  "OneTimeKey_pickle_length value = 4 + 1 + pickle_curve25519_key_pair_length (otk_key value)"

definition OneTimeKey_pickle :: "mem \<Rightarrow> nat \<Rightarrow> OneTimeKey \<Rightarrow> mem \<times> nat" where
  "OneTimeKey_pickle m pos value =
     (let (m, pos) = pickle_u32 m pos (otk_id value);
          (m, pos) = pickle_bool m pos (otk_published value);
          (m, pos) = pickle_curve25519_key_pair m pos (otk_key value)
      in (m, pos))"

definition OneTimeKey_unpickle :: "OneTimeKey \<Rightarrow> bytes option \<Rightarrow> OneTimeKey \<times> bytes option" where
  "OneTimeKey_unpickle value pos =
     (let (i, pos) = unpickle_u32 (otk_id value) pos;
          value = value\<lparr>otk_id := i\<rparr>
      in if pos = None then (value, None)
         else
           let (p, pos) = unpickle_bool (otk_published value) pos;
               value = value\<lparr>otk_published := p\<rparr>
           in if pos = None then (value, None)
              else
                let (k, pos) = unpickle_curve25519_key_pair (otk_key value) pos
                in (value\<lparr>otk_key := k\<rparr>, pos))"

definition PreKey_pickle_length :: "PreKey \<Rightarrow> nat" where
  "PreKey_pickle_length value =
     4 + 1 + pickle_curve25519_key_pair_length (pk_key value) + ED25519_SIGNATURE_LENGTH"

definition PreKey_pickle :: "mem \<Rightarrow> nat \<Rightarrow> PreKey \<Rightarrow> mem \<times> nat" where
  "PreKey_pickle m pos value =
     (let (m, pos) = pickle_u32 m pos (pk_id value);
          (m, pos) = pickle_bool m pos (pk_published value);
          (m, pos) = pickle_curve25519_key_pair m pos (pk_key value);
          (m, pos) = pickle_bytes m pos (pk_signature value)
      in (m, pos))"

definition PreKey_unpickle :: "PreKey \<Rightarrow> bytes option \<Rightarrow> PreKey \<times> bytes option" where
  "PreKey_unpickle value pos =
     (let (i, pos) = unpickle_u32 (pk_id value) pos;
          value = value\<lparr>pk_id := i\<rparr>
      in if pos = None then (value, None)
         else
           let (p, pos) = unpickle_bool (pk_published value) pos;
               value = value\<lparr>pk_published := p\<rparr>
           in if pos = None then (value, None)
              else
                let (k, pos) = unpickle_curve25519_key_pair (pk_key value) pos;
                    value = value\<lparr>pk_key := k\<rparr>
                in if pos = None then (value, None)
                   else
                     let (s, pos) = unpickle_bytes ED25519_SIGNATURE_LENGTH (pk_signature value) pos
                     in (value\<lparr>pk_signature := s\<rparr>, pos))"

section \<open>Formats of the parts\<close>

definition ser_IdentityKeys :: "IdentityKeys \<Rightarrow> bytes" where
  "ser_IdentityKeys k = ser_ed25519_key_pair (ed25519_key k) @ ser_curve25519_key_pair (curve25519_key k)"

definition wf_IdentityKeys :: "IdentityKeys \<Rightarrow> bool" where
  "wf_IdentityKeys k \<longleftrightarrow> wf_ed25519_key_pair (ed25519_key k) \<and> wf_curve25519_key_pair (curve25519_key k)"

definition ser_bool :: "bool \<Rightarrow> bytes" where
  "ser_bool b = [if b then 1 else 0]"

definition ser_OneTimeKey :: "OneTimeKey \<Rightarrow> bytes" where
  "ser_OneTimeKey k = be_bytes 4 (otk_id k) @ ser_bool (otk_published k) @ ser_curve25519_key_pair (otk_key k)"

definition ser_PreKey :: "PreKey \<Rightarrow> bytes" where
  "ser_PreKey k = be_bytes 4 (pk_id k) @ ser_bool (pk_published k) @ ser_curve25519_key_pair (pk_key k) @ pk_signature k"

interpretation flag_format: pickle_format
  "\<lambda>_. True" ser_bool "\<lambda>_. 1" pickle_bool unpickle_bool
  using bool_format.pickle_format_axioms by (simp add: ser_bool_def [abs_def])

interpretation IdentityKeys_pair: format_pair
  wf_ed25519_key_pair ser_ed25519_key_pair olm_pickle_ed25519_key_pair_length
  olm_pickle_ed25519_key_pair olm_unpickle_ed25519_key_pair
  wf_curve25519_key_pair ser_curve25519_key_pair pickle_curve25519_key_pair_length
  pickle_curve25519_key_pair unpickle_curve25519_key_pair
  ed25519_key curve25519_key "\<lambda>k (c :: IdentityKeys). c\<lparr>ed25519_key := k\<rparr>" "\<lambda>k (c :: IdentityKeys). c\<lparr>curve25519_key := k\<rparr>"
  by unfold_locales (auto intro!: IdentityKeys.equality)

interpretation IdentityKeys_format: pickle_format
  wf_IdentityKeys ser_IdentityKeys IdentityKeys_pickle_length IdentityKeys_pickle IdentityKeys_unpickle
  by (rule IdentityKeys_pair.pair_format)
    (simp_all add: ser_IdentityKeys_def wf_IdentityKeys_def IdentityKeys_pickle_def
      IdentityKeys_pickle_length_def IdentityKeys_unpickle_def)

text \<open>The flag and the key of a one-time key, and the flag, the key and the signature of a prekey.\<close>

definition pickle_flagged ::
    "(mem \<Rightarrow> nat \<Rightarrow> 'a \<Rightarrow> mem \<times> nat) \<Rightarrow> mem \<Rightarrow> nat \<Rightarrow> bool \<times> 'a \<Rightarrow> mem \<times> nat" where
  "pickle_flagged elem m pos v = (let (m, pos) = pickle_bool m pos (fst v) in elem m pos (snd v))"

definition unpickle_flagged ::
    "('a \<Rightarrow> bytes option \<Rightarrow> 'a \<times> bytes option) \<Rightarrow> bool \<times> 'a \<Rightarrow> bytes option \<Rightarrow> (bool \<times> 'a) \<times> bytes option" where
  "unpickle_flagged elem v pos =
     (let (p, pos) = unpickle_bool (fst v) pos; v = (p, snd v)
      in if pos = None then (v, None) else let (k, pos) = elem (snd v) pos in ((fst v, k), pos))"

interpretation flagged_key_pair: format_pair
  "\<lambda>_. True" ser_bool "\<lambda>_. 1" pickle_bool unpickle_bool
  wf_curve25519_key_pair ser_curve25519_key_pair pickle_curve25519_key_pair_length
  pickle_curve25519_key_pair unpickle_curve25519_key_pair
  fst snd "\<lambda>p v. (p, snd v)" "\<lambda>k v. (fst v, k)"
  by unfold_locales auto

interpretation flagged_key_format: pickle_format
  "\<lambda>v. wf_curve25519_key_pair (snd v)" "\<lambda>v. ser_bool (fst v) @ ser_curve25519_key_pair (snd v)"
  "\<lambda>v. 1 + pickle_curve25519_key_pair_length (snd v)"
  "pickle_flagged pickle_curve25519_key_pair" "unpickle_flagged unpickle_curve25519_key_pair"
  by (rule flagged_key_pair.pair_format)
    (simp_all add: pickle_flagged_def unpickle_flagged_def)

interpretation OneTimeKey_pair: format_pair
  "\<lambda>_. True" "be_bytes 4" "\<lambda>_. 4" pickle_u32 unpickle_u32
  "\<lambda>v. wf_curve25519_key_pair (snd v)" "\<lambda>v. ser_bool (fst v) @ ser_curve25519_key_pair (snd v)"
  "\<lambda>v. 1 + pickle_curve25519_key_pair_length (snd v)"
  "pickle_flagged pickle_curve25519_key_pair" "unpickle_flagged unpickle_curve25519_key_pair"
  otk_id "\<lambda>k :: OneTimeKey. (otk_published k, otk_key k)" "\<lambda>i (k :: OneTimeKey). k\<lparr>otk_id := i\<rparr>"
  "\<lambda>v (k :: OneTimeKey). k\<lparr>otk_published := fst v, otk_key := snd v\<rparr>"
  by unfold_locales (auto intro!: OneTimeKey.equality)

interpretation OneTimeKey_format: pickle_format
  wf_OneTimeKey ser_OneTimeKey OneTimeKey_pickle_length OneTimeKey_pickle OneTimeKey_unpickle
  by (rule OneTimeKey_pair.pair_format)
    (simp_all add: ser_OneTimeKey_def wf_OneTimeKey_def OneTimeKey_pickle_def OneTimeKey_pickle_length_def
      OneTimeKey_unpickle_def pickle_flagged_def unpickle_flagged_def Let_def split: prod.split)

interpretation signed_key_pair: format_pair
  wf_curve25519_key_pair ser_curve25519_key_pair pickle_curve25519_key_pair_length
  pickle_curve25519_key_pair unpickle_curve25519_key_pair
  "\<lambda>v. length v = 64 \<and> (0::nat) < 64" "\<lambda>v. v" length pickle_bytes "unpickle_bytes 64"
  fst snd "\<lambda>p v. (p, snd v)" "\<lambda>k v. (fst v, k)"
  by unfold_locales auto

definition pickle_signed :: "mem \<Rightarrow> nat \<Rightarrow> curve25519_key_pair \<times> bytes \<Rightarrow> mem \<times> nat" where
  "pickle_signed m pos v = (let (m, pos) = pickle_curve25519_key_pair m pos (fst v) in pickle_bytes m pos (snd v))"

definition unpickle_signed ::
    "curve25519_key_pair \<times> bytes \<Rightarrow> bytes option \<Rightarrow> (curve25519_key_pair \<times> bytes) \<times> bytes option" where
  "unpickle_signed v pos =
     (let (p, pos) = unpickle_curve25519_key_pair (fst v) pos; v = (p, snd v)
      in if pos = None then (v, None) else let (k, pos) = unpickle_bytes 64 (snd v) pos in ((fst v, k), pos))"

abbreviation wf_signed :: "curve25519_key_pair \<times> bytes \<Rightarrow> bool" where
  "wf_signed v \<equiv> wf_curve25519_key_pair (fst v) \<and> length (snd v) = 64"

interpretation signed_key_format: pickle_format
  wf_signed "\<lambda>v. ser_curve25519_key_pair (fst v) @ snd v"
  "\<lambda>v. pickle_curve25519_key_pair_length (fst v) + length (snd v)" pickle_signed unpickle_signed
  by (rule signed_key_pair.pair_format) (simp_all add: pickle_signed_def unpickle_signed_def)

interpretation flagged_signed_pair: format_pair
  "\<lambda>_. True" ser_bool "\<lambda>_. 1" pickle_bool unpickle_bool
  wf_signed "\<lambda>v. ser_curve25519_key_pair (fst v) @ snd v"
  "\<lambda>v. pickle_curve25519_key_pair_length (fst v) + length (snd v)" pickle_signed unpickle_signed
  fst snd "\<lambda>p v. (p, snd v)" "\<lambda>k v. (fst v, k)"
  by unfold_locales auto

interpretation flagged_signed_format: pickle_format
  "\<lambda>v. wf_signed (snd v)" "\<lambda>v. ser_bool (fst v) @ ser_curve25519_key_pair (fst (snd v)) @ snd (snd v)"
  "\<lambda>v. 1 + (pickle_curve25519_key_pair_length (fst (snd v)) + length (snd (snd v)))"
  "pickle_flagged pickle_signed" "unpickle_flagged unpickle_signed"
  by (rule flagged_signed_pair.pair_format) (simp_all add: pickle_flagged_def unpickle_flagged_def)

interpretation PreKey_pair: format_pair
  "\<lambda>_. True" "be_bytes 4" "\<lambda>_. 4" pickle_u32 unpickle_u32
  "\<lambda>v. wf_signed (snd v)" "\<lambda>v. ser_bool (fst v) @ ser_curve25519_key_pair (fst (snd v)) @ snd (snd v)"
  "\<lambda>v. 1 + (pickle_curve25519_key_pair_length (fst (snd v)) + length (snd (snd v)))"
  "pickle_flagged pickle_signed" "unpickle_flagged unpickle_signed"
  pk_id "\<lambda>k :: PreKey. (pk_published k, pk_key k, pk_signature k)" "\<lambda>i (k :: PreKey). k\<lparr>pk_id := i\<rparr>"
  "\<lambda>v (k :: PreKey). k\<lparr>pk_published := fst v, pk_key := fst (snd v), pk_signature := snd (snd v)\<rparr>"
  by unfold_locales (auto intro!: PreKey.equality)

interpretation PreKey_format: pickle_format
  wf_PreKey ser_PreKey PreKey_pickle_length PreKey_pickle PreKey_unpickle
  by (rule PreKey_pair.pair_format)
    (simp_all add: ser_PreKey_def wf_PreKey_def PreKey_pickle_def PreKey_pickle_length_def
      PreKey_unpickle_def pickle_flagged_def unpickle_flagged_def pickle_signed_def unpickle_signed_def
      ED25519_SIGNATURE_LENGTH_def Let_def split: prod.split)

section \<open>The account\<close>

definition ACCOUNT_PICKLE_VERSION :: u32 where "ACCOUNT_PICKLE_VERSION = 10005"

text \<open>
  A count and the current and the previous key, of which those are written that the count says: the
  prekeys and the fallback keys.  Reading a count above two gives up with \<open>True\<close> for a corrupted
  pickle.
\<close>

definition generations_length :: "('a \<Rightarrow> nat) \<Rightarrow> u8 \<Rightarrow> 'a \<Rightarrow> 'a \<Rightarrow> nat" where
  "generations_length elem_length n current prev =
     1 + (if n \<ge> 1 then elem_length current + (if n \<ge> 2 then elem_length prev else 0) else 0)"

definition pickle_generations ::
    "(mem \<Rightarrow> nat \<Rightarrow> 'a \<Rightarrow> mem \<times> nat) \<Rightarrow> mem \<Rightarrow> nat \<Rightarrow> u8 \<Rightarrow> 'a \<Rightarrow> 'a \<Rightarrow> mem \<times> nat" where
  "pickle_generations elem m pos n current prev =
     (let (m, pos) = pickle_u8 m pos n
      in if n \<ge> 1 then
           let (m, pos) = elem m pos current
           in if n \<ge> 2 then elem m pos prev else (m, pos)
         else (m, pos))"

definition unpickle_generations ::
    "('a \<Rightarrow> bytes option \<Rightarrow> 'a \<times> bytes option) \<Rightarrow> u8 \<times> 'a \<times> 'a \<Rightarrow> bytes option
      \<Rightarrow> (u8 \<times> 'a \<times> 'a) \<times> bool \<times> bytes option" where
  "unpickle_generations elem value pos =
     (let (n, current, prev) = value;
          (n, pos) = unpickle_u8 n pos
      in if pos = None then ((n, current, prev), False, None)
         else if n \<ge> 1 then
           let (current, pos) = elem current pos
           in if pos = None then ((n, current, prev), False, None)
              else if n \<ge> 2 then
                let (prev, pos) = elem prev pos
                in if pos = None then ((n, current, prev), False, None)
                   else if n \<ge> 3 then ((n, current, prev), True, None)
                   else ((n, current, prev), False, pos)
              else ((n, current, prev), False, pos)
         else ((n, current, prev), False, pos))"

definition account_pickle_length :: "Account \<Rightarrow> nat" where
  "account_pickle_length value =
     4
     + IdentityKeys_pickle_length (identity_keys value)
     + generations_length PreKey_pickle_length (num_prekeys value) (current_prekey value) (prev_prekey value)
     + 4
     + 8
     + pickle_list_length OneTimeKey_pickle_length (one_time_keys value)
     + generations_length OneTimeKey_pickle_length (num_fallback_keys value)
         (current_fallback_key value) (prev_fallback_key value)
     + 4"

definition account_pickle :: "mem \<Rightarrow> nat \<Rightarrow> Account \<Rightarrow> mem \<times> nat" where
  "account_pickle m pos value =
     (let (m, pos) = pickle_u32 m pos ACCOUNT_PICKLE_VERSION;
          (m, pos) = IdentityKeys_pickle m pos (identity_keys value);
          (m, pos) = pickle_generations PreKey_pickle m pos (num_prekeys value)
            (current_prekey value) (prev_prekey value);
          (m, pos) = pickle_u32 m pos (next_prekey_id value);
          (m, pos) = pickle_u64 m pos (last_prekey_publish_time value);
          (m, pos) = pickle_list OneTimeKey_pickle m pos (one_time_keys value);
          (m, pos) = pickle_generations OneTimeKey_pickle m pos (num_fallback_keys value)
            (current_fallback_key value) (prev_fallback_key value);
          (m, pos) = pickle_u32 m pos (next_one_time_key_id value)
      in (m, pos))"

text \<open>The part of the reader for X3DH.\<close>

definition unpickle_prekeys :: "Account \<Rightarrow> bytes option \<Rightarrow> Account \<times> bytes option" where
  "unpickle_prekeys value pos =
     (let ((n, current, prev), corrupted, pos) = unpickle_generations PreKey_unpickle
            (num_prekeys value, current_prekey value, prev_prekey value) pos;
          value = value\<lparr>num_prekeys := n, current_prekey := current, prev_prekey := prev\<rparr>
      in if corrupted then (value\<lparr>acc_last_error := OLM_CORRUPTED_PICKLE\<rparr>, None)
         else if pos = None then (value, None)
         else
           let (i, pos) = unpickle_u32 (next_prekey_id value) pos;
               value = value\<lparr>next_prekey_id := i\<rparr>
           in if pos = None then (value, None)
              else
                let (t, pos) = unpickle_u64 (last_prekey_publish_time value) pos
                in (value\<lparr>last_prekey_publish_time := t\<rparr>, pos))"

text \<open>The fallback keys, which versions up to 3 store differently.\<close>

definition unpickle_fallback_keys :: "u32 \<Rightarrow> Account \<Rightarrow> bytes option \<Rightarrow> Account \<times> bytes option" where
  "unpickle_fallback_keys pickle_version value pos =
     (if pickle_version \<le> 2 then (value\<lparr>num_fallback_keys := 0\<rparr>, pos)
      else if pickle_version = 3 then
        let (k, pos) = OneTimeKey_unpickle (current_fallback_key value) pos;
            value = value\<lparr>current_fallback_key := k\<rparr>
        in if pos = None then (value, None)
           else
             let (k, pos) = OneTimeKey_unpickle (prev_fallback_key value) pos;
                 value = value\<lparr>prev_fallback_key := k\<rparr>
             in if pos = None then (value, None)
                else (value\<lparr>num_fallback_keys :=
                        (if otk_published (current_fallback_key value)
                         then if otk_published (prev_fallback_key value) then 2 else 1
                         else 0)\<rparr>, pos)
      else
        let ((n, current, prev), corrupted, pos) = unpickle_generations OneTimeKey_unpickle
              (num_fallback_keys value, current_fallback_key value, prev_fallback_key value) pos;
            value = value\<lparr>num_fallback_keys := n, current_fallback_key := current, prev_fallback_key := prev\<rparr>
        in if corrupted then (value\<lparr>acc_last_error := OLM_CORRUPTED_PICKLE\<rparr>, None) else (value, pos))"

definition account_unpickle :: "Account \<Rightarrow> bytes option \<Rightarrow> Account \<times> bytes option" where
  "account_unpickle value pos =
     (let (pickle_version, pos) = unpickle_u32 0 pos
      in if pos = None then (value, None)
         else if pickle_version \<notin> {ACCOUNT_PICKLE_VERSION, 4, 3, 2}
         then (value\<lparr>acc_last_error :=
                 (if pickle_version = 1 then OLM_BAD_LEGACY_ACCOUNT_PICKLE else OLM_UNKNOWN_PICKLE_VERSION)\<rparr>, None)
         else
           let (k, pos) = IdentityKeys_unpickle (identity_keys value) pos;
               value = value\<lparr>identity_keys := k\<rparr>
           in if pos = None then (value, None)
              else
                let (value, pos) = (if pickle_version \<ge> 10005 then unpickle_prekeys value pos else (value, pos))
                in if pos = None then (value, None)
                   else
                     let (l, pos) = unpickle_list OneTimeKey_unpickle zero_OneTimeKey MAX_ONE_TIME_KEYS
                           (one_time_keys value) pos;
                         value = value\<lparr>one_time_keys := l\<rparr>
                     in if pos = None then (value, None)
                        else
                          let (value, pos) = unpickle_fallback_keys pickle_version value pos
                          in if pos = None then (value, None)
                             else
                               let (i, pos) = unpickle_u32 (next_one_time_key_id value) pos
                               in (value\<lparr>next_one_time_key_id := i\<rparr>, pos))"

section \<open>The round trip\<close>

definition ser_generations :: "('a \<Rightarrow> bytes) \<Rightarrow> u8 \<Rightarrow> 'a \<Rightarrow> 'a \<Rightarrow> bytes" where
  "ser_generations ser n current prev =
     [n] @ (if n \<ge> 1 then ser current else []) @ (if n \<ge> 2 then ser prev else [])"

definition ser_Account :: "Account \<Rightarrow> bytes" where
  "ser_Account a = be_bytes 4 ACCOUNT_PICKLE_VERSION @ ser_IdentityKeys (identity_keys a)
     @ ser_generations ser_PreKey (num_prekeys a) (current_prekey a) (prev_prekey a)
     @ be_bytes 4 (next_prekey_id a) @ be_bytes 8 (last_prekey_publish_time a)
     @ ser_list ser_OneTimeKey (one_time_keys a)
     @ ser_generations ser_OneTimeKey (num_fallback_keys a) (current_fallback_key a) (prev_fallback_key a)
     @ be_bytes 4 (next_one_time_key_id a)"

lemma generations_nested: "(2 :: u8) \<le> n \<Longrightarrow> 1 \<le> n"
  by (auto simp: word_le_nat_alt)

lemma not_three_le_two: "(n :: u8) \<le> 2 \<Longrightarrow> \<not> 3 \<le> n"
  by (auto simp: word_le_nat_alt)

context pickle_format
begin

lemma length_generations:
  "wf current \<Longrightarrow> wf prev \<Longrightarrow>
     length (ser_generations ser n current prev) = generations_length len n current prev"
  using generations_nested [of n] by (simp add: ser_generations_def generations_length_def length_ser)

lemma pickle_generations_eq:
  "wf current \<Longrightarrow> wf prev \<Longrightarrow> pickle_generations pickle m pos n current prev =
     (store m pos (ser_generations ser n current prev), pos + generations_length len n current prev)"
  using generations_nested [of n] store_store_append [of m pos "[n]" "ser current"]
    store_store_append [of m pos "[n] @ ser current" "ser prev"]
  by (auto simp: pickle_generations_def ser_generations_def generations_length_def pickle_eq length_ser
      pickle_u8_def fun_upd_as_store)

lemma unpickle_generations_ser:
  "wf current \<Longrightarrow> wf prev \<Longrightarrow> wf c0 \<Longrightarrow> wf p0 \<Longrightarrow> n \<le> 2 \<Longrightarrow>
     unpickle_generations unpickle (n0, c0, p0) (Some (ser_generations ser n current prev @ rest)) =
       ((n, if n \<ge> 1 then current else c0, if n \<ge> 2 then prev else p0), False, Some rest)"
  using generations_nested [of n] not_three_le_two [of n]
  by (auto simp: unpickle_generations_def ser_generations_def unpickle_u8_def unpickle_ser)

end

lemma length_IdentityKeys: "wf_Account a \<Longrightarrow> wf_IdentityKeys (identity_keys a)"
  by (simp add: wf_Account_def wf_IdentityKeys_def)

lemma store_at_end:
  "p = pos + length xs \<Longrightarrow> store (store m pos xs) p ys = store m pos (xs @ ys)"
  by (simp add: store_store_append)

lemma account_pickle_eq:
  assumes "wf_Account a"
  shows "account_pickle m pos a = (store m pos (ser_Account a), pos + account_pickle_length a)"
  using assms
  by (simp add: account_pickle_def length_IdentityKeys [OF assms] wf_Account_def pickle_simps
      IdentityKeys_format.pickle_eq IdentityKeys_format.length_ser PreKey_format.pickle_generations_eq
      PreKey_format.length_generations OneTimeKey_format.pickle_list_eq OneTimeKey_format.pickle_generations_eq
      OneTimeKey_format.length_generations OneTimeKey_format.length_ser_list ser_list_def [symmetric] store_at_end
      account_pickle_length_def ser_Account_def)

lemma length_ser_Account:
  "wf_Account a \<Longrightarrow> length (ser_Account a) = account_pickle_length a"
  by (simp add: ser_Account_def account_pickle_length_def length_IdentityKeys IdentityKeys_format.length_ser)
    (simp add: wf_Account_def PreKey_format.length_generations OneTimeKey_format.length_generations
      OneTimeKey_format.length_ser_list)

text \<open>What the reader leaves of an account \<open>a\<close>: keys beyond the counts come from the account read into.\<close>

definition restored :: "Account \<Rightarrow> Account \<Rightarrow> Account" where
  "restored a0 a = a
     \<lparr>current_prekey := (if num_prekeys a \<ge> 1 then current_prekey a else current_prekey a0),
      prev_prekey := (if num_prekeys a \<ge> 2 then prev_prekey a else prev_prekey a0),
      current_fallback_key := (if num_fallback_keys a \<ge> 1 then current_fallback_key a else current_fallback_key a0),
      prev_fallback_key := (if num_fallback_keys a \<ge> 2 then prev_fallback_key a else prev_fallback_key a0),
      acc_last_error := acc_last_error a0\<rparr>"

lemma pickle_version_words:
  "\<not> (10005 :: u32) \<le> 2" "(10005 :: u32) \<noteq> 3" "(10005 :: u32) \<noteq> 1"
  by (simp_all add: word_le_nat_alt)

lemma unpickle_prekeys_ser:
  assumes "wf_Account a" "wf_Account a0"
  shows "unpickle_prekeys a0 (Some (ser_generations ser_PreKey (num_prekeys a) (current_prekey a) (prev_prekey a)
      @ be_bytes 4 (next_prekey_id a) @ be_bytes 8 (last_prekey_publish_time a) @ rest)) =
    (a0\<lparr>num_prekeys := num_prekeys a,
        current_prekey := (if num_prekeys a \<ge> 1 then current_prekey a else current_prekey a0),
        prev_prekey := (if num_prekeys a \<ge> 2 then prev_prekey a else prev_prekey a0),
        next_prekey_id := next_prekey_id a, last_prekey_publish_time := last_prekey_publish_time a\<rparr>, Some rest)"
  using assms
  by (simp add: unpickle_prekeys_def wf_Account_def PreKey_format.unpickle_generations_ser pickle_simps)

lemma unpickle_fallback_keys_ser:
  assumes "wf_Account a" "wf_Account a0"
  shows "unpickle_fallback_keys ACCOUNT_PICKLE_VERSION a0 (Some (ser_generations ser_OneTimeKey (num_fallback_keys a)
      (current_fallback_key a) (prev_fallback_key a) @ rest)) =
    (a0\<lparr>num_fallback_keys := num_fallback_keys a,
        current_fallback_key := (if num_fallback_keys a \<ge> 1 then current_fallback_key a else current_fallback_key a0),
        prev_fallback_key := (if num_fallback_keys a \<ge> 2 then prev_fallback_key a else prev_fallback_key a0)\<rparr>, Some rest)"
  using assms
  by (simp add: unpickle_fallback_keys_def wf_Account_def OneTimeKey_format.unpickle_generations_ser
      ACCOUNT_PICKLE_VERSION_def pickle_version_words)

lemma account_unpickle_ser:
  assumes "wf_Account a" "wf_Account a0" "one_time_keys a0 = []"
  shows "account_unpickle a0 (Some (ser_Account a @ rest)) = (restored a0 a, Some rest)"
proof -
  let ?a1 = "a0\<lparr>identity_keys := identity_keys a\<rparr>"
  define cp where "cp = (if num_prekeys a \<ge> 1 then current_prekey a else current_prekey a0)"
  define pp where "pp = (if num_prekeys a \<ge> 2 then prev_prekey a else prev_prekey a0)"
  define cf where "cf = (if num_fallback_keys a \<ge> 1 then current_fallback_key a else current_fallback_key a0)"
  define pf where "pf = (if num_fallback_keys a \<ge> 2 then prev_fallback_key a else prev_fallback_key a0)"
  let ?a2 = "?a1\<lparr>num_prekeys := num_prekeys a, current_prekey := cp, prev_prekey := pp,
        next_prekey_id := next_prekey_id a, last_prekey_publish_time := last_prekey_publish_time a\<rparr>"
  let ?a3 = "?a2\<lparr>one_time_keys := one_time_keys a\<rparr>"
  have wf: "wf_Account ?a1" "wf_Account ?a3" "wf_IdentityKeys (identity_keys a)" "wf_IdentityKeys (identity_keys a0)"
    using assms by (simp_all add: wf_Account_def wf_IdentityKeys_def cp_def pp_def)
  have keys: "\<forall>k \<in> set (one_time_keys a). wf_OneTimeKey k" "length (one_time_keys a) \<le> MAX_ONE_TIME_KEYS"
    using assms(1) by (simp_all add: wf_Account_def)
  have list: "unpickle_list OneTimeKey_unpickle zero_OneTimeKey MAX_ONE_TIME_KEYS []
      (Some (ser_list ser_OneTimeKey (one_time_keys a) @ more)) = (one_time_keys a, Some more)" for more
    using OneTimeKey_format.unpickle_list_ser [OF keys(1) wf_zero_keys(2) keys(2), of more]
    by (simp add: ser_list_def MAX_ONE_TIME_KEYS_def)
  have prekeys: "unpickle_prekeys ?a1 (Some (ser_generations ser_PreKey (num_prekeys a) (current_prekey a) (prev_prekey a)
      @ be_bytes 4 (next_prekey_id a) @ be_bytes 8 (last_prekey_publish_time a) @ more)) = (?a2, Some more)" for more
    using unpickle_prekeys_ser [OF assms(1) wf(1), of more] by (simp add: cp_def pp_def)
  have fallback: "unpickle_fallback_keys 10005 ?a3 (Some (ser_generations ser_OneTimeKey (num_fallback_keys a)
      (current_fallback_key a) (prev_fallback_key a) @ more)) =
      (?a3\<lparr>num_fallback_keys := num_fallback_keys a, current_fallback_key := cf, prev_fallback_key := pf\<rparr>, Some more)" for more
    using unpickle_fallback_keys_ser [OF assms(1) wf(2), of more] by (simp add: cf_def pf_def ACCOUNT_PICKLE_VERSION_def)
  have "account_unpickle a0 (Some (ser_Account a @ rest)) =
      (a\<lparr>current_prekey := cp, prev_prekey := pp, current_fallback_key := cf, prev_fallback_key := pf,
         acc_last_error := acc_last_error a0\<rparr>, Some rest)"
    by (simp add: account_unpickle_def ser_Account_def pickle_simps IdentityKeys_format.unpickle_ser [OF wf(4,3)]
        prekeys list fallback assms(3) ACCOUNT_PICKLE_VERSION_def)
  then show ?thesis by (simp add: restored_def cp_def pp_def cf_def pf_def)
qed

section \<open>Properties\<close>

text \<open>C27: Writing an account fills exactly the announced number of bytes, and reading them into a fresh
  account gives it back: identity keys, one-time keys, prekeys and fallback keys as far as their counts
  say they exist, the counters and the publication time.  Only the error code is not stored.\<close>

theorem account_pickle_round_trip:
  assumes "wf_Account a" "account_pickle m p a = (m', q)"
  shows "q = p + account_pickle_length a \<and> unchanged_outside p (account_pickle_length a) m m' \<and>
    account_unpickle new_Account (Some (load m' p (account_pickle_length a) @ rest)) =
      (restored new_Account a, Some rest)"
  using assms(2) account_unpickle_ser [OF assms(1), of new_Account rest] length_ser_Account [OF assms(1)]
  by (auto simp: account_pickle_eq [OF assms(1)] load_store_same unchanged_outside_store)
    (simp_all add: new_Account_def)

lemma account_pickle_round_trip_witness:
  "account_unpickle new_Account (Some (load (fst (account_pickle of_nat 9 sample_account)) 9
      (account_pickle_length sample_account) @ [7])) = (restored new_Account sample_account, Some [7])"
proof -
  obtain m' q where e: "account_pickle of_nat 9 sample_account = (m', q)" by fastforce
  from account_pickle_round_trip [OF wf_sample_account e, of "[7]"] e show ?thesis by simp
qed

text \<open>Pickles of other versions: version 1, whose signing keys were cut short, and unknown versions
  are refused with an error code of their own; a version that is read, but whose count of prekeys is
  above two, is refused as corrupted.  Nothing else of the account changes for a refused version.\<close>

theorem account_unpickle_refuses:
  "(v \<notin> {10005, 4, 3, 2} \<longrightarrow> account_unpickle a (Some (be_bytes 4 (v :: u32) @ rest)) =
      (a\<lparr>acc_last_error := (if v = 1 then OLM_BAD_LEGACY_ACCOUNT_PICKLE else OLM_UNKNOWN_PICKLE_VERSION)\<rparr>, None)) \<and>
   (wf_Account a \<and> wf_Account b \<and> 3 \<le> n \<longrightarrow>
      (\<exists>a'. account_unpickle a (Some (be_bytes 4 (10005 :: u32) @ ser_IdentityKeys (identity_keys b)
         @ ser_generations ser_PreKey n (current_prekey b) (prev_prekey b) @ rest)) = (a', None)
       \<and> acc_last_error a' = OLM_CORRUPTED_PICKLE))"
proof (intro conjI impI)
  assume "v \<notin> {10005, 4, 3, 2}"
  then show "account_unpickle a (Some (be_bytes 4 v @ rest)) =
      (a\<lparr>acc_last_error := (if v = 1 then OLM_BAD_LEGACY_ACCOUNT_PICKLE else OLM_UNKNOWN_PICKLE_VERSION)\<rparr>, None)"
    by (simp add: account_unpickle_def pickle_simps ACCOUNT_PICKLE_VERSION_def)
next
  assume *: "wf_Account a \<and> wf_Account b \<and> 3 \<le> n"
  then have n: "1 \<le> n" "2 \<le> n" by (auto simp: word_le_nat_alt)
  have wf: "wf_IdentityKeys (identity_keys a)" "wf_IdentityKeys (identity_keys b)"
    "wf_PreKey (current_prekey a)" "wf_PreKey (current_prekey b)" "wf_PreKey (prev_prekey a)" "wf_PreKey (prev_prekey b)"
    using * by (simp_all add: wf_Account_def wf_IdentityKeys_def)
  show "\<exists>a'. account_unpickle a (Some (be_bytes 4 (10005 :: u32) @ ser_IdentityKeys (identity_keys b)
         @ ser_generations ser_PreKey n (current_prekey b) (prev_prekey b) @ rest)) = (a', None)
       \<and> acc_last_error a' = OLM_CORRUPTED_PICKLE"
    using * n
    by (simp add: account_unpickle_def pickle_simps ACCOUNT_PICKLE_VERSION_def IdentityKeys_format.unpickle_ser [OF wf(1,2)]
        unpickle_prekeys_def unpickle_generations_def ser_generations_def unpickle_u8_def
        PreKey_format.unpickle_ser [OF wf(3,4)] PreKey_format.unpickle_ser [OF wf(5,6)])
qed

lemma account_unpickle_refuses_witness:
  "account_unpickle new_Account (Some (be_bytes 4 (1 :: u32) @ [])) =
     (new_Account\<lparr>acc_last_error := OLM_BAD_LEGACY_ACCOUNT_PICKLE\<rparr>, None)"
  using account_unpickle_refuses [of 1 new_Account "[]" new_Account 0] by simp

end
