(* ===== verification/Session.thy ===== *)
theory Session
  imports RatchetPickle AccountPickle
begin

text \<open>
  \<open>src/session.cpp\<close> and \<open>include/olm/session.hh\<close>: the session of two accounts.  The
  initiator makes it from its account and the published keys of the other, who makes its own from the
  first message; afterwards both encrypt and decrypt with the ratchet.  Methods take the session first;
  \<open>None\<close> is \<open>std::size_t(-1)\<close>.
\<close>

section \<open>State\<close>

definition ROOT_KDF_INFO :: bytes where "ROOT_KDF_INFO = ascii ''OLM_ROOT''"
definition RATCHET_KDF_INFO :: bytes where "RATCHET_KDF_INFO = ascii ''OLM_RATCHET''"
definition CIPHER_KDF_INFO :: bytes where "CIPHER_KDF_INFO = ascii ''OLM_KEYS''"

definition OLM_KDF_INFO :: KdfInfo where
  "OLM_KDF_INFO = \<lparr>root_info = ROOT_KDF_INFO, ratchet_info = RATCHET_KDF_INFO\<rparr>"

record Session =
  sess_ratchet :: Ratchet
  sess_last_error :: OlmErrorCode
  received_message :: bool
  alice_identity_key :: bytes
  alice_base_key :: bytes
  bob_one_time_key :: bytes
  bob_prekey :: bytes

text \<open>The constructor, over memory that \<open>olm_session\<close> has cleared.\<close>

definition new_Session :: Session where
  "new_Session =
     \<lparr>sess_ratchet = new_Ratchet OLM_KDF_INFO CIPHER_KDF_INFO, sess_last_error = OLM_SUCCESS,
      received_message = False, alice_identity_key = replicate 32 0, alice_base_key = replicate 32 0,
      bob_one_time_key = replicate 32 0, bob_prekey = replicate 32 0\<rparr>"

section \<open>Outbound sessions\<close>

definition new_outbound_session_random_length :: nat where
  "new_outbound_session_random_length = CURVE25519_RANDOM_LENGTH * 2"

text \<open>
  \<open>secret\<close> holds three or four results of Diffie-Hellman; its length handed to the ratchet is
  \<open>sizeof(std::uint8_t)\<close> times their number.  \<open>pre_key_signature\<close> points to 64 bytes.
\<close>

definition new_outbound_session ::
    "crypto_prims \<Rightarrow> Session \<Rightarrow> Account \<Rightarrow> bytes \<Rightarrow> bytes \<Rightarrow> bytes \<Rightarrow> bytes \<Rightarrow> bytes \<Rightarrow> bytes option
      \<Rightarrow> Session \<times> nat option" where
  "new_outbound_session P s local_account identity_key signing_key pre_key pre_key_signature random one_time_key =
     (if length random < new_outbound_session_random_length
      then (s\<lparr>sess_last_error := OLM_NOT_ENOUGH_RANDOM\<rparr>, None)
      else
        let base_key = olm_crypto_curve25519_generate_key P random;
            ratchet_key = olm_crypto_curve25519_generate_key P (drop CURVE25519_RANDOM_LENGTH random);
            alice_identity_key_pair = curve25519_key (identity_keys local_account);
            s = s\<lparr>received_message := False, alice_identity_key := curve_public alice_identity_key_pair,
                  alice_base_key := curve_public base_key,
                  bob_one_time_key := (case one_time_key of Some k \<Rightarrow> k | None \<Rightarrow> pre_key),
                  bob_prekey := pre_key\<rparr>
        in if \<not> olm_crypto_ed25519_verify P signing_key (bob_prekey s) pre_key_signature
           then (s\<lparr>sess_last_error := OLM_BAD_SIGNATURE\<rparr>, None)
           else
             let secret =
                   olm_crypto_curve25519_shared_secret P alice_identity_key_pair (bob_one_time_key s)
                   @ olm_crypto_curve25519_shared_secret P base_key identity_key
                   @ olm_crypto_curve25519_shared_secret P base_key (bob_one_time_key s)
                   @ (if one_time_key \<noteq> None
                      then olm_crypto_curve25519_shared_secret P base_key pre_key else []);
                 shared_secret_steps = (if one_time_key \<noteq> None then 4 else 3);
                 shared_secret_length = 1 * shared_secret_steps
             in (s\<lparr>sess_ratchet := initialise_as_alice (sess_ratchet s) (take shared_secret_length secret)
                     ratchet_key\<rparr>, Some 0))"

section \<open>Inbound sessions\<close>

definition check_message_fields :: "PreKeyMessageReader \<Rightarrow> bool \<Rightarrow> bool" where
  "check_message_fields reader have_their_identity_key \<longleftrightarrow>
     (have_their_identity_key \<or> pr_identity_key reader \<noteq> None) \<and>
     (pr_identity_key reader \<noteq> None \<longrightarrow> pr_identity_key_length reader = CURVE25519_KEY_LENGTH) \<and>
     pr_message reader \<noteq> None \<and>
     pr_base_key reader \<noteq> None \<and> pr_base_key_length reader = CURVE25519_KEY_LENGTH \<and>
     pr_one_time_key reader \<noteq> None \<and> pr_one_time_key_length reader = CURVE25519_KEY_LENGTH"

text \<open>
  The result of a function that may read through a null pointer: it returns, fails with
  \<open>std::size_t(-1)\<close>, or does that.
\<close>

datatype outcome = Returns nat | Fails | Faults

text \<open>The 32 bytes a reader's pointer points to, whatever the length of the field.\<close>

definition field_at :: "mem \<Rightarrow> nat \<Rightarrow> nat option \<Rightarrow> bytes" where
  "field_at m message p = load m (message + the p) CURVE25519_KEY_LENGTH"

text \<open>The end of \<open>new_inbound_session\<close>, where the keys of the account have been found.\<close>

definition bob_secret ::
    "crypto_prims \<Rightarrow> Account \<Rightarrow> Session \<Rightarrow> curve25519_key_pair \<Rightarrow> curve25519_key_pair \<Rightarrow> bool \<Rightarrow> bytes" where
  "bob_secret P local_account s our_one_time_key our_prekey using_prekey_as_otk =
     (let bob_identity_key = curve25519_key (identity_keys local_account);
          secret =
            olm_crypto_curve25519_shared_secret P our_one_time_key (alice_identity_key s)
            @ olm_crypto_curve25519_shared_secret P bob_identity_key (alice_base_key s)
            @ olm_crypto_curve25519_shared_secret P our_one_time_key (alice_base_key s)
            @ (if \<not> using_prekey_as_otk
               then olm_crypto_curve25519_shared_secret P our_prekey (alice_base_key s) else []);
          shared_secret_steps = (if using_prekey_as_otk then 3 else 4);
          shared_secret_length = 1 * shared_secret_steps
      in take shared_secret_length secret)"

definition new_inbound_session ::
    "crypto_prims \<Rightarrow> Session \<Rightarrow> Account \<Rightarrow> bytes option \<Rightarrow> mem \<Rightarrow> nat \<Rightarrow> nat \<Rightarrow> Session \<times> outcome" where
  "new_inbound_session P s local_account their_identity_key m one_time_key_message message_length =
     (let reader = decode_one_time_key_message (load m one_time_key_message message_length);
          field = field_at m one_time_key_message
      in if \<not> check_message_fields reader (their_identity_key \<noteq> None)
         then (s\<lparr>sess_last_error := OLM_BAD_MESSAGE_FORMAT\<rparr>, Fails)
         else if pr_identity_key reader \<noteq> None \<and> their_identity_key \<noteq> None
                 \<and> the their_identity_key \<noteq> field (pr_identity_key reader)
         then (s\<lparr>sess_last_error := OLM_BAD_MESSAGE_KEY_ID\<rparr>, Fails)
         else if pr_identity_key reader = None then (s, Faults)
         else
           let s = s\<lparr>alice_identity_key := field (pr_identity_key reader),
                     alice_base_key := field (pr_base_key reader),
                     bob_one_time_key := field (pr_one_time_key reader)\<rparr>
           in if pr_prekey reader = None then (s, Faults)
           else
           let s = s\<lparr>bob_prekey := field (pr_prekey reader)\<rparr>;
               message = one_time_key_message + the (pr_message reader);
               message_reader = decode_message (load m message (pr_message_length reader))
                 aes_sha_256_cipher_mac_length
           in if mr_ratchet_key message_reader = None
                 \<or> mr_ratchet_key_length message_reader \<noteq> CURVE25519_KEY_LENGTH
              then (s\<lparr>sess_last_error := OLM_BAD_MESSAGE_FORMAT\<rparr>, Fails)
              else
                let ratchet_key = field_at m message (mr_ratchet_key message_reader);
                    our_one_time_key = lookup_key local_account (bob_one_time_key s);
                    using_prekey_as_otk =
                      array_equal CURVE25519_KEY_LENGTH (bob_prekey s) (bob_one_time_key s)
                in if our_one_time_key = None \<and> \<not> using_prekey_as_otk
                   then (s\<lparr>sess_last_error := OLM_BAD_MESSAGE_KEY_ID\<rparr>, Fails)
                   else
                     case lookup_prekey local_account (bob_prekey s) of
                       None \<Rightarrow> (s\<lparr>sess_last_error := OLM_BAD_MESSAGE_KEY_ID\<rparr>, Fails)
                     | Some our_prekey \<Rightarrow>
                         let one_time_key = (if using_prekey_as_otk then pk_key our_prekey
                               else otk_key (the our_one_time_key));
                             secret = bob_secret P local_account s one_time_key (pk_key our_prekey)
                               using_prekey_as_otk
                         in (s\<lparr>sess_ratchet := initialise_as_bob (sess_ratchet s) secret ratchet_key\<rparr>, Returns 0))"

definition session_id_length :: nat where
  "session_id_length = 32"

text \<open>
  The array on the stack holds 96 bytes: three keys.  It is at the address \<open>tmp\<close>; the fourth key is
  written to the 32 bytes behind it, whatever these belong to, and is not hashed.
\<close>

definition session_id :: "Session \<Rightarrow> mem \<Rightarrow> nat \<Rightarrow> nat \<Rightarrow> nat \<Rightarrow> Session \<times> mem \<times> nat option" where
  "session_id s m tmp id_out id_length =
     (if id_length < session_id_length
      then (s\<lparr>sess_last_error := OLM_OUTPUT_BUFFER_TOO_SMALL\<rparr>, m, None)
      else
        let pos = tmp;
            m = store m pos (alice_identity_key s); pos = pos + CURVE25519_KEY_LENGTH;
            m = store m pos (alice_base_key s); pos = pos + CURVE25519_KEY_LENGTH;
            m = store m pos (bob_one_time_key s); pos = pos + CURVE25519_KEY_LENGTH;
            m = store m pos (bob_prekey s)
        in (s, store m id_out (olm_crypto_sha256 (load m tmp (CURVE25519_KEY_LENGTH * 3))), Some session_id_length))"

definition matches_inbound_session :: "Session \<Rightarrow> bytes option \<Rightarrow> mem \<Rightarrow> nat \<Rightarrow> nat \<Rightarrow> bool" where
  "matches_inbound_session s their_identity_key m one_time_key_message message_length =
     (let reader = decode_one_time_key_message (load m one_time_key_message message_length);
          field = field_at m one_time_key_message
      in if \<not> check_message_fields reader (their_identity_key \<noteq> None) then False
         else
           let same = True;
               same = (if pr_identity_key reader \<noteq> None
                       then same \<and> field (pr_identity_key reader) = alice_identity_key s else same);
               same = (if their_identity_key \<noteq> None
                       then same \<and> the their_identity_key = alice_identity_key s else same);
               same = (same \<and> field (pr_base_key reader) = alice_base_key s)
           in same \<and> field (pr_one_time_key reader) = bob_one_time_key s)"

section \<open>Messages\<close>

datatype MessageType = PRE_KEY | MESSAGE

definition encrypt_message_type :: "Session \<Rightarrow> MessageType" where
  "encrypt_message_type s = (if received_message s then MESSAGE else PRE_KEY)"

definition encrypt_message_length :: "Session \<Rightarrow> nat \<Rightarrow> nat" where
  "encrypt_message_length s plaintext_length =
     (let message_length = ratchet_encrypt_output_length (sess_ratchet s) plaintext_length
      in if received_message s then message_length
         else encode_one_time_key_message_length CURVE25519_KEY_LENGTH CURVE25519_KEY_LENGTH
                CURVE25519_KEY_LENGTH CURVE25519_KEY_LENGTH message_length)"

definition encrypt_random_length :: "Session \<Rightarrow> nat" where
  "encrypt_random_length s = ratchet_encrypt_random_length (sess_ratchet s)"

text \<open>The result of the ratchet, whose error code becomes the one of the session.\<close>

definition take_ratchet :: "Session \<Rightarrow> Ratchet \<Rightarrow> nat option \<Rightarrow> Session" where
  "take_ratchet s r result =
     (if result = None
      then s\<lparr>sess_last_error := r_last_error r, sess_ratchet := r\<lparr>r_last_error := OLM_SUCCESS\<rparr>\<rparr>
      else s\<lparr>sess_ratchet := r\<rparr>)"

text \<open>The header of a pre-key message, and where its body goes.\<close>

definition put_pre_key_header :: "Session \<Rightarrow> mem \<Rightarrow> nat \<Rightarrow> nat \<Rightarrow> mem \<times> nat" where
  "put_pre_key_header s m message message_body_length =
     (let (m, writer) = encode_one_time_key_message m PROTOCOL_VERSION CURVE25519_KEY_LENGTH
            CURVE25519_KEY_LENGTH CURVE25519_KEY_LENGTH CURVE25519_KEY_LENGTH message_body_length message;
          m = store m (pw_one_time_key writer) (bob_one_time_key s);
          m = store m (pw_prekey writer) (bob_prekey s);
          m = store m (pw_identity_key writer) (alice_identity_key s);
          m = store m (pw_base_key writer) (alice_base_key s)
      in (m, pw_message writer))"

definition session_encrypt ::
    "crypto_prims \<Rightarrow> Session \<Rightarrow> bytes \<Rightarrow> bytes \<Rightarrow> mem \<Rightarrow> nat \<Rightarrow> nat \<Rightarrow> Session \<times> mem \<times> nat option" where
  "session_encrypt P s plaintext random m message message_length =
     (if message_length < encrypt_message_length s (length plaintext)
      then (s\<lparr>sess_last_error := OLM_OUTPUT_BUFFER_TOO_SMALL\<rparr>, m, None)
      else
        let message_body_length = ratchet_encrypt_output_length (sess_ratchet s) (length plaintext);
            (m, message_body) = (if received_message s then (m, message)
              else put_pre_key_header s m message message_body_length);
            (r, m, result) = ratchet_encrypt P (sess_ratchet s) plaintext random m message_body
              message_body_length
        in (take_ratchet s r result, m, result))"

text \<open>Where the body of a message is: the start of \<open>decrypt\<close> and of the length function.\<close>

definition message_body :: "MessageType \<Rightarrow> mem \<Rightarrow> nat \<Rightarrow> nat \<Rightarrow> (nat \<times> nat) option" where
  "message_body message_type m message message_length =
     (if message_type = MESSAGE then Some (message, message_length)
      else
        let reader = decode_one_time_key_message (load m message message_length)
        in case pr_message reader of
             None \<Rightarrow> None
           | Some p \<Rightarrow> Some (message + p, pr_message_length reader))"

definition decrypt_max_plaintext_length ::
    "Session \<Rightarrow> MessageType \<Rightarrow> mem \<Rightarrow> nat \<Rightarrow> nat \<Rightarrow> Session \<times> nat option" where
  "decrypt_max_plaintext_length s message_type m message message_length =
     (case message_body message_type m message message_length of
        None \<Rightarrow> (s\<lparr>sess_last_error := OLM_BAD_MESSAGE_FORMAT\<rparr>, None)
      | Some (body, body_length) \<Rightarrow>
          let (r, result) = ratchet_decrypt_max_plaintext_length (sess_ratchet s) (load m body body_length)
          in (take_ratchet s r result, result))"

definition session_decrypt ::
    "crypto_prims \<Rightarrow> Session \<Rightarrow> MessageType \<Rightarrow> mem \<Rightarrow> nat \<Rightarrow> nat \<Rightarrow> nat \<Rightarrow> nat \<Rightarrow> bool
      \<Rightarrow> Session \<times> mem \<times> nat option" where
  "session_decrypt P s message_type m message message_length plaintext max_plaintext_length is_sequential =
     (case message_body message_type m message message_length of
        None \<Rightarrow> (s\<lparr>sess_last_error := OLM_BAD_MESSAGE_FORMAT\<rparr>, m, None)
      | Some (body, body_length) \<Rightarrow>
          let (r, m, result) = ratchet_decrypt P (sess_ratchet s) m body body_length plaintext
                max_plaintext_length is_sequential;
              s = take_ratchet s r result
          in if result = None then (s, m, None)
             else (s\<lparr>received_message := True\<rparr>, m, result))"

section \<open>Pickles\<close>

definition SESSION_PICKLE_VERSION :: u32 where "SESSION_PICKLE_VERSION = 1"

definition session_pickle_length :: "Session \<Rightarrow> nat" where
  "session_pickle_length value =
     4
     + 1
     + pickle_curve25519_public_key_length (alice_identity_key value)
     + pickle_curve25519_public_key_length (alice_base_key value)
     + pickle_curve25519_public_key_length (bob_one_time_key value)
     + pickle_curve25519_public_key_length (bob_prekey value)
     + ratchet_pickle_length (sess_ratchet value)"

definition session_pickle :: "mem \<Rightarrow> nat \<Rightarrow> Session \<Rightarrow> mem \<times> nat" where
  "session_pickle m pos value =
     (let (m, pos) = pickle_u32 m pos SESSION_PICKLE_VERSION;
          (m, pos) = pickle_bool m pos (received_message value);
          (m, pos) = pickle_curve25519_public_key m pos (alice_identity_key value);
          (m, pos) = pickle_curve25519_public_key m pos (alice_base_key value);
          (m, pos) = pickle_curve25519_public_key m pos (bob_one_time_key value);
          (m, pos) = pickle_curve25519_public_key m pos (bob_prekey value);
          (m, pos) = ratchet_pickle m pos (sess_ratchet value)
      in (m, pos))"

text \<open>The four keys, in the order they are read.\<close>

definition unpickle_session_keys :: "Session \<Rightarrow> bytes option \<Rightarrow> Session \<times> bytes option" where
  "unpickle_session_keys value pos =
     (let (k, pos) = unpickle_curve25519_public_key (alice_identity_key value) pos;
          value = value\<lparr>alice_identity_key := k\<rparr>
      in if pos = None then (value, None)
         else
           let (k, pos) = unpickle_curve25519_public_key (alice_base_key value) pos;
               value = value\<lparr>alice_base_key := k\<rparr>
           in if pos = None then (value, None)
              else
                let (k, pos) = unpickle_curve25519_public_key (bob_one_time_key value) pos;
                    value = value\<lparr>bob_one_time_key := k\<rparr>
                in if pos = None then (value, None)
                   else
                     let (k, pos) = unpickle_curve25519_public_key (bob_prekey value) pos
                     in (value\<lparr>bob_prekey := k\<rparr>, pos))"

definition session_unpickle :: "Session \<Rightarrow> bytes option \<Rightarrow> Session \<times> bytes option" where
  "session_unpickle value pos =
     (let (pickle_version, pos) = unpickle_u32 0 pos
      in if pos = None then (value, None)
         else if pickle_version \<noteq> 1 \<and> pickle_version \<noteq> 0x80000001
         then (value\<lparr>sess_last_error := OLM_UNKNOWN_PICKLE_VERSION\<rparr>, None)
         else
           let includes_chain_index = (pickle_version = 0x80000001);
               (b, pos) = unpickle_bool (received_message value) pos;
               value = value\<lparr>received_message := b\<rparr>
           in if pos = None then (value, None)
              else
                let (value, pos) = unpickle_session_keys value pos
                in if pos = None then (value, None)
                   else
                     let (r, pos) = ratchet_unpickle (sess_ratchet value) pos includes_chain_index
                     in (value\<lparr>sess_ratchet := r\<rparr>, pos))"

end
