(* ===== verification/RatchetProtocol.thy ===== *)
theory RatchetProtocol
  imports Ratchet RatchetPickle SamplePrims
begin

text \<open>
  Both ends of a double ratchet together: what \<open>encrypt\<close> writes, how \<open>decrypt\<close> of
  \<open>src/ratchet.cpp\<close> takes it apart, conversations of two parties, messages out of order and
  replayed messages.
\<close>

section \<open>What encryption writes\<close>

definition ratchet_message :: "bytes \<Rightarrow> bytes \<Rightarrow> MessageKey \<Rightarrow> bytes \<Rightarrow> bytes" where
  "ratchet_message cipher ratchet_key key plaintext =
     (let c = cipher_ctext cipher (mk_key key) plaintext;
          b = message_header PROTOCOL_VERSION ratchet_key (mk_index key) (length c) @ c
      in b @ cipher_tag cipher (mk_key key) b)"

lemma length_ratchet_message:
  "length rk = 32 \<Longrightarrow> length (ratchet_message cipher rk key pt) =
     encode_message_length (mk_index key) 32
       (aes_sha_256_cipher_encrypt_ciphertext_length (length pt)) 8"
  using encode_message_length_eq [of "mk_index key" rk _ 8 PROTOCOL_VERSION]
  by (simp add: ratchet_message_def Let_def)

lemma start_sender_chain_simps [simp]:
  "sender_chain (start_sender_chain P s random) \<noteq> []"
  "kdf_info (start_sender_chain P s random) = kdf_info s"
  "ratchet_cipher (start_sender_chain P s random) = ratchet_cipher s"
  "receiver_chains (start_sender_chain P s random) = receiver_chains s"
  "skipped_message_keys (start_sender_chain P s random) = skipped_message_keys s"
  by (auto simp: start_sender_chain_def Let_def list_insert_def split: prod.split)

lemma start_sender_chain_counter:
  "ck_index (sc_chain_key (sender_chain (start_sender_chain P s random) ! 0)) =
     (if sender_chain s \<noteq> [] then ck_index (sc_chain_key (sender_chain s ! 0)) else 0)"
  by (simp add: start_sender_chain_def create_chain_key_def Let_def list_insert_def split: prod.split)

text \<open>The session after it sent a message: the chain moves on.\<close>

definition sent :: "Ratchet \<Rightarrow> Ratchet" where
  "sent s = s\<lparr>sender_chain := (sender_chain s)[0 := (sender_chain s ! 0)
     \<lparr>sc_chain_key := advance_chain_key (sc_chain_key (sender_chain s ! 0))\<rparr>]\<rparr>"

definition next_message :: "Ratchet \<Rightarrow> bytes \<Rightarrow> bytes" where
  "next_message s pt = ratchet_message (ratchet_cipher s)
     (curve_public (sc_ratchet_key (sender_chain s ! 0)))
     (create_message_keys (sc_chain_key (sender_chain s ! 0))) pt"

lemma ratchet_encrypt_eq:
  fixes P s random
  defines "s1 \<equiv> start_sender_chain P s random"
  assumes "ratchet_encrypt_random_length s \<le> length random"
    and "ratchet_encrypt_output_length s (length pt) \<le> max_len"
    and "length (curve_public (sc_ratchet_key (sender_chain s1 ! 0))) = 32"
  shows "\<exists>m'. ratchet_encrypt P s pt random m out max_len =
      (sent s1, m', Some (ratchet_encrypt_output_length s (length pt))) \<and>
    load m' out (ratchet_encrypt_output_length s (length pt)) = next_message s1 pt \<and>
    unchanged_outside out (ratchet_encrypt_output_length s (length pt)) m m'"
proof -
  let ?chain = "sender_chain s1 ! 0"
  let ?rk = "curve_public (sc_ratchet_key ?chain)" and ?mk = "create_message_keys (sc_chain_key ?chain)"
  let ?cl = "aes_sha_256_cipher_encrypt_ciphertext_length (length pt)"
  let ?n = "ratchet_encrypt_output_length s (length pt)"
  let ?h = "message_header PROTOCOL_VERSION ?rk (mk_index ?mk) ?cl"
  let ?c = "cipher_ctext (ratchet_cipher s) (mk_key ?mk) pt"
  let ?t = "cipher_tag (ratchet_cipher s) (mk_key ?mk) (?h @ ?c)"
  have n: "?n = length ?h + ?cl + 8"
    using encode_message_length_eq [of "mk_index ?mk" ?rk ?cl 8 PROTOCOL_VERSION] assms(4)
    by (simp add: ratchet_encrypt_output_length_def CURVE25519_KEY_LENGTH_def
        create_message_keys_def s1_def start_sender_chain_counter)
  obtain m1 w where e: "encode_message m PROTOCOL_VERSION (mk_index ?mk) (length ?rk) ?cl out = (m1, w)"
    by fastforce
  note enc = encode_message_eq [OF e]
  let ?m2 = "store m out ?h"
  have h: "load ?m2 out (length ?h) = ?h" by (rule load_store_same) simp
  have cipher: "aes_sha_256_cipher_encrypt (ratchet_cipher s) (mk_key ?mk) pt ?m2 (out + length ?h) ?cl out ?n
      = (store m out (?h @ ?c @ ?t), Some ?n)"
    using aes_sha_256.enc_message [OF h refl, of ?n pt "ratchet_cipher s" "mk_key ?mk"] n
      store_store_append [of m out ?h "?c @ ?t"] by simp
  have msg: "next_message s1 pt = ?h @ ?c @ ?t"
    by (simp add: next_message_def ratchet_message_def Let_def s1_def)
  have "ratchet_encrypt P s pt random m out max_len = (sent s1, store m out (next_message s1 pt), Some ?n)"
    using assms(2,3) enc(1,2) cipher e assms(4)
    by (simp add: ratchet_encrypt_def Let_def s1_def [symmetric] sent_def CURVE25519_KEY_LENGTH_def msg)
      (simp add: s1_def)
  moreover have "length (next_message s1 pt) = ?n" by (simp add: msg n)
  ultimately show ?thesis by (auto simp: load_store_same intro!: unchanged_outside_store)
qed

section \<open>How decryption takes it apart\<close>

lemma reader_of_message:
  assumes "length rk = 32" "aes_sha_256_cipher_encrypt_ciphertext_length (length pt) < 2 ^ 64"
    and "load m inp n = ratchet_message cipher rk key pt"
  defines "r \<equiv> decode_message (load m inp n) 8"
  shows "mr_version r = PROTOCOL_VERSION \<and> mr_has_counter r \<and> mr_counter r = mk_index key
    \<and> mr_ratchet_key r \<noteq> None \<and> mr_ratchet_key_length r = 32 \<and> mr_ciphertext r \<noteq> None
    \<and> mr_ciphertext_length r = aes_sha_256_cipher_encrypt_ciphertext_length (length pt)
    \<and> mr_input_length r = n"
    and "p + k \<le> inp \<or> inp + n \<le> p \<Longrightarrow> length bs = k \<Longrightarrow> reader_ratchet_key (store m p bs) inp r = rk"
    and "aes_sha_256_cipher_encrypt_ciphertext_length (length pt) \<le> max_len \<Longrightarrow>
      \<exists>w. verify_mac_and_decrypt cipher key m inp r p max_len = (store m p (pt @ w), Some (length pt))
        \<and> length (pt @ w) = aes_sha_256_cipher_encrypt_ciphertext_length (length pt)"
proof -
  let ?c = "cipher_ctext cipher (mk_key key) pt"
  let ?h = "message_header PROTOCOL_VERSION rk (mk_index key) (length ?c)"
  let ?t = "cipher_tag cipher (mk_key key) (?h @ ?c)"
  let ?cl = "aes_sha_256_cipher_encrypt_ciphertext_length (length pt)"
  have msg: "load m inp n = ?h @ ?c @ ?t" using assms(3) by (simp add: ratchet_message_def Let_def)
  have n: "n = length ?h + ?cl + 8" using arg_cong [OF msg, of length] by simp
  have r: "r = \<lparr>mr_version = PROTOCOL_VERSION, mr_has_counter = True, mr_counter = mk_index key,
     mr_input_length = n, mr_ratchet_key = Some (1 + length (string_header RATCHET_KEY_TAG (length rk))),
     mr_ratchet_key_length = length rk, mr_ciphertext = Some (length ?h), mr_ciphertext_length = ?cl\<rparr>"
    unfolding r_def msg using assms(2)
    by (subst decode_message_encoded) (simp_all add: assms(1) n)
  then show "mr_version r = PROTOCOL_VERSION \<and> mr_has_counter r \<and> mr_counter r = mk_index key
    \<and> mr_ratchet_key r \<noteq> None \<and> mr_ratchet_key_length r = 32 \<and> mr_ciphertext r \<noteq> None
    \<and> mr_ciphertext_length r = ?cl \<and> mr_input_length r = n"
    using assms(1) by simp
  show "reader_ratchet_key (store m p bs) inp r = rk" if "p + k \<le> inp \<or> inp + n \<le> p" "length bs = k"
  proof -
    let ?k = "1 + length (string_header RATCHET_KEY_TAG (length rk))"
    have le: "?k + 32 \<le> n" using assms(1) n by (simp add: message_header_def string_field_def)
    have "load (store m p bs) (inp + ?k) 32 = load m (inp + ?k) 32"
      using that le by (intro load_store_disjoint) auto
    also have "\<dots> = take 32 (drop ?k (load m inp n))"
      using le by (simp add: drop_load take_load min_absorb2)
    also have "\<dots> = rk" using assms(1) by (simp add: msg message_header_def string_field_def)
    finally show ?thesis by (simp add: r reader_ratchet_key_def CURVE25519_KEY_LENGTH_def)
  qed
  show "\<exists>w. verify_mac_and_decrypt cipher key m inp r p max_len = (store m p (pt @ w), Some (length pt))
        \<and> length (pt @ w) = ?cl" if "?cl \<le> max_len"
  proof -
    have "load m (inp + length ?h) (?cl + 16) = load m (inp + length ?h) (?cl + 8) @ load m (inp + n) 8"
      using load_add [of m "inp + length ?h" "?cl + 8" 8] by (simp add: n add.assoc)
    also have "load m (inp + length ?h) (?cl + 8) = ?c @ ?t"
      using arg_cong [OF msg, of "drop (length ?h)"] n by (simp add: drop_load)
    finally have "load m (inp + length ?h) (?cl + 16) = ?c @ ?t @ load m (inp + n) 8"
      unfolding append_assoc .
    with aes_sha_256.dec_ok [OF that, of cipher "mk_key key" "?h @ ?c" "?t @ load m (inp + n) 8" "m (p - 1)"]
    show ?thesis by (auto simp: verify_mac_and_decrypt_def r msg Let_def)
  qed
qed

section \<open>Chains as sequences\<close>

lemma chain_index: "ck_index ((advance_chain_key ^^ n) ck) = ck_index ck + of_nat n"
  by (induction n) (simp_all add: advance_chain_key_def)

lemma wf_advance_chain_key [simp]: "wf_ChainKey (advance_chain_key ck)"
  by (simp add: wf_ChainKey_def advance_chain_key_def)

lemma index_less_add:
  assumes "unat (i :: u32) + Suc n < 2 ^ 32"
  shows "i < i + of_nat (Suc n)" and "i + 1 + of_nat n = i + of_nat (Suc n)"
    and "unat (i + 1) = unat i + 1"
proof -
  have "unat (i + of_nat (Suc n)) = unat i + Suc n"
    using assms unat_of_nat_u32 [of "Suc n"] by (simp add: unat_word_ariths)
  then show "i < i + of_nat (Suc n)" by (simp add: word_less_nat_alt)
  then show "unat (i + 1) = unat i + 1" by (rule unat_index_Suc)
qed simp

lemma advance_chain_to_add:
  "unat (ck_index ck) + n < 2 ^ 32 \<Longrightarrow>
     advance_chain_to ck (ck_index ck + of_nat n) = (advance_chain_key ^^ n) ck"
proof (induction n arbitrary: ck)
  case (Suc n)
  note less = index_less_add [OF Suc.prems]
  have "advance_chain_to ck (ck_index ck + of_nat (Suc n))
      = advance_chain_to (advance_chain_key ck) (ck_index (advance_chain_key ck) + of_nat n)"
    using less(1) by (simp add: advance_chain_to.simps [of ck] advance_chain_key_def add.assoc)
  also have "\<dots> = (advance_chain_key ^^ n) (advance_chain_key ck)"
    using Suc.prems less(3) by (intro Suc.IH) (simp add: advance_chain_key_def)
  finally show ?case by (simp add: funpow_swap1)
qed (simp add: advance_chain_to.simps)

definition chain_skipped :: "bytes \<Rightarrow> ChainKey \<Rightarrow> nat \<Rightarrow> SkippedMessageKey" where
  "chain_skipped rk ck j =
     \<lparr>sk_ratchet_key = rk, sk_message_key = create_message_keys ((advance_chain_key ^^ j) ck)\<rparr>"

lemma take_append_take: "take n (xs @ x # take (n - 1) ys) = take n (xs @ x # ys)"
  by (simp add: take_Cons' min_def)

lemma store_skipped_add:
  "unat (ck_index ck) + n < 2 ^ 32 \<Longrightarrow> length sk \<le> MAX_SKIPPED_MESSAGE_KEYS \<Longrightarrow>
     store_skipped rk ck (ck_index ck + of_nat n) sk =
       ((advance_chain_key ^^ n) ck,
        take MAX_SKIPPED_MESSAGE_KEYS (rev (map (chain_skipped rk ck) [0..<n]) @ sk))"
proof (induction n arbitrary: ck sk)
  case (Suc n)
  note less = index_less_add [OF Suc.prems(1)]
  let ?sk = "chain_skipped rk ck 0 # take (MAX_SKIPPED_MESSAGE_KEYS - 1) sk"
  have keys: "map (chain_skipped rk ck) [0..<Suc n]
      = chain_skipped rk ck 0 # map (chain_skipped rk (advance_chain_key ck)) [0..<n]"
    by (simp add: upt_conv_Cons chain_skipped_def funpow_swap1 comp_def del: upt_Suc flip: map_Suc_upt)
  have "store_skipped rk ck (ck_index ck + of_nat (Suc n)) sk =
      store_skipped rk (advance_chain_key ck) (ck_index (advance_chain_key ck) + of_nat n) ?sk"
    using less(1) Suc.prems(2)
    by (simp add: store_skipped.simps [of rk ck] chain_skipped_def advance_chain_key_def add.assoc
        list_insert_front MAX_SKIPPED_MESSAGE_KEYS_def)
  also have "\<dots> = ((advance_chain_key ^^ n) (advance_chain_key ck), take MAX_SKIPPED_MESSAGE_KEYS
      (rev (map (chain_skipped rk (advance_chain_key ck)) [0..<n]) @ ?sk))"
    using Suc.prems less(3)
    by (intro Suc.IH) (auto simp: advance_chain_key_def MAX_SKIPPED_MESSAGE_KEYS_def)
  finally show ?case by (simp only: keys take_append_take) (simp add: funpow_swap1)
qed (simp add: store_skipped.simps)

section \<open>Decrypting what the other side encrypted\<close>

text \<open>
  A message in the memory, apart from a plaintext buffer that is long enough: what every
  delivery below assumes.
\<close>

definition delivery :: "mem \<Rightarrow> nat \<Rightarrow> nat \<Rightarrow> nat \<Rightarrow> nat \<Rightarrow> bytes \<Rightarrow> bytes \<Rightarrow> bool" where
  "delivery m inp n p max_len msg pt \<longleftrightarrow>
     load m inp n = msg \<and> aes_sha_256_cipher_encrypt_ciphertext_length (length pt) \<le> max_len \<and>
     max_len < 2 ^ 64 \<and> (p + max_len \<le> inp \<or> inp + n \<le> p)"

lemma decrypt_own_reader:
  assumes "length rk = 32" "delivery m inp n p max_len (ratchet_message (ratchet_cipher s) rk key pt) pt"
  shows "\<exists>w r. mr_counter r = mk_index key \<and>
    reader_ratchet_key m inp r = rk \<and> reader_ratchet_key (store m p (pt @ w)) inp r = rk \<and>
    verify_mac_and_decrypt (ratchet_cipher s) key m inp r p max_len = (store m p (pt @ w), Some (length pt)) \<and>
    (\<forall>is_seq. ratchet_decrypt P s m inp n p max_len is_seq
      = decrypt_with_chains P s m inp r p max_len is_seq)"
proof -
  let ?cl = "aes_sha_256_cipher_encrypt_ciphertext_length (length pt)"
  define r where "r = decode_message (load m inp n) 8"
  have d: "load m inp n = ratchet_message (ratchet_cipher s) rk key pt" "?cl \<le> max_len" "?cl < 2 ^ 64"
    "p + max_len \<le> inp \<or> inp + n \<le> p"
    using assms(2) by (auto simp: delivery_def)
  note rd = reader_of_message [OF assms(1) d(3,1), folded r_def]
  from rd(3) [OF d(2)] obtain w where w:
    "verify_mac_and_decrypt (ratchet_cipher s) key m inp r p max_len = (store m p (pt @ w), Some (length pt))"
    "length (pt @ w) = ?cl" by blast
  have "reader_ratchet_key m inp r = rk"
    using rd(2) [of p 0 "[]"] d(2,4) by auto
  moreover have "reader_ratchet_key (store m p (pt @ w)) inp r = rk"
    using rd(2) [of p ?cl "pt @ w"] w(2) d(2,4) by auto
  moreover have "ratchet_decrypt P s m inp n p max_len is_seq
      = decrypt_with_chains P s m inp r p max_len is_seq" for is_seq
    using rd(1) d(2)
    by (auto simp: r_def [symmetric] ratchet_decrypt_def CURVE25519_KEY_LENGTH_def
        aes_sha_256_cipher_decrypt_max_plaintext_length_def)
  ultimately show ?thesis using rd(1) w(1) by blast
qed

lemma decrypt_on_chain:
  assumes "length rk = 32" "delivery m inp n p max_len (ratchet_message (ratchet_cipher s) rk key pt) pt"
    and "find_chain rk (receiver_chains s) = Some i"
    and "ck = rc_chain_key (receiver_chains s ! i)" "key = create_message_keys ((advance_chain_key ^^ k) ck)"
    and "unat (ck_index ck) + k < 2 ^ 32" "k \<le> 2000" "is_seq \<longrightarrow> k = 0"
  shows "\<exists>w. ratchet_decrypt P s m inp n p max_len is_seq =
    (accept_on_chain s i (ck_index ck + of_nat k), store m p (pt @ w), Some (length pt))"
proof -
  have key: "mk_index key = ck_index ck + of_nat k" "create_message_keys (advance_chain_to ck (mk_index key)) = key"
    using assms(5,6) by (simp_all add: create_message_keys_def chain_index advance_chain_to_add)
  have gap: "\<not> mk_index key < ck_index ck" "\<not> mk_index key - ck_index ck > MAX_MESSAGE_GAP"
    "is_seq \<longrightarrow> \<not> mk_index key > ck_index ck"
    using assms(6-8) by (auto simp: key(1) MAX_MESSAGE_GAP_def word_less_nat_alt unat_of_nat_u32 unat_word_ariths)
  from decrypt_own_reader [OF assms(1,2)] obtain w r where r: "mr_counter r = mk_index key"
    "reader_ratchet_key m inp r = rk"
    "verify_mac_and_decrypt (ratchet_cipher s) key m inp r p max_len = (store m p (pt @ w), Some (length pt))"
    "ratchet_decrypt P s m inp n p max_len is_seq = decrypt_with_chains P s m inp r p max_len is_seq"
    by metis
  have "verify_mac_and_decrypt_for_existing_chain s ck m inp r p max_len e
      = (store m p (pt @ w), e, Some (length pt))" for e
    using gap by (simp add: verify_mac_and_decrypt_for_existing_chain_def r(1,3) key(2))
  then show ?thesis
    using gap
    by (intro exI [of _ w])
      (auto simp: r(4) decrypt_with_chains_def r(1,2) assms(3) assms(4) [symmetric] key(1) [symmetric] Let_def)
qed

lemma decrypt_on_new_chain:
  assumes "length rk = 32" "delivery m inp n p max_len (ratchet_message (ratchet_cipher s) rk key pt) pt"
    and "find_chain rk (receiver_chains s) = None" "sender_chain s \<noteq> []"
    and "create_chain_key P (root_key s) (sc_ratchet_key (sender_chain s ! 0)) rk (kdf_info s) = (root, ck)"
    and "key = create_message_keys ((advance_chain_key ^^ k) ck)" "k \<le> 2000"
  shows "\<exists>w. ratchet_decrypt P s m inp n p max_len is_seq =
    (accept_on_chain (accept_new_chain P s rk) 0 (of_nat k), store m p (pt @ w), Some (length pt))"
proof -
  have ck: "ck_index ck = 0" using assms(5) by (auto simp: create_chain_key_def Let_def split: prod.splits)
  have key: "mk_index key = of_nat k" "create_message_keys (advance_chain_to ck (mk_index key)) = key"
    using assms(6,7) advance_chain_to_add [of ck k] by (simp_all add: create_message_keys_def chain_index ck)
  have gap: "\<not> mk_index key > MAX_MESSAGE_GAP"
    using assms(7) by (simp add: key(1) MAX_MESSAGE_GAP_def word_less_nat_alt unat_of_nat_u32)
  from decrypt_own_reader [OF assms(1,2)] obtain w r where r: "mr_counter r = mk_index key"
    "reader_ratchet_key m inp r = rk" "reader_ratchet_key (store m p (pt @ w)) inp r = rk"
    "verify_mac_and_decrypt (ratchet_cipher s) key m inp r p max_len = (store m p (pt @ w), Some (length pt))"
    "ratchet_decrypt P s m inp n p max_len is_seq = decrypt_with_chains P s m inp r p max_len is_seq"
    by metis
  have "verify_mac_and_decrypt_for_new_chain P s m inp r p max_len e
      = (store m p (pt @ w), e, Some (length pt))" for e
    using gap by (simp add: verify_mac_and_decrypt_for_new_chain_def
        verify_mac_and_decrypt_for_existing_chain_def r(1,2,4) key(2) ck assms(4,5))
  then show ?thesis
    by (intro exI [of _ w]) (simp add: r(5) decrypt_with_chains_def r(1-3) assms(3) key(1) [symmetric])
qed

text \<open>The skipped keys: the first that fits the message's key and index decrypts it.\<close>

definition fits :: "bytes \<Rightarrow> u32 \<Rightarrow> SkippedMessageKey \<Rightarrow> bool" where
  "fits rk c k \<longleftrightarrow> sk_ratchet_key k = rk \<and> mk_index (sk_message_key k) = c"

lemma try_skipped_none:
  "\<forall>k \<in> set sk. \<not> fits (reader_ratchet_key m inp r) (mr_counter r) k \<Longrightarrow>
     try_skipped cipher m inp r p max_len sk i = (m, None)"
  by (induction sk arbitrary: i) (auto simp: fits_def)

lemma try_skipped_first:
  assumes "\<forall>k \<in> set xs. \<not> fits (reader_ratchet_key m inp r) (mr_counter r) k"
    and "fits (reader_ratchet_key m inp r) (mr_counter r) k"
    and "verify_mac_and_decrypt cipher (sk_message_key k) m inp r p max_len = (m', Some n)"
  shows "try_skipped cipher m inp r p max_len (xs @ k # ys) i = (m', Some (i + length xs, n))"
  using assms(1)
proof (induction xs arbitrary: i)
  case Nil
  then show ?case using assms(2,3) by (simp add: fits_def)
next
  case (Cons x xs)
  have "\<not> (mr_counter r = mk_index (sk_message_key x) \<and> sk_ratchet_key x = reader_ratchet_key m inp r)"
    using Cons.prems by (auto simp: fits_def)
  then show ?case using Cons by auto
qed

lemma decrypt_with_skipped_key:
  assumes "length rk = 32" "delivery m inp n p max_len (ratchet_message (ratchet_cipher s) rk key pt) pt"
    and "find_chain rk (receiver_chains s) = Some i" "mk_index key < ck_index (rc_chain_key (receiver_chains s ! i))"
    and "skipped_message_keys s = xs @ \<lparr>sk_ratchet_key = rk, sk_message_key = key\<rparr> # ys"
    and "\<forall>k \<in> set xs. \<not> fits rk (mk_index key) k"
  shows "\<exists>w. ratchet_decrypt P s m inp n p max_len is_seq =
    (s\<lparr>skipped_message_keys := xs @ ys\<rparr>, store m p (pt @ w), Some (length pt))"
proof -
  from decrypt_own_reader [OF assms(1,2)] obtain w r where r: "mr_counter r = mk_index key"
    "reader_ratchet_key m inp r = rk"
    "verify_mac_and_decrypt (ratchet_cipher s) key m inp r p max_len = (store m p (pt @ w), Some (length pt))"
    "ratchet_decrypt P s m inp n p max_len is_seq = decrypt_with_chains P s m inp r p max_len is_seq"
    by metis
  have "try_skipped (ratchet_cipher s) m inp r p max_len (skipped_message_keys s) 0
      = (store m p (pt @ w), Some (length xs, length pt))"
    using try_skipped_first [of xs m inp r "\<lparr>sk_ratchet_key = rk, sk_message_key = key\<rparr>" _ p max_len _ _ ys 0]
      assms(5,6) r(1-3) by (simp add: fits_def)
  then show ?thesis
    using assms(4)
    by (intro exI [of _ w]) (auto simp: r(4) decrypt_with_chains_def r(1,2) assms(3,5) list_erase_def Let_def)
qed

lemma decrypt_again:
  assumes "length rk = 32" "delivery m inp n p max_len (ratchet_message (ratchet_cipher s) rk key pt) pt"
    and "find_chain rk (receiver_chains s) = Some i" "mk_index key < ck_index (rc_chain_key (receiver_chains s ! i))"
    and "\<forall>k \<in> set (skipped_message_keys s). \<not> fits rk (mk_index key) k"
  shows "ratchet_decrypt P s m inp n p max_len is_seq =
    (s\<lparr>r_last_error := OLM_ALREADY_DECRYPTED_OR_KEYS_SKIPPED\<rparr>, m, None)"
proof -
  from decrypt_own_reader [OF assms(1,2)] obtain r where r: "mr_counter r = mk_index key"
    "reader_ratchet_key m inp r = rk"
    "ratchet_decrypt P s m inp n p max_len is_seq = decrypt_with_chains P s m inp r p max_len is_seq"
    by metis
  then show ?thesis
    using assms(4) try_skipped_none [of "skipped_message_keys s" m inp r] assms(5)
    by (auto simp: r(3) decrypt_with_chains_def r(1,2) assms(3) Let_def)
qed

section \<open>Conversations\<close>

text \<open>
  \<open>in_step s r\<close>: it is \<open>s\<close> who has a sending chain, \<open>r\<close> has the matching receiving chain in
  front and none of its own to send with; both have the same root key.
\<close>

definition generated :: "crypto_prims \<Rightarrow> curve25519_key_pair \<Rightarrow> bool" where
  "generated P k \<longleftrightarrow> length (curve_private k) = 32 \<and>
     curve_public k = curve25519_donna P (curve_private k) CURVE25519_BASEPOINT"

definition in_step :: "crypto_prims \<Rightarrow> Ratchet \<Rightarrow> Ratchet \<Rightarrow> bool" where
  "in_step P s r \<longleftrightarrow>
     root_key s = root_key r \<and> kdf_info s = kdf_info r \<and> ratchet_cipher s = ratchet_cipher r \<and>
     (\<exists>t ck cs. sender_chain s = [\<lparr>sc_ratchet_key = t, sc_chain_key = ck\<rparr>] \<and> generated P t \<and>
        sender_chain r = [] \<and>
        receiver_chains r = \<lparr>rc_ratchet_key = curve_public t, rc_chain_key = ck\<rparr> # cs)"

definition known_keys :: "Ratchet \<Rightarrow> bytes set" where
  "known_keys r = rc_ratchet_key ` set (receiver_chains r)"

lemma find_chain_None: "(find_chain rk cs = None) = (rk \<notin> rc_ratchet_key ` set cs)"
  by (induction cs) auto

lemma store_skipped_none: "store_skipped rk ck (ck_index ck) sk = (ck, sk)"
  by (simp add: store_skipped.simps)

lemma shared_chain:
  assumes "dh_law P" "generated P t" "generated P u"
  shows "create_chain_key P root t (curve_public u) info = create_chain_key P root u (curve_public t) info"
  using assms by (simp add: create_chain_key_def olm_crypto_curve25519_shared_secret_def generated_def dh_law_def)

lemma length_generated: "dh_law P \<Longrightarrow> generated P t \<Longrightarrow> length (curve_public t) = 32"
  by (simp add: generated_def dh_law_def)

lemma length_new_key: "dh_law P \<Longrightarrow> length (curve_public (olm_crypto_curve25519_generate_key P random)) = 32"
  by (simp add: dh_law_def olm_crypto_curve25519_generate_key_def Let_def)

lemma generated_key: "32 \<le> length random \<Longrightarrow> generated P (olm_crypto_curve25519_generate_key P random)"
  by (simp add: generated_def olm_crypto_curve25519_generate_key_def Let_def)

lemma repeated_byte_key: "generated P (olm_crypto_curve25519_generate_key P (replicate 32 b))"
  by (rule generated_key) simp

text \<open>The side that has the sending chain sends another message on it.\<close>

lemma same_side_sends:
  assumes "dh_law P" "in_step P s r" "delivery m inp n p max_len (next_message s pt) pt"
  shows "\<exists>w r'. ratchet_decrypt P r m inp n p max_len is_seq = (r', store m p (pt @ w), Some (length pt))
    \<and> in_step P (sent s) r' \<and> known_keys r' = known_keys r"
proof -
  from assms(2) obtain t ck cs where st: "sender_chain s = [\<lparr>sc_ratchet_key = t, sc_chain_key = ck\<rparr>]"
    "generated P t" "sender_chain r = []"
    "receiver_chains r = \<lparr>rc_ratchet_key = curve_public t, rc_chain_key = ck\<rparr> # cs"
    "root_key s = root_key r" "kdf_info s = kdf_info r" "ratchet_cipher s = ratchet_cipher r"
    unfolding in_step_def by blast
  have msg: "next_message s pt = ratchet_message (ratchet_cipher r) (curve_public t) (create_message_keys ck) pt"
    by (simp add: next_message_def st)
  let ?r' = "accept_on_chain r 0 (ck_index ck)"
  have "ck_index ck + of_nat 0 = ck_index ck" by simp
  note on_chain = decrypt_on_chain [OF length_generated [OF assms(1) st(2)] assms(3) [unfolded msg],
      where i = 0 and k = 0 and ck = ck and P = P and is_seq = is_seq, unfolded this]
  have "\<exists>w. ratchet_decrypt P r m inp n p max_len is_seq = (?r', store m p (pt @ w), Some (length pt))"
    by (rule on_chain) (simp_all add: st(4) unsigned_less [of "ck_index ck", where ?'a = nat, simplified])
  then obtain w where "ratchet_decrypt P r m inp n p max_len is_seq = (?r', store m p (pt @ w), Some (length pt))"
    by blast
  moreover have "in_step P (sent s) ?r'"
    using st by (simp add: in_step_def sent_def accept_on_chain_def store_skipped_none)
  moreover have "known_keys ?r' = known_keys r"
    by (simp add: known_keys_def accept_on_chain_def store_skipped_none st)
  ultimately show ?thesis by (intro exI conjI)
qed

lemma in_step_keeps_chain: "in_step P s r \<Longrightarrow> start_sender_chain P s random = s"
  by (auto simp: in_step_def start_sender_chain_def)

text \<open>The other side answers: it starts a chain with a new key, the first side follows.\<close>

lemma other_side_sends:
  fixes P r random
  defines "u \<equiv> olm_crypto_curve25519_generate_key P random" and "r1 \<equiv> start_sender_chain P r random"
  assumes "dh_law P" "in_step P s r" "curve_public u \<notin> known_keys s" "32 \<le> length random"
    and "delivery m inp n p max_len (next_message r1 pt) pt"
  shows "\<exists>w s'. ratchet_decrypt P s m inp n p max_len is_seq = (s', store m p (pt @ w), Some (length pt))
    \<and> in_step P (sent r1) s' \<and> known_keys s' \<subseteq> Set.insert (curve_public u) (known_keys s)"
proof -
  from assms(4) obtain t ck cs where st: "sender_chain s = [\<lparr>sc_ratchet_key = t, sc_chain_key = ck\<rparr>]"
    "generated P t" "sender_chain r = []"
    "receiver_chains r = \<lparr>rc_ratchet_key = curve_public t, rc_chain_key = ck\<rparr> # cs"
    "root_key s = root_key r" "kdf_info s = kdf_info r" "ratchet_cipher s = ratchet_cipher r"
    unfolding in_step_def by blast
  have u: "generated P u" using assms(6) by (simp add: u_def generated_key)
  obtain root ck' where new: "create_chain_key P (root_key s) t (curve_public u) (kdf_info s) = (root, ck')"
    by fastforce
  then have new': "create_chain_key P (root_key r) u (curve_public t) (kdf_info r) = (root, ck')"
    using shared_chain [OF assms(3) st(2) u] st by simp
  have ck': "ck_index ck' = 0" using new by (auto simp: create_chain_key_def Let_def split: prod.splits)
  have r1: "r1 = r\<lparr>root_key := root, sender_chain := [\<lparr>sc_ratchet_key = u, sc_chain_key = ck'\<rparr>]\<rparr>"
    using new' by (simp add: r1_def start_sender_chain_def st u_def [symmetric] Let_def list_insert_def)
  have msg: "next_message r1 pt = ratchet_message (ratchet_cipher s) (curve_public u) (create_message_keys ck') pt"
    by (simp add: next_message_def r1 st)
  let ?s' = "accept_on_chain (accept_new_chain P s (curve_public u)) 0 0"
  have fresh: "find_chain (curve_public u) (receiver_chains s) = None"
    using assms(5) by (simp add: find_chain_None known_keys_def)
  have "\<exists>w. ratchet_decrypt P s m inp n p max_len is_seq = (?s', store m p (pt @ w), Some (length pt))"
    using decrypt_on_new_chain [OF length_generated [OF assms(3) u] assms(7) [unfolded msg] fresh, of P root ck' 0] new
    by (simp add: st)
  moreover have "accept_new_chain P s (curve_public u) =
      s\<lparr>root_key := root, sender_chain := [], receiver_chains :=
        \<lparr>rc_ratchet_key = curve_public u, rc_chain_key = ck'\<rparr> # take 4 (receiver_chains s)\<rparr>"
    using new by (simp add: accept_new_chain_def st list_insert_front list_erase_def MAX_RECEIVER_CHAINS_def)
  then have s': "?s' = s\<lparr>root_key := root, sender_chain := [], receiver_chains :=
        \<lparr>rc_ratchet_key = curve_public u, rc_chain_key = advance_chain_key ck'\<rparr> # take 4 (receiver_chains s)\<rparr>"
    using store_skipped_none [of "curve_public u" ck'] by (simp add: accept_on_chain_def ck')
  have "in_step P (sent r1) ?s'" using st u by (simp add: in_step_def s' sent_def r1)
  moreover have "known_keys ?s' \<subseteq> Set.insert (curve_public u) (known_keys s)"
    by (auto simp: known_keys_def s' dest: in_set_takeD)
  ultimately show ?thesis by blast
qed

text \<open>
  A conversation of two parties: who sends, the plaintext and the random bytes at hand for each
  message; every message is delivered before the next one is sent.  The buffers are as long as
  the functions ask for.
\<close>

fun exchange :: "crypto_prims \<Rightarrow> nat \<Rightarrow> Ratchet \<Rightarrow> Ratchet \<Rightarrow> (bool \<times> bytes \<times> bytes) list \<Rightarrow> bytes option list" where
  "exchange P max_len a b [] = []"
| "exchange P max_len a b ((from_a, pt, random) # events) =
     (let (s, r) = (if from_a then (a, b) else (b, a));
          n = ratchet_encrypt_output_length s (length pt);
          (s, m, _) = ratchet_encrypt P s pt random (\<lambda>_. 0) 0 n;
          (r, m, result) = ratchet_decrypt P r (store (\<lambda>_. 0) max_len (load m 0 n)) max_len n 0 max_len True;
          (a, b) = (if from_a then (s, r) else (r, s))
      in map_option (load m 0) result # exchange P max_len a b events)"

definition new_keys :: "crypto_prims \<Rightarrow> (bool \<times> bytes \<times> bytes) list \<Rightarrow> bytes list" where
  "new_keys P events = map (\<lambda>(_, _, random). curve_public (olm_crypto_curve25519_generate_key P random)) events"

lemma load_plaintext: "load (store m p (pt @ w)) p (length pt) = pt"
  using take_load [of "length pt" "store m p (pt @ w)" p "length (pt @ w)"] by (simp add: load_store_same)

text \<open>Whoever sends next.\<close>

lemma sending_key_length:
  assumes "dh_law P" "in_step P s r \<or> in_step P r s"
  shows "length (curve_public (sc_ratchet_key (sender_chain (start_sender_chain P s random) ! 0))) = 32"
  using assms(2) length_generated [OF assms(1)] length_new_key [OF assms(1), of random]
  by (auto simp: in_step_def start_sender_chain_def Let_def list_insert_def split: prod.split)

lemma either_side_sends:
  fixes P s random
  defines "u \<equiv> curve_public (olm_crypto_curve25519_generate_key P random)" and "s1 \<equiv> start_sender_chain P s random"
  assumes "dh_law P" "in_step P s r \<or> in_step P r s" "u \<notin> known_keys s \<union> known_keys r" "32 \<le> length random"
    and del: "delivery m inp n p max_len (next_message s1 pt) pt"
  shows "\<exists>w r'. ratchet_decrypt P r m inp n p max_len is_seq = (r', store m p (pt @ w), Some (length pt))
    \<and> in_step P (sent s1) r'
    \<and> known_keys (sent s1) \<union> known_keys r' \<subseteq> Set.insert u (known_keys s \<union> known_keys r)"
proof -
  have known: "known_keys (sent s1) = known_keys s" by (simp add: known_keys_def sent_def s1_def)
  from assms(4) show ?thesis
  proof
    assume step: "in_step P s r"
    have s1: "s1 = s" unfolding s1_def by (rule in_step_keeps_chain [OF step])
    from same_side_sends [OF assms(3) step del [unfolded s1], of is_seq] show ?thesis
      using known unfolding s1 by blast
  next
    assume step: "in_step P r s"
    have "u \<notin> known_keys r" using assms(5) by blast
    from other_side_sends [OF assms(3) step this [unfolded u_def] assms(6) del [unfolded s1_def], of is_seq]
    show ?thesis using known unfolding s1_def u_def by blast
  qed
qed

lemma exchange_step:
  assumes "dh_law P" "in_step P s r \<or> in_step P r s" "32 \<le> length random" "max_len < 2 ^ 64"
    and "aes_sha_256_cipher_encrypt_ciphertext_length (length pt) \<le> max_len"
    and "curve_public (olm_crypto_curve25519_generate_key P random) \<notin> known_keys s \<union> known_keys r"
  defines "n \<equiv> ratchet_encrypt_output_length s (length pt)"
  shows "\<exists>s' m r' m'. ratchet_encrypt P s pt random (\<lambda>_. 0) 0 n = (s', m, Some n)
    \<and> ratchet_decrypt P r (store (\<lambda>_. 0) max_len (load m 0 n)) max_len n 0 max_len True = (r', m', Some (length pt))
    \<and> load m' 0 (length pt) = pt \<and> (in_step P s' r' \<or> in_step P r' s')
    \<and> known_keys s' \<union> known_keys r' \<subseteq> Set.insert (curve_public (olm_crypto_curve25519_generate_key P random))
        (known_keys s \<union> known_keys r)"
proof -
  let ?s1 = "start_sender_chain P s random"
  have "ratchet_encrypt_random_length s \<le> length random"
    using assms(3) by (simp add: ratchet_encrypt_random_length_def CURVE25519_RANDOM_LENGTH_def)
  from ratchet_encrypt_eq [OF this _ sending_key_length [OF assms(1,2)], of pt n "\<lambda>_. 0" 0] obtain m where
    enc: "ratchet_encrypt P s pt random (\<lambda>_. 0) 0 n = (sent ?s1, m, Some n)" "load m 0 n = next_message ?s1 pt"
    by (auto simp: n_def)
  have "delivery (store (\<lambda>_. 0) max_len (load m 0 n)) max_len n 0 max_len (next_message ?s1 pt) pt"
    using assms(4,5) by (simp add: delivery_def load_store_same enc(2) [symmetric])
  from either_side_sends [OF assms(1,2,6,3) this, of True] obtain w r' where
    "ratchet_decrypt P r (store (\<lambda>_. 0) max_len (load m 0 n)) max_len n 0 max_len True =
       (r', store (store (\<lambda>_. 0) max_len (load m 0 n)) 0 (pt @ w), Some (length pt))"
    "in_step P (sent ?s1) r'"
    "known_keys (sent ?s1) \<union> known_keys r' \<subseteq> Set.insert (curve_public (olm_crypto_curve25519_generate_key P random))
        (known_keys s \<union> known_keys r)"
    by blast
  then show ?thesis using enc(1) load_plaintext [of _ 0 pt w] by auto
qed

lemma exchange_in_step:
  assumes "dh_law P" "in_step P a b \<or> in_step P b a" "max_len < 2 ^ 64"
    and "\<forall>(_, pt, random) \<in> set events. 32 \<le> length random
           \<and> aes_sha_256_cipher_encrypt_ciphertext_length (length pt) \<le> max_len"
    and "distinct (new_keys P events)" "set (new_keys P events) \<inter> (known_keys a \<union> known_keys b) = {}"
  shows "exchange P max_len a b events = map (\<lambda>(_, pt, _). Some pt) events"
  using assms(2,4-)
proof (induction events arbitrary: a b)
  case (Cons e events)
  obtain from_a pt random where e: "e = (from_a, pt, random)" by (cases e)
  define s where "s = (if from_a then a else b)"
  define r where "r = (if from_a then b else a)"
  have sides: "(if from_a then (a, b) else (b, a)) = (s, r)" by (simp add: s_def r_def)
  let ?k = "curve_public (olm_crypto_curve25519_generate_key P random)"
  let ?n = "ratchet_encrypt_output_length s (length pt)"
  have "in_step P s r \<or> in_step P r s" using Cons.prems(1) by (auto simp: s_def r_def)
  moreover have "?k \<notin> known_keys s \<union> known_keys r"
    using Cons.prems(4) by (auto simp: e new_keys_def s_def r_def)
  ultimately obtain s' m r' m' where step:
    "ratchet_encrypt P s pt random (\<lambda>_. 0) 0 ?n = (s', m, Some ?n)"
    "ratchet_decrypt P r (store (\<lambda>_. 0) max_len (load m 0 ?n)) max_len ?n 0 max_len True = (r', m', Some (length pt))"
    "load m' 0 (length pt) = pt" "in_step P s' r' \<or> in_step P r' s'"
    "known_keys s' \<union> known_keys r' \<subseteq> Set.insert ?k (known_keys s \<union> known_keys r)"
    using exchange_step [OF assms(1), of s r random max_len pt] assms(3) Cons.prems(2)
    by (auto simp: e)
  define a' where "a' = (if from_a then s' else r')"
  define b' where "b' = (if from_a then r' else s')"
  have sides': "(if from_a then (s', r') else (r', s')) = (a', b')" by (simp add: a'_def b'_def)
  have "known_keys a' \<union> known_keys b' \<subseteq> Set.insert ?k (known_keys a \<union> known_keys b)"
    using step(5) by (auto simp: a'_def b'_def s_def r_def split: if_splits)
  moreover have keys: "new_keys P (e # events) = ?k # new_keys P events" by (simp add: e new_keys_def)
  ultimately have "set (new_keys P events) \<inter> (known_keys a' \<union> known_keys b') = {}"
    using Cons.prems(3,4) by auto
  moreover have "in_step P a' b' \<or> in_step P b' a'" using step(4) by (auto simp: a'_def b'_def)
  ultimately have "exchange P max_len a' b' events = map (\<lambda>(_, pt, _). Some pt) events"
    using Cons.prems(2,3) by (intro Cons.IH) (simp_all add: keys)
  moreover have "exchange P max_len a b (e # events) = Some pt # exchange P max_len a' b' events"
    using step(1-3) sides sides' by (simp add: e Let_def)
  ultimately show ?case by (simp add: e)
qed simp

lemma initialised_in_step:
  assumes "generated P key"
  shows "in_step P (initialise_as_alice (new_Ratchet info cipher) secret key)
      (initialise_as_bob (new_Ratchet info cipher) secret (curve_public key))"
  using assms
  by (auto simp: in_step_def initialise_as_alice_def initialise_as_bob_def new_Ratchet_def
      list_insert_def MAX_RECEIVER_CHAINS_def split: prod.split)

lemma known_keys_initialised:
  "known_keys (initialise_as_alice (new_Ratchet info cipher) secret key) = {}"
  "known_keys (initialise_as_bob (new_Ratchet info cipher) secret rk) = {rk}"
  by (auto simp: known_keys_def initialise_as_alice_def initialise_as_bob_def new_Ratchet_def
      list_insert_def MAX_RECEIVER_CHAINS_def split: prod.split)

text \<open>C20: Two parties who start from the same shared secret, one as the initiator with a fresh
  ratchet key, the other with that key's public half, understand each other whoever speaks and
  however often the direction changes: every message that is delivered before the next one is sent
  decrypts to its plaintext.  The ratchet steps in between, a new sending chain for every change
  of direction and the derivation of the matching receiving chain, stay in step provided that the
  ratchet keys drawn from the random bytes differ from each other.\<close>

theorem ratchet_conversation:
  assumes "dh_law P" "generated P key" "max_len < 2 ^ 64"
    and "\<forall>(_, pt, random) \<in> set events. 32 \<le> length random
           \<and> aes_sha_256_cipher_encrypt_ciphertext_length (length pt) \<le> max_len"
    and "distinct (curve_public key # new_keys P events)"
  shows "exchange P max_len (initialise_as_alice (new_Ratchet info cipher) secret key)
      (initialise_as_bob (new_Ratchet info cipher) secret (curve_public key)) events =
    map (\<lambda>(_, pt, _). Some pt) events"
  using assms initialised_in_step [OF assms(2)]
  by (intro exchange_in_step) (auto simp: known_keys_initialised)

lemma ratchet_conversation_witness:
  "exchange sample_prims 16
     (initialise_as_alice (new_Ratchet \<lparr>root_info = [1], ratchet_info = [2]\<rparr> [3]) [4]
        (olm_crypto_curve25519_generate_key sample_prims (replicate 32 1)))
     (initialise_as_bob (new_Ratchet \<lparr>root_info = [1], ratchet_info = [2]\<rparr> [3]) [4]
        (curve_public (olm_crypto_curve25519_generate_key sample_prims (replicate 32 1))))
     [(True, [5], replicate 32 2), (False, [6], replicate 32 3), (False, [], replicate 32 4),
      (True, [7], replicate 32 5)]
   = [Some [5], Some [6], Some [], Some [7]]"
proof -
  have "distinct (map (\<lambda>b. curve_public (olm_crypto_curve25519_generate_key sample_prims (replicate 32 b)))
      [1, 2, 3, 4, 5])"
    by code_simp
  then show ?thesis
    using ratchet_conversation [OF sample_dh_law repeated_byte_key, of 16 "[(True, [5], replicate 32 2),
        (False, [6], replicate 32 3), (False, [], replicate 32 4), (True, [7], replicate 32 5)]" 1]
    by (simp add: new_keys_def aes_sha_256_cipher_encrypt_ciphertext_length_def
        olm_crypto_aes_encrypt_cbc_length_def)
qed

section \<open>Messages out of order\<close>

text \<open>
  \<open>window rk ck got h r\<close>: the front receiving chain of \<open>r\<close> has moved on by \<open>h\<close> messages from
  \<open>ck\<close>, the messages \<open>got\<close> among them were decrypted and the keys of the others are kept.
\<close>

definition window :: "bytes \<Rightarrow> ChainKey \<Rightarrow> nat set \<Rightarrow> nat \<Rightarrow> Ratchet \<Rightarrow> bool" where
  "window rk ck got h r \<longleftrightarrow>
     (\<exists>cs. receiver_chains r = \<lparr>rc_ratchet_key = rk, rc_chain_key = (advance_chain_key ^^ h) ck\<rparr> # cs) \<and>
     (\<exists>js others. skipped_message_keys r = map (chain_skipped rk ck) js @ others \<and>
        distinct js \<and> set js = {..<h} - got \<and> (\<forall>k \<in> set others. sk_ratchet_key k \<noteq> rk)) \<and>
     length (skipped_message_keys r) \<le> MAX_SKIPPED_MESSAGE_KEYS \<and> got \<subseteq> {..<h}"

lemma mk_index_create [simp]: "mk_index (create_message_keys ck) = ck_index ck"
  by (simp add: create_message_keys_def)

lemma chain_skipped_simps [simp]:
  "sk_ratchet_key (chain_skipped rk ck j) = rk"
  "mk_index (sk_message_key (chain_skipped rk ck j)) = ck_index ck + of_nat j"
  by (simp_all add: chain_skipped_def chain_index)

lemma of_nat_u32_eq: "i < 2 ^ 32 \<Longrightarrow> j < 2 ^ 32 \<Longrightarrow> ((of_nat i :: u32) = of_nat j) = (i = j)"
  using unat_of_nat_u32 [of i] unat_of_nat_u32 [of j] by metis

lemma later_skipped:
  "map (chain_skipped rk ((advance_chain_key ^^ h) ck)) [0..<n] = map (chain_skipped rk ck) [h..<h + n]"
proof -
  have "[h..<h + n] = map ((+) h) [0..<n]" by (rule nth_equalityI) auto
  then show ?thesis by (simp add: chain_skipped_def comp_def funpow_add add.commute)
qed

definition message_at :: "bytes \<Rightarrow> bytes \<Rightarrow> ChainKey \<Rightarrow> nat \<Rightarrow> bytes \<Rightarrow> bytes" where
  "message_at cipher rk ck i pt =
     ratchet_message cipher rk (create_message_keys ((advance_chain_key ^^ i) ck)) pt"

lemma fits_chain_skipped:
  "i < 2 ^ 32 \<Longrightarrow> j < 2 ^ 32 \<Longrightarrow> fits rk (ck_index ck + of_nat i) (chain_skipped rk ck j) = (j = i)"
  by (auto simp: fits_def of_nat_u32_eq)

lemma advance_later: "h \<le> i \<Longrightarrow> (advance_chain_key ^^ (i - h)) ((advance_chain_key ^^ h) ck) = (advance_chain_key ^^ i) ck"
  by (simp flip: funpow_add comp_apply [of "advance_chain_key ^^ (i - h)"])

lemma index_below:
  "unat (ck_index ck) + h < 2 ^ 32 \<Longrightarrow> i < h \<Longrightarrow> ck_index ck + of_nat i < ck_index ck + of_nat h"
  by (simp add: word_less_nat_alt unat_word_ariths unat_of_nat_u32)

lemma window_repeated:
  assumes "window rk ck got h r" "i \<in> got" "length rk = 32" "unat (ck_index ck) + h < 2 ^ 32"
    and "delivery m inp n p max_len (message_at (ratchet_cipher r) rk ck i pt) pt"
  shows "\<exists>r'. ratchet_decrypt P r m inp n p max_len is_seq = (r', m, None) \<and>
    window rk ck got h r' \<and> ratchet_cipher r' = ratchet_cipher r"
proof -
  let ?key = "create_message_keys ((advance_chain_key ^^ i) ck)"
  from assms(1) obtain cs js others where w: "got \<subseteq> {..<h}"
    "receiver_chains r = \<lparr>rc_ratchet_key = rk, rc_chain_key = (advance_chain_key ^^ h) ck\<rparr> # cs"
    "skipped_message_keys r = map (chain_skipped rk ck) js @ others"
    "set js = {..<h} - got" "\<forall>k \<in> set others. sk_ratchet_key k \<noteq> rk"
    unfolding window_def by blast
  have i: "i < h" using w(1) assms(2) by auto
  have old: "\<not> fits rk (mk_index ?key) (chain_skipped rk ck j)" if "j \<in> set js" for j
    using that w(4) assms(2,4) i fits_chain_skipped [of i j rk ck] by (auto simp: chain_index)
  have "\<not> fits rk (mk_index ?key) k" if "k \<in> set (skipped_message_keys r)" for k
  proof -
    from that w(3) consider j where "j \<in> set js" "k = chain_skipped rk ck j" | "k \<in> set others" by auto
    then show ?thesis by cases (use old w(5) in \<open>auto simp: fits_def\<close>)
  qed
  then have "ratchet_decrypt P r m inp n p max_len is_seq =
      (r\<lparr>r_last_error := OLM_ALREADY_DECRYPTED_OR_KEYS_SKIPPED\<rparr>, m, None)"
    using index_below [OF assms(4) i] w(2) assms(5) [unfolded message_at_def]
    by (intro decrypt_again [OF assms(3), of _ _ _ _ _ _ ?key pt 0]) (simp_all add: chain_index)
  with assms(1) show ?thesis by (simp add: window_def)
qed

lemma window_skipped:
  assumes "window rk ck got h r" "i < h" "i \<notin> got" "length rk = 32" "unat (ck_index ck) + h < 2 ^ 32"
    and "delivery m inp n p max_len (message_at (ratchet_cipher r) rk ck i pt) pt"
  shows "\<exists>r' w. ratchet_decrypt P r m inp n p max_len is_seq = (r', store m p (pt @ w), Some (length pt)) \<and>
    window rk ck (Set.insert i got) h r' \<and> ratchet_cipher r' = ratchet_cipher r"
proof -
  let ?key = "create_message_keys ((advance_chain_key ^^ i) ck)"
  from assms(1) obtain cs js others where w: "got \<subseteq> {..<h}"
    "receiver_chains r = \<lparr>rc_ratchet_key = rk, rc_chain_key = (advance_chain_key ^^ h) ck\<rparr> # cs"
    "skipped_message_keys r = map (chain_skipped rk ck) js @ others" "distinct js"
    "set js = {..<h} - got" "\<forall>k \<in> set others. sk_ratchet_key k \<noteq> rk"
    "length (skipped_message_keys r) \<le> MAX_SKIPPED_MESSAGE_KEYS"
    unfolding window_def by blast
  then obtain ja jb where js: "js = ja @ i # jb" using assms(2,3) by (metis DiffI lessThan_iff split_list)
  have "i \<notin> set ja" "set ja \<subseteq> {..<h}" using w(4,5) js by auto
  then have "\<not> fits rk (mk_index ?key) (chain_skipped rk ck j)" if "j \<in> set ja" for j
    using that assms(2,5) fits_chain_skipped [of i j rk ck] by (auto simp: chain_index)
  then have "\<forall>k \<in> set (map (chain_skipped rk ck) ja). \<not> fits rk (mk_index ?key) k" by simp
  moreover have "skipped_message_keys r = map (chain_skipped rk ck) ja @
      \<lparr>sk_ratchet_key = rk, sk_message_key = ?key\<rparr> # map (chain_skipped rk ck) jb @ others"
    using w(3) by (simp add: js chain_skipped_def)
  ultimately obtain w' where "ratchet_decrypt P r m inp n p max_len is_seq =
      (r\<lparr>skipped_message_keys := map (chain_skipped rk ck) (ja @ jb) @ others\<rparr>,
       store m p (pt @ w'), Some (length pt))"
    using index_below [OF assms(5,2)] w(2)
      decrypt_with_skipped_key [OF assms(4) assms(6) [unfolded message_at_def], of 0
        "map (chain_skipped rk ck) ja" "map (chain_skipped rk ck) jb @ others" P is_seq]
    by (auto simp: chain_index)
  moreover have "window rk ck (Set.insert i got) h
      (r\<lparr>skipped_message_keys := map (chain_skipped rk ck) (ja @ jb) @ others\<rparr>)"
    unfolding window_def
  proof (intro conjI exI)
    show "set (ja @ jb) = {..<h} - Set.insert i got" using w(4,5) js by auto
  qed (use w js assms(2) in auto)
  ultimately show ?thesis by auto
qed

lemma window_ahead:
  assumes "window rk ck got h r" "h \<le> i" "i \<le> MAX_SKIPPED_MESSAGE_KEYS" "length rk = 32"
    and "unat (ck_index ck) + i < 2 ^ 32"
    and "delivery m inp n p max_len (message_at (ratchet_cipher r) rk ck i pt) pt"
  shows "\<exists>r' w. ratchet_decrypt P r m inp n p max_len False = (r', store m p (pt @ w), Some (length pt)) \<and>
    window rk ck (Set.insert i got) (Suc i) r' \<and> ratchet_cipher r' = ratchet_cipher r"
proof -
  let ?ck = "(advance_chain_key ^^ h) ck"
  from assms(1) obtain cs js others where w: "got \<subseteq> {..<h}"
    "receiver_chains r = \<lparr>rc_ratchet_key = rk, rc_chain_key = ?ck\<rparr> # cs"
    "skipped_message_keys r = map (chain_skipped rk ck) js @ others" "distinct js"
    "set js = {..<h} - got" "\<forall>k \<in> set others. sk_ratchet_key k \<noteq> rk"
    "length (skipped_message_keys r) \<le> MAX_SKIPPED_MESSAGE_KEYS"
    unfolding window_def by blast
  have idx: "unat (ck_index ?ck) + (i - h) < 2 ^ 32"
    using assms(2,5) by (simp add: chain_index unat_word_ariths unat_of_nat_u32)
  let ?r' = "accept_on_chain r 0 (ck_index ?ck + of_nat (i - h))"
  note ahead = decrypt_on_chain [OF assms(4) assms(6) [unfolded message_at_def],
      where i = 0 and k = "i - h" and ck = ?ck and P = P and is_seq = False]
  have "\<exists>w. ratchet_decrypt P r m inp n p max_len False = (?r', store m p (pt @ w), Some (length pt))"
    by (rule ahead) (use idx assms(3) in \<open>simp_all add: w(2) advance_later [OF assms(2)] MAX_SKIPPED_MESSAGE_KEYS_def\<close>)
  then obtain w' where dec: "ratchet_decrypt P r m inp n p max_len False = (?r', store m p (pt @ w'), Some (length pt))"
    by blast
  have "card (set js) \<le> card {..<h}" using w(5) by (intro card_mono) auto
  then have len: "length js \<le> h" using w(4) by (simp add: distinct_card)
  define js' where "js' = rev [h..<i] @ js"
  let ?others = "take (MAX_SKIPPED_MESSAGE_KEYS - length js') others"
  let ?r'' = "r
      \<lparr>receiver_chains := \<lparr>rc_ratchet_key = rk, rc_chain_key = (advance_chain_key ^^ Suc i) ck\<rparr> # cs,
       skipped_message_keys := map (chain_skipped rk ck) js' @ ?others\<rparr>"
  have "store_skipped rk ?ck (ck_index ?ck + of_nat (i - h)) (skipped_message_keys r) =
      ((advance_chain_key ^^ (i - h)) ?ck,
       map (chain_skipped rk ck) js' @ take (MAX_SKIPPED_MESSAGE_KEYS - length js') others)"
    using store_skipped_add [OF idx w(7), of rk] len assms(2,3) later_skipped [of rk h ck "i - h"]
    by (simp add: w(3) js'_def rev_map)
  moreover have "advance_chain_key ((advance_chain_key ^^ (i - h)) ?ck) = (advance_chain_key ^^ Suc i) ck"
    by (simp add: advance_later [OF assms(2)])
  ultimately have acc: "?r' = ?r''"
    by (simp add: accept_on_chain_def w(2))
  have "window rk ck (Set.insert i got) (Suc i) ?r'"
    unfolding window_def acc
  proof (intro conjI exI)
    show "set js' = {..<Suc i} - Set.insert i got" using w(1,5) assms(2) by (auto simp: js'_def)
    have "length js' \<le> MAX_SKIPPED_MESSAGE_KEYS" using len assms(2,3) by (simp add: js'_def)
    then show "length (skipped_message_keys ?r'') \<le> MAX_SKIPPED_MESSAGE_KEYS" by simp
    show "\<forall>k \<in> set ?others. sk_ratchet_key k \<noteq> rk" using w(6) by (auto dest: in_set_takeD)
  qed (use w assms(2) in \<open>auto simp: js'_def\<close>)
  with dec show ?thesis by (auto simp: acc)
qed

fun send_messages :: "crypto_prims \<Rightarrow> Ratchet \<Rightarrow> bytes list \<Rightarrow> bytes list" where
  "send_messages P s [] = []"
| "send_messages P s (pt # pts) =
     (let n = ratchet_encrypt_output_length s (length pt);
          (s, m, _) = ratchet_encrypt P s pt [] (\<lambda>_. 0) 0 n
      in load m 0 n # send_messages P s pts)"

fun receive_messages :: "crypto_prims \<Rightarrow> nat \<Rightarrow> Ratchet \<Rightarrow> bytes list \<Rightarrow> bytes option list" where
  "receive_messages P max_len r [] = []"
| "receive_messages P max_len r (msg # msgs) =
     (let (r, m, result) = ratchet_decrypt P r (store (\<lambda>_. 0) max_len msg) max_len (length msg) 0 max_len False
      in map_option (load m 0) result # receive_messages P max_len r msgs)"

text \<open>The promise: a message decrypts the first time it arrives and is refused afterwards.\<close>

fun first_arrivals :: "bytes list \<Rightarrow> nat set \<Rightarrow> nat list \<Rightarrow> bytes option list" where
  "first_arrivals pts seen [] = []"
| "first_arrivals pts seen (i # is) =
     (if i \<in> seen then None else Some (pts ! i)) # first_arrivals pts (Set.insert i seen) is"

lemma send_messages_eq:
  "sender_chain s = [\<lparr>sc_ratchet_key = t, sc_chain_key = (advance_chain_key ^^ k) ck\<rparr>] \<Longrightarrow>
     length (curve_public t) = 32 \<Longrightarrow>
     send_messages P s pts =
       map (\<lambda>i. message_at (ratchet_cipher s) (curve_public t) ck (k + i) (pts ! i)) [0..<length pts]"
proof (induction pts arbitrary: s k)
  case (Cons pt pts)
  let ?n = "ratchet_encrypt_output_length s (length pt)"
  have chain: "start_sender_chain P s [] = s" using Cons.prems(1) by (simp add: start_sender_chain_def)
  obtain m where "ratchet_encrypt P s pt [] (\<lambda>_. 0) 0 ?n = (sent s, m, Some ?n)"
    "load m 0 ?n = next_message s pt"
    using ratchet_encrypt_eq [of s "[]" pt ?n P "\<lambda>_. 0" 0] Cons.prems
    by (auto simp: chain ratchet_encrypt_random_length_def)
  moreover have "next_message s pt = message_at (ratchet_cipher s) (curve_public t) ck (k + 0) pt"
    using Cons.prems(1) by (simp add: next_message_def message_at_def)
  moreover have "send_messages P (sent s) pts =
      map (\<lambda>i. message_at (ratchet_cipher s) (curve_public t) ck (Suc k + i) (pts ! i)) [0..<length pts]"
    using Cons.IH [of "sent s" "Suc k"] Cons.prems by (simp add: sent_def)
  ultimately show ?case
    by (simp add: Let_def upt_conv_Cons comp_def del: upt_Suc flip: map_Suc_upt)
qed simp

lemma delivery_at_end:
  "aes_sha_256_cipher_encrypt_ciphertext_length (length pt) \<le> max_len \<Longrightarrow> max_len < 2 ^ 64 \<Longrightarrow>
     delivery (store (\<lambda>_. 0) max_len msg) max_len (length msg) 0 max_len msg pt"
  by (simp add: delivery_def load_store_same)

lemma receive_in_window:
  fixes cipher rk ck
  assumes "length rk = 32" "max_len < 2 ^ 64" "length pts \<le> MAX_SKIPPED_MESSAGE_KEYS + 1"
    and "unat (ck_index ck) + length pts < 2 ^ 32"
    and "\<forall>pt \<in> set pts. aes_sha_256_cipher_encrypt_ciphertext_length (length pt) \<le> max_len"
  defines "msgs \<equiv> map (\<lambda>i. message_at cipher rk ck i (pts ! i)) [0..<length pts]"
  shows "window rk ck got h r \<Longrightarrow> ratchet_cipher r = cipher \<Longrightarrow> h \<le> length pts \<Longrightarrow> \<forall>i \<in> set is. i < length pts \<Longrightarrow>
    receive_messages P max_len r (map ((!) msgs) is) = first_arrivals pts got is"
proof (induction "is" arbitrary: r got h)
  case (Cons i "is")
  let ?msg = "message_at cipher rk ck i (pts ! i)" and ?m = "\<lambda>msg. store (\<lambda>_. 0) max_len msg"
  have i: "i < length pts" "msgs ! i = ?msg" using Cons.prems(4) by (simp_all add: msgs_def)
  have del: "delivery (?m ?msg) max_len (length ?msg) 0 max_len (message_at (ratchet_cipher r) rk ck i (pts ! i)) (pts ! i)"
    using delivery_at_end assms(2,5) i(1) Cons.prems(2) by simp
  have h: "unat (ck_index ck) + h < 2 ^ 32" using assms(4) Cons.prems(3) by simp
  show ?case
  proof (cases "i \<in> got")
    case True
    from window_repeated [OF Cons.prems(1) True assms(1) h del, of P False] obtain r' where r':
      "ratchet_decrypt P r (?m ?msg) max_len (length ?msg) 0 max_len False = (r', ?m ?msg, None)"
      "window rk ck got h r'" "ratchet_cipher r' = ratchet_cipher r" by blast
    have "receive_messages P max_len r' (map ((!) msgs) is) = first_arrivals pts got is"
      using Cons.prems r' by (intro Cons.IH) auto
    then show ?thesis using r'(1) True by (simp add: i(2) insert_absorb)
  next
    case new: False
    have "\<exists>r' w h'. ratchet_decrypt P r (?m ?msg) max_len (length ?msg) 0 max_len False =
        (r', store (?m ?msg) 0 (pts ! i @ w), Some (length (pts ! i))) \<and>
        window rk ck (Set.insert i got) h' r' \<and> ratchet_cipher r' = ratchet_cipher r \<and> h' \<le> length pts"
    proof (cases "i < h")
      case True
      from window_skipped [OF Cons.prems(1) True new assms(1) h del, of P False] Cons.prems(3)
      show ?thesis by blast
    next
      case False
      have "h \<le> i" "i \<le> MAX_SKIPPED_MESSAGE_KEYS" "unat (ck_index ck) + i < 2 ^ 32" "Suc i \<le> length pts"
        using False i(1) assms(3,4) by auto
      with window_ahead [OF Cons.prems(1) this(1,2) assms(1) this(3) del, of P] show ?thesis by blast
    qed
    then obtain r' w h' where r': "ratchet_decrypt P r (?m ?msg) max_len (length ?msg) 0 max_len False =
        (r', store (?m ?msg) 0 (pts ! i @ w), Some (length (pts ! i)))"
      "window rk ck (Set.insert i got) h' r'" "ratchet_cipher r' = ratchet_cipher r" "h' \<le> length pts"
      by blast
    have "receive_messages P max_len r' (map ((!) msgs) is) = first_arrivals pts (Set.insert i got) is"
      using Cons.prems r'(2-4) by (intro Cons.IH [where h = h']) auto
    then show ?thesis using r'(1) new load_plaintext [of _ 0 "pts ! i" w] by (simp add: i(2))
  qed
qed simp

text \<open>C21: The messages of a sending chain may arrive in any order, be lost and be repeated: each
  decrypts to its plaintext the first time it arrives, and a message that was decrypted before is
  refused, as long as the chain's messages in flight are at most one more than the keys of skipped
  messages the ratchet keeps.\<close>

theorem ratchet_any_order:
  assumes "dh_law P" "in_step P s r" "max_len < 2 ^ 64"
    and "\<forall>k \<in> set (skipped_message_keys r). sk_ratchet_key k \<noteq> curve_public (sc_ratchet_key (sender_chain s ! 0))"
    and "length (skipped_message_keys r) \<le> MAX_SKIPPED_MESSAGE_KEYS"
    and "length pts \<le> MAX_SKIPPED_MESSAGE_KEYS + 1"
    and "unat (ck_index (sc_chain_key (sender_chain s ! 0))) + length pts < 2 ^ 32"
    and "\<forall>pt \<in> set pts. aes_sha_256_cipher_encrypt_ciphertext_length (length pt) \<le> max_len"
    and "\<forall>i \<in> set is. i < length pts"
  shows "receive_messages P max_len r (map ((!) (send_messages P s pts)) is) = first_arrivals pts {} is"
proof -
  from assms(2) obtain t ck cs where st: "sender_chain s = [\<lparr>sc_ratchet_key = t, sc_chain_key = ck\<rparr>]"
    "generated P t" "receiver_chains r = \<lparr>rc_ratchet_key = curve_public t, rc_chain_key = ck\<rparr> # cs"
    "ratchet_cipher s = ratchet_cipher r"
    unfolding in_step_def by blast
  have rk: "length (curve_public t) = 32" by (rule length_generated [OF assms(1) st(2)])
  have "window (curve_public t) ck {} 0 r"
    using assms(4,5) st by (auto simp: window_def intro!: exI [of _ "[]"])
  from receive_in_window [OF rk assms(3,6) _ assms(8) this st(4) [symmetric] _ assms(9)] assms(7) st
  show ?thesis by (simp add: send_messages_eq [where k = 0 and t = t and ck = ck] rk)
qed

lemma ratchet_any_order_witness:
  "receive_messages sample_prims 16
     (initialise_as_bob (new_Ratchet \<lparr>root_info = [1], ratchet_info = [2]\<rparr> [3]) [4]
        (curve_public (olm_crypto_curve25519_generate_key sample_prims (replicate 32 1))))
     (map ((!) (send_messages sample_prims
         (initialise_as_alice (new_Ratchet \<lparr>root_info = [1], ratchet_info = [2]\<rparr> [3]) [4]
            (olm_crypto_curve25519_generate_key sample_prims (replicate 32 1))) [[5], [6, 7], []])) [2, 0, 2, 1, 0])
   = [Some [], Some [5], None, Some [6, 7], None]"
  using ratchet_any_order [OF sample_dh_law initialised_in_step [OF repeated_byte_key], of 16
      "\<lparr>root_info = [1], ratchet_info = [2]\<rparr>" "[3]" "[4]" 1 "[[5], [6, 7], []]" "[2, 0, 2, 1, 0]"]
  by (simp add: initialise_as_bob_def initialise_as_alice_def new_Ratchet_def list_insert_def
      aes_sha_256_cipher_encrypt_ciphertext_length_def olm_crypto_aes_encrypt_cbc_length_def
      MAX_SKIPPED_MESSAGE_KEYS_def split: prod.split)

end
