(* ===== verification/RatchetSafety.thy ===== *)
theory RatchetSafety
  imports RatchetProtocol
begin

text \<open>
  What every call of \<open>encrypt\<close> and \<open>decrypt\<close> of \<open>src/ratchet.cpp\<close> keeps, whatever message it is
  given: the sizes of arrays and lists, the memory around the buffers, and the state of a ratchet
  that refuses a message.
\<close>

section \<open>Sizes\<close>

lemma find_chain_index: "find_chain rk cs = Some i \<Longrightarrow> i < length cs \<and> rc_ratchet_key (cs ! i) = rk"
  by (induction cs arbitrary: i) (auto split: if_splits)

lemma wf_created_chain:
  "create_chain_key P root key rk info = (root', ck) \<Longrightarrow> length root' = 32 \<and> wf_ChainKey ck"
  by (auto simp: create_chain_key_def wf_ChainKey_def Let_def load_array_def OLM_SHARED_KEY_LENGTH_def)

lemma wf_generated: "dh_law P \<Longrightarrow> 32 \<le> length random \<Longrightarrow>
    wf_curve25519_key_pair (olm_crypto_curve25519_generate_key P random)"
  by (simp add: wf_curve25519_key_pair_def olm_crypto_curve25519_generate_key_def dh_law_def Let_def)

lemma wf_skipped_key [simp]:
  "length rk = 32 \<Longrightarrow> wf_SkippedMessageKey \<lparr>sk_ratchet_key = rk, sk_message_key = create_message_keys ck\<rparr>"
  by (simp add: wf_SkippedMessageKey_def create_message_keys_def)

lemma store_skipped_wf:
  assumes "length rk = 32" "store_skipped rk ck c sk = (ck', sk')" "wf_ChainKey ck"
    and "length sk \<le> MAX_SKIPPED_MESSAGE_KEYS" "\<forall>k \<in> set sk. wf_SkippedMessageKey k"
  shows "wf_ChainKey ck' \<and> length sk' \<le> MAX_SKIPPED_MESSAGE_KEYS \<and> (\<forall>k \<in> set sk'. wf_SkippedMessageKey k)"
  using assms
proof (induction rk ck c sk arbitrary: ck' sk' rule: store_skipped.induct)
  case (1 rk ck c sk)
  let ?k = "\<lparr>sk_ratchet_key = rk, sk_message_key = create_message_keys ck\<rparr>"
  let ?sk = "list_insert MAX_SKIPPED_MESSAGE_KEYS sk 0 ?k"
  show ?case
  proof (cases "ck_index ck < c")
    case True
    have sk: "length ?sk \<le> MAX_SKIPPED_MESSAGE_KEYS" "\<forall>k \<in> set ?sk. wf_SkippedMessageKey k"
      using "1.prems" set_list_insert [of MAX_SKIPPED_MESSAGE_KEYS sk 0 ?k]
      by (auto simp: list_insert_front MAX_SKIPPED_MESSAGE_KEYS_def)
    have "store_skipped rk (advance_chain_key ck) c ?sk = (ck', sk')"
      using "1.prems"(2) True by (simp add: store_skipped.simps [of rk ck])
    from "1.IH" [OF True refl "1.prems"(1) this wf_advance_chain_key sk] show ?thesis .
  next
    case False
    then show ?thesis using "1.prems" by (simp add: store_skipped.simps [of rk ck])
  qed
qed

lemma wf_accept_on_chain:
  assumes "wf_Ratchet s" "i < length (receiver_chains s)"
  shows "wf_Ratchet (accept_on_chain s i c)"
proof -
  have chain: "wf_ReceiverChain (receiver_chains s ! i)" using assms by (simp add: wf_Ratchet_def)
  obtain ck sk where st: "store_skipped (rc_ratchet_key (receiver_chains s ! i))
      (rc_chain_key (receiver_chains s ! i)) c (skipped_message_keys s) = (ck, sk)" by fastforce
  have "wf_ChainKey ck \<and> length sk \<le> MAX_SKIPPED_MESSAGE_KEYS \<and> (\<forall>k \<in> set sk. wf_SkippedMessageKey k)"
    using store_skipped_wf [OF _ st] chain assms(1) by (simp add: wf_ReceiverChain_def wf_Ratchet_def)
  then show ?thesis
    using assms chain
    by (auto simp: accept_on_chain_def st wf_Ratchet_def wf_ReceiverChain_def
        dest!: set_update_subset_insert [THEN subsetD])
qed

lemma wf_accept_new_chain:
  assumes "wf_Ratchet s" "length rk = 32"
  shows "wf_Ratchet (accept_new_chain P s rk)"
proof -
  obtain root ck where new: "create_chain_key P (root_key s) (sc_ratchet_key (sender_chain s ! 0)) rk (kdf_info s)
      = (root, ck)" by fastforce
  have "length (list_erase (sender_chain s) 0) \<le> 1" "set (list_erase (sender_chain s) 0) \<subseteq> set (sender_chain s)"
    using assms(1) set_list_erase [of "sender_chain s" 0]
    by (auto simp: wf_Ratchet_def list_erase_def)
  then show ?thesis
    using assms wf_created_chain [OF new]
    by (auto simp: accept_new_chain_def new wf_Ratchet_def wf_ReceiverChain_def list_insert_front
        MAX_RECEIVER_CHAINS_def dest: in_set_takeD)
qed

lemma wf_start_sender_chain:
  assumes "dh_law P" "wf_Ratchet s" "ratchet_encrypt_random_length s \<le> length random"
  shows "wf_Ratchet (start_sender_chain P s random)"
proof (cases "sender_chain s = []")
  case True
  obtain root ck where new: "create_chain_key P (root_key s) (olm_crypto_curve25519_generate_key P random)
      (rc_ratchet_key (receiver_chains s ! 0)) (kdf_info s) = (root, ck)" by fastforce
  show ?thesis
    using True assms wf_created_chain [OF new] wf_generated [OF assms(1)]
    by (simp add: start_sender_chain_def new wf_Ratchet_def wf_SenderChain_def list_insert_def
        ratchet_encrypt_random_length_def CURVE25519_RANDOM_LENGTH_def)
qed (use assms in \<open>simp add: start_sender_chain_def\<close>)

lemma wf_sent: "wf_Ratchet s \<Longrightarrow> sender_chain s \<noteq> [] \<Longrightarrow> wf_Ratchet (sent s)"
  by (cases "sender_chain s") (auto simp: sent_def wf_Ratchet_def wf_SenderChain_def)

lemma wf_last_error [simp]: "wf_Ratchet (s\<lparr>r_last_error := e\<rparr>) = wf_Ratchet s"
  by (simp add: wf_Ratchet_def)

section \<open>The plaintext buffer\<close>

text \<open>
  The cipher writes whole blocks.  A ciphertext whose length is no multiple of 16 makes it write up
  to 15 bytes behind the plaintext.
\<close>

lemma length_cbc_decrypt_loop:
  "(\<And>b. length (D b) = 16) \<Longrightarrow> length (cbc_decrypt_loop D iv inp n) \<le> (if n = 0 then 0 else n + 15)"
proof (induction D iv inp n rule: cbc_decrypt_loop.induct)
  case (1 D iv inp n)
  show ?case
  proof (cases "n = 0")
    case False
    then have "length (cbc_decrypt_loop D (take 16 inp) (drop 16 inp) (n - 16))
        \<le> (if n - 16 = 0 then 0 else n - 16 + 15)"
      using 1 by simp
    with False show ?thesis
      by (subst cbc_decrypt_loop.simps) (simp add: Let_def "1.prems" split: if_splits)
  qed (simp add: cbc_decrypt_loop.simps)
qed

definition tagged :: "bytes \<Rightarrow> MessageKey \<Rightarrow> bytes \<Rightarrow> bool" where
  "tagged cipher key msg \<longleftrightarrow> (\<exists>b. msg = b @ cipher_tag cipher (mk_key key) b)"

lemma verify_mac_and_decrypt_result:
  assumes "verify_mac_and_decrypt cipher key m inp r p max_len = (m', res)"
  shows "\<exists>bs. m' = store m p bs \<and> length bs \<le> max_len + 15"
    and "res \<noteq> None \<Longrightarrow> tagged cipher key (load m inp (mr_input_length r))"
proof -
  let ?msg = "load m inp (mr_input_length r)"
  let ?b = "take (length ?msg - MAC_LENGTH) ?msg" and ?t = "drop (length ?msg - MAC_LENGTH) ?msg"
  let ?c = "load m (inp + the (mr_ciphertext r)) (mr_ciphertext_length r + 16)"
  have dec: "aes_sha_256_cipher_decrypt cipher (mk_key key) ?msg ?c (mr_ciphertext_length r) (m (p - 1)) max_len =
      (if length ?msg < MAC_LENGTH \<or> max_len < mr_ciphertext_length r \<or> ?t \<noteq> cipher_tag cipher (mk_key key) ?b
       then ([], None)
       else olm_crypto_aes_decrypt_cbc (m (p - 1)) (aes_key (derive_keys cipher (mk_key key)))
              (aes_iv (derive_keys cipher (mk_key key))) ?c (mr_ciphertext_length r))"
  proof (cases "length ?msg < MAC_LENGTH")
    case False
    then have "length ?t = MAC_LENGTH" by simp
    from cipher_decrypt_tag [OF this, of cipher "mk_key key" ?b] False show ?thesis by simp
  qed (simp add: aes_sha_256_cipher_decrypt_def)
  have cbc: "length (fst (olm_crypto_aes_decrypt_cbc before k iv ?c n)) \<le> n + 15" for before k iv n
    using length_cbc_decrypt_loop [of "\<lambda>b. aes_decrypt b (aes256_schedule k) 256" iv ?c n]
    by (auto simp: olm_crypto_aes_decrypt_cbc_def Let_def split: if_splits)
  have "length (fst (aes_sha_256_cipher_decrypt cipher (mk_key key) ?msg ?c (mr_ciphertext_length r)
      (m (p - 1)) max_len)) \<le> max_len + 15"
    unfolding dec by (auto intro: le_trans [OF cbc])
  then show "\<exists>bs. m' = store m p bs \<and> length bs \<le> max_len + 15"
    using assms by (auto simp: verify_mac_and_decrypt_def Let_def split: prod.splits)
  show "tagged cipher key ?msg" if "res \<noteq> None"
  proof -
    have "?t = cipher_tag cipher (mk_key key) ?b"
      using assms that dec by (auto simp: verify_mac_and_decrypt_def Let_def split: if_splits prod.splits)
    then show ?thesis unfolding tagged_def by (metis append_take_drop_id)
  qed
qed

lemma verify_mac_and_decrypt_outside:
  "verify_mac_and_decrypt cipher key m inp r p max_len = (m', res) \<Longrightarrow> unchanged_outside p (max_len + 15) m m'"
  using verify_mac_and_decrypt_result(1) by fastforce

section \<open>The cases of a decryption\<close>

text \<open>A skipped key that decrypts fits the message, and the message ends in its MAC under the key.\<close>

lemma try_skipped_result:
  assumes "try_skipped cipher m inp r p max_len sk i = (m', res)"
    and "p + (max_len + 15) \<le> inp \<or> inp + mr_input_length r \<le> p"
    and "the (mr_ratchet_key r) + 32 \<le> mr_input_length r"
  shows "unchanged_outside p (max_len + 15) m m' \<and> (\<forall>j n. res = Some (j, n) \<longrightarrow>
    i \<le> j \<and> j < i + length sk \<and> fits (reader_ratchet_key m inp r) (mr_counter r) (sk ! (j - i)) \<and>
    tagged cipher (sk_message_key (sk ! (j - i))) (load m inp (mr_input_length r)))"
  using assms(1)
proof (induction sk arbitrary: m i)
  case (Cons k sk)
  show ?case
  proof (cases "fits (reader_ratchet_key m inp r) (mr_counter r) k")
    case True
    obtain m1 res1 where v: "verify_mac_and_decrypt cipher (sk_message_key k) m inp r p max_len = (m1, res1)"
      by fastforce
    note out = verify_mac_and_decrypt_outside [OF v]
    show ?thesis
    proof (cases res1)
      case None
      then have "try_skipped cipher m1 inp r p max_len sk (Suc i) = (m', res)"
        using Cons.prems True v by (simp add: fits_def)
      note IH = Cons.IH [OF this]
      have "load m1 inp (mr_input_length r) = load m inp (mr_input_length r)"
        using assms(2) by (intro unchanged_outside_load [OF out]) auto
      moreover have "reader_ratchet_key m1 inp r = reader_ratchet_key m inp r"
        unfolding reader_ratchet_key_def CURVE25519_KEY_LENGTH_def
        using assms(2,3) by (intro unchanged_outside_load [OF out]) auto
      ultimately show ?thesis
        using IH unchanged_outside_trans [OF out] by (auto simp: nth_Cons' Suc_le_eq)
    next
      case (Some n)
      then have "m' = m1" "res = Some (i, n)" using Cons.prems True v by (simp_all add: fits_def)
      then show ?thesis using out True Some verify_mac_and_decrypt_result(2) [OF v] by simp
    qed
  next
    case False
    then have "try_skipped cipher m inp r p max_len sk (Suc i) = (m', res)"
      using Cons.prems by (auto simp: fits_def)
    from Cons.IH [OF this] show ?thesis by (auto simp: nth_Cons' Suc_le_eq)
  qed
qed simp

text \<open>The keys that may open a message with ratchet key \<open>rk\<close> and counter \<open>c\<close>.\<close>

definition candidate_key :: "crypto_prims \<Rightarrow> Ratchet \<Rightarrow> bytes \<Rightarrow> u32 \<Rightarrow> MessageKey \<Rightarrow> bool" where
  "candidate_key P s rk c key =
     (case find_chain rk (receiver_chains s) of
        Some i \<Rightarrow>
          let ck = rc_chain_key (receiver_chains s ! i)
          in if c < ck_index ck
             then key \<in> sk_message_key ` {k \<in> set (skipped_message_keys s). fits rk c k}
             else c - ck_index ck \<le> MAX_MESSAGE_GAP \<and> key = create_message_keys (advance_chain_to ck c)
      | None \<Rightarrow>
          let ck = snd (create_chain_key P (root_key s) (sc_ratchet_key (sender_chain s ! 0)) rk (kdf_info s))
          in sender_chain s \<noteq> [] \<and> c \<le> MAX_MESSAGE_GAP \<and> key = create_message_keys (advance_chain_to ck c))"

text \<open>
  What a decryption does to the ratchet: it fails and only the error code changes, it uses up a
  skipped key, it moves a chain on, or it starts a new one.
\<close>

inductive ratchet_step :: "crypto_prims \<Rightarrow> Ratchet \<Rightarrow> bytes \<Rightarrow> u32 \<Rightarrow> Ratchet \<Rightarrow> bool" for P s where
  use_skipped: "j < length (skipped_message_keys s) \<Longrightarrow>
     ratchet_step P s rk c (s\<lparr>skipped_message_keys := list_erase (skipped_message_keys s) j\<rparr>)"
| same_chain: "find_chain rk (receiver_chains s) = Some i \<Longrightarrow> ratchet_step P s rk c (accept_on_chain s i c)"
| new_chain: "find_chain rk (receiver_chains s) = None \<Longrightarrow> sender_chain s \<noteq> [] \<Longrightarrow>
     ratchet_step P s rk c (accept_on_chain (accept_new_chain P s rk) 0 c)"

definition refused :: "Ratchet \<Rightarrow> Ratchet \<Rightarrow> bool" where
  "refused s s' \<longleftrightarrow> r_last_error s' \<noteq> OLM_SUCCESS \<and> s' = s\<lparr>r_last_error := r_last_error s'\<rparr>"

lemma refused_error: "e \<noteq> OLM_SUCCESS \<Longrightarrow> refused s (s\<lparr>r_last_error := e\<rparr>)"
  by (simp add: refused_def)

lemma refused_failed: "refused s (ratchet_failed s e)"
  by (simp add: refused_def ratchet_failed_def)

lemma existing_chain_result:
  assumes "verify_mac_and_decrypt_for_existing_chain s ck m inp r p max_len e = (m', e', res)"
  shows "unchanged_outside p (max_len + 15) m m'"
    and "res \<noteq> None \<Longrightarrow> \<not> mr_counter r < ck_index ck \<and> mr_counter r - ck_index ck \<le> MAX_MESSAGE_GAP \<and>
      tagged (ratchet_cipher s) (create_message_keys (advance_chain_to ck (mr_counter r)))
        (load m inp (mr_input_length r))"
  using assms verify_mac_and_decrypt_outside verify_mac_and_decrypt_result(2)
  by (auto simp: verify_mac_and_decrypt_for_existing_chain_def Let_def not_less
      split: if_splits prod.splits)

lemma new_chain_result:
  assumes "verify_mac_and_decrypt_for_new_chain P s m inp r p max_len e = (m', e', res)"
  defines "ck \<equiv> snd (create_chain_key P (root_key s) (sc_ratchet_key (sender_chain s ! 0))
      (reader_ratchet_key m inp r) (kdf_info s))"
  shows "unchanged_outside p (max_len + 15) m m'"
    and "res \<noteq> None \<Longrightarrow> sender_chain s \<noteq> [] \<and> mr_counter r \<le> MAX_MESSAGE_GAP \<and>
      tagged (ratchet_cipher s) (create_message_keys (advance_chain_to ck (mr_counter r)))
        (load m inp (mr_input_length r))"
  using assms existing_chain_result
  by (auto simp: verify_mac_and_decrypt_for_new_chain_def Let_def not_less ck_def
      split: if_splits prod.splits)

lemma decrypt_with_chains_result:
  fixes s m inp r
  assumes "decrypt_with_chains P s m inp r p max_len is_seq = (s', m', res)"
    and "p + (max_len + 15) \<le> inp \<or> inp + mr_input_length r \<le> p"
    and "the (mr_ratchet_key r) + 32 \<le> mr_input_length r"
  defines "rk \<equiv> reader_ratchet_key m inp r" and "c \<equiv> mr_counter r"
  shows "unchanged_outside p (max_len + 15) m m'"
    and "res = None \<Longrightarrow> refused s s'"
    and "res \<noteq> None \<Longrightarrow> ratchet_step P s rk c s' \<and>
      (\<exists>key. candidate_key P s rk c key \<and> tagged (ratchet_cipher s) key (load m inp (mr_input_length r)))"
proof -
  have "unchanged_outside p (max_len + 15) m m' \<and> (res = None \<longrightarrow> refused s s') \<and>
    (res \<noteq> None \<longrightarrow> ratchet_step P s rk c s' \<and>
      (\<exists>key. candidate_key P s rk c key \<and> tagged (ratchet_cipher s) key (load m inp (mr_input_length r))))"
  proof (cases "find_chain rk (receiver_chains s)")
    case None
    obtain m1 e1 res1 where new: "verify_mac_and_decrypt_for_new_chain P s m inp r p max_len (r_last_error s)
        = (m1, e1, res1)" by (cases "verify_mac_and_decrypt_for_new_chain P s m inp r p max_len (r_last_error s)")
    note result = new_chain_result [OF new]
    have key: "reader_ratchet_key m1 inp r = rk"
      unfolding rk_def reader_ratchet_key_def CURVE25519_KEY_LENGTH_def
      using assms(2,3) by (intro unchanged_outside_load [OF result(1)]) auto
    show ?thesis
      using assms(1) None new key result
      by (cases res1) (auto simp: decrypt_with_chains_def rk_def [symmetric] c_def candidate_key_def Let_def
          intro: refused_failed new_chain)
  next
    case (Some i)
    let ?ck = "rc_chain_key (receiver_chains s ! i)"
    consider (order) "is_seq" "ck_index ?ck < c" | (old) "\<not> (is_seq \<and> ck_index ?ck < c)" "c < ck_index ?ck"
      | (ahead) "\<not> (is_seq \<and> ck_index ?ck < c)" "\<not> c < ck_index ?ck" by blast
    then show ?thesis
    proof cases
      case order
      then show ?thesis
        using assms(1) Some
        by (auto simp: decrypt_with_chains_def rk_def c_def intro: refused_error)
    next
      case old
      obtain m1 res1 where sk: "try_skipped (ratchet_cipher s) m inp r p max_len (skipped_message_keys s) 0 = (m1, res1)"
        by fastforce
      show ?thesis
        using assms(1) Some old sk try_skipped_result [OF sk assms(2,3)] nth_mem [of _ "skipped_message_keys s"]
        by (cases res1) (auto simp: decrypt_with_chains_def rk_def [symmetric] c_def [symmetric] candidate_key_def
            intro: refused_error use_skipped nth_mem)
    next
      case ahead
      obtain m1 e1 res1 where v: "verify_mac_and_decrypt_for_existing_chain s ?ck m inp r p max_len (r_last_error s)
          = (m1, e1, res1)" by (cases "verify_mac_and_decrypt_for_existing_chain s ?ck m inp r p max_len (r_last_error s)")
      show ?thesis
        using assms(1) Some ahead v existing_chain_result [OF v]
        by (cases res1) (auto simp: decrypt_with_chains_def rk_def [symmetric] c_def [symmetric] candidate_key_def Let_def
            intro: refused_failed same_chain)
    qed
  qed
  then show "unchanged_outside p (max_len + 15) m m'" "res = None \<Longrightarrow> refused s s'"
    "res \<noteq> None \<Longrightarrow> ratchet_step P s rk c s' \<and>
      (\<exists>key. candidate_key P s rk c key \<and> tagged (ratchet_cipher s) key (load m inp (mr_input_length r)))"
    by blast+
qed

lemma decode_message_length: "mr_input_length (decode_message input mac_length) = length input"
proof -
  have fields: "message_fields c r = (c', r') \<Longrightarrow> mr_input_length r' = mr_input_length r" for c r c' r'
    by (auto simp: message_fields_def Let_def split: prod.splits)
  have "mr_input_length (decode_message_loop c r) = mr_input_length r" for c r
    by (induction c r rule: decode_message_loop.induct)
      (subst decode_message_loop.simps, auto simp: Let_def split: prod.splits dest!: fields)
  then show ?thesis by (simp add: decode_message_def Let_def)
qed

definition checks_passed :: "MessageReader \<Rightarrow> bool" where
  "checks_passed r \<longleftrightarrow> mr_version r = PROTOCOL_VERSION \<and> mr_has_counter r \<and> mr_ratchet_key r \<noteq> None
     \<and> mr_ratchet_key_length r = 32 \<and> mr_ciphertext r \<noteq> None"

lemma ratchet_decrypt_result:
  fixes s m inp n
  assumes "ratchet_decrypt P s m inp n p max_len is_seq = (s', m', res)"
    and "p + (max_len + 15) \<le> inp \<or> inp + n \<le> p"
  defines "r \<equiv> decode_message (load m inp n) aes_sha_256_cipher_mac_length"
  defines "rk \<equiv> reader_ratchet_key m inp r" and "c \<equiv> mr_counter r"
  shows "unchanged_outside p (max_len + 15) m m'"
    and "res = None \<Longrightarrow> refused s s'"
    and "res \<noteq> None \<Longrightarrow> ratchet_step P s rk c s' \<and>
      (\<exists>key. candidate_key P s rk c key \<and> tagged (ratchet_cipher s) key (load m inp n))"
proof -
  have r: "decode_message (load m inp n) 8 = r" by (simp add: r_def)
  have len: "mr_input_length r = n" by (simp add: r_def decode_message_length)
  have "unchanged_outside p (max_len + 15) m m' \<and> (res = None \<longrightarrow> refused s s') \<and>
    (res \<noteq> None \<longrightarrow> ratchet_step P s rk c s' \<and>
      (\<exists>key. candidate_key P s rk c key \<and> tagged (ratchet_cipher s) key (load m inp n)))"
  proof (cases "checks_passed r \<and> mr_ciphertext_length r \<le> max_len")
    case True
    then have "decrypt_with_chains P s m inp r p max_len is_seq = (s', m', res)"
      using assms(1) by (auto simp: ratchet_decrypt_def r checks_passed_def CURVE25519_KEY_LENGTH_def Let_def
        aes_sha_256_cipher_decrypt_max_plaintext_length_def)
    moreover have "the (mr_ratchet_key r) + 32 \<le> n"
      using decode_message_inside [of "load m inp n" aes_sha_256_cipher_mac_length] True
      by (auto simp: r checks_passed_def reader_inside_def inside_def)
    ultimately show ?thesis
      using decrypt_with_chains_result [of P s m inp r p max_len is_seq s' m' res] assms(2)
      unfolding rk_def c_def len by blast
  next
    case False
    with assms(1) show ?thesis
      by (auto simp: ratchet_decrypt_def r checks_passed_def CURVE25519_KEY_LENGTH_def Let_def not_le
        aes_sha_256_cipher_decrypt_max_plaintext_length_def intro: refused_error split: if_splits)
  qed
  then show "unchanged_outside p (max_len + 15) m m'" "res = None \<Longrightarrow> refused s s'"
    "res \<noteq> None \<Longrightarrow> ratchet_step P s rk c s' \<and>
      (\<exists>key. candidate_key P s rk c key \<and> tagged (ratchet_cipher s) key (load m inp n))"
    by blast+
qed

section \<open>Every reachable ratchet\<close>

text \<open>
  The sizes are right, and there is a chain to send on or a received key to start one from, which
  \<open>encrypt\<close> reads without looking.
\<close>

definition usable :: "Ratchet \<Rightarrow> bool" where
  "usable s \<longleftrightarrow> wf_Ratchet s \<and> (sender_chain s \<noteq> [] \<or> receiver_chains s \<noteq> [])"

text \<open>The plaintext buffer of a decryption, with 15 bytes behind it, is apart from the message.\<close>

inductive reachable_ratchet :: "crypto_prims \<Rightarrow> Ratchet \<Rightarrow> bool" for P where
  alice: "wf_curve25519_key_pair key \<Longrightarrow>
     reachable_ratchet P (initialise_as_alice (new_Ratchet info cipher) secret key)"
| bob: "length rk = 32 \<Longrightarrow>
     reachable_ratchet P (initialise_as_bob (new_Ratchet info cipher) secret rk)"
| encrypts: "reachable_ratchet P s \<Longrightarrow>
     reachable_ratchet P (fst (ratchet_encrypt P s plaintext random m out max_out))"
| decrypts: "reachable_ratchet P s \<Longrightarrow> p + (max_len + 15) \<le> inp \<or> inp + n \<le> p \<Longrightarrow>
     reachable_ratchet P (fst (ratchet_decrypt P s m inp n p max_len is_seq))"
| asks_length: "reachable_ratchet P s \<Longrightarrow>
     reachable_ratchet P (fst (ratchet_decrypt_max_plaintext_length s input))"

lemma usable_last_error [simp]: "usable (s\<lparr>r_last_error := e\<rparr>) = usable s"
  by (simp add: usable_def)

lemma usable_initialised:
  "wf_curve25519_key_pair key \<Longrightarrow> usable (initialise_as_alice (new_Ratchet info cipher) secret key)"
  "length rk = 32 \<Longrightarrow> usable (initialise_as_bob (new_Ratchet info cipher) secret rk)"
  by (auto simp: usable_def wf_Ratchet_def wf_SenderChain_def wf_ReceiverChain_def wf_ChainKey_def
      initialise_as_alice_def initialise_as_bob_def new_Ratchet_def list_insert_def Let_def
      load_array_def OLM_SHARED_KEY_LENGTH_def MAX_RECEIVER_CHAINS_def)

lemma ratchet_encrypt_state:
  "fst (ratchet_encrypt P s plaintext random m out max_out) =
     (if length random < ratchet_encrypt_random_length s then s\<lparr>r_last_error := OLM_NOT_ENOUGH_RANDOM\<rparr>
      else if max_out < ratchet_encrypt_output_length s (length plaintext)
      then s\<lparr>r_last_error := OLM_OUTPUT_BUFFER_TOO_SMALL\<rparr>
      else sent (start_sender_chain P s random))"
  by (simp add: ratchet_encrypt_def Let_def sent_def split: prod.split)

lemma usable_encrypts:
  assumes "dh_law P" "usable s"
  shows "usable (fst (ratchet_encrypt P s plaintext random m out max_out))"
proof -
  have "usable (sent (start_sender_chain P s random))"
    if "ratchet_encrypt_random_length s \<le> length random"
    using wf_sent [OF wf_start_sender_chain [OF assms(1) _ that]] assms(2)
    by (simp add: usable_def sent_def)
  then show ?thesis by (simp add: ratchet_encrypt_state assms(2))
qed

lemma usable_step: "ratchet_step P s rk c s' \<Longrightarrow> length rk = 32 \<Longrightarrow> usable s \<Longrightarrow> usable s'"
proof (induction rule: ratchet_step.induct)
  case (use_skipped j rk c)
  then show ?case
    using set_list_erase [of "skipped_message_keys s" j] length_list_erase [of j "skipped_message_keys s"]
    by (auto simp: usable_def wf_Ratchet_def)
next
  case (same_chain rk i c)
  then show ?case
    using wf_accept_on_chain [of s i c] find_chain_index [of rk "receiver_chains s" i]
    by (auto simp: usable_def accept_on_chain_def Let_def split: prod.splits)
next
  case (new_chain rk c)
  let ?s = "accept_new_chain P s rk"
  have "receiver_chains ?s \<noteq> []"
    by (simp add: accept_new_chain_def list_insert_front MAX_RECEIVER_CHAINS_def split: prod.split)
  then show ?case
    using wf_accept_on_chain [of ?s 0 c] wf_accept_new_chain [of s rk P] new_chain
    by (auto simp: usable_def accept_on_chain_def Let_def split: prod.splits)
qed

lemma usable_decrypts:
  assumes "usable s" "p + (max_len + 15) \<le> inp \<or> inp + n \<le> p"
  shows "usable (fst (ratchet_decrypt P s m inp n p max_len is_seq))"
proof -
  obtain s' m' res where d: "ratchet_decrypt P s m inp n p max_len is_seq = (s', m', res)"
    by (cases "ratchet_decrypt P s m inp n p max_len is_seq")
  note result = ratchet_decrypt_result [OF d assms(2)]
  show ?thesis
  proof (cases "res = None")
    case True
    then have "s' = s\<lparr>r_last_error := r_last_error s'\<rparr>" using result(2) by (simp add: refused_def)
    then show ?thesis using assms(1) d by (metis fst_conv usable_last_error)
  next
    case False
    with result(3) usable_step assms(1) have "usable s'"
      by (metis length_load reader_ratchet_key_def CURVE25519_KEY_LENGTH_def)
    then show ?thesis by (simp add: d)
  qed
qed

lemma usable_asks_length: "usable s \<Longrightarrow> usable (fst (ratchet_decrypt_max_plaintext_length s input))"
  by (simp add: ratchet_decrypt_max_plaintext_length_def Let_def)

text \<open>C23: In every state that calls of the ratchet can reach, whatever messages they are given and
  whether they succeed or fail, the arrays have their sizes, there is at most one sending chain, at
  most five receiving chains and at most forty skipped keys, and there is a sending chain or a
  receiving chain, so that encryption always has what it needs to start a chain.\<close>

theorem reachable_ratchets_usable:
  assumes "dh_law P" "reachable_ratchet P s"
  shows "usable s"
  using assms(2)
  by (induction rule: reachable_ratchet.induct)
    (simp_all add: usable_initialised usable_encrypts [OF assms(1)] usable_decrypts usable_asks_length)

lemma reachable_ratchets_usable_witness:
  "usable (fst (ratchet_decrypt sample_prims (fst (ratchet_encrypt sample_prims
     (initialise_as_bob (new_Ratchet \<lparr>root_info = [1], ratchet_info = [2]\<rparr> [3]) [4] (replicate 32 7))
     [5] (replicate 32 1) (\<lambda>_. 0) 0 100)) (\<lambda>_. 9) 100 20 0 16 True))"
  by (rule reachable_ratchets_usable [OF sample_dh_law]) (intro reachable_ratchet.intros, simp_all)

text \<open>C22: A message that decryption accepts ends in a MAC of everything in front of it, under a key the
  ratchet has for the message's ratchet key and counter: a kept key of a skipped message when the
  chain is past the counter, the key at the counter of the chain with that ratchet key when it is at
  most 2000 messages ahead, and otherwise a key of the new chain that the sender's ratchet key and
  our own agree on.\<close>

theorem ratchet_accepts_only_authentic:
  assumes "ratchet_decrypt P s m inp n p max_len is_seq = (s', m', Some len)"
    and "p + (max_len + 15) \<le> inp \<or> inp + n \<le> p"
  shows "\<exists>key. candidate_key P s (reader_ratchet_key m inp (decode_message (load m inp n) 8))
        (mr_counter (decode_message (load m inp n) 8)) key
      \<and> tagged (ratchet_cipher s) key (load m inp n)"
  using ratchet_decrypt_result(3) [OF assms] by (simp add: aes_sha_256_cipher_mac_length_def MAC_LENGTH_def)

definition sample_alice :: Ratchet where
  "sample_alice = initialise_as_alice (new_Ratchet \<lparr>root_info = [1], ratchet_info = [2]\<rparr> [3]) [4]
     (olm_crypto_curve25519_generate_key sample_prims (replicate 32 1))"

definition sample_bob :: Ratchet where
  "sample_bob = initialise_as_bob (new_Ratchet \<lparr>root_info = [1], ratchet_info = [2]\<rparr> [3]) [4]
     (curve_public (olm_crypto_curve25519_generate_key sample_prims (replicate 32 1)))"

lemma sample_in_step: "in_step sample_prims sample_alice sample_bob"
  unfolding sample_alice_def sample_bob_def by (rule initialised_in_step [OF repeated_byte_key])

lemma sample_delivery:
  "delivery (store (\<lambda>_. 0) 31 (next_message sample_alice [5])) 31 (length (next_message sample_alice [5])) 0 16
     (next_message sample_alice [5]) [5]"
  by (simp add: delivery_def load_store_same aes_sha_256_cipher_encrypt_ciphertext_length_def
      olm_crypto_aes_encrypt_cbc_length_def)

lemma ratchet_accepts_only_authentic_witness:
  "\<exists>rk c key. candidate_key sample_prims sample_bob rk c key
      \<and> tagged (ratchet_cipher sample_bob) key (next_message sample_alice [5])"
proof -
  let ?m = "store (\<lambda>_. 0) 31 (next_message sample_alice [5])"
  let ?n = "length (next_message sample_alice [5])"
  have load: "load ?m 31 ?n = next_message sample_alice [5]" by (simp add: load_store_same)
  from same_side_sends [OF sample_dh_law sample_in_step sample_delivery, of True] obtain s' m' where
    "ratchet_decrypt sample_prims sample_bob ?m 31 ?n 0 16 True = (s', m', Some 1)" by auto
  from ratchet_accepts_only_authentic [OF this] show ?thesis unfolding load by fastforce
qed

text \<open>C24: A decryption that fails leaves the ratchet as it was, except for the error code, which
  it sets; no call writes outside the plaintext buffer and the 15 bytes behind it, which whole blocks
  of a ciphertext of uneven length reach.\<close>

theorem ratchet_failure_is_clean:
  assumes "ratchet_decrypt P s m inp n p max_len is_seq = (s', m', res)"
    and "p + (max_len + 15) \<le> inp \<or> inp + n \<le> p"
  shows "unchanged_outside p (max_len + 15) m m' \<and>
    (res = None \<longrightarrow> r_last_error s' \<noteq> OLM_SUCCESS \<and> s' = s\<lparr>r_last_error := r_last_error s'\<rparr>)"
  using ratchet_decrypt_result(1,2) [OF assms] by (simp add: refused_def)

lemma ratchet_failure_is_clean_witness:
  "unchanged_outside 0 31 (\<lambda>_. 9) (fst (snd (ratchet_decrypt sample_prims sample_bob (\<lambda>_. 9) 100 20 0 16 True)))"
proof -
  obtain s' m' res where d: "ratchet_decrypt sample_prims sample_bob (\<lambda>_. 9) 100 20 0 16 True = (s', m', res)"
    by (cases "ratchet_decrypt sample_prims sample_bob (\<lambda>_. 9) 100 20 0 16 True")
  from ratchet_failure_is_clean [OF d] d show ?thesis by simp
qed

text \<open>On a chain the ratchet knows, a genuine message that is ahead of the chain is refused when
  the caller asks for messages in sequence, and one that is more than 2000 messages ahead is refused
  in any case; the ratchet does not move, and the error code says which of the two it was.\<close>

theorem ratchet_refuses_gaps:
  assumes "length rk = 32" "delivery m inp n p max_len (ratchet_message (ratchet_cipher s) rk key pt) pt"
    and "find_chain rk (receiver_chains s) = Some i"
    and "ck = rc_chain_key (receiver_chains s ! i)" "mk_index key = ck_index ck + of_nat k"
    and "unat (ck_index ck) + k < 2 ^ 32"
  shows "(is_seq \<and> 0 < k \<longrightarrow> ratchet_decrypt P s m inp n p max_len is_seq =
      (s\<lparr>r_last_error := OLM_MESSAGE_OUT_OF_ORDER\<rparr>, m, None)) \<and>
    (\<not> is_seq \<and> 2000 < k \<longrightarrow> ratchet_decrypt P s m inp n p max_len is_seq =
      (s\<lparr>r_last_error := OLM_MAX_MESSAGE_GAP_EXCEEDED\<rparr>, m, None))"
proof -
  have ahead: "0 < k \<longrightarrow> mk_index key > ck_index ck" "\<not> mk_index key < ck_index ck"
    "2000 < k \<longrightarrow> mk_index key - ck_index ck > MAX_MESSAGE_GAP"
    using assms(6)
    by (auto simp: assms(5) MAX_MESSAGE_GAP_def word_less_nat_alt unat_of_nat_u32 unat_word_ariths)
  from decrypt_own_reader [OF assms(1,2)] obtain r where r: "mr_counter r = mk_index key"
    "reader_ratchet_key m inp r = rk"
    "ratchet_decrypt P s m inp n p max_len is_seq = decrypt_with_chains P s m inp r p max_len is_seq"
    by metis
  show ?thesis
    using ahead unfolding r(3)
    by (auto simp: decrypt_with_chains_def r(1,2) assms(3) assms(4) [symmetric] Let_def
        verify_mac_and_decrypt_for_existing_chain_def ratchet_failed_def)
qed

lemma ratchet_refuses_gaps_witness:
  "ratchet_decrypt sample_prims sample_bob
     (store (\<lambda>_. 0) 31 (ratchet_message (ratchet_cipher sample_bob) (rc_ratchet_key (receiver_chains sample_bob ! 0))
        \<lparr>mk_index = 2001, mk_key = replicate 32 1\<rparr> [5])) 31
     (length (ratchet_message (ratchet_cipher sample_bob) (rc_ratchet_key (receiver_chains sample_bob ! 0))
        \<lparr>mk_index = 2001, mk_key = replicate 32 1\<rparr> [5])) 0 16 False
   = (sample_bob\<lparr>r_last_error := OLM_MAX_MESSAGE_GAP_EXCEEDED\<rparr>,
      store (\<lambda>_. 0) 31 (ratchet_message (ratchet_cipher sample_bob) (rc_ratchet_key (receiver_chains sample_bob ! 0))
        \<lparr>mk_index = 2001, mk_key = replicate 32 1\<rparr> [5]), None)"
proof -
  let ?rk = "rc_ratchet_key (receiver_chains sample_bob ! 0)"
  let ?key = "\<lparr>mk_index = 2001, mk_key = replicate 32 1\<rparr>"
  let ?msg = "ratchet_message (ratchet_cipher sample_bob) ?rk ?key [5]"
  have bob: "receiver_chains sample_bob \<noteq> []" "length ?rk = 32" "ck_index (rc_chain_key (receiver_chains sample_bob ! 0)) = 0"
    using length_generated [OF sample_dh_law repeated_byte_key]
    by (auto simp: sample_bob_def initialise_as_bob_def new_Ratchet_def list_insert_def MAX_RECEIVER_CHAINS_def
        split: prod.splits)
  have "delivery (store (\<lambda>_. 0) 31 ?msg) 31 (length ?msg) 0 16 ?msg [5]"
    by (simp add: delivery_def load_store_same aes_sha_256_cipher_encrypt_ciphertext_length_def
      olm_crypto_aes_encrypt_cbc_length_def)
  moreover have "find_chain ?rk (receiver_chains sample_bob) = Some 0"
    using bob(1) by (cases "receiver_chains sample_bob") auto
  ultimately show ?thesis
    using ratchet_refuses_gaps [OF bob(2), of "store (\<lambda>_. 0) 31 ?msg" 31 "length ?msg" 0 16 sample_bob ?key "[5]" 0
        "rc_chain_key (receiver_chains sample_bob ! 0)" 2001 False sample_prims] bob(3)
    by simp
qed

end
