(* ===== verification/SessionProtocol.thy ===== *)
theory SessionProtocol
  imports Session RatchetSafety
begin

text \<open>
  Both ends of a session of \<open>src/session.cpp\<close>: how the first message makes the other side's session,
  that the two sessions understand each other from then on, and what the agreed secret depends on.
\<close>

section \<open>Pre-key messages\<close>

definition pre_key_message :: "bytes \<Rightarrow> bytes \<Rightarrow> bytes \<Rightarrow> bytes \<Rightarrow> bytes \<Rightarrow> bytes" where
  "pre_key_message pk otk bk ik body =
     pre_key_message_header PROTOCOL_VERSION pk otk bk ik (length body) @ body"

definition wf_Session :: "Session \<Rightarrow> bool" where
  "wf_Session s \<longleftrightarrow> length (alice_identity_key s) = 32 \<and> length (alice_base_key s) = 32
     \<and> length (bob_one_time_key s) = 32 \<and> length (bob_prekey s) = 32"

lemma varint_length_32 [simp]: "varint_length (32 :: u64) = 1"
  by code_simp

lemma put_pre_key_header_eq:
  assumes "wf_Session s"
  shows "put_pre_key_header s m out n =
    (store m out (pre_key_message_header PROTOCOL_VERSION (bob_prekey s) (bob_one_time_key s)
        (alice_base_key s) (alice_identity_key s) n),
     out + length (pre_key_message_header PROTOCOL_VERSION (bob_prekey s) (bob_one_time_key s)
        (alice_base_key s) (alice_identity_key s) n))"
proof -
  have len: "length (bob_prekey s) = 32" "length (bob_one_time_key s) = 32" "length (alice_base_key s) = 32"
    "length (alice_identity_key s) = 32" using assms by (simp_all add: wf_Session_def)
  obtain m1 w where e: "encode_one_time_key_message m PROTOCOL_VERSION 32 32 32 32 n out = (m1, w)" by fastforce
  note enc = encode_pre_key_message_eq [of m PROTOCOL_VERSION "alice_identity_key s" "alice_base_key s" "bob_prekey s"
      "bob_one_time_key s" n out m1 w, unfolded len, OF e]
  have "store (store m1 (pw_one_time_key w) (bob_one_time_key s)) (pw_prekey w) (bob_prekey s) =
      store (store m1 (pw_prekey w) (bob_prekey s)) (pw_one_time_key w) (bob_one_time_key s)"
    using enc(3-6) len by (intro store_swap) simp
  moreover have "store (store m' (pw_identity_key w) (alice_identity_key s)) (pw_base_key w) (alice_base_key s) =
      store (store m' (pw_base_key w) (alice_base_key s)) (pw_identity_key w) (alice_identity_key s)" for m'
    using enc(3-6) len by (intro store_swap) simp
  ultimately show ?thesis
    by (simp add: put_pre_key_header_def CURVE25519_KEY_LENGTH_def e enc(1,2))
qed

lemma pre_key_reader:
  assumes "load m p n = pre_key_message pk otk bk ik body" "length body < 2 ^ 64"
    and "length pk = 32" "length otk = 32" "length bk = 32" "length ik = 32"
  defines "r \<equiv> decode_one_time_key_message (load m p n)"
  shows "check_message_fields r have" "pr_identity_key r \<noteq> None" "pr_prekey r \<noteq> None"
    and "field_at m p (pr_identity_key r) = ik" "field_at m p (pr_base_key r) = bk"
    and "field_at m p (pr_prekey r) = pk" "field_at m p (pr_one_time_key r) = otk"
    and "\<exists>k. pr_message r = Some k \<and> k + length body = n" "pr_message_length r = length body"
    and "load m (p + the (pr_message r)) (length body) = body"
proof -
  let ?h = "pre_key_message_header PROTOCOL_VERSION pk otk bk ik (length body)"
  have msg: "load m p n = ?h @ body" using assms(1) by (simp add: pre_key_message_def)
  have n: "n = length ?h + length body" using arg_cong [OF msg, of length] by simp
  have r: "r = \<lparr>pr_version = PROTOCOL_VERSION, pr_identity_key = Some 105, pr_identity_key_length = 32,
      pr_base_key = Some 71, pr_base_key_length = 32, pr_prekey = Some 3, pr_prekey_length = 32,
      pr_one_time_key = Some 37, pr_one_time_key_length = 32,
      pr_message = Some (length ?h), pr_message_length = length body\<rparr>"
    using decode_pre_key_message_encoded [of pk otk bk ik body PROTOCOL_VERSION] assms(2-6)
    by (simp add: r_def msg)
  show "check_message_fields r have" "pr_identity_key r \<noteq> None" "pr_prekey r \<noteq> None"
    "pr_message_length r = length body" "\<exists>k. pr_message r = Some k \<and> k + length body = n"
    using n by (simp_all add: r check_message_fields_def CURVE25519_KEY_LENGTH_def)
  have at: "load m (p + k) l = take l (drop k (?h @ body))" if "k + l \<le> n" for k l
    using that by (simp add: msg [symmetric] drop_load take_load min_absorb2)
  show "load m (p + the (pr_message r)) (length body) = body"
    using at [of "length ?h" "length body"] n by (simp add: r)
  have "137 \<le> n" using n assms(3-6) by (simp add: pre_key_message_header_def varstring_length_def)
  then show "field_at m p (pr_identity_key r) = ik" "field_at m p (pr_base_key r) = bk"
    "field_at m p (pr_prekey r) = pk" "field_at m p (pr_one_time_key r) = otk"
    using assms(3-6)
    by (simp_all add: r field_at_def CURVE25519_KEY_LENGTH_def at pre_key_message_header_def string_field_def)
qed

section \<open>Encryption\<close>

text \<open>What a session sends whose ratchet, after a new sending chain was started, is \<open>r\<close>.\<close>

definition session_message :: "Session \<Rightarrow> Ratchet \<Rightarrow> bytes \<Rightarrow> bytes" where
  "session_message s r plaintext =
     (if received_message s then next_message r plaintext
      else pre_key_message (bob_prekey s) (bob_one_time_key s) (alice_base_key s) (alice_identity_key s)
             (next_message r plaintext))"

lemma session_encrypt_eq:
  fixes P s random
  defines "r \<equiv> start_sender_chain P (sess_ratchet s) random"
  assumes "wf_Session s" "encrypt_random_length s \<le> length random"
    and "length (curve_public (sc_ratchet_key (sender_chain r ! 0))) = 32"
    and "encrypt_message_length s (length pt) \<le> max_len"
  shows "\<exists>m'. session_encrypt P s pt random m out max_len =
      (s\<lparr>sess_ratchet := sent r\<rparr>, m', Some (ratchet_encrypt_output_length (sess_ratchet s) (length pt))) \<and>
    load m' out (encrypt_message_length s (length pt)) = session_message s r pt \<and>
    unchanged_outside out (encrypt_message_length s (length pt)) m m'"
proof -
  let ?n = "ratchet_encrypt_output_length (sess_ratchet s) (length pt)"
  let ?h = "pre_key_message_header PROTOCOL_VERSION (bob_prekey s) (bob_one_time_key s)
        (alice_base_key s) (alice_identity_key s) ?n"
  let ?start = "if received_message s then (m, out) else (store m out ?h, out + length ?h)"
  obtain m1 p where start: "?start = (m1, p)" by fastforce
  have "ratchet_encrypt_random_length (sess_ratchet s) \<le> length random"
    using assms(3) by (simp add: encrypt_random_length_def)
  from ratchet_encrypt_eq [OF this order_refl assms(4) [unfolded r_def], of pt m1 p]
  obtain m' where enc: "ratchet_encrypt P (sess_ratchet s) pt random m1 p ?n = (sent r, m', Some ?n)"
    "load m' p ?n = next_message r pt" "unchanged_outside p ?n m1 m'"
    by (auto simp: r_def)
  have run: "session_encrypt P s pt random m out max_len = (s\<lparr>sess_ratchet := sent r\<rparr>, m', Some ?n)"
    using start enc(1) assms(5)
    by (auto simp: session_encrypt_def put_pre_key_header_eq [OF assms(2)] take_ratchet_def Let_def split: if_splits)
  have total: "encrypt_message_length s (length pt) = (if received_message s then ?n else length ?h + ?n)"
    using encode_pre_key_message_length_eq [of "bob_prekey s" "alice_identity_key s" "alice_base_key s"
        "bob_one_time_key s" ?n PROTOCOL_VERSION] assms(2)
    by (simp add: encrypt_message_length_def CURVE25519_KEY_LENGTH_def wf_Session_def)
  have len: "length (next_message r pt) = ?n" using arg_cong [OF enc(2), of length] by simp
  have "load m' out (encrypt_message_length s (length pt)) = session_message s r pt"
  proof (cases "received_message s")
    case False
    then have p: "m1 = store m out ?h" "p = out + length ?h" using start by auto
    have "load m' out (length ?h) = ?h"
      using unchanged_outside_load [OF enc(3), of out "length ?h"] p by (simp add: load_store_same)
    then show ?thesis
      using False enc(2) p by (simp add: total load_add session_message_def pre_key_message_def len)
  qed (use start enc(2) total in \<open>simp add: session_message_def\<close>)
  moreover have "unchanged_outside out (encrypt_message_length s (length pt)) m m'"
  proof (cases "received_message s")
    case False
    then have p: "m1 = store m out ?h" "p = out + length ?h" using start by auto
    have "unchanged_outside out (length ?h + ?n) m m1" by (auto simp: p intro!: unchanged_outside_store)
    moreover have "unchanged_outside out (length ?h + ?n) m1 m'"
      by (rule unchanged_outside_mono [OF enc(3)]) (simp_all add: p)
    ultimately show ?thesis using False unchanged_outside_trans by (auto simp: total)
  qed (use start enc(3) total in simp)
  ultimately show ?thesis using run by blast
qed

section \<open>Decryption\<close>

text \<open>
  A message of a session in the memory: its type, and that its body is found, apart from the
  plaintext buffer.
\<close>

definition has_body :: "MessageType \<Rightarrow> mem \<Rightarrow> nat \<Rightarrow> nat \<Rightarrow> bytes \<Rightarrow> bool" where
  "has_body t m p n body \<longleftrightarrow> (\<exists>q. message_body t m p n = Some (q, length body) \<and>
     load m q (length body) = body \<and> p \<le> q \<and> q + length body \<le> p + n)"

lemma has_body_session_message:
  assumes "load m p n = session_message s r pt" "wf_Session s" "length (next_message r pt) < 2 ^ 64"
  shows "has_body (encrypt_message_type s) m p n (next_message r pt)"
proof (cases "received_message s")
  case True
  then have "load m p n = next_message r pt" using assms(1) by (simp add: session_message_def)
  moreover from arg_cong [OF this, of length] have "n = length (next_message r pt)" by simp
  ultimately show ?thesis using True by (simp add: has_body_def message_body_def encrypt_message_type_def)
next
  case False
  let ?b = "next_message r pt"
  have "load m p n = pre_key_message (bob_prekey s) (bob_one_time_key s) (alice_base_key s)
      (alice_identity_key s) ?b" using assms(1) False by (simp add: session_message_def)
  from pre_key_reader(8-10) [OF this assms(3)] assms(2) obtain k where
    "pr_message (decode_one_time_key_message (load m p n)) = Some k" "k + length ?b = n"
    "pr_message_length (decode_one_time_key_message (load m p n)) = length ?b" "load m (p + k) (length ?b) = ?b"
    by (auto simp: wf_Session_def)
  then show ?thesis using False by (auto simp: has_body_def message_body_def encrypt_message_type_def)
qed

lemma session_decrypt_eq:
  assumes "message_body t m p n = Some (q, l)"
    and "ratchet_decrypt P (sess_ratchet s) m q l out max_len is_seq = (r, m', Some k)"
  shows "session_decrypt P s t m p n out max_len is_seq =
    (s\<lparr>sess_ratchet := r, received_message := True\<rparr>, m', Some k)"
  using assms by (simp add: session_decrypt_def take_ratchet_def)

section \<open>Two sessions\<close>

text \<open>
  Messages of two sessions, each delivered before the next one is sent: who sends, the plaintext
  and the random bytes at hand.  The message is decrypted as the type the sender's
  \<open>encrypt_message_type\<close> named; the buffers are as long as the functions ask for.
\<close>

fun session_exchange ::
    "crypto_prims \<Rightarrow> nat \<Rightarrow> Session \<Rightarrow> Session \<Rightarrow> (bool \<times> bytes \<times> bytes) list \<Rightarrow> bytes option list" where
  "session_exchange P max_len a b [] = []"
| "session_exchange P max_len a b ((from_a, pt, random) # events) =
     (let (s, r) = (if from_a then (a, b) else (b, a));
          t = encrypt_message_type s;
          n = encrypt_message_length s (length pt);
          (s, m, _) = session_encrypt P s pt random (\<lambda>_. 0) 0 n;
          (r, m, result) = session_decrypt P r t (store (\<lambda>_. 0) max_len (load m 0 n)) max_len n 0 max_len True;
          (a, b) = (if from_a then (s, r) else (r, s))
      in map_option (load m 0) result # session_exchange P max_len a b events)"

text \<open>Two sessions that understand each other.\<close>

definition paired :: "crypto_prims \<Rightarrow> Session \<Rightarrow> Session \<Rightarrow> bool" where
  "paired P s r \<longleftrightarrow> wf_Session s \<and> wf_Session r \<and>
     (in_step P (sess_ratchet s) (sess_ratchet r) \<or> in_step P (sess_ratchet r) (sess_ratchet s))"

lemma paired_swap: "paired P s r = paired P r s"
  by (auto simp: paired_def)

definition session_keys :: "Session \<Rightarrow> Session \<Rightarrow> bytes set" where
  "session_keys s r = known_keys (sess_ratchet s) \<union> known_keys (sess_ratchet r)"

lemma length_next_message:
  assumes "length (curve_public (sc_ratchet_key (sender_chain r ! 0))) = 32"
  shows "length (next_message r pt) \<le> aes_sha_256_cipher_encrypt_ciphertext_length (length pt) + 64"
proof -
  have "length (next_message r pt) = encode_message_length (ck_index (sc_chain_key (sender_chain r ! 0))) 32
      (aes_sha_256_cipher_encrypt_ciphertext_length (length pt)) 8"
    by (simp add: next_message_def length_ratchet_message [OF assms] create_message_keys_def)
  then show ?thesis
    using varint_length_bounds(1) [of "ck_index (sc_chain_key (sender_chain r ! 0))"]
      varint_length_bounds(2) [of "of_nat (aes_sha_256_cipher_encrypt_ciphertext_length (length pt))"]
    by (simp add: encode_message_length_def VERSION_LENGTH_def varstring_length_def)
qed

lemma session_receives:
  fixes P s random
  defines "r1 \<equiv> start_sender_chain P (sess_ratchet s) random"
    and "u \<equiv> curve_public (olm_crypto_curve25519_generate_key P random)"
  assumes "dh_law P" "paired P s r" "max_len + 64 < 2 ^ 64"
    and "aes_sha_256_cipher_encrypt_ciphertext_length (length pt) \<le> max_len" "u \<notin> session_keys s r" "32 \<le> length random"
    and "load m c n = session_message s r1 pt" "p + max_len \<le> c \<or> c + n \<le> p"
  shows "\<exists>r' w. session_decrypt P r (encrypt_message_type s) m c n p max_len is_seq =
      (r', store m p (pt @ w), Some (length pt)) \<and> paired P (s\<lparr>sess_ratchet := sent r1\<rparr>) r' \<and>
    session_keys (s\<lparr>sess_ratchet := sent r1\<rparr>) r' \<subseteq> Set.insert u (session_keys s r)"
proof -
  have step: "in_step P (sess_ratchet s) (sess_ratchet r) \<or> in_step P (sess_ratchet r) (sess_ratchet s)"
    and wf: "wf_Session s" "wf_Session r" using assms(4) by (auto simp: paired_def)
  have fresh: "u \<notin> known_keys (sess_ratchet s) \<union> known_keys (sess_ratchet r)"
    using assms(7) by (simp add: session_keys_def)
  let ?b = "next_message r1 pt"
  have "length ?b < 2 ^ 64"
    using length_next_message [OF sending_key_length [OF assms(3) step, of random], of pt] assms(5,6)
    by (simp add: r1_def)
  from has_body_session_message [OF assms(9) wf(1) this]
  obtain q where q: "message_body (encrypt_message_type s) m c n = Some (q, length ?b)"
    "load m q (length ?b) = ?b" "c \<le> q" "q + length ?b \<le> c + n"
    by (auto simp: has_body_def)
  have "delivery m q (length ?b) p max_len ?b pt" using q assms(5,6,10) by (auto simp: delivery_def)
  from either_side_sends [OF assms(3) step fresh [unfolded u_def] assms(8) this [unfolded r1_def], of is_seq] obtain w r' where dec:
    "ratchet_decrypt P (sess_ratchet r) m q (length ?b) p max_len is_seq = (r', store m p (pt @ w), Some (length pt))"
    "in_step P (sent r1) r'"
    "known_keys (sent r1) \<union> known_keys r' \<subseteq> Set.insert u (known_keys (sess_ratchet s) \<union> known_keys (sess_ratchet r))"
    unfolding r1_def u_def by blast
  show ?thesis
    using session_decrypt_eq [OF q(1) dec(1)] dec(2,3) wf
    by (intro exI conjI) (auto simp: paired_def session_keys_def wf_Session_def)
qed

lemma session_step:
  assumes "dh_law P" "paired P s r" "32 \<le> length random" "max_len + 64 < 2 ^ 64"
    and "aes_sha_256_cipher_encrypt_ciphertext_length (length pt) \<le> max_len"
    and "curve_public (olm_crypto_curve25519_generate_key P random) \<notin> session_keys s r"
  defines "n \<equiv> encrypt_message_length s (length pt)"
  shows "\<exists>s' m k r' m'. session_encrypt P s pt random (\<lambda>_. 0) 0 n = (s', m, Some k)
    \<and> session_decrypt P r (encrypt_message_type s) (store (\<lambda>_. 0) max_len (load m 0 n)) max_len n 0 max_len True
      = (r', m', Some (length pt))
    \<and> load m' 0 (length pt) = pt \<and> paired P s' r'
    \<and> session_keys s' r' \<subseteq> Set.insert (curve_public (olm_crypto_curve25519_generate_key P random)) (session_keys s r)"
proof -
  let ?r1 = "start_sender_chain P (sess_ratchet s) random"
  have step: "in_step P (sess_ratchet s) (sess_ratchet r) \<or> in_step P (sess_ratchet r) (sess_ratchet s)"
    and wf: "wf_Session s" using assms(2) by (auto simp: paired_def)
  have "encrypt_random_length s \<le> length random"
    using assms(3) by (simp add: encrypt_random_length_def ratchet_encrypt_random_length_def CURVE25519_RANDOM_LENGTH_def)
  from session_encrypt_eq [OF wf this sending_key_length [OF assms(1) step] order_refl, of pt "\<lambda>_. 0" 0] obtain m k where
    enc: "session_encrypt P s pt random (\<lambda>_. 0) 0 n = (s\<lparr>sess_ratchet := sent ?r1\<rparr>, m, Some k)"
      "load m 0 n = session_message s ?r1 pt"
    unfolding n_def by blast
  let ?m = "store (\<lambda>_. 0) max_len (load m 0 n)"
  have "load ?m max_len n = load m 0 n" by (rule load_store_same) simp
  then have "load ?m max_len n = session_message s ?r1 pt" by (simp only: enc(2))
  from session_receives [OF assms(1,2,4-6,3) this, of 0 True] obtain r' w where
    "session_decrypt P r (encrypt_message_type s) ?m max_len n 0 max_len True = (r', store ?m 0 (pt @ w), Some (length pt))"
    "paired P (s\<lparr>sess_ratchet := sent ?r1\<rparr>) r'"
    "session_keys (s\<lparr>sess_ratchet := sent ?r1\<rparr>) r' \<subseteq>
      Set.insert (curve_public (olm_crypto_curve25519_generate_key P random)) (session_keys s r)"
    by auto
  then show ?thesis using enc(1) load_plaintext [of ?m 0 pt w] by blast
qed

lemma session_exchange_paired:
  assumes "dh_law P" "max_len + 64 < 2 ^ 64"
  shows "paired P a b \<Longrightarrow>
    \<forall>(_, pt, random) \<in> set events. 32 \<le> length random
      \<and> aes_sha_256_cipher_encrypt_ciphertext_length (length pt) \<le> max_len \<Longrightarrow>
    distinct (new_keys P events) \<Longrightarrow> set (new_keys P events) \<inter> session_keys a b = {} \<Longrightarrow>
    session_exchange P max_len a b events = map (\<lambda>(_, pt, _). Some pt) events"
proof (induction events arbitrary: a b)
  case (Cons e events)
  obtain from_a pt random where e: "e = (from_a, pt, random)" by (cases e)
  define s where "s = (if from_a then a else b)"
  define r where "r = (if from_a then b else a)"
  have sides: "(if from_a then (a, b) else (b, a)) = (s, r)" by (simp add: s_def r_def)
  have same: "session_keys s r = session_keys a b" by (auto simp: session_keys_def s_def r_def)
  let ?k = "curve_public (olm_crypto_curve25519_generate_key P random)"
  let ?n = "encrypt_message_length s (length pt)"
  have keys: "new_keys P (e # events) = ?k # new_keys P events" by (simp add: e new_keys_def)
  have "paired P s r" using Cons.prems(1) paired_swap [of P a b] by (auto simp: s_def r_def)
  from session_step [OF assms(1) this _ assms(2), of random pt] obtain s' m k r' m' where step:
    "session_encrypt P s pt random (\<lambda>_. 0) 0 ?n = (s', m, Some k)"
    "session_decrypt P r (encrypt_message_type s) (store (\<lambda>_. 0) max_len (load m 0 ?n)) max_len ?n 0 max_len True
      = (r', m', Some (length pt))"
    "load m' 0 (length pt) = pt" "paired P s' r'" "session_keys s' r' \<subseteq> Set.insert ?k (session_keys s r)"
    using Cons.prems(2,4) keys same by (auto simp: e)
  define a' where "a' = (if from_a then s' else r')"
  define b' where "b' = (if from_a then r' else s')"
  have sides': "(if from_a then (s', r') else (r', s')) = (a', b')" by (simp add: a'_def b'_def)
  have "session_keys a' b' = session_keys s' r'" by (auto simp: session_keys_def a'_def b'_def)
  then have "set (new_keys P events) \<inter> session_keys a' b' = {}"
    using Cons.prems(3,4) step(5) same keys by auto
  moreover have "paired P a' b'" using step(4) paired_swap [of P s' r'] by (simp add: a'_def b'_def)
  ultimately have "session_exchange P max_len a' b' events = map (\<lambda>(_, pt, _). Some pt) events"
    using Cons.prems(2,3) by (intro Cons.IH) (simp_all add: keys)
  moreover have "session_exchange P max_len a b (e # events) = Some pt # session_exchange P max_len a' b' events"
    using step(1-3) sides sides' by (simp add: e Let_def)
  ultimately show ?case by (simp add: e)
qed simp

section \<open>How the two sessions are made\<close>

abbreviation identity_key_of :: "Account \<Rightarrow> curve25519_key_pair" where
  "identity_key_of a \<equiv> curve25519_key (identity_keys a)"

text \<open>The account has the private halves of the pre-key and the one-time key that were published.\<close>

definition holds_keys :: "crypto_prims \<Rightarrow> Account \<Rightarrow> bytes \<Rightarrow> bytes option \<Rightarrow> bool" where
  "holds_keys P b pk otk \<longleftrightarrow>
     (\<exists>pre. lookup_prekey b pk = Some pre \<and> curve_public (pk_key pre) = pk \<and> generated P (pk_key pre)) \<and>
     (case otk of None \<Rightarrow> True
      | Some t \<Rightarrow> t \<noteq> pk \<and>
          (\<exists>k. lookup_key b t = Some k \<and> curve_public (otk_key k) = t \<and> generated P (otk_key k)))"

lemma shared_secret_swap:
  assumes "dh_law P" "generated P t" "generated P u"
  shows "olm_crypto_curve25519_shared_secret P t (curve_public u) =
    olm_crypto_curve25519_shared_secret P u (curve_public t)"
  using assms by (simp add: olm_crypto_curve25519_shared_secret_def generated_def dh_law_def)

text \<open>The session the initiator makes: its secret is the first bytes of the Diffie-Hellman results.\<close>

definition alice_secret ::
    "crypto_prims \<Rightarrow> curve25519_key_pair \<Rightarrow> curve25519_key_pair \<Rightarrow> bytes \<Rightarrow> bytes \<Rightarrow> bytes option \<Rightarrow> bytes" where
  "alice_secret P identity base bob_identity pk otk =
     (let dh = olm_crypto_curve25519_shared_secret P in
      case otk of
        None \<Rightarrow> take 3 (dh identity pk @ dh base bob_identity @ dh base pk)
      | Some t \<Rightarrow> take 4 (dh identity t @ dh base bob_identity @ dh base t @ dh base pk))"

definition alice_session :: "crypto_prims \<Rightarrow> Account \<Rightarrow> bytes \<Rightarrow> bytes \<Rightarrow> bytes option \<Rightarrow> bytes \<Rightarrow> Session" where
  "alice_session P a bob_identity pk otk random =
     (let base = olm_crypto_curve25519_generate_key P random in
      new_Session
      \<lparr>sess_ratchet := initialise_as_alice (new_Ratchet OLM_KDF_INFO CIPHER_KDF_INFO)
         (alice_secret P (identity_key_of a) base bob_identity pk otk)
         (olm_crypto_curve25519_generate_key P (drop 32 random)),
       alice_identity_key := curve_public (identity_key_of a), alice_base_key := curve_public base,
       bob_one_time_key := (case otk of Some k \<Rightarrow> k | None \<Rightarrow> pk), bob_prekey := pk\<rparr>)"

lemma new_outbound_session_eq:
  assumes "64 \<le> length random" "olm_crypto_ed25519_verify P signing_key pk sig"
  shows "new_outbound_session P new_Session a bob_identity signing_key pk sig random otk =
    (alice_session P a bob_identity pk otk random, Some 0)"
  using assms
  by (auto simp: new_outbound_session_def new_outbound_session_random_length_def CURVE25519_RANDOM_LENGTH_def
      alice_session_def alice_secret_def Let_def new_Session_def split: option.split)

text \<open>The session the other side makes from the first message.\<close>

definition bob_session :: "crypto_prims \<Rightarrow> Account \<Rightarrow> bytes \<Rightarrow> bytes \<Rightarrow> bytes option \<Rightarrow> bytes \<Rightarrow> Session" where
  "bob_session P a bob_identity pk otk random =
     (alice_session P a bob_identity pk otk random)
     \<lparr>sess_ratchet := initialise_as_bob (new_Ratchet OLM_KDF_INFO CIPHER_KDF_INFO)
        (alice_secret P (identity_key_of a) (olm_crypto_curve25519_generate_key P random) bob_identity pk otk)
        (curve_public (olm_crypto_curve25519_generate_key P (drop 32 random)))\<rparr>"

lemma reader_of_next_message:
  fixes r pt
  defines "rk \<equiv> curve_public (sc_ratchet_key (sender_chain r ! 0))"
  assumes "length rk = 32" "aes_sha_256_cipher_encrypt_ciphertext_length (length pt) < 2 ^ 64"
    and "load m p n = next_message r pt"
  shows "mr_ratchet_key (decode_message (load m p n) aes_sha_256_cipher_mac_length) \<noteq> None"
    and "mr_ratchet_key_length (decode_message (load m p n) aes_sha_256_cipher_mac_length) = CURVE25519_KEY_LENGTH"
    and "field_at m p (mr_ratchet_key (decode_message (load m p n) aes_sha_256_cipher_mac_length)) = rk"
proof -
  have msg: "load m p n = ratchet_message (ratchet_cipher r) rk (create_message_keys (sc_chain_key (sender_chain r ! 0))) pt"
    using assms(4) by (simp add: next_message_def rk_def)
  note rd = reader_of_message [OF assms(2,3) msg]
  show "mr_ratchet_key (decode_message (load m p n) aes_sha_256_cipher_mac_length) \<noteq> None"
    and "mr_ratchet_key_length (decode_message (load m p n) aes_sha_256_cipher_mac_length) = CURVE25519_KEY_LENGTH"
    using rd(1) by (auto simp: CURVE25519_KEY_LENGTH_def)
  show "field_at m p (mr_ratchet_key (decode_message (load m p n) aes_sha_256_cipher_mac_length)) = rk"
    using rd(2) [of p 0 "[]"] by (simp add: field_at_def reader_ratchet_key_def)
qed

lemma bob_secret_eq:
  assumes "dh_law P" "generated P (identity_key_of a)" "generated P (identity_key_of b)" "generated P base"
    and "generated P one_time" "generated P pre"
    and "alice_identity_key s = curve_public (identity_key_of a)" "alice_base_key s = curve_public base"
  shows "bob_secret P b s one_time pre is_prekey =
    (if is_prekey
     then alice_secret P (identity_key_of a) base (curve_public (identity_key_of b)) (curve_public one_time) None
     else alice_secret P (identity_key_of a) base (curve_public (identity_key_of b)) (curve_public pre)
       (Some (curve_public one_time)))"
  using shared_secret_swap [OF assms(1)] assms(2-)
  by (simp add: bob_secret_def alice_secret_def Let_def)

lemma new_inbound_session_eq:
  fixes P a b pk otk random
  defines "base \<equiv> olm_crypto_curve25519_generate_key P random"
    and "alice \<equiv> alice_session P a (curve_public (identity_key_of b)) pk otk random"
  assumes "dh_law P" "generated P (identity_key_of a)" "generated P (identity_key_of b)" "holds_keys P b pk otk"
    and "their_key = None \<or> their_key = Some (curve_public (identity_key_of a))" "64 \<le> length random"
    and "aes_sha_256_cipher_encrypt_ciphertext_length (length pt) + 64 < 2 ^ 64"
    and "load m p n = session_message alice (sess_ratchet alice) pt"
  shows "new_inbound_session P new_Session b their_key m p n =
    (bob_session P a (curve_public (identity_key_of b)) pk otk random, Returns 0)"
proof -
  from assms(6) obtain pre where pre: "lookup_prekey b pk = Some pre" "curve_public (pk_key pre) = pk"
    "generated P (pk_key pre)"
    by (auto simp: holds_keys_def)
  define ot where "ot = (case otk of Some k \<Rightarrow> k | None \<Rightarrow> pk)"
  define one_time where "one_time = (case otk of None \<Rightarrow> pk_key pre | Some t \<Rightarrow> otk_key (the (lookup_key b t)))"
  have ot: "generated P one_time" "curve_public one_time = ot" "otk \<noteq> None \<longrightarrow> ot \<noteq> pk \<and> lookup_key b ot \<noteq> None"
    "otk = None \<longrightarrow> ot = pk"
    using assms(6) pre by (auto simp: holds_keys_def ot_def one_time_def split: option.splits)
  have base: "generated P base" using assms(8) by (simp add: base_def generated_key)
  note len = length_generated [OF assms(3)]
  have lens: "length pk = 32" "length ot = 32" "length (curve_public base) = 32"
    "length (curve_public (identity_key_of a)) = 32"
    using len [OF pre(3)] len [OF ot(1)] len [OF base] len [OF assms(4)] pre ot by simp_all
  let ?r = "sess_ratchet alice" and ?b = "next_message (sess_ratchet alice) pt"
  let ?key = "olm_crypto_curve25519_generate_key P (drop 32 random)"
  have key: "sc_ratchet_key (sender_chain ?r ! 0) = ?key"
    by (simp add: alice_def alice_session_def Let_def initialise_as_alice_def list_insert_def new_Ratchet_def split: prod.split)
  have rk: "length (curve_public (sc_ratchet_key (sender_chain ?r ! 0))) = 32"
    using length_new_key [OF assms(3)] by (simp add: key)
  have fields: "received_message alice = False" "bob_prekey alice = pk" "bob_one_time_key alice = ot"
    "alice_base_key alice = curve_public base" "alice_identity_key alice = curve_public (identity_key_of a)"
    by (simp_all add: alice_def alice_session_def base_def new_Session_def ot_def Let_def)
  have msg: "load m p n = pre_key_message pk ot (curve_public base) (curve_public (identity_key_of a)) ?b"
    using assms(10) by (simp add: session_message_def fields)
  have lb: "length ?b < 2 ^ 64" using length_next_message [OF rk, of pt] assms(9) by simp
  note rd = pre_key_reader [OF msg lb lens]
  define body where "body = p + the (pr_message (decode_one_time_key_message (load m p n)))"
  have "load m body (length ?b) = ?b" using rd(10) by (simp add: body_def)
  from reader_of_next_message [OF rk _ this] assms(9)
  have mr: "mr_ratchet_key (decode_message (load m body (length ?b)) 8) \<noteq> None"
    "mr_ratchet_key_length (decode_message (load m body (length ?b)) 8) = CURVE25519_KEY_LENGTH"
    "field_at m body (mr_ratchet_key (decode_message (load m body (length ?b)) 8)) = curve_public ?key"
    by (simp_all add: key)
  have found: "\<not> (lookup_key b ot = None \<and> otk \<noteq> None)" using ot(3) by blast
  have eq: "array_equal CURVE25519_KEY_LENGTH pk ot = (otk = None)"
    using ot(3,4) lens by (auto simp: CURVE25519_KEY_LENGTH_def)
  have id: "\<not> (their_key \<noteq> None \<and> the their_key \<noteq> curve_public (identity_key_of a))"
    using assms(7) by auto
  have secret: "bob_secret P b s (if otk = None then pk_key pre else otk_key (the (lookup_key b ot))) (pk_key pre)
      (otk = None) = alice_secret P (identity_key_of a) base (curve_public (identity_key_of b)) pk otk"
    if "alice_identity_key s = curve_public (identity_key_of a)" "alice_base_key s = curve_public base" for s
    using bob_secret_eq [OF assms(3-5) base ot(1) pre(3) that] ot(2) pre(2)
    by (cases otk) (simp_all add: ot_def one_time_def)
  have "\<exists>s. new_inbound_session P new_Session b their_key m p n =
      (s\<lparr>sess_ratchet := initialise_as_bob (sess_ratchet s) (bob_secret P b s
         (if otk = None then pk_key pre else otk_key (the (lookup_key b ot))) (pk_key pre) (otk = None))
         (curve_public ?key)\<rparr>, Returns 0) \<and>
      s = new_Session\<lparr>alice_identity_key := curve_public (identity_key_of a), alice_base_key := curve_public base,
        bob_one_time_key := ot, bob_prekey := pk\<rparr>"
    using found rd(2,3) id
    by (intro exI conjI)
      (simp_all add: new_inbound_session_def Let_def rd(1,4-7,9) body_def [symmetric] mr eq pre(1) del: not_None_eq)
  then show ?thesis
    by (auto simp: secret bob_session_def alice_session_def base_def ot_def Let_def new_Session_def)
qed

text \<open>What a new account publishes.\<close>

lemma new_account_keys:
  assumes "96 \<le> length random" "b = fst (new_account P new_Account random)"
  shows "generated P (identity_key_of b)" "generated P (pk_key (current_prekey b))"
    and "sign_law P \<Longrightarrow> olm_crypto_ed25519_verify P (ed_public (ed25519_key (identity_keys b)))
      (curve_public (pk_key (current_prekey b))) (pk_signature (current_prekey b))"
    and "one_time_keys b = []" "num_fallback_keys b = 0"
  using assms(1)
  by (auto simp: assms(2) new_account_def generate_prekey_def new_account_random_length_def ED25519_RANDOM_LENGTH_def
      CURVE25519_RANDOM_LENGTH_def generate_prekey_random_length_def Let_def new_Account_def generated_key
      olm_crypto_ed25519_generate_key_def olm_crypto_ed25519_sign_def olm_crypto_ed25519_verify_def sign_law_def
      split: prod.splits)

lemma wf_generate_one_time_keys:
  "dh_law P \<Longrightarrow> wf_Account a \<Longrightarrow> wf_Account (fst (generate_one_time_keys P a n random))"
  by (auto simp: generate_one_time_keys_def generate_one_time_keys_random_length_def CURVE25519_RANDOM_LENGTH_def
      intro!: wf_generate_keys_loop) (simp add: wf_Account_def)

lemma generate_one_time_keys_fields:
  assumes "one_time_keys a = []" "b = fst (generate_one_time_keys P a n random)"
  shows "identity_keys b = identity_keys a" "current_prekey b = current_prekey a"
    and "num_fallback_keys b = num_fallback_keys a" "\<forall>k \<in> set (one_time_keys b). generated P (otk_key k)"
  using assms(1) generate_keys_loop_eq [of a P n random]
  by (auto simp: assms(2) generate_one_time_keys_def generate_one_time_keys_random_length_def CURVE25519_RANDOM_LENGTH_def
      intro!: generated_key dest!: in_set_takeD) linarith

lemma published_keys:
  assumes "dh_law P" "sign_law P" "96 \<le> length rb"
    and b: "b = fst (generate_one_time_keys P (fst (new_account P new_Account rb)) n ro)"
    and pk: "pk = curve_public (pk_key (current_prekey b))"
  shows "generated P (identity_key_of b)"
    and "olm_crypto_ed25519_verify P (ed_public (ed25519_key (identity_keys b))) pk (pk_signature (current_prekey b))"
    and "distinct (pk # map otk_public (one_time_keys b)) \<Longrightarrow>
      otk = None \<or> (\<exists>k \<in> set (one_time_keys b). otk = Some (otk_public k)) \<Longrightarrow> holds_keys P b pk otk"
proof -
  let ?a = "fst (new_account P new_Account rb)"
  note new = new_account_keys [OF assms(3) refl, of P]
  note same = generate_one_time_keys_fields [OF new(4) b]
  show "generated P (identity_key_of b)"
    and "olm_crypto_ed25519_verify P (ed_public (ed25519_key (identity_keys b))) pk (pk_signature (current_prekey b))"
    using new(1,3) assms(2) by (simp_all add: pk same)
  note len = length_generated [OF assms(1)]
  have gen: "generated P (pk_key (current_prekey b))" using new(2) by (simp add: same)
  have pre: "lookup_prekey b pk = Some (current_prekey b)"
    using len [OF gen] by (simp add: lookup_prekey_def pk CURVE25519_KEY_LENGTH_def)
  have wf: "wf_Account b" unfolding b by (intro wf_generate_one_time_keys wf_new_account assms wf_zero_keys)
  have keys: "private_keys b = one_time_keys b" using same(3) new(5) by (simp add: private_keys_def)
  show "holds_keys P b pk otk" if d: "distinct (pk # map otk_public (one_time_keys b))"
    and o: "otk = None \<or> (\<exists>k \<in> set (one_time_keys b). otk = Some (otk_public k))"
    using o
  proof
    assume "\<exists>k \<in> set (one_time_keys b). otk = Some (otk_public k)"
    then obtain k where k: "k \<in> set (one_time_keys b)" "otk = Some (otk_public k)" by blast
    then have g: "generated P (otk_key k)" using same(4) by blast
    have "lookup_key b (otk_public k) = Some k"
      using find_distinct [OF _ k(1), of otk_public] d by (simp add: lookup_key_eq [OF wf len [OF g]] keys)
    moreover have "otk_public k \<noteq> pk" using d k(1) by auto
    ultimately show ?thesis using k(2) g pre gen pk by (auto simp: holds_keys_def)
  qed (use pre gen pk in \<open>auto simp: holds_keys_def\<close>)
qed

lemma wf_alice_session:
  assumes "dh_law P" "generated P (identity_key_of a)" "generated P (identity_key_of b)" "holds_keys P b pk otk"
  shows "wf_Session (alice_session P a bob_identity pk otk random)"
  using assms length_generated [OF assms(1)] length_new_key [OF assms(1), of random]
  by (auto simp: wf_Session_def alice_session_def Let_def holds_keys_def split: option.splits)

lemma sessions_paired:
  assumes "wf_Session (alice_session P a bob_identity pk otk random)" "64 \<le> length random"
  shows "paired P (alice_session P a bob_identity pk otk random) (bob_session P a bob_identity pk otk random)"
    and "session_keys (alice_session P a bob_identity pk otk random) (bob_session P a bob_identity pk otk random) =
      {curve_public (olm_crypto_curve25519_generate_key P (drop 32 random))}"
  using assms(1) initialised_in_step [OF generated_key [of "drop 32 random"]] assms(2)
  by (auto simp: paired_def wf_Session_def session_keys_def alice_session_def bob_session_def Let_def known_keys_initialised)

text \<open>C1: A session from the published keys to the last message.  Alice and Bob are new accounts; Alice makes
  a session for Bob's identity key, signing key, pre-key, its signature and one or none of his one-time keys;
  she encrypts a message; Bob makes his session from that message alone, or also from the identity key he
  expects.  Then all calls succeed, and every message of a conversation that starts with that one decrypts to
  its plaintext at the other side, in whatever order they speak, pre-key messages and ordinary ones.  Bob's keys
  must differ from each other, and so must the ratchet keys drawn from the random bytes.\<close>

theorem sessions_understand_each_other:
  assumes "dh_law P" "sign_law P" "96 \<le> length ra" "96 \<le> length rb" "64 \<le> length random"
    and "a = fst (new_account P new_Account ra)"
    and "b = fst (generate_one_time_keys P (fst (new_account P new_Account rb)) count ro)"
    and "distinct (curve_public (pk_key (current_prekey b)) # map otk_public (one_time_keys b))"
    and "one_time_key = None \<or> (\<exists>k \<in> set (one_time_keys b). one_time_key = Some (otk_public k))"
    and "their_key = None \<or> their_key = Some (curve_public (identity_key_of a))"
    and "max_len + 64 < 2 ^ 64"
    and "\<forall>(_, pt, random) \<in> set ((True, pt1, random1) # events). 32 \<le> length random
           \<and> aes_sha_256_cipher_encrypt_ciphertext_length (length pt) \<le> max_len"
    and "distinct (curve_public (olm_crypto_curve25519_generate_key P (drop 32 random))
           # new_keys P ((True, pt1, random1) # events))"
    and "new_outbound_session P new_Session a (curve_public (identity_key_of b))
           (ed_public (ed25519_key (identity_keys b))) (curve_public (pk_key (current_prekey b)))
           (pk_signature (current_prekey b)) random one_time_key = (alice, alice_result)"
    and "session_encrypt P alice pt1 random1 m out (encrypt_message_length alice (length pt1)) = (alice1, m1, sent_result)"
    and "new_inbound_session P new_Session b their_key m1 out (encrypt_message_length alice (length pt1)) = (bob, bob_result)"
  shows "alice_result = Some 0 \<and> sent_result \<noteq> None \<and> bob_result = Returns 0 \<and>
    session_exchange P max_len alice bob ((True, pt1, random1) # events) =
      map (\<lambda>(_, pt, _). Some pt) ((True, pt1, random1) # events)"
proof -
  let ?ik = "curve_public (identity_key_of b)" and ?pk = "curve_public (pk_key (current_prekey b))"
  note bob = published_keys [OF assms(1,2,4,7) refl]
  note ida = new_account_keys(1) [OF assms(3,6)]
  note keys = bob(3) [OF assms(8,9)]
  have alice: "alice = alice_session P a ?ik ?pk one_time_key random" "alice_result = Some 0"
    using assms(14) new_outbound_session_eq [OF assms(5) bob(2)] by simp_all
  have wf: "wf_Session alice" unfolding alice(1) by (rule wf_alice_session [OF assms(1) ida bob(1) keys])
  note pair = sessions_paired [OF wf [unfolded alice(1)] assms(5)]
  have step: "in_step P (sess_ratchet alice) (sess_ratchet (bob_session P a ?ik ?pk one_time_key random))"
    using assms(5) by (simp add: alice(1) alice_session_def bob_session_def Let_def initialised_in_step generated_key)
  note same = in_step_keeps_chain [OF step, of random1]
  have len: "length (curve_public (sc_ratchet_key (sender_chain (start_sender_chain P (sess_ratchet alice) random1) ! 0))) = 32"
    by (rule sending_key_length [OF assms(1)]) (use step in blast)
  have "encrypt_random_length alice \<le> length random1"
    using assms(12) by (simp add: encrypt_random_length_def ratchet_encrypt_random_length_def CURVE25519_RANDOM_LENGTH_def)
  from session_encrypt_eq [OF wf this len order_refl, of pt1 m out]
  have enc: "sent_result \<noteq> None" "load m1 out (encrypt_message_length alice (length pt1)) =
      session_message alice (sess_ratchet alice) pt1"
    using assms(15) by (auto simp: same)
  have bob: "bob = bob_session P a ?ik ?pk one_time_key random" "bob_result = Returns 0"
    using new_inbound_session_eq [OF assms(1) ida bob(1) keys assms(10,5) _ enc(2) [unfolded alice(1)]] assms(11,12,16)
    by (simp_all add: alice(1))
  have "session_exchange P max_len alice bob ((True, pt1, random1) # events) =
      map (\<lambda>(_, pt, _). Some pt) ((True, pt1, random1) # events)"
    using assms(13)
    by (intro session_exchange_paired [OF assms(1,11) _ assms(12)]) (simp_all add: alice(1) bob(1) pair)
  then show ?thesis using alice(2) bob(2) enc(1) by simp
qed

definition sample_bob_account :: Account where
  "sample_bob_account = fst (generate_one_time_keys sample_prims
     (fst (new_account sample_prims new_Account (replicate 64 1 @ replicate 32 2))) 1 (replicate 32 3))"

definition sample_alice_account :: Account where
  "sample_alice_account = fst (new_account sample_prims new_Account (replicate 96 4))"

definition sample_otk :: bytes where
  "sample_otk = otk_public (hd (one_time_keys sample_bob_account))"

definition sample_alice_session :: "Session \<times> nat option" where
  "sample_alice_session = new_outbound_session sample_prims new_Session sample_alice_account
     (curve_public (identity_key_of sample_bob_account)) (ed_public (ed25519_key (identity_keys sample_bob_account)))
     (curve_public (pk_key (current_prekey sample_bob_account))) (pk_signature (current_prekey sample_bob_account))
     (replicate 32 5 @ replicate 32 6) (Some sample_otk)"

definition sample_first_message :: "Session \<times> mem \<times> nat option" where
  "sample_first_message = session_encrypt sample_prims (fst sample_alice_session) [7] (replicate 32 7) (\<lambda>_. 0) 0
     (encrypt_message_length (fst sample_alice_session) 1)"

definition sample_bob_session :: "Session \<times> outcome" where
  "sample_bob_session = new_inbound_session sample_prims new_Session sample_bob_account None
     (fst (snd sample_first_message)) 0 (encrypt_message_length (fst sample_alice_session) 1)"

lemma sample_bob_keys:
  "map otk_public (one_time_keys sample_bob_account) = [sample_otk]"
  "distinct [curve_public (pk_key (current_prekey sample_bob_account)), sample_otk]"
  by code_simp+

lemma sample_ratchet_keys:
  "distinct (map (\<lambda>b. curve_public (olm_crypto_curve25519_generate_key sample_prims (replicate 32 b))) [6, 7, 8, 9])"
  by code_simp

lemma sessions_understand_each_other_witness:
  "snd sample_bob_session = Returns 0 \<and>
   session_exchange sample_prims 16 (fst sample_alice_session) (fst sample_bob_session)
     [(True, [7], replicate 32 7), (False, [], replicate 32 8), (True, [9, 9], replicate 32 9)]
   = [Some [7], Some [], Some [9, 9]]"
proof -
  have "Some sample_otk = Some (otk_public (hd (one_time_keys sample_bob_account)))"
    "one_time_keys sample_bob_account \<noteq> []"
    using sample_bob_keys(1) by (auto simp: sample_otk_def)
  then have "\<exists>k \<in> set (one_time_keys sample_bob_account). Some sample_otk = Some (otk_public k)"
    by (auto intro: hd_in_set)
  note key_found = this
  have "snd sample_alice_session = Some 0 \<and> snd (snd sample_first_message) \<noteq> None \<and>
    snd sample_bob_session = Returns 0 \<and>
    session_exchange sample_prims 16 (fst sample_alice_session) (fst sample_bob_session)
      ((True, [7], replicate 32 7) # [(False, [], replicate 32 8), (True, [9, 9], replicate 32 9)]) =
    map (\<lambda>(_ :: bool, pt, _ :: bytes). Some pt) ((True, [7], replicate 32 7) # [(False, [], replicate 32 8), (True, [9, 9], replicate 32 9)])"
  proof (rule sessions_understand_each_other [OF sample_dh_law sample_sign_law _ _ _ sample_alice_account_def
        sample_bob_account_def _ disjI2 [OF key_found] disjI1 [OF refl]])
    show "new_outbound_session sample_prims new_Session sample_alice_account
        (curve_public (identity_key_of sample_bob_account)) (ed_public (ed25519_key (identity_keys sample_bob_account)))
        (curve_public (pk_key (current_prekey sample_bob_account))) (pk_signature (current_prekey sample_bob_account))
        (replicate 32 5 @ replicate 32 6) (Some sample_otk) = (fst sample_alice_session, snd sample_alice_session)"
      by (simp add: sample_alice_session_def)
    show "session_encrypt sample_prims (fst sample_alice_session) [7] (replicate 32 7) (\<lambda>_. 0) 0
        (encrypt_message_length (fst sample_alice_session) (length [7])) =
      (fst sample_first_message, fst (snd sample_first_message), snd (snd sample_first_message))"
      by (simp add: sample_first_message_def)
    show "new_inbound_session sample_prims new_Session sample_bob_account None (fst (snd sample_first_message)) 0
        (encrypt_message_length (fst sample_alice_session) (length [7])) = (fst sample_bob_session, snd sample_bob_session)"
      by (simp add: sample_bob_session_def)
  qed (use sample_bob_keys sample_ratchet_keys in \<open>simp_all add: new_keys_def
      aes_sha_256_cipher_encrypt_ciphertext_length_def olm_crypto_aes_encrypt_cbc_length_def\<close>)
  then show ?thesis by simp
qed

section \<open>What the agreed secret depends on\<close>

lemma take_shared_secret:
  "dh_law P \<Longrightarrow> n \<le> 32 \<Longrightarrow> take n (olm_crypto_curve25519_shared_secret P t pk @ rest) =
     take n (olm_crypto_curve25519_shared_secret P t pk)"
  by (simp add: olm_crypto_curve25519_shared_secret_def dh_law_def)

text \<open>C2: The secret a new session starts from is three or four bytes of one Diffie-Hellman result: the first
  three of Alice's identity key with Bob's pre-key when there is no one-time key, otherwise the first four of
  Alice's identity key with his one-time key.  The length handed to the ratchet counts the results, not their
  bytes, so that neither the base key nor Bob's identity key nor, with a one-time key, the pre-key has an
  influence on the keys of the session.\<close>

theorem agreed_secret_is_short:
  assumes "dh_law P"
    and "new_outbound_session P new_Session a bob_identity signing_key pk sig random otk = (s, Some r)"
  shows "sess_ratchet s = initialise_as_alice (new_Ratchet OLM_KDF_INFO CIPHER_KDF_INFO)
    (case otk of
       None \<Rightarrow> take 3 (olm_crypto_curve25519_shared_secret P (curve25519_key (identity_keys a)) pk)
     | Some t \<Rightarrow> take 4 (olm_crypto_curve25519_shared_secret P (curve25519_key (identity_keys a)) t))
    (olm_crypto_curve25519_generate_key P (drop 32 random))"
proof -
  have "64 \<le> length random" "olm_crypto_ed25519_verify P signing_key pk sig"
    using assms(2) by (auto simp: new_outbound_session_def new_outbound_session_random_length_def
        CURVE25519_RANDOM_LENGTH_def Let_def split: if_splits)
  then have "s = alice_session P a bob_identity pk otk random"
    using assms(2) by (simp add: new_outbound_session_eq)
  then show ?thesis
    by (cases otk) (simp_all add: alice_session_def alice_secret_def Let_def take_shared_secret [OF assms(1)] del: take_append)
qed

lemma agreed_secret_is_short_witness:
  "sess_ratchet (fst sample_alice_session) = initialise_as_alice (new_Ratchet OLM_KDF_INFO CIPHER_KDF_INFO)
    (take 4 (olm_crypto_curve25519_shared_secret sample_prims (identity_key_of sample_alice_account) sample_otk))
    (olm_crypto_curve25519_generate_key sample_prims (replicate 32 6))"
proof -
  have "olm_crypto_ed25519_verify sample_prims (ed_public (ed25519_key (identity_keys sample_bob_account)))
      (curve_public (pk_key (current_prekey sample_bob_account))) (pk_signature (current_prekey sample_bob_account))"
    by code_simp
  then have "snd sample_alice_session = Some 0"
    by (simp add: sample_alice_session_def new_outbound_session_eq)
  then have "new_outbound_session sample_prims new_Session sample_alice_account
     (curve_public (identity_key_of sample_bob_account)) (ed_public (ed25519_key (identity_keys sample_bob_account)))
     (curve_public (pk_key (current_prekey sample_bob_account))) (pk_signature (current_prekey sample_bob_account))
     (replicate 32 5 @ replicate 32 6) (Some sample_otk) = (fst sample_alice_session, Some 0)"
    by (simp add: sample_alice_session_def prod_eq_iff)
  from agreed_secret_is_short [OF sample_dh_law this] show ?thesis by simp
qed

section \<open>Recognising a session\<close>

lemma store_four:
  assumes "length a = 32" "length b = 32" "length c = 32"
  shows "store (store (store (store m p a) (p + 32) b) (p + 64) c) (p + 96) d = store m p (a @ b @ c @ d)"
  using store_store_append [of m p a b] store_store_append [of m p "a @ b" c] store_store_append [of m p "a @ b @ c" d]
    assms by simp

text \<open>C4: A first message belongs to a session exactly if its identity key, base key and one-time key are the
  session's and the identity key is the one the caller expects, if he names one; the pre-key plays no part.
  The id is the hash of the same three keys, whatever the pre-key; but the array for them holds 96 bytes, and
  every call writes the pre-key over the 32 bytes behind it.\<close>

theorem first_messages_find_their_session:
  assumes "wf_Session s" "length pk = 32" "length otk = 32" "length bk = 32" "length ik = 32" "length body < 2 ^ 64"
    and "load m p n = pre_key_message pk otk bk ik body"
    and "tmp + 128 \<le> out \<or> out + 32 \<le> tmp"
  shows "(matches_inbound_session s their_key m p n \<longleftrightarrow>
      ik = alice_identity_key s \<and> bk = alice_base_key s \<and> otk = bob_one_time_key s \<and> their_key \<in> {None, Some ik})
    \<and> (\<exists>m3. session_id s m2 tmp out 32 = (s, m3, Some 32)
      \<and> load m3 out 32 = olm_crypto_sha256 (alice_identity_key s @ alice_base_key s @ bob_one_time_key s)
      \<and> load m3 (tmp + 96) 32 = bob_prekey s)"
proof
  note rd = pre_key_reader [OF assms(7,6,2-5)]
  show "matches_inbound_session s their_key m p n \<longleftrightarrow>
      ik = alice_identity_key s \<and> bk = alice_base_key s \<and> otk = bob_one_time_key s \<and> their_key \<in> {None, Some ik}"
    using rd(2) by (cases their_key) (auto simp: matches_inbound_session_def Let_def rd(1,4,5,7))
  let ?keys = "alice_identity_key s @ alice_base_key s @ bob_one_time_key s"
  let ?m = "store m2 tmp (?keys @ bob_prekey s)"
  have len: "length ?keys = 96" "length (bob_prekey s) = 32" using assms(1) by (simp_all add: wf_Session_def)
  have all: "load ?m tmp 128 = ?keys @ bob_prekey s" using len by (intro load_store_same) simp
  have keys: "load ?m tmp 96 = ?keys" using arg_cong [OF all, of "take 96"] len(1) by (simp add: take_load)
  have "load ?m (tmp + 96) 32 = bob_prekey s" using arg_cong [OF all, of "drop 96"] len by (simp add: drop_load)
  then have "load (store ?m out (olm_crypto_sha256 ?keys)) (tmp + 96) 32 = bob_prekey s"
    using assms(8) by (subst load_store_disjoint) auto
  moreover have four: "store (store (store (store m2 tmp (alice_identity_key s)) (tmp + 32) (alice_base_key s)) (tmp + 64)
      (bob_one_time_key s)) (tmp + 96) (bob_prekey s) = ?m"
    using assms(1) by (subst store_four) (simp_all add: wf_Session_def)
  moreover have "session_id s m2 tmp out 32 = (s, store ?m out (olm_crypto_sha256 ?keys), Some 32)"
  proof -
    have "tmp + CURVE25519_KEY_LENGTH = tmp + 32" "tmp + 32 + CURVE25519_KEY_LENGTH = tmp + 64"
      "tmp + 64 + CURVE25519_KEY_LENGTH = tmp + 96" "CURVE25519_KEY_LENGTH * 3 = 96"
      by (simp_all add: CURVE25519_KEY_LENGTH_def)
    then show ?thesis
      using keys by (simp only: session_id_def session_id_length_def Let_def four) simp
  qed
  ultimately show "\<exists>m3. session_id s m2 tmp out 32 = (s, m3, Some 32) \<and> load m3 out 32 = olm_crypto_sha256 ?keys
      \<and> load m3 (tmp + 96) 32 = bob_prekey s"
    by (simp add: load_store_same)
qed

lemma first_messages_find_their_session_witness:
  "let msg = pre_key_message (replicate 32 1) (replicate 32 0) (replicate 32 0) (replicate 32 0) [5]
   in matches_inbound_session new_Session None (store (\<lambda>_. 0) 7 msg) 7 (length msg) \<and>
      (\<exists>m3. session_id new_Session (\<lambda>_. 1) 100 0 32 = (new_Session, m3, Some 32) \<and> load m3 196 32 = replicate 32 0)"
proof -
  let ?msg = "pre_key_message (replicate 32 1) (replicate 32 0) (replicate 32 0) (replicate 32 0) [5]"
  have wf: "wf_Session new_Session" by (simp add: wf_Session_def new_Session_def)
  have msg: "load (store (\<lambda>_. 0) 7 ?msg) 7 (length ?msg) = ?msg" by (rule load_store_same) simp
  have *: "(matches_inbound_session new_Session None (store (\<lambda>_. 0) 7 ?msg) 7 (length ?msg) \<longleftrightarrow>
        replicate 32 0 = alice_identity_key new_Session \<and> replicate 32 0 = alice_base_key new_Session \<and>
        replicate 32 0 = bob_one_time_key new_Session \<and> (None :: bytes option) \<in> {None, Some (replicate 32 0)}) \<and>
      (\<exists>m3. session_id new_Session (\<lambda>_. 1) 100 0 32 = (new_Session, m3, Some 32) \<and>
        load m3 0 32 = olm_crypto_sha256 (alice_identity_key new_Session @ alice_base_key new_Session @ bob_one_time_key new_Session) \<and>
        load m3 (100 + 96) 32 = bob_prekey new_Session)"
    using first_messages_find_their_session [OF wf, of "replicate 32 1" "replicate 32 0" "replicate 32 0" "replicate 32 0" "[5]"
        "store (\<lambda>_. 0) 7 ?msg" 7 "length ?msg" 100 0 None "\<lambda>_. 1"] msg by simp
  have keys: "alice_identity_key new_Session = replicate 32 0" "alice_base_key new_Session = replicate 32 0"
    "bob_one_time_key new_Session = replicate 32 0" "bob_prekey new_Session = replicate 32 0"
    by (simp_all add: new_Session_def)
  have "(100 :: nat) + 96 = 196" by simp
  then show ?thesis using * unfolding keys Let_def by auto
qed

section \<open>First messages that make no session\<close>

text \<open>The format of first messages without a pre-key.\<close>

definition message_without_prekey :: "bytes \<Rightarrow> bytes \<Rightarrow> bytes \<Rightarrow> bytes \<Rightarrow> bytes" where
  "message_without_prekey otk bk ik body =
     PROTOCOL_VERSION # string_field ONE_TIME_KEY_ID_TAG otk @ string_field BASE_KEY_TAG bk
       @ string_field IDENTITY_KEY_TAG ik @ string_header MESSAGE_TAG (length body) @ body"

lemma decode_without_prekey:
  assumes "length otk = 32" "length bk = 32" "length ik = 32" "length body < 2 ^ 64"
  defines "r \<equiv> decode_one_time_key_message (message_without_prekey otk bk ik body)"
  shows "check_message_fields r have" "pr_prekey r = None" "pr_identity_key r = Some 71"
    "pr_base_key r = Some 37" "pr_one_time_key r = Some 3"
proof -
  have fields: "length otk < 2 ^ 64" "length bk < 2 ^ 64" "length ik < 2 ^ 64" using assms(1-3) by simp_all
  have no_prekey: "\<not> (\<exists>r. string_field ONE_TIME_KEY_ID_TAG otk @ rest = PREKEY_ID_TAG # r)" for rest
    by (simp add: ONE_TIME_KEY_ID_TAG_def PREKEY_ID_TAG_def string_field_def string_header_def)
  have loop: "decode_one_time_key_message_loop (Suc 0, string_field ONE_TIME_KEY_ID_TAG otk
        @ string_field BASE_KEY_TAG bk @ string_field IDENTITY_KEY_TAG ik
        @ string_header MESSAGE_TAG (length body) @ body) r0 =
      r0\<lparr>pr_identity_key := Some 71, pr_identity_key_length := 32, pr_base_key := Some 37, pr_base_key_length := 32,
        pr_one_time_key := Some 3, pr_one_time_key_length := 32,
        pr_message := Some (103 + length (string_header MESSAGE_TAG (length body))),
        pr_message_length := length body\<rparr>" for r0
    by (subst decode_one_time_key_message_loop.simps)
      (simp add: one_time_key_message_fields_def decode_string_field [OF fields(1)]
        decode_string_other [OF no_prekey]
        decode_string_field [OF fields(2)] decode_string_field [OF fields(3)] decode_last_field [OF assms(4)]
        varstring_length_def assms(1-3) decode_one_time_key_message_loop.simps [of "(_, [])"])
  show "check_message_fields r have" "pr_prekey r = None" "pr_identity_key r = Some 71"
    "pr_base_key r = Some 37" "pr_one_time_key r = Some 3"
    using loop by (simp_all add: r_def decode_one_time_key_message_def message_without_prekey_def Let_def
        check_message_fields_def CURVE25519_KEY_LENGTH_def)
qed

text \<open>C3: A first message that has every field except the pre-key passes all checks of
  a new inbound session, which then reads through the null pointer to the missing field: the
  presence of the pre-key is not checked.  The other three keys of the message have been stored in the
  session before.\<close>

theorem missing_prekey_faults:
  assumes "length otk = 32" "length bk = 32" "length ik = 32" "length body < 2 ^ 64"
    and "load m p n = message_without_prekey otk bk ik body"
    and "their_key = None \<or> their_key = Some ik"
  shows "new_inbound_session P s b their_key m p n =
    (s\<lparr>alice_identity_key := ik, alice_base_key := bk, bob_one_time_key := otk\<rparr>, Faults)"
proof -
  note rd = decode_without_prekey [OF assms(1-4)]
  have n: "103 \<le> n"
    using arg_cong [OF assms(5), of length] assms(1-3)
    by (simp add: message_without_prekey_def varstring_length_def)
  have field: "field_at m p (Some i) = take 32 (drop i (load m p n))" if "i \<le> 71" for i
    using n that by (simp add: field_at_def CURVE25519_KEY_LENGTH_def drop_load take_load min_absorb2)
  have fields: "field_at m p (Some 71) = ik" "field_at m p (Some 37) = bk" "field_at m p (Some 3) = otk"
    using assms(1-3) by (simp_all add: field assms(5) message_without_prekey_def string_field_def)
  show ?thesis
    using assms(6) rd by (auto simp: new_inbound_session_def assms(5) fields Let_def)
qed

lemma missing_prekey_faults_witness:
  "let msg = message_without_prekey (replicate 32 1) (replicate 32 2) (replicate 32 3) [5]
   in new_inbound_session sample_prims new_Session sample_bob_account None (store (\<lambda>_. 0) 7 msg) 7 (length msg) =
     (new_Session\<lparr>alice_identity_key := replicate 32 3, alice_base_key := replicate 32 2, bob_one_time_key := replicate 32 1\<rparr>,
      Faults)"
proof -
  let ?msg = "message_without_prekey (replicate 32 1) (replicate 32 2) (replicate 32 3) [5]"
  have "load (store (\<lambda>_. 0) 7 ?msg) 7 (length ?msg) = ?msg" by (rule load_store_same) simp
  from missing_prekey_faults [OF _ _ _ _ this] show ?thesis by (simp add: Let_def)
qed

end
