(* ===== verification/Utility.thy ===== *)
theory Utility
  imports OlmError OlmMemory Crypto
begin

text \<open>
  \<open>src/utility.cpp\<close>: hashing and signature checks on behalf of the application.
\<close>

definition SHA256_OUTPUT_LENGTH :: nat where "SHA256_OUTPUT_LENGTH = 32"

record Utility =
  util_last_error :: OlmErrorCode

definition new_Utility :: Utility where
  "new_Utility = \<lparr>util_last_error = OLM_SUCCESS\<rparr>"

definition sha256_length :: nat where
  "sha256_length = SHA256_OUTPUT_LENGTH"

definition util_sha256 :: "Utility \<Rightarrow> bytes \<Rightarrow> mem \<Rightarrow> nat \<Rightarrow> nat \<Rightarrow> Utility \<times> mem \<times> nat option" where
  "util_sha256 u input m output output_length =
     (if output_length < sha256_length
      then (u\<lparr>util_last_error := OLM_OUTPUT_BUFFER_TOO_SMALL\<rparr>, m, None)
      else (u, store m output (olm_crypto_sha256 input), Some SHA256_OUTPUT_LENGTH))"

text \<open>The check reads the first 64 bytes of the signature.\<close>

definition util_ed25519_verify ::
    "crypto_prims \<Rightarrow> Utility \<Rightarrow> bytes \<Rightarrow> bytes \<Rightarrow> bytes \<Rightarrow> Utility \<times> nat option" where
  "util_ed25519_verify P u key message signature =
     (if length signature < ED25519_SIGNATURE_LENGTH
      then (u\<lparr>util_last_error := OLM_BAD_MESSAGE_MAC\<rparr>, None)
      else if \<not> olm_crypto_ed25519_verify P key message (take ED25519_SIGNATURE_LENGTH signature)
      then (u\<lparr>util_last_error := OLM_BAD_MESSAGE_MAC\<rparr>, None)
      else (u, Some 0))"

end
