(* ===== verification/OlmApi.thy ===== *)
theory OlmApi
  imports SessionProtocol Utility
begin

text \<open>
  \<open>src/olm.cpp\<close>: the functions applications call.  They check lengths, convert base64 in the
  caller's buffers, wrap pickles in the envelope and clear the random bytes they were given.  Functions
  that only hand over to a method of the same meaning are that method.
\<close>

section \<open>Base64 in the caller's buffers\<close>

definition b64_output_length :: "nat \<Rightarrow> nat" where
  "b64_output_length raw_length = encode_base64_length raw_length"

definition b64_output_pos :: "nat \<Rightarrow> nat \<Rightarrow> nat" where
  "b64_output_pos output raw_length = output + encode_base64_length raw_length - raw_length"

definition b64_output :: "mem \<Rightarrow> nat \<Rightarrow> nat \<Rightarrow> mem \<times> nat" where
  "b64_output m output raw_length =
     (let base64_length = encode_base64_length raw_length;
          raw_output = output + base64_length - raw_length;
          (m, _) = encode_base64 m raw_output raw_length output
      in (m, base64_length))"

definition b64_input :: "mem \<Rightarrow> nat \<Rightarrow> nat \<Rightarrow> OlmErrorCode \<Rightarrow> mem \<times> OlmErrorCode \<times> nat option" where
  "b64_input m input b64_length last_error =
     (case decode_base64_length b64_length of
        None \<Rightarrow> (m, OLM_INVALID_BASE64, None)
      | Some raw_length \<Rightarrow>
          let (m, _) = decode_base64 m input b64_length input
          in (m, last_error, Some raw_length))"

section \<open>Objects\<close>

definition olm_account :: Account where "olm_account = new_Account"
definition olm_session :: Session where "olm_session = new_Session"
definition olm_utility :: Utility where "olm_utility = new_Utility"

definition olm_clear_account :: "Account \<Rightarrow> Account" where "olm_clear_account a = new_Account"
definition olm_clear_session :: "Session \<Rightarrow> Session" where "olm_clear_session s = new_Session"
definition olm_clear_utility :: "Utility \<Rightarrow> Utility" where "olm_clear_utility u = new_Utility"

definition olm_account_last_error :: "Account \<Rightarrow> string" where
  "olm_account_last_error a = olm_error_to_string (error_number (acc_last_error a))"

definition olm_session_last_error :: "Session \<Rightarrow> string" where
  "olm_session_last_error s = olm_error_to_string (error_number (sess_last_error s))"

definition olm_utility_last_error :: "Utility \<Rightarrow> string" where
  "olm_utility_last_error u = olm_error_to_string (error_number (util_last_error u))"

section \<open>Pickles\<close>

definition olm_pickle_account_length :: "Account \<Rightarrow> nat" where
  "olm_pickle_account_length a = olm_enc_output_length (account_pickle_length a)"

definition olm_pickle_session_length :: "Session \<Rightarrow> nat" where
  "olm_pickle_session_length s = olm_enc_output_length (session_pickle_length s)"

definition olm_pickle_account ::
    "Account \<Rightarrow> bytes \<Rightarrow> mem \<Rightarrow> nat \<Rightarrow> nat \<Rightarrow> Account \<times> mem \<times> nat option" where
  "olm_pickle_account a key m pickled pickled_length =
     (let raw_length = account_pickle_length a
      in if pickled_length < olm_enc_output_length raw_length
         then (a\<lparr>acc_last_error := OLM_OUTPUT_BUFFER_TOO_SMALL\<rparr>, m, None)
         else
           let (m, _) = account_pickle m (olm_enc_output_pos pickled raw_length) a;
               (m, r) = olm_enc_output key m pickled raw_length
           in (a, m, Some r))"

definition olm_pickle_session ::
    "Session \<Rightarrow> bytes \<Rightarrow> mem \<Rightarrow> nat \<Rightarrow> nat \<Rightarrow> Session \<times> mem \<times> nat option" where
  "olm_pickle_session s key m pickled pickled_length =
     (let raw_length = session_pickle_length s
      in if pickled_length < olm_enc_output_length raw_length
         then (s\<lparr>sess_last_error := OLM_OUTPUT_BUFFER_TOO_SMALL\<rparr>, m, None)
         else
           let (m, _) = session_pickle m (olm_enc_output_pos pickled raw_length) s;
               (m, r) = olm_enc_output key m pickled raw_length
           in (s, m, Some r))"

text \<open>The part of the two unpickle functions after the envelope; the flag says if they succeed.\<close>

definition unpickle_account_raw :: "Account \<Rightarrow> bytes \<Rightarrow> Account \<times> bool" where
  "unpickle_account_raw a input =
     (let (a, pos) = account_unpickle a (Some input)
      in if pos = None then
           (if acc_last_error a = OLM_SUCCESS then a\<lparr>acc_last_error := OLM_CORRUPTED_PICKLE\<rparr> else a, False)
         else if pos \<noteq> Some [] then (a\<lparr>acc_last_error := OLM_PICKLE_EXTRA_DATA\<rparr>, False)
         else (a, True))"

definition unpickle_session_raw :: "Session \<Rightarrow> bytes \<Rightarrow> Session \<times> bool" where
  "unpickle_session_raw s input =
     (let (s, pos) = session_unpickle s (Some input)
      in if pos = None then
           (if sess_last_error s = OLM_SUCCESS then s\<lparr>sess_last_error := OLM_CORRUPTED_PICKLE\<rparr> else s, False)
         else if pos \<noteq> Some [] then (s\<lparr>sess_last_error := OLM_PICKLE_EXTRA_DATA\<rparr>, False)
         else (s, True))"

definition olm_unpickle_account ::
    "Account \<Rightarrow> bytes \<Rightarrow> mem \<Rightarrow> nat \<Rightarrow> nat \<Rightarrow> Account \<times> mem \<times> nat option" where
  "olm_unpickle_account a key m pickled pickled_length =
     (let (m, e, raw_length) = olm_enc_input key m pickled pickled_length (acc_last_error a);
          a = a\<lparr>acc_last_error := e\<rparr>
      in case raw_length of
           None \<Rightarrow> (a, m, None)
         | Some raw_length \<Rightarrow>
             let (a, ok) = unpickle_account_raw a (load m pickled raw_length)
             in (a, m, if ok then Some pickled_length else None))"

definition olm_unpickle_session ::
    "Session \<Rightarrow> bytes \<Rightarrow> mem \<Rightarrow> nat \<Rightarrow> nat \<Rightarrow> Session \<times> mem \<times> nat option" where
  "olm_unpickle_session s key m pickled pickled_length =
     (let (m, e, raw_length) = olm_enc_input key m pickled pickled_length (sess_last_error s);
          s = s\<lparr>sess_last_error := e\<rparr>
      in case raw_length of
           None \<Rightarrow> (s, m, None)
         | Some raw_length \<Rightarrow>
             let (s, ok) = unpickle_session_raw s (load m pickled raw_length)
             in (s, m, if ok then Some pickled_length else None))"

section \<open>Accounts\<close>

text \<open>The random bytes of the caller are cleared whatever the result.\<close>

definition olm_create_account ::
    "crypto_prims \<Rightarrow> Account \<Rightarrow> mem \<Rightarrow> nat \<Rightarrow> nat \<Rightarrow> Account \<times> mem \<times> nat option" where
  "olm_create_account P a m random random_length =
     (let (a, result) = new_account P a (load m random random_length)
      in (a, olm_unset m random random_length, result))"

definition olm_account_signature_length :: nat where
  "olm_account_signature_length = b64_output_length acc_signature_length"

definition olm_account_sign ::
    "crypto_prims \<Rightarrow> Account \<Rightarrow> bytes \<Rightarrow> mem \<Rightarrow> nat \<Rightarrow> nat \<Rightarrow> Account \<times> mem \<times> nat option" where
  "olm_account_sign P a message m signature signature_length =
     (let raw_length = acc_signature_length
      in if signature_length < b64_output_length raw_length
         then (a\<lparr>acc_last_error := OLM_OUTPUT_BUFFER_TOO_SMALL\<rparr>, m, None)
         else
           let (a, m, _) = acc_sign P a message m (b64_output_pos signature raw_length) raw_length;
               (m, r) = b64_output m signature raw_length
           in (a, m, Some r))"

definition olm_account_generate_one_time_keys ::
    "crypto_prims \<Rightarrow> Account \<Rightarrow> nat \<Rightarrow> mem \<Rightarrow> nat \<Rightarrow> nat \<Rightarrow> Account \<times> mem \<times> nat option" where
  "olm_account_generate_one_time_keys P a number_of_keys m random random_length =
     (let (a, result) = generate_one_time_keys P a number_of_keys (load m random random_length)
      in (a, olm_unset m random random_length, result))"

definition olm_account_generate_prekey ::
    "crypto_prims \<Rightarrow> Account \<Rightarrow> mem \<Rightarrow> nat \<Rightarrow> nat \<Rightarrow> Account \<times> mem \<times> nat option" where
  "olm_account_generate_prekey P a m random random_length =
     (let (a, result) = generate_prekey P a (load m random random_length)
      in (a, olm_unset m random random_length, result))"

definition olm_account_generate_fallback_key ::
    "crypto_prims \<Rightarrow> Account \<Rightarrow> mem \<Rightarrow> nat \<Rightarrow> nat \<Rightarrow> Account \<times> mem \<times> nat option" where
  "olm_account_generate_fallback_key P a m random random_length =
     (let (a, result) = generate_fallback_key P a (load m random random_length)
      in (a, olm_unset m random random_length, result))"

section \<open>Making sessions\<close>

text \<open>A key of the caller, in base64 of the right length, decoded to a local array.\<close>

definition decodes_to :: "bytes \<Rightarrow> nat \<Rightarrow> bool" where
  "decodes_to b64 raw_length \<longleftrightarrow> decode_base64_length (length b64) = Some raw_length"

definition local_key :: "bytes \<Rightarrow> bytes" where
  "local_key b64 = the (decode_base64_into b64)"

definition olm_create_outbound_session ::
    "crypto_prims \<Rightarrow> Session \<Rightarrow> Account \<Rightarrow> bytes \<Rightarrow> bytes \<Rightarrow> bytes \<Rightarrow> bytes \<Rightarrow> bytes
      \<Rightarrow> mem \<Rightarrow> nat \<Rightarrow> nat \<Rightarrow> Session \<times> mem \<times> nat option" where
  "olm_create_outbound_session P s a id_key s_key p_key p_sign ot_key m random random_length =
     (if \<not> decodes_to id_key CURVE25519_KEY_LENGTH
         \<or> \<not> decodes_to s_key ED25519_PUBLIC_KEY_LENGTH
         \<or> \<not> decodes_to ot_key CURVE25519_KEY_LENGTH
         \<or> \<not> decodes_to p_key CURVE25519_KEY_LENGTH
         \<or> \<not> decodes_to p_sign ED25519_SIGNATURE_LENGTH
      then (s\<lparr>sess_last_error := OLM_INVALID_BASE64\<rparr>, m, None)
      else
        let (s, result) = new_outbound_session P s a (local_key id_key) (local_key s_key) (local_key p_key)
              (local_key p_sign) (load m random random_length) (Some (local_key ot_key))
        in (s, olm_unset m random random_length, result))"

definition olm_create_outbound_session_without_otk ::
    "crypto_prims \<Rightarrow> Session \<Rightarrow> Account \<Rightarrow> bytes \<Rightarrow> bytes \<Rightarrow> bytes \<Rightarrow> bytes
      \<Rightarrow> mem \<Rightarrow> nat \<Rightarrow> nat \<Rightarrow> Session \<times> mem \<times> nat option" where
  "olm_create_outbound_session_without_otk P s a id_key s_key p_key p_sign m random random_length =
     (if \<not> decodes_to id_key CURVE25519_KEY_LENGTH
         \<or> \<not> decodes_to s_key ED25519_PUBLIC_KEY_LENGTH
         \<or> \<not> decodes_to p_key CURVE25519_KEY_LENGTH
         \<or> \<not> decodes_to p_sign ED25519_SIGNATURE_LENGTH
      then (s\<lparr>sess_last_error := OLM_INVALID_BASE64\<rparr>, m, None)
      else
        let (s, result) = new_outbound_session P s a (local_key id_key) (local_key s_key) (local_key p_key)
              (local_key p_sign) (load m random random_length) None
        in (s, olm_unset m random random_length, result))"

definition olm_create_inbound_session ::
    "crypto_prims \<Rightarrow> Session \<Rightarrow> Account \<Rightarrow> mem \<Rightarrow> nat \<Rightarrow> nat \<Rightarrow> Session \<times> mem \<times> outcome" where
  "olm_create_inbound_session P s a m one_time_key_message message_length =
     (let (m, e, raw_length) = b64_input m one_time_key_message message_length (sess_last_error s);
          s = s\<lparr>sess_last_error := e\<rparr>
      in case raw_length of
           None \<Rightarrow> (s, m, Fails)
         | Some raw_length \<Rightarrow>
             let (s, result) = new_inbound_session P s a None m one_time_key_message raw_length
             in (s, m, result))"

definition olm_create_inbound_session_from ::
    "crypto_prims \<Rightarrow> Session \<Rightarrow> Account \<Rightarrow> bytes \<Rightarrow> mem \<Rightarrow> nat \<Rightarrow> nat \<Rightarrow> Session \<times> mem \<times> outcome" where
  "olm_create_inbound_session_from P s a id_key m one_time_key_message message_length =
     (if \<not> decodes_to id_key CURVE25519_KEY_LENGTH
      then (s\<lparr>sess_last_error := OLM_INVALID_BASE64\<rparr>, m, Fails)
      else
        let identity_key = local_key id_key;
            (m, e, raw_length) = b64_input m one_time_key_message message_length (sess_last_error s);
            s = s\<lparr>sess_last_error := e\<rparr>
        in case raw_length of
             None \<Rightarrow> (s, m, Fails)
           | Some raw_length \<Rightarrow>
               let (s, result) = new_inbound_session P s a (Some identity_key) m one_time_key_message raw_length
               in (s, m, result))"

section \<open>Sessions\<close>

text \<open>\<open>tmp\<close> is the address of the array in \<open>Session::session_id\<close>.\<close>

definition olm_session_id :: "Session \<Rightarrow> mem \<Rightarrow> nat \<Rightarrow> nat \<Rightarrow> nat \<Rightarrow> Session \<times> mem \<times> nat option" where
  "olm_session_id s m tmp id_out id_length =
     (let raw_length = session_id_length
      in if id_length < b64_output_length raw_length
         then (s\<lparr>sess_last_error := OLM_OUTPUT_BUFFER_TOO_SMALL\<rparr>, m, None)
         else
           let (s, m, result) = session_id s m tmp (b64_output_pos id_out raw_length) raw_length
           in if result = None then (s, m, None)
              else let (m, r) = b64_output m id_out raw_length in (s, m, Some r))"

definition olm_session_has_received_message :: "Session \<Rightarrow> bool" where
  "olm_session_has_received_message s = received_message s"

definition olm_session_is_sender_chain_empty :: "Session \<Rightarrow> bool" where
  "olm_session_is_sender_chain_empty s = (sender_chain (sess_ratchet s) = [])"

definition olm_matches_inbound_session ::
    "Session \<Rightarrow> mem \<Rightarrow> nat \<Rightarrow> nat \<Rightarrow> Session \<times> mem \<times> nat option" where
  "olm_matches_inbound_session s m one_time_key_message message_length =
     (let (m, e, raw_length) = b64_input m one_time_key_message message_length (sess_last_error s);
          s = s\<lparr>sess_last_error := e\<rparr>
      in case raw_length of
           None \<Rightarrow> (s, m, None)
         | Some raw_length \<Rightarrow>
             let matches = matches_inbound_session s None m one_time_key_message raw_length
             in (s, m, Some (if matches then 1 else 0)))"

definition olm_matches_inbound_session_from ::
    "Session \<Rightarrow> bytes \<Rightarrow> mem \<Rightarrow> nat \<Rightarrow> nat \<Rightarrow> Session \<times> mem \<times> nat option" where
  "olm_matches_inbound_session_from s id_key m one_time_key_message message_length =
     (if \<not> decodes_to id_key CURVE25519_KEY_LENGTH
      then (s\<lparr>sess_last_error := OLM_INVALID_BASE64\<rparr>, m, None)
      else
        let identity_key = local_key id_key;
            (m, e, raw_length) = b64_input m one_time_key_message message_length (sess_last_error s);
            s = s\<lparr>sess_last_error := e\<rparr>
        in case raw_length of
             None \<Rightarrow> (s, m, None)
           | Some raw_length \<Rightarrow>
               let matches = matches_inbound_session s (Some identity_key) m one_time_key_message raw_length
               in (s, m, Some (if matches then 1 else 0)))"

definition olm_remove_one_time_keys :: "Account \<Rightarrow> Session \<Rightarrow> Account \<times> nat option" where
  "olm_remove_one_time_keys a s =
     (let using_prekey_as_otk = array_equal CURVE25519_KEY_LENGTH (bob_one_time_key s) (bob_prekey s)
      in if using_prekey_as_otk then (a, Some 0)
         else
           let (a, result) = remove_key a (bob_one_time_key s)
           in if result = None then (a\<lparr>acc_last_error := OLM_BAD_MESSAGE_KEY_ID\<rparr>, None) else (a, result))"

text \<open>The numbers of the two message types; the code takes every number but that of \<open>MESSAGE\<close> for a
  pre-key message.\<close>

definition message_type_number :: "MessageType \<Rightarrow> nat" where
  "message_type_number t = (case t of PRE_KEY \<Rightarrow> 0 | MESSAGE \<Rightarrow> 1)"

definition message_type_of :: "nat \<Rightarrow> MessageType" where
  "message_type_of n = (if n = 1 then MESSAGE else PRE_KEY)"

definition olm_encrypt_message_type :: "Session \<Rightarrow> nat" where
  "olm_encrypt_message_type s = message_type_number (encrypt_message_type s)"

definition olm_encrypt_message_length :: "Session \<Rightarrow> nat \<Rightarrow> nat" where
  "olm_encrypt_message_length s plaintext_length = b64_output_length (encrypt_message_length s plaintext_length)"

definition olm_encrypt ::
    "crypto_prims \<Rightarrow> Session \<Rightarrow> bytes \<Rightarrow> mem \<Rightarrow> nat \<Rightarrow> nat \<Rightarrow> nat \<Rightarrow> nat \<Rightarrow> Session \<times> mem \<times> nat option" where
  "olm_encrypt P s plaintext m random random_length message message_length =
     (let raw_length = encrypt_message_length s (length plaintext)
      in if message_length < b64_output_length raw_length
         then (s\<lparr>sess_last_error := OLM_OUTPUT_BUFFER_TOO_SMALL\<rparr>, m, None)
         else
           let (s, m, result) = session_encrypt P s plaintext (load m random random_length) m
                 (b64_output_pos message raw_length) raw_length;
               m = olm_unset m random random_length
           in if result = None then (s, m, None)
              else let (m, r) = b64_output m message raw_length in (s, m, Some r))"

definition olm_decrypt_max_plaintext_length ::
    "Session \<Rightarrow> nat \<Rightarrow> mem \<Rightarrow> nat \<Rightarrow> nat \<Rightarrow> Session \<times> mem \<times> nat option" where
  "olm_decrypt_max_plaintext_length s message_type m message message_length =
     (let (m, e, raw_length) = b64_input m message message_length (sess_last_error s);
          s = s\<lparr>sess_last_error := e\<rparr>
      in case raw_length of
           None \<Rightarrow> (s, m, None)
         | Some raw_length \<Rightarrow>
             let (s, result) = decrypt_max_plaintext_length s (message_type_of message_type) m message raw_length
             in (s, m, result))"

text \<open>\<open>olm_decrypt\<close> and \<open>olm_decrypt_sequential\<close>, which differ in one flag.\<close>

definition olm_decrypt_flagged ::
    "bool \<Rightarrow> crypto_prims \<Rightarrow> Session \<Rightarrow> nat \<Rightarrow> mem \<Rightarrow> nat \<Rightarrow> nat \<Rightarrow> nat \<Rightarrow> nat
      \<Rightarrow> Session \<times> mem \<times> nat option" where
  "olm_decrypt_flagged is_sequential P s message_type m message message_length plaintext max_plaintext_length =
     (let (m, e, raw_length) = b64_input m message message_length (sess_last_error s);
          s = s\<lparr>sess_last_error := e\<rparr>
      in case raw_length of
           None \<Rightarrow> (s, m, None)
         | Some raw_length \<Rightarrow>
             session_decrypt P s (message_type_of message_type) m message raw_length plaintext
               max_plaintext_length is_sequential)"

definition olm_decrypt ::
    "crypto_prims \<Rightarrow> Session \<Rightarrow> nat \<Rightarrow> mem \<Rightarrow> nat \<Rightarrow> nat \<Rightarrow> nat \<Rightarrow> nat \<Rightarrow> Session \<times> mem \<times> nat option" where
  "olm_decrypt = olm_decrypt_flagged False"

definition olm_decrypt_sequential ::
    "crypto_prims \<Rightarrow> Session \<Rightarrow> nat \<Rightarrow> mem \<Rightarrow> nat \<Rightarrow> nat \<Rightarrow> nat \<Rightarrow> nat \<Rightarrow> Session \<times> mem \<times> nat option" where
  "olm_decrypt_sequential = olm_decrypt_flagged True"

section \<open>Utilities\<close>

definition olm_sha256_length :: nat where
  "olm_sha256_length = b64_output_length sha256_length"

definition olm_sha256 :: "Utility \<Rightarrow> bytes \<Rightarrow> mem \<Rightarrow> nat \<Rightarrow> nat \<Rightarrow> Utility \<times> mem \<times> nat option" where
  "olm_sha256 u input m output output_length =
     (let raw_length = sha256_length
      in if output_length < b64_output_length raw_length
         then (u\<lparr>util_last_error := OLM_OUTPUT_BUFFER_TOO_SMALL\<rparr>, m, None)
         else
           let (u, m, result) = util_sha256 u input m (b64_output_pos output raw_length) raw_length
           in if result = None then (u, m, None)
              else let (m, r) = b64_output m output raw_length in (u, m, Some r))"

definition olm_ed25519_verify ::
    "crypto_prims \<Rightarrow> Utility \<Rightarrow> bytes \<Rightarrow> bytes \<Rightarrow> mem \<Rightarrow> nat \<Rightarrow> nat \<Rightarrow> Utility \<times> mem \<times> nat option" where
  "olm_ed25519_verify P u key message m signature signature_length =
     (if \<not> decodes_to key CURVE25519_KEY_LENGTH
      then (u\<lparr>util_last_error := OLM_INVALID_BASE64\<rparr>, m, None)
      else
        let verify_key = local_key key;
            (m, e, raw_signature_length) = b64_input m signature signature_length (util_last_error u);
            u = u\<lparr>util_last_error := e\<rparr>
        in case raw_signature_length of
             None \<Rightarrow> (u, m, None)
           | Some raw_signature_length \<Rightarrow>
               let (u, result) = util_ed25519_verify P u verify_key message (load m signature raw_signature_length)
               in (u, m, result))"

end
