(* ===== verification/SessionPickle.thy ===== *)
theory SessionPickle
  imports OlmApi
begin

text \<open>
  Pickled sessions and accounts: the bytes \<open>pickle\<close> of \<open>src/session.cpp\<close> writes, that
  \<open>unpickle\<close> reads them back, and the same through the envelope of \<open>src/olm.cpp\<close>, for sessions and
  for accounts.
\<close>

section \<open>The bytes of a session\<close>

definition ser_Session :: "Session \<Rightarrow> bytes" where
  "ser_Session s = be_bytes 4 SESSION_PICKLE_VERSION @ ser_bool (received_message s)
     @ alice_identity_key s @ alice_base_key s @ bob_one_time_key s @ bob_prekey s
     @ ser_Ratchet (sess_ratchet s)"

text \<open>A session that can be pickled and read back: all parts have their sizes.\<close>

definition whole_Session :: "Session \<Rightarrow> bool" where
  "whole_Session s \<longleftrightarrow> wf_Session s \<and> wf_Ratchet (sess_ratchet s) \<and>
     kdf_info (sess_ratchet s) = OLM_KDF_INFO \<and> ratchet_cipher (sess_ratchet s) = CIPHER_KDF_INFO"

definition fresh_Session :: "Session \<Rightarrow> bool" where
  "fresh_Session s \<longleftrightarrow> whole_Session s \<and> sender_chain (sess_ratchet s) = [] \<and>
     receiver_chains (sess_ratchet s) = [] \<and> skipped_message_keys (sess_ratchet s) = []"

text \<open>The session \<open>s\<close> with the error codes of the session read into.\<close>

definition restored_Session :: "Session \<Rightarrow> Session \<Rightarrow> Session" where
  "restored_Session s0 s = s\<lparr>sess_last_error := sess_last_error s0,
     sess_ratchet := (sess_ratchet s)\<lparr>r_last_error := r_last_error (sess_ratchet s0)\<rparr>\<rparr>"

lemma fresh_new_Session: "fresh_Session new_Session"
  by (simp add: fresh_Session_def whole_Session_def new_Session_def wf_Session_def new_Ratchet_def wf_Ratchet_def)

lemma length_ser_Session: "whole_Session s \<Longrightarrow> length (ser_Session s) = session_pickle_length s"
  by (simp add: ser_Session_def ser_bool_def session_pickle_length_def whole_Session_def wf_Session_def
      length_ser_Ratchet pickle_curve25519_public_key_length_def)

lemma session_pickle_eq:
  "whole_Session s \<Longrightarrow> session_pickle m pos s = (store m pos (ser_Session s), pos + session_pickle_length s)"
  by (simp add: session_pickle_def whole_Session_def wf_Session_def pickle_simps ratchet_pickle_eq
      flag_format.pickle_eq store_at_end pickle_curve25519_public_key_length_def session_pickle_length_def
      ser_Session_def)
    (simp add: ser_bool_def store_at_end)

lemma session_unpickle_ser:
  assumes "fresh_Session s0" "whole_Session s"
  shows "session_unpickle s0 (Some (ser_Session s @ rest)) = (restored_Session s0 s, Some rest)"
proof -
  have flag: "unpickle_bool b (Some (ser_bool (received_message s) @ more)) = (received_message s, Some more)" for b more
    by (rule flag_format.unpickle_ser) simp_all
  have key: "unpickle_curve25519_public_key old (Some (k @ more)) = (k, Some more)"
    if "length old = 32" "length k = 32" for old k more
    using that by (rule curve25519_public_key_format.unpickle_ser)
  have ratchet: "ratchet_unpickle (sess_ratchet s0) (Some (ser_Ratchet (sess_ratchet s) @ rest)) False =
      ((sess_ratchet s)\<lparr>r_last_error := r_last_error (sess_ratchet s0)\<rparr>, Some rest)"
    using ratchet_unpickle_ser [of "sess_ratchet s" "sess_ratchet s0" rest] assms
    by (simp add: fresh_Session_def whole_Session_def)
  show ?thesis
    using assms
    by (simp add: session_unpickle_def ser_Session_def pickle_simps SESSION_PICKLE_VERSION_def flag
        unpickle_session_keys_def key ratchet fresh_Session_def whole_Session_def wf_Session_def restored_Session_def)
qed

section \<open>Through the envelope\<close>

lemma unpickle_session_raw_ser:
  "fresh_Session s0 \<Longrightarrow> whole_Session s \<Longrightarrow> unpickle_session_raw s0 (ser_Session s) = (restored_Session s0 s, True)"
  using session_unpickle_ser [of s0 s "[]"] by (simp add: unpickle_session_raw_def)

interpretation session_object: pickled_object
  olm_enc_output_length olm_enc_output_pos pickle_seal olm_enc_output olm_enc_input
  whole_Session fresh_Session restored_Session ser_Session session_pickle_length sess_last_error
  "\<lambda>e s. s\<lparr>sess_last_error := e\<rparr>" olm_pickle_session unpickle_session_raw olm_unpickle_session
  by unfold_locales
    (simp_all add: length_ser_Session olm_pickle_session_def session_pickle_eq olm_unpickle_session_def
      unpickle_session_raw_ser Let_def)

definition fresh_Account :: "Account \<Rightarrow> bool" where
  "fresh_Account a \<longleftrightarrow> wf_Account a \<and> one_time_keys a = []"

lemma unpickle_account_raw_ser:
  "fresh_Account a0 \<Longrightarrow> wf_Account a \<Longrightarrow> unpickle_account_raw a0 (ser_Account a) = (restored a0 a, True)"
  using account_unpickle_ser [of a a0 "[]"] by (simp add: unpickle_account_raw_def fresh_Account_def)

interpretation account_object: pickled_object
  olm_enc_output_length olm_enc_output_pos pickle_seal olm_enc_output olm_enc_input
  wf_Account fresh_Account restored ser_Account account_pickle_length acc_last_error
  "\<lambda>e a. a\<lparr>acc_last_error := e\<rparr>" olm_pickle_account unpickle_account_raw olm_unpickle_account
  by unfold_locales
    (simp_all add: length_ser_Account olm_pickle_account_def account_pickle_eq olm_unpickle_account_def
      unpickle_account_raw_ser Let_def)

text \<open>C19: A pickled session, encrypted with a key and base64 encoded, unpickles with the same key into a cleared
  session: keys, flags, chains and skipped message keys are back, only the error codes are not stored.
  Pickling writes only the buffer, whose length is the one announced; a smaller buffer is refused and
  changes only the error code.\<close>

theorem sealed_session_round_trip:
  assumes "whole_Session s" "olm_pickle_session_length s < 2 ^ 64"
  shows "if n < olm_pickle_session_length s
    then olm_pickle_session s key m p n = (s\<lparr>sess_last_error := OLM_OUTPUT_BUFFER_TOO_SMALL\<rparr>, m, None)
    else \<exists>m1 m2. olm_pickle_session s key m p n = (s, m1, Some (olm_pickle_session_length s)) \<and>
      olm_unpickle_session olm_session key m1 p (olm_pickle_session_length s) =
        (s\<lparr>sess_last_error := OLM_SUCCESS, sess_ratchet := (sess_ratchet s)\<lparr>r_last_error := OLM_SUCCESS\<rparr>\<rparr>, m2,
         Some (olm_pickle_session_length s)) \<and>
      unchanged_outside p (olm_pickle_session_length s) m m1 \<and>
      unchanged_outside p (olm_pickle_session_length s) m m2"
proof -
  have "restored_Session olm_session s =
      s\<lparr>sess_last_error := OLM_SUCCESS, sess_ratchet := (sess_ratchet s)\<lparr>r_last_error := OLM_SUCCESS\<rparr>\<rparr>"
    by (simp add: restored_Session_def olm_session_def new_Session_def new_Ratchet_def)
  moreover have "fresh_Session olm_session" by (simp add: olm_session_def fresh_new_Session)
  ultimately show ?thesis
    using session_object.pickle_small_buffer [OF assms(1), of n key m p]
      session_object.pickle_unpickle [OF assms(1), of olm_session n key m p] assms(2)
    by (simp add: olm_pickle_session_length_def)
qed

lemma whole_new_Session: "whole_Session new_Session"
  using fresh_new_Session by (simp add: fresh_Session_def)

lemma sealed_session_round_trip_witness:
  "\<exists>m1 m2. olm_pickle_session new_Session [1] (\<lambda>_. 0) 7 (olm_pickle_session_length new_Session) =
      (new_Session, m1, Some (olm_pickle_session_length new_Session)) \<and>
    olm_unpickle_session olm_session [1] m1 7 (olm_pickle_session_length new_Session) =
      (new_Session, m2, Some (olm_pickle_session_length new_Session))"
proof -
  have "session_pickle_length new_Session = 177"
    by (simp add: session_pickle_length_def new_Session_def pickle_curve25519_public_key_length_def
        ratchet_pickle_length_def new_Ratchet_def pickle_list_length_def OLM_SHARED_KEY_LENGTH_def)
  then have len: "olm_pickle_session_length new_Session < 2 ^ 64"
    by (simp add: olm_pickle_session_length_def olm_enc_output_length_def encode_base64_length_alt
        aes_sha_256_cipher_encrypt_ciphertext_length_def olm_crypto_aes_encrypt_cbc_length_def)
  have "new_Session\<lparr>sess_last_error := OLM_SUCCESS,
      sess_ratchet := (sess_ratchet new_Session)\<lparr>r_last_error := OLM_SUCCESS\<rparr>\<rparr> = new_Session"
    by (simp add: new_Session_def new_Ratchet_def)
  with sealed_session_round_trip [OF whole_new_Session len, of "olm_pickle_session_length new_Session" "[1]" "\<lambda>_. 0" 7]
  show ?thesis by auto
qed

end
