(* ===== verification/ApiProtocol.thy ===== *)
theory ApiProtocol
  imports SessionPickle
begin

text \<open>
  Sessions as an application sees them, through \<open>src/olm.cpp\<close>: messages in base64 from one side to
  the other, and what becomes of a first message that arrives again.
\<close>

section \<open>Base64 in the caller's buffers\<close>

definition apart :: "nat \<Rightarrow> nat \<Rightarrow> nat \<Rightarrow> nat \<Rightarrow> bool" where
  "apart p n q k \<longleftrightarrow> p + n \<le> q \<or> q + k \<le> p"

lemma b64_input_eq:
  assumes "load m p n = b64enc raw" "n = encode_base64_length (length raw)"
  shows "b64_input m p n e = (store m p raw, e, Some (length raw))"
  using decode_base64_eq [of p p n m] assms
  by (simp add: b64_input_def decode_encode_length b64dec_b64enc decode_result_def)

lemma b64_output_eq:
  assumes "load m (b64_output_pos p n) n = raw"
  shows "b64_output m p n = (store m p (b64enc raw), b64_output_length n)"
proof -
  have "encode_base64 m (b64_output_pos p n) n p = (store m p (b64enc raw), p + encode_base64_length n)"
    using encode_base64_eq [of p n "b64_output_pos p n" m] encode_base64_length_le [of n] assms
    by (simp add: b64_output_pos_def)
  then show ?thesis
    by (simp add: b64_output_def b64_output_length_def b64_output_pos_def [symmetric] Let_def)
qed

lemma b64_output_pos_inside:
  "p \<le> b64_output_pos p n" "b64_output_pos p n + n = p + b64_output_length n"
  using encode_base64_length_le [of n] by (simp_all add: b64_output_pos_def b64_output_length_def)

section \<open>A message from one side to the other\<close>

lemma olm_encrypt_eq:
  fixes P s m rnd rlen
  defines "r1 \<equiv> start_sender_chain P (sess_ratchet s) (load m rnd rlen)"
  assumes "dh_law P" "paired P s r" "32 \<le> rlen" "olm_encrypt_message_length s (length pt) \<le> mlen"
    and "apart rnd rlen msg mlen"
  shows "\<exists>m'. olm_encrypt P s pt m rnd rlen msg mlen =
      (s\<lparr>sess_ratchet := sent r1\<rparr>, m', Some (olm_encrypt_message_length s (length pt))) \<and>
    load m' msg (olm_encrypt_message_length s (length pt)) = b64enc (session_message s r1 pt) \<and>
    load m' rnd rlen = replicate rlen 0"
proof -
  let ?n = "encrypt_message_length s (length pt)" and ?pos = "b64_output_pos msg (encrypt_message_length s (length pt))"
  have step: "in_step P (sess_ratchet s) (sess_ratchet r) \<or> in_step P (sess_ratchet r) (sess_ratchet s)"
    and wf: "wf_Session s" using assms(3) by (auto simp: paired_def)
  have "encrypt_random_length s \<le> length (load m rnd rlen)"
    using assms(4) by (simp add: encrypt_random_length_def ratchet_encrypt_random_length_def CURVE25519_RANDOM_LENGTH_def)
  from session_encrypt_eq [OF wf this sending_key_length [OF assms(2) step] order_refl, of pt m ?pos] obtain m1 k where
    enc: "session_encrypt P s pt (load m rnd rlen) m ?pos ?n = (s\<lparr>sess_ratchet := sent r1\<rparr>, m1, Some k)"
      "load m1 ?pos ?n = session_message s r1 pt"
    unfolding r1_def by blast
  let ?m2 = "store m1 rnd (replicate rlen 0)"
  have pos: "msg \<le> ?pos" "?pos + ?n = msg + olm_encrypt_message_length s (length pt)"
    using b64_output_pos_inside by (simp_all add: olm_encrypt_message_length_def)
  have "load ?m2 ?pos ?n = load m1 ?pos ?n"
    using assms(5,6) pos by (intro load_store_disjoint) (auto simp: apart_def)
  then have out: "b64_output ?m2 msg ?n =
      (store ?m2 msg (b64enc (session_message s r1 pt)), olm_encrypt_message_length s (length pt))"
    using b64_output_eq [of ?m2 msg ?n] enc(2) by (simp add: olm_encrypt_message_length_def)
  have len: "length (b64enc (session_message s r1 pt)) = olm_encrypt_message_length s (length pt)"
    using arg_cong [OF enc(2), of length] by (simp add: olm_encrypt_message_length_def b64_output_length_def)
  let ?m3 = "store ?m2 msg (b64enc (session_message s r1 pt))"
  have "olm_encrypt P s pt m rnd rlen msg mlen =
      (s\<lparr>sess_ratchet := sent r1\<rparr>, ?m3, Some (olm_encrypt_message_length s (length pt)))"
    using assms(5) by (simp add: olm_encrypt_def enc(1) olm_unset_store out Let_def)
      (simp add: olm_encrypt_message_length_def)
  moreover have "load ?m3 msg (olm_encrypt_message_length s (length pt)) = b64enc (session_message s r1 pt)"
    using len by (simp add: load_store_same)
  moreover have "load ?m3 rnd rlen = load ?m2 rnd rlen"
    using assms(5,6) len by (intro load_store_disjoint) (auto simp: apart_def)
  ultimately show ?thesis by (simp add: load_store_same)
qed

lemma message_type_inverse: "message_type_of (message_type_number t) = t"
  by (cases t) (simp_all add: message_type_of_def message_type_number_def)

lemma olm_decrypt_eq:
  fixes P s random
  defines "r1 \<equiv> start_sender_chain P (sess_ratchet s) random"
    and "u \<equiv> curve_public (olm_crypto_curve25519_generate_key P random)"
  assumes "dh_law P" "paired P s r" "max_len + 64 < 2 ^ 64"
    and "aes_sha_256_cipher_encrypt_ciphertext_length (length pt) \<le> max_len" "u \<notin> session_keys s r" "32 \<le> length random"
    and "load m c n = b64enc (session_message s r1 pt)" "apart p max_len c n"
  shows "\<exists>r' m'. olm_decrypt_flagged is_seq P r (olm_encrypt_message_type s) m c n p max_len = (r', m', Some (length pt)) \<and>
    load m' p (length pt) = pt \<and> paired P (s\<lparr>sess_ratchet := sent r1\<rparr>) r' \<and>
    session_keys (s\<lparr>sess_ratchet := sent r1\<rparr>) r' \<subseteq> Set.insert u (session_keys s r)"
proof -
  let ?raw = "session_message s r1 pt" and ?m = "store m c (session_message s r1 pt)"
  have n: "n = encode_base64_length (length ?raw)" using arg_cong [OF assms(9), of length] by simp
  have raw: "load ?m c (length ?raw) = ?raw" by (simp add: load_store_same)
  have "p + max_len \<le> c \<or> c + length ?raw \<le> p"
    using assms(10) encode_base64_length_le [of "length ?raw"] n by (auto simp: apart_def)
  from session_receives [OF assms(3-6) assms(7) [unfolded u_def] assms(8) raw [unfolded r1_def] this [unfolded r1_def], of is_seq]
  obtain r' w where dec: "session_decrypt P r (encrypt_message_type s) ?m c (length ?raw) p max_len is_seq =
      (r', store ?m p (pt @ w), Some (length pt))" "paired P (s\<lparr>sess_ratchet := sent r1\<rparr>) r'"
    "session_keys (s\<lparr>sess_ratchet := sent r1\<rparr>) r' \<subseteq> Set.insert u (session_keys s r)"
    unfolding r1_def u_def by blast
  have "olm_decrypt_flagged is_seq P r (olm_encrypt_message_type s) m c n p max_len =
      (r', store ?m p (pt @ w), Some (length pt))"
    using b64_input_eq [OF assms(9) n, of "sess_last_error r"] dec(1)
    by (simp add: olm_decrypt_flagged_def olm_encrypt_message_type_def message_type_inverse)
  then show ?thesis using dec(2,3) load_plaintext [of ?m p pt w] by auto
qed

text \<open>C5: A message through the C functions.  Two sessions that understand each other stay so: what the
  encryption of one side leaves in its message buffer, copied to the other side, decrypts there to the
  plaintext, as the type of message the sender named and in sequential mode or not.  The buffer holds base64
  of the announced length, the random bytes are cleared, and both sides can go on.\<close>

theorem api_messages_get_through:
  assumes "dh_law P" "paired P s r" "32 \<le> rlen" "olm_encrypt_message_length s (length pt) \<le> mlen"
    and "apart rnd rlen msg mlen"
    and "curve_public (olm_crypto_curve25519_generate_key P (load m rnd rlen)) \<notin> session_keys s r"
    and "aes_sha_256_cipher_encrypt_ciphertext_length (length pt) \<le> max_len" "max_len + 64 < 2 ^ 64"
    and "olm_encrypt P s pt m rnd rlen msg mlen = (s', m1, result)"
    and "n = olm_encrypt_message_length s (length pt)" "load m2 c n = load m1 msg n" "apart p max_len c n"
    and "(if sequential then olm_decrypt_sequential else olm_decrypt) P r (olm_encrypt_message_type s) m2 c n p max_len
      = (r', m3, received)"
  shows "result = Some n \<and> load m1 rnd rlen = replicate rlen 0 \<and>
    received = Some (length pt) \<and> load m3 p (length pt) = pt \<and> paired P s' r' \<and>
    session_keys s' r' \<subseteq> Set.insert (curve_public (olm_crypto_curve25519_generate_key P (load m rnd rlen))) (session_keys s r)"
proof -
  from olm_encrypt_eq [OF assms(1-5), of m] assms(9) have enc:
    "s' = s\<lparr>sess_ratchet := sent (start_sender_chain P (sess_ratchet s) (load m rnd rlen))\<rparr>" "result = Some n"
    "load m1 msg n = b64enc (session_message s (start_sender_chain P (sess_ratchet s) (load m rnd rlen)) pt)"
    "load m1 rnd rlen = replicate rlen 0"
    by (auto simp: assms(10))
  have "olm_decrypt_flagged sequential P r (olm_encrypt_message_type s) m2 c n p max_len = (r', m3, received)"
    using assms(13) by (cases sequential) (simp_all add: olm_decrypt_def olm_decrypt_sequential_def)
  moreover have "32 \<le> length (load m rnd rlen)" using assms(3) by simp
  ultimately show ?thesis using olm_decrypt_eq [OF assms(1,2,8,7,6) _ enc(3) [folded assms(11)] assms(12), of sequential] enc
    by auto
qed

section \<open>First messages that arrive again\<close>

lemma length_field_at [simp]: "length (field_at m p f) = CURVE25519_KEY_LENGTH"
  by (simp add: field_at_def)

lemma inbound_again:
  assumes "new_inbound_session P s0 b their_key m p n = (s, Returns r)"
  shows "length (bob_one_time_key s) = CURVE25519_KEY_LENGTH" "length (bob_prekey s) = CURVE25519_KEY_LENGTH"
    and "bob_one_time_key s = bob_prekey s \<Longrightarrow> snd (new_inbound_session P s1 b their_key m p n) = Returns r"
    and "bob_one_time_key s \<noteq> bob_prekey s \<Longrightarrow> lookup_key b' (bob_one_time_key s) = None \<Longrightarrow>
      \<exists>s2. new_inbound_session P s1 b' their_key m p n = (s2, Fails) \<and>
        sess_last_error s2 = OLM_BAD_MESSAGE_KEY_ID \<and> sess_ratchet s2 = sess_ratchet s1"
proof -
  let ?r = "decode_one_time_key_message (load m p n)"
  let ?mr = "decode_message (load m (p + the (pr_message ?r)) (pr_message_length ?r)) aes_sha_256_cipher_mac_length"
  note def = new_inbound_session_def Let_def
  have checks: "check_message_fields ?r (their_key \<noteq> None)" "pr_identity_key ?r \<noteq> None" "pr_prekey ?r \<noteq> None"
    "their_key = None \<or> the their_key = field_at m p (pr_identity_key ?r)"
    "mr_ratchet_key ?mr \<noteq> None" "mr_ratchet_key_length ?mr = CURVE25519_KEY_LENGTH"
    using assms by (auto simp: def split: if_splits option.splits)
  have keys: "bob_one_time_key s = field_at m p (pr_one_time_key ?r)" "bob_prekey s = field_at m p (pr_prekey ?r)"
    using assms by (auto simp: def split: if_splits option.splits)
  then show len: "length (bob_one_time_key s) = CURVE25519_KEY_LENGTH" "length (bob_prekey s) = CURVE25519_KEY_LENGTH"
    by simp_all
  show "snd (new_inbound_session P s1 b their_key m p n) = Returns r"
    using assms by (auto simp: def split: if_splits option.splits)
  show "\<exists>s2. new_inbound_session P s1 b' their_key m p n = (s2, Fails) \<and>
        sess_last_error s2 = OLM_BAD_MESSAGE_KEY_ID \<and> sess_ratchet s2 = sess_ratchet s1"
    if "bob_one_time_key s \<noteq> bob_prekey s" "lookup_key b' (bob_one_time_key s) = None"
    using that checks by (auto simp: def keys)
qed

text \<open>C6: A first message makes a session once, if it was made with a one-time key: after that key has been
  removed from the account, the same message is refused, and the ratchet of the session it was offered to is
  untouched.  A first message made without a one-time key can be replayed: there is nothing to remove, and it
  makes a session again.\<close>

theorem first_messages_work_once:
  assumes "wf_Account b" "distinct (map otk_public (private_keys b))"
    and "new_inbound_session P s0 b their_key m p n = (s, Returns r)"
    and "olm_remove_one_time_keys b s = (b', result)"
    and "bob_one_time_key s = bob_prekey s \<or> bob_one_time_key s \<in> otk_public ` set (one_time_keys b)"
  shows "result \<noteq> None \<and>
    (if bob_one_time_key s = bob_prekey s
     then b' = b \<and> snd (new_inbound_session P s1 b' their_key m p n) = Returns r
     else \<exists>s2. new_inbound_session P s1 b' their_key m p n = (s2, Fails) \<and>
       sess_last_error s2 = OLM_BAD_MESSAGE_KEY_ID \<and> sess_ratchet s2 = sess_ratchet s1)"
proof (cases "bob_one_time_key s = bob_prekey s")
  case True
  then show ?thesis
    using assms(4) inbound_again(1-3) [OF assms(3)] by (auto simp: olm_remove_one_time_keys_def)
next
  case False
  then obtain k where k: "k \<in> set (one_time_keys b)" "bob_one_time_key s = otk_public k" using assms(5) by auto
  note gone = remove_one_time_key [OF assms(1,2) k(1)]
  have "result \<noteq> None" "lookup_key b' (bob_one_time_key s) = None"
    using assms(4) inbound_again(1,2) [OF assms(3)] False gone(1,2) by (auto simp: olm_remove_one_time_keys_def k(2))
  then show ?thesis using False inbound_again(4) [OF assms(3) False, of b' s1] by simp
qed

section \<open>Witnesses\<close>

definition met_alice :: Session where
  "met_alice = alice_session sample_prims sample_alice_account (curve_public (identity_key_of sample_bob_account))
     (curve_public (pk_key (current_prekey sample_bob_account))) (Some sample_otk) (replicate 32 5 @ replicate 32 6)"

definition met_bob :: Session where
  "met_bob = bob_session sample_prims sample_alice_account (curve_public (identity_key_of sample_bob_account))
     (curve_public (pk_key (current_prekey sample_bob_account))) (Some sample_otk) (replicate 32 5 @ replicate 32 6)"

lemma sample_accounts_ready:
  "generated sample_prims (identity_key_of sample_alice_account)" "generated sample_prims (identity_key_of sample_bob_account)"
  "holds_keys sample_prims sample_bob_account (curve_public (pk_key (current_prekey sample_bob_account))) (Some sample_otk)"
proof -
  have rb: "96 \<le> length (replicate 64 (1 :: u8) @ replicate 32 2)" by simp
  show "generated sample_prims (identity_key_of sample_alice_account)"
    by (rule new_account_keys(1) [OF _ sample_alice_account_def]) simp
  note bob = published_keys [OF sample_dh_law sample_sign_law rb sample_bob_account_def refl]
  show "generated sample_prims (identity_key_of sample_bob_account)" by (rule bob(1))
  have "sample_otk \<in> otk_public ` set (one_time_keys sample_bob_account)"
    using arg_cong [OF sample_bob_keys(1), of set] by simp
  then show "holds_keys sample_prims sample_bob_account (curve_public (pk_key (current_prekey sample_bob_account))) (Some sample_otk)"
    using sample_bob_keys by (intro bob(3)) auto
qed

lemma met_paired:
  "paired sample_prims met_alice met_bob"
  "session_keys met_alice met_bob = {curve_public (olm_crypto_curve25519_generate_key sample_prims (replicate 32 6))}"
  using sessions_paired [OF wf_alice_session [OF sample_dh_law sample_accounts_ready], where
      bob_identity = "curve_public (identity_key_of sample_bob_account)" and random = "replicate 32 5 @ replicate 32 6"]
  by (simp_all add: met_alice_def met_bob_def)

lemma api_messages_get_through_witness:
  "\<exists>s' m1 r' m3. olm_encrypt sample_prims met_alice [7] (store (\<lambda>_. 0) 0 (replicate 32 7)) 0 32 32
      (olm_encrypt_message_length met_alice (length [7 :: u8])) = (s', m1, Some (olm_encrypt_message_length met_alice (length [7 :: u8]))) \<and>
    olm_decrypt sample_prims met_bob (olm_encrypt_message_type met_alice)
      (store (\<lambda>_. 0) 16 (load m1 32 (olm_encrypt_message_length met_alice (length [7 :: u8])))) 16
      (olm_encrypt_message_length met_alice (length [7 :: u8])) 0 16 = (r', m3, Some (length [7 :: u8])) \<and>
    load m3 0 (length [7 :: u8]) = [7]"
proof -
  let ?m = "store (\<lambda>_. 0) 0 (replicate 32 7)" and ?n = "olm_encrypt_message_length met_alice (length [7 :: u8])"
  obtain s' m1 res where enc: "olm_encrypt sample_prims met_alice [7] ?m 0 32 32 ?n = (s', m1, res)"
    by (metis surj_pair)
  let ?m2 = "store (\<lambda>_. 0) 16 (load m1 32 ?n)"
  obtain r' m3 rec where dec: "olm_decrypt sample_prims met_bob (olm_encrypt_message_type met_alice) ?m2 16 ?n 0 16 = (r', m3, rec)"
    by (metis surj_pair)
  have random: "load ?m 0 32 = replicate 32 7" by (rule load_store_same) simp
  have fresh: "curve_public (olm_crypto_curve25519_generate_key sample_prims (load ?m 0 32)) \<notin> session_keys met_alice met_bob"
    using sample_ratchet_keys by (auto simp: random met_paired(2))
  have copy: "load ?m2 16 ?n = load m1 32 ?n" by (rule load_store_same) simp
  have prems: "apart 0 32 32 ?n" "aes_sha_256_cipher_encrypt_ciphertext_length (length [7 :: u8]) \<le> 16"
    "(16 :: nat) + 64 < 2 ^ 64" "apart 0 16 16 ?n"
    by (simp_all add: apart_def aes_sha_256_cipher_encrypt_ciphertext_length_def olm_crypto_aes_encrypt_cbc_length_def)
  have "(if False then olm_decrypt_sequential else olm_decrypt) sample_prims met_bob (olm_encrypt_message_type met_alice)
      ?m2 16 ?n 0 16 = (r', m3, rec)"
    using dec by simp
  from api_messages_get_through [OF sample_dh_law met_paired(1) order_refl order_refl prems(1) fresh prems(2,3) enc refl
      copy prems(4) this]
  have "res = Some ?n \<and> rec = Some (length [7 :: u8]) \<and> load m3 0 (length [7 :: u8]) = [7]" by blast
  then show ?thesis using enc dec by blast
qed

lemma sample_bob_account_ok:
  "wf_Account sample_bob_account" "distinct (map otk_public (private_keys sample_bob_account))"
  "sample_otk \<in> otk_public ` set (one_time_keys sample_bob_account)"
proof -
  show "wf_Account sample_bob_account"
    unfolding sample_bob_account_def
    by (intro wf_generate_one_time_keys wf_new_account sample_dh_law sample_sign_law wf_zero_keys)
  have "map otk_public (private_keys sample_bob_account) = [sample_otk]" by code_simp
  then show "distinct (map otk_public (private_keys sample_bob_account))" by simp
  show "sample_otk \<in> otk_public ` set (one_time_keys sample_bob_account)"
    using arg_cong [OF sample_bob_keys(1), of set] by simp
qed

lemma first_messages_work_once_witness:
  "let msg = session_message met_alice (sess_ratchet met_alice) [7];
       (b', result) = olm_remove_one_time_keys sample_bob_account met_bob
   in \<exists>s2. new_inbound_session sample_prims new_Session b' None (store (\<lambda>_. 0) 0 msg) 0 (length msg) = (s2, Fails) \<and>
     sess_last_error s2 = OLM_BAD_MESSAGE_KEY_ID"
proof -
  let ?msg = "session_message met_alice (sess_ratchet met_alice) [7]"
  have "load (store (\<lambda>_. 0) 0 ?msg) 0 (length ?msg) = ?msg" by (rule load_store_same) simp
  from new_inbound_session_eq [OF sample_dh_law sample_accounts_ready, where their_key = None and pt = "[7]" and
      m = "store (\<lambda>_. 0) 0 ?msg" and p = 0 and n = "length ?msg" and random = "replicate 32 5 @ replicate 32 6"] this
  have made: "new_inbound_session sample_prims new_Session sample_bob_account None (store (\<lambda>_. 0) 0 ?msg) 0 (length ?msg) =
      (met_bob, Returns 0)"
    by (simp add: met_alice_def met_bob_def aes_sha_256_cipher_encrypt_ciphertext_length_def
        olm_crypto_aes_encrypt_cbc_length_def)
  have keys: "bob_one_time_key met_bob = sample_otk" "bob_prekey met_bob = curve_public (pk_key (current_prekey sample_bob_account))"
    by (simp_all add: met_bob_def bob_session_def alice_session_def Let_def)
  obtain b' result where rm: "olm_remove_one_time_keys sample_bob_account met_bob = (b', result)" by fastforce
  from first_messages_work_once [OF sample_bob_account_ok(1,2) made rm, of new_Session] sample_bob_keys(2)
    sample_bob_account_ok(3)
  show ?thesis by (auto simp: keys rm Let_def)
qed

end
