(* ===== verification/Pk.thy ===== *)
theory Pk
  imports ApiProtocol
begin

text \<open>
  \<open>src/pk.cpp\<close>: encryption to the owner of a public key, its decryption, and signatures.  The
  keys and MACs go through base64 in the caller's buffers; the local arrays of the code are byte strings.
\<close>

section \<open>Encryption\<close>

text \<open>The key derivation of \<open>olm_pk_cipher\<close> has no information string.\<close>

definition OLM_PK_KDF_INFO :: bytes where "OLM_PK_KDF_INFO = []"

record OlmPkEncryption =
  pke_last_error :: OlmErrorCode
  recipient_key :: bytes

definition olm_pk_encryption :: OlmPkEncryption where
  "olm_pk_encryption = \<lparr>pke_last_error = OLM_SUCCESS, recipient_key = replicate 32 0\<rparr>"

definition olm_clear_pk_encryption :: "OlmPkEncryption \<Rightarrow> OlmPkEncryption" where
  "olm_clear_pk_encryption e = olm_pk_encryption"

definition olm_pk_key_length :: nat where
  "olm_pk_key_length = encode_base64_length CURVE25519_KEY_LENGTH"

definition olm_pk_encryption_set_recipient_key :: "OlmPkEncryption \<Rightarrow> bytes \<Rightarrow> OlmPkEncryption \<times> nat option" where
  "olm_pk_encryption_set_recipient_key e key =
     (if length key < olm_pk_key_length
      then (e\<lparr>pke_last_error := OLM_INPUT_BUFFER_TOO_SMALL\<rparr>, None)
      else (e\<lparr>recipient_key := the (decode_base64_into (take olm_pk_key_length key))\<rparr>, Some 0))"

definition olm_pk_ciphertext_length :: "nat \<Rightarrow> nat" where
  "olm_pk_ciphertext_length plaintext_length =
     encode_base64_length (aes_sha_256_cipher_encrypt_ciphertext_length plaintext_length)"

definition olm_pk_mac_length :: nat where
  "olm_pk_mac_length = encode_base64_length aes_sha_256_cipher_mac_length"

definition olm_pk_encrypt_random_length :: nat where
  "olm_pk_encrypt_random_length = CURVE25519_KEY_LENGTH"

text \<open>
  The call of the cipher: the ciphertext, and the local array for the MAC, which is handed over as
  the whole message, 8 bytes long.
\<close>

definition pk_cipher_encrypt :: "bytes \<Rightarrow> bytes \<Rightarrow> bytes \<times> bytes \<times> nat option" where
  "pk_cipher_encrypt secret plaintext =
     (let n = aes_sha_256_cipher_encrypt_ciphertext_length (length plaintext);
          (local, result) = aes_sha_256_cipher_encrypt OLM_PK_KDF_INFO secret plaintext (\<lambda>_. 0) 0 n n MAC_LENGTH
      in (load local 0 n, load local n MAC_LENGTH, result))"

definition olm_pk_encrypt ::
    "crypto_prims \<Rightarrow> OlmPkEncryption \<Rightarrow> bytes \<Rightarrow> mem \<Rightarrow> nat \<Rightarrow> nat \<Rightarrow> nat \<Rightarrow> nat \<Rightarrow> nat \<Rightarrow> nat \<Rightarrow> bytes
      \<Rightarrow> OlmPkEncryption \<times> mem \<times> nat option" where
  "olm_pk_encrypt P e plaintext m ciphertext ciphertext_length mac mac_length ephemeral_key ephemeral_key_size random =
     (if ciphertext_length < olm_pk_ciphertext_length (length plaintext)
         \<or> mac_length < aes_sha_256_cipher_mac_length
         \<or> ephemeral_key_size < olm_pk_key_length
      then (e\<lparr>pke_last_error := OLM_OUTPUT_BUFFER_TOO_SMALL\<rparr>, m, None)
      else if length random < olm_pk_encrypt_random_length
      then (e\<lparr>pke_last_error := OLM_NOT_ENOUGH_RANDOM\<rparr>, m, None)
      else
        let ephemeral_keypair = olm_crypto_curve25519_generate_key P random;
            (m, _) = encode_base64_from (curve_public ephemeral_keypair) m ephemeral_key;
            secret = olm_crypto_curve25519_shared_secret P ephemeral_keypair (recipient_key e);
            raw_ciphertext_length = aes_sha_256_cipher_encrypt_ciphertext_length (length plaintext);
            ciphertext_pos = ciphertext + ciphertext_length - raw_ciphertext_length;
            (raw_ciphertext, raw_mac, result) = pk_cipher_encrypt secret plaintext;
            m = store m ciphertext_pos raw_ciphertext
        in if result \<noteq> None
           then
             let (m, _) = encode_base64_from raw_mac m mac;
                 (m, _) = encode_base64 m ciphertext_pos raw_ciphertext_length ciphertext
             in (e, m, result)
           else (e, m, result))"

section \<open>Decryption\<close>

record OlmPkDecryption =
  pkd_last_error :: OlmErrorCode
  pkd_key_pair :: curve25519_key_pair

definition olm_pk_decryption :: OlmPkDecryption where
  "olm_pk_decryption = \<lparr>pkd_last_error = OLM_SUCCESS, pkd_key_pair = zero_curve25519_key_pair\<rparr>"

definition olm_clear_pk_decryption :: "OlmPkDecryption \<Rightarrow> OlmPkDecryption" where
  "olm_clear_pk_decryption d = olm_pk_decryption"

definition olm_pk_private_key_length :: nat where
  "olm_pk_private_key_length = CURVE25519_KEY_LENGTH"

definition olm_pk_generate_key_random_length :: nat where
  "olm_pk_generate_key_random_length = olm_pk_private_key_length"

definition olm_pk_key_from_private ::
    "crypto_prims \<Rightarrow> OlmPkDecryption \<Rightarrow> mem \<Rightarrow> nat \<Rightarrow> nat \<Rightarrow> bytes \<Rightarrow> OlmPkDecryption \<times> mem \<times> nat option" where
  "olm_pk_key_from_private P d m pubkey pubkey_length privkey =
     (if pubkey_length < olm_pk_key_length
      then (d\<lparr>pkd_last_error := OLM_OUTPUT_BUFFER_TOO_SMALL\<rparr>, m, None)
      else if length privkey < olm_pk_private_key_length
      then (d\<lparr>pkd_last_error := OLM_INPUT_BUFFER_TOO_SMALL\<rparr>, m, None)
      else
        let d = d\<lparr>pkd_key_pair := olm_crypto_curve25519_generate_key P privkey\<rparr>;
            (m, _) = encode_base64_from (curve_public (pkd_key_pair d)) m pubkey
        in (d, m, Some 0))"

definition olm_pk_generate_key ::
    "crypto_prims \<Rightarrow> OlmPkDecryption \<Rightarrow> mem \<Rightarrow> nat \<Rightarrow> nat \<Rightarrow> bytes \<Rightarrow> OlmPkDecryption \<times> mem \<times> nat option" where
  "olm_pk_generate_key P d m pubkey pubkey_length privkey =
     olm_pk_key_from_private P d m pubkey pubkey_length privkey"

text \<open>
  \<open>decode_base64_length\<close> of a wrong length is \<open>std::size_t(-1)\<close>, and so is the plaintext length then.
\<close>

definition olm_pk_max_plaintext_length :: "nat \<Rightarrow> nat" where
  "olm_pk_max_plaintext_length ciphertext_length =
     aes_sha_256_cipher_decrypt_max_plaintext_length
       (case decode_base64_length ciphertext_length of None \<Rightarrow> 2 ^ 64 - 1 | Some n \<Rightarrow> n)"

definition olm_pk_decrypt ::
    "crypto_prims \<Rightarrow> OlmPkDecryption \<Rightarrow> bytes \<Rightarrow> bytes \<Rightarrow> mem \<Rightarrow> nat \<Rightarrow> nat \<Rightarrow> nat \<Rightarrow> nat
      \<Rightarrow> OlmPkDecryption \<times> mem \<times> nat option" where
  "olm_pk_decrypt P d ephemeral_key mac m ciphertext ciphertext_length plaintext max_plaintext_length =
     (if max_plaintext_length < olm_pk_max_plaintext_length ciphertext_length
      then (d\<lparr>pkd_last_error := OLM_OUTPUT_BUFFER_TOO_SMALL\<rparr>, m, None)
      else
        let raw_ciphertext_length = decode_base64_length ciphertext_length
        in if length ephemeral_key \<noteq> encode_base64_length CURVE25519_KEY_LENGTH
              \<or> length mac \<noteq> encode_base64_length MAC_LENGTH
              \<or> raw_ciphertext_length = None
           then (d\<lparr>pkd_last_error := OLM_INVALID_BASE64\<rparr>, m, None)
           else
             let raw_ciphertext_length = the raw_ciphertext_length;
                 ephemeral = the (decode_base64_into ephemeral_key);
                 secret = olm_crypto_curve25519_shared_secret P (pkd_key_pair d) ephemeral;
                 raw_mac = the (decode_base64_into mac);
                 (m, _) = decode_base64 m ciphertext ciphertext_length ciphertext;
                 (output, result) = aes_sha_256_cipher_decrypt OLM_PK_KDF_INFO secret raw_mac
                   (load m ciphertext (raw_ciphertext_length + 16)) raw_ciphertext_length
                   (m (plaintext - 1)) max_plaintext_length;
                 m = store m plaintext output
             in if result = None then (d\<lparr>pkd_last_error := OLM_BAD_MESSAGE_MAC\<rparr>, m, None)
                else (d, m, result))"

definition olm_pk_get_private_key ::
    "OlmPkDecryption \<Rightarrow> mem \<Rightarrow> nat \<Rightarrow> nat \<Rightarrow> OlmPkDecryption \<times> mem \<times> nat option" where
  "olm_pk_get_private_key d m private_key private_key_length =
     (if private_key_length < olm_pk_private_key_length
      then (d\<lparr>pkd_last_error := OLM_OUTPUT_BUFFER_TOO_SMALL\<rparr>, m, None)
      else (d, store m private_key (take olm_pk_private_key_length (curve_private (pkd_key_pair d))),
            Some olm_pk_private_key_length))"

section \<open>Pickled keys\<close>

definition PK_DECRYPTION_PICKLE_VERSION :: u32 where "PK_DECRYPTION_PICKLE_VERSION = 1"

definition pk_pickle_length :: "OlmPkDecryption \<Rightarrow> nat" where
  "pk_pickle_length value = 4 + pickle_curve25519_key_pair_length (pkd_key_pair value)"

definition pk_pickle :: "mem \<Rightarrow> nat \<Rightarrow> OlmPkDecryption \<Rightarrow> mem \<times> nat" where
  "pk_pickle m pos value =
     (let (m, pos) = pickle_u32 m pos PK_DECRYPTION_PICKLE_VERSION;
          (m, pos) = pickle_curve25519_key_pair m pos (pkd_key_pair value)
      in (m, pos))"

definition pk_unpickle :: "OlmPkDecryption \<Rightarrow> bytes option \<Rightarrow> OlmPkDecryption \<times> bytes option" where
  "pk_unpickle value pos =
     (let (pickle_version, pos) = unpickle_u32 0 pos
      in if pos = None then (value, None)
         else if pickle_version \<noteq> 1 then (value\<lparr>pkd_last_error := OLM_UNKNOWN_PICKLE_VERSION\<rparr>, None)
         else
           let (k, pos) = unpickle_curve25519_key_pair (pkd_key_pair value) pos
           in (value\<lparr>pkd_key_pair := k\<rparr>, pos))"

definition olm_pickle_pk_decryption_length :: "OlmPkDecryption \<Rightarrow> nat" where
  "olm_pickle_pk_decryption_length d = olm_enc_output_length (pk_pickle_length d)"

definition olm_pickle_pk_decryption ::
    "OlmPkDecryption \<Rightarrow> bytes \<Rightarrow> mem \<Rightarrow> nat \<Rightarrow> nat \<Rightarrow> OlmPkDecryption \<times> mem \<times> nat option" where
  "olm_pickle_pk_decryption d key m pickled pickled_length =
     (let raw_length = pk_pickle_length d
      in if pickled_length < olm_enc_output_length raw_length
         then (d\<lparr>pkd_last_error := OLM_OUTPUT_BUFFER_TOO_SMALL\<rparr>, m, None)
         else
           let (m, _) = pk_pickle m (olm_enc_output_pos pickled raw_length) d;
               (m, r) = olm_enc_output key m pickled raw_length
           in (d, m, Some r))"

definition unpickle_pk_raw :: "OlmPkDecryption \<Rightarrow> bytes \<Rightarrow> OlmPkDecryption \<times> bool" where
  "unpickle_pk_raw d input =
     (let (d, pos) = pk_unpickle d (Some input)
      in if pos = None then
           (if pkd_last_error d = OLM_SUCCESS then d\<lparr>pkd_last_error := OLM_CORRUPTED_PICKLE\<rparr> else d, False)
         else if pos \<noteq> Some [] then (d\<lparr>pkd_last_error := OLM_PICKLE_EXTRA_DATA\<rparr>, False)
         else (d, True))"

text \<open>\<open>pubkey\<close> is \<open>None\<close> for the null pointer.\<close>

definition olm_unpickle_pk_decryption ::
    "OlmPkDecryption \<Rightarrow> bytes \<Rightarrow> mem \<Rightarrow> nat \<Rightarrow> nat \<Rightarrow> nat option \<Rightarrow> nat
      \<Rightarrow> OlmPkDecryption \<times> mem \<times> nat option" where
  "olm_unpickle_pk_decryption d key m pickled pickled_length pubkey pubkey_length =
     (if pubkey \<noteq> None \<and> pubkey_length < olm_pk_key_length
      then (d\<lparr>pkd_last_error := OLM_OUTPUT_BUFFER_TOO_SMALL\<rparr>, m, None)
      else
        let (m, e, raw_length) = olm_enc_input key m pickled pickled_length (pkd_last_error d);
            d = d\<lparr>pkd_last_error := e\<rparr>
        in case raw_length of
             None \<Rightarrow> (d, m, None)
           | Some raw_length \<Rightarrow>
               let (d, ok) = unpickle_pk_raw d (load m pickled raw_length)
               in if \<not> ok then (d, m, None)
                  else
                    let m = (case pubkey of
                          None \<Rightarrow> m
                        | Some p \<Rightarrow> fst (encode_base64_from (curve_public (pkd_key_pair d)) m p))
                    in (d, m, Some pickled_length))"

section \<open>Signatures\<close>

record OlmPkSigning =
  pks_last_error :: OlmErrorCode
  pks_key_pair :: ed25519_key_pair

definition olm_pk_signing :: OlmPkSigning where
  "olm_pk_signing = \<lparr>pks_last_error = OLM_SUCCESS, pks_key_pair = zero_ed25519_key_pair\<rparr>"

definition olm_clear_pk_signing :: "OlmPkSigning \<Rightarrow> OlmPkSigning" where
  "olm_clear_pk_signing s = olm_pk_signing"

definition olm_pk_signing_seed_length :: nat where
  "olm_pk_signing_seed_length = ED25519_RANDOM_LENGTH"

definition olm_pk_signing_public_key_length :: nat where
  "olm_pk_signing_public_key_length = encode_base64_length ED25519_PUBLIC_KEY_LENGTH"

definition olm_pk_signing_key_from_seed ::
    "crypto_prims \<Rightarrow> OlmPkSigning \<Rightarrow> mem \<Rightarrow> nat \<Rightarrow> nat \<Rightarrow> bytes \<Rightarrow> OlmPkSigning \<times> mem \<times> nat option" where
  "olm_pk_signing_key_from_seed P s m pubkey pubkey_length seed =
     (if pubkey_length < olm_pk_signing_public_key_length
      then (s\<lparr>pks_last_error := OLM_OUTPUT_BUFFER_TOO_SMALL\<rparr>, m, None)
      else if length seed < olm_pk_signing_seed_length
      then (s\<lparr>pks_last_error := OLM_INPUT_BUFFER_TOO_SMALL\<rparr>, m, None)
      else
        let s = s\<lparr>pks_key_pair := olm_crypto_ed25519_generate_key P seed\<rparr>;
            (m, _) = encode_base64_from (ed_public (pks_key_pair s)) m pubkey
        in (s, m, Some 0))"

definition olm_pk_signature_length :: nat where
  "olm_pk_signature_length = encode_base64_length ED25519_SIGNATURE_LENGTH"

definition olm_pk_sign ::
    "crypto_prims \<Rightarrow> OlmPkSigning \<Rightarrow> bytes \<Rightarrow> mem \<Rightarrow> nat \<Rightarrow> nat \<Rightarrow> OlmPkSigning \<times> mem \<times> nat option" where
  "olm_pk_sign P s message m signature signature_length =
     (if signature_length < olm_pk_signature_length
      then (s\<lparr>pks_last_error := OLM_OUTPUT_BUFFER_TOO_SMALL\<rparr>, m, None)
      else
        let raw_sig = signature + olm_pk_signature_length - ED25519_SIGNATURE_LENGTH;
            m = store m raw_sig (olm_crypto_ed25519_sign P (pks_key_pair s) message);
            (m, _) = encode_base64 m raw_sig ED25519_SIGNATURE_LENGTH signature
        in (s, m, Some olm_pk_signature_length))"

end
