(* ===== verification/InboundGroup.thy ===== *)
theory InboundGroup
  imports OutboundGroup
begin

text \<open>
  \<open>src/inbound_group_session.c\<close>: the receiver of a group session.  It keeps the earliest
  ratchet it was given and the latest one it advanced to.
\<close>

definition INBOUND_PICKLE_VERSION :: u32 where "INBOUND_PICKLE_VERSION = 2"
definition SESSION_EXPORT_VERSION :: u8 where "SESSION_EXPORT_VERSION = 1"

record OlmInboundGroupSession =
  ig_initial_ratchet :: Megolm
  ig_latest_ratchet :: Megolm
  ig_signing_key :: bytes
  ig_signing_key_verified :: u32 \<comment> \<open>an \<open>int\<close>\<close>
  ig_last_error :: OlmErrorCode

definition olm_inbound_group_session_size :: nat where
  "olm_inbound_group_session_size = (128 + 4) + (128 + 4) + 32 + 4 + 4"

definition olm_clear_inbound_group_session ::
    "OlmInboundGroupSession \<Rightarrow> OlmInboundGroupSession \<times> nat" where
  "olm_clear_inbound_group_session session =
     (\<lparr>ig_initial_ratchet = zero_megolm, ig_latest_ratchet = zero_megolm,
       ig_signing_key = replicate 32 0, ig_signing_key_verified = 0,
       ig_last_error = OLM_SUCCESS\<rparr>, olm_inbound_group_session_size)"

definition olm_inbound_group_session :: "OlmInboundGroupSession \<Rightarrow> OlmInboundGroupSession" where
  "olm_inbound_group_session memory = fst (olm_clear_inbound_group_session memory)"

definition olm_inbound_group_session_last_error :: "OlmInboundGroupSession \<Rightarrow> string" where
  "olm_inbound_group_session_last_error session =
     olm_error_to_string (error_number (ig_last_error session))"

definition olm_inbound_group_session_last_error_code :: "OlmInboundGroupSession \<Rightarrow> OlmErrorCode" where
  "olm_inbound_group_session_last_error_code session = ig_last_error session"

section \<open>Creation from a shared or an exported key\<close>

definition SESSION_EXPORT_RAW_LENGTH :: nat where
  "SESSION_EXPORT_RAW_LENGTH = 1 + 4 + MEGOLM_RATCHET_LENGTH + ED25519_PUBLIC_KEY_LENGTH"

text \<open>
  The counter is decoded with the loop of \<open>unpickle_loop\<close>.  The flag is \<open>False\<close> for an error.
\<close>

definition init_group_session_keys ::
    "crypto_prims \<Rightarrow> OlmInboundGroupSession \<Rightarrow> bytes \<Rightarrow> bool \<Rightarrow> OlmInboundGroupSession \<times> bool" where
  "init_group_session_keys P session key_buf export_format =
     (let expected_version = (if export_format then SESSION_EXPORT_VERSION else SESSION_KEY_VERSION);
          version = hd key_buf;
          ptr = tl key_buf
      in if version \<noteq> expected_version then (session\<lparr>ig_last_error := OLM_BAD_SESSION_KEY\<rparr>, False)
         else
           let (counter, ptr) = unpickle_loop 4 0 ptr;
               session = session\<lparr>ig_initial_ratchet := megolm_init ptr counter,
                                 ig_latest_ratchet := megolm_init ptr counter\<rparr>;
               ptr = drop MEGOLM_RATCHET_LENGTH ptr;
               session = session\<lparr>ig_signing_key := take ED25519_PUBLIC_KEY_LENGTH ptr\<rparr>;
               ptr = drop ED25519_PUBLIC_KEY_LENGTH ptr
           in if \<not> export_format then
                if \<not> olm_crypto_ed25519_verify P (ig_signing_key session)
                       (take (length key_buf - length ptr) key_buf) (take ED25519_SIGNATURE_LENGTH ptr)
                then (session\<lparr>ig_last_error := OLM_BAD_SIGNATURE\<rparr>, False)
                else (session\<lparr>ig_signing_key_verified := 1\<rparr>, True)
              else (session, True))"

definition olm_init_inbound_group_session ::
    "crypto_prims \<Rightarrow> OlmInboundGroupSession \<Rightarrow> bytes \<Rightarrow> OlmInboundGroupSession \<times> nat option" where
  "olm_init_inbound_group_session P session session_key =
     (let raw_length = decode_base64_length (length session_key)
      in if raw_length = None then (session\<lparr>ig_last_error := OLM_INVALID_BASE64\<rparr>, None)
         else if raw_length \<noteq> Some SESSION_KEY_RAW_LENGTH
         then (session\<lparr>ig_last_error := OLM_BAD_SESSION_KEY\<rparr>, None)
         else
           let key_buf = the (decode_base64_into session_key);
               (session, ok) = init_group_session_keys P session key_buf False
           in (session, if ok then Some 0 else None))"

definition olm_import_inbound_group_session ::
    "crypto_prims \<Rightarrow> OlmInboundGroupSession \<Rightarrow> bytes \<Rightarrow> OlmInboundGroupSession \<times> nat option" where
  "olm_import_inbound_group_session P session session_key =
     (let raw_length = decode_base64_length (length session_key)
      in if raw_length = None then (session\<lparr>ig_last_error := OLM_INVALID_BASE64\<rparr>, None)
         else if raw_length \<noteq> Some SESSION_EXPORT_RAW_LENGTH
         then (session\<lparr>ig_last_error := OLM_BAD_SESSION_KEY\<rparr>, None)
         else
           let key_buf = the (decode_base64_into session_key);
               (session, ok) = init_group_session_keys P session key_buf True
           in (session, if ok then Some 0 else None))"

section \<open>Pickles\<close>

definition inbound_raw_pickle_length :: "OlmInboundGroupSession \<Rightarrow> nat" where
  "inbound_raw_pickle_length session =
     4 + megolm_pickle_length (ig_initial_ratchet session)
       + megolm_pickle_length (ig_latest_ratchet session)
       + olm_pickle_ed25519_public_key_length (ig_signing_key session) + 1"

definition olm_pickle_inbound_group_session_length :: "OlmInboundGroupSession \<Rightarrow> nat" where
  "olm_pickle_inbound_group_session_length session =
     olm_enc_output_length (inbound_raw_pickle_length session)"

definition olm_pickle_inbound_group_session ::
    "OlmInboundGroupSession \<Rightarrow> bytes \<Rightarrow> mem \<Rightarrow> nat \<Rightarrow> nat
      \<Rightarrow> OlmInboundGroupSession \<times> mem \<times> nat option" where
  "olm_pickle_inbound_group_session session key m pickled pickled_length =
     (let raw_length = inbound_raw_pickle_length session
      in if pickled_length < olm_enc_output_length raw_length
         then (session\<lparr>ig_last_error := OLM_OUTPUT_BUFFER_TOO_SMALL\<rparr>, m, None)
         else
           let pos = olm_enc_output_pos pickled raw_length;
               (m, pos) = olm_pickle_uint32 m pos INBOUND_PICKLE_VERSION;
               (m, pos) = megolm_pickle m pos (ig_initial_ratchet session);
               (m, pos) = megolm_pickle m pos (ig_latest_ratchet session);
               (m, pos) = olm_pickle_ed25519_public_key m pos (ig_signing_key session);
               (m, pos) = olm_pickle_bool m pos (ig_signing_key_verified session);
               (m, r) = olm_enc_output key m pickled raw_length
           in (session, m, Some r))"

definition unpickle_inbound_raw ::
    "OlmInboundGroupSession \<Rightarrow> bytes \<Rightarrow> OlmInboundGroupSession \<times> bool" where
  "unpickle_inbound_raw session raw =
     (let corrupted = (\<lambda>s :: OlmInboundGroupSession. (s\<lparr>ig_last_error := OLM_CORRUPTED_PICKLE\<rparr>, False));
          (pickle_version, pos) = olm_unpickle_uint32 0 (Some raw)
      in if pos = None then corrupted session
         else if pickle_version < 1 \<or> pickle_version > INBOUND_PICKLE_VERSION
         then (session\<lparr>ig_last_error := OLM_UNKNOWN_PICKLE_VERSION\<rparr>, False)
         else
           let (ratchet, pos) = megolm_unpickle (ig_initial_ratchet session) pos;
               session = session\<lparr>ig_initial_ratchet := ratchet\<rparr>
           in if pos = None then corrupted session
              else
                let (ratchet, pos) = megolm_unpickle (ig_latest_ratchet session) pos;
                    session = session\<lparr>ig_latest_ratchet := ratchet\<rparr>
                in if pos = None then corrupted session
                   else
                     let (k, pos) = olm_unpickle_ed25519_public_key (ig_signing_key session) pos;
                         session = session\<lparr>ig_signing_key := k\<rparr>
                     in if pos = None then corrupted session
                        else
                          let (v, pos) = (if pickle_version = 1 then (1, pos)
                                else olm_unpickle_bool (ig_signing_key_verified session) pos);
                              session = session\<lparr>ig_signing_key_verified := v\<rparr>
                          in if pos = None then corrupted session
                             else if pos \<noteq> Some []
                             then (session\<lparr>ig_last_error := OLM_PICKLE_EXTRA_DATA\<rparr>, False)
                             else (session, True))"

definition olm_unpickle_inbound_group_session ::
    "OlmInboundGroupSession \<Rightarrow> bytes \<Rightarrow> mem \<Rightarrow> nat \<Rightarrow> nat
      \<Rightarrow> OlmInboundGroupSession \<times> mem \<times> nat option" where
  "olm_unpickle_inbound_group_session session key m pickled pickled_length =
     (let (m, e, raw_length) = olm_enc_input key m pickled pickled_length (ig_last_error session);
          session = session\<lparr>ig_last_error := e\<rparr>
      in case raw_length of
           None \<Rightarrow> (session, m, None)
         | Some n \<Rightarrow>
             let (session, ok) = unpickle_inbound_raw session (load m pickled n)
             in (session, m, if ok then Some pickled_length else None))"

section \<open>Decryption\<close>

definition decrypt_max_plaintext_length_raw ::
    "OlmInboundGroupSession \<Rightarrow> bytes \<Rightarrow> OlmInboundGroupSession \<times> nat option" where
  "decrypt_max_plaintext_length_raw session message =
     (let decoded_results = olm_decode_group_message message aes_sha_256_cipher_mac_length
            ED25519_SIGNATURE_LENGTH
      in if gr_version decoded_results \<noteq> OLM_GROUP_PROTOCOL_VERSION
         then (session\<lparr>ig_last_error := OLM_BAD_MESSAGE_VERSION\<rparr>, None)
         else if gr_ciphertext decoded_results = None
         then (session\<lparr>ig_last_error := OLM_BAD_MESSAGE_FORMAT\<rparr>, None)
         else (session, Some (aes_sha_256_cipher_decrypt_max_plaintext_length
                (gr_ciphertext_length decoded_results))))"

definition olm_group_decrypt_max_plaintext_length ::
    "OlmInboundGroupSession \<Rightarrow> mem \<Rightarrow> nat \<Rightarrow> nat \<Rightarrow> OlmInboundGroupSession \<times> mem \<times> nat option" where
  "olm_group_decrypt_max_plaintext_length session m message message_length =
     (let (m, raw_length) = olm_decode_base64 m message message_length message
      in case raw_length of
           None \<Rightarrow> (session\<lparr>ig_last_error := OLM_INVALID_BASE64\<rparr>, m, None)
         | Some n \<Rightarrow>
             let (session, r) = decrypt_max_plaintext_length_raw session (load m message n)
             in (session, m, r))"

text \<open>
  A copy of the ratchet at an index; the latest ratchet moves when the index is not behind it.
  The differences are taken modulo \<open>2 ^ 32\<close>.
\<close>

definition get_megolm ::
    "OlmInboundGroupSession \<Rightarrow> u32 \<Rightarrow> OlmInboundGroupSession \<times> Megolm option" where
  "get_megolm session message_index =
     (if message_index - meg_counter (ig_latest_ratchet session) < 0x80000000 then
        let session = session\<lparr>ig_latest_ratchet :=
              megolm_advance_to (ig_latest_ratchet session) message_index\<rparr>
        in (session, Some (ig_latest_ratchet session))
      else if message_index - meg_counter (ig_initial_ratchet session) \<ge> 0x80000000 then
        (session\<lparr>ig_last_error := OLM_UNKNOWN_MESSAGE_INDEX\<rparr>, None)
      else (session, Some (megolm_advance_to (ig_initial_ratchet session) message_index)))"

text \<open>
  \<open>message\<close> is the decoded message, \<open>index_out\<close> the contents of \<open>*message_index\<close>, which
  the result holds after the call.  The ciphertext lies in front of a trailer of 72 bytes,
  so that whole blocks are read inside the message.
\<close>

definition group_decrypt_raw ::
    "crypto_prims \<Rightarrow> OlmInboundGroupSession \<Rightarrow> bytes \<Rightarrow> mem \<Rightarrow> nat \<Rightarrow> nat \<Rightarrow> u32
      \<Rightarrow> OlmInboundGroupSession \<times> mem \<times> u32 \<times> nat option" where
  "group_decrypt_raw P session message m plaintext max_plaintext_length index_out =
     (let decoded_results = olm_decode_group_message message aes_sha_256_cipher_mac_length
            ED25519_SIGNATURE_LENGTH
      in if gr_version decoded_results \<noteq> OLM_GROUP_PROTOCOL_VERSION
         then (session\<lparr>ig_last_error := OLM_BAD_MESSAGE_VERSION\<rparr>, m, index_out, None)
         else case gr_ciphertext decoded_results of
           None \<Rightarrow> (session\<lparr>ig_last_error := OLM_BAD_MESSAGE_FORMAT\<rparr>, m, index_out, None)
         | Some ciphertext \<Rightarrow>
             if \<not> gr_has_message_index decoded_results
             then (session\<lparr>ig_last_error := OLM_BAD_MESSAGE_FORMAT\<rparr>, m, index_out, None)
             else
               let index_out = gr_message_index decoded_results;
                   message_length = length message - ED25519_SIGNATURE_LENGTH
               in if \<not> olm_crypto_ed25519_verify P (ig_signing_key session)
                       (take message_length message) (drop message_length message)
                  then (session\<lparr>ig_last_error := OLM_BAD_SIGNATURE\<rparr>, m, index_out, None)
                  else if max_plaintext_length < aes_sha_256_cipher_decrypt_max_plaintext_length
                       (gr_ciphertext_length decoded_results)
                  then (session\<lparr>ig_last_error := OLM_OUTPUT_BUFFER_TOO_SMALL\<rparr>, m, index_out, None)
                  else case get_megolm session (gr_message_index decoded_results) of
                    (session, None) \<Rightarrow> (session, m, index_out, None)
                  | (session, Some megolm) \<Rightarrow>
                      let (written, r) = aes_sha_256_cipher_decrypt MEGOLM_CIPHER
                            (megolm_get_data megolm) (take message_length message)
                            (drop ciphertext message) (gr_ciphertext_length decoded_results)
                            (m (plaintext - 1)) max_plaintext_length;
                          m = store m plaintext written
                      in if r = None
                         then (session\<lparr>ig_last_error := OLM_BAD_MESSAGE_MAC\<rparr>, m, index_out, None)
                         else (session\<lparr>ig_signing_key_verified := 1\<rparr>, m, index_out, r))"

definition olm_group_decrypt ::
    "crypto_prims \<Rightarrow> OlmInboundGroupSession \<Rightarrow> mem \<Rightarrow> nat \<Rightarrow> nat \<Rightarrow> nat \<Rightarrow> nat \<Rightarrow> u32
      \<Rightarrow> OlmInboundGroupSession \<times> mem \<times> u32 \<times> nat option" where
  "olm_group_decrypt P session m message message_length plaintext max_plaintext_length index_out =
     (let (m, raw_message_length) = olm_decode_base64 m message message_length message
      in case raw_message_length of
           None \<Rightarrow> (session\<lparr>ig_last_error := OLM_INVALID_BASE64\<rparr>, m, index_out, None)
         | Some n \<Rightarrow>
             group_decrypt_raw P session (load m message n) m plaintext max_plaintext_length index_out)"

section \<open>Identifier, index and export\<close>

definition olm_inbound_group_session_id_length :: nat where
  "olm_inbound_group_session_id_length = encode_base64_length GROUP_SESSION_ID_LENGTH"

definition olm_inbound_group_session_id ::
    "OlmInboundGroupSession \<Rightarrow> mem \<Rightarrow> nat \<Rightarrow> nat \<Rightarrow> OlmInboundGroupSession \<times> mem \<times> nat option" where
  "olm_inbound_group_session_id session m output id_length =
     (if id_length < olm_inbound_group_session_id_length
      then (session\<lparr>ig_last_error := OLM_OUTPUT_BUFFER_TOO_SMALL\<rparr>, m, None)
      else
        let (m, r) = encode_base64_from (ig_signing_key session) m output
        in (session, m, Some r))"

definition olm_inbound_group_session_first_known_index :: "OlmInboundGroupSession \<Rightarrow> u32" where
  "olm_inbound_group_session_first_known_index session = meg_counter (ig_initial_ratchet session)"

definition olm_inbound_group_session_is_verified :: "OlmInboundGroupSession \<Rightarrow> u32" where
  "olm_inbound_group_session_is_verified session = ig_signing_key_verified session"

definition olm_export_inbound_group_session_length :: nat where
  "olm_export_inbound_group_session_length = encode_base64_length SESSION_EXPORT_RAW_LENGTH"

definition olm_export_inbound_group_session ::
    "OlmInboundGroupSession \<Rightarrow> mem \<Rightarrow> nat \<Rightarrow> nat \<Rightarrow> u32
      \<Rightarrow> OlmInboundGroupSession \<times> mem \<times> nat option" where
  "olm_export_inbound_group_session session m key key_length message_index =
     (let encoded_length = olm_export_inbound_group_session_length
      in if key_length < encoded_length
         then (session\<lparr>ig_last_error := OLM_OUTPUT_BUFFER_TOO_SMALL\<rparr>, m, None)
         else case get_megolm session message_index of
           (session, None) \<Rightarrow> (session, m, None)
         | (session, Some megolm) \<Rightarrow>
             let raw = key + encoded_length - SESSION_EXPORT_RAW_LENGTH;
                 ptr = raw;
                 m = m(ptr := SESSION_EXPORT_VERSION);
                 ptr = ptr + 1;
                 (m, ptr) = put_counter 4 m ptr message_index;
                 m = store m ptr (megolm_get_data megolm);
                 ptr = ptr + MEGOLM_RATCHET_LENGTH;
                 m = store m ptr (ig_signing_key session);
                 (m, r) = olm_encode_base64 m raw SESSION_EXPORT_RAW_LENGTH key
             in (session, m, Some r))"

section \<open>Well-formed sessions and their pickles\<close>

definition wf_inbound :: "OlmInboundGroupSession \<Rightarrow> bool" where
  "wf_inbound session \<longleftrightarrow>
     wf_megolm (ig_initial_ratchet session) \<and> wf_megolm (ig_latest_ratchet session) \<and>
     length (ig_signing_key session) = 32 \<and> ig_signing_key_verified session \<in> {0, 1}"

definition ser_inbound :: "OlmInboundGroupSession \<Rightarrow> bytes" where
  "ser_inbound session =
     be_bytes 4 INBOUND_PICKLE_VERSION @ ser_megolm (ig_initial_ratchet session)
       @ ser_megolm (ig_latest_ratchet session) @ ig_signing_key session
       @ [ucast (ig_signing_key_verified session)]"

text \<open>The format before the flag was added.\<close>

definition ser_inbound_v1 :: "OlmInboundGroupSession \<Rightarrow> bytes" where
  "ser_inbound_v1 session =
     be_bytes 4 (1 :: u32) @ ser_megolm (ig_initial_ratchet session)
       @ ser_megolm (ig_latest_ratchet session) @ ig_signing_key session"

lemma wf_inbound_cleared: "wf_inbound (olm_inbound_group_session memory)"
  by (simp add: olm_inbound_group_session_def olm_clear_inbound_group_session_def wf_inbound_def)

lemma unpickle_inbound_raw_ser:
  assumes "wf_inbound s0" "wf_inbound s"
  shows "unpickle_inbound_raw s0 (ser_inbound s) = (s\<lparr>ig_last_error := ig_last_error s0\<rparr>, True)"
  using assms bool_int_format.unpickle_ser [of _ _ "[]"]
  by (simp add: unpickle_inbound_raw_def ser_inbound_def wf_inbound_def INBOUND_PICKLE_VERSION_def
      uint32_format.unpickle_ser megolm_format.unpickle_ser ed25519_public_key_format.unpickle_ser Let_def)

lemma unpickle_inbound_raw_v1:
  assumes "wf_inbound s0" "wf_inbound s"
  shows "unpickle_inbound_raw s0 (ser_inbound_v1 s) =
    (s\<lparr>ig_signing_key_verified := 1, ig_last_error := ig_last_error s0\<rparr>, True)"
  using assms ed25519_public_key_format.unpickle_ser [of _ _ "[]"]
  by (simp add: unpickle_inbound_raw_def ser_inbound_v1_def wf_inbound_def INBOUND_PICKLE_VERSION_def
      uint32_format.unpickle_ser megolm_format.unpickle_ser Let_def)

lemma unpickle_inbound_raw_version:
  assumes "v = 0 \<or> v > INBOUND_PICKLE_VERSION"
  shows "unpickle_inbound_raw s0 (be_bytes 4 v @ rest) =
    (s0\<lparr>ig_last_error := OLM_UNKNOWN_PICKLE_VERSION\<rparr>, False)"
  using assms by (auto simp: unpickle_inbound_raw_def uint32_format.unpickle_ser)

interpretation inbound_pickle: pickled_object
  olm_enc_output_length olm_enc_output_pos pickle_seal olm_enc_output olm_enc_input
  wf_inbound wf_inbound "\<lambda>s0 s. s\<lparr>ig_last_error := ig_last_error s0\<rparr>" ser_inbound inbound_raw_pickle_length ig_last_error
  "\<lambda>e s. s\<lparr>ig_last_error := e\<rparr>"
  olm_pickle_inbound_group_session unpickle_inbound_raw olm_unpickle_inbound_group_session
proof unfold_locales
  fix s s0 key m p n
  show "length (ser_inbound s) = inbound_raw_pickle_length s" if "wf_inbound s"
    using that megolm_format.length_ser
    by (simp add: ser_inbound_def inbound_raw_pickle_length_def wf_inbound_def
        olm_pickle_ed25519_public_key_length_def)
  show "olm_pickle_inbound_group_session s key m p n =
      (if n < olm_enc_output_length (inbound_raw_pickle_length s)
       then (s\<lparr>ig_last_error := OLM_OUTPUT_BUFFER_TOO_SMALL\<rparr>, m, None)
       else
         let (m, r) = olm_enc_output key
               (store m (olm_enc_output_pos p (inbound_raw_pickle_length s)) (ser_inbound s)) p
               (inbound_raw_pickle_length s)
         in (s, m, Some r))" if "wf_inbound s"
  proof -
    let ?pos = "olm_enc_output_pos p (inbound_raw_pickle_length s)"
    let ?v = "be_bytes 4 INBOUND_PICKLE_VERSION" and ?r = "ser_megolm (ig_initial_ratchet s)"
      and ?l = "ser_megolm (ig_latest_ratchet s)" and ?k = "ig_signing_key s"
      and ?b = "[ucast (ig_signing_key_verified s)] :: bytes"
    have len: "length ?r = megolm_pickle_length (ig_initial_ratchet s)"
      "length ?l = megolm_pickle_length (ig_latest_ratchet s)"
      using that by (simp_all add: wf_inbound_def megolm_format.length_ser)
    show ?thesis
      using that len store_store_append [of m ?pos ?v ?r] store_store_append [of m ?pos "?v @ ?r" ?l]
        store_store_append [of m ?pos "?v @ ?r @ ?l" ?k] store_store_append [of m ?pos "?v @ ?r @ ?l @ ?k" ?b]
      by (simp add: olm_pickle_inbound_group_session_def wf_inbound_def pickle_simps Let_def
          ser_inbound_def olm_pickle_ed25519_public_key_length_def add.assoc)
  qed
  show "olm_unpickle_inbound_group_session s0 key m p n =
      (let (m, e, r) = olm_enc_input key m p n (ig_last_error s0)
       in case r of
            None \<Rightarrow> (s0\<lparr>ig_last_error := e\<rparr>, m, None)
          | Some k \<Rightarrow>
              let (s, ok) = unpickle_inbound_raw (s0\<lparr>ig_last_error := e\<rparr>) (load m p k)
              in (s, m, if ok then Some n else None))"
    by (simp add: olm_unpickle_inbound_group_session_def Let_def)
qed (simp_all add: unpickle_inbound_raw_ser)

section \<open>The window of ratchet values\<close>

text \<open>
  \<open>tracks r0 k s\<close>: the session started at the ratchet \<open>r0\<close> and has advanced \<open>k\<close> steps.
\<close>

definition tracks :: "Megolm \<Rightarrow> nat \<Rightarrow> OlmInboundGroupSession \<Rightarrow> bool" where
  "tracks r0 k session \<longleftrightarrow>
     wf_megolm r0 \<and> k < 2 ^ 31 \<and> ig_initial_ratchet session = r0 \<and>
     ig_latest_ratchet session = (megolm_advance ^^ k) r0"

lemma word_2p_32: "(4294967296 :: u32) = 0"
  by transfer simp

lemma distance_less_half:
  assumes "a < 2 ^ 31" "b < 2 ^ 31"
  shows "((of_nat a :: u32) - of_nat b < 0x80000000) = (b \<le> a)"
proof (cases "b \<le> a")
  case True
  then have "unat ((of_nat a :: u32) - of_nat b) = a - b"
    using unat_of_nat_u32 [of "a - b"] assms by (simp add: of_nat_diff)
  then show ?thesis using True assms by (simp add: word_less_nat_alt)
next
  case False
  then have "unat ((of_nat a :: u32) - of_nat b) = 2 ^ 32 - (b - a)"
    using unat_of_nat_u32 [of "2 ^ 32 - (b - a)"] assms by (simp add: of_nat_diff word_2p_32)
  then show ?thesis using False assms by (simp add: word_less_nat_alt)
qed

lemma index_distance:
  "meg_counter r0 + of_nat n - (meg_counter r0 + of_nat k) = (of_nat n - of_nat k :: u32)"
  by simp

lemma get_megolm_tracks:
  assumes "tracks r0 k session" "n < 2 ^ 31"
  shows "get_megolm session (meg_counter r0 + of_nat n) =
    (session\<lparr>ig_latest_ratchet := (megolm_advance ^^ max k n) r0\<rparr>, Some ((megolm_advance ^^ n) r0))"
proof -
  have t: "wf_megolm r0" "k < 2 ^ 31" "ig_initial_ratchet session = r0"
    "ig_latest_ratchet session = (megolm_advance ^^ k) r0"
    using assms(1) by (auto simp: tracks_def)
  note le = distance_less_half [OF assms(2) t(2)]
  show ?thesis
  proof (cases "k \<le> n")
    case True
    have "megolm_advance_to ((megolm_advance ^^ k) r0) (meg_counter r0 + of_nat n) = (megolm_advance ^^ n) r0"
      using advance_to_iterated [OF wf_advance_iterated [OF t(1)], of "n - k" k] True assms(2)
      by (simp add: of_nat_diff flip: funpow_add [THEN fun_cong, unfolded comp_apply])
    then show ?thesis using True le by (simp add: get_megolm_def t index_distance Let_def)
  next
    case False
    have "(of_nat n :: u32) < 0x80000000" using assms(2) by (simp add: word_less_nat_alt unat_of_nat)
    moreover have "megolm_advance_to r0 (meg_counter r0 + of_nat n) = (megolm_advance ^^ n) r0"
      using assms(2) by (intro advance_to_iterated t(1)) simp
    moreover have "session\<lparr>ig_latest_ratchet := (megolm_advance ^^ k) r0\<rparr> = session"
      using t(4) by simp
    ultimately show ?thesis using False le by (simp add: get_megolm_def t index_distance)
  qed
qed

lemma tracks_advance:
  "tracks r0 k session \<Longrightarrow> n < 2 ^ 31 \<Longrightarrow>
     tracks r0 (max k n) (session\<lparr>ig_latest_ratchet := (megolm_advance ^^ max k n) r0\<rparr>)"
  by (simp add: tracks_def)

text \<open>Any sequence of requests, in any order: each gets the ratchet of its index.\<close>

fun get_megolms :: "OlmInboundGroupSession \<Rightarrow> u32 list \<Rightarrow> OlmInboundGroupSession \<times> Megolm option list" where
  "get_megolms session [] = (session, [])"
| "get_megolms session (i # is) =
     (let (session, r) = get_megolm session i; (session, rs) = get_megolms session is
      in (session, r # rs))"

lemma get_megolms_tracks:
  assumes "tracks r0 k session" "\<forall>n \<in> set ns. n < 2 ^ 31"
  shows "\<exists>session'. get_megolms session (map (\<lambda>n. meg_counter r0 + of_nat n) ns) =
      (session', map (\<lambda>n. Some ((megolm_advance ^^ n) r0)) ns) \<and> (\<exists>k'. tracks r0 k' session')"
  using assms
proof (induction ns arbitrary: session k)
  case (Cons n ns)
  let ?s = "session\<lparr>ig_latest_ratchet := (megolm_advance ^^ max k n) r0\<rparr>"
  have "tracks r0 (max k n) ?s" using Cons.prems by (intro tracks_advance) auto
  from Cons.IH [OF this] Cons.prems obtain session' k' where
    "get_megolms ?s (map (\<lambda>n. meg_counter r0 + of_nat n) ns)
      = (session', map (\<lambda>n. Some ((megolm_advance ^^ n) r0)) ns)" "tracks r0 k' session'" by auto
  with Cons.prems show ?case by (auto simp: get_megolm_tracks)
qed auto

lemma get_megolm_too_old:
  assumes "message_index - meg_counter (ig_latest_ratchet session) \<ge> 0x80000000"
    and "message_index - meg_counter (ig_initial_ratchet session) \<ge> 0x80000000"
  shows "get_megolm session message_index = (session\<lparr>ig_last_error := OLM_UNKNOWN_MESSAGE_INDEX\<rparr>, None)"
  using assms by (simp add: get_megolm_def not_less)

lemma wf_get_megolm: "wf_inbound session \<Longrightarrow> wf_inbound (fst (get_megolm session i))"
  by (auto simp: get_megolm_def wf_inbound_def Let_def)

lemma wf_group_decrypt_raw:
  assumes "wf_inbound session"
  shows "wf_inbound (fst (group_decrypt_raw P session msg m pt max_len i))"
proof -
  have err: "wf_inbound (s\<lparr>ig_last_error := e\<rparr>) = wf_inbound s" for s e by (simp add: wf_inbound_def)
  have ver: "wf_inbound (s\<lparr>ig_signing_key_verified := 1\<rparr>)" if "wf_inbound s" for s
    using that by (simp add: wf_inbound_def)
  show ?thesis
    using assms wf_get_megolm [OF assms]
    by (auto simp: group_decrypt_raw_def Let_def err ver split: option.split prod.split)
      (metis fst_conv ver)+
qed

section \<open>Properties\<close>

lemma inbound_pickle_length: "wf_inbound s \<Longrightarrow> olm_pickle_inbound_group_session_length s = 416"
  by (simp add: olm_pickle_inbound_group_session_length_def inbound_raw_pickle_length_def
      megolm_pickle_length_def olm_pickle_ed25519_public_key_length_def
      olm_enc_output_length_def aes_sha_256_cipher_encrypt_ciphertext_length_def
      olm_crypto_aes_encrypt_cbc_length_def encode_base64_length_alt Let_def)

text \<open>A pickled inbound session, unpickled with the same key into any other session, is the
  session that was pickled; a buffer shorter than the announced length is refused untouched.\<close>

theorem inbound_pickle_round_trip:
  assumes "wf_inbound s" "wf_inbound s0"
  shows "if n < olm_pickle_inbound_group_session_length s
    then olm_pickle_inbound_group_session s key m p n = (s\<lparr>ig_last_error := OLM_OUTPUT_BUFFER_TOO_SMALL\<rparr>, m, None)
    else \<exists>m1 m2. olm_pickle_inbound_group_session s key m p n
          = (s, m1, Some (olm_pickle_inbound_group_session_length s))
      \<and> olm_unpickle_inbound_group_session s0 key m1 p (olm_pickle_inbound_group_session_length s)
          = (s\<lparr>ig_last_error := ig_last_error s0\<rparr>, m2, Some (olm_pickle_inbound_group_session_length s))
      \<and> unchanged_outside p (olm_pickle_inbound_group_session_length s) m m1"
proof -
  note len = inbound_pickle_length [OF assms(1)]
  have "olm_enc_output_length (inbound_raw_pickle_length s) = 416"
    using len by (simp add: olm_pickle_inbound_group_session_length_def)
  then show ?thesis
    using inbound_pickle.pickle_small_buffer [OF assms(1), of n key m p]
      inbound_pickle.pickle_unpickle [OF assms, where n = n and key = key and m = m and p = p]
    by (auto simp: len)
qed

lemma inbound_pickle_round_trip_witness:
  "\<exists>m1 m2. olm_pickle_inbound_group_session (olm_inbound_group_session undefined) [1] of_nat 5 416
      = (olm_inbound_group_session undefined, m1, Some 416)
    \<and> olm_unpickle_inbound_group_session (olm_inbound_group_session undefined) [1] m1 5 416
      = (olm_inbound_group_session undefined, m2, Some 416)"
  using inbound_pickle_round_trip [OF wf_inbound_cleared [of undefined] wf_inbound_cleared [of undefined], where n = 416 and p = 5 and key = "[1]" and m = of_nat]
  by (auto simp: inbound_pickle_length [OF wf_inbound_cleared])

text \<open>Pickles of the older version, which had no verification flag, are read as sessions that
  are verified; pickles of version 0 or of a newer version are refused with the error code for
  them and leave the session as it was.\<close>

theorem inbound_unpickle_versions:
  assumes "wf_inbound s" "wf_inbound s0" "n < 2 ^ 64"
  shows "(load m p n = pickle_seal key (ser_inbound_v1 s) \<longrightarrow>
      (\<exists>m'. olm_unpickle_inbound_group_session s0 key m p n =
        (s\<lparr>ig_signing_key_verified := 1, ig_last_error := ig_last_error s0\<rparr>, m', Some n)))
    \<and> (\<forall>v rest. load m p n = pickle_seal key (be_bytes 4 (v :: u32) @ rest) \<and> (v = 0 \<or> 2 < v) \<longrightarrow>
      (\<exists>m'. olm_unpickle_inbound_group_session s0 key m p n =
        (s0\<lparr>ig_last_error := OLM_UNKNOWN_PICKLE_VERSION\<rparr>, m', None)))"
  using olm_enc_input_ok [OF _ assms(3), of m p key _ "ig_last_error s0"] unpickle_inbound_raw_v1 [OF assms(2,1)]
    unpickle_inbound_raw_version
  by (fastforce simp: olm_unpickle_inbound_group_session_def INBOUND_PICKLE_VERSION_def)

lemma inbound_unpickle_versions_witness:
  "\<exists>m'. olm_unpickle_inbound_group_session (olm_inbound_group_session undefined) [1]
     (store (\<lambda>_. 0) 0 (pickle_seal [1] (be_bytes 4 (3 :: u32) @ [5]))) 0 (olm_enc_output_length 5)
   = ((olm_inbound_group_session undefined)\<lparr>ig_last_error := OLM_UNKNOWN_PICKLE_VERSION\<rparr>, m', None)"
proof -
  let ?raw = "be_bytes 4 (3 :: u32) @ [5]"
  have len: "olm_enc_output_length 5 = 32"
    by (simp add: olm_enc_output_length_def aes_sha_256_cipher_encrypt_ciphertext_length_def
        olm_crypto_aes_encrypt_cbc_length_def encode_base64_length_alt)
  have "load (store (\<lambda>_. 0) 0 (pickle_seal [1] ?raw)) 0 32 = pickle_seal [1] ?raw"
    using pickle_envelope.length_seal [of "[1]" ?raw] len by (intro load_store_same) simp
  then show ?thesis
    using inbound_unpickle_versions [OF wf_inbound_cleared wf_inbound_cleared, of 32 "store (\<lambda>_. 0) 0
      (pickle_seal [1] ?raw)" 0 "[1]" undefined undefined] len by (auto simp: word_less_nat_alt)
qed

end
