(* ===== verification/GroupProtocol.thy ===== *)
theory GroupProtocol
  imports InboundGroup SamplePrims
begin

text \<open>
  Both ends of a group session together: a session key shared by the outbound session
  creates an inbound session that decrypts what the outbound session encrypts, in any order;
  exported sessions; what the receiver accepts.
\<close>

definition signs_for :: "crypto_prims \<Rightarrow> ed25519_key_pair \<Rightarrow> bool" where
  "signs_for P k \<longleftrightarrow>
     (\<forall>msg. olm_crypto_ed25519_verify P (ed_public k) msg (olm_crypto_ed25519_sign P k msg))"

lemma generated_key_signs: "sign_law P \<Longrightarrow> signs_for P (olm_crypto_ed25519_generate_key P seed)"
  by (cases "ed25519_create_keypair P (take 32 seed)")
    (auto simp: sign_law_def signs_for_def olm_crypto_ed25519_generate_key_def
      olm_crypto_ed25519_verify_def olm_crypto_ed25519_sign_def)

section \<open>From a key share to a session\<close>

lemma unpickle_counter: "unpickle_loop 4 0 (be_bytes 4 (c :: u32) @ rest) = (c, rest)"
  using unpickle_loop_be_bytes [of 4 c rest] by (simp add: drop_bit_all)

lemma init_keys_from_share:
  assumes "sign_law P" "signs_for P (og_signing_key s)" "wf_outbound s"
  shows "init_group_session_keys P s0 (key_share P s) False =
    (s0\<lparr>ig_initial_ratchet := og_ratchet s, ig_latest_ratchet := og_ratchet s,
        ig_signing_key := ed_public (og_signing_key s), ig_signing_key_verified := 1\<rparr>, True)"
proof -
  let ?sig = "olm_crypto_ed25519_sign P (og_signing_key s) (key_share_body s)"
  have "length ?sig = 64" using assms(1) by (rule length_sign)
  moreover have "length (key_share_body s) = 165"
    using assms(3) by (simp add: key_share_body_def wf_outbound_def wf_ed25519_key_pair_def)
  moreover have "wf_megolm (og_ratchet s)" "length (ed_public (og_signing_key s)) = 32"
    using assms(3) by (simp_all add: wf_outbound_def wf_ed25519_key_pair_def)
  moreover have "length (be_bytes 4 (meg_counter (og_ratchet s))) = 4" by simp
  moreover have "olm_crypto_ed25519_verify P (ed_public (og_signing_key s)) (key_share_body s) ?sig"
    using assms(2) by (simp add: signs_for_def)
  ultimately show ?thesis
    by (simp add: init_group_session_keys_def key_share_def unpickle_counter megolm_init_of_data
        ED25519_PUBLIC_KEY_LENGTH_def ED25519_SIGNATURE_LENGTH_def Let_def
        key_share_body_def [of s, THEN arg_cong, of hd] key_share_body_def [of s, THEN arg_cong, of tl])
      (simp add: key_share_body_def unpickle_counter megolm_init_of_data ED25519_PUBLIC_KEY_LENGTH_def)
qed

lemma decode_own_base64:
  "decode_base64_length (encode_base64_length (length raw)) = Some (length raw)"
  "the (decode_base64_into (b64enc raw)) = raw"
  by (simp_all add: decode_base64_into_def b64dec_b64enc)

lemma init_from_share:
  assumes "sign_law P" "signs_for P (og_signing_key s)" "wf_outbound s"
  shows "olm_init_inbound_group_session P s0 (b64enc (key_share P s)) =
    (s0\<lparr>ig_initial_ratchet := og_ratchet s, ig_latest_ratchet := og_ratchet s,
        ig_signing_key := ed_public (og_signing_key s), ig_signing_key_verified := 1\<rparr>, Some 0)"
  using init_keys_from_share [OF assms] length_key_share [OF assms(1,3)]
  by (simp add: olm_init_inbound_group_session_def decode_own_base64)

text \<open>A share that someone altered behind the version byte is rejected by its signature.\<close>

lemma init_bad_signature:
  assumes "length body = 165" "length sig = 64" "hd body = SESSION_KEY_VERSION"
    and "\<not> olm_crypto_ed25519_verify P (drop 133 body) body sig"
  shows "snd (olm_init_inbound_group_session P s0 (b64enc (body @ sig))) = None
    \<and> ig_last_error (fst (olm_init_inbound_group_session P s0 (b64enc (body @ sig)))) = OLM_BAD_SIGNATURE
    \<and> ig_signing_key_verified (fst (olm_init_inbound_group_session P s0 (b64enc (body @ sig))))
        = ig_signing_key_verified s0"
proof -
  obtain b bs where body: "body = b # bs" using assms(1) by (cases body) auto
  have rest: "snd (unpickle_loop 4 (0 :: u32) (bs @ sig)) = drop 4 bs @ sig"
    using unpickle_loop_rest [of 4 "bs @ sig" "0 :: u32"] assms(1) body by simp
  obtain c where c: "unpickle_loop 4 (0 :: u32) (bs @ sig) = (c, drop 4 bs @ sig)"
    using rest by (metis prod.collapse)
  show ?thesis
    using assms body c decode_own_base64 [of "body @ sig"]
    by (simp add: olm_init_inbound_group_session_def init_group_session_keys_def Let_def
        SESSION_KEY_RAW_LENGTH_def ED25519_PUBLIC_KEY_LENGTH_def ED25519_SIGNATURE_LENGTH_def)
qed

section \<open>Decrypting what was encrypted\<close>

lemma group_decrypt_raw_own:
  assumes "sign_law P" "signs_for P (og_signing_key s)"
    and "tracks r0 k sess" "n < 2 ^ 31" "og_ratchet s = (megolm_advance ^^ n) r0"
    and "ig_signing_key sess = ed_public (og_signing_key s)"
    and "aes_sha_256_cipher_encrypt_ciphertext_length (length pt) \<le> max_len"
    and "aes_sha_256_cipher_encrypt_ciphertext_length (length pt) < 2 ^ 64"
  shows "\<exists>m'. group_decrypt_raw P sess (group_message P s pt) m p max_len i =
      (sess\<lparr>ig_latest_ratchet := (megolm_advance ^^ max k n) r0, ig_signing_key_verified := 1\<rparr>,
       m', meg_counter (og_ratchet s), Some (length pt)) \<and>
    load m' p (length pt) = pt \<and>
    unchanged_outside p (aes_sha_256_cipher_encrypt_ciphertext_length (length pt)) m m'"
proof -
  let ?n = "aes_sha_256_cipher_encrypt_ciphertext_length (length pt)"
  let ?key = "megolm_get_data (og_ratchet s)"
  let ?c = "cipher_ctext MEGOLM_CIPHER ?key pt"
  let ?h = "group_message_header OLM_GROUP_PROTOCOL_VERSION (meg_counter (og_ratchet s)) ?n"
  let ?t = "cipher_tag MEGOLM_CIPHER ?key (?h @ ?c)"
  let ?b = "group_message_body s pt"
  let ?sig = "olm_crypto_ed25519_sign P (og_signing_key s) ?b"
  have b: "?b = ?h @ ?c @ ?t" by (simp add: group_message_body_def Let_def)
  have sig: "length ?sig = 64" using assms(1) by (rule length_sign)
  have msg: "group_message P s pt = ?h @ ?c @ ?t @ ?sig"
    by (simp add: group_message_def b Let_def)
  have dec: "olm_decode_group_message (group_message P s pt) 8 64 =
      \<lparr>gr_version = OLM_GROUP_PROTOCOL_VERSION, gr_message_index = meg_counter (og_ratchet s),
       gr_has_message_index = True, gr_ciphertext = Some (length ?h), gr_ciphertext_length = ?n\<rparr>"
    using decode_group_message_encoded [of ?c "?t @ ?sig" 8 64 OLM_GROUP_PROTOCOL_VERSION
        "meg_counter (og_ratchet s)"] assms(8) sig unfolding msg by simp
  have parts: "take (length (group_message P s pt) - 64) (group_message P s pt) = ?b"
    "drop (length (group_message P s pt) - 64) (group_message P s pt) = ?sig"
    "drop (length ?h) (group_message P s pt) = ?c @ ?t @ ?sig"
    using sig by (simp_all add: group_message_def Let_def) (simp add: b)
  have verify: "olm_crypto_ed25519_verify P (ig_signing_key sess) ?b ?sig"
    using assms(2,6) by (simp add: signs_for_def)
  have "wf_megolm r0" using assms(3) by (simp add: tracks_def)
  then have counter: "meg_counter (og_ratchet s) = meg_counter r0 + of_nat n"
    by (simp add: assms(5))
  note get = get_megolm_tracks [OF assms(3,4), folded counter assms(5)]
  obtain w where w: "aes_sha_256_cipher_decrypt MEGOLM_CIPHER ?key ?b (?c @ ?t @ ?sig) ?n (m (p - 1)) max_len
      = (pt @ w, Some (length pt))" "length (pt @ w) = ?n"
    using aes_sha_256.dec_ok [of pt max_len MEGOLM_CIPHER ?key "?h @ ?c" "?t @ ?sig" "m (p - 1)"] assms(7)
    by (auto simp: b)
  have "group_decrypt_raw P sess (group_message P s pt) m p max_len i =
      (sess\<lparr>ig_latest_ratchet := (megolm_advance ^^ max k n) r0, ig_signing_key_verified := 1\<rparr>,
       store m p (pt @ w), meg_counter (og_ratchet s), Some (length pt))"
    using assms(7) verify
    by (simp add: group_decrypt_raw_def dec ED25519_SIGNATURE_LENGTH_def parts get
        w [unfolded One_nat_def] Let_def
        aes_sha_256_cipher_decrypt_max_plaintext_length_def)
  moreover have "load (store m p (pt @ w)) p (length pt) = pt"
    using take_load [of "length pt" "store m p (pt @ w)" p "length (pt @ w)"]
    by (simp add: load_store_same)
  moreover have "unchanged_outside p ?n m (store m p (pt @ w))"
    using w(2) by (intro unchanged_outside_store) auto
  ultimately show ?thesis by blast
qed

lemma group_decrypt_own:
  assumes "sign_law P" "signs_for P (og_signing_key s)"
    and "tracks r0 k sess" "n < 2 ^ 31" "og_ratchet s = (megolm_advance ^^ n) r0"
    and "ig_signing_key sess = ed_public (og_signing_key s)"
    and "aes_sha_256_cipher_encrypt_ciphertext_length (length pt) \<le> max_len"
    and "aes_sha_256_cipher_encrypt_ciphertext_length (length pt) < 2 ^ 64"
    and "load m msg len = b64enc (group_message P s pt)"
  shows "\<exists>m'. olm_group_decrypt P sess m msg len p max_len i =
      (sess\<lparr>ig_latest_ratchet := (megolm_advance ^^ max k n) r0, ig_signing_key_verified := 1\<rparr>,
       m', meg_counter (og_ratchet s), Some (length pt)) \<and> load m' p (length pt) = pt"
proof -
  let ?raw = "group_message P s pt"
  have dec: "olm_decode_base64 m msg len msg = (store m msg ?raw, Some (length ?raw))"
    by (rule olm_decode_base64_encoded [OF assms(9)]) simp
  have "load (store m msg ?raw) msg (length ?raw) = ?raw" by (simp add: load_store_same)
  then show ?thesis
    using group_decrypt_raw_own [OF assms(1-8), of "store m msg ?raw" p i]
    by (auto simp: olm_group_decrypt_def dec)
qed

section \<open>A whole conversation\<close>

text \<open>The messages a sender produces for a list of plaintexts, one buffer after the other.\<close>

fun send_all :: "crypto_prims \<Rightarrow> OlmOutboundGroupSession \<Rightarrow> bytes list \<Rightarrow> bytes list" where
  "send_all P s [] = []"
| "send_all P s (pt # pts) =
     (let n = olm_group_encrypt_message_length s (length pt);
          (s', m, r) = olm_group_encrypt P s pt (\<lambda>_. 0) 0 n
      in load m 0 n # send_all P s' pts)"

lemma send_all_nth:
  assumes "sign_law P" "i < length pts"
  shows "send_all P s pts ! i =
    b64enc (group_message P (s\<lparr>og_ratchet := (megolm_advance ^^ i) (og_ratchet s)\<rparr>) (pts ! i))"
  using assms(2)
proof (induction pts arbitrary: s i)
  case (Cons pt pts)
  obtain m where m: "olm_group_encrypt P s pt (\<lambda>_. 0) 0 (olm_group_encrypt_message_length s (length pt)) =
      (s\<lparr>og_ratchet := megolm_advance (og_ratchet s)\<rparr>, m,
       Some (olm_group_encrypt_message_length s (length pt)))"
    "load m 0 (olm_group_encrypt_message_length s (length pt)) = b64enc (group_message P s pt)"
    using olm_group_encrypt_eq [OF assms(1), of s pt] by blast
  show ?case
  proof (cases i)
    case 0
    have "s\<lparr>og_ratchet := og_ratchet s\<rparr> = s" by simp
    then show ?thesis using 0 m by (simp add: Let_def)
  next
    case (Suc j)
    then show ?thesis using Cons m by (simp add: Let_def funpow_swap1)
  qed
qed simp

lemma length_send_all [simp]: "length (send_all P s pts) = length pts"
  by (induction pts arbitrary: s) (auto simp: Let_def split: prod.split)

text \<open>The receiver decrypts a sequence of messages, given by their numbers, in that order.\<close>

fun receive :: "crypto_prims \<Rightarrow> OlmInboundGroupSession \<Rightarrow> bytes list \<Rightarrow> nat \<Rightarrow> bytes option list" where
  "receive P sess [] max_len = []"
| "receive P sess (msg # msgs) max_len =
     (let m = store (\<lambda>_. 0) max_len msg;
          (sess', m', i, r) = olm_group_decrypt P sess m max_len (length msg) 0 max_len 0
      in map_option (load m' 0) r # receive P sess' msgs max_len)"

lemma receive_own:
  assumes "sign_law P" "signs_for P (og_signing_key s)" "wf_megolm (og_ratchet s)"
    and "\<forall>i \<in> set is. i < length pts" "length pts \<le> 2 ^ 31"
    and "\<forall>pt \<in> set pts. aes_sha_256_cipher_encrypt_ciphertext_length (length pt) \<le> max_len"
    and "max_len < 2 ^ 64"
    and "tracks (og_ratchet s) k sess" "ig_signing_key sess = ed_public (og_signing_key s)"
  shows "receive P sess (map ((!) (send_all P s pts)) is) max_len = map (\<lambda>i. Some (pts ! i)) is"
  using assms(4,8,9)
proof (induction "is" arbitrary: sess k)
  case (Cons i "is")
  let ?s = "s\<lparr>og_ratchet := (megolm_advance ^^ i) (og_ratchet s)\<rparr>"
  let ?msg = "send_all P s pts ! i" and ?pt = "pts ! i"
  have i: "i < length pts" "i < 2 ^ 31" using Cons.prems(1) assms(5) by auto
  have msg: "?msg = b64enc (group_message P ?s ?pt)" by (rule send_all_nth [OF assms(1) i(1)])
  have fits: "aes_sha_256_cipher_encrypt_ciphertext_length (length ?pt) \<le> max_len"
    using assms(6) i(1) by simp
  have "load (store (\<lambda>_. 0) max_len ?msg) max_len (length ?msg) = b64enc (group_message P ?s ?pt)"
    unfolding msg by (rule load_store_same) simp
  from group_decrypt_own [OF assms(1) _ Cons.prems(2) i(2) _ _ fits _ this, of 0 0]
  obtain m' where
    "olm_group_decrypt P sess (store (\<lambda>_. 0) max_len ?msg) max_len (length ?msg) 0 max_len 0 =
       (sess\<lparr>ig_latest_ratchet := (megolm_advance ^^ max k i) (og_ratchet s), ig_signing_key_verified := 1\<rparr>,
        m', meg_counter (og_ratchet ?s), Some (length ?pt))" "load m' 0 (length ?pt) = ?pt"
    using assms(2,7) Cons.prems(3) fits by auto
  moreover have "tracks (og_ratchet s) (max k i)
      (sess\<lparr>ig_latest_ratchet := (megolm_advance ^^ max k i) (og_ratchet s), ig_signing_key_verified := 1\<rparr>)"
    using Cons.prems(2) i(2) by (simp add: tracks_def)
  ultimately show ?case
    using Cons.IH [of "max k i" "sess\<lparr>ig_latest_ratchet := (megolm_advance ^^ max k i) (og_ratchet s),
        ig_signing_key_verified := 1\<rparr>"] Cons.prems(1,3)
    by (simp add: Let_def)
qed simp

section \<open>What the receiver accepts\<close>

lemma group_decrypt_raw_accepts:
  assumes "group_decrypt_raw P sess raw m p max_len i = (sess', m', i', Some n)"
  shows "olm_crypto_ed25519_verify P (ig_signing_key sess)
      (take (length raw - 64) raw) (drop (length raw - 64) raw)"
    and "\<exists>megolm b. snd (get_megolm sess i') = Some megolm \<and>
      take (length raw - 64) raw = b @ cipher_tag MEGOLM_CIPHER (megolm_get_data megolm) b"
proof -
  let ?dec = "olm_decode_group_message raw 8 64"
  have *: "olm_crypto_ed25519_verify P (ig_signing_key sess)
      (take (length raw - 64) raw) (drop (length raw - 64) raw) \<and>
    (\<exists>megolm w c. snd (get_megolm sess i') = Some megolm \<and>
      aes_sha_256_cipher_decrypt MEGOLM_CIPHER (megolm_get_data megolm)
        (take (length raw - 64) raw) c (gr_ciphertext_length ?dec) (m (p - 1)) max_len = (w, Some n))"
    using assms
    by (cases "get_megolm sess (gr_message_index ?dec)")
      (auto simp: group_decrypt_raw_def Let_def ED25519_SIGNATURE_LENGTH_def
        split: if_splits option.splits prod.splits)
  then show "olm_crypto_ed25519_verify P (ig_signing_key sess)
      (take (length raw - 64) raw) (drop (length raw - 64) raw)" by blast
  from * show "\<exists>megolm b. snd (get_megolm sess i') = Some megolm \<and>
      take (length raw - 64) raw = b @ cipher_tag MEGOLM_CIPHER (megolm_get_data megolm) b"
    using aes_sha_256.dec_Some_authentic by blast
qed

text \<open>Apart from the error code, a message that is not accepted can only move the ratchet.\<close>

lemma get_megolm_keeps:
  "ig_signing_key (fst (get_megolm sess i)) = ig_signing_key sess"
  "ig_signing_key_verified (fst (get_megolm sess i)) = ig_signing_key_verified sess"
  by (simp_all add: get_megolm_def Let_def)

lemma group_decrypt_raw_unsigned:
  assumes "group_decrypt_raw P sess raw m p max_len i = (sess', m', i', r)"
    and "\<not> olm_crypto_ed25519_verify P (ig_signing_key sess) (take (length raw - 64) raw) (drop (length raw - 64) raw)"
  shows "sess' = sess\<lparr>ig_last_error := ig_last_error sess'\<rparr>"
  using assms by (auto simp: group_decrypt_raw_def Let_def ED25519_SIGNATURE_LENGTH_def split: if_splits option.splits)

lemma group_decrypt_raw_rejects:
  assumes "group_decrypt_raw P sess raw m p max_len i = (sess', m', i', None)" "tracks r0 k sess"
  shows "unat (i' - meg_counter r0) < 2 ^ 31 \<Longrightarrow> \<exists>k'. tracks r0 k' sess'"
    and "ig_signing_key sess' = ig_signing_key sess"
    and "ig_signing_key_verified sess' = ig_signing_key_verified sess"
proof -
  let ?dec = "olm_decode_group_message raw 8 64"
  have cases: "(\<exists>e. sess' = sess\<lparr>ig_last_error := e\<rparr>) \<or>
      (\<exists>e. i' = gr_message_index ?dec \<and> sess' = fst (get_megolm sess i')\<lparr>ig_last_error := e\<rparr>) \<or>
      (i' = gr_message_index ?dec \<and> sess' = fst (get_megolm sess i'))"
    using assms(1)
    by (cases "get_megolm sess (gr_message_index ?dec)")
      (auto simp: group_decrypt_raw_def Let_def ED25519_SIGNATURE_LENGTH_def
        split: if_splits option.splits prod.splits)
  then show "ig_signing_key sess' = ig_signing_key sess"
    "ig_signing_key_verified sess' = ig_signing_key_verified sess"
    using get_megolm_keeps by auto
  assume near: "unat (i' - meg_counter r0) < 2 ^ 31"
  have get: "fst (get_megolm sess i') = sess\<lparr>ig_latest_ratchet :=
      (megolm_advance ^^ max k (unat (i' - meg_counter r0))) r0\<rparr>"
    using get_megolm_tracks [OF assms(2) near] by simp
  have "tracks r0 (max k (unat (i' - meg_counter r0))) (fst (get_megolm sess i'))"
    unfolding get by (rule tracks_advance [OF assms(2) near])
  moreover have "tracks r0 j (s\<lparr>ig_last_error := e\<rparr>) = tracks r0 j s" for j s e
    by (simp add: tracks_def)
  ultimately show "\<exists>k'. tracks r0 k' sess'"
    using assms(2) cases by metis
qed

section \<open>Export and import\<close>

definition session_export :: "OlmInboundGroupSession \<Rightarrow> Megolm \<Rightarrow> bytes" where
  "session_export sess megolm =
     SESSION_EXPORT_VERSION # be_bytes 4 (meg_counter megolm) @ megolm_get_data megolm
       @ ig_signing_key sess"

lemma olm_export_eq:
  assumes "wf_inbound sess" "olm_export_inbound_group_session_length \<le> key_length"
    and "get_megolm sess i = (sess', Some megolm)"
  shows "\<exists>m'. olm_export_inbound_group_session sess m out key_length i =
      (sess', m', Some olm_export_inbound_group_session_length) \<and>
    load m' out olm_export_inbound_group_session_length = b64enc (session_export sess megolm) \<and>
    unchanged_outside out olm_export_inbound_group_session_length m m'"
proof -
  define pos where "pos = out + encode_base64_length SESSION_EXPORT_RAW_LENGTH - SESSION_EXPORT_RAW_LENGTH"
  have meg: "wf_megolm megolm" "meg_counter megolm = i" "ig_signing_key sess' = ig_signing_key sess"
    using assms(1,3) by (auto simp: get_megolm_def wf_inbound_def Let_def split: if_splits)
  let ?x = "session_export sess megolm" and ?c = "be_bytes 4 i"
  let ?d = "megolm_get_data megolm" and ?e = "ig_signing_key sess"
  have len: "length ?d = 128" "length ?e = 32" "length ?x = SESSION_EXPORT_RAW_LENGTH"
    using assms(1) meg(1)
    by (simp_all add: wf_inbound_def session_export_def SESSION_EXPORT_RAW_LENGTH_def
        ED25519_PUBLIC_KEY_LENGTH_def)
  have body: "store (store (store (store m p [SESSION_EXPORT_VERSION]) (p + 1) ?c) (p + 5) ?d) (p + 133) ?e
      = store m p ?x" for p
    using store_store_append [of m p "[SESSION_EXPORT_VERSION]" ?c]
      store_store_append [of m p "SESSION_EXPORT_VERSION # ?c" ?d]
      store_store_append [of m p "SESSION_EXPORT_VERSION # ?c @ ?d" ?e]
    by (simp add: session_export_def len meg)
  note at_end = encode_at_end [OF len(3) pos_def, where m = m]
  have "olm_export_inbound_group_session sess m out key_length i =
      (sess', store (store m pos ?x) out (b64enc ?x), Some (encode_base64_length SESSION_EXPORT_RAW_LENGTH))"
    using assms(2,3) body [of pos] at_end(1)
    unfolding olm_export_inbound_group_session_def Let_def olm_export_inbound_group_session_length_def
      pos_def [symmetric] put_counter_eq fun_upd_as_store prod.case
    by (simp add: meg(3) ac_simps)
  then show ?thesis using at_end(2,3) by (auto simp: olm_export_inbound_group_session_length_def)
qed

lemma import_of_export:
  assumes "wf_megolm megolm" "length (ig_signing_key sess) = 32"
  shows "olm_import_inbound_group_session P s0 (b64enc (session_export sess megolm)) =
    (s0\<lparr>ig_initial_ratchet := megolm, ig_latest_ratchet := megolm,
        ig_signing_key := ig_signing_key sess\<rparr>, Some 0)"
  using assms decode_own_base64 [of "session_export sess megolm"]
  by (simp add: olm_import_inbound_group_session_def init_group_session_keys_def Let_def
      session_export_def unpickle_counter megolm_init_of_data SESSION_EXPORT_RAW_LENGTH_def
      ED25519_PUBLIC_KEY_LENGTH_def)

section \<open>Properties\<close>

text \<open>C28: A group conversation.  A sender with a generated signing key writes its session key into a
  buffer and encrypts a list of at most 2^31 plaintexts; an inbound session created from the text
  in the buffer decrypts any of the messages, in any order and any number of times, to the plaintexts
  they were made from.\<close>

theorem group_conversation:
  assumes "sign_law P" "signs_for P (og_signing_key s)" "wf_outbound s"
    and "\<forall>i \<in> set is. i < length pts" "length pts \<le> 2 ^ 31"
    and "\<forall>pt \<in> set pts. aes_sha_256_cipher_encrypt_ciphertext_length (length pt) \<le> max_len"
    and "max_len < 2 ^ 64" "olm_outbound_group_session_key_length \<le> key_length"
  shows "\<exists>m'. olm_outbound_group_session_key P s m key key_length = (s, m', Some olm_outbound_group_session_key_length) \<and>
    receive P (fst (olm_init_inbound_group_session P s0 (load m' key olm_outbound_group_session_key_length)))
      (map ((!) (send_all P s pts)) is) max_len = map (\<lambda>i. Some (pts ! i)) is"
proof -
  obtain m' where "olm_outbound_group_session_key P s m key key_length = (s, m', Some olm_outbound_group_session_key_length)"
      "load m' key olm_outbound_group_session_key_length = b64enc (key_share P s)"
    using olm_outbound_group_session_key_eq [OF assms(1,3,8), of m key] by blast
  moreover have "receive P (fst (olm_init_inbound_group_session P s0 (b64enc (key_share P s))))
      (map ((!) (send_all P s pts)) is) max_len = map (\<lambda>i. Some (pts ! i)) is"
    using receive_own [OF assms(1,2) _ assms(4-7), of 0] assms(3)
    by (simp add: init_from_share [OF assms(1-3)] tracks_def wf_outbound_def)
  ultimately show ?thesis by simp
qed

definition sample_outbound :: OlmOutboundGroupSession where
  "sample_outbound =
     fst (olm_init_outbound_group_session sample_prims
            \<lparr>og_ratchet = zero_megolm, og_signing_key = zero_ed25519_key_pair,
             og_last_error = OLM_SUCCESS\<rparr> (\<lambda>a. of_nat a) 0 160)"

definition sample_inbound :: OlmInboundGroupSession where
  "sample_inbound = \<lparr>ig_initial_ratchet = zero_megolm, ig_latest_ratchet = zero_megolm,
     ig_signing_key = replicate 32 0, ig_signing_key_verified = 0, ig_last_error = OLM_SUCCESS\<rparr>"

lemma sample_outbound_ok: "signs_for sample_prims (og_signing_key sample_outbound)" "wf_outbound sample_outbound"
proof -
  show "signs_for sample_prims (og_signing_key sample_outbound)"
    using generated_key_signs [OF sample_sign_law]
    by (simp add: sample_outbound_def olm_init_outbound_group_session_def Let_def
        olm_init_outbound_group_session_random_length_def ED25519_RANDOM_LENGTH_def)
  show "wf_outbound sample_outbound"
    unfolding sample_outbound_def
    by (rule wf_outbound_init [OF sample_sign_law])
      (simp add: wf_outbound_def)
qed

lemma group_conversation_witness:
  "\<exists>m'. olm_outbound_group_session_key sample_prims sample_outbound (\<lambda>_. 0) 10 400 =
      (sample_outbound, m', Some olm_outbound_group_session_key_length) \<and>
    receive sample_prims (fst (olm_init_inbound_group_session sample_prims
       sample_inbound (load m' 10 olm_outbound_group_session_key_length)))
     (map ((!) (send_all sample_prims sample_outbound [[1, 2, 3], [], [7]])) [2, 0, 1, 0]) 16
   = [Some [7], Some [1, 2, 3], Some [], Some [1, 2, 3]]"
proof -
  have "olm_outbound_group_session_key_length \<le> 400"
    by (simp add: olm_outbound_group_session_key_length_def encode_base64_length_def SESSION_KEY_RAW_LENGTH_def
        MEGOLM_RATCHET_LENGTH_def ED25519_PUBLIC_KEY_LENGTH_def ED25519_SIGNATURE_LENGTH_def)
  then show ?thesis
    using group_conversation [OF sample_sign_law sample_outbound_ok, of "[2, 0, 1, 0]"
        "[[1, 2, 3], [], [7]]" 16 400 "\<lambda>_. 0" 10 sample_inbound]
    by (simp add: aes_sha_256_cipher_encrypt_ciphertext_length_def olm_crypto_aes_encrypt_cbc_length_def)
qed

text \<open>A key share whose signature does not fit its other bytes creates no session: the call
  fails with the error code for it and the session does not become verified.\<close>

theorem forged_share_rejected:
  assumes "length body = 165" "length sig = 64" "hd body = SESSION_KEY_VERSION"
    and "\<not> olm_crypto_ed25519_verify P (drop 133 body) body sig"
    and "olm_init_inbound_group_session P s0 (b64enc (body @ sig)) = (s1, r)"
  shows "r = None \<and> olm_inbound_group_session_last_error s1 = ''BAD_SIGNATURE''
    \<and> olm_inbound_group_session_is_verified s1 = olm_inbound_group_session_is_verified s0"
  using init_bad_signature [OF assms(1-4), of s0] assms(5)
  by (simp add: olm_inbound_group_session_last_error_def olm_inbound_group_session_is_verified_def
      olm_error_to_string_def ERRORS_def)

definition altered_share :: bytes where
  "altered_share = SESSION_KEY_VERSION # replicate 164 1"

lemma forged_share_rejected_witness:
  "snd (olm_init_inbound_group_session sample_prims sample_inbound
     (b64enc (altered_share @ replicate 64 5))) = None"
proof -
  obtain s1 r where i: "olm_init_inbound_group_session sample_prims sample_inbound
     (b64enc (altered_share @ replicate 64 5)) = (s1, r)" by fastforce
  have "\<not> olm_crypto_ed25519_verify sample_prims (drop 133 altered_share) altered_share (replicate 64 5)"
    by code_simp
  from forged_share_rejected [OF _ _ _ this i] i show ?thesis by (simp add: altered_share_def)
qed

text \<open>C29: What the receiver accepts is authentic: the text decodes to bytes that end in a signature
  by the session's key of everything in front of it, and in front of the signature in a MAC under
  the ratchet value of the reported message index.\<close>

theorem group_accepts_only_authentic:
  assumes "olm_group_decrypt P sess m msg len p max_len i = (sess', m', i', Some n)"
  shows "\<exists>body sig megolm b. b64dec (load m msg len) = Some (body @ sig)
    \<and> olm_crypto_ed25519_verify P (ig_signing_key sess) body sig
    \<and> snd (get_megolm sess i') = Some megolm
    \<and> body = b @ cipher_tag MEGOLM_CIPHER (megolm_get_data megolm) b"
proof -
  obtain raw where raw: "b64dec (load m msg len) = Some raw"
    using assms by (auto simp: olm_group_decrypt_def olm_decode_base64_eq decode_result_def split: option.splits)
  have "load (store m msg raw) msg (length raw) = raw" by (simp add: load_store_same)
  then have dec: "group_decrypt_raw P sess raw (store m msg raw) p max_len i = (sess', m', i', Some n)"
    using assms raw by (simp add: olm_group_decrypt_def olm_decode_base64_eq decode_result_def)
  show ?thesis
    using raw group_decrypt_raw_accepts [OF dec] by (metis append_take_drop_id)
qed

lemma sample_accepted:
  "\<exists>sess' m' i. olm_group_decrypt sample_prims
      (fst (olm_init_inbound_group_session sample_prims sample_inbound (b64enc (key_share sample_prims sample_outbound))))
      (store (\<lambda>_. 0) 50 (b64enc (group_message sample_prims sample_outbound [7]))) 50
      (length (b64enc (group_message sample_prims sample_outbound [7]))) 0 16 0 = (sess', m', i, Some 1)"
proof -
  let ?msg = "b64enc (group_message sample_prims sample_outbound [7])"
  have l: "load (store (\<lambda>_. 0) 50 ?msg) 50 (length ?msg) = ?msg" by (rule load_store_same) simp
  have t: "tracks (og_ratchet sample_outbound) 0 (sample_inbound\<lparr>ig_initial_ratchet := og_ratchet sample_outbound,
      ig_latest_ratchet := og_ratchet sample_outbound, ig_signing_key := ed_public (og_signing_key sample_outbound),
      ig_signing_key_verified := 1\<rparr>)"
    using sample_outbound_ok(2) by (simp add: tracks_def wf_outbound_def)
  show ?thesis
    using group_decrypt_own [OF sample_sign_law sample_outbound_ok(1) t _ _ _ _ _ l, of 0 16 0 0]
    by (auto simp: init_from_share [OF sample_sign_law sample_outbound_ok]
        aes_sha_256_cipher_encrypt_ciphertext_length_def olm_crypto_aes_encrypt_cbc_length_def)
qed

lemma group_accepts_only_authentic_witness:
  "\<exists>body sig. b64dec (b64enc (group_message sample_prims sample_outbound [7])) = Some (body @ sig)
    \<and> olm_crypto_ed25519_verify sample_prims (ed_public (og_signing_key sample_outbound)) body sig"
proof -
  let ?msg = "b64enc (group_message sample_prims sample_outbound [7])"
  have l: "load (store (\<lambda>_. 0) 50 ?msg) 50 (length ?msg) = ?msg" by (rule load_store_same) simp
  define sess where "sess = fst (olm_init_inbound_group_session sample_prims sample_inbound
    (b64enc (key_share sample_prims sample_outbound)))"
  have key: "ig_signing_key sess = ed_public (og_signing_key sample_outbound)"
    by (simp add: sess_def init_from_share [OF sample_sign_law sample_outbound_ok])
  obtain sess' m' i where "olm_group_decrypt sample_prims sess (store (\<lambda>_. 0) 50 ?msg) 50 (length ?msg) 0 16 0
      = (sess', m', i, Some 1)"
    using sample_accepted unfolding sess_def [symmetric] by blast
  from group_accepts_only_authentic [OF this] show ?thesis unfolding l key by blast
qed

text \<open>C30: A text that is not accepted and whose message index lies less than 2^31 behind the
  starting ratchet may move the latest ratchet but does not change what the session can decrypt: it
  still tracks the same starting ratchet, and its key and verification flag are as before.  A text
  that does not end in a signature by the key of the session changes nothing but the error code,
  whatever its index.\<close>

theorem group_rejected_keeps_window:
  assumes "olm_group_decrypt P sess m msg len p max_len i = (sess', m', i', None)" "tracks r0 k sess"
  shows "(unat (i' - meg_counter r0) < 2 ^ 31 \<longrightarrow> (\<exists>k'. tracks r0 k' sess'))
    \<and> ig_signing_key sess' = ig_signing_key sess
    \<and> olm_inbound_group_session_is_verified sess' = olm_inbound_group_session_is_verified sess
    \<and> ((\<nexists>body sig. b64dec (load m msg len) = Some (body @ sig) \<and> olm_crypto_ed25519_verify P (ig_signing_key sess) body sig)
       \<longrightarrow> sess' = sess\<lparr>ig_last_error := ig_last_error sess'\<rparr>)"
proof (cases "b64dec (load m msg len)")
  case None
  then have "sess' = sess\<lparr>ig_last_error := OLM_INVALID_BASE64\<rparr>"
    using assms(1) by (simp add: olm_group_decrypt_def olm_decode_base64_eq decode_result_def)
  then show ?thesis using assms(2) by (auto simp: tracks_def olm_inbound_group_session_is_verified_def)
next
  case (Some raw)
  have "load (store m msg raw) msg (length raw) = raw" by (simp add: load_store_same)
  then have dec: "group_decrypt_raw P sess raw (store m msg raw) p max_len i = (sess', m', i', None)"
    using assms(1) Some by (simp add: olm_group_decrypt_def olm_decode_base64_eq decode_result_def)
  have "sess' = sess\<lparr>ig_last_error := ig_last_error sess'\<rparr>"
    if "\<nexists>body sig. b64dec (load m msg len) = Some (body @ sig) \<and> olm_crypto_ed25519_verify P (ig_signing_key sess) body sig"
    using group_decrypt_raw_unsigned [OF dec] that Some by (metis append_take_drop_id)
  then show ?thesis
    using group_decrypt_raw_rejects [OF dec assms(2)]
    by (simp add: olm_inbound_group_session_is_verified_def)
qed

lemma group_rejected_keeps_window_witness:
  "\<exists>k'. tracks zero_megolm k'
     (fst (olm_group_decrypt sample_prims sample_inbound (\<lambda>_. 0x41) 0 5 100 16 0))"
proof -
  have eq: "olm_group_decrypt sample_prims sample_inbound (\<lambda>_. 0x41) 0 5 100 16 0 =
      (sample_inbound\<lparr>ig_last_error := OLM_INVALID_BASE64\<rparr>, \<lambda>_. 0x41, 0, None)"
    by (simp add: olm_group_decrypt_def olm_decode_base64_def decode_base64_def decode_base64_length_def)
  have "tracks zero_megolm 0 sample_inbound" "meg_counter zero_megolm = 0"
    by (simp_all add: tracks_def sample_inbound_def zero_megolm_def [THEN arg_cong [where f = meg_counter]])
  with group_rejected_keeps_window [OF eq, of zero_megolm 0] show ?thesis by (simp add: eq)
qed

text \<open>C31: Exporting a session at an index it still knows and importing the text elsewhere gives a
  session that starts at that index, with the same ratchet and signing key; the verification flag of
  the importing session stays as it was.\<close>

theorem group_export_import:
  assumes "tracks r0 k sess" "n < 2 ^ 31" "length (ig_signing_key sess) = 32" "ig_signing_key_verified sess \<in> {0, 1}"
    and "olm_export_inbound_group_session_length \<le> key_length"
  shows "\<exists>sess' m' s1. olm_export_inbound_group_session sess m out key_length (meg_counter r0 + of_nat n)
      = (sess', m', Some olm_export_inbound_group_session_length)
    \<and> olm_import_inbound_group_session P s0 (load m' out olm_export_inbound_group_session_length) = (s1, Some 0)
    \<and> tracks ((megolm_advance ^^ n) r0) 0 s1 \<and> ig_signing_key s1 = ig_signing_key sess
    \<and> ig_signing_key_verified s1 = ig_signing_key_verified s0"
proof -
  let ?meg = "(megolm_advance ^^ n) r0"
  have r0: "wf_megolm r0" "wf_megolm ?meg" using assms(1) by (simp_all add: tracks_def wf_advance_iterated)
  have "wf_inbound sess" using assms(1,3,4) by (simp add: wf_inbound_def tracks_def wf_advance_iterated)
  from olm_export_eq [OF this assms(5) get_megolm_tracks [OF assms(1,2)], of m out] show ?thesis
    using import_of_export [OF r0(2) assms(3), of P s0] r0(2) by (auto simp: tracks_def)
qed

lemma group_export_import_witness:
  "\<exists>sess' m' s1. olm_export_inbound_group_session sample_inbound (\<lambda>_. 0) 0 300 3
      = (sess', m', Some olm_export_inbound_group_session_length)
    \<and> olm_import_inbound_group_session sample_prims sample_inbound
        (load m' 0 olm_export_inbound_group_session_length) = (s1, Some 0)
    \<and> tracks ((megolm_advance ^^ 3) zero_megolm) 0 s1"
proof -
  have "tracks zero_megolm 0 sample_inbound" by (simp add: tracks_def sample_inbound_def)
  moreover have "meg_counter zero_megolm + of_nat 3 = 3" by (simp add: zero_megolm_def)
  moreover have "olm_export_inbound_group_session_length \<le> 300"
    by (simp add: olm_export_inbound_group_session_length_def SESSION_EXPORT_RAW_LENGTH_def
        ED25519_PUBLIC_KEY_LENGTH_def encode_base64_length_def)
  ultimately show ?thesis
    using group_export_import [of zero_megolm 0 sample_inbound 3 300 "\<lambda>_. 0" 0 sample_prims sample_inbound]
    by (fastforce simp: sample_inbound_def)
qed

end
