(* ===== verification/PkProtocol.thy ===== *)
theory PkProtocol
  imports Pk GroupProtocol
begin

text \<open>
  What \<open>src/pk.cpp\<close> promises: decryption undoes encryption, what encryption writes and how far its
  MAC protects the message, and keys through their pickles.
\<close>

section \<open>What encryption writes\<close>

text \<open>The MAC of every message under a secret: the one of the empty string.\<close>

definition pk_tag :: "bytes \<Rightarrow> bytes" where
  "pk_tag secret = cipher_tag OLM_PK_KDF_INFO secret []"

definition pk_ctext :: "bytes \<Rightarrow> bytes \<Rightarrow> bytes" where
  "pk_ctext secret plaintext = cipher_ctext OLM_PK_KDF_INFO secret plaintext"

lemma length_pk [simp]:
  "length (pk_tag secret) = 8"
  "length (pk_ctext secret pt) = aes_sha_256_cipher_encrypt_ciphertext_length (length pt)"
  "olm_pk_key_length = 43"
  by (simp_all add: pk_tag_def pk_ctext_def olm_pk_key_length_def CURVE25519_KEY_LENGTH_def encode_base64_length_alt)

lemma pk_cipher_encrypt_eq: "pk_cipher_encrypt secret pt = (pk_ctext secret pt, pk_tag secret, Some 8)"
proof -
  let ?n = "aes_sha_256_cipher_encrypt_ciphertext_length (length pt)"
  let ?m = "store (\<lambda>_. 0) 0 (pk_ctext secret pt)"
  have "aes_sha_256_cipher_encrypt OLM_PK_KDF_INFO secret pt (\<lambda>_. 0) 0 ?n ?n MAC_LENGTH =
      (store ?m ?n (pk_tag secret), Some 8)"
    using aes_sha_256.enc_eq [of pt ?n MAC_LENGTH OLM_PK_KDF_INFO secret "\<lambda>_. 0" 0 ?n]
    by (simp add: MAC_LENGTH_def pk_ctext_def pk_tag_def)
  moreover have "load (store ?m ?n (pk_tag secret)) 0 ?n = pk_ctext secret pt"
    by (simp add: load_store_disjoint load_store_same)
  moreover have "load (store ?m ?n (pk_tag secret)) ?n MAC_LENGTH = pk_tag secret"
    by (simp add: load_store_same MAC_LENGTH_def)
  ultimately show ?thesis by (simp add: pk_cipher_encrypt_def)
qed

lemma olm_pk_encrypt_eq:
  fixes P e random
  defines "k \<equiv> olm_crypto_curve25519_generate_key P random"
  defines "secret \<equiv> olm_crypto_curve25519_shared_secret P k (recipient_key e)"
  assumes "dh_law P" "olm_pk_ciphertext_length (length pt) \<le> cl" "8 \<le> ml" "43 \<le> es" "32 \<le> length random"
    and "apart ek 43 c cl" "apart mac 11 c cl" "apart ek 43 mac 11"
  shows "\<exists>m'. olm_pk_encrypt P e pt m c cl mac ml ek es random = (e, m', Some 8) \<and>
    load m' ek 43 = b64enc (curve_public k) \<and> load m' mac 11 = b64enc (pk_tag secret) \<and>
    load m' c (olm_pk_ciphertext_length (length pt)) = b64enc (pk_ctext secret pt)"
proof -
  let ?n = "aes_sha_256_cipher_encrypt_ciphertext_length (length pt)"
  let ?pos = "c + cl - ?n"
  let ?m1 = "store m ek (b64enc (curve_public k))"
  let ?m2 = "store ?m1 ?pos (pk_ctext secret pt)"
  let ?m3 = "store ?m2 mac (b64enc (pk_tag secret))"
  let ?m4 = "store ?m3 c (b64enc (pk_ctext secret pt))"
  have len: "length (b64enc (curve_public k)) = 43" "length (b64enc (pk_tag secret)) = 11"
    using assms(3) length_new_key [OF assms(3), of random]
    by (simp_all add: k_def encode_base64_length_alt)
  have ge: "?n \<le> cl" "olm_pk_ciphertext_length (length pt) = encode_base64_length ?n"
    using assms(4) encode_base64_length_le [of ?n] by (simp_all add: olm_pk_ciphertext_length_def)
  have raw: "load ?m3 ?pos ?n = pk_ctext secret pt"
    using assms(9) len ge by (subst load_store_disjoint) (auto simp: apart_def load_store_same)
  have "encode_base64 ?m3 ?pos ?n c = (store ?m3 c (b64enc (load ?m3 ?pos ?n)), c + encode_base64_length ?n)"
    using assms(4) ge by (intro encode_base64_eq) simp
  then have "encode_base64 ?m3 ?pos ?n c = (?m4, c + encode_base64_length ?n)" by (simp only: raw)
  then have "olm_pk_encrypt P e pt m c cl mac ml ek es random = (e, ?m4, Some 8)"
    using assms(4-7)
    by (simp add: olm_pk_encrypt_def Let_def pk_cipher_encrypt_eq encode_base64_from_def
        olm_pk_encrypt_random_length_def CURVE25519_KEY_LENGTH_def flip: k_def secret_def)
  moreover have "load ?m4 c (olm_pk_ciphertext_length (length pt)) = b64enc (pk_ctext secret pt)"
    by (simp add: load_store_same ge)
  moreover have "load ?m4 mac 11 = load ?m3 mac 11"
    using assms(4,9) ge by (intro load_store_disjoint) (auto simp: apart_def)
  moreover have "load ?m3 mac 11 = b64enc (pk_tag secret)" using len by (simp add: load_store_same)
  moreover have "load ?m4 ek 43 = load ?m3 ek 43"
    using assms(4,8) ge by (intro load_store_disjoint) (auto simp: apart_def)
  moreover have "load ?m3 ek 43 = load ?m2 ek 43"
    using assms(10) len by (intro load_store_disjoint) (auto simp: apart_def)
  moreover have "load ?m2 ek 43 = load ?m1 ek 43"
    using assms(8) ge by (intro load_store_disjoint) (auto simp: apart_def)
  moreover have "load ?m1 ek 43 = b64enc (curve_public k)" using len by (simp add: load_store_same)
  ultimately show ?thesis by metis
qed

section \<open>What decryption reads\<close>

lemma olm_pk_decrypt_eq:
  fixes P d eph
  defines "secret \<equiv> olm_crypto_curve25519_shared_secret P (pkd_key_pair d) eph"
  assumes "length eph = 32" "load m c (encode_base64_length (length raw)) = b64enc raw"
    and "length raw \<le> max_len" "max_len < 2 ^ 64 - 1"
  shows "\<exists>m1. load m1 c (length raw) = raw \<and>
    olm_pk_decrypt P d (b64enc eph) (b64enc (pk_tag secret)) m c (encode_base64_length (length raw)) p max_len =
      (let (output, result) = olm_crypto_aes_decrypt_cbc (m1 (p - 1)) (aes_key (derive_keys OLM_PK_KDF_INFO secret))
             (aes_iv (derive_keys OLM_PK_KDF_INFO secret)) (load m1 c (length raw + 16)) (length raw)
       in (if result = None then d\<lparr>pkd_last_error := OLM_BAD_MESSAGE_MAC\<rparr> else d, store m1 p output, result))"
proof -
  let ?n = "encode_base64_length (length raw)" and ?m1 = "store m c raw"
  have dec: "decode_base64 m c ?n c = (?m1, Some (length raw))"
    using decode_base64_eq [of c c ?n m] assms(3) by (simp add: b64dec_b64enc decode_result_def)
  have "aes_sha_256_cipher_decrypt OLM_PK_KDF_INFO secret (pk_tag secret) ct (length raw) before max_len =
      olm_crypto_aes_decrypt_cbc before (aes_key (derive_keys OLM_PK_KDF_INFO secret))
        (aes_iv (derive_keys OLM_PK_KDF_INFO secret)) ct (length raw)" for ct before
    using cipher_decrypt_tag [of "pk_tag secret" OLM_PK_KDF_INFO secret "[]" ct "length raw" before max_len] assms(4)
    by (simp add: MAC_LENGTH_def pk_tag_def)
  then have "olm_pk_decrypt P d (b64enc eph) (b64enc (pk_tag secret)) m c ?n p max_len =
      (let (output, result) = olm_crypto_aes_decrypt_cbc (?m1 (p - 1)) (aes_key (derive_keys OLM_PK_KDF_INFO secret))
             (aes_iv (derive_keys OLM_PK_KDF_INFO secret)) (load ?m1 c (length raw + 16)) (length raw)
       in (if result = None then d\<lparr>pkd_last_error := OLM_BAD_MESSAGE_MAC\<rparr> else d, store ?m1 p output, result))"
    using assms(2,4)
    by (simp add: olm_pk_decrypt_def olm_pk_max_plaintext_length_def aes_sha_256_cipher_decrypt_max_plaintext_length_def
        decode_encode_length CURVE25519_KEY_LENGTH_def MAC_LENGTH_def decode_base64_into_def b64dec_b64enc dec Let_def
        flip: secret_def split: prod.split)
  moreover have "load ?m1 c (length raw) = raw" by (simp add: load_store_same)
  ultimately show ?thesis by blast
qed

section \<open>A key pair and its public half\<close>

lemma key_from_private_eq:
  assumes "dh_law P" "olm_pk_key_from_private P d0 m0 pub pub_len priv = (d, m1, Some 0)"
  shows "pkd_key_pair d = olm_crypto_curve25519_generate_key P priv"
    and "load m1 pub 43 = b64enc (curve_public (pkd_key_pair d))" "d = d0\<lparr>pkd_key_pair := pkd_key_pair d\<rparr>"
  using assms length_new_key [OF assms(1), of priv]
  by (auto simp: olm_pk_key_from_private_def Let_def encode_base64_from_def
      encode_base64_length_alt load_store_same split: if_splits)

lemma set_recipient_key_eq:
  assumes "length pub = 32" "olm_pk_encryption_set_recipient_key e0 (b64enc pub) = (e, r)"
  shows "recipient_key e = pub"
  using assms by (auto simp: olm_pk_encryption_set_recipient_key_def decode_base64_into_def b64dec_b64enc
      encode_base64_length_alt)

text \<open>The buffers of a call of \<open>olm_pk_encrypt\<close>, as long as what it writes, do not overlap.\<close>

definition pk_buffers_apart :: "nat \<Rightarrow> nat \<Rightarrow> nat \<Rightarrow> nat \<Rightarrow> bool" where
  "pk_buffers_apart c cl mac ek \<longleftrightarrow> apart ek 43 c cl \<and> apart mac 11 c cl \<and> apart ek 43 mac 11"

lemma pk_encrypted:
  assumes "dh_law P" "olm_pk_key_from_private P d0 m0 pub pub_len priv = (d, m1, Some 0)"
    and "olm_pk_encryption_set_recipient_key e0 (load m1 pub 43) = (e, r0)"
    and "olm_pk_encrypt P e pt m c cl mac ml ek es random = (e', m2, Some r)"
    and "pk_buffers_apart c cl mac ek"
  shows "\<exists>eph. length eph = 32 \<and> load m2 ek 43 = b64enc eph \<and>
    load m2 mac 11 = b64enc (pk_tag (olm_crypto_curve25519_shared_secret P (pkd_key_pair d) eph)) \<and>
    load m2 c (olm_pk_ciphertext_length (length pt)) =
      b64enc (pk_ctext (olm_crypto_curve25519_shared_secret P (pkd_key_pair d) eph) pt)"
proof -
  note key = key_from_private_eq [OF assms(1,2)]
  let ?k = "olm_crypto_curve25519_generate_key P random"
  have gen: "generated P (pkd_key_pair d)" "generated P ?k" using assms(2,4) by (auto simp: key(1) generated_key olm_pk_encrypt_def olm_pk_key_from_private_def
      olm_pk_encrypt_random_length_def olm_pk_private_key_length_def CURVE25519_KEY_LENGTH_def intro!: generated_key split: if_splits)
  have rcpt: "recipient_key e = curve_public (pkd_key_pair d)"
    using set_recipient_key_eq [OF length_generated [OF assms(1) gen(1)]] assms(3) by (simp add: key(2))
  have sizes: "olm_pk_ciphertext_length (length pt) \<le> cl" "8 \<le> ml" "43 \<le> es" "32 \<le> length random"
    using assms(4) by (auto simp: olm_pk_encrypt_def olm_pk_encrypt_random_length_def CURVE25519_KEY_LENGTH_def split: if_splits)
  from olm_pk_encrypt_eq [OF assms(1) sizes, of ek c mac e m] assms(4,5)
  have "load m2 ek 43 = b64enc (curve_public ?k) \<and>
      load m2 mac 11 = b64enc (pk_tag (olm_crypto_curve25519_shared_secret P ?k (recipient_key e))) \<and>
      load m2 c (olm_pk_ciphertext_length (length pt)) =
        b64enc (pk_ctext (olm_crypto_curve25519_shared_secret P ?k (recipient_key e)) pt)"
    by (auto simp: pk_buffers_apart_def)
  then show ?thesis
    using shared_secret_swap [OF assms(1) gen] length_generated [OF assms(1) gen(2)]
    by (intro exI [of _ "curve_public ?k"]) (simp add: rcpt)
qed

section \<open>Pickled keys\<close>

definition ser_pk :: "OlmPkDecryption \<Rightarrow> bytes" where
  "ser_pk d = be_bytes 4 PK_DECRYPTION_PICKLE_VERSION @ ser_curve25519_key_pair (pkd_key_pair d)"

definition wf_pk :: "OlmPkDecryption \<Rightarrow> bool" where
  "wf_pk d \<longleftrightarrow> wf_curve25519_key_pair (pkd_key_pair d)"

lemma length_ser_pk: "wf_pk d \<Longrightarrow> length (ser_pk d) = pk_pickle_length d"
  by (simp add: ser_pk_def wf_pk_def pk_pickle_length_def curve25519_key_pair_format.length_ser)

lemma pk_pickle_eq: "wf_pk d \<Longrightarrow> pk_pickle m pos d = (store m pos (ser_pk d), pos + pk_pickle_length d)"
  by (simp add: pk_pickle_def wf_pk_def pickle_simps curve25519_key_pair_format.pickle_eq store_at_end
      pk_pickle_length_def ser_pk_def)

lemma unpickle_pk_raw_ser:
  "wf_pk d0 \<Longrightarrow> wf_pk d \<Longrightarrow> unpickle_pk_raw d0 (ser_pk d) = (d\<lparr>pkd_last_error := pkd_last_error d0\<rparr>, True)"
  using curve25519_key_pair_format.unpickle_ser [of "pkd_key_pair d0" "pkd_key_pair d" "[]"]
  by (simp add: unpickle_pk_raw_def pk_unpickle_def ser_pk_def wf_pk_def pickle_simps PK_DECRYPTION_PICKLE_VERSION_def)

interpretation pk_object: pickled_object
  olm_enc_output_length olm_enc_output_pos pickle_seal olm_enc_output olm_enc_input
  wf_pk wf_pk "\<lambda>d0 d. d\<lparr>pkd_last_error := pkd_last_error d0\<rparr>" ser_pk pk_pickle_length pkd_last_error
  "\<lambda>e d. d\<lparr>pkd_last_error := e\<rparr>" olm_pickle_pk_decryption unpickle_pk_raw
  "\<lambda>d key m p n. olm_unpickle_pk_decryption d key m p n None 0"
  by unfold_locales
    (simp_all add: length_ser_pk olm_pickle_pk_decryption_def pk_pickle_eq olm_unpickle_pk_decryption_def
      unpickle_pk_raw_ser Let_def split: option.split prod.split)

section \<open>Properties\<close>

text \<open>C7: Who holds the private key reads what was encrypted to the public key that was published for it:
  ciphertext, MAC and ephemeral key of an encryption, copied anywhere, decrypt to the plaintext.\<close>

theorem pk_decrypt_undoes_encrypt:
  assumes "dh_law P" "olm_pk_key_from_private P d0 m0 pub pub_len priv = (d, m1, Some 0)"
    and "olm_pk_encryption_set_recipient_key e0 (load m1 pub 43) = (e, r0)"
    and "olm_pk_encrypt P e pt m c cl mac ml ek es random = (e', m2, Some r)"
    and "pk_buffers_apart c cl mac ek" "n = olm_pk_ciphertext_length (length pt)"
    and "load m3 c' n = load m2 c n" "apart p max_len c' n" "n \<le> max_len" "max_len < 2 ^ 64 - 1"
  shows "\<exists>m4. olm_pk_decrypt P d (load m2 ek 43) (load m2 mac 11) m3 c' n p max_len = (d, m4, Some (length pt)) \<and>
    load m4 p (length pt) = pt"
proof -
  from pk_encrypted [OF assms(1-5)] obtain eph where enc: "length eph = 32" "load m2 ek 43 = b64enc eph"
    "load m2 mac 11 = b64enc (pk_tag (olm_crypto_curve25519_shared_secret P (pkd_key_pair d) eph))"
    "load m2 c n = b64enc (pk_ctext (olm_crypto_curve25519_shared_secret P (pkd_key_pair d) eph) pt)"
    unfolding assms(6) by blast
  let ?secret = "olm_crypto_curve25519_shared_secret P (pkd_key_pair d) eph"
  let ?keys = "derive_keys OLM_PK_KDF_INFO ?secret" and ?raw = "pk_ctext ?secret pt"
  have n: "n = encode_base64_length (length ?raw)" by (simp add: assms(6) olm_pk_ciphertext_length_def)
  have "length ?raw \<le> max_len" using assms(9) encode_base64_length_le [of "length ?raw"] by (simp only: n)
  from olm_pk_decrypt_eq [OF enc(1) _ this assms(10), of m3 c' P d p] assms(7) obtain m4 where m4:
    "load m4 c' (length ?raw) = ?raw"
    "olm_pk_decrypt P d (b64enc eph) (b64enc (pk_tag ?secret)) m3 c' n p max_len =
      (let (output, result) = olm_crypto_aes_decrypt_cbc (m4 (p - 1)) (aes_key ?keys) (aes_iv ?keys)
             (load m4 c' (length ?raw + 16)) (length ?raw)
       in (if result = None then d\<lparr>pkd_last_error := OLM_BAD_MESSAGE_MAC\<rparr> else d, store m4 p output, result))"
    unfolding n enc(4) [unfolded n] by blast
  have "load m4 c' (length ?raw + 16) = ?raw @ load m4 (c' + length ?raw) 16"
    using m4(1) by (simp add: load_add)
  moreover have "olm_crypto_aes_decrypt_cbc (m4 (p - 1)) (aes_key ?keys) (aes_iv ?keys)
      (?raw @ load m4 (c' + length ?raw) 16) (length ?raw) = (pkcs7_pad pt, Some (length pt))"
    using aes_cbc_roundtrip [OF length_derived_keys(3) refl, where key = "aes_key ?keys"]
    by (simp add: pk_ctext_def cipher_ctext_def Let_def del: length_pk)
  ultimately have "olm_pk_decrypt P d (b64enc eph) (b64enc (pk_tag ?secret)) m3 c' n p max_len =
      (d, store m4 p (pkcs7_pad pt), Some (length pt))"
    using m4(2) by simp
  moreover obtain w where "pkcs7_pad pt = pt @ w" by (auto simp: pkcs7_pad_def Let_def)
  ultimately show ?thesis using load_plaintext [of m4 p pt w] by (simp add: enc(2,3))
qed

text \<open>C8: The MAC does not protect the message.  With the ephemeral key and the MAC of one encryption any
  other ciphertext is decrypted too: the result is its CBC decryption under the keys of the secret, and
  only a padding byte above its length is refused.\<close>

theorem pk_mac_ignores_ciphertext:
  assumes "dh_law P" "olm_pk_key_from_private P d0 m0 pub pub_len priv = (d, m1, Some 0)"
    and "olm_pk_encryption_set_recipient_key e0 (load m1 pub 43) = (e, r0)"
    and "olm_pk_encrypt P e pt m c cl mac ml ek es random = (e', m2, Some r)"
    and "pk_buffers_apart c cl mac ek" "n = encode_base64_length (length forged)"
    and "load m3 c' n = b64enc forged" "length forged \<le> max_len" "max_len < 2 ^ 64 - 1"
  shows "\<exists>eph m4 before behind. load m2 ek 43 = b64enc eph \<and>
    (let keys = derive_keys OLM_PK_KDF_INFO (olm_crypto_curve25519_shared_secret P (pkd_key_pair d) eph);
         (output, result) = olm_crypto_aes_decrypt_cbc before (aes_key keys) (aes_iv keys) (forged @ behind) (length forged)
     in olm_pk_decrypt P d (load m2 ek 43) (load m2 mac 11) m3 c' n p max_len =
       (if result = None then d\<lparr>pkd_last_error := OLM_BAD_MESSAGE_MAC\<rparr> else d, store m4 p output, result))"
proof -
  from pk_encrypted [OF assms(1-5)] obtain eph where enc: "length eph = 32" "load m2 ek 43 = b64enc eph"
    "load m2 mac 11 = b64enc (pk_tag (olm_crypto_curve25519_shared_secret P (pkd_key_pair d) eph))"
    by blast
  let ?keys = "derive_keys OLM_PK_KDF_INFO (olm_crypto_curve25519_shared_secret P (pkd_key_pair d) eph)"
  from olm_pk_decrypt_eq [OF enc(1) assms(7) [unfolded assms(6)] assms(8,9), of P d p] obtain m4 where m4:
    "load m4 c' (length forged) = forged"
    "olm_pk_decrypt P d (load m2 ek 43) (load m2 mac 11) m3 c' n p max_len =
      (let (output, result) = olm_crypto_aes_decrypt_cbc (m4 (p - 1)) (aes_key ?keys) (aes_iv ?keys)
             (load m4 c' (length forged + 16)) (length forged)
       in (if result = None then d\<lparr>pkd_last_error := OLM_BAD_MESSAGE_MAC\<rparr> else d, store m4 p output, result))"
    unfolding enc(2,3) assms(6) by blast
  have behind: "load m4 c' (length forged + 16) = forged @ load m4 (c' + length forged) 16"
    using m4(1) by (simp add: load_add)
  show ?thesis
    by (rule exI [of _ eph], rule exI [of _ m4], rule exI [of _ "m4 (p - 1)"],
        rule exI [of _ "load m4 (c' + length forged) 16"],
        insert enc(2) m4(2) behind, simp add: Let_def split: prod.split)
qed

text \<open>An encryption is accepted if the buffer for the MAC has 8 bytes, the length of the raw MAC, but it
  writes the 11 characters of its base64 form.\<close>

theorem pk_mac_needs_more_than_checked:
  assumes "dh_law P" "cl = olm_pk_ciphertext_length (length pt)" "length random = olm_pk_encrypt_random_length"
    and "pk_buffers_apart c cl mac ek"
  shows "olm_pk_mac_length = 11 \<and> (\<exists>m' t. olm_pk_encrypt P e pt m c cl mac 8 ek olm_pk_key_length random = (e, m', Some 8) \<and>
    load m' mac 11 = b64enc t \<and> length t = 8)"
proof
  show "olm_pk_mac_length = 11" by (simp add: olm_pk_mac_length_def encode_base64_length_alt)
  have "32 \<le> length random" using assms(3) by (simp add: olm_pk_encrypt_random_length_def CURVE25519_KEY_LENGTH_def)
  from olm_pk_encrypt_eq [OF assms(1) _ _ _ this, of pt cl 8 43 ek c mac e m] assms(2,4)
  show "\<exists>m' t. olm_pk_encrypt P e pt m c cl mac 8 ek olm_pk_key_length random = (e, m', Some 8) \<and>
    load m' mac 11 = b64enc t \<and> length t = 8"
    unfolding pk_buffers_apart_def length_pk(3) using length_pk(1) by fastforce
qed

text \<open>A signature made with a key pair grown from a seed is accepted by the signature check of the C
  functions, for the public key that was published in base64 with the seed.\<close>

theorem pk_signatures_verify:
  assumes "sign_law P" "olm_pk_signing_key_from_seed P s0 m0 pub pub_len seed = (s, m1, Some 0)"
    and "olm_pk_sign P s msg m sig sig_len = (s', m2, Some r)"
    and "load m3 q r = load m2 sig r"
  shows "r = olm_pk_signature_length \<and>
    (\<exists>m4. olm_ed25519_verify P u (load m1 pub olm_pk_signing_public_key_length) msg m3 q r = (u, m4, Some 0))"
proof -
  let ?pair = "olm_crypto_ed25519_generate_key P seed" and ?raw = "olm_crypto_ed25519_sign P (pks_key_pair s) msg"
  have pair: "pks_key_pair s = ?pair" "m1 = store m0 pub (b64enc (ed_public ?pair))"
    using assms(2) by (auto simp: olm_pk_signing_key_from_seed_def Let_def encode_base64_from_def split: if_splits)
  have len: "length (ed_public ?pair) = 32" "length ?raw = 64"
    using assms(1) by (auto simp: olm_crypto_ed25519_generate_key_def olm_crypto_ed25519_sign_def sign_law_def split: prod.split)
      (metis fst_conv)
  have n: "olm_pk_signature_length = encode_base64_length 64" "olm_pk_signing_public_key_length = encode_base64_length 32"
    by (simp_all add: olm_pk_signature_length_def olm_pk_signing_public_key_length_def ED25519_SIGNATURE_LENGTH_def
        ED25519_PUBLIC_KEY_LENGTH_def)
  let ?pos = "b64_output_pos sig 64"
  have pos: "sig + olm_pk_signature_length - 64 = ?pos"
    by (simp add: b64_output_pos_def n)
  have "encode_base64 (store m ?pos ?raw) ?pos 64 sig =
      (store (store m ?pos ?raw) sig (b64enc (load (store m ?pos ?raw) ?pos 64)), sig + encode_base64_length 64)"
    using b64_output_pos_inside(2) [of sig 64] by (intro encode_base64_eq) (simp add: b64_output_length_def)
  then have r: "r = olm_pk_signature_length" "m2 = store (store m ?pos ?raw) sig (b64enc ?raw)"
    using assms(3) len(2)
    by (auto simp: olm_pk_sign_def Let_def pos load_store_same ED25519_SIGNATURE_LENGTH_def split: if_splits)
  have "load m3 q r = b64enc ?raw" using assms(4) len(2) n(1) by (simp add: r load_store_same)
  then have inp: "b64_input m3 q r (util_last_error u) = (store m3 q ?raw, util_last_error u, Some 64)"
    using b64_input_eq [of m3 q r ?raw] len(2) n(1) r(1) by simp
  have key: "load m1 pub olm_pk_signing_public_key_length = b64enc (ed_public ?pair)"
    using len(1) n(2) by (simp add: pair(2) load_store_same)
  have "olm_crypto_ed25519_verify P (ed_public ?pair) msg ?raw"
    using generated_key_signs [OF assms(1), of seed] by (simp add: pair(1) signs_for_def)
  then have "olm_ed25519_verify P u (b64enc (ed_public ?pair)) msg m3 q r = (u, store m3 q ?raw, Some 0)"
    using len
    by (simp add: olm_ed25519_verify_def decodes_to_def decode_encode_length CURVE25519_KEY_LENGTH_def local_key_def
        decode_base64_into_def b64dec_b64enc inp util_ed25519_verify_def ED25519_SIGNATURE_LENGTH_def load_store_same)
  then show ?thesis using r(1) by (simp add: key)
qed

section \<open>Witnesses\<close>

definition sample_pk_key :: "OlmPkDecryption \<times> mem \<times> nat option" where
  "sample_pk_key = olm_pk_key_from_private sample_prims olm_pk_decryption (\<lambda>_. 0) 0 43 (replicate 32 1)"

definition sample_pk_recipient :: "OlmPkEncryption \<times> nat option" where
  "sample_pk_recipient = olm_pk_encryption_set_recipient_key olm_pk_encryption (load (fst (snd sample_pk_key)) 0 43)"

text \<open>Ciphertext at 100, MAC at 50, ephemeral key at 0.\<close>

definition sample_pk_message :: "OlmPkEncryption \<times> mem \<times> nat option" where
  "sample_pk_message = olm_pk_encrypt sample_prims (fst sample_pk_recipient) [7, 8] (\<lambda>_. 0) 100 22 50 11 0 43 (replicate 32 2)"

lemma pk_ciphertext_length_2: "olm_pk_ciphertext_length 2 = 22" "olm_pk_ciphertext_length (length [7 :: u8, 8]) = 22"
  by (simp_all add: olm_pk_ciphertext_length_def aes_sha_256_cipher_encrypt_ciphertext_length_def
      olm_crypto_aes_encrypt_cbc_length_def encode_base64_length_alt)

lemma sample_pk_ok:
  "olm_pk_key_from_private sample_prims olm_pk_decryption (\<lambda>_. 0) 0 43 (replicate 32 1) =
     (fst sample_pk_key, fst (snd sample_pk_key), Some 0)"
  "olm_pk_encryption_set_recipient_key olm_pk_encryption (load (fst (snd sample_pk_key)) 0 43) =
     (fst sample_pk_recipient, snd sample_pk_recipient)"
  "olm_pk_encrypt sample_prims (fst sample_pk_recipient) [7, 8] (\<lambda>_. 0) 100 22 50 11 0 43 (replicate 32 2) =
     (fst sample_pk_message, fst (snd sample_pk_message), Some 8)"
  "pk_buffers_apart 100 22 50 0"
proof -
  show "olm_pk_key_from_private sample_prims olm_pk_decryption (\<lambda>_. 0) 0 43 (replicate 32 1) =
     (fst sample_pk_key, fst (snd sample_pk_key), Some 0)"
    by (simp add: sample_pk_key_def olm_pk_key_from_private_def olm_pk_private_key_length_def
        CURVE25519_KEY_LENGTH_def Let_def split: prod.split)
  show "olm_pk_encryption_set_recipient_key olm_pk_encryption (load (fst (snd sample_pk_key)) 0 43) =
     (fst sample_pk_recipient, snd sample_pk_recipient)"
    by (simp add: sample_pk_recipient_def)
  show "pk_buffers_apart 100 22 50 0" by (simp add: pk_buffers_apart_def apart_def)
  then show "olm_pk_encrypt sample_prims (fst sample_pk_recipient) [7, 8] (\<lambda>_. 0) 100 22 50 11 0 43 (replicate 32 2) =
     (fst sample_pk_message, fst (snd sample_pk_message), Some 8)"
    using olm_pk_encrypt_eq [OF sample_dh_law, of "[7, 8]" 22 11 43 "replicate 32 2" 0 100 50 "fst sample_pk_recipient" "\<lambda>_. 0"]
      pk_ciphertext_length_2(2)
    by (auto simp: sample_pk_message_def pk_buffers_apart_def)
qed

lemma pk_decrypt_undoes_encrypt_witness:
  "\<exists>m4. olm_pk_decrypt sample_prims (fst sample_pk_key) (load (fst (snd sample_pk_message)) 0 43)
      (load (fst (snd sample_pk_message)) 50 11) (fst (snd sample_pk_message)) 100 22 200 22 =
    (fst sample_pk_key, m4, Some 2) \<and> load m4 200 2 = [7, 8]"
proof -
  have len: "length [7 :: u8, 8] = 2" by simp
  have "apart 200 22 100 22" "(22 :: nat) \<le> 22" "(22 :: nat) < 2 ^ 64 - 1" by (simp_all add: apart_def)
  from pk_decrypt_undoes_encrypt [OF sample_dh_law sample_pk_ok(1-4) pk_ciphertext_length_2(2) [symmetric] refl this]
  show ?thesis unfolding len .
qed

lemma pk_mac_ignores_ciphertext_witness:
  "let m = store (\<lambda>_. 0) 100 (b64enc (replicate 16 1)) in
   \<exists>eph m4 before behind. load (fst (snd sample_pk_message)) 0 43 = b64enc eph \<and>
    (let keys = derive_keys OLM_PK_KDF_INFO
           (olm_crypto_curve25519_shared_secret sample_prims (pkd_key_pair (fst sample_pk_key)) eph);
         (output, result) = olm_crypto_aes_decrypt_cbc before (aes_key keys) (aes_iv keys) (replicate 16 1 @ behind) 16
     in olm_pk_decrypt sample_prims (fst sample_pk_key) (load (fst (snd sample_pk_message)) 0 43)
         (load (fst (snd sample_pk_message)) 50 11) m 100 22 200 22 =
       (if result = None then (fst sample_pk_key)\<lparr>pkd_last_error := OLM_BAD_MESSAGE_MAC\<rparr> else fst sample_pk_key,
        store m4 200 output, result))"
proof -
  have "22 = encode_base64_length (length (replicate 16 (1 :: u8)))" by (simp add: encode_base64_length_alt)
  moreover have "load (store (\<lambda>_. 0) 100 (b64enc (replicate 16 1))) 100 22 = b64enc (replicate 16 1)"
    by (rule load_store_same) (simp add: encode_base64_length_alt)
  ultimately show ?thesis
    using pk_mac_ignores_ciphertext [OF sample_dh_law sample_pk_ok(1-4), of 22 "replicate 16 1"
        "store (\<lambda>_. 0) 100 (b64enc (replicate 16 1))" 100 22 200] by (simp add: Let_def)
qed

lemma pk_mac_needs_more_than_checked_witness:
  "\<exists>m' t. olm_pk_encrypt sample_prims (fst sample_pk_recipient) [7, 8] (\<lambda>_. 0) 100 22 50 8 0 olm_pk_key_length
      (replicate 32 2) = (fst sample_pk_recipient, m', Some 8) \<and> load m' 50 11 = b64enc t \<and> length t = 8"
proof -
  have "length (replicate 32 (2 :: u8)) = olm_pk_encrypt_random_length"
    by (simp add: olm_pk_encrypt_random_length_def CURVE25519_KEY_LENGTH_def)
  from pk_mac_needs_more_than_checked [OF sample_dh_law pk_ciphertext_length_2(2) [symmetric] this sample_pk_ok(4)]
  show ?thesis by blast
qed

lemma pk_signatures_verify_witness:
  "\<exists>s m1 s' m2 m4. olm_pk_signing_key_from_seed sample_prims olm_pk_signing (\<lambda>_. 0) 0 43 (replicate 32 1) = (s, m1, Some 0) \<and>
    olm_pk_sign sample_prims s [5] (\<lambda>_. 0) 0 86 = (s', m2, Some 86) \<and>
    olm_ed25519_verify sample_prims olm_utility (load m1 0 olm_pk_signing_public_key_length) [5] m2 0 86 =
      (olm_utility, m4, Some 0)"
proof -
  obtain s m1 where key: "olm_pk_signing_key_from_seed sample_prims olm_pk_signing (\<lambda>_. 0) 0 43 (replicate 32 1) = (s, m1, Some 0)"
    by (simp add: olm_pk_signing_key_from_seed_def encode_base64_from_def olm_pk_signing_public_key_length_def
        olm_pk_signing_seed_length_def ED25519_PUBLIC_KEY_LENGTH_def ED25519_RANDOM_LENGTH_def encode_base64_length_alt Let_def split: prod.splits)
  have n: "olm_pk_signature_length = 86"
    by (simp add: olm_pk_signature_length_def ED25519_SIGNATURE_LENGTH_def encode_base64_length_alt)
  then obtain s' m2 where "olm_pk_sign sample_prims s [5] (\<lambda>_. 0) 0 86 = (s', m2, Some 86)"
    by (cases "encode_base64 (store (\<lambda>_. 0) (olm_pk_signature_length - ED25519_SIGNATURE_LENGTH)
        (olm_crypto_ed25519_sign sample_prims (pks_key_pair s) [5]))
        (olm_pk_signature_length - ED25519_SIGNATURE_LENGTH) ED25519_SIGNATURE_LENGTH 0")
      (simp add: olm_pk_sign_def Let_def)
  with pk_signatures_verify [OF sample_sign_law key this refl, of olm_utility] key show ?thesis by blast
qed

end
