(* ===== verification/Donna.thy ===== *)
theory Donna
  imports Prelude
begin

text \<open>
  \<open>lib/curve25519-donna/curve25519-donna.c\<close>: the Diffie-Hellman function that the library calls, on
  field elements of ten signed limbs of 26 and 25 bits.  An array of limbs is a list; the arrays
  of 19 limbs hold products, of the others the code uses the first ten limbs only.
\<close>

unbundle bit_operations_syntax

type_synonym limb = "64 word"
type_synonym s32 = "32 word"

text \<open>The casts between the two signed types.\<close>

definition to_s32 :: "limb \<Rightarrow> s32" where "to_s32 x = ucast x"
definition to_limb :: "s32 \<Rightarrow> limb" where "to_limb x = scast x"

section \<open>Field operations\<close>

definition fsum :: "limb list \<Rightarrow> limb list \<Rightarrow> limb list" where
  "fsum output input =
     fold (\<lambda>i output. let output = output[i := output ! i + input ! i]
                      in output[i + 1 := output ! (i + 1) + input ! (i + 1)]) [0, 2, 4, 6, 8] output"

definition fdifference :: "limb list \<Rightarrow> limb list \<Rightarrow> limb list" where
  "fdifference output input = fold (\<lambda>i output. output[i := input ! i - output ! i]) [0..<10] output"

definition fscalar_product :: "limb list \<Rightarrow> limb list \<Rightarrow> limb \<Rightarrow> limb list" where
  "fscalar_product output input scalar = fold (\<lambda>i output. output[i := input ! i * scalar]) [0..<10] output"

text \<open>Every factor is a limb, cast to 32 bits and back.\<close>

definition product_limbs :: "(nat \<Rightarrow> nat \<Rightarrow> 'a :: comm_ring_1) \<Rightarrow> 'a list" where
  "product_limbs p =
     [p 0 0,
       p 0 1 + p 1 0,
       2 * p 1 1 + p 0 2 + p 2 0,
       p 1 2 + p 2 1 + p 0 3 + p 3 0,
       p 2 2 + 2 * (p 1 3 + p 3 1) + p 0 4 + p 4 0,
       p 2 3 + p 3 2 + p 1 4 + p 4 1 + p 0 5 + p 5 0,
       2 * (p 3 3 + p 1 5 + p 5 1) + p 2 4 + p 4 2 + p 0 6 + p 6 0,
       p 3 4 + p 4 3 + p 2 5 + p 5 2 + p 1 6 + p 6 1 + p 0 7 + p 7 0,
       p 4 4 + 2 * (p 3 5 + p 5 3 + p 1 7 + p 7 1) + p 2 6 + p 6 2 + p 0 8 + p 8 0,
       p 4 5 + p 5 4 + p 3 6 + p 6 3 + p 2 7 + p 7 2 + p 1 8 + p 8 1 + p 0 9 + p 9 0,
       2 * (p 5 5 + p 3 7 + p 7 3 + p 1 9 + p 9 1) + p 4 6 + p 6 4 + p 2 8 + p 8 2,
       p 5 6 + p 6 5 + p 4 7 + p 7 4 + p 3 8 + p 8 3 + p 2 9 + p 9 2,
       p 6 6 + 2 * (p 5 7 + p 7 5 + p 3 9 + p 9 3) + p 4 8 + p 8 4,
       p 6 7 + p 7 6 + p 5 8 + p 8 5 + p 4 9 + p 9 4,
       2 * (p 7 7 + p 5 9 + p 9 5) + p 6 8 + p 8 6,
       p 7 8 + p 8 7 + p 6 9 + p 9 6,
       p 8 8 + 2 * (p 7 9 + p 9 7),
       p 8 9 + p 9 8,
       2 * p 9 9]"

definition fproduct :: "limb list \<Rightarrow> limb list \<Rightarrow> limb list" where
  "fproduct in2 input = product_limbs (\<lambda>i j. to_limb (to_s32 (in2 ! i)) * to_limb (to_s32 (input ! j)))"

definition freduce_degree :: "limb list \<Rightarrow> limb list" where
  "freduce_degree output =
     fold (\<lambda>i output.
        let output = output[i := output ! i + push_bit 4 (output ! (i + 10))];
            output = output[i := output ! i + push_bit 1 (output ! (i + 10))]
        in output[i := output ! i + output ! (i + 10)]) [8, 7, 6, 5, 4, 3, 2, 1, 0] output"

definition div_by_2_26 :: "limb \<Rightarrow> limb" where
  "div_by_2_26 v =
     (let highword = (ucast (drop_bit 32 v) :: u32);
          sign = (signed_drop_bit 31 highword :: s32);
          roundoff = (drop_bit 6 sign :: s32)
      in signed_drop_bit 26 (v + to_limb roundoff))"

definition div_by_2_25 :: "limb \<Rightarrow> limb" where
  "div_by_2_25 v =
     (let highword = (ucast (drop_bit 32 v) :: u32);
          sign = (signed_drop_bit 31 highword :: s32);
          roundoff = (drop_bit 7 sign :: s32)
      in signed_drop_bit 25 (v + to_limb roundoff))"

definition freduce_coefficients :: "limb list \<Rightarrow> limb list" where
  "freduce_coefficients output =
     (let output = output[10 := 0];
          output = fold (\<lambda>i output.
            let over = div_by_2_26 (output ! i);
                output = output[i := output ! i - push_bit 26 over];
                output = output[i + 1 := output ! (i + 1) + over];
                over = div_by_2_25 (output ! (i + 1));
                output = output[i + 1 := output ! (i + 1) - push_bit 25 over]
            in output[i + 2 := output ! (i + 2) + over]) [0, 2, 4, 6, 8] output;
          output = output[0 := output ! 0 + push_bit 4 (output ! 10)];
          output = output[0 := output ! 0 + push_bit 1 (output ! 10)];
          output = output[0 := output ! 0 + output ! 10];
          output = output[10 := 0];
          over = div_by_2_26 (output ! 0);
          output = output[0 := output ! 0 - push_bit 26 over]
      in output[1 := output ! 1 + over])"

definition fmul :: "limb list \<Rightarrow> limb list \<Rightarrow> limb list" where
  "fmul input in2 = take 10 (freduce_coefficients (freduce_degree (fproduct input in2)))"

definition square_limbs :: "(nat \<Rightarrow> nat \<Rightarrow> 'a :: comm_ring_1) \<Rightarrow> 'a list" where
  "square_limbs p =
     [p 0 0,
       2 * p 0 1,
       2 * (p 1 1 + p 0 2),
       2 * (p 1 2 + p 0 3),
       p 2 2 + 4 * p 1 3 + 2 * p 0 4,
       2 * (p 2 3 + p 1 4 + p 0 5),
       2 * (p 3 3 + p 2 4 + p 0 6 + 2 * p 1 5),
       2 * (p 3 4 + p 2 5 + p 1 6 + p 0 7),
       p 4 4 + 2 * (p 2 6 + p 0 8 + 2 * (p 1 7 + p 3 5)),
       2 * (p 4 5 + p 3 6 + p 2 7 + p 1 8 + p 0 9),
       2 * (p 5 5 + p 4 6 + p 2 8 + 2 * (p 3 7 + p 1 9)),
       2 * (p 5 6 + p 4 7 + p 3 8 + p 2 9),
       p 6 6 + 2 * (p 4 8 + 2 * (p 5 7 + p 3 9)),
       2 * (p 6 7 + p 5 8 + p 4 9),
       2 * (p 7 7 + p 6 8 + 2 * p 5 9),
       2 * (p 7 8 + p 6 9),
       p 8 8 + 4 * p 7 9,
       2 * p 8 9,
       2 * p 9 9]"

definition fsquare_inner :: "limb list \<Rightarrow> limb list" where
  "fsquare_inner input = square_limbs (\<lambda>i j. to_limb (to_s32 (input ! i)) * to_limb (to_s32 (input ! j)))"

definition fsquare :: "limb list \<Rightarrow> limb list" where
  "fsquare input = take 10 (freduce_coefficients (freduce_degree (fsquare_inner input)))"

section \<open>Conversion from and to bytes\<close>

definition fexpand_limb :: "bytes \<Rightarrow> nat \<Rightarrow> nat \<Rightarrow> limb \<Rightarrow> limb" where
  "fexpand_limb input start shift msk =
     signed_drop_bit shift
       (ucast (input ! (start + 0))
        OR push_bit 8 (ucast (input ! (start + 1)))
        OR push_bit 16 (ucast (input ! (start + 2)))
        OR push_bit 24 (ucast (input ! (start + 3)))) AND msk"

definition fexpand :: "bytes \<Rightarrow> limb list" where
  "fexpand input =
     [fexpand_limb input 0 0 0x3ffffff, fexpand_limb input 3 2 0x1ffffff, fexpand_limb input 6 3 0x3ffffff,
      fexpand_limb input 9 5 0x1ffffff, fexpand_limb input 12 6 0x3ffffff, fexpand_limb input 16 0 0x1ffffff,
      fexpand_limb input 19 1 0x3ffffff, fexpand_limb input 22 3 0x1ffffff, fexpand_limb input 25 4 0x3ffffff,
      fexpand_limb input 28 6 0x1ffffff]"

definition s32_eq :: "s32 \<Rightarrow> s32 \<Rightarrow> s32" where
  "s32_eq a b =
     (let a = NOT (a XOR b);
          a = a AND push_bit 16 a;
          a = a AND push_bit 8 a;
          a = a AND push_bit 4 a;
          a = a AND push_bit 2 a;
          a = a AND push_bit 1 a
      in signed_drop_bit 31 a)"

definition s32_gte :: "s32 \<Rightarrow> s32 \<Rightarrow> s32" where
  "s32_gte a b = (let a = a - b in NOT (signed_drop_bit 31 a))"

text \<open>The width of a limb, which the code gets from the parity of its index.\<close>

definition limb_width :: "nat \<Rightarrow> nat" where
  "limb_width i = (if i AND 1 = 1 then 25 else 26)"

text \<open>One step of the passes that make the limbs non-negative, and the pass over all ten.\<close>

definition borrow_step :: "nat \<Rightarrow> s32 list \<Rightarrow> s32 list" where
  "borrow_step i input =
     (let mask = signed_drop_bit 31 (input ! i);
          carry = - signed_drop_bit (limb_width i) (input ! i AND mask);
          input = input[i := input ! i + push_bit (limb_width i) carry]
      in input[i + 1 := input ! (i + 1) - carry])"

definition borrow_last :: "s32 list \<Rightarrow> s32 list" where
  "borrow_last input =
     (let mask = signed_drop_bit 31 (input ! 9);
          carry = - signed_drop_bit 25 (input ! 9 AND mask);
          input = input[9 := input ! 9 + push_bit 25 carry]
      in input[0 := input ! 0 - carry * 19])"

definition limb_mask :: "nat \<Rightarrow> s32" where
  "limb_mask i = (if i AND 1 = 1 then 0x1ffffff else 0x3ffffff)"

definition carry_step :: "nat \<Rightarrow> s32 list \<Rightarrow> s32 list" where
  "carry_step i input =
     (let carry = signed_drop_bit (limb_width i) (input ! i);
          input = input[i := input ! i AND limb_mask i]
      in input[i + 1 := input ! (i + 1) + carry])"

definition carry_last :: "s32 list \<Rightarrow> s32 list" where
  "carry_last input =
     (let carry = signed_drop_bit 25 (input ! 9);
          input = input[9 := input ! 9 AND 0x1ffffff]
      in input[0 := input ! 0 + 19 * carry])"

text \<open>The mask is all ones for a number that is not below the prime, which is then subtracted.\<close>

definition contract_mask :: "s32 list \<Rightarrow> s32" where
  "contract_mask input =
     fold (\<lambda>i mask. mask AND s32_eq (input ! i) (limb_mask i)) [1..<10] (s32_gte (input ! 0) 0x3ffffed)"

definition contract_subtract :: "s32 \<Rightarrow> s32 list \<Rightarrow> s32 list" where
  "contract_subtract msk input =
     fold (\<lambda>i input. input[i := input ! i - (msk AND limb_mask i)]) [1..<10]
       (input[0 := input ! 0 - (msk AND 0x3ffffed)])"

definition contract_limb :: "s32 \<Rightarrow> nat \<Rightarrow> bytes \<Rightarrow> bytes" where
  "contract_limb x s output =
     (let output = output[s + 0 := output ! (s + 0) OR ucast (x AND 0xff)];
          output = output[s + 1 := ucast (signed_drop_bit 8 x AND 0xff)];
          output = output[s + 2 := ucast (signed_drop_bit 16 x AND 0xff)]
      in output[s + 3 := ucast (signed_drop_bit 24 x AND 0xff)])"

definition contract_bytes :: "s32 list \<Rightarrow> bytes \<Rightarrow> bytes" where
  "contract_bytes input output =
     (let output = output[0 := 0];
          output = output[16 := 0];
          output = contract_limb (input ! 0) 0 output;
          output = contract_limb (push_bit 2 (input ! 1)) 3 output;
          output = contract_limb (push_bit 3 (input ! 2)) 6 output;
          output = contract_limb (push_bit 5 (input ! 3)) 9 output;
          output = contract_limb (push_bit 6 (input ! 4)) 12 output;
          output = contract_limb (input ! 5) 16 output;
          output = contract_limb (push_bit 1 (input ! 6)) 19 output;
          output = contract_limb (push_bit 3 (input ! 7)) 22 output;
          output = contract_limb (push_bit 4 (input ! 8)) 25 output
      in contract_limb (push_bit 6 (input ! 9)) 28 output)"

definition fcontract :: "bytes \<Rightarrow> limb list \<Rightarrow> bytes" where
  "fcontract output input_limbs =
     (let input = map (\<lambda>i. to_s32 (input_limbs ! i)) [0..<10];
          input = fold (\<lambda>j input. borrow_last (fold borrow_step [0..<9] input)) [0..<2] input;
          input = borrow_step 0 input;
          input = fold (\<lambda>j input. carry_last (fold carry_step [0..<9] input)) [0..<2] input;
          input = contract_subtract (contract_mask input) input
      in contract_bytes input output)"

section \<open>The ladder\<close>

text \<open>The outputs \<open>x2\<close>, \<open>z2\<close>, \<open>x3\<close>, \<open>z3\<close>; the code destroys the arrays of the four inputs.\<close>

definition fmonty ::
    "limb list \<Rightarrow> limb list \<Rightarrow> limb list \<Rightarrow> limb list \<Rightarrow> limb list
      \<Rightarrow> limb list \<times> limb list \<times> limb list \<times> limb list" where
  "fmonty x z xprime zprime qmqp =
     (let origx = take 10 x;
          x = fsum x z;
          z = fdifference z origx;
          origxprime = take 10 xprime;
          xprime = fsum xprime zprime;
          zprime = fdifference zprime origxprime;
          xxprime = fproduct xprime z;
          zzprime = fproduct x zprime;
          xxprime = freduce_coefficients (freduce_degree xxprime);
          zzprime = freduce_coefficients (freduce_degree zzprime);
          origxprime = take 10 xxprime;
          xxprime = fsum xxprime zzprime;
          zzprime = fdifference zzprime origxprime;
          xxxprime = fsquare xxprime;
          zzzprime = fsquare zzprime;
          zzprime = fproduct zzzprime qmqp;
          zzprime = freduce_coefficients (freduce_degree zzprime);
          x3 = take 10 xxxprime;
          z3 = take 10 zzprime;
          xx = fsquare x;
          zz = fsquare z;
          x2 = fproduct xx zz;
          x2 = freduce_coefficients (freduce_degree x2);
          zz = fdifference zz xx;
          zzz = fscalar_product (replicate 19 0) zz 121665;
          zzz = freduce_coefficients zzz;
          zzz = fsum zzz xx;
          z2 = fproduct zz zzz;
          z2 = freduce_coefficients (freduce_degree z2)
      in (x2, z2, x3, z3))"

definition swap_conditional :: "limb list \<Rightarrow> limb list \<Rightarrow> limb \<Rightarrow> limb list \<times> limb list" where
  "swap_conditional a b iswap =
     (let swap = to_s32 (- iswap)
      in fold (\<lambda>i (a, b).
           let x = swap AND (to_s32 (a ! i) XOR to_s32 (b ! i));
               a = a[i := to_limb (to_s32 (a ! i) XOR x)];
               b = b[i := to_limb (to_s32 (b ! i) XOR x)]
           in (a, b)) [0..<10] (a, b))"

text \<open>The arrays \<open>nqx\<close>, \<open>nqz\<close>, \<open>nqpqx\<close>, \<open>nqpqz\<close> of the ladder.\<close>

type_synonym ladder = "limb list \<times> limb list \<times> limb list \<times> limb list"

definition cmult_step :: "limb list \<Rightarrow> limb \<Rightarrow> ladder \<Rightarrow> ladder" where
  "cmult_step q b = (\<lambda>(nqx, nqz, nqpqx, nqpqz).
     let (nqx, nqpqx) = swap_conditional nqx nqpqx b;
         (nqz, nqpqz) = swap_conditional nqz nqpqz b;
         (nqx2, nqz2, nqpqx2, nqpqz2) = fmonty nqx nqz nqpqx nqpqz q;
         (nqx2, nqpqx2) = swap_conditional nqx2 nqpqx2 b;
         (nqz2, nqpqz2) = swap_conditional nqz2 nqpqz2 b
     in (nqx2, nqz2, nqpqx2, nqpqz2))"

fun cmult_bits :: "limb list \<Rightarrow> nat \<Rightarrow> u8 \<Rightarrow> ladder \<Rightarrow> ladder" where
  "cmult_bits q 0 byte arrays = arrays"
| "cmult_bits q (Suc j) byte arrays =
     (let bit = ucast (drop_bit 7 byte);
          arrays = cmult_step q bit arrays
      in cmult_bits q j (push_bit 1 byte) arrays)"

definition cmult :: "bytes \<Rightarrow> limb list \<Rightarrow> limb list \<times> limb list" where
  "cmult n q =
     (let one = 1 # replicate 18 0;
          zero = replicate 19 0;
          (nqx, nqz, nqpqx, nqpqz) =
            fold (\<lambda>i. cmult_bits q 8 (n ! (31 - i))) [0..<32] (one, zero, take 10 q @ replicate 9 0, one)
      in (take 10 nqx, take 10 nqz))"

text \<open>\<open>k\<close> rounds of a loop that squares \<open>b\<close> into \<open>a\<close> and \<open>a\<close> into \<open>b\<close>; the result is \<open>b\<close>.\<close>

fun square_loop :: "nat \<Rightarrow> limb list \<Rightarrow> limb list" where
  "square_loop 0 b = b"
| "square_loop (Suc k) b = (let a = fsquare b; b = fsquare a in square_loop k b)"

definition crecip :: "limb list \<Rightarrow> limb list" where
  "crecip z =
     (let z2 = fsquare z;
          t1 = fsquare z2;
          t0 = fsquare t1;
          z9 = fmul t0 z;
          z11 = fmul z9 z2;
          t0 = fsquare z11;
          z2_5_0 = fmul t0 z9;
          t0 = fsquare z2_5_0;
          t1 = fsquare t0;
          t0 = fsquare t1;
          t1 = fsquare t0;
          t0 = fsquare t1;
          z2_10_0 = fmul t0 z2_5_0;
          t0 = fsquare z2_10_0;
          t1 = fsquare t0;
          t1 = square_loop 4 t1;
          z2_20_0 = fmul t1 z2_10_0;
          t0 = fsquare z2_20_0;
          t1 = fsquare t0;
          t1 = square_loop 9 t1;
          t0 = fmul t1 z2_20_0;
          t1 = fsquare t0;
          t0 = fsquare t1;
          t0 = square_loop 4 t0;
          z2_50_0 = fmul t0 z2_10_0;
          t0 = fsquare z2_50_0;
          t1 = fsquare t0;
          t1 = square_loop 24 t1;
          z2_100_0 = fmul t1 z2_50_0;
          t1 = fsquare z2_100_0;
          t0 = fsquare t1;
          t0 = square_loop 49 t0;
          t1 = fmul t0 z2_100_0;
          t0 = fsquare t1;
          t1 = fsquare t0;
          t1 = square_loop 24 t1;
          t0 = fmul t1 z2_50_0;
          t1 = fsquare t0;
          t0 = fsquare t1;
          t1 = fsquare t0;
          t0 = fsquare t1;
          t1 = fsquare t0
      in fmul t1 z11)"

text \<open>The scalar with three bits cleared, the top bit cleared and the one below it set.\<close>

definition clamp_scalar :: "bytes \<Rightarrow> bytes" where
  "clamp_scalar secret =
     (let e = secret;
          e = e[0 := e ! 0 AND 248];
          e = e[31 := e ! 31 AND 127]
      in e[31 := e ! 31 OR 64])"

definition curve25519_donna :: "bytes \<Rightarrow> bytes \<Rightarrow> bytes \<Rightarrow> bytes" where
  "curve25519_donna mypublic secret basepoint =
     (let e = clamp_scalar (take 32 secret);
          bp = fexpand basepoint;
          (x, z) = cmult e bp;
          zmone = crecip z;
          z = fmul x zmone
      in fcontract mypublic z)"

end
