(* ===== verification/DonnaField.thy ===== *)
theory DonnaField
  imports Donna
begin

text \<open>
  What ten limbs stand for, and when the additions, differences and products of \<open>curve25519-donna.c\<close>
  on 64-bit limbs are those of the integers.
\<close>

section \<open>The value of ten limbs\<close>

definition off :: "nat \<Rightarrow> nat" where "off i = (51 * i + 1) div 2"

definition ival :: "nat \<Rightarrow> (nat \<Rightarrow> int) \<Rightarrow> int" where
  "ival n x = (\<Sum>i<n. x i * 2 ^ off i)"

lemma sum_9: "(\<Sum>i<9::nat. f i) = f 0 + f 1 + f 2 + f 3 + f 4 + f 5 + f 6 + f 7 + (f 8 :: int)"
  by (simp add: eval_nat_numeral)

lemma sum_10: "(\<Sum>i<10::nat. f i) = f 0 + f 1 + f 2 + f 3 + f 4 + f 5 + f 6 + f 7 + f 8 + (f 9 :: int)"
  by (simp add: eval_nat_numeral)

lemma sum_19: "(\<Sum>i<19::nat. f i) = f 0 + f 1 + f 2 + f 3 + f 4 + f 5 + f 6 + f 7 + f 8 + f 9 + f 10 + f 11 + f 12
    + f 13 + f 14 + f 15 + f 16 + f 17 + (f 18 :: int)"
  by (simp add: eval_nat_numeral)

lemma length_product_limbs [simp]: "length (product_limbs p) = 19"
  by (simp add: product_limbs_def)

lemma product_limbs_cong:
  "(\<And>i j. i < 10 \<Longrightarrow> j < 10 \<Longrightarrow> P i j = Q i j) \<Longrightarrow> product_limbs P = product_limbs Q"
  by (simp add: product_limbs_def)

lemma product_limbs_hom: "product_limbs (\<lambda>i j. of_int (P i j)) = map of_int (product_limbs P)"
  by (simp add: product_limbs_def)

lemma square_limbs_product: "(\<And>i j. p i j = p j i) \<Longrightarrow> square_limbs p = product_limbs p"
  unfolding square_limbs_def product_limbs_def by (simp add: algebra_simps)

lemma ival_product: "ival 19 (\<lambda>k. product_limbs (\<lambda>i j. x i * y j) ! k) = ival 10 x * ival 10 y"
  unfolding ival_def sum_10 sum_19
  by (simp add: product_limbs_def off_def algebra_simps)

lemma product_limbs_mono:
  "(\<And>i j. i < 10 \<Longrightarrow> j < 10 \<Longrightarrow> P i j \<le> (Q i j :: int)) \<Longrightarrow> list_all2 (\<le>) (product_limbs P) (product_limbs Q)"
  by (simp add: product_limbs_def add_mono)

lemma product_limbs_bound:
  assumes "\<And>i j. i < 10 \<Longrightarrow> j < 10 \<Longrightarrow> \<bar>P i j\<bar> \<le> (B :: int)" "k < 19"
  shows "\<bar>product_limbs P ! k\<bar> \<le> 14 * B"
proof -
  have "0 \<le> B" using assms(1) [of 0 0] by simp
  then have top: "list_all (\<lambda>x. x \<le> 14 * B) (product_limbs (\<lambda>_ _. B))"
    by (simp add: product_limbs_def)
  have "list_all2 (\<le>) (product_limbs P) (product_limbs (\<lambda>_ _. B))"
    using assms(1) by (intro product_limbs_mono) (simp add: abs_le_iff)
  moreover have "list_all2 (\<le>) (product_limbs (\<lambda>i j. - P i j)) (product_limbs (\<lambda>_ _. B))"
    using assms(1) by (intro product_limbs_mono) (simp add: abs_le_iff)
  moreover have "product_limbs (\<lambda>i j. - P i j) = map uminus (product_limbs P)"
    by (simp add: product_limbs_def)
  ultimately show ?thesis
    using top assms(2) by (auto simp: list_all2_conv_all_nth list_all_length abs_le_iff intro: order_trans)
qed

section \<open>Signed words\<close>

lemma sint_of_int64: "\<bar>k\<bar> < 2 ^ 63 \<Longrightarrow> sint (of_int k :: limb) = k"
  by (simp add: sint_sbintrunc' signed_take_bit_int_eq_self_iff abs_less_iff)

lemma sint_of_int32: "\<bar>k\<bar> < 2 ^ 31 \<Longrightarrow> sint (of_int k :: s32) = k"
  by (simp add: sint_sbintrunc' signed_take_bit_int_eq_self_iff abs_less_iff)

lemma word_eq_of_int: "sint w = k \<Longrightarrow> w = of_int k"
  by auto

lemma to_s32_eq: "to_s32 x = of_int (sint x)"
  unfolding to_s32_def by (rule bit_word_eqI) (simp add: bit_simps bit_sint_iff word_size)

lemma sint_to_s32: "\<bar>sint x\<bar> < 2 ^ 31 \<Longrightarrow> sint (to_s32 x) = sint x"
  unfolding to_s32_eq by (rule sint_of_int32)

lemma to_limb_eq: "to_limb y = of_int (sint y)"
  by (simp add: to_limb_def)

lemma to_limb_to_s32: "\<bar>sint x\<bar> < 2 ^ 31 \<Longrightarrow> to_limb (to_s32 x) = x"
  by (simp add: to_limb_eq sint_to_s32)

lemma sint_add64: "\<bar>sint a + sint b\<bar> < 2 ^ 63 \<Longrightarrow> sint (a + b :: limb) = sint a + sint b"
  using sint_of_int64 [of "sint a + sint b"] by simp

lemma sint_diff64: "\<bar>sint a - sint b\<bar> < 2 ^ 63 \<Longrightarrow> sint (a - b :: limb) = sint a - sint b"
  using sint_of_int64 [of "sint a - sint b"] by simp

lemma sint_mult64: "\<bar>sint a * sint b\<bar> < 2 ^ 63 \<Longrightarrow> sint (a * b :: limb) = sint a * sint b"
  using sint_of_int64 [of "sint a * sint b"] by simp

lemma sint_shift64: "\<bar>sint a * 2 ^ n\<bar> < 2 ^ 63 \<Longrightarrow> sint (push_bit n a :: limb) = sint a * 2 ^ n"
  using sint_of_int64 [of "sint a * 2 ^ n"] by (simp add: push_bit_eq_mult)

section \<open>Loops over an array\<close>

lemma nth_update: "xs[i := x] ! j = (if i = j \<and> j < length xs then x else xs ! j)"
  by (cases "i < length xs") (auto simp: nth_list_update not_less list_update_beyond)

lemma fold_pointwise:
  assumes "distinct is"
    and "\<And>i ys. i \<in> set is \<Longrightarrow> length ys = length xs \<Longrightarrow> (\<And>j. j \<notin> set is \<Longrightarrow> ys ! j = xs ! j) \<Longrightarrow>
      step i ys = ys[i := g i (ys ! i)]"
  shows "length (fold step is xs) = length xs \<and>
    (\<forall>j < length xs. fold step is xs ! j = (if j \<in> set is then g j (xs ! j) else xs ! j))"
  using assms
proof (induction "is" arbitrary: xs)
  case (Cons i "is")
  have step: "step i xs = xs[i := g i (xs ! i)]" using Cons.prems by simp
  have "length (fold step is (step i xs)) = length (step i xs) \<and>
    (\<forall>j < length (step i xs). fold step is (step i xs) ! j =
      (if j \<in> set is then g j (step i xs ! j) else step i xs ! j))"
    using Cons.prems by (intro Cons.IH) (auto simp: step nth_update)
  then show ?case using Cons.prems(1) by (auto simp: step nth_update)
qed simp


section \<open>Sums and differences\<close>

definition limbs_ok :: "int \<Rightarrow> limb list \<Rightarrow> bool" where
  "limbs_ok B xs \<longleftrightarrow> 10 \<le> length xs \<and> (\<forall>i<10. \<bar>sint (xs ! i)\<bar> < B)"

definition limbs_val :: "limb list \<Rightarrow> int" where
  "limbs_val xs = ival 10 (\<lambda>i. sint (xs ! i))"

lemma limbs_ok_mono: "limbs_ok A xs \<Longrightarrow> A \<le> B \<Longrightarrow> limbs_ok B xs"
  by (auto simp: limbs_ok_def intro: less_le_trans)

lemma limbs_ok_cast: "limbs_ok B xs \<Longrightarrow> B \<le> 2 ^ 31 \<Longrightarrow> i < 10 \<Longrightarrow> to_limb (to_s32 (xs ! i)) = xs ! i"
  unfolding limbs_ok_def by (rule to_limb_to_s32) (blast intro: less_le_trans)

lemma limbs_ok_take [simp]: "limbs_ok B (take 10 xs) = limbs_ok B xs"
  by (auto simp: limbs_ok_def)

lemma limbs_val_take [simp]: "limbs_val (take 10 xs) = limbs_val xs"
  by (simp add: limbs_val_def ival_def)

lemma upt_0_10: "[0..<10] = [0, 1, 2, 3, 4, 5, 6, 7, 8, 9 :: nat]"
  by (simp add: upt_rec)

lemma fsum_loop: "fsum xs ys = fold (\<lambda>i xs. xs[i := xs ! i + ys ! i]) [0..<10] xs"
  by (simp add: fsum_def upt_0_10 Let_def)

lemma fsum_nth:
  assumes "10 \<le> length xs"
  shows "length (fsum xs ys) = length xs \<and> (\<forall>i<10. fsum xs ys ! i = xs ! i + ys ! i)"
  using fold_pointwise [of "[0..<10]" xs "\<lambda>i xs. xs[i := xs ! i + ys ! i]" "\<lambda>i x. x + ys ! i"] assms
  by (auto simp: fsum_loop)

lemma fdifference_nth:
  assumes "10 \<le> length xs"
  shows "length (fdifference xs ys) = length xs \<and> (\<forall>i<10. fdifference xs ys ! i = ys ! i - xs ! i)"
  using fold_pointwise [of "[0..<10]" xs "\<lambda>i xs. xs[i := ys ! i - xs ! i]" "\<lambda>i x. ys ! i - x"] assms
  by (auto simp: fdifference_def)

lemma fscalar_product_nth:
  assumes "10 \<le> length xs"
  shows "length (fscalar_product xs ys c) = length xs \<and> (\<forall>i<10. fscalar_product xs ys c ! i = ys ! i * c)"
  using fold_pointwise [of "[0..<10]" xs "\<lambda>i xs. xs[i := ys ! i * c]" "\<lambda>i x. ys ! i * c"] assms
  by (auto simp: fscalar_product_def)

lemma fsum_val:
  assumes "limbs_ok A xs" "limbs_ok B ys" "A + B \<le> 2 ^ 63"
  shows "limbs_ok (A + B) (fsum xs ys) \<and> limbs_val (fsum xs ys) = limbs_val xs + limbs_val ys"
proof -
  have "sint (fsum xs ys ! i) = sint (xs ! i) + sint (ys ! i) \<and> \<bar>sint (xs ! i) + sint (ys ! i)\<bar> < A + B" if "i < 10" for i
    using assms that fsum_nth [of xs ys] sint_add64 [of "xs ! i" "ys ! i"] by (fastforce simp: limbs_ok_def)
  then show ?thesis
    using assms(1) fsum_nth [of xs ys] 
    by (simp add: limbs_ok_def limbs_val_def ival_def sum.distrib [symmetric] distrib_right)
qed

lemma fdifference_val:
  assumes "limbs_ok A xs" "limbs_ok B ys" "A + B \<le> 2 ^ 63"
  shows "limbs_ok (A + B) (fdifference xs ys) \<and> limbs_val (fdifference xs ys) = limbs_val ys - limbs_val xs"
proof -
  have "sint (fdifference xs ys ! i) = sint (ys ! i) - sint (xs ! i) \<and> \<bar>sint (ys ! i) - sint (xs ! i)\<bar> < A + B" if "i < 10" for i
    using assms that fdifference_nth [of xs ys] sint_diff64 [of "ys ! i" "xs ! i"] by (fastforce simp: limbs_ok_def)
  then show ?thesis
    using assms(1) fdifference_nth [of xs ys]
    by (simp add: limbs_ok_def limbs_val_def ival_def sum_subtractf [symmetric] left_diff_distrib)
qed

lemma fscalar_val:
  assumes "10 \<le> length xs" "limbs_ok A ys" "A * sint c \<le> 2 ^ 63" "0 < sint c"
  shows "limbs_ok (A * sint c) (fscalar_product xs ys c) \<and>
    limbs_val (fscalar_product xs ys c) = limbs_val ys * sint c"
proof -
  have "sint (fscalar_product xs ys c ! i) = sint (ys ! i) * sint c \<and> \<bar>sint (ys ! i) * sint c\<bar> < A * sint c" if "i < 10" for i
  proof -
    have "\<bar>sint (ys ! i) * sint c\<bar> < A * sint c"
      using assms(2,4) that by (simp add: abs_mult limbs_ok_def)
    then show ?thesis using assms that fscalar_product_nth [of xs ys c] sint_mult64 [of "ys ! i" c] by simp
  qed
  then show ?thesis
    using assms(1) fscalar_product_nth [of xs ys c]
    by (simp add: limbs_ok_def limbs_val_def ival_def sum_distrib_left mult_ac)
qed

section \<open>Products\<close>

lemma fproduct_sint:
  assumes "limbs_ok (2 ^ 27) xs" "limbs_ok (2 ^ 27) ys" "k < 19"
  defines "P \<equiv> \<lambda>i j. sint (xs ! i) * sint (ys ! j)"
  shows "sint (fproduct xs ys ! k) = product_limbs P ! k \<and> \<bar>product_limbs P ! k\<bar> \<le> 14 * 2 ^ 54"
proof -
  have "\<bar>P i j\<bar> \<le> 2 ^ 27 * 2 ^ 27" if "i < 10" "j < 10" for i j
    unfolding P_def abs_mult using assms(1,2) that by (intro mult_mono) (auto simp: limbs_ok_def less_imp_le)
  then have bound: "\<bar>product_limbs P ! k\<bar> \<le> 14 * 2 ^ 54"
    using product_limbs_bound [of P "2 ^ 27 * 2 ^ 27"] assms(3) by simp
  have cast: "to_limb (to_s32 (xs ! i)) = xs ! i" "to_limb (to_s32 (ys ! i)) = ys ! i" if "i < 10" for i
    using assms(1,2) that by (auto intro!: limbs_ok_cast [where B = "2 ^ 27"])
  have "product_limbs (\<lambda>i j. to_limb (to_s32 (xs ! i)) * to_limb (to_s32 (ys ! j))) = product_limbs (\<lambda>i j. of_int (P i j))"
    by (rule product_limbs_cong) (simp add: cast P_def)
  then have "fproduct xs ys ! k = of_int (product_limbs P ! k)"
    using assms(3) by (simp add: fproduct_def product_limbs_hom)
  then show ?thesis using bound by (simp add: sint_of_int64)
qed


lemma length_fproduct [simp]: "length (fproduct xs ys) = 19"
  by (simp add: fproduct_def)

lemma fsquare_inner_product: "fsquare_inner xs = fproduct xs xs"
  by (simp add: fsquare_inner_def fproduct_def square_limbs_product mult.commute)

section \<open>Reduction of the degree\<close>

lemma freduce_degree_nth:
  assumes "length out = 19"
  shows "length (freduce_degree out) = 19 \<and>
    (\<forall>i<9. freduce_degree out ! i = out ! i + 19 * out ! (i + 10)) \<and> freduce_degree out ! 9 = out ! 9"
proof -
  let ?is = "[8, 7, 6, 5, 4, 3, 2, 1, 0 :: nat]"
  have step: "(let ys = ys[i := ys ! i + push_bit 4 (ys ! (i + 10))];
      ys = ys[i := ys ! i + push_bit 1 (ys ! (i + 10))]
      in ys[i := ys ! i + ys ! (i + 10)]) = ys[i := ys ! i + 19 * out ! (i + 10)]"
    if "i \<in> set ?is" "length ys = length out" "\<And>j. j \<notin> set ?is \<Longrightarrow> ys ! j = out ! j" for i and ys :: "limb list"
  proof -
    have "i < 19" "ys ! (i + 10) = out ! (i + 10)" using that by auto
    then show ?thesis using that(2) assms by (simp add: Let_def push_bit_eq_mult add.commute)
  qed
  have "length (freduce_degree out) = length out \<and>
    (\<forall>j < length out. freduce_degree out ! j = (if j \<in> set ?is then out ! j + 19 * out ! (j + 10) else out ! j))"
    unfolding freduce_degree_def by (rule fold_pointwise) (simp, rule step, auto)
  moreover have "i \<in> set ?is" if "i < 9" for i using that by auto
  ultimately show ?thesis using assms by simp
qed

lemma freduce_degree_val:
  assumes "length out = 19" "\<And>k. k < 19 \<Longrightarrow> sint (out ! k) = P k \<and> \<bar>P k\<bar> \<le> 14 * 2 ^ 54"
  shows "length (freduce_degree out) = 19 \<and> (\<forall>k<10. \<bar>sint (freduce_degree out ! k)\<bar> \<le> 280 * 2 ^ 54) \<and>
    limbs_val (freduce_degree out) mod (2 ^ 255 - 19) = ival 19 P mod (2 ^ 255 - 19)"
proof -
  have low: "sint (freduce_degree out ! i) = P i + 19 * P (i + 10) \<and> \<bar>sint (freduce_degree out ! i)\<bar> \<le> 280 * 2 ^ 54" if "i < 9" for i
  proof -
    have b: "\<bar>P i\<bar> \<le> 14 * 2 ^ 54" "\<bar>P (i + 10)\<bar> \<le> 14 * 2 ^ 54" using assms(2) that by auto
    have "out ! i = of_int (P i)" "out ! (i + 10) = of_int (P (i + 10))"
      using assms(2) [of i] assms(2) [of "i + 10"] that by (auto intro!: word_eq_of_int)
    then have "of_int (P i + 19 * P (i + 10)) = out ! i + 19 * out ! (i + 10)" by simp
    then show ?thesis
      using sint_of_int64 [of "P i + 19 * P (i + 10)"] b freduce_degree_nth [OF assms(1)] that by simp
  qed
  have high: "sint (freduce_degree out ! 9) = P 9" "\<bar>P 9\<bar> \<le> 14 * 2 ^ 54"
    using assms(2) [of 9] freduce_degree_nth [OF assms(1)] by auto
  have "ival 19 P = limbs_val (freduce_degree out) + (2 ^ 255 - 19) * (\<Sum>i<9. P (i + 10) * 2 ^ off i)"
    using low high by (simp add: limbs_val_def ival_def sum_9 sum_10 sum_19 off_def algebra_simps)
  moreover have "\<bar>sint (freduce_degree out ! k)\<bar> \<le> 280 * 2 ^ 54" if "k < 10" for k
    using low [of k] high that by (cases "k = 9") auto
  ultimately show ?thesis using freduce_degree_nth [OF assms(1)] by simp
qed

end
