(* ===== verification/DonnaReduce.thy ===== *)
theory DonnaReduce
  imports DonnaField
begin

text \<open>
  The reductions of \<open>curve25519-donna.c\<close>: \<open>freduce_degree\<close> and \<open>freduce_coefficients\<close> keep the value
  modulo the prime and bring the limbs back to their widths.
\<close>

section \<open>Division by shifting\<close>

lemma signed_drop_bit_31: "signed_drop_bit 31 w = (if bit w 31 then - 1 else 0)" for w :: s32
  by (rule bit_word_eqI) (auto simp: bit_signed_drop_bit_iff not_le)

lemma sign_of_high_word:
  "signed_drop_bit 31 (ucast (drop_bit 32 v) :: s32) = (if sint (v :: limb) < 0 then - 1 else 0)"
proof -
  have "bit (ucast (drop_bit 32 v) :: s32) 31 \<longleftrightarrow> sint v < 0"
    using bit_last_iff [of v] by (simp add: bit_simps)
  then show ?thesis by (simp only: signed_drop_bit_31)
qed

lemma sint_div_by_2_26:
  "sint (div_by_2_26 v) = (sint v + (if sint v < 0 then 2 ^ 26 - 1 else 0)) div 2 ^ 26"
proof -
  have "sint v < 0 \<Longrightarrow> sint (v + 0x3ffffff) = sint v + 0x3ffffff"
    using sint_greater_eq [of v] sint_add64 [of v "0x3ffffff"] by simp
  then show ?thesis
    unfolding div_by_2_26_def Let_def sign_of_high_word
    by (simp add: to_limb_eq sint_signed_drop_bit_eq drop_bit_eq_div)
qed

lemma sint_div_by_2_25:
  "sint (div_by_2_25 v) = (sint v + (if sint v < 0 then 2 ^ 25 - 1 else 0)) div 2 ^ 25"
proof -
  have "sint v < 0 \<Longrightarrow> sint (v + 0x1ffffff) = sint v + 0x1ffffff"
    using sint_greater_eq [of v] sint_add64 [of v "0x1ffffff"] by simp
  then show ?thesis
    unfolding div_by_2_25_def Let_def sign_of_high_word
    by (simp add: to_limb_eq sint_signed_drop_bit_eq drop_bit_eq_div)
qed

text \<open>Both divisions, by the index of the limb.\<close>

definition limb_div :: "nat \<Rightarrow> limb \<Rightarrow> limb" where
  "limb_div i v = (if i AND 1 = 1 then div_by_2_25 v else div_by_2_26 v)"

lemma round_to_zero:
  fixes a w :: int
  assumes "0 < w"
  defines "q \<equiv> (a + (if a < 0 then w - 1 else 0)) div w"
  shows "\<bar>a - q * w\<bar> < w" "\<bar>q * w\<bar> \<le> \<bar>a\<bar>" "\<bar>q\<bar> \<le> \<bar>a\<bar>"
proof -
  define r where "r = (a + (if a < 0 then w - 1 else 0)) mod w"
  have "q * w = a + (if a < 0 then w - 1 else 0) - r"
    by (simp add: q_def r_def minus_mod_eq_div_mult)
  moreover have "0 \<le> r" "r < w" "0 \<le> a \<Longrightarrow> r \<le> a" "a < 0 \<Longrightarrow> r = a + (w - 1) \<or> a + (w - 1) < 0"
    using assms(1) by (auto simp: r_def zmod_le_nonneg_dividend)
  ultimately show *: "\<bar>a - q * w\<bar> < w" "\<bar>q * w\<bar> \<le> \<bar>a\<bar>"
    using assms(1) by (auto split: if_splits)
  have "\<bar>q\<bar> * 1 \<le> \<bar>q\<bar> * w" using assms(1) by (intro mult_left_mono) auto
  then show "\<bar>q\<bar> \<le> \<bar>a\<bar>" using * assms(1) by (simp add: abs_mult)
qed

lemma limb_div_bounds:
  fixes i :: nat
  defines "w \<equiv> 2 ^ limb_width i"
  shows "\<bar>sint v - sint (limb_div i v) * w\<bar> < w" "\<bar>sint (limb_div i v) * w\<bar> \<le> \<bar>sint v\<bar>"
  using round_to_zero(1,2) [of w "sint v"]
  by (auto simp: w_def limb_div_def limb_width_def sint_div_by_2_25 sint_div_by_2_26)


section \<open>Reduction of the coefficients\<close>

text \<open>One carry of the loop, which does two of them in each round.\<close>

definition limb_carry :: "nat \<Rightarrow> limb list \<Rightarrow> limb list" where
  "limb_carry i out =
     (let over = limb_div i (out ! i);
          out = out[i := out ! i - push_bit (limb_width i) over]
      in out[i + 1 := out ! (i + 1) + over])"

lemma limb_carry_pair:
  "i AND 1 = 0 \<Longrightarrow>
    (let over = div_by_2_26 (output ! i);
         output = output[i := output ! i - push_bit 26 over];
         output = output[i + 1 := output ! (i + 1) + over];
         over = div_by_2_25 (output ! (i + 1));
         output = output[i + 1 := output ! (i + 1) - push_bit 25 over]
     in output[i + 2 := output ! (i + 2) + over]) = limb_carry (i + 1) (limb_carry i output)"
  by (simp add: limb_carry_def limb_div_def limb_width_def Let_def and_one_eq mod_Suc)

lemma limb_carry_loop:
  "fold (\<lambda>i output.
      let over = div_by_2_26 (output ! i);
          output = output[i := output ! i - push_bit 26 over];
          output = output[i + 1 := output ! (i + 1) + over];
          over = div_by_2_25 (output ! (i + 1));
          output = output[i + 1 := output ! (i + 1) - push_bit 25 over]
      in output[i + 2 := output ! (i + 2) + over]) [0, 2, 4, 6, 8] out = fold limb_carry [0..<10] out"
proof -
  have *: "fold f [0, 2, 4, 6, 8] out = fold limb_carry [0..<10] out"
    if "\<And>i output. i AND 1 = 0 \<Longrightarrow> f i output = limb_carry (i + 1) (limb_carry i output)" for f
    by (simp add: that upt_0_10)
  show ?thesis by (rule *) (rule limb_carry_pair)
qed

lemma limb_width_bounds: "25 \<le> limb_width i" "limb_width i \<le> 26"
  by (simp_all add: limb_width_def)

lemma off_Suc: "off (Suc i) = off i + limb_width i"
  by (simp add: off_def limb_width_def and_one_eq) presburger

lemma sum_update:
  fixes f :: "nat \<Rightarrow> 'a :: comm_ring_1"
  assumes "i < n"
  shows "(\<Sum>j<n. (if j = i then a else f j) * c j) = (\<Sum>j<n. f j * c j) + (a - f i) * c i"
proof -
  have "(\<Sum>j<n. (if j = i then a else f j) * c j) = (\<Sum>j<n. f j * c j + (if j = i then (a - f i) * c i else 0))"
    by (rule sum.cong) (auto simp: left_diff_distrib)
  then show ?thesis using assms by (simp add: sum.distrib)
qed

lemma limb_carry_step:
  assumes "i < 10" "11 \<le> length out" "\<bar>sint (out ! i)\<bar> \<le> 2 ^ 62 + 2 ^ 61" "\<bar>sint (out ! (i + 1))\<bar> \<le> 2 ^ 62 + 2 ^ 61"
  shows "length (limb_carry i out) = length out \<and> \<bar>sint (limb_carry i out ! i)\<bar> < 2 ^ limb_width i \<and>
    \<bar>sint (limb_carry i out ! (i + 1)) - sint (out ! (i + 1))\<bar> * 2 ^ limb_width i \<le> \<bar>sint (out ! i)\<bar> \<and>
    (\<forall>j. j \<noteq> i \<longrightarrow> j \<noteq> i + 1 \<longrightarrow> limb_carry i out ! j = out ! j) \<and>
    ival 11 (\<lambda>j. sint (limb_carry i out ! j)) = ival 11 (\<lambda>j. sint (out ! j))"
proof -
  let ?q = "sint (limb_div i (out ! i))" and ?w = "2 ^ limb_width i :: int"
  note b = limb_div_bounds [where v = "out ! i" and i = i]
  have "\<bar>?q\<bar> * 2 ^ 25 \<le> \<bar>?q\<bar> * ?w"
    using limb_width_bounds(1) by (intro mult_left_mono power_increasing) auto
  then have q: "\<bar>?q\<bar> * 2 ^ 25 \<le> \<bar>sint (out ! i)\<bar>" using b(2) by (simp add: abs_mult)
  have sh: "sint (push_bit (limb_width i) (limb_div i (out ! i))) = ?q * ?w"
    using b(2) assms(3) by (intro sint_shift64) simp
  have here: "sint (out ! i - push_bit (limb_width i) (limb_div i (out ! i))) = sint (out ! i) - ?q * ?w"
  proof -
    have "?w \<le> 2 ^ 26" using limb_width_bounds(2) by (intro power_increasing) auto
    then show ?thesis using b(1) by (subst sint_diff64) (auto simp: sh)
  qed
  have there: "sint (out ! Suc i + limb_div i (out ! i)) = sint (out ! Suc i) + ?q"
    using q assms(3,4) by (intro sint_add64) simp
  have at: "limb_carry i out ! j = (if j = Suc i then out ! Suc i + limb_div i (out ! i)
      else if j = i then out ! i - push_bit (limb_width i) (limb_div i (out ! i)) else out ! j)" for j
    using assms(1,2) by (simp add: limb_carry_def Let_def nth_update)
  have len: "length (limb_carry i out) = length out" by (simp add: limb_carry_def Let_def)
  have "ival 11 (\<lambda>j. sint (limb_carry i out ! j)) =
      ival 11 (\<lambda>j. sint (out ! j)) + (sint (out ! i) - ?q * ?w - sint (out ! i)) * 2 ^ off i
        + (sint (out ! (i + 1)) + ?q - sint (out ! (i + 1))) * 2 ^ off (i + 1)"
    using assms(1) sum_update [of "i + 1" 11 "sint (out ! (i + 1)) + ?q"
        "\<lambda>j. if j = i then sint (out ! i) - ?q * ?w else sint (out ! j)" "\<lambda>j. 2 ^ off j"]
      sum_update [of i 11 "sint (out ! i) - ?q * ?w" "\<lambda>j. sint (out ! j)" "\<lambda>j. 2 ^ off j"]
    by (simp add: ival_def at if_distrib [of sint] here there cong: if_cong)
  then show ?thesis
    using b len by (auto simp: at here there off_Suc power_add abs_mult algebra_simps)
qed


lemma limb_carries:
  assumes "11 \<le> length out" "\<And>i. i < 10 \<Longrightarrow> \<bar>sint (out ! i)\<bar> \<le> 280 * 2 ^ 54" "sint (out ! 10) = 0" "n \<le> 10"
  defines "out' \<equiv> fold limb_carry [0..<n] out"
  shows "length out' = length out \<and> (\<forall>j<n. \<bar>sint (out' ! j)\<bar> < 2 ^ limb_width j) \<and>
    \<bar>sint (out' ! n) - sint (out ! n)\<bar> \<le> 2 ^ 38 \<and> (\<forall>j>n. out' ! j = out ! j) \<and>
    ival 11 (\<lambda>j. sint (out' ! j)) = ival 11 (\<lambda>j. sint (out ! j))"
  using assms(4) unfolding out'_def
proof (induction n)
  case (Suc n)
  let ?o = "fold limb_carry [0..<n] out"
  have IH: "length ?o = length out" "\<forall>j<n. \<bar>sint (?o ! j)\<bar> < 2 ^ limb_width j"
    "\<bar>sint (?o ! n) - sint (out ! n)\<bar> \<le> 2 ^ 38" "\<forall>j>n. ?o ! j = out ! j"
    "ival 11 (\<lambda>j. sint (?o ! j)) = ival 11 (\<lambda>j. sint (out ! j))"
    using Suc by auto
  have here: "\<bar>sint (?o ! n)\<bar> \<le> 280 * 2 ^ 54 + 2 ^ 38" using IH(3) assms(2) [of n] Suc.prems by auto
  have next_limb: "?o ! (n + 1) = out ! (n + 1)" "\<bar>sint (out ! (n + 1))\<bar> \<le> 280 * 2 ^ 54"
    using IH(4) assms(2) [of "n + 1"] assms(3) Suc.prems by (auto simp: le_less)
  have step: "length (limb_carry n ?o) = length ?o \<and> \<bar>sint (limb_carry n ?o ! n)\<bar> < 2 ^ limb_width n \<and>
    \<bar>sint (limb_carry n ?o ! (n + 1)) - sint (?o ! (n + 1))\<bar> * 2 ^ limb_width n \<le> \<bar>sint (?o ! n)\<bar> \<and>
    (\<forall>j. j \<noteq> n \<longrightarrow> j \<noteq> n + 1 \<longrightarrow> limb_carry n ?o ! j = ?o ! j) \<and>
    ival 11 (\<lambda>j. sint (limb_carry n ?o ! j)) = ival 11 (\<lambda>j. sint (?o ! j))"
    using Suc.prems assms(1) IH(1) here next_limb by (intro limb_carry_step) auto
  have "\<bar>sint (limb_carry n ?o ! (n + 1)) - sint (?o ! (n + 1))\<bar> * 2 ^ 25
      \<le> \<bar>sint (limb_carry n ?o ! (n + 1)) - sint (?o ! (n + 1))\<bar> * 2 ^ limb_width n"
    using limb_width_bounds(1) by (intro mult_left_mono power_increasing) auto
  then have "\<bar>sint (limb_carry n ?o ! (n + 1)) - sint (out ! (n + 1))\<bar> \<le> 2 ^ 38"
    using step here next_limb(1) by simp
  then show ?case using step IH(1,2,4,5) by (auto simp: less_Suc_eq)
qed simp

lemma ival_11: "ival 11 x = ival 10 x + x 10 * 2 ^ 255"
  using sum.lessThan_Suc [of "\<lambda>i. x i * 2 ^ off i" 10] by (simp add: ival_def off_def)

lemma ival_update: "i < n \<Longrightarrow> ival n (\<lambda>j. if j = i then a else x j) = ival n x + (a - x i) * 2 ^ off i"
  by (simp add: ival_def sum_update)


lemma freduce_coefficients_val:
  assumes "11 \<le> length out" "\<And>i. i < 10 \<Longrightarrow> \<bar>sint (out ! i)\<bar> \<le> 280 * 2 ^ 54"
  shows "length (freduce_coefficients out) = length out \<and> limbs_ok (2 ^ 26) (freduce_coefficients out) \<and>
    limbs_val (freduce_coefficients out) mod (2 ^ 255 - 19) = limbs_val out mod (2 ^ 255 - 19)"
proof -
  define r where "r = fold limb_carry [0..<10] (out[10 := 0])"
  define s where "s = (r[0 := r ! 0 + 19 * r ! 10])[10 := 0]"
  let ?f = "limb_carry 0 s"
  have start: "ival 11 (\<lambda>j. sint (out[10 := 0] ! j)) = limbs_val out"
    using assms(1) by (simp add: ival_11 limbs_val_def) (simp add: ival_def)
  have r: "length r = length out" "\<And>j. j < 10 \<Longrightarrow> \<bar>sint (r ! j)\<bar> < 2 ^ limb_width j"
    "\<bar>sint (r ! 10)\<bar> \<le> 2 ^ 38" "ival 11 (\<lambda>j. sint (r ! j)) = limbs_val out"
    using limb_carries [of "out[10 := 0]" 10] assms start by (auto simp: r_def)
  have ne: "out \<noteq> []" "r \<noteq> []" using assms(1) r(1) by auto
  have f: "freduce_coefficients out = ?f"
    unfolding freduce_coefficients_def Let_def limb_carry_loop [unfolded Let_def] r_def [symmetric]
    using assms(1) r(1) ne
    by (simp add: s_def limb_carry_def Let_def limb_div_def limb_width_def push_bit_eq_mult nth_update algebra_simps)
  have small: "(2 :: int) ^ limb_width j \<le> 2 ^ 26" for j
    using limb_width_bounds(2) by (intro power_increasing) auto
  have s0: "sint (r ! 0 + 19 * r ! 10) = sint (r ! 0) + 19 * sint (r ! 10)"
    using sint_of_int64 [of "sint (r ! 0) + 19 * sint (r ! 10)"] r(2) [of 0] r(3) by (simp add: limb_width_def)
  have s: "length s = length out" "\<And>j. j < 11 \<Longrightarrow> sint (s ! j) =
      (if j = 10 then 0 else if j = 0 then sint (r ! 0) + 19 * sint (r ! 10) else sint (r ! j))"
    using assms(1) r(1) s0 by (auto simp: s_def nth_update)
  have "ival 11 (\<lambda>j. sint (s ! j)) = ival 11 (\<lambda>j. if j = 10 then 0 else if j = 0 then sint (r ! 0) + 19 * sint (r ! 10) else sint (r ! j))"
    unfolding ival_def by (rule sum.cong) (simp_all add: s(2))
  also have "\<dots> = ival 10 (\<lambda>j. if j = 0 then sint (r ! 0) + 19 * sint (r ! 10) else sint (r ! j))"
    unfolding ival_11 by (simp add: ival_def)
  also have "\<dots> = ival 11 (\<lambda>j. sint (r ! j)) - (2 ^ 255 - 19) * sint (r ! 10)"
    unfolding ival_11 by (simp add: ival_update off_def)
  finally have sval: "ival 11 (\<lambda>j. sint (s ! j)) = limbs_val out - (2 ^ 255 - 19) * sint (r ! 10)"
    by (simp add: r(4))
  have s0b: "\<bar>sint (s ! 0)\<bar> \<le> 2 ^ 43" using s(2) [of 0] r(2) [of 0] r(3) by (simp add: limb_width_def)
  have step: "length ?f = length s \<and> \<bar>sint (?f ! 0)\<bar> < 2 ^ limb_width 0 \<and>
      \<bar>sint (?f ! (0 + 1)) - sint (s ! (0 + 1))\<bar> * 2 ^ limb_width 0 \<le> \<bar>sint (s ! 0)\<bar> \<and>
      (\<forall>j. j \<noteq> 0 \<longrightarrow> j \<noteq> 0 + 1 \<longrightarrow> ?f ! j = s ! j) \<and> ival 11 (\<lambda>j. sint (?f ! j)) = ival 11 (\<lambda>j. sint (s ! j))"
    using assms(1) s s0b r(2) [of 1] by (intro limb_carry_step) (auto simp: limb_width_def)
  have "\<bar>sint (?f ! 1) - sint (s ! 1)\<bar> \<le> 2 ^ 17" using step s0b by (simp add: limb_width_def)
  then have "\<bar>sint (?f ! 1)\<bar> < 2 ^ 26" using s(2) [of 1] r(2) [of 1] by (simp add: limb_width_def)
  moreover have "\<bar>sint (?f ! j)\<bar> < 2 ^ 26" if "j < 10" "j \<noteq> 1" for j
    using step s(2) [of j] r(2) [of j] small [of j] that by (cases "j = 0") (auto simp: limb_width_def)
  ultimately have "limbs_ok (2 ^ 26) ?f" using step s(1) assms(1) by (auto simp: limbs_ok_def)
  moreover have "limbs_val ?f = limbs_val out - (2 ^ 255 - 19) * sint (r ! 10)"
    using step sval s(2) [of 10] spec [OF step [THEN conjunct2, THEN conjunct2, THEN conjunct2, THEN conjunct1], of 10]
    by (simp add: limbs_val_def ival_11)
  ultimately show ?thesis
    using step s(1) mod_mult_self2 [of "limbs_val out" "2 ^ 255 - 19" "- sint (r ! 10)"] by (simp add: f)
qed


section \<open>Multiplication and squaring\<close>

lemma product_val:
  assumes "limbs_ok (2 ^ 27) xs" "limbs_ok (2 ^ 27) ys"
  defines "r \<equiv> freduce_coefficients (freduce_degree (fproduct xs ys))"
  shows "length r = 19 \<and> limbs_ok (2 ^ 26) r \<and>
    limbs_val r mod (2 ^ 255 - 19) = limbs_val xs * limbs_val ys mod (2 ^ 255 - 19)"
proof -
  let ?P = "\<lambda>k. product_limbs (\<lambda>i j. sint (xs ! i) * sint (ys ! j)) ! k"
  have "length (freduce_degree (fproduct xs ys)) = 19 \<and>
    (\<forall>k<10. \<bar>sint (freduce_degree (fproduct xs ys) ! k)\<bar> \<le> 280 * 2 ^ 54) \<and>
    limbs_val (freduce_degree (fproduct xs ys)) mod (2 ^ 255 - 19) = ival 19 ?P mod (2 ^ 255 - 19)"
    by (rule freduce_degree_val) (simp, rule fproduct_sint [OF assms(1,2)])
  then show ?thesis
    using freduce_coefficients_val [of "freduce_degree (fproduct xs ys)"]
    by (simp add: r_def limbs_val_def ival_product)
qed

lemma fmul_val:
  assumes "limbs_ok (2 ^ 27) xs" "limbs_ok (2 ^ 27) ys"
  shows "limbs_ok (2 ^ 26) (fmul xs ys) \<and>
    limbs_val (fmul xs ys) mod (2 ^ 255 - 19) = limbs_val xs * limbs_val ys mod (2 ^ 255 - 19)"
  using product_val [OF assms] by (simp add: fmul_def)

lemma fsquare_fmul: "fsquare xs = fmul xs xs"
  by (simp add: fsquare_def fmul_def fsquare_inner_product)

end
