(* ===== verification/DonnaLadder.thy ===== *)
theory DonnaLadder
  imports DonnaReduce
begin

text \<open>
  The scalar multiplication of Curve25519 as arithmetic modulo the prime, on projective points of
  the Montgomery curve of which only the x-coordinate is kept, and the proof that the ladder
  of \<open>curve25519-donna.c\<close> computes it.
\<close>

section \<open>The function of the curve\<close>

definition prime25519 :: int where "prime25519 = 2 ^ 255 - 19"

definition point_double :: "int \<times> int \<Rightarrow> int \<times> int" where
  "point_double = (\<lambda>(X, Z). ((X\<^sup>2 - Z\<^sup>2)\<^sup>2 mod prime25519,
     4 * X * Z * (X\<^sup>2 + 486662 * X * Z + Z\<^sup>2) mod prime25519))"

text \<open>The sum of two points whose difference has the x-coordinate \<open>u\<close>.\<close>

definition point_add :: "int \<Rightarrow> int \<times> int \<Rightarrow> int \<times> int \<Rightarrow> int \<times> int" where
  "point_add u = (\<lambda>(X, Z) (X', Z').
     (4 * (X * X' - Z * Z')\<^sup>2 mod prime25519, 4 * u * (X * Z' - Z * X')\<^sup>2 mod prime25519))"

text \<open>From \<open>n\<close> and \<open>n + 1\<close> times the point to \<open>2 n + b\<close> and \<open>2 n + b + 1\<close> times the point.\<close>

definition ladder_step :: "int \<Rightarrow> bool \<Rightarrow> (int \<times> int) \<times> (int \<times> int) \<Rightarrow> (int \<times> int) \<times> (int \<times> int)" where
  "ladder_step u b = (\<lambda>(Q, R). if b then (point_add u Q R, point_double R) else (point_double Q, point_add u Q R))"

definition ladder :: "int \<Rightarrow> int \<Rightarrow> (int \<times> int) \<times> (int \<times> int)" where
  "ladder k u = fold (\<lambda>i. ladder_step u (bit k i)) (rev [0..<256]) ((1, 0), (u, 1))"

definition x25519 :: "int \<Rightarrow> int \<Rightarrow> int" where
  "x25519 k u = (let (X, Z) = fst (ladder k u) in X * Z ^ nat (prime25519 - 2) mod prime25519)"

section \<open>Limbs for a number modulo the prime\<close>

definition loose :: "limb list \<Rightarrow> int \<Rightarrow> bool" where
  "loose xs a \<longleftrightarrow> limbs_ok (2 ^ 27) xs \<and> limbs_val xs mod prime25519 = a mod prime25519"

definition reduced :: "limb list \<Rightarrow> int \<Rightarrow> bool" where
  "reduced xs a \<longleftrightarrow> limbs_ok (2 ^ 26) xs \<and> limbs_val xs mod prime25519 = a mod prime25519"

lemma reduced_loose: "reduced xs a \<Longrightarrow> loose xs a"
  by (auto simp: reduced_def loose_def intro: limbs_ok_mono)

lemma reduced_mod [simp]: "reduced xs (a mod prime25519) = reduced xs a"
  by (simp add: reduced_def)

lemma reduced_take [simp]: "reduced (take 10 xs) a = reduced xs a"
  by (simp add: reduced_def)

lemma fsum_loose: "reduced xs a \<Longrightarrow> reduced ys b \<Longrightarrow> loose (fsum xs ys) (a + b)"
  using fsum_val [of "2 ^ 26" xs "2 ^ 26" ys] by (auto simp: reduced_def loose_def intro: mod_add_cong)

lemma fdifference_loose: "reduced xs a \<Longrightarrow> reduced ys b \<Longrightarrow> loose (fdifference xs ys) (b - a)"
  using fdifference_val [of "2 ^ 26" xs "2 ^ 26" ys] by (auto simp: reduced_def loose_def intro: mod_diff_cong)

lemma product_reduced:
  "loose xs a \<Longrightarrow> loose ys b \<Longrightarrow> reduced (freduce_coefficients (freduce_degree (fproduct xs ys))) (a * b)"
  using product_val [of xs ys, folded prime25519_def] mod_mult_cong [of "limbs_val xs" prime25519 a "limbs_val ys" b]
  unfolding reduced_def loose_def by metis

lemma fmul_reduced: "loose xs a \<Longrightarrow> loose ys b \<Longrightarrow> reduced (fmul xs ys) (a * b)"
  using product_reduced [of xs a ys b] by (simp add: fmul_def)

lemma fsquare_reduced: "loose xs a \<Longrightarrow> reduced (fsquare xs) (a\<^sup>2)"
  using fmul_reduced [of xs a xs a] by (simp add: fsquare_fmul power2_eq_square)

lemma scalar_reduced:
  assumes "loose ys b"
  shows "reduced (freduce_coefficients (fscalar_product (replicate 19 0) ys 121665)) (121665 * b)"
proof -
  let ?s = "fscalar_product (replicate 19 0) ys 121665"
  have s: "length ?s = 19" "limbs_ok (2 ^ 27 * 121665) ?s" "limbs_val ?s = limbs_val ys * 121665"
    using fscalar_product_nth [of "replicate 19 0" ys 121665] fscalar_val [of "replicate 19 0" "2 ^ 27" ys 121665] assms
    by (auto simp: loose_def)
  have "\<bar>sint (?s ! i)\<bar> \<le> 280 * 2 ^ 54" if "i < 10" for i
    using s(2) that unfolding limbs_ok_def by fastforce
  then have "limbs_ok (2 ^ 26) (freduce_coefficients ?s)"
    "limbs_val (freduce_coefficients ?s) mod prime25519 = limbs_val ys * 121665 mod prime25519"
    using freduce_coefficients_val [of ?s, folded prime25519_def] s(1,3) by auto
  moreover have "limbs_val ys * 121665 mod prime25519 = b * 121665 mod prime25519"
    using assms by (intro mod_mult_cong) (auto simp: loose_def)
  ultimately show ?thesis by (simp add: reduced_def mult.commute)
qed

section \<open>Doubling and addition\<close>

lemma fmonty_reduced:
  assumes "reduced x X" "reduced z Z" "reduced x' X'" "reduced z' Z'" "reduced q u"
    and "fmonty x z x' z' q = (x2, z2, x3, z3)"
  shows "reduced x2 (fst (point_double (X, Z)))" "reduced z2 (snd (point_double (X, Z)))"
    "reduced x3 (fst (point_add u (X, Z) (X', Z')))" "reduced z3 (snd (point_add u (X, Z) (X', Z')))"
proof -
  define s where "s = fsum x z"
  define d where "d = fdifference z (take 10 x)"
  define s' where "s' = fsum x' z'"
  define d' where "d' = fdifference z' (take 10 x')"
  have sd: "loose s (X + Z)" "loose d (X - Z)" "loose s' (X' + Z')" "loose d' (X' - Z')"
    unfolding s_def d_def s'_def d'_def using assms(1-4) by (simp_all add: fsum_loose fdifference_loose)
  define da where "da = freduce_coefficients (freduce_degree (fproduct s' d))"
  define cb where "cb = freduce_coefficients (freduce_degree (fproduct s d'))"
  have prod: "reduced da ((X' + Z') * (X - Z))" "reduced cb ((X + Z) * (X' - Z'))"
    unfolding da_def cb_def using sd by (simp_all add: product_reduced)
  have plus: "reduced (fsquare (fsum da cb)) (((X' + Z') * (X - Z) + (X + Z) * (X' - Z'))\<^sup>2)"
    and minus: "reduced (fsquare (fdifference cb (take 10 da))) (((X' + Z') * (X - Z) - (X + Z) * (X' - Z'))\<^sup>2)"
    using prod by (simp_all add: fsquare_reduced fsum_loose fdifference_loose)
  define aa where "aa = fsquare s"
  define bb where "bb = fsquare d"
  have sq: "reduced aa ((X + Z)\<^sup>2)" "reduced bb ((X - Z)\<^sup>2)"
    unfolding aa_def bb_def using sd by (simp_all add: fsquare_reduced)
  note e = fdifference_loose [OF sq(2,1)]
  note results = product_reduced [OF sq [THEN reduced_loose]]
    product_reduced [OF e fsum_loose [OF scalar_reduced [OF e] sq(1)]]
    product_reduced [OF minus [THEN reduced_loose] assms(5) [THEN reduced_loose]]
  have out: "x2 = freduce_coefficients (freduce_degree (fproduct aa bb))"
    "z2 = freduce_coefficients (freduce_degree (fproduct (fdifference bb aa)
      (fsum (freduce_coefficients (fscalar_product (replicate 19 0) (fdifference bb aa) 121665)) aa)))"
    "x3 = take 10 (fsquare (fsum da cb))"
    "z3 = take 10 (freduce_coefficients (freduce_degree (fproduct (fsquare (fdifference cb (take 10 da))) q)))"
    using assms(6) by (simp_all add: fmonty_def Let_def s_def d_def s'_def d'_def da_def cb_def aa_def bb_def)
  have alg: "(X + Z)\<^sup>2 * (X - Z)\<^sup>2 = (X\<^sup>2 - Z\<^sup>2)\<^sup>2"
    "((X + Z)\<^sup>2 - (X - Z)\<^sup>2) * (121665 * ((X + Z)\<^sup>2 - (X - Z)\<^sup>2) + (X + Z)\<^sup>2) = 4 * X * Z * (X\<^sup>2 + 486662 * X * Z + Z\<^sup>2)"
    "((X' + Z') * (X - Z) + (X + Z) * (X' - Z'))\<^sup>2 = 4 * (X * X' - Z * Z')\<^sup>2"
    "((X' + Z') * (X - Z) - (X + Z) * (X' - Z'))\<^sup>2 * u = 4 * u * (X * Z' - Z * X')\<^sup>2"
    by (simp_all add: power2_eq_square algebra_simps)
  show "reduced x2 (fst (point_double (X, Z)))" "reduced z2 (snd (point_double (X, Z)))"
    "reduced x3 (fst (point_add u (X, Z) (X', Z')))" "reduced z3 (snd (point_add u (X, Z) (X', Z')))"
    using results plus unfolding alg out by (simp_all add: point_double_def point_add_def)
qed

section \<open>Conditional swaps\<close>

lemma limbs_ok_cong:
  "(\<And>i. i < 10 \<Longrightarrow> xs ! i = ys ! i) \<Longrightarrow> 10 \<le> length ys \<Longrightarrow> limbs_ok B xs \<Longrightarrow> limbs_ok B ys"
  by (auto simp: limbs_ok_def)

lemma reduced_cong:
  assumes "\<And>i. i < 10 \<Longrightarrow> xs ! i = ys ! i" "10 \<le> length ys" "reduced xs a"
  shows "reduced ys a"
  using assms limbs_ok_cong [of xs ys "2 ^ 26"] by (simp add: reduced_def limbs_val_def ival_def)

lemma swap_loop:
  assumes "distinct is" "\<And>i. i \<in> set is \<Longrightarrow> i < length a \<and> i < length b"
    and "\<And>i. i \<in> set is \<Longrightarrow> to_limb (to_s32 (a ! i)) = a ! i \<and> to_limb (to_s32 (b ! i)) = b ! i"
    and "swap = (if flip then - 1 else 0)"
    and "fold (\<lambda>i (a, b).
        let x = swap AND (to_s32 (a ! i) XOR to_s32 (b ! i));
            a = a[i := to_limb (to_s32 (a ! i) XOR x)];
            b = b[i := to_limb (to_s32 (b ! i) XOR x)]
        in (a, b)) is (a, b) = (a', b')"
  shows "length a' = length a \<and> length b' = length b \<and>
    (\<forall>j. a' ! j = (if flip \<and> j \<in> set is then b ! j else a ! j) \<and> b' ! j = (if flip \<and> j \<in> set is then a ! j else b ! j))"
  using assms
proof (induction "is" arbitrary: a b)
  case (Cons i "is")
  let ?a = "if flip then a[i := b ! i] else a" and ?b = "if flip then b[i := a ! i] else b"
  have cast: "to_limb (to_s32 (a ! i)) = a ! i" "to_limb (to_s32 (b ! i)) = b ! i" "i < length a" "i < length b"
    using Cons.prems(2,3) by auto
  have xor: "x XOR (x XOR y) = y" "y XOR (x XOR y) = x" for x y :: s32
    by (simp_all add: xor.assoc [symmetric]) (simp add: xor.commute xor.left_commute)
  have "length a' = length ?a \<and> length b' = length ?b \<and>
    (\<forall>j. a' ! j = (if flip \<and> j \<in> set is then ?b ! j else ?a ! j) \<and> b' ! j = (if flip \<and> j \<in> set is then ?a ! j else ?b ! j))"
    using Cons.prems cast by (intro Cons.IH) (auto simp: xor Let_def nth_update split: if_splits)
  then show ?case using Cons.prems(1) cast by (auto simp: nth_update split: if_splits)
qed simp

lemma swap_conditional_reduced:
  assumes "reduced xs a" "reduced ys b" "swap_conditional xs ys (of_bool c) = (xs', ys')"
  shows "reduced xs' (if c then b else a)" "reduced ys' (if c then a else b)"
proof -
  have swap: "to_s32 (- of_bool c) = (if c then - 1 else 0)" by (simp add: to_s32_eq)
  have cast: "to_limb (to_s32 (xs ! i)) = xs ! i \<and> to_limb (to_s32 (ys ! i)) = ys ! i" if "i \<in> set [0..<10]" for i
    using that assms(1,2) by (auto simp: reduced_def intro!: limbs_ok_cast)
  have len: "10 \<le> length xs" "10 \<le> length ys" using assms(1,2) by (auto simp: reduced_def limbs_ok_def)
  have "length xs' = length xs \<and> length ys' = length ys \<and>
    (\<forall>j. xs' ! j = (if c \<and> j \<in> set [0..<10] then ys ! j else xs ! j) \<and>
         ys' ! j = (if c \<and> j \<in> set [0..<10] then xs ! j else ys ! j))"
    using assms(3) len cast unfolding swap_conditional_def Let_def swap
    by (intro swap_loop [of "[0..<10]" xs ys "if c then - 1 else 0" c xs' ys']) (auto simp: Let_def)
  then show "reduced xs' (if c then b else a)" "reduced ys' (if c then a else b)"
    using assms(1,2) len reduced_cong [of xs xs' a] reduced_cong [of ys xs' b] reduced_cong [of ys ys' b]
      reduced_cong [of xs ys' a]
    by (auto split: if_splits)
qed

section \<open>The ladder\<close>

definition ladder_rep :: "ladder \<Rightarrow> (int \<times> int) \<times> (int \<times> int) \<Rightarrow> bool" where
  "ladder_rep = (\<lambda>(nqx, nqz, nqpqx, nqpqz) ((X, Z), (X', Z')).
     reduced nqx X \<and> reduced nqz Z \<and> reduced nqpqx X' \<and> reduced nqpqz Z')"

lemma point_add_commute: "point_add u P Q = point_add u Q P"
  by (simp add: point_add_def power2_commute [of "fst P * snd Q"] split: prod.split)
    (simp add: mult.commute power2_commute)

lemma cmult_step_rep:
  assumes "ladder_rep st R" "reduced q u"
  shows "ladder_rep (cmult_step q (of_bool b) st) (ladder_step u b R)"
proof -
  obtain x z x' z' X Z X' Z' where st: "st = (x, z, x', z')" "R = ((X, Z), (X', Z'))"
    by (metis surj_pair)
  have red: "reduced x X" "reduced z Z" "reduced x' X'" "reduced z' Z'"
    using assms(1) by (simp_all add: ladder_rep_def st)
  obtain xa xb where s1: "swap_conditional x x' (of_bool b) = (xa, xb)" by fastforce
  obtain za zb where s2: "swap_conditional z z' (of_bool b) = (za, zb)" by fastforce
  obtain x2 z2 x3 z3 where m: "fmonty xa za xb zb q = (x2, z2, x3, z3)" by (metis surj_pair)
  obtain xc xd where s3: "swap_conditional x2 x3 (of_bool b) = (xc, xd)" by fastforce
  obtain zc zd where s4: "swap_conditional z2 z3 (of_bool b) = (zc, zd)" by fastforce
  note swapped = swap_conditional_reduced [OF red(1,3) s1] swap_conditional_reduced [OF red(2,4) s2]
  note out = fmonty_reduced [OF swapped(1,3,2,4) assms(2) m]
  have "cmult_step q (of_bool b) st = (xc, zc, xd, zd)"
    by (simp add: cmult_step_def st s1 s2 m s3 s4)
  then show ?thesis
    using swap_conditional_reduced [OF out(1,3) s3] swap_conditional_reduced [OF out(2,4) s4]
    by (auto simp: ladder_rep_def ladder_step_def st point_add_commute [of u "(X', Z')"] split: if_splits prod.split)
qed

definition le_int :: "bytes \<Rightarrow> int" where
  "le_int bs = horner_sum uint 256 bs"

lemma bit_le_int: "bit (le_int bs) n \<longleftrightarrow> n div 8 < length bs \<and> bit (bs ! (n div 8)) (n mod 8)"
  using bit_horner_sum_uint_exp_iff [of bs n] by (simp add: le_int_def)

lemma top_bit: "(ucast (drop_bit 7 (byte :: u8)) :: limb) = of_bool (bit byte 7)"
proof (rule bit_word_eqI)
  fix n assume "n < LENGTH(64)"
  have "bit byte (7 + n) \<longleftrightarrow> n = 0 \<and> bit byte 7" by (cases n) (auto dest: bit_imp_le_length)
  then show "bit (ucast (drop_bit 7 byte) :: limb) n \<longleftrightarrow> bit (of_bool (bit byte 7) :: limb) n"
    using \<open>n < LENGTH(64)\<close> by (simp add: bit_simps)
qed

lemma cmult_bits_fold:
  "k \<le> 8 \<Longrightarrow> cmult_bits q k (push_bit (8 - k) byte) st = fold (\<lambda>j. cmult_step q (of_bool (bit byte j))) (rev [0..<k]) st"
proof (induction k arbitrary: st)
  case (Suc k)
  have "bit (push_bit (8 - Suc k) byte) 7 = bit byte k" using Suc.prems by (auto simp: bit_simps)
  moreover have "push_bit 1 (push_bit (8 - Suc k) byte) = push_bit (8 - k) byte"
    using Suc.prems by (simp add: push_bit_push_bit Suc_diff_le [symmetric] del: One_nat_def)
  ultimately show ?case using Suc.IH Suc.prems by (simp add: Let_def top_bit del: One_nat_def)
qed simp

lemma byte_order:
  "concat (map (\<lambda>i. map (\<lambda>j. 8 * (31 - i) + j) (rev [0..<8])) [0..<32]) = rev [0..<256 :: nat]"
  by code_simp

lemma fold_concat_map: "fold (\<lambda>i. fold f (g i)) is s = fold f (concat (map g is)) s"
  by (induction "is" arbitrary: s) auto

lemma ladder_rep_fold:
  "ladder_rep st R \<Longrightarrow> reduced q u \<Longrightarrow>
    ladder_rep (fold (\<lambda>i. cmult_step q (of_bool (bit k i))) is st) (fold (\<lambda>i. ladder_step u (bit k i)) is R)"
proof (induction "is" arbitrary: st R)
  case (Cons i "is")
  from Cons.IH [OF cmult_step_rep [OF Cons.prems] Cons.prems(2)] show ?case by simp
qed simp

lemma cmult_fold:
  assumes "length n = 32"
  shows "fold (\<lambda>i. cmult_bits q 8 (n ! (31 - i))) [0..<32] st =
    fold (\<lambda>i. cmult_step q (of_bool (bit (le_int n) i))) (rev [0..<256]) st"
proof -
  have "cmult_bits q 8 (n ! (31 - i)) st =
      fold (\<lambda>j. cmult_step q (of_bool (bit (le_int n) j))) (map (\<lambda>j. 8 * (31 - i) + j) (rev [0..<8])) st" for i st
  proof -
    have "31 - i < 32" by simp
    then show ?thesis
      using cmult_bits_fold [of 8 q "n ! (31 - i)" st] assms unfolding fold_map
      by (auto simp: bit_le_int intro!: fold_cong)
  qed
  then have "(\<lambda>i. cmult_bits q 8 (n ! (31 - i))) =
      (\<lambda>i. fold (\<lambda>j. cmult_step q (of_bool (bit (le_int n) j))) (map (\<lambda>j. 8 * (31 - i) + j) (rev [0..<8])))"
    by (intro ext)
  then show ?thesis unfolding byte_order [symmetric] fold_concat_map [symmetric] by (rule arg_cong)
qed

lemma limbs_const:
  "limbs_ok (2 ^ 26) (replicate 19 0)" "limbs_val (replicate 19 0) = 0"
  "limbs_ok (2 ^ 26) (1 # replicate 18 0)" "limbs_val (1 # replicate 18 0) = 1"
  by (auto simp: limbs_ok_def limbs_val_def ival_def sum_10 off_def nth_Cons')

lemma cmult_reduced:
  assumes "length n = 32" "reduced q u" "cmult n q = (x, z)"
  shows "reduced x (fst (fst (ladder (le_int n) u)))" "reduced z (snd (fst (ladder (le_int n) u)))"
proof -
  have "reduced (take 10 q @ replicate 9 0) u"
    using assms(2) by (rule reduced_cong [rotated 2]) (use assms(2) in \<open>auto simp: reduced_def limbs_ok_def nth_append\<close>)
  then have "ladder_rep (1 # replicate 18 0, replicate 19 0, take 10 q @ replicate 9 0, 1 # replicate 18 0)
      ((1, 0), (u, 1))"
    using limbs_const by (auto simp: ladder_rep_def reduced_def)
  from ladder_rep_fold [OF this assms(2), of "le_int n" "rev [0..<256]"]
  show "reduced x (fst (fst (ladder (le_int n) u)))" "reduced z (snd (fst (ladder (le_int n) u)))"
    using assms(3) unfolding cmult_def Let_def cmult_fold [OF assms(1)] ladder_def
    by (auto simp: ladder_rep_def split: prod.splits)
qed

section \<open>Inversion\<close>

lemma fmul_power: "reduced x (a ^ m) \<Longrightarrow> reduced y (a ^ n) \<Longrightarrow> reduced (fmul x y) (a ^ (m + n))"
  by (simp add: power_add fmul_reduced reduced_loose)

lemma fsquare_power: "reduced x (a ^ m) \<Longrightarrow> reduced (fsquare x) (a ^ (2 * m))"
  using fsquare_reduced [OF reduced_loose, of x "a ^ m"] by (simp add: power_mult [symmetric] mult.commute)

lemma square_loop_power: "reduced b (a ^ m) \<Longrightarrow> reduced (square_loop k b) (a ^ (4 ^ k * m))"
proof (induction k arbitrary: b m)
  case (Suc k)
  have "reduced (fsquare (fsquare b)) (a ^ (4 * m))" using fsquare_power [OF fsquare_power [OF Suc.prems]] by simp
  from Suc.IH [OF this] show ?case by (simp add: Let_def mult_ac)
qed simp

lemma crecip_reduced:
  assumes "reduced z a"
  shows "reduced (crecip z) (a ^ nat (prime25519 - 2))"
proof -
  have exponent: "nat (prime25519 - 2) = 57896044618658097711785492504343953926634992332820282019728792003956564819947"
    by (simp add: prime25519_def)
  have "reduced z (a ^ 1)" using assms by simp
  note steps = this fsquare_power fmul_power square_loop_power
  have "\<exists>n. reduced (crecip z) (a ^ n) \<and> n = nat (prime25519 - 2)"
    unfolding crecip_def Let_def exponent
    by (rule exI, rule conjI, (rule steps)+) simp
  then show ?thesis by blast
qed

end
