(* ===== verification/DonnaBytes.thy ===== *)
theory DonnaBytes
  imports DonnaLadder
begin

text \<open>
  \<open>fexpand\<close> of \<open>curve25519-donna.c\<close> and the bits of the scalar: 32 bytes as a number, and as limbs.
\<close>

section \<open>Little-endian numbers\<close>

lemma le_int_Cons: "le_int (b # bs) = uint b + 256 * le_int bs"
  by (simp add: le_int_def)

lemma le_int_Nil [simp]: "le_int [] = 0"
  by (simp add: le_int_def)

lemma le_int_append: "le_int (as @ bs) = le_int as + 2 ^ (8 * length as) * le_int bs"
  by (induction as) (simp_all add: le_int_Cons power_add algebra_simps)

lemma le_int_bounds: "0 \<le> le_int bs" "le_int bs < 2 ^ (8 * length bs)"
proof (induction bs)
  case (Cons b bs)
  { case 1 then show ?case using Cons by (simp add: le_int_Cons) }
  { case 2 then show ?case using Cons uint_lt2p [of b] by (simp add: le_int_Cons power_add) }
qed simp_all

lemma le_int_inject: "length as = length bs \<Longrightarrow> le_int as = le_int bs \<Longrightarrow> as = bs"
proof (induction as bs rule: list_induct2)
  case (Cons a as b bs)
  have "uint a = le_int (a # as) mod 256" "uint b = le_int (b # bs) mod 256"
    using uint_lt2p [of a] uint_lt2p [of b] by (simp_all add: le_int_Cons mod_pos_pos_trivial)
  then have "a = b" using Cons.prems by (metis word_of_int_uint)
  then show ?case using Cons by (simp add: le_int_Cons)
qed simp

section \<open>From bytes to limbs\<close>

lemma four_bytes:
  fixes bs :: bytes
  assumes "start + 3 < length bs"
  shows "(ucast (bs ! (start + 0)) OR push_bit 8 (ucast (bs ! (start + 1)))
      OR push_bit 16 (ucast (bs ! (start + 2))) OR push_bit 24 (ucast (bs ! (start + 3))) :: limb)
    = of_int (take_bit 32 (drop_bit (8 * start) (le_int bs)))"
proof (rule bit_word_eqI)
  fix n :: nat
  assume "n < LENGTH(64)"
  have no: "\<not> bit (b :: u8) m" if "8 \<le> m" for b m using that by (auto dest: bit_imp_le_length)
  let ?thesis = "bit (ucast (bs ! (start + 0)) OR push_bit 8 (ucast (bs ! (start + 1)))
      OR push_bit 16 (ucast (bs ! (start + 2))) OR push_bit 24 (ucast (bs ! (start + 3))) :: limb) n
    \<longleftrightarrow> bit (of_int (take_bit 32 (drop_bit (8 * start) (le_int bs))) :: limb) n"
  have at: "(8 * start + n) div 8 = start + k \<and> (8 * start + n) mod 8 = n - 8 * k" if "8 * k \<le> n" "n < 8 * k + 8" for k
    using that by presburger
  have lt: "n - 8 < 64" "n - 16 < 64" "n - 24 < 64" using \<open>n < LENGTH(64)\<close> by simp_all
  consider "n < 8" | "8 \<le> n" "n < 16" | "16 \<le> n" "n < 24" | "24 \<le> n" "n < 32" | "32 \<le> n" by linarith
  then show ?thesis
  proof cases
    case 1
    then show ?thesis using assms lt at [of 0] by (simp add: bit_simps bit_le_int)
  next
    case 2
    then show ?thesis using assms lt at [of 1] no [of n] by (simp add: bit_simps bit_le_int)
  next
    case 3
    then have "8 \<le> n" "8 \<le> n - 8" by simp_all
    then show ?thesis using 3 assms lt at [of 2] no [of n] no [of "n - 8"] by (simp add: bit_simps bit_le_int)
  next
    case 4
    then have "8 \<le> n" "8 \<le> n - 8" "8 \<le> n - 16" by simp_all
    then show ?thesis using 4 assms lt at [of 3] no [of n] no [of "n - 8"] no [of "n - 16"]
      by (simp add: bit_simps bit_le_int)
  next
    case 5
    then have "8 \<le> n" "8 \<le> n - 8" "8 \<le> n - 16" "8 \<le> n - 24" by simp_all
    then show ?thesis using 5 no [of n] no [of "n - 8"] no [of "n - 16"] no [of "n - 24"]
      by (simp add: bit_simps)
  qed
qed

lemma fexpand_limb_val:
  assumes "start + 3 < length bs" "shift + w \<le> 32" "w \<le> 26" "msk = of_int (2 ^ w - 1)"
  shows "sint (fexpand_limb bs start shift msk) = take_bit w (drop_bit (8 * start + shift) (le_int bs))"
proof -
  let ?v = "take_bit w (drop_bit (8 * start + shift) (le_int bs))"
  have m: "msk = Bit_Operations.mask w" using assms(4) by (simp add: mask_eq_exp_minus_1)
  have "fexpand_limb bs start shift msk = of_int ?v"
    unfolding fexpand_limb_def four_bytes [OF assms(1)] m
    using assms(2) by (intro bit_word_eqI) (auto simp: bit_simps ac_simps)
  moreover have "?v < 2 ^ w" by simp
  moreover have "(2 :: int) ^ w \<le> 2 ^ 26" using assms(3) by (intro power_increasing) auto
  ultimately show ?thesis using sint_of_int64 [of ?v] by (simp del: take_bit_int_less_exp)
qed

lemma fexpand_nth:
  assumes "length bs = 32" "i < 10"
  shows "sint (fexpand bs ! i) = take_bit (limb_width i) (drop_bit (off i) (le_int bs))"
proof -
  have "i \<in> {0, 1, 2, 3, 4, 5, 6, 7, 8, 9}" using assms(2) by auto
  then show ?thesis
    using assms(1) by (auto simp: fexpand_def fexpand_limb_val [where w = 25] fexpand_limb_val [where w = 26] limb_width_def off_def)
qed

lemma sum_take_bits: "(\<Sum>i<n. take_bit (limb_width i) (drop_bit (off i) k) * 2 ^ off i) = take_bit (off n) (k :: int)"
proof (induction n)
  case (Suc n)
  have "take_bit (off n + limb_width n) k = take_bit (off n) k + 2 ^ off n * take_bit (limb_width n) (drop_bit (off n) k)"
    by (simp add: take_bit_eq_mod drop_bit_eq_div power_add zmod_zmult2_eq)
  then show ?case using Suc by (simp add: off_Suc mult.commute)
qed (simp add: off_def)

lemma fexpand_reduced:
  assumes "length bs = 32"
  shows "reduced (fexpand bs) (le_int bs mod 2 ^ 255)"
proof -
  have "(2 :: int) ^ limb_width i \<le> 2 ^ 26" for i :: nat
    using limb_width_bounds(2) by (intro power_increasing) auto
  then have "\<bar>sint (fexpand bs ! i)\<bar> < 2 ^ 26" if "i < 10" for i
    using that fexpand_nth [OF assms that] by (auto simp: less_le_trans [OF take_bit_int_less_exp])
  moreover have "limbs_val (fexpand bs) = take_bit 255 (le_int bs)"
    using fexpand_nth [OF assms] sum_take_bits [where n = 10 and k = "le_int bs"] by (simp add: limbs_val_def ival_def off_def)
  moreover have "10 \<le> length (fexpand bs)" by (simp add: fexpand_def)
  ultimately show ?thesis by (simp add: reduced_def limbs_ok_def take_bit_eq_mod)
qed

section \<open>The scalar\<close>

lemma le_int_update:
  "i < length bs \<Longrightarrow> le_int (bs[i := b]) = le_int bs + 2 ^ (8 * i) * (uint b - uint (bs ! i))"
proof (induction bs arbitrary: i)
  case (Cons c bs)
  show ?case
  proof (cases i)
    case (Suc j)
    then have "le_int ((c # bs)[i := b]) = uint c + 256 * le_int (bs[j := b])" by (simp add: le_int_Cons)
    also have "\<dots> = uint c + 256 * (le_int bs + 2 ^ (8 * j) * (uint b - uint (bs ! j)))"
      using Cons Suc by simp
    finally show ?thesis using Suc by (simp add: le_int_Cons power_add algebra_simps)
  qed (simp add: le_int_Cons)
qed simp

text \<open>The scalars of the curve: multiples of 8 between \<open>2 ^ 254\<close> and \<open>2 ^ 255\<close>.\<close>

definition clamped :: "int \<Rightarrow> int" where
  "clamped k = 2 ^ 254 + (k mod 2 ^ 254 - k mod 8)"

lemma all_bytes:
  assumes "list_all (\<lambda>n. P (word_of_nat n)) [0..<256]"
  shows "P (b :: u8)"
proof -
  have "unat b < 256" using unsigned_less [of b] by simp
  moreover have "\<forall>n\<in>{0..<256}. P (word_of_nat n)" using assms by (simp add: list_all_iff)
  ultimately show ?thesis using bspec [of "{0..<256}" "\<lambda>n. P (word_of_nat n)" "unat b"] by simp
qed

lemma first_byte: "uint (b AND 248 :: u8) = uint b - uint b mod 8"
  by (rule all_bytes) code_simp

lemma last_byte: "uint ((b AND 127) OR 64 :: u8) = 64 + uint b mod 64"
  by (rule all_bytes) code_simp

lemma clamp_scalar_val:
  assumes "length secret = 32"
  shows "length (clamp_scalar secret) = 32 \<and> le_int (clamp_scalar secret) = clamped (le_int secret)"
proof -
  let ?b = "uint (secret ! 0)" and ?t = "uint (secret ! 31)"
  obtain c rest where cs: "secret = c # rest" using assms by (cases secret) auto
  have low: "le_int secret mod 8 = ?b mod 8"
    using mod_mult_self2 [of ?b 8 "32 * le_int rest"] by (simp add: cs le_int_Cons)
  have split: "le_int secret = le_int (take 31 secret) + 2 ^ 248 * ?t"
    using assms le_int_append [of "take 31 secret" "[secret ! 31]"] take_Suc_conv_app_nth [of 31 secret]
    by (simp add: le_int_Cons)
  have "le_int secret mod 2 ^ 254 = le_int (take 31 secret) + 2 ^ 248 * (?t mod 64)"
  proof -
    have "le_int secret mod (2 ^ 248 * 64) = 2 ^ 248 * (le_int secret div 2 ^ 248 mod 64) + le_int secret mod 2 ^ 248"
      by (rule zmod_zmult2_eq) simp
    moreover have "le_int secret div 2 ^ 248 = ?t" "le_int secret mod 2 ^ 248 = le_int (take 31 secret)"
      using le_int_bounds [of "take 31 secret"] assms by (simp_all add: split)
    ultimately show ?thesis by simp
  qed
  moreover have "le_int (clamp_scalar secret) = le_int secret + (uint (secret ! 0 AND 248) - ?b)
      + 2 ^ 248 * (uint ((secret ! 31 AND 127) OR 64) - ?t)"
    using assms by (simp add: clamp_scalar_def Let_def le_int_update nth_update)
  ultimately have "le_int (clamp_scalar secret) = clamped (le_int secret)"
    unfolding first_byte last_byte clamped_def low by (simp add: split)
  then show ?thesis using assms by (simp add: clamp_scalar_def Let_def)
qed

end
