(* ===== verification/DonnaContract.thy ===== *)
theory DonnaContract
  imports DonnaBytes
begin

text \<open>
  \<open>fcontract\<close>: two passes that make the limbs non-negative, two that bring them to their widths, the
  subtraction of the prime, and the bytes.
\<close>

section \<open>Limbs of 32 bits\<close>

definition sval :: "s32 list \<Rightarrow> int" where
  "sval xs = ival 10 (\<lambda>i. sint (xs ! i))"

lemma sint_add32: "\<bar>sint a + sint b\<bar> < 2 ^ 31 \<Longrightarrow> sint (a + b :: s32) = sint a + sint b"
  using sint_of_int32 [of "sint a + sint b"] by simp

lemma sint_diff32: "\<bar>sint a - sint b\<bar> < 2 ^ 31 \<Longrightarrow> sint (a - b :: s32) = sint a - sint b"
  using sint_of_int32 [of "sint a - sint b"] by simp

lemma sint_minus32: "\<bar>sint a\<bar> < 2 ^ 31 \<Longrightarrow> sint (- a :: s32) = - sint a"
  using sint_of_int32 [of "- sint a"] by simp

lemma sint_mult32: "\<bar>sint a * sint b\<bar> < 2 ^ 31 \<Longrightarrow> sint (a * b :: s32) = sint a * sint b"
  using sint_of_int32 [of "sint a * sint b"] by simp

lemma sint_shift32: "\<bar>sint a * 2 ^ n\<bar> < 2 ^ 31 \<Longrightarrow> sint (push_bit n a :: s32) = sint a * 2 ^ n"
  using sint_of_int32 [of "sint a * 2 ^ n"] by (simp add: push_bit_eq_mult)

lemma s32_eq_iff: "x = y \<longleftrightarrow> sint x = sint y" for x y :: s32
proof
  show "sint x = sint y \<Longrightarrow> x = y" by (rule signed_word_eqI)
qed simp

lemma sign_mask: "signed_drop_bit 31 (w :: s32) = (if sint w < 0 then - 1 else 0)"
  using bit_last_iff [of w] by (simp add: signed_drop_bit_31)

lemma limb_width_cases: "limb_width i = 25 \<or> limb_width i = 26"
  by (simp add: limb_width_def)

text \<open>\<open>q\<close> units of limb \<open>i + 1\<close> moved there from limb \<open>i\<close>, and from the last limb to the first.\<close>

definition moved :: "nat \<Rightarrow> int \<Rightarrow> s32 list \<Rightarrow> s32 list \<Rightarrow> bool" where
  "moved i q xs ys \<longleftrightarrow> length ys = length xs \<and> sint (ys ! i) = sint (xs ! i) - q * 2 ^ limb_width i \<and>
     sint (ys ! (i + 1)) = sint (xs ! (i + 1)) + q \<and> (\<forall>j. j \<noteq> i \<longrightarrow> j \<noteq> i + 1 \<longrightarrow> ys ! j = xs ! j)"

definition moved_around :: "int \<Rightarrow> s32 list \<Rightarrow> s32 list \<Rightarrow> bool" where
  "moved_around q xs ys \<longleftrightarrow> length ys = length xs \<and> sint (ys ! 9) = sint (xs ! 9) - q * 2 ^ 25 \<and>
     sint (ys ! 0) = sint (xs ! 0) + 19 * q \<and> (\<forall>j. j \<noteq> 9 \<longrightarrow> j \<noteq> 0 \<longrightarrow> ys ! j = xs ! j)"

lemma moved_sval:
  assumes "moved i q xs ys" "i < 9"
  shows "sval ys = sval xs"
proof -
  have "sval ys = ival 10 (\<lambda>j. if j = i + 1 then sint (xs ! (i + 1)) + q
      else if j = i then sint (xs ! i) - q * 2 ^ limb_width i else sint (xs ! j))"
    unfolding sval_def ival_def using assms(1) by (intro sum.cong) (auto simp: moved_def)
  also have "\<dots> = sval xs"
    using assms(2) by (simp add: ival_update sval_def off_Suc power_add algebra_simps)
  finally show ?thesis .
qed

lemma moved_around_sval:
  assumes "moved_around q xs ys"
  shows "sval ys mod prime25519 = sval xs mod prime25519"
proof -
  have "sval ys = ival 10 (\<lambda>j. if j = 0 then sint (xs ! 0) + 19 * q
      else if j = 9 then sint (xs ! 9) - q * 2 ^ 25 else sint (xs ! j))"
    unfolding sval_def ival_def using assms(1) by (intro sum.cong) (auto simp: moved_around_def)
  also have "\<dots> = sval xs - prime25519 * q"
    by (simp add: ival_update sval_def off_def prime25519_def algebra_simps)
  finally show ?thesis using mod_mult_self2 [of "sval xs" prime25519 "- q"] by simp
qed

section \<open>Borrowing\<close>

text \<open>What a negative limb takes from the next one.\<close>

definition borrow :: "nat \<Rightarrow> int \<Rightarrow> int" where
  "borrow i x = (if x < 0 then x div 2 ^ limb_width i else 0)"

lemma borrow_bounds: "\<bar>x\<bar> \<le> 2 ^ 27 \<Longrightarrow> - 4 \<le> borrow i x \<and> borrow i x \<le> 0"
  using limb_width_cases [of i] by (auto simp: borrow_def)

lemma sint_borrow:
  fixes i :: nat and x :: s32
  assumes "\<bar>sint x\<bar> \<le> 2 ^ 27"
  defines "c \<equiv> - signed_drop_bit (limb_width i) (x AND signed_drop_bit 31 x)"
  shows "sint c = - borrow i (sint x)" "sint (x + push_bit (limb_width i) c) = sint x - borrow i (sint x) * 2 ^ limb_width i"
proof -
  have d: "sint (signed_drop_bit (limb_width i) (x AND signed_drop_bit 31 x)) = borrow i (sint x)"
    by (simp add: sint_signed_drop_bit_eq drop_bit_eq_div borrow_def sign_mask)
  note b = borrow_bounds [OF assms(1), of i]
  show c: "sint c = - borrow i (sint x)" using b unfolding c_def by (subst sint_minus32) (auto simp: d)
  have "sint (push_bit (limb_width i) c) = sint c * 2 ^ limb_width i"
    using b limb_width_cases [of i] by (intro sint_shift32) (auto simp: c)
  then show "sint (x + push_bit (limb_width i) c) = sint x - borrow i (sint x) * 2 ^ limb_width i"
    using b limb_width_cases [of i] assms(1) by (subst sint_add32) (auto simp: c)
qed

lemma borrow_step_moved:
  assumes "length xs = 10" "i < 9" "\<bar>sint (xs ! i)\<bar> \<le> 2 ^ 27" "\<bar>sint (xs ! (i + 1))\<bar> \<le> 2 ^ 27"
  shows "moved i (borrow i (sint (xs ! i))) xs (borrow_step i xs)"
proof -
  note s = sint_borrow [OF assms(3), of i]
  have "sint (xs ! (i + 1) + signed_drop_bit (limb_width i) (xs ! i AND signed_drop_bit 31 (xs ! i))) =
      sint (xs ! (i + 1)) + borrow i (sint (xs ! i))"
    using borrow_bounds [OF assms(3), of i] assms(4)
    by (subst sint_add32) (auto simp: sint_signed_drop_bit_eq drop_bit_eq_div borrow_def sign_mask)
  then show ?thesis
    using s assms(1,2) by (simp add: moved_def borrow_step_def Let_def nth_update)
qed

lemma borrow_last_moved:
  assumes "length xs = 10" "\<bar>sint (xs ! 9)\<bar> \<le> 2 ^ 27" "\<bar>sint (xs ! 0)\<bar> \<le> 2 ^ 27"
  shows "moved_around (borrow 9 (sint (xs ! 9))) xs (borrow_last xs)"
proof -
  note b = borrow_bounds [OF assms(2), of 9]
  have w: "limb_width 9 = 25" by (simp add: limb_width_def)
  note s = sint_borrow [OF assms(2), of 9, unfolded w]
  have m: "sint (- signed_drop_bit 25 (xs ! 9 AND signed_drop_bit 31 (xs ! 9)) * 19) = - borrow 9 (sint (xs ! 9)) * 19"
    using b s(1) by (subst sint_mult32) auto
  then have "sint (xs ! 0 - (- signed_drop_bit 25 (xs ! 9 AND signed_drop_bit 31 (xs ! 9)) * 19)) =
      sint (xs ! 0) + 19 * borrow 9 (sint (xs ! 9))"
    using b assms(3) by (subst sint_diff32) auto
  then show ?thesis
    using s(2) assms(1) by (simp add: moved_around_def borrow_last_def Let_def nth_update)
qed

lemma borrow_step_id: "0 \<le> sint (xs ! i) \<Longrightarrow> borrow_step i xs = xs"
  by (simp add: borrow_step_def Let_def sign_mask)

lemma borrow_last_id: "0 \<le> sint (xs ! 9) \<Longrightarrow> borrow_last xs = xs"
  by (simp add: borrow_last_def Let_def sign_mask)

lemma borrow_pass_id: "(\<And>i. i < 10 \<Longrightarrow> 0 \<le> sint (xs ! i)) \<Longrightarrow> borrow_last (fold borrow_step [0..<9] xs) = xs"
proof -
  assume nonneg: "\<And>i. i < 10 \<Longrightarrow> 0 \<le> sint (xs ! i)"
  have "n \<le> 9 \<Longrightarrow> fold borrow_step [0..<n] xs = xs" for n
    by (induction n) (auto simp: borrow_step_id nonneg)
  then show ?thesis using nonneg by (simp add: borrow_last_id)
qed

lemma borrow_steps:
  assumes "length xs = 10" "\<And>i. i < 10 \<Longrightarrow> - m \<le> sint (xs ! i) \<and> sint (xs ! i) < 2 ^ 26"
    and "m \<le> 2 ^ 26" "0 \<le> c" "c \<le> 3" "m + c \<le> c * 2 ^ 25" "n \<le> 9"
  defines "ys \<equiv> fold borrow_step [0..<n] xs"
  shows "length ys = 10 \<and> (\<forall>j<n. 0 \<le> sint (ys ! j) \<and> sint (ys ! j) < 2 ^ 26) \<and>
    sint (xs ! n) - c \<le> sint (ys ! n) \<and> sint (ys ! n) \<le> sint (xs ! n) \<and> (\<forall>j>n. ys ! j = xs ! j) \<and>
    sval ys = sval xs \<and> (0 < n \<longrightarrow> sint (ys ! 0) = sint (xs ! 0) - borrow 0 (sint (xs ! 0)) * 2 ^ 26)"
  using assms(7) unfolding ys_def
proof (induction n)
  case (Suc n)
  let ?y = "fold borrow_step [0..<n] xs"
  let ?x = "sint (?y ! n)" and ?q = "borrow n (sint (?y ! n))"
  have IH: "length ?y = 10" "\<forall>j<n. 0 \<le> sint (?y ! j) \<and> sint (?y ! j) < 2 ^ 26"
    "sint (xs ! n) - c \<le> ?x" "?x \<le> sint (xs ! n)" "\<forall>j>n. ?y ! j = xs ! j"
    "sval ?y = sval xs" "0 < n \<longrightarrow> sint (?y ! 0) = sint (xs ! 0) - borrow 0 (sint (xs ! 0)) * 2 ^ 26"
    using Suc by auto
  have x: "- m - c \<le> ?x" "?x < 2 ^ 26" using IH(3,4) assms(2) [of n] Suc.prems by auto
  have nxt: "?y ! (n + 1) = xs ! (n + 1)" "- m \<le> sint (xs ! (n + 1))" "sint (xs ! (n + 1)) < 2 ^ 26"
    using IH(5) assms(2) [of "n + 1"] Suc.prems by auto
  have mv: "moved n ?q ?y (borrow_step n ?y)"
    using IH(1) Suc.prems x nxt assms(3,5) by (intro borrow_step_moved) auto
  have q: "- c \<le> ?q" "?q \<le> 0" "0 \<le> ?x - ?q * 2 ^ limb_width n" "?x - ?q * 2 ^ limb_width n < 2 ^ 26"
    using x assms(4,6) limb_width_cases [of n] by (auto simp: borrow_def minus_div_mult_eq_mod)
  have "sint (borrow_step n ?y ! 0) = sint (xs ! 0) - borrow 0 (sint (xs ! 0)) * 2 ^ 26"
    using mv IH(7) by (cases "n = 0") (auto simp: moved_def limb_width_def)
  then show ?case
    using mv q IH moved_sval [OF mv] nxt Suc.prems by (auto simp: moved_def less_Suc_eq)
qed (use assms in auto)

lemma borrow_pass:
  assumes "length xs = 10" "\<And>i. i < 10 \<Longrightarrow> - m \<le> sint (xs ! i) \<and> sint (xs ! i) < 2 ^ 26"
    and "m \<le> 2 ^ 26" "0 \<le> c" "c \<le> 3" "m + c \<le> c * 2 ^ 25"
  defines "ys \<equiv> borrow_last (fold borrow_step [0..<9] xs)"
  shows "length ys = 10 \<and> (\<forall>j. 0 < j \<longrightarrow> j < 10 \<longrightarrow> 0 \<le> sint (ys ! j) \<and> sint (ys ! j) < 2 ^ 26) \<and>
    sval ys mod prime25519 = sval xs mod prime25519 \<and>
    sint (xs ! 0) mod 2 ^ 26 - 19 * c \<le> sint (ys ! 0) + (if sint (xs ! 0) < 0 then 0 else 2 ^ 26) \<and> sint (ys ! 0) < 2 ^ 26 \<and>
    (sint (xs ! 0) < 0 \<longrightarrow> sint (xs ! 0) mod 2 ^ 26 - 19 * c \<le> sint (ys ! 0)) \<and> - 19 * c \<le> sint (ys ! 0)"
proof -
  let ?y = "fold borrow_step [0..<9] xs"
  let ?q = "borrow 9 (sint (?y ! 9))"
  have y: "length ?y = 10" "\<And>j. j < 9 \<Longrightarrow> 0 \<le> sint (?y ! j) \<and> sint (?y ! j) < 2 ^ 26"
    "sint (xs ! 9) - c \<le> sint (?y ! 9)" "sint (?y ! 9) \<le> sint (xs ! 9)" "sval ?y = sval xs"
    "sint (?y ! 0) = sint (xs ! 0) - borrow 0 (sint (xs ! 0)) * 2 ^ 26"
    using borrow_steps [OF assms(1-6), of 9] by auto
  have nine: "- m - c \<le> sint (?y ! 9)" "sint (?y ! 9) < 2 ^ 26" using y(3,4) assms(2) [of 9] by auto
  have mv: "moved_around ?q ?y ys"
    unfolding ys_def using y(1) y(2) [of 0] nine assms(3,5) by (intro borrow_last_moved) auto
  have q: "- c \<le> ?q" "?q \<le> 0" "0 \<le> sint (?y ! 9) - ?q * 2 ^ 25" "sint (?y ! 9) - ?q * 2 ^ 25 < 2 ^ 26"
    using nine assms(4,6) by (auto simp: borrow_def limb_width_def minus_div_mult_eq_mod)
  have zero: "sint (?y ! 0) = (if sint (xs ! 0) < 0 then sint (xs ! 0) mod 2 ^ 26 else sint (xs ! 0))"
    by (simp add: y(6) borrow_def limb_width_def minus_div_mult_eq_mod)
  have "ys ! j = ?y ! j" if "j \<noteq> 0" "j \<noteq> 9" for j using mv that by (simp add: moved_around_def)
  then have "0 \<le> sint (ys ! j) \<and> sint (ys ! j) < 2 ^ 26" if "0 < j" "j < 10" for j
    using that q mv y(2) [of j] by (cases "j = 9") (auto simp: moved_around_def)
  then show ?thesis
    using mv q y(1,5) y(2) [of 0] zero moved_around_sval [OF mv] assms(2) [of 0] by (auto simp: moved_around_def)
qed

text \<open>After two passes and the last step no limb is negative.\<close>

lemma borrows:
  assumes "length xs = 10" "\<And>i. i < 10 \<Longrightarrow> \<bar>sint (xs ! i)\<bar> < 2 ^ 26"
  defines "zs \<equiv> borrow_step 0 (fold (\<lambda>j input. borrow_last (fold borrow_step [0..<9] input)) [0..<2] xs)"
  shows "length zs = 10 \<and> (\<forall>i<10. 0 \<le> sint (zs ! i) \<and> sint (zs ! i) < 2 ^ 26) \<and>
    sval zs mod prime25519 = sval xs mod prime25519"
proof -
  let ?p = "\<lambda>xs. borrow_last (fold borrow_step [0..<9] xs)"
  define ys where "ys = ?p xs"
  have "- (2 ^ 26 - 1) \<le> sint (xs ! i) \<and> sint (xs ! i) < 2 ^ 26" if "i < 10" for i using assms(2) [OF that] by auto
  from borrow_pass [where c = 3, OF assms(1) this]
  have ys: "length ys = 10" "\<And>j. 0 < j \<Longrightarrow> j < 10 \<Longrightarrow> 0 \<le> sint (ys ! j) \<and> sint (ys ! j) < 2 ^ 26"
    "sval ys mod prime25519 = sval xs mod prime25519" "- 57 \<le> sint (ys ! 0)" "sint (ys ! 0) < 2 ^ 26"
    unfolding ys_def by auto
  have "length (?p ys) = 10 \<and> (\<forall>i<10. 0 \<le> sint (?p ys ! i) \<and> sint (?p ys ! i) < 2 ^ 26) \<and>
    sval (?p ys) mod prime25519 = sval ys mod prime25519"
  proof (cases "0 \<le> sint (ys ! 0)")
    case True
    then have nonneg: "0 \<le> sint (ys ! i)" if "i < 10" for i using ys(2) [of i] that by (cases "i = 0") auto
    then have "sint (ys ! i) < 2 ^ 26" if "i < 10" for i using ys(2) [of i] ys(5) that by (cases "i = 0") auto
    then show ?thesis using nonneg ys(1) by (simp add: borrow_pass_id)
  next
    case False
    have "sint (ys ! 0) mod 2 ^ 26 = (sint (ys ! 0) + 2 ^ 26) mod 2 ^ 26" by simp
    also have "\<dots> = sint (ys ! 0) + 2 ^ 26" using False ys(4) by (intro mod_pos_pos_trivial) auto
    finally have wrapped: "sint (ys ! 0) mod 2 ^ 26 = sint (ys ! 0) + 2 ^ 26" .
    have "- 57 \<le> sint (ys ! i) \<and> sint (ys ! i) < 2 ^ 26" if "i < 10" for i
      using ys(2) [of i] ys(4,5) that by (cases "i = 0") auto
    from borrow_pass [where c = 1, OF ys(1) this] wrapped
    have r: "length (?p ys) = 10" "\<And>j. 0 < j \<Longrightarrow> j < 10 \<Longrightarrow> 0 \<le> sint (?p ys ! j) \<and> sint (?p ys ! j) < 2 ^ 26"
      "sval (?p ys) mod prime25519 = sval ys mod prime25519" "0 \<le> sint (?p ys ! 0)" "sint (?p ys ! 0) < 2 ^ 26"
      using ys(4) False by auto
    then have "0 \<le> sint (?p ys ! i) \<and> sint (?p ys ! i) < 2 ^ 26" if "i < 10" for i
      using that by (cases "i = 0") auto
    then show ?thesis using r(1,3) by auto
  qed
  moreover have "zs = borrow_step 0 (?p ys)" by (simp add: zs_def ys_def numeral_2_eq_2)
  ultimately show ?thesis using ys(3) by (simp add: borrow_step_id)
qed

section \<open>Carrying\<close>

lemma sint_masked: "0 \<le> sint x \<Longrightarrow> sint (x AND limb_mask i) = sint x mod 2 ^ limb_width i"
proof -
  assume "0 \<le> sint x"
  have m: "limb_mask i = Bit_Operations.mask (limb_width i)"
    by (simp add: limb_mask_def limb_width_def mask_eq_exp_minus_1)
  have "x AND limb_mask i = of_int (sint x mod 2 ^ limb_width i)"
    unfolding m using limb_width_cases [of i]
    by (intro bit_word_eqI) (auto simp: bit_simps bit_sint_iff simp flip: take_bit_eq_mod)
  moreover have "\<bar>sint x mod 2 ^ limb_width i\<bar> < 2 ^ 31"
    using limb_width_cases [of i] pos_mod_bound [of "2 ^ 25" "sint x"] pos_mod_bound [of "2 ^ 26" "sint x"] by auto
  ultimately show ?thesis by (simp add: sint_of_int32)
qed

lemma carry_step_moved:
  assumes "length xs = 10" "i < 9" "0 \<le> sint (xs ! i)" "sint (xs ! i) \<le> 2 ^ 28" "0 \<le> sint (xs ! (i + 1))" "sint (xs ! (i + 1)) \<le> 2 ^ 28"
  shows "moved i (sint (xs ! i) div 2 ^ limb_width i) xs (carry_step i xs)"
proof -
  let ?q = "sint (xs ! i) div 2 ^ limb_width i"
  have "0 \<le> ?q" "?q \<le> 8" using assms(3,4) limb_width_cases [of i] by auto
  then have "sint (xs ! (i + 1) + signed_drop_bit (limb_width i) (xs ! i)) = sint (xs ! (i + 1)) + ?q"
    using assms(5,6) by (subst sint_add32) (auto simp: sint_signed_drop_bit_eq drop_bit_eq_div)
  then show ?thesis
    using assms(1-3) by (simp add: moved_def carry_step_def Let_def nth_update sint_masked minus_div_mult_eq_mod)
qed

lemma carry_last_moved:
  assumes "length xs = 10" "0 \<le> sint (xs ! 9)" "sint (xs ! 9) \<le> 2 ^ 28" "0 \<le> sint (xs ! 0)" "sint (xs ! 0) \<le> 2 ^ 28"
  shows "moved_around (sint (xs ! 9) div 2 ^ 25) xs (carry_last xs)"
proof -
  let ?q = "sint (xs ! 9) div 2 ^ 25"
  have q: "0 \<le> ?q" "?q \<le> 8" using assms(2,3) by auto
  have m: "sint (19 * signed_drop_bit 25 (xs ! 9)) = 19 * ?q"
    using q by (subst sint_mult32) (auto simp: sint_signed_drop_bit_eq drop_bit_eq_div)
  have "sint (xs ! 0 + 19 * signed_drop_bit 25 (xs ! 9)) = sint (xs ! 0) + 19 * ?q"
    using q assms(4,5) by (subst sint_add32) (auto simp: m)
  moreover have "sint (xs ! 9 AND 0x1ffffff) = sint (xs ! 9) mod 2 ^ 25"
    using sint_masked [OF assms(2), of 9] by (simp add: limb_mask_def limb_width_def)
  ultimately show ?thesis
    using assms(1) by (simp add: moved_around_def carry_last_def Let_def nth_update minus_div_mult_eq_mod)
qed

definition canonical :: "s32 list \<Rightarrow> bool" where
  "canonical xs \<longleftrightarrow> length xs = 10 \<and> (\<forall>i<10. 0 \<le> sint (xs ! i) \<and> sint (xs ! i) < 2 ^ limb_width i)"

lemma masked_id:
  assumes "0 \<le> sint x" "sint x < 2 ^ limb_width i"
  shows "x AND limb_mask i = x" "signed_drop_bit (limb_width i) x = 0"
proof -
  have "sint (x AND limb_mask i) = sint x" using assms by (simp add: sint_masked)
  then show "x AND limb_mask i = x" by (rule signed_word_eqI)
  have "sint (signed_drop_bit (limb_width i) x) = sint (0 :: s32)"
    using assms by (simp add: sint_signed_drop_bit_eq drop_bit_eq_div)
  then show "signed_drop_bit (limb_width i) x = 0" by (rule signed_word_eqI)
qed

lemma carry_pass_id:
  assumes "canonical xs"
  shows "carry_last (fold carry_step [0..<9] xs) = xs"
proof -
  have "carry_step i xs = xs" if "i < 10" for i
    using assms that by (simp add: carry_step_def canonical_def Let_def masked_id)
  then have "n \<le> 9 \<Longrightarrow> fold carry_step [0..<n] xs = xs" for n by (induction n) auto
  moreover have nine: "0 \<le> sint (xs ! 9) \<and> sint (xs ! 9) < 2 ^ limb_width 9"
    using assms unfolding canonical_def by simp
  moreover have "carry_last xs = xs"
    using nine masked_id [of "xs ! 9" 9] by (simp add: carry_last_def Let_def limb_mask_def limb_width_def)
  ultimately show ?thesis by simp
qed

lemma carry_steps:
  assumes "length xs = 10" "\<And>i. i < 10 \<Longrightarrow> 0 \<le> sint (xs ! i) \<and> sint (xs ! i) + c < (c + 1) * 2 ^ limb_width i"
    and "0 \<le> c" "c \<le> 2" "n \<le> 9"
  defines "ys \<equiv> fold carry_step [0..<n] xs"
  shows "length ys = 10 \<and> (\<forall>j<n. 0 \<le> sint (ys ! j) \<and> sint (ys ! j) < 2 ^ limb_width j) \<and>
    sint (xs ! n) \<le> sint (ys ! n) \<and> sint (ys ! n) \<le> sint (xs ! n) + c \<and> (\<forall>j>n. ys ! j = xs ! j) \<and>
    sval ys = sval xs \<and> (0 < n \<longrightarrow> sint (ys ! 0) = sint (xs ! 0) mod 2 ^ 26)"
  using assms(5) unfolding ys_def
proof (induction n)
  case (Suc n)
  let ?y = "fold carry_step [0..<n] xs"
  let ?x = "sint (?y ! n)" and ?w = "2 ^ limb_width n :: int"
  have IH: "length ?y = 10" "\<forall>j<n. 0 \<le> sint (?y ! j) \<and> sint (?y ! j) < 2 ^ limb_width j"
    "sint (xs ! n) \<le> ?x" "?x \<le> sint (xs ! n) + c" "\<forall>j>n. ?y ! j = xs ! j"
    "sval ?y = sval xs" "0 < n \<longrightarrow> sint (?y ! 0) = sint (xs ! 0) mod 2 ^ 26"
    using Suc by auto
  have wide: "(c + 1) * 2 ^ limb_width i \<le> 2 ^ 27 + 2 ^ 26" for i
    using assms(3,4) limb_width_cases [of i] by auto
  have bound: "0 \<le> sint (xs ! i)" "sint (xs ! i) < (c + 1) * 2 ^ limb_width i - c" if "i < 10" for i
    using assms(2) [OF that] by auto
  have x: "0 \<le> ?x" "?x < (c + 1) * ?w" using IH(3,4) bound [of n] Suc.prems by auto
  have nxt: "?y ! (n + 1) = xs ! (n + 1)" "0 \<le> sint (xs ! (n + 1))" "sint (xs ! (n + 1)) \<le> 2 ^ 28"
    using IH(5) bound [of "n + 1"] Suc.prems wide [of "n + 1"] assms(3,4) limb_width_cases [of "n + 1"] by auto
  have mv: "moved n (?x div ?w) ?y (carry_step n ?y)"
    using IH(1) Suc.prems x nxt assms(3,4) limb_width_cases [of n] by (intro carry_step_moved) auto
  have q: "0 \<le> ?x div ?w" "?x div ?w \<le> c" "0 \<le> ?x - ?x div ?w * ?w" "?x - ?x div ?w * ?w < ?w"
    using x assms(3) limb_width_cases [of n] by (auto simp: minus_div_mult_eq_mod)
  have "sint (carry_step n ?y ! 0) = sint (xs ! 0) mod 2 ^ 26"
    using mv IH(7) by (cases "n = 0") (auto simp: moved_def limb_width_def minus_div_mult_eq_mod)
  then show ?case
    using mv q IH moved_sval [OF mv] nxt Suc.prems by (auto simp: moved_def less_Suc_eq)
qed (use assms in auto)

lemma carry_pass:
  assumes "length xs = 10" "\<And>i. i < 10 \<Longrightarrow> 0 \<le> sint (xs ! i) \<and> sint (xs ! i) + c < (c + 1) * 2 ^ limb_width i"
    and "0 \<le> c" "c \<le> 2"
  defines "ys \<equiv> carry_last (fold carry_step [0..<9] xs)"
  shows "length ys = 10 \<and> (\<forall>j. 0 < j \<longrightarrow> j < 10 \<longrightarrow> 0 \<le> sint (ys ! j) \<and> sint (ys ! j) < 2 ^ limb_width j) \<and>
    sval ys mod prime25519 = sval xs mod prime25519 \<and>
    0 \<le> sint (ys ! 0) \<and> sint (ys ! 0) \<le> sint (xs ! 0) mod 2 ^ 26 + 19 * c"
proof -
  let ?y = "fold carry_step [0..<9] xs"
  let ?q = "sint (?y ! 9) div 2 ^ 25"
  have y: "length ?y = 10" "\<And>j. j < 9 \<Longrightarrow> 0 \<le> sint (?y ! j) \<and> sint (?y ! j) < 2 ^ limb_width j"
    "sint (xs ! 9) \<le> sint (?y ! 9)" "sint (?y ! 9) \<le> sint (xs ! 9) + c" "sval ?y = sval xs"
    "sint (?y ! 0) = sint (xs ! 0) mod 2 ^ 26"
    using carry_steps [OF assms(1-4), of 9] by auto
  have nine: "0 \<le> sint (?y ! 9)" "sint (?y ! 9) < (c + 1) * 2 ^ 25"
    using y(3,4) assms(2) [of 9] by (auto simp: limb_width_def)
  have mv: "moved_around ?q ?y ys"
    unfolding ys_def using y(1,6) nine assms(3,4) pos_mod_bound [of "2 ^ 26" "sint (xs ! 0)"]
    by (intro carry_last_moved) auto
  have q: "0 \<le> ?q" "?q \<le> c" "0 \<le> sint (?y ! 9) - ?q * 2 ^ 25" "sint (?y ! 9) - ?q * 2 ^ 25 < 2 ^ 25"
    using nine assms(3) by (auto simp: minus_div_mult_eq_mod)
  have "ys ! j = ?y ! j" if "j \<noteq> 0" "j \<noteq> 9" for j using mv that by (simp add: moved_around_def)
  then have "0 \<le> sint (ys ! j) \<and> sint (ys ! j) < 2 ^ limb_width j" if "0 < j" "j < 10" for j
    using that q mv y(2) [of j] by (cases "j = 9") (auto simp: moved_around_def limb_width_def)
  then show ?thesis
    using mv q y(1,5,6) y(2) [of 0] moved_around_sval [OF mv] by (auto simp: moved_around_def)
qed

text \<open>After two passes every limb fits its width.\<close>

lemma carries:
  assumes "length xs = 10" "\<And>i. i < 10 \<Longrightarrow> 0 \<le> sint (xs ! i) \<and> sint (xs ! i) < 2 ^ 26"
  defines "zs \<equiv> fold (\<lambda>j input. carry_last (fold carry_step [0..<9] input)) [0..<2] xs"
  shows "canonical zs \<and> sval zs mod prime25519 = sval xs mod prime25519"
proof -
  let ?p = "\<lambda>xs. carry_last (fold carry_step [0..<9] xs)"
  define ys where "ys = ?p xs"
  have "0 \<le> sint (xs ! i) \<and> sint (xs ! i) + 2 < (2 + 1) * 2 ^ limb_width i" if "i < 10" for i
    using assms(2) [OF that] limb_width_cases [of i] by auto
  from carry_pass [OF assms(1) this] pos_mod_bound [of "2 ^ 26" "sint (xs ! 0)"]
  have ys: "length ys = 10" "\<And>j. 0 < j \<Longrightarrow> j < 10 \<Longrightarrow> 0 \<le> sint (ys ! j) \<and> sint (ys ! j) < 2 ^ limb_width j"
    "sval ys mod prime25519 = sval xs mod prime25519" "0 \<le> sint (ys ! 0)" "sint (ys ! 0) < 2 ^ 26 + 38"
    unfolding ys_def by auto
  have "canonical (?p ys) \<and> sval (?p ys) mod prime25519 = sval ys mod prime25519"
  proof (cases "sint (ys ! 0) < 2 ^ 26")
    case True
    then have "0 \<le> sint (ys ! i) \<and> sint (ys ! i) < 2 ^ limb_width i" if "i < 10" for i
      using ys(2) [of i] ys(4) that by (cases "i = 0") (auto simp: limb_width_def)
    then have "canonical ys" using ys(1) by (simp add: canonical_def)
    then show ?thesis by (simp add: carry_pass_id)
  next
    case False
    have "sint (ys ! 0) mod 2 ^ 26 = (sint (ys ! 0) - 2 ^ 26) mod 2 ^ 26" by simp
    also have "\<dots> = sint (ys ! 0) - 2 ^ 26" using False ys(5) by (intro mod_pos_pos_trivial) auto
    finally have wrapped: "sint (ys ! 0) mod 2 ^ 26 = sint (ys ! 0) - 2 ^ 26" .
    have "0 \<le> sint (ys ! i) \<and> sint (ys ! i) + 1 < (1 + 1) * 2 ^ limb_width i" if "i < 10" for i
      using ys(2) [of i] ys(4,5) limb_width_cases [of i] that by (cases "i = 0") (auto simp: limb_width_def)
    from carry_pass [OF ys(1) this] wrapped
    have r: "length (?p ys) = 10" "\<And>j. 0 < j \<Longrightarrow> j < 10 \<Longrightarrow> 0 \<le> sint (?p ys ! j) \<and> sint (?p ys ! j) < 2 ^ limb_width j"
      "sval (?p ys) mod prime25519 = sval ys mod prime25519" "0 \<le> sint (?p ys ! 0)" "sint (?p ys ! 0) < 2 ^ 26"
      using ys(5) by auto
    then have "0 \<le> sint (?p ys ! i) \<and> sint (?p ys ! i) < 2 ^ limb_width i" if "i < 10" for i
      using that by (cases "i = 0") (auto simp: limb_width_def)
    then show ?thesis using r(1,3) by (auto simp: canonical_def)
  qed
  moreover have "zs = ?p ys" by (simp add: zs_def ys_def numeral_2_eq_2)
  ultimately show ?thesis using ys(3) by simp
qed

section \<open>Subtraction of the prime\<close>

lemma bit_and_shifted: "bit (a AND push_bit k a) n \<longleftrightarrow> bit a n \<and> k \<le> n \<and> bit a (n - k)" for a :: s32
  by (auto simp: bit_simps dest: bit_imp_le_length)

lemma upt_0_32: "[0..<32] = [0, 1, 2, 3, 4, 5, 6, 7, 8, 9, 10, 11, 12, 13, 14, 15, 16, 17, 18, 19, 20, 21, 22, 23,
    24, 25, 26, 27, 28, 29, 30, 31 :: nat]"
  by (simp add: upt_rec)

lemma s32_eq_val: "s32_eq a b = (if a = b then - 1 else 0)"
proof -
  let ?c = "NOT (a XOR b)"
  define d where "d = (let a = ?c; a = a AND push_bit 16 a; a = a AND push_bit 8 a; a = a AND push_bit 4 a;
    a = a AND push_bit 2 a in a AND push_bit 1 a)"
  have "bit d 31 \<longleftrightarrow> list_all (bit ?c) [0..<32]"
    unfolding d_def Let_def bit_and_shifted upt_0_32 by (simp, blast)
  also have "\<dots> \<longleftrightarrow> a = b"
    by (auto simp: list_all_iff bit_simps intro!: bit_word_eqI)
  finally show ?thesis by (simp add: s32_eq_def d_def Let_def signed_drop_bit_31)
qed

lemma s32_gte_val:
  assumes "0 \<le> sint a" "0 \<le> sint b"
  shows "s32_gte a b = (if sint b \<le> sint a then - 1 else 0)"
proof -
  have "sint (a - b) = sint a - sint b"
    using assms sint_less [of a] sint_less [of b] by (intro sint_diff32) auto
  then show ?thesis by (simp add: s32_gte_def Let_def sign_mask)
qed

definition all_ones :: "s32 list \<Rightarrow> bool" where
  "all_ones xs \<longleftrightarrow> 2 ^ 26 - 19 \<le> sint (xs ! 0) \<and> (\<forall>i\<in>{1..<10}. sint (xs ! i) = 2 ^ limb_width i - 1)"

lemma sint_limb_mask: "sint (limb_mask i) = 2 ^ limb_width i - 1"
  by (simp add: limb_mask_def limb_width_def)

lemma contract_mask_val:
  assumes "canonical xs"
  shows "contract_mask xs = (if all_ones xs then - 1 else 0)"
proof -
  have "0 \<le> sint (xs ! 0)" using assms by (simp add: canonical_def)
  then have gte: "s32_gte (xs ! 0) 0x3ffffed = (if 2 ^ 26 - 19 \<le> sint (xs ! 0) then - 1 else 0)"
    by (simp add: s32_gte_val)
  have "fold (\<lambda>i m. m AND s32_eq (xs ! i) (limb_mask i)) is (if P then - 1 else 0) =
      (if P \<and> (\<forall>i\<in>set is. xs ! i = limb_mask i) then - 1 else 0)" for "is" P
  proof (induction "is" arbitrary: P)
    case (Cons a "is")
    have "(if P then - 1 else 0) AND s32_eq (xs ! a) (limb_mask a) = (if P \<and> xs ! a = limb_mask a then - 1 else 0)"
      by (simp add: s32_eq_val)
    then show ?case using Cons.IH [of "P \<and> xs ! a = limb_mask a"] by (simp add: conj_assoc)
  qed simp
  moreover have "xs ! i = limb_mask i \<longleftrightarrow> sint (xs ! i) = 2 ^ limb_width i - 1" for i
    by (simp add: s32_eq_iff sint_limb_mask)
  ultimately show ?thesis by (simp add: contract_mask_def gte all_ones_def)
qed

lemma sval_max: "ival 10 (\<lambda>i. 2 ^ limb_width i - 1) = 2 ^ 255 - 1"
  by (simp add: ival_def sum_10 off_def limb_width_def)

lemma canonical_less_prime:
  assumes "canonical xs"
  shows "0 \<le> sval xs" "sval xs < 2 ^ 255" "prime25519 \<le> sval xs \<longleftrightarrow> all_ones xs"
proof -
  define d where "d i = 2 ^ limb_width i - 1 - sint (xs ! i)" for i :: nat
  have pos: "0 \<le> d i * 2 ^ off i" if "i < 10" for i using assms that by (simp add: d_def canonical_def)
  have val: "sval xs = 2 ^ 255 - 1 - ival 10 d"
    unfolding sval_max [symmetric] by (simp add: sval_def ival_def d_def sum_subtractf [symmetric] left_diff_distrib)
  show "0 \<le> sval xs" using assms unfolding sval_def ival_def by (intro sum_nonneg) (simp add: canonical_def)
  have "0 \<le> ival 10 d" unfolding ival_def by (intro sum_nonneg pos) simp
  then show "sval xs < 2 ^ 255" by (simp add: val)
  have "ival 10 d \<le> 18 \<longleftrightarrow> d 0 \<le> 18 \<and> (\<forall>i\<in>{1..<10}. d i = 0)"
  proof
    assume small: "ival 10 d \<le> 18"
    have le: "d i * 2 ^ off i \<le> 18" if "i < 10" for i
      using small member_le_sum [of i "{..<10}" "\<lambda>i. d i * 2 ^ off i"] pos that unfolding ival_def by force
    moreover have "d i = 0" if "i \<in> {1..<10}" for i
    proof -
      have "(2 :: int) ^ 26 \<le> 2 ^ off i" using that by (intro power_increasing) (auto simp: off_def)
      moreover have "0 \<le> d i" using pos [of i] that by (simp add: zero_le_mult_iff)
      moreover have "d i * 2 ^ 26 \<le> d i * 2 ^ off i" using calculation by (intro mult_left_mono)
      ultimately show ?thesis using le [of i] that by auto
    qed
    ultimately show "d 0 \<le> 18 \<and> (\<forall>i\<in>{1..<10}. d i = 0)" using le [of 0] by (simp add: off_def)
  next
    assume "d 0 \<le> 18 \<and> (\<forall>i\<in>{1..<10}. d i = 0)"
    then show "ival 10 d \<le> 18" by (simp add: ival_def sum_10 off_def)
  qed
  then show "prime25519 \<le> sval xs \<longleftrightarrow> all_ones xs"
    by (auto simp: val prime25519_def all_ones_def d_def limb_width_def)
qed

lemma contract_subtract_val:
  assumes "canonical xs"
  shows "canonical (contract_subtract (contract_mask xs) xs) \<and>
    sval (contract_subtract (contract_mask xs) xs) = sval xs mod prime25519"
proof (cases "all_ones xs")
  case False
  then have "contract_subtract (contract_mask xs) xs = fold (\<lambda>i xs. xs) [1..<10] xs"
    by (simp add: contract_mask_val [OF assms] contract_subtract_def cong: fold_cong)
  moreover have "fold (\<lambda>i xs. xs) is xs = xs" for "is" :: "nat list" by (induction "is") auto
  ultimately have "contract_subtract (contract_mask xs) xs = xs" by simp
  then show ?thesis using False assms canonical_less_prime [OF assms] by simp
next
  case True
  let ?x = "xs[0 := xs ! 0 - 0x3ffffed]" and ?z = "contract_subtract (contract_mask xs) xs"
  have len: "length xs = 10" using assms by (simp add: canonical_def)
  have "?z = fold (\<lambda>i ys. ys[i := ys ! i - limb_mask i]) [1..<10] ?x"
    using True by (simp add: contract_mask_val [OF assms] contract_subtract_def)
  then have z: "length ?z = 10 \<and> (\<forall>j<10. ?z ! j = (if j \<in> set [1..<10] then ?x ! j - limb_mask j else ?x ! j))"
    using fold_pointwise [of "[1..<10]" ?x "\<lambda>i ys. ys[i := ys ! i - limb_mask i]" "\<lambda>i x. x - limb_mask i"] len by simp
  have ones: "sint (xs ! i) = 2 ^ limb_width i - 1" "xs ! i = limb_mask i" if "i \<in> {1..<10}" for i
    using True that by (auto simp: all_ones_def s32_eq_iff sint_limb_mask)
  have x0: "2 ^ 26 - 19 \<le> sint (xs ! 0)" "sint (xs ! 0) < 2 ^ 26"
    using True assms by (auto simp: all_ones_def canonical_def limb_width_def [of 0] dest: spec [of _ 0])
  then have "sint (xs ! 0 - 0x3ffffed) = sint (xs ! 0) - (2 ^ 26 - 19)"
    by (subst sint_diff32) auto
  then have at: "sint (?z ! j) = (if j = 0 then sint (xs ! 0) - (2 ^ 26 - 19) else 0)" if "j < 10" for j
    using z that ones(2) [of j] len by (auto simp: nth_update)
  have "sval ?z = sint (xs ! 0) - (2 ^ 26 - 19)" by (simp add: sval_def ival_def sum_10 at off_def)
  also have "\<dots> = sval xs - prime25519"
    using ones(1) by (simp add: sval_def ival_def sum_10 off_def limb_width_def prime25519_def)
  also have "\<dots> = (sval xs - prime25519) mod prime25519"
    using canonical_less_prime [OF assms] True by (intro mod_pos_pos_trivial [symmetric]) (auto simp: prime25519_def)
  finally have "sval ?z = sval xs mod prime25519" by simp
  moreover have "canonical ?z" using conjunct1 [OF z] x0 by (auto simp: canonical_def at limb_width_def [of 0])
  ultimately show ?thesis by simp
qed

section \<open>The bytes\<close>

lemma four_byte_word:
  "le_int [ucast (x AND 0xff), ucast (signed_drop_bit 8 x AND 0xff), ucast (signed_drop_bit 16 x AND 0xff),
     ucast (signed_drop_bit 24 x AND 0xff)] = uint (x :: s32)"
proof (rule bit_eqI)
  fix n :: nat
  have ff: "(0xff :: s32) = Bit_Operations.mask 8" by (simp add: mask_eq_exp_minus_1)
  have at: "n div 8 = k \<and> n mod 8 = n - 8 * k" if le: "8 * k \<le> n" and lt: "n < 8 * k + 8" for k
  proof -
    obtain r where "n = 8 * k + r" using le_Suc_ex [OF le] by blast
    then show ?thesis using lt by simp
  qed
  consider "n < 8" | "8 \<le> n" "n < 16" | "16 \<le> n" "n < 24" | "24 \<le> n" "n < 32" | "32 \<le> n" by linarith
  then show "bit (le_int [ucast (x AND 0xff), ucast (signed_drop_bit 8 x AND 0xff), ucast (signed_drop_bit 16 x AND 0xff),
     ucast (signed_drop_bit 24 x AND 0xff)]) n \<longleftrightarrow> bit (uint x) n"
  proof cases
    case 1
    then show ?thesis using at [of 0] unfolding ff by (simp add: bit_simps bit_le_int)
  next
    case 2
    then show ?thesis using at [of 1] unfolding ff by (auto simp: bit_simps bit_le_int)
  next
    case 3
    then show ?thesis using at [of 2] unfolding ff by (auto simp: bit_simps bit_le_int)
  next
    case 4
    then show ?thesis using at [of 3] unfolding ff by (auto simp: bit_simps bit_le_int numeral_3_eq_3)
  next
    case 5
    then have "4 \<le> n div 8" by simp
    then show ?thesis using 5 unfolding ff by (auto simp: bit_simps bit_le_int dest: bit_imp_le_length)
  qed
qed

lemma contract_limb_nth:
  assumes "s + 3 < length out"
  shows "length (contract_limb x s out) = length out"
    and "take s (contract_limb x s out) = take s out"
    and "take (s + 4) (contract_limb x s out) = take s out @ [out ! s OR ucast (x AND 0xff), ucast (signed_drop_bit 8 x AND 0xff),
      ucast (signed_drop_bit 16 x AND 0xff), ucast (signed_drop_bit 24 x AND 0xff)]"
    and "\<And>j. s + 4 \<le> j \<Longrightarrow> contract_limb x s out ! j = out ! j"
proof -
  show len: "length (contract_limb x s out) = length out" by (simp add: contract_limb_def Let_def)
  show same: "take s (contract_limb x s out) = take s out" by (simp add: contract_limb_def Let_def)
  have "take (s + 4) ys = take s ys @ [ys ! s, ys ! (s + 1), ys ! (s + 2), ys ! (s + 3)]" if "s + 3 < length ys" for ys :: bytes
    using that by (simp add: numeral_eq_Suc take_Suc_conv_app_nth)
  from this [of "contract_limb x s out"] show "take (s + 4) (contract_limb x s out) = take s out @
      [out ! s OR ucast (x AND 0xff), ucast (signed_drop_bit 8 x AND 0xff),
       ucast (signed_drop_bit 16 x AND 0xff), ucast (signed_drop_bit 24 x AND 0xff)]"
    using assms len same by (simp add: contract_limb_def Let_def nth_update)
  show "\<And>j. s + 4 \<le> j \<Longrightarrow> contract_limb x s out ! j = out ! j"
    by (simp add: contract_limb_def Let_def nth_update)
qed

text \<open>
  A limb \<open>y\<close> whose lowest bit is bit \<open>t\<close> of byte \<open>s\<close> is added to the number in the bytes up to there.
\<close>

lemma contract_limb_val:
  assumes "s + 3 < length out" "le_int (take (s + 1) out) = S" "S < 2 ^ (8 * s + t)" "t < 8"
    and "0 \<le> sint y" "sint y * 2 ^ t < 2 ^ 32"
  shows "le_int (take (s + 4) (contract_limb (push_bit t y) s out)) = S + sint y * 2 ^ (8 * s + t)"
proof -
  let ?x = "push_bit t y"
  have split: "S = le_int (take s out) + 2 ^ (8 * s) * uint (out ! s)"
    using assms(1,2) by (simp add: take_Suc_conv_app_nth le_int_append le_int_Cons)
  then have "2 ^ (8 * s) * uint (out ! s) < 2 ^ (8 * s) * 2 ^ t"
    using assms(3) le_int_bounds(1) [of "take s out"] unfolding power_add by linarith
  then have high: "uint (out ! s) < 2 ^ t" by simp
  have low: "\<not> bit (out ! s) n" if "t \<le> n" for n
  proof -
    have "take_bit t (uint (out ! s)) = uint (out ! s)" using high by (simp add: take_bit_int_eq_self)
    then have "\<not> bit (uint (out ! s)) n" using that by (metis bit_take_bit_iff not_le)
    then show ?thesis by (auto simp: bit_simps dest: bit_imp_le_length)
  qed
  have "uint (out ! s) AND uint (ucast (?x AND 0xff) :: u8) = 0"
  proof (rule bit_eqI)
    show "bit (uint (out ! s) AND uint (ucast (?x AND 0xff) :: u8)) n \<longleftrightarrow> bit 0 n" for n
      by (cases "t \<le> n") (simp_all add: low bit_simps)
  qed
  then have or: "uint (out ! s OR ucast (?x AND 0xff)) = uint (out ! s) + uint (ucast (?x AND 0xff) :: u8)"
    by (simp add: unsigned_or_eq disjunctive_add_eq_or)
  have shifted: "?x = of_int (sint y * 2 ^ t)" by (simp add: push_bit_eq_mult)
  have x: "uint ?x = sint y * 2 ^ t"
    unfolding shifted using assms(5,6) by (subst uint_word_of_int_eq) (simp add: take_bit_int_eq_self)
  have "le_int [out ! s OR ucast (?x AND 0xff), ucast (signed_drop_bit 8 ?x AND 0xff), ucast (signed_drop_bit 16 ?x AND 0xff),
      ucast (signed_drop_bit 24 ?x AND 0xff)] = uint (out ! s) + sint y * 2 ^ t"
    using four_byte_word [of ?x] by (simp only: le_int_Cons or x add.assoc)
  then show ?thesis
    using assms(1) by (simp only: contract_limb_nth(3) [OF assms(1)] le_int_append split)
      (simp add: power_add algebra_simps)
qed

text \<open>The limbs below \<open>i\<close>.\<close>

lemma ival_canonical_less:
  assumes "canonical xs" "i \<le> 10"
  shows "0 \<le> ival i (\<lambda>j. sint (xs ! j)) \<and> ival i (\<lambda>j. sint (xs ! j)) < 2 ^ off i"
  using assms(2)
proof (induction i)
  case (Suc i)
  have "0 \<le> sint (xs ! i) \<and> sint (xs ! i) < 2 ^ limb_width i" using assms(1) Suc.prems by (simp add: canonical_def)
  then have x: "0 \<le> sint (xs ! i)" "sint (xs ! i) + 1 \<le> 2 ^ limb_width i" by auto
  have "sint (xs ! i) * 2 ^ off i + 2 ^ off i \<le> 2 ^ off (Suc i)"
    using mult_right_mono [OF x(2), of "2 ^ off i"] by (simp add: off_Suc power_add algebra_simps)
  moreover have "0 \<le> sint (xs ! i) * 2 ^ off i" using x(1) by simp
  ultimately show ?case using Suc by (simp add: ival_def)
qed (simp add: ival_def off_def)

text \<open>Where a limb goes: its first byte, and the bit of that byte.\<close>

lemma write_limb:
  assumes "canonical xs" "i < 10" "s + 3 < length out" "off i = 8 * s + t" "t < 8" "t + limb_width i \<le> 32"
    and "le_int (take (s + 1) out) = ival i (\<lambda>j. sint (xs ! j))"
  shows "le_int (take (s + 4) (contract_limb (push_bit t (xs ! i)) s out)) = ival (Suc i) (\<lambda>j. sint (xs ! j))"
proof -
  have x: "0 \<le> sint (xs ! i)" "sint (xs ! i) < 2 ^ limb_width i" using assms(1,2) by (auto simp: canonical_def)
  have "sint (xs ! i) * 2 ^ t < 2 ^ limb_width i * 2 ^ t" using x(2) by simp
  also have "\<dots> \<le> 2 ^ 32"
    using power_increasing [OF assms(6), of "2 :: int"] by (simp add: power_add mult.commute)
  finally have "le_int (take (s + 4) (contract_limb (push_bit t (xs ! i)) s out)) =
      ival i (\<lambda>j. sint (xs ! j)) + sint (xs ! i) * 2 ^ (8 * s + t)"
    using ival_canonical_less [OF assms(1), of i] assms x(1) by (intro contract_limb_val) auto
  then show ?thesis by (simp add: ival_def assms(4) [symmetric])
qed

definition written :: "s32 list \<Rightarrow> nat \<Rightarrow> nat \<Rightarrow> bytes \<Rightarrow> bool" where
  "written xs i s out \<longleftrightarrow> length out = 32 \<and> le_int (take (s + 1) out) = ival i (\<lambda>j. sint (xs ! j))"

lemma written_next:
  assumes "canonical xs" "written xs i s out" "i < 10" "s < 29" "off i = 8 * s + t" "t < 8" "t + limb_width i \<le> 32"
  shows "written xs (Suc i) (s + 3) (contract_limb (push_bit t (xs ! i)) s out)"
  using write_limb [OF assms(1,3) _ assms(5-7), of out] assms(2,4) contract_limb_nth(1) [of s out]
  by (simp add: written_def add.commute)

lemma contract_bytes_val:
  assumes "canonical xs" "length out = 32"
  shows "length (contract_bytes xs out) = 32 \<and> le_int (contract_bytes xs out) = sval xs"
proof -
  note next_limb = written_next [OF assms(1)]
  define b0 where "b0 = out[0 := 0, 16 := 0]"
  define b1 where "b1 = contract_limb (push_bit 0 (xs ! 0)) 0 b0"
  define b2 where "b2 = contract_limb (push_bit 2 (xs ! 1)) 3 b1"
  define b3 where "b3 = contract_limb (push_bit 3 (xs ! 2)) 6 b2"
  define b4 where "b4 = contract_limb (push_bit 5 (xs ! 3)) 9 b3"
  define b5 where "b5 = contract_limb (push_bit 6 (xs ! 4)) 12 b4"
  define b6 where "b6 = contract_limb (push_bit 0 (xs ! 5)) 16 b5"
  define b7 where "b7 = contract_limb (push_bit 1 (xs ! 6)) 19 b6"
  define b8 where "b8 = contract_limb (push_bit 3 (xs ! 7)) 22 b7"
  define b9 where "b9 = contract_limb (push_bit 4 (xs ! 8)) 25 b8"
  define b10 where "b10 = contract_limb (push_bit 6 (xs ! 9)) 28 b9"
  note defs = b0_def b1_def b2_def b3_def b4_def b5_def b6_def b7_def b8_def b9_def b10_def
  have "take 1 b0 = [0]" using assms(2) by (cases out) (auto simp: b0_def)
  then have w0: "written xs 0 0 b0" using assms(2) by (simp add: written_def ival_def le_int_Cons b0_def)
  have w1: "written xs 1 3 b1" using next_limb [OF w0, of 0] by (simp add: b1_def off_def limb_width_def)
  have w2: "written xs 2 6 b2" using next_limb [OF w1, of 2] by (simp add: b2_def off_def limb_width_def flip: numeral_2_eq_2)
  have w3: "written xs 3 9 b3" using next_limb [OF w2, of 3] by (simp add: b3_def off_def limb_width_def)
  have w4: "written xs 4 12 b4" using next_limb [OF w3, of 5] by (simp add: b4_def off_def limb_width_def)
  have w5: "written xs 5 15 b5" using next_limb [OF w4, of 6] by (simp add: b5_def off_def limb_width_def)
  have "b5 ! 16 = 0" using assms(2) by (simp add: b5_def b4_def b3_def b2_def b1_def b0_def contract_limb_def Let_def nth_update)
  then have w5: "written xs 5 16 b5"
    using w5 take_Suc_conv_app_nth [of 16 b5] by (simp add: written_def le_int_append le_int_Cons)
  have w6: "written xs 6 19 b6" using next_limb [OF w5, of 0] by (simp add: b6_def off_def limb_width_def)
  have w7: "written xs 7 22 b7" using next_limb [OF w6, of 1] by (simp add: b7_def off_def limb_width_def)
  have w8: "written xs 8 25 b8" using next_limb [OF w7, of 3] by (simp add: b8_def off_def limb_width_def)
  have w9: "written xs 9 28 b9" using next_limb [OF w8, of 4] by (simp add: b9_def off_def limb_width_def)
  have "written xs 10 31 b10" using next_limb [OF w9, of 6] by (simp add: b10_def off_def limb_width_def)
  moreover have "contract_bytes xs out = b10" by (simp add: contract_bytes_def Let_def defs)
  ultimately show ?thesis by (auto simp: written_def sval_def)
qed

section \<open>The whole function\<close>

lemma fcontract_val:
  assumes "reduced xs a" "length out = 32"
  shows "length (fcontract out xs) = 32 \<and> le_int (fcontract out xs) = a mod prime25519"
proof -
  define i0 where "i0 = map (\<lambda>i. to_s32 (xs ! i)) [0..<10]"
  define i1 where "i1 = borrow_step 0 (fold (\<lambda>j input. borrow_last (fold borrow_step [0..<9] input)) [0..<2] i0)"
  define i2 where "i2 = fold (\<lambda>j input. carry_last (fold carry_step [0..<9] input)) [0..<2] i1"
  have x: "\<bar>sint (xs ! i)\<bar> < 2 ^ 26" if "i < 10" for i using assms(1) that by (simp add: reduced_def limbs_ok_def)
  have at: "sint (i0 ! i) = sint (xs ! i)" if "i < 10" for i
    using x [OF that] that by (simp add: i0_def sint_to_s32)
  have "length i1 = 10 \<and> (\<forall>i<10. 0 \<le> sint (i1 ! i) \<and> sint (i1 ! i) < 2 ^ 26) \<and> sval i1 mod prime25519 = sval i0 mod prime25519"
    unfolding i1_def using x by (intro borrows) (simp_all add: i0_def [THEN arg_cong, of length] at)
  then have i2: "canonical i2" "sval i2 mod prime25519 = sval i0 mod prime25519"
    using carries [of i1] unfolding i2_def by auto
  have "sval i0 = limbs_val xs" unfolding sval_def limbs_val_def ival_def by (rule sum.cong) (simp_all add: at)
  then have "sval i2 mod prime25519 = a mod prime25519" using assms(1) i2(2) by (simp add: reduced_def)
  moreover have "fcontract out xs = contract_bytes (contract_subtract (contract_mask i2) i2) out"
    by (simp add: fcontract_def Let_def i0_def i1_def i2_def)
  ultimately show ?thesis
    using contract_subtract_val [OF i2(1)] contract_bytes_val [OF _ assms(2)] by simp
qed

lemma donna_value:
  assumes "length secret = 32" "length basepoint = 32" "length mypublic = 32"
  shows "length (curve25519_donna mypublic secret basepoint) = 32 \<and>
    le_int (curve25519_donna mypublic secret basepoint) = x25519 (clamped (le_int secret)) (le_int basepoint mod 2 ^ 255)"
proof -
  let ?u = "le_int basepoint mod 2 ^ 255" and ?e = "clamp_scalar secret"
  obtain x z where xz: "cmult ?e (fexpand basepoint) = (x, z)" by fastforce
  obtain X Z where XZ: "fst (ladder (le_int ?e) ?u) = (X, Z)" by fastforce
  have e: "length ?e = 32" "le_int ?e = clamped (le_int secret)" using clamp_scalar_val [OF assms(1)] by auto
  have "reduced x X" "reduced z Z"
    using cmult_reduced [OF e(1) fexpand_reduced [OF assms(2)] xz] XZ by simp_all
  then have "reduced (fmul x (crecip z)) (X * Z ^ nat (prime25519 - 2))"
    by (intro fmul_reduced reduced_loose crecip_reduced)
  from fcontract_val [OF this assms(3)] show ?thesis
    using XZ assms(1) by (simp add: curve25519_donna_def Let_def xz x25519_def e(2))
qed

text \<open>C9: For a secret and a base point of 32 bytes curve25519_donna writes the 32 bytes, least
  significant first, of the scalar multiple that the secret, made a multiple of 8 between 2 ^ 254 and
  2 ^ 255, gives of the point, whose top bit is ignored: the function X25519 on the Montgomery curve
  y^2 = x^3 + 486662 x^2 + x modulo 2 ^ 255 - 19.\<close>

theorem donna_computes_x25519:
  assumes "length secret = 32" "length basepoint = 32" "length mypublic = 32"
  shows "length (curve25519_donna mypublic secret basepoint) = 32 \<and>
    le_int (curve25519_donna mypublic secret basepoint) = x25519 (clamped (le_int secret)) (le_int basepoint mod 2 ^ 255)"
  using donna_value [OF assms] .

lemma donna_computes_x25519_witness:
  "length (curve25519_donna (replicate 32 0) (replicate 32 7) (9 # replicate 31 0)) = 32 \<and>
    le_int (curve25519_donna (replicate 32 0) (replicate 32 7) (9 # replicate 31 0)) =
      x25519 (clamped (le_int (replicate 32 7))) (le_int (9 # replicate 31 0) mod 2 ^ 255)"
  by (rule donna_computes_x25519) simp_all

end
