(* ===== verification/CurveKeys.thy ===== *)
theory CurveKeys
  imports Crypto DonnaContract
begin

text \<open>
  The key agreement of the library, \<open>src/crypto.cpp\<close>, with the primitive it calls filled in: the
  model of \<open>lib/curve25519-donna\<close>, which needs no hypothesis.
\<close>

text \<open>The output array may hold anything; its bytes are all written.\<close>

lemma donna_output_irrelevant:
  assumes "length secret = 32" "length basepoint = 32" "length out1 = 32" "length out2 = 32"
  shows "Donna.curve25519_donna out1 secret basepoint = Donna.curve25519_donna out2 secret basepoint"
proof -
  have "length (Donna.curve25519_donna out secret basepoint) = 32 \<and>
    le_int (Donna.curve25519_donna out secret basepoint) = x25519 (clamped (le_int secret)) (le_int basepoint mod 2 ^ 255)"
    if "length out = 32" for out
    using donna_value [OF assms(1,2) that] .
  then show ?thesis using assms(3,4) by (intro le_int_inject) simp_all
qed

definition with_donna :: "crypto_prims \<Rightarrow> crypto_prims" where
  "with_donna P = P\<lparr>crypto_prims.curve25519_donna := Donna.curve25519_donna (replicate 32 0)\<rparr>"

lemma le_int_zeros [simp]: "le_int (replicate n 0) = 0"
  by (induction n) (simp_all add: le_int_Cons)

lemma le_int_basepoint: "le_int CURVE25519_BASEPOINT = 9" "length CURVE25519_BASEPOINT = 32"
  by (simp_all add: CURVE25519_BASEPOINT_def le_int_Cons)

text \<open>C11: The key pairs that the library generates and the secrets it derives from them are those of
  X25519: the public key of 32 random bytes is the multiple of the base point 9, and the secret
  shared with any key of 32 bytes is the multiple of that key, whose top bit is ignored.\<close>

theorem shared_secrets_are_x25519:
  assumes "32 \<le> length random" "length their_key = 32"
  shows "let pair = olm_crypto_curve25519_generate_key (with_donna P) random;
             k = clamped (le_int (take 32 random));
             secret = olm_crypto_curve25519_shared_secret (with_donna P) pair their_key
    in curve_private pair = take 32 random \<and>
       length (curve_public pair) = 32 \<and> le_int (curve_public pair) = x25519 k 9 \<and>
       length secret = 32 \<and> le_int secret = x25519 k (le_int their_key mod 2 ^ 255)"
  using donna_value [of "take 32 random" CURVE25519_BASEPOINT "replicate 32 0"]
    donna_value [of "take 32 random" their_key "replicate 32 0"] assms
  by (simp add: olm_crypto_curve25519_generate_key_def olm_crypto_curve25519_shared_secret_def with_donna_def
      le_int_basepoint Let_def)

section \<open>What the agreement of two parties rests on\<close>

lemma length_contract_limb: "length (contract_limb x s out) = length out"
  by (simp add: contract_limb_def Let_def)

lemma length_fcontract: "length (fcontract out xs) = length out"
  by (simp only: fcontract_def contract_bytes_def Let_def length_contract_limb length_list_update)

lemma length_donna: "length (Donna.curve25519_donna out secret point) = length out"
  by (simp only: curve25519_donna_def Let_def case_prod_beta length_fcontract)

lemma le_int_digits: "le_int (map (\<lambda>i. word_of_int (drop_bit (8 * i) a)) [0..<n]) = take_bit (8 * n) a"
proof (induction n)
  case (Suc n)
  have "take_bit (8 * n + 8) a = take_bit (8 * n) a + 2 ^ (8 * n) * take_bit 8 (drop_bit (8 * n) a)"
    by (simp add: take_bit_eq_mod drop_bit_eq_div power_add zmod_zmult2_eq)
  moreover have "uint (word_of_int (drop_bit (8 * n) a) :: u8) = take_bit 8 (drop_bit (8 * n) a)"
    using uint_word_of_int_eq [of "drop_bit (8 * n) a", where 'a = 8] by simp
  ultimately show ?case using Suc by (simp add: le_int_append le_int_Cons add.commute [of 8])
qed simp

lemma clamped_mod: "clamped (k mod 2 ^ 256) = clamped k"
proof -
  have "(2 :: int) ^ 254 dvd 2 ^ 256" "(8 :: int) dvd 2 ^ 256" by (simp_all add: le_imp_power_dvd)
  then show ?thesis by (simp only: clamped_def mod_mod_cancel)
qed

lemma x25519_range: "x25519 k u mod 2 ^ 255 = x25519 k u"
proof -
  have "0 < prime25519" "prime25519 < 2 ^ 255" by (simp_all add: prime25519_def)
  then have "0 \<le> w mod prime25519" "w mod prime25519 < 2 ^ 255" for w
    using pos_mod_bound [of prime25519 w] pos_mod_sign [of prime25519 w] by linarith+
  then show ?thesis unfolding x25519_def case_prod_beta Let_def by (intro mod_pos_pos_trivial)
qed

text \<open>C10: The hypothesis on the Diffie-Hellman function under which the properties of the protocols are
  proved says, of the function the library calls, that scalar multiplication on the curve commutes:
  everything else it asks for holds of the code.\<close>

theorem agreement_is_commutation:
  "dh_law (with_donna P) \<longleftrightarrow>
    (\<forall>j k. x25519 (clamped j) (x25519 (clamped k) 9) = x25519 (clamped k) (x25519 (clamped j) 9))"
proof
  let ?f = "Donna.curve25519_donna (replicate 32 0)"
  have base: "length (?f a CURVE25519_BASEPOINT) = 32 \<and> le_int (?f a CURVE25519_BASEPOINT) = x25519 (clamped (le_int a)) 9"
    if "length a = 32" for a
    using donna_value [OF that le_int_basepoint(2), of "replicate 32 0"] by (simp add: le_int_basepoint)
  have both: "length (?f a (?f b CURVE25519_BASEPOINT)) = 32 \<and>
      le_int (?f a (?f b CURVE25519_BASEPOINT)) = x25519 (clamped (le_int a)) (x25519 (clamped (le_int b)) 9)"
    if "length a = 32" "length b = 32" for a b
    using donna_value [of a "?f b CURVE25519_BASEPOINT" "replicate 32 0"] that base [of b]
      x25519_range [of "clamped (le_int b)" 9] by simp
  {
    assume law: "dh_law (with_donna P)"
    show "\<forall>j k. x25519 (clamped j) (x25519 (clamped k) 9) = x25519 (clamped k) (x25519 (clamped j) 9)"
    proof (intro allI)
      fix j k
      let ?d = "\<lambda>a. map (\<lambda>i. word_of_int (drop_bit (8 * i) a)) [0..<32] :: bytes"
      have d: "clamped (le_int (?d a)) = clamped a" "length (?d a) = 32" for a
        using clamped_mod [of a] by (simp_all add: le_int_digits take_bit_eq_mod)
      have "?f (?d j) (?f (?d k) CURVE25519_BASEPOINT) = ?f (?d k) (?f (?d j) CURVE25519_BASEPOINT)"
        using law d(2) by (simp add: dh_law_def with_donna_def)
      then show "x25519 (clamped j) (x25519 (clamped k) 9) = x25519 (clamped k) (x25519 (clamped j) 9)"
        using both [OF d(2) d(2), of j k] both [OF d(2) d(2), of k j] by (simp only: d(1))
    qed
  next
    assume "\<forall>j k. x25519 (clamped j) (x25519 (clamped k) 9) = x25519 (clamped k) (x25519 (clamped j) 9)"
    then show "dh_law (with_donna P)"
      unfolding dh_law_def with_donna_def using both
      by (auto simp: length_donna both intro!: le_int_inject)
  }
qed

section \<open>A key of small order\<close>

lemma point_add_0: "snd (point_add 0 P Q) = 0"
  by (simp add: point_add_def split: prod.split)

lemma ladder_0:
  assumes "snd Q = 0" "snd R = 0 \<or> is \<noteq> []" "snd R = 0 \<or> fst R = 0"
  shows "snd (fst (fold (\<lambda>i. ladder_step 0 (f i)) is (Q, R))) = 0"
  using assms
proof (induction "is" arbitrary: Q R)
  case (Cons i "is")
  have "snd (fst (ladder_step 0 (f i) (Q, R))) = 0" "snd (snd (ladder_step 0 (f i) (Q, R))) = 0"
    using Cons.prems(1,3) by (auto simp: ladder_step_def point_add_0 point_double_def split: prod.splits)
  then show ?case
    using Cons.IH [of "fst (ladder_step 0 (f i) (Q, R))" "snd (ladder_step 0 (f i) (Q, R))"] by simp
qed simp

lemma x25519_0: "x25519 k 0 = 0"
proof -
  have zero: "snd (fst (ladder k 0)) = 0"
    unfolding ladder_def by (rule ladder_0) simp_all
  have pow: "(0 :: int) ^ nat (prime25519 - 2) = 0" by (rule zero_power) (simp add: prime25519_def)
  show ?thesis unfolding x25519_def case_prod_beta Let_def zero pow by simp
qed

text \<open>The library does not reject a public key of small order: with the key of 32 zero bytes the
  shared secret is 32 zero bytes, whatever the private key.\<close>

theorem zero_key_gives_zero_secret:
  assumes "length (curve_private pair) = 32"
  shows "olm_crypto_curve25519_shared_secret (with_donna P) pair (replicate 32 0) = replicate 32 0"
  using donna_value [OF assms, of "replicate 32 0" "replicate 32 0"]
  by (intro le_int_inject) (simp_all add: olm_crypto_curve25519_shared_secret_def with_donna_def x25519_0)

section \<open>Witnesses\<close>

lemma shared_secrets_are_x25519_witness:
  "\<forall>P. let pair = olm_crypto_curve25519_generate_key (with_donna P) (replicate 32 7);
       k = clamped (le_int (take 32 (replicate 32 7)));
       secret = olm_crypto_curve25519_shared_secret (with_donna P) pair (replicate 32 9)
   in curve_private pair = take 32 (replicate 32 7) \<and>
      length (curve_public pair) = 32 \<and> le_int (curve_public pair) = x25519 k 9 \<and>
      length secret = 32 \<and> le_int secret = x25519 k (le_int (replicate 32 9) mod 2 ^ 255)"
  by (rule allI, rule shared_secrets_are_x25519) simp_all

lemma zero_key_gives_zero_secret_witness:
  "\<forall>P. olm_crypto_curve25519_shared_secret (with_donna P) \<lparr>curve_public = [], curve_private = replicate 32 7\<rparr> (replicate 32 0) =
    replicate 32 0"
  by (rule allI, rule zero_key_gives_zero_secret) simp

end
