(* ===== verification/Prime25519.thy ===== *)
theory Prime25519
  imports Main
begin

text \<open>
  The number \<open>2 ^ 255 - 19\<close> is prime, and 2 is no square modulo it.  Pocklington's criterion reduces
  the primality of a number to the one of large factors of its predecessor; the powers it asks for are
  computed by the simplifier along chains of squarings, with the quotients of the reductions given.
\<close>

section \<open>Primes\<close>

definition is_prime :: "nat \<Rightarrow> bool" where
  "is_prime n \<longleftrightarrow> 1 < n \<and> (\<forall>d. d dvd n \<longrightarrow> d = 1 \<or> d = n)"

lemma is_primeD: "is_prime n \<Longrightarrow> d dvd n \<Longrightarrow> d = 1 \<or> d = n"
  by (simp add: is_prime_def)

lemma prime_dvd_prime: "is_prime p \<Longrightarrow> is_prime q \<Longrightarrow> p dvd q \<Longrightarrow> p = q"
  by (auto simp: is_prime_def)

lemma prime_coprime: "is_prime p \<Longrightarrow> \<not> p dvd n \<Longrightarrow> coprime p n"
  unfolding coprime_def by (metis is_primeD dvd_trans nat_dvd_1_iff_1)

lemma prime_dvd_mult: "is_prime p \<Longrightarrow> p dvd m * n \<longleftrightarrow> p dvd m \<or> p dvd n"
  by (cases "p dvd m") (simp_all add: coprime_dvd_mult_right_iff prime_coprime)

lemma prime_dvd_power: "is_prime p \<Longrightarrow> p dvd m ^ k \<Longrightarrow> p dvd m"
  by (induction k) (auto simp: prime_dvd_mult is_prime_def)

lemma prime_divisor: "1 < n \<Longrightarrow> \<exists>p. is_prime p \<and> p dvd n"
proof (induction n rule: less_induct)
  case (less n)
  show ?case
  proof (cases "is_prime n")
    case False
    then obtain d where d: "d dvd n" "d \<noteq> 1" "d \<noteq> n" using less.prems by (auto simp: is_prime_def)
    then have "d < n" "1 < d"
      using less.prems dvd_imp_le [of d n] by (auto simp: le_less intro: gr0I)
    then show ?thesis using less.IH d(1) dvd_trans by blast
  qed auto
qed

lemma composite_divisor:
  assumes "1 < n" "\<not> is_prime n"
  shows "\<exists>p. is_prime p \<and> p dvd n \<and> p * p \<le> n"
proof -
  obtain d where d: "d dvd n" "d \<noteq> 1" "d \<noteq> n" using assms by (auto simp: is_prime_def)
  then obtain e where e: "n = d * e" by (auto elim: dvdE)
  have "d \<noteq> 0" "e \<noteq> 0" "e \<noteq> 1" using d e assms(1) by (auto intro: gr0I)
  then have one: "1 < d" "1 < e" using d(2) by simp_all
  have small: "\<exists>p. is_prime p \<and> p dvd n \<and> p * p \<le> n" if "n = a * b" "1 < a" "a \<le> b" for a b
  proof -
    have n: "n = a * b" and ab: "1 < a" "a \<le> b" using that by auto
    obtain p where p: "is_prime p" "p dvd a" using prime_divisor ab(1) by blast
    then have "p \<le> a" using ab(1) by (auto intro: dvd_imp_le)
    then have "p * p \<le> a * b" using ab(2) by (intro mult_le_mono) auto
    then show ?thesis using p n by auto
  qed
  show ?thesis
  proof (cases "d \<le> e")
    case False
    moreover have "n = e * d" using e by (simp only: mult.commute)
    ultimately show ?thesis using one by (intro small [of e d]) auto
  qed (rule small [OF e one(1)])
qed

text \<open>Small primes by trial division.\<close>

lemma is_prime_trial:
  assumes "1 < n" "n < k * k" "list_all (\<lambda>d. n mod d \<noteq> 0) [2..<k]"
  shows "is_prime n"
proof (rule ccontr)
  assume "\<not> is_prime n"
  then obtain p where p: "is_prime p" "p dvd n" "p * p \<le> n" using composite_divisor assms(1) by blast
  then have "p < k" using assms(2) by (metis mult_le_mono not_less order_less_le_trans)
  moreover have "2 \<le> p" using p(1) by (simp add: is_prime_def)
  ultimately have "n mod p \<noteq> 0" using assms(3) by (simp add: list_all_iff)
  then show False using p(2) by (simp add: dvd_eq_mod_eq_0)
qed

section \<open>Pocklington's criterion\<close>

lemma power_mod_mult: "b ^ m mod P = 1 \<Longrightarrow> b ^ (m * k) mod P = (1 :: nat)"
proof (induction k)
  case 0
  have "P \<noteq> 1" using 0 by auto
  then show ?case by (cases P) auto
next
  case (Suc k)
  have "b ^ (m * Suc k) mod P = (b ^ m mod P) * (b ^ (m * k) mod P) mod P"
    by (simp add: power_add mod_mult_eq)
  also have "\<dots> = 1 mod P" using Suc by simp
  finally show ?case using Suc.prems by (metis mod_mod_trivial)
qed

lemma order_divides:
  assumes "b ^ F mod P = 1" "b ^ k mod P = (1 :: nat)" "0 < k"
  shows "b ^ gcd k F mod P = 1"
proof -
  obtain x y where xy: "k * x = F * y + gcd k F" using bezout_nat [of k F] assms(3) by auto
  have "b ^ (k * x) mod P = 1" "b ^ (F * y) mod P = 1" using power_mod_mult assms by blast+
  then show ?thesis unfolding xy power_add by (metis mod_mult_left_eq mult_1)
qed

lemma pocklington:
  assumes N: "1 < N" "N < (F + 1) * (F + 1)" and F: "0 < F" "b ^ F mod N = 1"
    and gcds: "\<And>r. is_prime r \<Longrightarrow> r dvd F \<Longrightarrow> \<exists>v. v * (b ^ (F div r) + (N - 1)) mod N = 1"
  shows "is_prime N"
proof (rule ccontr)
  assume "\<not> is_prime N"
  then obtain P where P: "is_prime P" "P dvd N" "P * P \<le> N" using composite_divisor N(1) by blast
  then have P1: "1 < P" by (simp add: is_prime_def)
  have F_P: "b ^ F mod P = 1" using F(2) P(2) P1 by (metis mod_mod_cancel mod_less)
  have proper: "b ^ (F div r) mod P \<noteq> 1" if r: "is_prime r" "r dvd F" for r
  proof
    assume one: "b ^ (F div r) mod P = 1"
    obtain v where v: "v * (b ^ (F div r) + (N - 1)) mod N = 1" using gcds r by blast
    have "(b ^ (F div r) + (N - 1)) mod P = (1 + (N - 1)) mod P" using one by (metis mod_add_left_eq)
    then have "P dvd b ^ (F div r) + (N - 1)" using N(1) P(2) by (simp add: mod_eq_0_iff_dvd)
    then have "v * (b ^ (F div r) + (N - 1)) mod P = 0" by simp
    moreover have "v * (b ^ (F div r) + (N - 1)) mod P = 1" using v P(2) P1 by (metis mod_mod_cancel mod_less)
    ultimately show False by simp
  qed
  have order: "b ^ k mod P \<noteq> 1" if k: "0 < k" "k < F" for k
  proof
    assume "b ^ k mod P = 1"
    then have g: "b ^ gcd k F mod P = 1" using order_divides F_P k(1) by blast
    obtain h where h: "F = gcd k F * h" by (metis dvdE gcd_dvd2)
    have "gcd k F \<le> k" using k(1) by (intro dvd_imp_le) auto
    then have "gcd k F \<noteq> F" using k(2) by simp
    then have "h \<noteq> 1" using h by (metis mult.right_neutral)
    moreover have "h \<noteq> 0" using h F(1) by (metis less_irrefl mult_0_right)
    ultimately have "1 < h" by simp
    then obtain r where r: "is_prime r" "r dvd h" using prime_divisor by blast
    then obtain m where "h = r * m" by (auto elim: dvdE)
    then have "F div r = gcd k F * m" using h r(1) by (metis is_prime_def mult.left_commute nonzero_mult_div_cancel_left not_one_less_zero)
    moreover have "r dvd F" using h r(2) by (metis dvd_mult)
    ultimately show False using proper [OF r(1)] power_mod_mult [OF g] by metis
  qed
  have unit: "\<not> P dvd b"
  proof
    assume "P dvd b"
    then have "P dvd b ^ F" using F(1) by (metis dvd_power dvd_trans)
    then show False using F_P by simp
  qed
  have "inj_on (\<lambda>i. b ^ i mod P) {..<F}"
  proof (rule linorder_inj_onI)
    fix i j assume ij: "i < j" "i \<in> {..<F}" "j \<in> {..<F}"
    show "b ^ i mod P \<noteq> b ^ j mod P"
    proof
      assume "b ^ i mod P = b ^ j mod P"
      moreover have "b ^ j = b ^ i * b ^ (j - i)" using ij(1) by (simp flip: power_add)
      ultimately have "P dvd b ^ i * b ^ (j - i) - b ^ i" using mod_eq_dvd_iff_nat [of "b ^ i" "b ^ j" P]
        by (metis dvd_diff_nat dvd_refl mod_eq_dvd_iff_nat nat_le_linear diff_is_0_eq dvd_0_right)
      then have "P dvd b ^ i * (b ^ (j - i) - 1)" by (simp add: diff_mult_distrib2)
      then have "P dvd b ^ (j - i) - 1" using unit P(1) prime_dvd_mult prime_dvd_power by blast
      moreover have "1 \<le> b ^ (j - i)" using unit by (cases b) auto
      ultimately have "b ^ (j - i) mod P = 1"
        using P1 by (metis le_add_diff_inverse mod_add_right_eq mod_eq_0_iff_dvd add_0_right mod_less)
      moreover have "0 < j - i" "j - i < F" using ij by auto
      ultimately show False using order by blast
    qed
  qed auto
  moreover have "(\<lambda>i. b ^ i mod P) ` {..<F} \<subseteq> {0<..<P}"
  proof
    fix x assume "x \<in> (\<lambda>i. b ^ i mod P) ` {..<F}"
    then obtain i where x: "x = b ^ i mod P" by auto
    have "x \<noteq> 0" using unit prime_dvd_power [OF P(1), of b i] x by (auto simp: dvd_eq_mod_eq_0)
    then show "x \<in> {0<..<P}" using P1 x by simp
  qed
  ultimately have "F \<le> card {0<..<P}" by (metis card_image card_lessThan card_mono finite_greaterThanLessThan)
  then have "F + 1 \<le> P" using P1 by simp
  then have "(F + 1) * (F + 1) \<le> P * P" by (rule mult_le_mono) (rule \<open>F + 1 \<le> P\<close>)
  then show False using P(3) N(2) by simp
qed

section \<open>Powers along chains\<close>

text \<open>
  \<open>chain A c u\<close> raises to powers modulo \<open>A - c\<close>: a step squares or multiplies by \<open>u\<close>, then takes the
  given multiple of the modulus away.
\<close>

fun chain :: "int \<Rightarrow> int \<Rightarrow> int \<Rightarrow> (bool \<times> int) list \<Rightarrow> int \<Rightarrow> int" where
  "chain A c u [] x = x"
| "chain A c u ((m, k) # ps) x = chain A c u ps (x * (if m then u else x) + k * c - k * A)"

fun chain_exp :: "(bool \<times> int) list \<Rightarrow> nat \<Rightarrow> nat" where
  "chain_exp [] e = e"
| "chain_exp ((m, k) # ps) e = chain_exp ps (if m then e + 1 else 2 * e)"

lemma chain_power:
  "x mod (A - c) = u ^ e mod (A - c) \<Longrightarrow> chain A c u ps x mod (A - c) = u ^ chain_exp ps e mod (A - c)"
proof (induction ps arbitrary: x e)
  case (Cons p ps)
  obtain m k where p: "p = (m, k)" by (cases p)
  have "(x * (if m then u else x) + k * c - k * A) mod (A - c) = x * (if m then u else x) mod (A - c)"
    using mod_mult_self2 [of "x * (if m then u else x)" "A - c" "- k"] by (simp add: algebra_simps)
  also have "\<dots> = u ^ (if m then e + 1 else 2 * e) mod (A - c)"
    using mod_mult_cong [OF Cons.prems Cons.prems] mod_mult_cong [OF Cons.prems refl, of u]
    by (cases m) (simp_all add: mult_2 power_add mult.commute [of u])
  finally show ?case using Cons.IH by (simp add: p)
qed simp

lemma chain_step:
  assumes "u ^ e mod (A - c) = x mod (A - c)" "chain A c u ps x = y" "chain_exp ps e = f"
  shows "u ^ f mod (A - c) = y mod (A - c)"
  using chain_power [of x A c u e ps] assms by simp

lemmas chain_eval = chain.simps if_True if_False arith_simps rel_simps

lemma pocklington_int:
  assumes "1 < N" "N < (F + 1) * (F + 1)" "0 < F" "0 \<le> b" "b ^ F mod int N = 1"
    and "\<And>r. is_prime r \<Longrightarrow> r dvd F \<Longrightarrow> \<exists>v. v * (b ^ (F div r) - 1) mod int N = 1"
  shows "is_prime N"
proof (rule pocklington [OF assms(1-3)])
  have b: "int (nat b ^ k) = b ^ k" for k using assms(4) by simp
  have "int (nat b ^ F mod N) = 1" using assms(5) by (simp only: zmod_int b)
  then show "nat b ^ F mod N = 1" by simp
  fix r assume r: "is_prime r" "r dvd F"
  then obtain v where v: "v * (b ^ (F div r) - 1) mod int N = 1" using assms(6) by blast
  define w where "w = nat (v mod int N)"
  have "int w = v mod int N" "int (N - 1) = int N - 1" using assms(1) by (simp_all add: w_def)
  then have "int (w * (nat b ^ (F div r) + (N - 1))) = (v mod int N) * (b ^ (F div r) - 1 + int N)"
    by (simp only: of_nat_mult of_nat_add b) simp
  also have "\<dots> mod int N = v * (b ^ (F div r) - 1) mod int N"
    by (simp add: mod_mult_left_eq distrib_left)
  finally have "int (w * (nat b ^ (F div r) + (N - 1)) mod N) = 1" using v by (simp only: zmod_int)
  then show "\<exists>v. v * (nat b ^ (F div r) + (N - 1)) mod N = 1" by (metis of_nat_1_eq_iff)
qed

lemma power_chain:
  assumes "c ^ e mod N = y mod (N :: int)" "y ^ f mod N = z mod N" "e * f = F"
  shows "c ^ F mod N = z mod N"
proof -
  have "c ^ F mod N = (c ^ e mod N) ^ f mod N" by (simp only: assms(3) [symmetric] power_mult power_mod)
  also have "\<dots> = y ^ f mod N" by (simp only: assms(1) power_mod)
  finally show ?thesis by (simp only: assms(2))
qed

lemma inverse_of_power:
  "u ^ e mod N = y mod N \<Longrightarrow> v * (y - 1) mod N = 1 \<Longrightarrow> \<exists>v. v * (u ^ e - 1) mod (N :: int) = 1"
  by (metis mod_diff_left_eq mod_mult_right_eq)

section \<open>The primes\<close>

lemma prime_small: "is_prime 2" "is_prime 3" "is_prime 5" "is_prime 7" "is_prime 11"
  by (rule is_prime_trial [of _ 2] is_prime_trial [of _ 3] is_prime_trial [of _ 4]; code_simp)+

definition p991_pow_1_1 :: "(bool \<times> int) list" where
  "p991_pow_1_1 =
    [(False, 68), (True, 193)]"

lemma p991_pow_1_1_chain:
  "chain 991 0 261 p991_pow_1_1 261 =
     50"
  unfolding p991_pow_1_1_def by (simp only: chain_eval)

lemma p991_pow_1_1_exp: "chain_exp p991_pow_1_1 1 = 3"
  by (simp add: p991_pow_1_1_def)

lemma p991_pow_1: "(261 :: int) ^ (3 :: nat) mod 991 = 50 mod 991"
proof -
  have "(261 :: int) ^ (1 :: nat) mod (991 - 0) = 261 mod (991 - 0)" by (simp only: power_one_right)
  from chain_step [OF this p991_pow_1_1_chain p991_pow_1_1_exp] have "(261 :: int) ^ (3 :: nat) mod (991 - 0) = 50 mod (991 - 0)" .
  moreover have "(991 - 0) = (991 :: int)" by simp
  ultimately show ?thesis by (simp only:)
qed

lemma p991_pow_1_inv: "\<exists>v. v * ((261 :: int) ^ (3 :: nat) - 1) mod 991 = 1"
  by (rule inverse_of_power [OF p991_pow_1, where v = 809]) simp

definition p991_pow_2_1 :: "(bool \<times> int) list" where
  "p991_pow_2_1 =
    [(False, 68), (False, 542), (True, 43), (False, 957), (True, 76)]"

lemma p991_pow_2_1_chain:
  "chain 991 0 261 p991_pow_2_1 261 =
     113"
  unfolding p991_pow_2_1_def by (simp only: chain_eval)

lemma p991_pow_2_1_exp: "chain_exp p991_pow_2_1 1 = 11"
  by (simp add: p991_pow_2_1_def)

lemma p991_pow_2: "(261 :: int) ^ (11 :: nat) mod 991 = 113 mod 991"
proof -
  have "(261 :: int) ^ (1 :: nat) mod (991 - 0) = 261 mod (991 - 0)" by (simp only: power_one_right)
  from chain_step [OF this p991_pow_2_1_chain p991_pow_2_1_exp] have "(261 :: int) ^ (11 :: nat) mod (991 - 0) = 113 mod (991 - 0)" .
  moreover have "(991 - 0) = (991 :: int)" by simp
  ultimately show ?thesis by (simp only:)
qed

lemma p991_pow_2_inv: "\<exists>v. v * ((261 :: int) ^ (11 :: nat) - 1) mod 991 = 1"
  by (rule inverse_of_power [OF p991_pow_2, where v = 292]) simp

definition p991_one_1 :: "(bool \<times> int) list" where
  "p991_one_1 =
    [(False, 12), (True, 100)]"

lemma p991_one_1_chain:
  "chain 991 0 113 p991_one_1 113 =
     1"
  unfolding p991_one_1_def by (simp only: chain_eval)

lemma p991_one_1_exp: "chain_exp p991_one_1 1 = 3"
  by (simp add: p991_one_1_def)

lemma p991_one: "(113 :: int) ^ (3 :: nat) mod 991 = 1 mod 991"
proof -
  have "(113 :: int) ^ (1 :: nat) mod (991 - 0) = 113 mod (991 - 0)" by (simp only: power_one_right)
  from chain_step [OF this p991_one_1_chain p991_one_1_exp] have "(113 :: int) ^ (3 :: nat) mod (991 - 0) = 1 mod (991 - 0)" .
  moreover have "(991 - 0) = (991 :: int)" by simp
  ultimately show ?thesis by (simp only:)
qed

lemma p991_order: "(261 :: int) ^ (33 :: nat) mod 991 = 1 mod 991"
  by (rule power_chain [OF p991_pow_2 p991_one]) simp

lemma prime_p991: "is_prime 991"
proof (rule pocklington_int [of _ 33 261])
  show "1 < (991 :: nat)" "991 < (33 + 1) * (33 + 1 :: nat)" "0 < (33 :: nat)" "0 \<le> (261 :: int)"
    by simp_all
  show "(261 :: int) ^ (33 :: nat) mod int 991 = 1"
    unfolding of_nat_numeral p991_order by simp
  fix r :: nat
  assume r: "is_prime r" "r dvd 33"
  have "(33 :: nat) = 3 * (11)" by simp
  then have "r dvd 3 * (11)" using r(2) by (simp only:)
  then consider "r = 11" | "r = 3"
    using r(1) prime_small(5) prime_small(2) by (metis prime_dvd_mult prime_dvd_prime)
  then show "\<exists>v. v * ((261 :: int) ^ (33 div r) - 1) mod int 991 = 1"
  proof cases
    case 1
    have "33 div r = 3" unfolding 1 by simp
    then show ?thesis unfolding of_nat_numeral by (simp only: p991_pow_1_inv)
  next
    case 2
    have "33 div r = 11" unfolding 2 by simp
    then show ?thesis unfolding of_nat_numeral by (simp only: p991_pow_2_inv)
  qed
qed

definition t_pow_1_1 :: "(bool \<times> int) list" where
  "t_pow_1_1 =
    [(False, 411441), (True, 1224571)]"

lemma t_pow_1_1_chain:
  "chain 8574133 0 1878232 t_pow_1_1 1878232 =
     3435729"
  unfolding t_pow_1_1_def by (simp only: chain_eval)

lemma t_pow_1_1_exp: "chain_exp t_pow_1_1 1 = 3"
  by (simp add: t_pow_1_1_def)

lemma t_pow_1: "(1878232 :: int) ^ (3 :: nat) mod 8574133 = 3435729 mod 8574133"
proof -
  have "(1878232 :: int) ^ (1 :: nat) mod (8574133 - 0) = 1878232 mod (8574133 - 0)" by (simp only: power_one_right)
  from chain_step [OF this t_pow_1_1_chain t_pow_1_1_exp] have "(1878232 :: int) ^ (3 :: nat) mod (8574133 - 0) = 3435729 mod (8574133 - 0)" .
  moreover have "(8574133 - 0) = (8574133 :: int)" by simp
  ultimately show ?thesis by (simp only:)
qed

lemma t_pow_1_inv: "\<exists>v. v * ((1878232 :: int) ^ (3 :: nat) - 1) mod 8574133 = 1"
  by (rule inverse_of_power [OF t_pow_1, where v = 1014251]) simp

definition t_pow_2_1 :: "(bool \<times> int) list" where
  "t_pow_2_1 =
    [(False, 411441), (True, 1224571), (False, 1376726), (True, 423413), (False, 1290911), (True, 144176), (False, 2099796), (False, 221449), (True, 1645560),
     (False, 1929593), (True, 388202), (False, 6781356), (True, 1378377), (False, 1846100), (True, 435193), (False, 6737752), (True, 65163)]"

lemma t_pow_2_1_chain:
  "chain 8574133 0 1878232 t_pow_2_1 1878232 =
     7079057"
  unfolding t_pow_2_1_def by (simp only: chain_eval)

lemma t_pow_2_1_exp: "chain_exp t_pow_2_1 1 = 991"
  by (simp add: t_pow_2_1_def)

lemma t_pow_2: "(1878232 :: int) ^ (991 :: nat) mod 8574133 = 7079057 mod 8574133"
proof -
  have "(1878232 :: int) ^ (1 :: nat) mod (8574133 - 0) = 1878232 mod (8574133 - 0)" by (simp only: power_one_right)
  from chain_step [OF this t_pow_2_1_chain t_pow_2_1_exp] have "(1878232 :: int) ^ (991 :: nat) mod (8574133 - 0) = 7079057 mod (8574133 - 0)" .
  moreover have "(8574133 - 0) = (8574133 :: int)" by simp
  ultimately show ?thesis by (simp only:)
qed

lemma t_pow_2_inv: "\<exists>v. v * ((1878232 :: int) ^ (991 :: nat) - 1) mod 8574133 = 1"
  by (rule inverse_of_power [OF t_pow_2, where v = 498358]) simp

definition t_one_1 :: "(bool \<times> int) list" where
  "t_one_1 =
    [(False, 5844678), (True, 1234378)]"

lemma t_one_1_chain:
  "chain 8574133 0 7079057 t_one_1 7079057 =
     1"
  unfolding t_one_1_def by (simp only: chain_eval)

lemma t_one_1_exp: "chain_exp t_one_1 1 = 3"
  by (simp add: t_one_1_def)

lemma t_one: "(7079057 :: int) ^ (3 :: nat) mod 8574133 = 1 mod 8574133"
proof -
  have "(7079057 :: int) ^ (1 :: nat) mod (8574133 - 0) = 7079057 mod (8574133 - 0)" by (simp only: power_one_right)
  from chain_step [OF this t_one_1_chain t_one_1_exp] have "(7079057 :: int) ^ (3 :: nat) mod (8574133 - 0) = 1 mod (8574133 - 0)" .
  moreover have "(8574133 - 0) = (8574133 :: int)" by simp
  ultimately show ?thesis by (simp only:)
qed

lemma t_order: "(1878232 :: int) ^ (2973 :: nat) mod 8574133 = 1 mod 8574133"
  by (rule power_chain [OF t_pow_2 t_one]) simp

lemma prime_t: "is_prime 8574133"
proof (rule pocklington_int [of _ 2973 1878232])
  show "1 < (8574133 :: nat)" "8574133 < (2973 + 1) * (2973 + 1 :: nat)" "0 < (2973 :: nat)" "0 \<le> (1878232 :: int)"
    by simp_all
  show "(1878232 :: int) ^ (2973 :: nat) mod int 8574133 = 1"
    unfolding of_nat_numeral t_order by simp
  fix r :: nat
  assume r: "is_prime r" "r dvd 2973"
  have "(2973 :: nat) = 3 * (991)" by simp
  then have "r dvd 3 * (991)" using r(2) by (simp only:)
  then consider "r = 991" | "r = 3"
    using r(1) prime_p991 prime_small(2) by (metis prime_dvd_mult prime_dvd_prime)
  then show "\<exists>v. v * ((1878232 :: int) ^ (2973 div r) - 1) mod int 8574133 = 1"
  proof cases
    case 1
    have "2973 div r = 3" unfolding 1 by simp
    then show ?thesis unfolding of_nat_numeral by (simp only: t_pow_1_inv)
  next
    case 2
    have "2973 div r = 991" unfolding 2 by simp
    then show ?thesis unfolding of_nat_numeral by (simp only: t_pow_2_inv)
  qed
qed

definition s_pow_1_1 :: "(bool \<times> int) list" where
  "s_pow_1_1 =
    [(False, 729973243830375), (True, 769326353404300), (False, 6865200370796), (True, 100548571977357)]"

lemma s_pow_1_1_chain:
  "chain 1919519569386763 0 1183722064785962 s_pow_1_1 1183722064785962 =
     1059928654987441"
  unfolding s_pow_1_1_def by (simp only: chain_eval)

lemma s_pow_1_1_exp: "chain_exp s_pow_1_1 1 = 7"
  by (simp add: s_pow_1_1_def)

lemma s_pow_1: "(1183722064785962 :: int) ^ (7 :: nat) mod 1919519569386763 = 1059928654987441 mod 1919519569386763"
proof -
  have "(1183722064785962 :: int) ^ (1 :: nat) mod (1919519569386763 - 0) = 1183722064785962 mod (1919519569386763 - 0)" by (simp only: power_one_right)
  from chain_step [OF this s_pow_1_1_chain s_pow_1_1_exp] have "(1183722064785962 :: int) ^ (7 :: nat) mod (1919519569386763 - 0) = 1059928654987441 mod (1919519569386763 - 0)" .
  moreover have "(1919519569386763 - 0) = (1919519569386763 :: int)" by simp
  ultimately show ?thesis by (simp only:)
qed

lemma s_pow_1_inv: "\<exists>v. v * ((1183722064785962 :: int) ^ (7 :: nat) - 1) mod 1919519569386763 = 1"
  by (rule inverse_of_power [OF s_pow_1, where v = 1290547218147893]) simp

definition s_pow_2_1 :: "(bool \<times> int) list" where
  "s_pow_2_1 =
    [(False, 729973243830375), (False, 810801002700709), (False, 269485046240717), (False, 265979221142967), (False, 685067836526272),
     (False, 47982304353645), (True, 77263856593023), (False, 691468895462095), (False, 282676845967912), (True, 911387131748238), (False, 1563370105357900),
     (True, 360922997117508), (False, 6029579114390), (False, 1845109411538244), (True, 802144914275226), (False, 794239914592340), (False, 9221893271409),
     (True, 1180208170270685), (False, 482593386998506), (False, 14932470386612), (False, 936825889142242), (True, 146921452220480),
     (False, 1209892988249692), (False, 47457803890205), (True, 787132724275839), (False, 1316661394533770), (True, 675336131927156),
     (False, 613710716430677), (False, 1612325988111328), (True, 845898874781105), (False, 4659257300431), (False, 6657543952585), (True, 1160401484845226)]"

lemma s_pow_2_1_chain:
  "chain 1919519569386763 0 1183722064785962 s_pow_2_1 1183722064785962 =
     1124719358789780"
  unfolding s_pow_2_1_def by (simp only: chain_eval)

lemma s_pow_2_1_exp: "chain_exp s_pow_2_1 1 = 8574133"
  by (simp add: s_pow_2_1_def)

lemma s_pow_2: "(1183722064785962 :: int) ^ (8574133 :: nat) mod 1919519569386763 = 1124719358789780 mod 1919519569386763"
proof -
  have "(1183722064785962 :: int) ^ (1 :: nat) mod (1919519569386763 - 0) = 1183722064785962 mod (1919519569386763 - 0)" by (simp only: power_one_right)
  from chain_step [OF this s_pow_2_1_chain s_pow_2_1_exp] have "(1183722064785962 :: int) ^ (8574133 :: nat) mod (1919519569386763 - 0) = 1124719358789780 mod (1919519569386763 - 0)" .
  moreover have "(1919519569386763 - 0) = (1919519569386763 :: int)" by simp
  ultimately show ?thesis by (simp only:)
qed

lemma s_pow_2_inv: "\<exists>v. v * ((1183722064785962 :: int) ^ (8574133 :: nat) - 1) mod 1919519569386763 = 1"
  by (rule inverse_of_power [OF s_pow_2, where v = 681516913897206]) simp

definition s_one_1 :: "(bool \<times> int) list" where
  "s_one_1 =
    [(False, 659015753843357), (True, 141556386404091), (False, 1482943829713495), (True, 257673771215213)]"

lemma s_one_1_chain:
  "chain 1919519569386763 0 1124719358789780 s_one_1 1124719358789780 =
     1"
  unfolding s_one_1_def by (simp only: chain_eval)

lemma s_one_1_exp: "chain_exp s_one_1 1 = 7"
  by (simp add: s_one_1_def)

lemma s_one: "(1124719358789780 :: int) ^ (7 :: nat) mod 1919519569386763 = 1 mod 1919519569386763"
proof -
  have "(1124719358789780 :: int) ^ (1 :: nat) mod (1919519569386763 - 0) = 1124719358789780 mod (1919519569386763 - 0)" by (simp only: power_one_right)
  from chain_step [OF this s_one_1_chain s_one_1_exp] have "(1124719358789780 :: int) ^ (7 :: nat) mod (1919519569386763 - 0) = 1 mod (1919519569386763 - 0)" .
  moreover have "(1919519569386763 - 0) = (1919519569386763 :: int)" by simp
  ultimately show ?thesis by (simp only:)
qed

lemma s_order: "(1183722064785962 :: int) ^ (60018931 :: nat) mod 1919519569386763 = 1 mod 1919519569386763"
  by (rule power_chain [OF s_pow_2 s_one]) simp

lemma prime_s: "is_prime 1919519569386763"
proof (rule pocklington_int [of _ 60018931 1183722064785962])
  show "1 < (1919519569386763 :: nat)" "1919519569386763 < (60018931 + 1) * (60018931 + 1 :: nat)" "0 < (60018931 :: nat)" "0 \<le> (1183722064785962 :: int)"
    by simp_all
  show "(1183722064785962 :: int) ^ (60018931 :: nat) mod int 1919519569386763 = 1"
    unfolding of_nat_numeral s_order by simp
  fix r :: nat
  assume r: "is_prime r" "r dvd 60018931"
  have "(60018931 :: nat) = 7 * (8574133)" by simp
  then have "r dvd 7 * (8574133)" using r(2) by (simp only:)
  then consider "r = 8574133" | "r = 7"
    using r(1) prime_t prime_small(4) by (metis prime_dvd_mult prime_dvd_prime)
  then show "\<exists>v. v * ((1183722064785962 :: int) ^ (60018931 div r) - 1) mod int 1919519569386763 = 1"
  proof cases
    case 1
    have "60018931 div r = 7" unfolding 1 by simp
    then show ?thesis unfolding of_nat_numeral by (simp only: s_pow_1_inv)
  next
    case 2
    have "60018931 div r = 8574133" unfolding 2 by simp
    then show ?thesis unfolding of_nat_numeral by (simp only: s_pow_2_inv)
  qed
qed

definition r_pow_1_1 :: "(bool \<times> int) list" where
  "r_pow_1_1 =
    [(False, 2479309755597680099543901050630221), (False, 21836715211526126998532367249122912), (True, 1696201967826879934569132005271836),
     (False, 2950586083822474436806980301128628), (False, 2189338558527216927053638974416569), (False, 2139178278687972262813400178012714),
     (False, 56831096814877352456012405098271593), (False, 56560747619722138795527924267306156)]"

lemma r_pow_1_1_chain:
  "chain 75445702479781427272750846543864801 0 13676741796789254947516836265918765 r_pow_1_1 13676741796789254947516836265918765 =
     33763476511538335360127990623883028"
  unfolding r_pow_1_1_def by (simp only: chain_eval)

lemma r_pow_1_1_exp: "chain_exp r_pow_1_1 1 = 160"
  by (simp add: r_pow_1_1_def)

lemma r_pow_1: "(13676741796789254947516836265918765 :: int) ^ (160 :: nat) mod 75445702479781427272750846543864801 = 33763476511538335360127990623883028 mod 75445702479781427272750846543864801"
proof -
  have "(13676741796789254947516836265918765 :: int) ^ (1 :: nat) mod (75445702479781427272750846543864801 - 0) = 13676741796789254947516836265918765 mod (75445702479781427272750846543864801 - 0)" by (simp only: power_one_right)
  from chain_step [OF this r_pow_1_1_chain r_pow_1_1_exp] have "(13676741796789254947516836265918765 :: int) ^ (160 :: nat) mod (75445702479781427272750846543864801 - 0) = 33763476511538335360127990623883028 mod (75445702479781427272750846543864801 - 0)" .
  moreover have "(75445702479781427272750846543864801 - 0) = (75445702479781427272750846543864801 :: int)" by simp
  ultimately show ?thesis by (simp only:)
qed

lemma r_pow_1_inv: "\<exists>v. v * ((13676741796789254947516836265918765 :: int) ^ (160 :: nat) - 1) mod 75445702479781427272750846543864801 = 1"
  by (rule inverse_of_power [OF r_pow_1, where v = 42437675945680099350098513892014443]) simp

definition r_pow_2_1 :: "(bool \<times> int) list" where
  "r_pow_2_1 =
    [(False, 2479309755597680099543901050630221), (True, 7357987568224411265417115084977419), (False, 69844136124151166811488700805468726),
     (False, 19887202921604802041611759542363810), (True, 8231652488389042412486526858265607), (False, 46672102840590640571080084675113211),
     (True, 10275577129619202924347091919672839), (False, 63059059054721387149774676205807131), (False, 29700492458184091382193477970674775),
     (True, 5395667372431205523967810466846284), (False, 2101323931838497958866757802819428), (False, 66029813704391693689582410642428029),
     (False, 36306575974543537361025846655878126), (False, 872063263200254234392106722062224), (True, 2276827647120118475488222601735717),
     (False, 11169515567085344644036469402709738), (True, 1541388624274838401961188053946076), (False, 20116635142631034430932106411532),
     (True, 4074831703284966978027873575457663), (False, 15614583775415357211413345285415222), (False, 18398091698157480586380332681946393),
     (False, 1328796668874198330140845665588272), (True, 2855747190659283691766144053899344), (False, 29100870295459819060209973479639574),
     (False, 57551600304175811276268747729798882), (True, 1612553485201259299009398418325932), (False, 9572411086457331009386297319696588),
     (False, 32166878869538217663113027791677345), (True, 11462786057685427486399786170144707), (False, 19762497622003210087241340201170034),
     (True, 10534119912230951229663975707134619), (False, 54454076184017868039111803618344708), (True, 5625952242434956468159746754776130),
     (False, 50203881986336957623429500183584212), (True, 7599435600085442417409738270313774), (False, 8125013817758475067340329042811236),
     (True, 8948172785151969128442453742425610), (False, 6561717190736976265620652974602058), (False, 23773884289364366071225360894787521),
     (True, 5621868528513787989519455366989358), (False, 39664394621187628473943617865149124), (False, 3527176758213238349462453503853118),
     (False, 9470689960859787677419304165879701), (False, 37576271538690082662959858057155055), (False, 5633555514636573787039950581898646),
     (True, 377397279893046690577308448815234), (False, 51881037086977033968436225320285102), (False, 490052826478656561507359210761514),
     (False, 5925785582687742693448151231835885), (True, 6717728389962279078462371745269152), (False, 1044610888909999013293522505357559),
     (False, 23802265688027423482106405667483600), (True, 2676167494962231085695820170975790), (False, 1807472517932434278541182323757187),
     (False, 29044658645705314701406422816689760), (False, 35575557190238588117776820683191430), (True, 11447484740446506335882607344891170),
     (False, 1680784730789578944128980753594580), (True, 2026450576234269160648788501719348), (False, 323305339784587618762607293073225),
     (True, 5743275864404062476664819075176787), (False, 25439847436908518101216809224352159), (False, 59674029497990468861282733209968939),
     (True, 2972321015945014731064445248007201), (False, 193814312236272909448598599363173), (False, 33593303805577614663082249803980813),
     (False, 23108623483927975155054301204971825), (False, 2563774301434541626673959540511665), (False, 44328761345022766136890044284807),
     (True, 12470401684391425070803167396539815), (False, 2445512952187068433578091775222670), (False, 27051157207176188515604777070053940),
     (True, 9513322433162084768954609633848578), (False, 11064011005692443411644235365352007), (True, 9848308118755644121257345818449417),
     (False, 7868485691367560810288353024293033), (False, 22760684432652740642781614320426210), (False, 52760088971684069292884606344769783),
     (False, 5442068164061495954977768545991137), (False, 13516794395600218760008772956762437)]"

lemma r_pow_2_1_chain:
  "chain 75445702479781427272750846543864801 0 13676741796789254947516836265918765 r_pow_2_1 13676741796789254947516836265918765 =
     52755092631156469601217826477970212"
  unfolding r_pow_2_1_def by (simp only: chain_eval)

lemma r_pow_2_1_exp: "chain_exp r_pow_2_1 1 = 61424626220376416"
  by (simp add: r_pow_2_1_def)

lemma r_pow_2: "(13676741796789254947516836265918765 :: int) ^ (61424626220376416 :: nat) mod 75445702479781427272750846543864801 = 52755092631156469601217826477970212 mod 75445702479781427272750846543864801"
proof -
  have "(13676741796789254947516836265918765 :: int) ^ (1 :: nat) mod (75445702479781427272750846543864801 - 0) = 13676741796789254947516836265918765 mod (75445702479781427272750846543864801 - 0)" by (simp only: power_one_right)
  from chain_step [OF this r_pow_2_1_chain r_pow_2_1_exp] have "(13676741796789254947516836265918765 :: int) ^ (61424626220376416 :: nat) mod (75445702479781427272750846543864801 - 0) = 52755092631156469601217826477970212 mod (75445702479781427272750846543864801 - 0)" .
  moreover have "(75445702479781427272750846543864801 - 0) = (75445702479781427272750846543864801 :: int)" by simp
  ultimately show ?thesis by (simp only:)
qed

lemma r_pow_2_inv: "\<exists>v. v * ((13676741796789254947516836265918765 :: int) ^ (61424626220376416 :: nat) - 1) mod 75445702479781427272750846543864801 = 1"
  by (rule inverse_of_power [OF r_pow_2, where v = 69417798913898219346225619313550918]) simp

definition r_pow_3_1 :: "(bool \<times> int) list" where
  "r_pow_3_1 =
    [(False, 2479309755597680099543901050630221), (False, 21836715211526126998532367249122912), (False, 1160444397544108121989134677366351),
     (False, 16719147792986055575266186892370146), (True, 5586191311128487739899695523264603), (False, 58680121256622977647753823655286109),
     (False, 26951724863407299601442554729191194), (False, 1508673290820990393805431164065722), (False, 27500767849764343263163516359824830),
     (False, 22401668200817558973231870257939787), (True, 11027410637362717825320041115506777), (False, 17246862693203652575651397389170146),
     (True, 6232957845085423878993344962830111), (False, 47843922101958097889983325162408315), (False, 58747682417873856351200457568000561),
     (False, 17115876630939361610367119358172283), (False, 51833220489907889169348126181678556), (True, 11188464392785699216173094710747100),
     (False, 68989918744782579894907377173396552), (True, 11105779080430346203336241514575899), (False, 16215755889940718077288834314508227),
     (True, 1311265201035619782510482069531529), (False, 6298744679592954943344628273844061), (True, 3914190937812206334834119042021584),
     (False, 4137454702215176675765242090050535), (False, 7615355947441673815234558879941299), (True, 4111535666971980775840920142020822),
     (False, 69041659876147129143007187191430788), (True, 11322584727162150282111925881151749), (False, 1042501829317804862928418804238),
     (False, 36520080791768974105964147776919237), (True, 2019164076357655013804650155199013), (False, 19498314571209647475475438838158462),
     (True, 6779984862933610833030066902572148), (False, 9923986866056950052435988476499101), (True, 6681565261425436627938800800742328),
     (False, 88187098016663250423223100053088), (False, 52692167954320729529304520181565), (False, 1977751961516511655661323931956534),
     (False, 5483390607687792770208224307893444), (True, 11982670994961279697068830400447655), (False, 66192973199919379361008861698797890),
     (False, 31370049813955220710549084459871677), (False, 177996919696724095476903274181029), (True, 10827857808290133768535108577302533),
     (False, 8036054655507809510710073939349000), (False, 28969207781211793299837358180954899), (True, 11322021574988548902388737567030844),
     (False, 2131615756359553297101864044994264), (True, 8526972361278958339438863448988076), (False, 1410111349476463097818779839747372),
     (True, 6889073130607094125345014932592415), (False, 25988746091553073987055716042760819), (False, 27180956075834693799149047276764147),
     (True, 9062441074276516889227036026643266), (False, 74637375941585781768659758475149707), (False, 52877434938370375245432132435607342),
     (False, 53360180010806512718951297086741700), (False, 20658932350714328093202497899477459), (True, 7632536919861339771319575310438548),
     (False, 12703737333050305212560281691215361), (False, 2309448423138318155779964823966923), (False, 38526839012428036940853528894765113),
     (False, 19457918647755771432499426293387131), (True, 1628384462975482938709021129686549), (False, 59058670442617255032087885640813331),
     (False, 29700248574576533860087155186011201), (False, 12926905474153136807147446438256365), (True, 10858137689789259133194840718793569),
     (False, 70406328676013903249240913132471360), (True, 2253257862186431133664363108703433), (False, 62049806010336938790357777350685234),
     (False, 48198699818617687597155479878204313), (True, 11544485231874755096896136614127408), (False, 336266840371589713686571195606690),
     (True, 5453187895856325127816734898286643), (False, 19357203042611245270083326225676548), (True, 4026186806803026780900580821309712),
     (False, 75244713163185827540060328218502285), (False, 2264670050375846744288101689179767), (False, 20053769354019835332818197278689),
     (False, 724804924550046581076177600066889)]"

lemma r_pow_3_1_chain:
  "chain 75445702479781427272750846543864801 0 13676741796789254947516836265918765 r_pow_3_1 13676741796789254947516836265918765 =
     75445702479781427272750846543864800"
  unfolding r_pow_3_1_def by (simp only: chain_eval)

lemma r_pow_3_1_exp: "chain_exp r_pow_3_1 1 = 153561565550941040"
  by (simp add: r_pow_3_1_def)

lemma r_pow_3: "(13676741796789254947516836265918765 :: int) ^ (153561565550941040 :: nat) mod 75445702479781427272750846543864801 = 75445702479781427272750846543864800 mod 75445702479781427272750846543864801"
proof -
  have "(13676741796789254947516836265918765 :: int) ^ (1 :: nat) mod (75445702479781427272750846543864801 - 0) = 13676741796789254947516836265918765 mod (75445702479781427272750846543864801 - 0)" by (simp only: power_one_right)
  from chain_step [OF this r_pow_3_1_chain r_pow_3_1_exp] have "(13676741796789254947516836265918765 :: int) ^ (153561565550941040 :: nat) mod (75445702479781427272750846543864801 - 0) = 75445702479781427272750846543864800 mod (75445702479781427272750846543864801 - 0)" .
  moreover have "(75445702479781427272750846543864801 - 0) = (75445702479781427272750846543864801 :: int)" by simp
  ultimately show ?thesis by (simp only:)
qed

lemma r_pow_3_inv: "\<exists>v. v * ((13676741796789254947516836265918765 :: int) ^ (153561565550941040 :: nat) - 1) mod 75445702479781427272750846543864801 = 1"
  by (rule inverse_of_power [OF r_pow_3, where v = 37722851239890713636375423271932400]) simp

definition r_one_1 :: "(bool \<times> int) list" where
  "r_one_1 =
    [(False, 36888778380289295964533486524674002), (False, 9914605398767836732771918096660611), (True, 19071801487938000569025322041023235)]"

lemma r_one_1_chain:
  "chain 75445702479781427272750846543864801 0 52755092631156469601217826477970212 r_one_1 52755092631156469601217826477970212 =
     1"
  unfolding r_one_1_def by (simp only: chain_eval)

lemma r_one_1_exp: "chain_exp r_one_1 1 = 5"
  by (simp add: r_one_1_def)

lemma r_one: "(52755092631156469601217826477970212 :: int) ^ (5 :: nat) mod 75445702479781427272750846543864801 = 1 mod 75445702479781427272750846543864801"
proof -
  have "(52755092631156469601217826477970212 :: int) ^ (1 :: nat) mod (75445702479781427272750846543864801 - 0) = 52755092631156469601217826477970212 mod (75445702479781427272750846543864801 - 0)" by (simp only: power_one_right)
  from chain_step [OF this r_one_1_chain r_one_1_exp] have "(52755092631156469601217826477970212 :: int) ^ (5 :: nat) mod (75445702479781427272750846543864801 - 0) = 1 mod (75445702479781427272750846543864801 - 0)" .
  moreover have "(75445702479781427272750846543864801 - 0) = (75445702479781427272750846543864801 :: int)" by simp
  ultimately show ?thesis by (simp only:)
qed

lemma r_order: "(13676741796789254947516836265918765 :: int) ^ (307123131101882080 :: nat) mod 75445702479781427272750846543864801 = 1 mod 75445702479781427272750846543864801"
  by (rule power_chain [OF r_pow_2 r_one]) simp

lemma prime_r: "is_prime 75445702479781427272750846543864801"
proof (rule pocklington_int [of _ 307123131101882080 13676741796789254947516836265918765])
  show "1 < (75445702479781427272750846543864801 :: nat)" "75445702479781427272750846543864801 < (307123131101882080 + 1) * (307123131101882080 + 1 :: nat)" "0 < (307123131101882080 :: nat)" "0 \<le> (13676741796789254947516836265918765 :: int)"
    by simp_all
  show "(13676741796789254947516836265918765 :: int) ^ (307123131101882080 :: nat) mod int 75445702479781427272750846543864801 = 1"
    unfolding of_nat_numeral r_order by simp
  fix r :: nat
  assume r: "is_prime r" "r dvd 307123131101882080"
  have "(307123131101882080 :: nat) = 2 * (2 * (2 * (2 * (2 * (5 * (1919519569386763))))))" by simp
  then have "r dvd 2 * (2 * (2 * (2 * (2 * (5 * (1919519569386763))))))" using r(2) by (simp only:)
  then consider "r = 1919519569386763" | "r = 5" | "r = 2"
    using r(1) prime_s prime_small(3) prime_small(1) by (metis prime_dvd_mult prime_dvd_prime)
  then show "\<exists>v. v * ((13676741796789254947516836265918765 :: int) ^ (307123131101882080 div r) - 1) mod int 75445702479781427272750846543864801 = 1"
  proof cases
    case 1
    have "307123131101882080 div r = 160" unfolding 1 by simp
    then show ?thesis unfolding of_nat_numeral by (simp only: r_pow_1_inv)
  next
    case 2
    have "307123131101882080 div r = 61424626220376416" unfolding 2 by simp
    then show ?thesis unfolding of_nat_numeral by (simp only: r_pow_2_inv)
  next
    case 3
    have "307123131101882080 div r = 153561565550941040" unfolding 3 by simp
    then show ?thesis unfolding of_nat_numeral by (simp only: r_pow_3_inv)
  qed
qed

definition q_pow_r_1 :: "(bool \<times> int) list" where
  "q_pow_r_1 =
    [(False, 50724978701988133742618770988707467919196865126794617951267583625671899),
     (True, 53437701495890490259797173803885170805024416496264700262075913072850321),
     (False, 8836431135896618987616964895708495005000121305835174671583745728515123),
     (True, 57511102787160399540893918831604560958109746374048528251222477539855223),
     (False, 39492871090558757745453939205009946034479008042115766480504939637207245),
     (False, 60055419112453050120493827453299567158661837665800388926977803931823137),
     (True, 35716482329755290644263430883505896418505965348430568659809143338104824),
     (False, 27843660429724606027635993522321734195375262902053198098527712333628493),
     (False, 65713423763256757382603537196995382835806648299504944866904103508230218),
     (False, 1763163252630909731080739262312729668762243123095541960596078873121175),
     (False, 199552961679653448643741795181285477822357516773128184220974601521002),
     (False, 21077377834103944986115175641048130164447151310726246936665695177228964),
     (True, 21789131780325870431974583439208842313538891756850111807222278140627814),
     (False, 37909252520028673302204813444489835898546248895868319662175213450289319),
     (True, 7858973414516364827494027791611536477167315282966408944191635085549867),
     (False, 1664588397723515646524111330771116229963365884216243413359296210928066),
     (True, 14861403265171628639264344414750816608415061709076821073533759106173180),
     (False, 1041212142959714179265056124514213440864462926954810929362244194651),
     (True, 60774136777438266245147165668597786027312305689432797598692351396012239),
     (False, 55082773052776619136740538625727669638754614277649607804625062746340268),
     (True, 42011728952644147407083954381392428165979437648370413275262103478227564),
     (False, 55103924215504835289897034885731764585719933939866249707817497996682123),
     (False, 24374634416193108033641031820442569291808991186222317799484973344057887),
     (False, 8988109660685280952530511878075705289527811470449257991902265073995249),
     (False, 4450229599658864057463958131110234130865208703728077097915015719498630),
     (False, 190218023066367470758703355599339973668772400497956671423191359199813),
     (True, 46133569073079167062796522608580844218362208506017469718916398310550693),
     (False, 1585545246481242823226983644115193344934334059842269749338883242658433),
     (False, 17813815079807181062300762051921416658228329764548506375215867939339762)]"

lemma q_pow_r_1_chain:
  "chain 74058212732561358302231226437062788676166966415465897661863160754340907 0 61291118961612059379285908211562172259339100412814599022521887267695341 q_pow_r_1 61291118961612059379285908211562172259339100412814599022521887267695341 =
     29519870783100184931031490983605812229993162573902061333135371809894091"
  unfolding q_pow_r_1_def by (simp only: chain_eval)

lemma q_pow_r_1_exp: "chain_exp q_pow_r_1 1 = 1904516"
  by (simp add: q_pow_r_1_def)

definition q_pow_r_2 :: "(bool \<times> int) list" where
  "q_pow_r_2 =
    [(True, 24430861144761431076372969261426166427328653820527458753634809244377759),
     (False, 26555540214995684431840076282910365789162151466911159050037000866104128),
     (False, 2532739942434183928679935753102950167213475379529206047459952913839722),
     (True, 35995594355705914925675749273498150886917484508224140619976556111660937),
     (False, 24535888799596762194212490641813040483915676107643537253829215485462182),
     (False, 59224768394525664097147695368388866035674452976339219787118302740040640),
     (False, 17809771484053112814414994528973985057160792718062604528474524414255676),
     (True, 18636789522339296847425778332182157481959564773188039252509153674301928),
     (False, 20364268061981762111588116536547984677378763398015984200508129846828060),
     (False, 5782908436327671257440476899816504771615451921151049926782961988325695),
     (False, 58697490503230688732488622670097075652743139964100107985671970219752574),
     (False, 1324780299434028155373424809254540835404791902583707342846789172113012),
     (True, 34479521374763580647729424729681126882250229479279654382666890322226039),
     (False, 379418253310730112087598329686952488928204694871828575122392025537980),
     (True, 41325952490078731577944158417389032196049628622869408738472121081787045),
     (False, 3994692393754298100033848206241715220636712153990816085416918205028533),
     (True, 23759190118728360434729712515169157359658431253061343807630728741327875),
     (False, 68216011336912552152410704593058535258372499958120772453551793858187663),
     (False, 3163224770528833796264487971618507845907109491510093454961263312811528),
     (True, 36106353056190552741785315221015402712134271613001292193461402222741389),
     (False, 32981982518558677299735107693766635401566156138658198065794384761658516),
     (True, 2394864527391456913881247442200102167471243954418925981995661391819637),
     (False, 45245363597330868467649017155285707756464279102948054059000660723426197),
     (True, 37351674832111246351073136612207233818716189018859005393728063858157950),
     (False, 2047228873576749360645523539770656535101675484382499366965754184472323),
     (True, 48522669434763316933842899366506087627378969207838856269201504472742688),
     (False, 32323216921219313580338380892118737241672294493341397267530397628168),
     (False, 1466831996240758143850056100713090158107485699262644844298994411281172),
     (True, 187604084562545175609330613315362545954617509375503698397951363728979)]"

lemma q_pow_r_2_chain:
  "chain 74058212732561358302231226437062788676166966415465897661863160754340907 0 61291118961612059379285908211562172259339100412814599022521887267695341 q_pow_r_2 29519870783100184931031490983605812229993162573902061333135371809894091 =
     57448975994295187347850714411111438905528750651778412506645543248156912"
  unfolding q_pow_r_2_def by (simp only: chain_eval)

lemma q_pow_r_2_exp: "chain_exp q_pow_r_2 1904516 = 499257779133"
  by (simp add: q_pow_r_2_def)

definition q_pow_r_3 :: "(bool \<times> int) list" where
  "q_pow_r_3 =
    [(False, 44564737940833620874304219112497848876913780343346768069398808741036061),
     (True, 6125040163153337864130567747294715685953484035189462635864846363297687),
     (False, 58880697293814562309875244819019005783888702945891685593322759452572599),
     (True, 29209962458180424765490832315838406360736710821202552835924113151275890),
     (False, 70302161504815375576501847185886737579444906730546361719407996046876048),
     (False, 36726962942097951654434103330694984226412124494475402991327526451214258),
     (False, 16472140270439953352843258231973690597806188562837541815140269762809378),
     (False, 456467732574180465082977999614841260534701082941701856422082457590350),
     (False, 13316853951916561794876407605969531781782723874071441552670175676349202),
     (False, 21897802423634437822057998654165323197019913498538020619694572229514243),
     (False, 1025978608585457568394418312446499600966576823374447919395718273917207),
     (True, 28827864377121324003218668245967960590461962993482063503399285462292317),
     (False, 37349162543503845948431467236308981390778892691758179565794723730537696),
     (False, 6310520434130376837975224198053751852748258943939578564112779240183064),
     (True, 41559828540814315846216740792568676102768778030097866494306973098807461),
     (False, 2324774255207194649613254738909649326174981049132824282458060898611596),
     (False, 21299905313694400735985689311340798748002591069415063782866928348493636),
     (True, 52783679629817324387426668889747220303105626467104723991023303387501486),
     (False, 5916227748142783584500186874288125383558552262111507072092714153510033),
     (True, 45669055290366424921041456502043866749045076341816818716712584086188935),
     (False, 45053810395184524536234612402523287739885358707121000205367185778504920),
     (False, 10690136237553006471183584793664349000182105991375496838674734526665310),
     (True, 22574610504011039318219394373508364879273705656789698590780870559862065),
     (False, 43957917474259554221688299161981889367280230491001923479583664793857013),
     (False, 31611152584445185271768858165301065509866268671023220016431231105992765),
     (False, 13666113785182946586165573281745283813395692813832359621104568272040144),
     (False, 7512859338252148255075929622908037737279199431920168631681173846628222),
     (False, 12941402918812479504326097403140476131865006601055081198571149584780808),
     (True, 13438090722725365346013808801309088086984945026739172524885885449475017)]"

lemma q_pow_r_3_chain:
  "chain 74058212732561358302231226437062788676166966415465897661863160754340907 0 61291118961612059379285908211562172259339100412814599022521887267695341 q_pow_r_3 57448975994295187347850714411111438905528750651778412506645543248156912 =
     62866032296893009762376399271522124627395785521222920668456047696837785"
  unfolding q_pow_r_3_def by (simp only: chain_eval)

lemma q_pow_r_3_exp: "chain_exp q_pow_r_3 499257779133 = 1047019450025907617"
  by (simp add: q_pow_r_3_def)

definition q_pow_r_4 :: "(bool \<times> int) list" where
  "q_pow_r_4 =
    [(False, 53365290234939043519460766705336940362108976731750825276599765992160175),
     (False, 32948865539759527859541868749928879286808015701192587546915436022181092),
     (True, 34998117289845449450679417682993126001675262916488385022705826009731170),
     (False, 33093166242708800894090810430466040182892640787928714088717853542012881),
     (True, 3757431405319281767935067689810794283728364003736238060401966213475607),
     (False, 5334991323863952061558812455983533050476731339997507458999134643425994),
     (True, 31604117043171138350711338611422468802657495274389578854599565999566426),
     (False, 19009096377987083141250660224387290528534057481857937757171929967844288),
     (True, 45270164082009215948992145088746645593623132437751006241687476401920526),
     (False, 30150421538815639886683611459870959524996459039013724849805329474080622),
     (False, 6307956892423646506491899873368428385266262715558451115990767796007466),
     (False, 6588569709999291490807440280251669748840858579988801497946141992389674),
     (True, 84697733383369115023971995644997810339440564287250398789512182433203),
     (False, 65498078923225569074585843550989747732036525378559702383791628821819392),
     (False, 3849007209509733007674215675716773768383676942549625134791391818680493),
     (False, 1962534996117149262499121927662513646838894617104246537406647529881340),
     (True, 6675526574166859238758049701175419635823571283091669497448233343355010),
     (False, 540798240913639235429222502159776953143516212516796956133404392821073),
     (True, 42982697492485314148200589318418456636026815193377780244335314790077377),
     (False, 32588071941796094444840844071131499491034093474728838340100974237045781),
     (False, 1354111204659393078387850521080781229260536812801002606920903433492672),
     (True, 52064611154218076416162677586292471277055469682625249476221180517488304),
     (False, 55802695488391488292737044342690854787244315160184441295953915120883),
     (True, 25368969819656635856242747569532246175740320837711830322685917079178665),
     (False, 27274177756211681545503848044481571394590826700745331651466220246119802),
     (True, 17953288260462624970791035869111775073146158484617091443066436970088958),
     (False, 42694174653165097517549143868876117141864627370719414576974309199813546),
     (True, 34039896195529744385573408843874090981092439092603053981623480958796233),
     (False, 57001286208001592300083080330281540467563002794102853239536185065699740)]"

lemma q_pow_r_4_chain:
  "chain 74058212732561358302231226437062788676166966415465897661863160754340907 0 61291118961612059379285908211562172259339100412814599022521887267695341 q_pow_r_4 62866032296893009762376399271522124627395785521222920668456047696837785 =
     14572363841779193642518160427808800296299149121844943180279624013559644"
  unfolding q_pow_r_4_def by (simp only: chain_eval)

lemma q_pow_r_4_exp: "chain_exp q_pow_r_4 1047019450025907617 = 274469866707591526474974"
  by (simp add: q_pow_r_4_def)

definition q_pow_r_5 :: "(bool \<times> int) list" where
  "q_pow_r_5 =
    [(False, 2867390125981632588332457968682577200641260239790408456374719930121459),
     (False, 13773733442611553599123292184842067605544775217431338697903619761133717),
     (False, 7592852338417107736391089410634294769528127393931986984306449061691487),
     (False, 8702797743592580783661947040705374115284272931827716914015988908031764),
     (True, 17002393885704741850968357566668531508524323751185889903057507736194748),
     (False, 48831924456186894131302103127105547507525357810607743519411844193060287),
     (True, 59568870887079810013545676241541180503046034305324189106872950228745629),
     (False, 65163628275691910478745752068042590929625572724612873250522846865884733),
     (True, 31324078470467122329642614407730908097475658342848040682749133015984264),
     (False, 11187644693797373212599201910844044971301476668542747981037299588767306),
     (False, 8398848052273114219617731573148175423782634713107126556173377977682749),
     (False, 29247788588419438052232443928382463957676922339714703023966439529329039),
     (True, 22836760146224128029068376141222821688230974912063771146147995104853571),
     (False, 5660588087924027805413049477804512594733048895200779650067562669973446),
     (True, 25541676891952890557537738912328087718079981452878396075775568779168206),
     (False, 11237742231948159054936612076985281427455683716336465314680945510556476),
     (True, 59064670471674838794899500127637232532855495398722136799401933176427967),
     (False, 27960682789680064826797795286331597140343054644838073840822385389192089),
     (False, 5291690843865892677184781428852735331509972386555682940733367171904018),
     (False, 6431811915825316913917709071277755839522773049355079555128816771644136),
     (True, 29183002586159755724198106331961004178312834189956474932332583544889311),
     (False, 3478053083010843579801111934701662528346462535221265326774011702259600),
     (False, 23205654014426892754694815529499085837264774230823675165633486318517053),
     (True, 1676200961738010671108832934132185115685552011113139522289568553706089),
     (False, 1044771824233029214668268864106469181435443295295924419721029856090629),
     (False, 30459805519267762810269176279808488420197918506046960240917858326153172),
     (True, 27663029328493299366649868374403397283540493071688718520575141140951557),
     (False, 3107540615641853913112729865014200029690453408419378597320357260523048),
     (True, 51222146490039805929385615744849042643639337865369285762987877106677037)]"

lemma q_pow_r_5_chain:
  "chain 74058212732561358302231226437062788676166966415465897661863160754340907 0 61291118961612059379285908211562172259339100412814599022521887267695341 q_pow_r_5 14572363841779193642518160427808800296299149121844943180279624013559644 =
     72325525841138800168346576340514911364117664717973440078630787112441229"
  unfolding q_pow_r_5_def by (simp only: chain_eval)

lemma q_pow_r_5_exp: "chain_exp q_pow_r_5 274469866707591526474974 = 143901257476389746232511227691"
  by (simp add: q_pow_r_5_def)

definition q_pow_r_6 :: "(bool \<times> int) list" where
  "q_pow_r_6 =
    [(False, 70633377382294261586526130054703606838562561382377378724054090669302052),
     (False, 42093151936584036885113247057635162469378923694531293379121464723175271),
     (True, 33566707186375800568058309953774185763815850972973766277540919079021664),
     (False, 2285837176313685065784305717587189254428807476093428257628490721392813),
     (True, 26445465320438575570984877988943364850684293855128465977952589665088381),
     (False, 37697803189873701644983602312440970575214989355125891220137391750434258),
     (False, 550199242401559983925270322480830693860210763973094613035853897222749),
     (False, 416385179131286947911982364571146909692937178482856198919761026691203),
     (True, 54075525139498810535491378285185178398022815477923877431158171117690209),
     (False, 35826173867785768825279015001137448771395722435081394565110982913318214),
     (False, 73053036280895017803725549199633566952190526521443668212693756452328596),
     (False, 45950521227541273294622766814131326749640693298992855377454156231537759),
     (False, 151445313336717804849464997239091707378898034353320038759910985913753),
     (True, 9980589434064010468664874554243303075560103476515297679692398047965021),
     (False, 43582509828000561658489902598946644247819205320221547724079363650342666),
     (True, 14445562940794673186901141956285138000606895018661146833726477642412448),
     (False, 6828083154413385875289173274500425200313343804103753324941010862209272),
     (True, 39804807675731104367385400793566937220093866397341782538811171640456252),
     (False, 42946921069975360178236931620417005055382327138104285190804479423515790),
     (True, 38465197456619825068035512755123410098807687601142639272140896194354994),
     (False, 10575515938920813886740429080364827038479027495137132872254772241846468),
     (True, 49460677485703077162787313510196145318466480574942355839265629607533506),
     (False, 59135293560897019433805591458145949695444693992658014073404690828399069),
     (False, 34968700659604450044486408265241533922100533895467671871161335328482322),
     (False, 9351880200060849706201717608283240990145887354075524294297360943464839),
     (False, 24823299465184819689715108501875059824412927445079877148990340482808291),
     (False, 14440528209625531035698464754549271875403615849061855798894591535108493),
     (True, 11962230238763525896624565444143883992134236491052271742161070972869386)]"

lemma q_pow_r_6_chain:
  "chain 74058212732561358302231226437062788676166966415465897661863160754340907 0 61291118961612059379285908211562172259339100412814599022521887267695341 q_pow_r_6 72325525841138800168346576340514911364117664717973440078630787112441229 =
     30397109428614726089754189191956088611235801571633239974164411255784156"
  unfolding q_pow_r_6_def by (simp only: chain_eval)

lemma q_pow_r_6_exp: "chain_exp q_pow_r_6 143901257476389746232511227691 = 75445702479781427272750846543864801"
  by (simp add: q_pow_r_6_def)

lemma q_pow_r: "(61291118961612059379285908211562172259339100412814599022521887267695341 :: int) ^ (75445702479781427272750846543864801 :: nat) mod 74058212732561358302231226437062788676166966415465897661863160754340907 = 30397109428614726089754189191956088611235801571633239974164411255784156 mod 74058212732561358302231226437062788676166966415465897661863160754340907"
proof -
  have "(61291118961612059379285908211562172259339100412814599022521887267695341 :: int) ^ (1 :: nat) mod (74058212732561358302231226437062788676166966415465897661863160754340907 - 0) = 61291118961612059379285908211562172259339100412814599022521887267695341 mod (74058212732561358302231226437062788676166966415465897661863160754340907 - 0)" by (simp only: power_one_right)
  from chain_step [OF this q_pow_r_1_chain q_pow_r_1_exp] have "(61291118961612059379285908211562172259339100412814599022521887267695341 :: int) ^ (1904516 :: nat) mod (74058212732561358302231226437062788676166966415465897661863160754340907 - 0) = 29519870783100184931031490983605812229993162573902061333135371809894091 mod (74058212732561358302231226437062788676166966415465897661863160754340907 - 0)" .
  from chain_step [OF this q_pow_r_2_chain q_pow_r_2_exp] have "(61291118961612059379285908211562172259339100412814599022521887267695341 :: int) ^ (499257779133 :: nat) mod (74058212732561358302231226437062788676166966415465897661863160754340907 - 0) = 57448975994295187347850714411111438905528750651778412506645543248156912 mod (74058212732561358302231226437062788676166966415465897661863160754340907 - 0)" .
  from chain_step [OF this q_pow_r_3_chain q_pow_r_3_exp] have "(61291118961612059379285908211562172259339100412814599022521887267695341 :: int) ^ (1047019450025907617 :: nat) mod (74058212732561358302231226437062788676166966415465897661863160754340907 - 0) = 62866032296893009762376399271522124627395785521222920668456047696837785 mod (74058212732561358302231226437062788676166966415465897661863160754340907 - 0)" .
  from chain_step [OF this q_pow_r_4_chain q_pow_r_4_exp] have "(61291118961612059379285908211562172259339100412814599022521887267695341 :: int) ^ (274469866707591526474974 :: nat) mod (74058212732561358302231226437062788676166966415465897661863160754340907 - 0) = 14572363841779193642518160427808800296299149121844943180279624013559644 mod (74058212732561358302231226437062788676166966415465897661863160754340907 - 0)" .
  from chain_step [OF this q_pow_r_5_chain q_pow_r_5_exp] have "(61291118961612059379285908211562172259339100412814599022521887267695341 :: int) ^ (143901257476389746232511227691 :: nat) mod (74058212732561358302231226437062788676166966415465897661863160754340907 - 0) = 72325525841138800168346576340514911364117664717973440078630787112441229 mod (74058212732561358302231226437062788676166966415465897661863160754340907 - 0)" .
  from chain_step [OF this q_pow_r_6_chain q_pow_r_6_exp] have "(61291118961612059379285908211562172259339100412814599022521887267695341 :: int) ^ (75445702479781427272750846543864801 :: nat) mod (74058212732561358302231226437062788676166966415465897661863160754340907 - 0) = 30397109428614726089754189191956088611235801571633239974164411255784156 mod (74058212732561358302231226437062788676166966415465897661863160754340907 - 0)" .
  moreover have "(74058212732561358302231226437062788676166966415465897661863160754340907 - 0) = (74058212732561358302231226437062788676166966415465897661863160754340907 :: int)" by simp
  ultimately show ?thesis by (simp only:)
qed

definition q_pow_6_1 :: "(bool \<times> int) list" where
  "q_pow_6_1 =
    [(False, 50724978701988133742618770988707467919196865126794617951267583625671899),
     (True, 53437701495890490259797173803885170805024416496264700262075913072850321),
     (False, 8836431135896618987616964895708495005000121305835174671583745728515123)]"

lemma q_pow_6_1_chain:
  "chain 74058212732561358302231226437062788676166966415465897661863160754340907 0 61291118961612059379285908211562172259339100412814599022521887267695341 q_pow_6_1 61291118961612059379285908211562172259339100412814599022521887267695341 =
     69490809710348678725736597923071784769591275419387514694139338586948360"
  unfolding q_pow_6_1_def by (simp only: chain_eval)

lemma q_pow_6_1_exp: "chain_exp q_pow_6_1 1 = 6"
  by (simp add: q_pow_6_1_def)

lemma q_pow_6: "(61291118961612059379285908211562172259339100412814599022521887267695341 :: int) ^ (6 :: nat) mod 74058212732561358302231226437062788676166966415465897661863160754340907 = 69490809710348678725736597923071784769591275419387514694139338586948360 mod 74058212732561358302231226437062788676166966415465897661863160754340907"
proof -
  have "(61291118961612059379285908211562172259339100412814599022521887267695341 :: int) ^ (1 :: nat) mod (74058212732561358302231226437062788676166966415465897661863160754340907 - 0) = 61291118961612059379285908211562172259339100412814599022521887267695341 mod (74058212732561358302231226437062788676166966415465897661863160754340907 - 0)" by (simp only: power_one_right)
  from chain_step [OF this q_pow_6_1_chain q_pow_6_1_exp] have "(61291118961612059379285908211562172259339100412814599022521887267695341 :: int) ^ (6 :: nat) mod (74058212732561358302231226437062788676166966415465897661863160754340907 - 0) = 69490809710348678725736597923071784769591275419387514694139338586948360 mod (74058212732561358302231226437062788676166966415465897661863160754340907 - 0)" .
  moreover have "(74058212732561358302231226437062788676166966415465897661863160754340907 - 0) = (74058212732561358302231226437062788676166966415465897661863160754340907 :: int)" by simp
  ultimately show ?thesis by (simp only:)
qed

lemma q_pow_6_inv: "\<exists>v. v * ((61291118961612059379285908211562172259339100412814599022521887267695341 :: int) ^ (6 :: nat) - 1) mod 74058212732561358302231226437062788676166966415465897661863160754340907 = 1"
  by (rule inverse_of_power [OF q_pow_6, where v = 70463328703800545008217672123162676565183935400628861884889913886334520]) simp

definition q_pow_2r_w_1 :: "(bool \<times> int) list" where
  "q_pow_2r_w_1 =
    [(False, 12476459092415118799783401526773416206669661580210656416150317538474783)]"

lemma q_pow_2r_w_1_chain:
  "chain 74058212732561358302231226437062788676166966415465897661863160754340907 0 30397109428614726089754189191956088611235801571633239974164411255784156 q_pow_2r_w_1 30397109428614726089754189191956088611235801571633239974164411255784156 =
     30397109428614726089754189191956088611235801571633239974164411255784155"
  unfolding q_pow_2r_w_1_def by (simp only: chain_eval)

lemma q_pow_2r_w_1_exp: "chain_exp q_pow_2r_w_1 1 = 2"
  by (simp add: q_pow_2r_w_1_def)

lemma q_pow_2r_w: "(30397109428614726089754189191956088611235801571633239974164411255784156 :: int) ^ (2 :: nat) mod 74058212732561358302231226437062788676166966415465897661863160754340907 = 30397109428614726089754189191956088611235801571633239974164411255784155 mod 74058212732561358302231226437062788676166966415465897661863160754340907"
proof -
  have "(30397109428614726089754189191956088611235801571633239974164411255784156 :: int) ^ (1 :: nat) mod (74058212732561358302231226437062788676166966415465897661863160754340907 - 0) = 30397109428614726089754189191956088611235801571633239974164411255784156 mod (74058212732561358302231226437062788676166966415465897661863160754340907 - 0)" by (simp only: power_one_right)
  from chain_step [OF this q_pow_2r_w_1_chain q_pow_2r_w_1_exp] have "(30397109428614726089754189191956088611235801571633239974164411255784156 :: int) ^ (2 :: nat) mod (74058212732561358302231226437062788676166966415465897661863160754340907 - 0) = 30397109428614726089754189191956088611235801571633239974164411255784155 mod (74058212732561358302231226437062788676166966415465897661863160754340907 - 0)" .
  moreover have "(74058212732561358302231226437062788676166966415465897661863160754340907 - 0) = (74058212732561358302231226437062788676166966415465897661863160754340907 :: int)" by simp
  ultimately show ?thesis by (simp only:)
qed

lemma q_pow_2r_inv: "\<exists>v. v * ((61291118961612059379285908211562172259339100412814599022521887267695341 :: int) ^ (150891404959562854545501693087729602 :: nat) - 1) mod 74058212732561358302231226437062788676166966415465897661863160754340907 = 1"
  by (rule inverse_of_power [OF power_chain [OF q_pow_r q_pow_2r_w], where v = 39239772012169330171569421227389829580366043753099518449853970084299219]) simp_all

definition q_pow_3r_w_1 :: "(bool \<times> int) list" where
  "q_pow_3r_w_1 =
    [(False, 12476459092415118799783401526773416206669661580210656416150317538474783),
     (True, 12476459092415118799783401526773416206669661580210656416150317538474782)]"

lemma q_pow_3r_w_1_chain:
  "chain 74058212732561358302231226437062788676166966415465897661863160754340907 0 30397109428614726089754189191956088611235801571633239974164411255784156 q_pow_3r_w_1 30397109428614726089754189191956088611235801571633239974164411255784156 =
     74058212732561358302231226437062788676166966415465897661863160754340906"
  unfolding q_pow_3r_w_1_def by (simp only: chain_eval)

lemma q_pow_3r_w_1_exp: "chain_exp q_pow_3r_w_1 1 = 3"
  by (simp add: q_pow_3r_w_1_def)

lemma q_pow_3r_w: "(30397109428614726089754189191956088611235801571633239974164411255784156 :: int) ^ (3 :: nat) mod 74058212732561358302231226437062788676166966415465897661863160754340907 = 74058212732561358302231226437062788676166966415465897661863160754340906 mod 74058212732561358302231226437062788676166966415465897661863160754340907"
proof -
  have "(30397109428614726089754189191956088611235801571633239974164411255784156 :: int) ^ (1 :: nat) mod (74058212732561358302231226437062788676166966415465897661863160754340907 - 0) = 30397109428614726089754189191956088611235801571633239974164411255784156 mod (74058212732561358302231226437062788676166966415465897661863160754340907 - 0)" by (simp only: power_one_right)
  from chain_step [OF this q_pow_3r_w_1_chain q_pow_3r_w_1_exp] have "(30397109428614726089754189191956088611235801571633239974164411255784156 :: int) ^ (3 :: nat) mod (74058212732561358302231226437062788676166966415465897661863160754340907 - 0) = 74058212732561358302231226437062788676166966415465897661863160754340906 mod (74058212732561358302231226437062788676166966415465897661863160754340907 - 0)" .
  moreover have "(74058212732561358302231226437062788676166966415465897661863160754340907 - 0) = (74058212732561358302231226437062788676166966415465897661863160754340907 :: int)" by simp
  ultimately show ?thesis by (simp only:)
qed

lemma q_pow_3r_inv: "\<exists>v. v * ((61291118961612059379285908211562172259339100412814599022521887267695341 :: int) ^ (226337107439344281818252539631594403 :: nat) - 1) mod 74058212732561358302231226437062788676166966415465897661863160754340907 = 1"
  by (rule inverse_of_power [OF power_chain [OF q_pow_r q_pow_3r_w], where v = 37029106366280679151115613218531394338083483207732948830931580377170453]) simp_all

definition q_one_w_1 :: "(bool \<times> int) list" where
  "q_one_w_1 =
    [(False, 12476459092415118799783401526773416206669661580210656416150317538474783),
     (True, 12476459092415118799783401526773416206669661580210656416150317538474782),
     (False, 74058212732561358302231226437062788676166966415465897661863160754340905)]"

lemma q_one_w_1_chain:
  "chain 74058212732561358302231226437062788676166966415465897661863160754340907 0 30397109428614726089754189191956088611235801571633239974164411255784156 q_one_w_1 30397109428614726089754189191956088611235801571633239974164411255784156 =
     1"
  unfolding q_one_w_1_def by (simp only: chain_eval)

lemma q_one_w_1_exp: "chain_exp q_one_w_1 1 = 6"
  by (simp add: q_one_w_1_def)

lemma q_one_w: "(30397109428614726089754189191956088611235801571633239974164411255784156 :: int) ^ (6 :: nat) mod 74058212732561358302231226437062788676166966415465897661863160754340907 = 1 mod 74058212732561358302231226437062788676166966415465897661863160754340907"
proof -
  have "(30397109428614726089754189191956088611235801571633239974164411255784156 :: int) ^ (1 :: nat) mod (74058212732561358302231226437062788676166966415465897661863160754340907 - 0) = 30397109428614726089754189191956088611235801571633239974164411255784156 mod (74058212732561358302231226437062788676166966415465897661863160754340907 - 0)" by (simp only: power_one_right)
  from chain_step [OF this q_one_w_1_chain q_one_w_1_exp] have "(30397109428614726089754189191956088611235801571633239974164411255784156 :: int) ^ (6 :: nat) mod (74058212732561358302231226437062788676166966415465897661863160754340907 - 0) = 1 mod (74058212732561358302231226437062788676166966415465897661863160754340907 - 0)" .
  moreover have "(74058212732561358302231226437062788676166966415465897661863160754340907 - 0) = (74058212732561358302231226437062788676166966415465897661863160754340907 :: int)" by simp
  ultimately show ?thesis by (simp only:)
qed

lemma q_order: "(61291118961612059379285908211562172259339100412814599022521887267695341 :: int) ^ (452674214878688563636505079263188806 :: nat) mod 74058212732561358302231226437062788676166966415465897661863160754340907 = 1 mod 74058212732561358302231226437062788676166966415465897661863160754340907"
  by (rule power_chain [OF q_pow_r q_one_w]) simp

lemma prime_q: "is_prime 74058212732561358302231226437062788676166966415465897661863160754340907"
proof (rule pocklington_int [of _ 452674214878688563636505079263188806 61291118961612059379285908211562172259339100412814599022521887267695341])
  show "1 < (74058212732561358302231226437062788676166966415465897661863160754340907 :: nat)" "74058212732561358302231226437062788676166966415465897661863160754340907 < (452674214878688563636505079263188806 + 1) * (452674214878688563636505079263188806 + 1 :: nat)" "0 < (452674214878688563636505079263188806 :: nat)" "0 \<le> (61291118961612059379285908211562172259339100412814599022521887267695341 :: int)"
    by simp_all
  show "(61291118961612059379285908211562172259339100412814599022521887267695341 :: int) ^ (452674214878688563636505079263188806 :: nat) mod int 74058212732561358302231226437062788676166966415465897661863160754340907 = 1"
    unfolding of_nat_numeral q_order by simp
  fix r :: nat
  assume r: "is_prime r" "r dvd 452674214878688563636505079263188806"
  have "(452674214878688563636505079263188806 :: nat) = 2 * (3 * 75445702479781427272750846543864801)" by simp
  then have "r dvd 2 * (3 * 75445702479781427272750846543864801)" using r(2) by (simp only:)
  then consider "r = 2" | "r = 3" | "r = 75445702479781427272750846543864801"
    using r(1) prime_small(1) prime_small(2) prime_r by (metis prime_dvd_mult prime_dvd_prime)
  then show "\<exists>v. v * ((61291118961612059379285908211562172259339100412814599022521887267695341 :: int) ^ (452674214878688563636505079263188806 div r) - 1) mod int 74058212732561358302231226437062788676166966415465897661863160754340907 = 1"
  proof cases
    case 1
    have "452674214878688563636505079263188806 div r = 226337107439344281818252539631594403" unfolding 1 by simp
    then show ?thesis unfolding of_nat_numeral by (simp only: q_pow_3r_inv)
  next
    case 2
    have "452674214878688563636505079263188806 div r = 150891404959562854545501693087729602" unfolding 2 by simp
    then show ?thesis unfolding of_nat_numeral by (simp only: q_pow_2r_inv)
  next
    case 3
    have "452674214878688563636505079263188806 div r = 6" unfolding 3 by simp
    then show ?thesis unfolding of_nat_numeral by (simp only: q_pow_6_inv)
  qed
qed

definition p_pow_1 :: "(bool \<times> int) list" where
  "p_pow_1 =
    [(False, 0), (False, 0), (True, 0), (False, 0), (True, 0), (False, 0), (True, 0), (False, 0), (True, 0), (False, 0), (True, 0), (False, 0),
     (False, 42535295865117307932921825928971026432), (True, 0), (False, 45), (True, 0),
     (False, 3618502788666131106986593281521497120414687020801267626233049500247285302104),
     (False, 2035407818624698747679958720855842130233261449200713039756090343889099084589), (True, 0),
     (False, 6533800445550465250799034157747312671530035450646038907133699743997849816392), (True, 0),
     (False, 70175542858883653873880646912025510794933305108079133809452313080946300781345), (True, 0),
     (False, 79649344201432579539766350742846794481266329382648027824454167082659752003892),
     (False, 43324204993500061597826158612414131961250850909546105626879919447147686421064),
     (False, 3075446206036701470872393826992783401752763128678510908850634197157076446817),
     (False, 14548071881403119631352764353181880382398089989767971878400320788394391368918), (True, 0),
     (False, 802028749036987574340757424989663227075669220565584140869463940457761020232),
     (False, 27665405654990747157847101006816744579137975244959593346139654333549227807747)]"

lemma p_pow_1_chain:
  "chain 57896044618658097711785492504343953926634992332820282019728792003956564819968 19 2 p_pow_1 2 =
     427094198651976259540344842774561673889945192655078505504941250475370961481"
  unfolding p_pow_1_def by (simp only: chain_eval)

lemma p_pow_1_exp: "chain_exp p_pow_1 1 = 781764"
  by (simp add: p_pow_1_def)

lemma p_pow: "(2 :: int) ^ (781764 :: nat) mod 57896044618658097711785492504343953926634992332820282019728792003956564819949 = 427094198651976259540344842774561673889945192655078505504941250475370961481 mod 57896044618658097711785492504343953926634992332820282019728792003956564819949"
proof -
  have "(2 :: int) ^ (1 :: nat) mod (57896044618658097711785492504343953926634992332820282019728792003956564819968 - 19) = 2 mod (57896044618658097711785492504343953926634992332820282019728792003956564819968 - 19)" by (simp only: power_one_right)
  from chain_step [OF this p_pow_1_chain p_pow_1_exp] have "(2 :: int) ^ (781764 :: nat) mod (57896044618658097711785492504343953926634992332820282019728792003956564819968 - 19) = 427094198651976259540344842774561673889945192655078505504941250475370961481 mod (57896044618658097711785492504343953926634992332820282019728792003956564819968 - 19)" .
  moreover have "(57896044618658097711785492504343953926634992332820282019728792003956564819968 - 19) = (57896044618658097711785492504343953926634992332820282019728792003956564819949 :: int)" by simp
  ultimately show ?thesis by (simp only:)
qed

definition p_half_1 :: "(bool \<times> int) list" where
  "p_half_1 =
    [(False, 0), (True, 0), (False, 0), (True, 0), (False, 0), (True, 0), (False, 0), (True, 0), (False, 0), (True, 0), (False, 0), (True, 0), (False, 0),
     (True, 0), (False, 57896044618658097711785492504343953926634992332820282019728792003956564819987), (True, 0), (False, 0), (True, 0), (False, 0),
     (True, 0), (False, 0), (True, 0), (False, 0), (True, 0), (False, 551367670776701298155427), (True, 0),
     (False, 471414969316188648141848639006813204435988828222960066194344599217544846819), (True, 0),
     (False, 3407866525535113841503589958590043906304684900224015490269592213704318216751), (True, 0),
     (False, 230670511724984327051423730994569764523037356561967515897898339198807049245695), (True, 0),
     (False, 71142964988752884645110520031288556617746309944827221946837426296122387166979), (True, 0),
     (False, 171583984354742985919412036132017781222206278710604399113907078697094003420026), (True, 0),
     (False, 2665846952031364783018773992346036109755330739932224151481272086967524792203), (True, 0),
     (False, 139149046005675043814012904339863800978465454761477308725155673424935693241674), (True, 0),
     (False, 133336968869523384727842675457561626195978281840739045316012653000213236383970), (True, 0),
     (False, 23928397935920379955512007785372125661117788988114052563415782363179742778646), (True, 0),
     (False, 171238110349907863710746494855158607275934948671731872022235445200487138955204), (True, 0),
     (False, 3560633884758025642783116627152126157595607415593531725726976969355407985118), (True, 0),
     (False, 53923294150705828565368826338412799648856659163320307707260385703557986631583), (True, 0),
     (False, 76044607593133980767999126494082573882063843443145346841406974429563919999390), (True, 0),
     (False, 117919976561579486296219938932181211119591928705743540169228117581774924820374), (True, 0),
     (False, 60822095141532084264835201464724384730070623700440966790240517801418262404630), (True, 0),
     (False, 11943372357400507443348253884768913886339676427623192579885771269647908609), (True, 0),
     (False, 17118158802952081792840531496358459117685652362575403783107487690461445687328), (True, 0),
     (False, 24709034407036513893469611482550692409285213297551637500997077279735405725131), (True, 0),
     (False, 124025164371686990460235357821560396023699948404507862535256629899531787354489), (True, 0),
     (False, 137512662204293178767259077013413812985237022206706495658117071950019383853435), (True, 0),
     (False, 60750950537415803290960490869512623872837258899958216512910775487714390852166), (True, 0),
     (False, 137147012018270933102234260200505410558083248767826125179873922315467421601551), (True, 0),
     (False, 62612733039900220761580795166361137199452857364745997637756564283520872574374), (True, 0),
     (False, 35279873049037812512565726277712980084699254382477131464931400566541688700090), (True, 0),
     (False, 67246790302436477800846195972650407731901344579414775660795774916720106843811), (True, 0),
     (False, 60226612361455227305347481015053592637359295821881322809749753667108748259342), (True, 0),
     (False, 168438182841008200687531684433967833537387569306722372869811171295549605443352), (True, 0),
     (False, 86144105886817101860158693821229672255608341567407598000680550321025335149010), (True, 0),
     (False, 24862898105970042728676350278165755353319436010562400292967723280651932833644), (True, 0)]"

lemma p_half_1_chain:
  "chain 57896044618658097711785492504343953926634992332820282019728792003956564819968 19 2 p_half_1 2 =
     46131046929608509272025581854558611791457008173809605434919116803945800816936"
  unfolding p_half_1_def by (simp only: chain_eval)

lemma p_half_1_exp: "chain_exp p_half_1 1 = 8796093022207"
  by (simp add: p_half_1_def)

definition p_half_2 :: "(bool \<times> int) list" where
  "p_half_2 =
    [(False, 36756802728729600531726087272816562406879448001401373929296461274828077918209), (True, 0),
     (False, 25353755948197279762666397291776098037850158119451351272397113091492710097640), (True, 0),
     (False, 17267853914048470939510667104009318908096613854289526590354665844674996902411), (True, 0),
     (False, 189434681480085091996871650645362222508462441020591636344000185204608648829884), (True, 0),
     (False, 177604475211107202206012473926157952732377692783212050585359950152553536235551), (True, 0),
     (False, 56545821938332486596338455774468401319511776608686621763375388645032594878943), (True, 0),
     (False, 119288324517581242787671991026171419874200790793524586940657627558949768610514), (True, 0),
     (False, 131703090172128245931873865548160346957230374192342349894352300263981009213407), (True, 0),
     (False, 183038443827859926177568375947147285305643136522378524381425509161285844806407), (True, 0),
     (False, 144452856149658693570339777562899991066192687554059783757919931994061427500777), (True, 0),
     (False, 34422222935773790789221719152985076944217531422821043890868592406458989673625), (True, 0),
     (False, 3416869186076979195408381920164290471325947390330921693883783041443971949873), (True, 0),
     (False, 31018060762638393180564791363989257063490167008424270573819926845480746465267), (True, 0),
     (False, 109835229334475217118996828118123418521819342424874958004071418104130969333854), (True, 0),
     (False, 205700677640964996028409234918437455899559596533579628667632116217447988874970), (True, 0),
     (False, 216993017772033689384262862465403142376815705483762393638856128480548642241), (True, 0),
     (False, 2101788537048623504834225826970024310125226859702642337824896622666847082892), (True, 0),
     (False, 8895849337796095116237439385236547701306024649220891067205138747842128736268), (True, 0),
     (False, 128361398222275022742929022406275802086446462510068451685174326779883733115120), (True, 0),
     (False, 28716442226719068658824201779832814513948555602308443333381501604034730554785), (True, 0),
     (False, 132476345436891288004666804871646916951900019345426076379285697972930019792559), (True, 0),
     (False, 6156117443938301231651341101675042404686267312950665644128134936757225832879), (True, 0),
     (False, 204677805368615491254518205082107597312585019285980544834698684994683697999377), (True, 0),
     (False, 187454504320909743728180001858815635469350569715854647189465499519126395814740), (True, 0),
     (False, 174158180410167149673166694975480960944555795821721855939360451978914800356490), (True, 0),
     (False, 2005854012335102823452386618730604052206372791465906569940142631229222519647), (True, 0),
     (False, 56394399093030582784116056142707547306765342825094149589393312074902729611212), (True, 0),
     (False, 140416199456788484034054996768587143941809679736129253412964245586237687082464), (True, 0),
     (False, 16889268194537246083546811622875068817563320444935747414666215946854964529888), (True, 0),
     (False, 20271194372806737709706397760980942583095928173480030371678826465406616475614), (True, 0),
     (False, 141768745944993455606589660857170398858305632898075786869784960757312376048753), (True, 0),
     (False, 71741418252236438757208656739304991106614285096137181180046965618579617431049), (True, 0),
     (False, 62515663576972597663398470976987094314252672244243574052811953349468054605963), (True, 0),
     (False, 8238681424565225299266751844842172828830319530783106852319391305803976409971), (True, 0),
     (False, 5125327568877541968277300888667609251811230513338575116327133334009327585), (True, 0),
     (False, 32810657055960282412915668423116061619604332494211937948208326053481635288382), (True, 0),
     (False, 42478910719567388165630751140420056710130867903138243429110777701021205997733), (True, 0),
     (False, 7441470672782062414033008806004242560997426410117646686610180934616964641086), (True, 0),
     (False, 33083944380557139164680023649838723823417951100109305745401915458196770814132), (True, 0),
     (False, 20495068566402154533996930702740369191874096542995655459154539015486809862467), (True, 0),
     (False, 5246741201056289111024866886637622140431735845501473962723609422724845124280), (True, 0),
     (False, 41443819575429813992847694542229700650807284257762212720407074675022320139488), (True, 0)]"

lemma p_half_2_chain:
  "chain 57896044618658097711785492504343953926634992332820282019728792003956564819968 19 2 p_half_2 46131046929608509272025581854558611791457008173809605434919116803945800816936 =
     92069400252133579747025517601004531184598189437364641263970270446886195721664"
  unfolding p_half_2_def by (simp only: chain_eval)

lemma p_half_2_exp: "chain_exp p_half_2 8796093022207 = 38685626227668133590597631"
  by (simp add: p_half_2_def)

definition p_half_3 :: "(bool \<times> int) list" where
  "p_half_3 =
    [(False, 146413706128307315187578810141627635103060531057187701371116902945813855305976), (True, 0),
     (False, 59587316915683225845385035149429229316003615450717790073680680970143035055124), (True, 0),
     (False, 16517996319079680939035277194410652253408612898022229499751467114015036503646), (True, 0),
     (False, 1799340772909007023266297515174663813619483123011053940376182594260146381225), (True, 0),
     (False, 1754630476524522313018920235930529268257876301723027533041273703982110211587), (True, 0),
     (False, 10648461558475622927153850614471661281652948811336516426337006870186985945601), (True, 0),
     (False, 1034271305318001520074328570813269074977029292833347339148016836995778925998), (True, 0),
     (False, 128585889092204227276209676244486259976299044120637539643015032721650016468828), (True, 0),
     (False, 38067900130695651748110003085237792188281905433617146035129549670715134913379), (True, 0),
     (False, 53510761388665855266255731527967176842872209147895899016884270317280663115512), (True, 0),
     (False, 103004681946227926528613025677747258359661201530585820213125825282099820077332), (True, 0),
     (False, 44005011651842232519099550985716175337911880197539896439079776174424641785853), (True, 0),
     (False, 136596820381202337879067464829444687101286771240284185174062812455423960953188), (True, 0),
     (False, 148713067494296692252714656966527189801871981713086138620290678019825772874846), (True, 0),
     (False, 19919691482104424180167033635695001762613040171910525325451729788372670287925), (True, 0),
     (False, 51175435815910854108613489174731959111783900121188198938522937440608348970766), (True, 0),
     (False, 118626249217253438425849884772538750798815683998471457683022067520820883033576), (True, 0),
     (False, 181689849440081725349185306946473722330939974462615129461339648389909471683791), (True, 0),
     (False, 33308572655475613267824929524615447545158404722743749667789010782257256126453), (True, 0),
     (False, 230433580470342223982623257751250507672202815162612122392627055897323912535094), (True, 0),
     (False, 85325095052422919005316211844920804645873259047138919825015121293056922505644), (True, 0),
     (False, 55045489137399753797307129082151059155970630100215495574175533899729989412223), (True, 0),
     (False, 124844953989519768780556629037170149649052336734585164563571692017308522989697), (True, 0),
     (False, 1305356857864042216093128053004413470165559933737798444605362411755619934485), (True, 0),
     (False, 73114556693234783014083845886500774472053738707247706546846883967363441913914), (True, 0),
     (False, 42822734160677456268782020039975479586999786062461677495271803848438877882926), (True, 0),
     (False, 17479270358499966951829612130829889493870552014460528968525281941893056375130), (True, 0),
     (False, 109926445053297610399067051949527246989319421255374894356573023413541675192315), (True, 0),
     (False, 57280462650310105513029781631875530915670216750908601058308989745216453440192), (True, 0),
     (False, 61659978328217049015297259660306095455770024591394909237925716873282251573066), (True, 0),
     (False, 155437939264828345724351925613946908598813954555858217016461531934135824660), (True, 0),
     (False, 55610682512706337873978188305924908538426245872387794536059947164666703719215), (True, 0),
     (False, 212350007696859168139411362489834939516485714990000561706470193610754468711244), (True, 0),
     (False, 9491349428935541543091274868150239842983114647560533763528427765929777774290), (True, 0),
     (False, 180108824687602746948477826302210625045199289345937129668654360221261969253397), (True, 0),
     (False, 54045269050302048059152120362555340436145570186392158687151863763997198656325), (True, 0),
     (False, 282381374628920295336720119864987421737720455350748927113257984068709065777), (True, 0),
     (False, 133454276858201687107210312785579308361889786713744350744861998517416144417990), (True, 0),
     (False, 7619079073400264538558131946985180192059335542748408178470356216476381908686), (True, 0),
     (False, 98665433289282821836950647984066597007259853147694127776322647255339859409768), (True, 0),
     (False, 144817313873710276381135173022644408914331327197451536807153698303613693915963), (True, 0),
     (False, 2220394316333216009624907998909708589796079744530080656945614047445369212804), (True, 0)]"

lemma p_half_3_chain:
  "chain 57896044618658097711785492504343953926634992332820282019728792003956564819968 19 2 p_half_3 92069400252133579747025517601004531184598189437364641263970270446886195721664 =
     50503907384779849179363696987365820920550266664725850379172394941928600753056"
  unfolding p_half_3_def by (simp only: chain_eval)

lemma p_half_3_exp: "chain_exp p_half_3 38685626227668133590597631 = 170141183460469231731687303715884105727"
  by (simp add: p_half_3_def)

definition p_half_4 :: "(bool \<times> int) list" where
  "p_half_4 =
    [(False, 44055594435348127377724776487204696907507211677472191898013562979475015236604), (True, 0),
     (False, 124380364917011673605582388624559479143932249664250351250870148974052172262920), (True, 0),
     (False, 302875889030172730835508257261864954711796571589235523116062309692813122094), (True, 0),
     (False, 72982606141337297805621703295798801013579900567358741853640686596049322541970), (True, 0),
     (False, 15027475222894196806802994833546260369442219777489806240295755017393755663346), (True, 0),
     (False, 201078661936941309155499941997840980286762141256974257487404667967961969392444), (True, 0),
     (False, 136911158054128970390141317744642085037630320262963758448200065751950070613657), (True, 0),
     (False, 37850068221095201532609376676004733302243943230204913968569519245682065798758), (True, 0),
     (False, 27783503836313571807364827048261448516099795568732763446431612612964542792142), (True, 0),
     (False, 19288325560055351098889800220833346942179413715957681929084313983125243625437), (True, 0),
     (False, 98573165902813413441488406440566614194936091568263245786785506427099070932952), (True, 0),
     (False, 87091451388060611290697267917881840518647129029633578065911842140979760762473), (True, 0),
     (False, 126916241460410410200858457289065851303636355117221040741767442929697914835128), (True, 0),
     (False, 105382309250137224977649825849144384611004212975205754219663817804425469473108), (True, 0),
     (False, 1421292872991446808646562041911757268817083506367382179209222248878657864297), (True, 0),
     (False, 137473009875762882027618252473611812669790045446598305617539897877545732062832), (True, 0),
     (False, 31901151257899211189622793396592987097555832481685917612352131763529641104), (True, 0),
     (False, 90274696935179389648920889725910058732314599814732467778797707378090998364233), (True, 0),
     (False, 230150043512638800963827888411295629855017551559856095802933325827043480663639), (True, 0),
     (False, 167388353320833685330552728126908352904184147216229236710039536001960387117642), (True, 0),
     (False, 36503755027782280052174913481232021732654902378845063409453609783886748585528), (True, 0),
     (False, 13237873840041991748115054468211995668817644001014138344461492588407372645449), (True, 0),
     (False, 151493897713363329771185698525042940691474353817261737154577607836143229889930), (True, 0),
     (False, 25108486629058182604762270031537733901708592328946374186925699484189209197230), (True, 0),
     (False, 3337776304540138305622174871086675732482979236034894874141310488944279510669), (True, 0),
     (False, 69318727144370688626914269143654110466863900347094551997521947103364409682274), (True, 0),
     (False, 221561764546772616307884707287491388067166135715888785880865873537075510512703), (True, 0),
     (False, 109608416219845980508261604114719264216654809504239246196608301207085177986315), (True, 0),
     (False, 72447819016532777017800229820655714232562300674330855516031231042438113910221), (True, 0),
     (False, 8013994009874995333984039403712644238391650748239393515630351795945873323694), (True, 0),
     (False, 9385496614479507187584469048759426146413506831694861778511263412886577289468), (True, 0),
     (False, 77979862340523352585705624893628341081476641036732492032918443712008630113881), (True, 0),
     (False, 122702366307832463962887355281285187691494426383926737954575647277220840098857), (True, 0),
     (False, 170911017339147422924237584567887299437365559063960872943438074509910788206633), (True, 0),
     (False, 123264339249939497496125471298155490546204120377912654037737361089003019836643), (True, 0),
     (False, 222453263738605777124088385156897212247810146553099077840901237867624007499784), (True, 0),
     (False, 73052762384718368744289954637973244111685839617963523784566252242303397642751), (True, 0),
     (False, 108505913959775399783440613756451504674292986100210838205846608288989353165824), (True, 0),
     (False, 127246530789294915340251514178452953209546130752164394296936405240464319995758), (True, 0),
     (False, 21864989942314422257480581979992467344513913273228370487913995907076453880776), (True, 0),
     (False, 57837776185654502373325086475270774786881495982195931778083657348047190318992), (True, 0),
     (False, 177092547177990806595066409888632163353732992711279643650987511485894703877748), (True, 0)]"

lemma p_half_4_chain:
  "chain 57896044618658097711785492504343953926634992332820282019728792003956564819968 19 2 p_half_4 50503907384779849179363696987365820920550266664725850379172394941928600753056 =
     73580286788001708387724126014451007121714610964207568713571394457620655697208"
  unfolding p_half_4_def by (simp only: chain_eval)

lemma p_half_4_exp: "chain_exp p_half_4 170141183460469231731687303715884105727 = 748288838313422294120286634350736906063837462003711"
  by (simp add: p_half_4_def)

definition p_half_5 :: "(bool \<times> int) list" where
  "p_half_5 =
    [(False, 93513445339231270451181804713207304393003537087506463164496004669516016621860), (True, 0),
     (False, 61009830667979852558518249017357806564739831629332902491658849307447723589362), (True, 0),
     (False, 1788129736276094883269277072266192172362686574469800587421772222119860461196), (True, 0),
     (False, 48961047126477420790218079424981091007995122616194173222455379438002112610048), (True, 0),
     (False, 89350806597894992051568918563638429754864236158735145762652407719768207973966), (True, 0),
     (False, 635446124032282505865965989614742290174211606865086957036102317609105133100), (True, 0),
     (False, 4668783131598041720440118816469797946176876587635082111330651932063688609895), (True, 0),
     (False, 662871824790663965045266821083179359229307001827533299905971075055140474104), (True, 0),
     (False, 59273369105077727973865474613933116192970505402409934719296824168802121717921), (True, 0),
     (False, 217675488063187012131604363867239187839953517593462505980835920348223124442082), (True, 0),
     (False, 170253416355285197977896927308905462454328719175969252351849150848885080501353), (True, 0),
     (False, 214342511530668490689239230810780863855612983540817216943118531165299494657512), (True, 0),
     (False, 15307365246307946825888782069074061503845253185377170402705130973837581168725), (True, 0),
     (False, 736113097430203663969703056262875552398608309654522277504723814038480845259), (True, 0),
     (False, 2853835703775373041814430622580177504821342000060573621834843227735012260527), (True, 0),
     (False, 9968141293830594758694910010595223938172889029391105051455219086464298847516), (True, 0),
     (False, 23656856626744453021404170365714492677656079249781751917588656858403608676649), (True, 0),
     (False, 29002193769811042582141368991701903873985953348237497178160956160036688512245), (True, 0),
     (False, 16025805420470702356980109020037825944744827483279515371612276817194112396895), (True, 0),
     (False, 194833335599451838774247087374888966897370769182234295695587797589998205694182), (True, 0),
     (False, 10143059592201156448079252101130233593246221336884982653971847570617487538313), (True, 0),
     (False, 34269996010133816910242579591446204853061184422688904802319599167086009614733), (True, 0),
     (False, 50033084588199673911362795555644721796856196302409271924337780299531018011640), (True, 0),
     (False, 17753162181929155995660559730414894553899061379696090683567942518943299940293), (True, 0),
     (False, 205243887371406203733735377188694883113785332547671094364077261632010210698866), (True, 0),
     (False, 41056464178956021426237172540911978800556768914410975287109404695535889887707), (True, 0),
     (False, 22668687174690027022148091007487442172845448044866169660372733519085068395032), (True, 0),
     (False, 161251384915379327986659064660149926480030529413028193163063725272068293801664), (True, 0),
     (False, 35725605773954585153145063544328669121686136131410331139299338493408085414441), (True, 0),
     (False, 32157101960039852532919172217768695617160610907562041658670797021687981852936), (True, 0),
     (False, 43527744272610477221211999656933677195064112105245543227958281890375059869743), (True, 0),
     (False, 139987207766772309624260630670929041611543297381993259928922750548962910882950), (True, 0),
     (False, 82120604846894892261928894961396090762620027978742688809398613468923077461782), (True, 0),
     (False, 524289447139529778917793415707730929095413079782405100777026495409155843146), (True, 0),
     (False, 162778456399789446307091364412394508748257557868581741776771692661108766468408), (True, 0),
     (False, 137412650580336542912402450752668093637214398787280241250363007895262216561267), (True, 0),
     (False, 94359979153256415621742797986273119922719572453851289049993798653088896483426), (True, 0),
     (False, 72445330731910096441977380428597650980651837268296994428217793860381798498643), (True, 0),
     (False, 63262800240392696656141456711499377446680234708266617350478866711371541909712), (True, 0),
     (False, 125337626402008974619535950238285166197033798830735595331881465906651369221457), (True, 0),
     (False, 10605825627066352951803434514399964308762033143118146136327543324251785925598), (True, 0),
     (False, 33551778071489997975838705634357012806679398618112868929646474427764971831086), (True, 0)]"

lemma p_half_5_chain:
  "chain 57896044618658097711785492504343953926634992332820282019728792003956564819968 19 2 p_half_5 73580286788001708387724126014451007121714610964207568713571394457620655697208 =
     57079518814717006129559040589390601886102144762720731787304697448910039485684"
  unfolding p_half_5_def by (simp only: chain_eval)

lemma p_half_5_exp: "chain_exp p_half_5 748288838313422294120286634350736906063837462003711 = 3291009114642412084309938365114701009965471731267159726697218047"
  by (simp add: p_half_5_def)

definition p_half_6 :: "(bool \<times> int) list" where
  "p_half_6 =
    [(False, 56274508726450328418800403730263863898771161063705210646891764198179012486912), (True, 0),
     (False, 162996856616292076201891652863387925010437948595685053996819233349703661271), (True, 0),
     (False, 5076815061863441977300191284933751533628984561378253438405334233103365032924), (True, 0),
     (False, 64400946287485425137850160258910823506512150244985933661338908060257825635781), (True, 0),
     (False, 51991457958631342045856910769726130599711200470649081369015971756292366147018), (True, 0),
     (False, 25162183085703531035957969185654340311238534096717633862515072500407943831926), (True, 0),
     (False, 167937930091191567353932274449396054488937499705542283039300339037602314958077), (True, 0),
     (False, 2303228600572644604515441976407479583840467241749730231922181880756343400006), (True, 0),
     (False, 1443758593206892706073693312445564359926385478822933483050614370520783624271), (True, 0),
     (False, 68073874902597986781745794722557076912499663381245156053043110180223210452358), (True, 0),
     (False, 9809639751662067775868092497712082155571803445972882665476354908580563145197), (True, 0),
     (False, 55555083487403914971962245366740448323310995147541568388744238947045138589601), (True, 0),
     (False, 108377909439773820543829898491669604769269490129580467146523377989378458318360), (True, 0),
     (False, 10457125170669700630404733762268851047827608662724064566027709665050957541279), (True, 0),
     (False, 211228553213085206017860249345927352064021230358131307344857344776899774542038), (True, 0),
     (False, 85181110761879264971219218216013737610939835135878970361314535388661791203782), (True, 0),
     (False, 58233082901473156917111589897588421084512857932613073796596644548249942104224), (True, 0),
     (False, 39441496655223303039759417915861689489363618844380879985731524478113090040804), (True, 0),
     (False, 103472355160868717213106781013224901227314378115784321359780309883881990084470), (True, 0),
     (False, 4890451554444173848410957734683484733226051917653238714885572708029795535170), (True, 0),
     (False, 18456520398370488039843537567843724983955339456682546302112090673107915846248), (True, 0),
     (False, 157874636734995487501112632143620940831772758817771912974295942172268835864270), (True, 0),
     (False, 62085033548885797809657458096451009382818471336053157034486107480629735377671), (True, 0),
     (False, 7082043758824245724250220596714854179926743030333258907231048198507040482565), (True, 0),
     (False, 31303950045713125514061803103590566770527472272055125651918955958412523154392), (True, 0),
     (False, 510267628463283979229419957349098934725685364919538872042369683079085276097), (True, 0),
     (False, 145489281189158125115315569855181629058855247391967553297233627349417502760811), (True, 0),
     (False, 205288040023428966199637911426723912171760967569622294435566395916042891964356), (True, 0),
     (False, 176597698285333439831849005196930898745829320356653020738015149081717782352474), (True, 0),
     (False, 51378671528608940569087741980960467593970222348428561824640594976783518703756), (True, 0),
     (False, 24355948021092395447979661187192218210830508252954296606083603713466683562101), (True, 0),
     (False, 65753799307779058462314517431026059246278924491830706843042976802759807847205), (True, 0),
     (False, 253336106856337575822702567059325284535630038361273611531628918011000249141), (True, 0),
     (False, 5588740563730558779593242541589981380428579260506075958851115525931187564087), (True, 0),
     (False, 134502146670233558463654728247469182126620354973807924183508499760505376718280), (True, 0),
     (False, 4156740446654141806491148504172307452323988466306753580168007149530713070092), (True, 0),
     (False, 142033974470508898215152828492923191776782506621460585409198326505324714779591), (True, 0),
     (False, 120662093529790623648778289637323538061909402978679408689521321279247406528211), (True, 0),
     (False, 121314138379867349434574764080982810236707046759772847434423925748143708449502), (True, 0),
     (False, 57488892892568471791421702514207109143894690784151447750986744052104094219481),
     (False, 9106281343991085101820925239539015584070553017230308605775087286567541147175), (True, 0),
     (False, 161460444254312137291354927053218098950342800733712525499388657078398516743576), (True, 0),
     (False, 6690407189080634018507799843845558368979872843924222843531373839242004886244)]"

lemma p_half_6_chain:
  "chain 57896044618658097711785492504343953926634992332820282019728792003956564819968 19 2 p_half_6 57079518814717006129559040589390601886102144762720731787304697448910039485684 =
     57896044618658097711785492504343953926634992332820282019728792003956564819948"
  unfolding p_half_6_def by (simp only: chain_eval)

lemma p_half_6_exp: "chain_exp p_half_6 3291009114642412084309938365114701009965471731267159726697218047 = 28948022309329048855892746252171976963317496166410141009864396001978282409974"
  by (simp add: p_half_6_def)

lemma p_half: "(2 :: int) ^ (28948022309329048855892746252171976963317496166410141009864396001978282409974 :: nat) mod 57896044618658097711785492504343953926634992332820282019728792003956564819949 = 57896044618658097711785492504343953926634992332820282019728792003956564819948 mod 57896044618658097711785492504343953926634992332820282019728792003956564819949"
proof -
  have "(2 :: int) ^ (1 :: nat) mod (57896044618658097711785492504343953926634992332820282019728792003956564819968 - 19) = 2 mod (57896044618658097711785492504343953926634992332820282019728792003956564819968 - 19)" by (simp only: power_one_right)
  from chain_step [OF this p_half_1_chain p_half_1_exp] have "(2 :: int) ^ (8796093022207 :: nat) mod (57896044618658097711785492504343953926634992332820282019728792003956564819968 - 19) = 46131046929608509272025581854558611791457008173809605434919116803945800816936 mod (57896044618658097711785492504343953926634992332820282019728792003956564819968 - 19)" .
  from chain_step [OF this p_half_2_chain p_half_2_exp] have "(2 :: int) ^ (38685626227668133590597631 :: nat) mod (57896044618658097711785492504343953926634992332820282019728792003956564819968 - 19) = 92069400252133579747025517601004531184598189437364641263970270446886195721664 mod (57896044618658097711785492504343953926634992332820282019728792003956564819968 - 19)" .
  from chain_step [OF this p_half_3_chain p_half_3_exp] have "(2 :: int) ^ (170141183460469231731687303715884105727 :: nat) mod (57896044618658097711785492504343953926634992332820282019728792003956564819968 - 19) = 50503907384779849179363696987365820920550266664725850379172394941928600753056 mod (57896044618658097711785492504343953926634992332820282019728792003956564819968 - 19)" .
  from chain_step [OF this p_half_4_chain p_half_4_exp] have "(2 :: int) ^ (748288838313422294120286634350736906063837462003711 :: nat) mod (57896044618658097711785492504343953926634992332820282019728792003956564819968 - 19) = 73580286788001708387724126014451007121714610964207568713571394457620655697208 mod (57896044618658097711785492504343953926634992332820282019728792003956564819968 - 19)" .
  from chain_step [OF this p_half_5_chain p_half_5_exp] have "(2 :: int) ^ (3291009114642412084309938365114701009965471731267159726697218047 :: nat) mod (57896044618658097711785492504343953926634992332820282019728792003956564819968 - 19) = 57079518814717006129559040589390601886102144762720731787304697448910039485684 mod (57896044618658097711785492504343953926634992332820282019728792003956564819968 - 19)" .
  from chain_step [OF this p_half_6_chain p_half_6_exp] have "(2 :: int) ^ (28948022309329048855892746252171976963317496166410141009864396001978282409974 :: nat) mod (57896044618658097711785492504343953926634992332820282019728792003956564819968 - 19) = 57896044618658097711785492504343953926634992332820282019728792003956564819948 mod (57896044618658097711785492504343953926634992332820282019728792003956564819968 - 19)" .
  moreover have "(57896044618658097711785492504343953926634992332820282019728792003956564819968 - 19) = (57896044618658097711785492504343953926634992332820282019728792003956564819949 :: int)" by simp
  ultimately show ?thesis by (simp only:)
qed

text \<open>Two is no square: its power to half of \<open>p - 1\<close> is \<open>-1\<close>.\<close>

lemma two_power_half: "(2 :: int) ^ (28948022309329048855892746252171976963317496166410141009864396001978282409974 :: nat) mod 57896044618658097711785492504343953926634992332820282019728792003956564819949 = 57896044618658097711785492504343953926634992332820282019728792003956564819948 mod 57896044618658097711785492504343953926634992332820282019728792003956564819949"
  by (rule p_half)

lemma p_pow_inv: "\<exists>v. v * (((2 :: int) ^ (781764 :: nat)) ^ (1 :: nat) - 1) mod 57896044618658097711785492504343953926634992332820282019728792003956564819949 = 1"
  unfolding power_one_right by (rule inverse_of_power [OF p_pow, where v = 55540832096118778044507775605005710249233119951144946814680141076505643269084]) simp

lemma p_order: "((2 :: int) ^ (781764 :: nat)) ^ (74058212732561358302231226437062788676166966415465897661863160754340907 :: nat) mod 57896044618658097711785492504343953926634992332820282019728792003956564819949 = 1 mod 57896044618658097711785492504343953926634992332820282019728792003956564819949"
proof -
  have "(57896044618658097711785492504343953926634992332820282019728792003956564819948 :: int) ^ (2 :: nat) mod 57896044618658097711785492504343953926634992332820282019728792003956564819949 = 1 mod 57896044618658097711785492504343953926634992332820282019728792003956564819949" by simp
  then have "(2 :: int) ^ (57896044618658097711785492504343953926634992332820282019728792003956564819948 :: nat) mod 57896044618658097711785492504343953926634992332820282019728792003956564819949 = 1 mod 57896044618658097711785492504343953926634992332820282019728792003956564819949"
    by (rule power_chain [OF two_power_half]) simp
  moreover have "781764 * 74058212732561358302231226437062788676166966415465897661863160754340907 = (57896044618658097711785492504343953926634992332820282019728792003956564819948 :: nat)" by simp
  ultimately show ?thesis by (simp only: power_mult [symmetric])
qed

lemma prime_2_255_19: "is_prime (2 ^ 255 - 19)"
proof -
  have "is_prime 57896044618658097711785492504343953926634992332820282019728792003956564819949"
  proof (rule pocklington_int [of _ 74058212732561358302231226437062788676166966415465897661863160754340907 "2 ^ 781764"])
    show "1 < (57896044618658097711785492504343953926634992332820282019728792003956564819949 :: nat)" "57896044618658097711785492504343953926634992332820282019728792003956564819949 < (74058212732561358302231226437062788676166966415465897661863160754340907 + 1) * (74058212732561358302231226437062788676166966415465897661863160754340907 + 1 :: nat)" "0 < (74058212732561358302231226437062788676166966415465897661863160754340907 :: nat)"
      by simp_all
    show "0 \<le> (2 :: int) ^ 781764" by (rule zero_le_power) simp
    show "((2 :: int) ^ (781764 :: nat)) ^ (74058212732561358302231226437062788676166966415465897661863160754340907 :: nat) mod int 57896044618658097711785492504343953926634992332820282019728792003956564819949 = 1"
      unfolding of_nat_numeral p_order by simp
    fix r :: nat
    assume r: "is_prime r" "r dvd 74058212732561358302231226437062788676166966415465897661863160754340907"
    have "74058212732561358302231226437062788676166966415465897661863160754340907 div r = 1" unfolding prime_dvd_prime [OF r(1) prime_q r(2)] by simp
    then show "\<exists>v. v * (((2 :: int) ^ (781764 :: nat)) ^ (74058212732561358302231226437062788676166966415465897661863160754340907 div r) - 1) mod int 57896044618658097711785492504343953926634992332820282019728792003956564819949 = 1"
      unfolding of_nat_numeral by (simp only: p_pow_inv)
  qed
  moreover have "(2 ^ 255 - 19 :: nat) = 57896044618658097711785492504343953926634992332820282019728792003956564819949" by simp
  ultimately show ?thesis by (simp only:)
qed

text \<open>The same with the exponent hidden, so that no proof tries to compute the power.\<close>

lemma two_power: "\<exists>h :: nat. 2 * h + 1 = 2 ^ 255 - 19 \<and> (2 :: int) ^ h mod (2 ^ 255 - 19) = 2 ^ 255 - 20"
proof (intro exI conjI)
  show "2 * 28948022309329048855892746252171976963317496166410141009864396001978282409974 + 1 = (2 ^ 255 - 19 :: nat)" by simp
  have e: "(2 ^ 255 - 19 :: int) = 57896044618658097711785492504343953926634992332820282019728792003956564819949" "(2 ^ 255 - 20 :: int) = 57896044618658097711785492504343953926634992332820282019728792003956564819948" by simp_all
  show "(2 :: int) ^ 28948022309329048855892746252171976963317496166410141009864396001978282409974 mod (2 ^ 255 - 19) = 2 ^ 255 - 20"
    unfolding e two_power_half by simp
qed

end
