(* ===== verification/Gf25519.thy ===== *)
theory Gf25519
  imports Prime25519 DonnaLadder
begin

text \<open>
  The field with \<open>2 ^ 255 - 19\<close> elements as a type, an instance of the class \<open>field\<close> of the library.
  The integers of the code are elements of it by \<open>of_int\<close>.
\<close>

section \<open>The prime\<close>

lemma prime25519_pos [simp]: "0 < prime25519" "1 < prime25519" "2 < prime25519"
  by (simp_all add: prime25519_def)

definition p25519 :: nat where "p25519 = nat prime25519"

lemma int_p25519: "int p25519 = prime25519"
  by (simp add: p25519_def less_imp_le)

lemma is_prime_p25519: "is_prime p25519"
proof -
  have "p25519 = 2 ^ 255 - 19" by (simp add: p25519_def prime25519_def nat_diff_distrib)
  then show ?thesis using prime_2_255_19 by (simp only:)
qed

lemma prime25519_dvd_mult: "prime25519 dvd a * b \<longleftrightarrow> prime25519 dvd a \<or> prime25519 dvd b"
proof -
  have i: "int p25519 dvd k \<longleftrightarrow> p25519 dvd nat \<bar>k\<bar>" for k by (rule dvd_nat_abs_iff [symmetric])
  show ?thesis
    unfolding int_p25519 [symmetric] i abs_mult nat_mult_distrib [OF abs_ge_zero]
    by (rule prime_dvd_mult [OF is_prime_p25519])
qed

section \<open>The type\<close>

typedef gf = "{k :: int. 0 \<le> k \<and> k < prime25519}"
  by (rule exI [of _ 0]) simp

setup_lifting type_definition_gf

instantiation gf :: comm_ring_1
begin

lift_definition zero_gf :: gf is 0 by simp
lift_definition one_gf :: gf is 1 by simp
lift_definition plus_gf :: "gf \<Rightarrow> gf \<Rightarrow> gf" is "\<lambda>a b. (a + b) mod prime25519" by simp
lift_definition minus_gf :: "gf \<Rightarrow> gf \<Rightarrow> gf" is "\<lambda>a b. (a - b) mod prime25519" by simp
lift_definition uminus_gf :: "gf \<Rightarrow> gf" is "\<lambda>a. (- a) mod prime25519" by simp
lift_definition times_gf :: "gf \<Rightarrow> gf \<Rightarrow> gf" is "\<lambda>a b. (a * b) mod prime25519" by simp

instance
  by standard (transfer; simp add: mod_simps algebra_simps)+

end

lemma Rep_gf_bounds: "0 \<le> Rep_gf x" "Rep_gf x < prime25519"
  using Rep_gf [of x] by auto

lemma Rep_gf_mod [simp]: "Rep_gf x mod prime25519 = Rep_gf x"
  using Rep_gf_bounds [of x] by simp

lemma Rep_of_int: "Rep_gf (of_int k) = k mod prime25519"
proof -
  have nat: "Rep_gf (of_nat n) = int n mod prime25519" for n
    by (induction n) (simp_all add: zero_gf.rep_eq one_gf.rep_eq plus_gf.rep_eq mod_simps)
  show ?thesis
  proof (cases k)
    case (nonneg n)
    then show ?thesis by (simp add: nat)
  next
    case (neg n)
    then show ?thesis by (simp add: uminus_gf.rep_eq nat mod_simps del: of_nat_Suc)
  qed
qed

lemma of_int_gf_eq_iff: "(of_int a :: gf) = of_int b \<longleftrightarrow> a mod prime25519 = b mod prime25519"
  by (metis Rep_gf_inject Rep_of_int)

lemma of_int_Rep [simp]: "of_int (Rep_gf x) = x"
  by (metis Rep_gf_inject Rep_gf_mod Rep_of_int)

lemma of_int_gf_0_iff: "(of_int a :: gf) = 0 \<longleftrightarrow> prime25519 dvd a"
  using of_int_gf_eq_iff [of a 0] by (simp add: mod_eq_0_iff_dvd)

lemma of_int_mod_gf [simp]: "(of_int (a mod prime25519) :: gf) = of_int a"
  by (simp add: of_int_gf_eq_iff)

instance gf :: idom
proof
  fix x y :: gf
  assume "x \<noteq> 0" "y \<noteq> 0"
  moreover have "x = of_int (Rep_gf x)" "y = of_int (Rep_gf y)" by simp_all
  ultimately show "x * y \<noteq> 0"
    by (metis of_int_gf_0_iff of_int_mult prime25519_dvd_mult)
qed

section \<open>Fermat's theorem and inverses\<close>

lemma UNIV_gf: "(UNIV :: gf set) = of_int ` {0..<prime25519}"
proof (rule set_eqI)
  fix x :: gf
  have "Rep_gf x \<in> {0..<prime25519}" using Rep_gf_bounds [of x] by auto
  then have "of_int (Rep_gf x) \<in> (of_int ` {0..<prime25519} :: gf set)" by (rule imageI)
  then show "x \<in> UNIV \<longleftrightarrow> x \<in> of_int ` {0..<prime25519}" by simp
qed

instance gf :: finite
  by standard (simp add: UNIV_gf)

lemma card_gf: "CARD(gf) = p25519"
proof -
  have "inj_on (of_int :: int \<Rightarrow> gf) {0..<prime25519}"
    by (rule inj_onI) (auto simp: of_int_gf_eq_iff)
  then show ?thesis by (simp add: UNIV_gf card_image p25519_def)
qed

lemma fermat_gf: "x \<noteq> 0 \<Longrightarrow> x ^ (p25519 - 1) = (1 :: gf)"
proof -
  assume x: "x \<noteq> 0"
  let ?S = "- {0 :: gf}"
  have "bij_betw ((*) x) ?S ?S"
  proof (rule bij_betw_imageI)
    show inj: "inj_on ((*) x) ?S" using x by (auto intro: inj_onI)
    have "(*) x ` ?S \<subseteq> ?S" using x by auto
    then show "(*) x ` ?S = ?S" using inj by (intro endo_inj_surj) auto
  qed
  then have "(\<Prod>y\<in>?S. x * y) = \<Prod>?S" by (rule prod.reindex_bij_betw [where g = "\<lambda>y. y"])
  then have "x ^ card ?S * \<Prod>?S = \<Prod>?S" by (simp add: prod.distrib)
  moreover have "\<Prod>?S \<noteq> 0" by simp
  moreover have "card ?S = p25519 - 1" by (simp add: Compl_eq_Diff_UNIV card_Diff_singleton card_gf)
  ultimately show ?thesis by simp
qed

lemma p25519_ge: "2 < p25519"
  by (simp add: p25519_def prime25519_def)

instantiation gf :: field
begin

definition inverse_gf :: "gf \<Rightarrow> gf" where "inverse_gf x = x ^ (p25519 - 2)"

definition divide_gf :: "gf \<Rightarrow> gf \<Rightarrow> gf" where "divide_gf x y = x * inverse y"

instance
proof
  fix x y :: gf
  have s: "p25519 - 1 = Suc (p25519 - 2)" using p25519_ge by simp
  show "inverse x * x = 1" if "x \<noteq> 0"
    using fermat_gf [OF that] unfolding s inverse_gf_def by (simp add: mult.commute)
  show "x div y = x * inverse y" by (rule divide_gf_def)
  have "p25519 - 2 \<noteq> 0" using p25519_ge by simp
  then show "inverse 0 = (0 :: gf)" by (simp add: inverse_gf_def)
qed

end

section \<open>Numerals\<close>

text \<open>Equations between numbers of the field are congruences.\<close>

lemma gf_numeral_eq: "(numeral m :: gf) = numeral n \<longleftrightarrow> numeral m mod prime25519 = numeral n mod prime25519"
  using of_int_gf_eq_iff [of "numeral m" "numeral n"] by simp

lemma gf_two_nonzero: "(2 :: gf) \<noteq> 0"
  using of_int_gf_eq_iff [of 2 0] by simp

lemma two_nonsquare: "(s :: gf) ^ 2 \<noteq> 2"
proof
  assume s: "s ^ 2 = 2"
  obtain h :: nat where pow: "2 * h + 1 = 2 ^ 255 - 19 \<and> (2 :: int) ^ h mod (2 ^ 255 - 19) = 2 ^ 255 - 20"
    by (rule exE [OF two_power])
  have "2 ^ 255 - 20 = prime25519 - 1" by (simp add: prime25519_def)
  with conjunct2 [OF pow] have h: "(2 :: int) ^ h mod prime25519 = prime25519 - 1"
    by (simp only: prime25519_def [symmetric])
  have "s \<noteq> 0" using s gf_two_nonzero by auto
  then have "s ^ (p25519 - 1) = 1" by (rule fermat_gf)
  moreover have "int p25519 = int (2 * h + 1)" unfolding int_p25519 conjunct1 [OF pow] prime25519_def by simp
  then have "p25519 - 1 = 2 * h" by linarith
  ultimately have "(2 :: gf) ^ h = 1" using s by (simp add: power_mult)
  then have "of_int (2 ^ h) = (of_int 1 :: gf)" by simp
  then have "(2 :: int) ^ h mod prime25519 = 1" by (simp only: of_int_gf_eq_iff) simp
  then show False using h prime25519_pos(3) by simp
qed

end
