(* ===== verification/EdwardsGroup.thy ===== *)
theory EdwardsGroup
  imports Gf25519
begin

text \<open>
  The points of the twisted Edwards curve \<open>- x^2 + y^2 = 1 + d x^2 y^2\<close> over the field, with the addition
  that is defined for all pairs of points, as a commutative group.
\<close>

section \<open>Constants of the curve\<close>

definition sqrt_m1 :: gf where
  "sqrt_m1 = of_int 19681161376707505956807079304988542015446066515923890162744021073123829784752"

definition ed_d :: gf where
  "ed_d = - 121665 / 121666"

lemma sqrt_m1_square: "sqrt_m1 ^ 2 = - 1"
proof -
  have "sqrt_m1 ^ 2 = of_int (19681161376707505956807079304988542015446066515923890162744021073123829784752 ^ 2)" by (simp only: sqrt_m1_def of_int_power)
  also have "\<dots> = of_int (- 1)" unfolding of_int_gf_eq_iff by (simp add: prime25519_def)
  finally show ?thesis by simp
qed

lemma minus_one_cases: "(s :: gf) ^ 2 = - 1 \<Longrightarrow> s = sqrt_m1 \<or> s = - sqrt_m1"
  using power2_eq_iff [of s sqrt_m1] by (simp add: sqrt_m1_square)

lemma gf_121666: "(121666 :: gf) \<noteq> 0"
  using of_int_gf_0_iff [of 121666] by (auto simp: prime25519_def dest: zdvd_imp_le)

text \<open>The coefficient is twice a square, and so no square.\<close>

lemma ed_d_half: "ed_d = 2 * (of_int 30152228160694284937144285544751646460505239448795619900082871953631125353365) ^ 2"
proof -
  have "121666 * (2 * (of_int 30152228160694284937144285544751646460505239448795619900082871953631125353365) ^ 2) = (of_int (121666 * (2 * 30152228160694284937144285544751646460505239448795619900082871953631125353365 ^ 2)) :: gf)"
    by (simp only: of_int_mult of_int_power of_int_numeral)
  also have "\<dots> = of_int (- 121665)" unfolding of_int_gf_eq_iff by (simp add: prime25519_def)
  finally have "121666 * (2 * (of_int 30152228160694284937144285544751646460505239448795619900082871953631125353365) ^ 2) = (- 121665 :: gf)" by simp
  then show ?thesis using gf_121666 unfolding ed_d_def by (simp add: field_simps)
qed

lemma ed_d_nonsquare: "s ^ 2 \<noteq> ed_d"
proof
  assume s: "s ^ 2 = ed_d"
  define h :: gf where "h = of_int 30152228160694284937144285544751646460505239448795619900082871953631125353365"
  have e: "s ^ 2 = 2 * h ^ 2" unfolding s h_def by (rule ed_d_half)
  have "h \<noteq> 0"
  proof
    assume "h = 0"
    then have "ed_d = 0" using e s by simp
    then have "(121665 :: gf) = 0" using gf_121666 by (simp add: ed_d_def)
    then show False using of_int_gf_0_iff [of 121665] by (auto simp: prime25519_def dest: zdvd_imp_le)
  qed
  then have "(s / h) ^ 2 = 2" using e by (simp add: power_divide)
  then show False using two_nonsquare by blast
qed

lemma ed_d_nonzero: "ed_d \<noteq> 0"
  using ed_d_nonsquare [of 0] by auto

section \<open>The curve\<close>

type_synonym point = "gf \<times> gf"

definition on_curve :: "point \<Rightarrow> bool" where
  "on_curve P \<longleftrightarrow> (snd P)^2 - (fst P)^2 = 1 + ed_d * (fst P)^2 * (snd P)^2"

definition ed_add :: "point \<Rightarrow> point \<Rightarrow> point" where
  "ed_add P Q = (case (P, Q) of ((x1, y1), (x2, y2)) \<Rightarrow>
     ((x1 * y2 + x2 * y1) / (1 + ed_d * x1 * x2 * y1 * y2), (y1 * y2 + x1 * x2) / (1 - ed_d * x1 * x2 * y1 * y2)))"

lemma ed_add_pair: "ed_add (x1, y1) (x2, y2) =
    ((x1 * y2 + x2 * y1) / (1 + ed_d * x1 * x2 * y1 * y2), (y1 * y2 + x1 * x2) / (1 - ed_d * x1 * x2 * y1 * y2))"
  by (simp add: ed_add_def)

text \<open>The denominators are never zero, because \<open>-1\<close> is a square and \<open>d\<close> is not.\<close>

lemma complete_step:
  assumes c1: "y1^2 - x1^2 = 1 + ed_d * x1^2 * y1^2" and c2: "y2^2 - x2^2 = 1 + ed_d * x2^2 * y2^2"
    and e: "(ed_d * x1 * x2 * y1 * y2)^2 = 1"
  shows False
proof -
  define X1 X2 e where "X1 = sqrt_m1 * x1" and "X2 = sqrt_m1 * x2" and "e = ed_d * x1 * x2 * y1 * y2"
  note i2 = sqrt_m1_square
  have "X1^2 + y1^2 = 1 - ed_d * X1^2 * y1^2" "X2^2 + y2^2 = 1 - ed_d * X2^2 * y2^2"
    "- ed_d * X1 * X2 * y1 * y2 = e"
    using c1 c2 i2 unfolding X1_def X2_def e_def by algebra+
  moreover have "e^2 = 1" unfolding e_def by (rule assms(3))
  ultimately have X: "X1^2 + y1^2 = 1 - ed_d * X1^2 * y1^2" "X2^2 + y2^2 = 1 - ed_d * X2^2 * y2^2"
    "- ed_d * X1 * X2 * y1 * y2 = e" "e^2 = 1" .
  have nz: "X1 \<noteq> 0" "y1 \<noteq> 0" "y2 \<noteq> 0" using X(4) unfolding X(3) [symmetric] by auto
  have square: "(X1 + s * e * y1)^2 = - ed_d * (X1 * y1 * (X2 + s * y2))^2" if "s^2 = 1" for s
    using X that by algebra
  have none: "X2 + s * y2 = 0" if s: "s^2 = 1" for s
  proof (rule ccontr)
    let ?k = "X1 * y1 * (X2 + s * y2)"
    assume "X2 + s * y2 \<noteq> 0"
    then have k: "?k \<noteq> 0" using nz by simp
    have "(sqrt_m1 * (X1 + s * e * y1) / ?k)^2 = - ((X1 + s * e * y1)^2) / ?k^2"
      by (simp add: power_divide power_mult_distrib i2)
    also have "\<dots> = ed_d" using k by (simp add: square [OF s])
    finally show False using ed_d_nonsquare by blast
  qed
  have "X2 + y2 = 0" "X2 - y2 = 0" using none [of 1] none [of "-1"] by simp_all
  then have "2 * y2 = 0" by algebra
  then show False using nz(3) gf_two_nonzero by simp
qed

lemma complete:
  assumes "on_curve P" "on_curve Q"
  shows "1 + ed_d * fst P * fst Q * snd P * snd Q \<noteq> 0" "1 - ed_d * fst P * fst Q * snd P * snd Q \<noteq> 0"
proof -
  let ?e = "ed_d * fst P * fst Q * snd P * snd Q"
  have "?e^2 \<noteq> 1"
    using complete_step [of "snd P" "fst P" "snd Q" "fst Q"] assms unfolding on_curve_def by blast
  then show "1 + ?e \<noteq> 0" "1 - ?e \<noteq> 0" by algebra+
qed

lemma fraction_on_curve:
  fixes a b p m d :: "'a::field"
  assumes "p \<noteq> 0" "m \<noteq> 0" "(b * p)^2 - (a * m)^2 = (p * m)^2 + d * (a * b)^2"
  shows "(b / m)^2 - (a / p)^2 = 1 + d * (a / p)^2 * (b / m)^2"
proof -
  have "(b / m)^2 - (a / p)^2 = ((b * p)^2 - (a * m)^2) / (p * m)^2"
    using assms(1,2) by (simp add: power_divide power_mult_distrib diff_divide_distrib)
  also have "\<dots> = 1 + d * (a / p)^2 * (b / m)^2"
    using assms(1,2) unfolding assms(3) by (simp add: power_divide power_mult_distrib add_divide_distrib)
  finally show ?thesis .
qed

lemma ed_add_closed:
  assumes "on_curve P" "on_curve Q"
  shows "on_curve (ed_add P Q)"
proof -
  obtain x1 y1 x2 y2 where PQ: "P = (x1, y1)" "Q = (x2, y2)" by fastforce
  let ?p = "1 + ed_d * x1 * x2 * y1 * y2" and ?m = "1 - ed_d * x1 * x2 * y1 * y2"
  have nz: "?p \<noteq> 0" "?m \<noteq> 0" using complete [OF assms] by (simp_all add: PQ)
  have "((y1*y2 + x1*x2) * ?p)^2 - ((x1*y2 + x2*y1) * ?m)^2 = (?p * ?m)^2 + ed_d * ((x1*y2 + x2*y1) * (y1*y2 + x1*x2))^2"
    using assms unfolding on_curve_def PQ by (simp add: PQ) algebra
  from fraction_on_curve [OF nz this] show ?thesis by (simp add: on_curve_def ed_add_def PQ)
qed

lemma ed_add_commute: "ed_add P Q = ed_add Q P"
  by (simp add: ed_add_def split: prod.splits) (simp add: mult.commute mult.left_commute add.commute)

lemma one_plus_fractions:
  fixes d a b x y p m :: "'a::field"
  assumes "p \<noteq> 0" "m \<noteq> 0"
  shows "1 + d * (a / p) * x * (b / m) * y = (p * m + d * x * y * a * b) / (p * m)"
    "1 - d * (a / p) * x * (b / m) * y = (p * m - d * x * y * a * b) / (p * m)"
    "1 + d * x * (a / p) * y * (b / m) = (p * m + d * x * y * a * b) / (p * m)"
    "1 - d * x * (a / p) * y * (b / m) = (p * m - d * x * y * a * b) / (p * m)"
  using assms by (simp_all add: field_simps)

lemma sum_fractions:
  fixes a b x y p m :: "'a::field"
  assumes "p \<noteq> 0" "m \<noteq> 0"
  shows "a / p * y + x * (b / m) = (a * m * y + x * b * p) / (p * m)"
    "x * (b / m) + a / p * y = (x * b * p + a * m * y) / (p * m)"
    "b / m * y + a / p * x = (b * p * y + a * m * x) / (p * m)"
    "y * (b / m) + x * (a / p) = (y * b * p + a * m * x) / (p * m)"
  using assms by (simp_all add: field_simps)

lemma same_denominator: "p \<noteq> 0 \<Longrightarrow> m \<noteq> 0 \<Longrightarrow> x / (p * m) / (y / (p * m)) = (x / y :: 'a::field)"
  by simp

lemma ed_add_assoc:
  assumes "on_curve P" "on_curve Q" "on_curve R"
  shows "ed_add (ed_add P Q) R = ed_add P (ed_add Q R)"
proof -
  obtain x1 y1 x2 y2 x3 y3 where PQR: "P = (x1, y1)" "Q = (x2, y2)" "R = (x3, y3)" by (metis surj_pair)
  have c: "y1^2 - x1^2 = 1 + ed_d * x1^2 * y1^2" "y2^2 - x2^2 = 1 + ed_d * x2^2 * y2^2"
      "y3^2 - x3^2 = 1 + ed_d * x3^2 * y3^2"
    using assms by (simp_all add: on_curve_def PQR)
  let ?p = "1 + ed_d * x1 * x2 * y1 * y2" and ?m = "1 - ed_d * x1 * x2 * y1 * y2"
  let ?q = "1 + ed_d * x2 * x3 * y2 * y3" and ?n = "1 - ed_d * x2 * x3 * y2 * y3"
  let ?a = "x1*y2 + x2*y1" and ?b = "y1*y2 + x1*x2" and ?f = "x2*y3 + x3*y2" and ?g = "y2*y3 + x2*x3"
  have nz: "?p \<noteq> 0" "?m \<noteq> 0" "?q \<noteq> 0" "?n \<noteq> 0"
    using complete [OF assms(1,2)] complete [OF assms(2,3)] by (simp_all add: PQR)
  have s: "ed_add P Q = (?a / ?p, ?b / ?m)" "ed_add Q R = (?f / ?q, ?g / ?n)" by (simp_all add: ed_add_def PQR)
  have l: "1 + ed_d * (?a / ?p) * x3 * (?b / ?m) * y3 \<noteq> 0" "1 - ed_d * (?a / ?p) * x3 * (?b / ?m) * y3 \<noteq> 0"
    using complete [OF ed_add_closed [OF assms(1,2)] assms(3)] unfolding s unfolding PQR fst_conv snd_conv .
  have r: "1 + ed_d * x1 * (?f / ?q) * y1 * (?g / ?n) \<noteq> 0" "1 - ed_d * x1 * (?f / ?q) * y1 * (?g / ?n) \<noteq> 0"
    using complete [OF assms(1) ed_add_closed [OF assms(2,3)]] unfolding s unfolding PQR fst_conv snd_conv .
  have l': "1 + ed_d * (?a / ?p) * x3 * (?b / ?m) * y3 = (?p * ?m + ed_d * x3 * y3 * ?a * ?b) / (?p * ?m)"
    "1 - ed_d * (?a / ?p) * x3 * (?b / ?m) * y3 = (?p * ?m - ed_d * x3 * y3 * ?a * ?b) / (?p * ?m)"
    by (fact one_plus_fractions(1) [OF nz(1,2)] one_plus_fractions(2) [OF nz(1,2)])+
  have r': "1 + ed_d * x1 * (?f / ?q) * y1 * (?g / ?n) = (?q * ?n + ed_d * x1 * y1 * ?f * ?g) / (?q * ?n)"
    "1 - ed_d * x1 * (?f / ?q) * y1 * (?g / ?n) = (?q * ?n - ed_d * x1 * y1 * ?f * ?g) / (?q * ?n)"
    by (fact one_plus_fractions(3) [OF nz(3,4)] one_plus_fractions(4) [OF nz(3,4)])+
  have L: "?p * ?m + ed_d * x3 * y3 * ?a * ?b \<noteq> 0" "?p * ?m - ed_d * x3 * y3 * ?a * ?b \<noteq> 0"
    using l unfolding l' divide_eq_0_iff by blast+
  have R: "?q * ?n + ed_d * x1 * y1 * ?f * ?g \<noteq> 0" "?q * ?n - ed_d * x1 * y1 * ?f * ?g \<noteq> 0"
    using r unfolding r' divide_eq_0_iff by blast+
  have X: "(?a * ?m * y3 + x3 * ?b * ?p) * (?q * ?n + ed_d * x1 * y1 * ?f * ?g) =
      (x1 * ?g * ?q + ?f * ?n * y1) * (?p * ?m + ed_d * x3 * y3 * ?a * ?b)"
    using c by algebra
  have Y: "(?b * ?p * y3 + ?a * ?m * x3) * (?q * ?n - ed_d * x1 * y1 * ?f * ?g) =
      (y1 * ?g * ?q + ?f * ?n * x1) * (?p * ?m - ed_d * x3 * y3 * ?a * ?b)"
    using c by algebra
  have "ed_add (ed_add P Q) R = ((?a * ?m * y3 + x3 * ?b * ?p) / (?p * ?m + ed_d * x3 * y3 * ?a * ?b),
      (?b * ?p * y3 + ?a * ?m * x3) / (?p * ?m - ed_d * x3 * y3 * ?a * ?b))"
    by (simp only: s PQR(3) ed_add_pair l' sum_fractions [OF nz(1,2)] same_denominator [OF nz(1,2)])
  moreover have "ed_add P (ed_add Q R) = ((x1 * ?g * ?q + ?f * ?n * y1) / (?q * ?n + ed_d * x1 * y1 * ?f * ?g),
      (y1 * ?g * ?q + ?f * ?n * x1) / (?q * ?n - ed_d * x1 * y1 * ?f * ?g))"
    by (simp only: s PQR(1) ed_add_pair r' sum_fractions [OF nz(3,4)] same_denominator [OF nz(3,4)])
  ultimately show ?thesis
    using X Y by (simp only: prod.inject frac_eq_eq [OF L(1) R(1)] frac_eq_eq [OF L(2) R(2)])
qed

section \<open>The group\<close>

definition ed_neg :: "point \<Rightarrow> point" where "ed_neg P = (- fst P, snd P)"

lemma on_curve_zero: "on_curve (0, 1)" by (simp add: on_curve_def)

lemma on_curve_neg: "on_curve P \<Longrightarrow> on_curve (ed_neg P)" by (simp add: on_curve_def ed_neg_def)

lemma ed_add_zero: "ed_add (0, 1) P = P" by (cases P) (simp add: ed_add_def)

lemma ed_add_neg:
  assumes "on_curve P"
  shows "ed_add (ed_neg P) P = (0, 1)"
proof -
  obtain x y where P: "P = (x, y)" by (cases P)
  have "1 + ed_d * - x * x * y * y \<noteq> 0"
    using complete(1) [OF on_curve_neg [OF assms] assms] unfolding P ed_neg_def fst_conv snd_conv .
  moreover have "1 - ed_d * - x * x * y * y \<noteq> 0"
    using complete(2) [OF on_curve_neg [OF assms] assms] unfolding P ed_neg_def fst_conv snd_conv .
  moreover have "y * y + - x * x = 1 - ed_d * - x * x * y * y"
    using assms unfolding on_curve_def P fst_conv snd_conv by algebra
  ultimately show ?thesis by (simp add: ed_add_def ed_neg_def P)
qed

typedef ed_point = "{P. on_curve P}"
  by (rule exI [of _ "(0, 1)"]) (simp add: on_curve_zero)

setup_lifting type_definition_ed_point

instantiation ed_point :: ab_group_add
begin

lift_definition zero_ed_point :: ed_point is "(0, 1)" by (rule on_curve_zero)
lift_definition plus_ed_point :: "ed_point \<Rightarrow> ed_point \<Rightarrow> ed_point" is ed_add by (rule ed_add_closed)
lift_definition uminus_ed_point :: "ed_point \<Rightarrow> ed_point" is ed_neg by (rule on_curve_neg)
lift_definition minus_ed_point :: "ed_point \<Rightarrow> ed_point \<Rightarrow> ed_point" is "\<lambda>P Q. ed_add P (ed_neg Q)"
  by (simp add: ed_add_closed on_curve_neg)

instance
proof
  fix a b c :: ed_point
  show "a + b + c = a + (b + c)" by transfer (simp add: ed_add_assoc)
  show "a + b = b + a" by transfer (rule ed_add_commute)
  show "0 + a = a" by transfer (rule ed_add_zero)
  show "- a + a = 0" by transfer (rule ed_add_neg)
  show "a - b = a + - b" by transfer (rule refl)
qed

end
end
