(* ===== verification/LimbPrograms.thy ===== *)
theory LimbPrograms
  imports Prelude
begin

text \<open>
  Straight-line code on numbers in limbs.  The field and scalar arithmetic of \<open>lib/ed25519\<close> is long
  sequences of two statements: a carry from one limb to another, and the reduction of a limb that is
  multiplied into lower ones.  A sequence is a list of \<open>limb_op\<close>; \<open>run_ops\<close> executes it on words.
  Two checks on such a list, which are functions and evaluated by the simplifier, make it correct:
  \<open>bounds_ops\<close> follows an interval for every limb and fails where a word could overflow, \<open>ops_exact\<close>
  says that every statement keeps the value modulo a number.
\<close>

section \<open>The statements\<close>

text \<open>
  \<open>Carry w i j m r\<close> is \<open>carry = (s[i] + r) >> w; s[j] += carry * m; s[i] -= carry << w\<close>, and
  \<open>Spread i [(j, c), \<dots>]\<close> is \<open>s[j] += s[i] * c; \<dots>; s[i] = 0\<close>.
\<close>

datatype limb_op = Carry nat nat nat int int | Spread nat "(nat \<times> int) list"

fun run_op :: "limb_op \<Rightarrow> 'a::len word list \<Rightarrow> 'a word list" where
  "run_op (Carry w i j m r) s =
     (let c = signed_drop_bit w (s ! i + of_int r);
          s = s[j := s ! j + c * of_int m]
      in s[i := s ! i - push_bit w c])"
| "run_op (Spread i ts) s =
     (foldl (\<lambda>s (j, c). s[j := s ! j + s ! i * of_int c]) s ts)[i := 0]"

definition run_ops :: "limb_op list \<Rightarrow> 'a::len word list \<Rightarrow> 'a word list" where
  "run_ops ops s = foldl (\<lambda>s op. run_op op s) s ops"

text \<open>The same on integers.\<close>

definition int_spread :: "nat \<Rightarrow> int list \<Rightarrow> nat \<times> int \<Rightarrow> int list" where
  "int_spread i = (\<lambda>s (j, c). s[j := s ! j + s ! i * c])"

fun int_op :: "limb_op \<Rightarrow> int list \<Rightarrow> int list" where
  "int_op (Carry w i j m r) s =
     (let c = (s ! i + r) div 2 ^ w;
          s = s[j := s ! j + c * m]
      in s[i := s ! i - c * 2 ^ w])"
| "int_op (Spread i ts) s =
     (foldl (int_spread i) s ts)[i := 0]"

definition int_ops :: "limb_op list \<Rightarrow> int list \<Rightarrow> int list" where
  "int_ops ops s = foldl (\<lambda>s op. int_op op s) s ops"

section \<open>Intervals\<close>

type_synonym interval = "int \<times> int"

definition inside :: "int \<Rightarrow> interval \<Rightarrow> bool" where
  "inside x b \<longleftrightarrow> fst b \<le> x \<and> x \<le> snd b"

definition within :: "int list \<Rightarrow> interval list \<Rightarrow> bool" where
  "within xs B \<longleftrightarrow> list_all2 inside xs B"

definition fits :: "nat \<Rightarrow> interval \<Rightarrow> bool" where
  "fits n b \<longleftrightarrow> - (2 ^ (n - 1)) \<le> fst b \<and> snd b < 2 ^ (n - 1)"

definition scaled :: "interval \<Rightarrow> int \<Rightarrow> interval" where
  "scaled b c = (if 0 \<le> c then (fst b * c, snd b * c) else (snd b * c, fst b * c))"

definition plus_interval :: "interval \<Rightarrow> interval \<Rightarrow> interval" where
  "plus_interval a b = (fst a + fst b, snd a + snd b)"

fun spread_bounds :: "nat \<Rightarrow> nat \<Rightarrow> (nat \<times> int) list \<Rightarrow> interval list \<Rightarrow> interval list option" where
  "spread_bounds n i [] B = Some B"
| "spread_bounds n i ((j, c) # ts) B =
     (let p = scaled (B ! i) c; t = plus_interval (B ! j) p
      in if j \<noteq> i \<and> j < length B \<and> fits n p \<and> fits n t then spread_bounds n i ts (B[j := t]) else None)"

text \<open>\<open>None\<close> means that some word of \<open>n\<close> bits could overflow.\<close>

fun bounds_op :: "nat \<Rightarrow> limb_op \<Rightarrow> interval list \<Rightarrow> interval list option" where
  "bounds_op n (Carry w i j m r) B =
     (let x = plus_interval (B ! i) (r, r);
          c = (fst x div 2 ^ w, snd x div 2 ^ w);
          t = plus_interval (B ! j) (scaled c m);
          u = (- r, 2 ^ w - 1 - r)
      in if i < length B \<and> j < length B \<and> i \<noteq> j \<and> fits n x \<and> fits n (scaled c m) \<and> fits n t \<and> fits n u
         then Some (B[j := t, i := u]) else None)"
| "bounds_op n (Spread i ts) B =
     (if i < length B then map_option (\<lambda>B. B[i := (0, 0)]) (spread_bounds n i ts B) else None)"

fun bounds_ops :: "nat \<Rightarrow> limb_op list \<Rightarrow> interval list \<Rightarrow> interval list option" where
  "bounds_ops n [] B = Some B"
| "bounds_ops n (op # ops) B =
     (case bounds_op n op B of None \<Rightarrow> None | Some B' \<Rightarrow> bounds_ops n ops B')"

lemma inside_plus: "inside x a \<Longrightarrow> inside y b \<Longrightarrow> inside (x + y) (plus_interval a b)"
  by (auto simp: inside_def plus_interval_def)

lemma inside_scaled: "inside x b \<Longrightarrow> inside (x * c) (scaled b c)"
  by (auto simp: inside_def scaled_def mult_right_mono mult_right_mono_neg)

lemma inside_div: "inside x b \<Longrightarrow> inside (x div 2 ^ w) (fst b div 2 ^ w, snd b div 2 ^ w)"
  by (auto simp: inside_def zdiv_mono1)

lemma inside_rest: "inside (x - (x + r) div 2 ^ w * 2 ^ w) (- r, 2 ^ w - 1 - r)"
proof -
  have "x - (x + r) div 2 ^ w * 2 ^ w = (x + r) mod 2 ^ w - r"
    by (simp add: minus_div_mult_eq_mod [symmetric])
  moreover have "0 \<le> (x + r) mod 2 ^ w" "(x + r) mod 2 ^ w < 2 ^ w" by simp_all
  ultimately show ?thesis by (simp add: inside_def)
qed

lemma inside_fits: "inside x b \<Longrightarrow> fits n b \<Longrightarrow> - (2 ^ (n - 1)) \<le> x \<and> x < 2 ^ (n - 1)"
  by (auto simp: inside_def fits_def)

lemma within_length: "within xs B \<Longrightarrow> length xs = length B"
  by (simp add: within_def list_all2_lengthD)

lemma within_nth: "within xs B \<Longrightarrow> i < length B \<Longrightarrow> inside (xs ! i) (B ! i)"
  by (simp add: within_def list_all2_conv_all_nth)

lemma within_update: "within xs B \<Longrightarrow> inside x b \<Longrightarrow> within (xs[i := x]) (B[i := b])"
  by (simp add: within_def list_all2_update_cong)

section \<open>Words that do not overflow\<close>

lemma sint_of_int_fits:
  "- (2 ^ (LENGTH('a) - 1)) \<le> k \<Longrightarrow> k < 2 ^ (LENGTH('a) - 1) \<Longrightarrow> sint (of_int k :: 'a::len word) = k"
  by (simp add: sint_sbintrunc' signed_take_bit_int_eq_self_iff)

lemma signed_shift_of_int:
  assumes "- (2 ^ (LENGTH('a) - 1)) \<le> k" "k < 2 ^ (LENGTH('a) - 1)"
  shows "signed_drop_bit w (of_int k :: 'a::len word) = of_int (k div 2 ^ w)"
proof -
  have "signed_drop_bit w (of_int k :: 'a word) = of_int (sint (signed_drop_bit w (of_int k :: 'a word)))" by simp
  also have "\<dots> = of_int (k div 2 ^ w)"
    using assms by (simp only: sint_signed_drop_bit_eq sint_of_int_fits drop_bit_eq_div)
  finally show ?thesis .
qed

lemma spread_sound:
  assumes "spread_bounds n i ts B = Some B'" "within xs B" "i < length B"
  shows "within (foldl (int_spread i) xs ts) B' \<and> length B' = length B \<and>
    foldl (\<lambda>s (j, c). s[j := s ! j + s ! i * of_int c]) (map of_int xs :: 'a::len word list) ts
      = map of_int (foldl (int_spread i) xs ts)"
  using assms(1-3)
proof (induction n i ts B arbitrary: xs rule: spread_bounds.induct)
  case (2 n i j c ts B)
  let ?t = "plus_interval (B ! j) (scaled (B ! i) c)"
  have B': "spread_bounds n i ts (B[j := ?t]) = Some B'" and j: "j \<noteq> i" "j < length B"
    using 2(2) by (auto simp: Let_def split: if_splits)
  have len: "length xs = length B" using 2(3) by (rule within_length)
  have "inside (xs ! j + xs ! i * c) ?t"
    using within_nth [OF 2(3)] j(2) 2(4) by (intro inside_plus inside_scaled) auto
  then have "within (int_spread i xs (j, c)) (B[j := ?t])"
    unfolding int_spread_def prod.case by (rule within_update [OF 2(3)])
  moreover have "(map of_int xs :: 'a word list)[j := map of_int xs ! j + map of_int xs ! i * of_int c]
      = map of_int (int_spread i xs (j, c))"
    using j 2(4) len by (simp add: int_spread_def map_update)
  moreover have "spread_bounds n i ts (B[j := ?t]) = Some B' \<Longrightarrow> within ys (B[j := ?t]) \<Longrightarrow>
      within (foldl (int_spread i) ys ts) B' \<and> length B' = length (B[j := ?t]) \<and>
      foldl (\<lambda>s (j, c). s[j := s ! j + s ! i * of_int c]) (map of_int ys :: 'a word list) ts
        = map of_int (foldl (int_spread i) ys ts)" for ys
    using 2(1) [OF refl refl _ _ _, of ys] 2(2,4) by (auto simp: Let_def split: if_splits)
  ultimately show ?case using B' by simp
qed simp

lemma op_sound:
  assumes "bounds_op LENGTH('a) op B = Some B'" "within xs B"
  shows "within (int_op op xs) B' \<and> run_op op (map of_int xs :: 'a::len word list) = map of_int (int_op op xs)"
proof (cases op)
  case (Carry w i j m r)
  let ?x = "plus_interval (B ! i) (r, r)"
  let ?c = "(fst ?x div 2 ^ w, snd ?x div 2 ^ w)"
  let ?k = "(xs ! i + r) div 2 ^ w"
  have B': "B' = B[j := plus_interval (B ! j) (scaled ?c m), i := (- r, 2 ^ w - 1 - r)]"
    and ij: "i < length B" "j < length B" "i \<noteq> j" and fit: "fits LENGTH('a) ?x"
    using assms(1) unfolding Carry bounds_op.simps Let_def by (auto split: if_splits)
  have len: "length xs = length B" using assms(2) by (rule within_length)
  have x: "inside (xs ! i + r) ?x"
    using within_nth [OF assms(2) ij(1)] by (intro inside_plus) (auto simp: inside_def)
  have "inside (xs ! j + ?k * m) (plus_interval (B ! j) (scaled ?c m))"
    using within_nth [OF assms(2) ij(2)] inside_div [OF x] by (intro inside_plus inside_scaled) auto
  then have "within (int_op op xs) B'"
    unfolding B' Carry using ij by (auto simp: Let_def intro!: within_update assms(2) inside_rest)
  moreover have "signed_drop_bit w (of_int (xs ! i) + of_int r :: 'a word) = of_int ?k"
    using signed_shift_of_int [where 'a = 'a, of "xs ! i + r" w] inside_fits [OF x fit] by simp
  then have "run_op op (map of_int xs :: 'a word list) = map of_int (int_op op xs)"
    using ij len by (simp add: Carry Let_def map_update push_bit_eq_mult)
  ultimately show ?thesis ..
next
  case (Spread i ts)
  then obtain C where C: "spread_bounds LENGTH('a) i ts B = Some C" "B' = C[i := (0, 0)]" "i < length B"
    using assms(1) by (auto split: if_splits)
  have "inside 0 (0, 0)" by (simp add: inside_def)
  with spread_sound [OF C(1) assms(2) C(3), where 'a = 'a] show ?thesis
    by (simp add: Spread C(2) within_update map_update)
qed

theorem ops_sound:
  assumes "bounds_ops LENGTH('a) ops B = Some B'" "within xs B"
  shows "within (int_ops ops xs) B' \<and> run_ops ops (map of_int xs :: 'a::len word list) = map of_int (int_ops ops xs)"
  using assms
proof (induction ops arbitrary: B xs)
  case (Cons op ops)
  then obtain C where C: "bounds_op LENGTH('a) op B = Some C" "bounds_ops LENGTH('a) ops C = Some B'"
    by (auto split: option.splits)
  from op_sound [OF C(1) Cons.prems(2)] Cons.IH [OF C(2), of "int_op op xs"] show ?case
    by (simp add: run_ops_def int_ops_def)
qed (simp add: run_ops_def int_ops_def)

section \<open>Values\<close>

definition limbs_value :: "(nat \<Rightarrow> int) \<Rightarrow> int list \<Rightarrow> int" where
  "limbs_value wt xs = (\<Sum>i<length xs. xs ! i * wt i)"

fun op_exact :: "int \<Rightarrow> (nat \<Rightarrow> int) \<Rightarrow> nat \<Rightarrow> limb_op \<Rightarrow> bool" where
  "op_exact M wt n (Carry w i j m r) \<longleftrightarrow> i < n \<and> j < n \<and> i \<noteq> j \<and> (m * wt j - 2 ^ w * wt i) mod M = 0"
| "op_exact M wt n (Spread i ts) \<longleftrightarrow> i < n \<and> list_all (\<lambda>(j, c). j < n \<and> j \<noteq> i) ts
     \<and> ((\<Sum>(j, c)\<leftarrow>ts. c * wt j) - wt i) mod M = 0"

lemma limbs_value_update:
  "i < length xs \<Longrightarrow> limbs_value wt (xs[i := x]) = limbs_value wt xs + (x - xs ! i) * wt i"
proof -
  assume i: "i < length xs"
  have "(\<Sum>k<length xs. xs[i := x] ! k * wt k) = (\<Sum>k<length xs. xs ! k * wt k + (if k = i then (x - xs ! i) * wt i else 0))"
    by (rule sum.cong) (auto simp: nth_list_update algebra_simps)
  then show ?thesis using i by (simp add: limbs_value_def sum.distrib)
qed

lemma spread_value:
  assumes "list_all (\<lambda>(j, c). j < length xs \<and> j \<noteq> i) ts"
  defines "ys \<equiv> foldl (int_spread i) xs ts"
  shows "length ys = length xs \<and> ys ! i = xs ! i \<and> limbs_value wt ys = limbs_value wt xs + xs ! i * (\<Sum>(j, c)\<leftarrow>ts. c * wt j)"
  using assms(1) unfolding ys_def
proof (induction ts arbitrary: xs)
  case (Cons t ts)
  obtain j c where t: "t = (j, c)" by (cases t)
  let ?xs = "xs[j := xs ! j + xs ! i * c]"
  have "list_all (\<lambda>(j, c). j < length ?xs \<and> j \<noteq> i) ts" using Cons.prems by (simp add: t)
  from Cons.IH [OF this] Cons.prems show ?case
    by (simp add: t int_spread_def limbs_value_update algebra_simps)
qed simp

lemma op_exact_value:
  assumes "op_exact M wt (length xs) op"
  shows "length (int_op op xs) = length xs \<and> limbs_value wt (int_op op xs) mod M = limbs_value wt xs mod M"
proof (cases op)
  case (Carry w i j m r)
  let ?c = "(xs ! i + r) div 2 ^ w"
  have "limbs_value wt (int_op op xs) = limbs_value wt xs + ?c * (m * wt j - 2 ^ w * wt i)"
    using assms by (simp add: Carry Let_def limbs_value_update algebra_simps)
  moreover have "M dvd m * wt j - 2 ^ w * wt i" using assms by (simp add: Carry dvd_eq_mod_eq_0)
  ultimately show ?thesis by (auto simp: Carry Let_def elim!: dvdE simp: mult.left_commute [of _ M])
next
  case (Spread i ts)
  then have ok: "list_all (\<lambda>(j, c). j < length xs \<and> j \<noteq> i) ts" "i < length xs" using assms by auto
  have "limbs_value wt (int_op op xs) = limbs_value wt xs + xs ! i * ((\<Sum>(j, c)\<leftarrow>ts. c * wt j) - wt i)"
    using spread_value [OF ok(1), of wt] ok(2) by (simp add: Spread limbs_value_update algebra_simps)
  moreover have "M dvd (\<Sum>(j, c)\<leftarrow>ts. c * wt j) - wt i" using assms by (simp add: Spread dvd_eq_mod_eq_0)
  ultimately show ?thesis
    using spread_value [OF ok(1), of wt] by (auto simp: Spread elim!: dvdE simp: mult.left_commute [of _ M])
qed

lemma ops_exact_value:
  assumes "list_all (op_exact M wt (length xs)) ops"
  shows "length (int_ops ops xs) = length xs \<and> limbs_value wt (int_ops ops xs) mod M = limbs_value wt xs mod M"
  using assms
proof (induction ops arbitrary: xs)
  case (Cons op ops)
  then have "op_exact M wt (length xs) op" by simp
  from op_exact_value [OF this] Cons.IH [of "int_op op xs"] Cons.prems show ?case
    by (simp add: int_ops_def)
qed (simp add: int_ops_def)

end
