(* ===== verification/EdScalar.thy ===== *)
theory EdScalar
  imports LimbPrograms DonnaBytes
begin

text \<open>
  \<open>lib/ed25519/src/sc.c\<close>: numbers modulo the order of the base point of Ed25519, in limbs of 21
  bits held in signed 64-bit words.  The two functions share their second half, written here once
  as the list \<open>sc_reduce_ops\<close> of its statements.
\<close>

section \<open>The code\<close>

definition load_3 :: "bytes \<Rightarrow> nat \<Rightarrow> u64" where
  "load_3 inp i = ucast (inp ! i) OR push_bit 8 (ucast (inp ! (i + 1))) OR push_bit 16 (ucast (inp ! (i + 2)))"

definition load_4 :: "bytes \<Rightarrow> nat \<Rightarrow> u64" where
  "load_4 inp i = ucast (inp ! i) OR push_bit 8 (ucast (inp ! (i + 1))) OR push_bit 16 (ucast (inp ! (i + 2)))
     OR push_bit 24 (ucast (inp ! (i + 3)))"

text \<open>Limb \<open>i\<close> into the limbs from \<open>i - 12\<close> on, and the carries, rounded and not.\<close>

definition sc_fold :: "nat \<Rightarrow> limb_op" where
  "sc_fold i = Spread i
     [(i - 12, 666643), (i - 11, 470296), (i - 10, 654183), (i - 9, -997805), (i - 8, 136657), (i - 7, -683901)]"

definition sc_carry :: "nat \<Rightarrow> limb_op" where
  "sc_carry i = Carry 21 i (i + 1) 1 (2 ^ 20)"

definition sc_floor :: "nat \<Rightarrow> limb_op" where
  "sc_floor i = Carry 21 i (i + 1) 1 0"

definition sc_reduce_ops :: "limb_op list" where
  "sc_reduce_ops =
    [sc_fold 23, sc_fold 22, sc_fold 21, sc_fold 20, sc_fold 19, sc_fold 18,
     sc_carry 6, sc_carry 8, sc_carry 10, sc_carry 12, sc_carry 14, sc_carry 16,
     sc_carry 7, sc_carry 9, sc_carry 11, sc_carry 13, sc_carry 15,
     sc_fold 17, sc_fold 16, sc_fold 15, sc_fold 14, sc_fold 13, sc_fold 12,
     sc_carry 0, sc_carry 2, sc_carry 4, sc_carry 6, sc_carry 8, sc_carry 10,
     sc_carry 1, sc_carry 3, sc_carry 5, sc_carry 7, sc_carry 9, sc_carry 11,
     sc_fold 12]
    @ map sc_floor [0, 1, 2, 3, 4, 5, 6, 7, 8, 9, 10, 11] @ [sc_fold 12]
    @ map sc_floor [0, 1, 2, 3, 4, 5, 6, 7, 8, 9, 10]"

definition sc_muladd_ops :: "limb_op list" where
  "sc_muladd_ops =
    map sc_carry [0, 2, 4, 6, 8, 10, 12, 14, 16, 18, 20, 22, 1, 3, 5, 7, 9, 11, 13, 15, 17, 19, 21]
    @ sc_reduce_ops"

definition sc_limbs24 :: "bytes \<Rightarrow> limb list" where
  "sc_limbs24 s =
    [2097151 AND load_3 s 0, 2097151 AND drop_bit 5 (load_4 s 2),
     2097151 AND drop_bit 2 (load_3 s 5), 2097151 AND drop_bit 7 (load_4 s 7),
     2097151 AND drop_bit 4 (load_4 s 10), 2097151 AND drop_bit 1 (load_3 s 13),
     2097151 AND drop_bit 6 (load_4 s 15), 2097151 AND drop_bit 3 (load_3 s 18),
     2097151 AND load_3 s 21, 2097151 AND drop_bit 5 (load_4 s 23),
     2097151 AND drop_bit 2 (load_3 s 26), 2097151 AND drop_bit 7 (load_4 s 28),
     2097151 AND drop_bit 4 (load_4 s 31), 2097151 AND drop_bit 1 (load_3 s 34),
     2097151 AND drop_bit 6 (load_4 s 36), 2097151 AND drop_bit 3 (load_3 s 39),
     2097151 AND load_3 s 42, 2097151 AND drop_bit 5 (load_4 s 44),
     2097151 AND drop_bit 2 (load_3 s 47), 2097151 AND drop_bit 7 (load_4 s 49),
     2097151 AND drop_bit 4 (load_4 s 52), 2097151 AND drop_bit 1 (load_3 s 55),
     2097151 AND drop_bit 6 (load_4 s 57), drop_bit 3 (load_4 s 60)]"

definition sc_limbs12 :: "bytes \<Rightarrow> limb list" where
  "sc_limbs12 s =
    [2097151 AND load_3 s 0, 2097151 AND drop_bit 5 (load_4 s 2),
     2097151 AND drop_bit 2 (load_3 s 5), 2097151 AND drop_bit 7 (load_4 s 7),
     2097151 AND drop_bit 4 (load_4 s 10), 2097151 AND drop_bit 1 (load_3 s 13),
     2097151 AND drop_bit 6 (load_4 s 15), 2097151 AND drop_bit 3 (load_3 s 18),
     2097151 AND load_3 s 21, 2097151 AND drop_bit 5 (load_4 s 23),
     2097151 AND drop_bit 2 (load_3 s 26), drop_bit 7 (load_4 s 28)]"

text \<open>The product, for the words of the code and for the integers they stand for.\<close>

definition sc_products :: "'a::comm_ring_1 list \<Rightarrow> 'a list \<Rightarrow> 'a list \<Rightarrow> 'a list" where
  "sc_products a b c =
    [c ! 0 + a ! 0 * b ! 0,
     c ! 1 + a ! 0 * b ! 1 + a ! 1 * b ! 0,
     c ! 2 + a ! 0 * b ! 2 + a ! 1 * b ! 1 + a ! 2 * b ! 0,
     c ! 3 + a ! 0 * b ! 3 + a ! 1 * b ! 2 + a ! 2 * b ! 1 + a ! 3 * b ! 0,
     c ! 4 + a ! 0 * b ! 4 + a ! 1 * b ! 3 + a ! 2 * b ! 2 + a ! 3 * b ! 1 + a ! 4 * b ! 0,
     c ! 5 + a ! 0 * b ! 5 + a ! 1 * b ! 4 + a ! 2 * b ! 3 + a ! 3 * b ! 2 + a ! 4 * b ! 1 + a ! 5 * b ! 0,
     c ! 6 + a ! 0 * b ! 6 + a ! 1 * b ! 5 + a ! 2 * b ! 4 + a ! 3 * b ! 3 + a ! 4 * b ! 2 + a ! 5 * b ! 1 + a ! 6 * b ! 0,
     c ! 7 + a ! 0 * b ! 7 + a ! 1 * b ! 6 + a ! 2 * b ! 5 + a ! 3 * b ! 4 + a ! 4 * b ! 3 + a ! 5 * b ! 2 + a ! 6 * b ! 1 + a ! 7 * b ! 0,
     c ! 8 + a ! 0 * b ! 8 + a ! 1 * b ! 7 + a ! 2 * b ! 6 + a ! 3 * b ! 5 + a ! 4 * b ! 4 + a ! 5 * b ! 3 + a ! 6 * b ! 2 + a ! 7 * b ! 1 + a ! 8 * b ! 0,
     c ! 9 + a ! 0 * b ! 9 + a ! 1 * b ! 8 + a ! 2 * b ! 7 + a ! 3 * b ! 6 + a ! 4 * b ! 5 + a ! 5 * b ! 4 + a ! 6 * b ! 3 + a ! 7 * b ! 2 + a ! 8 * b ! 1 + a ! 9 * b ! 0,
     c ! 10 + a ! 0 * b ! 10 + a ! 1 * b ! 9 + a ! 2 * b ! 8 + a ! 3 * b ! 7 + a ! 4 * b ! 6 + a ! 5 * b ! 5 + a ! 6 * b ! 4 + a ! 7 * b ! 3 + a ! 8 * b ! 2 + a ! 9 * b ! 1 + a ! 10 * b ! 0,
     c ! 11 + a ! 0 * b ! 11 + a ! 1 * b ! 10 + a ! 2 * b ! 9 + a ! 3 * b ! 8 + a ! 4 * b ! 7 + a ! 5 * b ! 6 + a ! 6 * b ! 5 + a ! 7 * b ! 4 + a ! 8 * b ! 3 + a ! 9 * b ! 2 + a ! 10 * b ! 1 + a ! 11 * b ! 0,
     a ! 1 * b ! 11 + a ! 2 * b ! 10 + a ! 3 * b ! 9 + a ! 4 * b ! 8 + a ! 5 * b ! 7 + a ! 6 * b ! 6 + a ! 7 * b ! 5 + a ! 8 * b ! 4 + a ! 9 * b ! 3 + a ! 10 * b ! 2 + a ! 11 * b ! 1,
     a ! 2 * b ! 11 + a ! 3 * b ! 10 + a ! 4 * b ! 9 + a ! 5 * b ! 8 + a ! 6 * b ! 7 + a ! 7 * b ! 6 + a ! 8 * b ! 5 + a ! 9 * b ! 4 + a ! 10 * b ! 3 + a ! 11 * b ! 2,
     a ! 3 * b ! 11 + a ! 4 * b ! 10 + a ! 5 * b ! 9 + a ! 6 * b ! 8 + a ! 7 * b ! 7 + a ! 8 * b ! 6 + a ! 9 * b ! 5 + a ! 10 * b ! 4 + a ! 11 * b ! 3,
     a ! 4 * b ! 11 + a ! 5 * b ! 10 + a ! 6 * b ! 9 + a ! 7 * b ! 8 + a ! 8 * b ! 7 + a ! 9 * b ! 6 + a ! 10 * b ! 5 + a ! 11 * b ! 4,
     a ! 5 * b ! 11 + a ! 6 * b ! 10 + a ! 7 * b ! 9 + a ! 8 * b ! 8 + a ! 9 * b ! 7 + a ! 10 * b ! 6 + a ! 11 * b ! 5,
     a ! 6 * b ! 11 + a ! 7 * b ! 10 + a ! 8 * b ! 9 + a ! 9 * b ! 8 + a ! 10 * b ! 7 + a ! 11 * b ! 6,
     a ! 7 * b ! 11 + a ! 8 * b ! 10 + a ! 9 * b ! 9 + a ! 10 * b ! 8 + a ! 11 * b ! 7,
     a ! 8 * b ! 11 + a ! 9 * b ! 10 + a ! 10 * b ! 9 + a ! 11 * b ! 8,
     a ! 9 * b ! 11 + a ! 10 * b ! 10 + a ! 11 * b ! 9,
     a ! 10 * b ! 11 + a ! 11 * b ! 10,
     a ! 11 * b ! 11,
     0]"

definition sc_bytes :: "limb list \<Rightarrow> bytes" where
  "sc_bytes s =
    [ucast (signed_drop_bit 0 (s ! 0)), ucast (signed_drop_bit 8 (s ! 0)),
     ucast (signed_drop_bit 16 (s ! 0) OR push_bit 5 (s ! 1)), ucast (signed_drop_bit 3 (s ! 1)),
     ucast (signed_drop_bit 11 (s ! 1)), ucast (signed_drop_bit 19 (s ! 1) OR push_bit 2 (s ! 2)),
     ucast (signed_drop_bit 6 (s ! 2)), ucast (signed_drop_bit 14 (s ! 2) OR push_bit 7 (s ! 3)),
     ucast (signed_drop_bit 1 (s ! 3)), ucast (signed_drop_bit 9 (s ! 3)),
     ucast (signed_drop_bit 17 (s ! 3) OR push_bit 4 (s ! 4)), ucast (signed_drop_bit 4 (s ! 4)),
     ucast (signed_drop_bit 12 (s ! 4)), ucast (signed_drop_bit 20 (s ! 4) OR push_bit 1 (s ! 5)),
     ucast (signed_drop_bit 7 (s ! 5)), ucast (signed_drop_bit 15 (s ! 5) OR push_bit 6 (s ! 6)),
     ucast (signed_drop_bit 2 (s ! 6)), ucast (signed_drop_bit 10 (s ! 6)),
     ucast (signed_drop_bit 18 (s ! 6) OR push_bit 3 (s ! 7)), ucast (signed_drop_bit 5 (s ! 7)),
     ucast (signed_drop_bit 13 (s ! 7)), ucast (signed_drop_bit 0 (s ! 8)),
     ucast (signed_drop_bit 8 (s ! 8)), ucast (signed_drop_bit 16 (s ! 8) OR push_bit 5 (s ! 9)),
     ucast (signed_drop_bit 3 (s ! 9)), ucast (signed_drop_bit 11 (s ! 9)),
     ucast (signed_drop_bit 19 (s ! 9) OR push_bit 2 (s ! 10)), ucast (signed_drop_bit 6 (s ! 10)),
     ucast (signed_drop_bit 14 (s ! 10) OR push_bit 7 (s ! 11)), ucast (signed_drop_bit 1 (s ! 11)),
     ucast (signed_drop_bit 9 (s ! 11)), ucast (signed_drop_bit 17 (s ! 11))]"

text \<open>\<open>sc_reduce\<close> overwrites the first 32 bytes of the 64 it is given.\<close>

definition sc_reduce :: "bytes \<Rightarrow> bytes" where
  "sc_reduce s = sc_bytes (run_ops sc_reduce_ops (sc_limbs24 s)) @ drop 32 s"

definition sc_muladd :: "bytes \<Rightarrow> bytes \<Rightarrow> bytes \<Rightarrow> bytes" where
  "sc_muladd a b c = sc_bytes (run_ops sc_muladd_ops (sc_products (sc_limbs12 a) (sc_limbs12 b) (sc_limbs12 c)))"

section \<open>Reduction of the limbs\<close>

definition order25519 :: int where
  "order25519 = 2 ^ 252 + 27742317777372353535851937790883648493"

definition wt21 :: "nat \<Rightarrow> int" where "wt21 i = 2 ^ (21 * i)"

lemma take_36_48: "sc_reduce_ops = take 48 sc_reduce_ops @ sc_fold 12 # map sc_floor [0, 1, 2, 3, 4, 5, 6, 7, 8, 9, 10]"
  by (simp add: sc_reduce_ops_def)

lemma int_ops_append: "int_ops (xs @ ys) s = int_ops ys (int_ops xs s)"
  by (simp add: int_ops_def)

lemma int_ops_Cons: "int_ops (x # ys) s = int_ops ys (int_op x s)"
  by (simp add: int_ops_def)

lemma bounds_ops_append:
  "bounds_ops n (xs @ ys) B = (case bounds_ops n xs B of None \<Rightarrow> None | Some C \<Rightarrow> bounds_ops n ys C)"
  by (induction n xs B rule: bounds_ops.induct) (auto split: option.splits)

text \<open>All statements keep the value modulo the order; the carries keep it.\<close>

lemma sc_reduce_exact: "list_all (op_exact order25519 wt21 24) sc_reduce_ops"
  by code_simp

lemma sc_carries_exact:
  "list_all (op_exact order25519 wt21 24) (map sc_carry [0, 2, 4, 6, 8, 10, 12, 14, 16, 18, 20, 22, 1, 3, 5, 7, 9, 11, 13, 15, 17, 19, 21])"
  by code_simp

lemma sc_floors_exact: "list_all (op_exact 0 wt21 24) (map sc_floor [0, 1, 2, 3, 4, 5, 6, 7, 8, 9, 10])"
  by code_simp

text \<open>
  The limbs of a 512-bit number, of a product of two 256-bit numbers, and after the first two
  carries of every limb: then a number of 252 bits from which \<open>2 ^ 252\<close> may have to be taken.
\<close>

definition sc_bounds24 :: "interval list" where
  "sc_bounds24 = replicate 23 (0, 2 ^ 21 - 1) @ [(0, 2 ^ 29 - 1)]"

definition sc_bounds_sum :: "interval list" where
  "sc_bounds_sum =
     (let top = replicate 11 2097151 @ [33554431] in map (\<lambda>x. (0, x)) (sc_products top top top))"

definition sc_bounds_mid :: "interval list" where
  "sc_bounds_mid = replicate 12 (0, 2097151) @ (-1, 0) # replicate 11 (0, 0)"

definition sc_bounds_end :: "interval list" where
  "sc_bounds_end = replicate 11 (0, 2097151) @ (-1, 2097152) # replicate 12 (0, 0)"

lemma sc_bounds:
  "bounds_ops 64 (take 48 sc_reduce_ops) sc_bounds24 = Some sc_bounds_mid"
  "bounds_ops 64 (map sc_carry [0, 2, 4, 6, 8, 10, 12, 14, 16, 18, 20, 22, 1, 3, 5, 7, 9, 11, 13, 15, 17, 19, 21]
     @ take 48 sc_reduce_ops) sc_bounds_sum = Some sc_bounds_mid"
  "bounds_ops 64 (sc_fold 12 # map sc_floor [0, 1, 2, 3, 4, 5, 6, 7, 8, 9, 10]) sc_bounds_mid = Some sc_bounds_end"
  by code_simp+

lemma sum_24: "(\<Sum>i<24::nat. f i) = f 0 + f 1 + f 2 + f 3 + f 4 + f 5 + f 6 + f 7 + f 8 + f 9 + f 10 + f 11
    + f 12 + f 13 + f 14 + f 15 + f 16 + f 17 + f 18 + f 19 + f 20 + f 21 + f 22 + (f 23 :: int)"
  by (simp add: eval_nat_numeral)

lemma low_limbs_sum:
  "(\<And>i. i < n \<Longrightarrow> 0 \<le> xs ! i \<and> xs ! i < 2 ^ 21) \<Longrightarrow>
     0 \<le> (\<Sum>i<n. xs ! i * wt21 i) \<and> (\<Sum>i<n. xs ! i * wt21 i) < wt21 n"
proof (induction n)
  case (Suc n)
  have "xs ! n \<le> 2097151" "0 \<le> xs ! n" using Suc.prems [of n] by simp_all
  then have "xs ! n * wt21 n \<le> 2097151 * wt21 n" "0 \<le> xs ! n * wt21 n"
    by (simp_all add: wt21_def)
  moreover have "wt21 (Suc n) = 2097152 * wt21 n" by (simp add: wt21_def power_add)
  moreover have "0 \<le> (\<Sum>i<n. xs ! i * wt21 i) \<and> (\<Sum>i<n. xs ! i * wt21 i) < wt21 n"
    using Suc.prems by (intro Suc.IH) simp
  ultimately show ?case unfolding sum.lessThan_Suc by linarith
qed (simp add: wt21_def)

text \<open>The last part subtracts nothing or adds the order once.\<close>

lemma sc_last:
  assumes "within xs sc_bounds_mid" and ys: "ys = int_ops (sc_fold 12 # map sc_floor [0, 1, 2, 3, 4, 5, 6, 7, 8, 9, 10]) xs"
  shows "limbs_value wt21 ys = limbs_value wt21 xs - xs ! 12 * order25519"
    "0 \<le> limbs_value wt21 ys" "limbs_value wt21 ys < order25519"
proof -
  have len: "length xs = 24" using within_length [OF assms(1)] by (simp add: sc_bounds_mid_def)
  let ?zs = "int_op (sc_fold 12) xs"
  have exact: "list_all (\<lambda>(j, c). j < length xs \<and> j \<noteq> 12) [(0, 666643), (1, 470296), (2, 654183), (3, -997805), (4, 136657), (5, -683901 :: int)]"
    by (simp add: len)
  have zs: "length ?zs = 24" "limbs_value wt21 ?zs = limbs_value wt21 xs - xs ! 12 * order25519"
    using spread_value [OF exact, of wt21] len
    by (simp_all add: sc_fold_def limbs_value_update wt21_def order25519_def algebra_simps)
  have "limbs_value wt21 ys mod 0 = limbs_value wt21 ?zs mod 0"
    using ops_exact_value [of 0 wt21 ?zs "map sc_floor [0, 1, 2, 3, 4, 5, 6, 7, 8, 9, 10]"] sc_floors_exact zs(1)
    by (simp add: ys int_ops_Cons)
  then show v: "limbs_value wt21 ys = limbs_value wt21 xs - xs ! 12 * order25519" using zs(2) by simp
  have in_bounds: "inside (xs ! i) (sc_bounds_mid ! i)" if "i < 24" for i
    using within_nth [OF assms(1)] that by (simp add: sc_bounds_mid_def)
  have high: "xs ! i = 0" if "12 < i" "i < 24" for i
    using in_bounds [OF that(2)] that by (auto simp: sc_bounds_mid_def inside_def nth_append nth_Cons')
  have low: "0 \<le> xs ! i \<and> xs ! i < 2 ^ 21" if "i < 12" for i
    using in_bounds [of i] that by (auto simp: sc_bounds_mid_def inside_def nth_append)
  define R where "R = (\<Sum>i<12. xs ! i * wt21 i)"
  have sum_low: "0 \<le> R \<and> R < 2 ^ 252"
    using low_limbs_sum [of 12 xs] low by (force simp: R_def wt21_def)
  have "limbs_value wt21 xs = (\<Sum>i<24. xs ! i * wt21 i)" by (simp add: limbs_value_def len)
  also have "{..<24} = {..<12} \<union> insert 12 {12<..<24 :: nat}" by auto
  also have "(\<Sum>i\<in>\<dots>. xs ! i * wt21 i) = R + (xs ! 12 * wt21 12 + (\<Sum>i\<in>{12<..<24}. xs ! i * wt21 i))"
    by (subst sum.union_disjoint) (auto simp: R_def)
  also have "(\<Sum>i\<in>{12<..<24}. xs ! i * wt21 i) = 0" by (rule sum.neutral) (simp add: high)
  finally have val: "limbs_value wt21 xs = R + xs ! 12 * 2 ^ 252" using wt21_def [of 12] by simp
  have "xs ! 12 = 0 \<or> xs ! 12 = -1"
    using in_bounds [of 12] by (auto simp: sc_bounds_mid_def inside_def nth_append)
  then show "0 \<le> limbs_value wt21 ys" "limbs_value wt21 ys < order25519"
    using sum_low unfolding v val order25519_def by auto
qed

definition canonical21 :: "int list \<Rightarrow> bool" where
  "canonical21 ys \<longleftrightarrow> length ys = 24 \<and> (\<forall>i<11. 0 \<le> ys ! i \<and> ys ! i < 2 ^ 21) \<and> 0 \<le> ys ! 11 \<and> ys ! 11 < 2 ^ 22
     \<and> (\<forall>i. 12 \<le> i \<longrightarrow> i < 24 \<longrightarrow> ys ! i = 0)"

lemma sc_reduce_limbs:
  assumes "bounds_ops 64 (ops @ take 48 sc_reduce_ops) B = Some sc_bounds_mid" "within xs B"
    "list_all (op_exact order25519 wt21 24) ops" "length xs = 24"
  shows "\<exists>ys. run_ops (ops @ sc_reduce_ops) (map of_int xs) = (map of_int ys :: limb list)
    \<and> canonical21 ys \<and> limbs_value wt21 ys = limbs_value wt21 xs mod order25519"
proof -
  let ?tail = "sc_fold 12 # map sc_floor [0, 1, 2, 3, 4, 5, 6, 7, 8, 9, 10]"
  define zs where "zs = int_ops (ops @ take 48 sc_reduce_ops) xs"
  define ys where "ys = int_ops ?tail zs"
  have split: "ops @ sc_reduce_ops = (ops @ take 48 sc_reduce_ops) @ ?tail"
    using take_36_48 by simp
  have zs: "within zs sc_bounds_mid"
    using ops_sound [where 'a = 64, of "ops @ take 48 sc_reduce_ops" B sc_bounds_mid xs] assms(1,2) by (simp add: zs_def)
  have "bounds_ops 64 (ops @ sc_reduce_ops) B = Some sc_bounds_end"
    unfolding split bounds_ops_append using assms(1) sc_bounds(3) by (simp add: bounds_ops_append)
  from ops_sound [where 'a = 64, of "ops @ sc_reduce_ops" B sc_bounds_end xs] this assms(2)
  have run: "run_ops (ops @ sc_reduce_ops) (map of_int xs) = (map of_int ys :: limb list)"
    and fin: "within ys sc_bounds_end"
    unfolding ys_def zs_def split int_ops_append by simp_all
  have "list_all (op_exact order25519 wt21 (length xs)) (ops @ sc_reduce_ops)"
    using assms(3,4) sc_reduce_exact by simp
  from ops_exact_value [OF this]
  have len: "length ys = 24" and mod: "limbs_value wt21 ys mod order25519 = limbs_value wt21 xs mod order25519"
    unfolding ys_def zs_def split int_ops_append by (simp_all add: assms(4))
  have range: "0 \<le> limbs_value wt21 ys" "limbs_value wt21 ys < order25519"
    using sc_last(2,3) [OF zs ys_def] .
  have in_bounds: "inside (ys ! i) (sc_bounds_end ! i)" if "i < 24" for i
    using within_nth [OF fin] that by (simp add: sc_bounds_end_def)
  have high: "ys ! i = 0" if "12 \<le> i" "i < 24" for i
    using in_bounds [OF that(2)] that by (auto simp: sc_bounds_end_def inside_def nth_append nth_Cons')
  have low: "0 \<le> ys ! i \<and> ys ! i < 2 ^ 21" if "i < 11" for i
    using in_bounds [of i] that by (auto simp: sc_bounds_end_def inside_def nth_append)
  have sum_low: "0 \<le> (\<Sum>i<11. ys ! i * wt21 i) \<and> (\<Sum>i<11. ys ! i * wt21 i) < wt21 11"
    by (rule low_limbs_sum) (use low in auto)
  have "limbs_value wt21 ys = (\<Sum>i<24. ys ! i * wt21 i)" by (simp add: limbs_value_def len)
  also have "{..<24} = {..<11} \<union> insert 11 {12..<24 :: nat}" by auto
  also have "(\<Sum>i\<in>\<dots>. ys ! i * wt21 i) = (\<Sum>i<11. ys ! i * wt21 i) + (ys ! 11 * wt21 11 + (\<Sum>i\<in>{12..<24}. ys ! i * wt21 i))"
    by (subst sum.union_disjoint) auto
  also have "(\<Sum>i\<in>{12..<24}. ys ! i * wt21 i) = 0" by (rule sum.neutral) (simp add: high)
  finally have val: "limbs_value wt21 ys = (\<Sum>i<11. ys ! i * wt21 i) + ys ! 11 * 2 ^ 231" using wt21_def [of 11] by simp
  have "0 \<le> ys ! 11 \<and> ys ! 11 < 2 ^ 22"
    using sum_low range unfolding val wt21_def order25519_def by simp
  then have "canonical21 ys" using len low high by (simp add: canonical21_def)
  moreover have "limbs_value wt21 ys = limbs_value wt21 xs mod order25519"
    using mod range by simp
  ultimately show ?thesis using run by blast
qed

section \<open>From bytes to limbs\<close>

definition bits_of :: "nat \<Rightarrow> nat \<Rightarrow> bytes \<Rightarrow> int" where
  "bits_of w p bs = take_bit w (drop_bit p (le_int bs))"

lemma load_4_bits: "i + 3 < length bs \<Longrightarrow> load_4 bs i = of_int (bits_of 32 (8 * i) bs)"
  using four_bytes [of i bs] by (simp add: load_4_def bits_of_def)

lemma load_3_bits:
  assumes "i + 2 < length bs"
  shows "load_3 bs i = of_int (bits_of 24 (8 * i) bs)"
proof -
  let ?b = "bs @ [0]"
  have "load_3 bs i = take_bit 24 (load_4 ?b i)"
  proof (rule bit_word_eqI)
    fix n :: nat
    assume "n < LENGTH(64)"
    moreover have "\<not> bit (ucast b :: u64) m" if "8 \<le> m" for b :: u8 and m
      using that by (auto simp: bit_simps dest: bit_imp_le_length)
    ultimately show "bit (load_3 bs i) n \<longleftrightarrow> bit (take_bit 24 (load_4 ?b i)) n"
      using assms by (auto simp: load_3_def load_4_def nth_append bit_simps dest: bit_imp_le_length)
  qed
  moreover have "le_int ?b = le_int bs" by (simp add: le_int_append le_int_Cons)
  ultimately show ?thesis
    using load_4_bits [of i ?b] assms by (simp add: bits_of_def take_bit_of_int)
qed

lemma drop_bits: "w \<le> 63 \<Longrightarrow> drop_bit k (of_int (bits_of w p bs) :: u64) = of_int (bits_of (w - k) (p + k) bs)"
  by (rule bit_word_eqI) (auto simp: bits_of_def bit_simps ac_simps)

lemma mask_bits: "21 \<le> w \<Longrightarrow> 2097151 AND (of_int (bits_of w p bs) :: u64) = of_int (bits_of 21 p bs)"
proof -
  assume w: "21 \<le> w"
  have m: "(2097151 :: u64) = Bit_Operations.mask 21" by (simp add: mask_eq_exp_minus_1)
  show ?thesis unfolding m using w by (intro bit_word_eqI) (auto simp: bits_of_def bit_simps)
qed

definition limbs21 :: "nat \<Rightarrow> nat \<Rightarrow> bytes \<Rightarrow> int list" where
  "limbs21 n w bs = map (\<lambda>i. bits_of 21 (21 * i) bs) [0..<n] @ [bits_of w (21 * n) bs]"

lemma upto_11: "[0..<11] = [0, 1, 2, 3, 4, 5, 6, 7, 8, 9, 10 :: nat]"
  by (simp add: numeral_eq_Suc)

lemma upto_23: "[0..<23] = [0, 1, 2, 3, 4, 5, 6, 7, 8, 9, 10, 11, 12, 13, 14, 15, 16, 17, 18, 19, 20, 21, 22 :: nat]"
  by (simp add: numeral_eq_Suc)

lemma sc_limbs12_bits: "length bs = 32 \<Longrightarrow> sc_limbs12 bs = map of_int (limbs21 11 25 bs)"
  by (simp add: sc_limbs12_def limbs21_def load_3_bits load_4_bits drop_bits mask_bits upto_11)

lemma sc_limbs24_bits: "length bs = 64 \<Longrightarrow> sc_limbs24 bs = map of_int (limbs21 23 29 bs)"
  by (simp add: sc_limbs24_def limbs21_def load_3_bits load_4_bits drop_bits mask_bits upto_23)

lemma bits_of_bounds: "0 \<le> bits_of w p bs" "bits_of w p bs < 2 ^ w"
  by (simp_all add: bits_of_def)

lemma bits_of_le: "bits_of w p bs \<le> 2 ^ w - 1"
  using bits_of_bounds(2) [of w p bs] by simp

lemma limbs21_value: "limbs_value wt21 (limbs21 n w bs) = bits_of (21 * n + w) 0 bs"
proof -
  let ?k = "le_int bs"
  have take: "take_bit (a + b) ?k = take_bit a ?k + 2 ^ a * take_bit b (drop_bit a ?k)" for a b
    by (simp add: take_bit_eq_mod drop_bit_eq_div power_add zmod_zmult2_eq)
  have "(\<Sum>i<n. bits_of 21 (21 * i) bs * wt21 i) = bits_of (21 * n) 0 bs"
  proof (induction n)
    case (Suc n)
    then show ?case using take [of "21 * n" 21] by (simp add: bits_of_def wt21_def add.commute mult.commute)
  qed (simp add: bits_of_def)
  moreover have "limbs_value wt21 (limbs21 n w bs) =
      (\<Sum>i<n. bits_of 21 (21 * i) bs * wt21 i) + bits_of w (21 * n) bs * wt21 n"
    by (simp add: limbs_value_def limbs21_def nth_append)
  ultimately show ?thesis using take [of "21 * n" w] by (simp add: bits_of_def wt21_def mult.commute)
qed

lemma bits_of_all: "8 * length bs \<le> w \<Longrightarrow> bits_of w 0 bs = le_int bs"
  using le_int_bounds [of bs] power_increasing [of "8 * length bs" w "2 :: int"]
  by (simp add: bits_of_def take_bit_int_eq_self_iff del: power_increasing_iff)

section \<open>The product\<close>

lemma sc_products_of_int:
  assumes "length a = 12" "length b = 12" "length c = 12"
  shows "sc_products (map of_int a) (map of_int b) (map of_int c) = (map of_int (sc_products a b c) :: limb list)"
  using assms by (simp add: sc_products_def)

lemma length_sc_products [simp]: "length (sc_products a b c) = 24"
  by (simp add: sc_products_def)

lemma sum_12: "(\<Sum>i<12::nat. f i) = f 0 + f 1 + f 2 + f 3 + f 4 + f 5 + f 6 + f 7 + f 8 + f 9 + f 10 + (f 11 :: int)"
  by (simp add: eval_nat_numeral)

lemma sc_products_polynomial:
  fixes X :: int
  assumes "length a = 12" "length b = 12" "length c = 12"
  shows "(\<Sum>i<24. sc_products a b c ! i * X ^ i) =
    (\<Sum>i<12. a ! i * X ^ i) * (\<Sum>i<12. b ! i * X ^ i) + (\<Sum>i<12. c ! i * X ^ i)"
  unfolding sum_24 sum_12 by (simp add: sc_products_def) algebra

lemma sc_products_value:
  assumes "length a = 12" "length b = 12" "length c = 12"
  shows "limbs_value wt21 (sc_products a b c) = limbs_value wt21 a * limbs_value wt21 b + limbs_value wt21 c"
proof -
  have "wt21 i = (2 ^ 21) ^ i" for i by (simp add: wt21_def power_mult)
  then show ?thesis
    unfolding limbs_value_def assms length_sc_products by (simp only: sc_products_polynomial [OF assms])
qed

lemma sc_products_mono:
  assumes "length a = 12" "length b = 12" "length c = 12" "length a' = 12" "length b' = 12" "length c' = 12"
    and "\<And>i. i < 12 \<Longrightarrow> 0 \<le> a ! i \<and> a ! i \<le> (a' ! i :: int)" "\<And>i. i < 12 \<Longrightarrow> 0 \<le> b ! i \<and> b ! i \<le> b' ! i"
    and "\<And>i. i < 12 \<Longrightarrow> 0 \<le> c ! i \<and> c ! i \<le> c' ! i"
  shows "list_all2 (\<lambda>x y. 0 \<le> x \<and> x \<le> y) (sc_products a b c) (sc_products a' b' c')"
proof -
  have "0 \<le> a ! i * b ! j \<and> a ! i * b ! j \<le> a' ! i * b' ! j" if "i < 12" "j < 12" for i j
    using assms(7) [OF that(1)] assms(8) [OF that(2)] by (auto intro: mult_mono)
  then show ?thesis using assms(9) by (simp add: sc_products_def add_mono)
qed

lemma sc_products_within:
  assumes "length a = 32" "length b = 32" "length c = 32"
  shows "within (sc_products (limbs21 11 25 a) (limbs21 11 25 b) (limbs21 11 25 c)) sc_bounds_sum"
proof -
  have len: "length (limbs21 11 25 s) = 12" for s by (simp add: limbs21_def)
  have "0 \<le> limbs21 11 25 s ! i \<and> limbs21 11 25 s ! i \<le> (replicate 11 2097151 @ [33554431]) ! i" if "i < 12" for s i
    using that bits_of_bounds [of 21 "21 * i" s] bits_of_bounds [of 25 "21 * 11" s]
    by (auto simp: limbs21_def nth_append nth_Cons' not_less)
  from sc_products_mono [OF len len len _ _ _ this this this] show ?thesis
    by (simp add: within_def sc_bounds_sum_def inside_def list_all2_map2 Let_def)
qed

section \<open>From limbs to bytes\<close>

lemma bit_concat:
  assumes "0 \<le> x" "x < 2 ^ m"
  shows "bit (x + y * 2 ^ m) n \<longleftrightarrow> (if n < m then bit x n else bit (y :: int) (n - m))"
proof -
  have no: "\<not> bit x k" if "m \<le> k" for k
    using assms that bit_take_bit_iff [of m x k] by (simp add: take_bit_int_eq_self)
  have "x + y * 2 ^ m = x OR push_bit m y"
    unfolding push_bit_eq_mult by (rule disjunctive_add) (auto simp: bit_simps no simp flip: push_bit_eq_mult)
  then show ?thesis using no by (auto simp: bit_simps)
qed

lemma bit_limbs21:
  assumes "\<And>i. i < k \<Longrightarrow> 0 \<le> xs ! i \<and> xs ! i < 2 ^ 21"
  shows "bit ((\<Sum>i<k. xs ! i * wt21 i) + y * wt21 k) n \<longleftrightarrow>
    (if n < 21 * k then bit (xs ! (n div 21)) (n mod 21) else bit y (n - 21 * k))"
  using assms
proof (induction k arbitrary: y)
  case (Suc k)
  have y: "xs ! k * wt21 k + y * wt21 (Suc k) = (xs ! k + y * 2 ^ 21) * wt21 k"
    by (simp add: wt21_def power_add algebra_simps)
  have "bit ((\<Sum>i<Suc k. xs ! i * wt21 i) + y * wt21 (Suc k)) n \<longleftrightarrow>
      bit ((\<Sum>i<k. xs ! i * wt21 i) + (xs ! k + y * 2 ^ 21) * wt21 k) n"
    by (simp only: sum.lessThan_Suc add.assoc y)
  also have "\<dots> \<longleftrightarrow> (if n < 21 * k then bit (xs ! (n div 21)) (n mod 21) else bit (xs ! k + y * 2 ^ 21) (n - 21 * k))"
    using Suc.prems by (intro Suc.IH) simp
  finally have eq: "bit ((\<Sum>i<Suc k. xs ! i * wt21 i) + y * wt21 (Suc k)) n \<longleftrightarrow>
      (if n < 21 * k then bit (xs ! (n div 21)) (n mod 21) else bit (xs ! k + y * 2 ^ 21) (n - 21 * k))" .
  have top: "bit (xs ! k + y * 2 ^ 21) (n - 21 * k) \<longleftrightarrow>
      (if n - 21 * k < 21 then bit (xs ! k) (n - 21 * k) else bit y (n - 21 * k - 21))"
    using Suc.prems [of k] by (intro bit_concat) auto
  consider "n < 21 * k" | "21 * k \<le> n" "n < 21 * Suc k" | "21 * Suc k \<le> n" by linarith
  then show ?case
  proof cases
    case 1
    then show ?thesis unfolding eq by simp
  next
    case 2
    then have "n div 21 = k" by (intro div_nat_eqI) auto
    moreover from this have "n mod 21 = n - 21 * k" by (simp flip: minus_mult_div_eq_mod)
    moreover have "\<not> n < 21 * k" "n - 21 * k < 21" using 2 by auto
    ultimately show ?thesis using 2 unfolding eq top by simp
  next
    case 3
    then have "\<not> n < 21 * k" "\<not> n - 21 * k < 21" "n - 21 * k - 21 = n - 21 * Suc k" by auto
    then show ?thesis using 3 unfolding eq top by simp
  qed
qed (simp add: wt21_def)

lemma canonical21_value:
  assumes "canonical21 ys"
  shows "limbs_value wt21 ys = (\<Sum>i<11. ys ! i * wt21 i) + ys ! 11 * wt21 11"
proof -
  have "{..<24} = {..<11} \<union> insert 11 {12..<24 :: nat}" by auto
  moreover have "(\<Sum>i\<in>{..<11} \<union> insert 11 {12..<24}. ys ! i * wt21 i) =
      (\<Sum>i<11. ys ! i * wt21 i) + (ys ! 11 * wt21 11 + (\<Sum>i\<in>{12..<24}. ys ! i * wt21 i))"
    by (subst sum.union_disjoint) auto
  moreover have "(\<Sum>i\<in>{12..<24}. ys ! i * wt21 i) = 0"
    using assms by (intro sum.neutral) (simp add: canonical21_def)
  ultimately show ?thesis using assms by (simp add: canonical21_def limbs_value_def)
qed

lemma length_sc_bytes [simp]: "length (sc_bytes s) = 32"
  by (simp add: sc_bytes_def)

text \<open>The bits of 32 bytes, one by one.\<close>

lemma all_bits:
  assumes "length bs = 32"
    and "list_all (\<lambda>(k, b). list_all (\<lambda>m. bit b m = P (8 * k + m)) [0, 1, 2, 3, 4, 5, 6, 7])
      (zip [0, 1, 2, 3, 4, 5, 6, 7, 8, 9, 10, 11, 12, 13, 14, 15, 16, 17, 18, 19, 20, 21, 22, 23, 24, 25, 26, 27, 28, 29, 30, 31] bs)"
  shows "n < 256 \<Longrightarrow> bit (bs ! (n div 8)) (n mod 8) = P (n :: nat)"
proof -
  assume n: "n < 256"
  let ?l = "[0, 1, 2, 3, 4, 5, 6, 7, 8, 9, 10, 11, 12, 13, 14, 15, 16, 17, 18, 19, 20, 21, 22, 23, 24, 25, 26, 27, 28, 29, 30, 31 :: nat]"
  have l: "[0..<32] = ?l" and m: "[0..<8] = [0, 1, 2, 3, 4, 5, 6, 7 :: nat]"
    by (simp_all add: numeral_eq_Suc)
  have "zip ?l bs ! (n div 8) = (n div 8, bs ! (n div 8))"
    unfolding l [symmetric] using n assms(1) by simp
  moreover have "n div 8 < length (zip ?l bs)" using n assms(1) by simp
  ultimately have "(n div 8, bs ! (n div 8)) \<in> set (zip ?l bs)" by (metis nth_mem)
  then have "list_all (\<lambda>m. bit (bs ! (n div 8)) m = P (8 * (n div 8) + m)) [0..<8]"
    using assms(2) unfolding m list_all_iff by blast
  then have "bit (bs ! (n div 8)) (n mod 8) = P (8 * (n div 8) + n mod 8)"
    unfolding list_all_iff by (rule bspec) simp
  then show ?thesis by simp
qed

lemma sc_bytes_value:
  assumes "canonical21 ys"
  shows "le_int (sc_bytes (map of_int ys)) = limbs_value wt21 ys"
proof (rule bit_eqI)
  fix n :: nat
  let ?bs = "sc_bytes (map of_int ys)"
  have len: "length ys = 24" using assms by (simp add: canonical21_def)
  have low: "0 \<le> ys ! i \<and> ys ! i < 2 ^ 21" if "i < 11" for i using assms that by (simp add: canonical21_def)
  have no: "\<not> bit (ys ! i) k" if "i < 11" "21 \<le> k" for i k
    using low [OF that(1)] that(2) bit_take_bit_iff [of 21 "ys ! i" k] by (simp add: take_bit_int_eq_self)
  have no11: "\<not> bit (ys ! 11) k" if "22 \<le> k" for k
    using assms that bit_take_bit_iff [of 22 "ys ! 11" k] by (simp add: canonical21_def take_bit_int_eq_self)
  have V: "bit (limbs_value wt21 ys) n \<longleftrightarrow> (if n < 231 then bit (ys ! (n div 21)) (n mod 21) else bit (ys ! 11) (n - 231))" for n
    using bit_limbs21 [of 11 ys "ys ! 11" n] low by (simp add: canonical21_value [OF assms])
  show "bit (le_int ?bs) n \<longleftrightarrow> bit (limbs_value wt21 ys) n"
  proof (cases "n < 256")
    case False
    then have "22 \<le> n - 231" "\<not> n div 8 < 32" "\<not> n < 231" by simp_all
    then show ?thesis using no11 by (simp add: bit_le_int V)
  next
    case True
    have "bit (?bs ! (n div 8)) (n mod 8) = bit (limbs_value wt21 ys) n"
      by (rule all_bits [OF _ _ True], simp, unfold V)
        (simp add: sc_bytes_def len bit_simps no no11 del: push_bit_Suc, simp add: numeral_2_eq_2 numeral_3_eq_3)
    moreover have "n div 8 < 32" using True by simp
    ultimately show ?thesis by (simp add: bit_le_int)
  qed
qed

section \<open>Properties\<close>

lemma sc_reduce_value:
  assumes "length s = 64"
  shows "length (sc_reduce s) = 64 \<and> le_int (take 32 (sc_reduce s)) = le_int s mod order25519"
proof -
  let ?xs = "limbs21 23 29 s"
  have len: "length ?xs = 24" by (simp add: limbs21_def)
  have "within ?xs sc_bounds24"
    unfolding within_def sc_bounds24_def limbs21_def
    using bits_of_le [of 21] bits_of_le [of 29]
    by (intro list_all2_appendI) (auto simp: list_all2_conv_all_nth inside_def bits_of_bounds(1))
  with sc_reduce_limbs [of "[]" sc_bounds24 ?xs] sc_bounds(1) len obtain ys where
    ys: "run_ops sc_reduce_ops (map of_int ?xs) = (map of_int ys :: limb list)" "canonical21 ys"
      "limbs_value wt21 ys = limbs_value wt21 ?xs mod order25519"
    by auto
  moreover have "limbs_value wt21 ?xs = le_int s"
    using assms by (simp add: limbs21_value bits_of_all)
  ultimately show ?thesis
    using assms sc_bytes_value [OF ys(2)] by (simp add: sc_reduce_def sc_limbs24_bits)
qed

lemma sc_muladd_value:
  assumes "length a = 32" "length b = 32" "length c = 32"
  shows "le_int (sc_muladd a b c) = (le_int a * le_int b + le_int c) mod order25519"
proof -
  let ?l = "limbs21 11 25"
  let ?xs = "sc_products (?l a) (?l b) (?l c)"
  have len: "length (?l s) = 12" for s by (simp add: limbs21_def)
  from sc_reduce_limbs [OF sc_bounds(2) sc_products_within [OF assms] sc_carries_exact] obtain ys where
    ys: "run_ops sc_muladd_ops (map of_int ?xs) = (map of_int ys :: limb list)" "canonical21 ys"
      "limbs_value wt21 ys = limbs_value wt21 ?xs mod order25519"
    by (auto simp: sc_muladd_ops_def)
  moreover have "limbs_value wt21 ?xs = le_int a * le_int b + le_int c"
    using assms by (simp add: sc_products_value len limbs21_value bits_of_all)
  ultimately show ?thesis
    using assms sc_bytes_value [OF ys(2)]
    by (simp add: sc_muladd_def sc_limbs12_bits sc_products_of_int len)
qed

lemma length_sc_muladd [simp]: "length (sc_muladd a b c) = 32"
  by (simp add: sc_muladd_def)

text \<open>C15: For three numbers of 32 bytes sc_muladd computes the 32 bytes of a * b + c modulo the order of the
  base point, fully reduced.\<close>

theorem sc_muladd_exact:
  assumes "length a = 32" "length b = 32" "length c = 32"
  shows "length (sc_muladd a b c) = 32 \<and>
    le_int (sc_muladd a b c) = (le_int a * le_int b + le_int c) mod order25519"
  using sc_muladd_value [OF assms] by simp

lemma sc_muladd_exact_witness:
  "length (sc_muladd (replicate 32 255) (replicate 32 255) (replicate 32 255)) = 32 \<and>
    le_int (sc_muladd (replicate 32 255) (replicate 32 255) (replicate 32 255)) =
      (le_int (replicate 32 255) * le_int (replicate 32 255) + le_int (replicate 32 255)) mod order25519"
  by (rule sc_muladd_exact) simp_all

end
