(* ===== verification/EdField.thy ===== *)
theory EdField
  imports EdScalar Gf25519 DonnaContract
begin

text \<open>
  \<open>lib/ed25519/src/fe.c\<close>: the field with \<open>2 ^ 255 - 19\<close> elements, in ten limbs of 26 and 25 bits
  held in signed 32-bit words.  Every function reads its arguments before it writes its result, so
  each is a function of the arguments, wherever the result goes.
\<close>

section \<open>The code\<close>

type_synonym fe = "s32 list"

definition fe_0 :: fe where "fe_0 = [0, 0, 0, 0, 0, 0, 0, 0, 0, 0]"

definition fe_1 :: fe where "fe_1 = [1, 0, 0, 0, 0, 0, 0, 0, 0, 0]"

definition fe_add :: "fe \<Rightarrow> fe \<Rightarrow> fe" where "fe_add f g = map (\<lambda>i. f ! i + g ! i) [0..<10]"

definition fe_sub :: "fe \<Rightarrow> fe \<Rightarrow> fe" where "fe_sub f g = map (\<lambda>i. f ! i - g ! i) [0..<10]"

definition fe_neg :: "fe \<Rightarrow> fe" where "fe_neg f = map (\<lambda>i. - (f ! i)) [0..<10]"

definition fe_copy :: "fe \<Rightarrow> fe" where "fe_copy f = map (\<lambda>i. f ! i) [0..<10]"

definition fe_cmov :: "fe \<Rightarrow> fe \<Rightarrow> u32 \<Rightarrow> fe" where
  "fe_cmov f g b = (let b = - b in map (\<lambda>i. let x = (f ! i XOR g ! i) AND b in f ! i XOR x) [0..<10])"

definition fe_cswap :: "fe \<Rightarrow> fe \<Rightarrow> u32 \<Rightarrow> fe \<times> fe" where
  "fe_cswap f g b =
     (let b = - b in
      (map (\<lambda>i. let x = (f ! i XOR g ! i) AND b in f ! i XOR x) [0..<10],
       map (\<lambda>i. let x = (f ! i XOR g ! i) AND b in g ! i XOR x) [0..<10]))"

text \<open>
  The products of the limbs.  Twice and nineteen times a limb is computed on 32 bits; \<open>w\<close> widens
  a word of 32 bits to 64.  The definitions are also used on integers, with \<open>w\<close> the identity.
\<close>

definition fe_products :: "('a::comm_ring_1 \<Rightarrow> 'b::comm_ring_1) \<Rightarrow> 'a list \<Rightarrow> 'a list \<Rightarrow> 'b list" where
  "fe_products w f g =
     (let g1_19 = 19 * g ! 1; g2_19 = 19 * g ! 2; g3_19 = 19 * g ! 3; g4_19 = 19 * g ! 4;
          g5_19 = 19 * g ! 5; g6_19 = 19 * g ! 6; g7_19 = 19 * g ! 7; g8_19 = 19 * g ! 8;
          g9_19 = 19 * g ! 9; f1_2 = 2 * f ! 1; f3_2 = 2 * f ! 3; f5_2 = 2 * f ! 5; f7_2 = 2 * f ! 7;
          f9_2 = 2 * f ! 9
      in
     [w (f ! 0) * w (g ! 0) + w f1_2 * w g9_19 + w (f ! 2) * w g8_19 + w f3_2 * w g7_19 + w (f ! 4) * w g6_19
       + w f5_2 * w g5_19 + w (f ! 6) * w g4_19 + w f7_2 * w g3_19 + w (f ! 8) * w g2_19 + w f9_2 * w g1_19,
      w (f ! 0) * w (g ! 1) + w (f ! 1) * w (g ! 0) + w (f ! 2) * w g9_19 + w (f ! 3) * w g8_19 + w (f ! 4) * w g7_19
       + w (f ! 5) * w g6_19 + w (f ! 6) * w g5_19 + w (f ! 7) * w g4_19 + w (f ! 8) * w g3_19 + w (f ! 9) * w g2_19,
      w (f ! 0) * w (g ! 2) + w f1_2 * w (g ! 1) + w (f ! 2) * w (g ! 0) + w f3_2 * w g9_19 + w (f ! 4) * w g8_19
       + w f5_2 * w g7_19 + w (f ! 6) * w g6_19 + w f7_2 * w g5_19 + w (f ! 8) * w g4_19 + w f9_2 * w g3_19,
      w (f ! 0) * w (g ! 3) + w (f ! 1) * w (g ! 2) + w (f ! 2) * w (g ! 1) + w (f ! 3) * w (g ! 0) + w (f ! 4) * w g9_19
       + w (f ! 5) * w g8_19 + w (f ! 6) * w g7_19 + w (f ! 7) * w g6_19 + w (f ! 8) * w g5_19 + w (f ! 9) * w g4_19,
      w (f ! 0) * w (g ! 4) + w f1_2 * w (g ! 3) + w (f ! 2) * w (g ! 2) + w f3_2 * w (g ! 1) + w (f ! 4) * w (g ! 0)
       + w f5_2 * w g9_19 + w (f ! 6) * w g8_19 + w f7_2 * w g7_19 + w (f ! 8) * w g6_19 + w f9_2 * w g5_19,
      w (f ! 0) * w (g ! 5) + w (f ! 1) * w (g ! 4) + w (f ! 2) * w (g ! 3) + w (f ! 3) * w (g ! 2) + w (f ! 4) * w (g ! 1)
       + w (f ! 5) * w (g ! 0) + w (f ! 6) * w g9_19 + w (f ! 7) * w g8_19 + w (f ! 8) * w g7_19 + w (f ! 9) * w g6_19,
      w (f ! 0) * w (g ! 6) + w f1_2 * w (g ! 5) + w (f ! 2) * w (g ! 4) + w f3_2 * w (g ! 3) + w (f ! 4) * w (g ! 2)
       + w f5_2 * w (g ! 1) + w (f ! 6) * w (g ! 0) + w f7_2 * w g9_19 + w (f ! 8) * w g8_19 + w f9_2 * w g7_19,
      w (f ! 0) * w (g ! 7) + w (f ! 1) * w (g ! 6) + w (f ! 2) * w (g ! 5) + w (f ! 3) * w (g ! 4) + w (f ! 4) * w (g ! 3)
       + w (f ! 5) * w (g ! 2) + w (f ! 6) * w (g ! 1) + w (f ! 7) * w (g ! 0) + w (f ! 8) * w g9_19 + w (f ! 9) * w g8_19,
      w (f ! 0) * w (g ! 8) + w f1_2 * w (g ! 7) + w (f ! 2) * w (g ! 6) + w f3_2 * w (g ! 5) + w (f ! 4) * w (g ! 4)
       + w f5_2 * w (g ! 3) + w (f ! 6) * w (g ! 2) + w f7_2 * w (g ! 1) + w (f ! 8) * w (g ! 0) + w f9_2 * w g9_19,
      w (f ! 0) * w (g ! 9) + w (f ! 1) * w (g ! 8) + w (f ! 2) * w (g ! 7) + w (f ! 3) * w (g ! 6) + w (f ! 4) * w (g ! 5)
       + w (f ! 5) * w (g ! 4) + w (f ! 6) * w (g ! 3) + w (f ! 7) * w (g ! 2) + w (f ! 8) * w (g ! 1)
       + w (f ! 9) * w (g ! 0)])"

definition fe_squares :: "('a::comm_ring_1 \<Rightarrow> 'b::comm_ring_1) \<Rightarrow> 'a list \<Rightarrow> 'b list" where
  "fe_squares w f =
     (let f0_2 = 2 * f ! 0; f1_2 = 2 * f ! 1; f2_2 = 2 * f ! 2; f3_2 = 2 * f ! 3; f4_2 = 2 * f ! 4;
          f5_2 = 2 * f ! 5; f6_2 = 2 * f ! 6; f7_2 = 2 * f ! 7; f5_38 = 38 * f ! 5; f6_19 = 19 * f ! 6;
          f7_38 = 38 * f ! 7; f8_19 = 19 * f ! 8; f9_38 = 38 * f ! 9
      in
     [w (f ! 0) * w (f ! 0) + w f1_2 * w f9_38 + w f2_2 * w f8_19 + w f3_2 * w f7_38 + w f4_2 * w f6_19 + w (f ! 5) * w f5_38,
      w f0_2 * w (f ! 1) + w (f ! 2) * w f9_38 + w f3_2 * w f8_19 + w (f ! 4) * w f7_38 + w f5_2 * w f6_19,
      w f0_2 * w (f ! 2) + w f1_2 * w (f ! 1) + w f3_2 * w f9_38 + w f4_2 * w f8_19 + w f5_2 * w f7_38 + w (f ! 6) * w f6_19,
      w f0_2 * w (f ! 3) + w f1_2 * w (f ! 2) + w (f ! 4) * w f9_38 + w f5_2 * w f8_19 + w (f ! 6) * w f7_38,
      w f0_2 * w (f ! 4) + w f1_2 * w f3_2 + w (f ! 2) * w (f ! 2) + w f5_2 * w f9_38 + w f6_2 * w f8_19 + w (f ! 7) * w f7_38,
      w f0_2 * w (f ! 5) + w f1_2 * w (f ! 4) + w f2_2 * w (f ! 3) + w (f ! 6) * w f9_38 + w f7_2 * w f8_19,
      w f0_2 * w (f ! 6) + w f1_2 * w f5_2 + w f2_2 * w (f ! 4) + w f3_2 * w (f ! 3) + w f7_2 * w f9_38 + w (f ! 8) * w f8_19,
      w f0_2 * w (f ! 7) + w f1_2 * w (f ! 6) + w f2_2 * w (f ! 5) + w f3_2 * w (f ! 4) + w (f ! 8) * w f9_38,
      w f0_2 * w (f ! 8) + w f1_2 * w f7_2 + w f2_2 * w (f ! 6) + w f3_2 * w f5_2 + w (f ! 4) * w (f ! 4) + w (f ! 9) * w f9_38,
      w f0_2 * w (f ! 9) + w f1_2 * w (f ! 8) + w f2_2 * w (f ! 7) + w f3_2 * w (f ! 6) + w f4_2 * w (f ! 5)])"

text \<open>The rounded carry from a limb to the next one; from the last limb it goes into the first, times 19.\<close>

definition fe_carry :: "nat \<Rightarrow> limb_op" where
  "fe_carry i = Carry (limb_width i) i ((i + 1) mod 10) (if i = 9 then 19 else 1) (2 ^ (limb_width i - 1))"

definition fe_mul_ops :: "limb_op list" where
  "fe_mul_ops = map fe_carry [0, 4, 1, 5, 2, 6, 3, 7, 4, 8, 9, 0]"

definition fe_load_ops :: "limb_op list" where
  "fe_load_ops = map fe_carry [9, 1, 3, 5, 7, 0, 2, 4, 6, 8]"

definition fe_mul :: "fe \<Rightarrow> fe \<Rightarrow> fe" where
  "fe_mul f g = map to_s32 (run_ops fe_mul_ops (fe_products to_limb f g))"

definition fe_sq :: "fe \<Rightarrow> fe" where
  "fe_sq f = map to_s32 (run_ops fe_mul_ops (fe_squares to_limb f))"

definition fe_sq2 :: "fe \<Rightarrow> fe" where
  "fe_sq2 f = map to_s32 (run_ops fe_mul_ops (map (\<lambda>h. h + h) (fe_squares to_limb f)))"

definition fe_mul121666 :: "fe \<Rightarrow> fe" where
  "fe_mul121666 f = map to_s32 (run_ops fe_load_ops (map (\<lambda>i. to_limb (f ! i) * 121666) [0..<10]))"

definition fe_load :: "bytes \<Rightarrow> limb list" where
  "fe_load s =
    [load_4 s 0, push_bit 6 (load_3 s 4), push_bit 5 (load_3 s 7), push_bit 3 (load_3 s 10), push_bit 2 (load_3 s 13),
     load_4 s 16, push_bit 7 (load_3 s 20), push_bit 5 (load_3 s 23), push_bit 4 (load_3 s 26),
     push_bit 2 (load_3 s 29 AND 8388607)]"

definition fe_frombytes :: "bytes \<Rightarrow> fe" where
  "fe_frombytes s = map to_s32 (run_ops fe_load_ops (fe_load s))"

text \<open>
  \<open>fe_tobytes\<close>: how often the prime goes into the number, that often subtracted with carries that
  round down, and the bytes of the limbs.  Limb 10 stands for the last carry.
\<close>

definition fe_quotient :: "fe \<Rightarrow> s32" where
  "fe_quotient h = fold (\<lambda>i q. signed_drop_bit (limb_width i) (h ! i + q)) [0..<10]
     (signed_drop_bit 25 (19 * h ! 9 + push_bit 24 1))"

definition fe_floor :: "nat \<Rightarrow> limb_op" where
  "fe_floor i = Carry (limb_width i) i (i + 1) 1 0"

definition fe_floor_ops :: "limb_op list" where
  "fe_floor_ops = map fe_floor [0, 1, 2, 3, 4, 5, 6, 7, 8, 9]"

definition fe_bytes :: "fe \<Rightarrow> bytes" where
  "fe_bytes h =
    [ucast (signed_drop_bit 0 (h ! 0)), ucast (signed_drop_bit 8 (h ! 0)),
     ucast (signed_drop_bit 16 (h ! 0)), ucast (signed_drop_bit 24 (h ! 0) OR push_bit 2 (h ! 1)),
     ucast (signed_drop_bit 6 (h ! 1)), ucast (signed_drop_bit 14 (h ! 1)),
     ucast (signed_drop_bit 22 (h ! 1) OR push_bit 3 (h ! 2)), ucast (signed_drop_bit 5 (h ! 2)),
     ucast (signed_drop_bit 13 (h ! 2)), ucast (signed_drop_bit 21 (h ! 2) OR push_bit 5 (h ! 3)),
     ucast (signed_drop_bit 3 (h ! 3)), ucast (signed_drop_bit 11 (h ! 3)),
     ucast (signed_drop_bit 19 (h ! 3) OR push_bit 6 (h ! 4)), ucast (signed_drop_bit 2 (h ! 4)),
     ucast (signed_drop_bit 10 (h ! 4)), ucast (signed_drop_bit 18 (h ! 4)),
     ucast (signed_drop_bit 0 (h ! 5)), ucast (signed_drop_bit 8 (h ! 5)),
     ucast (signed_drop_bit 16 (h ! 5)), ucast (signed_drop_bit 24 (h ! 5) OR push_bit 1 (h ! 6)),
     ucast (signed_drop_bit 7 (h ! 6)), ucast (signed_drop_bit 15 (h ! 6)),
     ucast (signed_drop_bit 23 (h ! 6) OR push_bit 3 (h ! 7)), ucast (signed_drop_bit 5 (h ! 7)),
     ucast (signed_drop_bit 13 (h ! 7)), ucast (signed_drop_bit 21 (h ! 7) OR push_bit 4 (h ! 8)),
     ucast (signed_drop_bit 4 (h ! 8)), ucast (signed_drop_bit 12 (h ! 8)),
     ucast (signed_drop_bit 20 (h ! 8) OR push_bit 6 (h ! 9)), ucast (signed_drop_bit 2 (h ! 9)),
     ucast (signed_drop_bit 10 (h ! 9)), ucast (signed_drop_bit 18 (h ! 9))]"

definition fe_tobytes :: "fe \<Rightarrow> bytes" where
  "fe_tobytes h =
     (let q = fe_quotient h;
          h = h[0 := h ! 0 + 19 * q]
      in fe_bytes (run_ops fe_floor_ops (h @ [0])))"

definition fe_isnegative :: "fe \<Rightarrow> nat" where
  "fe_isnegative f = (let s = fe_tobytes f in unat (s ! 0 AND 1))"

definition fe_isnonzero :: "fe \<Rightarrow> bool" where
  "fe_isnonzero f =
     (let s = fe_tobytes f;
          r = fold (\<lambda>i r. r OR s ! i) [1..<32] (s ! 0)
      in r \<noteq> 0)"

text \<open>\<open>fe_sq(t, f)\<close> and then \<open>fe_sq(t, t)\<close> for \<open>i\<close> from 1 up to \<open>n - 1\<close>.\<close>

definition fe_sq_times :: "nat \<Rightarrow> fe \<Rightarrow> fe" where
  "fe_sq_times n f = fold (\<lambda>i t. fe_sq t) [1..<n] (fe_sq f)"

definition fe_invert :: "fe \<Rightarrow> fe" where
  "fe_invert z =
     (let t0 = fe_sq_times 1 z;
          t1 = fe_sq_times 2 t0;
          t1 = fe_mul z t1;
          t0 = fe_mul t0 t1;
          t2 = fe_sq_times 1 t0;
          t1 = fe_mul t1 t2;
          t2 = fe_sq_times 5 t1;
          t1 = fe_mul t2 t1;
          t2 = fe_sq_times 10 t1;
          t2 = fe_mul t2 t1;
          t3 = fe_sq_times 20 t2;
          t2 = fe_mul t3 t2;
          t2 = fe_sq_times 10 t2;
          t1 = fe_mul t2 t1;
          t2 = fe_sq_times 50 t1;
          t2 = fe_mul t2 t1;
          t3 = fe_sq_times 100 t2;
          t2 = fe_mul t3 t2;
          t2 = fe_sq_times 50 t2;
          t1 = fe_mul t2 t1;
          t1 = fe_sq_times 5 t1
      in fe_mul t1 t0)"

definition fe_pow22523 :: "fe \<Rightarrow> fe" where
  "fe_pow22523 z =
     (let t0 = fe_sq_times 1 z;
          t1 = fe_sq_times 2 t0;
          t1 = fe_mul z t1;
          t0 = fe_mul t0 t1;
          t0 = fe_sq_times 1 t0;
          t0 = fe_mul t1 t0;
          t1 = fe_sq_times 5 t0;
          t0 = fe_mul t1 t0;
          t1 = fe_sq_times 10 t0;
          t1 = fe_mul t1 t0;
          t2 = fe_sq_times 20 t1;
          t1 = fe_mul t2 t1;
          t1 = fe_sq_times 10 t1;
          t0 = fe_mul t1 t0;
          t1 = fe_sq_times 50 t0;
          t1 = fe_mul t1 t0;
          t2 = fe_sq_times 100 t1;
          t1 = fe_mul t2 t1;
          t1 = fe_sq_times 50 t1;
          t0 = fe_mul t1 t0;
          t0 = fe_sq_times 2 t0
      in fe_mul t0 z)"

section \<open>What a field element stands for\<close>

text \<open>
  The bounds on limbs are multiples of \<open>1.01 * 2 ^ 25\<close> for the even and \<open>1.01 * 2 ^ 24\<close> for the odd
  ones.  A product has bound 1, and the arguments of a product must have bound 3.
\<close>

definition fe_unit :: "nat \<Rightarrow> int" where
  "fe_unit i = (if i mod 2 = 0 then 33889976 else 16944988)"

definition wt10 :: "nat \<Rightarrow> int" where "wt10 i = 2 ^ off i"

definition fe_val :: "fe \<Rightarrow> gf" where
  "fe_val f = of_int (limbs_value wt10 (map sint f))"

definition fe_is :: "int \<Rightarrow> fe \<Rightarrow> gf \<Rightarrow> bool" where
  "fe_is n f x \<longleftrightarrow> length f = 10 \<and> list_all (\<lambda>i. \<bar>sint (f ! i)\<bar> \<le> n * fe_unit i) [0..<10] \<and> fe_val f = x"

lemma fe_unit_bounds: "0 < fe_unit i" "fe_unit i \<le> 33889976"
  by (simp_all add: fe_unit_def)

lemma fe_isI:
  assumes "length F = 10" "\<And>i. i < 10 \<Longrightarrow> \<bar>F ! i\<bar> \<le> n * fe_unit i" "0 \<le> n" "n \<le> 60" "x = of_int (limbs_value wt10 F)"
  shows "fe_is n (map of_int F) x"
proof -
  have "sint (of_int (F ! i) :: s32) = F ! i" if "i < 10" for i
  proof (rule sint_of_int32)
    have "n * fe_unit i \<le> 60 * 33889976"
      using assms(3,4) fe_unit_bounds [of i] by (intro mult_mono) auto
    then show "\<bar>F ! i\<bar> < 2 ^ 31" using assms(2) [OF that] by simp
  qed
  moreover from this have "map (sint \<circ> (of_int :: int \<Rightarrow> s32)) F = F"
    using assms(1) by (intro nth_equalityI) auto
  ultimately show ?thesis using assms(1,2,5) by (simp add: fe_is_def fe_val_def list_all_iff)
qed

lemma fe_isE:
  assumes "fe_is n f x"
  obtains F where "length F = 10" "f = map of_int F" "\<And>i. i < 10 \<Longrightarrow> \<bar>F ! i\<bar> \<le> n * fe_unit i"
    "x = of_int (limbs_value wt10 F)"
proof (rule that [of "map sint f"])
  show "length (map sint f) = 10" "f = map of_int (map sint f)" "x = of_int (limbs_value wt10 (map sint f))"
    using assms by (simp_all add: fe_is_def fe_val_def comp_def)
  show "\<bar>map sint f ! i\<bar> \<le> n * fe_unit i" if "i < 10" for i
    using assms that by (simp add: fe_is_def list_all_iff)
qed

lemma fe_is_length: "fe_is n f x \<Longrightarrow> length f = 10"
  by (simp add: fe_is_def)

lemma fe_is_val: "fe_is n f x \<Longrightarrow> fe_val f = x"
  by (simp add: fe_is_def)

lemma fe_is_weaken: "fe_is n f x \<Longrightarrow> n \<le> m \<Longrightarrow> fe_is m f x"
  using mult_right_mono [OF _ less_imp_le [OF fe_unit_bounds(1)], of n m]
  by (auto simp: fe_is_def list_all_iff intro: order_trans)

lemma fe_is_0: "fe_is 1 fe_0 0"
  by (simp add: fe_is_def fe_0_def fe_val_def limbs_value_def list_all_iff fe_unit_def nth_Cons' sum_10)

lemma fe_is_1: "fe_is 1 fe_1 1"
  by (simp add: fe_is_def fe_1_def fe_val_def limbs_value_def list_all_iff fe_unit_def nth_Cons' sum_10 wt10_def off_def)

text \<open>Functions that work limb by limb.\<close>

lemma limbs_value_map10: "limbs_value wt (map x [0..<10]) = (\<Sum>i<10. x i * wt i)"
  by (simp add: limbs_value_def)

lemma limbs_value_10: "length F = 10 \<Longrightarrow> limbs_value wt F = (\<Sum>i<10. F ! i * wt i)"
  by (simp add: limbs_value_def)

lemma fe_is_map:
  assumes "\<And>i. i < 10 \<Longrightarrow> g i = of_int (X i)" "\<And>i. i < 10 \<Longrightarrow> \<bar>X i\<bar> \<le> n * fe_unit i" "0 \<le> n" "n \<le> 60"
    "x = of_int (\<Sum>i<10. X i * wt10 i)"
  shows "fe_is n (map g [0..<10]) x"
proof -
  have "map g [0..<10] = map of_int (map X [0..<10])" using assms(1) by simp
  moreover have "fe_is n (map of_int (map X [0..<10])) x"
    using assms(2-5) by (intro fe_isI) (simp_all add: limbs_value_map10)
  ultimately show ?thesis by (simp only:)
qed

lemma fe_is_add:
  assumes "fe_is n f x" "fe_is m g y" "0 \<le> n" "0 \<le> m" "n + m \<le> 60"
  shows "fe_is (n + m) (fe_add f g) (x + y)"
proof -
  obtain F where F: "length F = 10" "f = map of_int F" "\<And>i. i < 10 \<Longrightarrow> \<bar>F ! i\<bar> \<le> n * fe_unit i" "x = of_int (limbs_value wt10 F)"
    using assms(1) by (rule fe_isE) blast
  obtain G where G: "length G = 10" "g = map of_int G" "\<And>i. i < 10 \<Longrightarrow> \<bar>G ! i\<bar> \<le> m * fe_unit i" "y = of_int (limbs_value wt10 G)"
    using assms(2) by (rule fe_isE) blast
  have "\<bar>F ! i + G ! i\<bar> \<le> (n + m) * fe_unit i" if "i < 10" for i
    using F(3) [OF that] G(3) [OF that] by (simp add: algebra_simps)
  moreover have "x + y = of_int (\<Sum>i<10. (F ! i + G ! i) * wt10 i)"
    by (simp add: F(1,4) G(1,4) limbs_value_10 algebra_simps sum.distrib)
  ultimately show ?thesis
    unfolding fe_add_def using assms(3-5) F(1,2) G(1,2) by (intro fe_is_map [where X = "\<lambda>i. F ! i + G ! i"]) auto
qed

lemma fe_is_neg:
  assumes "fe_is n f x" "0 \<le> n" "n \<le> 60"
  shows "fe_is n (fe_neg f) (- x)"
proof -
  obtain F where F: "length F = 10" "f = map of_int F" "\<And>i. i < 10 \<Longrightarrow> \<bar>F ! i\<bar> \<le> n * fe_unit i" "x = of_int (limbs_value wt10 F)"
    using assms(1) by (rule fe_isE) blast
  have "- x = of_int (\<Sum>i<10. - (F ! i) * wt10 i)"
    by (simp add: F(1,4) limbs_value_10 sum_negf)
  then show ?thesis
    unfolding fe_neg_def using assms(2,3) F(1-3) by (intro fe_is_map [where X = "\<lambda>i. - (F ! i)"]) auto
qed

lemma fe_is_sub:
  assumes "fe_is n f x" "fe_is m g y" "0 \<le> n" "0 \<le> m" "n + m \<le> 60"
  shows "fe_is (n + m) (fe_sub f g) (x - y)"
proof -
  have "length g = 10" using assms(2) by (rule fe_is_length)
  then have "fe_sub f g = fe_add f (fe_neg g)"
    by (simp add: fe_sub_def fe_add_def fe_neg_def)
  then show ?thesis using fe_is_add [OF assms(1) fe_is_neg [OF assms(2)]] assms by simp
qed

lemma fe_is_copy: "fe_is n f x \<Longrightarrow> fe_copy f = f"
  using fe_is_length [of n f x] by (auto simp: fe_copy_def intro: nth_equalityI)

lemma fe_cmov_select:
  assumes "length f = 10" "length g = 10" "b \<le> 1"
  shows "fe_cmov f g b = (if b = 0 then f else g)"
proof -
  have "b = 0 \<or> b = 1" using assms(3) by (metis le_less less_one word_le_less_eq word_less_1)
  then show ?thesis
    using assms(1,2) by (auto simp: fe_cmov_def intro!: nth_equalityI bit_word_eqI simp: bit_simps)
qed

lemma fe_cswap_select:
  assumes "length f = 10" "length g = 10" "b \<le> 1"
  shows "fe_cswap f g b = (if b = 0 then (f, g) else (g, f))"
proof -
  have "b = 0 \<or> b = 1" using assms(3) by (metis le_less less_one word_le_less_eq word_less_1)
  then show ?thesis
    using assms(1,2) by (auto simp: fe_cswap_def intro!: nth_equalityI bit_word_eqI simp: bit_simps)
qed

section \<open>Products\<close>

lemma prime25519_off: "off i = off j + 255 \<Longrightarrow> (2 ^ off i :: int) mod prime25519 = 19 * 2 ^ off j mod prime25519"
proof -
  assume "off i = off j + 255"
  then have "(2 :: int) ^ off i = 19 * 2 ^ off j + prime25519 * 2 ^ off j"
    by (simp add: prime25519_def power_add)
  then show ?thesis by simp
qed

lemma fe_products_id:
  fixes F G :: "int list"
  assumes P: "P = product_limbs (\<lambda>i j. F ! i * G ! j)"
  shows "fe_products id F G = [P ! 0 + 19 * P ! 10, P ! 1 + 19 * P ! 11, P ! 2 + 19 * P ! 12, P ! 3 + 19 * P ! 13,
    P ! 4 + 19 * P ! 14, P ! 5 + 19 * P ! 15, P ! 6 + 19 * P ! 16, P ! 7 + 19 * P ! 17, P ! 8 + 19 * P ! 18, P ! 9]"
  unfolding P fe_products_def Let_def id_apply list.inject
  by (intro conjI refl; simp add: product_limbs_def; algebra?)

lemma fe_squares_products: "fe_squares id F = fe_products id F (F :: int list)"
  unfolding fe_squares_def fe_products_def Let_def id_apply list.inject by (intro conjI refl; algebra)

lemma fe_products_value:
  assumes "length F = 10" "length G = 10"
  shows "(of_int (limbs_value wt10 (fe_products id F G)) :: gf) = of_int (limbs_value wt10 F) * of_int (limbs_value wt10 G)"
proof -
  define P where "P = product_limbs (\<lambda>i j. F ! i * (G ! j :: int))"
  have "limbs_value wt10 F * limbs_value wt10 G = ival 19 (\<lambda>k. P ! k)"
    unfolding P_def ival_product using assms by (simp add: limbs_value_10 ival_def wt10_def)
  also have "\<dots> = limbs_value wt10 (fe_products id F G) + prime25519 * (\<Sum>i<9. P ! (i + 10) * 2 ^ off i)"
    unfolding fe_products_id [OF P_def]
    by (simp add: limbs_value_def ival_def sum_9 sum_10 sum_19 wt10_def off_def prime25519_def nth_Cons' algebra_simps)
  finally have "limbs_value wt10 (fe_products id F G) mod prime25519 = limbs_value wt10 F * limbs_value wt10 G mod prime25519"
    by simp
  then show ?thesis by (simp add: of_int_gf_eq_iff flip: of_int_mult)
qed

text \<open>The words are those of the integers when nothing overflows.\<close>

definition fe_fits32 :: "int list \<Rightarrow> bool" where
  "fe_fits32 F \<longleftrightarrow> (\<forall>i<10. \<bar>19 * F ! i\<bar> < 2 ^ 31 \<and> (odd i \<longrightarrow> \<bar>38 * F ! i\<bar> < 2 ^ 31))"

lemma to_limb_of_int: "\<bar>k\<bar> < 2 ^ 31 \<Longrightarrow> to_limb (of_int k) = of_int k"
  by (simp add: to_limb_eq sint_of_int32)

lemma to_limb_scaled: "\<bar>numeral c * k\<bar> < 2 ^ 31 \<Longrightarrow> to_limb (numeral c * of_int k) = numeral c * of_int k"
  using to_limb_of_int [of "numeral c * k"] by simp

lemma to_s32_of_int: "to_s32 (of_int k) = of_int k"
  unfolding to_s32_def by (rule bit_word_eqI) (simp add: bit_simps)

lemma fe_fits32_limbs:
  assumes "fe_fits32 F" "length F = 10" "i < 10"
  shows "to_limb (map of_int F ! i) = of_int (F ! i)" "to_limb (2 * map of_int F ! i) = 2 * of_int (F ! i)"
    "to_limb (19 * map of_int F ! i) = 19 * of_int (F ! i)"
    "odd i \<Longrightarrow> to_limb (38 * map of_int F ! i) = 38 * of_int (F ! i)"
proof -
  have b: "\<bar>19 * F ! i\<bar> < 2 ^ 31" "odd i \<Longrightarrow> \<bar>38 * F ! i\<bar> < 2 ^ 31" using assms(1,3) by (simp_all add: fe_fits32_def)
  have s: "\<bar>F ! i\<bar> < 2 ^ 31" "\<bar>2 * F ! i\<bar> < 2 ^ 31" using b(1) by simp_all
  show "to_limb (map of_int F ! i) = of_int (F ! i)" "to_limb (2 * map of_int F ! i) = 2 * of_int (F ! i)"
    "to_limb (19 * map of_int F ! i) = 19 * of_int (F ! i)"
    "odd i \<Longrightarrow> to_limb (38 * map of_int F ! i) = 38 * of_int (F ! i)"
    using assms(2,3) b s by (simp_all add: to_limb_of_int to_limb_scaled)
qed

lemma fe_products_of_int:
  assumes "fe_fits32 F" "fe_fits32 G" "length F = 10" "length G = 10"
  shows "fe_products to_limb (map of_int F) (map of_int G) = map of_int (fe_products id F G)"
  unfolding fe_products_def Let_def
  by (simp add: fe_fits32_limbs [OF assms(1,3)] fe_fits32_limbs [OF assms(2,4)] del: nth_map)

lemma fe_squares_of_int:
  assumes "fe_fits32 F" "length F = 10"
  shows "fe_squares to_limb (map of_int F) = map of_int (fe_squares id F)"
  unfolding fe_squares_def Let_def by (simp add: fe_fits32_limbs [OF assms] del: nth_map)

lemma fe_fits32I:
  assumes "\<And>i. i < 10 \<Longrightarrow> \<bar>F ! i\<bar> \<le> 3 * fe_unit i"
  shows "fe_fits32 F"
proof -
  have "\<bar>19 * F ! i\<bar> < 2 ^ 31 \<and> (odd i \<longrightarrow> \<bar>38 * F ! i\<bar> < 2 ^ 31)" if "i < 10" for i
    using assms [OF that] by (cases "even i") (simp_all add: abs_mult fe_unit_def odd_iff_mod_2_eq_one even_iff_mod_2_eq_zero)
  then show ?thesis by (simp add: fe_fits32_def)
qed

text \<open>Intervals for the products.\<close>

definition fe_tops :: "int list" where "fe_tops = map (\<lambda>i. 3 * fe_unit i) [0..<10]"

definition fe_product_bounds :: "int \<Rightarrow> interval list" where
  "fe_product_bounds c = map (\<lambda>x. (- (c * x), c * x)) (fe_products id fe_tops fe_tops)"

definition fe_bounds :: "int \<Rightarrow> interval list" where
  "fe_bounds n = map (\<lambda>i. (- (n * fe_unit i), n * fe_unit i)) [0..<10]"

definition narrower :: "interval \<Rightarrow> interval \<Rightarrow> bool" where
  "narrower a b \<longleftrightarrow> fst b \<le> fst a \<and> snd a \<le> snd b"

lemma abs_mult_le: "\<bar>a\<bar> \<le> A \<Longrightarrow> \<bar>b\<bar> \<le> B \<Longrightarrow> \<bar>a * b\<bar> \<le> A * (B :: int)"
  by (simp add: abs_mult mult_mono)

lemma abs_plus_le: "\<bar>a\<bar> \<le> A \<Longrightarrow> \<bar>b\<bar> \<le> B \<Longrightarrow> \<bar>a + b\<bar> \<le> A + (B :: int)"
  by linarith

lemma abs_id_le: "\<bar>a\<bar> \<le> A \<Longrightarrow> \<bar>id a\<bar> \<le> id (A :: int)"
  by simp

lemma fe_products_abs:
  fixes F G A B :: "int list"
  assumes "\<And>i. i < 10 \<Longrightarrow> \<bar>F ! i\<bar> \<le> A ! i" "\<And>i. i < 10 \<Longrightarrow> \<bar>G ! i\<bar> \<le> B ! i"
  shows "list_all2 (\<lambda>x a. \<bar>x\<bar> \<le> a) (fe_products id F G) (fe_products id A B)"
proof -
  have n: "\<bar>19\<bar> \<le> (19 :: int)" "\<bar>2\<bar> \<le> (2 :: int)" by simp_all
  show ?thesis
    unfolding fe_products_def Let_def list_all2_Cons
    by (intro conjI list.rel_intros abs_plus_le abs_mult_le abs_id_le n assms) simp_all
qed

lemma fe_products_within:
  assumes "\<And>i. i < 10 \<Longrightarrow> \<bar>F ! i\<bar> \<le> 3 * fe_unit i" "\<And>i. i < 10 \<Longrightarrow> \<bar>G ! i\<bar> \<le> 3 * fe_unit i" "0 \<le> c"
  shows "within (map ((*) c) (fe_products id F G)) (fe_product_bounds c)"
proof -
  have "list_all2 (\<lambda>x a. \<bar>x\<bar> \<le> a) (fe_products id F G) (fe_products id fe_tops fe_tops)"
    using assms(1,2) by (intro fe_products_abs) (simp_all add: fe_tops_def)
  moreover have "inside (c * x) (- (c * a), c * a)" if "\<bar>x\<bar> \<le> a" for x a
    using mult_left_mono [of x a c] mult_left_mono [of "- a" x c] that assms(3) by (auto simp: inside_def abs_le_iff)
  ultimately show ?thesis
    unfolding within_def fe_product_bounds_def list_all2_map1 list_all2_map2 by (auto elim: list_all2_mono)
qed

lemma fe_mul_ops_bounds:
  "case bounds_ops 64 fe_mul_ops (fe_product_bounds 1) of None \<Rightarrow> False | Some B \<Rightarrow> list_all2 narrower B (fe_bounds 1)"
  "case bounds_ops 64 fe_mul_ops (fe_product_bounds 2) of None \<Rightarrow> False | Some B \<Rightarrow> list_all2 narrower B (fe_bounds 1)"
  by code_simp+

lemma fe_carry_exact: "i < 10 \<Longrightarrow> op_exact prime25519 wt10 10 (fe_carry i)"
proof -
  have "list_all (\<lambda>i. op_exact prime25519 wt10 10 (fe_carry i)) [0..<10]" by code_simp
  then show "i < 10 \<Longrightarrow> ?thesis" by (simp add: list_all_iff)
qed

lemma fe_mul_ops_exact: "list_all (op_exact prime25519 wt10 10) fe_mul_ops"
  and fe_load_ops_exact: "list_all (op_exact prime25519 wt10 10) fe_load_ops"
  by (simp_all add: fe_mul_ops_def fe_load_ops_def fe_carry_exact)

lemma fe_reduced:
  assumes "case bounds_ops 64 ops B of None \<Rightarrow> False | Some B' \<Rightarrow> list_all2 narrower B' (fe_bounds n)"
    "list_all (op_exact prime25519 wt10 10) ops" "within xs B" "length xs = 10" "0 \<le> n" "n \<le> 60"
  shows "fe_is n (map to_s32 (run_ops ops (map of_int xs))) (of_int (limbs_value wt10 xs))"
proof -
  obtain B' where B': "bounds_ops 64 ops B = Some B'" "list_all2 narrower B' (fe_bounds n)"
    using assms(1) by (auto split: option.splits)
  let ?ys = "int_ops ops xs"
  have run: "run_ops ops (map of_int xs) = (map of_int ?ys :: limb list)" and ys: "within ?ys B'"
    using ops_sound [where 'a = 64, of ops B B' xs] B'(1) assms(3) by simp_all
  have len: "length ?ys = 10" and mod: "limbs_value wt10 ?ys mod prime25519 = limbs_value wt10 xs mod prime25519"
    using ops_exact_value [of prime25519 wt10 xs ops] assms(2,4) by simp_all
  have "\<bar>?ys ! i\<bar> \<le> n * fe_unit i" if "i < 10" for i
  proof -
    have "i < length B'" using within_length [OF ys] len that by simp
    then have "inside (?ys ! i) (B' ! i)" "narrower (B' ! i) (fe_bounds n ! i)"
      using within_nth [OF ys] B'(2) by (simp_all add: list_all2_conv_all_nth)
    then show ?thesis using that by (auto simp: inside_def narrower_def fe_bounds_def abs_le_iff)
  qed
  then have "fe_is n (map of_int ?ys) (of_int (limbs_value wt10 xs))"
    using len mod assms(5,6) by (intro fe_isI) (simp_all add: of_int_gf_eq_iff)
  moreover have "map to_s32 (map of_int ?ys) = map of_int ?ys" by (simp add: to_s32_of_int)
  ultimately show ?thesis unfolding run by (simp only:)
qed

lemma length_fe_products [simp]: "length (fe_products w f g) = 10"
  by (simp add: fe_products_def Let_def)

lemma fe_is_mul:
  assumes "fe_is n f x" "fe_is m g y" "n \<le> 3" "m \<le> 3"
  shows "fe_is 1 (fe_mul f g) (x * y)"
proof -
  obtain F where F: "length F = 10" "f = map of_int F" "\<And>i. i < 10 \<Longrightarrow> \<bar>F ! i\<bar> \<le> 3 * fe_unit i" "x = of_int (limbs_value wt10 F)"
    using fe_is_weaken [OF assms(1,3)] by (rule fe_isE) blast
  obtain G where G: "length G = 10" "g = map of_int G" "\<And>i. i < 10 \<Longrightarrow> \<bar>G ! i\<bar> \<le> 3 * fe_unit i" "y = of_int (limbs_value wt10 G)"
    using fe_is_weaken [OF assms(2,4)] by (rule fe_isE) blast
  have "within (fe_products id F G) (fe_product_bounds 1)"
    using fe_products_within [OF F(3) G(3), of 1] by (simp cong: map_cong)
  from fe_reduced [OF fe_mul_ops_bounds(1) fe_mul_ops_exact this]
  show ?thesis
    unfolding fe_mul_def F(2) G(2) using F(1,3,4) G(1,3,4)
    by (simp add: fe_products_of_int fe_fits32I fe_products_value)
qed

lemma fe_is_sq:
  assumes "fe_is n f x" "n \<le> 3"
  shows "fe_is 1 (fe_sq f) (x * x)"
proof -
  obtain F where F: "length F = 10" "f = map of_int F" "\<And>i. i < 10 \<Longrightarrow> \<bar>F ! i\<bar> \<le> 3 * fe_unit i" "x = of_int (limbs_value wt10 F)"
    using fe_is_weaken [OF assms] by (rule fe_isE) blast
  have "within (fe_products id F F) (fe_product_bounds 1)"
    using fe_products_within [OF F(3) F(3), of 1] by (simp cong: map_cong)
  from fe_reduced [OF fe_mul_ops_bounds(1) fe_mul_ops_exact this]
  show ?thesis
    unfolding fe_sq_def F(2) using F(1,3,4)
    by (simp add: fe_squares_of_int fe_fits32I fe_squares_products fe_products_value)
qed

lemma fe_is_sq2:
  assumes "fe_is n f x" "n \<le> 3"
  shows "fe_is 1 (fe_sq2 f) (2 * (x * x))"
proof -
  obtain F where F: "length F = 10" "f = map of_int F" "\<And>i. i < 10 \<Longrightarrow> \<bar>F ! i\<bar> \<le> 3 * fe_unit i" "x = of_int (limbs_value wt10 F)"
    using fe_is_weaken [OF assms] by (rule fe_isE) blast
  let ?P = "map ((*) 2) (fe_products id F F)"
  have P: "map (\<lambda>h. h + h) (map of_int (fe_squares id F)) = (map of_int ?P :: limb list)"
    by (simp add: fe_squares_products)
  have "limbs_value wt10 ?P = 2 * limbs_value wt10 (fe_products id F F)"
    by (simp add: limbs_value_def sum_distrib_left mult.assoc)
  then have v: "of_int (limbs_value wt10 ?P) = 2 * (x * x)"
    using fe_products_value [OF F(1) F(1)] by (simp add: F(4))
  from fe_reduced [OF fe_mul_ops_bounds(2) fe_mul_ops_exact fe_products_within [OF F(3) F(3)]]
  show ?thesis
    unfolding fe_sq2_def F(2) using F(1,3) P v
    by (simp add: fe_squares_of_int fe_fits32I)
qed

section \<open>Powers\<close>

lemma fe_is_sq_times:
  assumes "fe_is n f x" "n \<le> 3"
  shows "fe_is 1 (fe_sq_times (Suc k) f) (x ^ (2 ^ Suc k))"
proof (induction k)
  case 0
  then show ?case using fe_is_sq [OF assms] by (simp add: fe_sq_times_def power2_eq_square)
next
  case (Suc k)
  have "fe_sq_times (Suc (Suc k)) f = fe_sq (fe_sq_times (Suc k) f)" by (simp add: fe_sq_times_def)
  moreover have "x ^ (2 ^ Suc (Suc k)) = x ^ (2 ^ Suc k) * x ^ (2 ^ Suc k)"
    by (simp add: power_add [symmetric] mult_2 [symmetric])
  ultimately show ?case using fe_is_sq [OF Suc] by simp
qed

text \<open>Following a power of one number through products and squares.\<close>

lemma power_mul:
  "fe_is n f (x ^ a) \<Longrightarrow> fe_is m g (x ^ b) \<Longrightarrow> n \<le> 3 \<Longrightarrow> m \<le> 3 \<Longrightarrow> a + b = c \<Longrightarrow> fe_is 1 (fe_mul f g) (x ^ c)"
  using fe_is_mul [of n f "x ^ a" m g "x ^ b"] by (simp add: power_add [symmetric])

lemma power_sq_times:
  assumes "fe_is n f (x ^ a)" "n \<le> 3" "0 < k" "a * 2 ^ k = c"
  shows "fe_is 1 (fe_sq_times k f) (x ^ c)"
proof -
  obtain j where j: "k = Suc j" using assms(3) by (cases k) auto
  show ?thesis
    using fe_is_sq_times [OF assms(1,2), of j] unfolding j [symmetric] power_mult [symmetric] assms(4) .
qed

text \<open>The common part of the two functions raises to \<open>2 ^ 250 - 1\<close>.\<close>

definition fe_ones :: "gf \<Rightarrow> nat \<Rightarrow> fe \<Rightarrow> bool" where
  "fe_ones x k f \<longleftrightarrow> fe_is 1 f (x ^ (2 ^ k - 1))"

definition fe_tower :: "fe \<Rightarrow> fe" where
  "fe_tower u5 =
     (let u10 = fe_mul (fe_sq_times 5 u5) u5;
          u20 = fe_mul (fe_sq_times 10 u10) u10;
          u40 = fe_mul (fe_sq_times 20 u20) u20;
          u50 = fe_mul (fe_sq_times 10 u40) u10;
          u100 = fe_mul (fe_sq_times 50 u50) u50;
          u200 = fe_mul (fe_sq_times 100 u100) u100
      in fe_mul (fe_sq_times 50 u200) u50)"

lemma fe_ones_add:
  assumes "fe_ones x b u" "fe_ones x a t" "0 < a" "a + b = c"
  shows "fe_ones x c (fe_mul (fe_sq_times a u) t)"
proof -
  obtain m where m: "2 ^ b = Suc m" by (metis not0_implies_Suc power_not_zero zero_neq_numeral)
  have e: "(2 ^ b - 1) * 2 ^ a + (2 ^ a - 1) = (2 ^ c - 1 :: nat)"
    unfolding assms(4) [symmetric] by (simp add: power_add m mult.commute add.commute)
  have sq: "fe_is 1 (fe_sq_times a u) (x ^ ((2 ^ b - 1) * 2 ^ a))"
    by (rule power_sq_times [OF assms(1) [unfolded fe_ones_def] _ assms(3) refl]) simp
  show ?thesis
    unfolding fe_ones_def by (rule power_mul [OF sq assms(2) [unfolded fe_ones_def] _ _ e]) simp_all
qed

lemma fe_ones_tower:
  assumes u: "fe_ones x 5 u"
  shows "fe_ones x 250 (fe_tower u)"
proof -
  note u10 = fe_ones_add [OF u u, of 10, simplified]
  note u20 = fe_ones_add [OF u10 u10, of 20, simplified]
  note u40 = fe_ones_add [OF u20 u20, of 40, simplified]
  note u50 = fe_ones_add [OF u40 u10, of 50, simplified]
  note u100 = fe_ones_add [OF u50 u50, of 100, simplified]
  note u200 = fe_ones_add [OF u100 u100, of 200, simplified]
  show ?thesis
    unfolding fe_tower_def Let_def using fe_ones_add [OF u200 u50, of 250] by simp
qed

lemma fe_start:
  assumes "fe_is n z x" "n \<le> 3"
  defines "t9 \<equiv> fe_mul z (fe_sq_times 2 (fe_sq_times 1 z))" and "t11 \<equiv> fe_mul (fe_sq_times 1 z) (fe_mul z (fe_sq_times 2 (fe_sq_times 1 z)))"
  shows "fe_is 1 t11 (x ^ 11)" "fe_ones x 5 (fe_mul t9 (fe_sq_times 1 t11))"
proof -
  have z: "fe_is n z (x ^ 1)" using assms(1) by simp
  have t2: "fe_is 1 (fe_sq_times 1 z) (x ^ 2)" by (rule power_sq_times [OF z assms(2)]) simp_all
  have t8: "fe_is 1 (fe_sq_times 2 (fe_sq_times 1 z)) (x ^ 8)" by (rule power_sq_times [OF t2]) simp_all
  have t9: "fe_is 1 t9 (x ^ 9)" unfolding t9_def by (rule power_mul [OF z t8 assms(2)]) simp_all
  show t11: "fe_is 1 t11 (x ^ 11)"
    unfolding t11_def t9_def [symmetric] by (rule power_mul [OF t2 t9]) simp_all
  have t22: "fe_is 1 (fe_sq_times 1 t11) (x ^ 22)" by (rule power_sq_times [OF t11]) simp_all
  show "fe_ones x 5 (fe_mul t9 (fe_sq_times 1 t11))"
    unfolding fe_ones_def by (rule power_mul [OF t9 t22]) simp_all
qed

lemma fe_is_invert:
  assumes "fe_is n z x" "n \<le> 3"
  shows "fe_is 1 (fe_invert z) (inverse x)"
proof -
  note start = fe_start [OF assms]
  have "fe_invert z = fe_mul (fe_sq_times 5 (fe_tower (fe_mul (fe_mul z (fe_sq_times 2 (fe_sq_times 1 z)))
      (fe_sq_times 1 (fe_mul (fe_sq_times 1 z) (fe_mul z (fe_sq_times 2 (fe_sq_times 1 z))))))))
      (fe_mul (fe_sq_times 1 z) (fe_mul z (fe_sq_times 2 (fe_sq_times 1 z))))"
    unfolding fe_invert_def fe_tower_def Let_def ..
  moreover have "fe_is 1 (fe_sq_times 5 (fe_tower (fe_mul (fe_mul z (fe_sq_times 2 (fe_sq_times 1 z)))
      (fe_sq_times 1 (fe_mul (fe_sq_times 1 z) (fe_mul z (fe_sq_times 2 (fe_sq_times 1 z)))))))) (x ^ ((2 ^ 250 - 1) * 2 ^ 5))"
    using fe_ones_tower [OF start(2)] unfolding fe_ones_def by (intro power_sq_times [where n = 1]) auto
  moreover have "(2 ^ 250 - 1) * 2 ^ 5 + 11 = p25519 - 2" by (simp add: p25519_def prime25519_def)
  ultimately show ?thesis
    unfolding inverse_gf_def by (simp only:) (rule power_mul [OF _ start(1)], assumption, simp_all)
qed

lemma fe_is_pow22523:
  assumes "fe_is n z x" "n \<le> 3"
  shows "fe_is 1 (fe_pow22523 z) (x ^ (2 ^ 252 - 3))"
proof -
  note start = fe_start [OF assms]
  have z: "fe_is n z (x ^ 1)" using assms(1) by simp
  have "fe_pow22523 z = fe_mul (fe_sq_times 2 (fe_tower (fe_mul (fe_mul z (fe_sq_times 2 (fe_sq_times 1 z)))
      (fe_sq_times 1 (fe_mul (fe_sq_times 1 z) (fe_mul z (fe_sq_times 2 (fe_sq_times 1 z)))))))) z"
    unfolding fe_pow22523_def fe_tower_def Let_def ..
  moreover have "fe_is 1 (fe_sq_times 2 (fe_tower (fe_mul (fe_mul z (fe_sq_times 2 (fe_sq_times 1 z)))
      (fe_sq_times 1 (fe_mul (fe_sq_times 1 z) (fe_mul z (fe_sq_times 2 (fe_sq_times 1 z)))))))) (x ^ ((2 ^ 250 - 1) * 2 ^ 2))"
    using fe_ones_tower [OF start(2)] unfolding fe_ones_def by (intro power_sq_times [where n = 1]) auto
  moreover have "(2 ^ 250 - 1) * 2 ^ 2 + 1 = (2 ^ 252 - 3 :: nat)" by simp
  ultimately show ?thesis
    by (simp only:) (rule power_mul [OF _ z _ assms(2)], assumption, simp_all)
qed

end
