(* ===== verification/EdFieldBytes.thy ===== *)
theory EdFieldBytes
  imports EdField
begin

text \<open>
  Bytes and field elements in \<open>lib/ed25519/src/fe.c\<close>: what is read, what is written, and the tests
  on the bytes that are written.
\<close>

section \<open>From bytes\<close>

lemma bits_split: "bits_of (a + b) p bs = bits_of a p bs + 2 ^ a * bits_of b (p + a) bs"
  by (simp add: bits_of_def take_bit_eq_mod drop_bit_eq_div power_add zmod_zmult2_eq zdiv_zmult2_eq)

definition fe_chunks :: "bytes \<Rightarrow> int list" where
  "fe_chunks s =
    [bits_of 32 0 s, bits_of 24 32 s * 2 ^ 6, bits_of 24 56 s * 2 ^ 5, bits_of 24 80 s * 2 ^ 3, bits_of 24 104 s * 2 ^ 2,
     bits_of 32 128 s, bits_of 24 160 s * 2 ^ 7, bits_of 24 184 s * 2 ^ 5, bits_of 24 208 s * 2 ^ 4, bits_of 23 232 s * 2 ^ 2]"

lemma mask_23: "(of_int (bits_of 24 p s) :: u64) AND 8388607 = of_int (bits_of 23 p s)"
proof -
  have m: "(8388607 :: u64) = Bit_Operations.mask 23" by (simp add: mask_eq_exp_minus_1)
  show ?thesis unfolding m by (intro bit_word_eqI) (auto simp: bits_of_def bit_simps)
qed

lemma fe_load_chunks: "length s = 32 \<Longrightarrow> fe_load s = map of_int (fe_chunks s)"
  unfolding fe_load_def fe_chunks_def
  by (simp add: load_4_bits load_3_bits mask_23 push_bit_eq_mult)

lemma fe_chunks_value:
  assumes "length s = 32"
  shows "limbs_value wt10 (fe_chunks s) = le_int s mod 2 ^ 255"
proof -
  have "le_int s mod 2 ^ 255 = bits_of 255 0 s" by (simp add: bits_of_def take_bit_eq_mod)
  also have "\<dots> = limbs_value wt10 (fe_chunks s)"
    using bits_split [of 32 223 0 s] bits_split [of 24 199 32 s] bits_split [of 24 175 56 s] bits_split [of 24 151 80 s]
      bits_split [of 24 127 104 s] bits_split [of 32 95 128 s] bits_split [of 24 71 160 s] bits_split [of 24 47 184 s]
      bits_split [of 24 23 208 s]
    by (simp add: limbs_value_def fe_chunks_def sum_10 wt10_def off_def nth_Cons')
  finally show ?thesis by simp
qed

definition fe_chunk_bounds :: "interval list" where
  "fe_chunk_bounds = map (\<lambda>(w, k). (0, (2 ^ w - 1) * 2 ^ k))
     [(32, 0), (24, 6), (24, 5), (24, 3), (24, 2), (32, 0), (24, 7), (24, 5), (24, 4), (23, 2)]"

lemma fe_chunks_within: "within (fe_chunks s) fe_chunk_bounds"
  using bits_of_le [of 32] bits_of_le [of 24] bits_of_le [of 23]
  by (simp add: within_def inside_def fe_chunks_def fe_chunk_bounds_def bits_of_bounds(1))

lemma fe_load_ops_bounds:
  "case bounds_ops 64 fe_load_ops fe_chunk_bounds of None \<Rightarrow> False | Some B \<Rightarrow> list_all2 narrower B (fe_bounds 1)"
  by code_simp

lemma fe_is_frombytes:
  assumes "length s = 32"
  shows "fe_is 1 (fe_frombytes s) (of_int (le_int s mod 2 ^ 255))"
  using fe_reduced [OF fe_load_ops_bounds fe_load_ops_exact fe_chunks_within [of s]]
  by (simp add: fe_frombytes_def fe_load_chunks [OF assms] fe_chunks_value [OF assms]) (simp add: fe_chunks_def)

section \<open>Multiplication by a constant\<close>

definition fe_scaled_bounds :: "interval list" where
  "fe_scaled_bounds = map (\<lambda>i. (- (2 * fe_unit i * 121666), 2 * fe_unit i * 121666)) [0..<10]"

lemma fe_scaled_ops_bounds:
  "case bounds_ops 64 fe_load_ops fe_scaled_bounds of None \<Rightarrow> False | Some B \<Rightarrow> list_all2 narrower B (fe_bounds 1)"
  by code_simp

lemma fe_is_mul121666:
  assumes "fe_is n f x" "n \<le> 2"
  shows "fe_is 1 (fe_mul121666 f) (x * 121666)"
proof -
  obtain F where F: "length F = 10" "f = map of_int F" "\<And>i. i < 10 \<Longrightarrow> \<bar>F ! i\<bar> \<le> 2 * fe_unit i" "x = of_int (limbs_value wt10 F)"
    using fe_is_weaken [OF assms] by (rule fe_isE) blast
  let ?P = "map (\<lambda>i. F ! i * 121666) [0..<10]"
  have small: "\<bar>F ! i\<bar> < 2 ^ 31" if "i < 10" for i
    using F(3) [OF that] fe_unit_bounds(2) [of i] by simp
  have "\<bar>F ! i * 121666\<bar> \<le> 2 * fe_unit i * 121666" if "i < 10" for i
    using F(3) [OF that] by (simp add: abs_mult)
  then have "within ?P fe_scaled_bounds"
    by (simp add: within_def fe_scaled_bounds_def list_all2_map1 list_all2_map2 list.rel_refl_strong inside_def abs_le_iff minus_le_iff list_all2_same)
  from fe_reduced [OF fe_scaled_ops_bounds fe_load_ops_exact this]
  have "fe_is 1 (map to_s32 (run_ops fe_load_ops (map of_int ?P))) (of_int (limbs_value wt10 ?P))" by simp
  moreover have "map of_int ?P = map (\<lambda>i. to_limb (f ! i) * 121666) [0..<10]"
    using small F(1) by (simp add: F(2) to_limb_of_int)
  moreover have "limbs_value wt10 ?P = limbs_value wt10 F * 121666"
    using F(1) by (simp add: limbs_value_map10 limbs_value_10 sum_distrib_right mult_ac)
  ultimately show ?thesis unfolding fe_mul121666_def F(4) by (simp only: of_int_mult of_int_numeral)
qed

section \<open>To bytes\<close>

lemma fe_quotient_steps:
  assumes "\<And>i. i < 10 \<Longrightarrow> \<bar>F ! i\<bar> \<le> 2 ^ 30" "length F = 10" "\<bar>q\<bar> \<le> 2 ^ 29" "n \<le> 10"
  defines "Q \<equiv> ((\<Sum>i<n. F ! i * wt10 i) + q) div 2 ^ off n"
  shows "fold (\<lambda>i q. signed_drop_bit (limb_width i) (map of_int F ! i + q)) [0..<n] (of_int q :: s32) = of_int Q \<and> \<bar>Q\<bar> \<le> 2 ^ 29"
  using assms(4) unfolding Q_def
proof (induction n)
  case 0
  then show ?case using assms(3) by (simp add: off_def)
next
  case (Suc n)
  let ?Q = "((\<Sum>i<n. F ! i * wt10 i) + q) div 2 ^ off n" and ?w = "limb_width n"
  have IH: "fold (\<lambda>i q. signed_drop_bit (limb_width i) (map of_int F ! i + q)) [0..<n] (of_int q :: s32) = of_int ?Q" "\<bar>?Q\<bar> \<le> 2 ^ 29"
    using Suc by simp_all
  have b: "\<bar>F ! n + ?Q\<bar> < 2 ^ 31" using assms(1) [of n] IH(2) Suc.prems by simp
  have off: "2 ^ off (Suc n) = 2 ^ off n * (2 ^ ?w :: int)" by (simp add: off_Suc power_add)
  have "((\<Sum>i<Suc n. F ! i * wt10 i) + q) div 2 ^ off (Suc n) = ((F ! n * 2 ^ off n + ((\<Sum>i<n. F ! i * wt10 i) + q)) div 2 ^ off n) div 2 ^ ?w"
    by (simp only: off wt10_def sum.lessThan_Suc zdiv_zmult2_eq zero_le_power zero_le_numeral add.assoc add.commute add.left_commute)
  also have "\<dots> = (F ! n + ?Q) div 2 ^ ?w" by simp
  finally have Q: "((\<Sum>i<Suc n. F ! i * wt10 i) + q) div 2 ^ off (Suc n) = (F ! n + ?Q) div 2 ^ ?w" .
  have "signed_drop_bit ?w (of_int (F ! n + ?Q) :: s32) = of_int ((F ! n + ?Q) div 2 ^ ?w)"
    using b by (intro signed_shift_of_int) auto
  moreover have "\<bar>(F ! n + ?Q) div 2 ^ ?w\<bar> \<le> 2 ^ 29"
    using b limb_width_cases [of n] by (auto simp: abs_le_iff)
  moreover have "fold (\<lambda>i q. signed_drop_bit (limb_width i) (map of_int F ! i + q)) [0..<Suc n] (of_int q :: s32) =
      signed_drop_bit ?w (of_int (F ! n + ?Q))"
    using Suc.prems assms(2) by (simp add: IH(1))
  ultimately show ?case unfolding Q by (simp only:)
qed

text \<open>The estimate of the quotient is the quotient.\<close>

lemma fe_quotient_exact:
  fixes H h9 :: int
  assumes "\<bar>H - h9 * 2 ^ 230\<bar> < 2 ^ 231" "\<bar>H\<bar> < 2 ^ 256"
  shows "(H + (19 * h9 + 2 ^ 24) div 2 ^ 25) div 2 ^ 255 = H div prime25519"
proof -
  define q where "q = (19 * h9 + 2 ^ 24) div 2 ^ 25"
  define r where "r = H mod prime25519"
  define Q where "Q = H div prime25519"
  have q: "2 ^ 25 * q \<le> 19 * h9 + 2 ^ 24" "19 * h9 + 2 ^ 24 < 2 ^ 25 * q + 2 ^ 25"
    using mult_div_mod_eq [of "2 ^ 25" "19 * h9 + 2 ^ 24"] pos_mod_bound [of "2 ^ 25" "19 * h9 + 2 ^ 24"]
      pos_mod_sign [of "2 ^ 25" "19 * h9 + 2 ^ 24"] unfolding q_def by (simp_all del: pos_mod_sign pos_mod_bound)
  have H: "H = prime25519 * Q + r" "0 \<le> r" "r < prime25519" by (simp_all add: Q_def r_def)
  have "0 \<le> r - 19 * Q + q" "r - 19 * Q + q < 2 ^ 255"
    using q H assms unfolding prime25519_def by (simp_all add: abs_less_iff)
  then have "((r - 19 * Q + q) + 2 ^ 255 * Q) div 2 ^ 255 = Q" by simp
  moreover have "H + q = (r - 19 * Q + q) + 2 ^ 255 * Q" using H(1) by (simp add: prime25519_def)
  ultimately show ?thesis unfolding Q_def [symmetric] q_def [symmetric] by (simp only:)
qed

definition fe_floor_bounds :: "interval list" where
  "fe_floor_bounds = map (\<lambda>i. (- (60 * fe_unit i), 60 * fe_unit i)) [0..<10] @ [(0, 0)]"

lemma fe_floor_exact: "list_all (op_exact 0 wt10 11) fe_floor_ops"
  by code_simp

lemma fe_floor_ops_bounds:
  "case bounds_ops 32 fe_floor_ops fe_floor_bounds of None \<Rightarrow> False
   | Some B \<Rightarrow> list_all2 narrower (take 10 B) (map (\<lambda>i. (0, 2 ^ limb_width i - 1)) [0..<10])"
  by code_simp

text \<open>Numbers written with digits of different widths.\<close>

fun digits_value :: "(nat \<times> int) list \<Rightarrow> int" where
  "digits_value [] = 0"
| "digits_value ((w, x) # ds) = x + digits_value ds * 2 ^ w"

lemma bit_digits:
  "0 \<le> x \<Longrightarrow> x < 2 ^ w \<Longrightarrow> bit (digits_value ((w, x) # ds)) n \<longleftrightarrow> (if n < w then bit x n else bit (digits_value ds) (n - w))"
  using bit_concat [of x w "digits_value ds" n] by simp

lemma length_fe_bytes [simp]: "length (fe_bytes h) = 32"
  by (simp add: fe_bytes_def)

lemma fe_bytes_digits:
  assumes r: "0 \<le> y0 \<and> y0 < 2 ^ 26" "0 \<le> y1 \<and> y1 < 2 ^ 25" "0 \<le> y2 \<and> y2 < 2 ^ 26" "0 \<le> y3 \<and> y3 < 2 ^ 25" "0 \<le> y4 \<and> y4 < 2 ^ 26" "0 \<le> y5 \<and> y5 < 2 ^ 25" "0 \<le> y6 \<and> y6 < 2 ^ 26" "0 \<le> y7 \<and> y7 < 2 ^ 25" "0 \<le> y8 \<and> y8 < 2 ^ 26" "0 \<le> y9 \<and> y9 < 2 ^ 25"
  shows "le_int (fe_bytes (map of_int [y0, y1, y2, y3, y4, y5, y6, y7, y8, y9, y10])) =
    digits_value [(26, y0), (25, y1), (26, y2), (25, y3), (26, y4), (25, y5), (26, y6), (25, y7), (26, y8), (25, y9)]"
proof (rule bit_eqI)
  fix n :: nat
  let ?bs = "fe_bytes (map of_int [y0, y1, y2, y3, y4, y5, y6, y7, y8, y9, y10])"
  let ?V = "digits_value [(26, y0), (25, y1), (26, y2), (25, y3), (26, y4), (25, y5), (26, y6), (25, y7), (26, y8), (25, y9)]"
  have no: "\<not> bit y k" if "0 \<le> y \<and> y < 2 ^ w" "w \<le> k" for y :: int and k w
    using that bit_take_bit_iff [of w y k] by (simp add: take_bit_int_eq_self)
  note no = no [OF r(1)] no [OF r(2)] no [OF r(3)] no [OF r(4)] no [OF r(5)] no [OF r(6)] no [OF r(7)] no [OF r(8)] no [OF r(9)] no [OF r(10)]
  note dig = bit_digits [OF conjunct1 [OF r(1)] conjunct2 [OF r(1)]] bit_digits [OF conjunct1 [OF r(2)] conjunct2 [OF r(2)]] bit_digits [OF conjunct1 [OF r(3)] conjunct2 [OF r(3)]] bit_digits [OF conjunct1 [OF r(4)] conjunct2 [OF r(4)]] bit_digits [OF conjunct1 [OF r(5)] conjunct2 [OF r(5)]] bit_digits [OF conjunct1 [OF r(6)] conjunct2 [OF r(6)]] bit_digits [OF conjunct1 [OF r(7)] conjunct2 [OF r(7)]] bit_digits [OF conjunct1 [OF r(8)] conjunct2 [OF r(8)]] bit_digits [OF conjunct1 [OF r(9)] conjunct2 [OF r(9)]] bit_digits [OF conjunct1 [OF r(10)] conjunct2 [OF r(10)]]
  show "bit (le_int ?bs) n \<longleftrightarrow> bit ?V n"
  proof (cases "n < 256")
    case False
    then have "\<not> n div 8 < 32" by simp
    moreover have "\<not> n < 26" "\<not> n - 26 < 25" "\<not> n - 51 < 26" "\<not> n - 77 < 25" "\<not> n - 102 < 26" "\<not> n - 128 < 25"
      "\<not> n - 153 < 26" "\<not> n - 179 < 25" "\<not> n - 204 < 26" "\<not> n - 230 < 25"
      using False by simp_all
    ultimately show ?thesis using False unfolding dig by (simp add: bit_le_int)
  next
    case True
    have "bit (?bs ! (n div 8)) (n mod 8) = bit ?V n"
    proof (rule all_bits [OF _ _ True])
      show "list_all (\<lambda>(k, b). list_all (\<lambda>m. bit b m = bit ?V (8 * k + m)) [0, 1, 2, 3, 4, 5, 6, 7])
        (zip [0, 1, 2, 3, 4, 5, 6, 7, 8, 9, 10, 11, 12, 13, 14, 15, 16, 17, 18, 19, 20, 21, 22, 23, 24, 25, 26, 27, 28, 29, 30, 31] ?bs)"
        unfolding fe_bytes_def zip_Cons_Cons zip.simps list.pred_inject prod.case
        by (simp add: dig bit_simps no del: push_bit_Suc digits_value.simps) (simp add: numeral_2_eq_2 numeral_3_eq_3)
    qed simp
    moreover have "n div 8 < 32" using True by simp
    ultimately show ?thesis by (simp add: bit_le_int)
  qed
qed

lemma fe_bytes_value:
  assumes "\<And>i. i < 10 \<Longrightarrow> 0 \<le> Y ! i \<and> Y ! i < 2 ^ limb_width i" "length Y = 11"
  shows "le_int (fe_bytes (map of_int Y)) = (\<Sum>i<10. Y ! i * wt10 i)"
proof -
  have Y: "Y = [Y ! 0, Y ! 1, Y ! 2, Y ! 3, Y ! 4, Y ! 5, Y ! 6, Y ! 7, Y ! 8, Y ! 9, Y ! 10]"
    using assms(2) by (intro nth_equalityI) (auto simp: less_Suc_eq nth_Cons' numeral_eq_Suc)
  have r: "0 \<le> Y ! i \<and> Y ! i < 2 ^ 26" if "i < 10" "even i" for i
    using assms(1) [OF that(1)] that(2) by (simp add: limb_width_def and_one_eq even_iff_mod_2_eq_zero)
  have s: "0 \<le> Y ! i \<and> Y ! i < 2 ^ 25" if "i < 10" "odd i" for i
    using assms(1) [OF that(1)] that(2) by (simp add: limb_width_def and_one_eq odd_iff_mod_2_eq_one)
  have "le_int (fe_bytes (map of_int [Y ! 0, Y ! 1, Y ! 2, Y ! 3, Y ! 4, Y ! 5, Y ! 6, Y ! 7, Y ! 8, Y ! 9, Y ! 10])) =
    digits_value [(26, Y ! 0), (25, Y ! 1), (26, Y ! 2), (25, Y ! 3), (26, Y ! 4), (25, Y ! 5), (26, Y ! 6), (25, Y ! 7), (26, Y ! 8), (25, Y ! 9)]"
    by (rule fe_bytes_digits) (rule r s; simp)+
  also have "\<dots> = (\<Sum>i<10. Y ! i * wt10 i)"
    by (simp add: sum_10 wt10_def off_def algebra_simps)
  finally show ?thesis using Y by (simp only:)
qed

lemma fe_tobytes_value:
  assumes "fe_is 3 f x"
  shows "length (fe_tobytes f) = 32" "le_int (fe_tobytes f) = Rep_gf x"
proof -
  obtain F where F: "length F = 10" "f = map of_int F" "\<And>i. i < 10 \<Longrightarrow> \<bar>F ! i\<bar> \<le> 3 * fe_unit i" "x = of_int (limbs_value wt10 F)"
    using assms by (rule fe_isE) blast
  define H where "H = limbs_value wt10 F"
  define Q where "Q = H div prime25519"
  have lim: "\<bar>F ! i\<bar> \<le> 3 * 33889976" if "i < 10" for i
    using F(3) [OF that] fe_unit_bounds(2) [of i] by simp
  have H: "H = (\<Sum>i<10. F ! i * wt10 i)" using F(1) by (simp add: H_def limbs_value_10)
  have each: "\<bar>F ! 0\<bar> \<le> 101669928" "\<bar>F ! 1\<bar> \<le> 50834964" "\<bar>F ! 2\<bar> \<le> 101669928" "\<bar>F ! 3\<bar> \<le> 50834964"
    "\<bar>F ! 4\<bar> \<le> 101669928" "\<bar>F ! 5\<bar> \<le> 50834964" "\<bar>F ! 6\<bar> \<le> 101669928" "\<bar>F ! 7\<bar> \<le> 50834964"
    "\<bar>F ! 8\<bar> \<le> 101669928" "\<bar>F ! 9\<bar> \<le> 50834964"
    using F(3) [of 0] F(3) [of 1] F(3) [of 2] F(3) [of 3] F(3) [of 4] F(3) [of 5] F(3) [of 6] F(3) [of 7] F(3) [of 8] F(3) [of 9]
    by (simp_all add: fe_unit_def)
  have estimate: "\<bar>H - F ! 9 * 2 ^ 230\<bar> < 2 ^ 231" "\<bar>H\<bar> < 2 ^ 256"
    unfolding H sum_10 using each by (simp_all add: wt10_def off_def abs_less_iff abs_le_iff)
  let ?q = "(19 * F ! 9 + 2 ^ 24) div 2 ^ 25"
  have q: "signed_drop_bit 25 (19 * f ! 9 + push_bit 24 1) = (of_int ?q :: s32)" "\<bar>?q\<bar> \<le> 2 ^ 29"
  proof -
    have w: "19 * f ! 9 + push_bit 24 1 = (of_int (19 * F ! 9 + 2 ^ 24) :: s32)" using F(1) by (simp add: F(2) push_bit_eq_mult)
    have b: "\<bar>19 * F ! 9 + 2 ^ 24\<bar> < 2 ^ 31" using each(10) by (simp add: abs_less_iff abs_le_iff)
    show "signed_drop_bit 25 (19 * f ! 9 + push_bit 24 1) = (of_int ?q :: s32)"
      unfolding w using b by (intro signed_shift_of_int) auto
    show "\<bar>?q\<bar> \<le> 2 ^ 29" using b by (auto simp: abs_le_iff)
  qed
  show "length (fe_tobytes f) = 32" by (simp add: fe_tobytes_def Let_def)
  have Q: "(H + ?q) div 2 ^ off 10 = Q"
    unfolding Q_def using fe_quotient_exact [OF estimate] by (simp add: off_def)
  have quotient: "fe_quotient f = of_int Q"
  proof -
    have "\<bar>F ! i\<bar> \<le> 2 ^ 30" if "i < 10" for i using lim [OF that] by simp
    then show ?thesis
      using fe_quotient_steps [of F ?q 10] q F(1) by (simp only: fe_quotient_def q(1) F(2) [symmetric] H [symmetric] Q)
  qed
  have small: "\<bar>Q\<bar> \<le> 3"
    using estimate(2) unfolding Q_def prime25519_def by (auto simp: abs_le_iff abs_less_iff)
  let ?Z = "F[0 := F ! 0 + 19 * Q] @ [0]"
  let ?Y = "int_ops fe_floor_ops ?Z"
  have Z: "length ?Z = 11" using F(1) by simp
  have zw: "map of_int ?Z = f[0 := f ! 0 + 19 * fe_quotient f] @ [0]"
    unfolding quotient using F(1) by (simp add: F(2) map_update)
  have "\<bar>F[0 := F ! 0 + 19 * Q] ! i\<bar> \<le> 60 * fe_unit i" if "i < 10" for i
    using F(3) [OF that] fe_unit_bounds(1) [of i] small F(1)
    by (cases "i = 0") (auto simp: nth_list_update fe_unit_def abs_le_iff)
  then have within: "within ?Z fe_floor_bounds"
    using F(1) unfolding within_def fe_floor_bounds_def
    by (intro list_all2_appendI) (auto simp: list_all2_conv_all_nth inside_def abs_le_iff minus_le_iff)
  obtain B where B: "bounds_ops 32 fe_floor_ops fe_floor_bounds = Some B"
    "list_all2 narrower (take 10 B) (map (\<lambda>i. (0, 2 ^ limb_width i - 1)) [0..<10])"
    using fe_floor_ops_bounds by (auto split: option.splits)
  have run: "run_ops fe_floor_ops (map of_int ?Z) = (map of_int ?Y :: s32 list)" and Y: "within ?Y B"
    using ops_sound [where 'a = 32, of fe_floor_ops fe_floor_bounds B ?Z] B(1) within by simp_all
  have len: "length ?Y = 11" and val: "limbs_value wt10 ?Y = limbs_value wt10 ?Z"
    using ops_exact_value [of 0 wt10 ?Z fe_floor_ops] fe_floor_exact Z by simp_all
  have digit: "0 \<le> ?Y ! i \<and> ?Y ! i < 2 ^ limb_width i" if "i < 10" for i
  proof -
    have "length B = 11" using within_length [OF Y] len by simp
    then have "inside (?Y ! i) (B ! i)" "narrower (B ! i) (0, 2 ^ limb_width i - 1)"
      using within_nth [OF Y, of i] B(2) that by (auto simp: list_all2_conv_all_nth)
    then show ?thesis by (auto simp: inside_def narrower_def)
  qed
  let ?S = "\<Sum>i<10. ?Y ! i * wt10 i"
  have "0 \<le> ?S" using digit by (intro sum_nonneg) (simp add: wt10_def)
  moreover have "?S \<le> ival 10 (\<lambda>i. 2 ^ limb_width i - 1)"
    unfolding ival_def wt10_def using digit by (intro sum_mono mult_right_mono) auto
  ultimately have S: "0 \<le> ?S" "?S < 2 ^ 255" unfolding sval_max by simp_all
  have eleven: "limbs_value wt10 X = (\<Sum>i<10. X ! i * wt10 i) + X ! 10 * 2 ^ 255" if "length X = 11" for X
    using that sum.lessThan_Suc [of "\<lambda>i. X ! i * wt10 i" 10] by (simp add: limbs_value_def wt10_def off_def)
  have "limbs_value wt10 ?Z = H + 19 * Q"
    using F(1) by (simp add: eleven [OF Z] H nth_append nth_list_update sum_10 wt10_def off_def)
  then have sum: "?S + ?Y ! 10 * 2 ^ 255 = H + 19 * Q" using eleven [OF len] val by simp
  have rem: "H + 19 * Q = H mod prime25519 + Q * 2 ^ 255"
  proof -
    have "H = prime25519 * Q + H mod prime25519" by (simp add: Q_def)
    moreover have "prime25519 * Q = 2 ^ 255 * Q - 19 * Q" by (simp add: prime25519_def algebra_simps)
    ultimately show ?thesis by (simp add: mult.commute)
  qed
  have small_rem: "0 \<le> H mod prime25519 \<and> H mod prime25519 < 2 ^ 255"
    using pos_mod_bound [of prime25519 H] by (simp add: prime25519_def)
  have "?S = (?S + ?Y ! 10 * 2 ^ 255) mod 2 ^ 255" using S by simp
  also have "\<dots> = H mod prime25519" unfolding sum rem using small_rem by simp
  finally have "?S = H mod prime25519" .
  moreover have "fe_tobytes f = fe_bytes (map of_int ?Y)"
    unfolding fe_tobytes_def Let_def zw [symmetric] run ..
  ultimately show "le_int (fe_tobytes f) = Rep_gf x"
    using fe_bytes_value [OF digit len] by (simp add: F(4) H_def Rep_of_int)
qed

section \<open>Sign and zero\<close>

lemma byte_and_1: "uint (b AND 1 :: u8) = uint b mod 2"
  by (rule all_bytes) code_simp

lemma le_int_mod_2: "bs \<noteq> [] \<Longrightarrow> le_int bs mod 2 = uint (bs ! 0 AND 1)"
proof -
  assume "bs \<noteq> []"
  then obtain b rest where bs: "bs = b # rest" by (cases bs) auto
  have "le_int bs mod 2 = uint b mod 2" using mod_mult_self2 [of "uint b" 2 "128 * le_int rest"] by (simp add: bs le_int_Cons)
  then show ?thesis by (simp add: bs byte_and_1)
qed

definition gf_sign :: "gf \<Rightarrow> nat" where "gf_sign x = nat (Rep_gf x mod 2)"

lemma fe_is_negative: "fe_is 3 f x \<Longrightarrow> fe_isnegative f = gf_sign x"
proof -
  assume f: "fe_is 3 f x"
  have "fe_tobytes f \<noteq> []" using fe_tobytes_value(1) [OF f] by auto
  from le_int_mod_2 [OF this] show ?thesis
    by (simp add: fe_isnegative_def gf_sign_def fe_tobytes_value(2) [OF f] Let_def)
qed

lemma fold_or_zero: "fold (\<lambda>i r. r OR s ! i) is r = 0 \<longleftrightarrow> r = 0 \<and> (\<forall>i\<in>set is. s ! i = (0 :: u8))"
  by (induction "is" arbitrary: r) (auto simp: or_eq_0_iff)

lemma le_int_zero_iff: "le_int bs = 0 \<longleftrightarrow> (\<forall>i<length bs. bs ! i = 0)"
proof (induction bs)
  case (Cons b bs)
  have "0 \<le> le_int bs" by (rule le_int_bounds)
  then have "le_int (b # bs) = 0 \<longleftrightarrow> uint b = 0 \<and> le_int bs = 0"
    using uint_nonnegative [of b] unfolding le_int_Cons by linarith
  then show ?case using Cons by (auto simp: nth_Cons' less_Suc_eq_0_disj uint_0_iff)
qed simp

lemma upto_32: "(\<forall>i<32. P i) \<longleftrightarrow> P 0 \<and> (\<forall>i\<in>set [1..<32]. P (i :: nat))"
proof -
  have "{..<32} = insert 0 {1..<32 :: nat}" by auto
  moreover have "(\<forall>i<32. P i) \<longleftrightarrow> (\<forall>i\<in>{..<32}. P i)" by auto
  ultimately show ?thesis by simp
qed

lemma fe_is_nonzero: "fe_is 3 f x \<Longrightarrow> fe_isnonzero f \<longleftrightarrow> x \<noteq> 0"
proof -
  assume f: "fe_is 3 f x"
  have len: "length (fe_tobytes f) = 32" by (rule fe_tobytes_value(1) [OF f])
  have "fe_isnonzero f \<longleftrightarrow> le_int (fe_tobytes f) \<noteq> 0"
    unfolding fe_isnonzero_def Let_def fold_or_zero le_int_zero_iff len
    by (subst upto_32) auto
  also have "\<dots> \<longleftrightarrow> Rep_gf x \<noteq> Rep_gf 0" by (simp add: fe_tobytes_value(2) [OF f] zero_gf.rep_eq)
  finally show ?thesis by (simp add: Rep_gf_inject)
qed

section \<open>Properties\<close>

text \<open>C16: For limbs within the bounds that sums and differences of products can have, fe_mul computes the product
  in the field with 2^255 - 19 elements, and the limbs of the result are within the bounds of a product again.\<close>

theorem fe_mul_exact:
  assumes "fe_is 3 f x" "fe_is 3 g y"
  shows "fe_is 1 (fe_mul f g) (x * y)"
  using fe_is_mul [OF assms] by simp

lemma fe_mul_exact_witness:
  "fe_is 1 (fe_mul (replicate 10 50834964) (replicate 10 50834964))
     (fe_val (replicate 10 50834964) * fe_val (replicate 10 50834964))"
  by (rule fe_mul_exact) (simp_all add: fe_is_def list_all_iff fe_unit_def)

text \<open>C17: fe_tobytes writes the one number between 0 and 2^255 - 20 that the limbs stand for, as 32 bytes, and
  reading these bytes back gives the same field element.\<close>

theorem fe_bytes_roundtrip:
  assumes "fe_is 3 f x"
  shows "length (fe_tobytes f) = 32 \<and> le_int (fe_tobytes f) = Rep_gf x \<and> fe_is 1 (fe_frombytes (fe_tobytes f)) x"
proof -
  have b: "length (fe_tobytes f) = 32" "le_int (fe_tobytes f) = Rep_gf x"
    using fe_tobytes_value [OF assms] by simp_all
  have "Rep_gf x mod 2 ^ 255 = Rep_gf x"
    using Rep_gf_bounds [of x] by (simp add: prime25519_def)
  then show ?thesis using fe_is_frombytes [OF b(1)] b by simp
qed

lemma fe_bytes_roundtrip_witness:
  "length (fe_tobytes (replicate 10 (- 1))) = 32 \<and>
    le_int (fe_tobytes (replicate 10 (- 1))) = Rep_gf (fe_val (replicate 10 (- 1))) \<and>
    fe_is 1 (fe_frombytes (fe_tobytes (replicate 10 (- 1)))) (fe_val (replicate 10 (- 1)))"
  by (rule fe_bytes_roundtrip) (simp add: fe_is_def list_all_iff fe_unit_def)

end
