(* ===== verification/EdPoint.thy ===== *)
theory EdPoint
  imports EdwardsGroup EdFieldBytes
begin

text \<open>
  \<open>lib/ed25519/src/ge.c\<close>, the operations on single points: four representations of the points of the
  curve, additions, doubling, conversions, and points as 32 bytes.
\<close>

section \<open>The code\<close>

record ge_p2 =
  p2_X :: fe
  p2_Y :: fe
  p2_Z :: fe

record ge_p3 =
  p3_X :: fe
  p3_Y :: fe
  p3_Z :: fe
  p3_T :: fe

record ge_p1p1 =
  p1_X :: fe
  p1_Y :: fe
  p1_Z :: fe
  p1_T :: fe

record ge_precomp =
  yplusx :: fe
  yminusx :: fe
  xy2d :: fe

record ge_cached =
  YplusX :: fe
  YminusX :: fe
  cached_Z :: fe
  T2d :: fe

definition fe_d :: fe where
  "fe_d = [-10913610, 13857413, -15372611, 6949391, 114729, -8787816, -6275908, -3247719, -18696448, -12055116]"

definition fe_sqrtm1 :: fe where
  "fe_sqrtm1 = [-32595792, -7943725, 9377950, 3500415, 12389472, -272473, -25146209, -2005654, 326686, 11406482]"

definition fe_d2 :: fe where
  "fe_d2 = [-21827239, -5839606, -30745221, 13898782, 229458, 15978800, -12551817, -6495438, 29715968, 9444199]"

definition ge_add :: "ge_p3 \<Rightarrow> ge_cached \<Rightarrow> ge_p1p1" where
  "ge_add p q =
     (let X = fe_add (p3_Y p) (p3_X p);
          Y = fe_sub (p3_Y p) (p3_X p);
          Z = fe_mul X (YplusX q);
          Y = fe_mul Y (YminusX q);
          T = fe_mul (T2d q) (p3_T p);
          X = fe_mul (p3_Z p) (cached_Z q);
          t0 = fe_add X X;
          X = fe_sub Z Y;
          Y = fe_add Z Y;
          Z = fe_add t0 T;
          T = fe_sub t0 T
      in \<lparr>p1_X = X, p1_Y = Y, p1_Z = Z, p1_T = T\<rparr>)"

definition ge_sub :: "ge_p3 \<Rightarrow> ge_cached \<Rightarrow> ge_p1p1" where
  "ge_sub p q =
     (let X = fe_add (p3_Y p) (p3_X p);
          Y = fe_sub (p3_Y p) (p3_X p);
          Z = fe_mul X (YminusX q);
          Y = fe_mul Y (YplusX q);
          T = fe_mul (T2d q) (p3_T p);
          X = fe_mul (p3_Z p) (cached_Z q);
          t0 = fe_add X X;
          X = fe_sub Z Y;
          Y = fe_add Z Y;
          Z = fe_sub t0 T;
          T = fe_add t0 T
      in \<lparr>p1_X = X, p1_Y = Y, p1_Z = Z, p1_T = T\<rparr>)"

definition ge_madd :: "ge_p3 \<Rightarrow> ge_precomp \<Rightarrow> ge_p1p1" where
  "ge_madd p q =
     (let X = fe_add (p3_Y p) (p3_X p);
          Y = fe_sub (p3_Y p) (p3_X p);
          Z = fe_mul X (yplusx q);
          Y = fe_mul Y (yminusx q);
          T = fe_mul (xy2d q) (p3_T p);
          t0 = fe_add (p3_Z p) (p3_Z p);
          X = fe_sub Z Y;
          Y = fe_add Z Y;
          Z = fe_add t0 T;
          T = fe_sub t0 T
      in \<lparr>p1_X = X, p1_Y = Y, p1_Z = Z, p1_T = T\<rparr>)"

definition ge_msub :: "ge_p3 \<Rightarrow> ge_precomp \<Rightarrow> ge_p1p1" where
  "ge_msub p q =
     (let X = fe_add (p3_Y p) (p3_X p);
          Y = fe_sub (p3_Y p) (p3_X p);
          Z = fe_mul X (yminusx q);
          Y = fe_mul Y (yplusx q);
          T = fe_mul (xy2d q) (p3_T p);
          t0 = fe_add (p3_Z p) (p3_Z p);
          X = fe_sub Z Y;
          Y = fe_add Z Y;
          Z = fe_sub t0 T;
          T = fe_add t0 T
      in \<lparr>p1_X = X, p1_Y = Y, p1_Z = Z, p1_T = T\<rparr>)"

definition ge_p1p1_to_p2 :: "ge_p1p1 \<Rightarrow> ge_p2" where
  "ge_p1p1_to_p2 p =
     \<lparr>p2_X = fe_mul (p1_X p) (p1_T p), p2_Y = fe_mul (p1_Y p) (p1_Z p), p2_Z = fe_mul (p1_Z p) (p1_T p)\<rparr>"

definition ge_p1p1_to_p3 :: "ge_p1p1 \<Rightarrow> ge_p3" where
  "ge_p1p1_to_p3 p =
     \<lparr>p3_X = fe_mul (p1_X p) (p1_T p), p3_Y = fe_mul (p1_Y p) (p1_Z p), p3_Z = fe_mul (p1_Z p) (p1_T p),
      p3_T = fe_mul (p1_X p) (p1_Y p)\<rparr>"

definition ge_p2_0 :: ge_p2 where
  "ge_p2_0 = \<lparr>p2_X = fe_0, p2_Y = fe_1, p2_Z = fe_1\<rparr>"

definition ge_p2_dbl :: "ge_p2 \<Rightarrow> ge_p1p1" where
  "ge_p2_dbl p =
     (let X = fe_sq (p2_X p);
          Z = fe_sq (p2_Y p);
          T = fe_sq2 (p2_Z p);
          Y = fe_add (p2_X p) (p2_Y p);
          t0 = fe_sq Y;
          Y = fe_add Z X;
          Z = fe_sub Z X;
          X = fe_sub t0 Y;
          T = fe_sub T Z
      in \<lparr>p1_X = X, p1_Y = Y, p1_Z = Z, p1_T = T\<rparr>)"

definition ge_p3_0 :: ge_p3 where
  "ge_p3_0 = \<lparr>p3_X = fe_0, p3_Y = fe_1, p3_Z = fe_1, p3_T = fe_0\<rparr>"

definition ge_p3_to_cached :: "ge_p3 \<Rightarrow> ge_cached" where
  "ge_p3_to_cached p =
     \<lparr>YplusX = fe_add (p3_Y p) (p3_X p), YminusX = fe_sub (p3_Y p) (p3_X p),
      cached_Z = fe_copy (p3_Z p), T2d = fe_mul (p3_T p) fe_d2\<rparr>"

definition ge_p3_to_p2 :: "ge_p3 \<Rightarrow> ge_p2" where
  "ge_p3_to_p2 p = \<lparr>p2_X = fe_copy (p3_X p), p2_Y = fe_copy (p3_Y p), p2_Z = fe_copy (p3_Z p)\<rparr>"

definition ge_p3_dbl :: "ge_p3 \<Rightarrow> ge_p1p1" where
  "ge_p3_dbl p = ge_p2_dbl (ge_p3_to_p2 p)"

definition ge_p3_tobytes :: "ge_p3 \<Rightarrow> bytes" where
  "ge_p3_tobytes h =
     (let recip = fe_invert (p3_Z h);
          x = fe_mul (p3_X h) recip;
          y = fe_mul (p3_Y h) recip;
          s = fe_tobytes y
      in s[31 := s ! 31 XOR push_bit 7 (of_nat (fe_isnegative x))])"

definition ge_tobytes :: "ge_p2 \<Rightarrow> bytes" where
  "ge_tobytes h =
     (let recip = fe_invert (p2_Z h);
          x = fe_mul (p2_X h) recip;
          y = fe_mul (p2_Y h) recip;
          s = fe_tobytes y
      in s[31 := s ! 31 XOR push_bit 7 (of_nat (fe_isnegative x))])"

text \<open>\<open>None\<close> is the result -1, of bytes that belong to no point.\<close>

definition ge_frombytes_negate_vartime :: "bytes \<Rightarrow> ge_p3 option" where
  "ge_frombytes_negate_vartime s =
     (let Y = fe_frombytes s;
          Z = fe_1;
          u = fe_sq Y;
          v = fe_mul u fe_d;
          u = fe_sub u Z;
          v = fe_add v Z;
          v3 = fe_sq v;
          v3 = fe_mul v3 v;
          X = fe_sq v3;
          X = fe_mul X v;
          X = fe_mul X u;
          X = fe_pow22523 X;
          X = fe_mul X v3;
          X = fe_mul X u;
          vxx = fe_sq X;
          vxx = fe_mul vxx v;
          check = fe_sub vxx u;
          sign = (\<lambda>X. if fe_isnegative X = unat (drop_bit 7 (s ! 31)) then fe_neg X else X);
          result = (\<lambda>X. \<lparr>p3_X = X, p3_Y = Y, p3_Z = Z, p3_T = fe_mul X Y\<rparr>)
      in if fe_isnonzero check then
           (let check = fe_add vxx u in
            if fe_isnonzero check then None
            else Some (result (sign (fe_mul X fe_sqrtm1))))
         else Some (result (sign X)))"

section \<open>The constants\<close>

lemma fe_const:
  assumes "length f = 10" "list_all (\<lambda>i. \<bar>sint (f ! i)\<bar> \<le> fe_unit i) [0..<10]"
    "(c * limbs_value wt10 (map sint f)) mod prime25519 = k mod prime25519" "(of_int c :: gf) \<noteq> 0"
  shows "fe_is 1 f (of_int k / of_int c)"
proof -
  have "of_int c * fe_val f = of_int k"
    using assms(3) unfolding fe_val_def of_int_mult [symmetric] of_int_gf_eq_iff .
  then show ?thesis using assms(1,2,4) by (simp add: fe_is_def field_simps)
qed

lemma fe_is_sqrtm1: "fe_is 1 fe_sqrtm1 sqrt_m1"
proof -
  have "fe_is 1 fe_sqrtm1 (of_int 19681161376707505956807079304988542015446066515923890162744021073123829784752 / of_int 1)"
    by (rule fe_const, simp add: fe_sqrtm1_def, code_simp)
      (simp_all add: fe_sqrtm1_def limbs_value_def sum_10 wt10_def off_def prime25519_def)
  then show ?thesis by (simp add: sqrt_m1_def)
qed

lemma fe_is_d: "fe_is 1 fe_d ed_d"
proof -
  have "fe_is 1 fe_d (of_int (- 121665) / of_int 121666)"
    by (rule fe_const, simp add: fe_d_def, code_simp)
      (simp_all add: fe_d_def limbs_value_def sum_10 wt10_def off_def prime25519_def gf_121666)
  then show ?thesis by (simp add: ed_d_def)
qed

lemma fe_is_d2: "fe_is 1 fe_d2 (2 * ed_d)"
proof -
  have "fe_is 1 fe_d2 (of_int (- 243330) / of_int 121666)"
    by (rule fe_const, simp add: fe_d2_def, code_simp)
      (simp_all add: fe_d2_def limbs_value_def sum_10 wt10_def off_def prime25519_def gf_121666)
  then show ?thesis by (simp add: ed_d_def)
qed

section \<open>What the representations stand for\<close>

definition px :: "ed_point \<Rightarrow> gf" where "px P = fst (Rep_ed_point P)"

definition py :: "ed_point \<Rightarrow> gf" where "py P = snd (Rep_ed_point P)"

definition p3_is :: "ge_p3 \<Rightarrow> ed_point \<Rightarrow> bool" where
  "p3_is p P \<longleftrightarrow> (\<exists>z. z \<noteq> 0 \<and> fe_is 1 (p3_X p) (px P * z) \<and> fe_is 1 (p3_Y p) (py P * z) \<and> fe_is 1 (p3_Z p) z
     \<and> fe_is 1 (p3_T p) (px P * py P * z))"

definition p2_is :: "ge_p2 \<Rightarrow> ed_point \<Rightarrow> bool" where
  "p2_is p P \<longleftrightarrow> (\<exists>z. z \<noteq> 0 \<and> fe_is 1 (p2_X p) (px P * z) \<and> fe_is 1 (p2_Y p) (py P * z) \<and> fe_is 1 (p2_Z p) z)"

definition p1p1_is :: "ge_p1p1 \<Rightarrow> ed_point \<Rightarrow> bool" where
  "p1p1_is p P \<longleftrightarrow> (\<exists>z t. z \<noteq> 0 \<and> t \<noteq> 0 \<and> fe_is 3 (p1_X p) (px P * z) \<and> fe_is 3 (p1_Y p) (py P * t)
     \<and> fe_is 3 (p1_Z p) z \<and> fe_is 3 (p1_T p) t)"

definition cached_is :: "ge_cached \<Rightarrow> ed_point \<Rightarrow> bool" where
  "cached_is q P \<longleftrightarrow> (\<exists>z. z \<noteq> 0 \<and> fe_is 2 (YplusX q) ((py P + px P) * z) \<and> fe_is 2 (YminusX q) ((py P - px P) * z)
     \<and> fe_is 1 (cached_Z q) z \<and> fe_is 1 (T2d q) (2 * ed_d * px P * py P * z))"

definition precomp_is :: "ge_precomp \<Rightarrow> ed_point \<Rightarrow> bool" where
  "precomp_is q P \<longleftrightarrow> fe_is 1 (yplusx q) (py P + px P) \<and> fe_is 1 (yminusx q) (py P - px P)
     \<and> fe_is 1 (xy2d q) (2 * ed_d * px P * py P)"

lemma point_on_curve: "(py P)^2 - (px P)^2 = 1 + ed_d * (px P)^2 * (py P)^2"
  using Rep_ed_point [of P] by (simp add: on_curve_def px_def py_def)

lemma point_eqI: "px P = px Q \<Longrightarrow> py P = py Q \<Longrightarrow> P = Q"
  by (simp add: px_def py_def prod_eq_iff flip: Rep_ed_point_inject)

lemma point_zero [simp]: "px 0 = 0" "py 0 = 1"
  by (simp_all add: px_def py_def zero_ed_point.rep_eq)

lemma point_minus [simp]: "px (- P) = - px P" "py (- P) = py P"
  by (simp_all add: px_def py_def uminus_ed_point.rep_eq ed_neg_def)

lemma point_denominators:
  "1 + ed_d * px P * px Q * py P * py Q \<noteq> 0" "1 - ed_d * px P * px Q * py P * py Q \<noteq> 0"
  using complete [of "Rep_ed_point P" "Rep_ed_point Q"] Rep_ed_point [of P] Rep_ed_point [of Q] by (simp_all add: px_def py_def)

lemma point_plus:
  "px (P + Q) * (1 + ed_d * px P * px Q * py P * py Q) = px P * py Q + px Q * py P"
  "py (P + Q) * (1 - ed_d * px P * px Q * py P * py Q) = py P * py Q + px P * px Q"
  using point_denominators [of P Q] by (simp_all add: px_def py_def plus_ed_point.rep_eq ed_add_def split_beta)

section \<open>Conversions\<close>

lemma p3_is_0: "p3_is ge_p3_0 0" and p2_is_0: "p2_is ge_p2_0 0"
  unfolding p3_is_def p2_is_def using fe_is_0 fe_is_1 by (auto simp: ge_p3_0_def ge_p2_0_def intro!: exI [of _ 1])

lemma p3_to_p2: "p3_is p P \<Longrightarrow> p2_is (ge_p3_to_p2 p) P"
  by (auto simp: p3_is_def p2_is_def ge_p3_to_p2_def fe_is_copy)

lemma fe_is_eq: "fe_is n f x \<Longrightarrow> x = y \<Longrightarrow> fe_is n f y"
  by simp

lemma p3_to_cached:
  assumes "p3_is p P"
  shows "cached_is (ge_p3_to_cached p) P"
proof -
  obtain z where z: "z \<noteq> 0" and X: "fe_is 1 (p3_X p) (px P * z)" and Y: "fe_is 1 (p3_Y p) (py P * z)"
    and Z: "fe_is 1 (p3_Z p) z" and T: "fe_is 1 (p3_T p) (px P * py P * z)"
    using assms unfolding p3_is_def by blast
  have "fe_is 2 (fe_add (p3_Y p) (p3_X p)) ((py P + px P) * z)" "fe_is 2 (fe_sub (p3_Y p) (p3_X p)) ((py P - px P) * z)"
    using fe_is_add [OF Y X] fe_is_sub [OF Y X] by (simp_all add: algebra_simps)
  moreover have "fe_is 1 (fe_mul (p3_T p) fe_d2) (2 * ed_d * px P * py P * z)"
    using fe_is_mul [OF T fe_is_d2] by (simp add: mult_ac)
  ultimately show ?thesis
    using z Z unfolding cached_is_def by (auto simp: ge_p3_to_cached_def fe_is_copy [OF Z])
qed

lemma p1p1_to_p2:
  assumes "p1p1_is p P"
  shows "p2_is (ge_p1p1_to_p2 p) P"
proof -
  obtain z t where nz: "z \<noteq> 0" "t \<noteq> 0" and X: "fe_is 3 (p1_X p) (px P * z)" and Y: "fe_is 3 (p1_Y p) (py P * t)"
    and Z: "fe_is 3 (p1_Z p) z" and T: "fe_is 3 (p1_T p) t"
    using assms unfolding p1p1_is_def by blast
  have "z * t \<noteq> 0" using nz by simp
  then show ?thesis
    using fe_is_mul [OF X T] fe_is_mul [OF Y Z] fe_is_mul [OF Z T]
    unfolding p2_is_def by (intro exI [of _ "z * t"]) (simp add: ge_p1p1_to_p2_def mult_ac)
qed

lemma p1p1_to_p3:
  assumes "p1p1_is p P"
  shows "p3_is (ge_p1p1_to_p3 p) P"
proof -
  obtain z t where nz: "z \<noteq> 0" "t \<noteq> 0" and X: "fe_is 3 (p1_X p) (px P * z)" and Y: "fe_is 3 (p1_Y p) (py P * t)"
    and Z: "fe_is 3 (p1_Z p) z" and T: "fe_is 3 (p1_T p) t"
    using assms unfolding p1p1_is_def by blast
  have "z * t \<noteq> 0" using nz by simp
  then show ?thesis
    using fe_is_mul [OF X T] fe_is_mul [OF Y Z] fe_is_mul [OF Z T] fe_is_mul [OF X Y]
    unfolding p3_is_def by (intro exI [of _ "z * t"]) (simp add: ge_p1p1_to_p3_def mult_ac)
qed

section \<open>Addition\<close>

text \<open>What an addition leaves in the four coordinates, when it is given the coordinates of two points.\<close>

lemma sum_coordinates:
  assumes "fe_is 3 X (2 * (px P * py Q + px Q * py P) * k)" "fe_is 3 Y (2 * (py P * py Q + px P * px Q) * k)"
    "fe_is 3 Z (2 * (1 + ed_d * px P * px Q * py P * py Q) * k)" "fe_is 3 T (2 * (1 - ed_d * px P * px Q * py P * py Q) * k)"
    "k \<noteq> 0"
  shows "p1p1_is \<lparr>p1_X = X, p1_Y = Y, p1_Z = Z, p1_T = T\<rparr> (P + Q)"
proof -
  have nz: "2 * (1 + ed_d * px P * px Q * py P * py Q) * k \<noteq> 0" "2 * (1 - ed_d * px P * px Q * py P * py Q) * k \<noteq> 0"
    using point_denominators [of P Q] assms(5) gf_two_nonzero unfolding mult_eq_0_iff by blast+
  have eq: "px (P + Q) * (2 * (1 + ed_d * px P * px Q * py P * py Q) * k) = 2 * (px P * py Q + px Q * py P) * k"
    "py (P + Q) * (2 * (1 - ed_d * px P * px Q * py P * py Q) * k) = 2 * (py P * py Q + px P * px Q) * k"
    using point_plus [of P Q] by algebra+
  show ?thesis
    unfolding p1p1_is_def
    by (rule exI [of _ "2 * (1 + ed_d * px P * px Q * py P * py Q) * k"], rule exI [of _ "2 * (1 - ed_d * px P * px Q * py P * py Q) * k"])
      (simp only: ge_p1p1.simps eq nz assms(1-4) not_False_eq_True simp_thms)
qed

lemma ge_add_is:
  assumes "p3_is p P" "cached_is q Q"
  shows "p1p1_is (ge_add p q) (P + Q)"
proof -
  obtain z where z: "z \<noteq> 0" and X: "fe_is 1 (p3_X p) (px P * z)" and Y: "fe_is 1 (p3_Y p) (py P * z)"
    and Z: "fe_is 1 (p3_Z p) z" and T: "fe_is 1 (p3_T p) (px P * py P * z)"
    using assms(1) unfolding p3_is_def by blast
  obtain w where w: "w \<noteq> 0" and qp: "fe_is 2 (YplusX q) ((py Q + px Q) * w)" and qm: "fe_is 2 (YminusX q) ((py Q - px Q) * w)"
    and qz: "fe_is 1 (cached_Z q) w" and qt: "fe_is 1 (T2d q) (2 * ed_d * px Q * py Q * w)"
    using assms(2) unfolding cached_is_def by blast
  note a = fe_is_add [OF Y X, simplified] and s = fe_is_sub [OF Y X, simplified]
  note B = fe_is_mul [OF a qp, simplified] and A = fe_is_mul [OF s qm, simplified]
  note C = fe_is_mul [OF qt T, simplified] and ZZ = fe_is_mul [OF Z qz, simplified]
  note D = fe_is_add [OF ZZ ZZ, simplified]
  show ?thesis
    unfolding ge_add_def Let_def
    by (rule sum_coordinates [where k = "z * w"])
      ((rule fe_is_eq [OF fe_is_weaken [OF fe_is_sub [OF B A]]] fe_is_eq [OF fe_is_weaken [OF fe_is_add [OF B A]]]
          fe_is_eq [OF fe_is_weaken [OF fe_is_add [OF D C]]] fe_is_eq [OF fe_is_weaken [OF fe_is_sub [OF D C]]];
        simp add: algebra_simps)+, use z w in simp)
qed

lemma ge_sub_is:
  assumes "p3_is p P" "cached_is q Q"
  shows "p1p1_is (ge_sub p q) (P - Q)"
proof -
  obtain z where z: "z \<noteq> 0" and X: "fe_is 1 (p3_X p) (px P * z)" and Y: "fe_is 1 (p3_Y p) (py P * z)"
    and Z: "fe_is 1 (p3_Z p) z" and T: "fe_is 1 (p3_T p) (px P * py P * z)"
    using assms(1) unfolding p3_is_def by blast
  obtain w where w: "w \<noteq> 0" and qp: "fe_is 2 (YplusX q) ((py Q + px Q) * w)" and qm: "fe_is 2 (YminusX q) ((py Q - px Q) * w)"
    and qz: "fe_is 1 (cached_Z q) w" and qt: "fe_is 1 (T2d q) (2 * ed_d * px Q * py Q * w)"
    using assms(2) unfolding cached_is_def by blast
  note a = fe_is_add [OF Y X, simplified] and s = fe_is_sub [OF Y X, simplified]
  note B = fe_is_mul [OF a qm, simplified] and A = fe_is_mul [OF s qp, simplified]
  note C = fe_is_mul [OF qt T, simplified] and ZZ = fe_is_mul [OF Z qz, simplified]
  note D = fe_is_add [OF ZZ ZZ, simplified]
  have "p1p1_is (ge_sub p q) (P + - Q)"
    unfolding ge_sub_def Let_def
    by (rule sum_coordinates [where k = "z * w"])
      ((rule fe_is_eq [OF fe_is_weaken [OF fe_is_sub [OF B A]]] fe_is_eq [OF fe_is_weaken [OF fe_is_add [OF B A]]]
          fe_is_eq [OF fe_is_weaken [OF fe_is_sub [OF D C]]] fe_is_eq [OF fe_is_weaken [OF fe_is_add [OF D C]]];
        simp add: algebra_simps)+, use z w in simp)
  then show ?thesis by simp
qed

lemma ge_madd_is:
  assumes "p3_is p P" "precomp_is q Q"
  shows "p1p1_is (ge_madd p q) (P + Q)"
proof -
  obtain z where z: "z \<noteq> 0" and X: "fe_is 1 (p3_X p) (px P * z)" and Y: "fe_is 1 (p3_Y p) (py P * z)"
    and Z: "fe_is 1 (p3_Z p) z" and T: "fe_is 1 (p3_T p) (px P * py P * z)"
    using assms(1) unfolding p3_is_def by blast
  have qp: "fe_is 1 (yplusx q) (py Q + px Q)" and qm: "fe_is 1 (yminusx q) (py Q - px Q)"
    and qt: "fe_is 1 (xy2d q) (2 * ed_d * px Q * py Q)"
    using assms(2) unfolding precomp_is_def by blast+
  note a = fe_is_add [OF Y X, simplified] and s = fe_is_sub [OF Y X, simplified]
  note B = fe_is_mul [OF a qp, simplified] and A = fe_is_mul [OF s qm, simplified]
  note C = fe_is_mul [OF qt T, simplified] and D = fe_is_add [OF Z Z, simplified]
  show ?thesis
    unfolding ge_madd_def Let_def
    by (rule sum_coordinates [where k = "z"])
      ((rule fe_is_eq [OF fe_is_weaken [OF fe_is_sub [OF B A]]] fe_is_eq [OF fe_is_weaken [OF fe_is_add [OF B A]]]
          fe_is_eq [OF fe_is_weaken [OF fe_is_add [OF D C]]] fe_is_eq [OF fe_is_weaken [OF fe_is_sub [OF D C]]];
        simp add: algebra_simps)+, use z in simp)
qed

lemma ge_msub_is:
  assumes "p3_is p P" "precomp_is q Q"
  shows "p1p1_is (ge_msub p q) (P - Q)"
proof -
  obtain z where z: "z \<noteq> 0" and X: "fe_is 1 (p3_X p) (px P * z)" and Y: "fe_is 1 (p3_Y p) (py P * z)"
    and Z: "fe_is 1 (p3_Z p) z" and T: "fe_is 1 (p3_T p) (px P * py P * z)"
    using assms(1) unfolding p3_is_def by blast
  have qp: "fe_is 1 (yplusx q) (py Q + px Q)" and qm: "fe_is 1 (yminusx q) (py Q - px Q)"
    and qt: "fe_is 1 (xy2d q) (2 * ed_d * px Q * py Q)"
    using assms(2) unfolding precomp_is_def by blast+
  note a = fe_is_add [OF Y X, simplified] and s = fe_is_sub [OF Y X, simplified]
  note B = fe_is_mul [OF a qm, simplified] and A = fe_is_mul [OF s qp, simplified]
  note C = fe_is_mul [OF qt T, simplified] and D = fe_is_add [OF Z Z, simplified]
  have "p1p1_is (ge_msub p q) (P + - Q)"
    unfolding ge_msub_def Let_def
    by (rule sum_coordinates [where k = "z"])
      ((rule fe_is_eq [OF fe_is_weaken [OF fe_is_sub [OF B A]]] fe_is_eq [OF fe_is_weaken [OF fe_is_add [OF B A]]]
          fe_is_eq [OF fe_is_weaken [OF fe_is_sub [OF D C]]] fe_is_eq [OF fe_is_weaken [OF fe_is_add [OF D C]]];
        simp add: algebra_simps)+, use z in simp)
  then show ?thesis by simp
qed

text \<open>Doubling: the curve equation turns the sums of squares into the denominators.\<close>

lemma ge_p2_dbl_is:
  assumes "p2_is p P"
  shows "p1p1_is (ge_p2_dbl p) (P + P)"
proof -
  obtain z where z: "z \<noteq> 0" and X: "fe_is 1 (p2_X p) (px P * z)" and Y: "fe_is 1 (p2_Y p) (py P * z)" and Z: "fe_is 1 (p2_Z p) z"
    using assms unfolding p2_is_def by blast
  note XX = fe_is_sq [OF X, simplified] and YY = fe_is_sq [OF Y, simplified] and ZZ2 = fe_is_sq2 [OF Z, simplified]
  note S = fe_is_sq [OF fe_is_add [OF X Y], simplified]
  note p = fe_is_add [OF YY XX, simplified] and m = fe_is_sub [OF YY XX, simplified]
  note top = fe_is_sub [OF S p, simplified] and bottom = fe_is_sub [OF ZZ2 m, simplified]
  let ?e = "ed_d * px P * px P * py P * py P"
  have curve: "py P * py P - px P * px P = 1 + ?e"
    using point_on_curve [of P] by (simp add: power2_eq_square algebra_simps)
  obtain h :: gf where two: "2 * h = 1" using right_inverse [OF gf_two_nonzero] by blast
  let ?k = "h * z * z"
  have k: "2 * ?k = z * z" using two by algebra
  have "p1p1_is \<lparr>p1_X = fe_sub (fe_sq (fe_add (p2_X p) (p2_Y p))) (fe_add (fe_sq (p2_Y p)) (fe_sq (p2_X p))),
      p1_Y = fe_add (fe_sq (p2_Y p)) (fe_sq (p2_X p)), p1_Z = fe_sub (fe_sq (p2_Y p)) (fe_sq (p2_X p)),
      p1_T = fe_sub (fe_sq2 (p2_Z p)) (fe_sub (fe_sq (p2_Y p)) (fe_sq (p2_X p)))\<rparr> (P + P)"
  proof (rule sum_coordinates [where k = ?k])
    show "fe_is 3 (fe_sub (fe_sq (fe_add (p2_X p) (p2_Y p))) (fe_add (fe_sq (p2_Y p)) (fe_sq (p2_X p)))) (2 * (px P * py P + px P * py P) * ?k)"
      by (rule fe_is_eq [OF top]) (use k in algebra)
    show "fe_is 3 (fe_add (fe_sq (p2_Y p)) (fe_sq (p2_X p))) (2 * (py P * py P + px P * px P) * ?k)"
      by (rule fe_is_eq [OF fe_is_weaken [OF p]], simp) (use k in algebra)
    show "fe_is 3 (fe_sub (fe_sq (p2_Y p)) (fe_sq (p2_X p))) (2 * (1 + ?e) * ?k)"
      by (rule fe_is_eq [OF fe_is_weaken [OF m]], simp) (use k curve in algebra)
    show "fe_is 3 (fe_sub (fe_sq2 (p2_Z p)) (fe_sub (fe_sq (p2_Y p)) (fe_sq (p2_X p)))) (2 * (1 - ?e) * ?k)"
      by (rule fe_is_eq [OF bottom]) (use k curve in algebra)
    show "?k \<noteq> 0" using two z by auto
  qed
  then show ?thesis unfolding ge_p2_dbl_def Let_def .
qed

lemma ge_p3_dbl_is: "p3_is p P \<Longrightarrow> p1p1_is (ge_p3_dbl p) (P + P)"
  unfolding ge_p3_dbl_def by (intro ge_p2_dbl_is p3_to_p2)

section \<open>Points as bytes\<close>

text \<open>The second coordinate, and the parity of the first one as the top bit.\<close>

definition point_number :: "ed_point \<Rightarrow> int" where
  "point_number P = Rep_gf (py P) + 2 ^ 255 * int (gf_sign (px P))"

definition point_bytes :: "ed_point \<Rightarrow> bytes" where
  "point_bytes P = map (\<lambda>i. of_int (point_number P div 2 ^ (8 * i))) [0..<32]"

lemma gf_sign_le: "gf_sign x \<le> 1"
proof -
  have "Rep_gf x mod 2 \<le> 1" using pos_mod_bound [of 2 "Rep_gf x"] by linarith
  then show ?thesis by (simp add: gf_sign_def)
qed

lemma le_int_of_bytes: "le_int (map (\<lambda>i. of_int (k div 2 ^ (8 * i))) [0..<n]) = k mod 2 ^ (8 * n)"
proof (induction n)
  case (Suc n)
  have "uint (of_int (k div 2 ^ (8 * n)) :: u8) = k div 2 ^ (8 * n) mod 2 ^ 8" by (simp add: uint_word_of_int)
  moreover have "k mod 2 ^ (8 * Suc n) = 2 ^ (8 * n) * (k div 2 ^ (8 * n) mod 2 ^ 8) + k mod 2 ^ (8 * n)"
  proof -
    have "2 ^ (8 * Suc n) = 2 ^ (8 * n) * (2 ^ 8 :: int)" by (simp add: power_add)
    then show ?thesis by (simp only: zmod_zmult2_eq zero_le_power zero_le_numeral)
  qed
  ultimately show ?case using Suc by (simp add: le_int_append le_int_Cons)
qed (simp add: le_int_def)

lemma point_bytes_number: "length (point_bytes P) = 32" "le_int (point_bytes P) = point_number P"
proof -
  have "0 \<le> point_number P" "point_number P < 2 ^ 256"
    using Rep_gf_bounds [of "py P"] gf_sign_le [of "px P"] by (simp_all add: point_number_def prime25519_def)
  then show "le_int (point_bytes P) = point_number P"
    using le_int_of_bytes [of "point_number P" 32] by (simp add: point_bytes_def)
qed (simp add: point_bytes_def)

lemma top_bit_flip:
  assumes "length s = 32" "le_int s < 2 ^ 255" "n \<le> 1"
  shows "le_int (s[31 := s ! 31 XOR push_bit 7 (of_nat n)]) = le_int s + 2 ^ 255 * int n"
proof -
  have s: "le_int s = le_int (take 31 s) + 2 ^ 248 * uint (s ! 31)"
    using assms(1) le_int_append [of "take 31 s" "[s ! 31]"] take_Suc_conv_app_nth [of 31 s] by (simp add: le_int_Cons)
  moreover have "0 \<le> le_int (take 31 s)" by (rule le_int_bounds)
  ultimately have "uint (s ! 31) < 128" using assms(2) by simp
  moreover have "uint b < 128 \<longrightarrow> uint (b XOR 128) = uint b + 128" for b :: u8
    by (rule all_bytes) code_simp
  ultimately have flip: "uint (s ! 31 XOR 128) = uint (s ! 31) + 128" by blast
  have "n = 0 \<or> n = 1" using assms(3) by auto
  then show ?thesis using assms(1) flip by (auto simp: le_int_update)
qed

lemma tobytes_point:
  assumes "z \<noteq> 0" "fe_is 1 X (px P * z)" "fe_is 1 Y (py P * z)" "fe_is 1 Z z"
  shows "(let recip = fe_invert Z; x = fe_mul X recip; y = fe_mul Y recip; s = fe_tobytes y
    in s[31 := s ! 31 XOR push_bit 7 (of_nat (fe_isnegative x))]) = point_bytes P"
proof -
  note R = fe_is_invert [OF assms(4), simplified]
  have x: "fe_is 1 (fe_mul X (fe_invert Z)) (px P)" and y: "fe_is 1 (fe_mul Y (fe_invert Z)) (py P)"
    using fe_is_mul [OF assms(2) R] fe_is_mul [OF assms(3) R] assms(1) by (simp_all add: mult.assoc)
  have x3: "fe_is 3 (fe_mul X (fe_invert Z)) (px P)" and y3: "fe_is 3 (fe_mul Y (fe_invert Z)) (py P)"
    using fe_is_weaken [OF x] fe_is_weaken [OF y] by simp_all
  let ?s = "fe_tobytes (fe_mul Y (fe_invert Z))"
  have s: "length ?s = 32" "le_int ?s = Rep_gf (py P)" by (rule fe_tobytes_value [OF y3])+
  then have "le_int ?s < 2 ^ 255" using Rep_gf_bounds [of "py P"] by (simp add: prime25519_def)
  from top_bit_flip [OF s(1) this gf_sign_le [of "px P"]]
  have "le_int (?s[31 := ?s ! 31 XOR push_bit 7 (of_nat (gf_sign (px P)))]) = le_int (point_bytes P)"
    by (simp only: s(2) point_bytes_number(2) point_number_def)
  then show ?thesis
    unfolding Let_def fe_is_negative [OF x3] by (intro le_int_inject) (simp_all add: s(1) point_bytes_number(1))
qed

lemma ge_p3_tobytes_is: "p3_is p P \<Longrightarrow> ge_p3_tobytes p = point_bytes P"
  unfolding p3_is_def ge_p3_tobytes_def using tobytes_point by blast

lemma ge_tobytes_is: "p2_is p P \<Longrightarrow> ge_tobytes p = point_bytes P"
  unfolding p2_is_def ge_tobytes_def using tobytes_point by blast

section \<open>Points from bytes\<close>

definition root_exp :: nat where "root_exp = 2 ^ 252 - 3"

lemma root_exp_quarter: "(2 * root_exp + 1) * 4 = p25519 - 1"
  by (simp add: root_exp_def p25519_def prime25519_def)

definition root_candidate :: "gf \<Rightarrow> gf \<Rightarrow> gf" where
  "root_candidate u v = (u * v ^ 7) ^ root_exp * v ^ 3 * u"

lemma power_step: "a * (a ^ n) ^ 2 = a ^ (2 * n + 1)" for a :: gf
  by (simp add: power_mult [symmetric] mult.commute)

lemma root_candidate_square: "v * root_candidate u v ^ 2 = u * (u * v ^ 7) ^ (2 * root_exp + 1)"
proof -
  have "v ^ 7 = v ^ (1 + 3 * 2)" by simp
  also have "\<dots> = v * (v ^ 3) ^ 2" by (simp only: power_add power_mult power_one_right)
  finally have v: "v ^ 7 = v * (v ^ 3) ^ 2" .
  have "v * (g * w * u) ^ 2 = u * ((u * (v * w ^ 2)) * g ^ 2)" for g w :: gf
    by (simp add: power_mult_distrib power2_eq_square mult_ac)
  then have "v * (g * v ^ 3 * u) ^ 2 = u * ((u * v ^ 7) * g ^ 2)" for g
    unfolding v .
  then have "v * root_candidate u v ^ 2 = u * ((u * v ^ 7) * ((u * v ^ 7) ^ root_exp) ^ 2)"
    unfolding root_candidate_def .
  also have "\<dots> = u * (u * v ^ 7) ^ (2 * root_exp + 1)"
    unfolding power_step ..
  finally show ?thesis .
qed

lemma root_candidate_point:
  assumes "u = x ^ 2 * v"
  shows "v * root_candidate u v ^ 2 = u \<or> v * root_candidate u v ^ 2 = - u"
proof (cases "u = 0")
  case True
  then show ?thesis by (simp add: root_candidate_def)
next
  case False
  let ?g = "(u * v ^ 7) ^ (2 * root_exp + 1)"
  have h: "u * v ^ 7 = (x * v ^ 4) ^ 2" unfolding assms by algebra
  have e: "2 * ((2 * root_exp + 1) * 2) = (2 * root_exp + 1) * 4" by simp
  have "?g ^ 2 = (x * v ^ 4) ^ (2 * ((2 * root_exp + 1) * 2))"
    unfolding h power_mult ..
  also have "\<dots> = (x * v ^ 4) ^ ((2 * root_exp + 1) * 4)" unfolding e ..
  also have "\<dots> = 1" unfolding root_exp_quarter using False assms by (intro fermat_gf) auto
  finally have "?g = 1 \<or> ?g = - 1" using power2_eq_iff [of ?g 1] by simp
  then show ?thesis unfolding root_candidate_square by auto
qed

text \<open>The point with a given second coordinate; at most two, which are negatives of each other.\<close>

lemma point_exists_iff: "(\<exists>P. px P = x \<and> py P = y) \<longleftrightarrow> y ^ 2 - x ^ 2 = 1 + ed_d * x ^ 2 * y ^ 2"
proof
  assume "\<exists>P. px P = x \<and> py P = y"
  then show "y ^ 2 - x ^ 2 = 1 + ed_d * x ^ 2 * y ^ 2" using point_on_curve by blast
next
  assume "y ^ 2 - x ^ 2 = 1 + ed_d * x ^ 2 * y ^ 2"
  then have "on_curve (x, y)" by (simp add: on_curve_def)
  then have "px (Abs_ed_point (x, y)) = x \<and> py (Abs_ed_point (x, y)) = y"
    by (simp add: px_def py_def Abs_ed_point_inverse)
  then show "\<exists>P. px P = x \<and> py P = y" by blast
qed

lemma ratio_defined: "ed_d * y ^ 2 + 1 \<noteq> 0"
proof
  assume e: "ed_d * y ^ 2 + 1 = 0"
  then have y: "y \<noteq> 0" by auto
  have "(sqrt_m1 / y) ^ 2 = ed_d" using e y by (simp add: power_divide sqrt_m1_square field_simps) algebra
  then show False using ed_d_nonsquare by blast
qed

lemma curve_ratio: "y ^ 2 - x ^ 2 = 1 + ed_d * x ^ 2 * y ^ 2 \<longleftrightarrow> y ^ 2 - 1 = x ^ 2 * (ed_d * y ^ 2 + 1)"
  by algebra

definition point_from :: "gf \<Rightarrow> nat \<Rightarrow> ed_point \<Rightarrow> bool" where
  "point_from y sign P \<longleftrightarrow> py P = y \<and> (px P = 0 \<or> gf_sign (px P) \<noteq> sign)"

definition coordinate :: "bytes \<Rightarrow> gf" where
  "coordinate s = of_int (le_int s mod 2 ^ 255)"

lemma gf_sign_minus: "x \<noteq> 0 \<Longrightarrow> gf_sign (- x) = 1 - gf_sign x"
proof -
  assume x: "x \<noteq> 0"
  have "0 < Rep_gf x" using x Rep_gf_bounds [of x] by (metis Rep_gf_inject le_less zero_gf.rep_eq)
  then have "Rep_gf (- x) = prime25519 - Rep_gf x"
    using Rep_gf_bounds [of x] by (simp add: uminus_gf.rep_eq zmod_zminus1_eq_if)
  moreover have "prime25519 mod 2 = 1" by (simp add: prime25519_def)
  ultimately have "Rep_gf (- x) mod 2 = 1 - Rep_gf x mod 2" by presburger
  then show ?thesis using pos_mod_bound [of 2 "Rep_gf x"] by (simp add: gf_sign_def nat_diff_distrib)
qed

text \<open>The sign that is set at the end, and the point that comes out.\<close>

lemma signed_point:
  assumes X: "fe_is 1 X x" and Y: "fe_is 1 Y y" and curve: "y ^ 2 - x ^ 2 = 1 + ed_d * x ^ 2 * y ^ 2" and "n \<le> 1"
  defines "X' \<equiv> if fe_isnegative X = n then fe_neg X else X"
  shows "\<exists>P. p3_is \<lparr>p3_X = X', p3_Y = Y, p3_Z = fe_1, p3_T = fe_mul X' Y\<rparr> P \<and> point_from y n P"
proof -
  have sign: "fe_isnegative X = gf_sign x" by (rule fe_is_negative [OF fe_is_weaken [OF X]]) simp
  define x' where "x' = (if gf_sign x = n then - x else x)"
  have X': "fe_is 1 X' x'" unfolding X'_def x'_def sign using X fe_is_neg [OF X] by simp
  have "y ^ 2 - x' ^ 2 = 1 + ed_d * x' ^ 2 * y ^ 2" using curve by (simp add: x'_def)
  then obtain P where P: "px P = x'" "py P = y" using point_exists_iff by blast
  have "x' = 0 \<or> gf_sign x' \<noteq> n"
    using gf_sign_minus [of x] gf_sign_le [of x] by (cases "x = 0"; cases "gf_sign x") (auto simp: x'_def)
  moreover have "fe_is 1 (fe_mul X' Y) (x' * y)" using fe_is_mul [OF X' Y] by simp
  ultimately show ?thesis
    using X' Y fe_is_1 P unfolding point_from_def p3_is_def by (intro exI [of _ P] conjI exI [of _ 1]) simp_all
qed

lemma top_bit_le: "unat (drop_bit 7 (b :: u8)) \<le> 1"
  by (rule all_bytes) code_simp

lemma ge_frombytes_cases:
  assumes "length s = 32"
  shows "case ge_frombytes_negate_vartime s of
      None \<Rightarrow> \<nexists>P. py P = coordinate s
    | Some h \<Rightarrow> \<exists>P. p3_is h P \<and> point_from (coordinate s) (unat (drop_bit 7 (s ! 31))) P"
proof -
  define y u v where "y = coordinate s" and "u = y ^ 2 - 1" and "v = ed_d * y ^ 2 + 1"
  define Y where "Y = fe_frombytes s"
  have Y: "fe_is 1 Y y" using fe_is_frombytes [OF assms] by (simp add: Y_def y_def coordinate_def)
  note one = fe_is_1
  define yy where "yy = fe_sq Y"
  have yy: "fe_is 1 yy (y ^ 2)" using fe_is_sq [OF Y] by (simp add: yy_def power2_eq_square)
  define U V where "U = fe_sub yy fe_1" and "V = fe_add (fe_mul yy fe_d) fe_1"
  have U: "fe_is 2 U u" using fe_is_sub [OF yy one] by (simp add: U_def u_def)
  have V: "fe_is 2 V v" using fe_is_add [OF fe_is_mul [OF yy fe_is_d] one] by (simp add: V_def v_def mult.commute)
  define V3 where "V3 = fe_mul (fe_sq V) V"
  have V3: "fe_is 1 V3 (v ^ 3)" using fe_is_mul [OF fe_is_sq [OF V] V] by (simp add: V3_def power3_eq_cube)
  define A where "A = fe_mul (fe_mul (fe_sq V3) V) U"
  have "fe_is 1 A (v ^ 3 * v ^ 3 * v * u)"
    unfolding A_def by (rule fe_is_mul [OF fe_is_mul [OF fe_is_sq [OF V3] V] U]) simp_all
  then have A: "fe_is 1 A (u * v ^ 7)" by (rule fe_is_eq) algebra
  define X where "X = fe_mul (fe_mul (fe_pow22523 A) V3) U"
  have X: "fe_is 1 X (root_candidate u v)"
    using fe_is_mul [OF fe_is_mul [OF fe_is_pow22523 [OF A] V3] U] by (simp add: X_def root_candidate_def root_exp_def)
  define W where "W = fe_mul (fe_sq X) V"
  let ?w = "v * root_candidate u v ^ 2"
  have W: "fe_is 1 W ?w" using fe_is_mul [OF fe_is_sq [OF X] V] by (simp add: W_def power2_eq_square mult_ac)
  have minus: "fe_isnonzero (fe_sub W U) \<longleftrightarrow> ?w \<noteq> u" and plus: "fe_isnonzero (fe_add W U) \<longleftrightarrow> ?w \<noteq> - u"
    using fe_is_nonzero [OF fe_is_sub [OF W U, simplified]] fe_is_nonzero [OF fe_is_add [OF W U, simplified]]
    by (simp_all add: eq_neg_iff_add_eq_0)
  define n where "n = unat (drop_bit 7 (s ! 31))"
  have n: "n \<le> 1" unfolding n_def by (rule top_bit_le)
  let ?signed = "\<lambda>X. if fe_isnegative X = n then fe_neg X else X"
  let ?result = "\<lambda>X. \<lparr>p3_X = X, p3_Y = Y, p3_Z = fe_1, p3_T = fe_mul X Y\<rparr>"
  have code: "ge_frombytes_negate_vartime s =
      (if fe_isnonzero (fe_sub W U) then
         if fe_isnonzero (fe_add W U) then None else Some (?result (?signed (fe_mul X fe_sqrtm1)))
       else Some (?result (?signed X)))"
    unfolding ge_frombytes_negate_vartime_def Let_def W_def X_def A_def V3_def U_def V_def yy_def Y_def n_def ..
  have v: "v \<noteq> 0" unfolding v_def by (rule ratio_defined)
  have curve: "y ^ 2 - x ^ 2 = 1 + ed_d * x ^ 2 * y ^ 2" if "v * x ^ 2 = u" for x
    using that unfolding curve_ratio u_def v_def by (simp add: mult.commute)
  consider (root) "?w = u" | (other) "?w \<noteq> u" "?w = - u" | (none) "?w \<noteq> u" "?w \<noteq> - u" by blast
  then show ?thesis
  proof cases
    case root
    then show ?thesis using signed_point [OF X Y curve n] by (simp add: code minus y_def [symmetric] n_def [symmetric])
  next
    case other
    have "fe_is 1 (fe_mul X fe_sqrtm1) (root_candidate u v * sqrt_m1)" using fe_is_mul [OF X fe_is_sqrtm1] by simp
    moreover have "v * (root_candidate u v * sqrt_m1) ^ 2 = u" using other(2) by (simp add: power_mult_distrib sqrt_m1_square)
    ultimately show ?thesis
      using signed_point [OF _ Y curve n] other by (simp add: code minus plus y_def [symmetric] n_def [symmetric])
  next
    case none
    have False if "py P = y" for P
    proof -
      have "u = (px P) ^ 2 * v"
        using point_on_curve [of P] unfolding that curve_ratio u_def v_def .
      from root_candidate_point [OF this] none show False by blast
    qed
    then show ?thesis using none by (auto simp: code minus plus y_def [symmetric])
  qed
qed

lemma top_bit_number: "length s = 32 \<Longrightarrow> int (unat (drop_bit 7 (s ! 31))) = le_int s div 2 ^ 255"
proof -
  assume len: "length s = 32"
  have s: "le_int s = le_int (take 31 s) + uint (s ! 31) * 2 ^ 248"
    using len le_int_append [of "take 31 s" "[s ! 31]"] take_Suc_conv_app_nth [of 31 s] by (simp add: le_int_Cons)
  have "0 \<le> le_int (take 31 s)" "le_int (take 31 s) < 2 ^ 248" using le_int_bounds [of "take 31 s"] len by simp_all
  then have "le_int s div 2 ^ 248 = uint (s ! 31)" unfolding s by simp
  then have "le_int s div (2 ^ 248 * 2 ^ 7) = uint (s ! 31) div 2 ^ 7" by (simp only: zdiv_zmult2_eq zero_le_power zero_le_numeral)
  moreover have "int (unat (drop_bit 7 b)) = uint b div 2 ^ 7" for b :: u8
    by (rule all_bytes) code_simp
  ultimately show ?thesis by simp
qed

lemma point_bytes_parts:
  "coordinate (point_bytes P) = py P" "unat (drop_bit 7 (point_bytes P ! 31)) = gf_sign (px P)"
proof -
  have b: "0 \<le> Rep_gf (py P)" "Rep_gf (py P) < 2 ^ 255"
    using Rep_gf_bounds [of "py P"] by (simp_all add: prime25519_def)
  have "point_number P mod 2 ^ 255 = Rep_gf (py P)" "point_number P div 2 ^ 255 = int (gf_sign (px P))"
    using b by (simp_all add: point_number_def)
  moreover have "int (unat (drop_bit 7 (point_bytes P ! 31))) = point_number P div 2 ^ 255"
    using top_bit_number [OF point_bytes_number(1), of P] unfolding point_bytes_number(2) .
  ultimately have "int (unat (drop_bit 7 (point_bytes P ! 31))) = int (gf_sign (px P))" by (simp only:)
  then show "unat (drop_bit 7 (point_bytes P ! 31)) = gf_sign (px P)" by (simp only: of_nat_eq_iff)
  show "coordinate (point_bytes P) = py P"
    using b by (simp add: coordinate_def point_bytes_number(2) point_number_def)
qed

lemma point_from_unique:
  assumes "point_from y n P" "point_from y n Q" "n \<le> 1"
  shows "P = Q"
proof (rule point_eqI)
  show y: "py P = py Q" using assms(1,2) by (simp add: point_from_def)
  have v: "ed_d * (py P) ^ 2 + 1 \<noteq> 0" by (rule ratio_defined)
  have "(px P) ^ 2 * (ed_d * (py P) ^ 2 + 1) = (px Q) ^ 2 * (ed_d * (py P) ^ 2 + 1)"
    using point_on_curve [of P] point_on_curve [of Q] unfolding y [symmetric] curve_ratio by (rule trans [OF sym])
  then have "(px P) ^ 2 = (px Q) ^ 2" using v by simp
  then have "px P = px Q \<or> px P = - px Q" by (simp add: power2_eq_iff)
  moreover have "px P = 0" if "px P = - px Q" "px Q \<noteq> 0"
    using assms that gf_sign_minus [of "px Q"] gf_sign_le [of "px Q"] unfolding point_from_def
    by (cases "gf_sign (px Q)") auto
  ultimately show "px P = px Q" by auto
qed

lemma ge_frombytes_point_bytes:
  "\<exists>h. ge_frombytes_negate_vartime (point_bytes P) = Some h \<and> p3_is h (- P)"
proof -
  note cases = ge_frombytes_cases [OF point_bytes_number(1), of P, unfolded point_bytes_parts]
  obtain h Q where h: "ge_frombytes_negate_vartime (point_bytes P) = Some h" "p3_is h Q"
      "point_from (py P) (gf_sign (px P)) Q"
    using cases by (auto split: option.splits)
  have "point_from (py P) (gf_sign (px P)) (- P)"
    using gf_sign_minus [of "px P"] gf_sign_le [of "px P"]
    by (cases "px P = 0"; cases "gf_sign (px P)") (auto simp: point_from_def)
  from point_from_unique [OF h(3) this gf_sign_le] h show ?thesis by blast
qed

section \<open>Properties\<close>

text \<open>C13: The additions of ge.c and the doubling compute the sum in the group of the curve, for all pairs of points,
  equal and opposite ones and the neutral element included.\<close>

theorem point_additions_exact:
  assumes "p3_is p P" "cached_is q Q" "precomp_is q' Q'"
  shows "p3_is (ge_p1p1_to_p3 (ge_add p q)) (P + Q) \<and> p3_is (ge_p1p1_to_p3 (ge_sub p q)) (P - Q) \<and>
    p3_is (ge_p1p1_to_p3 (ge_madd p q')) (P + Q') \<and> p3_is (ge_p1p1_to_p3 (ge_msub p q')) (P - Q') \<and>
    p3_is (ge_p1p1_to_p3 (ge_p3_dbl p)) (P + P)"
  using assms by (blast intro: p1p1_to_p3 ge_add_is ge_sub_is ge_madd_is ge_msub_is ge_p3_dbl_is)

lemma precomp_0: "precomp_is \<lparr>yplusx = fe_1, yminusx = fe_1, xy2d = fe_0\<rparr> 0"
  by (simp add: precomp_is_def fe_is_0 fe_is_1)

lemma point_additions_exact_witness:
  "p3_is (ge_p1p1_to_p3 (ge_add ge_p3_0 (ge_p3_to_cached ge_p3_0))) 0 \<and>
   p3_is (ge_p1p1_to_p3 (ge_msub ge_p3_0 \<lparr>yplusx = fe_1, yminusx = fe_1, xy2d = fe_0\<rparr>)) 0"
  using point_additions_exact [OF p3_is_0 p3_to_cached [OF p3_is_0] precomp_0] by simp

text \<open>C14: The 32 bytes that ge_p3_tobytes and ge_tobytes write for a point are read back as the negated
  point, and 32 bytes are refused exactly if no point of the curve has the second coordinate they hold.\<close>

theorem point_bytes_roundtrip:
  "(\<forall>p P. p3_is p P \<longrightarrow> (\<exists>h. ge_frombytes_negate_vartime (ge_p3_tobytes p) = Some h \<and> p3_is h (- P))) \<and>
   (\<forall>p P. p2_is p P \<longrightarrow> (\<exists>h. ge_frombytes_negate_vartime (ge_tobytes p) = Some h \<and> p3_is h (- P))) \<and>
   (\<forall>s. length s = 32 \<longrightarrow> (ge_frombytes_negate_vartime s = None \<longleftrightarrow> (\<nexists>P. py P = coordinate s)))"
proof (intro conjI allI impI)
  fix s :: bytes
  assume "length s = 32"
  from ge_frombytes_cases [OF this]
  show "ge_frombytes_negate_vartime s = None \<longleftrightarrow> (\<nexists>P. py P = coordinate s)"
    by (auto simp: point_from_def split: option.splits)
qed (simp_all only: ge_p3_tobytes_is ge_tobytes_is ge_frombytes_point_bytes)

lemma point_bytes_roundtrip_witness:
  "(\<exists>h. ge_frombytes_negate_vartime (ge_p3_tobytes ge_p3_0) = Some h \<and> p3_is h 0) \<and>
   (\<exists>h. ge_frombytes_negate_vartime (ge_tobytes ge_p2_0) = Some h \<and> p3_is h 0) \<and>
   (ge_frombytes_negate_vartime (replicate 32 0) = None \<longleftrightarrow> (\<nexists>P. py P = coordinate (replicate 32 0)))"
proof -
  note rt = point_bytes_roundtrip
  have "p3_is ge_p3_0 0 \<longrightarrow> (\<exists>h. ge_frombytes_negate_vartime (ge_p3_tobytes ge_p3_0) = Some h \<and> p3_is h (- 0))"
    "p2_is ge_p2_0 0 \<longrightarrow> (\<exists>h. ge_frombytes_negate_vartime (ge_tobytes ge_p2_0) = Some h \<and> p3_is h (- 0))"
    "length (replicate 32 (0 :: u8)) = 32 \<longrightarrow>
      (ge_frombytes_negate_vartime (replicate 32 0) = None \<longleftrightarrow> (\<nexists>P. py P = coordinate (replicate 32 0)))"
    using rt by blast+
  then show ?thesis using p3_is_0 p2_is_0 by simp
qed

end
