(* ===== verification/EdMult.thy ===== *)
theory EdMult
  imports EdPoint
begin

text \<open>
  Multiples of points in \<open>lib/ed25519/src/ge.c\<close>: the scalar in signed digits, and the two functions that
  multiply with it.  The tables \<open>base\<close> and \<open>Bi\<close> of \<open>precomp_data.h\<close> are arguments; what the functions need
  of them is \<open>base_ok\<close> and \<open>odd_multiples\<close>.
\<close>

section \<open>The code\<close>

type_synonym s8 = "8 word"

text \<open>\<open>slide\<close>: the bits of a number, and then odd digits up to 15 with zeros between them.\<close>

definition slide_bits :: "bytes \<Rightarrow> s8 list" where
  "slide_bits a = map (\<lambda>i. 1 AND drop_bit (i mod 8) (a ! (i div 8))) [0..<256]"

text \<open>The loop that adds 1 to the bits from \<open>k\<close> on.\<close>

function slide_carry :: "nat \<Rightarrow> s8 list \<Rightarrow> s8 list" where
  "slide_carry k r =
     (if k < 256 then
        if r ! k = 0 then r[k := 1] else slide_carry (k + 1) (r[k := 0])
      else r)"
  by auto
termination by (relation "measure (\<lambda>(k, r). 256 - k)") auto

declare slide_carry.simps [simp del]

text \<open>The loop over \<open>b\<close>, from \<open>b\<close> up to 6.\<close>

function slide_window :: "nat \<Rightarrow> nat \<Rightarrow> s8 list \<Rightarrow> s8 list" where
  "slide_window i b r =
     (if b \<le> 6 \<and> i + b < 256 then
        if r ! (i + b) \<noteq> 0 then
          (let x = sint (r ! i); y = push_bit b (sint (r ! (i + b))) in
           if x + y \<le> 15 then slide_window i (b + 1) (r[i := of_int (x + y), i + b := 0])
           else if x - y \<ge> -15 then slide_window i (b + 1) (slide_carry (i + b) (r[i := of_int (x - y)]))
           else r)
        else slide_window i (b + 1) r
      else r)"
  by auto
termination by (relation "measure (\<lambda>(i, b, r). 7 - b)") auto

declare slide_window.simps [simp del]

definition slide :: "bytes \<Rightarrow> s8 list" where
  "slide a = fold (\<lambda>i r. if r ! i \<noteq> 0 then slide_window i 1 r else r) [0..<256] (slide_bits a)"

text \<open>How many digits are left when the leading zeros of both numbers are skipped.\<close>

fun slide_top :: "s8 list \<Rightarrow> s8 list \<Rightarrow> nat \<Rightarrow> nat" where
  "slide_top a b 0 = 0"
| "slide_top a b (Suc i) = (if a ! i \<noteq> 0 \<or> b ! i \<noteq> 0 then Suc i else slide_top a b i)"

definition double_step :: "ge_precomp list \<Rightarrow> ge_cached list \<Rightarrow> s8 list \<Rightarrow> s8 list \<Rightarrow> nat \<Rightarrow> ge_p2 \<Rightarrow> ge_p2" where
  "double_step Bi Ai aslide bslide i r =
     (let t = ge_p2_dbl r;
          a = sint (aslide ! i);
          t = (if a > 0 then ge_add (ge_p1p1_to_p3 t) (Ai ! nat (a div 2))
               else if a < 0 then ge_sub (ge_p1p1_to_p3 t) (Ai ! nat ((- a) div 2))
               else t);
          b = sint (bslide ! i);
          t = (if b > 0 then ge_madd (ge_p1p1_to_p3 t) (Bi ! nat (b div 2))
               else if b < 0 then ge_msub (ge_p1p1_to_p3 t) (Bi ! nat ((- b) div 2))
               else t)
      in ge_p1p1_to_p2 t)"

text \<open>The table \<open>Ai\<close> of the odd multiples of \<open>A\<close>.\<close>

definition cached_multiples :: "ge_p3 \<Rightarrow> ge_cached list" where
  "cached_multiples A =
     (let next = (\<lambda>A2 c. ge_p3_to_cached (ge_p1p1_to_p3 (ge_add A2 c)));
          A0 = ge_p3_to_cached A;
          A2 = ge_p1p1_to_p3 (ge_p3_dbl A);
          A1 = next A2 A0;
          A3 = next A2 A1;
          A4 = next A2 A3;
          A5 = next A2 A4;
          A6 = next A2 A5;
          A7 = next A2 A6;
          A8 = next A2 A7
      in [A0, A1, A3, A4, A5, A6, A7, A8])"

definition ge_double_scalarmult_vartime :: "ge_precomp list \<Rightarrow> bytes \<Rightarrow> ge_p3 \<Rightarrow> bytes \<Rightarrow> ge_p2" where
  "ge_double_scalarmult_vartime Bi a A b =
     (let aslide = slide a;
          bslide = slide b;
          Ai = cached_multiples A
      in fold (double_step Bi Ai aslide bslide) (rev [0..<slide_top aslide bslide 256]) ge_p2_0)"

text \<open>Comparisons without branches, and the choice of a table entry with them.\<close>

definition ge_equal :: "s8 \<Rightarrow> s8 \<Rightarrow> u8" where
  "ge_equal b c =
     (let x = b XOR c;
          y = (ucast x :: u64);
          y = y - 1;
          y = drop_bit 63 y
      in ucast y)"

definition ge_negative :: "s8 \<Rightarrow> u8" where
  "ge_negative b = (let x = (scast b :: u64); x = drop_bit 63 x in ucast x)"

definition ge_cmov :: "ge_precomp \<Rightarrow> ge_precomp \<Rightarrow> u8 \<Rightarrow> ge_precomp" where
  "ge_cmov t u b =
     \<lparr>yplusx = fe_cmov (yplusx t) (yplusx u) (ucast b), yminusx = fe_cmov (yminusx t) (yminusx u) (ucast b),
      xy2d = fe_cmov (xy2d t) (xy2d u) (ucast b)\<rparr>"

definition ge_select :: "ge_precomp list list \<Rightarrow> nat \<Rightarrow> s8 \<Rightarrow> ge_precomp" where
  "ge_select base pos b =
     (let bnegative = ge_negative b;
          babs = (ucast (scast b - push_bit 1 ((- (ucast bnegative)) AND scast b) :: s32) :: u8);
          t = \<lparr>yplusx = fe_1, yminusx = fe_1, xy2d = fe_0\<rparr>;
          t = ge_cmov t (base ! pos ! 0) (ge_equal babs 1);
          t = ge_cmov t (base ! pos ! 1) (ge_equal babs 2);
          t = ge_cmov t (base ! pos ! 2) (ge_equal babs 3);
          t = ge_cmov t (base ! pos ! 3) (ge_equal babs 4);
          t = ge_cmov t (base ! pos ! 4) (ge_equal babs 5);
          t = ge_cmov t (base ! pos ! 5) (ge_equal babs 6);
          t = ge_cmov t (base ! pos ! 6) (ge_equal babs 7);
          t = ge_cmov t (base ! pos ! 7) (ge_equal babs 8);
          minust = \<lparr>yplusx = fe_copy (yminusx t), yminusx = fe_copy (yplusx t), xy2d = fe_neg (xy2d t)\<rparr>
      in ge_cmov t minust bnegative)"

text \<open>The scalar in digits between -8 and 8.\<close>

definition nibbles :: "bytes \<Rightarrow> s8 list" where
  "nibbles a = concat (map (\<lambda>b. [drop_bit 0 b AND 15, drop_bit 4 b AND 15]) a)"

definition recode_step :: "nat \<Rightarrow> s8 list \<times> s8 \<Rightarrow> s8 list \<times> s8" where
  "recode_step i = (\<lambda>(e, carry).
     let e = e[i := e ! i + carry];
         carry = e ! i + 8;
         carry = signed_drop_bit 4 carry
     in (e[i := e ! i - push_bit 4 carry], carry))"

definition recode :: "bytes \<Rightarrow> s8 list" where
  "recode a =
     (let (e, carry) = fold recode_step [0..<63] (nibbles a, 0)
      in e[63 := e ! 63 + carry])"

definition add_selected :: "ge_precomp list list \<Rightarrow> s8 list \<Rightarrow> nat \<Rightarrow> ge_p3 \<Rightarrow> ge_p3" where
  "add_selected base e i h =
     (let t = ge_select base (i div 2) (e ! i) in ge_p1p1_to_p3 (ge_madd h t))"

definition ge_scalarmult_base :: "ge_precomp list list \<Rightarrow> bytes \<Rightarrow> ge_p3" where
  "ge_scalarmult_base base a =
     (let e = recode a;
          h = ge_p3_0;
          h = fold (add_selected base e) (map (\<lambda>k. 2 * k + 1) [0..<32]) h;
          r = ge_p3_dbl h;
          s = ge_p1p1_to_p2 r;
          r = ge_p2_dbl s;
          s = ge_p1p1_to_p2 r;
          r = ge_p2_dbl s;
          s = ge_p1p1_to_p2 r;
          r = ge_p2_dbl s;
          h = ge_p1p1_to_p3 r
      in fold (add_selected base e) (map (\<lambda>k. 2 * k) [0..<32]) h)"

section \<open>Multiples in a commutative group\<close>

primrec nat_times :: "nat \<Rightarrow> 'a::ab_group_add \<Rightarrow> 'a" where
  "nat_times 0 P = 0"
| "nat_times (Suc n) P = P + nat_times n P"

definition smul :: "int \<Rightarrow> 'a::ab_group_add \<Rightarrow> 'a" where
  "smul k P = (if 0 \<le> k then nat_times (nat k) P else - nat_times (nat (- k)) P)"

lemma nat_times_0 [simp]: "nat_times n 0 = 0"
  by (induction n) simp_all

lemma smul_0 [simp]: "smul 0 P = 0"
  by (simp add: smul_def)

lemma smul_0_right [simp]: "smul k 0 = 0"
  by (simp add: smul_def)

lemma smul_plus_one: "smul (k + 1) P = smul k P + P"
proof (cases "0 \<le> k")
  case True
  then have "nat (k + 1) = Suc (nat k)" by simp
  then show ?thesis using True by (simp add: smul_def add.commute)
next
  case False
  then have "nat (- k) = Suc (nat (- (k + 1)))" by simp
  then show ?thesis using False by (auto simp: smul_def algebra_simps)
qed

lemma smul_add: "smul (a + b) P = smul a P + smul b P"
proof (induction b rule: int_induct [where k = 0])
  case (step1 i)
  then show ?case using smul_plus_one [of "a + i" P] smul_plus_one [of i P] by (simp add: add.assoc)
next
  case (step2 i)
  then show ?case using smul_plus_one [of "a + (i - 1)" P] smul_plus_one [of "i - 1" P] by (simp add: algebra_simps)
qed simp

lemma smul_1 [simp]: "smul 1 P = P"
  using smul_plus_one [of 0 P] by simp

lemma smul_minus: "smul (- k) P = - smul k P"
  using smul_add [of k "- k" P] by (simp add: add_eq_0_iff)

lemma smul_diff: "smul (a - b) P = smul a P - smul b P"
  using smul_add [of a "- b" P] by (simp add: smul_minus)

lemma smul_mult: "smul (a * b) P = smul a (smul b P)"
proof (induction a rule: int_induct [where k = 0])
  case (step1 i)
  then show ?case by (simp add: distrib_right smul_add)
next
  case (step2 i)
  then show ?case by (simp add: left_diff_distrib smul_diff)
qed simp

lemma smul_distrib: "smul k (P + Q) = smul k P + smul k Q"
proof (induction k rule: int_induct [where k = 0])
  case (step1 i)
  then show ?case by (simp add: smul_add algebra_simps)
next
  case (step2 i)
  then show ?case by (simp add: smul_diff algebra_simps)
qed simp

lemma smul_neg: "smul k (- P) = - smul k P"
  using minus_unique [of "smul k P" "smul k (- P)"] smul_distrib [of k P "- P"] by simp

lemma smul_2: "smul 2 P = P + P"
  using smul_add [of 1 1 P] by simp

lemma smul_mod: "smul n P = 0 \<Longrightarrow> smul (k mod n) P = smul k P"
  using smul_add [of "k div n * n" "k mod n" P] smul_mult [of "k div n" n P] by simp

section \<open>The digits of \<open>slide\<close>\<close>

definition is_bit :: "s8 \<Rightarrow> bool" where "is_bit x \<longleftrightarrow> x = 0 \<or> x = 1"

definition digits_sum :: "nat \<Rightarrow> nat \<Rightarrow> s8 list \<Rightarrow> int" where
  "digits_sum i j r = (\<Sum>k\<in>{i..<j}. sint (r ! k) * 2 ^ k)"

lemma digits_sum_split: "i \<le> j \<Longrightarrow> j \<le> k \<Longrightarrow> digits_sum i k r = digits_sum i j r + digits_sum j k r"
  unfolding digits_sum_def by (rule sum.atLeastLessThan_concat [symmetric])

lemma digits_sum_cong: "(\<And>k. i \<le> k \<Longrightarrow> k < j \<Longrightarrow> r ! k = r' ! k) \<Longrightarrow> digits_sum i j r = digits_sum i j r'"
  unfolding digits_sum_def by (rule sum.cong) auto

lemma digits_sum_step: "i < j \<Longrightarrow> digits_sum i j r = sint (r ! i) * 2 ^ i + digits_sum (Suc i) j r"
  unfolding digits_sum_def by (rule sum.atLeast_Suc_lessThan)

lemma digits_sum_empty [simp]: "digits_sum i i r = 0"
  by (simp add: digits_sum_def)

lemma digits_sum_zero: "(\<And>k. i \<le> k \<Longrightarrow> k < j \<Longrightarrow> r ! k = 0) \<Longrightarrow> digits_sum i j r = 0"
  unfolding digits_sum_def by (rule sum.neutral) auto

lemma digits_sum_nonneg: "(\<And>k. i \<le> k \<Longrightarrow> k < j \<Longrightarrow> is_bit (r ! k)) \<Longrightarrow> 0 \<le> digits_sum i j r"
  unfolding digits_sum_def is_bit_def by (rule sum_nonneg) fastforce

lemma digits_sum_ge: "(\<And>k. i \<le> k \<Longrightarrow> k < j \<Longrightarrow> is_bit (r ! k)) \<Longrightarrow> i \<le> m \<Longrightarrow> m < j \<Longrightarrow> r ! m \<noteq> 0 \<Longrightarrow> 2 ^ m \<le> digits_sum i j r"
proof -
  assume bits: "\<And>k. i \<le> k \<Longrightarrow> k < j \<Longrightarrow> is_bit (r ! k)" and m: "i \<le> m" "m < j" "r ! m \<noteq> 0"
  have "digits_sum i j r = digits_sum i m r + (sint (r ! m) * 2 ^ m + digits_sum (Suc m) j r)"
    using digits_sum_split [of i m j r] digits_sum_step [of m j r] m by simp
  moreover have "0 \<le> digits_sum i m r" "0 \<le> digits_sum (Suc m) j r"
    using bits m by (auto intro!: digits_sum_nonneg)
  moreover have "r ! m = 1" using bits [of m] m by (simp add: is_bit_def)
  ultimately show ?thesis by simp
qed

text \<open>Adding 1 at a bit, when there is a zero above to end the carries.\<close>

lemma slide_carry_spec:
  assumes "length r = 256" "k \<le> m" "m < 256" "r ! m = 0" "\<And>j. k \<le> j \<Longrightarrow> j < 256 \<Longrightarrow> is_bit (r ! j)"
  shows "length (slide_carry k r) = 256 \<and> (\<forall>j<k. slide_carry k r ! j = r ! j) \<and>
    (\<forall>j. k \<le> j \<longrightarrow> j < 256 \<longrightarrow> is_bit (slide_carry k r ! j)) \<and>
    digits_sum k 256 (slide_carry k r) = digits_sum k 256 r + 2 ^ k"
  using assms
proof (induction k r rule: slide_carry.induct)
  case (1 k r)
  have k: "k < 256" using "1.prems" by simp
  show ?case
  proof (cases "r ! k = 0")
    case True
    have "digits_sum (Suc k) 256 (r[k := 1]) = digits_sum (Suc k) 256 r" by (rule digits_sum_cong) simp
    then show ?thesis
      using True k "1.prems" by (auto simp: slide_carry.simps [of k r] digits_sum_step [OF k] nth_list_update is_bit_def)
  next
    case False
    let ?r = "r[k := 0]"
    have one: "r ! k = 1" using False "1.prems"(5) [of k] k by (simp add: is_bit_def)
    have "m \<noteq> k" using False "1.prems"(4) by auto
    then have IH: "length (slide_carry (k + 1) ?r) = 256" "\<forall>j<k + 1. slide_carry (k + 1) ?r ! j = ?r ! j"
      "\<forall>j. k + 1 \<le> j \<longrightarrow> j < 256 \<longrightarrow> is_bit (slide_carry (k + 1) ?r ! j)"
      "digits_sum (k + 1) 256 (slide_carry (k + 1) ?r) = digits_sum (k + 1) 256 ?r + 2 ^ (k + 1)"
      using "1.IH" [OF k False] "1.prems" by auto
    have same: "digits_sum (Suc k) 256 ?r = digits_sum (Suc k) 256 r" by (rule digits_sum_cong) simp
    have run: "slide_carry k r = slide_carry (k + 1) ?r" using k False by (simp add: slide_carry.simps [of k r])
    have zero: "slide_carry (k + 1) ?r ! k = 0" using IH(2) k "1.prems"(1) by simp
    have "is_bit (slide_carry (k + 1) ?r ! j)" if "k \<le> j" "j < 256" for j
      using that IH(3) zero by (cases "j = k") (auto simp: is_bit_def)
    moreover have "digits_sum k 256 (slide_carry (k + 1) ?r) = digits_sum k 256 r + 2 ^ k"
      using IH(4) same one zero by (simp add: digits_sum_step [OF k])
    ultimately show ?thesis unfolding run using IH(1,2) by auto
  qed
qed

text \<open>
  The loop over \<open>b\<close> at a position \<open>i\<close>: it collects four bits; if the next bit is set, 16 is subtracted
  and carried.  After that nothing changes any more.
\<close>

definition window_inv :: "int \<Rightarrow> s8 list \<Rightarrow> nat \<Rightarrow> nat \<Rightarrow> s8 list \<Rightarrow> bool" where
  "window_inv A p i b r \<longleftrightarrow>
     length r = 256 \<and> i < 256 \<and> 1 \<le> b \<and> b \<le> 5 \<and> take i r = p \<and> digits_sum i 256 r = A \<and>
     (\<forall>k. i < k \<longrightarrow> k < 256 \<longrightarrow> is_bit (r ! k)) \<and> odd (sint (r ! i)) \<and>
     (if b \<le> 4 then 1 \<le> sint (r ! i) \<and> sint (r ! i) < 2 ^ b \<and> (\<forall>k. i < k \<longrightarrow> k < i + b \<longrightarrow> k < 256 \<longrightarrow> r ! k = 0)
        \<and> (i + 4 < 256 \<longrightarrow> (\<exists>m. i + 4 \<le> m \<and> m < 256 \<and> r ! m = 0))
      else \<bar>sint (r ! i)\<bar> \<le> 15 \<and> (0 < sint (r ! i) \<or> (\<forall>k. i < k \<longrightarrow> k < i + 4 \<longrightarrow> k < 256 \<longrightarrow> r ! k = 0)))"

lemma window_end:
  assumes "5 \<le> b" "\<bar>sint (r ! i)\<bar> \<le> 15" "\<And>k. i < k \<Longrightarrow> k < 256 \<Longrightarrow> is_bit (r ! k)"
  shows "slide_window i b r = r"
  using assms
proof (induction i b r rule: slide_window.induct)
  case (1 i b r)
  have y: "push_bit b (sint (r ! (i + b))) \<ge> 32" if "i + b < 256" "r ! (i + b) \<noteq> 0"
  proof -
    have "r ! (i + b) = 1" using "1.prems"(1) "1.prems"(3) [of "i + b"] that by (simp add: is_bit_def)
    moreover have "(2 :: int) ^ 5 \<le> 2 ^ b" using "1.prems"(1) by (intro power_increasing) auto
    ultimately show ?thesis by (simp add: push_bit_eq_mult)
  qed
  show ?case
    using "1.IH"(3) "1.prems" y by (auto simp: slide_window.simps [of i b r] Let_def)
qed

lemma sint_s8: "- 128 \<le> k \<Longrightarrow> k < 128 \<Longrightarrow> sint (of_int k :: s8) = k"
  by (simp add: sint_sbintrunc' signed_take_bit_int_eq_self_iff)

lemma digits_sum_update:
  assumes "i < 256" "length r = 256" "- 128 \<le> x" "x < 128"
  shows "digits_sum i 256 (r[i := of_int x]) = digits_sum i 256 r + (x - sint (r ! i)) * 2 ^ i"
proof -
  have "digits_sum (Suc i) 256 (r[i := of_int x]) = digits_sum (Suc i) 256 r" by (rule digits_sum_cong) simp
  then show ?thesis
    using assms sint_s8 [of x] by (simp add: digits_sum_step [of i] left_diff_distrib)
qed

lemma window_skip:
  assumes "window_inv A p i b r" "b \<le> 4" "i + b < 256 \<Longrightarrow> r ! (i + b) = 0"
  shows "window_inv A p i (b + 1) r"
proof -
  have "(2 :: int) ^ b \<le> 2 ^ 4" using assms(2) by (intro power_increasing) auto
  moreover have "r ! k = 0" if "i < k" "k < i + (b + 1)" "k < 256" for k
    using assms that by (cases "k = i + b") (auto simp: window_inv_def)
  moreover have "sint (r ! i) < 2 ^ (b + 1)" "sint (r ! i) \<le> 15" "1 \<le> sint (r ! i)"
    using assms(1,2) calculation(1) by (auto simp: window_inv_def)
  ultimately show ?thesis using assms(1,2) unfolding window_inv_def by auto
qed

lemma window_add:
  assumes "window_inv A p i b r" "b \<le> 3" "i + b < 256" "r ! (i + b) = 1"
  shows "window_inv A p i (b + 1) (r[i := of_int (sint (r ! i) + 2 ^ b), i + b := 0])"
proof -
  let ?x = "sint (r ! i)"
  let ?r = "r[i := of_int (?x + 2 ^ b)]"
  have inv: "length r = 256" "i < 256" "1 \<le> b" "take i r = p" "digits_sum i 256 r = A" "odd ?x"
    "\<And>k. i < k \<Longrightarrow> k < 256 \<Longrightarrow> is_bit (r ! k)" "1 \<le> ?x" "?x < 2 ^ b" "\<And>k. i < k \<Longrightarrow> k < i + b \<Longrightarrow> k < 256 \<Longrightarrow> r ! k = 0"
    "i + 4 < 256 \<Longrightarrow> \<exists>m. i + 4 \<le> m \<and> m < 256 \<and> r ! m = 0"
    using assms(1,2) unfolding window_inv_def by simp_all
  have le: "(2 :: int) ^ b \<le> 2 ^ 3" using assms(2) by (intro power_increasing) auto
  have x: "sint (of_int (?x + 2 ^ b) :: s8) = ?x + 2 ^ b" using inv(8,9) le by (intro sint_s8) auto
  have sum: "digits_sum i 256 (?r[i + b := 0]) = A"
  proof -
    have split: "digits_sum i 256 s = digits_sum i (i + b) s + (sint (s ! (i + b)) * 2 ^ (i + b) + digits_sum (Suc (i + b)) 256 s)" for s
      using digits_sum_split [of i "i + b" 256 s] digits_sum_step [of "i + b" 256 s] assms(3) by simp
    have "digits_sum i (i + b) (?r[i + b := 0]) = digits_sum i (i + b) ?r" "digits_sum (Suc (i + b)) 256 (?r[i + b := 0]) = digits_sum (Suc (i + b)) 256 ?r"
      by (rule digits_sum_cong; simp)+
    moreover have "digits_sum i 256 ?r = A + 2 ^ b * 2 ^ i"
      using digits_sum_update [of i r "?x + 2 ^ b"] inv le by simp
    ultimately show ?thesis
      using split [of "?r[i + b := 0]"] split [of ?r] inv(1,3) assms(3,4) by (simp add: power_add)
  qed
  have "odd (?x + 2 ^ b)" using inv(3,6) by simp
  moreover have "take i (?r[i + b := 0]) = p" using inv(4) by simp
  moreover have "is_bit (?r[i + b := 0] ! k)" if "i < k" "k < 256" for k
    using inv(7) [OF that] inv(1) that by (cases "k = i + b") (simp_all add: is_bit_def)
  moreover have "?r[i + b := 0] ! k = 0" if "i < k" "k < i + (b + 1)" "k < 256" for k
    using inv(10) [of k] inv(1) that by (cases "k = i + b") simp_all
  moreover have "i + 4 < 256 \<Longrightarrow> \<exists>m. i + 4 \<le> m \<and> m < 256 \<and> ?r[i + b := 0] ! m = 0"
  proof -
    assume "i + 4 < 256"
    then obtain m where "i + 4 \<le> m" "m < 256" "r ! m = 0" using inv(11) by blast
    then show "\<exists>m. i + 4 \<le> m \<and> m < 256 \<and> ?r[i + b := 0] ! m = 0"
      using assms(2) by (intro exI [of _ m]) simp
  qed
  ultimately show ?thesis
    using assms(2) inv(1,2,3,8,9) x sum unfolding window_inv_def by simp
qed

lemma window_subtract:
  assumes "window_inv A p i 4 r" "i + 4 < 256" "r ! (i + 4) = 1"
  shows "window_inv A p i 5 (slide_carry (i + 4) (r[i := of_int (sint (r ! i) - 16)]))"
proof -
  let ?x = "sint (r ! i)"
  let ?r = "r[i := of_int (?x - 16)]"
  let ?s = "slide_carry (i + 4) ?r"
  have inv: "length r = 256" "i < 256" "take i r = p" "digits_sum i 256 r = A" "odd ?x"
    "\<And>k. i < k \<Longrightarrow> k < 256 \<Longrightarrow> is_bit (r ! k)" "1 \<le> ?x" "?x < 16" "\<And>k. i < k \<Longrightarrow> k < i + 4 \<Longrightarrow> k < 256 \<Longrightarrow> r ! k = 0"
    using assms(1) unfolding window_inv_def by simp_all
  obtain m where m: "i + 4 \<le> m" "m < 256" "r ! m = 0" using assms(1,2) unfolding window_inv_def by auto
  have x: "sint (of_int (?x - 16) :: s8) = ?x - 16" using inv(7,8) by (intro sint_s8) auto
  have s: "length ?s = 256" "\<And>j. j < i + 4 \<Longrightarrow> ?s ! j = ?r ! j" "\<And>j. i + 4 \<le> j \<Longrightarrow> j < 256 \<Longrightarrow> is_bit (?s ! j)"
    "digits_sum (i + 4) 256 ?s = digits_sum (i + 4) 256 ?r + 2 ^ (i + 4)"
    using slide_carry_spec [of ?r "i + 4" m] m inv(1,6) by auto
  have "digits_sum i (i + 4) ?s = digits_sum i (i + 4) ?r" by (rule digits_sum_cong) (use s(2) in simp)
  then have sum: "digits_sum i 256 ?s = A"
    using digits_sum_split [of i "i + 4" 256 ?s] digits_sum_split [of i "i + 4" 256 ?r] s(4) assms(2)
      digits_sum_update [of i r "?x - 16"] inv by (simp add: power_add)
  have "take i ?s = p"
    using inv(1,2,3) s(1,2) by (intro nth_equalityI) auto
  moreover have "is_bit (?s ! k)" if "i < k" "k < 256" for k
    using inv(6) [OF that] s(2) [of k] s(3) [of k] inv(1) that by (cases "k < i + 4") auto
  moreover have "?s ! i = of_int (?x - 16)" using s(2) [of i] inv(1,2) by simp
  moreover have "?s ! k = 0" if "i < k" "k < i + 4" "k < 256" for k
    using inv(9) [OF that] s(2) [of k] that inv(1) by simp
  ultimately show ?thesis
    using s(1) sum inv(2,5,7,8) x unfolding window_inv_def by auto
qed

lemma window_result:
  "window_inv A p i b r \<Longrightarrow> window_inv A p i 5 (slide_window i b r)"
proof (induction i b r rule: slide_window.induct)
  case (1 i b r)
  note inv = "1.prems"
  have basic: "i < 256" "1 \<le> b" "b \<le> 5" "\<And>k. i < k \<Longrightarrow> k < 256 \<Longrightarrow> is_bit (r ! k)"
    using inv unfolding window_inv_def by simp_all
  show ?case
  proof (cases "b = 5")
    case True
    then have "\<bar>sint (r ! i)\<bar> \<le> 15" using inv by (simp add: window_inv_def)
    then have "slide_window i b r = r" using True basic(4) by (intro window_end) simp_all
    then show ?thesis using inv True by simp
  next
    case False
    then have b: "b \<le> 4" using basic(3) by simp
    let ?x = "sint (r ! i)"
    have x: "1 \<le> ?x" "?x < 2 ^ b" using inv b by (simp_all add: window_inv_def)
    consider (stop) "256 \<le> i + b" | (zero) "i + b < 256" "r ! (i + b) = 0" | (one) "i + b < 256" "r ! (i + b) = 1"
      using basic(2) basic(4) [of "i + b"] by (fastforce simp: is_bit_def)
    then show ?thesis
    proof cases
      case stop
      then have "slide_window i b r = r" by (simp add: slide_window.simps [of i b r])
      moreover have "(2 :: int) ^ b \<le> 2 ^ 4" using b by (intro power_increasing) auto
      then have "?x \<le> 15" using x(2) by simp
      ultimately show ?thesis using inv b x unfolding window_inv_def by auto
    next
      case zero
      then have run: "slide_window i b r = slide_window i (b + 1) r" using b by (simp add: slide_window.simps [of i b r])
      have "window_inv A p i (b + 1) r" using window_skip [OF inv b] zero by blast
      then show ?thesis unfolding run using "1.IH"(3) b zero by simp
    next
      case one
      then have nz: "r ! (i + b) \<noteq> 0" and sb: "push_bit b (sint (r ! (i + b))) = 2 ^ b" by simp_all
      show ?thesis
      proof (cases "b \<le> 3")
        case True
        have "(2 :: int) ^ b \<le> 2 ^ 3" using True by (intro power_increasing) auto
        then have le: "?x + 2 ^ b \<le> 15" using x by simp
        have run: "slide_window i b r = slide_window i (b + 1) (r[i := of_int (?x + 2 ^ b), i + b := 0])"
          using b one nz le by (simp add: slide_window.simps [of i b r] sb Let_def)
        show ?thesis
          unfolding run using "1.IH"(1) [OF _ nz refl refl] b one(1) le window_add [OF inv True one] by (simp add: sb)
      next
        case False
        then have b4: "b = 4" using b by simp
        have gt: "\<not> ?x + 2 ^ b \<le> 15" "- 15 \<le> ?x - 2 ^ b" using x b4 by simp_all
        have run: "slide_window i b r = slide_window i (b + 1) (slide_carry (i + b) (r[i := of_int (?x - 2 ^ b)]))"
          using b one nz gt by (simp add: slide_window.simps [of i b r] sb Let_def)
        show ?thesis
          unfolding run using "1.IH"(2) [OF _ nz refl refl] b one(1) gt window_subtract [of A p i r] inv one b4 by (simp add: sb)
      qed
    qed
  qed
qed

definition digit_ok :: "s8 \<Rightarrow> bool" where
  "digit_ok x \<longleftrightarrow> x = 0 \<or> odd (sint x) \<and> \<bar>sint x\<bar> \<le> 15"

definition slide_inv :: "int \<Rightarrow> nat \<Rightarrow> s8 list \<Rightarrow> bool" where
  "slide_inv A i r \<longleftrightarrow>
     length r = 256 \<and> (\<forall>k. i \<le> k \<longrightarrow> k < 256 \<longrightarrow> is_bit (r ! k)) \<and> (\<forall>k<i. digit_ok (r ! k)) \<and> digits_sum 0 256 r = A \<and>
     (\<exists>w. i \<le> w \<and> (\<forall>k. i \<le> k \<longrightarrow> k < w \<longrightarrow> k < 256 \<longrightarrow> r ! k = 0) \<and> - (2 ^ w) < digits_sum 0 i r)"

lemma slide_step:
  assumes "slide_inv A i r" "i < 256" "A < 2 ^ 253"
  shows "slide_inv A (Suc i) (if r ! i \<noteq> 0 then slide_window i 1 r else r)"
proof -
  have inv: "length r = 256" "\<And>k. i \<le> k \<Longrightarrow> k < 256 \<Longrightarrow> is_bit (r ! k)" "\<And>k. k < i \<Longrightarrow> digit_ok (r ! k)"
    "digits_sum 0 256 r = A"
    using assms(1) unfolding slide_inv_def by simp_all
  obtain w where w: "i \<le> w" "\<And>k. i \<le> k \<Longrightarrow> k < w \<Longrightarrow> k < 256 \<Longrightarrow> r ! k = 0" "- (2 ^ w) < digits_sum 0 i r"
    using assms(1) unfolding slide_inv_def by blast
  have split: "digits_sum 0 256 s = digits_sum 0 i s + digits_sum i 256 s" for s
    using assms(2) by (intro digits_sum_split) auto
  have nxt: "digits_sum 0 (Suc i) s = digits_sum 0 i s + sint (s ! i) * 2 ^ i" for s
    by (simp add: digits_sum_def)
  show ?thesis
  proof (cases "r ! i = 0")
    case True
    have "(2 :: int) ^ w \<le> 2 ^ max w (Suc i)" by (rule power_increasing) simp_all
    moreover have "digits_sum 0 (Suc i) r = digits_sum 0 i r" using True by (simp add: nxt)
    ultimately have "- (2 ^ max w (Suc i)) < digits_sum 0 (Suc i) r"
      using w(3) by linarith
    moreover have "r ! k = 0" if "Suc i \<le> k" "k < max w (Suc i)" "k < 256" for k
      using w(2) [of k] that by simp
    moreover have "digit_ok (r ! k)" if "k < Suc i" for k
      using inv(3) [of k] True that by (cases "k = i") (auto simp: digit_ok_def)
    ultimately show ?thesis
      using True inv unfolding slide_inv_def by (auto intro!: exI [of _ "max w (Suc i)"])
  next
    case False
    then have one: "r ! i = 1" using inv(2) [of i] assms(2) by (simp add: is_bit_def)
    have "w = i" using w(1) w(2) [of i] False assms(2) by (cases "w = i") auto
    then have low: "- (2 ^ i) < digits_sum 0 i r" using w(3) by simp
    have top: "r ! 255 = 0" if "i + 4 < 256"
    proof (rule ccontr)
      assume "r ! 255 \<noteq> 0"
      then have "2 ^ 255 \<le> digits_sum i 256 r" using inv(2) that by (intro digits_sum_ge [where m = 255]) auto
      moreover have "(2 :: int) ^ i \<le> 2 ^ 251" using that by (intro power_increasing) auto
      ultimately show False using low split [of r] inv(4) assms(3) by simp
    qed
    have start: "window_inv (digits_sum i 256 r) (take i r) i 1 r"
      using inv(1,2) assms(2) one top unfolding window_inv_def by (auto intro!: exI [of _ 255])
    define s where "s = slide_window i 1 r"
    have s: "length s = 256" "take i s = take i r" "digits_sum i 256 s = digits_sum i 256 r"
      "\<And>k. i < k \<Longrightarrow> k < 256 \<Longrightarrow> is_bit (s ! k)" "odd (sint (s ! i))" "\<bar>sint (s ! i)\<bar> \<le> 15"
      "0 < sint (s ! i) \<or> (\<forall>k. i < k \<longrightarrow> k < i + 4 \<longrightarrow> k < 256 \<longrightarrow> s ! k = 0)"
      using window_result [OF start] unfolding s_def [symmetric] window_inv_def by simp_all
    have below: "s ! k = r ! k" if "k < i" for k
      using s(2) that by (metis nth_take)
    have same: "digits_sum 0 i s = digits_sum 0 i r" by (rule digits_sum_cong) (use below in auto)
    have "digit_ok (s ! k)" if "k < Suc i" for k
      using inv(3) [of k] below [of k] s(5,6) that by (cases "k = i") (auto simp: digit_ok_def)
    moreover have "digits_sum 0 256 s = A" using split [of s] split [of r] same s(3) inv(4) by simp
    moreover have "\<exists>w. Suc i \<le> w \<and> (\<forall>k. Suc i \<le> k \<longrightarrow> k < w \<longrightarrow> k < 256 \<longrightarrow> s ! k = 0) \<and> - (2 ^ w) < digits_sum 0 (Suc i) s"
    proof (cases "0 < sint (s ! i)")
      case True
      then have "0 < sint (s ! i) * 2 ^ i" by simp
      then have "- (2 ^ Suc i) < digits_sum 0 (Suc i) s"
        unfolding nxt same power_Suc using low zero_less_power [of "2 :: int" i] by linarith
      then show ?thesis by (intro exI [of _ "Suc i"]) simp
    next
      case False
      have "- 15 * 2 ^ i \<le> sint (s ! i) * 2 ^ i" using s(6) by (intro mult_right_mono) auto
      then have "- (2 ^ (i + 4)) < digits_sum 0 (Suc i) s" using low by (simp add: nxt same power_add)
      then show ?thesis using False s(7) by (intro exI [of _ "i + 4"]) (auto simp: Suc_le_eq)
    qed
    ultimately show ?thesis
      using False s(1,4) unfolding slide_inv_def s_def [symmetric] by (auto simp: Suc_le_eq)
  qed
qed

lemma slide_steps:
  "slide_inv A 0 r \<Longrightarrow> A < 2 ^ 253 \<Longrightarrow> n \<le> 256 \<Longrightarrow>
    slide_inv A n (fold (\<lambda>i r. if r ! i \<noteq> 0 then slide_window i 1 r else r) [0..<n] r)"
proof (induction n)
  case (Suc n)
  then show ?case using slide_step [of A n] by simp
qed simp

lemma sint_slide_bit: "sint (1 AND drop_bit n (b :: u8)) = of_bool (bit b n)"
  by (simp add: one_and_eq mod_2_eq_odd bit_iff_odd_drop_bit)

lemma slide_bits_inv:
  assumes "length a = 32"
  shows "slide_inv (le_int a) 0 (slide_bits a)"
proof -
  have "is_bit (slide_bits a ! k)" if "k < 256" for k
    using that by (simp add: slide_bits_def is_bit_def one_and_eq mod_2_eq_odd)
  moreover have "digits_sum 0 256 (slide_bits a) = (\<Sum>k = 0..<256. push_bit k (of_bool (bit (le_int a) k)))"
    unfolding digits_sum_def
    by (rule sum.cong) (auto simp: slide_bits_def sint_slide_bit bit_le_int assms push_bit_eq_mult)
  then have "digits_sum 0 256 (slide_bits a) = le_int a"
    using le_int_bounds [of a] assms by (simp add: take_bit_sum [symmetric] take_bit_int_eq_self)
  ultimately show ?thesis
    unfolding slide_inv_def by (auto simp: slide_bits_def)
qed

lemma slide_spec:
  assumes "length a = 32" "le_int a < 2 ^ 253"
  shows "length (slide a) = 256" "\<And>k. k < 256 \<Longrightarrow> digit_ok (slide a ! k)" "digits_sum 0 256 (slide a) = le_int a"
  using slide_steps [OF slide_bits_inv [OF assms(1)] assms(2), of 256]
  unfolding slide_def [symmetric] slide_inv_def by simp_all

section \<open>Sums of two multiples\<close>

definition odd_multiples :: "ge_precomp list \<Rightarrow> ed_point \<Rightarrow> bool" where
  "odd_multiples Bi B \<longleftrightarrow> (\<forall>j<8. precomp_is (Bi ! j) (smul (2 * int j + 1) B))"

lemma odd_digit:
  assumes "digit_ok x" "sint x \<noteq> 0"
  shows "nat (\<bar>sint x\<bar> div 2) < 8" "2 * int (nat (\<bar>sint x\<bar> div 2)) + 1 = \<bar>sint x\<bar>"
  using assms by (auto simp: digit_ok_def elim!: oddE)

lemma smul_abs: "sint x < 0 \<Longrightarrow> T + smul (sint x) A = T - smul \<bar>sint x\<bar> A"
  using smul_minus [of "\<bar>sint x\<bar>" A] by simp

lemma cached_digit:
  assumes "p1p1_is t T" "digit_ok x" "\<And>j. j < 8 \<Longrightarrow> cached_is (Ai ! j) (smul (2 * int j + 1) A)"
  shows "p1p1_is (if sint x > 0 then ge_add (ge_p1p1_to_p3 t) (Ai ! nat (sint x div 2))
               else if sint x < 0 then ge_sub (ge_p1p1_to_p3 t) (Ai ! nat ((- sint x) div 2)) else t) (T + smul (sint x) A)"
proof -
  have "cached_is (Ai ! nat (\<bar>sint x\<bar> div 2)) (smul \<bar>sint x\<bar> A)" if "sint x \<noteq> 0"
    using assms(3) odd_digit [OF assms(2) that] by metis
  then show ?thesis
    using ge_add_is [OF p1p1_to_p3 [OF assms(1)]] ge_sub_is [OF p1p1_to_p3 [OF assms(1)]] assms(1)
    by (cases "sint x" "0 :: int" rule: linorder_cases) (auto simp: smul_abs)
qed

lemma precomp_digit:
  assumes "p1p1_is t T" "digit_ok x" "odd_multiples Bi B"
  shows "p1p1_is (if sint x > 0 then ge_madd (ge_p1p1_to_p3 t) (Bi ! nat (sint x div 2))
               else if sint x < 0 then ge_msub (ge_p1p1_to_p3 t) (Bi ! nat ((- sint x) div 2)) else t) (T + smul (sint x) B)"
proof -
  have "precomp_is (Bi ! nat (\<bar>sint x\<bar> div 2)) (smul \<bar>sint x\<bar> B)" if "sint x \<noteq> 0"
    using assms(3) odd_digit [OF assms(2) that] unfolding odd_multiples_def by metis
  then show ?thesis
    using ge_madd_is [OF p1p1_to_p3 [OF assms(1)]] ge_msub_is [OF p1p1_to_p3 [OF assms(1)]] assms(1)
    by (cases "sint x" "0 :: int" rule: linorder_cases) (auto simp: smul_abs)
qed

lemma double_step_is:
  assumes "p2_is r R" "digit_ok (aslide ! i)" "digit_ok (bslide ! i)"
    "\<And>j. j < 8 \<Longrightarrow> cached_is (Ai ! j) (smul (2 * int j + 1) A)" "odd_multiples Bi B"
  shows "p2_is (double_step Bi Ai aslide bslide i r) (R + R + smul (sint (aslide ! i)) A + smul (sint (bslide ! i)) B)"
  unfolding double_step_def Let_def
  by (intro p1p1_to_p2 precomp_digit cached_digit ge_p2_dbl_is assms)

lemma cached_multiples_is:
  assumes "p3_is p A" "j < 8"
  shows "cached_is (cached_multiples p ! j) (smul (2 * int j + 1) A)"
proof -
  have two: "p3_is (ge_p1p1_to_p3 (ge_p3_dbl p)) (smul 2 A)"
    using p1p1_to_p3 [OF ge_p3_dbl_is [OF assms(1)]] by (simp add: smul_2)
  have zero: "cached_is (ge_p3_to_cached p) (smul 1 A)" using p3_to_cached [OF assms(1)] by simp
  have step: "cached_is (ge_p3_to_cached (ge_p1p1_to_p3 (ge_add (ge_p1p1_to_p3 (ge_p3_dbl p)) c))) (smul (k + 2) A)"
    if "cached_is c (smul k A)" for c k
    using p3_to_cached [OF p1p1_to_p3 [OF ge_add_is [OF two that]]] by (simp add: smul_add [symmetric] add.commute)
  note c3 = step [OF zero] and c5 = step [OF step [OF zero]] and c7 = step [OF step [OF step [OF zero]]]
  note c9 = step [OF c7] and c11 = step [OF step [OF c7]] and c13 = step [OF step [OF step [OF c7]]]
  note c15 = step [OF c13]
  have "j = 0 \<or> j = 1 \<or> j = 2 \<or> j = 3 \<or> j = 4 \<or> j = 5 \<or> j = 6 \<or> j = 7" using assms(2) by auto
  then show ?thesis
    using zero c3 c5 c7 c9 c11 c13 c15 unfolding cached_multiples_def Let_def by (elim disjE) simp_all
qed

definition digits_from :: "nat \<Rightarrow> s8 list \<Rightarrow> int" where
  "digits_from k r = (\<Sum>j\<in>{k..<256}. sint (r ! j) * 2 ^ (j - k))"

lemma digits_from_step: "k < 256 \<Longrightarrow> digits_from k r = sint (r ! k) + 2 * digits_from (Suc k) r"
proof -
  assume k: "k < 256"
  have "(\<Sum>j\<in>{Suc k..<256}. sint (r ! j) * 2 ^ (j - k)) = (\<Sum>j\<in>{Suc k..<256}. 2 * (sint (r ! j) * 2 ^ (j - Suc k)))"
  proof (rule sum.cong)
    fix j
    assume "j \<in> {Suc k..<256}"
    then have "j - k = Suc (j - Suc k)" by auto
    then show "sint (r ! j) * 2 ^ (j - k) = 2 * (sint (r ! j) * 2 ^ (j - Suc k))" by simp
  qed simp
  then show ?thesis
    using sum.atLeast_Suc_lessThan [OF k, of "\<lambda>j. sint (r ! j) * 2 ^ (j - k)"]
    by (simp add: digits_from_def sum_distrib_left)
qed

lemma slide_top_zeros: "slide_top a b m \<le> m \<and> (\<forall>k. slide_top a b m \<le> k \<longrightarrow> k < m \<longrightarrow> a ! k = 0 \<and> b ! k = 0)"
  by (induction m) (auto simp: less_Suc_eq le_SucI)

lemma smul_double_add: "smul (x + 2 * d) P = smul x P + (smul d P + smul d P)"
  by (simp only: smul_add mult_2)

lemma double_loop:
  assumes "\<And>k. k < 256 \<Longrightarrow> digit_ok (as ! k)" "\<And>k. k < 256 \<Longrightarrow> digit_ok (bs ! k)"
    "\<And>j. j < 8 \<Longrightarrow> cached_is (Ai ! j) (smul (2 * int j + 1) A)" "odd_multiples Bi B"
  shows "n \<le> 256 \<Longrightarrow> p2_is r (smul (digits_from n as) A + smul (digits_from n bs) B) \<Longrightarrow>
    p2_is (fold (double_step Bi Ai as bs) (rev [0..<n]) r) (smul (digits_from 0 as) A + smul (digits_from 0 bs) B)"
proof (induction n arbitrary: r)
  case (Suc n)
  let ?R = "smul (digits_from (Suc n) as) A + smul (digits_from (Suc n) bs) B"
  have "?R + ?R + smul (sint (as ! n)) A + smul (sint (bs ! n)) B = smul (digits_from n as) A + smul (digits_from n bs) B"
    using Suc.prems(1) by (simp add: digits_from_step [of n] smul_double_add add_ac)
  moreover have "p2_is (double_step Bi Ai as bs n r) (?R + ?R + smul (sint (as ! n)) A + smul (sint (bs ! n)) B)"
    using Suc.prems assms by (intro double_step_is) auto
  ultimately show ?case using Suc.IH Suc.prems(1) by simp
qed simp

lemma double_scalarmult_is:
  assumes "p3_is p A" "odd_multiples Bi B" "length a = 32" "length b = 32" "le_int a < 2 ^ 253" "le_int b < 2 ^ 253"
  shows "p2_is (ge_double_scalarmult_vartime Bi a p b) (smul (le_int a) A + smul (le_int b) B)"
proof -
  let ?n = "slide_top (slide a) (slide b) 256"
  have n: "?n \<le> 256" "\<And>k. ?n \<le> k \<Longrightarrow> k < 256 \<Longrightarrow> slide a ! k = 0 \<and> slide b ! k = 0"
    using slide_top_zeros [of "slide a" "slide b" 256] by auto
  have "digits_from ?n (slide a) = 0" "digits_from ?n (slide b) = 0"
    unfolding digits_from_def using n(2) by (auto intro!: sum.neutral)
  then have "p2_is ge_p2_0 (smul (digits_from ?n (slide a)) A + smul (digits_from ?n (slide b)) B)"
    by (simp add: p2_is_0)
  from double_loop [OF slide_spec(2) [OF assms(3,5)] slide_spec(2) [OF assms(4,6)] cached_multiples_is [OF assms(1)] assms(2) n(1) this]
  show ?thesis
    using slide_spec(3) [OF assms(3,5)] slide_spec(3) [OF assms(4,6)]
    by (simp add: ge_double_scalarmult_vartime_def Let_def digits_from_def digits_sum_def)
qed

section \<open>Digits between -8 and 8\<close>

lemma uint_drop_bit: "uint (drop_bit n w) = uint w div 2 ^ n" for w :: "'a::len word"
  unfolding unsigned_drop_bit_eq by (simp add: drop_bit_eq_div take_bit_int_eq_self uint_bounded)

lemma low_nibble: "sint (b AND 15 :: u8) = uint b mod 16"
proof -
  have "b AND 15 = take_bit 4 b" by (simp add: take_bit_eq_mask mask_eq_exp_minus_1)
  then have "uint (b AND 15) = take_bit 4 (uint b)" by (simp only: unsigned_take_bit_eq)
  then have "uint (b AND 15) = uint b mod 16" by (simp add: take_bit_eq_mod)
  moreover have "- 128 \<le> uint b mod 16" "uint b mod 16 < 128"
    using pos_mod_bound [of 16 "uint b"] pos_mod_sign [of 16 "uint b"] by linarith+
  ultimately show ?thesis by (simp add: sint_uint signed_take_bit_int_eq_self_iff)
qed

lemma two_digits:
  fixes x :: int
  shows "0 \<le> x \<Longrightarrow> x < 256 \<Longrightarrow> x mod 16 + 16 * (x div 16 mod 16) = x" "0 \<le> x \<Longrightarrow> x \<le> 127 \<Longrightarrow> x div 16 mod 16 \<le> 7"
proof -
  have trivial: "x div 16 mod 16 = x div 16" if "0 \<le> x" "x < 256"
  proof (rule mod_pos_pos_trivial)
    show "x div 16 < 16" using that mult_div_mod_eq [of 16 x] pos_mod_sign [of 16 x] by linarith
  qed (use that in \<open>simp add: pos_imp_zdiv_nonneg_iff\<close>)
  then show "0 \<le> x \<Longrightarrow> x < 256 \<Longrightarrow> x mod 16 + 16 * (x div 16 mod 16) = x" by simp
  show "x div 16 mod 16 \<le> 7" if "0 \<le> x" "x \<le> 127"
    using trivial that mult_div_mod_eq [of 16 x] pos_mod_sign [of 16 x] by linarith
qed

lemma nibble_values: "sint (drop_bit 0 (b :: u8) AND 15) + 16 * sint (drop_bit 4 b AND 15) = uint b"
  "0 \<le> sint (drop_bit 0 b AND 15)" "sint (drop_bit 0 b AND 15) < 16"
  "0 \<le> sint (drop_bit 4 b AND 15)" "sint (drop_bit 4 b AND 15) < 16"
proof -
  have "uint b < 256" using uint_bounded [of b] by simp
  then show "sint (drop_bit 0 b AND 15) + 16 * sint (drop_bit 4 b AND 15) = uint b"
    using two_digits(1) [of "uint b"] by (simp add: low_nibble uint_drop_bit)
qed (simp_all add: low_nibble)

lemma length_nibbles [simp]: "length (nibbles a) = 2 * length a"
  by (induction a) (simp_all add: nibbles_def)

lemma nibbles_value: "horner_sum sint 16 (nibbles a) = le_int a"
proof (induction a)
  case (Cons b a)
  have "nibbles (b # a) = [drop_bit 0 b AND 15, drop_bit 4 b AND 15] @ nibbles a" by (simp add: nibbles_def)
  then have "horner_sum sint 16 (nibbles (b # a)) =
      sint (drop_bit 0 b AND 15) + 16 * sint (drop_bit 4 b AND 15) + 256 * horner_sum sint 16 (nibbles a)"
    by simp
  then show ?case unfolding nibble_values(1) Cons le_int_Cons .
qed (simp add: nibbles_def)

lemma nth_nibbles: "i < length a \<Longrightarrow> nibbles a ! (2 * i + 1) = drop_bit 4 (a ! i) AND 15"
proof (induction a arbitrary: i)
  case (Cons b a)
  then show ?case by (cases i) (simp_all add: nibbles_def)
qed simp

lemma top_nibble: "b \<le> 127 \<Longrightarrow> sint (drop_bit 4 (b :: u8) AND 15) \<le> 7"
proof -
  assume "b \<le> 127"
  then have "uint b \<le> 127" by (simp add: word_le_def)
  then show ?thesis using two_digits(2) [of "uint b"] by (simp add: low_nibble uint_drop_bit)
qed

lemma nibbles_range: "x \<in> set (nibbles a) \<Longrightarrow> 0 \<le> sint x \<and> sint x < 16"
  using nibble_values(2-5) unfolding nibbles_def by auto

text \<open>One step of the loop, for every digit and carry that it can meet.\<close>

definition recode_digit_ok :: "nat \<Rightarrow> s8 \<Rightarrow> bool" where
  "recode_digit_ok n c =
     (let x = word_of_nat n; y = x + c; k = signed_drop_bit 4 (y + 8); z = y - push_bit 4 k
      in (k = 0 \<or> k = 1) \<and> - 8 \<le> sint z \<and> sint z \<le> 8 \<and> sint x + sint c = sint z + 16 * sint k)"

lemma recode_digits_ok: "list_all (\<lambda>n. recode_digit_ok n 0 \<and> recode_digit_ok n 1) [0..<16]"
  by code_simp

lemma recode_digit:
  fixes x c :: s8
  assumes "0 \<le> sint x" "sint x < 16" "c = 0 \<or> c = 1"
  defines "k \<equiv> signed_drop_bit 4 (x + c + 8)"
  shows "k = 0 \<or> k = 1" "- 8 \<le> sint (x + c - push_bit 4 k)" "sint (x + c - push_bit 4 k) \<le> 8"
    "sint x + sint c = sint (x + c - push_bit 4 k) + 16 * sint k"
proof -
  have "word_of_nat (nat (sint x)) = x" using assms(1) by (simp add: of_nat_nat)
  moreover have "nat (sint x) \<in> set [0..<16]" using assms(1,2) by simp
  ultimately have "recode_digit_ok (nat (sint x)) c"
    using recode_digits_ok assms(3) unfolding list_all_iff by blast
  then show "k = 0 \<or> k = 1" "- 8 \<le> sint (x + c - push_bit 4 k)" "sint (x + c - push_bit 4 k) \<le> 8"
    "sint x + sint c = sint (x + c - push_bit 4 k) + 16 * sint k"
    unfolding recode_digit_ok_def Let_def \<open>word_of_nat (nat (sint x)) = x\<close> k_def by simp_all
qed

definition digits16 :: "nat \<Rightarrow> s8 list \<Rightarrow> int" where
  "digits16 n e = (\<Sum>i<n. sint (e ! i) * 16 ^ i)"

lemma digits16_Suc: "digits16 (Suc n) e = digits16 n e + sint (e ! n) * 16 ^ n"
  by (simp add: digits16_def)

lemma digits16_update: "n \<le> i \<Longrightarrow> digits16 n (e[i := x]) = digits16 n e"
  unfolding digits16_def by (rule sum.cong) auto

definition recode_inv :: "s8 list \<Rightarrow> nat \<Rightarrow> s8 list \<times> s8 \<Rightarrow> bool" where
  "recode_inv s i = (\<lambda>(e, c).
     length e = 64 \<and> (c = 0 \<or> c = 1) \<and> (\<forall>k<i. - 8 \<le> sint (e ! k) \<and> sint (e ! k) \<le> 8) \<and>
     (\<forall>k. i \<le> k \<longrightarrow> e ! k = s ! k) \<and> digits16 i e + sint c * 16 ^ i = digits16 i s)"

lemma recode_step_inv:
  assumes "recode_inv s i (e, c)" "i < 63" "length s = 64" "\<And>x. x \<in> set s \<Longrightarrow> 0 \<le> sint x \<and> sint x < 16"
  shows "recode_inv s (Suc i) (recode_step i (e, c))"
proof -
  have inv: "length e = 64" "c = 0 \<or> c = 1" "\<And>k. k < i \<Longrightarrow> - 8 \<le> sint (e ! k) \<and> sint (e ! k) \<le> 8"
    "\<And>k. i \<le> k \<Longrightarrow> e ! k = s ! k" "digits16 i e + sint c * 16 ^ i = digits16 i s"
    using assms(1) unfolding recode_inv_def by simp_all
  let ?k = "signed_drop_bit 4 (s ! i + c + 8)"
  let ?z = "s ! i + c - push_bit 4 ?k"
  have run: "recode_step i (e, c) = (e[i := ?z], ?k)"
    using inv(1,4) assms(2) by (simp add: recode_step_def Let_def)
  have "s ! i \<in> set s" using assms(2,3) by simp
  then have x: "0 \<le> sint (s ! i)" "sint (s ! i) < 16" using assms(4) by blast+
  note d = recode_digit [OF x inv(2)]
  have "digits16 (Suc i) (e[i := ?z]) + sint ?k * 16 ^ Suc i = digits16 i e + (sint ?z + 16 * sint ?k) * 16 ^ i"
    using inv(1) assms(2) by (simp add: digits16_Suc digits16_update algebra_simps)
  also have "\<dots> = digits16 (Suc i) s"
    using inv(5) unfolding d(4) [symmetric] by (simp add: digits16_Suc algebra_simps)
  finally show ?thesis
    unfolding run recode_inv_def using inv d(1-3) assms(2) by (auto simp: nth_list_update less_Suc_eq)
qed

lemma recode_loop:
  assumes "length s = 64" "\<And>x. x \<in> set s \<Longrightarrow> 0 \<le> sint x \<and> sint x < 16"
  shows "n \<le> 63 \<Longrightarrow> recode_inv s n (fold recode_step [0..<n] (s, 0))"
proof (induction n)
  case 0
  then show ?case using assms(1) by (simp add: recode_inv_def digits16_def)
next
  case (Suc n)
  then show ?case
    using recode_step_inv [OF _ _ assms, of n] by (cases "fold recode_step [0..<n] (s, 0)") simp
qed

lemma recode_spec:
  assumes "length a = 32" "a ! 31 \<le> 127"
  shows "\<And>i. i < 64 \<Longrightarrow> - 8 \<le> sint (recode a ! i) \<and> sint (recode a ! i) \<le> 8" "digits16 64 (recode a) = le_int a"
proof -
  let ?s = "nibbles a"
  obtain e c where run: "fold recode_step [0..<63] (?s, 0) = (e, c)" by fastforce
  have "recode_inv ?s 63 (e, c)"
    using recode_loop [of ?s 63] assms(1) nibbles_range unfolding run by simp
  then have inv: "length e = 64" "c = 0 \<or> c = 1" "\<And>k. k < 63 \<Longrightarrow> - 8 \<le> sint (e ! k) \<and> sint (e ! k) \<le> 8"
    "e ! 63 = ?s ! 63" "digits16 63 e + sint c * 16 ^ 63 = digits16 63 ?s"
    unfolding recode_inv_def by simp_all
  have "?s ! 63 = drop_bit 4 (a ! 31) AND 15"
    using nth_nibbles [of 31 a] assms(1) by simp
  then have top: "0 \<le> sint (e ! 63)" "sint (e ! 63) \<le> 7"
    using nibble_values(4) [of "a ! 31"] top_nibble [of "a ! 31"] assms(2) inv(4) by simp_all
  have "sint (of_int (sint (e ! 63) + sint c) :: s8) = sint (e ! 63) + sint c"
    using top inv(2) by (intro sint_s8) auto
  then have sum: "sint (e ! 63 + c) = sint (e ! 63) + sint c" "sint (c + e ! 63) = sint (e ! 63) + sint c"
    by (simp_all add: add.commute)
  have rec: "recode a = e[63 := e ! 63 + c]" by (simp add: recode_def run)
  show "- 8 \<le> sint (recode a ! i) \<and> sint (recode a ! i) \<le> 8" if "i < 64" for i
    using inv(1-3) that top sum unfolding rec by (cases "i = 63") auto
  have "digits16 64 (recode a) = digits16 63 e + sint c * 16 ^ 63 + sint (e ! 63) * 16 ^ 63"
    using inv(1) digits16_Suc [of 63] unfolding rec by (simp add: sum digits16_update algebra_simps)
  also have "\<dots> = digits16 64 ?s" unfolding inv(4,5) using digits16_Suc [of 63 ?s] by simp
  also have "\<dots> = le_int a"
    using nibbles_value [of a] assms(1) unfolding horner_sum_eq_sum by (simp add: digits16_def atLeast0LessThan)
  finally show "digits16 64 (recode a) = le_int a" .
qed

section \<open>The choice of a table entry\<close>

definition select_ok :: "int \<Rightarrow> bool" where
  "select_ok k =
     (let b = word_of_int k :: s8; n = (if k < 0 then 1 else 0 :: u8)
      in ge_negative b = n \<and> (ucast (scast b - push_bit 1 ((- (ucast n)) AND scast b) :: s32) :: u8) = word_of_int \<bar>k\<bar>)"

lemma select_digits: "list_all select_ok [- 8..8]"
  by code_simp

lemma select_bytes:
  assumes "- 8 \<le> sint b" "sint b \<le> 8"
  shows "ge_negative b = (if sint b < 0 then 1 else 0)"
    "(ucast (scast b - push_bit 1 ((- (ucast (if sint b < 0 then 1 else 0 :: u8))) AND scast b) :: s32) :: u8) = word_of_int \<bar>sint b\<bar>"
proof -
  have "select_ok (sint b)" using select_digits assms unfolding list_all_iff set_upto by simp
  then show "ge_negative b = (if sint b < 0 then 1 else 0)"
    "(ucast (scast b - push_bit 1 ((- (ucast (if sint b < 0 then 1 else 0 :: u8))) AND scast b) :: s32) :: u8) = word_of_int \<bar>sint b\<bar>"
    unfolding select_ok_def Let_def of_int_sint scast_id by blast+
qed

lemma ge_equal_select: "ge_equal b c = (if b = c then 1 else 0)"
proof -
  have "drop_bit 63 ((ucast x :: u64) - 1) = (if x = 0 then 1 else 0)" for x :: u8
  proof (cases "x = 0")
    case True
    then show ?thesis by simp
  next
    case False
    then have "1 \<le> uint x" using uint_0_iff [of x] uint_ge_0 [of x] by linarith
    moreover have "uint x < 256" using uint_bounded [of x] by simp
    ultimately have "uint ((ucast x :: u64) - 1) = uint x - 1" by (simp add: uint_sub_if' unsigned_ucast_eq take_bit_int_eq_self)
    then have "uint (drop_bit 63 ((ucast x :: u64) - 1)) = 0"
      using \<open>uint x < 256\<close> \<open>1 \<le> uint x\<close> by (simp add: uint_drop_bit)
    then show ?thesis using False by (simp add: uint_0_iff)
  qed
  moreover have "b XOR c = 0 \<longleftrightarrow> b = c" using xor.assoc [of b c c] by auto
  ultimately show ?thesis by (simp add: ge_equal_def Let_def)
qed

lemma ge_cmov_is:
  assumes "precomp_is t P" "precomp_is u Q"
  shows "precomp_is (ge_cmov t u (if c then 1 else 0)) (if c then Q else P)"
proof -
  have "length (yplusx t) = 10" "length (yminusx t) = 10" "length (xy2d t) = 10"
    "length (yplusx u) = 10" "length (yminusx u) = 10" "length (xy2d u) = 10"
    using assms by (auto simp: precomp_is_def intro: fe_is_length)
  then show ?thesis using assms by (simp add: precomp_is_def ge_cmov_def fe_cmov_select)
qed

lemma precomp_neg:
  assumes "precomp_is t P"
  shows "precomp_is \<lparr>yplusx = fe_copy (yminusx t), yminusx = fe_copy (yplusx t), xy2d = fe_neg (xy2d t)\<rparr> (- P)"
proof -
  have t: "fe_is 1 (yplusx t) (py P + px P)" "fe_is 1 (yminusx t) (py P - px P)" "fe_is 1 (xy2d t) (2 * ed_d * px P * py P)"
    using assms by (auto simp: precomp_is_def)
  show ?thesis
    using t fe_is_neg [OF t(3)] by (simp add: precomp_is_def fe_is_copy [OF t(1)] fe_is_copy [OF t(2)])
qed

lemma ge_select_is:
  assumes "\<And>j. j < 8 \<Longrightarrow> precomp_is (base ! pos ! j) (smul (int j + 1) P)" "- 8 \<le> sint b" "sint b \<le> 8"
  shows "precomp_is (ge_select base pos b) (smul (sint b) P)"
proof -
  let ?x = "word_of_int \<bar>sint b\<bar> :: u8"
  define Q where "Q = (if ?x = 8 then smul 8 P else if ?x = 7 then smul 7 P else if ?x = 6 then smul 6 P
    else if ?x = 5 then smul 5 P else if ?x = 4 then smul 4 P else if ?x = 3 then smul 3 P
    else if ?x = 2 then smul 2 P else if ?x = 1 then smul 1 P else 0)"
  have row: "precomp_is (base ! pos ! 0) (smul 1 P)" "precomp_is (base ! pos ! 1) (smul 2 P)"
    "precomp_is (base ! pos ! 2) (smul 3 P)" "precomp_is (base ! pos ! 3) (smul 4 P)"
    "precomp_is (base ! pos ! 4) (smul 5 P)" "precomp_is (base ! pos ! 5) (smul 6 P)"
    "precomp_is (base ! pos ! 6) (smul 7 P)" "precomp_is (base ! pos ! 7) (smul 8 P)"
    using assms(1) [of 0] assms(1) [of 1] assms(1) [of 2] assms(1) [of 3] assms(1) [of 4] assms(1) [of 5]
      assms(1) [of 6] assms(1) [of 7] by simp_all
  have "\<bar>sint b\<bar> \<in> {0..8}" using assms(2,3) by auto
  also have "{0..8 :: int} = {0, 1, 2, 3, 4, 5, 6, 7, 8}" by auto
  finally have Q: "Q = smul \<bar>sint b\<bar> P" unfolding Q_def by (elim insertE emptyE) (simp_all only:, simp_all)
  have sign: "(if sint b < 0 then - Q else Q) = smul (sint b) P"
    unfolding Q using smul_minus [of "\<bar>sint b\<bar>" P] by (cases "sint b < 0") simp_all
  show ?thesis
    unfolding ge_select_def Let_def select_bytes [OF assms(2,3)] ge_equal_select sign [symmetric] Q_def
    by (intro ge_cmov_is precomp_neg row precomp_0)
qed

section \<open>Multiples of the base point\<close>

definition base_ok :: "ge_precomp list list \<Rightarrow> ed_point \<Rightarrow> bool" where
  "base_ok base B \<longleftrightarrow> (\<forall>i<32. \<forall>j<8. precomp_is (base ! i ! j) (smul ((int j + 1) * 256 ^ i) B))"

lemma add_selected_is:
  assumes "base_ok base B" "p3_is h H" "i < 64" "- 8 \<le> sint (e ! i)" "sint (e ! i) \<le> 8"
  shows "p3_is (add_selected base e i h) (H + smul (sint (e ! i) * 256 ^ (i div 2)) B)"
proof -
  have "precomp_is (base ! (i div 2) ! j) (smul (int j + 1) (smul (256 ^ (i div 2)) B))" if "j < 8" for j
    using assms(1,3) that by (simp add: base_ok_def smul_mult)
  from ge_select_is [where base = base and pos = "i div 2", OF this assms(4,5)]
  show ?thesis
    unfolding add_selected_def Let_def smul_mult by (intro p1p1_to_p3 ge_madd_is assms(2))
qed

lemma add_selected_loop:
  assumes "base_ok base B" "c < 2" "\<And>i. i < 64 \<Longrightarrow> - 8 \<le> sint (e ! i) \<and> sint (e ! i) \<le> 8"
  shows "n \<le> 32 \<Longrightarrow> p3_is h H \<Longrightarrow>
    p3_is (fold (add_selected base e) (map (\<lambda>k. 2 * k + c) [0..<n]) h)
      (H + smul (\<Sum>k<n. sint (e ! (2 * k + c)) * 256 ^ k) B)"
proof (induction n)
  case (Suc n)
  have "(2 * n + c) div 2 = n" using assms(2) by simp
  then show ?case
    using add_selected_is [OF assms(1) Suc.IH, of "2 * n + c" e] Suc.prems assms(2,3) by (simp add: smul_add add.assoc)
qed simp

lemma digits16_pairs: "digits16 (2 * n) e = (\<Sum>k<n. sint (e ! (2 * k)) * 256 ^ k) + 16 * (\<Sum>k<n. sint (e ! (2 * k + 1)) * 256 ^ k)"
proof (induction n)
  case (Suc n)
  have "(16 :: int) ^ (2 * n) = 256 ^ n" by (simp add: power_mult)
  moreover have "digits16 (2 * Suc n) e = digits16 (2 * n) e + sint (e ! (2 * n)) * 16 ^ (2 * n) + 16 * (sint (e ! (2 * n + 1)) * 16 ^ (2 * n))"
    by (simp add: digits16_Suc)
  ultimately show ?case using Suc.IH by (simp add: algebra_simps)
qed (simp add: digits16_def)

lemma ge_scalarmult_base_is:
  assumes "base_ok base B" "length a = 32" "a ! 31 \<le> 127"
  shows "p3_is (ge_scalarmult_base base a) (smul (le_int a) B)"
proof -
  let ?e = "recode a"
  let ?odd = "\<Sum>k<32. sint (?e ! (2 * k + 1)) * 256 ^ k" and ?even = "\<Sum>k<32. sint (?e ! (2 * k)) * 256 ^ k"
  note digits = recode_spec(1) [OF assms(2,3)]
  have double: "smul m B + smul m B = smul (2 * m) B" for m by (simp only: smul_add mult_2)
  have "p3_is (fold (add_selected base ?e) (map (\<lambda>k. 2 * k + 1) [0..<32]) ge_p3_0) (smul ?odd B)"
    using add_selected_loop [OF assms(1) _ digits _ p3_is_0, where c = 1 and n = 32] by simp
  note p1p1_to_p3 [OF ge_p2_dbl_is [OF p1p1_to_p2 [OF ge_p2_dbl_is [OF p1p1_to_p2 [OF ge_p2_dbl_is [OF p1p1_to_p2 [OF ge_p3_dbl_is [OF this]]]]]]]]
  note add_selected_loop [OF assms(1) _ digits _ this, where c = 0 and n = 32, unfolded double]
  moreover have "2 * (2 * (2 * (2 * ?odd))) + ?even = le_int a"
    using recode_spec(2) [OF assms(2,3)] digits16_pairs [of 32 ?e] by simp
  ultimately show ?thesis
    by (simp add: ge_scalarmult_base_def Let_def flip: smul_add)
qed

end
