(* ===== verification/EdTable.thy ===== *)
theory EdTable
  imports EdMult
begin

text \<open>
  The table \<open>Bi\<close> of \<open>lib/ed25519/src/precomp_data.h\<close>, with which signatures are verified, holds the
  odd multiples of the base point up to the fifteenth.  The coordinates of the points are given, and
  every addition in the chain is checked on integers modulo the prime.
\<close>

section \<open>The table\<close>

definition Bi :: "ge_precomp list" where
  "Bi = [
    \<lparr>yplusx = [25967493, -14356035, 29566456, 3660896, -12694345, 4014787, 27544626, -11754271, -6079156, 2047605],
     yminusx = [-12545711, 934262, -2722910, 3049990, -727428, 9406986, 12720692, 5043384, 19500929, -15469378],
     xy2d = [-8738181, 4489570, 9688441, -14785194, 10184609, -12363380, 29287919, 11864899, -24514362, -4438546]\<rparr>,
    \<lparr>yplusx = [15636291, -9688557, 24204773, -7912398, 616977, -16685262, 27787600, -14772189, 28944400, -1550024],
     yminusx = [16568933, 4717097, -11556148, -1102322, 15682896, -11807043, 16354577, -11775962, 7689662, 11199574],
     xy2d = [30464156, -5976125, -11779434, -15670865, 23220365, 15915852, 7512774, 10017326, -17749093, -9920357]\<rparr>,
    \<lparr>yplusx = [10861363, 11473154, 27284546, 1981175, -30064349, 12577861, 32867885, 14515107, -15438304, 10819380],
     yminusx = [4708026, 6336745, 20377586, 9066809, -11272109, 6594696, -25653668, 12483688, -12668491, 5581306],
     xy2d = [19563160, 16186464, -29386857, 4097519, 10237984, -4348115, 28542350, 13850243, -23678021, -15815942]\<rparr>,
    \<lparr>yplusx = [5153746, 9909285, 1723747, -2777874, 30523605, 5516873, 19480852, 5230134, -23952439, -15175766],
     yminusx = [-30269007, -3463509, 7665486, 10083793, 28475525, 1649722, 20654025, 16520125, 30598449, 7715701],
     xy2d = [28881845, 14381568, 9657904, 3680757, -20181635, 7843316, -31400660, 1370708, 29794553, -1409300]\<rparr>,
    \<lparr>yplusx = [-22518993, -6692182, 14201702, -8745502, -23510406, 8844726, 18474211, -1361450, -13062696, 13821877],
     yminusx = [-6455177, -7839871, 3374702, -4740862, -27098617, -10571707, 31655028, -7212327, 18853322, -14220951],
     xy2d = [4566830, -12963868, -28974889, -12240689, -7602672, -2830569, -8514358, -10431137, 2207753, -3209784]\<rparr>,
    \<lparr>yplusx = [-25154831, -4185821, 29681144, 7868801, -6854661, -9423865, -12437364, -663000, -31111463, -16132436],
     yminusx = [25576264, -2703214, 7349804, -11814844, 16472782, 9300885, 3844789, 15725684, 171356, 6466918],
     xy2d = [23103977, 13316479, 9739013, -16149481, 817875, -15038942, 8965339, -14088058, -30714912, 16193877]\<rparr>,
    \<lparr>yplusx = [-33521811, 3180713, -2394130, 14003687, -16903474, -16270840, 17238398, 4729455, -18074513, 9256800],
     yminusx = [-25182317, -4174131, 32336398, 5036987, -21236817, 11360617, 22616405, 9761698, -19827198, 630305],
     xy2d = [-13720693, 2639453, -24237460, -7406481, 9494427, -5774029, -6554551, -15960994, -2449256, -14291300]\<rparr>,
    \<lparr>yplusx = [-3151181, -5046075, 9282714, 6866145, -31907062, -863023, -18940575, 15033784, 25105118, -7894876],
     yminusx = [-24326370, 15950226, -31801215, -14592823, -11662737, -5090925, 1573892, -2625887, 2198790, -15804619],
     xy2d = [-3099351, 10324967, -2241613, 7453183, -5446979, -2735503, -13812022, -16236442, -32461234, -12290683]\<rparr>]"

section \<open>Points with given coordinates\<close>

lemma of_int_121666: "(of_int 121666 :: gf) \<noteq> 0"
  using gf_121666 by simp

text \<open>\<open>n\<close> is \<open>q\<close> times the prime and \<open>r\<close>.  The quotient is given, so that nothing is divided.\<close>

definition quot_rem :: "int \<Rightarrow> int \<Rightarrow> int \<Rightarrow> bool" where
  "quot_rem n q r \<longleftrightarrow> n + 19 * q = q * 57896044618658097711785492504343953926634992332820282019728792003956564819968 + r"

lemma quot_rem_gf: "quot_rem n q r \<Longrightarrow> (of_int n :: gf) = of_int r"
proof -
  assume "quot_rem n q r"
  then have "n = r + q * prime25519" by (simp add: quot_rem_def prime25519_def)
  then have "n mod prime25519 = r mod prime25519" by simp
  then show ?thesis unfolding of_int_gf_eq_iff .
qed

definition on_curve_int :: "int \<Rightarrow> int \<Rightarrow> int \<Rightarrow> int \<Rightarrow> int \<Rightarrow> int \<Rightarrow> int \<Rightarrow> bool" where
  "on_curve_int x y q1 x2 q2 y2 q3 \<longleftrightarrow>
     quot_rem (x * x) q1 x2 \<and> quot_rem (y * y) q2 y2 \<and> quot_rem (121666 * (y2 - x2 - 1) + 121665 * (x2 * y2)) q3 0"

definition sum_int ::
    "int \<Rightarrow> int \<Rightarrow> int \<Rightarrow> int \<Rightarrow> int \<Rightarrow> int \<Rightarrow> int \<Rightarrow> int \<Rightarrow> int \<Rightarrow> int \<Rightarrow> int \<Rightarrow> int \<Rightarrow> int \<Rightarrow> int \<Rightarrow> bool" where
  "sum_int x1 y1 x2 y2 x3 y3 q1 xx q2 yy q3 k q4 q5 \<longleftrightarrow>
     quot_rem (x1 * x2) q1 xx \<and> quot_rem (y1 * y2) q2 yy \<and> quot_rem (xx * yy) q3 k \<and>
     quot_rem (x3 * (121666 - 121665 * k) - 121666 * (x1 * y2 + x2 * y1)) q4 0 \<and>
     quot_rem (y3 * (121666 + 121665 * k) - 121666 * (yy + xx)) q5 0"

definition fe_limbs_ok :: "fe \<Rightarrow> bool" where
  "fe_limbs_ok f \<longleftrightarrow> length f = 10 \<and> list_all (\<lambda>i. \<bar>sint (f ! i)\<bar> \<le> fe_unit i) [0..<10]"

definition precomp_int :: "ge_precomp \<Rightarrow> int \<Rightarrow> int \<Rightarrow> int \<Rightarrow> int \<Rightarrow> int \<Rightarrow> bool" where
  "precomp_int q x y q1 q2 q3 \<longleftrightarrow>
     fe_limbs_ok (yplusx q) \<and> fe_limbs_ok (yminusx q) \<and> fe_limbs_ok (xy2d q) \<and>
     quot_rem (limbs_value wt10 (map sint (yplusx q))) q1 (y + x) \<and>
     quot_rem (limbs_value wt10 (map sint (yminusx q))) q2 (y - x) \<and>
     quot_rem (121666 * limbs_value wt10 (map sint (xy2d q)) + 243330 * (x * y)) q3 0"

section \<open>The checks\<close>

definition B1_x :: int where "B1_x = 15112221349535400772501151409588531511454012693041857206046113283949847762202"
definition B1_y :: int where "B1_y = 46316835694926478169428394003475163141307993866256225615783033603165251855960"
definition B2_x :: int where "B2_x = 24727413235106541002554574571675588834622768167397638456726423682521233608206"
definition B2_y :: int where "B2_y = 15549675580280190176352668710449542251549572066445060580507079593062643049417"
definition B3_x :: int where "B3_x = 46896733464454938657123544595386787789046198280132665686241321779790909858396"
definition B3_y :: int where "B3_y = 8324843778533443976490377120369201138301417226297555316741202210403726505172"
definition B5_x :: int where "B5_x = 33467004535436536005251147249499675200073690106659565782908757308821616914995"
definition B5_y :: int where "B5_y = 43097193783671926753355113395909008640284023746042808659097434958891230611693"
definition B7_x :: int where "B7_x = 9199134265559022971505535402808359556995554859516252602543778295037484220679"
definition B7_y :: int where "B7_y = 22512087849695599276028560866629687720820254811233262850576678203618951717560"
definition B9_x :: int where "B9_x = 24193060302538010417230488029838514081720802923509845138863968807030823940444"
definition B9_y :: int where "B9_y = 57551756252899625001155759838357770487605224608455116862194664796369308545472"
definition B11_x :: int where "B11_x = 9451145793506787353375160377761530931587019091193333050860601958827395183563"
definition B11_y :: int where "B11_y = 20609402718286069808115703540855311742885093522056241285814584245966805874451"
definition B13_x :: int where "B13_x = 7442235066513780790779899786332475485840754593728627195931759107337804079085"
definition B13_y :: int where "B13_y = 8529785864514984411577036536286432879603480171865651918962709025066066124672"
definition B15_x :: int where "B15_x = 35771902585589234259498423420223840099331465042459337605611172842168536632769"
definition B15_y :: int where "B15_y = 8502034780705657720897159939055122322178084209392286764802307224484658961631"

lemma check_curve: "on_curve_int B1_x B1_y 3944643120641682540557488748386534817562863454810087094083181913524639656337 26187595835145689230469591415084376402084551887632582719101735842039498021991 37053468555941182535542715202780130513046395093004980492626426882532201484768 37053468555941182535542715202780130513046395093004980492626426882532201484768 2039112862261120179344053017290394019174154883461643632972488122381910737181200464"
  by code_simp

lemma check_B2: "sum_int B1_x B1_y B1_x B1_y B2_x B2_y
    3944643120641682540557488748386534817562863454810087094083181913524639656337 26187595835145689230469591415084376402084551887632582719101735842039498021991 37053468555941182535542715202780130513046395093004980492626426882532201484768 37053468555941182535542715202780130513046395093004980492626426882532201484768 16760061334493241107500538505654000897334113208084852940225110938905278734074 30655112042971184558329056706696549839726511367961720624960021019854854290862 (- 4534765758328722086271962037759460035181002839155311001042505963647276240851093576) 1001707686991938287119653545083732984269669791178140854598854297347712666744982762"
  by code_simp

lemma check_B3: "sum_int B1_x B1_y B2_x B2_y B3_x B3_y
    6454433021663346227697405437452792583555821297117287786816762890575823932726 25225440941862457257645256542063839045928653454434489306237645082571845078638 12439740464224152141082134968359633801239657653156048464405663674450114439533 47177367235419010768153430470966006157220653052848217676242938876824053331503 20555288341858445091655881398897118214263259624518105402237652989900493436799 3364236006921377708987850388260268045919210514534713198477653094347271829663 (- 3232157387666486692654431010582506578250174804925532086572054435942357275865215712) 58854451045946692570014922493433595197696213399574021662255785108505841282867714"
  by code_simp

lemma check_B5: "sum_int B3_x B3_y B2_x B2_y B5_x B5_y
    20029605051439257545288017948402983388317488377638599063002798194777807630559 48340943397957672063845076961079850094226192239642303261637243939815458376085 2235880203308253119519222121890932670933772483120078552391370436872692883322 44797614286132229630946778029717472893086876719631224265665813444759707094146 37404263984409838010198068788034133636932658738789404062886173428130962818405 42371533499781928103430765740550095599405096895089063229563725931958961537065 (- 4944973264738645369700441234168597820112675623093355914537901558661144195740181121) 3837425356225059384982623250113266336949354349026802654297145019060288284540417733"
  by code_simp

lemma check_B7: "sum_int B5_x B5_y B2_x B2_y B7_x B7_y
    14293764908116530862448180713109370502117189820835074215820232183375730470090 6340004638261182900895289219772987200849098283612958019611071795932256623560 11575011491209865433133808471897716672703133499734705597028430690659308629457 27213516076568098771156700155333099061231010900289323149495096076870574395288 2980062269974738850882056107034744850476570958375963751354989650526159839252 15346874318147105863293115084415884734066589450846357509903977324495490947132 (- 3629761137074819523953970680863435199688316610170913249598815790982483633213395576) 726026507951345291698179884403426245681839752356166689726134693964232417107598608"
  by code_simp

lemma check_B9: "sum_int B7_x B7_y B2_x B2_y B9_x B9_y
    3928952243421470271284563548988221211934248508304978769883102841983841268533 9325763809085646680044095575923854707602173682939668350085181842640224927057 6046279413442381593574959747587532512666219343760505271703330394674977379850 30902426918875499502853874846454069254968873582337309167482348478985076034870 4977692974902968079557050512975271774708224397294629905061717369126201459444 56168597102055912493228154247220266103922034630928085176911135512893652829234 (- 4326033162662511805147560905835705903962938613467235218199482815701343102284900566) 6793114332342959608344462513882127061578596911646890660717851531305665111945607610"
  by code_simp

lemma check_B11: "sum_int B9_x B9_y B2_x B2_y B11_x B11_y
    10332861311391167468301009556494463863360341253977303113715794824777279599539 39471529557189836860058826487841429781340761288845943468618747970698615279953 15457206873153973002413809275534372347319238052505611109330133136220891334036 30669764113903190525019673621186452561310012811730212691302466949682132105660 20909589052372617446660529477932335918240843957685947339957346590156249029362 30794055059241951527746855506676385403749644531741541474523954922722731491442 (- 4392751600651126239884976655057989681682201616403854153162765013629681589127950888) 1333672062497343128235247713910964865149032286122190999801022397450954833640428362"
  by code_simp

lemma check_B13: "sum_int B11_x B11_y B2_x B2_y B13_x B13_y
    4036586421759911061921598706944881940732696592131598501888848002958458712825 14980201344168139239096952090747236809489943918441111821135166819811770972053 5535257689597256053294773264299714481693146139969948684309505484495364087787 40530214640583553323417811076674281727125935410020683054938954657707605882204 10486912876991722794409515624992879084109920141191277036591926642391086298094 12403671989286842433575992357264831529847132505728420164571586863353642167606 (- 1573758988474420222198597328935912321027659400179933118337007144630296322351882678) 222333634602413403128714000173339959369772505361832021030375424133231015237895830"
  by code_simp

lemma check_B15: "sum_int B13_x B13_y B2_x B2_y B15_x B15_y
    3178580213805842815851282036490783082207594897576336962237670237303692305432 38919509364173204966524514906699328588686310710353568878912568345721734308542 2290923392713489987586226983216406500706998834692637638154562739667878077161 19825164067779614078206114249232182759535213208898892830988794012221484831435 13327087604419192653222692458902383321686738656975717041161420743210304585870 34319297624379560845894772703016622542474881780285926576103609213095591097140 (- 3266294080260418251412071087140891194972739371128323644387649566924595181629818572) 613165956506457660697230263818796964744880501870173437448169003908521164710696536"
  by code_simp

lemma check_entry_0: "precomp_int (Bi ! 0) B1_x B1_y (- 1) (- 1) 2941805456785959255978164137996141898145683926878300091157760596306813164781324846"
  by code_simp

lemma check_entry_1: "precomp_int (Bi ! 1) B3_x B3_y (- 1) 1 1640837027021972782216846020322476044705912023606795583844261592646961234916375544"
  by code_simp

lemma check_entry_2: "precomp_int (Bi ! 2) B5_x B5_y (- 1) 0 6061953448149059702830432072838081574448002794916100162366037902812388381466666966"
  by code_simp

lemma check_entry_3: "precomp_int (Bi ! 3) B7_x B7_y (- 1) 0 870381184929876068562497228927418098922473045094389823776812788222180697841766754"
  by code_simp

lemma check_entry_4: "precomp_int (Bi ! 4) B9_x B9_y (- 1) (- 1) 5851889958575909320286364382299823435967612612410466148504191158149597293488769484"
  by code_simp

lemma check_entry_5: "precomp_int (Bi ! 5) B11_x B11_y (- 1) 0 818646916045331818467749207639295178521960627030650754544307595331373714780738052"
  by code_simp

lemma check_entry_6: "precomp_int (Bi ! 6) B13_x B13_y 0 0 266801504156621688172714608079541781230658558530349174366562941675122757048804974"
  by code_simp

lemma check_entry_7: "precomp_int (Bi ! 7) B15_x B15_y (- 1) 0 1278237865180970944193622951556361669637434214951644584316168340816998407200522896"
  by code_simp

section \<open>The base point and its multiples\<close>

definition has_coords :: "ed_point \<Rightarrow> int \<Rightarrow> int \<Rightarrow> bool" where
  "has_coords P x y \<longleftrightarrow> px P = of_int x \<and> py P = of_int y"

definition basepoint :: ed_point where
  "basepoint = Abs_ed_point (of_int B1_x, of_int B1_y)"

lemma d_scaled: "121666 * ed_d = - 121665"
  using gf_121666 by (simp add: ed_d_def)

lemma basepoint_coords: "has_coords basepoint B1_x B1_y"
proof -
  let ?x = "of_int B1_x :: gf" and ?y = "of_int B1_y :: gf"
  obtain x2 y2 q1 q2 q3 where c: "quot_rem (B1_x * B1_x) q1 x2" "quot_rem (B1_y * B1_y) q2 y2"
      "quot_rem (121666 * (y2 - x2 - 1) + 121665 * (x2 * y2)) q3 0"
    using check_curve unfolding on_curve_int_def by blast
  have "?x ^ 2 = of_int x2" "?y ^ 2 = of_int y2"
    using quot_rem_gf [OF c(1)] quot_rem_gf [OF c(2)] by (simp_all add: power2_eq_square)
  moreover have "121666 * (of_int y2 - of_int x2 - 1) + 121665 * (of_int x2 * of_int y2) = (0 :: gf)"
    using quot_rem_gf [OF c(3)] by simp
  ultimately have e: "121666 * (?y ^ 2 - ?x ^ 2 - 1) = - (121665 * (?x ^ 2 * ?y ^ 2))" by (simp only: eq_neg_iff_add_eq_0)
  have "121666 * (?y ^ 2 - ?x ^ 2) = 121666 * (?y ^ 2 - ?x ^ 2 - 1) + 121666" by (simp add: right_diff_distrib)
  also have "\<dots> = 121666 + (121666 * ed_d) * (?x ^ 2 * ?y ^ 2)" unfolding e d_scaled by simp
  also have "\<dots> = 121666 * (1 + ed_d * ?x ^ 2 * ?y ^ 2)" by (simp add: distrib_left mult_ac)
  finally have "?y ^ 2 - ?x ^ 2 = 1 + ed_d * ?x ^ 2 * ?y ^ 2" by (rule iffD1 [OF mult_left_cancel [OF gf_121666]])
  then have "on_curve (?x, ?y)" by (simp add: on_curve_def)
  then show ?thesis by (simp add: has_coords_def basepoint_def px_def py_def Abs_ed_point_inverse)
qed

lemma sum_coords:
  assumes "has_coords P x1 y1" "has_coords Q x2 y2" "sum_int x1 y1 x2 y2 x3 y3 q1 xx q2 yy q3 k q4 q5"
  shows "has_coords (P + Q) x3 y3"
proof -
  note c = assms(1,2) [unfolded has_coords_def] and s = assms(3) [unfolded sum_int_def]
  have "(of_int xx :: gf) = px P * px Q" "(of_int yy :: gf) = py P * py Q" "of_int xx * of_int yy = (of_int k :: gf)"
    using s c quot_rem_gf by (metis of_int_mult)+
  then have parts: "(of_int xx :: gf) = px P * px Q" "(of_int yy :: gf) = py P * py Q"
      "(of_int k :: gf) = px P * px Q * (py P * py Q)" by simp_all
  let ?k = "ed_d * px P * px Q * py P * py Q"
  have d: "121666 * ?k = - 121665 * of_int k" using d_scaled unfolding parts by algebra
  have "of_int x3 * (121666 - 121665 * of_int k) = 121666 * (px P * py Q + px Q * py P)"
    using quot_rem_gf [OF s [THEN conjunct2, THEN conjunct2, THEN conjunct2, THEN conjunct1]] c by (simp add: mult_ac)
  then have "121666 * (of_int x3 * (1 + ?k)) = 121666 * (px (P + Q) * (1 + ?k))"
    unfolding point_plus(1) using d by algebra
  then have x: "of_int x3 = px (P + Q)" using gf_121666 point_denominators(1) [of P Q] by simp
  have "of_int y3 * (121666 + 121665 * of_int k) = 121666 * (py P * py Q + px P * px Q)"
    using quot_rem_gf [OF s [THEN conjunct2, THEN conjunct2, THEN conjunct2, THEN conjunct2]] by (simp add: parts)
  then have "121666 * (of_int y3 * (1 - ?k)) = 121666 * (py (P + Q) * (1 - ?k))"
    unfolding point_plus(2) using d by algebra
  then have "of_int y3 = py (P + Q)" using gf_121666 point_denominators(2) [of P Q] by simp
  then show ?thesis using x by (simp add: has_coords_def)
qed

lemma fe_limbs_ok_is: "fe_limbs_ok f \<Longrightarrow> (of_int (limbs_value wt10 (map sint f)) :: gf) = x \<Longrightarrow> fe_is 1 f x"
  by (simp add: fe_limbs_ok_def fe_is_def fe_val_def)

lemma precomp_coords:
  assumes "precomp_int q x y q1 q2 q3" "has_coords P x y"
  shows "precomp_is q P"
proof -
  let ?v = "limbs_value wt10 (map sint (xy2d q))"
  have "121666 * of_int ?v + 243330 * (px P * py P) = (0 :: gf)"
    using assms quot_rem_gf [of "121666 * ?v + 243330 * (x * y)" q3 0] by (simp add: precomp_int_def has_coords_def)
  then have "121666 * of_int ?v = - (243330 * (px P * py P))" by (simp only: eq_neg_iff_add_eq_0)
  also have "\<dots> = 2 * (121666 * ed_d) * (px P * py P)" by (simp add: d_scaled)
  also have "\<dots> = 121666 * (2 * ed_d * px P * py P)" by (simp only: mult_ac)
  finally have v: "of_int ?v = 2 * ed_d * px P * py P" by (rule iffD1 [OF mult_left_cancel [OF gf_121666]])
  have "of_int (limbs_value wt10 (map sint (yplusx q))) = py P + px P" "of_int (limbs_value wt10 (map sint (yminusx q))) = py P - px P"
    using assms quot_rem_gf [of _ q1 "y + x"] quot_rem_gf [of _ q2 "y - x"] by (auto simp: precomp_int_def has_coords_def)
  then show ?thesis
    using assms(1) fe_limbs_ok_is v unfolding precomp_is_def precomp_int_def by blast
qed

lemma multiples:
  "has_coords (smul 3 basepoint) B3_x B3_y" "has_coords (smul 5 basepoint) B5_x B5_y"
  "has_coords (smul 7 basepoint) B7_x B7_y" "has_coords (smul 9 basepoint) B9_x B9_y"
  "has_coords (smul 11 basepoint) B11_x B11_y" "has_coords (smul 13 basepoint) B13_x B13_y"
  "has_coords (smul 15 basepoint) B15_x B15_y"
proof -
  have two: "has_coords (smul 2 basepoint) B2_x B2_y"
    using sum_coords [OF basepoint_coords basepoint_coords check_B2] by (simp add: smul_2)
  have step: "has_coords (smul (k + 2) basepoint) x3 y3"
    if "has_coords (smul k basepoint) x1 y1" "sum_int x1 y1 B2_x B2_y x3 y3 q1 xx q2 yy q3 l q4 q5" for k x1 y1 x3 y3 q1 xx q2 yy q3 l q4 q5
    using sum_coords [OF that(1) two that(2)] by (simp add: smul_add)
  have one: "has_coords (smul 1 basepoint) B1_x B1_y" using basepoint_coords by simp
  show m3: "has_coords (smul 3 basepoint) B3_x B3_y" using step [OF one check_B3] by simp
  show m5: "has_coords (smul 5 basepoint) B5_x B5_y" using step [OF m3 check_B5] by simp
  show m7: "has_coords (smul 7 basepoint) B7_x B7_y" using step [OF m5 check_B7] by simp
  show m9: "has_coords (smul 9 basepoint) B9_x B9_y" using step [OF m7 check_B9] by simp
  show m11: "has_coords (smul 11 basepoint) B11_x B11_y" using step [OF m9 check_B11] by simp
  show m13: "has_coords (smul 13 basepoint) B13_x B13_y" using step [OF m11 check_B13] by simp
  show "has_coords (smul 15 basepoint) B15_x B15_y" using step [OF m13 check_B15] by simp
qed

lemma Bi_odd_multiples: "odd_multiples Bi basepoint"
proof -
  have "precomp_is (Bi ! j) (smul (2 * int j + 1) basepoint)" if "j < 8" for j
  proof -
    have "j = 0 \<or> j = 1 \<or> j = 2 \<or> j = 3 \<or> j = 4 \<or> j = 5 \<or> j = 6 \<or> j = 7" using that by auto
    then show ?thesis
      using precomp_coords [OF check_entry_0 basepoint_coords] precomp_coords [OF check_entry_1 multiples(1)]
        precomp_coords [OF check_entry_2 multiples(2)] precomp_coords [OF check_entry_3 multiples(3)]
        precomp_coords [OF check_entry_4 multiples(4)] precomp_coords [OF check_entry_5 multiples(5)]
        precomp_coords [OF check_entry_6 multiples(6)] precomp_coords [OF check_entry_7 multiples(7)]
      by (elim disjE) simp_all
  qed
  then show ?thesis by (simp add: odd_multiples_def)
qed

end
