(* ===== verification/Sha512.thy ===== *)
theory Sha512
  imports Prelude
begin

text \<open>
  \<open>lib/ed25519/src/sha512.c\<close>: the SHA-512 of the signatures.  A context is filled up to a block of
  128 bytes; whole blocks of the input are compressed without a copy.  The second half of the theory
  states FIPS 180-4 and proves that the code computes it for messages of less than \<open>2 ^ 61\<close> bytes,
  beyond which it leaves the upper half of the length field zero.
\<close>

section \<open>The code\<close>

record sha512_context =
  md_length :: u64
  md_state :: "u64 list"
  md_curlen :: nat
  md_buf :: bytes

definition K512 :: "u64 list" where
  "K512 = concat [
    [0x428a2f98d728ae22, 0x7137449123ef65cd],
    [0xb5c0fbcfec4d3b2f, 0xe9b5dba58189dbbc],
    [0x3956c25bf348b538, 0x59f111f1b605d019],
    [0x923f82a4af194f9b, 0xab1c5ed5da6d8118],
    [0xd807aa98a3030242, 0x12835b0145706fbe],
    [0x243185be4ee4b28c, 0x550c7dc3d5ffb4e2],
    [0x72be5d74f27b896f, 0x80deb1fe3b1696b1],
    [0x9bdc06a725c71235, 0xc19bf174cf692694],
    [0xe49b69c19ef14ad2, 0xefbe4786384f25e3],
    [0x0fc19dc68b8cd5b5, 0x240ca1cc77ac9c65],
    [0x2de92c6f592b0275, 0x4a7484aa6ea6e483],
    [0x5cb0a9dcbd41fbd4, 0x76f988da831153b5],
    [0x983e5152ee66dfab, 0xa831c66d2db43210],
    [0xb00327c898fb213f, 0xbf597fc7beef0ee4],
    [0xc6e00bf33da88fc2, 0xd5a79147930aa725],
    [0x06ca6351e003826f, 0x142929670a0e6e70],
    [0x27b70a8546d22ffc, 0x2e1b21385c26c926],
    [0x4d2c6dfc5ac42aed, 0x53380d139d95b3df],
    [0x650a73548baf63de, 0x766a0abb3c77b2a8],
    [0x81c2c92e47edaee6, 0x92722c851482353b],
    [0xa2bfe8a14cf10364, 0xa81a664bbc423001],
    [0xc24b8b70d0f89791, 0xc76c51a30654be30],
    [0xd192e819d6ef5218, 0xd69906245565a910],
    [0xf40e35855771202a, 0x106aa07032bbd1b8],
    [0x19a4c116b8d2d0c8, 0x1e376c085141ab53],
    [0x2748774cdf8eeb99, 0x34b0bcb5e19b48a8],
    [0x391c0cb3c5c95a63, 0x4ed8aa4ae3418acb],
    [0x5b9cca4f7763e373, 0x682e6ff3d6b2b8a3],
    [0x748f82ee5defb2fc, 0x78a5636f43172f60],
    [0x84c87814a1f0ab72, 0x8cc702081a6439ec],
    [0x90befffa23631e28, 0xa4506cebde82bde9],
    [0xbef9a3f7b2c67915, 0xc67178f2e372532b],
    [0xca273eceea26619c, 0xd186b8c721c0c207],
    [0xeada7dd6cde0eb1e, 0xf57d4f7fee6ed178],
    [0x06f067aa72176fba, 0x0a637dc5a2c898a6],
    [0x113f9804bef90dae, 0x1b710b35131c471b],
    [0x28db77f523047d84, 0x32caab7b40c72493],
    [0x3c9ebe0a15c9bebc, 0x431d67c49c100d4c],
    [0x4cc5d4becb3e42b6, 0x597f299cfc657e2a],
    [0x5fcb6fab3ad6faec, 0x6c44198c4a475817]]"

definition ROR64c :: "u64 \<Rightarrow> nat \<Rightarrow> u64" where
  "ROR64c x y = drop_bit y x OR push_bit (64 - y) x"

definition STORE64H :: "u64 \<Rightarrow> bytes" where
  "STORE64H x =
     [ucast (drop_bit 56 x AND 255), ucast (drop_bit 48 x AND 255),
      ucast (drop_bit 40 x AND 255), ucast (drop_bit 32 x AND 255),
      ucast (drop_bit 24 x AND 255), ucast (drop_bit 16 x AND 255),
      ucast (drop_bit 8 x AND 255), ucast (x AND 255)]"

definition LOAD64H :: "bytes \<Rightarrow> nat \<Rightarrow> u64" where
  "LOAD64H y i =
     push_bit 56 (ucast (y ! i)) OR push_bit 48 (ucast (y ! (i + 1)))
     OR push_bit 40 (ucast (y ! (i + 2))) OR push_bit 32 (ucast (y ! (i + 3)))
     OR push_bit 24 (ucast (y ! (i + 4))) OR push_bit 16 (ucast (y ! (i + 5)))
     OR push_bit 8 (ucast (y ! (i + 6))) OR ucast (y ! (i + 7))"

definition Ch :: "u64 \<Rightarrow> u64 \<Rightarrow> u64 \<Rightarrow> u64" where
  "Ch x y z = z XOR (x AND (y XOR z))"

definition Maj :: "u64 \<Rightarrow> u64 \<Rightarrow> u64 \<Rightarrow> u64" where
  "Maj x y z = ((x OR y) AND z) OR (x AND y)"

definition Sigma0 :: "u64 \<Rightarrow> u64" where
  "Sigma0 x = ROR64c x 28 XOR ROR64c x 34 XOR ROR64c x 39"

definition Sigma1 :: "u64 \<Rightarrow> u64" where
  "Sigma1 x = ROR64c x 14 XOR ROR64c x 18 XOR ROR64c x 41"

definition Gamma0 :: "u64 \<Rightarrow> u64" where
  "Gamma0 x = ROR64c x 1 XOR ROR64c x 8 XOR drop_bit 7 x"

definition Gamma1 :: "u64 \<Rightarrow> u64" where
  "Gamma1 x = ROR64c x 19 XOR ROR64c x 61 XOR drop_bit 6 x"

text \<open>The loop that fills \<open>W[16..79]\<close>.\<close>

fun fill_W :: "nat \<Rightarrow> u64 list \<Rightarrow> u64 list" where
  "fill_W 0 W = W"
| "fill_W (Suc n) W =
     (let i = length W in
      fill_W n (W @ [Gamma1 (W ! (i - 2)) + W ! (i - 7) + Gamma0 (W ! (i - 15)) + W ! (i - 16)]))"

text \<open>The macro \<open>RND\<close>: the first eight arguments are indices into \<open>S\<close>.\<close>

definition RND :: "u64 list \<Rightarrow> nat \<Rightarrow> nat \<Rightarrow> nat \<Rightarrow> nat \<Rightarrow> nat \<Rightarrow> nat \<Rightarrow> nat \<Rightarrow> nat \<Rightarrow> nat \<Rightarrow> u64 list \<Rightarrow> u64 list" where
  "RND W a b c d e f g h i S =
     (let t0 = S ! h + Sigma1 (S ! e) + Ch (S ! e) (S ! f) (S ! g) + K512 ! i + W ! i;
          t1 = Sigma0 (S ! a) + Maj (S ! a) (S ! b) (S ! c);
          S = S[d := S ! d + t0]
      in S[h := t0 + t1])"

definition eight_rounds :: "u64 list \<Rightarrow> u64 list \<Rightarrow> nat \<Rightarrow> u64 list" where
  "eight_rounds W S i =
     (let S = RND W 0 1 2 3 4 5 6 7 (i + 0) S;
          S = RND W 7 0 1 2 3 4 5 6 (i + 1) S;
          S = RND W 6 7 0 1 2 3 4 5 (i + 2) S;
          S = RND W 5 6 7 0 1 2 3 4 (i + 3) S;
          S = RND W 4 5 6 7 0 1 2 3 (i + 4) S;
          S = RND W 3 4 5 6 7 0 1 2 (i + 5) S;
          S = RND W 2 3 4 5 6 7 0 1 (i + 6) S
      in RND W 1 2 3 4 5 6 7 0 (i + 7) S)"

definition sha512_compress :: "sha512_context \<Rightarrow> bytes \<Rightarrow> sha512_context" where
  "sha512_compress md buf =
     (let W = fill_W 64 (map (\<lambda>i. LOAD64H buf (8 * i)) [0..<16]);
          S = foldl (eight_rounds W) (md_state md) [0, 8, 16, 24, 32, 40, 48, 56, 64, 72]
      in md\<lparr>md_state := map (\<lambda>i. md_state md ! i + S ! i) [0..<8]\<rparr>)"

definition sha512_initial_state :: "u64 list" where
  "sha512_initial_state =
    [0x6a09e667f3bcc908, 0xbb67ae8584caa73b, 0x3c6ef372fe94f82b, 0xa54ff53a5f1d36f1,
     0x510e527fade682d1, 0x9b05688c2b3e6c1f, 0x1f83d9abfb41bd6b, 0x5be0cd19137e2179]"

text \<open>
  Pointers that may be null are options; the result code 1 is an error.  \<open>init_md\<close> is the body
  behind the check of the pointer.
\<close>

definition init_md :: "sha512_context \<Rightarrow> sha512_context" where
  "init_md md = md\<lparr>md_curlen := 0, md_length := 0, md_state := sha512_initial_state\<rparr>"

definition sha512_init :: "sha512_context option \<Rightarrow> sha512_context option \<times> nat" where
  "sha512_init md = (case md of None \<Rightarrow> (None, 1) | Some md \<Rightarrow> (Some (init_md md), 0))"

text \<open>
  The loop of \<open>sha512_update\<close>; \<open>inp\<close> are the bytes that are left.  The subtraction
  \<open>128 - md->curlen\<close> is the one of \<open>size_t\<close>.
\<close>

partial_function (option) sha512_update_loop ::
    "sha512_context \<Rightarrow> bytes \<Rightarrow> sha512_context option" where
  "sha512_update_loop md inp =
     (if inp = [] then Some md
      else if md_curlen md = 0 \<and> length inp \<ge> 128 then
        (let md = sha512_compress md (take 128 inp)
         in sha512_update_loop (md\<lparr>md_length := md_length md + 128 * 8\<rparr>) (drop 128 inp))
      else
        (let n = min (length inp) (size_sub 128 (md_curlen md));
             md = md\<lparr>md_buf := take (md_curlen md) (md_buf md) @ take n inp
                               @ drop (md_curlen md + n) (md_buf md)\<rparr>;
             md = md\<lparr>md_curlen := md_curlen md + n\<rparr>;
             inp = drop n inp
         in if md_curlen md = 128 then
              (let md = sha512_compress md (md_buf md)
               in sha512_update_loop (md\<lparr>md_length := md_length md + 8 * 128, md_curlen := 0\<rparr>) inp)
            else sha512_update_loop md inp))"

declare sha512_update_loop.simps [code]

text \<open>The outer \<open>None\<close> is a call that does not return.\<close>

definition sha512_update ::
    "sha512_context option \<Rightarrow> bytes option \<Rightarrow> (sha512_context option \<times> nat) option" where
  "sha512_update md inp =
     (case md of None \<Rightarrow> Some (None, 1)
      | Some md \<Rightarrow>
          (case inp of None \<Rightarrow> Some (Some md, 1)
           | Some inp \<Rightarrow>
               if md_curlen md > 128 then Some (Some md, 1)
               else map_option (\<lambda>md. (Some md, 0)) (sha512_update_loop md inp)))"

text \<open>The loops that pad with zeros up to the length \<open>n\<close>.\<close>

definition pad_zeros :: "nat \<Rightarrow> sha512_context \<Rightarrow> sha512_context" where
  "pad_zeros n md =
     md\<lparr>md_buf := take (md_curlen md) (md_buf md) @ replicate (n - md_curlen md) 0
                    @ drop (max n (md_curlen md)) (md_buf md),
        md_curlen := max n (md_curlen md)\<rparr>"

definition final_md :: "sha512_context \<Rightarrow> sha512_context" where
  "final_md md =
     (let md = md\<lparr>md_length := md_length md + of_nat (md_curlen md) * 8\<rparr>;
          md = md\<lparr>md_buf := (md_buf md)[md_curlen md := 0x80], md_curlen := md_curlen md + 1\<rparr>;
          md = (if md_curlen md > 112 then
                  (let md = pad_zeros 128 md in
                   (sha512_compress md (md_buf md))\<lparr>md_curlen := 0\<rparr>)
                else md);
          md = pad_zeros 120 md;
          md = md\<lparr>md_buf := take 120 (md_buf md) @ STORE64H (md_length md)\<rparr>
      in sha512_compress md (md_buf md))"

definition md_digest :: "sha512_context \<Rightarrow> bytes" where
  "md_digest md = concat (map STORE64H (md_state md))"

definition sha512_final ::
    "sha512_context option \<Rightarrow> bytes option \<Rightarrow> sha512_context option \<times> bytes option \<times> nat" where
  "sha512_final md out =
     (case md of None \<Rightarrow> (None, out, 1)
      | Some md \<Rightarrow>
          (case out of None \<Rightarrow> (Some md, None, 1)
           | Some out \<Rightarrow>
               if md_curlen md \<ge> 128 then (Some md, Some out, 1)
               else
                 (let md = final_md md
                  in (Some md, Some (md_digest md @ drop 64 out), 0))))"

text \<open>All at once; the context on the stack holds anything.\<close>

definition sha512 :: "sha512_context \<Rightarrow> bytes option \<Rightarrow> bytes option \<Rightarrow> (bytes option \<times> nat) option" where
  "sha512 ctx message out =
     (let (ctx, ret) = sha512_init (Some ctx)
      in if ret \<noteq> 0 then Some (out, ret)
         else case sha512_update ctx message of
           None \<Rightarrow> None
         | Some (ctx, ret) \<Rightarrow>
             if ret \<noteq> 0 then Some (out, ret)
             else let (ctx, out, ret) = sha512_final ctx out in Some (out, ret))"

section \<open>The loop of an update ends\<close>

definition update_measure :: "sha512_context \<Rightarrow> bytes \<Rightarrow> nat" where
  "update_measure md inp = 2 * length inp + (if md_curlen md = 128 then 1 else 0)"

lemma curlen_compress [simp]:
  "md_curlen (sha512_compress md b) = md_curlen md" "md_length (sha512_compress md b) = md_length md"
  "md_buf (sha512_compress md b) = md_buf md"
  by (simp_all add: sha512_compress_def Let_def)

lemma size_sub_128: "c \<le> 128 \<Longrightarrow> size_sub 128 c = 128 - c"
  by (rule size_sub_no_wrap) simp_all

lemma update_loop_returns:
  "md_curlen md \<le> 128 \<Longrightarrow>
     \<exists>md'. sha512_update_loop md inp = Some md' \<and> (inp = [] \<or> md_curlen md' < 128)"
proof (induction "update_measure md inp" arbitrary: md inp rule: less_induct)
  case less
  show ?case
  proof (cases "inp = []")
    case True
    then show ?thesis by (simp add: sha512_update_loop.simps)
  next
    case False
    note unfold = sha512_update_loop.simps [of md inp]
    show ?thesis
    proof (cases "md_curlen md = 0 \<and> length inp \<ge> 128")
      case True
      let ?md = "(sha512_compress md (take 128 inp))\<lparr>md_length := md_length md + 128 * 8\<rparr>"
      have "update_measure ?md (drop 128 inp) < update_measure md inp"
        using True by (auto simp: update_measure_def)
      from less.hyps [OF this] True show ?thesis
        using False by (cases "length inp = 128") (auto simp: unfold Let_def sha512_update_loop.simps [of _ "[]"])
    next
      case part: False
      let ?n = "min (length inp) (128 - md_curlen md)"
      let ?md = "md\<lparr>md_buf := take (md_curlen md) (md_buf md) @ take ?n inp
                               @ drop (md_curlen md + ?n) (md_buf md),
                     md_curlen := md_curlen md + ?n\<rparr>"
      let ?md' = "(sha512_compress ?md (md_buf ?md))\<lparr>md_length := md_length md + 8 * 128, md_curlen := 0\<rparr>"
      have step: "sha512_update_loop md inp =
          (if md_curlen md + ?n = 128 then sha512_update_loop ?md' (drop ?n inp)
           else sha512_update_loop ?md (drop ?n inp))"
        using less.prems by (simp add: unfold size_sub_128 Let_def False part del: de_Morgan_conj)
      show ?thesis
      proof (cases "md_curlen md + ?n = 128")
        case True
        have "update_measure ?md' (drop ?n inp) < update_measure md inp"
          using True False less.prems by (auto simp: update_measure_def min_def split: if_splits)
        from less.hyps [OF this] True step show ?thesis
          by (cases "drop ?n inp = []") (auto simp: sha512_update_loop.simps [of _ "[]"])
      next
        case False
        then have n: "?n = length inp" using less.prems by (auto simp: min_def split: if_splits)
        then show ?thesis using False less.prems step
          by (auto simp: sha512_update_loop.simps [of _ "[]"])
      qed
    qed
  qed
qed

section \<open>FIPS 180-4\<close>

text \<open>The functions, the schedule and the working variables in the notation of the standard.\<close>

definition ROTR :: "nat \<Rightarrow> u64 \<Rightarrow> u64" where
  "ROTR n x = word_rotr n x"

definition fips512_Ch :: "u64 \<Rightarrow> u64 \<Rightarrow> u64 \<Rightarrow> u64" where
  "fips512_Ch x y z = (x AND y) XOR (NOT x AND z)"

definition fips512_Maj :: "u64 \<Rightarrow> u64 \<Rightarrow> u64 \<Rightarrow> u64" where
  "fips512_Maj x y z = (x AND y) XOR (x AND z) XOR (y AND z)"

definition fips512_S0 :: "u64 \<Rightarrow> u64" where
  "fips512_S0 x = ROTR 28 x XOR ROTR 34 x XOR ROTR 39 x"

definition fips512_S1 :: "u64 \<Rightarrow> u64" where
  "fips512_S1 x = ROTR 14 x XOR ROTR 18 x XOR ROTR 41 x"

definition fips512_s0 :: "u64 \<Rightarrow> u64" where
  "fips512_s0 x = ROTR 1 x XOR ROTR 8 x XOR drop_bit 7 x"

definition fips512_s1 :: "u64 \<Rightarrow> u64" where
  "fips512_s1 x = ROTR 19 x XOR ROTR 61 x XOR drop_bit 6 x"

definition be_nat :: "bytes \<Rightarrow> nat" where
  "be_nat bs = foldl (\<lambda>n b. 256 * n + unat b) 0 bs"

function fips512_W :: "bytes \<Rightarrow> nat \<Rightarrow> u64" where
  "fips512_W blk t =
     (if t < 16 then of_nat (be_nat (take 8 (drop (8 * t) blk)))
      else fips512_s1 (fips512_W blk (t - 2)) + fips512_W blk (t - 7)
           + fips512_s0 (fips512_W blk (t - 15)) + fips512_W blk (t - 16))"
  by pat_completeness auto
termination by (relation "measure snd") auto

declare fips512_W.simps [simp del]

type_synonym vars512 = "u64 \<times> u64 \<times> u64 \<times> u64 \<times> u64 \<times> u64 \<times> u64 \<times> u64"

fun fips512_round :: "u64 \<Rightarrow> u64 \<Rightarrow> vars512 \<Rightarrow> vars512" where
  "fips512_round k w (a, b, c, d, e, f, g, h) =
     (let T1 = h + fips512_S1 e + fips512_Ch e f g + k + w;
          T2 = fips512_S0 a + fips512_Maj a b c
      in (T1 + T2, a, b, c, d + T1, e, f, g))"

fun fips512_vars :: "bytes \<Rightarrow> vars512 \<Rightarrow> nat \<Rightarrow> vars512" where
  "fips512_vars blk v 0 = v"
| "fips512_vars blk v (Suc t) = fips512_round (K512 ! t) (fips512_W blk t) (fips512_vars blk v t)"

definition fips512_compress :: "u64 list \<Rightarrow> bytes \<Rightarrow> u64 list" where
  "fips512_compress H blk =
     (let (a, b, c, d, e, f, g, h) =
            fips512_vars blk (H ! 0, H ! 1, H ! 2, H ! 3, H ! 4, H ! 5, H ! 6, H ! 7) 80
      in [H ! 0 + a, H ! 1 + b, H ! 2 + c, H ! 3 + d, H ! 4 + e, H ! 5 + f, H ! 6 + g, H ! 7 + h])"

text \<open>The big-endian bytes of a number.\<close>

definition be_number :: "nat \<Rightarrow> nat \<Rightarrow> bytes" where
  "be_number n x = map (\<lambda>i. of_nat (x div 256 ^ (n - 1 - i))) [0..<n]"

definition fips512_pad :: "bytes \<Rightarrow> bytes" where
  "fips512_pad msg =
     msg @ [0x80] @ replicate ((239 - length msg mod 128) mod 128) 0
     @ be_number 16 (8 * length msg)"

definition fips_sha512 :: "bytes \<Rightarrow> bytes" where
  "fips_sha512 msg =
     concat (map (\<lambda>w. be_number 8 (unat w))
       (foldl fips512_compress sha512_initial_state (blocks 128 (fips512_pad msg))))"

section \<open>The functions of the code are those of the standard\<close>

lemma ROR64c_ROTR: "0 < n \<Longrightarrow> n < 64 \<Longrightarrow> ROR64c x n = ROTR n x"
proof (rule bit_word_eqI)
  fix k assume n: "0 < n" "n < 64" and k: "k < LENGTH(64)"
  have "(k + n) mod 64 = (if k + n < 64 then k + n else k + n - 64)"
    using n k by (simp add: mod_if)
  then show "bit (ROR64c x n) k \<longleftrightarrow> bit (ROTR n x) k"
    using n k by (auto simp: ROR64c_def ROTR_def bit_word_rotr_iff bit_simps add.commute
        dest: bit_imp_le_length)
qed

lemma code_functions:
  "Ch x y z = fips512_Ch x y z" "Maj x y z = fips512_Maj x y z"
  "Sigma0 x = fips512_S0 x" "Sigma1 x = fips512_S1 x"
  "Gamma0 x = fips512_s0 x" "Gamma1 x = fips512_s1 x"
proof -
  show "Ch x y z = fips512_Ch x y z" "Maj x y z = fips512_Maj x y z"
    by (rule bit_word_eqI; auto simp: Ch_def fips512_Ch_def Maj_def fips512_Maj_def bit_simps)+
qed (simp_all add: Sigma0_def fips512_S0_def Sigma1_def fips512_S1_def Gamma0_def fips512_s0_def
      Gamma1_def fips512_s1_def ROR64c_ROTR)

lemma length_STORE64H [simp, len_simps]: "length (STORE64H w) = 8"
  by (simp add: STORE64H_def)

lemma byte_of_word: "ucast (drop_bit k (w :: u64) AND 255) = (of_nat (unat w div 2 ^ k) :: u8)"
proof -
  have bits: "bit (255 :: int) i" if "i < 8" for i
  proof -
    have "(255 :: int) = mask 8" by (simp add: mask_eq_exp_minus_1)
    then show ?thesis using that by (simp only: bit_mask_iff) simp
  qed
  have "(ucast (drop_bit k w AND 255) :: u8) = ucast (drop_bit k w)"
    by (intro bit_word_eqI) (auto simp: bit_simps bits)
  also have "\<dots> = of_nat (unat (drop_bit k w))" by (simp only: of_nat_unat)
  also have "unat (drop_bit k w) = unat w div 2 ^ k" by (simp only: unat_drop_bit_eq) (rule drop_bit_eq_div)
  finally show ?thesis .
qed

lemma STORE64H_number: "STORE64H w = be_number 8 (unat w)"
  using byte_of_word [of 0 w]
  by (simp add: STORE64H_def be_number_def byte_of_word upt_rec [of _ 8])

lemma or_byte: "push_bit 8 w OR ucast b = 256 * w + ucast b" for w :: u64 and b :: u8
proof -
  have "push_bit 8 w OR ucast b = push_bit 8 w + ucast b"
    by (rule disjunctive_add [symmetric]) (auto simp: bit_simps dest: bit_imp_le_length)
  then show ?thesis by (simp add: push_bit_eq_mult)
qed

lemma LOAD64H_horner:
  "LOAD64H y i = foldl (\<lambda>w b. push_bit 8 w OR ucast b) 0
     [y ! i, y ! (i + 1), y ! (i + 2), y ! (i + 3), y ! (i + 4), y ! (i + 5), y ! (i + 6), y ! (i + 7)]"
  by (rule bit_word_eqI)
     (simp add: LOAD64H_def push_bit_or push_bit_push_bit del: push_bit_eq_mult, simp add: ac_simps)

lemma horner_be_nat:
  "foldl (\<lambda>w b. push_bit 8 w OR ucast b) (of_nat n :: u64) bs
     = of_nat (foldl (\<lambda>n b. 256 * n + unat b) n bs)" for bs :: bytes
proof (induction bs arbitrary: n)
  case (Cons b bs)
  have "push_bit 8 (of_nat n :: u64) OR ucast b = of_nat (256 * n + unat b)"
    by (simp only: or_byte) simp
  then show ?case using Cons.IH [of "256 * n + unat b"] by simp
qed simp

lemma LOAD64H_number:
  assumes "i + 8 \<le> length y"
  shows "LOAD64H y i = of_nat (be_nat (take 8 (drop i y)))"
proof -
  have "take 8 (drop i y)
      = [y ! i, y ! (i + 1), y ! (i + 2), y ! (i + 3), y ! (i + 4), y ! (i + 5), y ! (i + 6), y ! (i + 7)]"
    using assms by (intro nth_equalityI) (auto simp: less_Suc_eq numeral_eq_Suc)
  then show ?thesis
    using horner_be_nat [of 0 "take 8 (drop i y)"] by (simp only: LOAD64H_horner be_nat_def semiring_1_class.of_nat_0)
qed

section \<open>Compression\<close>

lemma fill_W_eq:
  "W = map (fips512_W blk) [0..<k] \<Longrightarrow> 16 \<le> k \<Longrightarrow> fill_W n W = map (fips512_W blk) [0..<k + n]"
proof (induction n arbitrary: W k)
  case (Suc n)
  have "fips512_W blk k = Gamma1 (W ! (k - 2)) + W ! (k - 7) + Gamma0 (W ! (k - 15)) + W ! (k - 16)"
    using Suc.prems by (subst fips512_W.simps) (simp add: code_functions)
  then have "W @ [Gamma1 (W ! (k - 2)) + W ! (k - 7) + Gamma0 (W ! (k - 15)) + W ! (k - 16)]
      = map (fips512_W blk) [0..<Suc k]"
    using Suc.prems by simp
  from Suc.IH [OF this] Suc.prems show ?case by (simp add: Let_def del: upt_Suc)
qed simp

lemma schedule512:
  assumes "length blk = 128"
  shows "fill_W 64 (map (\<lambda>i. LOAD64H blk (8 * i)) [0..<16]) = map (fips512_W blk) [0..<80]"
proof -
  have "map (\<lambda>i. LOAD64H blk (8 * i)) [0..<16] = map (fips512_W blk) [0..<16]"
    using assms by (intro map_cong) (auto simp: fips512_W.simps LOAD64H_number)
  from fill_W_eq [OF this, of 64] show ?thesis by simp
qed

text \<open>One use of the macro is a round of the standard with the variables renamed.\<close>

lemma length_RND [simp]: "length (RND W a b c d e f g h i S) = length S"
  by (simp add: RND_def Let_def)

lemma RND_round:
  assumes "length S = 8" "distinct [a, b, c, d, e, f, g, h]" "d < 8" "h < 8"
    "S' = RND W a b c d e f g h i S"
  shows "(S' ! h, S' ! a, S' ! b, S' ! c, S' ! d, S' ! e, S' ! f, S' ! g) =
    fips512_round (K512 ! i) (W ! i) (S ! a, S ! b, S ! c, S ! d, S ! e, S ! f, S ! g, S ! h)"
  using assms by (auto simp: RND_def Let_def nth_list_update code_functions)

definition vars :: "u64 list \<Rightarrow> vars512" where
  "vars S = (S ! 0, S ! 1, S ! 2, S ! 3, S ! 4, S ! 5, S ! 6, S ! 7)"

lemma length_eight_rounds [simp]: "length (eight_rounds W S i) = length S"
  by (simp add: eight_rounds_def Let_def)

lemma eight_rounds_vars:
  assumes "length S = 8" and S: "vars S = fips512_vars blk v i"
    and W: "W = map (fips512_W blk) [0..<80]" and i: "i + 8 \<le> 80"
  shows "vars (eight_rounds W S i) = fips512_vars blk v (i + 8)"
proof -
  have w: "W ! (i + k) = fips512_W blk (i + k)" if "k < 8" for k
    using W i that by simp
  define S1 where "S1 = RND W 0 1 2 3 4 5 6 7 (i + 0) S"
  define S2 where "S2 = RND W 7 0 1 2 3 4 5 6 (i + 1) S1"
  define S3 where "S3 = RND W 6 7 0 1 2 3 4 5 (i + 2) S2"
  define S4 where "S4 = RND W 5 6 7 0 1 2 3 4 (i + 3) S3"
  define S5 where "S5 = RND W 4 5 6 7 0 1 2 3 (i + 4) S4"
  define S6 where "S6 = RND W 3 4 5 6 7 0 1 2 (i + 5) S5"
  define S7 where "S7 = RND W 2 3 4 5 6 7 0 1 (i + 6) S6"
  define S8 where "S8 = RND W 1 2 3 4 5 6 7 0 (i + 7) S7"
  have len: "length S1 = 8" "length S2 = 8" "length S3 = 8" "length S4 = 8" "length S5 = 8"
      "length S6 = 8" "length S7 = 8"
    using assms(1) by (simp_all add: S1_def S2_def S3_def S4_def S5_def S6_def S7_def)
  have step: "fips512_vars blk v (i + Suc k) = fips512_round (K512 ! (i + k)) (W ! (i + k)) (fips512_vars blk v (i + k))"
    if "k < 8" for k
    using w [OF that] by simp
  note rounds = RND_round [OF assms(1) _ _ _ S1_def] RND_round [OF len(1) _ _ _ S2_def]
    RND_round [OF len(2) _ _ _ S3_def] RND_round [OF len(3) _ _ _ S4_def]
    RND_round [OF len(4) _ _ _ S5_def] RND_round [OF len(5) _ _ _ S6_def]
    RND_round [OF len(6) _ _ _ S7_def] RND_round [OF len(7) _ _ _ S8_def]
  have "vars S8 = fips512_vars blk v (i + 8)"
    using step [of 0] step [of 1] step [of 2] step [of 3] step [of 4] step [of 5] step [of 6] step [of 7]
      S rounds
    by (simp add: vars_def del: fips512_round.simps fips512_vars.simps)
  then show ?thesis
    by (simp only: eight_rounds_def Let_def S1_def S2_def S3_def S4_def S5_def S6_def S7_def S8_def)
qed

lemma upto_eight: "[0..<8] = [0, 1, 2, 3, 4, 5, 6, 7 :: nat]"
  by (simp add: numeral_eq_Suc)

lemma length_sha512_compress [simp]: "length (md_state (sha512_compress md blk)) = 8"
  by (simp add: sha512_compress_def Let_def)

lemma eight_rounds_fold:
  assumes "length S = 8" "vars S = fips512_vars blk v 0"
  shows "vars (foldl (eight_rounds (map (fips512_W blk) [0..<80])) S [0, 8, 16, 24, 32, 40, 48, 56, 64, 72])
     = fips512_vars blk v 80"
proof -
  have "length T = 8 \<and> vars T = fips512_vars blk v (8 * n)"
    if "n \<le> 10" "T = foldl (eight_rounds (map (fips512_W blk) [0..<80])) S (map (\<lambda>k. 8 * k) [0..<n])" for n T
    using that
  proof (induction n arbitrary: T)
    case 0
    then show ?case using assms by simp
  next
    case (Suc n)
    then show ?case using eight_rounds_vars [OF _ _ refl, of _ blk v "8 * n"]
      by (simp add: add.commute del: fips512_vars.simps)
  qed
  from this [of 10] show ?thesis by (simp add: upt_rec [of _ 10] del: fips512_vars.simps)
qed

lemma sha512_compress_fips:
  assumes "length blk = 128" "length (md_state md) = 8"
  shows "md_state (sha512_compress md blk) = fips512_compress (md_state md) blk"
proof -
  let ?H = "md_state md"
  let ?S = "foldl (eight_rounds (map (fips512_W blk) [0..<80])) ?H [0, 8, 16, 24, 32, 40, 48, 56, 64, 72]"
  define T where "T = ?S"
  have v: "vars T = fips512_vars blk (vars ?H) 80"
    unfolding T_def by (rule eight_rounds_fold) (simp_all add: assms)
  have "md_state (sha512_compress md blk) = map (\<lambda>i. ?H ! i + T ! i) [0..<8]"
    by (simp add: sha512_compress_def schedule512 [OF assms(1)] T_def Let_def)
  moreover have "fips512_vars blk (?H ! 0, ?H ! 1, ?H ! 2, ?H ! 3, ?H ! 4, ?H ! 5, ?H ! 6, ?H ! 7) 80 = vars T"
    by (simp only: v vars_def [of ?H])
  ultimately show ?thesis
    by (simp add: fips512_compress_def vars_def upto_eight)
qed

section \<open>The streaming code computes FIPS 180-4\<close>

definition absorbed512 :: "sha512_context \<Rightarrow> bytes \<Rightarrow> bool" where
  "absorbed512 md p \<longleftrightarrow>
     (\<exists>q r. p = q @ r \<and> 128 dvd length q \<and> length r < 128 \<and> md_curlen md = length r
        \<and> length (md_buf md) = 128 \<and> take (length r) (md_buf md) = r
        \<and> md_length md = of_nat (8 * length q) \<and> length (md_state md) = 8
        \<and> md_state md = foldl fips512_compress sha512_initial_state (blocks 128 q))"

lemma absorbed512_init: "length (md_buf md) = 128 \<Longrightarrow> absorbed512 (init_md md) []"
  unfolding absorbed512_def
  by (rule exI [of _ "[]"]) (simp add: init_md_def sha512_initial_state_def)

lemma length_fips512_compress [simp]: "length (fips512_compress H b) = 8"
  by (simp add: fips512_compress_def split: prod.splits)

lemma keep_curlen: "md_curlen m = c \<Longrightarrow> m\<lparr>md_length := x, md_curlen := c\<rparr> = m\<lparr>md_length := x\<rparr>"
  by (cases m) simp

lemma absorbed512_block:
  assumes "128 dvd length q" "length b = 128" "length (md_buf md) = 128" "length (md_state md) = 8"
    "md_length md = of_nat (8 * length q)"
    "md_state md = foldl fips512_compress sha512_initial_state (blocks 128 q)"
  shows "absorbed512 ((sha512_compress md b)\<lparr>md_length := md_length md + 128 * 8, md_curlen := 0\<rparr>) (q @ b)"
  unfolding absorbed512_def
  by (rule exI [of _ "q @ b"], rule exI [of _ "[]"])
     (use assms in \<open>simp add: blocks_append sha512_compress_fips algebra_simps\<close>)

lemma absorbed512_loop:
  "absorbed512 md p \<Longrightarrow> \<exists>md'. sha512_update_loop md inp = Some md' \<and> absorbed512 md' (p @ inp)"
proof (induction "length inp" arbitrary: md p inp rule: less_induct)
  case less
  show ?case
  proof (cases "inp = []")
    case True
    with less.prems show ?thesis by (simp add: sha512_update_loop.simps)
  next
    case False
    obtain q r where p: "p = q @ r" "128 dvd length q" "length r < 128" "md_curlen md = length r"
        "length (md_buf md) = 128" "take (length r) (md_buf md) = r"
        "md_length md = of_nat (8 * length q)" "length (md_state md) = 8"
        "md_state md = foldl fips512_compress sha512_initial_state (blocks 128 q)"
      using less.prems unfolding absorbed512_def by blast
    note unfold = sha512_update_loop.simps [of md inp]
    show ?thesis
    proof (cases "md_curlen md = 0 \<and> length inp \<ge> 128")
      case True
      let ?md = "(sha512_compress md (take 128 inp))\<lparr>md_length := md_length md + 128 * 8, md_curlen := 0\<rparr>"
      have "absorbed512 ?md (q @ take 128 inp)"
        by (rule absorbed512_block) (use p True in auto)
      moreover have "length (drop 128 inp) < length inp" using True by auto
      ultimately obtain md' where "sha512_update_loop ?md (drop 128 inp) = Some md'"
          "absorbed512 md' ((q @ take 128 inp) @ drop 128 inp)"
        using less.hyps by blast
      moreover have "sha512_update_loop md inp = sha512_update_loop ?md (drop 128 inp)"
        using False True by (simp add: unfold Let_def keep_curlen)
      ultimately show ?thesis using True p(1,4) by simp
    next
      case part: False
      let ?n = "min (length inp) (128 - length r)"
      let ?md = "md\<lparr>md_buf := r @ take ?n inp @ drop (length r + ?n) (md_buf md),
                     md_curlen := length r + ?n\<rparr>"
      let ?md' = "(sha512_compress ?md (md_buf ?md))\<lparr>md_length := md_length md + 128 * 8, md_curlen := 0\<rparr>"
      have part': "\<not> (r = [] \<and> 128 \<le> length inp)" using part p(4) by simp
      have step: "sha512_update_loop md inp =
          (if length r + ?n = 128 then sha512_update_loop ?md' (drop ?n inp)
           else sha512_update_loop ?md (drop ?n inp))"
        using p(3,4,6) by (simp add: unfold size_sub_128 Let_def False part' del: de_Morgan_conj)
      have n: "0 < ?n" using False p(3) by simp
      show ?thesis
      proof (cases "length r + ?n = 128")
        case True
        have "absorbed512 ?md' (q @ (r @ take ?n inp))"
          using absorbed512_block [of q "r @ take ?n inp" ?md] p True by (auto simp: min_def split: if_splits)
        moreover have "length (drop ?n inp) < length inp" using n by simp
        ultimately obtain md' where "sha512_update_loop ?md' (drop ?n inp) = Some md'"
            "absorbed512 md' ((q @ r @ take ?n inp) @ drop ?n inp)"
          using less.hyps by blast
        then show ?thesis using step True p(1) by simp
      next
        case False
        then have all: "?n = length inp" "length r + length inp < 128"
          using p(3) by (auto simp: min_def split: if_splits)
        have "absorbed512 ?md (q @ (r @ inp))"
          unfolding absorbed512_def
          by (rule exI [of _ q], rule exI [of _ "r @ inp"]) (use p all in simp)
        then show ?thesis using step False all p(1) by (simp add: sha512_update_loop.simps [of _ "[]"])
      qed
    qed
  qed
qed

lemma be_number_16: "x < 2 ^ 64 \<Longrightarrow> be_number 16 x = replicate 8 0 @ be_number 8 x"
proof -
  assume x: "x < 2 ^ 64"
  have "x div 256 ^ (15 - i) = 0" if "i < 8" for i
  proof -
    have "(2 :: nat) ^ 64 = 256 ^ 8" by simp
    also have "\<dots> \<le> 256 ^ (15 - i)" using that by (intro power_increasing) auto
    finally show ?thesis using x by simp
  qed
  then show ?thesis
    by (intro nth_equalityI) (auto simp: be_number_def nth_append)
qed

lemma pad_zeros_sel [simp]:
  "md_state (pad_zeros n md) = md_state md" "md_length (pad_zeros n md) = md_length md"
  "md_curlen (pad_zeros n md) = max n (md_curlen md)"
  by (simp_all add: pad_zeros_def)

lemma pad_zeros_buf:
  assumes "length b = 128" "length r < n" "n \<le> 128" "take (length r) b = r"
  shows "take n (md_buf (pad_zeros n (md\<lparr>md_length := l, md_buf := b[length r := x], md_curlen := length r + 1\<rparr>)))
    = r @ [x] @ replicate (n - 1 - length r) 0"
proof -
  have "n - length r = Suc (n - Suc (length r))" using assms(2) by simp
  then show ?thesis using assms by (simp add: pad_zeros_def take_Suc_conv_app_nth)
qed

lemma sha512_final_short:
  assumes "length r < 112" "md_curlen md = length r" "length (md_buf md) = 128"
    "take (length r) (md_buf md) = r" "length (md_state md) = 8"
  shows "md_digest (final_md md) = concat (map STORE64H (fips512_compress (md_state md)
      (r @ [0x80] @ replicate (119 - length r) 0 @ STORE64H (md_length md + of_nat (length r) * 8))))"
proof -
  define b where "b = md_buf md"
  define l where "l = md_length md + of_nat (length r) * 8"
  define md2 where "md2 = md\<lparr>md_length := l, md_buf := b[length r := 0x80], md_curlen := length r + 1\<rparr>"
  have "take 120 (md_buf (pad_zeros 120 md2)) = r @ [0x80] @ replicate (119 - length r) 0"
    unfolding md2_def using pad_zeros_buf [of b r 120] assms by (simp add: b_def)
  moreover have "md_length md2 = l" "md_state md2 = md_state md" "md_curlen md2 \<le> 112"
    using assms(1) by (simp_all add: md2_def)
  moreover have "final_md md = (let md = pad_zeros 120 md2;
        md = md\<lparr>md_buf := take 120 (md_buf md) @ STORE64H (md_length md)\<rparr>
      in sha512_compress md (md_buf md))"
    using assms by (simp add: final_md_def md2_def l_def b_def)
  ultimately show ?thesis
    using assms by (simp add: md_digest_def sha512_compress_fips l_def [symmetric])
qed

lemma sha512_final_long:
  assumes "112 \<le> length r" "length r < 128" "md_curlen md = length r" "length (md_buf md) = 128"
    "take (length r) (md_buf md) = r" "length (md_state md) = 8"
  shows "md_digest (final_md md) = concat (map STORE64H (fips512_compress
      (fips512_compress (md_state md) (r @ [0x80] @ replicate (127 - length r) 0))
      (replicate 120 0 @ STORE64H (md_length md + of_nat (length r) * 8))))"
proof -
  define b where "b = md_buf md"
  define l where "l = md_length md + of_nat (length r) * 8"
  define md2 where "md2 = md\<lparr>md_length := l, md_buf := b[length r := 0x80], md_curlen := length r + 1\<rparr>"
  define md3 where "md3 = (sha512_compress (pad_zeros 128 md2) (md_buf (pad_zeros 128 md2)))\<lparr>md_curlen := 0\<rparr>"
  have "length (md_buf (pad_zeros 128 md2)) = 128"
    using assms by (simp add: md2_def pad_zeros_def b_def)
  then have "md_buf (pad_zeros 128 md2) = take 128 (md_buf (pad_zeros 128 md2))" by simp
  also have "\<dots> = r @ [0x80] @ replicate (127 - length r) 0"
    unfolding md2_def using pad_zeros_buf [of b r 128] assms by (simp add: b_def)
  finally have buf: "md_buf (pad_zeros 128 md2) = r @ [0x80] @ replicate (127 - length r) 0" .
  have "md_state md3 = fips512_compress (md_state md) (r @ [0x80] @ replicate (127 - length r) 0)"
  proof -
    have "md_state md2 = md_state md" by (simp add: md2_def)
    then show ?thesis using assms by (simp add: md3_def buf sha512_compress_fips)
  qed
  moreover have "md_length md3 = l" by (simp add: md3_def) (simp add: md2_def)
  moreover have "take 120 (md_buf (pad_zeros 120 md3)) = replicate 120 0"
    by (simp add: pad_zeros_def md3_def)
  moreover have "final_md md = (let md = pad_zeros 120 md3;
        md = md\<lparr>md_buf := take 120 (md_buf md) @ STORE64H (md_length md)\<rparr>
      in sha512_compress md (md_buf md))"
    using assms by (simp add: final_md_def md2_def md3_def l_def b_def Let_def)
  ultimately show ?thesis
    using assms by (simp add: md_digest_def sha512_compress_fips l_def [symmetric])
qed

lemma absorbed512_final:
  assumes "absorbed512 md p" and small: "length p < 2 ^ 61"
  shows "md_digest (final_md md) = fips_sha512 p"
proof -
  obtain q r where p: "p = q @ r" "128 dvd length q" "length r < 128" "md_curlen md = length r"
      "length (md_buf md) = 128" "take (length r) (md_buf md) = r"
      "md_length md = of_nat (8 * length q)" "length (md_state md) = 8"
      "md_state md = foldl fips512_compress sha512_initial_state (blocks 128 q)"
    using assms unfolding absorbed512_def by blast
  define N :: u64 where "N = of_nat (8 * length p)"
  let ?n = "STORE64H N"
  have len: "md_length md + of_nat (length r) * 8 = N"
    by (simp add: p(1,7) N_def algebra_simps)
  have lm: "length p mod 128 = length r" using p(1,2,3) by (auto simp: mod_add_eq elim!: dvdE)
  have n: "be_number 16 (8 * length p) = replicate 8 0 @ ?n"
  proof -
    have "unat (of_nat (8 * length p) :: u64) = 8 * length p"
      using small by (simp add: unat_of_nat del: of_nat_mult)
    then show ?thesis using small by (simp add: STORE64H_number N_def be_number_16 del: of_nat_mult)
  qed
  have spec: "fips_sha512 p = concat (map STORE64H
      (foldl fips512_compress sha512_initial_state (blocks 128 (fips512_pad p))))"
    by (simp add: fips_sha512_def STORE64H_number [abs_def])
  show ?thesis
  proof (cases "length r < 112")
    case True
    let ?b = "r @ [0x80] @ replicate (119 - length r) 0 @ ?n"
    have z: "(239 - length r) mod 128 = 111 - length r" using True by (simp add: mod_if)
    have "(111 - length r) + 8 = 119 - length r" using True by simp
    then have "replicate (119 - length r) 0 = (replicate (111 - length r) 0 @ replicate 8 0 :: bytes)"
      by (simp only: flip: replicate_add)
    then have "fips512_pad p = q @ ?b"
      unfolding fips512_pad_def lm n z by (simp only: p(1) append_assoc)
    then have "blocks 128 (fips512_pad p) = blocks 128 q @ [?b]"
      using p(2) True by (simp add: blocks_append)
    then show ?thesis
      using sha512_final_short [OF True p(4,5,6,8)] by (simp add: spec len p(9))
  next
    case False
    let ?b1 = "r @ [0x80] @ replicate (127 - length r) 0"
    let ?b2 = "replicate 120 0 @ ?n"
    have "(239 - length r) mod 128 = 239 - length r" using False p(3) by (simp add: mod_if)
    moreover have "replicate (239 - length r) 0 @ replicate 8 0
        = replicate (127 - length r) 0 @ (replicate 120 0 :: bytes)"
      using False p(3) by (simp flip: replicate_add)
    ultimately have pad: "fips512_pad p = (q @ ?b1) @ ?b2"
      unfolding fips512_pad_def lm n by (simp add: p(1))
    have b1: "length ?b1 = 128" using False p(3) by simp
    have "blocks 128 (fips512_pad p) = blocks 128 q @ [?b1, ?b2]"
      unfolding pad using p(2) b1 by (subst blocks_append) (simp_all add: blocks_append)
    moreover have "112 \<le> length r" using False by simp
    ultimately show ?thesis
      using sha512_final_long [OF _ p(3,4,5,6,8)] by (simp add: spec len p(9))
  qed
qed

text \<open>
  The message in pieces, as signing and verifying do it: nobody looks at the result codes.  The
  result has the context and the output array afterwards.
\<close>

fun sha512_updates :: "sha512_context option \<Rightarrow> bytes option list \<Rightarrow> sha512_context option option" where
  "sha512_updates md [] = Some md"
| "sha512_updates md (c # cs) =
     (case sha512_update md c of None \<Rightarrow> None | Some (md, ret) \<Rightarrow> sha512_updates md cs)"

definition sha512_chunks ::
    "sha512_context \<Rightarrow> bytes option list \<Rightarrow> bytes option \<Rightarrow> (sha512_context option \<times> bytes option) option" where
  "sha512_chunks md cs out =
     (case sha512_updates (fst (sha512_init (Some md))) cs of
        None \<Rightarrow> None
      | Some md \<Rightarrow> let (md, out, ret) = sha512_final md out in Some (md, out))"

lemma absorbed512_update:
  assumes "absorbed512 md p"
  shows "\<exists>md'. sha512_update (Some md) (Some c) = Some (Some md', 0) \<and> absorbed512 md' (p @ c)"
proof -
  have "md_curlen md < 128" using assms by (auto simp: absorbed512_def)
  then show ?thesis using absorbed512_loop [OF assms, of c] by (auto simp: sha512_update_def)
qed

lemma absorbed512_updates:
  "absorbed512 md p \<Longrightarrow> \<exists>md'. sha512_updates (Some md) (map Some cs) = Some (Some md') \<and> absorbed512 md' (p @ concat cs)"
proof (induction cs arbitrary: md p)
  case (Cons c cs)
  from absorbed512_update [OF Cons.prems] obtain md' where
    "sha512_update (Some md) (Some c) = Some (Some md', 0)" "absorbed512 md' (p @ c)" by blast
  with Cons.IH [of md' "p @ c"] show ?case by simp
qed simp

lemma sha512_final_absorbed:
  assumes "absorbed512 md p" "length out = 64"
  shows "sha512_final (Some md) (Some out) = (Some (final_md md), Some (md_digest (final_md md)), 0)"
  using assms by (auto simp: sha512_final_def absorbed512_def Let_def)

lemma length_final_md [simp]: "length (md_buf md) = 128 \<Longrightarrow> length (md_buf (final_md md)) = 128"
  by (auto simp: final_md_def Let_def pad_zeros_def STORE64H_def max_def)

lemma length_md_digest [simp]: "length (md_digest (final_md md)) = 64"
proof -
  have "length (concat (map STORE64H ws)) = 8 * length ws" for ws
    by (induction ws) (simp_all add: STORE64H_def)
  then show ?thesis by (simp add: md_digest_def final_md_def Let_def)
qed

text \<open>What hashing in pieces does, for messages of any length and for the ones FIPS 180-4 is about.\<close>

lemma sha512_chunks_returns:
  assumes "length (md_buf md) = 128" "length out = 64"
  obtains md' d where "sha512_chunks md (map Some cs) (Some out) = Some (Some md', Some d)"
    "length (md_buf md') = 128" "length d = 64" "length (concat cs) < 2 ^ 61 \<Longrightarrow> d = fips_sha512 (concat cs)"
proof -
  obtain md1 where md1: "sha512_updates (Some (init_md md)) (map Some cs) = Some (Some md1)" "absorbed512 md1 (concat cs)"
    using absorbed512_updates [OF absorbed512_init [OF assms(1)], of cs] by auto
  have "length (md_buf md1) = 128" using md1(2) by (auto simp: absorbed512_def)
  moreover have "sha512_chunks md (map Some cs) (Some out) = Some (Some (final_md md1), Some (md_digest (final_md md1)))"
    using md1(1) sha512_final_absorbed [OF md1(2) assms(2)] by (simp add: sha512_chunks_def sha512_init_def)
  ultimately show thesis using that absorbed512_final [OF md1(2)] by simp
qed

lemma sha512_returns:
  assumes "length (md_buf md) = 128" "length out = 64"
  obtains d where "sha512 md (Some message) (Some out) = Some (Some d, 0)"
    "length d = 64" "length message < 2 ^ 61 \<Longrightarrow> d = fips_sha512 message"
proof -
  obtain md1 where md1: "sha512_update (Some (init_md md)) (Some message) = Some (Some md1, 0)" "absorbed512 md1 message"
    using absorbed512_update [OF absorbed512_init [OF assms(1)], of message] by auto
  then have "sha512 md (Some message) (Some out) = Some (Some (md_digest (final_md md1)), 0)"
    using sha512_final_absorbed [OF md1(2) assms(2)] by (simp add: sha512_def sha512_init_def)
  then show thesis using that absorbed512_final [OF md1(2)] by simp
qed

lemma length_fips_sha512 [simp, len_simps]: "length (fips_sha512 msg) = 64"
proof -
  have "length (foldl fips512_compress H bs) = 8" if "length H = 8" for H bs
    using that by (induction bs arbitrary: H) simp_all
  moreover have "length (concat (map (\<lambda>w. be_number 8 (unat w)) ws)) = 8 * length ws" for ws :: "u64 list"
    by (induction ws) (simp_all add: be_number_def)
  ultimately show ?thesis by (simp add: fips_sha512_def sha512_initial_state_def)
qed

section \<open>Properties\<close>

text \<open>Updating a hash always returns: with the code 1 for a null pointer or an overfull context,
  which is left as it was, else with 0 and, unless there was nothing to add, room for more bytes.\<close>

theorem sha512_update_returns:
  "\<exists>md' ret. sha512_update md inp = Some (md', ret) \<and>
    ret = (if md = None \<or> inp = None \<or> md_curlen (the md) > 128 then 1 else 0) \<and>
    (if ret = 1 \<or> inp = Some [] then md' = md else md' \<noteq> None \<and> md_curlen (the md') < 128)"
proof (cases "md = None \<or> inp = None \<or> md_curlen (the md) > 128")
  case True
  then show ?thesis by (auto simp: sha512_update_def split: option.splits)
next
  case False
  then obtain c bs where c: "md = Some c" "inp = Some bs" "md_curlen c \<le> 128" by auto
  then show ?thesis
    using update_loop_returns [OF c(3), of bs]
    by (cases "bs = []") (auto simp: sha512_update_def sha512_update_loop.simps [of _ "[]"])
qed

text \<open>C18: A message that is fed to SHA-512 in any pieces, from any initial memory, gives the digest of
  FIPS 180-4, as long as its length in bits fits into 64 bits, and so does the function that hashes
  it at once, which returns 0.\<close>

theorem sha512_streaming:
  assumes "length (md_buf md) = 128" "length out = 64" "length (concat cs) < 2 ^ 61"
  shows "(\<exists>md'. sha512_chunks md (map Some cs) (Some out) = Some (Some md', Some (fips_sha512 (concat cs)))) \<and>
    sha512 md (Some (concat cs)) (Some out) = Some (Some (fips_sha512 (concat cs)), 0)"
proof
  show "\<exists>md'. sha512_chunks md (map Some cs) (Some out) = Some (Some md', Some (fips_sha512 (concat cs)))"
    using assms(3) by (rule_tac sha512_chunks_returns [OF assms(1,2), of cs]) blast
  show "sha512 md (Some (concat cs)) (Some out) = Some (Some (fips_sha512 (concat cs)), 0)"
    using assms(3) by (rule_tac sha512_returns [OF assms(1,2), of "concat cs"]) blast
qed

lemma sha512_streaming_witness:
  "sha512 \<lparr>md_length = 3, md_state = [], md_curlen = 77, md_buf = replicate 128 0xA5\<rparr>
     (Some [0x61, 0x62, 0x63]) (Some (replicate 64 9)) = Some (Some (fips_sha512 [0x61, 0x62, 0x63]), 0)"
  using sha512_streaming [of "\<lparr>md_length = 3, md_state = [], md_curlen = 77, md_buf = replicate 128 0xA5\<rparr>"
      "replicate 64 9" "[[0x61], [], [0x62, 0x63]]"] by simp

end
