(* ===== verification/Ed25519.thy ===== *)
theory Ed25519
  imports EdTable EdScalar Sha512
begin

text \<open>
  Key pairs and signatures, \<open>lib/ed25519/src/keypair.c\<close>, \<open>sign.c\<close> and \<open>verify.c\<close>.  Arguments that the
  functions do not have in C: the table they multiply with, the hash context on the stack, which
  holds anything, and the local arrays a hash is written to, with what they hold before.  \<open>None\<close> is a
  call that does not return.
\<close>

section \<open>The code\<close>

definition ed25519_create_keypair ::
    "ge_precomp list list \<Rightarrow> sha512_context \<Rightarrow> bytes \<Rightarrow> bytes \<Rightarrow> (bytes \<times> bytes) option" where
  "ed25519_create_keypair base ctx private_key seed =
     (case sha512 ctx (Some (take 32 seed)) (Some private_key) of
        None \<Rightarrow> None
      | Some (private_key, ret) \<Rightarrow>
          (let private_key = the private_key;
               private_key = private_key[0 := private_key ! 0 AND 248];
               private_key = private_key[31 := private_key ! 31 AND 63];
               private_key = private_key[31 := private_key ! 31 OR 64];
               A = ge_scalarmult_base base (take 32 private_key);
               public_key = ge_p3_tobytes A
           in Some (public_key, private_key)))"

definition ed25519_sign ::
    "ge_precomp list list \<Rightarrow> sha512_context \<Rightarrow> bytes \<Rightarrow> bytes \<Rightarrow> bytes \<Rightarrow> bytes \<Rightarrow> bytes \<Rightarrow> bytes option" where
  "ed25519_sign base hash r hram message public_key private_key =
     (case sha512_chunks hash [Some (take 32 (drop 32 private_key)), Some message] (Some r) of
        None \<Rightarrow> None
      | Some (hash, r) \<Rightarrow>
          (let r = sc_reduce (the r);
               R = ge_scalarmult_base base (take 32 r);
               signature = ge_p3_tobytes R
           in case sha512_chunks (the hash) [Some signature, Some (take 32 public_key), Some message] (Some hram) of
                None \<Rightarrow> None
              | Some (hash, hram) \<Rightarrow>
                  (let hram = sc_reduce (the hram)
                   in Some (signature @ sc_muladd (take 32 hram) (take 32 private_key) (take 32 r)))))"

definition consttime_equal :: "bytes \<Rightarrow> bytes \<Rightarrow> bool" where
  "consttime_equal x y =
     (let r = x ! 0 XOR y ! 0;
          r = fold (\<lambda>i r. r OR (x ! i XOR y ! i)) [1..<32] r
      in r = 0)"

definition ed25519_verify ::
    "ge_precomp list \<Rightarrow> sha512_context \<Rightarrow> bytes \<Rightarrow> bytes \<Rightarrow> bytes \<Rightarrow> bytes \<Rightarrow> bool option" where
  "ed25519_verify tab hash h signature message public_key =
     (if signature ! 63 AND 224 \<noteq> 0 then Some False
      else
        (case ge_frombytes_negate_vartime public_key of
           None \<Rightarrow> Some False
         | Some A \<Rightarrow>
             (case sha512_chunks hash [Some (take 32 signature), Some (take 32 public_key), Some message] (Some h) of
                None \<Rightarrow> None
              | Some (hash, h) \<Rightarrow>
                  (let h = sc_reduce (the h);
                       R = ge_double_scalarmult_vartime tab (take 32 h) A (take 32 (drop 32 signature));
                       checker = ge_tobytes R
                   in if \<not> consttime_equal checker signature then Some False else Some True))))"

section \<open>The parts\<close>

lemma or_fold_zero: "fold (\<lambda>i r. r OR f i) is (r :: u8) = 0 \<longleftrightarrow> r = 0 \<and> (\<forall>i\<in>set is. f i = 0)"
  by (induction "is" arbitrary: r) (auto simp: or_eq_0_iff)

lemma consttime_equal_iff: "length x = 32 \<Longrightarrow> consttime_equal x y \<longleftrightarrow> x = take 32 y" if "32 \<le> length y"
proof -
  assume x: "length x = 32"
  have xor: "b XOR c = 0 \<longleftrightarrow> b = c" for b c :: u8 using xor.assoc [of b c c] by auto
  have "consttime_equal x y \<longleftrightarrow> x ! 0 = y ! 0 \<and> (\<forall>i\<in>{1..<32}. x ! i = y ! i)"
    by (simp add: consttime_equal_def Let_def or_fold_zero xor)
  also have "\<dots> \<longleftrightarrow> (\<forall>i<32. x ! i = y ! i)"
    by (metis One_nat_def Suc_leI atLeastLessThan_iff not_gr_zero zero_less_numeral)
  also have "\<dots> \<longleftrightarrow> x = take 32 y" using x that by (auto simp: list_eq_iff_nth_eq)
  finally show ?thesis .
qed

lemma length_ge_p3_tobytes: "length (ge_p3_tobytes p) = 32"
  by (simp add: ge_p3_tobytes_def fe_tobytes_def fe_bytes_def Let_def)

lemma reduced:
  assumes "length d = 64"
  shows "length (take 32 (sc_reduce d)) = 32" "le_int (take 32 (sc_reduce d)) = le_int d mod order25519"
  using sc_reduce_value [OF assms] by simp_all

lemma order_bounds: "0 < order25519" "order25519 < 2 ^ 253"
  by (simp_all add: order25519_def)

lemma mod_order: "0 \<le> k mod order25519" "k mod order25519 < 2 ^ 253"
  using order_bounds pos_mod_bound [of order25519 k] pos_mod_sign [of order25519 k] by linarith+

text \<open>A number below \<open>2 ^ 253\<close> has the three top bits of its last byte clear.\<close>

lemma top_bits_byte: "(b AND 224 = 0) = (uint (b :: u8) < 32)"
  by (rule all_bytes) code_simp

lemma last_byte_value: "length s = 32 \<Longrightarrow> le_int s div 2 ^ 248 = uint (s ! 31)"
proof -
  assume len: "length s = 32"
  have s: "le_int s = le_int (take 31 s) + uint (s ! 31) * 2 ^ 248"
    using len le_int_append [of "take 31 s" "[s ! 31]"] take_Suc_conv_app_nth [of 31 s] by (simp add: le_int_Cons)
  have "0 \<le> le_int (take 31 s)" "le_int (take 31 s) < 2 ^ 248" using le_int_bounds [of "take 31 s"] len by simp_all
  then show ?thesis unfolding s by simp
qed

lemma int_div_less_iff: "0 < k \<Longrightarrow> v div k < u \<longleftrightarrow> v < u * k" for k u v :: int
proof -
  assume k: "0 < k"
  have v: "(v div k) * k + v mod k = v" by simp
  show ?thesis
  proof (cases "v div k < u")
    case True
    then have "(v div k + 1) * k \<le> u * k" using k by (intro mult_right_mono) auto
    then have "(v div k) * k + k \<le> u * k" by (simp only: distrib_right mult_1)
    then have "v < u * k" using v pos_mod_bound [OF k, of v] by linarith
    then show ?thesis using True by simp
  next
    case False
    then have "u * k \<le> (v div k) * k" using k by (intro mult_right_mono) auto
    then show ?thesis using False v pos_mod_sign [OF k, of v] by linarith
  qed
qed

lemma top_bits: "length s = 32 \<Longrightarrow> s ! 31 AND 224 = 0 \<longleftrightarrow> le_int s < 2 ^ 253"
  using int_div_less_iff [of "2 ^ 248" "le_int s" 32] by (simp add: top_bits_byte flip: last_byte_value)

lemma small_top_byte: "length s = 32 \<Longrightarrow> le_int s < 2 ^ 255 \<Longrightarrow> s ! 31 \<le> 127"
  using int_div_less_iff [of "2 ^ 248" "le_int s" 128] by (simp add: word_le_def flip: last_byte_value)

section \<open>Verification\<close>

text \<open>The point that 32 bytes stand for: its second coordinate, and the parity of the first.\<close>

definition decodes :: "bytes \<Rightarrow> ed_point \<Rightarrow> bool" where
  "decodes s P \<longleftrightarrow> py P = coordinate s \<and> (px P = 0 \<or> gf_sign (px P) = unat (drop_bit 7 (s ! 31)))"

lemma decodes_negated:
  assumes "length s = 32"
  shows "decodes s P \<longleftrightarrow> point_from (coordinate s) (unat (drop_bit 7 (s ! 31))) (- P)"
proof -
  have "unat (drop_bit 7 (s ! 31)) = 0 \<or> unat (drop_bit 7 (s ! 31)) = 1" using top_bit_le [of "s ! 31"] by linarith
  then show ?thesis
    using gf_sign_minus [of "px P"] gf_sign_le [of "px P"]
    by (cases "px P = 0"; elim disjE) (auto simp: decodes_def point_from_def)
qed

lemma decodes_point_bytes: "decodes (point_bytes P) P"
  by (simp add: decodes_def point_bytes_parts)

lemma point_decoded:
  assumes "length s = 32"
  shows "case ge_frombytes_negate_vartime s of None \<Rightarrow> \<nexists>A. decodes s A
    | Some h \<Rightarrow> \<exists>A. p3_is h (- A) \<and> decodes s A \<and> (\<forall>A'. decodes s A' \<longrightarrow> A' = A)"
proof (cases "ge_frombytes_negate_vartime s")
  case None
  then show ?thesis using ge_frombytes_cases [OF assms] by (auto simp: decodes_def)
next
  case (Some h)
  then obtain Q where Q: "p3_is h Q" "point_from (coordinate s) (unat (drop_bit 7 (s ! 31))) Q"
    using ge_frombytes_cases [OF assms] by auto
  have "A' = - Q" if "decodes s A'" for A'
    using point_from_unique [OF _ Q(2) top_bit_le, of "- A'"] that unfolding decodes_negated [OF assms]
    by (metis minus_minus)
  moreover have "decodes s (- Q)" "p3_is h (- (- Q))" using Q by (simp_all add: decodes_negated [OF assms])
  ultimately show ?thesis unfolding Some option.case by blast
qed

lemma some_of_bool: "(if \<not> b then Some False else Some True) = Some b"
  by simp

lemma verify_cases:
  assumes "odd_multiples tab B" "length signature = 64" "length public_key = 32" "length d = 64"
    and "sha512_chunks hash [Some (take 32 signature), Some public_key, Some message] (Some h) = Some (hash', Some d)"
  shows "ed25519_verify tab hash h signature message public_key = Some
    (le_int (drop 32 signature) < 2 ^ 253 \<and>
     (\<exists>A. decodes public_key A \<and>
      take 32 signature = point_bytes (smul (le_int (drop 32 signature)) B - smul (le_int d mod order25519) A)))"
    (is "_ = Some ?valid")
proof -
  let ?S = "drop 32 signature" and ?h = "take 32 (sc_reduce d)"
  have S: "length ?S = 32" "take 32 ?S = ?S" "?S ! 31 = signature ! 63" using assms(2) by simp_all
  show ?thesis
  proof (cases "le_int ?S < 2 ^ 253 \<and> ge_frombytes_negate_vartime public_key \<noteq> None")
    case True
    then obtain p where p: "ge_frombytes_negate_vartime public_key = Some p" by blast
    obtain A where A: "p3_is p (- A)" "decodes public_key A" "\<And>A'. decodes public_key A' \<Longrightarrow> A' = A"
      using point_decoded [OF assms(3)] unfolding p option.case by blast
    have "le_int ?h < 2 ^ 253" unfolding reduced(2) [OF assms(4)] by (rule mod_order)
    from ge_tobytes_is [OF double_scalarmult_is [OF A(1) assms(1) reduced(1) [OF assms(4)] S(1) this conjunct1 [OF True]]]
    have checker: "ge_tobytes (ge_double_scalarmult_vartime tab ?h p ?S) =
        point_bytes (smul (le_int ?S) B - smul (le_int d mod order25519) A)"
      by (simp only: reduced(2) [OF assms(4)] smul_neg uminus_add_conv_diff)
    have key: "take 32 public_key = public_key" using assms(3) by simp
    have top: "signature ! 63 AND 224 = 0" using True top_bits [OF S(1)] unfolding S(3) by blast
    have "ed25519_verify tab hash h signature message public_key =
        Some (consttime_equal (ge_tobytes (ge_double_scalarmult_vartime tab ?h p ?S)) signature)"
      unfolding ed25519_verify_def Let_def
      by (simp only: top key p option.case assms(5) S(2) prod.case option.sel simp_thms if_False some_of_bool)
    moreover have "consttime_equal (ge_tobytes (ge_double_scalarmult_vartime tab ?h p ?S)) signature \<longleftrightarrow>
        take 32 signature = point_bytes (smul (le_int ?S) B - smul (le_int d mod order25519) A)"
      unfolding checker using assms(2) by (subst consttime_equal_iff) (auto simp: point_bytes_number(1))
    moreover have "?valid \<longleftrightarrow> take 32 signature = point_bytes (smul (le_int ?S) B - smul (le_int d mod order25519) A)"
      using True A(2,3) by blast
    ultimately show ?thesis by (simp only:)
  next
    case False
    then have "\<not> ?valid" using point_decoded [OF assms(3)] by (auto split: option.splits)
    moreover have "ed25519_verify tab hash h signature message public_key = Some False"
      using False top_bits [OF S(1)] S(3) by (auto simp: ed25519_verify_def split: option.splits)
    ultimately show ?thesis by (simp only:)
  qed
qed

section \<open>Key pairs and signatures\<close>

lemma scalar_top_byte: "((a AND 63) OR 64 :: u8) \<le> 127"
proof -
  have "(a AND 63) AND 127 = a AND 63" by (simp add: and.assoc)
  then have "uint ((a AND 63) OR 64) = 64 + uint (a AND 63) mod 64" using last_byte [of "a AND 63"] by (simp only:)
  moreover have "uint (a AND 63) mod 64 < 64" by (rule pos_mod_bound) simp
  ultimately show ?thesis unfolding word_le_def by simp
qed

lemma create_keypair_parts:
  assumes "base_ok base B" "length (md_buf ctx) = 128" "length junk = 64"
  obtains priv where "length priv = 64"
    "ed25519_create_keypair base ctx junk seed = Some (point_bytes (smul (le_int (take 32 priv)) B), priv)"
proof -
  obtain d where d: "sha512 ctx (Some (take 32 seed)) (Some junk) = Some (Some d, 0)" "length d = 64"
    using sha512_returns [OF assms(2,3)] by metis
  define p where "p = d[0 := d ! 0 AND 248, 31 := d ! 31 AND 63]"
  define priv where "priv = p[31 := p ! 31 OR 64]"
  have run: "ed25519_create_keypair base ctx junk seed =
      Some (ge_p3_tobytes (ge_scalarmult_base base (take 32 priv)), priv)"
    using d(2) by (simp add: ed25519_create_keypair_def d(1) Let_def priv_def p_def)
  have len: "length priv = 64" "length (take 32 priv) = 32" using d(2) by (simp_all add: priv_def p_def)
  have "take 32 priv ! 31 \<le> 127" using d(2) scalar_top_byte by (simp add: priv_def p_def)
  from ge_p3_tobytes_is [OF ge_scalarmult_base_is [OF assms(1) len(2) this]] show thesis
    using that [OF len(1)] run by simp
qed

lemma sign_parts:
  assumes "base_ok base B" "length (md_buf hash) = 128" "length junk = 64" "length junk' = 64"
    "length public_key = 32" "length private_key = 64"
  obtains hash' hash'' r d sig where
    "sha512_chunks hash [Some (drop 32 private_key), Some message] (Some junk) = Some (Some hash', Some r)"
    "sha512_chunks hash' [Some (point_bytes (smul (le_int r mod order25519) B)), Some public_key, Some message] (Some junk')
      = Some (Some hash'', Some d)"
    "length (md_buf hash') = 128" "length r = 64" "length d = 64"
    "ed25519_sign base hash junk junk' message public_key private_key = Some sig" "length sig = 64"
    "take 32 sig = point_bytes (smul (le_int r mod order25519) B)"
    "le_int (drop 32 sig) = ((le_int d mod order25519) * le_int (take 32 private_key) + le_int r mod order25519) mod order25519"
proof -
  obtain hash' r where r: "sha512_chunks hash [Some (drop 32 private_key), Some message] (Some junk) = Some (Some hash', Some r)"
      "length (md_buf hash') = 128" "length r = 64"
    by (rule sha512_chunks_returns [OF assms(2,3), of "[drop 32 private_key, message]", unfolded list.map]) blast
  let ?r = "take 32 (sc_reduce r)"
  let ?R = "point_bytes (smul (le_int r mod order25519) B)"
  obtain hash'' d where d: "sha512_chunks hash' [Some ?R, Some public_key, Some message] (Some junk') = Some (Some hash'', Some d)"
      "length d = 64"
    by (rule sha512_chunks_returns [OF r(2) assms(4), of "[?R, public_key, message]", unfolded list.map]) blast
  have "le_int ?r < 2 ^ 255" unfolding reduced(2) [OF r(3)] using mod_order(2) [of "le_int r"] by simp
  then have "?r ! 31 \<le> 127" by (rule small_top_byte [OF reduced(1) [OF r(3)]])
  from ge_p3_tobytes_is [OF ge_scalarmult_base_is [OF assms(1) reduced(1) [OF r(3)] this]]
  have R: "ge_p3_tobytes (ge_scalarmult_base base ?r) = ?R" unfolding reduced(2) [OF r(3)] .
  let ?sig = "?R @ sc_muladd (take 32 (sc_reduce d)) (take 32 private_key) ?r"
  have key: "take 32 public_key = public_key" "take 32 (drop 32 private_key) = drop 32 private_key"
    using assms(5,6) by simp_all
  have sig: "ed25519_sign base hash junk junk' message public_key private_key = Some ?sig"
    by (simp add: ed25519_sign_def Let_def key r(1) d(1) R)
  have priv: "length (take 32 private_key) = 32" using assms(6) by simp
  from sc_muladd_value [OF reduced(1) [OF d(2)] priv reduced(1) [OF r(3)]]
  have S: "le_int (drop 32 ?sig) = ((le_int d mod order25519) * le_int (take 32 private_key) + le_int r mod order25519) mod order25519"
    by (simp add: point_bytes_number(1) reduced(2) [OF d(2)] reduced(2) [OF r(3)])
  show thesis
    by (rule that [OF r(1) d(1) r(2,3) d(2) sig _ _ S]) (simp_all add: point_bytes_number(1) length_sc_muladd)
qed

section \<open>The digest depends on the message only\<close>

text \<open>Also for messages whose length in bits does not fit into 64 bits, which FIPS 180-4 hashes differently.\<close>

definition digest_of :: "bytes \<Rightarrow> bytes" where
  "digest_of p =
     (let q = take (length p - length p mod 128) p;
          r = drop (length p - length p mod 128) p;
          n = STORE64H (of_nat (8 * length q) + of_nat (length r) * 8);
          H = foldl fips512_compress sha512_initial_state (blocks 128 q)
      in concat (map STORE64H
           (if length r < 112 then fips512_compress H (r @ [0x80] @ replicate (119 - length r) 0 @ n)
            else fips512_compress (fips512_compress H (r @ [0x80] @ replicate (127 - length r) 0)) (replicate 120 0 @ n))))"

lemma absorbed_digest_of: "absorbed512 md p \<Longrightarrow> md_digest (final_md md) = digest_of p"
proof -
  assume "absorbed512 md p"
  then obtain q r where p: "p = q @ r" "128 dvd length q" "length r < 128" "md_curlen md = length r"
      "length (md_buf md) = 128" "take (length r) (md_buf md) = r"
      "md_length md = of_nat (8 * length q)" "length (md_state md) = 8"
      "md_state md = foldl fips512_compress sha512_initial_state (blocks 128 q)"
    unfolding absorbed512_def by blast
  have "length p mod 128 = length r" using p(1-3) by (auto elim!: dvdE)
  then have cut: "take (length p - length p mod 128) p = q" "drop (length p - length p mod 128) p = r" by (simp_all add: p(1))
  show ?thesis
  proof (cases "length r < 112")
    case True
    then show ?thesis using sha512_final_short [OF True p(4,5,6,8)] unfolding digest_of_def cut Let_def p(7,9) by simp
  next
    case False
    then show ?thesis using sha512_final_long [OF _ p(3,4,5,6,8)] unfolding digest_of_def cut Let_def p(7,9) by simp
  qed
qed

lemma chunks_digest_of:
  assumes "length (md_buf md) = 128" "length out = 64"
    and "sha512_chunks md (map Some cs) (Some out) = Some (Some md', Some d)"
  shows "d = digest_of (concat cs)"
proof -
  obtain md1 where md1: "sha512_updates (Some (init_md md)) (map Some cs) = Some (Some md1)" "absorbed512 md1 (concat cs)"
    using absorbed512_updates [OF absorbed512_init [OF assms(1)], of cs] by auto
  then show ?thesis
    using assms(3) sha512_final_absorbed [OF md1(2) assms(2)] absorbed_digest_of [OF md1(2)]
    by (simp add: sha512_chunks_def sha512_init_def)
qed

section \<open>Signatures of generated keys\<close>

lemma multiple_mod_order: "smul order25519 B = 0 \<Longrightarrow> smul (k mod order25519) B = smul k B"
  by (rule smul_mod)

text \<open>The number of a signature times the base point, minus the hash times the public key, is the first half.\<close>

lemma signature_point:
  assumes "smul order25519 B = 0"
  shows "smul (((h mod order25519) * a + r mod order25519) mod order25519) B - smul (h mod order25519) (smul a B)
    = smul (r mod order25519) B"
  by (simp add: smul_mod [OF assms] smul_add smul_mult [symmetric])

lemma generated_signature_verifies:
  assumes "base_ok base B" "odd_multiples tab B" "smul order25519 B = 0"
    and "length (md_buf hash) = 128" "length (md_buf hash') = 128" "length junk = 64" "length junk' = 64" "length junk'' = 64"
    and "length priv = 64"
    and "ed25519_sign base hash junk junk' message (point_bytes (smul (le_int (take 32 priv)) B)) priv = Some sig"
  shows "ed25519_verify tab hash' junk'' sig message (point_bytes (smul (le_int (take 32 priv)) B)) = Some True"
proof -
  let ?pub = "point_bytes (smul (le_int (take 32 priv)) B)"
  obtain hash1 hash2 r d where sign:
    "sha512_chunks hash1 (map Some [point_bytes (smul (le_int r mod order25519) B), ?pub, message]) (Some junk')
      = Some (Some hash2, Some d)"
    "length (md_buf hash1) = 128" "length d = 64" "length sig = 64"
    "take 32 sig = point_bytes (smul (le_int r mod order25519) B)"
    "le_int (drop 32 sig) = ((le_int d mod order25519) * le_int (take 32 priv) + le_int r mod order25519) mod order25519"
    by (rule sign_parts [OF assms(1,4,6,7) point_bytes_number(1) [of "smul (le_int (take 32 priv)) B"] assms(9), of message])
      (use assms(10) in simp)
  obtain hash3 d' where verify: "sha512_chunks hash' (map Some [take 32 sig, ?pub, message]) (Some junk'') = Some (Some hash3, Some d')"
    by (rule sha512_chunks_returns [OF assms(5,8), of "[take 32 sig, ?pub, message]"]) blast
  have "d' = d"
    using chunks_digest_of [OF sign(2) assms(7) sign(1)] chunks_digest_of [OF assms(5,8) verify] by (simp only: sign(5))
  note verify = verify [unfolded this list.map]
  have "le_int (drop 32 sig) < 2 ^ 253" unfolding sign(6) by (rule mod_order)
  moreover have "take 32 sig = point_bytes (smul (le_int (drop 32 sig)) B - smul (le_int d mod order25519) (smul (le_int (take 32 priv)) B))"
    unfolding sign(6) signature_point [OF assms(3)] by (rule sign(5))
  ultimately show ?thesis
    using decodes_point_bytes
    by (subst verify_cases [OF assms(2) sign(4) point_bytes_number(1) sign(3) verify]) blast
qed

section \<open>Properties\<close>

text \<open>C12: With the table of precomp_data.h, and whatever the hash context and the arrays on the stack
  hold, ed25519_verify accepts exactly the signatures whose second half is a number S below 2^253,
  whose public key is the encoding of a point A of the curve, and whose first half is the encoding of
  S B - h A: B is the base point, and h the SHA-512 digest of the first half, the key and the message,
  modulo the order of B.\<close>

theorem verify_equation:
  assumes "length (md_buf hash) = 128" "length h = 64" "length signature = 64" "length public_key = 32"
    and "length message < 2 ^ 61 - 64"
  shows "ed25519_verify Bi hash h signature message public_key = Some
    (le_int (drop 32 signature) < 2 ^ 253 \<and>
     (\<exists>A. decodes public_key A \<and>
       take 32 signature = point_bytes (smul (le_int (drop 32 signature)) basepoint -
         smul (le_int (fips_sha512 (take 32 signature @ public_key @ message)) mod order25519) A)))"
proof -
  obtain hash' d where d: "sha512_chunks hash [Some (take 32 signature), Some public_key, Some message] (Some h) = Some (Some hash', Some d)"
      "length d = 64" "length (concat [take 32 signature, public_key, message]) < 2 ^ 61 \<Longrightarrow> d = fips_sha512 (concat [take 32 signature, public_key, message])"
    by (rule sha512_chunks_returns [OF assms(1,2), of "[take 32 signature, public_key, message]", unfolded list.map]) blast
  have "d = fips_sha512 (take 32 signature @ public_key @ message)" using d(3) assms(3-5) by simp
  then show ?thesis using verify_cases [OF Bi_odd_multiples assms(3,4) d(2,1)] by simp
qed

lemma verify_equation_witness:
  "ed25519_verify Bi \<lparr>md_length = 3, md_state = [], md_curlen = 77, md_buf = replicate 128 0xA5\<rparr>
     (replicate 64 7) (point_bytes 0 @ replicate 32 0) [1, 2, 3] (point_bytes 0) = Some True"
proof -
  have zero: "le_int (replicate 32 0) = 0" by (simp add: numeral_eq_Suc le_int_Cons)
  have "decodes (point_bytes 0) 0" by (rule decodes_point_bytes)
  then show ?thesis
    using verify_equation [of "\<lparr>md_length = 3, md_state = [], md_curlen = 77, md_buf = replicate 128 0xA5\<rparr>"
        "replicate 64 7" "point_bytes 0 @ replicate 32 0" "point_bytes 0" "[1, 2, 3]"]
    by (auto simp: point_bytes_number(1) zero intro!: exI [of _ 0])
qed

text \<open>Signatures of generated keys verify, for any tables of the multiples of a point whose multiple by the order is 0.\<close>

theorem signatures_of_generated_keys:
  assumes "base_ok base B" "odd_multiples tab B" "smul order25519 B = 0"
    and "length (md_buf ctx) = 128" "length (md_buf hash) = 128" "length (md_buf hash') = 128"
    and "length key = 64" "length junk = 64" "length junk' = 64" "length junk'' = 64"
  shows "\<exists>pub priv sig. ed25519_create_keypair base ctx key seed = Some (pub, priv) \<and>
    ed25519_sign base hash junk junk' message pub priv = Some sig \<and>
    length pub = 32 \<and> length priv = 64 \<and> length sig = 64 \<and>
    ed25519_verify tab hash' junk'' sig message pub = Some True"
proof -
  obtain priv where priv: "length priv = 64"
      "ed25519_create_keypair base ctx key seed = Some (point_bytes (smul (le_int (take 32 priv)) B), priv)"
    by (rule create_keypair_parts [OF assms(1,4,7)]) blast
  let ?pub = "point_bytes (smul (le_int (take 32 priv)) B)"
  obtain sig where sig: "ed25519_sign base hash junk junk' message ?pub priv = Some sig" "length sig = 64"
    by (rule sign_parts [OF assms(1,5,8,9) point_bytes_number(1) priv(1)]) blast
  from generated_signature_verifies [OF assms(1-3,5,6,8-10) priv(1) sig(1)] show ?thesis
    using priv sig point_bytes_number(1) by blast
qed

end
