(* ===== verification/SignKeys.thy ===== *)
theory SignKeys
  imports Crypto Ed25519
begin

text \<open>
  The signatures of the library, \<open>src/crypto.cpp\<close>, with the functions they call filled in: the model of
  \<open>lib/ed25519\<close>.  The hypothesis \<open>sign_law\<close> of the protocols holds of it for any tables that hold the
  multiples they should of a point of the right order.
\<close>

definition with_ed25519 :: "ge_precomp list list \<Rightarrow> ge_precomp list \<Rightarrow> sha512_context \<Rightarrow> crypto_prims \<Rightarrow> crypto_prims" where
  "with_ed25519 base tab ctx P =
     P\<lparr>crypto_prims.ed25519_create_keypair := (\<lambda>seed. the (Ed25519.ed25519_create_keypair base ctx (replicate 64 0) seed)),
       crypto_prims.ed25519_sign := (\<lambda>message public_key private_key.
         the (Ed25519.ed25519_sign base ctx (replicate 64 0) (replicate 64 0) message public_key private_key)),
       crypto_prims.ed25519_verify := (\<lambda>signature message public_key.
         the (Ed25519.ed25519_verify tab ctx (replicate 64 0) signature message public_key))\<rparr>"

lemma sign_returns:
  assumes "length (md_buf ctx) = 128" "length junk = 64" "length junk' = 64"
  shows "\<exists>sig. Ed25519.ed25519_sign base ctx junk junk' message pub priv = Some sig \<and> length sig = 64"
proof -
  obtain ctx' r where r: "sha512_chunks ctx [Some (take 32 (drop 32 priv)), Some message] (Some junk) = Some (Some ctx', Some r)"
      "length (md_buf ctx') = 128"
    by (rule sha512_chunks_returns [OF assms(1,2), of "[take 32 (drop 32 priv), message]", unfolded list.map]) blast
  let ?R = "ge_p3_tobytes (ge_scalarmult_base base (take 32 (sc_reduce r)))"
  obtain ctx'' d where d: "sha512_chunks ctx' [Some ?R, Some (take 32 pub), Some message] (Some junk') = Some (Some ctx'', Some d)"
    by (rule sha512_chunks_returns [OF r(2) assms(3), of "[?R, take 32 pub, message]", unfolded list.map]) blast
  show ?thesis
    by (simp add: Ed25519.ed25519_sign_def Let_def r(1) d length_ge_p3_tobytes length_sc_muladd)
qed

lemma sign_law_of_tables:
  assumes "base_ok base B" "odd_multiples tab B" "smul order25519 B = 0" "length (md_buf ctx) = 128"
  shows "sign_law (with_ed25519 base tab ctx P)"
proof -
  have z: "length (replicate 64 (0 :: u8)) = 64" by simp
  have pair: "\<exists>priv. length priv = 64 \<and> Ed25519.ed25519_create_keypair base ctx (replicate 64 0) seed =
      Some (point_bytes (smul (le_int (take 32 priv)) B), priv)" for seed
    by (rule create_keypair_parts [OF assms(1,4) z, of seed]) blast
  have verified: "the (Ed25519.ed25519_verify tab ctx (replicate 64 0)
      (the (Ed25519.ed25519_sign base ctx (replicate 64 0) (replicate 64 0) msg pub priv)) msg pub)"
    if "the (Ed25519.ed25519_create_keypair base ctx (replicate 64 0) seed) = (pub, priv)" for seed msg pub priv
  proof -
    have p: "length priv = 64" "pub = point_bytes (smul (le_int (take 32 priv)) B)" using pair [of seed] that by auto
    obtain sig where "Ed25519.ed25519_sign base ctx (replicate 64 0) (replicate 64 0) msg pub priv = Some sig"
      using sign_returns [OF assms(4) z z] by blast
    with generated_signature_verifies [OF assms(1-4,4) z z z p(1), folded p(2)] show ?thesis by simp
  qed
  have lengths: "length (fst (the (Ed25519.ed25519_create_keypair base ctx (replicate 64 0) seed))) = 32"
    "length (snd (the (Ed25519.ed25519_create_keypair base ctx (replicate 64 0) seed))) = 64" for seed
    using pair [of seed] by (auto simp: point_bytes_number(1))
  have signs: "length (the (Ed25519.ed25519_sign base ctx (replicate 64 0) (replicate 64 0) msg pub priv)) = 64" for msg pub priv
    using sign_returns [OF assms(4) z z, of base msg pub priv] by auto
  show ?thesis unfolding sign_law_def with_ed25519_def by (simp add: lengths signs verified)
qed

end
