(* ===== verification/Spec2Isabelle.thy ===== *)
theory Spec2Isabelle
  imports Sas PkProtocol CurveKeys SignKeys
begin

text \<open>
  A model of the Olm cryptographic library and the theorems that make it correct.

  The program.  The library keeps the state of end-to-end encrypted conversations.  An account holds
  the long term keys of a device and one-time keys that others may claim; two accounts make a
  session, whose messages are encrypted by a double ratchet; a group session encrypts for many
  receivers with a hash ratchet that only moves forward.  Besides these there are short authentication
  strings, encryption to a public key, and the pickles in which every object is stored.  The
  functions of \<open>include/olm/olm.h\<close> work in buffers of the caller and report an error by the
  result \<open>(size_t)-1\<close> and a code in the object.

  From the bottom to the top, the theories and the files under \<open>src/\<close> they model are these.

  \<^item> \<open>Prelude\<close>: machine integers, byte strings, the flat memory of output buffers.
  \<^item> \<open>OlmError\<close>, \<open>OlmMemory\<close>, \<open>OlmList\<close>, \<open>Base64\<close>: \<open>src/error.c\<close>, \<open>src/memory.cpp\<close>,
    \<open>include/olm/list.hh\<close>, \<open>src/base64.cpp\<close>.
  \<^item> \<open>Sha256\<close>, \<open>Aes\<close>: \<open>lib/crypto-algorithms\<close>.  \<open>Crypto\<close>: \<open>src/crypto.cpp\<close> on top of them, with
    HMAC, HKDF and the cipher in CBC mode.
  \<^item> \<open>Donna\<close>: \<open>lib/curve25519-donna/curve25519-donna.c\<close>; \<open>DonnaField\<close>, \<open>DonnaReduce\<close>,
    \<open>DonnaLadder\<close>, \<open>DonnaBytes\<close> and \<open>DonnaContract\<close> prove that it computes X25519;
    \<open>CurveKeys\<close> puts it in the place where \<open>Crypto\<close> calls it.
  \<^item> \<open>Sha512\<close>: \<open>lib/ed25519/src/sha512.c\<close>.  \<open>LimbPrograms\<close> runs the carries of \<open>sc.c\<close> and \<open>fe.c\<close> as lists
    of operations on limbs; \<open>EdScalar\<close> is \<open>sc.c\<close>, \<open>EdField\<close> and \<open>EdFieldBytes\<close> are \<open>fe.c\<close>, \<open>EdPoint\<close> and
    \<open>EdMult\<close> are \<open>ge.c\<close>, \<open>EdTable\<close> is the table \<open>Bi\<close> of \<open>precomp_data.h\<close>, \<open>Ed25519\<close> is \<open>keypair.c\<close>,
    \<open>sign.c\<close> and \<open>verify.c\<close>; \<open>SignKeys\<close> puts them in the place where \<open>Crypto\<close> calls them.  \<open>Prime25519\<close>,
    \<open>Gf25519\<close> and \<open>EdwardsGroup\<close> are the mathematics: \<open>2 ^ 255 - 19\<close> is prime, by certificates of
    Pocklington; the field; the points of the curve as an instance of \<open>ab_group_add\<close>.
  \<^item> \<open>Cipher\<close>, \<open>Pickle\<close>, \<open>PickleEncoding\<close>: \<open>src/cipher.cpp\<close>, \<open>src/pickle.cpp\<close>,
    \<open>src/pickle_encoding.c\<close>.
  \<^item> \<open>Message\<close> and \<open>MessageFormat\<close>: \<open>src/message.cpp\<close> and the formats it reads and writes.
  \<^item> \<open>Megolm\<close>, \<open>OutboundGroup\<close>, \<open>InboundGroup\<close>: \<open>src/megolm.c\<close> and the two kinds of group
    sessions; \<open>GroupProtocol\<close> has both ends together.
  \<^item> \<open>Ratchet\<close>, \<open>RatchetPickle\<close>: \<open>src/ratchet.cpp\<close>; \<open>RatchetProtocol\<close> has conversations of two
    ratchets, \<open>RatchetSafety\<close> what holds whatever messages arrive.
  \<^item> \<open>Account\<close>, \<open>AccountKeys\<close>, \<open>AccountPickle\<close>: \<open>src/account.cpp\<close>.
  \<^item> \<open>Session\<close>, \<open>SessionProtocol\<close>: \<open>src/session.cpp\<close> and sessions of two accounts.
  \<^item> \<open>Utility\<close>, \<open>OlmApi\<close>, \<open>SessionPickle\<close>, \<open>ApiProtocol\<close>: \<open>src/utility.cpp\<close>, \<open>src/olm.cpp\<close>,
    the pickles of sessions, and conversations through the functions an application calls.
  \<^item> \<open>Pk\<close>, \<open>PkProtocol\<close>: \<open>src/pk.cpp\<close>.  \<open>Sas\<close>: \<open>src/sas.c\<close>.
  \<^item> \<open>SamplePrims\<close>: a concrete instance of the primitives that are parameters, for the witnesses.

  State and operations.  A struct or class is a record with the fields of the source, under a prefix
  where two have the same name.  A function takes the object first and returns it updated.
  Output buffers are in the memory \<open>mem\<close>, a function from addresses to bytes: a function that writes to
  a buffer takes the memory and the pointer and returns the new memory, so that encoding in
  place, overlap and writes behind a buffer are what they are in C.  Inputs that nobody overwrites
  are byte strings.  \<open>None\<close> is the result \<open>(size_t)-1\<close>; the code in \<open>last_error\<close> is part of the state.
  Random bytes are an argument, as in the library.  Integers that can wrap around are words of
  their width; lengths and addresses are natural numbers.  Bounded lists are HOL lists with the
  operations of the code, whose simulation by the array with its end pointer is in
  \<open>OlmList\<close>.  Reading through a null pointer is the outcome \<open>Faults\<close> of \<open>Session\<close>.  A local array that
  is written behind its end has its address in the memory as an argument (\<open>session_id\<close>).

  Interfaces.  The locales are the contracts between components: \<open>bounded_list\<close>, \<open>olm_cipher\<close>,
  \<open>pickle_format\<close> and the ones that extend it, and \<open>sealed_pickle\<close>.  Each is interpreted on the
  model's own functions in the theory that has them, and the theories above use the facts of the
  interpretation.

  What the lemmas show.
  \<^item> Formats: writers and readers of messages and pickles are inverse, for every kind of object; readers
    never point outside their input; an envelope that is altered is refused.
  \<^item> Hashes and ciphers: the streaming hashes are the ones of FIPS 180-4, HMAC and HKDF are those of their
    standards, the block cipher with its tables is inverted by its decryption.
  \<^item> Curve25519: the field routines on ten limbs never overflow and are exact modulo the prime, so that
    the function is the Montgomery ladder on integers; what agreement of two parties amounts to.
  \<^item> Ed25519: the predicates \<open>fe_is n f x\<close> (limbs within \<open>n\<close> times the bounds of a product stand for the
    field element \<open>x\<close>) and \<open>p3_is\<close>, \<open>p2_is\<close>, \<open>p1p1_is\<close>, \<open>cached_is\<close>, \<open>precomp_is\<close> (coordinates stand for a
    point) are kept by every function of \<open>fe.c\<close> and \<open>ge.c\<close>, which gives that the additions are those of the
    group, that points and bytes convert both ways, that the signed digits of a scalar are the scalar, and
    that verification decides the equation of the signature scheme.  Signatures of generated keys verify for
    any tables that hold multiples of a point of the right order.
  \<^item> Ratchets: conversations of two parties in any order of delivery, replays and gaps refused, only
    authentic messages accepted, failure leaves the state as it was, and an invariant of
    all reachable states; jumping ahead in the group ratchet is the iterated single step.
  \<^item> Accounts: the invariant of all reachable accounts, one-time keys used once, the published documents.
  \<^item> Sessions: two accounts make sessions that understand each other, through the C interface too; a
    first message finds its session again.

  Bounds and fuel.  No definition runs on fuel: loops are structural recursions, functions with
  a measure, or partial functions whose result \<open>None\<close> is a call that does not return: the loop of
  \<open>sha512_update\<close>, which always returns (\<open>update_loop_returns\<close>), and the one of \<open>sha256_update\<close>, whose
  counter has 32 bits and which returns exactly for inputs shorter than \<open>2 ^ 32\<close> bytes
  (\<open>sha256_update_loop_short\<close>, \<open>sha256_update_loop_long\<close>); the functions above it use what it does to
  these.  Lengths that the code computes in \<open>size_t\<close> are unbounded here, so that the model speaks
  about buffers smaller than the address space.

  Hypotheses.  The protocols are proved for any key agreement and signature functions, the fields of the
  record \<open>crypto_prims\<close>, an argument of all definitions that use them.  \<open>sign_law\<close> says that
  signatures of a generated key verify, \<open>dh_law\<close> that the two sides of a key agreement get the same
  secret; the properties name the one they need.  What they mean for the functions of \<open>lib\<close> is in
  \<open>agreement_is_commutation\<close> and \<open>sign_law_of_tables\<close>.

  Not modelled.
  \<^item> The table \<open>base\<close> of \<open>precomp_data.h\<close>, 256 multiples of the base point, is an argument of the functions
    that use it, and that the base point has the order \<open>order25519\<close> is not proved: both take more
    arithmetic than the kernel can do in reasonable time.  Verification needs neither.  \<open>add_scalar.c\<close>,
    \<open>key_exchange.c\<close> and \<open>seed.c\<close> of \<open>lib/ed25519\<close> are not part of the library.
  \<^item> That X25519 commutes is the group law of the curve and not a fact about
    the code: \<open>agreement_is_commutation\<close> shows that it is all that \<open>dh_law\<close> needs.
  \<^item> \<open>Session::describe\<close>, which prints counters for debugging; the functions of \<open>olm.cpp\<close> that
    return the size of an object, a version number or a string for an error, and the counters for
    Emscripten.
  \<^item> The modes of operation in \<open>aes.c\<close>, which no caller uses, and the variant of
    Curve25519 for 64 bits, which is not built.
  \<^item> The bindings for other languages, which copy buffers into this interface; the unit tests, the
    test framework \<open>lib/doctest\<close> and the fuzzing harnesses.
\<close>

end
